(* ===== verification/Prelude.thy ===== *)
theory Prelude
  imports Main "HOL-Library.Sublist" "HOL-Library.Word" "HOL-Library.Code_Target_Nat"
begin

text \<open>
  Shared vocabulary of the development: the error values of the modelled Go code, the
  collections of simplification rules the component proofs use, and the generic facts on
  lists that several components need.

  A Go \<open>error\<close> is modelled by the list of sentinel errors that \<open>errors.Is\<close> finds
  in its chain; the message text is not modelled. A plain \<open>fmt.Errorf\<close> without
  \<open>%w\<close> is the empty list; an error with a method \<open>Code() int\<close>, which \<open>errors.As\<close> finds, is the sentinel
  \<open>SQLiteCode\<close>; the text of a message that the code inspects is \<open>ErrMessage\<close>; a Go panic is the sentinel \<open>GoPanic\<close>. A function with result \<open>(T, error)\<close> returns
  \<open>gerror + 'a\<close>, a validator with result \<open>error\<close> returns
  \<open>gerror option\<close>, where \<open>None\<close> is \<open>nil\<close>.
\<close>

named_theorems ascii \<open>facts on strings whose bytes are all below 128\<close>
named_theorems cmp_intros \<open>introduction rules for three-way comparisons\<close>
named_theorems text_simps \<open>unfolding rules of the modelled strings functions\<close>

datatype sentinel =
    ErrInvalidRule
  | ErrRangesUnsupported
  | ErrVersionSelectorsUnsupported
  | ErrPolicyIntegrity
  | ErrPolicyEvaluation
  | ErrRuleDataIntegrity
  | ErrRuleStoreUnavailable
  | ErrContextCanceled
  | ErrDeadlineExceeded
  | ErrConnDone
  | ErrBadConn
  | ErrInvalidDB
  | ErrRecordNotFound
  | ErrNotFound
  | ErrUnsupported
  | ErrUpstreamUnavailable
  | ErrMissingProvenance
  | ErrInvalidCoordinate
  | SQLiteCode int
  | ErrMessage string
  | GoPanic

type_synonym gerror = "sentinel list"

text \<open>Identifiers of rows, and times in nanoseconds.\<close>

type_synonym uint = "64 word"
type_synonym time = int

abbreviation plain_error :: gerror where
  "plain_error \<equiv> []"

definition errors_Is :: "gerror \<Rightarrow> sentinel \<Rightarrow> bool" where
  "errors_Is e s \<longleftrightarrow> s \<in> set e"

text \<open>Chaining of fallible calls: the \<open>if err != nil\<close> early return.\<close>

fun bind_err :: "gerror + 'a \<Rightarrow> ('a \<Rightarrow> gerror + 'b) \<Rightarrow> gerror + 'b" where
  "bind_err (Inl e) f = Inl e"
| "bind_err (Inr x) f = f x"

fun is_Inr :: "'e + 'a \<Rightarrow> bool" where
  "is_Inr (Inl e) = False"
| "is_Inr (Inr x) = True"

lemma bind_err_eq_Inr [simp]:
  "bind_err r f = Inr y \<longleftrightarrow> (\<exists>x. r = Inr x \<and> f x = Inr y)"
  by (cases r) auto

lemma bind_err_eq_Inl [simp]:
  "bind_err r f = Inl e \<longleftrightarrow> r = Inl e \<or> (\<exists>x. r = Inr x \<and> f x = Inl e)"
  by (cases r) auto

lemma is_Inr_iff: "is_Inr r \<longleftrightarrow> (\<exists>x. r = Inr x)"
  by (cases r) auto

subsection \<open>Lists\<close>

lemma take_length_takeWhile [simp]: "take (length (takeWhile P xs)) xs = takeWhile P xs"
  by (rule takeWhile_eq_take [symmetric])

lemma drop_length_takeWhile [simp]: "drop (length (takeWhile P xs)) xs = dropWhile P xs"
  by (rule dropWhile_eq_drop [symmetric])

lemma dropWhile_all_id: "list_all (\<lambda>x. \<not> P x) xs \<Longrightarrow> dropWhile P xs = xs"
  by (cases xs) auto

lemma list_all_takeWhile: "list_all P (takeWhile P xs)"
  by (induction xs) auto

lemma list_all_dropWhile: "list_all Q xs \<Longrightarrow> list_all Q (dropWhile P xs)"
  by (induction xs) auto

lemma list_all_imp: "list_all P xs \<Longrightarrow> (\<And>x. P x \<Longrightarrow> Q x) \<Longrightarrow> list_all Q xs"
  by (auto simp: list_all_iff)

lemma list_all_notin: "list_all P xs \<Longrightarrow> \<not> P x \<Longrightarrow> x \<notin> set xs"
  by (auto simp: list_all_iff)

definition strip_suffix_while :: "('a \<Rightarrow> bool) \<Rightarrow> 'a list \<Rightarrow> 'a list" where
  "strip_suffix_while P xs = rev (dropWhile P (rev xs))"

lemma strip_suffix_while_Nil [simp]: "strip_suffix_while P [] = []"
  by (simp add: strip_suffix_while_def)

lemma strip_suffix_while_snoc [simp]:
  "strip_suffix_while P (xs @ [x]) = (if P x then strip_suffix_while P xs else xs @ [x])"
  by (simp add: strip_suffix_while_def)

lemma strip_suffix_while_prefix: "\<exists>ys. xs = strip_suffix_while P xs @ ys \<and> list_all P ys"
proof (induction xs rule: rev_induct)
  case Nil
  then show ?case by simp
next
  case (snoc x xs)
  then obtain ys where ys: "xs = strip_suffix_while P xs @ ys" "list_all P ys"
    by blast
  show ?case
  proof (cases "P x")
    case True
    then have "xs @ [x] = strip_suffix_while P (xs @ [x]) @ (ys @ [x]) \<and> list_all P (ys @ [x])"
      using ys by simp
    then show ?thesis by blast
  next
    case False
    then show ?thesis by simp
  qed
qed

lemma strip_suffix_while_last:
  "strip_suffix_while P xs \<noteq> [] \<Longrightarrow> \<not> P (last (strip_suffix_while P xs))"
  by (induction xs rule: rev_induct) (auto split: if_splits)

lemma strip_suffix_while_id:
  "xs = [] \<or> \<not> P (last xs) \<Longrightarrow> strip_suffix_while P xs = xs"
  by (cases xs rule: rev_cases) auto

lemma strip_suffix_while_idem [simp]:
  "strip_suffix_while P (strip_suffix_while P xs) = strip_suffix_while P xs"
  using strip_suffix_while_last by (metis strip_suffix_while_id)

end
