(* ===== verification/Go_Strings.thy ===== *)
theory Go_Strings
  imports Prelude
begin

text \<open>
  The part of Go's string library the modelled code relies on. A Go string is a sequence of
  bytes, a \<open>string\<close> of 8-bit characters here. Functions of \<open>strings\<close> and
  \<open>unicode\<close> that look at code points decode UTF-8 as the language does: an invalid
  byte is one \<open>RuneError\<close> of width one. \<open>segments\<close> is that decoding, each rune
  paired with the bytes it came from.

  The Unicode tables above ASCII (case mapping, letter and number classes, decimal digits)
  and the calls into modules outside the repository are the fields of the record
  \<open>externals\<close>, an argument of every definition that needs them.
\<close>

type_synonym rune = nat

record externals =
  uc_lower :: "rune \<Rightarrow> rune"               \<comment> \<open>unicode.ToLower above ASCII\<close>
  uc_letter :: "rune \<Rightarrow> bool"             \<comment> \<open>unicode.IsLetter above ASCII\<close>
  uc_number :: "rune \<Rightarrow> bool"             \<comment> \<open>unicode.IsNumber above ASCII\<close>
  uc_other_alphabetic :: "rune \<Rightarrow> bool"   \<comment> \<open>unicode.Other_Alphabetic above ASCII\<close>
  uc_digit_r16 :: "(nat \<times> nat \<times> nat) list" \<comment> \<open>rows (Lo, Hi, Stride) of unicode.Digit.R16 after 0-9\<close>
  lower_english :: "string \<Rightarrow> string"      \<comment> \<open>golang.org/x/text cases.Lower(language.English)\<close>
  module_CheckPath :: "string \<Rightarrow> bool"     \<comment> \<open>golang.org/x/mod module.CheckPath returns nil\<close>

text \<open>An instance for the witnesses: ASCII only.\<close>

definition ascii_externals :: externals where
  "ascii_externals = \<lparr>uc_lower = (\<lambda>r. r), uc_letter = (\<lambda>_. False), uc_number = (\<lambda>_. False),
     uc_other_alphabetic = (\<lambda>_. False), uc_digit_r16 = [], lower_english = (\<lambda>s. s),
     module_CheckPath = (\<lambda>_. True)\<rparr>"

definition byte :: "char \<Rightarrow> nat" where
  [code_unfold]: "byte c = of_char c"

definition RuneError :: rune where
  "RuneError = 65533"

definition is_continuation :: "nat \<Rightarrow> nat \<Rightarrow> char \<Rightarrow> bool" where
  "is_continuation lo hi c \<longleftrightarrow> lo \<le> byte c \<and> byte c \<le> hi"

text \<open>\<open>utf8.DecodeRuneInString\<close>: the rune and its width in bytes.\<close>

fun decode2 :: "nat \<Rightarrow> string \<Rightarrow> rune \<times> nat" where
  "decode2 b (c1 # _) =
     (if is_continuation 128 191 c1 then ((b - 192) * 64 + (byte c1 - 128), 2)
      else (RuneError, 1))"
| "decode2 b _ = (RuneError, 1)"

fun decode3 :: "nat \<Rightarrow> string \<Rightarrow> rune \<times> nat" where
  "decode3 b (c1 # c2 # _) =
     (if is_continuation (if b = 224 then 160 else 128) (if b = 237 then 159 else 191) c1
         \<and> is_continuation 128 191 c2
      then ((b - 224) * 4096 + (byte c1 - 128) * 64 + (byte c2 - 128), 3)
      else (RuneError, 1))"
| "decode3 b _ = (RuneError, 1)"

fun decode4 :: "nat \<Rightarrow> string \<Rightarrow> rune \<times> nat" where
  "decode4 b (c1 # c2 # c3 # _) =
     (if is_continuation (if b = 240 then 144 else 128) (if b = 244 then 143 else 191) c1
         \<and> is_continuation 128 191 c2 \<and> is_continuation 128 191 c3
      then ((b - 240) * 262144 + (byte c1 - 128) * 4096 + (byte c2 - 128) * 64
             + (byte c3 - 128), 4)
      else (RuneError, 1))"
| "decode4 b _ = (RuneError, 1)"

fun DecodeRune :: "string \<Rightarrow> rune \<times> nat" where
  "DecodeRune [] = (RuneError, 0)"
| "DecodeRune (c # s) =
     (let b = byte c in
      if b < 128 then (b, 1)
      else if 194 \<le> b \<and> b \<le> 223 then decode2 b s
      else if 224 \<le> b \<and> b \<le> 239 then decode3 b s
      else if 240 \<le> b \<and> b \<le> 244 then decode4 b s
      else (RuneError, 1))"

lemma decode2_cases:
  "decode2 b s = (RuneError, 1) \<or> snd (decode2 b s) = 2 \<and> 1 \<le> length s"
  by (induction b s rule: decode2.induct) simp_all

lemma decode3_cases:
  "decode3 b s = (RuneError, 1) \<or> snd (decode3 b s) = 3 \<and> 2 \<le> length s"
  by (induction b s rule: decode3.induct) simp_all

lemma decode4_cases:
  "decode4 b s = (RuneError, 1) \<or> snd (decode4 b s) = 4 \<and> 3 \<le> length s"
  by (induction b s rule: decode4.induct) simp_all

lemma decode_width_pos [simp]:
  "0 < snd (decode2 b s)" "0 < snd (decode3 b s)" "0 < snd (decode4 b s)"
  using decode2_cases [of b s] decode3_cases [of b s] decode4_cases [of b s] by auto

lemma decode_width_le:
  "snd (decode2 b s) \<le> Suc (length s)" "snd (decode3 b s) \<le> Suc (length s)"
  "snd (decode4 b s) \<le> Suc (length s)"
  using decode2_cases [of b s] decode3_cases [of b s] decode4_cases [of b s] by auto

lemma DecodeRune_width_pos: "s \<noteq> [] \<Longrightarrow> 0 < snd (DecodeRune s)"
  by (cases s) (auto simp: Let_def)

lemma DecodeRune_width_le: "snd (DecodeRune s) \<le> length s"
  by (cases s) (auto simp: Let_def decode_width_le)

function segments :: "string \<Rightarrow> (rune \<times> string) list" where
  "segments [] = []"
| "segments (c # s) =
     (let (r, n) = DecodeRune (c # s) in (r, take n (c # s)) # segments (drop n (c # s)))"
  by pat_completeness auto
termination
proof (relation "measure length", simp)
  fix c s x r n
  assume "x = DecodeRune (c # s)" "(r, n) = x"
  moreover have "0 < snd (DecodeRune (c # s))"
    by (rule DecodeRune_width_pos) simp
  ultimately have "0 < n"
    by (metis snd_conv)
  then show "(drop n (c # s), c # s) \<in> measure length"
    by simp
qed

declare segments.simps [simp del]
declare DecodeRune.simps [simp del]

lemma segments_Nil [simp]: "segments [] = []"
  by (simp add: segments.simps)

lemma segments_ascii_Cons [simp, ascii]:
  "byte c < 128 \<Longrightarrow> segments (c # s) = (byte c, [c]) # segments s"
  by (simp add: segments.simps DecodeRune.simps)

lemma segments_eq_Nil_iff [simp]: "segments s = [] \<longleftrightarrow> s = []"
  by (cases s) (auto simp: segments.simps split: prod.splits)

lemma concat_segments [simp]: "concat (map snd (segments s)) = s"
proof (induction s rule: segments.induct)
  case 1
  then show ?case by simp
next
  case (2 c s)
  obtain r n where d: "DecodeRune (c # s) = (r, n)" by fastforce
  with "2.IH" [OF d [symmetric] refl] show ?case
    by (simp only: segments.simps d Let_def case_prod_conv list.map snd_conv concat.simps
        append_take_drop_id)
qed

subsection \<open>Unicode classes\<close>

text \<open>\<open>unicode.IsSpace\<close> and \<open>unicode.IsControl\<close> are fixed, small sets of runes.\<close>

definition IsSpace :: "rune \<Rightarrow> bool" where
  "IsSpace r \<longleftrightarrow> (9 \<le> r \<and> r \<le> 13) \<or> r = 32 \<or> r = 133 \<or> r = 160 \<or> r = 5760 \<or>
     (8192 \<le> r \<and> r \<le> 8202) \<or> r = 8232 \<or> r = 8233 \<or> r = 8239 \<or> r = 8287 \<or> r = 12288"

definition IsControl :: "rune \<Rightarrow> bool" where
  "IsControl r \<longleftrightarrow> r \<le> 31 \<or> (127 \<le> r \<and> r \<le> 159)"

definition ToLowerRune :: "externals \<Rightarrow> rune \<Rightarrow> rune" where
  "ToLowerRune E r =
     (if r < 128 then (if 65 \<le> r \<and> r \<le> 90 then r + 32 else r) else uc_lower E r)"

definition EncodeRune :: "rune \<Rightarrow> string" where
  "EncodeRune r0 =
     (let r = (if (55296 \<le> r0 \<and> r0 \<le> 57343) \<or> 1114111 < r0 then RuneError else r0) in
      if r < 128 then [char_of r]
      else if r < 2048 then [char_of (192 + r div 64), char_of (128 + r mod 64)]
      else if r < 65536 then
        [char_of (224 + r div 4096), char_of (128 + r div 64 mod 64), char_of (128 + r mod 64)]
      else
        [char_of (240 + r div 262144), char_of (128 + r div 4096 mod 64),
         char_of (128 + r div 64 mod 64), char_of (128 + r mod 64)])"

definition runes :: "string \<Rightarrow> rune list" where
  "runes s = map fst (segments s)"

definition string_of_runes :: "rune list \<Rightarrow> string" where
  "string_of_runes rs = concat (map EncodeRune rs)"

subsection \<open>The package strings\<close>

definition ContainsFunc :: "string \<Rightarrow> (rune \<Rightarrow> bool) \<Rightarrow> bool" where
  "ContainsFunc s f \<longleftrightarrow> list_ex f (runes s)"

definition TrimSpace :: "string \<Rightarrow> string" where
  "TrimSpace s =
     concat (map snd (strip_suffix_while (IsSpace \<circ> fst) (dropWhile (IsSpace \<circ> fst) (segments s))))"

definition ToLower :: "externals \<Rightarrow> string \<Rightarrow> string" where
  "ToLower E s = string_of_runes (map (ToLowerRune E) (runes s))"

definition HasPrefix :: "string \<Rightarrow> string \<Rightarrow> bool" where
  "HasPrefix s p \<longleftrightarrow> take (length p) s = p"

definition HasSuffix :: "string \<Rightarrow> string \<Rightarrow> bool" where
  "HasSuffix s p \<longleftrightarrow> HasPrefix (rev s) (rev p)"

definition TrimPrefix :: "string \<Rightarrow> string \<Rightarrow> string" where
  "TrimPrefix s p = (if HasPrefix s p then drop (length p) s else s)"

definition TrimSuffix :: "string \<Rightarrow> string \<Rightarrow> string" where
  "TrimSuffix s p = (if HasSuffix s p then take (length s - length p) s else s)"

text \<open>\<open>IndexByte\<close> and \<open>LastIndexByte\<close>; \<open>None\<close> is the result \<open>-1\<close>.\<close>

definition IndexByte :: "string \<Rightarrow> char \<Rightarrow> nat option" where
  "IndexByte s c = (if c \<in> set s then Some (length (takeWhile (\<lambda>x. x \<noteq> c) s)) else None)"

definition LastIndexByte :: "string \<Rightarrow> char \<Rightarrow> nat option" where
  "LastIndexByte s c =
     (if c \<in> set s then Some (length s - length (takeWhile (\<lambda>x. x \<noteq> c) (rev s)) - 1) else None)"

text \<open>\<open>Split\<close> at a one-byte separator.\<close>

fun Split :: "string \<Rightarrow> char \<Rightarrow> string list" where
  "Split [] d = [[]]"
| "Split (c # s) d =
     (if c = d then [] # Split s d
      else (case Split s d of w # ws \<Rightarrow> (c # w) # ws | [] \<Rightarrow> [[c]]))"

fun Join :: "string list \<Rightarrow> string \<Rightarrow> string" where
  "Join [] sep = []"
| "Join [w] sep = w"
| "Join (w # v # ws) sep = w @ sep @ Join (v # ws) sep"

definition Count :: "string \<Rightarrow> char \<Rightarrow> nat" where
  "Count s c = count_list s c"

definition ContainsByte :: "string \<Rightarrow> char \<Rightarrow> bool" where
  "ContainsByte s c \<longleftrightarrow> c \<in> set s"

text \<open>\<open>ContainsAny\<close> with an ASCII character set: no byte of a multi-byte rune is ASCII.\<close>

definition ContainsAny :: "string \<Rightarrow> string \<Rightarrow> bool" where
  "ContainsAny s chars \<longleftrightarrow> list_ex (\<lambda>c. c \<in> set chars) s"

fun Contains :: "string \<Rightarrow> string \<Rightarrow> bool" where
  "Contains [] p \<longleftrightarrow> p = []"
| "Contains (c # s) p \<longleftrightarrow> HasPrefix (c # s) p \<or> Contains s p"

definition TrimLeft :: "string \<Rightarrow> char \<Rightarrow> string" where
  "TrimLeft s c = dropWhile (\<lambda>x. x = c) s"

definition Trim :: "string \<Rightarrow> char \<Rightarrow> string" where
  "Trim s c = strip_suffix_while (\<lambda>x. x = c) (TrimLeft s c)"

text \<open>\<open>Cut\<close> at a one-byte separator: before, after, found.\<close>

definition Cut :: "string \<Rightarrow> char \<Rightarrow> string \<times> string \<times> bool" where
  "Cut s c =
     (if c \<in> set s then (takeWhile (\<lambda>x. x \<noteq> c) s, tl (dropWhile (\<lambda>x. x \<noteq> c) s), True)
      else (s, [], False))"

fun Compare :: "string \<Rightarrow> string \<Rightarrow> int" where
  "Compare [] [] = 0"
| "Compare [] (b # t) = -1"
| "Compare (a # s) [] = 1"
| "Compare (a # s) (b # t) =
     (if byte a < byte b then -1 else if byte b < byte a then 1 else Compare s t)"

text \<open>
  \<open>EqualFold\<close> against an ASCII word. Under simple folding the only runes above ASCII
  that fold to an ASCII letter are U+017F (s) and U+212A (k).
\<close>

definition FoldRune :: "rune \<Rightarrow> rune" where
  "FoldRune r =
     (if 65 \<le> r \<and> r \<le> 90 then r + 32 else if r = 383 then 115 else if r = 8490 then 107 else r)"

definition EqualFoldASCII :: "string \<Rightarrow> string \<Rightarrow> bool" where
  "EqualFoldASCII s w \<longleftrightarrow> map FoldRune (runes s) = map (FoldRune \<circ> byte) w"

subsection \<open>Facts on trimming and splitting\<close>

lemma decode2_prefix:
  assumes "decode2 b (t @ q) = (r, n)" and "n \<le> Suc (length t)"
  shows "decode2 b t = (r, n)"
proof (cases "1 \<le> length t")
  case True
  then obtain c u where "t = c # u" by (cases t) auto
  with assms show ?thesis by simp
next
  case False
  then show ?thesis
    using assms decode2_cases [of b t] decode2_cases [of b "t @ q"] by auto
qed

lemma decode3_prefix:
  assumes "decode3 b (t @ q) = (r, n)" and "n \<le> Suc (length t)"
  shows "decode3 b t = (r, n)"
proof (cases "2 \<le> length t")
  case True
  then obtain c d u where "t = c # d # u"
    by (cases t; cases "tl t") auto
  with assms show ?thesis by simp
next
  case False
  then show ?thesis
    using assms decode3_cases [of b t] decode3_cases [of b "t @ q"] by auto
qed

lemma decode4_prefix:
  assumes "decode4 b (t @ q) = (r, n)" and "n \<le> Suc (length t)"
  shows "decode4 b t = (r, n)"
proof (cases "3 \<le> length t")
  case True
  then obtain c d e u where "t = c # d # e # u"
    by (metis Suc_le_length_iff numeral_3_eq_3)
  with assms show ?thesis by simp
next
  case False
  then show ?thesis
    using assms decode4_cases [of b t] decode4_cases [of b "t @ q"] by auto
qed

lemma DecodeRune_prefix:
  assumes "DecodeRune (p @ q) = (r, n)" and "n \<le> length p" and "p \<noteq> []"
  shows "DecodeRune p = (r, n)"
proof -
  obtain c t where p: "p = c # t" using assms(3) by (cases p) auto
  let ?b = "byte c"
  have n: "n \<le> Suc (length t)" using assms(2) p by simp
  consider "?b < 128" | "194 \<le> ?b" "?b \<le> 223" | "224 \<le> ?b" "?b \<le> 239"
    | "240 \<le> ?b" "?b \<le> 244" | "128 \<le> ?b" "?b < 194 \<or> 244 < ?b"
    by linarith
  then show ?thesis
  proof cases
    case 2
    then show ?thesis using decode2_prefix [OF _ n] assms(1) by (simp add: p DecodeRune.simps)
  next
    case 3
    then show ?thesis using decode3_prefix [OF _ n] assms(1) by (simp add: p DecodeRune.simps)
  next
    case 4
    then show ?thesis using decode4_prefix [OF _ n] assms(1) by (simp add: p DecodeRune.simps)
  qed (use assms(1) in \<open>auto simp: p DecodeRune.simps\<close>)
qed

lemma DecodeRune_take:
  assumes "snd (DecodeRune s) \<le> m" and "s \<noteq> []"
  shows "DecodeRune (take m s) = DecodeRune s"
proof -
  obtain r n where d: "DecodeRune s = (r, n)" by fastforce
  have n: "0 < n" "n \<le> length s"
    using DecodeRune_width_pos [OF assms(2)] DecodeRune_width_le [of s] d by auto
  have "DecodeRune (take m s @ drop m s) = (r, n)" using d by simp
  then have "DecodeRune (take m s) = (r, n)"
    by (rule DecodeRune_prefix) (use assms n d in auto)
  then show ?thesis using d by simp
qed

lemma segments_append_left:
  "segments s = xs @ ys \<Longrightarrow> segments (concat (map snd xs)) = xs"
proof (induction s arbitrary: xs rule: segments.induct)
  case 1
  then show ?case by simp
next
  case (2 c s)
  obtain r n where d: "DecodeRune (c # s) = (r, n)" by fastforce
  have n: "0 < n" "n \<le> length (c # s)"
    using DecodeRune_width_pos [of "c # s"] DecodeRune_width_le [of "c # s"] d by auto
  have segs: "segments (c # s) = (r, take n (c # s)) # segments (drop n (c # s))"
    by (simp only: segments.simps d Let_def case_prod_conv)
  show ?case
  proof (cases xs)
    case Nil
    then show ?thesis by simp
  next
    case (Cons x xs')
    with "2.prems" segs have x: "x = (r, take n (c # s))"
      and rest: "segments (drop n (c # s)) = xs' @ ys"
      by auto
    let ?w = "concat (map snd xs')"
    have pre: "c # s = take n (c # s) @ ?w @ concat (map snd ys)"
    proof -
      have "drop n (c # s) = concat (map snd (xs' @ ys))"
        using concat_segments [of "drop n (c # s)"] rest by simp
      then show ?thesis
        by (metis append_take_drop_id concat_append map_append)
    qed
    have len: "n + length ?w \<le> length (c # s)"
      using arg_cong [OF pre, of length] n(2) by simp
    have tk: "take (n + length ?w) (c # s) = take n (c # s) @ ?w"
    proof -
      have "take (n + length ?w) (take n (c # s) @ ?w @ concat (map snd ys))
          = take n (c # s) @ ?w"
        using n(2) by simp
      then show ?thesis using pre by metis
    qed
    have dec: "DecodeRune (take n (c # s) @ ?w) = (r, n)"
      using DecodeRune_take [of "c # s" "n + length ?w"] d tk by simp
    obtain t where t: "take n (c # s) @ ?w = c # t"
      using n(1) by (cases n) auto
    have "segments (c # t) = (r, take n (c # t)) # segments (drop n (c # t))"
      using dec unfolding t by (simp only: segments.simps Let_def case_prod_conv)
    moreover have "take n (c # t) = take n (c # s)" "drop n (c # t) = ?w"
      unfolding t [symmetric] using n(2) by auto
    ultimately have "segments (take n (c # s) @ ?w) = (r, take n (c # s)) # segments ?w"
      unfolding t by simp
    with "2.IH" [OF d [symmetric] refl rest] show ?thesis
      by (simp add: Cons x)
  qed
qed

lemma segments_append_right:
  "segments s = xs @ ys \<Longrightarrow> segments (concat (map snd ys)) = ys"
proof (induction s arbitrary: xs rule: segments.induct)
  case 1
  then show ?case by simp
next
  case (2 c s)
  obtain r n where d: "DecodeRune (c # s) = (r, n)" by fastforce
  have segs: "segments (c # s) = (r, take n (c # s)) # segments (drop n (c # s))"
    by (simp only: segments.simps d Let_def case_prod_conv)
  show ?case
  proof (cases xs)
    case Nil
    then show ?thesis using "2.prems" concat_segments [of "c # s"] by simp
  next
    case (Cons x xs')
    with "2.prems" segs have "segments (drop n (c # s)) = xs' @ ys"
      by auto
    then show ?thesis by (rule "2.IH" [OF d [symmetric] refl])
  qed
qed

lemma segments_TrimSpace:
  "segments (TrimSpace s) =
     strip_suffix_while (IsSpace \<circ> fst) (dropWhile (IsSpace \<circ> fst) (segments s))"
proof -
  let ?d = "dropWhile (IsSpace \<circ> fst) (segments s)"
  have "segments (concat (map snd ?d)) = ?d"
    by (rule segments_append_right [of s "takeWhile (IsSpace \<circ> fst) (segments s)"]) simp
  moreover obtain zs where "?d = strip_suffix_while (IsSpace \<circ> fst) ?d @ zs"
    using strip_suffix_while_prefix by blast
  ultimately have "segments (concat (map snd ?d)) = strip_suffix_while (IsSpace \<circ> fst) ?d @ zs"
    by simp
  then show ?thesis
    unfolding TrimSpace_def by (rule segments_append_left)
qed

lemma strip_suffix_while_Cons_head:
  "strip_suffix_while P xs = y # ys \<Longrightarrow> \<exists>zs. xs = y # zs"
  using strip_suffix_while_prefix [of xs P] by (metis append_Cons)

lemma TrimSpace_idem [simp]: "TrimSpace (TrimSpace s) = TrimSpace s"
proof -
  let ?P = "IsSpace \<circ> fst"
  let ?x = "strip_suffix_while ?P (dropWhile ?P (segments s))"
  have "dropWhile ?P ?x = ?x"
  proof (cases ?x)
    case Nil
    then show ?thesis by simp
  next
    case (Cons y ys)
    from strip_suffix_while_Cons_head [OF Cons]
    obtain zs where "dropWhile ?P (segments s) = y # zs" ..
    then have "\<not> ?P y" using hd_dropWhile [of ?P "segments s"] by simp
    then show ?thesis using Cons by simp
  qed
  then show ?thesis
    by (simp only: TrimSpace_def [of "TrimSpace s"] segments_TrimSpace
        strip_suffix_while_idem TrimSpace_def [of s, symmetric])
qed

lemma TrimSpace_id:
  "\<not> ContainsFunc s IsSpace \<Longrightarrow> TrimSpace s = s"
proof -
  assume "\<not> ContainsFunc s IsSpace"
  then have a: "list_all (\<lambda>x. \<not> (IsSpace \<circ> fst) x) (segments s)"
    by (simp add: ContainsFunc_def runes_def list_ex_iff list_all_iff)
  then have "strip_suffix_while (IsSpace \<circ> fst) (segments s) = segments s"
    by (intro strip_suffix_while_id) (auto simp: list_all_iff)
  with a show ?thesis
    by (simp add: TrimSpace_def dropWhile_all_id)
qed

lemma TrimSpace_Nil [simp]: "TrimSpace [] = []"
  by (simp add: TrimSpace_def)

lemma TrimSpace_ContainsFunc:
  "ContainsFunc (TrimSpace s) f \<Longrightarrow> ContainsFunc s f"
proof -
  assume "ContainsFunc (TrimSpace s) f"
  then obtain x where x: "x \<in> set (strip_suffix_while (IsSpace \<circ> fst)
      (dropWhile (IsSpace \<circ> fst) (segments s)))" "f (fst x)"
    by (auto simp: ContainsFunc_def runes_def list_ex_iff segments_TrimSpace)
  then have "x \<in> set (segments s)"
    by (metis Un_iff set_append set_dropWhileD strip_suffix_while_prefix)
  with x(2) show ?thesis
    by (auto simp: ContainsFunc_def runes_def list_ex_iff)
qed

lemma Split_nonempty [simp]: "Split s c \<noteq> []"
  by (induction s) (auto split: list.splits)

lemma Split_Cons_other:
  "d \<noteq> c \<Longrightarrow> Split (d # s) c = (d # hd (Split s c)) # tl (Split s c)"
  by (cases "Split s c") simp_all

lemma Join_Cons: "ws \<noteq> [] \<Longrightarrow> Join (w # ws) sep = w @ sep @ Join ws sep"
  by (cases ws) simp_all

lemma Join_Split [simp]: "Join (Split s c) [c] = s"
proof (induction s)
  case (Cons d s)
  show ?case
  proof (cases "d = c")
    case True
    then show ?thesis using Cons.IH by (simp add: Join_Cons)
  next
    case False
    obtain w ws where w: "Split s c = w # ws" by (cases "Split s c") auto
    then show ?thesis
      using False Cons.IH by (cases ws) auto
  qed
qed simp

lemma Split_no_sep: "w \<in> set (Split s c) \<Longrightarrow> c \<notin> set w"
proof (induction s arbitrary: w)
  case (Cons d s)
  show ?case
  proof (cases "d = c")
    case True
    then show ?thesis using Cons by auto
  next
    case False
    then obtain v vs where v: "Split s c = v # vs" by (cases "Split s c") auto
    then have "w = d # v \<or> w \<in> set vs"
      using Cons.prems False by simp
    then show ?thesis
      using False Cons.IH [of v] Cons.IH [of w] v by auto
  qed
qed simp

lemma set_Split: "set s = \<Union> (set ` set (Split s c)) \<union> (if length (Split s c) > 1 then {c} else {})"
proof (induction s)
  case (Cons d s)
  obtain w ws where w: "Split s c = w # ws" by (cases "Split s c") auto
  show ?case
    using Cons.IH by (cases "d = c") (auto simp: w split: if_splits)
qed simp

lemma Split_append_sep: "c \<notin> set w \<Longrightarrow> Split (w @ c # s) c = w # Split s c"
  by (induction w) auto

lemma Split_no_occ: "c \<notin> set w \<Longrightarrow> Split w c = [w]"
  by (induction w) auto

lemma Split_Join:
  "ws \<noteq> [] \<Longrightarrow> list_all (\<lambda>w. c \<notin> set w) ws \<Longrightarrow> Split (Join ws [c]) c = ws"
proof (induction ws)
  case (Cons w ws)
  then show ?case
    by (cases ws) (simp_all add: Split_no_occ Split_append_sep)
qed simp

lemma Split_list_all:
  "list_all (\<lambda>w. list_all P w) (Split s c) \<Longrightarrow> P c \<Longrightarrow> list_all P s"
  using set_Split [of s c] by (auto simp: list_all_iff split: if_splits)

lemma list_all_Split:
  "list_all P s \<Longrightarrow> list_all (\<lambda>w. list_all P w) (Split s c)"
  using set_Split [of s c] by (auto simp: list_all_iff split: if_splits)

lemma IndexByte_Some:
  "IndexByte s c = Some i \<Longrightarrow>
     s = take i s @ c # drop (Suc i) s \<and> c \<notin> set (take i s) \<and> i < length s"
proof -
  assume "IndexByte s c = Some i"
  then have i: "i = length (takeWhile (\<lambda>x. x \<noteq> c) s)" and c: "c \<in> set s"
    by (auto simp: IndexByte_def split: if_splits)
  have t: "take i s = takeWhile (\<lambda>x. x \<noteq> c) s" and d: "drop i s = dropWhile (\<lambda>x. x \<noteq> c) s"
    by (simp_all add: i)
  have ne: "dropWhile (\<lambda>x. x \<noteq> c) s \<noteq> []" using c by (simp add: dropWhile_eq_Nil_conv)
  then have hd: "hd (dropWhile (\<lambda>x. x \<noteq> c) s) = c" using hd_dropWhile [OF ne] by simp
  have lt: "i < length s" using ne d by (metis drop_all not_le_imp_less)
  then have "drop i s = c # drop (Suc i) s"
    using hd d by (metis Cons_nth_drop_Suc list.sel(1))
  then have "s = take i s @ c # drop (Suc i) s" by (metis append_take_drop_id)
  moreover have "c \<notin> set (take i s)" unfolding t using set_takeWhileD by fastforce
  ultimately show ?thesis using lt by blast
qed

lemma IndexByte_absent [simp]: "c \<notin> set s \<Longrightarrow> IndexByte s c = None"
  by (simp add: IndexByte_def)

lemma IndexByte_None: "IndexByte s c = None \<longleftrightarrow> c \<notin> set s"
  by (simp add: IndexByte_def)

lemma IndexByte_append: "c \<notin> set a \<Longrightarrow> IndexByte (a @ c # b) c = Some (length a)"
  by (induction a) (auto simp: IndexByte_def)

lemma LastIndexByte_absent [simp]: "c \<notin> set s \<Longrightarrow> LastIndexByte s c = None"
  by (simp add: LastIndexByte_def)

lemma LastIndexByte_None: "LastIndexByte s c = None \<longleftrightarrow> c \<notin> set s"
  by (simp add: LastIndexByte_def)

lemma LastIndexByte_append: "c \<notin> set b \<Longrightarrow> LastIndexByte (a @ c # b) c = Some (length a)"
proof -
  assume "c \<notin> set b"
  then have "takeWhile (\<lambda>x. x \<noteq> c) (rev b @ c # rev a) = rev b"
    by (subst takeWhile_append2) auto
  then show ?thesis by (simp add: LastIndexByte_def)
qed

lemma Cut_snd: "Cut s c = (a, b, f) \<Longrightarrow> s = (if f then a @ c # b else a) \<and> (\<not> f \<longrightarrow> b = []) \<and> c \<notin> set a"
proof -
  assume "Cut s c = (a, b, f)"
  moreover have "s = takeWhile (\<lambda>x. x \<noteq> c) s @ c # tl (dropWhile (\<lambda>x. x \<noteq> c) s)" if "c \<in> set s"
  proof -
    have "dropWhile (\<lambda>x. x \<noteq> c) s \<noteq> []" using that by (simp add: dropWhile_eq_Nil_conv)
    then have "dropWhile (\<lambda>x. x \<noteq> c) s = c # tl (dropWhile (\<lambda>x. x \<noteq> c) s)"
      using hd_dropWhile [of "\<lambda>x. x \<noteq> c" s] by (metis list.collapse)
    then show ?thesis by (metis takeWhile_dropWhile_id)
  qed
  ultimately show ?thesis
    by (auto simp: Cut_def split: if_splits dest: set_takeWhileD)
qed

lemma list_all_Join:
  "list_all (list_all P) ws \<Longrightarrow> list_all P sep \<Longrightarrow> list_all P (Join ws sep)"
proof (induction ws)
  case (Cons w ws)
  then show ?case by (cases ws) simp_all
qed simp

lemma Cut_append: "c \<notin> set a \<Longrightarrow> Cut (a @ c # b) c = (a, b, True)"
  by (induction a) (auto simp: Cut_def)

lemma Cut_absent: "c \<notin> set a \<Longrightarrow> Cut a c = (a, [], False)"
  by (simp add: Cut_def)

lemma Join_head: "w \<noteq> [] \<Longrightarrow> Join (w # ws) sep \<noteq> []"
  by (cases ws) simp_all

lemma Join_Cons_char: "Join ((c # v) # ws) sep = c # Join (v # ws) sep"
  by (cases ws) simp_all

end
