(* ===== verification/Comparators.thy ===== *)
theory Comparators
  imports Prelude
begin

text \<open>
  Three-way comparison functions in Go's convention: negative, zero or positive. The locale
  \<open>symmetric_cmp\<close> is the contract every version comparison of the repository keeps
  (swapping the arguments negates the answer); \<open>three_way\<close> adds transitivity, which makes
  the comparison a total preorder and is what an ordered version selector needs. The
  combinators at the end build the comparisons of the dialects: lexicographic composition,
  comparison of an image, and two ways of comparing lists.
\<close>

locale symmetric_cmp =
  fixes cmp :: "'a \<Rightarrow> 'a \<Rightarrow> int"
  assumes antisym: "cmp y x = - cmp x y"
begin

lemma refl [simp]: "cmp x x = 0"
  using antisym [of x x] by simp

lemma eq_sym: "cmp x y = 0 \<longleftrightarrow> cmp y x = 0"
  using antisym [of x y] by simp

lemma ge_iff: "0 \<le> cmp x y \<longleftrightarrow> cmp y x \<le> 0"
  using antisym [of x y] by simp

lemma gt_iff: "0 < cmp x y \<longleftrightarrow> cmp y x < 0"
  using antisym [of x y] by simp

lemma connex: "cmp x y \<le> 0 \<or> cmp y x \<le> 0"
  using antisym [of x y] by linarith

end

locale three_way = symmetric_cmp +
  assumes le_trans: "cmp x y \<le> 0 \<Longrightarrow> cmp y z \<le> 0 \<Longrightarrow> cmp x z \<le> 0"
begin

lemma eq_trans: "cmp x y = 0 \<Longrightarrow> cmp y z = 0 \<Longrightarrow> cmp x z = 0"
  using le_trans [of x y z] le_trans [of z y x] antisym [of x y] antisym [of y z] antisym [of x z]
  by linarith

lemma less_le_trans: "cmp x y < 0 \<Longrightarrow> cmp y z \<le> 0 \<Longrightarrow> cmp x z < 0"
  using le_trans [of x y z] le_trans [of y z x] antisym [of x y] antisym [of x z] by linarith

lemma le_less_trans: "cmp x y \<le> 0 \<Longrightarrow> cmp y z < 0 \<Longrightarrow> cmp x z < 0"
  using le_trans [of x y z] le_trans [of z x y] antisym [of y z] antisym [of x z] by linarith

lemma eq_le_cong: "cmp x y = 0 \<Longrightarrow> cmp x z \<le> 0 \<longleftrightarrow> cmp y z \<le> 0"
  using le_trans [of x y z] le_trans [of y x z] antisym [of x y] by linarith

lemma eq_less_cong: "cmp x y = 0 \<Longrightarrow> cmp x z < 0 \<longleftrightarrow> cmp y z < 0"
  using le_less_trans [of y x z] le_less_trans [of x y z] antisym [of x y] by linarith

lemma eq_eq_cong: "cmp x y = 0 \<Longrightarrow> cmp x z = 0 \<longleftrightarrow> cmp y z = 0"
  using eq_le_cong [of x y z] eq_less_cong [of x y z] by linarith

end

subsection \<open>Combinators\<close>

definition lex_cmp :: "('a \<Rightarrow> 'a \<Rightarrow> int) \<Rightarrow> ('a \<Rightarrow> 'a \<Rightarrow> int) \<Rightarrow> 'a \<Rightarrow> 'a \<Rightarrow> int" where
  "lex_cmp c d x y = (if c x y \<noteq> 0 then c x y else d x y)"

lemma lex_cmp_three_way [cmp_intros]:
  assumes "three_way c" and "three_way d"
  shows "three_way (lex_cmp c d)"
proof
  fix x y z
  show "lex_cmp c d y x = - lex_cmp c d x y"
    using assms [THEN three_way.axioms(1), THEN symmetric_cmp.antisym]
    by (metis (mono_tags, opaque_lifting) add.inverse_neutral lex_cmp_def)
  assume "lex_cmp c d x y \<le> 0" and "lex_cmp c d y z \<le> 0"
  then have le: "c x y \<le> 0" "c y z \<le> 0"
    by (auto simp: lex_cmp_def split: if_splits)
  then consider "c x z < 0" | "c x y = 0" "c y z = 0"
    using three_way.less_le_trans [OF assms(1), of x y z]
      three_way.le_less_trans [OF assms(1), of x y z] by linarith
  then show "lex_cmp c d x z \<le> 0"
  proof cases
    case 1
    then show ?thesis by (simp add: lex_cmp_def)
  next
    case 2
    then have "c x z = 0" by (rule three_way.eq_trans [OF assms(1)])
    moreover have "d x z \<le> 0"
      using 2 \<open>lex_cmp c d x y \<le> 0\<close> \<open>lex_cmp c d y z \<le> 0\<close>
      by (intro three_way.le_trans [OF assms(2), of x y z]) (simp_all add: lex_cmp_def)
    ultimately show ?thesis by (simp add: lex_cmp_def)
  qed
qed

lemma image_three_way:
  "three_way c \<Longrightarrow> three_way (\<lambda>x y. c (f x) (f y))"
  unfolding three_way_def three_way_axioms_def symmetric_cmp_def by blast

definition int_cmp :: "int \<Rightarrow> int \<Rightarrow> int" where
  "int_cmp a b = sgn (a - b)"

lemma int_cmp_three_way [cmp_intros]: "three_way int_cmp"
  by unfold_locales (auto simp: int_cmp_def sgn_if split: if_splits)

lemma nat_sign_three_way [cmp_intros]: "three_way (\<lambda>a b. sgn (int a - int b))"
  using image_three_way [OF int_cmp_three_way, of int] by (simp add: int_cmp_def)

text \<open>
  Lists, element by element; where one list ends first, \<open>z\<close> stands for its missing
  elements.
\<close>

fun pad_cmp :: "('a \<Rightarrow> 'a \<Rightarrow> int) \<Rightarrow> 'a \<Rightarrow> 'a list \<Rightarrow> 'a list \<Rightarrow> int" where
  "pad_cmp c z [] [] = 0"
| "pad_cmp c z (x # xs) [] = (if c x z \<noteq> 0 then c x z else pad_cmp c z xs [])"
| "pad_cmp c z [] (y # ys) = (if c z y \<noteq> 0 then c z y else pad_cmp c z [] ys)"
| "pad_cmp c z (x # xs) (y # ys) = (if c x y \<noteq> 0 then c x y else pad_cmp c z xs ys)"

definition pad_hd :: "'a \<Rightarrow> 'a list \<Rightarrow> 'a" where
  "pad_hd z xs = (case xs of [] \<Rightarrow> z | x # _ \<Rightarrow> x)"

lemma pad_cmp_step:
  assumes "symmetric_cmp c"
  shows "pad_cmp c z xs ys =
    (if c (pad_hd z xs) (pad_hd z ys) \<noteq> 0 then c (pad_hd z xs) (pad_hd z ys)
     else pad_cmp c z (tl xs) (tl ys))"
  using symmetric_cmp.refl [OF assms]
  by (cases xs; cases ys) (simp_all add: pad_hd_def)

lemma pad_cmp_antisym:
  assumes "symmetric_cmp c"
  shows "pad_cmp c z ys xs = - pad_cmp c z xs ys"
  using assms
proof (induction c z xs ys rule: pad_cmp.induct)
  case (2 c z x xs)
  then show ?case using symmetric_cmp.antisym [of c x z] by simp
next
  case (3 c z y ys)
  then show ?case using symmetric_cmp.antisym [of c z y] by simp
next
  case (4 c z x xs y ys)
  then show ?case using symmetric_cmp.antisym [of c x y] by simp
qed simp

lemma pad_cmp_trans:
  assumes "three_way c"
  shows "pad_cmp c z xs ys \<le> 0 \<Longrightarrow> pad_cmp c z ys zs \<le> 0 \<Longrightarrow> pad_cmp c z xs zs \<le> 0"
proof (induction "length xs + length ys + length zs" arbitrary: xs ys zs rule: less_induct)
  case less
  note sym = three_way.axioms(1) [OF assms]
  show ?case
  proof (cases "xs = [] \<and> ys = [] \<and> zs = []")
    case True
    then show ?thesis by simp
  next
    case False
    let ?a = "c (pad_hd z xs) (pad_hd z ys)" and ?b = "c (pad_hd z ys) (pad_hd z zs)"
      and ?d = "c (pad_hd z xs) (pad_hd z zs)"
    from False have dec: "length (tl xs) + length (tl ys) + length (tl zs)
        < length xs + length ys + length zs"
      by (cases xs; cases ys; cases zs) auto
    have ab: "?a \<le> 0" "?b \<le> 0"
      using less.prems by (simp_all add: pad_cmp_step [OF sym] split: if_splits)
    then consider "?d < 0" | "?a = 0" "?b = 0"
      using three_way.less_le_trans [OF assms, of "pad_hd z xs" "pad_hd z ys" "pad_hd z zs"]
        three_way.le_less_trans [OF assms, of "pad_hd z xs" "pad_hd z ys" "pad_hd z zs"]
      by linarith
    then show ?thesis
    proof cases
      case 1
      then show ?thesis by (simp add: pad_cmp_step [OF sym])
    next
      case 2
      then have "?d = 0" by (rule three_way.eq_trans [OF assms])
      moreover have "pad_cmp c z (tl xs) (tl zs) \<le> 0"
        using less.hyps [OF dec] less.prems 2 by (simp add: pad_cmp_step [OF sym, of z xs ys]
            pad_cmp_step [OF sym, of z ys zs])
      ultimately show ?thesis by (simp add: pad_cmp_step [OF sym, of z xs zs])
    qed
  qed
qed

lemma pad_cmp_three_way [cmp_intros]: "three_way c \<Longrightarrow> three_way (pad_cmp c z)"
  by unfold_locales (auto intro: pad_cmp_antisym pad_cmp_trans dest: three_way.axioms(1))

text \<open>
  Where the element comparison is exact, padded comparison is equality up to trailing
  padding.
\<close>

lemma strip_suffix_while_Cons:
  "strip_suffix_while P (x # xs) =
     (if strip_suffix_while P xs = [] \<and> P x then [] else x # strip_suffix_while P xs)"
proof (cases "strip_suffix_while P xs = []")
  case True
  then show ?thesis by (simp add: strip_suffix_while_def dropWhile_append dropWhile_eq_Nil_conv)
next
  case False
  then show ?thesis
    by (auto simp: strip_suffix_while_def dropWhile_append dropWhile_eq_Nil_conv)
qed

lemma pad_cmp_exact:
  assumes "\<And>x y. x \<in> S \<Longrightarrow> y \<in> S \<Longrightarrow> c x y = 0 \<longleftrightarrow> x = y"
    and "set xs \<subseteq> S" and "set ys \<subseteq> S" and "z \<in> S"
  shows "pad_cmp c z xs ys = 0 \<longleftrightarrow>
    strip_suffix_while (\<lambda>x. x = z) xs = strip_suffix_while (\<lambda>x. x = z) ys"
  using assms
proof (induction c z xs ys rule: pad_cmp.induct)
  case (2 c z x xs)
  then show ?case by (auto simp: strip_suffix_while_Cons)
next
  case (3 c z y ys)
  then show ?case by (auto simp: strip_suffix_while_Cons)
next
  case (4 c z x xs y ys)
  then show ?case by (auto simp: strip_suffix_while_Cons)
qed simp

text \<open>Lists, element by element, a proper prefix being smaller.\<close>

fun list_cmp :: "('a \<Rightarrow> 'a \<Rightarrow> int) \<Rightarrow> 'a list \<Rightarrow> 'a list \<Rightarrow> int" where
  "list_cmp c [] [] = 0"
| "list_cmp c (x # xs) [] = 1"
| "list_cmp c [] (y # ys) = -1"
| "list_cmp c (x # xs) (y # ys) = (if c x y \<noteq> 0 then c x y else list_cmp c xs ys)"

lemma list_cmp_antisym:
  assumes "symmetric_cmp c"
  shows "list_cmp c ys xs = - list_cmp c xs ys"
  using assms
proof (induction c xs ys rule: list_cmp.induct)
  case (4 c x xs y ys)
  then show ?case using symmetric_cmp.antisym [of c x y] by simp
qed simp_all

lemma list_cmp_trans:
  assumes "three_way c"
  shows "list_cmp c xs ys \<le> 0 \<Longrightarrow> list_cmp c ys zs \<le> 0 \<Longrightarrow> list_cmp c xs zs \<le> 0"
proof (induction xs arbitrary: ys zs)
  case Nil
  then show ?case by (cases zs) auto
next
  case (Cons x xs)
  then obtain y ys' z zs' where ys: "ys = y # ys'" and zs: "zs = z # zs'"
    by (cases ys; cases zs) auto
  have ab: "c x y \<le> 0" "c y z \<le> 0"
    using Cons.prems by (auto simp: ys zs split: if_splits)
  then consider "c x z < 0" | "c x y = 0" "c y z = 0"
    using three_way.less_le_trans [OF assms, of x y z]
      three_way.le_less_trans [OF assms, of x y z] by linarith
  then show ?case
  proof cases
    case 1
    then show ?thesis by (simp add: zs)
  next
    case 2
    then have "c x z = 0" by (rule three_way.eq_trans [OF assms])
    moreover have "list_cmp c xs zs' \<le> 0"
      using Cons.IH [of ys' zs'] Cons.prems 2 by (simp add: ys zs)
    ultimately show ?thesis by (simp add: zs)
  qed
qed

lemma list_cmp_three_way [cmp_intros]: "three_way c \<Longrightarrow> three_way (list_cmp c)"
  by unfold_locales (auto intro: list_cmp_antisym list_cmp_trans dest: three_way.axioms(1))

lemma list_cmp_eq_0:
  assumes "\<And>x y. c x y = 0 \<longleftrightarrow> x = y"
  shows "list_cmp c xs ys = 0 \<longleftrightarrow> xs = ys"
proof (induction xs arbitrary: ys)
  case Nil
  then show ?case by (cases ys) auto
next
  case (Cons x xs)
  then show ?case using assms by (cases ys) auto
qed

end
