(* ===== verification/Lexical.thy ===== *)
theory Lexical
  imports Go_Strings Comparators
begin

text \<open>
  The byte-level helpers shared by the version dialects of \<open>internal/packagepolicy\<close>
  (\<open>debian.go\<close>, \<open>pep440.go\<close>, \<open>nuget.go\<close>, \<open>cran.go\<close>) and the facts about
  ASCII text their proofs need. The main result is that comparing two decimal numerals as
  strings, after dropping leading zeros, is the comparison of the numbers they denote,
  whatever their length.
\<close>

definition isASCIIDigit :: "char \<Rightarrow> bool" where
  "isASCIIDigit c \<longleftrightarrow> byte CHR ''0'' \<le> byte c \<and> byte c \<le> byte CHR ''9''"

definition isASCIIAlphanumeric :: "char \<Rightarrow> bool" where
  "isASCIIAlphanumeric c \<longleftrightarrow> isASCIIDigit c \<or>
     byte CHR ''A'' \<le> byte c \<and> byte c \<le> byte CHR ''Z'' \<or>
     byte CHR ''a'' \<le> byte c \<and> byte c \<le> byte CHR ''z''"

definition isASCIIAlpha :: "char \<Rightarrow> bool" where
  "isASCIIAlpha c \<longleftrightarrow>
     byte CHR ''A'' \<le> byte c \<and> byte c \<le> byte CHR ''Z'' \<or>
     byte CHR ''a'' \<le> byte c \<and> byte c \<le> byte CHR ''z''"

definition isASCIILowercaseAlphanumeric :: "char \<Rightarrow> bool" where
  "isASCIILowercaseAlphanumeric c \<longleftrightarrow> isASCIIDigit c \<or>
     byte CHR ''a'' \<le> byte c \<and> byte c \<le> byte CHR ''z''"

definition isASCIIUpper :: "char \<Rightarrow> bool" where
  "isASCIIUpper c \<longleftrightarrow> byte CHR ''A'' \<le> byte c \<and> byte c \<le> byte CHR ''Z''"

definition allASCIIDigits :: "string \<Rightarrow> bool" where
  "allASCIIDigits s \<longleftrightarrow> (if s = [] then False else list_all isASCIIDigit s)"

definition signOf :: "int \<Rightarrow> int" where
  "signOf v = (if v < 0 then -1 else if v > 0 then 1 else 0)"

definition compareDecimal :: "string \<Rightarrow> string \<Rightarrow> int" where
  "compareDecimal left0 right0 =
     (let left = TrimLeft left0 CHR ''0''; right = TrimLeft right0 CHR ''0'' in
      if length left < length right then -1
      else if length left > length right then 1
      else signOf (Compare left right))"

definition takeDigits :: "string \<Rightarrow> string \<times> string" where
  "takeDigits s = (takeWhile isASCIIDigit s, dropWhile isASCIIDigit s)"

definition normalizeDecimal :: "string \<Rightarrow> string" where
  "normalizeDecimal value =
     (let v = TrimLeft value CHR ''0'' in if v = [] then ''0'' else v)"

definition lowerByte :: "char \<Rightarrow> char" where
  "lowerByte c = (if isASCIIUpper c then char_of (byte c + 32) else c)"

definition lowerASCII :: "string \<Rightarrow> string" where
  "lowerASCII s = map lowerByte s"

subsection \<open>Bytes\<close>

lemma byte_eq_iff [simp]: "byte a = byte b \<longleftrightarrow> a = b"
  by (simp add: byte_def)

lemma byte_less_256 [simp]: "byte c < 256"
  by (simp add: byte_def)

lemma byte_char_of [simp]: "byte (char_of n) = n mod 256"
  by (simp add: byte_def)

definition is_ascii :: "string \<Rightarrow> bool" where
  "is_ascii s \<longleftrightarrow> list_all (\<lambda>c. byte c < 128) s"

lemma is_ascii_simps [simp, ascii]:
  "is_ascii []" "is_ascii (c # s) \<longleftrightarrow> byte c < 128 \<and> is_ascii s"
  "is_ascii (s @ t) \<longleftrightarrow> is_ascii s \<and> is_ascii t"
  by (simp_all add: is_ascii_def)

lemma is_asciiI: "list_all P s \<Longrightarrow> (\<And>c. P c \<Longrightarrow> byte c < 128) \<Longrightarrow> is_ascii s"
  by (auto simp: is_ascii_def list_all_iff)

lemma byte_class_ascii [ascii]:
  "isASCIIDigit c \<Longrightarrow> byte c < 128" "isASCIIAlphanumeric c \<Longrightarrow> byte c < 128"
  "isASCIILowercaseAlphanumeric c \<Longrightarrow> byte c < 128" "isASCIIAlpha c \<Longrightarrow> byte c < 128"
  by (auto simp: isASCIIDigit_def isASCIIAlphanumeric_def isASCIILowercaseAlphanumeric_def
      isASCIIAlpha_def byte_def)

lemma digit_alphanumeric: "isASCIIDigit c \<Longrightarrow> isASCIIAlphanumeric c"
  by (simp add: isASCIIAlphanumeric_def)

lemma lower_alphanumeric: "isASCIILowercaseAlphanumeric c \<Longrightarrow> isASCIIAlphanumeric c"
  by (auto simp: isASCIIAlphanumeric_def isASCIILowercaseAlphanumeric_def)

lemma alphanumeric_not_space:
  "isASCIIAlphanumeric c \<Longrightarrow> \<not> IsSpace (byte c)" "isASCIIAlphanumeric c \<Longrightarrow> \<not> IsControl (byte c)"
  by (auto simp: isASCIIAlphanumeric_def isASCIIDigit_def IsSpace_def IsControl_def byte_def)

lemma segments_ascii [ascii]: "is_ascii s \<Longrightarrow> segments s = map (\<lambda>c. (byte c, [c])) s"
  by (induction s) simp_all

lemma runes_ascii [ascii]: "is_ascii s \<Longrightarrow> runes s = map byte s"
  by (simp add: runes_def segments_ascii)

lemma ContainsFunc_ascii [ascii]: "is_ascii s \<Longrightarrow> ContainsFunc s f \<longleftrightarrow> (\<exists>c \<in> set s. f (byte c))"
  by (auto simp: ContainsFunc_def runes_ascii list_ex_iff)

lemma ascii_clean:
  assumes "list_all (\<lambda>c. byte c < 128 \<and> \<not> IsSpace (byte c) \<and> \<not> IsControl (byte c)) s"
  shows "TrimSpace s = s \<and> \<not> ContainsFunc s (\<lambda>r. IsControl r \<or> IsSpace r) \<and> \<not> ContainsFunc s IsControl"
proof -
  have "is_ascii s" using assms unfolding is_ascii_def by (rule list_all_imp) simp
  then show ?thesis using assms
    by (auto intro!: TrimSpace_id simp: ContainsFunc_ascii list_all_iff)
qed

lemma EncodeRune_ascii [simp]: "r < 128 \<Longrightarrow> EncodeRune r = [char_of r]"
  by (simp add: EncodeRune_def)

lemma char_of_byte [simp]: "char_of (byte c) = c"
  by (simp add: byte_def)

lemma lowerByte_ascii: "byte c < 128 \<Longrightarrow> EncodeRune (ToLowerRune E (byte c)) = [lowerByte c]"
  by (simp add: ToLowerRune_def lowerByte_def isASCIIUpper_def)
     (simp add: byte_def)

lemma ToLower_ascii [ascii]: "is_ascii s \<Longrightarrow> ToLower E s = lowerASCII s"
  by (induction s)
     (simp_all add: ToLower_def runes_ascii string_of_runes_def lowerASCII_def lowerByte_ascii)

lemma lowerByte_idem [simp]: "lowerByte (lowerByte c) = lowerByte c"
  by (auto simp: lowerByte_def isASCIIUpper_def byte_def)

lemma lowerASCII_idem [simp]: "lowerASCII (lowerASCII s) = lowerASCII s"
  by (simp add: lowerASCII_def)

lemma lowerASCII_append [simp]: "lowerASCII (s @ t) = lowerASCII s @ lowerASCII t"
  by (simp add: lowerASCII_def)

lemma lowerASCII_Nil [simp]: "lowerASCII [] = []"
  by (simp add: lowerASCII_def)

lemma length_lowerASCII [simp]: "length (lowerASCII s) = length s"
  by (simp add: lowerASCII_def)

lemma lowerByte_byte: "byte (lowerByte c) = (if isASCIIUpper c then byte c + 32 else byte c)"
  by (auto simp: lowerByte_def isASCIIUpper_def byte_def)

lemma byte_of_CHR [simp]:
  "byte CHR ''0'' = 48" "byte CHR ''9'' = 57" "byte CHR ''A'' = 65" "byte CHR ''Z'' = 90"
  "byte CHR ''a'' = 97" "byte CHR ''z'' = 122" "byte CHR ''-'' = 45" "byte CHR ''.'' = 46"
  "byte CHR ''_'' = 95" "byte CHR ''~'' = 126" "byte CHR '':'' = 58" "byte CHR ''/'' = 47"
  "byte CHR ''+'' = 43" "byte CHR '' '' = 32"
  by (simp_all add: byte_def)

lemma lowerByte_is_ascii [simp]: "byte (lowerByte c) < 128 \<longleftrightarrow> byte c < 128"
  by (auto simp: lowerByte_byte isASCIIUpper_def)

lemma is_ascii_lowerASCII [simp]: "is_ascii (lowerASCII s) \<longleftrightarrow> is_ascii s"
  by (induction s) (auto simp: lowerASCII_def)

lemma lowerByte_classes [simp]:
  "isASCIIAlphanumeric (lowerByte c) \<longleftrightarrow> isASCIIAlphanumeric c"
  "isASCIIDigit (lowerByte c) \<longleftrightarrow> isASCIIDigit c"
  by (auto simp: isASCIIAlphanumeric_def isASCIIDigit_def lowerByte_byte isASCIIUpper_def)

lemma lowerByte_eq_iff:
  "\<not> isASCIIAlpha d \<Longrightarrow> lowerByte c = d \<longleftrightarrow> c = d"
proof -
  assume d: "\<not> isASCIIAlpha d"
  have "byte (lowerByte c) = byte d \<longleftrightarrow> byte c = byte d"
    using d by (auto simp: lowerByte_byte isASCIIUpper_def isASCIIAlpha_def)
  then show ?thesis by simp
qed

subsection \<open>Comparison of strings and of decimal numerals\<close>

lemma signOf_sgn: "signOf v = sgn v"
  by (simp add: signOf_def sgn_if)

lemma Compare_list_cmp: "Compare s t = list_cmp (\<lambda>a b. sgn (int (byte a) - int (byte b))) s t"
  by (induction s t rule: Compare.induct) auto

lemma Compare_three_way [cmp_intros]: "three_way Compare"
proof -
  have "three_way (list_cmp (\<lambda>a b. sgn (int (byte a) - int (byte b))))"
    using list_cmp_three_way [OF image_three_way [OF nat_sign_three_way, of byte]] .
  then show ?thesis by (simp add: Compare_list_cmp [abs_def])
qed

lemma Compare_eq_0 [simp]: "Compare s t = 0 \<longleftrightarrow> s = t"
  by (induction s t rule: Compare.induct) (auto simp: byte_eq_iff [symmetric] simp del: byte_eq_iff)

lemma Compare_refl [simp]: "Compare s s = 0"
  by simp

lemma Compare_range: "Compare s t = -1 \<or> Compare s t = 0 \<or> Compare s t = 1"
  by (induction s t rule: Compare.induct) auto

lemma signOf_Compare [simp]: "signOf (Compare s t) = Compare s t"
  using Compare_range [of s t] by (elim disjE) (simp_all only: signOf_def, simp_all)

lemma compareDecimal_lex:
  "compareDecimal = lex_cmp (\<lambda>a b. sgn (int (length (TrimLeft a CHR ''0'')) - int (length (TrimLeft b CHR ''0''))))
     (\<lambda>a b. Compare (TrimLeft a CHR ''0'') (TrimLeft b CHR ''0''))"
  by (intro ext) (simp add: compareDecimal_def lex_cmp_def Let_def)

lemma compareDecimal_three_way [cmp_intros]: "three_way compareDecimal"
  unfolding compareDecimal_lex
  using lex_cmp_three_way
      [OF image_three_way [OF nat_sign_three_way, of "\<lambda>a. length (TrimLeft a CHR ''0'')"]
        image_three_way [OF Compare_three_way, of "\<lambda>a. TrimLeft a CHR ''0''"]] .

lemma compareDecimal_range:
  "compareDecimal a b = -1 \<or> compareDecimal a b = 0 \<or> compareDecimal a b = 1"
  using Compare_range by (simp add: compareDecimal_def Let_def)

lemma compareDecimal_eq_0:
  "compareDecimal a b = 0 \<longleftrightarrow> TrimLeft a CHR ''0'' = TrimLeft b CHR ''0''"
  by (auto simp: compareDecimal_def Let_def)

lemma TrimLeft_idem [simp]: "TrimLeft (TrimLeft s c) c = TrimLeft s c"
  by (simp add: TrimLeft_def)

lemma TrimLeft_Cons [simp]:
  "TrimLeft [] c = []" "TrimLeft (d # s) c = (if d = c then TrimLeft s c else d # s)"
  by (simp_all add: TrimLeft_def)

lemma hd_TrimLeft: "TrimLeft s c \<noteq> [] \<Longrightarrow> hd (TrimLeft s c) \<noteq> c"
  by (induction s) (auto split: if_splits)

lemma normalizeDecimal_TrimLeft [simp]:
  "TrimLeft (normalizeDecimal s) CHR ''0'' = TrimLeft s CHR ''0''"
  by (simp add: normalizeDecimal_def Let_def)

lemma compareDecimal_normalize [simp]:
  "compareDecimal (normalizeDecimal a) b = compareDecimal a b"
  "compareDecimal a (normalizeDecimal b) = compareDecimal a b"
  by (simp_all add: compareDecimal_def)

lemma normalizeDecimal_idem [simp]: "normalizeDecimal (normalizeDecimal s) = normalizeDecimal s"
  by (simp add: normalizeDecimal_def Let_def)

lemma normalizeDecimal_nonempty [simp]: "normalizeDecimal s \<noteq> []"
  by (simp add: normalizeDecimal_def Let_def)

lemma list_all_TrimLeft: "list_all P s \<Longrightarrow> list_all P (TrimLeft s c)"
  by (simp add: TrimLeft_def list_all_dropWhile)

lemma normalizeDecimal_digits: "list_all isASCIIDigit s \<Longrightarrow> list_all isASCIIDigit (normalizeDecimal s)"
  by (auto simp: normalizeDecimal_def Let_def list_all_TrimLeft isASCIIDigit_def)

lemma compareDecimal_normalized_eq:
  "compareDecimal a b = 0 \<longleftrightarrow> normalizeDecimal a = normalizeDecimal b"
proof
  assume "compareDecimal a b = 0"
  then show "normalizeDecimal a = normalizeDecimal b"
    by (simp add: compareDecimal_eq_0 normalizeDecimal_def)
next
  assume "normalizeDecimal a = normalizeDecimal b"
  then have "TrimLeft (normalizeDecimal a) CHR ''0'' = TrimLeft (normalizeDecimal b) CHR ''0''"
    by simp
  then show "compareDecimal a b = 0"
    by (simp add: compareDecimal_eq_0)
qed

text \<open>The number a digit string denotes.\<close>

fun decimal_value :: "nat \<Rightarrow> string \<Rightarrow> nat" where
  "decimal_value n [] = n"
| "decimal_value n (c # s) = decimal_value (10 * n + (byte c - 48)) s"

lemma decimal_value_acc: "decimal_value n s = n * 10 ^ length s + decimal_value 0 s"
proof (induction s arbitrary: n)
  case Nil
  then show ?case by simp
next
  case (Cons c s)
  show ?case
    using Cons.IH [of "10 * n + (byte c - 48)"] Cons.IH [of "byte c - 48"]
    by (simp add: algebra_simps)
qed

lemma decimal_value_bound: "list_all isASCIIDigit s \<Longrightarrow> decimal_value 0 s < 10 ^ length s"
proof (induction s)
  case Nil
  then show ?case by simp
next
  case (Cons c s)
  then have "byte c - 48 \<le> 9" "decimal_value 0 s < 10 ^ length s"
    by (auto simp: isASCIIDigit_def)
  then have "(byte c - 48) * 10 ^ length s \<le> 9 * 10 ^ length s"
    by (intro mult_le_mono1)
  moreover have "decimal_value 0 (c # s) = (byte c - 48) * 10 ^ length s + decimal_value 0 s"
    using decimal_value_acc [of "byte c - 48" s] by simp
  moreover have "(10 :: nat) ^ length (c # s) = 10 * 10 ^ length s" by simp
  ultimately show ?case
    using \<open>decimal_value 0 s < 10 ^ length s\<close> by linarith
qed

lemma decimal_value_TrimLeft [simp]: "decimal_value 0 (TrimLeft s CHR ''0'') = decimal_value 0 s"
  by (induction s) auto

lemma decimal_value_lower:
  assumes "list_all isASCIIDigit s" and "s \<noteq> []" and "hd s \<noteq> CHR ''0''"
  shows "10 ^ (length s - 1) \<le> decimal_value 0 s"
proof -
  obtain c t where s: "s = c # t" using assms(2) by (cases s) auto
  have "byte c \<noteq> 48"
    using assms(3) byte_eq_iff [of c "CHR ''0''"] by (simp add: s del: byte_eq_iff)
  moreover have "48 \<le> byte c" using assms(1) by (simp add: s isASCIIDigit_def)
  ultimately have "1 \<le> byte c - 48" by simp
  then have "1 * 10 ^ length t \<le> (byte c - 48) * 10 ^ length t" by (intro mult_le_mono1)
  moreover have "decimal_value 0 s = (byte c - 48) * 10 ^ length t + decimal_value 0 t"
    using decimal_value_acc [of "byte c - 48" t] by (simp add: s)
  ultimately have "10 ^ length t \<le> decimal_value 0 s" by linarith
  then show ?thesis by (simp add: s)
qed

lemma Compare_decimal_value:
  "list_all isASCIIDigit s \<Longrightarrow> list_all isASCIIDigit t \<Longrightarrow> length s = length t \<Longrightarrow>
     Compare s t = sgn (int (decimal_value 0 s) - int (decimal_value 0 t))"
proof (induction s t rule: Compare.induct)
  case (4 a s b t)
  have da: "byte a \<ge> 48" and db: "byte b \<ge> 48" using "4.prems" by (auto simp: isASCIIDigit_def)
  have bs: "decimal_value 0 s < 10 ^ length s" and bt: "decimal_value 0 t < 10 ^ length s"
    using "4.prems" decimal_value_bound [of s] decimal_value_bound [of t] by auto
  let ?u = "byte a - 48" and ?v = "byte b - 48" and ?p = "10 ^ length s :: nat"
  have vs: "decimal_value 0 (a # s) = ?u * ?p + decimal_value 0 s"
    using decimal_value_acc [of ?u s] by simp
  have vt: "decimal_value 0 (b # t) = ?v * ?p + decimal_value 0 t"
    using decimal_value_acc [of ?v t] "4.prems" by simp
  have lt: "x * ?p + i < y * ?p + j" if "x < y" "i < ?p" for x y i j :: nat
  proof -
    have "Suc x * ?p \<le> y * ?p" using that(1) by (intro mult_le_mono1) simp
    then show ?thesis using that(2) by simp
  qed
  consider "byte a < byte b" | "byte b < byte a" | "a = b"
    by (metis byte_eq_iff linorder_neqE_nat)
  then show ?case
  proof cases
    case 1
    then have "decimal_value 0 (a # s) < decimal_value 0 (b # t)"
      unfolding vs vt using da by (intro lt bs) simp
    then show ?thesis using 1 by simp
  next
    case 2
    then have "decimal_value 0 (b # t) < decimal_value 0 (a # s)"
      unfolding vs vt using db by (intro lt bt) simp
    then show ?thesis using 2 by simp
  next
    case 3
    then show ?thesis using "4.IH" "4.prems" unfolding vs vt by simp
  qed
qed simp_all

text \<open>The unbounded-integer reading the code relies on.\<close>

lemma compareDecimal_value:
  assumes "list_all isASCIIDigit a" and "list_all isASCIIDigit b"
  shows "compareDecimal a b = sgn (int (decimal_value 0 a) - int (decimal_value 0 b))"
proof -
  let ?a = "TrimLeft a CHR ''0''" and ?b = "TrimLeft b CHR ''0''"
  have digits: "list_all isASCIIDigit ?a" "list_all isASCIIDigit ?b"
    using assms by (auto intro: list_all_TrimLeft)
  have shorter: "decimal_value 0 x < decimal_value 0 y"
    if "list_all isASCIIDigit x" "list_all isASCIIDigit y" "length x < length y"
      "y = TrimLeft z CHR ''0''" for x y z
  proof -
    have "y \<noteq> []" using that(3) by auto
    then have "hd y \<noteq> CHR ''0''" using that(4) hd_TrimLeft by metis
    then have "10 ^ (length y - 1) \<le> decimal_value 0 y"
      using that(2) \<open>y \<noteq> []\<close> by (intro decimal_value_lower)
    moreover have "(10 :: nat) ^ length x \<le> 10 ^ (length y - 1)"
      using that(3) by (intro power_increasing) auto
    ultimately show ?thesis using decimal_value_bound [OF that(1)] by linarith
  qed
  consider "length ?a < length ?b" | "length ?b < length ?a" | "length ?a = length ?b"
    by linarith
  then show ?thesis
  proof cases
    case 1
    have "decimal_value 0 a < decimal_value 0 b"
      using shorter [OF digits 1 refl] by (simp only: decimal_value_TrimLeft)
    moreover have "compareDecimal a b = -1" using 1 by (simp add: compareDecimal_def)
    ultimately show ?thesis by simp
  next
    case 2
    have "decimal_value 0 b < decimal_value 0 a"
      using shorter [OF digits(2,1) 2 refl] by (simp only: decimal_value_TrimLeft)
    moreover have "compareDecimal a b = 1" using 2 by (simp add: compareDecimal_def)
    ultimately show ?thesis by simp
  next
    case 3
    then have "compareDecimal a b = Compare ?a ?b" by (simp add: compareDecimal_def)
    then show ?thesis by (simp only: Compare_decimal_value [OF digits 3] decimal_value_TrimLeft)
  qed
qed

definition no_leading_zero :: "string \<Rightarrow> bool" where
  "no_leading_zero s \<longleftrightarrow> s \<noteq> [] \<and> (length s > 1 \<longrightarrow> hd s \<noteq> CHR ''0'')"

lemma normalizeDecimal_id: "no_leading_zero s \<Longrightarrow> normalizeDecimal s = s"
proof (cases s)
  case (Cons c t)
  assume "no_leading_zero s"
  then show ?thesis
    using Cons by (cases "c = CHR ''0''") (auto simp: no_leading_zero_def normalizeDecimal_def)
qed (simp add: no_leading_zero_def)

lemma normalizeDecimal_no_leading_zero: "no_leading_zero (normalizeDecimal s)"
  using hd_TrimLeft [of s "CHR ''0''"]
  by (auto simp: no_leading_zero_def normalizeDecimal_def Let_def)

lemma compareDecimal_exact:
  "no_leading_zero a \<Longrightarrow> no_leading_zero b \<Longrightarrow> compareDecimal a b = 0 \<longleftrightarrow> a = b"
  by (simp add: compareDecimal_normalized_eq normalizeDecimal_id)

text \<open>A decimal component in normal form.\<close>

definition wf_component :: "string \<Rightarrow> bool" where
  "wf_component s \<longleftrightarrow> list_all isASCIIDigit s \<and> no_leading_zero s"

lemma wf_component_normalize: "list_all isASCIIDigit s \<Longrightarrow> wf_component (normalizeDecimal s)"
  by (simp add: wf_component_def normalizeDecimal_digits normalizeDecimal_no_leading_zero)

lemma wf_component_facts:
  "wf_component s \<Longrightarrow> list_all isASCIIDigit s \<and> s \<noteq> [] \<and> normalizeDecimal s = s"
  by (auto simp: wf_component_def no_leading_zero_def normalizeDecimal_id)

end
