(* ===== verification/Version_Contract.thy ===== *)
theory Version_Contract
  imports Lexical
begin

text \<open>
  The contract between a version dialect and its clients (\<open>rule.go\<close>, \<open>matcher.go\<close>).
  A dialect parses a version, compares two parsed versions and renders a canonical form.
  \<open>version_identity\<close>: a canonical form is accepted again, is equal to the version it came
  from and is its own canonical form. \<open>version_order\<close>: in addition the comparison is a
  total preorder, so that it can decide an ordered selector. Every dialect theory
  interprets one of the two on its own functions.
\<close>

definition canonical_of :: "(string \<Rightarrow> gerror + 'v) \<Rightarrow> ('v \<Rightarrow> string) \<Rightarrow> string \<Rightarrow> gerror + string" where
  "canonical_of parse render s = bind_err (parse s) (\<lambda>v. Inr (render v))"

definition compare_of ::
  "(string \<Rightarrow> gerror + 'v) \<Rightarrow> ('v \<Rightarrow> 'v \<Rightarrow> int) \<Rightarrow> string \<Rightarrow> string \<Rightarrow> gerror + int" where
  "compare_of parse cmp a b = bind_err (parse a) (\<lambda>l. bind_err (parse b) (\<lambda>r. Inr (cmp l r)))"

lemma canonical_of_Inr:
  "canonical_of parse render s = Inr t \<longleftrightarrow> (\<exists>v. parse s = Inr v \<and> render v = t)"
  by (auto simp: canonical_of_def)

lemma compare_of_Inr:
  "compare_of parse cmp a b = Inr c \<longleftrightarrow> (\<exists>l r. parse a = Inr l \<and> parse b = Inr r \<and> cmp l r = c)"
  by (auto simp: compare_of_def)

locale version_identity = symmetric_cmp cmp
  for cmp :: "'v \<Rightarrow> 'v \<Rightarrow> int" +
  fixes parse :: "string \<Rightarrow> gerror + 'v"
    and render :: "'v \<Rightarrow> string"
  assumes reparse: "parse s = Inr v \<Longrightarrow>
    \<exists>w. parse (render v) = Inr w \<and> cmp v w = 0 \<and> render w = render v"
begin

lemma canonical_fixpoint:
  "canonical_of parse render s = Inr t \<Longrightarrow> canonical_of parse render t = Inr t"
  using reparse by (fastforce simp: canonical_of_Inr)

lemma canonical_equal:
  "canonical_of parse render s = Inr t \<Longrightarrow> compare_of parse cmp s t = Inr 0"
  using reparse by (fastforce simp: canonical_of_Inr compare_of_Inr)

lemma compare_swap:
  "compare_of parse cmp a b = Inr c \<Longrightarrow> compare_of parse cmp b a = Inr (- c)"
  unfolding compare_of_Inr by (metis antisym)

end

locale version_order = version_identity + three_way cmp
begin

lemma compare_transitive:
  assumes "compare_of parse cmp a b = Inr x" and "x \<le> 0"
    and "compare_of parse cmp b c = Inr y" and "y \<le> 0"
  shows "\<exists>z. compare_of parse cmp a c = Inr z \<and> z \<le> 0"
proof -
  obtain u v w where "parse a = Inr u" "parse b = Inr v" "parse c = Inr w" "cmp u v \<le> 0" "cmp v w \<le> 0"
    using assms by (auto simp: compare_of_Inr)
  then show ?thesis using le_trans [of u v w] by (simp add: compare_of_def)
qed

lemma canonical_compare:
  assumes "canonical_of parse render a = Inr a'" and "canonical_of parse render b = Inr b'"
    and "compare_of parse cmp a b = Inr c"
  shows "\<exists>c'. compare_of parse cmp a' b' = Inr c' \<and> (c' \<le> 0 \<longleftrightarrow> c \<le> 0) \<and> (c' = 0 \<longleftrightarrow> c = 0)"
proof -
  obtain v w where vw: "parse a = Inr v" "parse b = Inr w" "c = cmp v w" "a' = render v" "b' = render w"
    using assms by (auto simp: canonical_of_Inr compare_of_Inr)
  obtain v' where v': "parse a' = Inr v'" "cmp v v' = 0" using reparse [OF vw(1)] vw(4) by blast
  obtain w' where w': "parse b' = Inr w'" "cmp w w' = 0" using reparse [OF vw(2)] vw(5) by blast
  note p = vw(1-3) v'(1) w'(1) v'(2) w'(2)
  have "cmp v' w' \<le> 0 \<longleftrightarrow> cmp v w' \<le> 0" "cmp v' w' = 0 \<longleftrightarrow> cmp v w' = 0"
    using eq_le_cong [OF p(6)] eq_eq_cong [OF p(6)] by simp_all
  moreover have "cmp v w' \<le> 0 \<longleftrightarrow> cmp v w \<le> 0" "cmp v w' = 0 \<longleftrightarrow> cmp v w = 0"
    using eq_less_cong [OF p(7), of v] eq_eq_cong [OF p(7), of v] antisym [of v w] antisym [of v w']
    by linarith+
  ultimately show ?thesis using p by (simp add: compare_of_def)
qed

end

end
