(* ===== verification/Semver.thy ===== *)
theory Semver
  imports Version_Contract
begin

text \<open>
  \<open>internal/packagepolicy/semver.go\<close>: the strict SemVer parser and precedence used by the
  npm and Cargo dialects. \<open>coreMax\<close> is the dialect's bound on a release component, kept
  as a decimal string as in the source. The precedence is a total preorder whose classes are
  exactly "same release, same prerelease"; the parser accepts its own canonical output.
\<close>

record semverIdentifier =
  si_value :: string
  si_numeric :: bool

record strictSemVer =
  sv_raw :: string
  sv_core :: "string \<times> string \<times> string"
  sv_prerelease :: "semverIdentifier list"

definition isSemverByte :: "char \<Rightarrow> bool" where
  "isSemverByte c \<longleftrightarrow> isASCIIAlphanumeric c \<or> c = CHR ''-''"

fun parseSemVerParts :: "bool \<Rightarrow> string list \<Rightarrow> gerror + semverIdentifier list" where
  "parseSemVerParts rej [] = Inr []"
| "parseSemVerParts rej (part # parts) =
     (if part = [] then Inl plain_error
      else if \<not> list_all isSemverByte part then Inl plain_error
      else (let numeric = list_all isASCIIDigit part in
        if rej \<and> numeric \<and> length part > 1 \<and> hd part = CHR ''0'' then Inl plain_error
        else bind_err (parseSemVerParts rej parts)
          (\<lambda>ids. Inr (\<lparr>si_value = part, si_numeric = numeric\<rparr> # ids))))"

definition parseSemVerIdentifiers :: "string \<Rightarrow> bool \<Rightarrow> gerror + semverIdentifier list" where
  "parseSemVerIdentifiers value rej =
     (if value = [] then Inl plain_error else parseSemVerParts rej (Split value CHR ''.''))"

definition semverCorePart :: "string \<Rightarrow> string \<Rightarrow> bool" where
  "semverCorePart coreMax part \<longleftrightarrow>
     \<not> (\<not> allASCIIDigits part \<or> length part > 1 \<and> hd part = CHR ''0'') \<and>
     \<not> compareDecimal part coreMax > 0"

text \<open>
  The release must split into exactly three components; the loop over them fills
  \<open>core [3]string\<close> and stops with an error at the first one that is malformed or
  exceeds \<open>coreMax\<close>.
\<close>

fun parseSemVerCore :: "string \<Rightarrow> string list \<Rightarrow> gerror + (string \<times> string \<times> string)" where
  "parseSemVerCore coreMax [a, b, c] =
     (if semverCorePart coreMax a \<and> semverCorePart coreMax b \<and> semverCorePart coreMax c
      then Inr (a, b, c) else Inl plain_error)"
| "parseSemVerCore coreMax _ = Inl plain_error"

text \<open>The build metadata after the first \<open>+\<close> is checked and dropped.\<close>

definition semverPublic :: "string \<Rightarrow> gerror + string" where
  "semverPublic value =
     (case IndexByte value CHR ''+'' of
        None \<Rightarrow> Inr value
      | Some i \<Rightarrow>
          if ContainsByte (drop (i + 1) value) CHR ''+'' then Inl plain_error
          else bind_err (parseSemVerIdentifiers (drop (i + 1) value) False)
            (\<lambda>_. Inr (take i value)))"

definition semverPrerelease :: "string \<Rightarrow> gerror + (string \<times> semverIdentifier list)" where
  "semverPrerelease coreText =
     (case IndexByte coreText CHR ''-'' of
        None \<Rightarrow> Inr (coreText, [])
      | Some dash \<Rightarrow>
          bind_err (parseSemVerIdentifiers (drop (dash + 1) coreText) True)
            (\<lambda>pre. Inr (take dash coreText, pre)))"

definition parseStrictSemVer :: "string \<Rightarrow> string \<Rightarrow> gerror + strictSemVer" where
  "parseStrictSemVer coreMax value =
     (if value = [] \<or> TrimSpace value \<noteq> value then Inl plain_error
      else bind_err (semverPublic value) (\<lambda>public.
        bind_err (semverPrerelease public) (\<lambda>(coreText, prerelease).
          bind_err (parseSemVerCore coreMax (Split coreText CHR ''.'')) (\<lambda>core.
            Inr \<lparr>sv_raw = value, sv_core = core, sv_prerelease = prerelease\<rparr>))))"

definition semver_canonical :: "strictSemVer \<Rightarrow> string" where
  "semver_canonical v = sv_raw v"

definition semver_hasPrerelease :: "strictSemVer \<Rightarrow> bool" where
  "semver_hasPrerelease v \<longleftrightarrow> sv_prerelease v \<noteq> []"

fun compareCoreParts :: "string \<times> string \<times> string \<Rightarrow> string \<times> string \<times> string \<Rightarrow> int" where
  "compareCoreParts (a0, a1, a2) (b0, b1, b2) =
     (if compareDecimal a0 b0 \<noteq> 0 then compareDecimal a0 b0
      else if compareDecimal a1 b1 \<noteq> 0 then compareDecimal a1 b1
      else compareDecimal a2 b2)"

definition semver_compareCore :: "strictSemVer \<Rightarrow> strictSemVer \<Rightarrow> int" where
  "semver_compareCore v w = compareCoreParts (sv_core v) (sv_core w)"

definition compareSemverIdentifier :: "semverIdentifier \<Rightarrow> semverIdentifier \<Rightarrow> int" where
  "compareSemverIdentifier left right =
     (if si_numeric left \<and> si_numeric right then compareDecimal (si_value left) (si_value right)
      else if si_numeric left then -1
      else if si_numeric right then 1
      else signOf (Compare (si_value left) (si_value right)))"

text \<open>The loop over the common positions, then the length tie-break.\<close>

fun compareSemverIdentifiers :: "semverIdentifier list \<Rightarrow> semverIdentifier list \<Rightarrow> int" where
  "compareSemverIdentifiers (l # ls) (r # rs) =
     (let comparison = compareSemverIdentifier l r in
      if comparison \<noteq> 0 then comparison else compareSemverIdentifiers ls rs)"
| "compareSemverIdentifiers ls rs = signOf (int (length ls) - int (length rs))"

definition semver_Compare :: "strictSemVer \<Rightarrow> strictSemVer \<Rightarrow> int" where
  "semver_Compare v w =
     (let comparison = semver_compareCore v w in
      if comparison \<noteq> 0 then comparison
      else if sv_prerelease v = [] then (if sv_prerelease w = [] then 0 else 1)
      else if sv_prerelease w = [] then -1
      else compareSemverIdentifiers (sv_prerelease v) (sv_prerelease w))"

subsection \<open>Precedence is a total preorder\<close>

lemma compareSemverIdentifier_lex:
  "compareSemverIdentifier =
     lex_cmp (\<lambda>l r. int_cmp (if si_numeric l then 0 else 1) (if si_numeric r then 0 else 1))
       (lex_cmp
         (\<lambda>l r. compareDecimal (if si_numeric l then si_value l else [])
                               (if si_numeric r then si_value r else []))
         (\<lambda>l r. Compare (if si_numeric l then [] else si_value l)
                        (if si_numeric r then [] else si_value r)))"
  by (intro ext) (auto simp: compareSemverIdentifier_def lex_cmp_def int_cmp_def
      compareDecimal_eq_0)

lemma compareSemverIdentifier_three_way [cmp_intros]: "three_way compareSemverIdentifier"
  unfolding compareSemverIdentifier_lex
  by (rule lex_cmp_three_way [OF image_three_way [OF int_cmp_three_way]
      lex_cmp_three_way [OF image_three_way [OF compareDecimal_three_way]
        image_three_way [OF Compare_three_way]]])

lemma compareSemverIdentifiers_list_cmp:
  "compareSemverIdentifiers ls rs = list_cmp compareSemverIdentifier ls rs"
proof (induction ls arbitrary: rs)
  case Nil
  then show ?case by (cases rs) (simp_all add: signOf_def)
next
  case (Cons l ls)
  then show ?case by (cases rs) (simp_all add: signOf_def Let_def)
qed

lemma compareCoreParts_lex:
  "compareCoreParts =
     lex_cmp (\<lambda>a b. compareDecimal (fst a) (fst b))
       (lex_cmp (\<lambda>a b. compareDecimal (fst (snd a)) (fst (snd b)))
         (\<lambda>a b. compareDecimal (snd (snd a)) (snd (snd b))))"
  by (intro ext) (auto simp: lex_cmp_def)

lemma compareCoreParts_three_way [cmp_intros]: "three_way compareCoreParts"
  unfolding compareCoreParts_lex
  by (rule lex_cmp_three_way [OF image_three_way [OF compareDecimal_three_way]
      lex_cmp_three_way [OF image_three_way [OF compareDecimal_three_way]
        image_three_way [OF compareDecimal_three_way]]])

lemma semver_Compare_lex:
  "semver_Compare =
     lex_cmp (\<lambda>v w. compareCoreParts (sv_core v) (sv_core w))
       (lex_cmp (\<lambda>v w. int_cmp (if sv_prerelease v = [] then 1 else 0)
                               (if sv_prerelease w = [] then 1 else 0))
         (\<lambda>v w. list_cmp compareSemverIdentifier (sv_prerelease v) (sv_prerelease w)))"
  by (intro ext) (auto simp: semver_Compare_def semver_compareCore_def lex_cmp_def int_cmp_def
      Let_def compareSemverIdentifiers_list_cmp)

lemma semver_Compare_three_way: "three_way semver_Compare"
  unfolding semver_Compare_lex
  by (rule lex_cmp_three_way [OF image_three_way [OF compareCoreParts_three_way]
      lex_cmp_three_way [OF image_three_way [OF int_cmp_three_way]
        image_three_way [OF list_cmp_three_way [OF compareSemverIdentifier_three_way]]]])

subsection \<open>What the parser accepts\<close>

definition wf_semverIdentifier :: "semverIdentifier \<Rightarrow> bool" where
  "wf_semverIdentifier i \<longleftrightarrow> si_value i \<noteq> [] \<and> list_all isSemverByte (si_value i) \<and>
     si_numeric i = list_all isASCIIDigit (si_value i) \<and>
     (si_numeric i \<longrightarrow> no_leading_zero (si_value i))"

lemma parseSemVerParts_values:
  "parseSemVerParts rej parts = Inr ids \<Longrightarrow>
     map si_value ids = parts \<and> list_all (\<lambda>p. p \<noteq> [] \<and> list_all isSemverByte p) parts"
  by (induction rej parts arbitrary: ids rule: parseSemVerParts.induct)
     (auto simp: Let_def split: if_splits)

lemma parseSemVerParts_wf:
  "parseSemVerParts True parts = Inr ids \<Longrightarrow> list_all wf_semverIdentifier ids"
proof (induction parts arbitrary: ids)
  case (Cons part parts)
  then show ?case
    by (auto simp: Let_def wf_semverIdentifier_def no_leading_zero_def split: if_splits)
qed simp

lemma parseSemVerIdentifiers_values:
  assumes "parseSemVerIdentifiers s rej = Inr ids"
  shows "Join (map si_value ids) ''.'' = s" and "ids \<noteq> []"
    and "list_all (\<lambda>c. isSemverByte c \<or> c = CHR ''.'') s"
proof -
  have p: "parseSemVerParts rej (Split s CHR ''.'') = Inr ids"
    using assms by (simp add: parseSemVerIdentifiers_def split: if_splits)
  note v = parseSemVerParts_values [OF p]
  then show "Join (map si_value ids) ''.'' = s" by simp
  from v show "ids \<noteq> []" by (metis Split_nonempty list.map_disc_iff)
  have "list_all (\<lambda>w. list_all (\<lambda>c. isSemverByte c \<or> c = CHR ''.'') w) (Split s CHR ''.'')"
    using v by (auto simp: list_all_iff)
  then show "list_all (\<lambda>c. isSemverByte c \<or> c = CHR ''.'') s"
    by (rule Split_list_all) simp
qed

text \<open>The text a parsed version denotes, without build metadata.\<close>

definition semver_public :: "strictSemVer \<Rightarrow> string" where
  "semver_public v =
     (case sv_core v of (a, b, c) \<Rightarrow> Join [a, b, c] ''.'') @
     (if sv_prerelease v = [] then [] else ''-'' @ Join (map si_value (sv_prerelease v)) ''.'')"

lemma semverPrerelease_ok:
  assumes "semverPrerelease s = Inr (core, pre)"
  shows "s = core @ (if pre = [] then [] else ''-'' @ Join (map si_value pre) ''.'') \<and>
    list_all wf_semverIdentifier pre \<and>
    (list_all (\<lambda>c. isSemverByte c \<or> c = CHR ''.'') core \<longrightarrow>
     list_all (\<lambda>c. isSemverByte c \<or> c = CHR ''.'') s)"
proof (cases "IndexByte s CHR ''-''")
  case None
  then show ?thesis using assms by (simp add: semverPrerelease_def)
next
  case (Some i)
  define t where "t = drop (Suc i) s"
  have core: "core = take i s" and pre: "parseSemVerIdentifiers t True = Inr pre"
    using assms Some by (auto simp: semverPrerelease_def t_def)
  note ids = parseSemVerIdentifiers_values [OF pre]
  have s: "s = core @ CHR ''-'' # t"
    using IndexByte_Some [OF Some] unfolding core t_def by blast
  have "list_all wf_semverIdentifier pre"
    using pre parseSemVerParts_wf by (auto simp: parseSemVerIdentifiers_def split: if_splits)
  then show ?thesis
    using ids unfolding s by (simp add: isSemverByte_def)
qed

lemma semverPublic_ok:
  assumes "semverPublic s = Inr p"
  shows "p = takeWhile (\<lambda>c. c \<noteq> CHR ''+'') s \<and>
    (list_all (\<lambda>c. isSemverByte c \<or> c = CHR ''.'') p \<longrightarrow>
     list_all (\<lambda>c. isSemverByte c \<or> c = CHR ''.'' \<or> c = CHR ''+'') s)"
proof (cases "IndexByte s CHR ''+''")
  case None
  then have p: "p = s" and s: "CHR ''+'' \<notin> set s"
    using assms by (auto simp: semverPublic_def IndexByte_None)
  from s have tw: "takeWhile (\<lambda>c. c \<noteq> CHR ''+'') s = s"
    by (auto simp: takeWhile_eq_all_conv)
  show ?thesis unfolding tw p by (auto simp: list_all_iff)
next
  case (Some i)
  define t where "t = drop (Suc i) s"
  obtain ids where p: "p = take i s" and ids: "parseSemVerIdentifiers t False = Inr ids"
    using assms Some by (auto simp: semverPublic_def t_def split: if_splits)
  have s: "s = p @ CHR ''+'' # t" and notin: "CHR ''+'' \<notin> set p"
    using IndexByte_Some [OF Some] unfolding p t_def by blast+
  have "takeWhile (\<lambda>c. c \<noteq> CHR ''+'') (p @ CHR ''+'' # t) = p"
    using notin by (induction p) auto
  then show ?thesis
    using parseSemVerIdentifiers_values(3) [OF ids] unfolding s by (auto simp: list_all_iff)
qed

lemma parseSemVerCore_ok:
  assumes "parseSemVerCore m parts = Inr (a, b, c)"
  shows "parts = [a, b, c]" and "list_all (semverCorePart m) [a, b, c]"
  using assms by (induction m parts rule: parseSemVerCore.induct) (auto split: if_splits)

lemma semverCorePart_digits:
  "semverCorePart m p \<Longrightarrow> list_all isASCIIDigit p \<and> no_leading_zero p"
  by (auto simp: semverCorePart_def allASCIIDigits_def no_leading_zero_def split: if_splits)

definition wf_strictSemVer :: "string \<Rightarrow> strictSemVer \<Rightarrow> bool" where
  "wf_strictSemVer m v \<longleftrightarrow>
     (case sv_core v of (a, b, c) \<Rightarrow> list_all (semverCorePart m) [a, b, c]) \<and>
     list_all wf_semverIdentifier (sv_prerelease v)"

lemma parseStrictSemVer_ok:
  assumes "parseStrictSemVer m s = Inr v"
  shows "sv_raw v = s" and "wf_strictSemVer m v"
    and "semver_public v = takeWhile (\<lambda>c. c \<noteq> CHR ''+'') s"
    and "list_all (\<lambda>c. isSemverByte c \<or> c = CHR ''.'' \<or> c = CHR ''+'') s"
proof -
  obtain p ct pre a b c where *:
    "semverPublic s = Inr p" "semverPrerelease p = Inr (ct, pre)"
    "parseSemVerCore m (Split ct CHR ''.'') = Inr (a, b, c)"
    "v = \<lparr>sv_raw = s, sv_core = (a, b, c), sv_prerelease = pre\<rparr>"
    using assms by (auto simp: parseStrictSemVer_def split: if_splits)
  note core = parseSemVerCore_ok [OF *(3)]
  have ct: "ct = Join [a, b, c] ''.''" using core(1) Join_Split [of ct "CHR ''.''"] by simp
  have digits: "list_all isASCIIDigit a" "list_all isASCIIDigit b" "list_all isASCIIDigit c"
    using core(2) semverCorePart_digits by auto
  have "list_all (\<lambda>c. isSemverByte c \<or> c = CHR ''.'') ct"
    using digits unfolding ct by (auto simp: list_all_iff isSemverByte_def digit_alphanumeric)
  then show "list_all (\<lambda>c. isSemverByte c \<or> c = CHR ''.'' \<or> c = CHR ''+'') s"
    using semverPublic_ok [OF *(1)] semverPrerelease_ok [OF *(2)] by blast
  show "sv_raw v = s" by (simp add: *(4))
  show "wf_strictSemVer m v"
    using core(2) semverPrerelease_ok [OF *(2)] by (simp add: wf_strictSemVer_def *(4))
  show "semver_public v = takeWhile (\<lambda>c. c \<noteq> CHR ''+'') s"
    using semverPublic_ok [OF *(1)] semverPrerelease_ok [OF *(2)]
    by (simp add: semver_public_def *(4) ct del: takeWhile.simps split: if_splits)
qed

lemma compareSemverIdentifier_exact:
  "wf_semverIdentifier l \<Longrightarrow> wf_semverIdentifier r \<Longrightarrow>
     compareSemverIdentifier l r = 0 \<longleftrightarrow> l = r"
  by (auto simp: compareSemverIdentifier_def wf_semverIdentifier_def compareDecimal_exact
      intro: semverIdentifier.equality)

lemma list_cmp_identifiers_exact:
  "list_all wf_semverIdentifier ls \<Longrightarrow> list_all wf_semverIdentifier rs \<Longrightarrow>
     list_cmp compareSemverIdentifier ls rs = 0 \<longleftrightarrow> ls = rs"
proof (induction ls arbitrary: rs)
  case Nil
  then show ?case by (cases rs) auto
next
  case (Cons l ls)
  then show ?case by (cases rs) (auto simp: compareSemverIdentifier_exact)
qed

lemma compareCoreParts_exact:
  assumes "list_all (semverCorePart m) [a0, a1, a2]" and "list_all (semverCorePart n) [b0, b1, b2]"
  shows "compareCoreParts (a0, a1, a2) (b0, b1, b2) = 0 \<longleftrightarrow> (a0, a1, a2) = (b0, b1, b2)"
  using assms semverCorePart_digits by (auto simp: compareDecimal_exact)

lemma semver_Compare_exact:
  assumes "wf_strictSemVer m v" and "wf_strictSemVer n w"
  shows "semver_Compare v w = 0 \<longleftrightarrow>
    sv_core v = sv_core w \<and> sv_prerelease v = sv_prerelease w"
proof -
  obtain a0 a1 a2 b0 b1 b2 where c: "sv_core v = (a0, a1, a2)" "sv_core w = (b0, b1, b2)"
    by (metis prod_cases3)
  have core: "compareCoreParts (sv_core v) (sv_core w) = 0 \<longleftrightarrow> sv_core v = sv_core w"
    unfolding c using assms
    by (intro compareCoreParts_exact [of m _ _ _ n]) (simp_all add: wf_strictSemVer_def c)
  have pre: "list_cmp compareSemverIdentifier (sv_prerelease v) (sv_prerelease w) = 0 \<longleftrightarrow>
      sv_prerelease v = sv_prerelease w"
    using assms by (intro list_cmp_identifiers_exact) (auto simp: wf_strictSemVer_def)
  show ?thesis
    unfolding semver_Compare_lex using core pre by (auto simp: lex_cmp_def int_cmp_def)
qed

text \<open>Two parsed versions with the same text before the metadata are the same version.\<close>

lemma isSemverByte_dot: "isSemverByte c \<Longrightarrow> c \<noteq> CHR ''.''"
  by (auto simp: isSemverByte_def isASCIIAlphanumeric_def isASCIIDigit_def byte_def)

lemma digit_not_separator: "isASCIIDigit c \<Longrightarrow> c \<noteq> CHR ''.'' \<and> c \<noteq> CHR ''-''"
  by (auto simp: isASCIIDigit_def byte_def)

lemma wf_identifiers_inj:
  assumes "list_all wf_semverIdentifier ls" and "list_all wf_semverIdentifier rs"
    and "Join (map si_value ls) ''.'' = Join (map si_value rs) ''.''"
    and "ls \<noteq> []" and "rs \<noteq> []"
  shows "ls = rs"
proof -
  have nodot: "list_all (\<lambda>w. CHR ''.'' \<notin> set w) (map si_value xs)"
    if "list_all wf_semverIdentifier xs" for xs
    using that isSemverByte_dot by (fastforce simp: list_all_iff wf_semverIdentifier_def)
  have "map si_value ls = map si_value rs"
    using Split_Join [OF _ nodot [OF assms(1)]] Split_Join [OF _ nodot [OF assms(2)]] assms(3-5)
    by (metis list.map_disc_iff)
  then show ?thesis using assms(1,2)
  proof (induction ls arbitrary: rs)
    case (Cons l ls)
    then show ?case
      by (cases rs) (auto simp: wf_semverIdentifier_def intro: semverIdentifier.equality)
  qed simp
qed

lemma semver_public_inj:
  assumes "wf_strictSemVer m v" and "wf_strictSemVer n w"
  shows "semver_public v = semver_public w \<longleftrightarrow>
    sv_core v = sv_core w \<and> sv_prerelease v = sv_prerelease w"
proof
  obtain a0 a1 a2 b0 b1 b2 where c: "sv_core v = (a0, a1, a2)" "sv_core w = (b0, b1, b2)"
    by (metis prod_cases3)
  have da: "list_all isASCIIDigit a0" "list_all isASCIIDigit a1" "list_all isASCIIDigit a2"
    and db: "list_all isASCIIDigit b0" "list_all isASCIIDigit b1" "list_all isASCIIDigit b2"
    using assms semverCorePart_digits by (auto simp: wf_strictSemVer_def c)
  let ?core = "\<lambda>a b c. Join [a, b, c] ''.''"
  let ?suf = "\<lambda>v. if sv_prerelease v = [] then []
      else ''-'' @ Join (map si_value (sv_prerelease v)) ''.''"
  assume eq: "semver_public v = semver_public w"
  have nodash: "CHR ''-'' \<notin> set (?core x y z)"
    if "list_all isASCIIDigit x" "list_all isASCIIDigit y" "list_all isASCIIDigit z" for x y z
    using that digit_not_separator by (auto simp: list_all_iff)
  have cut: "takeWhile (\<lambda>c. c \<noteq> CHR ''-'') (p @ ?suf u) = p"
    "dropWhile (\<lambda>c. c \<noteq> CHR ''-'') (p @ ?suf u) = ?suf u" if "CHR ''-'' \<notin> set p" for p u
    using that by (induction p) auto
  have pv: "semver_public v = ?core a0 a1 a2 @ ?suf v"
    and pw: "semver_public w = ?core b0 b1 b2 @ ?suf w"
    by (simp_all add: semver_public_def c)
  have eq': "?core a0 a1 a2 @ ?suf v = ?core b0 b1 b2 @ ?suf w"
    using eq unfolding pv pw .
  have cores: "?core a0 a1 a2 = ?core b0 b1 b2"
    using arg_cong [OF eq', of "takeWhile (\<lambda>c. c \<noteq> CHR ''-'')"]
    unfolding cut(1) [OF nodash [OF da]] cut(1) [OF nodash [OF db]] .
  have sufs: "?suf v = ?suf w"
    using arg_cong [OF eq', of "dropWhile (\<lambda>c. c \<noteq> CHR ''-'')"]
    unfolding cut(2) [OF nodash [OF da]] cut(2) [OF nodash [OF db]] .
  have nodot: "list_all (\<lambda>w. CHR ''.'' \<notin> set w) [x, y, z]"
    if "list_all isASCIIDigit x" "list_all isASCIIDigit y" "list_all isASCIIDigit z" for x y z
    using that digit_not_separator by (auto simp: list_all_iff)
  have "[a0, a1, a2] = [b0, b1, b2]"
    using arg_cong [OF cores, of "\<lambda>s. Split s CHR ''.''"]
    unfolding Split_Join [OF list.discI [OF refl] nodot [OF da]]
      Split_Join [OF list.discI [OF refl] nodot [OF db]] .
  moreover have "sv_prerelease v = sv_prerelease w"
    using sufs assms wf_identifiers_inj [of "sv_prerelease v" "sv_prerelease w"]
    by (auto simp: wf_strictSemVer_def split: if_splits)
  ultimately show "sv_core v = sv_core w \<and> sv_prerelease v = sv_prerelease w"
    by (simp add: c)
qed (simp add: semver_public_def)

subsection \<open>The dialect operations\<close>

definition semver_ValidateVersion :: "string \<Rightarrow> string \<Rightarrow> gerror option" where
  "semver_ValidateVersion coreMax version =
     (case parseStrictSemVer coreMax version of Inl e \<Rightarrow> Some e | Inr _ \<Rightarrow> None)"

definition semver_CompareVersions :: "string \<Rightarrow> string \<Rightarrow> string \<Rightarrow> gerror + int" where
  "semver_CompareVersions coreMax a b =
     bind_err (parseStrictSemVer coreMax a) (\<lambda>left. bind_err (parseStrictSemVer coreMax b) (\<lambda>right.
       Inr (semver_Compare left right)))"

definition semver_canonicalVersion :: "string \<Rightarrow> string \<Rightarrow> gerror + string" where
  "semver_canonicalVersion coreMax value =
     bind_err (parseStrictSemVer coreMax value) (\<lambda>parsed. Inr (semver_canonical parsed))"

interpretation semver: version_order semver_Compare "parseStrictSemVer coreMax" semver_canonical
  for coreMax
proof (intro version_order.intro version_identity.intro version_identity_axioms.intro)
  show "three_way semver_Compare" by (rule semver_Compare_three_way)
  then show sym: "symmetric_cmp semver_Compare" by (rule three_way.axioms(1))
  show "\<exists>w. parseStrictSemVer coreMax (semver_canonical v) = Inr w \<and> semver_Compare v w = 0 \<and>
      semver_canonical w = semver_canonical v"
    if "parseStrictSemVer coreMax s = Inr v" for s v
    using that parseStrictSemVer_ok(1) [OF that] symmetric_cmp.refl [OF sym, of v]
    by (simp add: semver_canonical_def)
qed

lemma semver_canonical_of:
  "semver_canonicalVersion m = canonical_of (parseStrictSemVer m) semver_canonical"
  by (intro ext) (simp add: semver_canonicalVersion_def canonical_of_def)

lemma semver_compare_of:
  "semver_CompareVersions m = compare_of (parseStrictSemVer m) semver_Compare"
  by (intro ext) (simp add: semver_CompareVersions_def compare_of_def)

subsection \<open>Properties\<close>

text \<open>
  Two accepted versions have the same precedence exactly when their texts agree up to the
  build metadata: no two spellings of a SemVer version are confused, and metadata never
  decides.
\<close>

theorem semver_precedence_classes:
  assumes "semver_ValidateVersion coreMax a = None" and "semver_ValidateVersion coreMax b = None"
  shows "semver_CompareVersions coreMax a b = Inr 0 \<longleftrightarrow>
    takeWhile (\<lambda>c. c \<noteq> CHR ''+'') a = takeWhile (\<lambda>c. c \<noteq> CHR ''+'') b"
proof -
  obtain v w where p: "parseStrictSemVer coreMax a = Inr v" "parseStrictSemVer coreMax b = Inr w"
    using assms by (auto simp: semver_ValidateVersion_def split: sum.splits)
  note wf = p [THEN parseStrictSemVer_ok(2)]
  show ?thesis
    using semver_Compare_exact [OF wf] semver_public_inj [OF wf]
      parseStrictSemVer_ok(3) [OF p(1)] parseStrictSemVer_ok(3) [OF p(2)]
    by (simp add: semver_CompareVersions_def p)
qed

theorem semver_precedence_classes_witness:
  "(semver_CompareVersions ''9007199254740991'' ''1.2.3-rc.1+a'' ''1.2.3-rc.1'' = Inr 0 \<longleftrightarrow>
    takeWhile (\<lambda>c. c \<noteq> CHR ''+'') ''1.2.3-rc.1+a'' = takeWhile (\<lambda>c. c \<noteq> CHR ''+'') ''1.2.3-rc.1'') \<and>
   semver_CompareVersions ''9007199254740991'' ''1.2.3-rc.1+a'' ''1.2.3-rc.1'' = Inr 0"
proof
  show "semver_CompareVersions ''9007199254740991'' ''1.2.3-rc.1+a'' ''1.2.3-rc.1'' = Inr 0 \<longleftrightarrow>
    takeWhile (\<lambda>c. c \<noteq> CHR ''+'') ''1.2.3-rc.1+a'' = takeWhile (\<lambda>c. c \<noteq> CHR ''+'') ''1.2.3-rc.1''"
    by (rule semver_precedence_classes) (code_simp+)
  show "semver_CompareVersions ''9007199254740991'' ''1.2.3-rc.1+a'' ''1.2.3-rc.1'' = Inr 0"
    by code_simp
qed

text \<open>
  Every release component of an accepted version is a decimal number without leading
  zeros, at most the dialect's bound.
\<close>

theorem semver_core_bounded:
  assumes "parseStrictSemVer coreMax value = Inr v" and "allASCIIDigits coreMax"
    and "sv_core v = (major, minor, patch)"
  shows "\<forall>part \<in> {major, minor, patch}. allASCIIDigits part \<and> no_leading_zero part \<and>
    decimal_value 0 part \<le> decimal_value 0 coreMax"
proof
  fix part assume "part \<in> {major, minor, patch}"
  then have core: "semverCorePart coreMax part"
    using parseStrictSemVer_ok(2) [OF assms(1)] assms(3) by (auto simp: wf_strictSemVer_def)
  note digits = semverCorePart_digits [OF core]
  have "list_all isASCIIDigit coreMax" using assms(2) by (simp add: allASCIIDigits_def split: if_splits)
  then have "decimal_value 0 part \<le> decimal_value 0 coreMax"
    using core digits compareDecimal_value [of part coreMax] by (simp add: semverCorePart_def)
  then show "allASCIIDigits part \<and> no_leading_zero part \<and> decimal_value 0 part \<le> decimal_value 0 coreMax"
    using core digits by (simp add: semverCorePart_def)
qed

theorem semver_core_bounded_witness:
  "\<exists>v. parseStrictSemVer ''18446744073709551615'' ''1.18446744073709551615.0-a'' = Inr v \<and>
     decimal_value 0 (fst (snd (sv_core v))) \<le> decimal_value 0 ''18446744073709551615''"
proof -
  let ?v = "\<lparr>sv_raw = ''1.18446744073709551615.0-a'',
    sv_core = (''1'', ''18446744073709551615'', ''0''),
    sv_prerelease = [\<lparr>si_value = ''a'', si_numeric = False\<rparr>]\<rparr>"
  have p: "parseStrictSemVer ''18446744073709551615'' ''1.18446744073709551615.0-a'' = Inr ?v"
    by code_simp
  have "allASCIIDigits ''18446744073709551615''" by code_simp
  from semver_core_bounded [OF p this, of "''1''" "''18446744073709551615''" "''0''"] p
  show ?thesis by simp
qed

end
