(* ===== verification/Debian.thy ===== *)
theory Debian
  imports Version_Contract
begin

text \<open>
  \<open>internal/packagepolicy/debian.go\<close>: Debian package names and versions. The comparison
  of an upstream version or revision walks both strings at once, alternating runs of
  non-digits and of digits. It is shown equal to a comparison of token lists, from which it
  inherits being a total preorder; the canonical form only drops a redundant epoch.
\<close>

record debianVersion =
  deb_epoch :: string
  deb_upstream :: string
  deb_revision :: string

definition debian_upstream_char :: "char \<Rightarrow> bool" where
  "debian_upstream_char c \<longleftrightarrow> isASCIIAlphanumeric c \<or> c \<in> set ''.+-~''"

definition debian_revision_char :: "char \<Rightarrow> bool" where
  "debian_revision_char c \<longleftrightarrow> isASCIIAlphanumeric c \<or> c \<in> set ''+.~''"

text \<open>The epoch before the first colon, and the rest; at most one colon is accepted.\<close>

definition debian_split_epoch :: "string \<Rightarrow> gerror + (string \<times> string)" where
  "debian_split_epoch value =
     (case IndexByte value CHR '':'' of
        None \<Rightarrow> Inr (''0'', value)
      | Some colon \<Rightarrow>
          if colon = 0 \<or> \<not> allASCIIDigits (take colon value) then Inl plain_error
          else if ContainsByte (drop (colon + 1) value) CHR '':'' then Inl plain_error
          else Inr (take colon value, drop (colon + 1) value))"

definition debian_split_revision :: "string \<Rightarrow> gerror + (string \<times> string)" where
  "debian_split_revision remainder =
     (case LastIndexByte remainder CHR ''-'' of
        None \<Rightarrow> Inr (remainder, [])
      | Some dash \<Rightarrow>
          if drop (dash + 1) remainder = [] then Inl plain_error
          else Inr (take dash remainder, drop (dash + 1) remainder))"

definition parseDebianVersion :: "string \<Rightarrow> gerror + debianVersion" where
  "parseDebianVersion value =
     (if value = [] \<or> TrimSpace value \<noteq> value then Inl plain_error
      else bind_err (debian_split_epoch value) (\<lambda>(epoch, remainder).
        bind_err (debian_split_revision remainder) (\<lambda>(upstream, revision).
          if upstream = [] \<or> \<not> isASCIIDigit (hd upstream) then Inl plain_error
          else if \<not> list_all debian_upstream_char upstream then Inl plain_error
          else if \<not> list_all debian_revision_char revision then Inl plain_error
          else Inr \<lparr>deb_epoch = epoch, deb_upstream = upstream, deb_revision = revision\<rparr>)))"

text \<open>The order of a character; \<open>0\<close> is the end of a run.\<close>

definition debianCharacterOrder :: "nat \<Rightarrow> int" where
  "debianCharacterOrder ch =
     (if ch = byte CHR ''~'' then -1
      else if ch = 0 then 0
      else if byte CHR ''A'' \<le> ch \<and> ch \<le> byte CHR ''Z'' \<or> byte CHR ''a'' \<le> ch \<and> ch \<le> byte CHR ''z''
      then int ch
      else int ch + 256)"

definition starts_nondigit :: "string \<Rightarrow> bool" where
  "starts_nondigit s \<longleftrightarrow> s \<noteq> [] \<and> \<not> isASCIIDigit (hd s)"

text \<open>
  The inner loop of \<open>compareDebianPart\<close>: consume one non-digit from each side that has
  one, until a difference (\<open>Inl\<close> the sign) or both sides stand at a digit or the end
  (\<open>Inr\<close> what is left).
\<close>

function debianNonDigits :: "string \<Rightarrow> string \<Rightarrow> int + (string \<times> string)" where
  "debianNonDigits left right =
     (if starts_nondigit left \<or> starts_nondigit right then
        (let leftCharacter = (if starts_nondigit left then byte (hd left) else 0);
             left' = (if starts_nondigit left then tl left else left);
             rightCharacter = (if starts_nondigit right then byte (hd right) else 0);
             right' = (if starts_nondigit right then tl right else right);
             leftOrder = debianCharacterOrder leftCharacter;
             rightOrder = debianCharacterOrder rightCharacter
         in if leftOrder \<noteq> rightOrder then Inl (signOf (leftOrder - rightOrder))
            else debianNonDigits left' right')
      else Inr (left, right))"
  by pat_completeness auto
termination
  by (relation "measure (\<lambda>(l, r). length l + length r)") (auto simp: starts_nondigit_def neq_Nil_conv)

declare debianNonDigits.simps [simp del]

text \<open>
  The orders of the leading non-digits. The inner loop compares these two lists, the end of
  the shorter one counting as the order \<open>0\<close> of the missing characters, so that a tilde
  sorts before the end and every other character after it.
\<close>

abbreviation nondigit :: "char \<Rightarrow> bool" where
  "nondigit c \<equiv> \<not> isASCIIDigit c"

definition leading_orders :: "string \<Rightarrow> int list" where
  "leading_orders s = map (\<lambda>c. debianCharacterOrder (byte c)) (takeWhile nondigit s)"

lemma debianCharacterOrder_0 [simp]: "debianCharacterOrder 0 = 0"
  by (simp add: debianCharacterOrder_def byte_def)

lemma leading_orders_step:
  "starts_nondigit s \<Longrightarrow>
     leading_orders s = debianCharacterOrder (byte (hd s)) # leading_orders (tl s)"
  "\<not> starts_nondigit s \<Longrightarrow> leading_orders s = []"
  by (cases s; simp add: starts_nondigit_def leading_orders_def)+

lemma dropWhile_nondigit_step:
  "starts_nondigit s \<Longrightarrow> dropWhile nondigit s = dropWhile nondigit (tl s)"
  "\<not> starts_nondigit s \<Longrightarrow> dropWhile nondigit s = s"
  by (cases s; simp add: starts_nondigit_def)+

lemma debianNonDigits_pad_cmp:
  "debianNonDigits l r =
     (if pad_cmp int_cmp 0 (leading_orders l) (leading_orders r) \<noteq> 0
      then Inl (pad_cmp int_cmp 0 (leading_orders l) (leading_orders r))
      else Inr (dropWhile nondigit l, dropWhile nondigit r))"
proof (induction l r rule: debianNonDigits.induct)
  case (1 l r)
  show ?case
  proof (cases "starts_nondigit l \<or> starts_nondigit r")
    case True
    let ?c = "\<lambda>s. debianCharacterOrder (if starts_nondigit s then byte (hd s) else 0)"
      and ?t = "\<lambda>s. if starts_nondigit s then tl s else s"
    have split: "pad_cmp int_cmp 0 (leading_orders l) (leading_orders r) =
        (if int_cmp (?c l) (?c r) \<noteq> 0 then int_cmp (?c l) (?c r)
         else pad_cmp int_cmp 0 (leading_orders (?t l)) (leading_orders (?t r)))"
      using True by (auto simp: leading_orders_step)
    have step: "debianNonDigits l r =
        (if ?c l \<noteq> ?c r then Inl (int_cmp (?c l) (?c r)) else debianNonDigits (?t l) (?t r))"
      unfolding debianNonDigits.simps [of l r] using True
      by (simp only: Let_def if_True signOf_sgn int_cmp_def)
    have drops: "dropWhile nondigit (?t s) = dropWhile nondigit s" for s
      by (simp add: dropWhile_nondigit_step)
    show ?thesis
    proof (cases "?c l = ?c r")
      case eq: True
      show ?thesis
        using "1.IH" [OF True refl refl refl refl refl refl] eq
        unfolding step split by (simp only: drops) (simp add: int_cmp_def)
    next
      case False
      then have "int_cmp (?c l) (?c r) \<noteq> 0" by (simp only: int_cmp_def sgn_0_0 right_minus_eq not_False_eq_True)
      with False show ?thesis unfolding step split by (simp only: if_True not_False_eq_True)
    qed
  next
    case False
    then show ?thesis
      unfolding debianNonDigits.simps [of l r]
      by (simp add: leading_orders_step dropWhile_nondigit_step)
  qed
qed

text \<open>The outer loop: non-digits, then digits compared as numbers, until both sides end.\<close>

function compareDebianPart :: "string \<Rightarrow> string \<Rightarrow> int" where
  "compareDebianPart left right =
     (if left \<noteq> [] \<or> right \<noteq> [] then
        (case debianNonDigits left right of
           Inl sign \<Rightarrow> sign
         | Inr (left1, right1) \<Rightarrow>
             (let (leftDigits, leftRest) = takeDigits left1;
                  (rightDigits, rightRest) = takeDigits right1;
                  comparison = compareDecimal leftDigits rightDigits
              in if comparison \<noteq> 0 then comparison else compareDebianPart leftRest rightRest))
      else 0)"
  by pat_completeness auto

definition token_rest :: "string \<Rightarrow> string" where
  "token_rest s = dropWhile isASCIIDigit (dropWhile nondigit s)"

lemma token_rest_Nil [simp]: "token_rest [] = []"
  by (simp add: token_rest_def)

lemma length_token_rest: "length (token_rest s) \<le> length s"
  unfolding token_rest_def by (meson le_trans length_dropWhile_le)

lemma length_token_rest_less: "s \<noteq> [] \<Longrightarrow> length (token_rest s) < length s"
proof (cases s)
  case (Cons c t)
  have "length (dropWhile isASCIIDigit (dropWhile nondigit t)) \<le> length t"
    using length_token_rest [of t] by (simp add: token_rest_def)
  moreover have "length (dropWhile isASCIIDigit t) \<le> length t"
    by (rule length_dropWhile_le)
  ultimately show ?thesis
    by (simp add: Cons token_rest_def)
qed simp

termination compareDebianPart
proof (relation "measure (\<lambda>(l, r). length l + length r)", goal_cases)
  case 1
  then show ?case by simp
next
  case (2 l r p l1 r1 lp ld lr rp rd rr c)
  then have "lr = token_rest l" "rr = token_rest r"
    by (auto simp: debianNonDigits_pad_cmp takeDigits_def token_rest_def split: if_splits)
  then show ?case
    using 2(1) length_token_rest [of l] length_token_rest [of r]
      length_token_rest_less [of l] length_token_rest_less [of r] by fastforce
qed

declare compareDebianPart.simps [simp del]

text \<open>
  The reference reading of Debian Policy: a version part is the list of its alternating runs,
  a run of non-digits (as character orders) followed by a run of digits; two parts are
  compared run by run, missing runs being empty.
\<close>

function debian_tokens :: "string \<Rightarrow> (int list \<times> string) list" where
  "debian_tokens s =
     (if s = [] then []
      else (leading_orders s, takeWhile isASCIIDigit (dropWhile nondigit s)) # debian_tokens (token_rest s))"
  by pat_completeness auto
termination
  by (relation "measure length") (auto simp: length_token_rest_less)

declare debian_tokens.simps [simp del]

definition token_cmp :: "int list \<times> string \<Rightarrow> int list \<times> string \<Rightarrow> int" where
  "token_cmp = lex_cmp (\<lambda>a b. pad_cmp int_cmp 0 (fst a) (fst b)) (\<lambda>a b. compareDecimal (snd a) (snd b))"

lemma token_cmp_three_way [cmp_intros]: "three_way token_cmp"
  unfolding token_cmp_def
  by (rule lex_cmp_three_way [OF image_three_way [OF pad_cmp_three_way [OF int_cmp_three_way]]
      image_three_way [OF compareDecimal_three_way]])

definition debian_reference :: "string \<Rightarrow> string \<Rightarrow> int" where
  "debian_reference l r = pad_cmp token_cmp ([], []) (debian_tokens l) (debian_tokens r)"

lemma pad_hd_debian_tokens:
  "pad_hd ([], []) (debian_tokens s) =
     (leading_orders s, takeWhile isASCIIDigit (dropWhile nondigit s))"
  by (simp add: debian_tokens.simps [of s] pad_hd_def leading_orders_def)

lemma tl_debian_tokens: "tl (debian_tokens s) = debian_tokens (token_rest s)"
  by (cases "s = []") (simp_all add: debian_tokens.simps [of s] debian_tokens.simps [of "[]"])

lemma compareDebianPart_step:
  "compareDebianPart l r =
     (if l = [] \<and> r = [] then 0
      else if pad_cmp int_cmp 0 (leading_orders l) (leading_orders r) \<noteq> 0
      then pad_cmp int_cmp 0 (leading_orders l) (leading_orders r)
      else if compareDecimal (takeWhile isASCIIDigit (dropWhile nondigit l))
                (takeWhile isASCIIDigit (dropWhile nondigit r)) \<noteq> 0
      then compareDecimal (takeWhile isASCIIDigit (dropWhile nondigit l))
             (takeWhile isASCIIDigit (dropWhile nondigit r))
      else compareDebianPart (token_rest l) (token_rest r))"
  by (subst compareDebianPart.simps)
     (simp add: debianNonDigits_pad_cmp takeDigits_def token_rest_def Let_def)

lemma compareDebianPart_reference: "compareDebianPart l r = debian_reference l r"
proof (induction "length l + length r" arbitrary: l r rule: less_induct)
  case less
  show ?case
  proof (cases "l = [] \<and> r = []")
    case True
    then show ?thesis
      by (simp add: compareDebianPart_step debian_reference_def debian_tokens.simps)
  next
    case False
    then have "length (token_rest l) + length (token_rest r) < length l + length r"
      using length_token_rest [of l] length_token_rest [of r]
        length_token_rest_less [of l] length_token_rest_less [of r] by fastforce
    then have IH: "compareDebianPart (token_rest l) (token_rest r)
        = debian_reference (token_rest l) (token_rest r)"
      by (rule less.hyps)
    note step = pad_cmp_step [OF three_way.axioms(1) [OF token_cmp_three_way],
        of "([], [])" "debian_tokens l" "debian_tokens r"]
    show ?thesis
      unfolding compareDebianPart_step [of l r] IH debian_reference_def step
        pad_hd_debian_tokens tl_debian_tokens
      using False by (auto simp: token_cmp_def lex_cmp_def)
  qed
qed

lemma compareDebianPart_three_way [cmp_intros]: "three_way compareDebianPart"
proof -
  have "compareDebianPart = (\<lambda>l r. pad_cmp token_cmp ([], []) (debian_tokens l) (debian_tokens r))"
    by (intro ext) (simp add: compareDebianPart_reference debian_reference_def)
  then show ?thesis
    using image_three_way [OF pad_cmp_three_way [OF token_cmp_three_way]] by metis
qed

subsection \<open>The dialect operations\<close>

definition debian_compare :: "debianVersion \<Rightarrow> debianVersion \<Rightarrow> int" where
  "debian_compare left right =
     (let epoch = compareDecimal (deb_epoch left) (deb_epoch right) in
      if epoch \<noteq> 0 then epoch
      else let upstream = compareDebianPart (deb_upstream left) (deb_upstream right) in
        if upstream \<noteq> 0 then upstream
        else compareDebianPart (deb_revision left) (deb_revision right))"

definition debian_CompareVersions :: "string \<Rightarrow> string \<Rightarrow> gerror + int" where
  "debian_CompareVersions a b =
     bind_err (parseDebianVersion a) (\<lambda>left. bind_err (parseDebianVersion b) (\<lambda>right.
       Inr (debian_compare left right)))"

definition debian_render :: "debianVersion \<Rightarrow> string" where
  "debian_render parsed =
     (let epoch = TrimLeft (deb_epoch parsed) CHR ''0'' in
      (if epoch \<noteq> [] then epoch @ '':'' else []) @ deb_upstream parsed @
      (if deb_revision parsed \<noteq> [] then ''-'' @ deb_revision parsed else []))"

definition debian_canonicalVersion :: "string \<Rightarrow> gerror + string" where
  "debian_canonicalVersion value =
     bind_err (parseDebianVersion value) (\<lambda>parsed. Inr (debian_render parsed))"

lemma debian_compare_lex:
  "debian_compare =
     lex_cmp (\<lambda>v w. compareDecimal (deb_epoch v) (deb_epoch w))
       (lex_cmp (\<lambda>v w. compareDebianPart (deb_upstream v) (deb_upstream w))
         (\<lambda>v w. compareDebianPart (deb_revision v) (deb_revision w)))"
  by (intro ext) (auto simp: debian_compare_def lex_cmp_def Let_def)

lemma debian_compare_three_way: "three_way debian_compare"
  unfolding debian_compare_lex
  by (rule lex_cmp_three_way [OF image_three_way [OF compareDecimal_three_way]
      lex_cmp_three_way [OF image_three_way [OF compareDebianPart_three_way]
        image_three_way [OF compareDebianPart_three_way]]])

subsection \<open>What the parser accepts, and the canonical form\<close>

definition wf_debianVersion :: "debianVersion \<Rightarrow> bool" where
  "wf_debianVersion v \<longleftrightarrow>
     deb_epoch v \<noteq> [] \<and> list_all isASCIIDigit (deb_epoch v) \<and>
     deb_upstream v \<noteq> [] \<and> isASCIIDigit (hd (deb_upstream v)) \<and>
     list_all debian_upstream_char (deb_upstream v) \<and>
     list_all debian_revision_char (deb_revision v) \<and>
     (deb_revision v = [] \<longrightarrow> CHR ''-'' \<notin> set (deb_upstream v))"

lemma debian_split_epoch_ok:
  "debian_split_epoch s = Inr (e, r) \<Longrightarrow> e \<noteq> [] \<and> list_all isASCIIDigit e"
  by (auto simp: debian_split_epoch_def allASCIIDigits_def isASCIIDigit_def
      split: option.splits if_splits)

lemma debian_split_revision_ok:
  "debian_split_revision s = Inr (u, r) \<Longrightarrow> r = [] \<longrightarrow> CHR ''-'' \<notin> set u"
  by (auto simp: debian_split_revision_def LastIndexByte_None split: option.splits if_splits)

lemma parseDebianVersion_ok: "parseDebianVersion s = Inr v \<Longrightarrow> wf_debianVersion v"
  by (auto simp: parseDebianVersion_def wf_debianVersion_def split: if_splits
      dest: debian_split_epoch_ok debian_split_revision_ok)

lemma debian_chars:
  "debian_upstream_char c \<Longrightarrow> byte c < 128 \<and> c \<noteq> CHR '':'' \<and> \<not> IsSpace (byte c)"
  "debian_revision_char c \<Longrightarrow> byte c < 128 \<and> c \<noteq> CHR '':'' \<and> c \<noteq> CHR ''-'' \<and> \<not> IsSpace (byte c)"
  "isASCIIDigit c \<Longrightarrow> byte c < 128 \<and> c \<noteq> CHR '':'' \<and> \<not> IsSpace (byte c)"
  by (auto simp: debian_upstream_char_def debian_revision_char_def isASCIIAlphanumeric_def
      isASCIIDigit_def IsSpace_def byte_def)

lemma debian_render_chars:
  assumes "wf_debianVersion v"
  shows "list_all (\<lambda>c. byte c < 128 \<and> \<not> IsSpace (byte c)) (debian_render v)"
    and "CHR '':'' \<notin> set (deb_upstream v @ ''-'' @ deb_revision v)"
    and "CHR ''-'' \<notin> set (deb_revision v)"
proof -
  let ?Q = "\<lambda>c. byte c < 128 \<and> \<not> IsSpace (byte c)"
  have v: "list_all isASCIIDigit (TrimLeft (deb_epoch v) CHR ''0'')"
    "list_all debian_upstream_char (deb_upstream v)" "list_all debian_revision_char (deb_revision v)"
    using assms by (simp_all add: wf_debianVersion_def list_all_TrimLeft)
  have "list_all ?Q (TrimLeft (deb_epoch v) CHR ''0'')" "list_all ?Q (deb_upstream v)"
    "list_all ?Q (deb_revision v)"
    using list_all_imp [OF v(1), of ?Q] list_all_imp [OF v(2), of ?Q] list_all_imp [OF v(3), of ?Q]
      debian_chars by blast+
  moreover have "?Q CHR '':''" "?Q CHR ''-''" by (simp_all add: IsSpace_def byte_def)
  ultimately show "list_all ?Q (debian_render v)" by (simp add: debian_render_def Let_def)
  have "\<not> debian_upstream_char CHR '':''" "\<not> debian_revision_char CHR '':''" "\<not> debian_revision_char CHR ''-''"
    using debian_chars by blast+
  then show "CHR '':'' \<notin> set (deb_upstream v @ ''-'' @ deb_revision v)" "CHR ''-'' \<notin> set (deb_revision v)"
    using list_all_notin [OF v(2)] list_all_notin [OF v(3)] by simp_all
qed

lemma parse_debian_render:
  assumes "wf_debianVersion v"
  shows "parseDebianVersion (debian_render v) = Inr (v\<lparr>deb_epoch := normalizeDecimal (deb_epoch v)\<rparr>)"
proof -
  let ?e = "TrimLeft (deb_epoch v) CHR ''0''"
  define rest where "rest = deb_upstream v @ (if deb_revision v \<noteq> [] then ''-'' @ deb_revision v else [])"
  have render: "debian_render v = (if ?e \<noteq> [] then ?e @ CHR '':'' # rest else rest)"
    by (simp add: debian_render_def rest_def Let_def)
  have trim: "TrimSpace (debian_render v) = debian_render v" "debian_render v \<noteq> []"
    using assms debian_render_chars(1) [OF assms]
    by (auto intro!: TrimSpace_id simp: ContainsFunc_ascii is_ascii_def list_all_iff)
       (simp add: render rest_def wf_debianVersion_def split: if_splits)
  have nocolon: "CHR '':'' \<notin> set rest"
    using debian_render_chars(2) [OF assms] by (simp add: rest_def)
  have edigits: "list_all isASCIIDigit ?e"
    using assms by (simp add: wf_debianVersion_def list_all_TrimLeft)
  then have "CHR '':'' \<notin> set ?e" using debian_chars(3) by (auto simp: list_all_iff)
  then have epoch: "debian_split_epoch (debian_render v) = Inr (normalizeDecimal (deb_epoch v), rest)"
    using nocolon edigits unfolding render
    by (auto simp: debian_split_epoch_def IndexByte_append ContainsByte_def allASCIIDigits_def
        normalizeDecimal_def Let_def)
  have "debian_split_revision rest = Inr (deb_upstream v, deb_revision v)"
    using assms debian_render_chars(3) [OF assms]
    by (auto simp: rest_def debian_split_revision_def LastIndexByte_append wf_debianVersion_def)
  with epoch show ?thesis
    using assms trim by (simp add: parseDebianVersion_def wf_debianVersion_def)
qed

interpretation debian: version_order debian_compare parseDebianVersion debian_render
proof (intro version_order.intro version_identity.intro version_identity_axioms.intro)
  show "three_way debian_compare" by (rule debian_compare_three_way)
  then show sym: "symmetric_cmp debian_compare" by (rule three_way.axioms(1))
  show "\<exists>w. parseDebianVersion (debian_render v) = Inr w \<and> debian_compare v w = 0 \<and>
      debian_render w = debian_render v"
    if "parseDebianVersion s = Inr v" for s v
  proof (intro exI conjI)
    let ?w = "v\<lparr>deb_epoch := normalizeDecimal (deb_epoch v)\<rparr>"
    show "parseDebianVersion (debian_render v) = Inr ?w"
      by (rule parse_debian_render [OF parseDebianVersion_ok [OF that]])
    show "debian_compare v ?w = 0"
      using symmetric_cmp.refl [OF sym, of v] by (simp add: debian_compare_lex lex_cmp_def split: if_splits)
    show "debian_render ?w = debian_render v" by (simp add: debian_render_def)
  qed
qed

lemma debian_canonical_of: "debian_canonicalVersion = canonical_of parseDebianVersion debian_render"
  by (intro ext) (simp add: debian_canonicalVersion_def canonical_of_def)

lemma debian_compare_of: "debian_CompareVersions = compare_of parseDebianVersion debian_compare"
  by (intro ext) (simp add: debian_CompareVersions_def compare_of_def)

subsection \<open>Properties\<close>

text \<open>
  The two-pointer comparison of a Debian upstream version or revision is the run-by-run
  comparison of Debian Policy: both strings are cut into alternating runs of non-digits and
  digits, the runs are compared in order (characters by their Debian order, numbers by
  value), and a missing run is empty.
\<close>

theorem compareDebianPart_policy:
  "compareDebianPart left right =
     pad_cmp (\<lambda>a b. if pad_cmp int_cmp 0 (fst a) (fst b) \<noteq> 0 then pad_cmp int_cmp 0 (fst a) (fst b)
                     else compareDecimal (snd a) (snd b))
       ([], []) (debian_tokens left) (debian_tokens right)"
  by (simp add: compareDebianPart_reference debian_reference_def token_cmp_def lex_cmp_def [abs_def])

text \<open>
  A Debian version that parses has a canonical form; the canonical form parses, is its
  own canonical form, and compares equal to the original version.
\<close>

theorem debian_canonical_roundtrip:
  assumes "debian_canonicalVersion value = Inr canonical"
  shows "debian_canonicalVersion canonical = Inr canonical \<and>
    debian_CompareVersions value canonical = Inr 0"
  using assms debian.canonical_fixpoint debian.canonical_equal
  unfolding debian_canonical_of debian_compare_of by blast

theorem debian_canonical_roundtrip_witness:
  "debian_canonicalVersion ''00:1.2-3~rc1-1'' = Inr ''1.2-3~rc1-1'' \<and>
   debian_CompareVersions ''00:1.2-3~rc1-1'' ''1.2-3~rc1-1'' = Inr 0"
proof -
  have "debian_canonicalVersion ''00:1.2-3~rc1-1'' = Inr ''1.2-3~rc1-1''" by code_simp
  then show ?thesis using debian_canonical_roundtrip by blast
qed

end
