(* ===== verification/Cran.thy ===== *)
theory Cran
  imports Version_Contract
begin

text \<open>
  \<open>internal/packagepolicy/cran.go\<close>: R package versions, a sequence of decimal components
  separated by dots or dashes. Missing trailing components compare as zero; the canonical
  form separates with dots and drops trailing zero components beyond the second. Two
  versions are equal exactly when their canonical forms are.
\<close>

record cranVersion =
  cran_components :: "string list"

text \<open>
  The scan over the value: the first argument is \<open>value[start:index]\<close>, the component being
  read, the second what is left of the value at \<open>index\<close>.
\<close>

fun cranComponents :: "string \<Rightarrow> string \<Rightarrow> gerror + string list" where
  "cranComponents cur [] =
     (if cur = [] then Inl plain_error else Inr [normalizeDecimal cur])"
| "cranComponents cur (c # s) =
     (if c \<noteq> CHR ''.'' \<and> c \<noteq> CHR ''-'' then
        (if \<not> isASCIIDigit c then Inl plain_error else cranComponents (cur @ [c]) s)
      else if cur = [] then Inl plain_error
      else bind_err (cranComponents [] s) (\<lambda>cs. Inr (normalizeDecimal cur # cs)))"

definition parseCRANVersion :: "string \<Rightarrow> gerror + cranVersion" where
  "parseCRANVersion value =
     (if value = [] \<or> TrimSpace value \<noteq> value \<or>
         ContainsFunc value (\<lambda>r. IsControl r \<or> IsSpace r) then Inl plain_error
      else bind_err (cranComponents [] value) (\<lambda>components.
        if length components < 2 then Inl plain_error
        else Inr \<lparr>cran_components = components\<rparr>))"

text \<open>The comparison loop up to the longer length, a missing component being \<open>0\<close>.\<close>

fun compareCranComponents :: "string list \<Rightarrow> string list \<Rightarrow> int" where
  "compareCranComponents [] [] = 0"
| "compareCranComponents as bs =
     (let leftComponent = (case as of [] \<Rightarrow> ''0'' | a # _ \<Rightarrow> a);
          rightComponent = (case bs of [] \<Rightarrow> ''0'' | b # _ \<Rightarrow> b);
          comparison = compareDecimal leftComponent rightComponent
      in if comparison \<noteq> 0 then comparison else compareCranComponents (tl as) (tl bs))"

definition cran_compare :: "cranVersion \<Rightarrow> cranVersion \<Rightarrow> int" where
  "cran_compare a b = compareCranComponents (cran_components a) (cran_components b)"

definition cran_CompareVersions :: "string \<Rightarrow> string \<Rightarrow> gerror + int" where
  "cran_CompareVersions left right =
     bind_err (parseCRANVersion left) (\<lambda>a. bind_err (parseCRANVersion right) (\<lambda>b.
       Inr (cran_compare a b)))"

text \<open>Dropping trailing zero components while more than two are left.\<close>

function dropTrailingZeros :: "string list \<Rightarrow> string list" where
  "dropTrailingZeros components =
     (if length components > 2 \<and> last components = ''0''
      then dropTrailingZeros (butlast components) else components)"
  by pat_completeness auto
termination
  by (relation "measure length") auto

declare dropTrailingZeros.simps [simp del]

definition cran_render :: "cranVersion \<Rightarrow> string" where
  "cran_render v = Join (dropTrailingZeros (cran_components v)) ''.''"

definition cran_canonicalVersion :: "string \<Rightarrow> gerror + string" where
  "cran_canonicalVersion value = bind_err (parseCRANVersion value) (\<lambda>v. Inr (cran_render v))"

subsection \<open>Comparison\<close>

lemma compareCranComponents_pad:
  "compareCranComponents as bs = pad_cmp compareDecimal ''0'' as bs"
proof (induction as bs rule: compareCranComponents.induct, goal_cases)
  case (2 a as bs)
  then show ?case by (cases bs) (simp_all add: Let_def)
next
  case (3 as b bs)
  then show ?case by (cases as) (simp_all add: Let_def)
qed simp

lemma cran_compare_three_way: "three_way cran_compare"
proof -
  have "cran_compare = (\<lambda>a b. pad_cmp compareDecimal ''0'' (cran_components a) (cran_components b))"
    by (intro ext) (simp add: cran_compare_def compareCranComponents_pad)
  then show ?thesis
    using image_three_way [OF pad_cmp_three_way [OF compareDecimal_three_way]] by metis
qed

subsection \<open>What the parser accepts, and the canonical form\<close>

definition wf_cranVersion :: "cranVersion \<Rightarrow> bool" where
  "wf_cranVersion v \<longleftrightarrow> list_all wf_component (cran_components v) \<and> 2 \<le> length (cran_components v)"

lemma cranComponents_wf:
  "cranComponents cur s = Inr cs \<Longrightarrow> list_all isASCIIDigit cur \<Longrightarrow> list_all wf_component cs"
  by (induction cur s arbitrary: cs rule: cranComponents.induct)
     (auto simp: wf_component_def normalizeDecimal_digits normalizeDecimal_no_leading_zero
       split: if_splits)

lemma parseCRANVersion_ok: "parseCRANVersion s = Inr v \<Longrightarrow> wf_cranVersion v"
  by (auto simp: parseCRANVersion_def wf_cranVersion_def split: if_splits dest: cranComponents_wf)

lemma cranComponents_digits:
  "list_all isASCIIDigit w \<Longrightarrow> cranComponents cur (w @ s) = cranComponents (cur @ w) s"
  by (induction w arbitrary: cur) (auto simp: isASCIIDigit_def byte_def)

lemma cranComponents_Join:
  "list_all wf_component cs \<Longrightarrow> cs \<noteq> [] \<Longrightarrow> cranComponents [] (Join cs ''.'') = Inr cs"
proof (induction cs)
  case (Cons c cs)
  then have c: "list_all isASCIIDigit c" "c \<noteq> []" "normalizeDecimal c = c"
    by (auto simp: wf_component_def no_leading_zero_def normalizeDecimal_id)
  show ?case
  proof (cases cs)
    case Nil
    then show ?thesis using c cranComponents_digits [OF c(1), of "[]" "[]"] by simp
  next
    case (Cons d ds)
    then show ?thesis
      using c Cons.IH Cons.prems cranComponents_digits [OF c(1), of "[]"] by simp
  qed
qed simp

lemma dropTrailingZeros_facts:
  assumes "list_all P cs" and "2 \<le> length cs"
  shows "list_all P (dropTrailingZeros cs) \<and> 2 \<le> length (dropTrailingZeros cs)"
  using assms
proof (induction cs rule: dropTrailingZeros.induct)
  case (1 cs)
  have "list_all P (butlast cs)" using "1.prems"(1) by (auto simp: list_all_iff dest: in_set_butlastD)
  then show ?case
    using "1.prems" "1.IH" by (cases "length cs > 2 \<and> last cs = ''0''")
      (auto simp: dropTrailingZeros.simps [of cs])
qed

lemma dropTrailingZeros_idem [simp]:
  "dropTrailingZeros (dropTrailingZeros cs) = dropTrailingZeros cs"
proof (induction cs rule: dropTrailingZeros.induct)
  case (1 cs)
  then show ?case by (metis dropTrailingZeros.simps)
qed

lemma pad_cmp_dropTrailingZeros:
  "pad_cmp compareDecimal ''0'' cs (dropTrailingZeros cs) = 0"
proof (induction cs rule: dropTrailingZeros.induct)
  case (1 cs)
  have snoc: "pad_cmp compareDecimal ''0'' (xs @ [''0'']) xs = 0" for xs
    by (induction xs) (simp_all add: compareDecimal_eq_0)
  show ?case
  proof (cases "length cs > 2 \<and> last cs = ''0''")
    case True
    then have cs: "cs = butlast cs @ [''0'']" by (metis append_butlast_last_id less_nat_zero_code list.size(3))
    have "pad_cmp compareDecimal ''0'' cs (butlast cs) = 0" using snoc [of "butlast cs"] cs by simp
    moreover have "dropTrailingZeros cs = dropTrailingZeros (butlast cs)"
      using True by (simp add: dropTrailingZeros.simps [of cs])
    ultimately show ?thesis
      using 1 [OF True] three_way.eq_trans [OF pad_cmp_three_way [OF compareDecimal_three_way]] by metis
  next
    case False
    then have "dropTrailingZeros cs = cs" by (subst dropTrailingZeros.simps) auto
    then show ?thesis
      using symmetric_cmp.refl [OF three_way.axioms(1) [OF pad_cmp_three_way [OF compareDecimal_three_way]]]
      by simp
  qed
qed

lemma dropTrailingZeros_strip:
  "dropTrailingZeros (a # b # cs) = a # b # strip_suffix_while (\<lambda>x. x = ''0'') cs"
proof (induction cs rule: rev_induct)
  case Nil
  then show ?case by (subst dropTrailingZeros.simps) simp
next
  case (snoc x cs)
  then show ?case by (subst dropTrailingZeros.simps) (simp add: butlast_append)
qed

lemma cran_compare_exact:
  assumes "wf_cranVersion v" and "wf_cranVersion w"
  shows "cran_compare v w = 0 \<longleftrightarrow>
    dropTrailingZeros (cran_components v) = dropTrailingZeros (cran_components w)"
proof -
  obtain a b as c d cs where vw: "cran_components v = a # b # as" "cran_components w = c # d # cs"
    using assms by (metis Suc_le_length_iff numeral_2_eq_2 wf_cranVersion_def)
  have exact: "compareDecimal x y = 0 \<longleftrightarrow> x = y" if "wf_component x" "wf_component y" for x y
    using that by (simp add: wf_component_def compareDecimal_exact)
  have wf: "list_all wf_component (a # b # as)" "list_all wf_component (c # d # cs)"
    using assms by (simp_all add: wf_cranVersion_def vw)
  have "pad_cmp compareDecimal ''0'' as cs = 0 \<longleftrightarrow>
      strip_suffix_while (\<lambda>x. x = ''0'') as = strip_suffix_while (\<lambda>x. x = ''0'') cs"
    using wf by (intro pad_cmp_exact [of "{x. wf_component x}"])
      (auto simp: exact list_all_iff wf_component_def no_leading_zero_def isASCIIDigit_def)
  then show ?thesis
    using wf by (simp add: cran_compare_def compareCranComponents_pad vw dropTrailingZeros_strip exact)
qed

lemma component_chars:
  "list_all wf_component cs \<Longrightarrow>
     list_all (\<lambda>c. byte c < 128 \<and> \<not> IsSpace (byte c) \<and> \<not> IsControl (byte c)) (Join cs ''.'')"
proof (induction cs)
  case (Cons c cs)
  let ?Q = "\<lambda>c. byte c < 128 \<and> \<not> IsSpace (byte c) \<and> \<not> IsControl (byte c)"
  have "list_all isASCIIDigit c" using Cons.prems by (simp add: wf_component_def)
  then have "list_all ?Q c"
    using alphanumeric_not_space digit_alphanumeric byte_class_ascii(1) by (auto elim!: list_all_imp)
  moreover have "?Q CHR ''.''" by (simp add: IsSpace_def IsControl_def byte_def)
  ultimately show ?case using Cons by (cases cs) simp_all
qed simp

lemma parse_cran_Join:
  assumes "list_all wf_component cs" and "2 \<le> length cs"
  shows "parseCRANVersion (Join cs ''.'') = Inr \<lparr>cran_components = cs\<rparr>"
proof -
  have ne: "cs \<noteq> []" using assms(2) by auto
  have c: "cranComponents [] (Join cs ''.'') = Inr cs" by (rule cranComponents_Join [OF assms(1) ne])
  then have "Join cs ''.'' \<noteq> []" by auto
  moreover have "\<not> ContainsFunc (Join cs ''.'') IsSpace"
    "\<not> ContainsFunc (Join cs ''.'') (\<lambda>r. IsControl r \<or> IsSpace r)"
    using component_chars [OF assms(1)] by (auto simp: ContainsFunc_ascii is_ascii_def list_all_iff)
  ultimately show ?thesis using c assms(2) by (simp add: parseCRANVersion_def TrimSpace_id)
qed

lemma parse_cran_render:
  assumes "wf_cranVersion v"
  shows "parseCRANVersion (cran_render v) =
    Inr \<lparr>cran_components = dropTrailingZeros (cran_components v)\<rparr>"
  using assms dropTrailingZeros_facts [of wf_component "cran_components v"]
  by (simp add: cran_render_def wf_cranVersion_def parse_cran_Join)

interpretation cran: version_order cran_compare parseCRANVersion cran_render
proof (intro version_order.intro version_identity.intro version_identity_axioms.intro)
  show "three_way cran_compare" by (rule cran_compare_three_way)
  then show "symmetric_cmp cran_compare" by (rule three_way.axioms(1))
  show "\<exists>w. parseCRANVersion (cran_render v) = Inr w \<and> cran_compare v w = 0 \<and> cran_render w = cran_render v"
    if "parseCRANVersion s = Inr v" for s v
    using parse_cran_render [OF parseCRANVersion_ok [OF that]] pad_cmp_dropTrailingZeros
    by (simp add: cran_compare_def compareCranComponents_pad cran_render_def)
qed

lemma cran_canonical_of: "cran_canonicalVersion = canonical_of parseCRANVersion cran_render"
  by (intro ext) (simp add: cran_canonicalVersion_def canonical_of_def)

lemma cran_compare_of: "cran_CompareVersions = compare_of parseCRANVersion cran_compare"
  by (intro ext) (simp add: cran_CompareVersions_def compare_of_def)

subsection \<open>Properties\<close>

text \<open>
  Two CRAN versions compare equal exactly when their canonical forms are the same string,
  whatever separators, leading zeros or trailing zero components they were written with.
\<close>

theorem cran_canonical_eq:
  assumes "cran_canonicalVersion a = Inr s" and "cran_canonicalVersion b = Inr t"
  shows "cran_CompareVersions a b = Inr 0 \<longleftrightarrow> s = t"
proof -
  obtain v w where p: "parseCRANVersion a = Inr v" "parseCRANVersion b = Inr w"
    and st: "s = cran_render v" "t = cran_render w"
    using assms by (auto simp: cran_canonicalVersion_def)
  note wf = p [THEN parseCRANVersion_ok]
  have "cran_compare v w = 0 \<longleftrightarrow> cran_render v = cran_render w"
  proof
    assume "cran_render v = cran_render w"
    then show "cran_compare v w = 0"
      using parse_cran_render [OF wf(1)] parse_cran_render [OF wf(2)] cran_compare_exact [OF wf]
      by simp
  qed (simp add: cran_compare_exact [OF wf] cran_render_def)
  then show ?thesis by (simp add: cran_CompareVersions_def p st)
qed

theorem cran_canonical_eq_witness:
  "cran_CompareVersions ''1-02.0.0'' ''1.2'' = Inr 0"
proof -
  have "cran_canonicalVersion ''1-02.0.0'' = Inr ''1.2''" "cran_canonicalVersion ''1.2'' = Inr ''1.2''"
    by code_simp+
  from cran_canonical_eq [OF this] show ?thesis by simp
qed

end
