(* ===== verification/Go_Strconv.thy ===== *)
theory Go_Strconv
  imports Lexical
begin

text \<open>
  The part of Go's \<open>strconv\<close> the dialects use: \<open>ParseUint\<close> in base 10 with a bit size,
  \<open>FormatUint\<close> in base 10, and their round trip.
\<close>

definition ParseUint :: "string \<Rightarrow> nat \<Rightarrow> gerror + nat" where
  "ParseUint s bitSize =
     (if s = [] \<or> \<not> list_all isASCIIDigit s then Inl plain_error
      else if decimal_value 0 s < 2 ^ bitSize then Inr (decimal_value 0 s)
      else Inl plain_error)"

fun FormatUint :: "nat \<Rightarrow> string" where
  "FormatUint n =
     (if n < 10 then [char_of (48 + n)] else FormatUint (n div 10) @ [char_of (48 + n mod 10)])"

declare FormatUint.simps [simp del]

lemma decimal_value_append: "decimal_value n (s @ t) = decimal_value (decimal_value n s) t"
  by (induction s arbitrary: n) simp_all

lemma isASCIIDigit_char_of: "(n :: nat) < 10 \<Longrightarrow> isASCIIDigit (char_of (48 + n))"
  by (simp add: isASCIIDigit_def)

lemma FormatUint_digits: "list_all isASCIIDigit (FormatUint n)"
proof (induction n rule: FormatUint.induct)
  case (1 n)
  then show ?case by (simp add: FormatUint.simps [of n] isASCIIDigit_char_of)
qed

lemma FormatUint_nonempty [simp]: "FormatUint n \<noteq> []"
  by (simp add: FormatUint.simps [of n])

lemma decimal_value_FormatUint [simp]: "decimal_value 0 (FormatUint n) = n"
proof (induction n rule: FormatUint.induct)
  case (1 n)
  then show ?case
    by (cases "n < 10") (simp_all add: FormatUint.simps [of n] decimal_value_append)
qed

lemma FormatUint_hd: "0 < n \<Longrightarrow> hd (FormatUint n) \<noteq> CHR ''0''"
proof (induction n rule: FormatUint.induct)
  case (1 n)
  show ?case
  proof (cases "n < 10")
    case True
    have "byte (char_of (48 + n)) \<noteq> byte CHR ''0''" using True "1.prems" by simp
    then have "char_of (48 + n) \<noteq> CHR ''0''" by metis
    then show ?thesis using True by (simp add: FormatUint.simps [of n])
  next
    case False
    then show ?thesis using "1.IH" by (simp add: FormatUint.simps [of n] hd_append)
  qed
qed

lemma FormatUint_no_leading_zero: "no_leading_zero (FormatUint n)"
  using FormatUint_hd [of n] by (cases "n = 0") (auto simp: no_leading_zero_def FormatUint.simps [of 0])

lemma ParseUint_FormatUint: "n < 2 ^ bits \<Longrightarrow> ParseUint (FormatUint n) bits = Inr n"
  by (simp add: ParseUint_def FormatUint_digits)

text \<open>A loop over runes that only accepts ASCII is a loop over bytes.\<close>

lemma decode_non_ascii:
  assumes "\<not> byte c < 128"
  shows "\<not> fst (DecodeRune (c # s)) < 128"
proof -
  have b2: "\<not> fst (decode2 b s) < 128" if "194 \<le> b" for b
    using that by (induction b s rule: decode2.induct) (auto simp: RuneError_def)
  have b3: "\<not> fst (decode3 b s) < 128" if "224 \<le> b" for b
    using that by (induction b s rule: decode3.induct)
      (auto simp: RuneError_def is_continuation_def split: if_splits)
  have b4: "\<not> fst (decode4 b s) < 128" if "240 \<le> b" for b
    using that by (induction b s rule: decode4.induct)
      (auto simp: RuneError_def is_continuation_def split: if_splits)
  show ?thesis
    using assms b2 b3 b4 by (auto simp: DecodeRune.simps Let_def RuneError_def)
qed

lemma list_all_runes:
  assumes "\<And>r. P r \<Longrightarrow> r < 128"
  shows "list_all P (runes s) \<longleftrightarrow> list_all (\<lambda>c. P (byte c)) s"
proof (induction s)
  case Nil
  then show ?case by (simp add: runes_def)
next
  case (Cons c s)
  show ?case
  proof (cases "byte c < 128")
    case True
    then show ?thesis using Cons by (simp add: runes_def)
  next
    case False
    obtain r n where d: "DecodeRune (c # s) = (r, n)" by fastforce
    then have "\<not> r < 128" using decode_non_ascii [OF False, of s] by simp
    then have "\<not> P r" "\<not> P (byte c)" using assms False by blast+
    then show ?thesis by (simp add: runes_def segments.simps d)
  qed
qed

definition isDigitRune :: "rune \<Rightarrow> bool" where
  "isDigitRune r \<longleftrightarrow> \<not> (r < byte CHR ''0'' \<or> r > byte CHR ''9'')"

lemma digit_runes: "list_all isDigitRune (runes s) \<longleftrightarrow> list_all isASCIIDigit s"
proof -
  have "isASCIIDigit = (\<lambda>c. isDigitRune (byte c))"
    by (intro ext) (auto simp: isASCIIDigit_def isDigitRune_def)
  then show ?thesis using list_all_runes [of isDigitRune s] by (simp add: isDigitRune_def)
qed

end
