(* ===== verification/Nuget.thy ===== *)
theory Nuget
  imports Version_Contract Go_Strconv
begin

text \<open>
  \<open>internal/packagepolicy/nuget.go\<close>, versions: one to four release components kept as
  \<open>uint32\<close>, case-insensitive prerelease labels, ignored build metadata. Parsing a canonical
  form gives back the version it renders, so that canonical forms decide equality.
\<close>

record nugetReleaseLabel =
  nl_value :: string
  nl_numeric :: bool
  nl_number :: "32 word"

type_synonym nugetRelease = "32 word \<times> 32 word \<times> 32 word \<times> 32 word"

record nugetVersion =
  nv_release :: nugetRelease
  nv_prerelease :: "nugetReleaseLabel list"

definition maxInt32 :: string where
  "maxInt32 = ''2147483647''"

definition parseNuGetReleaseNumber :: "string \<Rightarrow> gerror + 32 word" where
  "parseNuGetReleaseNumber value =
     (if value = [] then Inl plain_error
      else if \<not> list_all isDigitRune (runes value) then Inl plain_error
      else (let canonical = TrimLeft value CHR ''0'' in
        if canonical = [] then Inr 0
        else if length canonical > length maxInt32 \<or>
          length canonical = length maxInt32 \<and> Compare canonical maxInt32 > 0 then Inl plain_error
        else bind_err (ParseUint canonical 32) (\<lambda>number. Inr (word_of_nat number))))"

definition isNuGetIdentifierCharacter :: "rune \<Rightarrow> bool" where
  "isNuGetIdentifierCharacter r \<longleftrightarrow>
     byte CHR ''0'' \<le> r \<and> r \<le> byte CHR ''9'' \<or>
     byte CHR ''A'' \<le> r \<and> r \<le> byte CHR ''Z'' \<or>
     byte CHR ''a'' \<le> r \<and> r \<le> byte CHR ''z'' \<or> r = byte CHR ''-''"

definition validNuGetIdentifier :: "bool \<Rightarrow> string \<Rightarrow> bool" where
  "validNuGetIdentifier allowNumericLeadingZero identifier \<longleftrightarrow>
     identifier \<noteq> [] \<and>
     list_all isNuGetIdentifierCharacter (runes identifier) \<and>
     (let allDigits = list_all isDigitRune (runes identifier) in
      \<not> (\<not> allowNumericLeadingZero \<and> allDigits \<and> length identifier > 1 \<and> hd identifier = CHR ''0''))"

definition validNuGetIdentifiers :: "string \<Rightarrow> bool \<Rightarrow> bool" where
  "validNuGetIdentifiers value allowNumericLeadingZero \<longleftrightarrow>
     value \<noteq> [] \<and> list_all (validNuGetIdentifier allowNumericLeadingZero) (Split value CHR ''.'')"

definition parseNuGetPrereleaseNumber :: "string \<Rightarrow> 32 word \<times> bool" where
  "parseNuGetPrereleaseNumber value =
     (if \<not> list_all isDigitRune (runes value) then (0, False)
      else case ParseUint value 31 of
        Inl _ \<Rightarrow> (0, False)
      | Inr number \<Rightarrow> (word_of_nat number, True))"

definition nugetLabel :: "string \<Rightarrow> nugetReleaseLabel" where
  "nugetLabel label =
     (let canonical = lowerASCII label;
          (number, numeric) = parseNuGetPrereleaseNumber canonical
      in \<lparr>nl_value = canonical, nl_numeric = numeric, nl_number = number\<rparr>)"

text \<open>\<open>parsed.release[index] = number\<close>.\<close>

fun setRelease :: "nat \<Rightarrow> 32 word \<Rightarrow> nugetRelease \<Rightarrow> nugetRelease" where
  "setRelease i n (a, b, c, d) =
     (if i = 0 then (n, b, c, d) else if i = 1 then (a, n, c, d)
      else if i = 2 then (a, b, n, d) else (a, b, c, n))"

fun parseNuGetRelease :: "nat \<Rightarrow> string list \<Rightarrow> nugetRelease \<Rightarrow> gerror + nugetRelease" where
  "parseNuGetRelease i [] release = Inr release"
| "parseNuGetRelease i (part # parts) release =
     bind_err (parseNuGetReleaseNumber part) (\<lambda>number.
       parseNuGetRelease (Suc i) parts (setRelease i number release))"

definition parseNuGetVersion :: "string \<Rightarrow> gerror + nugetVersion" where
  "parseNuGetVersion value =
     (if value = [] \<or> TrimSpace value \<noteq> value \<or>
         ContainsFunc value (\<lambda>r. IsControl r \<or> IsSpace r) then Inl plain_error
      else (let (public, metadata, hasMetadata) = Cut value CHR ''+'' in
        if hasMetadata \<and> (ContainsByte metadata CHR ''+'' \<or> \<not> validNuGetIdentifiers metadata True)
        then Inl plain_error
        else (let (core, prerelease, hasPrerelease) = Cut public CHR ''-'' in
          if hasPrerelease \<and> \<not> validNuGetIdentifiers prerelease False then Inl plain_error
          else (let parts = Split core CHR ''.'' in
            if length parts < 1 \<or> length parts > 4 then Inl plain_error
            else bind_err (parseNuGetRelease 0 parts (0, 0, 0, 0)) (\<lambda>release.
              Inr \<lparr>nv_release = release,
                   nv_prerelease = (if hasPrerelease then map nugetLabel (Split prerelease CHR ''.'')
                                    else [])\<rparr>)))))"

definition compareUint32 :: "32 word \<Rightarrow> 32 word \<Rightarrow> int" where
  "compareUint32 a b = (if a < b then -1 else if a > b then 1 else 0)"

fun compareNuGetRelease :: "nugetRelease \<Rightarrow> nugetRelease \<Rightarrow> int" where
  "compareNuGetRelease (a0, a1, a2, a3) (b0, b1, b2, b3) =
     (if compareUint32 a0 b0 \<noteq> 0 then compareUint32 a0 b0
      else if compareUint32 a1 b1 \<noteq> 0 then compareUint32 a1 b1
      else if compareUint32 a2 b2 \<noteq> 0 then compareUint32 a2 b2
      else compareUint32 a3 b3)"

definition compareNuGetReleaseLabels :: "nugetReleaseLabel \<Rightarrow> nugetReleaseLabel \<Rightarrow> int" where
  "compareNuGetReleaseLabels left right =
     (if nl_numeric left \<and> nl_numeric right then compareUint32 (nl_number left) (nl_number right)
      else if nl_numeric left then -1
      else if nl_numeric right then 1
      else Compare (nl_value left) (nl_value right))"

fun compareNuGetPrerelease :: "nugetReleaseLabel list \<Rightarrow> nugetReleaseLabel list \<Rightarrow> int" where
  "compareNuGetPrerelease [] [] = 0"
| "compareNuGetPrerelease [] (r # rs) = -1"
| "compareNuGetPrerelease (l # ls) [] = 1"
| "compareNuGetPrerelease (l # ls) (r # rs) =
     (let comparison = compareNuGetReleaseLabels l r in
      if comparison \<noteq> 0 then comparison else compareNuGetPrerelease ls rs)"

definition compareNuGetVersions :: "nugetVersion \<Rightarrow> nugetVersion \<Rightarrow> int" where
  "compareNuGetVersions left right =
     (let release = compareNuGetRelease (nv_release left) (nv_release right) in
      if release \<noteq> 0 then release
      else if nv_prerelease left = [] \<and> nv_prerelease right = [] then 0
      else if nv_prerelease left = [] then 1
      else if nv_prerelease right = [] then -1
      else compareNuGetPrerelease (nv_prerelease left) (nv_prerelease right))"

definition nuget_canonical :: "nugetVersion \<Rightarrow> string" where
  "nuget_canonical version =
     (case nv_release version of (a, b, c, d) \<Rightarrow>
       FormatUint (unat a) @ ''.'' @ FormatUint (unat b) @ ''.'' @ FormatUint (unat c) @
       (if d \<noteq> 0 then ''.'' @ FormatUint (unat d) else [])) @
     (if nv_prerelease version \<noteq> []
      then ''-'' @ Join (map nl_value (nv_prerelease version)) ''.'' else [])"

definition nuget_CompareVersions :: "string \<Rightarrow> string \<Rightarrow> gerror + int" where
  "nuget_CompareVersions left right =
     bind_err (parseNuGetVersion left) (\<lambda>a. bind_err (parseNuGetVersion right) (\<lambda>b.
       Inr (compareNuGetVersions a b)))"

definition nuget_canonicalVersion :: "string \<Rightarrow> gerror + string" where
  "nuget_canonicalVersion value =
     bind_err (parseNuGetVersion value) (\<lambda>version. Inr (nuget_canonical version))"

subsection \<open>Comparison\<close>

lemma compareUint32_int: "compareUint32 a b = int_cmp (uint a) (uint b)"
  by (simp add: compareUint32_def int_cmp_def word_less_def sgn_if)

lemma compareUint32_eq_0 [simp]: "compareUint32 a b = 0 \<longleftrightarrow> a = b"
  by (auto simp: compareUint32_def)

lemma compareUint32_three_way [cmp_intros]: "three_way compareUint32"
  using image_three_way [OF int_cmp_three_way, of uint]
  by (simp add: compareUint32_int [abs_def])

lemma compareNuGetRelease_lex:
  "compareNuGetRelease =
     lex_cmp (\<lambda>a b. compareUint32 (fst a) (fst b))
       (lex_cmp (\<lambda>a b. compareUint32 (fst (snd a)) (fst (snd b)))
         (lex_cmp (\<lambda>a b. compareUint32 (fst (snd (snd a))) (fst (snd (snd b))))
           (\<lambda>a b. compareUint32 (snd (snd (snd a))) (snd (snd (snd b))))))"
  by (intro ext) (auto simp: lex_cmp_def)

lemma compareNuGetRelease_three_way: "three_way compareNuGetRelease"
  unfolding compareNuGetRelease_lex
  by (intro lex_cmp_three_way) (rule image_three_way [OF compareUint32_three_way])+

lemma compareNuGetRelease_eq_0: "compareNuGetRelease a b = 0 \<longleftrightarrow> a = b"
  by (cases a; cases b) auto

lemma compareNuGetReleaseLabels_lex:
  "compareNuGetReleaseLabels =
     lex_cmp (\<lambda>l r. int_cmp (if nl_numeric l then 0 else 1) (if nl_numeric r then 0 else 1))
       (lex_cmp
         (\<lambda>l r. compareUint32 (if nl_numeric l then nl_number l else 0)
                               (if nl_numeric r then nl_number r else 0))
         (\<lambda>l r. Compare (if nl_numeric l then [] else nl_value l)
                        (if nl_numeric r then [] else nl_value r)))"
  by (intro ext) (auto simp: compareNuGetReleaseLabels_def lex_cmp_def int_cmp_def)

lemma compareNuGetReleaseLabels_three_way: "three_way compareNuGetReleaseLabels"
  unfolding compareNuGetReleaseLabels_lex
  by (rule lex_cmp_three_way [OF image_three_way [OF int_cmp_three_way]
      lex_cmp_three_way [OF image_three_way [OF compareUint32_three_way]
        image_three_way [OF Compare_three_way]]])

lemma compareNuGetPrerelease_list:
  "compareNuGetPrerelease ls rs = list_cmp compareNuGetReleaseLabels ls rs"
  by (induction ls rs rule: compareNuGetPrerelease.induct) (auto simp: Let_def)

lemma compareNuGetVersions_lex:
  "compareNuGetVersions =
     lex_cmp (\<lambda>v w. compareNuGetRelease (nv_release v) (nv_release w))
       (lex_cmp (\<lambda>v w. int_cmp (if nv_prerelease v = [] then 1 else 0)
                               (if nv_prerelease w = [] then 1 else 0))
         (\<lambda>v w. list_cmp compareNuGetReleaseLabels (nv_prerelease v) (nv_prerelease w)))"
  by (intro ext) (auto simp: compareNuGetVersions_def lex_cmp_def int_cmp_def Let_def
      compareNuGetPrerelease_list)

lemma compareNuGetVersions_three_way: "three_way compareNuGetVersions"
  unfolding compareNuGetVersions_lex
  by (rule lex_cmp_three_way [OF image_three_way [OF compareNuGetRelease_three_way]
      lex_cmp_three_way [OF image_three_way [OF int_cmp_three_way]
        image_three_way [OF list_cmp_three_way [OF compareNuGetReleaseLabels_three_way]]]])

subsection \<open>Release components\<close>

lemma maxInt32_facts:
  "list_all isASCIIDigit maxInt32" "TrimLeft maxInt32 CHR ''0'' = maxInt32"
  "decimal_value 0 maxInt32 = 2147483647"
  by (simp_all add: maxInt32_def isASCIIDigit_def byte_def TrimLeft_def)

lemma exceeds_maxInt32:
  assumes "list_all isASCIIDigit value" and "canonical = TrimLeft value CHR ''0''"
  shows "(length canonical > length maxInt32 \<or>
      length canonical = length maxInt32 \<and> Compare canonical maxInt32 > 0) \<longleftrightarrow>
    decimal_value 0 value > 2147483647"
proof -
  have "(length canonical > length maxInt32 \<or>
      length canonical = length maxInt32 \<and> Compare canonical maxInt32 > 0) \<longleftrightarrow>
      compareDecimal value maxInt32 > 0"
    by (auto simp: compareDecimal_def maxInt32_facts assms(2) Let_def signOf_def split: if_splits)
  then show ?thesis
    using compareDecimal_value [OF assms(1) maxInt32_facts(1)] maxInt32_facts(3)
    by (simp add: sgn_if)
qed

lemma parseNuGetReleaseNumber_value:
  "parseNuGetReleaseNumber value =
     (if value \<noteq> [] \<and> list_all isASCIIDigit value \<and> decimal_value 0 value \<le> 2147483647
      then Inr (word_of_nat (decimal_value 0 value)) else Inl plain_error)"
proof (cases "value \<noteq> [] \<and> list_all isASCIIDigit value")
  case True
  define canonical where "canonical = TrimLeft value CHR ''0''"
  have digits: "list_all isASCIIDigit canonical"
    using True by (simp add: canonical_def list_all_TrimLeft)
  have dv: "decimal_value 0 canonical = decimal_value 0 value" by (simp add: canonical_def)
  show ?thesis
  proof (cases "canonical = []")
    case Nil: True
    then have "decimal_value 0 value = 0" using dv by simp
    then show ?thesis
      using True Nil by (simp add: parseNuGetReleaseNumber_def digit_runes canonical_def)
  next
    case False
    then show ?thesis
      using True exceeds_maxInt32 [OF conjunct2 [OF True] canonical_def] digits dv
      by (simp add: parseNuGetReleaseNumber_def digit_runes ParseUint_def not_less Let_def
          flip: canonical_def)
  qed
qed (auto simp: parseNuGetReleaseNumber_def digit_runes)

lemma parseNuGetReleaseNumber_bound:
  "parseNuGetReleaseNumber value = Inr n \<Longrightarrow> unat n < 2 ^ 31"
  by (auto simp: parseNuGetReleaseNumber_value unat_of_nat take_bit_eq_mod split: if_splits)

lemma parseNuGetReleaseNumber_Format:
  "unat n < 2 ^ 31 \<Longrightarrow> parseNuGetReleaseNumber (FormatUint (unat n)) = Inr n"
  by (simp add: parseNuGetReleaseNumber_value FormatUint_digits)

subsection \<open>What the parser accepts\<close>

definition wf_nugetRelease :: "nugetRelease \<Rightarrow> bool" where
  "wf_nugetRelease r \<longleftrightarrow> (case r of (a, b, c, d) \<Rightarrow>
     unat a < 2 ^ 31 \<and> unat b < 2 ^ 31 \<and> unat c < 2 ^ 31 \<and> unat d < 2 ^ 31)"

definition wf_nugetLabel :: "nugetReleaseLabel \<Rightarrow> bool" where
  "wf_nugetLabel l \<longleftrightarrow> validNuGetIdentifier False (nl_value l) \<and> l = nugetLabel (nl_value l)"

definition wf_nugetVersion :: "nugetVersion \<Rightarrow> bool" where
  "wf_nugetVersion v \<longleftrightarrow> wf_nugetRelease (nv_release v) \<and> list_all wf_nugetLabel (nv_prerelease v)"

lemma parseNuGetRelease_wf:
  "parseNuGetRelease i parts r = Inr r' \<Longrightarrow> wf_nugetRelease r \<Longrightarrow> wf_nugetRelease r'"
proof (induction i parts r rule: parseNuGetRelease.induct)
  case (2 i part parts r)
  then obtain n where n: "parseNuGetReleaseNumber part = Inr n"
    "parseNuGetRelease (Suc i) parts (setRelease i n r) = Inr r'"
    by auto
  have "wf_nugetRelease (setRelease i n r)"
    using "2.prems"(2) parseNuGetReleaseNumber_bound [OF n(1)]
    by (cases r) (auto simp: wf_nugetRelease_def)
  then show ?case using "2.IH" n by blast
qed simp

lemma identifier_runes:
  "list_all isNuGetIdentifierCharacter (runes s) \<longleftrightarrow> list_all (\<lambda>c. isNuGetIdentifierCharacter (byte c)) s"
  by (rule list_all_runes) (auto simp: isNuGetIdentifierCharacter_def byte_def)

lemma identifier_lower [simp]:
  "isNuGetIdentifierCharacter (byte (lowerByte c)) \<longleftrightarrow> isNuGetIdentifierCharacter (byte c)"
  by (auto simp: isNuGetIdentifierCharacter_def lowerByte_byte isASCIIUpper_def)

lemma validNuGetIdentifier_lower [simp]:
  "validNuGetIdentifier z (lowerASCII s) \<longleftrightarrow> validNuGetIdentifier z s"
proof -
  have "hd (lowerASCII s) = CHR ''0'' \<longleftrightarrow> hd s = CHR ''0''" if "s \<noteq> []"
    using that by (cases s) (simp_all add: lowerASCII_def lowerByte_eq_iff isASCIIAlpha_def)
  then show ?thesis
    by (cases "s = []")
      (simp_all add: validNuGetIdentifier_def identifier_runes digit_runes, simp_all add: lowerASCII_def list.pred_map comp_def)
qed

lemma nugetLabel_simps [simp]: "nl_value (nugetLabel s) = lowerASCII s"
  "nugetLabel (lowerASCII s) = nugetLabel s"
  by (simp_all add: nugetLabel_def Let_def split: prod.split)

lemma nugetLabel_wf: "validNuGetIdentifier False s \<Longrightarrow> wf_nugetLabel (nugetLabel s)"
  by (simp add: wf_nugetLabel_def)

lemma parseNuGetVersion_ok: "parseNuGetVersion s = Inr v \<Longrightarrow> wf_nugetVersion v"
  by (auto simp: parseNuGetVersion_def wf_nugetVersion_def validNuGetIdentifiers_def list_all_iff
      wf_nugetRelease_def [of "(0, 0, 0, 0)"] nugetLabel_wf Let_def
      split: prod.splits if_splits dest: parseNuGetRelease_wf)

subsection \<open>Parsing a canonical form\<close>

definition canonical_parts :: "nugetRelease \<Rightarrow> string list" where
  "canonical_parts r = (case r of (a, b, c, d) \<Rightarrow>
     map (\<lambda>n. FormatUint (unat n)) (if d \<noteq> 0 then [a, b, c, d] else [a, b, c]))"

lemma nuget_canonical_parts:
  "nuget_canonical v = Join (canonical_parts (nv_release v)) ''.'' @
     (if nv_prerelease v \<noteq> [] then CHR ''-'' # Join (map nl_value (nv_prerelease v)) ''.'' else [])"
  by (cases "nv_release v") (simp add: nuget_canonical_def canonical_parts_def)

lemma parse_canonical_parts:
  "wf_nugetRelease r \<Longrightarrow> parseNuGetRelease 0 (canonical_parts r) (0, 0, 0, 0) = Inr r"
  by (cases r) (auto simp: canonical_parts_def wf_nugetRelease_def parseNuGetReleaseNumber_Format)

lemma canonical_parts_digits: "list_all (list_all isASCIIDigit) (canonical_parts r)"
  by (cases r) (simp add: canonical_parts_def FormatUint_digits)

abbreviation nuget_char :: "char \<Rightarrow> bool" where
  "nuget_char c \<equiv> isNuGetIdentifierCharacter (byte c) \<or> c = CHR ''.''"

lemma nuget_char_facts:
  "nuget_char c \<Longrightarrow> byte c < 128 \<and> c \<noteq> CHR ''+'' \<and> \<not> IsSpace (byte c) \<and> \<not> IsControl (byte c)"
  by (auto simp: isNuGetIdentifierCharacter_def IsSpace_def IsControl_def)

lemma label_chars:
  assumes "list_all wf_nugetLabel ls"
  shows "list_all (\<lambda>w. list_all (\<lambda>c. isNuGetIdentifierCharacter (byte c)) w) (map nl_value ls)"
  using assms unfolding list.pred_map comp_def
  by (rule list_all_imp) (simp add: wf_nugetLabel_def validNuGetIdentifier_def identifier_runes)

lemma nuget_canonical_chars:
  assumes "wf_nugetVersion v"
  shows "list_all nuget_char (nuget_canonical v)"
proof -
  have "list_all (list_all nuget_char) (canonical_parts (nv_release v))"
    using canonical_parts_digits
    by (rule list_all_imp) (auto elim!: list_all_imp simp: isNuGetIdentifierCharacter_def isASCIIDigit_def)
  moreover have "list_all (list_all nuget_char) (map nl_value (nv_prerelease v))"
    using label_chars [of "nv_prerelease v"] assms
    by (auto simp: wf_nugetVersion_def list_all_iff)
  ultimately show ?thesis
    unfolding nuget_canonical_parts
    by (auto intro!: list_all_Join simp: isNuGetIdentifierCharacter_def)
qed

lemma parse_nuget_canonical:
  assumes "wf_nugetVersion v"
  shows "parseNuGetVersion (nuget_canonical v) = Inr v"
proof -
  let ?ls = "nv_prerelease v" and ?r = "nv_release v"
  let ?core = "Join (canonical_parts ?r) ''.''" and ?pre = "Join (map nl_value ?ls) ''.''"
  have chars: "list_all (\<lambda>c. byte c < 128 \<and> \<not> IsSpace (byte c) \<and> \<not> IsControl (byte c)) (nuget_canonical v)"
    "list_all (\<lambda>c. c \<noteq> CHR ''+'') (nuget_canonical v)"
    using nuget_canonical_chars [OF assms] nuget_char_facts by (auto elim!: list_all_imp)
  have ne: "nuget_canonical v \<noteq> []"
    by (cases ?r) (simp add: nuget_canonical_parts canonical_parts_def)
  have guard: "\<not> ContainsFunc (nuget_canonical v) (\<lambda>r. IsControl r \<or> IsSpace r)"
    "TrimSpace (nuget_canonical v) = nuget_canonical v"
    using ascii_clean [OF chars(1)] by auto
  have plus: "Cut (nuget_canonical v) CHR ''+'' = (nuget_canonical v, [], False)"
    using list_all_notin [OF chars(2)] by (intro Cut_absent) simp
  have "list_all (list_all (\<lambda>c. c \<noteq> CHR ''-'')) (canonical_parts ?r)"
    using canonical_parts_digits
    by (rule list_all_imp) (auto elim!: list_all_imp simp: isASCIIDigit_def)
  then have "list_all (\<lambda>c. c \<noteq> CHR ''-'') ?core" by (intro list_all_Join) simp_all
  then have dash: "CHR ''-'' \<notin> set ?core" by (auto simp: list_all_iff)
  have "list_all (\<lambda>w. CHR ''.'' \<notin> set w) (canonical_parts ?r)"
    using canonical_parts_digits
    by (rule list_all_imp) (auto simp: list_all_iff isASCIIDigit_def)
  then have core: "Split ?core CHR ''.'' = canonical_parts ?r"
    by (intro Split_Join) (auto simp: canonical_parts_def split: prod.split)
  have len: "canonical_parts ?r \<noteq> []" "length (canonical_parts ?r) \<le> 4"
    by (simp_all add: canonical_parts_def split: prod.split)
  have wf: "list_all wf_nugetLabel ?ls" "wf_nugetRelease ?r"
    using assms by (simp_all add: wf_nugetVersion_def)
  have "list_all (\<lambda>w. CHR ''.'' \<notin> set w) (map nl_value ?ls)"
    using label_chars [OF wf(1)]
    by (rule list_all_imp) (auto simp: list_all_iff isNuGetIdentifierCharacter_def)
  then have pre: "?ls \<noteq> [] \<Longrightarrow> Split ?pre CHR ''.'' = map nl_value ?ls"
    by (intro Split_Join) simp_all
  have labels: "map nugetLabel (map nl_value ?ls) = ?ls"
    using wf(1) by (induction ?ls) (auto simp: list_all_iff wf_nugetLabel_def intro!: map_idI)
  have valid: "validNuGetIdentifiers ?pre False" if "?ls \<noteq> []"
  proof -
    have "list_all (validNuGetIdentifier False) (map nl_value ?ls)"
      using wf(1) by (simp add: list_all_iff wf_nugetLabel_def)
    then have "?pre \<noteq> []"
      using that by (cases ?ls) (simp_all add: validNuGetIdentifier_def Join_head)
    with \<open>list_all (validNuGetIdentifier False) (map nl_value ?ls)\<close> pre [OF that]
    show ?thesis by (simp only: validNuGetIdentifiers_def simp_thms)
  qed
  show ?thesis
  proof (cases "?ls = []")
    case True
    then show ?thesis
      using ne guard plus core len Cut_absent [OF dash] parse_canonical_parts [OF wf(2)]
      by (simp add: parseNuGetVersion_def) (simp add: nuget_canonical_parts Let_def)
  next
    case False
    then have "Cut (nuget_canonical v) CHR ''-'' = (?core, ?pre, True)"
      using Cut_append [OF dash] by (simp add: nuget_canonical_parts)
    then show ?thesis
      using False ne guard plus core len parse_canonical_parts [OF wf(2)] pre labels valid
      by (simp add: parseNuGetVersion_def Let_def)
  qed
qed

lemma nugetLabel_numeric:
  assumes "validNuGetIdentifier False s" and "nl_numeric (nugetLabel s)"
  shows "no_leading_zero (lowerASCII s) \<and> list_all isASCIIDigit (lowerASCII s) \<and>
    decimal_value 0 (lowerASCII s) < 2 ^ 31 \<and>
    nl_number (nugetLabel s) = word_of_nat (decimal_value 0 (lowerASCII s))"
proof -
  define t where "t = lowerASCII s"
  have "validNuGetIdentifier False t" using assms(1) by (simp add: t_def)
  then show ?thesis
    using assms(2) unfolding nugetLabel_def t_def [symmetric]
    by (auto simp: parseNuGetPrereleaseNumber_def ParseUint_def validNuGetIdentifier_def
        digit_runes no_leading_zero_def Let_def split: if_splits sum.splits)
qed

lemma wf_nugetLabel_numeric:
  assumes "wf_nugetLabel x" and "nl_numeric x"
  shows "no_leading_zero (nl_value x) \<and> list_all isASCIIDigit (nl_value x) \<and>
    decimal_value 0 (nl_value x) < 2 ^ 31 \<and> nl_number x = word_of_nat (decimal_value 0 (nl_value x))"
  using assms nugetLabel_numeric [of "nl_value x"] unfolding wf_nugetLabel_def
  by (metis nugetLabel_simps(1))

lemma nugetLabel_exact:
  assumes "wf_nugetLabel l" and "wf_nugetLabel r"
  shows "compareNuGetReleaseLabels l r = 0 \<longleftrightarrow> l = r"
proof -
  have eq: "l = r" if "nl_value l = nl_value r" using assms that unfolding wf_nugetLabel_def by metis
  show ?thesis
  proof
    assume c: "compareNuGetReleaseLabels l r = 0"
    show "l = r"
    proof (cases "nl_numeric l \<and> nl_numeric r")
      case True
      note nl = wf_nugetLabel_numeric [OF assms(1)] and nr = wf_nugetLabel_numeric [OF assms(2)]
      have "nl_number l = nl_number r" using c True by (simp add: compareNuGetReleaseLabels_def)
      then have "unat (word_of_nat (decimal_value 0 (nl_value l)) :: 32 word) =
          unat (word_of_nat (decimal_value 0 (nl_value r)) :: 32 word)"
        using nl nr True by simp
      then have "decimal_value 0 (nl_value l) = decimal_value 0 (nl_value r)"
        using nl nr True by (simp add: unat_of_nat take_bit_eq_mod)
      then have "compareDecimal (nl_value l) (nl_value r) = 0"
        using compareDecimal_value [of "nl_value l" "nl_value r"] nl nr True by simp
      then show ?thesis using compareDecimal_exact nl nr True eq by blast
    next
      case False
      then show ?thesis using c eq by (auto simp: compareNuGetReleaseLabels_def split: if_splits)
    qed
  qed (auto simp: compareNuGetReleaseLabels_def)
qed

lemma nugetLabels_exact:
  "list_all wf_nugetLabel ls \<Longrightarrow> list_all wf_nugetLabel rs \<Longrightarrow>
     list_cmp compareNuGetReleaseLabels ls rs = 0 \<longleftrightarrow> ls = rs"
proof (induction ls arbitrary: rs)
  case Nil
  then show ?case by (cases rs) auto
next
  case (Cons l ls)
  then show ?case by (cases rs) (auto simp: nugetLabel_exact)
qed

lemma compareNuGetVersions_exact:
  assumes "wf_nugetVersion v" and "wf_nugetVersion w"
  shows "compareNuGetVersions v w = 0 \<longleftrightarrow> v = w"
proof -
  have "compareNuGetVersions v w = 0 \<longleftrightarrow> nv_release v = nv_release w \<and> nv_prerelease v = nv_prerelease w"
    unfolding compareNuGetVersions_lex
    using nugetLabels_exact [of "nv_prerelease v" "nv_prerelease w"] assms
    by (auto simp: lex_cmp_def int_cmp_def compareNuGetRelease_eq_0 wf_nugetVersion_def)
  then show ?thesis by (metis nugetVersion.surjective unit.exhaust)
qed

interpretation nuget: version_order compareNuGetVersions parseNuGetVersion nuget_canonical
proof (intro version_order.intro version_identity.intro version_identity_axioms.intro)
  show "three_way compareNuGetVersions" by (rule compareNuGetVersions_three_way)
  then show sym: "symmetric_cmp compareNuGetVersions" by (rule three_way.axioms(1))
  show "\<exists>w. parseNuGetVersion (nuget_canonical v) = Inr w \<and> compareNuGetVersions v w = 0 \<and>
      nuget_canonical w = nuget_canonical v"
    if "parseNuGetVersion s = Inr v" for s v
    using parse_nuget_canonical [OF parseNuGetVersion_ok [OF that]] symmetric_cmp.refl [OF sym, of v]
    by blast
qed

lemma nuget_canonical_of: "nuget_canonicalVersion = canonical_of parseNuGetVersion nuget_canonical"
  by (intro ext) (simp add: nuget_canonicalVersion_def canonical_of_def)

lemma nuget_compare_of: "nuget_CompareVersions = compare_of parseNuGetVersion compareNuGetVersions"
  by (intro ext) (simp add: nuget_CompareVersions_def compare_of_def)

subsection \<open>Properties\<close>

text \<open>
  A NuGet release component is accepted exactly when it is a non-empty string of ASCII
  digits whose value fits a non-negative Int32, and then the \<open>uint32\<close> it is stored in holds
  that value: no spelling overflows or wraps.
\<close>

theorem nuget_component_value:
  "parseNuGetReleaseNumber value =
     (if allASCIIDigits value \<and> decimal_value 0 value \<le> 2147483647
      then Inr (word_of_nat (decimal_value 0 value)) else Inl plain_error) \<and>
   (\<forall>n. parseNuGetReleaseNumber value = Inr n \<longleftrightarrow>
      allASCIIDigits value \<and> decimal_value 0 value \<le> 2147483647 \<and> unat n = decimal_value 0 value)"
proof (intro conjI allI)
  show v: "parseNuGetReleaseNumber value =
     (if allASCIIDigits value \<and> decimal_value 0 value \<le> 2147483647
      then Inr (word_of_nat (decimal_value 0 value)) else Inl plain_error)"
    by (simp add: parseNuGetReleaseNumber_value allASCIIDigits_def)
  fix n :: "32 word"
  have "word_of_nat k = n \<longleftrightarrow> unat n = k" if "k \<le> 2147483647" for k
    using that by (auto simp: unat_of_nat take_bit_eq_mod)
  then show "parseNuGetReleaseNumber value = Inr n \<longleftrightarrow>
      allASCIIDigits value \<and> decimal_value 0 value \<le> 2147483647 \<and> unat n = decimal_value 0 value"
    unfolding v by auto
qed

text \<open>
  The canonical form of a NuGet version decides its identity: two accepted versions
  compare equal exactly when their canonical forms are the same string, and a canonical form
  is its own canonical form.
\<close>

theorem nuget_canonical_identity:
  assumes "nuget_canonicalVersion a = Inr s" and "nuget_canonicalVersion b = Inr t"
  shows "(nuget_CompareVersions a b = Inr 0 \<longleftrightarrow> s = t) \<and> nuget_canonicalVersion s = Inr s"
proof
  obtain v w where p: "parseNuGetVersion a = Inr v" "parseNuGetVersion b = Inr w"
    and st: "s = nuget_canonical v" "t = nuget_canonical w"
    using assms by (auto simp: nuget_canonicalVersion_def)
  note wf = p [THEN parseNuGetVersion_ok]
  have "nuget_canonical v = nuget_canonical w \<longleftrightarrow> v = w"
    using parse_nuget_canonical [OF wf(1)] parse_nuget_canonical [OF wf(2)] by (metis sum.inject(2))
  then show "nuget_CompareVersions a b = Inr 0 \<longleftrightarrow> s = t"
    using compareNuGetVersions_exact [OF wf] by (simp add: nuget_CompareVersions_def p st)
  show "nuget_canonicalVersion s = Inr s"
    using nuget.canonical_fixpoint assms(1) unfolding nuget_canonical_of .
qed

theorem nuget_canonical_identity_witness:
  "nuget_CompareVersions ''01.2-RC.1+meta'' ''1.2.0.0-rc.1'' = Inr 0"
proof -
  have "nuget_canonicalVersion ''01.2-RC.1+meta'' = Inr ''1.2.0-rc.1''"
    "nuget_canonicalVersion ''1.2.0.0-rc.1'' = Inr ''1.2.0-rc.1''"
    by code_simp+
  from nuget_canonical_identity [OF this] show ?thesis by simp
qed

end
