(* ===== verification/Go_Regexp.thy ===== *)
theory Go_Regexp
  imports Lexical
begin

text \<open>
  The fragment of Go's \<open>regexp\<close> that \<open>pep440.go\<close> needs: character classes, sequence,
  alternation, greedy repetition and named groups. The match is leftmost-first, the order in
  which a backtracking search tries the alternatives; \<open>rx_match\<close> is that search in
  continuation-passing style. A group that does not take part in the match is the empty
  string, as in \<open>FindStringSubmatch\<close>. \<open>rx_path\<close> is the relational reading; every
  match the search finds is one of its paths.
\<close>

datatype 'g regex =
    Cls "char \<Rightarrow> bool"
  | Eps
  | Seq "'g regex" "'g regex"
  | Alt "'g regex" "'g regex"
  | Star "'g regex"
  | Cap 'g "'g regex"

type_synonym 'g groups = "'g \<Rightarrow> string"
type_synonym 'g matcher =
  "string \<Rightarrow> 'g groups \<Rightarrow> (string \<Rightarrow> 'g groups \<Rightarrow> 'g groups option) \<Rightarrow> 'g groups option"

definition or_else :: "'a option \<Rightarrow> 'a option \<Rightarrow> 'a option" where
  "or_else a b = (case a of Some x \<Rightarrow> Some x | None \<Rightarrow> b)"

lemma or_else_Some: "or_else a b = Some x \<longleftrightarrow> a = Some x \<or> a = None \<and> b = Some x"
  by (cases a) (auto simp: or_else_def)

lemma or_else_simps [simp]: "or_else None b = b" "or_else (Some y) b = Some y" "or_else a None = a"
  by (simp_all add: or_else_def split: option.split)

text \<open>Greedy repetition; every round must consume something, so the length of the text bounds the rounds.\<close>

primrec star_loop :: "nat \<Rightarrow> 'g matcher \<Rightarrow> 'g matcher" where
  "star_loop 0 m s c k = k s c"
| "star_loop (Suc n) m s c k =
     or_else (m s c (\<lambda>s' c'. if length s' < length s then star_loop n m s' c' k else None)) (k s c)"

primrec rx_match :: "'g regex \<Rightarrow> 'g matcher" where
  "rx_match (Cls P) s c k = (case s of [] \<Rightarrow> None | x # xs \<Rightarrow> if P x then k xs c else None)"
| "rx_match Eps s c k = k s c"
| "rx_match (Seq r1 r2) s c k = rx_match r1 s c (\<lambda>s' c'. rx_match r2 s' c' k)"
| "rx_match (Alt r1 r2) s c k = or_else (rx_match r1 s c k) (rx_match r2 s c k)"
| "rx_match (Star r) s c k = star_loop (length s) (rx_match r) s c k"
| "rx_match (Cap g r) s c k =
     rx_match r s c (\<lambda>s' c'. k s' (c'(g := take (length s - length s') s)))"

declare rx_match.simps(1) [simp del]

lemma match_Cls [simp]:
  "rx_match (Cls P) [] c k = None"
  "rx_match (Cls P) (x # xs) c k = (if P x then k xs c else None)"
  by (simp_all add: rx_match.simps(1))

definition Opt :: "'g regex \<Rightarrow> 'g regex" where
  "Opt r = Alt r Eps"

definition Plus :: "'g regex \<Rightarrow> 'g regex" where
  "Plus r = Seq r (Star r)"

definition Chr :: "char \<Rightarrow> 'g regex" where
  "Chr d = Cls (\<lambda>x. lowerByte x = d)"

lemma match_Opt: "rx_match (Opt r) s c k = or_else (rx_match r s c k) (k s c)"
  by (simp add: Opt_def)

lemma match_Chr [simp]:
  "rx_match (Chr d) [] c k = None"
  "rx_match (Chr d) (x # xs) c k = (if lowerByte x = d then k xs c else None)"
  by (simp_all add: Chr_def)

text \<open>A literal under \<open>(?i)\<close>, given in lower case.\<close>

fun Lit :: "string \<Rightarrow> 'g regex" where
  "Lit [] = Eps"
| "Lit (d # ds) = Seq (Chr d) (Lit ds)"

definition find_submatch :: "'g regex \<Rightarrow> string \<Rightarrow> 'g groups option" where
  "find_submatch r s = rx_match r s (\<lambda>_. []) (\<lambda>s' c'. if s' = [] then Some c' else None)"

subsection \<open>Evaluation by the list of successes\<close>

text \<open>
  The same search as the list of all matches in the order the search finds them; this is the
  form concrete inputs are evaluated with.
\<close>

primrec star_succs :: "nat \<Rightarrow> (string \<Rightarrow> 'g groups \<Rightarrow> (string \<times> 'g groups) list) \<Rightarrow>
    string \<Rightarrow> 'g groups \<Rightarrow> (string \<times> 'g groups) list" where
  "star_succs 0 f s c = [(s, c)]"
| "star_succs (Suc n) f s c =
     concat (map (\<lambda>(s', c'). if length s' < length s then star_succs n f s' c' else []) (f s c)) @ [(s, c)]"

primrec rx_succs :: "'g regex \<Rightarrow> string \<Rightarrow> 'g groups \<Rightarrow> (string \<times> 'g groups) list" where
  "rx_succs (Cls P) s c = (case s of [] \<Rightarrow> [] | x # xs \<Rightarrow> if P x then [(xs, c)] else [])"
| "rx_succs Eps s c = [(s, c)]"
| "rx_succs (Seq r1 r2) s c = concat (map (\<lambda>(s', c'). rx_succs r2 s' c') (rx_succs r1 s c))"
| "rx_succs (Alt r1 r2) s c = rx_succs r1 s c @ rx_succs r2 s c"
| "rx_succs (Star r) s c = star_succs (length s) (rx_succs r) s c"
| "rx_succs (Cap g r) s c =
     map (\<lambda>(s', c'). (s', c'(g := take (length s - length s') s))) (rx_succs r s c)"

fun first_some :: "('a \<Rightarrow> 'b option) \<Rightarrow> 'a list \<Rightarrow> 'b option" where
  "first_some k [] = None"
| "first_some k (x # xs) = or_else (k x) (first_some k xs)"

lemma first_some_append: "first_some k (xs @ ys) = or_else (first_some k xs) (first_some k ys)"
  by (induction xs) (auto simp: or_else_def split: option.splits)

lemma first_some_concat:
  "first_some k (concat (map g xs)) = first_some (\<lambda>x. first_some k (g x)) xs"
  by (induction xs) (simp_all add: first_some_append)

lemma first_some_map: "first_some k (map g xs) = first_some (\<lambda>x. k (g x)) xs"
  by (induction xs) simp_all

lemma star_loop_succs:
  assumes "\<And>s c k. m s c k = first_some (\<lambda>(s', c'). k s' c') (f s c)"
  shows "star_loop n m s c k = first_some (\<lambda>(s', c'). k s' c') (star_succs n f s c)"
proof (induction n arbitrary: s c)
  case 0
  then show ?case by (simp add: or_else_def split: option.split)
next
  case (Suc n)
  let ?K = "\<lambda>s' c'. if length s' < length s then star_loop n m s' c' k else None"
  have K: "(\<lambda>(s', c'). ?K s' c') =
      (\<lambda>x. first_some (\<lambda>(s', c'). k s' c')
        ((\<lambda>(s', c'). if length s' < length s then star_succs n f s' c' else []) x))"
    by (intro ext) (auto simp: Suc)
  have "first_some (\<lambda>(s', c'). k s' c') [(s, c)] = k s c" by simp
  then show ?case
    unfolding star_loop.simps star_succs.simps assms [of s c ?K] first_some_append first_some_concat K
    by simp
qed

lemma rx_match_succs: "rx_match r s c k = first_some (\<lambda>(s', c'). k s' c') (rx_succs r s c)"
proof (induction r arbitrary: s c k)
  case (Cls P)
  then show ?case by (cases s) (simp_all add: or_else_def split: option.split)
next
  case Eps
  then show ?case by (simp add: or_else_def split: option.split)
next
  case (Seq r1 r2)
  have "(\<lambda>(s', c'). rx_match r2 s' c' k) =
      (\<lambda>x. first_some (\<lambda>(s', c'). k s' c') ((\<lambda>(s', c'). rx_succs r2 s' c') x))"
    by (intro ext) (auto simp: Seq)
  then show ?case by (simp add: Seq(1) first_some_concat)
next
  case (Alt r1 r2)
  then show ?case by (simp add: first_some_append)
next
  case (Star r)
  then show ?case by (simp add: star_loop_succs [of "rx_match r" "rx_succs r"])
next
  case (Cap g r)
  then show ?case by (simp add: first_some_map case_prod_beta')
qed

lemma find_submatch_code [code]:
  "find_submatch r s =
     (case filter (\<lambda>(s', c'). s' = []) (rx_succs r s (\<lambda>_. [])) of [] \<Rightarrow> None | (s', c') # _ \<Rightarrow> Some c')"
proof -
  have "first_some (\<lambda>(s', c'). if s' = [] then Some c' else None) xs =
      (case filter (\<lambda>(s', c'). s' = []) xs of [] \<Rightarrow> None | (s', c') # _ \<Rightarrow> Some c')"
    for xs :: "(string \<times> 'a groups) list"
    by (induction xs) auto
  then show ?thesis by (simp add: find_submatch_def rx_match_succs)
qed

subsection \<open>Every match is a path\<close>

inductive rx_path :: "'g regex \<Rightarrow> string \<Rightarrow> 'g groups \<Rightarrow> string \<Rightarrow> 'g groups \<Rightarrow> bool" where
  path_Cls: "P x \<Longrightarrow> rx_path (Cls P) (x # s) c s c"
| path_Eps: "rx_path Eps s c s c"
| path_Seq: "rx_path r1 s c s' c' \<Longrightarrow> rx_path r2 s' c' s'' c'' \<Longrightarrow> rx_path (Seq r1 r2) s c s'' c''"
| path_AltL: "rx_path r1 s c s' c' \<Longrightarrow> rx_path (Alt r1 r2) s c s' c'"
| path_AltR: "rx_path r2 s c s' c' \<Longrightarrow> rx_path (Alt r1 r2) s c s' c'"
| path_Star0: "rx_path (Star r) s c s c"
| path_Star1: "rx_path r s c s' c' \<Longrightarrow> rx_path (Star r) s' c' s'' c'' \<Longrightarrow> rx_path (Star r) s c s'' c''"
| path_Cap: "rx_path r s c s' c' \<Longrightarrow>
    rx_path (Cap g r) s c s' (c'(g := take (length s - length s') s))"

inductive_cases path_ClsE: "rx_path (Cls P) s c s' c'"
inductive_cases path_EpsE: "rx_path Eps s c s' c'"
inductive_cases path_SeqE: "rx_path (Seq r1 r2) s c s' c'"
inductive_cases path_AltE: "rx_path (Alt r1 r2) s c s' c'"
inductive_cases path_CapE: "rx_path (Cap g r) s c s' c'"

lemma star_loop_sound:
  assumes "\<And>s c k. m s c k = Some x \<Longrightarrow> \<exists>s' c'. rx_path r s c s' c' \<and> k s' c' = Some x"
    and "star_loop n m s c k = Some x"
  shows "\<exists>s' c'. rx_path (Star r) s c s' c' \<and> k s' c' = Some x"
  using assms(2)
proof (induction n arbitrary: s c)
  case 0
  then show ?case using path_Star0 by fastforce
next
  case (Suc n)
  let ?k = "\<lambda>s' c'. if length s' < length s then star_loop n m s' c' k else None"
  consider "m s c ?k = Some x" | "k s c = Some x"
    using Suc.prems by (auto simp: or_else_Some)
  then show ?case
  proof cases
    case 1
    from assms(1) [OF this] obtain s1 c1 where
      "rx_path r s c s1 c1" "star_loop n m s1 c1 k = Some x"
      by (auto split: if_splits)
    then show ?thesis using Suc.IH path_Star1 by metis
  next
    case 2
    then show ?thesis using path_Star0 by metis
  qed
qed

lemma rx_match_sound:
  "rx_match r s c k = Some x \<Longrightarrow> \<exists>s' c'. rx_path r s c s' c' \<and> k s' c' = Some x"
proof (induction r arbitrary: s c k)
  case (Cls P)
  then show ?case by (cases s) (auto split: if_splits intro: path_Cls)
next
  case Eps
  then show ?case using path_Eps by fastforce
next
  case (Seq r1 r2)
  then obtain s1 c1 where "rx_path r1 s c s1 c1" "rx_match r2 s1 c1 k = Some x" by fastforce
  then show ?case using Seq.IH(2) path_Seq by metis
next
  case (Alt r1 r2)
  then show ?case by (auto simp: or_else_Some) (metis path_AltL path_AltR)+
next
  case (Star r)
  then show ?case using star_loop_sound [of "rx_match r" x r] by (metis rx_match.simps(5))
next
  case (Cap g r)
  then obtain s1 c1 where "rx_path r s c s1 c1" "k s1 (c1(g := take (length s - length s1) s)) = Some x"
    by fastforce
  then show ?case using path_Cap by metis
qed

lemma find_submatch_path:
  "find_submatch r s = Some c \<Longrightarrow> rx_path r s (\<lambda>_. []) [] c"
  using rx_match_sound [of r s "\<lambda>_. []"] by (fastforce simp: find_submatch_def split: if_splits)

text \<open>A path consumes a prefix.\<close>

lemma path_suffix: "rx_path r s c s' c' \<Longrightarrow> \<exists>w. s = w @ s'"
  by (induction rule: rx_path.induct) auto

lemma path_Cap_iff:
  "rx_path (Cap g r) s c s' c' \<longleftrightarrow>
     (\<exists>w c1. s = w @ s' \<and> rx_path r s c s' c1 \<and> c' = c1(g := w))"
proof
  assume "rx_path (Cap g r) s c s' c'"
  then obtain c1 where "rx_path r s c s' c1" "c' = c1(g := take (length s - length s') s)"
    by (elim path_CapE) auto
  moreover from path_suffix [OF this(1)] obtain w where "s = w @ s'" by blast
  ultimately show "\<exists>w c1. s = w @ s' \<and> rx_path r s c s' c1 \<and> c' = c1(g := w)" by auto
next
  assume "\<exists>w c1. s = w @ s' \<and> rx_path r s c s' c1 \<and> c' = c1(g := w)"
  then show "rx_path (Cap g r) s c s' c'" using path_Cap by fastforce
qed

lemma path_simps:
  "rx_path (Cls P) s c s' c' \<longleftrightarrow> (\<exists>x. s = x # s' \<and> P x \<and> c' = c)"
  "rx_path Eps s c s' c' \<longleftrightarrow> s' = s \<and> c' = c"
  "rx_path (Seq r1 r2) s c s' c' \<longleftrightarrow> (\<exists>s1 c1. rx_path r1 s c s1 c1 \<and> rx_path r2 s1 c1 s' c')"
  "rx_path (Alt r1 r2) s c s' c' \<longleftrightarrow> rx_path r1 s c s' c' \<or> rx_path r2 s c s' c'"
  "rx_path (Opt r) s c s' c' \<longleftrightarrow> rx_path r s c s' c' \<or> s' = s \<and> c' = c"
  "rx_path (Chr d) s c s' c' \<longleftrightarrow> (\<exists>x. s = x # s' \<and> lowerByte x = d \<and> c' = c)"
  unfolding Opt_def Chr_def
  by (auto intro: rx_path.intros elim: path_ClsE path_EpsE path_AltE) (blast elim: path_SeqE)

lemma path_Lit: "rx_path (Lit l) s c s' c' \<longleftrightarrow> (\<exists>w. s = w @ s' \<and> lowerASCII w = l \<and> c' = c)"
proof (induction l arbitrary: s)
  case Nil
  then show ?case by (auto simp: path_simps lowerASCII_def)
next
  case (Cons d l)
  show ?case
  proof
    assume "rx_path (Lit (d # l)) s c s' c'"
    then obtain x w where "s = x # w @ s'" "lowerByte x = d" "lowerASCII w = l" "c' = c"
      by (auto simp: path_simps Cons.IH)
    then show "\<exists>w. s = w @ s' \<and> lowerASCII w = d # l \<and> c' = c"
      by (intro exI [of _ "x # w"]) (simp add: lowerASCII_def)
  next
    assume "\<exists>w. s = w @ s' \<and> lowerASCII w = d # l \<and> c' = c"
    then obtain x w where x: "s = x # w @ s'" "lowerByte x = d" "lowerASCII w = l" "c' = c"
      by (auto simp: lowerASCII_def)
    then have "rx_path (Lit l) (w @ s') c s' c'" using Cons.IH by blast
    then show "rx_path (Lit (d # l)) s c s' c'"
      using x(1,2) by (auto simp: path_simps)
  qed
qed

lemma path_Star_words:
  assumes "rx_path (Star r) s c s' c'"
    and "\<And>s c s' c'. rx_path r s c s' c' \<Longrightarrow> c' = c \<and> (\<exists>w. s = w @ s' \<and> P w)"
  shows "c' = c \<and> (\<exists>ws. s = concat ws @ s' \<and> list_all P ws)"
  using assms(1)
proof (induction "Star r" s c s' c' rule: rx_path.induct)
  case (path_Star0 s c)
  then show ?case by (auto intro: exI [of _ "[]"])
next
  case (path_Star1 s c s1 c1 s2 c2)
  from assms(2) [OF path_Star1(1)] obtain w where "c1 = c" "s = w @ s1" "P w" by blast
  moreover obtain ws where "c2 = c1" "s1 = concat ws @ s2" "list_all P ws" using path_Star1 by blast
  ultimately show ?case by (intro conjI exI [of _ "w # ws"]) simp_all
qed

lemma path_Plus_Cls:
  assumes "rx_path (Plus (Cls P)) s c s' c'"
  shows "c' = c \<and> (\<exists>w. s = w @ s' \<and> w \<noteq> [] \<and> list_all P w)"
proof -
  obtain x t where x: "s = x # t" "P x" "rx_path (Star (Cls P)) t c s' c'"
    using assms by (auto simp: Plus_def path_simps)
  have "c' = c \<and> (\<exists>ws. t = concat ws @ s' \<and> list_all (list_all P) ws)"
    by (rule path_Star_words [OF x(3)]) (auto simp: path_simps)
  then obtain ws where ws: "c' = c" "t = concat ws @ s'" "list_all (list_all P) ws" by blast
  have "list_all P (concat ws)" using ws(3) by (auto simp: list_all_iff)
  then show ?thesis using x ws by (intro conjI exI [of _ "x # concat ws"]) simp_all
qed

subsection \<open>The greedy path\<close>

definition stops :: "(char \<Rightarrow> bool) \<Rightarrow> string \<Rightarrow> bool" where
  "stops P s \<longleftrightarrow> s = [] \<or> \<not> P (hd s)"

lemma star_Cls_greedy:
  assumes "list_all P w" and "stops P s" and "k s c = Some x" and "length w \<le> n"
  shows "star_loop n (rx_match (Cls P)) (w @ s) c k = Some x"
  using assms
proof (induction w arbitrary: n)
  case Nil
  then have "rx_match (Cls P) s c k' = None" for k' by (cases s) (auto simp: stops_def)
  then show ?case using Nil by (cases n) simp_all
next
  case (Cons a w)
  then obtain m where n: "n = Suc m" by (cases n) auto
  have "star_loop m (rx_match (Cls P)) (w @ s) c k = Some x"
    using Cons.prems n by (intro Cons.IH) auto
  then show ?case using Cons.prems n by simp
qed

lemma Plus_Cls_greedy:
  assumes "list_all P w" and "w \<noteq> []" and "stops P s" and "k s c = Some x"
  shows "rx_match (Plus (Cls P)) (w @ s) c k = Some x"
  using assms by (cases w) (auto simp: Plus_def intro!: star_Cls_greedy)

lemma star_Cls_fail:
  assumes "\<And>u v. w = u @ v \<Longrightarrow> k (v @ s) c = None" and "list_all P w" and "stops P s"
  shows "star_loop n (rx_match (Cls P)) (w @ s) c k = None"
  using assms
proof (induction w arbitrary: n)
  case Nil
  then have "rx_match (Cls P) s c k' = None" for k' by (cases s) (auto simp: stops_def)
  then show ?case using Nil(1) [of "[]" "[]"] by (cases n) simp_all
next
  case (Cons a w)
  have "star_loop m (rx_match (Cls P)) (w @ s) c k = None" for m
    using Cons.prems by (intro Cons.IH) (auto intro: Cons.prems(1) [of "a # _"])
  then show ?case using Cons.prems(1) [of "[]" "a # w"] Cons.prems(2) by (cases n) simp_all
qed

lemma Plus_Cls_fail:
  assumes "\<And>u v. w = u @ v \<Longrightarrow> k (v @ s) c = None" and "list_all P w" and "stops P s"
  shows "rx_match (Plus (Cls P)) (w @ s) c k = None"
proof (cases w)
  case Nil
  then show ?thesis using assms(3) by (cases s) (auto simp: Plus_def stops_def)
next
  case (Cons a v)
  have "star_loop n (rx_match (Cls P)) (v @ s) c k = None" for n
    using assms Cons by (intro star_Cls_fail) (auto intro: assms(1) [of "a # _"])
  then show ?thesis using assms(2) Cons by (simp add: Plus_def)
qed

text \<open>Words separated by one separator each, as far as they go.\<close>

lemma star_words_greedy:
  assumes "list_all (\<lambda>w. w \<noteq> [] \<and> list_all P w) ws" and "Q d" and "\<not> P d" and "stops P s"
    and "\<And>k'. rx_match (Seq (Cls Q) (Plus (Cls P))) s c k' = None"
    and "k s c = Some x" and "length ws \<le> n"
  shows "star_loop n (rx_match (Seq (Cls Q) (Plus (Cls P)))) (concat (map (\<lambda>w. d # w) ws) @ s) c k = Some x"
  using assms(1,7)
proof (induction ws arbitrary: n)
  case Nil
  then show ?case using assms(5,6) by (cases n) (simp_all del: rx_match.simps)
next
  case (Cons w ws)
  then obtain m where n: "n = Suc m" by (cases n) auto
  let ?t = "concat (map (\<lambda>w. d # w) ws) @ s"
  have "star_loop m (rx_match (Seq (Cls Q) (Plus (Cls P)))) ?t c k = Some x"
    using Cons n by (intro Cons.IH) simp_all
  moreover have "stops P ?t" using assms(3,4) by (cases ws) (auto simp: stops_def)
  ultimately have "rx_match (Plus (Cls P)) (w @ ?t) c (\<lambda>s' c'.
      if length s' < length (d # w @ ?t) then star_loop m (rx_match (Seq (Cls Q) (Plus (Cls P)))) s' c' k
      else None) = Some x"
    using Cons.prems by (intro Plus_Cls_greedy) (simp_all del: rx_match.simps)
  then have "rx_match (Seq (Cls Q) (Plus (Cls P))) (d # w @ ?t) c (\<lambda>s' c'.
      if length s' < length (d # w @ ?t) then star_loop m (rx_match (Seq (Cls Q) (Plus (Cls P)))) s' c' k
      else None) = Some x"
    using assms(2) by (simp only: rx_match.simps(3) match_Cls if_True)
  then show ?case unfolding n list.map concat.simps append_Cons append_assoc star_loop.simps
    by (simp only: or_else_simps)
qed

lemma Join_words: "Join (w # ws) [d] = w @ concat (map (\<lambda>w. d # w) ws)"
  by (induction ws arbitrary: w) simp_all

lemma words_greedy:
  assumes "list_all (\<lambda>w. w \<noteq> [] \<and> list_all P w) (w # ws)" and "Q d" and "\<not> P d" and "stops P s"
    and "\<And>k'. rx_match (Seq (Cls Q) (Plus (Cls P))) s c k' = None" and "k s c = Some x"
  shows "rx_match (Seq (Plus (Cls P)) (Star (Seq (Cls Q) (Plus (Cls P))))) (Join (w # ws) [d] @ s) c k = Some x"
proof -
  let ?t = "concat (map (\<lambda>w. d # w) ws) @ s"
  have "length ws \<le> length (concat (map (\<lambda>w. d # w) ws))" by (induction ws) auto
  then have "star_loop (length ?t) (rx_match (Seq (Cls Q) (Plus (Cls P)))) ?t c k = Some x"
    using assms by (intro star_words_greedy) (simp_all del: rx_match.simps)
  then have "rx_match (Star (Seq (Cls Q) (Plus (Cls P)))) ?t c k = Some x" by (simp only: rx_match.simps(5))
  moreover have "stops P ?t" using assms(3,4) by (cases ws) (auto simp: stops_def)
  ultimately have "rx_match (Plus (Cls P)) (w @ ?t) c
      (\<lambda>s' c'. rx_match (Star (Seq (Cls Q) (Plus (Cls P)))) s' c' k) = Some x"
    using assms(1) by (intro Plus_Cls_greedy) (simp_all del: rx_match.simps)
  then show ?thesis by (simp only: rx_match.simps(3) Join_words append_assoc)
qed

end
