(* ===== verification/Pep440.thy ===== *)
theory Pep440
  imports Version_Contract Go_Regexp
begin

text \<open>
  \<open>internal/packagepolicy/pep440.go\<close>, versions: the PEP 440 pattern, the parser that
  normalises what its groups captured, the comparison and the derived versions the range
  matcher uses. Parsing a canonical form gives back the version it renders; the comparison
  is a total preorder that identifies exactly the versions that agree up to trailing zero
  release components.
\<close>

record pep440Prerelease =
  pre_kind :: string
  pre_number :: string

record pep440LocalSegment =
  ls_value :: string
  ls_numeric :: bool

record pep440Version =
  pv_epoch :: string
  pv_release :: "string list"
  pv_pre :: "pep440Prerelease option"
  pv_post :: "string option"
  pv_dev :: "string option"
  pv_local :: "pep440LocalSegment list"
  pv_canonical :: string

subsection \<open>The pattern\<close>

datatype pep440Group =
  G_epoch | G_release | G_pre | G_pre_l | G_pre_n | G_post | G_post_n1 | G_post_l | G_post_n2 |
  G_dev | G_dev_l | G_dev_n | G_local

type_synonym prx = "pep440Group regex"

definition rx_digits :: prx where "rx_digits = Plus (Cls isASCIIDigit)"

definition isSeparator :: "char \<Rightarrow> bool" where
  "isSeparator c \<longleftrightarrow> c = CHR ''.'' \<or> c = CHR ''_'' \<or> c = CHR ''-''"

definition rx_sep :: prx where "rx_sep = Cls isSeparator"

definition rx_epoch :: prx where
  "rx_epoch = Opt (Seq (Cap G_epoch rx_digits) (Chr CHR ''!''))"

definition rx_release :: prx where
  "rx_release = Cap G_release (Seq rx_digits (Star (Seq (Chr CHR ''.'') rx_digits)))"

definition rx_pre_l :: prx where
  "rx_pre_l = Alt (Lit ''alpha'') (Alt (Lit ''a'') (Alt (Lit ''beta'') (Alt (Lit ''b'')
     (Alt (Lit ''preview'') (Alt (Lit ''pre'') (Alt (Lit ''c'') (Lit ''rc'')))))))"

text \<open>The shape shared by the prerelease, post and development parts: separator, word, separator, number.\<close>

definition rx_suffix :: "pep440Group \<Rightarrow> pep440Group \<Rightarrow> prx \<Rightarrow> prx" where
  "rx_suffix gl gn r = Seq (Opt rx_sep) (Seq (Cap gl r) (Seq (Opt rx_sep) (Opt (Cap gn rx_digits))))"

definition rx_pre :: prx where
  "rx_pre = Opt (Cap G_pre (rx_suffix G_pre_l G_pre_n rx_pre_l))"

definition rx_post_l :: prx where
  "rx_post_l = Alt (Lit ''post'') (Alt (Lit ''rev'') (Lit ''r''))"

definition rx_post :: prx where
  "rx_post = Opt (Cap G_post (Alt
     (Seq (Chr CHR ''-'') (Cap G_post_n1 rx_digits))
     (rx_suffix G_post_l G_post_n2 rx_post_l)))"

definition rx_dev :: prx where
  "rx_dev = Opt (Cap G_dev (rx_suffix G_dev_l G_dev_n (Lit ''dev'')))"

definition rx_word :: prx where "rx_word = Plus (Cls isASCIIAlphanumeric)"

definition rx_local :: prx where
  "rx_local = Opt (Seq (Chr CHR ''+'') (Cap G_local (Seq rx_word (Star (Seq rx_sep rx_word)))))"

definition pep440VersionPattern :: prx where
  "pep440VersionPattern =
     Seq (Opt (Chr CHR ''v'')) (Seq rx_epoch (Seq rx_release (Seq rx_pre (Seq rx_post (Seq rx_dev rx_local)))))"

subsection \<open>Parsing\<close>

text \<open>\<open>strings.FieldsFunc\<close> on ASCII text: the maximal runs without separators.\<close>

fun FieldsFunc_acc :: "(char \<Rightarrow> bool) \<Rightarrow> string \<Rightarrow> string \<Rightarrow> string list" where
  "FieldsFunc_acc p cur [] = (if cur = [] then [] else [cur])"
| "FieldsFunc_acc p cur (c # s) =
     (if p c then (if cur = [] then FieldsFunc_acc p [] s else cur # FieldsFunc_acc p [] s)
      else FieldsFunc_acc p (cur @ [c]) s)"

definition FieldsFunc :: "string \<Rightarrow> (char \<Rightarrow> bool) \<Rightarrow> string list" where
  "FieldsFunc s p = FieldsFunc_acc p [] s"

definition normalizePreKind :: "string \<Rightarrow> string" where
  "normalizePreKind kind =
     (if kind = ''alpha'' then ''a''
      else if kind = ''beta'' then ''b''
      else if kind = ''c'' \<or> kind = ''pre'' \<or> kind = ''preview'' then ''rc''
      else kind)"

definition localSegment :: "string \<Rightarrow> pep440LocalSegment" where
  "localSegment component =
     (let numeric = allASCIIDigits component in
      \<lparr>ls_value = (if numeric then normalizeDecimal component else component), ls_numeric = numeric\<rparr>)"

definition buildCanonical :: "pep440Version \<Rightarrow> string" where
  "buildCanonical version =
     (if pv_epoch version \<noteq> ''0'' then pv_epoch version @ ''!'' else []) @
     Join (pv_release version) ''.'' @
     (case pv_pre version of None \<Rightarrow> [] | Some p \<Rightarrow> pre_kind p @ pre_number p) @
     (case pv_post version of None \<Rightarrow> [] | Some n \<Rightarrow> ''.post'' @ n) @
     (case pv_dev version of None \<Rightarrow> [] | Some n \<Rightarrow> ''.dev'' @ n) @
     (if pv_local version \<noteq> [] then ''+'' @ Join (map ls_value (pv_local version)) ''.'' else [])"

text \<open>
  From the captured groups to the version. The text is ASCII at this point, where
  \<open>strings.ToLower\<close> is \<open>lowerASCII\<close>.
\<close>

definition pep440OfGroups :: "pep440Group groups \<Rightarrow> pep440Version" where
  "pep440OfGroups groups =
     (let version = \<lparr>
        pv_epoch = normalizeDecimal (groups G_epoch),
        pv_release = map normalizeDecimal (Split (groups G_release) CHR ''.''),
        pv_pre = (if groups G_pre \<noteq> [] then
            Some \<lparr>pre_kind = normalizePreKind (lowerASCII (groups G_pre_l)),
                  pre_number = normalizeDecimal (groups G_pre_n)\<rparr>
          else None),
        pv_post = (if groups G_post \<noteq> [] then
            Some (normalizeDecimal (if groups G_post_n1 = [] then groups G_post_n2 else groups G_post_n1))
          else None),
        pv_dev = (if groups G_dev \<noteq> [] then Some (normalizeDecimal (groups G_dev_n)) else None),
        pv_local = (if groups G_local \<noteq> []
          then map localSegment (FieldsFunc (lowerASCII (groups G_local)) isSeparator) else []),
        pv_canonical = []\<rparr>
      in version\<lparr>pv_canonical := buildCanonical version\<rparr>)"

definition parsePEP440Version :: "string \<Rightarrow> gerror + pep440Version" where
  "parsePEP440Version value =
     (if value = [] \<or> TrimSpace value \<noteq> value \<or> ContainsFunc value IsControl \<or>
         ContainsFunc value IsSpace then Inl plain_error
      else if \<not> list_all (\<lambda>c. byte c \<le> 127) value then Inl plain_error
      else case find_submatch pep440VersionPattern value of
        None \<Rightarrow> Inl plain_error
      | Some groups \<Rightarrow> Inr (pep440OfGroups groups))"

subsection \<open>Comparison\<close>

fun comparePEP440Release :: "string list \<Rightarrow> string list \<Rightarrow> int" where
  "comparePEP440Release [] [] = 0"
| "comparePEP440Release left right =
     (let leftComponent = (case left of [] \<Rightarrow> ''0'' | a # _ \<Rightarrow> a);
          rightComponent = (case right of [] \<Rightarrow> ''0'' | b # _ \<Rightarrow> b);
          comparison = compareDecimal leftComponent rightComponent
      in if comparison \<noteq> 0 then comparison else comparePEP440Release (tl left) (tl right))"

definition pep440PreSentinel :: "pep440Version \<Rightarrow> int" where
  "pep440PreSentinel version =
     (if pv_pre version \<noteq> None then 0
      else if pv_post version = None \<and> pv_dev version \<noteq> None then -1
      else 1)"

text \<open>The Go map literal; a missing key reads as \<open>0\<close>.\<close>

definition preOrder :: "string \<Rightarrow> int" where
  "preOrder kind = (if kind = ''a'' then 0 else if kind = ''b'' then 1 else if kind = ''rc'' then 2 else 0)"

definition comparePEP440Pre :: "pep440Version \<Rightarrow> pep440Version \<Rightarrow> int" where
  "comparePEP440Pre left right =
     (let leftRank = pep440PreSentinel left; rightRank = pep440PreSentinel right in
      if leftRank \<noteq> rightRank then signOf (leftRank - rightRank)
      else if leftRank \<noteq> 0 then 0
      else (let leftPre = the (pv_pre left); rightPre = the (pv_pre right);
                leftOrder = preOrder (pre_kind leftPre); rightOrder = preOrder (pre_kind rightPre) in
        if leftOrder \<noteq> rightOrder then signOf (leftOrder - rightOrder)
        else compareDecimal (pre_number leftPre) (pre_number rightPre)))"

fun compareOptionalDecimal :: "string option \<Rightarrow> string option \<Rightarrow> int \<Rightarrow> int" where
  "compareOptionalDecimal None None missingOrder = 0"
| "compareOptionalDecimal None (Some r) missingOrder = missingOrder"
| "compareOptionalDecimal (Some l) None missingOrder = - missingOrder"
| "compareOptionalDecimal (Some l) (Some r) missingOrder = compareDecimal l r"

definition compareLocalSegment :: "pep440LocalSegment \<Rightarrow> pep440LocalSegment \<Rightarrow> int" where
  "compareLocalSegment left right =
     (if ls_numeric left \<noteq> ls_numeric right then (if ls_numeric left then 1 else -1)
      else if ls_numeric left then compareDecimal (ls_value left) (ls_value right)
      else signOf (Compare (ls_value left) (ls_value right)))"

text \<open>The loop over the common positions and the length tie-break.\<close>

fun compareLocalSegments :: "pep440LocalSegment list \<Rightarrow> pep440LocalSegment list \<Rightarrow> int" where
  "compareLocalSegments (l # ls) (r # rs) =
     (let comparison = compareLocalSegment l r in
      if comparison \<noteq> 0 then comparison else compareLocalSegments ls rs)"
| "compareLocalSegments ls rs = signOf (int (length ls) - int (length rs))"

definition comparePEP440Local :: "pep440LocalSegment list \<Rightarrow> pep440LocalSegment list \<Rightarrow> int" where
  "comparePEP440Local left right =
     (if left = [] \<and> right = [] then 0
      else if left = [] then -1
      else if right = [] then 1
      else compareLocalSegments left right)"

definition comparePEP440Versions :: "pep440Version \<Rightarrow> pep440Version \<Rightarrow> int" where
  "comparePEP440Versions left right =
     (let comparison = compareDecimal (pv_epoch left) (pv_epoch right) in
      if comparison \<noteq> 0 then comparison
      else let comparison = comparePEP440Release (pv_release left) (pv_release right) in
        if comparison \<noteq> 0 then comparison
        else let comparison = comparePEP440Pre left right in
          if comparison \<noteq> 0 then comparison
          else let comparison = compareOptionalDecimal (pv_post left) (pv_post right) (-1) in
            if comparison \<noteq> 0 then comparison
            else let comparison = compareOptionalDecimal (pv_dev left) (pv_dev right) 1 in
              if comparison \<noteq> 0 then comparison
              else comparePEP440Local (pv_local left) (pv_local right))"

definition withoutLocal :: "pep440Version \<Rightarrow> pep440Version" where
  "withoutLocal version = version\<lparr>pv_local := []\<rparr>"

definition postBase :: "pep440Version \<Rightarrow> pep440Version" where
  "postBase version = version\<lparr>pv_post := None, pv_dev := None, pv_local := []\<rparr>"

definition earliestPrerelease :: "pep440Version \<Rightarrow> pep440Version" where
  "earliestPrerelease version = version\<lparr>pv_dev := Some ''0'', pv_local := []\<rparr>"

definition isPrerelease :: "pep440Version \<Rightarrow> bool" where
  "isPrerelease version \<longleftrightarrow> pv_pre version \<noteq> None \<or> pv_dev version \<noteq> None"

definition isPostrelease :: "pep440Version \<Rightarrow> bool" where
  "isPostrelease version \<longleftrightarrow> pv_post version \<noteq> None"

definition pep440_CompareVersions :: "string \<Rightarrow> string \<Rightarrow> gerror + int" where
  "pep440_CompareVersions left right =
     bind_err (parsePEP440Version left) (\<lambda>a. bind_err (parsePEP440Version right) (\<lambda>b.
       Inr (comparePEP440Versions a b)))"

definition pep440_canonicalVersion :: "string \<Rightarrow> gerror + string" where
  "pep440_canonicalVersion value =
     bind_err (parsePEP440Version value) (\<lambda>version. Inr (pv_canonical version))"

definition pep440_validateRangeTarget :: "string \<Rightarrow> gerror option" where
  "pep440_validateRangeTarget value =
     (case parsePEP440Version value of
        Inl e \<Rightarrow> Some e
      | Inr version \<Rightarrow> if pv_local version \<noteq> [] then Some plain_error else None)"

subsection \<open>The comparison is a total preorder\<close>

lemma comparePEP440Release_pad:
  "comparePEP440Release as bs = pad_cmp compareDecimal ''0'' as bs"
proof (induction as bs rule: comparePEP440Release.induct, goal_cases)
  case (2 a as bs)
  then show ?case by (cases bs) (simp_all add: Let_def)
next
  case (3 as b bs)
  then show ?case by (cases as) (simp_all add: Let_def)
qed simp

lemma comparePEP440Pre_lex:
  "comparePEP440Pre =
     lex_cmp (\<lambda>v w. int_cmp (pep440PreSentinel v) (pep440PreSentinel w))
       (lex_cmp
         (\<lambda>v w. int_cmp (case pv_pre v of None \<Rightarrow> 0 | Some p \<Rightarrow> preOrder (pre_kind p))
                        (case pv_pre w of None \<Rightarrow> 0 | Some p \<Rightarrow> preOrder (pre_kind p)))
         (\<lambda>v w. compareDecimal (case pv_pre v of None \<Rightarrow> [] | Some p \<Rightarrow> pre_number p)
                               (case pv_pre w of None \<Rightarrow> [] | Some p \<Rightarrow> pre_number p)))"
proof (intro ext)
  fix v w
  show "comparePEP440Pre v w =
     lex_cmp (\<lambda>v w. int_cmp (pep440PreSentinel v) (pep440PreSentinel w))
       (lex_cmp
         (\<lambda>v w. int_cmp (case pv_pre v of None \<Rightarrow> 0 | Some p \<Rightarrow> preOrder (pre_kind p))
                        (case pv_pre w of None \<Rightarrow> 0 | Some p \<Rightarrow> preOrder (pre_kind p)))
         (\<lambda>v w. compareDecimal (case pv_pre v of None \<Rightarrow> [] | Some p \<Rightarrow> pre_number p)
                               (case pv_pre w of None \<Rightarrow> [] | Some p \<Rightarrow> pre_number p))) v w"
    by (cases "pv_pre v"; cases "pv_pre w")
       (auto simp: comparePEP440Pre_def pep440PreSentinel_def lex_cmp_def int_cmp_def signOf_sgn
         Let_def compareDecimal_eq_0 sgn_0_0)
qed

lemma comparePEP440Pre_three_way: "three_way comparePEP440Pre"
  unfolding comparePEP440Pre_lex
  by (rule lex_cmp_three_way [OF image_three_way [OF int_cmp_three_way]
      lex_cmp_three_way [OF image_three_way [OF int_cmp_three_way]
        image_three_way [OF compareDecimal_three_way]]])

lemma compareOptionalDecimal_lex:
  assumes "m = 1 \<or> m = -1"
  shows "(\<lambda>a b. compareOptionalDecimal a b m) =
     lex_cmp (\<lambda>a b. int_cmp (case a of None \<Rightarrow> m | Some _ \<Rightarrow> 0) (case b of None \<Rightarrow> m | Some _ \<Rightarrow> 0))
       (\<lambda>a b. compareDecimal (case a of None \<Rightarrow> [] | Some n \<Rightarrow> n) (case b of None \<Rightarrow> [] | Some n \<Rightarrow> n))"
proof (intro ext)
  fix a b
  show "compareOptionalDecimal a b m =
     lex_cmp (\<lambda>a b. int_cmp (case a of None \<Rightarrow> m | Some _ \<Rightarrow> 0) (case b of None \<Rightarrow> m | Some _ \<Rightarrow> 0))
       (\<lambda>a b. compareDecimal (case a of None \<Rightarrow> [] | Some n \<Rightarrow> n) (case b of None \<Rightarrow> [] | Some n \<Rightarrow> n)) a b"
    using assms by (cases a; cases b) (auto simp: lex_cmp_def int_cmp_def compareDecimal_eq_0)
qed

lemma compareOptionalDecimal_three_way:
  "m = 1 \<or> m = -1 \<Longrightarrow> three_way (\<lambda>a b. compareOptionalDecimal a b m)"
  unfolding compareOptionalDecimal_lex
  by (rule lex_cmp_three_way [OF image_three_way [OF int_cmp_three_way]
        image_three_way [OF compareDecimal_three_way]])

lemma compareLocalSegment_lex:
  "compareLocalSegment =
     lex_cmp (\<lambda>l r. int_cmp (if ls_numeric l then 1 else 0) (if ls_numeric r then 1 else 0))
       (lex_cmp
         (\<lambda>l r. compareDecimal (if ls_numeric l then ls_value l else [])
                               (if ls_numeric r then ls_value r else []))
         (\<lambda>l r. Compare (if ls_numeric l then [] else ls_value l)
                        (if ls_numeric r then [] else ls_value r)))"
  by (intro ext) (auto simp: compareLocalSegment_def lex_cmp_def int_cmp_def compareDecimal_eq_0)

lemma compareLocalSegment_three_way: "three_way compareLocalSegment"
  unfolding compareLocalSegment_lex
  by (rule lex_cmp_three_way [OF image_three_way [OF int_cmp_three_way]
      lex_cmp_three_way [OF image_three_way [OF compareDecimal_three_way]
        image_three_way [OF Compare_three_way]]])

lemma compareLocalSegments_list: "compareLocalSegments ls rs = list_cmp compareLocalSegment ls rs"
proof (induction ls arbitrary: rs)
  case Nil
  then show ?case by (cases rs) (simp_all add: signOf_def)
next
  case (Cons l ls)
  then show ?case by (cases rs) (simp_all add: signOf_def Let_def)
qed

lemma comparePEP440Local_list: "comparePEP440Local ls rs = list_cmp compareLocalSegment ls rs"
  by (cases ls; cases rs) (simp_all add: comparePEP440Local_def compareLocalSegments_list)

lemma comparePEP440Versions_lex:
  "comparePEP440Versions =
     lex_cmp (\<lambda>v w. compareDecimal (pv_epoch v) (pv_epoch w))
     (lex_cmp (\<lambda>v w. pad_cmp compareDecimal ''0'' (pv_release v) (pv_release w))
     (lex_cmp comparePEP440Pre
     (lex_cmp (\<lambda>v w. compareOptionalDecimal (pv_post v) (pv_post w) (-1))
     (lex_cmp (\<lambda>v w. compareOptionalDecimal (pv_dev v) (pv_dev w) 1)
       (\<lambda>v w. list_cmp compareLocalSegment (pv_local v) (pv_local w))))))"
  by (intro ext) (simp add: comparePEP440Versions_def lex_cmp_def Let_def comparePEP440Release_pad
      comparePEP440Local_list)

lemma comparePEP440Versions_three_way: "three_way comparePEP440Versions"
  unfolding comparePEP440Versions_lex
  by (intro lex_cmp_three_way comparePEP440Pre_three_way
      image_three_way [OF compareDecimal_three_way]
      image_three_way [OF pad_cmp_three_way [OF compareDecimal_three_way]]
      image_three_way [OF list_cmp_three_way [OF compareLocalSegment_three_way]]
      image_three_way [OF compareOptionalDecimal_three_way [of 1]]
      image_three_way [OF compareOptionalDecimal_three_way [of "-1"]]) simp_all

subsection \<open>What the groups capture\<close>

definition pre_words :: "string set" where
  "pre_words = {''alpha'', ''a'', ''beta'', ''b'', ''preview'', ''pre'', ''c'', ''rc''}"

definition groups_ok :: "pep440Group groups \<Rightarrow> bool" where
  "groups_ok c \<longleftrightarrow>
     list_all isASCIIDigit (c G_epoch) \<and> list_all isASCIIDigit (c G_pre_n) \<and>
     list_all isASCIIDigit (c G_post_n1) \<and> list_all isASCIIDigit (c G_post_n2) \<and>
     list_all isASCIIDigit (c G_dev_n) \<and>
     (c G_pre \<noteq> [] \<longrightarrow> lowerASCII (c G_pre_l) \<in> pre_words) \<and>
     (c G_local \<noteq> [] \<longrightarrow> isASCIIAlphanumeric (hd (c G_local)) \<and>
        list_all (\<lambda>x. isASCIIAlphanumeric x \<or> isSeparator x) (c G_local))"

definition release_ok :: "string \<Rightarrow> bool" where
  "release_ok r \<longleftrightarrow> (\<exists>ws. ws \<noteq> [] \<and> r = Join ws ''.'' \<and> list_all (\<lambda>w. w \<noteq> [] \<and> list_all isASCIIDigit w) ws)"

lemma path_digits:
  "rx_path rx_digits s c s' c' \<Longrightarrow> c' = c \<and> (\<exists>w. s = w @ s' \<and> w \<noteq> [] \<and> list_all isASCIIDigit w)"
  unfolding rx_digits_def by (rule path_Plus_Cls)

lemma path_epoch:
  "rx_path rx_epoch s c s' c' \<Longrightarrow> groups_ok c \<Longrightarrow> groups_ok c'"
  by (auto simp: rx_epoch_def path_simps path_Cap_iff groups_ok_def dest!: path_digits)

lemma path_optional_digits:
  "rx_path (Opt (Cap g rx_digits)) s c s' c' \<Longrightarrow>
     c' = c \<or> (\<exists>w. c' = c(g := w) \<and> list_all isASCIIDigit w)"
  by (auto simp: path_simps path_Cap_iff dest!: path_digits)

lemma path_sep: "rx_path (Opt rx_sep) s c s' c' \<Longrightarrow> c' = c"
  by (auto simp: rx_sep_def path_simps)

lemma path_pre_l:
  "rx_path rx_pre_l s c s' c' \<Longrightarrow> c' = c \<and> (\<exists>w. s = w @ s' \<and> lowerASCII w \<in> pre_words)"
  unfolding rx_pre_l_def path_simps(4) path_Lit pre_words_def by blast

lemma path_rx_suffix:
  assumes "rx_path (rx_suffix gl gn r) s c s' c'"
    and "\<And>s c s' c'. rx_path r s c s' c' \<Longrightarrow> c' = c \<and> (\<exists>w. s = w @ s' \<and> lowerASCII w \<in> L)"
  shows "\<exists>l. lowerASCII l \<in> L \<and> (c' = c(gl := l) \<or> (\<exists>n. list_all isASCIIDigit n \<and> c' = c(gl := l, gn := n)))"
proof -
  obtain s1 c1 s2 c2 s3 c3 where p:
    "rx_path (Opt rx_sep) s c s1 c1" "rx_path (Cap gl r) s1 c1 s2 c2"
    "rx_path (Opt rx_sep) s2 c2 s3 c3" "rx_path (Opt (Cap gn rx_digits)) s3 c3 s' c'"
    using assms(1) unfolding rx_suffix_def path_simps(3) by blast
  obtain l c4 where l: "s1 = l @ s2" "rx_path r s1 c1 s2 c4" "c2 = c4(gl := l)"
    using p(2) unfolding path_Cap_iff by blast
  moreover from assms(2) [OF l(2)] l(1) have "c4 = c1" "lowerASCII l \<in> L" by auto
  ultimately show ?thesis
    using path_optional_digits [OF p(4)] path_sep [OF p(1)] path_sep [OF p(3)] by auto
qed

lemma path_lits: "rx_path (Lit l) s c s' c' \<Longrightarrow> c' = c \<and> (\<exists>w. s = w @ s' \<and> lowerASCII w \<in> {l})"
  by (auto simp: path_Lit)

lemma path_pre:
  assumes "rx_path rx_pre s c s' c'" and "groups_ok c"
  shows "groups_ok c' \<and> c' G_release = c G_release"
proof -
  consider "c' = c" | w c1 where "rx_path (rx_suffix G_pre_l G_pre_n rx_pre_l) s c s' c1" "c' = c1(G_pre := w)"
    using assms(1) unfolding rx_pre_def path_simps(5) path_Cap_iff by blast
  then show ?thesis
  proof cases
    case 2
    then show ?thesis
      using path_rx_suffix [OF 2(1), of pre_words] path_pre_l assms(2) by (auto simp: groups_ok_def)
  qed (use assms(2) in simp)
qed

lemma path_post_l:
  "rx_path rx_post_l s c s' c' \<Longrightarrow>
     c' = c \<and> (\<exists>w. s = w @ s' \<and> lowerASCII w \<in> {''post'', ''rev'', ''r''})"
  unfolding rx_post_l_def path_simps(4) path_Lit by blast

lemma path_post:
  assumes "rx_path rx_post s c s' c'" and "groups_ok c"
  shows "groups_ok c' \<and> c' G_release = c G_release"
proof -
  let ?n1 = "Seq (Chr CHR ''-'') (Cap G_post_n1 rx_digits) :: prx"
  consider "c' = c"
    | w c1 where "rx_path ?n1 s c s' c1" "c' = c1(G_post := w)"
    | w c1 where "rx_path (rx_suffix G_post_l G_post_n2 rx_post_l) s c s' c1" "c' = c1(G_post := w)"
    using assms(1) unfolding rx_post_def path_simps(5) path_Cap_iff [of G_post] path_simps(4) by blast
  then show ?thesis
  proof cases
    case 2
    then obtain n where "list_all isASCIIDigit n" "c1 = c(G_post_n1 := n)"
      by (auto simp: path_simps(3,6) path_Cap_iff dest!: path_digits)
    then show ?thesis using 2 assms(2) by (simp add: groups_ok_def)
  next
    case 3
    have "\<exists>l. lowerASCII l \<in> {''post'', ''rev'', ''r''} \<and> (c1 = c(G_post_l := l) \<or>
        (\<exists>n. list_all isASCIIDigit n \<and> c1 = c(G_post_l := l, G_post_n2 := n)))"
      by (rule path_rx_suffix [OF 3(1)]) (rule path_post_l)
    then show ?thesis using 3(2) assms(2) by (auto simp: groups_ok_def)
  qed (use assms(2) in simp)
qed

lemma path_dev:
  assumes "rx_path rx_dev s c s' c'" and "groups_ok c"
  shows "groups_ok c' \<and> c' G_release = c G_release"
proof -
  consider "c' = c"
    | w c1 where "rx_path (rx_suffix G_dev_l G_dev_n (Lit ''dev'')) s c s' c1" "c' = c1(G_dev := w)"
    using assms(1) unfolding rx_dev_def path_simps(5) path_Cap_iff by blast
  then show ?thesis
  proof cases
    case 2
    have "\<exists>l. lowerASCII l \<in> {''dev''} \<and> (c1 = c(G_dev_l := l) \<or>
        (\<exists>n. list_all isASCIIDigit n \<and> c1 = c(G_dev_l := l, G_dev_n := n)))"
      by (rule path_rx_suffix [OF 2(1)]) (rule path_lits)
    then show ?thesis using 2(2) assms(2) by (auto simp: groups_ok_def)
  qed (use assms(2) in simp)
qed

lemma path_release:
  assumes "rx_path rx_release s c s' c'" and "groups_ok c"
  shows "groups_ok c' \<and> release_ok (c' G_release)"
proof -
  obtain w s1 c1 c2 where p: "s = w @ s'" "rx_path rx_digits s c s1 c1"
    "rx_path (Star (Seq (Chr CHR ''.'') rx_digits)) s1 c1 s' c2" "c' = c2(G_release := w)"
    using assms(1) by (auto simp: rx_release_def path_Cap_iff path_simps(3))
  obtain d where d: "s = d @ s1" "d \<noteq> []" "list_all isASCIIDigit d" "c1 = c"
    using path_digits [OF p(2)] by blast
  let ?P = "\<lambda>u. \<exists>v. u = CHR ''.'' # v \<and> v \<noteq> [] \<and> list_all isASCIIDigit v"
  have "c2 = c1 \<and> (\<exists>us. s1 = concat us @ s' \<and> list_all ?P us)"
  proof (rule path_Star_words [OF p(3)])
    fix s c s' c' assume "rx_path (Seq (Chr CHR ''.'') rx_digits) s c s' (c' :: pep440Group groups)"
    then show "c' = c \<and> (\<exists>w. s = w @ s' \<and> ?P w)"
      by (auto simp: path_simps(3,6) lowerByte_eq_iff isASCIIAlpha_def dest!: path_digits)
  qed
  then obtain us where us: "c2 = c" "s1 = concat us @ s'" "list_all ?P us" using d(4) by blast
  have join: "d @ concat us = Join (d # map tl us) ''.''" for d
    using us(3) by (induction us arbitrary: d) (auto simp: Join_Cons_char)
  have "w = d @ concat us" using p(1) d(1) us(2) by simp
  moreover have "list_all (\<lambda>w. w \<noteq> [] \<and> list_all isASCIIDigit w) (d # map tl us)"
    using us(3) d by (auto simp: list_all_iff)
  ultimately have "release_ok w" unfolding release_ok_def join by blast
  then show ?thesis using p(4) us(1) assms(2) by (simp add: groups_ok_def)
qed

lemma path_local:
  assumes "rx_path rx_local s c s' c'" and "groups_ok c"
  shows "groups_ok c' \<and> c' G_release = c G_release"
proof (cases "c' = c")
  case True
  then show ?thesis using assms(2) by simp
next
  case False
  then obtain s0 w s1 c1 c2 where p: "s0 = w @ s'" "rx_path rx_word s0 c s1 c1"
    "rx_path (Star (Seq rx_sep rx_word)) s1 c1 s' c2" "c' = c2(G_local := w)"
    using assms(1) by (auto simp: rx_local_def path_simps(3,5,6) path_Cap_iff)
  let ?Q = "\<lambda>x. isASCIIAlphanumeric x \<or> isSeparator x"
  obtain d where d: "s0 = d @ s1" "d \<noteq> []" "list_all isASCIIAlphanumeric d" "c1 = c"
    using path_Plus_Cls [OF p(2) [unfolded rx_word_def]] by blast
  have "c2 = c1 \<and> (\<exists>us. s1 = concat us @ s' \<and> list_all (list_all ?Q) us)"
  proof (rule path_Star_words [OF p(3)])
    fix s c s' c' assume "rx_path (Seq rx_sep rx_word) s c s' (c' :: pep440Group groups)"
    then obtain x t where x: "s = x # t" "isSeparator x" "rx_path rx_word t c s' c'"
      by (auto simp: rx_sep_def path_simps(1,3))
    obtain v where "t = v @ s'" "list_all isASCIIAlphanumeric v" "c' = c"
      using path_Plus_Cls [OF x(3) [unfolded rx_word_def]] by blast
    then show "c' = c \<and> (\<exists>w. s = w @ s' \<and> list_all ?Q w)"
      using x by (intro conjI exI [of _ "x # v"]) (auto simp: list_all_iff)
  qed
  then obtain us where us: "c2 = c" "s1 = concat us @ s'" "list_all (list_all ?Q) us" using d(4) by blast
  have w: "w = d @ concat us" using p(1) d(1) us(2) by simp
  then have "isASCIIAlphanumeric (hd w)" "list_all ?Q w"
    using d us(3) by (auto simp: list_all_iff hd_append)
  then show ?thesis using p(4) us(1) assms(2) by (simp add: groups_ok_def)
qed

lemma find_pattern_ok:
  assumes "find_submatch pep440VersionPattern s = Some c"
  shows "groups_ok c \<and> release_ok (c G_release)"
proof -
  have "groups_ok (\<lambda>_. [])" by (simp add: groups_ok_def)
  moreover have "rx_path (Opt (Chr CHR ''v'')) s c0 s1 c1 \<Longrightarrow> c1 = c0" for s s1 and c0 c1 :: "pep440Group groups"
    by (auto simp: path_simps)
  ultimately show ?thesis
    using find_submatch_path [OF assms] unfolding pep440VersionPattern_def path_simps(3)
    using path_epoch path_release path_pre path_post path_dev path_local by (elim exE conjE) metis
qed

subsection \<open>Matching a canonical form\<close>

lemma digit_lowerByte: "isASCIIDigit d \<Longrightarrow> \<not> isASCIIDigit x \<Longrightarrow> lowerByte d \<noteq> x"
  by (metis lowerByte_classes(2))

lemma digit_not_sep: "isASCIIDigit d \<Longrightarrow> \<not> isSeparator d"
  by (auto simp: isSeparator_def isASCIIDigit_def)

lemma concrete_chars:
  "isSeparator CHR ''.''" "\<not> isSeparator CHR ''+''" "\<not> isSeparator CHR ''a''" "\<not> isSeparator CHR ''b''"
  "\<not> isSeparator CHR ''r''" "\<not> isSeparator CHR ''p''" "\<not> isSeparator CHR ''d''"
  "lowerByte CHR ''.'' = CHR ''.''" "lowerByte CHR ''+'' = CHR ''+''" "lowerByte CHR ''a'' = CHR ''a''"
  "lowerByte CHR ''b'' = CHR ''b''" "lowerByte CHR ''r'' = CHR ''r''" "lowerByte CHR ''c'' = CHR ''c''"
  "lowerByte CHR ''p'' = CHR ''p''" "lowerByte CHR ''o'' = CHR ''o''" "lowerByte CHR ''s'' = CHR ''s''"
  "lowerByte CHR ''t'' = CHR ''t''" "lowerByte CHR ''d'' = CHR ''d''" "lowerByte CHR ''e'' = CHR ''e''"
  "lowerByte CHR ''v'' = CHR ''v''" "lowerByte CHR ''!'' = CHR ''!''"
  by (simp_all add: isSeparator_def lowerByte_def isASCIIUpper_def byte_def)

lemma not_digits:
  "\<not> isASCIIDigit CHR ''l''" "\<not> isASCIIDigit CHR ''e''" "\<not> isASCIIDigit CHR ''r''" "\<not> isASCIIDigit CHR ''o''"
  "\<not> isASCIIDigit CHR ''!''" "\<not> isASCIIDigit CHR ''.''" "\<not> isASCIIDigit CHR ''+''" "\<not> isASCIIDigit CHR ''a''"
  "\<not> isASCIIDigit CHR ''b''" "\<not> isASCIIDigit CHR ''p''" "\<not> isASCIIDigit CHR ''d''" "\<not> isASCIIDigit CHR ''v''"
  by (simp_all add: isASCIIDigit_def byte_def)

lemmas rx_eval = Opt_def Chr_def rx_sep_def concrete_chars not_digits digit_lowerByte digit_not_sep

definition numeral_word :: "string \<Rightarrow> bool" where
  "numeral_word w \<longleftrightarrow> w \<noteq> [] \<and> list_all isASCIIDigit w"

lemma digits_greedy:
  "numeral_word w \<Longrightarrow> stops isASCIIDigit s \<Longrightarrow> k s c = Some x \<Longrightarrow> rx_match rx_digits (w @ s) c k = Some x"
  unfolding rx_digits_def numeral_word_def by (rule Plus_Cls_greedy) simp_all

lemma suffix_number:
  assumes "numeral_word n" and "stops isASCIIDigit s" and "k s (c(gn := n)) = Some x"
  shows "rx_match (Seq (Opt rx_sep) (Opt (Cap gn rx_digits))) (n @ s) c k = Some x"
proof -
  obtain d m where n: "n = d # m" "isASCIIDigit d" using assms(1) by (cases n) (auto simp: numeral_word_def)
  have "rx_match rx_digits (n @ s) c (\<lambda>s' c'. k s' (c'(gn := take (length (n @ s) - length s') (n @ s)))) = Some x"
    using assms by (intro digits_greedy) simp_all
  then have "rx_match (Opt (Cap gn rx_digits)) (n @ s) c k = Some x" by (simp add: Opt_def)
  then show ?thesis
    unfolding rx_match.simps(3) match_Opt [of rx_sep] using n by (simp add: rx_sep_def digit_not_sep)
qed

lemma epoch_present:
  assumes "numeral_word e" and "k s (c(G_epoch := e)) = Some x"
  shows "rx_match rx_epoch (e @ CHR ''!'' # s) c k = Some x"
proof -
  have "rx_match (Cap G_epoch rx_digits) (e @ CHR ''!'' # s) c (\<lambda>s' c'. rx_match (Chr CHR ''!'') s' c' k) = Some x"
    unfolding rx_match.simps(6) using assms
    by (intro digits_greedy) (simp_all add: stops_def rx_eval)
  then show ?thesis by (simp add: rx_epoch_def Opt_def)
qed

lemma epoch_absent:
  assumes "numeral_word w" and "stops isASCIIDigit s" and "stops (\<lambda>x. x = CHR ''!'') s" and "k (w @ s) c = Some x"
  shows "rx_match rx_epoch (w @ s) c k = Some x"
proof -
  have "rx_match rx_digits (w @ s) c
      (\<lambda>s' c'. rx_match (Chr CHR ''!'') s' (c'(G_epoch := take (length (w @ s) - length s') (w @ s))) k) = None"
    unfolding rx_digits_def
  proof (rule Plus_Cls_fail)
    fix u v assume w: "w = u @ v"
    have "stops (\<lambda>x. lowerByte x = CHR ''!'') (v @ s)"
    proof (cases v)
      case Nil
      then show ?thesis using assms(3) by (auto simp: stops_def lowerByte_eq_iff isASCIIAlpha_def byte_def)
    next
      case (Cons d t)
      then show ?thesis using assms(1) w by (simp add: stops_def numeral_word_def digit_lowerByte not_digits)
    qed
    then show "rx_match (Chr CHR ''!'') (v @ s) (c(G_epoch := take (length (w @ s) - length (v @ s)) (w @ s))) k = None"
      by (cases "v @ s") (auto simp: Chr_def stops_def)
  qed (use assms in \<open>simp_all add: numeral_word_def\<close>)
  then have "rx_match (Seq (Cap G_epoch rx_digits) (Chr CHR ''!'')) (w @ s) c k = None" by simp
  then show ?thesis using assms(4) unfolding rx_epoch_def Opt_def rx_match.simps(2,4) by simp
qed

definition stops_release :: "string \<Rightarrow> bool" where
  "stops_release s \<longleftrightarrow> stops isASCIIDigit s \<and> (\<forall>t. s = CHR ''.'' # t \<longrightarrow> stops isASCIIDigit t)"

lemma release_greedy:
  assumes "ws \<noteq> []" and "list_all numeral_word ws" and "stops_release s"
    and "k s (c(G_release := Join ws ''.'')) = Some x"
  shows "rx_match rx_release (Join ws ''.'' @ s) c k = Some x"
proof -
  obtain w vs where ws: "ws = w # vs" using assms(1) by (cases ws) auto
  let ?k = "\<lambda>s' c'. k s' (c'(G_release := take (length (Join ws ''.'' @ s) - length s') (Join ws ''.'' @ s)))"
  have dot: "lowerByte y = CHR ''.'' \<longleftrightarrow> y = CHR ''.''" for y
    by (simp add: lowerByte_eq_iff isASCIIAlpha_def)
  have fail: "rx_match (Seq (Cls (\<lambda>x. lowerByte x = CHR ''.'')) (Plus (Cls isASCIIDigit))) s c' k' = None" for c' k'
  proof (cases s)
    case (Cons y t)
    then have "y = CHR ''.'' \<Longrightarrow> stops isASCIIDigit t" using assms(3) by (simp add: stops_release_def)
    then show ?thesis
      using Plus_Cls_fail [of "[]" k' t c' isASCIIDigit] Cons
      by (cases t) (auto simp: dot Plus_def stops_def)
  qed simp
  have "rx_match (Seq (Plus (Cls isASCIIDigit)) (Star (Seq (Cls (\<lambda>x. lowerByte x = CHR ''.'')) (Plus (Cls isASCIIDigit)))))
      (Join (w # vs) ''.'' @ s) c ?k = Some x"
    using assms fail unfolding ws
    by (intro words_greedy) (simp_all add: stops_release_def numeral_word_def [abs_def] concrete_chars not_digits del: rx_match.simps)
  then show ?thesis unfolding rx_release_def rx_digits_def Chr_def ws rx_match.simps(6) by simp
qed

lemma pre_present:
  assumes "kind \<in> {''a'', ''b'', ''rc''}" and "numeral_word n" and "stops isASCIIDigit s"
    and "k s (c(G_pre_l := kind, G_pre_n := n, G_pre := kind @ n)) = Some x"
  shows "rx_match rx_pre (kind @ n @ s) c k = Some x"
proof -
  obtain d m where n: "n = d # m" "isASCIIDigit d" using assms(2) by (cases n) (auto simp: numeral_word_def)
  let ?k = "\<lambda>s' c'. k s' (c'(G_pre := take (length (kind @ n @ s) - length s') (kind @ n @ s)))"
  let ?r = "Seq (Opt rx_sep) (Opt (Cap G_pre_n rx_digits)) :: prx"
  have num: "rx_match ?r (n @ s) (c(G_pre_l := kind)) ?k = Some x"
    using assms(4) by (intro suffix_number [OF assms(2,3)]) simp
  have "rx_match (Cap G_pre_l rx_pre_l) (kind @ n @ s) c (\<lambda>s' c'. rx_match ?r s' c' ?k) = Some x"
    using assms(1) num n(2) unfolding n(1)
    by (auto simp: rx_pre_l_def rx_eval simp del: rx_match.simps(3))
       (simp_all add: rx_eval)
  moreover have "rx_match (Opt rx_sep) (kind @ n @ s) c k' = k' (kind @ n @ s) c" for k'
    using assms(1) by (auto simp: match_Opt rx_sep_def concrete_chars)
  ultimately have "rx_match (rx_suffix G_pre_l G_pre_n rx_pre_l) (kind @ n @ s) c ?k = Some x"
    unfolding rx_suffix_def rx_match.simps(3) by simp
  then show ?thesis unfolding rx_pre_def match_Opt rx_match.simps(6) by simp
qed

text \<open>The possible continuations after the release, in the order of the pattern.\<close>

definition after_dev :: "string \<Rightarrow> bool" where
  "after_dev s \<longleftrightarrow> s = [] \<or> (\<exists>t. s = CHR ''+'' # t)"

definition after_post :: "string \<Rightarrow> bool" where
  "after_post s \<longleftrightarrow> after_dev s \<or> (\<exists>t. s = CHR ''.'' # CHR ''d'' # t)"

definition after_pre :: "string \<Rightarrow> bool" where
  "after_pre s \<longleftrightarrow> after_post s \<or> (\<exists>t. s = CHR ''.'' # CHR ''p'' # CHR ''o'' # t)"

lemma after_pre_stops: "after_pre s \<Longrightarrow> stops isASCIIDigit s \<and> stops_release s \<and> stops (\<lambda>x. x = CHR ''!'') s"
  by (auto simp: after_pre_def after_post_def after_dev_def stops_def stops_release_def not_digits)

lemma pre_absent: "after_pre s \<Longrightarrow> k s c = Some x \<Longrightarrow> rx_match rx_pre s c k = Some x"
  unfolding rx_pre_def match_Opt [of "Cap _ _"]
  by (auto simp: after_pre_def after_post_def after_dev_def rx_suffix_def match_Opt rx_pre_l_def
      rx_sep_def concrete_chars)

lemma post_absent: "after_post s \<Longrightarrow> k s c = Some x \<Longrightarrow> rx_match rx_post s c k = Some x"
  unfolding rx_post_def match_Opt [of "Cap _ _"]
  by (auto simp: after_post_def after_dev_def rx_suffix_def match_Opt rx_post_l_def
      rx_sep_def concrete_chars)

lemma dev_absent: "after_dev s \<Longrightarrow> k s c = Some x \<Longrightarrow> rx_match rx_dev s c k = Some x"
  unfolding rx_dev_def match_Opt [of "Cap _ _"]
  by (auto simp: after_dev_def rx_suffix_def match_Opt rx_sep_def concrete_chars)

lemma local_absent: "k [] c = Some x \<Longrightarrow> rx_match rx_local [] c k = Some x"
  by (simp add: rx_local_def match_Opt)

lemma dot_sep: "rx_match (Opt rx_sep) (CHR ''.'' # s) c k = or_else (k s c) (k (CHR ''.'' # s) c)"
  by (simp add: match_Opt rx_sep_def concrete_chars)

lemma captured_text: "take (length (u @ n @ s) - length s) (u @ n @ s) = u @ n"
  by simp

lemma post_present:
  assumes "numeral_word n" and "stops isASCIIDigit s"
    and "k s (c(G_post_l := ''post'', G_post_n2 := n, G_post := ''.post'' @ n)) = Some x"
  shows "rx_match rx_post (''.post'' @ n @ s) c k = Some x"
proof -
  let ?k = "\<lambda>s' c'. k s' (c'(G_post := take (length (''.post'' @ n @ s) - length s') (''.post'' @ n @ s)))"
  let ?r = "Seq (Opt rx_sep) (Opt (Cap G_post_n2 rx_digits)) :: prx"
  have "rx_match ?r (n @ s) (c(G_post_l := ''post'')) ?k = Some x"
    using assms(3) by (intro suffix_number [OF assms(1,2)]) (simp only: captured_text)
  then have "rx_match (Cap G_post_l rx_post_l) (''post'' @ n @ s) c (\<lambda>s' c'. rx_match ?r s' c' ?k) = Some x"
    by (simp add: rx_post_l_def concrete_chars del: rx_match.simps(3)) (simp add: concrete_chars)
  then have "rx_match (rx_suffix G_post_l G_post_n2 rx_post_l) (''.post'' @ n @ s) c ?k = Some x"
    unfolding rx_suffix_def rx_match.simps(3) append_Cons append_Nil dot_sep by simp
  then show ?thesis
    unfolding rx_post_def match_Opt [of "Cap _ _"] rx_match.simps(4,6) by (simp add: concrete_chars)
qed

lemma dev_present:
  assumes "numeral_word n" and "stops isASCIIDigit s"
    and "k s (c(G_dev_l := ''dev'', G_dev_n := n, G_dev := ''.dev'' @ n)) = Some x"
  shows "rx_match rx_dev (''.dev'' @ n @ s) c k = Some x"
proof -
  let ?k = "\<lambda>s' c'. k s' (c'(G_dev := take (length (''.dev'' @ n @ s) - length s') (''.dev'' @ n @ s)))"
  let ?r = "Seq (Opt rx_sep) (Opt (Cap G_dev_n rx_digits)) :: prx"
  have "rx_match ?r (n @ s) (c(G_dev_l := ''dev'')) ?k = Some x"
    using assms(3) by (intro suffix_number [OF assms(1,2)]) (simp only: captured_text)
  then have "rx_match (Cap G_dev_l (Lit ''dev'')) (''dev'' @ n @ s) c (\<lambda>s' c'. rx_match ?r s' c' ?k) = Some x"
    by (simp add: concrete_chars del: rx_match.simps(3)) (simp add: concrete_chars)
  then have "rx_match (rx_suffix G_dev_l G_dev_n (Lit ''dev'')) (''.dev'' @ n @ s) c ?k = Some x"
    unfolding rx_suffix_def rx_match.simps(3) append_Cons append_Nil dot_sep by simp
  then show ?thesis
    unfolding rx_dev_def match_Opt [of "Cap _ _"] rx_match.simps(6) by simp
qed

lemma local_present:
  assumes "ws \<noteq> []" and "list_all (\<lambda>w. w \<noteq> [] \<and> list_all isASCIIAlphanumeric w) ws"
    and "k [] (c(G_local := Join ws ''.'')) = Some x"
  shows "rx_match rx_local (''+'' @ Join ws ''.'') c k = Some x"
proof -
  obtain w vs where ws: "ws = w # vs" using assms(1) by (cases ws) auto
  let ?k = "\<lambda>s' c'. k s' (c'(G_local := take (length (Join ws ''.'') - length s') (Join ws ''.'')))"
  have "rx_match (Seq (Plus (Cls isASCIIAlphanumeric)) (Star (Seq (Cls isSeparator) (Plus (Cls isASCIIAlphanumeric)))))
      (Join (w # vs) ''.'' @ []) c ?k = Some x"
    using assms unfolding ws
    by (intro words_greedy) (simp_all add: stops_def concrete_chars isASCIIAlphanumeric_def isASCIIDigit_def)
  then have "rx_match (Cap G_local (Seq rx_word (Star (Seq rx_sep rx_word)))) (Join ws ''.'') c k = Some x"
    unfolding rx_match.simps(6) rx_word_def rx_sep_def ws by simp
  then show ?thesis unfolding rx_local_def match_Opt rx_match.simps(3) by (simp add: concrete_chars)
qed

subsection \<open>What the parser accepts\<close>

definition wf_localSegment :: "pep440LocalSegment \<Rightarrow> bool" where
  "wf_localSegment l \<longleftrightarrow> ls_value l \<noteq> [] \<and> list_all isASCIILowercaseAlphanumeric (ls_value l) \<and>
     l = localSegment (ls_value l)"

definition wf_pre :: "pep440Prerelease \<Rightarrow> bool" where
  "wf_pre p \<longleftrightarrow> pre_kind p \<in> {''a'', ''b'', ''rc''} \<and> wf_component (pre_number p)"

definition wf_pep440 :: "pep440Version \<Rightarrow> bool" where
  "wf_pep440 v \<longleftrightarrow>
     wf_component (pv_epoch v) \<and> pv_release v \<noteq> [] \<and> list_all wf_component (pv_release v) \<and>
     pred_option wf_pre (pv_pre v) \<and> pred_option wf_component (pv_post v) \<and>
     pred_option wf_component (pv_dev v) \<and> list_all wf_localSegment (pv_local v) \<and>
     pv_canonical v = buildCanonical v"

lemma lower_alnum:
  "isASCIIAlphanumeric c \<Longrightarrow> isASCIILowercaseAlphanumeric (lowerByte c)"
  by (auto simp: isASCIIAlphanumeric_def isASCIILowercaseAlphanumeric_def isASCIIDigit_def
      lowerByte_byte isASCIIUpper_def)

lemma lower_alnum_id: "isASCIILowercaseAlphanumeric c \<Longrightarrow> lowerByte c = c"
  by (auto simp: isASCIILowercaseAlphanumeric_def isASCIIDigit_def lowerByte_def isASCIIUpper_def)

lemma isSeparator_lower: "isSeparator (lowerByte c) \<longleftrightarrow> isSeparator c"
  by (simp add: isSeparator_def lowerByte_eq_iff isASCIIAlpha_def)

lemma FieldsFunc_acc_words:
  assumes "list_all (\<lambda>c. \<not> p c) cur" and "w \<in> set (FieldsFunc_acc p cur s)"
  shows "w \<noteq> [] \<and> list_all (\<lambda>c. \<not> p c) w \<and> set w \<subseteq> set cur \<union> set s"
  using assms
proof (induction p cur s rule: FieldsFunc_acc.induct)
  case (1 p cur)
  then show ?case by (auto split: if_splits)
next
  case (2 p cur c s)
  then show ?case by (fastforce split: if_splits)
qed

lemma FieldsFunc_acc_word: "list_all (\<lambda>c. \<not> p c) w \<Longrightarrow> FieldsFunc_acc p cur (w @ s) = FieldsFunc_acc p (cur @ w) s"
  by (induction w arbitrary: cur) simp_all

lemma FieldsFunc_Join:
  "list_all (\<lambda>w. w \<noteq> [] \<and> list_all (\<lambda>c. \<not> p c) w) ws \<Longrightarrow> p d \<Longrightarrow> FieldsFunc (Join ws [d]) p = ws"
  unfolding FieldsFunc_def
proof (induction ws)
  case (Cons w ws)
  then show ?case
    using FieldsFunc_acc_word [of p w "[]" "[]"] FieldsFunc_acc_word [of p w "[]"] by (cases ws) simp_all
qed simp

lemma localSegment_wf:
  assumes "w \<noteq> []" and "list_all isASCIILowercaseAlphanumeric w"
  shows "wf_localSegment (localSegment w)"
proof (cases "list_all isASCIIDigit w")
  case True
  let ?n = "normalizeDecimal w"
  have n: "?n \<noteq> []" "list_all isASCIIDigit ?n" by (simp_all add: normalizeDecimal_digits [OF True])
  then have "list_all isASCIILowercaseAlphanumeric ?n"
    by (auto elim!: list_all_imp simp: isASCIILowercaseAlphanumeric_def)
  moreover have "localSegment w = \<lparr>ls_value = ?n, ls_numeric = True\<rparr>"
    using True assms(1) by (simp add: localSegment_def allASCIIDigits_def)
  ultimately show ?thesis using n by (simp add: wf_localSegment_def localSegment_def allASCIIDigits_def)
next
  case False
  then show ?thesis using assms by (simp add: wf_localSegment_def localSegment_def allASCIIDigits_def)
qed

lemma pre_kind_ok: "w \<in> pre_words \<Longrightarrow> normalizePreKind w \<in> {''a'', ''b'', ''rc''}"
  by (auto simp: pre_words_def normalizePreKind_def)

lemma local_words:
  assumes "list_all (\<lambda>x. isASCIIAlphanumeric x \<or> isSeparator x) s"
    and "w \<in> set (FieldsFunc (lowerASCII s) isSeparator)"
  shows "w \<noteq> [] \<and> list_all isASCIILowercaseAlphanumeric w"
proof -
  have w: "w \<noteq> []" "list_all (\<lambda>c. \<not> isSeparator c) w" "set w \<subseteq> set (lowerASCII s)"
    using FieldsFunc_acc_words [of isSeparator "[]" w "lowerASCII s"] assms(2)
    by (simp_all add: FieldsFunc_def)
  have "isASCIILowercaseAlphanumeric x" if x: "x \<in> set w" for x
  proof -
    obtain y where "y \<in> set s" "x = lowerByte y" using w(3) x by (auto simp: lowerASCII_def)
    moreover have "\<not> isSeparator x" using w(2) x by (auto simp: list_all_iff)
    ultimately show ?thesis using assms(1) lower_alnum by (auto simp: list_all_iff isSeparator_lower)
  qed
  then show ?thesis using w(1) by (simp add: list_all_iff)
qed

lemma pep440OfGroups_wf:
  assumes "groups_ok c" and "release_ok (c G_release)"
  shows "wf_pep440 (pep440OfGroups c)"
proof -
  obtain ws where ws: "ws \<noteq> []" "c G_release = Join ws ''.''"
    "list_all (\<lambda>w. w \<noteq> [] \<and> list_all isASCIIDigit w) ws"
    using assms(2) by (auto simp: release_ok_def)
  have "list_all (\<lambda>w. CHR ''.'' \<notin> set w) ws"
    using ws(3) by (rule list_all_imp) (auto simp: list_all_iff isASCIIDigit_def)
  then have split: "Split (c G_release) CHR ''.'' = ws" unfolding ws(2) by (rule Split_Join [OF ws(1)])
  have rel: "list_all wf_component (map normalizeDecimal ws)"
    using ws(3) unfolding list.pred_map comp_def by (rule list_all_imp) (simp add: wf_component_normalize)
  have loc: "list_all wf_localSegment (map localSegment (FieldsFunc (lowerASCII (c G_local)) isSeparator))"
    if "c G_local \<noteq> []"
    using local_words [of "c G_local"] assms(1) that localSegment_wf
    by (auto simp: list_all_iff [of wf_localSegment] groups_ok_def)
  have pre: "wf_pre \<lparr>pre_kind = normalizePreKind (lowerASCII (c G_pre_l)), pre_number = normalizeDecimal (c G_pre_n)\<rparr>"
    if "c G_pre \<noteq> []"
    using assms(1) that pre_kind_ok by (simp add: groups_ok_def wf_pre_def wf_component_normalize)
  show ?thesis
    using assms(1) rel loc pre ws(1)
    by (simp add: pep440OfGroups_def wf_pep440_def Let_def split groups_ok_def wf_component_normalize
        buildCanonical_def)
qed

lemma parsePEP440Version_ok: "parsePEP440Version s = Inr v \<Longrightarrow> wf_pep440 v"
  using find_pattern_ok pep440OfGroups_wf
  by (auto simp: parsePEP440Version_def split: if_splits option.splits)

subsection \<open>Parsing a canonical form\<close>

definition text_local :: "pep440Version \<Rightarrow> string" where
  "text_local v = (if pv_local v \<noteq> [] then ''+'' @ Join (map ls_value (pv_local v)) ''.'' else [])"

definition text_dev :: "pep440Version \<Rightarrow> string" where
  "text_dev v = (case pv_dev v of None \<Rightarrow> [] | Some n \<Rightarrow> ''.dev'' @ n) @ text_local v"

definition text_post :: "pep440Version \<Rightarrow> string" where
  "text_post v = (case pv_post v of None \<Rightarrow> [] | Some n \<Rightarrow> ''.post'' @ n) @ text_dev v"

definition text_pre :: "pep440Version \<Rightarrow> string" where
  "text_pre v = (case pv_pre v of None \<Rightarrow> [] | Some p \<Rightarrow> pre_kind p @ pre_number p) @ text_post v"

definition gr_local :: "pep440Version \<Rightarrow> pep440Group groups \<Rightarrow> pep440Group groups" where
  "gr_local v c = (if pv_local v \<noteq> [] then c(G_local := Join (map ls_value (pv_local v)) ''.'') else c)"

definition gr_dev :: "pep440Version \<Rightarrow> pep440Group groups \<Rightarrow> pep440Group groups" where
  "gr_dev v c = (case pv_dev v of None \<Rightarrow> c
     | Some n \<Rightarrow> c(G_dev_l := ''dev'', G_dev_n := n, G_dev := ''.dev'' @ n))"

definition gr_post :: "pep440Version \<Rightarrow> pep440Group groups \<Rightarrow> pep440Group groups" where
  "gr_post v c = (case pv_post v of None \<Rightarrow> c
     | Some n \<Rightarrow> c(G_post_l := ''post'', G_post_n2 := n, G_post := ''.post'' @ n))"

definition gr_pre :: "pep440Version \<Rightarrow> pep440Group groups \<Rightarrow> pep440Group groups" where
  "gr_pre v c = (case pv_pre v of None \<Rightarrow> c
     | Some p \<Rightarrow> c(G_pre_l := pre_kind p, G_pre_n := pre_number p, G_pre := pre_kind p @ pre_number p))"

definition gr_epoch :: "pep440Version \<Rightarrow> pep440Group groups \<Rightarrow> pep440Group groups" where
  "gr_epoch v c = (if pv_epoch v \<noteq> ''0'' then c(G_epoch := pv_epoch v) else c)"

definition gr_all :: "pep440Version \<Rightarrow> pep440Group groups" where
  "gr_all v = gr_local v (gr_dev v (gr_post v (gr_pre v
     ((gr_epoch v (\<lambda>_. [])) (G_release := Join (pv_release v) ''.'')))))"

lemma after_texts:
  "after_dev (text_local v)" "after_post (text_dev v)" "after_pre (text_post v)"
  by (auto simp: after_dev_def after_post_def after_pre_def text_local_def text_dev_def text_post_def
      split: option.split)

lemma wf_component_numeral: "wf_component s \<Longrightarrow> numeral_word s"
  by (auto simp: wf_component_def numeral_word_def no_leading_zero_def)

lemma text_pre_stops:
  assumes "wf_pep440 v"
  shows "stops isASCIIDigit (text_pre v)" "stops_release (text_pre v)" "stops (\<lambda>x. x = CHR ''!'') (text_pre v)"
  using after_pre_stops [OF after_texts(3), of v] assms
  by (cases "pv_pre v"; auto simp: text_pre_def wf_pep440_def wf_pre_def stops_def stops_release_def not_digits)+

definition final_k :: "string \<Rightarrow> pep440Group groups \<Rightarrow> pep440Group groups option" where
  "final_k s c = (if s = [] then Some c else None)"

lemma match_local:
  assumes "wf_pep440 v"
  shows "rx_match rx_local (text_local v) c final_k = Some (gr_local v c)"
proof (cases "pv_local v = []")
  case True
  then show ?thesis by (simp add: text_local_def gr_local_def local_absent final_k_def)
next
  case False
  have "list_all (\<lambda>w. w \<noteq> [] \<and> list_all isASCIIAlphanumeric w) (map ls_value (pv_local v))"
    using assms lower_alphanumeric
    by (auto simp: wf_pep440_def wf_localSegment_def list_all_iff)
  then show ?thesis
    using False unfolding text_local_def gr_local_def
    by (auto intro!: local_present simp: final_k_def simp del: append_Cons append_Nil)
qed

lemma match_dev:
  assumes "wf_pep440 v"
  shows "rx_match rx_dev (text_dev v) c (\<lambda>s c. rx_match rx_local s c final_k) = Some (gr_local v (gr_dev v c))"
proof (cases "pv_dev v")
  case None
  then show ?thesis
    using match_local [OF assms] after_texts(1) by (simp add: text_dev_def gr_dev_def dev_absent)
next
  case (Some n)
  then have "numeral_word n" using assms by (simp add: wf_pep440_def wf_component_numeral)
  moreover have "stops isASCIIDigit (text_local v)"
    using after_texts(1) [of v] by (auto simp: after_dev_def stops_def not_digits)
  ultimately show ?thesis
    using match_local [OF assms] unfolding text_dev_def gr_dev_def Some option.case append_assoc
    by (intro dev_present) simp_all
qed

lemma match_post:
  assumes "wf_pep440 v"
  shows "rx_match rx_post (text_post v) c (\<lambda>s c. rx_match rx_dev s c (\<lambda>s c. rx_match rx_local s c final_k))
    = Some (gr_local v (gr_dev v (gr_post v c)))"
proof (cases "pv_post v")
  case None
  then show ?thesis
    using match_dev [OF assms] after_texts(2) by (simp add: text_post_def gr_post_def post_absent)
next
  case (Some n)
  then have "numeral_word n" using assms by (simp add: wf_pep440_def wf_component_numeral)
  moreover have "stops isASCIIDigit (text_dev v)"
    using after_texts(2) [of v] by (auto simp: after_post_def after_dev_def stops_def not_digits)
  ultimately show ?thesis
    using match_dev [OF assms] unfolding text_post_def gr_post_def Some option.case append_assoc
    by (intro post_present) simp_all
qed

lemma match_pre:
  assumes "wf_pep440 v"
  shows "rx_match rx_pre (text_pre v) c
      (\<lambda>s c. rx_match rx_post s c (\<lambda>s c. rx_match rx_dev s c (\<lambda>s c. rx_match rx_local s c final_k)))
    = Some (gr_local v (gr_dev v (gr_post v (gr_pre v c))))"
proof (cases "pv_pre v")
  case None
  then show ?thesis
    using match_post [OF assms] after_texts(3) by (simp add: text_pre_def gr_pre_def pre_absent)
next
  case (Some p)
  then have "numeral_word (pre_number p)" "pre_kind p \<in> {''a'', ''b'', ''rc''}"
    using assms by (simp_all add: wf_pep440_def wf_pre_def wf_component_numeral)
  moreover have "stops isASCIIDigit (text_post v)" using after_pre_stops [OF after_texts(3)] by blast
  ultimately show ?thesis
    using match_post [OF assms] unfolding text_pre_def gr_pre_def Some option.case append_assoc
    by (intro pre_present) simp_all
qed

lemma buildCanonical_text:
  "buildCanonical v = (if pv_epoch v \<noteq> ''0'' then pv_epoch v @ CHR ''!'' # Join (pv_release v) ''.'' @ text_pre v
     else Join (pv_release v) ''.'' @ text_pre v)"
  by (simp add: buildCanonical_def text_pre_def text_post_def text_dev_def text_local_def)

lemma find_canonical:
  assumes "wf_pep440 v"
  shows "find_submatch pep440VersionPattern (buildCanonical v) = Some (gr_all v)"
proof -
  let ?r = "Join (pv_release v) ''.''"
  have nums: "list_all numeral_word (pv_release v)" and ne: "pv_release v \<noteq> []"
    using assms wf_component_numeral by (auto simp: wf_pep440_def elim: list_all_imp)
  obtain w ws where rel: "pv_release v = w # ws" using ne by (cases "pv_release v") auto
  let ?k = "\<lambda>s c. rx_match rx_release s c (\<lambda>s c. rx_match rx_pre s c
      (\<lambda>s c. rx_match rx_post s c (\<lambda>s c. rx_match rx_dev s c (\<lambda>s c. rx_match rx_local s c final_k))))"
  have release: "?k (?r @ text_pre v) c = Some (gr_local v (gr_dev v (gr_post v (gr_pre v (c(G_release := ?r))))))" for c
    using match_pre [OF assms] by (intro release_greedy [OF ne nums text_pre_stops(2) [OF assms]]) simp
  have epoch: "rx_match rx_epoch (buildCanonical v) (\<lambda>_. []) ?k = Some (gr_all v)"
  proof (cases "pv_epoch v = ''0''")
    case False
    then show ?thesis
      using assms release unfolding buildCanonical_text gr_all_def gr_epoch_def
      by (auto intro!: epoch_present wf_component_numeral simp: wf_pep440_def)
  next
    case True
    let ?rest = "concat (map (\<lambda>w. CHR ''.'' # w) ws) @ text_pre v"
    have "?r @ text_pre v = w @ ?rest" by (simp add: rel Join_words)
    moreover have "stops isASCIIDigit ?rest" "stops (\<lambda>x. x = CHR ''!'') ?rest"
      using text_pre_stops [OF assms] by (cases ws; simp add: stops_def not_digits)+
    moreover have "numeral_word w" using nums rel by simp
    ultimately have "rx_match rx_epoch (?r @ text_pre v) (\<lambda>_. []) ?k = Some (gr_all v)"
      using release [of "\<lambda>_. []"] True by (simp add: epoch_absent gr_all_def gr_epoch_def)
    then show ?thesis using True by (simp add: buildCanonical_text)
  qed
  have "stops (\<lambda>x. lowerByte x = CHR ''v'') (buildCanonical v)"
  proof -
    have "hd (buildCanonical v) = hd (if pv_epoch v \<noteq> ''0'' then pv_epoch v else w) "
      "isASCIIDigit (hd (if pv_epoch v \<noteq> ''0'' then pv_epoch v else w))"
      using assms nums rel wf_component_numeral [of "pv_epoch v"]
      by (auto simp: buildCanonical_text wf_pep440_def numeral_word_def Join_words hd_append neq_Nil_conv)
    then show ?thesis by (simp add: stops_def digit_lowerByte not_digits)
  qed
  then have "rx_match (Opt (Chr CHR ''v'')) (buildCanonical v) c k = k (buildCanonical v) c" for c and k :: "string \<Rightarrow> pep440Group groups \<Rightarrow> _"
    by (cases "buildCanonical v") (auto simp: match_Opt stops_def)
  then show ?thesis
    using epoch unfolding find_submatch_def pep440VersionPattern_def rx_match.simps(3) final_k_def by simp
qed

lemma wf_component_nodot: "wf_component w \<Longrightarrow> CHR ''.'' \<notin> set w"
  using list_all_notin [of isASCIIDigit w "CHR ''.''"] by (simp add: wf_component_def not_digits)

lemma gr_all_simps:
  "gr_all v G_epoch = (if pv_epoch v \<noteq> ''0'' then pv_epoch v else [])"
  "gr_all v G_release = Join (pv_release v) ''.''"
  "gr_all v G_pre = (case pv_pre v of None \<Rightarrow> [] | Some p \<Rightarrow> pre_kind p @ pre_number p)"
  "gr_all v G_pre_l = (case pv_pre v of None \<Rightarrow> [] | Some p \<Rightarrow> pre_kind p)"
  "gr_all v G_pre_n = (case pv_pre v of None \<Rightarrow> [] | Some p \<Rightarrow> pre_number p)"
  "gr_all v G_post = (case pv_post v of None \<Rightarrow> [] | Some n \<Rightarrow> ''.post'' @ n)"
  "gr_all v G_post_n1 = []"
  "gr_all v G_post_n2 = (case pv_post v of None \<Rightarrow> [] | Some n \<Rightarrow> n)"
  "gr_all v G_dev = (case pv_dev v of None \<Rightarrow> [] | Some n \<Rightarrow> ''.dev'' @ n)"
  "gr_all v G_dev_n = (case pv_dev v of None \<Rightarrow> [] | Some n \<Rightarrow> n)"
  "gr_all v G_local = (if pv_local v \<noteq> [] then Join (map ls_value (pv_local v)) ''.'' else [])"
  by (simp_all add: gr_all_def gr_local_def gr_dev_def gr_post_def gr_pre_def gr_epoch_def split: option.splits)

lemma local_roundtrip:
  assumes "list_all wf_localSegment ls" and "ls \<noteq> []"
  shows "map localSegment (FieldsFunc (lowerASCII (Join (map ls_value ls) ''.'')) isSeparator) = ls"
    and "Join (map ls_value ls) ''.'' \<noteq> []"
proof -
  have low: "list_all (\<lambda>w. w \<noteq> [] \<and> list_all isASCIILowercaseAlphanumeric w) (map ls_value ls)"
    using assms(1) by (simp add: list_all_iff wf_localSegment_def)
  have "list_all (\<lambda>c. lowerByte c = c) (Join (map ls_value ls) ''.'')"
    using low lower_alnum_id
    by (intro list_all_Join) (auto simp: concrete_chars list_all_iff)
  then have "lowerASCII (Join (map ls_value ls) ''.'') = Join (map ls_value ls) ''.''"
    unfolding lowerASCII_def by (intro map_idI) (simp add: list_all_iff)
  moreover have "list_all (\<lambda>w. w \<noteq> [] \<and> list_all (\<lambda>c. \<not> isSeparator c) w) (map ls_value ls)"
    using low by (rule list_all_imp)
      (auto elim!: list_all_imp simp: isSeparator_def isASCIILowercaseAlphanumeric_def isASCIIDigit_def)
  ultimately have "FieldsFunc (lowerASCII (Join (map ls_value ls) ''.'')) isSeparator = map ls_value ls"
    by (simp add: FieldsFunc_Join concrete_chars)
  moreover have "map localSegment (map ls_value ls) = ls"
    using assms(1) unfolding map_map by (intro map_idI) (simp add: list_all_iff wf_localSegment_def)
  ultimately show "map localSegment (FieldsFunc (lowerASCII (Join (map ls_value ls) ''.'')) isSeparator) = ls"
    by simp
  show "Join (map ls_value ls) ''.'' \<noteq> []"
    using assms low by (cases ls) (simp_all add: Join_head)
qed

lemma pep440OfGroups_gr_all:
  assumes "wf_pep440 v"
  shows "pep440OfGroups (gr_all v) = v"
proof -
  have comps: "normalizeDecimal n = n" "n \<noteq> []" if "wf_component n" for n
    using wf_component_facts [OF that] by blast+
  have rel: "map normalizeDecimal (Split (Join (pv_release v) ''.'') CHR ''.'') = pv_release v"
  proof -
    have "list_all (\<lambda>w. CHR ''.'' \<notin> set w) (pv_release v)"
      using assms wf_component_nodot by (auto simp: wf_pep440_def elim!: list_all_imp)
    then have "Split (Join (pv_release v) ''.'') CHR ''.'' = pv_release v"
      using assms by (intro Split_Join) (simp_all add: wf_pep440_def)
    moreover have "map normalizeDecimal (pv_release v) = pv_release v"
      using assms comps by (intro map_idI) (simp add: wf_pep440_def list_all_iff)
    ultimately show ?thesis by simp
  qed
  have epoch: "normalizeDecimal (gr_all v G_epoch) = pv_epoch v"
    using assms comps by (auto simp: gr_all_simps wf_pep440_def normalizeDecimal_def)
  have loc: "(if gr_all v G_local \<noteq> []
      then map localSegment (FieldsFunc (lowerASCII (gr_all v G_local)) isSeparator) else []) = pv_local v"
    using local_roundtrip [of "pv_local v"] assms by (auto simp: gr_all_simps wf_pep440_def)
  have pre: "(if gr_all v G_pre \<noteq> [] then
      Some \<lparr>pre_kind = normalizePreKind (lowerASCII (gr_all v G_pre_l)),
            pre_number = normalizeDecimal (gr_all v G_pre_n)\<rparr> else None) = pv_pre v"
    using assms comps
    by (cases "pv_pre v")
       (auto simp: gr_all_simps wf_pep440_def wf_pre_def lowerASCII_def concrete_chars normalizePreKind_def
         intro!: pep440Prerelease.equality)
  have post: "(if gr_all v G_post \<noteq> [] then
      Some (normalizeDecimal (if gr_all v G_post_n1 = [] then gr_all v G_post_n2 else gr_all v G_post_n1))
      else None) = pv_post v"
    and dev: "(if gr_all v G_dev \<noteq> [] then Some (normalizeDecimal (gr_all v G_dev_n)) else None) = pv_dev v"
    using assms comps by (auto simp: gr_all_simps wf_pep440_def split: option.splits)
  show ?thesis
    unfolding pep440OfGroups_def epoch loc pre post dev gr_all_simps(2) rel
    using assms by (simp add: wf_pep440_def Let_def buildCanonical_def)
qed

lemma canonical_chars:
  assumes "wf_pep440 v"
  shows "list_all (\<lambda>c. byte c < 128 \<and> \<not> IsSpace (byte c) \<and> \<not> IsControl (byte c)) (buildCanonical v)"
proof -
  let ?Q = "\<lambda>c. byte c < 128 \<and> \<not> IsSpace (byte c) \<and> \<not> IsControl (byte c)"
  have alnum: "isASCIIAlphanumeric c \<Longrightarrow> ?Q c" for c
    using alphanumeric_not_space byte_class_ascii(2) by blast
  have comp: "list_all ?Q w" if "wf_component w" for w
    using that alnum digit_alphanumeric unfolding wf_component_def by (auto elim!: list_all_imp)
  have seg: "list_all ?Q (ls_value l)" if "wf_localSegment l" for l
    using that alnum lower_alphanumeric unfolding wf_localSegment_def by (auto elim!: list_all_imp)
  have concrete: "?Q CHR ''.''" "?Q CHR ''+''" "?Q CHR ''!''" "?Q CHR ''p''" "?Q CHR ''o''" "?Q CHR ''s''"
    "?Q CHR ''t''" "?Q CHR ''d''" "?Q CHR ''e''" "?Q CHR ''v''" "?Q CHR ''a''" "?Q CHR ''b''" "?Q CHR ''r''" "?Q CHR ''c''"
    by (simp_all add: IsSpace_def IsControl_def byte_def)
  have rel: "list_all ?Q (Join (pv_release v) ''.'')"
    using assms comp concrete by (intro list_all_Join) (auto simp: wf_pep440_def elim!: list_all_imp)
  have loc: "list_all ?Q (Join (map ls_value (pv_local v)) ''.'')"
    using assms seg concrete
    by (intro list_all_Join) (auto simp: wf_pep440_def list.pred_map comp_def elim!: list_all_imp)
  have parts: "list_all ?Q (pv_epoch v)"
    "list_all ?Q (case pv_pre v of None \<Rightarrow> [] | Some p \<Rightarrow> pre_kind p @ pre_number p)"
    "list_all ?Q (case pv_post v of None \<Rightarrow> [] | Some n \<Rightarrow> ''.post'' @ n)"
    "list_all ?Q (case pv_dev v of None \<Rightarrow> [] | Some n \<Rightarrow> ''.dev'' @ n)"
    subgoal using assms comp by (simp add: wf_pep440_def)
    subgoal using assms comp concrete by (cases "pv_pre v") (auto simp: wf_pep440_def wf_pre_def)
    subgoal using assms comp concrete by (cases "pv_post v") (simp_all add: wf_pep440_def)
    subgoal using assms comp concrete by (cases "pv_dev v") (simp_all add: wf_pep440_def)
    done
  show ?thesis
    unfolding buildCanonical_def using parts rel loc concrete by simp
qed

lemma parse_pep440_canonical:
  assumes "wf_pep440 v"
  shows "parsePEP440Version (buildCanonical v) = Inr v"
proof -
  note chars = canonical_chars [OF assms]
  have ascii: "list_all (\<lambda>c. byte c \<le> 127) (buildCanonical v)"
    using chars by (rule list_all_imp) auto
  have "\<not> ContainsFunc (buildCanonical v) IsSpace"
    using ascii_clean [OF chars] by (auto simp: ContainsFunc_def list_ex_iff)
  moreover have "buildCanonical v \<noteq> []"
    using assms by (auto simp: buildCanonical_text wf_pep440_def neq_Nil_conv Join_words wf_component_def no_leading_zero_def)
  ultimately show ?thesis
    using ascii_clean [OF chars] ascii find_canonical [OF assms] pep440OfGroups_gr_all [OF assms]
    by (simp add: parsePEP440Version_def)
qed

interpretation pep440: version_order comparePEP440Versions parsePEP440Version pv_canonical
proof (intro version_order.intro version_identity.intro version_identity_axioms.intro)
  show "three_way comparePEP440Versions" by (rule comparePEP440Versions_three_way)
  then show sym: "symmetric_cmp comparePEP440Versions" by (rule three_way.axioms(1))
  show "\<exists>w. parsePEP440Version (pv_canonical v) = Inr w \<and> comparePEP440Versions v w = 0 \<and>
      pv_canonical w = pv_canonical v"
    if "parsePEP440Version s = Inr v" for s v
    using parse_pep440_canonical [OF parsePEP440Version_ok [OF that]] parsePEP440Version_ok [OF that]
      symmetric_cmp.refl [OF sym, of v]
    by (simp add: wf_pep440_def)
qed

lemma pep440_canonical_of: "pep440_canonicalVersion = canonical_of parsePEP440Version pv_canonical"
  by (intro ext) (simp add: pep440_canonicalVersion_def canonical_of_def)

lemma pep440_compare_of: "pep440_CompareVersions = compare_of parsePEP440Version comparePEP440Versions"
  by (intro ext) (simp add: pep440_CompareVersions_def compare_of_def)

subsection \<open>Properties\<close>

lemma compareOptionalDecimal_exact:
  assumes "pred_option wf_component a" and "pred_option wf_component b" and "m = 1 \<or> m = -1"
  shows "compareOptionalDecimal a b m = 0 \<longleftrightarrow> a = b"
  using assms by (cases a; cases b) (auto simp: wf_component_def compareDecimal_exact)

lemma compareLocalSegment_exact:
  assumes "wf_localSegment l" and "wf_localSegment r"
  shows "compareLocalSegment l r = 0 \<longleftrightarrow> l = r"
proof -
  have num: "no_leading_zero (ls_value x)" if "wf_localSegment x" "ls_numeric x" for x
  proof -
    have "allASCIIDigits (ls_value x)" "normalizeDecimal (ls_value x) = ls_value x"
      using that unfolding wf_localSegment_def localSegment_def Let_def
      by (metis pep440LocalSegment.select_convs(1) pep440LocalSegment.select_convs(2))+
    then show ?thesis using normalizeDecimal_no_leading_zero by metis
  qed
  have eq: "l = r" if "ls_value l = ls_value r" using assms that unfolding wf_localSegment_def by metis
  show ?thesis
  proof
    assume c: "compareLocalSegment l r = 0"
    have "ls_value l = ls_value r"
    proof (cases "ls_numeric l \<and> ls_numeric r")
      case True
      then show ?thesis using c num assms compareDecimal_exact by (auto simp: compareLocalSegment_def)
    next
      case False
      then show ?thesis using c by (auto simp: compareLocalSegment_def split: if_splits)
    qed
    then show "l = r" by (rule eq)
  qed (simp add: compareLocalSegment_def compareDecimal_eq_0 signOf_def)
qed

lemma list_cmp_local_exact:
  "list_all wf_localSegment ls \<Longrightarrow> list_all wf_localSegment rs \<Longrightarrow>
     list_cmp compareLocalSegment ls rs = 0 \<longleftrightarrow> ls = rs"
proof (induction ls arbitrary: rs)
  case Nil
  then show ?case by (cases rs) auto
next
  case (Cons l ls)
  then show ?case by (cases rs) (auto simp: compareLocalSegment_exact)
qed

lemma comparePEP440Pre_exact:
  assumes "pred_option wf_pre (pv_pre v)" and "pred_option wf_pre (pv_pre w)"
  shows "comparePEP440Pre v w = 0 \<longleftrightarrow> pv_pre v = pv_pre w \<and> pep440PreSentinel v = pep440PreSentinel w"
proof (cases "pv_pre v")
  case None
  then show ?thesis
    by (cases "pv_pre w") (auto simp: comparePEP440Pre_def pep440PreSentinel_def signOf_def Let_def)
next
  case (Some p)
  have kinds: "preOrder a = preOrder b \<longleftrightarrow> a = b" if "a \<in> {''a'', ''b'', ''rc''}" "b \<in> {''a'', ''b'', ''rc''}" for a b
    using that by (auto simp: preOrder_def)
  show ?thesis
  proof (cases "pv_pre w")
    case None
    then show ?thesis using Some by (simp add: comparePEP440Pre_def pep440PreSentinel_def signOf_def Let_def)
  next
    case (Some q)
    have nums: "compareDecimal (pre_number p) (pre_number q) = 0 \<longleftrightarrow> pre_number p = pre_number q"
      using assms \<open>pv_pre v = Some p\<close> Some by (auto simp: wf_pre_def wf_component_def compareDecimal_exact)
    have "comparePEP440Pre v w = 0 \<longleftrightarrow> pre_kind p = pre_kind q \<and> pre_number p = pre_number q"
      using assms \<open>pv_pre v = Some p\<close> Some kinds [of "pre_kind p" "pre_kind q"] nums
      by (auto simp: comparePEP440Pre_def pep440PreSentinel_def signOf_def Let_def wf_pre_def split: if_splits)
    then show ?thesis
      using \<open>pv_pre v = Some p\<close> Some by (auto simp: pep440PreSentinel_def intro: pep440Prerelease.equality)
  qed
qed

lemma comparePEP440Versions_exact:
  assumes "wf_pep440 v" and "wf_pep440 w"
  shows "comparePEP440Versions v w = 0 \<longleftrightarrow>
    pv_epoch v = pv_epoch w \<and>
    strip_suffix_while (\<lambda>c. c = ''0'') (pv_release v) = strip_suffix_while (\<lambda>c. c = ''0'') (pv_release w) \<and>
    pv_pre v = pv_pre w \<and> pv_post v = pv_post w \<and> pv_dev v = pv_dev w \<and> pv_local v = pv_local w"
proof -
  have epoch: "compareDecimal (pv_epoch v) (pv_epoch w) = 0 \<longleftrightarrow> pv_epoch v = pv_epoch w"
    using assms by (simp add: wf_pep440_def wf_component_def compareDecimal_exact)
  have rel: "pad_cmp compareDecimal ''0'' (pv_release v) (pv_release w) = 0 \<longleftrightarrow>
      strip_suffix_while (\<lambda>c. c = ''0'') (pv_release v) = strip_suffix_while (\<lambda>c. c = ''0'') (pv_release w)"
    using assms by (intro pad_cmp_exact [of "{x. wf_component x}"])
      (auto simp: wf_pep440_def list_all_iff wf_component_def compareDecimal_exact no_leading_zero_def isASCIIDigit_def)
  have local: "list_cmp compareLocalSegment (pv_local v) (pv_local w) = 0 \<longleftrightarrow> pv_local v = pv_local w"
    using assms by (intro list_cmp_local_exact) (simp_all add: wf_pep440_def)
  have opts: "compareOptionalDecimal (pv_post v) (pv_post w) (-1) = 0 \<longleftrightarrow> pv_post v = pv_post w"
    "compareOptionalDecimal (pv_dev v) (pv_dev w) 1 = 0 \<longleftrightarrow> pv_dev v = pv_dev w"
    using assms by (auto simp: wf_pep440_def compareOptionalDecimal_exact)
  have pre: "comparePEP440Pre v w = 0 \<longleftrightarrow> pv_pre v = pv_pre w \<and> pep440PreSentinel v = pep440PreSentinel w"
    using assms by (intro comparePEP440Pre_exact) (simp_all add: wf_pep440_def)
  have sentinel: "pep440PreSentinel v = pep440PreSentinel w"
    if "pv_pre v = pv_pre w" "pv_post v = pv_post w" "pv_dev v = pv_dev w"
    using that by (simp add: pep440PreSentinel_def)
  show ?thesis
    unfolding comparePEP440Versions_lex using epoch rel local opts pre sentinel
    by (simp add: lex_cmp_def)
qed

text \<open>
  The PEP 440 canonical form is a normal form of the whole grammar: every accepted
  version has one, it is accepted again by the pattern, parses to the same version and is its
  own canonical form; and it compares equal to the version it came from.
\<close>

theorem pep440_canonical_roundtrip:
  assumes "parsePEP440Version value = Inr version"
  shows "pep440_canonicalVersion value = Inr (pv_canonical version) \<and>
    parsePEP440Version (pv_canonical version) = Inr version \<and>
    pep440_canonicalVersion (pv_canonical version) = Inr (pv_canonical version) \<and>
    pep440_CompareVersions value (pv_canonical version) = Inr 0"
proof -
  note wf = parsePEP440Version_ok [OF assms]
  have p: "parsePEP440Version (pv_canonical version) = Inr version"
    using parse_pep440_canonical [OF wf] wf by (simp add: wf_pep440_def)
  then show ?thesis
    using assms by (simp add: pep440_canonicalVersion_def pep440_CompareVersions_def)
qed

theorem pep440_canonical_roundtrip_witness:
  "\<exists>version. parsePEP440Version ''V01.0-ALPHA_01.post-2+Ubuntu-007'' = Inr version \<and>
     pv_canonical version = ''1.0a1.post2+ubuntu.7'' \<and>
     parsePEP440Version ''1.0a1.post2+ubuntu.7'' = Inr version"
proof -
  have c: "pep440_canonicalVersion ''V01.0-ALPHA_01.post-2+Ubuntu-007'' = Inr ''1.0a1.post2+ubuntu.7''"
    by code_simp
  then obtain v where v: "parsePEP440Version ''V01.0-ALPHA_01.post-2+Ubuntu-007'' = Inr v"
    "pv_canonical v = ''1.0a1.post2+ubuntu.7''"
    unfolding pep440_canonicalVersion_def bind_err_eq_Inr by blast
  from pep440_canonical_roundtrip [OF v(1)] v show ?thesis by metis
qed

text \<open>
  Two accepted PEP 440 versions compare equal exactly when they agree in epoch,
  prerelease, post, development and local parts and in the release up to trailing zero
  components.
\<close>

theorem pep440_equality_classes:
  assumes "parsePEP440Version a = Inr v" and "parsePEP440Version b = Inr w"
  shows "pep440_CompareVersions a b = Inr 0 \<longleftrightarrow>
    pv_epoch v = pv_epoch w \<and>
    strip_suffix_while (\<lambda>c. c = ''0'') (pv_release v) = strip_suffix_while (\<lambda>c. c = ''0'') (pv_release w) \<and>
    pv_pre v = pv_pre w \<and> pv_post v = pv_post w \<and> pv_dev v = pv_dev w \<and> pv_local v = pv_local w"
  using comparePEP440Versions_exact [OF assms [THEN parsePEP440Version_ok]] assms
  by (simp add: pep440_CompareVersions_def)

theorem pep440_equality_classes_witness:
  "pep440_CompareVersions ''1.0.0'' ''1'' = Inr 0"
proof -
  let ?v = "\<lambda>r c. \<lparr>pv_epoch = ''0'', pv_release = r, pv_pre = None, pv_post = None, pv_dev = None,
    pv_local = [], pv_canonical = c\<rparr>"
  have "parsePEP440Version ''1.0.0'' = Inr (?v [''1'', ''0'', ''0''] ''1.0.0'')"
    "parsePEP440Version ''1'' = Inr (?v [''1''] ''1'')"
    by code_simp+
  from pep440_equality_classes [OF this] show ?thesis
    by (simp add: strip_suffix_while_def)
qed

text \<open>
  The phases of a release are ordered as PEP 440 says: for versions that share epoch and
  release, a development release of the final version comes before every prerelease, every
  prerelease before the final version, the final version before every post release.
\<close>

theorem pep440_phase_order:
  assumes "pv_epoch v = pv_epoch w" and "pv_release v = pv_release w"
  shows "(pep440PreSentinel v < pep440PreSentinel w \<longrightarrow> comparePEP440Versions v w = -1) \<and>
    (pv_pre v = None \<and> pv_pre w = None \<and> pv_dev v = None \<and> pv_post v = None \<and> pv_post w \<noteq> None
      \<longrightarrow> comparePEP440Versions v w = -1)"
proof (intro conjI impI)
  have zero: "compareDecimal (pv_epoch v) (pv_epoch w) = 0"
    "pad_cmp compareDecimal ''0'' (pv_release v) (pv_release w) = 0"
    using assms compareDecimal_eq_0 symmetric_cmp.refl
      [OF three_way.axioms(1) [OF pad_cmp_three_way [OF compareDecimal_three_way]]] by simp_all
  then show "comparePEP440Versions v w = -1" if "pep440PreSentinel v < pep440PreSentinel w"
    using that by (simp add: comparePEP440Versions_lex lex_cmp_def comparePEP440Pre_def signOf_def)
  show "comparePEP440Versions v w = -1"
    if "pv_pre v = None \<and> pv_pre w = None \<and> pv_dev v = None \<and> pv_post v = None \<and> pv_post w \<noteq> None"
    using zero that
    by (auto simp: comparePEP440Versions_lex lex_cmp_def comparePEP440Pre_def pep440PreSentinel_def)
qed

theorem pep440_phase_order_witness:
  "comparePEP440Versions
     \<lparr>pv_epoch = ''0'', pv_release = [''1''], pv_pre = None, pv_post = None, pv_dev = Some ''3'', pv_local = [], pv_canonical = []\<rparr>
     \<lparr>pv_epoch = ''0'', pv_release = [''1''], pv_pre = Some \<lparr>pre_kind = ''a'', pre_number = ''1''\<rparr>,
      pv_post = None, pv_dev = None, pv_local = [], pv_canonical = []\<rparr> = -1"
  by (rule mp [OF conjunct1 [OF pep440_phase_order]]) (simp_all add: pep440PreSentinel_def)

end
