(* ===== verification/Maven.thy ===== *)
theory Maven
  imports Version_Contract
begin

text \<open>
  \<open>internal/packagepolicy/maven.go\<close>, versions: the port of Maven's \<open>ComparableVersion\<close>.
  A version is a tree of numbers, qualifiers and nested lists. The comparison is
  antisymmetric but not transitive, which is why the dialect refuses ranges. The Unicode
  tables of Go (\<open>unicode.Digit\<close>) and the lower-casing of \<open>golang.org/x/text/cases\<close> are
  parameters of the record \<open>externals\<close>.
\<close>

datatype mavenItem =
    mavenNumericItem string
  | mavenStringItem string
  | mavenListItem "mavenItem list"

record mavenVersion =
  mv_items :: mavenItem

fun maven_isNull :: "mavenItem \<Rightarrow> bool" where
  "maven_isNull (mavenNumericItem digits) \<longleftrightarrow> digits = ''0''"
| "maven_isNull (mavenStringItem value) \<longleftrightarrow> value = []"
| "maven_isNull (mavenListItem items) \<longleftrightarrow> items = []"

definition newMavenStringItem :: "string \<Rightarrow> bool \<Rightarrow> mavenItem" where
  "newMavenStringItem value0 followedByDigit =
     (let value =
        (if followedByDigit \<and> length value0 = 1 then
           (if hd value0 = CHR ''a'' then ''alpha''
            else if hd value0 = CHR ''b'' then ''beta''
            else if hd value0 = CHR ''m'' then ''milestone'' else value0)
         else value0)
      in mavenStringItem
        (if value = ''ga'' \<or> value = ''final'' \<or> value = ''release'' then []
         else if value = ''cr'' then ''rc'' else value))"

text \<open>\<open>mavenListItem.normalize\<close>, on the items from the last to the first.\<close>

fun normalizeItems_rev :: "mavenItem list \<Rightarrow> mavenItem list" where
  "normalizeItems_rev [] = []"
| "normalizeItems_rev (item # items) =
     (if maven_isNull item then normalizeItems_rev items
      else (case item of mavenListItem _ \<Rightarrow> item # normalizeItems_rev items | _ \<Rightarrow> item # items))"

definition maven_normalize :: "mavenItem list \<Rightarrow> mavenItem list" where
  "maven_normalize items = rev (normalizeItems_rev (rev items))"

subsection \<open>Qualifiers and numbers\<close>

definition compareMavenDecimal :: "string \<Rightarrow> string \<Rightarrow> int" where
  "compareMavenDecimal left right =
     (if length left \<noteq> length right then signOf (int (length left) - int (length right))
      else signOf (Compare left right))"

definition mavenQualifierOrder :: "string \<Rightarrow> int option" where
  "mavenQualifierOrder q =
     (if q = ''alpha'' then Some 0 else if q = ''beta'' then Some 1
      else if q = ''milestone'' then Some 2 else if q = ''rc'' then Some 3
      else if q = ''snapshot'' then Some 4 else if q = [] then Some 5
      else if q = ''sp'' then Some 6 else None)"

text \<open>\<open>utf16.Encode\<close>, and the comparison of code units.\<close>

definition utf16_units :: "rune \<Rightarrow> nat list" where
  "utf16_units r =
     (if r < 55296 \<or> 57344 \<le> r \<and> r < 65536 then [r]
      else if 65536 \<le> r \<and> r \<le> 1114111
      then [55296 + (r - 65536) div 1024, 56320 + (r - 65536) mod 1024]
      else [RuneError])"

fun compareUnits :: "nat list \<Rightarrow> nat list \<Rightarrow> int" where
  "compareUnits (l # ls) (r # rs) = (if l < r then -1 else if l > r then 1 else compareUnits ls rs)"
| "compareUnits ls rs = signOf (int (length ls) - int (length rs))"

definition compareMavenStrings :: "string \<Rightarrow> string \<Rightarrow> int" where
  "compareMavenStrings left right =
     compareUnits (concat (map utf16_units (runes left))) (concat (map utf16_units (runes right)))"

definition compareMavenQualifiers :: "string \<Rightarrow> string \<Rightarrow> int" where
  "compareMavenQualifiers left right =
     (case (mavenQualifierOrder left, mavenQualifierOrder right) of
        (Some l, Some r) \<Rightarrow> signOf (l - r)
      | (Some _, None) \<Rightarrow> -1
      | (None, Some _) \<Rightarrow> 1
      | (None, None) \<Rightarrow> compareMavenStrings left right)"

subsection \<open>Comparison\<close>

text \<open>\<open>compareTo(nil)\<close>, and for a list the first non-zero result of its children.\<close>

fun compareToNil :: "mavenItem \<Rightarrow> int" and compareListToNil :: "mavenItem list \<Rightarrow> int" where
  "compareToNil (mavenNumericItem digits) = (if digits = ''0'' then 0 else 1)"
| "compareToNil (mavenStringItem value) = compareMavenQualifiers value []"
| "compareToNil (mavenListItem items) = compareListToNil items"
| "compareListToNil [] = 0"
| "compareListToNil (child # items) =
     (let comparison = compareToNil child in
      if comparison \<noteq> 0 then comparison else compareListToNil items)"

fun maven_compareTo :: "mavenItem \<Rightarrow> mavenItem \<Rightarrow> int"
  and maven_compareLists :: "mavenItem list \<Rightarrow> mavenItem list \<Rightarrow> int" where
  "maven_compareTo (mavenNumericItem l) (mavenNumericItem r) = compareMavenDecimal l r"
| "maven_compareTo (mavenNumericItem l) (mavenStringItem r) = 1"
| "maven_compareTo (mavenNumericItem l) (mavenListItem r) = 1"
| "maven_compareTo (mavenStringItem l) (mavenNumericItem r) = -1"
| "maven_compareTo (mavenStringItem l) (mavenStringItem r) = compareMavenQualifiers l r"
| "maven_compareTo (mavenStringItem l) (mavenListItem r) = -1"
| "maven_compareTo (mavenListItem l) (mavenNumericItem r) = -1"
| "maven_compareTo (mavenListItem l) (mavenStringItem r) = 1"
| "maven_compareTo (mavenListItem l) (mavenListItem r) = maven_compareLists l r"
| "maven_compareLists [] [] = 0"
| "maven_compareLists [] (r # rs) =
     (let comparison = - compareToNil r in
      if comparison \<noteq> 0 then comparison else maven_compareLists [] rs)"
| "maven_compareLists (l # ls) [] =
     (let comparison = compareToNil l in
      if comparison \<noteq> 0 then comparison else maven_compareLists ls [])"
| "maven_compareLists (l # ls) (r # rs) =
     (let comparison = maven_compareTo l r in
      if comparison \<noteq> 0 then comparison else maven_compareLists ls rs)"

subsection \<open>Parsing\<close>

text \<open>
  The rows (lowest, highest, stride) of \<open>unicode.Digit.R16\<close> in order: first the ASCII
  digits, then the rows of the Unicode table above.
\<close>

fun digit_in_ranges :: "(nat \<times> nat \<times> nat) list \<Rightarrow> rune \<Rightarrow> nat option" where
  "digit_in_ranges [] value = None"
| "digit_in_ranges ((lo, hi, stride) # ranges) value =
     (if value < lo \<or> value > hi then digit_in_ranges ranges value
      else if (value - lo) mod stride \<noteq> 0 then None
      else Some ((value - lo) div stride mod 10))"

definition mavenDigitValue :: "externals \<Rightarrow> rune \<Rightarrow> nat option" where
  "mavenDigitValue E character =
     (if character > 65535 then None else digit_in_ranges ((48, 57, 1) # uc_digit_r16 E) character)"

definition isMavenDigit :: "externals \<Rightarrow> rune \<Rightarrow> bool" where
  "isMavenDigit E character \<longleftrightarrow> mavenDigitValue E character \<noteq> None"

fun normalizeMavenDigits :: "externals \<Rightarrow> bool \<Rightarrow> rune list \<Rightarrow> gerror + string" where
  "normalizeMavenDigits E leadingZero [] = Inr []"
| "normalizeMavenDigits E leadingZero (r # rs) =
     (case mavenDigitValue E r of
        None \<Rightarrow> Inl [GoPanic]
      | Some digit \<Rightarrow>
          if leadingZero \<and> digit = 0 then normalizeMavenDigits E leadingZero rs
          else bind_err (normalizeMavenDigits E False rs) (\<lambda>s. Inr (char_of (48 + digit) # s)))"

definition normalizeMavenDecimal :: "externals \<Rightarrow> rune list \<Rightarrow> gerror + string" where
  "normalizeMavenDecimal E value =
     bind_err (normalizeMavenDigits E True value) (\<lambda>s. Inr (if s = [] then ''0'' else s))"

text \<open>
  A token is the slice \<open>characters[startIndex:index]\<close>, a list of runes; ranging over its
  conversion to a string gives the same runes again.
\<close>

definition parseMavenItem :: "externals \<Rightarrow> bool \<Rightarrow> rune list \<Rightarrow> gerror + mavenItem" where
  "parseMavenItem E isDigit token =
     (if isDigit then bind_err (normalizeMavenDecimal E token) (\<lambda>digits. Inr (mavenNumericItem digits))
      else Inr (newMavenStringItem (string_of_runes token) False))"

text \<open>
  The parser state: the current token, the flag \<open>isDigit\<close>, the items of the current list,
  and the items of the enclosing lists, innermost first. A nested list is appended to its
  parent when it is opened and the parser never returns to the parent, so that every
  enclosing list ends with the list below it; \<open>maven_close\<close> puts them together.
\<close>

record mavenState =
  ms_token :: "rune list"
  ms_isDigit :: bool
  ms_list :: "mavenItem list"
  ms_outer :: "mavenItem list list"

definition maven_nest :: "mavenState \<Rightarrow> mavenState" where
  "maven_nest s = s\<lparr>ms_list := [], ms_outer := ms_list s # ms_outer s\<rparr>"

definition maven_append :: "mavenItem \<Rightarrow> mavenState \<Rightarrow> mavenState" where
  "maven_append item s = s\<lparr>ms_list := ms_list s @ [item], ms_token := []\<rparr>"

text \<open>The common start of the cases for \<open>.\<close> and \<open>-\<close>.\<close>

definition maven_separator :: "externals \<Rightarrow> mavenState \<Rightarrow> gerror + mavenState" where
  "maven_separator E s =
     (if ms_token s = [] then Inr (maven_append (mavenNumericItem ''0'') s)
      else bind_err (parseMavenItem E (ms_isDigit s) (ms_token s)) (\<lambda>item. Inr (maven_append item s)))"

definition mavenStep :: "externals \<Rightarrow> rune \<Rightarrow> mavenState \<Rightarrow> gerror + mavenState" where
  "mavenStep E character s =
     (if character = byte CHR ''.'' then maven_separator E s
      else if character = byte CHR ''-'' then
        bind_err (maven_separator E s) (\<lambda>s'. Inr (maven_nest s'))
      else if isMavenDigit E character then
        (let s1 =
           (if \<not> ms_isDigit s \<and> ms_token s \<noteq> [] then
              (let s0 = (if ms_list s \<noteq> [] then maven_nest s else s)
               in maven_nest (maven_append (newMavenStringItem (string_of_runes (ms_token s)) True) s0))
            else s)
         in Inr (s1\<lparr>ms_isDigit := True, ms_token := ms_token s1 @ [character]\<rparr>))
      else
        bind_err
          (if ms_isDigit s \<and> ms_token s \<noteq> [] then
             bind_err (parseMavenItem E True (ms_token s)) (\<lambda>item. Inr (maven_nest (maven_append item s)))
           else Inr s)
          (\<lambda>s1. Inr (s1\<lparr>ms_isDigit := False, ms_token := ms_token s1 @ [character]\<rparr>)))"

fun mavenLoop :: "externals \<Rightarrow> rune list \<Rightarrow> mavenState \<Rightarrow> gerror + mavenState" where
  "mavenLoop E [] s = Inr s"
| "mavenLoop E (character # characters) s =
     bind_err (mavenStep E character s) (\<lambda>s'. mavenLoop E characters s')"

definition mavenFinish :: "externals \<Rightarrow> mavenState \<Rightarrow> gerror + mavenState" where
  "mavenFinish E s =
     (if ms_token s \<noteq> [] then
        (let s1 = (if \<not> ms_isDigit s \<and> ms_list s \<noteq> [] then maven_nest s else s)
         in bind_err (parseMavenItem E (ms_isDigit s) (ms_token s)) (\<lambda>item. Inr (maven_append item s1)))
      else Inr s)"

fun maven_close :: "mavenItem list \<Rightarrow> mavenItem list list \<Rightarrow> mavenItem list" where
  "maven_close items [] = maven_normalize items"
| "maven_close items (outer # outers) =
     maven_close (outer @ [mavenListItem (maven_normalize items)]) outers"

definition lowerMavenVersion :: "externals \<Rightarrow> string \<Rightarrow> string" where
  "lowerMavenVersion E value = lower_english E value"

definition parseMavenVersion :: "externals \<Rightarrow> string \<Rightarrow> gerror + mavenVersion" where
  "parseMavenVersion E value =
     (if value = [] \<or> TrimSpace value \<noteq> value \<or> ContainsFunc value IsControl \<or>
         ContainsFunc value IsSpace then Inl plain_error
      else
        bind_err (mavenLoop E (runes (lowerMavenVersion E value))
            \<lparr>ms_token = [], ms_isDigit = False, ms_list = [], ms_outer = []\<rparr>) (\<lambda>s.
          bind_err (mavenFinish E s) (\<lambda>s'.
            Inr \<lparr>mv_items = mavenListItem (maven_close (ms_list s') (ms_outer s'))\<rparr>)))"

definition maven_ValidateVersion :: "externals \<Rightarrow> string \<Rightarrow> gerror option" where
  "maven_ValidateVersion E version =
     (case parseMavenVersion E version of Inl e \<Rightarrow> Some e | Inr _ \<Rightarrow> None)"

definition maven_compare :: "mavenVersion \<Rightarrow> mavenVersion \<Rightarrow> int" where
  "maven_compare left right = signOf (maven_compareTo (mv_items left) (mv_items right))"

definition maven_CompareVersions :: "externals \<Rightarrow> string \<Rightarrow> string \<Rightarrow> gerror + int" where
  "maven_CompareVersions E a b =
     bind_err (parseMavenVersion E a) (\<lambda>left. bind_err (parseMavenVersion E b) (\<lambda>right.
       Inr (maven_compare left right)))"

definition maven_canonicalVersion :: "externals \<Rightarrow> string \<Rightarrow> gerror + string" where
  "maven_canonicalVersion E value =
     bind_err (parseMavenVersion E value) (\<lambda>_. Inr (lowerMavenVersion E value))"

subsection \<open>The comparison is antisymmetric\<close>

lemma compareMavenDecimal_antisym: "compareMavenDecimal r l = - compareMavenDecimal l r"
  using symmetric_cmp.antisym [OF three_way.axioms(1) [OF Compare_three_way], of r l]
  by (cases "l = r") (auto simp: compareMavenDecimal_def signOf_def)

lemma compareUnits_antisym: "compareUnits rs ls = - compareUnits ls rs"
  by (induction ls rs rule: compareUnits.induct) (auto simp: signOf_def)

lemma compareMavenQualifiers_antisym: "compareMavenQualifiers r l = - compareMavenQualifiers l r"
proof (cases "mavenQualifierOrder l = None \<and> mavenQualifierOrder r = None")
  case True
  then show ?thesis
    using compareUnits_antisym [of "concat (map utf16_units (runes l))"]
    by (simp add: compareMavenQualifiers_def compareMavenStrings_def)
next
  case False
  then show ?thesis by (auto simp: compareMavenQualifiers_def signOf_def split: option.splits)
qed

lemma maven_compareTo_antisym:
  "maven_compareTo r l = - maven_compareTo l r"
  "maven_compareLists rs ls = - maven_compareLists ls rs"
  by (induction l r and ls rs rule: maven_compareTo_maven_compareLists.induct)
     (auto simp: Let_def intro: compareMavenDecimal_antisym compareMavenQualifiers_antisym)

interpretation maven: symmetric_cmp maven_compare
proof
  fix x y
  show "maven_compare y x = - maven_compare x y"
    using maven_compareTo_antisym(1) [of "mv_items y" "mv_items x"]
    by (simp add: maven_compare_def signOf_def)
qed

subsection \<open>The parser does not panic\<close>

definition maven_state_ok :: "externals \<Rightarrow> mavenState \<Rightarrow> bool" where
  "maven_state_ok E s \<longleftrightarrow> (ms_isDigit s \<longrightarrow> list_all (isMavenDigit E) (ms_token s))"

lemma normalizeMavenDigits_total:
  "list_all (isMavenDigit E) rs \<Longrightarrow> is_Inr (normalizeMavenDigits E z rs)"
  by (induction rs arbitrary: z) (auto simp: is_Inr_iff isMavenDigit_def split: option.split)

lemma parseMavenItem_total:
  "(d \<longrightarrow> list_all (isMavenDigit E) rs) \<Longrightarrow> is_Inr (parseMavenItem E d rs)"
  using normalizeMavenDigits_total [of E rs True]
  by (auto simp: parseMavenItem_def normalizeMavenDecimal_def is_Inr_iff)

lemma maven_separator_total:
  assumes "maven_state_ok E s"
  shows "\<exists>s'. maven_separator E s = Inr s' \<and> ms_token s' = []"
  using assms parseMavenItem_total [of "ms_isDigit s" E "ms_token s"]
  by (auto simp: maven_separator_def maven_state_ok_def maven_append_def is_Inr_iff)

lemma mavenStep_total:
  assumes "maven_state_ok E s"
  shows "\<exists>s'. mavenStep E r s = Inr s' \<and> maven_state_ok E s'"
proof -
  have item: "is_Inr (parseMavenItem E True (ms_token s))" if "ms_isDigit s"
    using assms that by (intro parseMavenItem_total) (simp add: maven_state_ok_def)
  consider "r = byte CHR ''.''" | "r = byte CHR ''-''" |
    "r \<noteq> byte CHR ''.''" "r \<noteq> byte CHR ''-''" "isMavenDigit E r" |
    "r \<noteq> byte CHR ''.''" "r \<noteq> byte CHR ''-''" "\<not> isMavenDigit E r" by blast
  then show ?thesis
  proof cases
    case 1
    then show ?thesis
      using maven_separator_total [OF assms] by (auto simp: mavenStep_def maven_state_ok_def)
  next
    case 2
    then show ?thesis
      using maven_separator_total [OF assms]
      by (auto simp: mavenStep_def maven_state_ok_def maven_nest_def)
  next
    case 3
    then show ?thesis
      using assms by (auto simp: mavenStep_def maven_state_ok_def maven_nest_def maven_append_def Let_def)
  next
    case 4
    then show ?thesis using item
      by (auto simp: mavenStep_def maven_state_ok_def maven_nest_def maven_append_def is_Inr_iff)
  qed
qed

lemma mavenLoop_total:
  "maven_state_ok E s \<Longrightarrow> \<exists>s'. mavenLoop E rs s = Inr s' \<and> maven_state_ok E s'"
proof (induction rs arbitrary: s)
  case (Cons r rs)
  from mavenStep_total [OF Cons.prems, of r] obtain s1 where
    "mavenStep E r s = Inr s1" "maven_state_ok E s1" by blast
  then show ?case using Cons.IH by fastforce
qed simp

lemma mavenFinish_total: "maven_state_ok E s \<Longrightarrow> is_Inr (mavenFinish E s)"
  using parseMavenItem_total [of "ms_isDigit s" E "ms_token s"]
  by (auto simp: mavenFinish_def maven_state_ok_def is_Inr_iff Let_def)

lemma parseMavenVersion_total:
  "is_Inr (parseMavenVersion E value) \<longleftrightarrow>
     value \<noteq> [] \<and> TrimSpace value = value \<and> \<not> ContainsFunc value IsControl \<and> \<not> ContainsFunc value IsSpace"
proof -
  let ?s0 = "\<lparr>ms_token = [], ms_isDigit = False, ms_list = [], ms_outer = []\<rparr>"
  have "maven_state_ok E ?s0" by (simp add: maven_state_ok_def)
  from mavenLoop_total [OF this, of "runes (lowerMavenVersion E value)"] obtain s where
    s: "mavenLoop E (runes (lowerMavenVersion E value)) ?s0 = Inr s" "maven_state_ok E s" by blast
  obtain s' where "mavenFinish E s = Inr s'" using mavenFinish_total [OF s(2)] by (auto simp: is_Inr_iff)
  then show ?thesis using s by (simp add: parseMavenVersion_def)
qed

lemma maven_compare_of: "maven_CompareVersions E = compare_of (parseMavenVersion E) maven_compare"
  by (intro ext) (simp add: maven_CompareVersions_def compare_of_def)

subsection \<open>Properties\<close>

text \<open>
  What the code relies on of the two tables outside the repository: the Unicode digit rows
  after the first lie above ASCII, and \<open>cases.Lower(language.English)\<close> is idempotent, keeps
  a text non-empty and introduces neither control characters nor white space.
\<close>

definition digit_rows_above_ascii :: "externals \<Rightarrow> bool" where
  "digit_rows_above_ascii E \<longleftrightarrow> list_all (\<lambda>(lo, hi, stride). 128 \<le> lo) (uc_digit_r16 E)"

definition lower_english_ok :: "externals \<Rightarrow> bool" where
  "lower_english_ok E \<longleftrightarrow> (\<forall>s. lower_english E (lower_english E s) = lower_english E s \<and>
     (s \<noteq> [] \<longrightarrow> lower_english E s \<noteq> []) \<and>
     (\<not> ContainsFunc s IsControl \<longrightarrow> \<not> ContainsFunc (lower_english E s) IsControl) \<and>
     (\<not> ContainsFunc s IsSpace \<longrightarrow> \<not> ContainsFunc (lower_english E s) IsSpace))"

lemma digit_in_ranges_above:
  "list_all (\<lambda>(lo, hi, stride). 128 \<le> lo) rows \<Longrightarrow> r < 128 \<Longrightarrow> digit_in_ranges rows r = None"
  by (induction rows r rule: digit_in_ranges.induct) auto

lemma mavenDigitValue_ascii:
  "digit_rows_above_ascii E \<Longrightarrow> r < 128 \<Longrightarrow>
     mavenDigitValue E r = (if 48 \<le> r \<and> r \<le> 57 then Some (r - 48) else None)"
  using digit_in_ranges_above [of "uc_digit_r16 E" r]
  by (auto simp: mavenDigitValue_def digit_rows_above_ascii_def)

lemma parseMavenVersion_canonical:
  assumes "lower_english_ok E" and "parseMavenVersion E value = Inr v"
  shows "parseMavenVersion E (lowerMavenVersion E value) = Inr v"
proof -
  let ?c = "lower_english E value"
  have g: "value \<noteq> []" "\<not> ContainsFunc value IsControl" "\<not> ContainsFunc value IsSpace"
    using assms(2) parseMavenVersion_total [of E "value"] by (auto simp: is_Inr_iff)
  then have c: "?c \<noteq> []" "\<not> ContainsFunc ?c IsControl" "\<not> ContainsFunc ?c IsSpace" "lower_english E ?c = ?c"
    using assms(1) by (auto simp: lower_english_ok_def)
  then show ?thesis
    using assms(2) TrimSpace_id [OF c(3)] unfolding parseMavenVersion_def lowerMavenVersion_def
    by (auto split: if_splits)
qed

text \<open>
  A Maven version is accepted exactly when it is non-empty and free of white space and
  control characters; on such a value the tokenizer always returns (the panic of
  \<open>normalizeMavenDecimal\<close> is unreachable), and the canonical form is accepted again, is its
  own canonical form and compares equal to the version.
\<close>

theorem maven_accepts_and_canonical:
  assumes "lower_english_ok E"
  shows "(maven_ValidateVersion E value = None \<longleftrightarrow>
      value \<noteq> [] \<and> TrimSpace value = value \<and> \<not> ContainsFunc value IsControl \<and> \<not> ContainsFunc value IsSpace) \<and>
    maven_ValidateVersion E value \<noteq> Some [GoPanic] \<and>
    (\<forall>canonical. maven_canonicalVersion E value = Inr canonical \<longrightarrow>
      maven_canonicalVersion E canonical = Inr canonical \<and> maven_CompareVersions E value canonical = Inr 0)"
proof (intro conjI allI impI)
  have valid: "maven_ValidateVersion E value = None \<longleftrightarrow> is_Inr (parseMavenVersion E value)"
    by (auto simp: maven_ValidateVersion_def is_Inr_iff split: sum.splits)
  then show "maven_ValidateVersion E value = None \<longleftrightarrow>
      value \<noteq> [] \<and> TrimSpace value = value \<and> \<not> ContainsFunc value IsControl \<and> \<not> ContainsFunc value IsSpace"
    by (simp add: parseMavenVersion_total)
  show "maven_ValidateVersion E value \<noteq> Some [GoPanic]"
  proof (cases "is_Inr (parseMavenVersion E value)")
    case True
    then show ?thesis using valid by simp
  next
    case False
    then show ?thesis
      using parseMavenVersion_total [of E "value"]
      by (auto simp: maven_ValidateVersion_def parseMavenVersion_def)
  qed
  fix canonical
  assume "maven_canonicalVersion E value = Inr canonical"
  then obtain v where v: "parseMavenVersion E value = Inr v" "canonical = lowerMavenVersion E value"
    by (auto simp: maven_canonicalVersion_def)
  note p = parseMavenVersion_canonical [OF assms v(1)]
  have "lowerMavenVersion E canonical = canonical"
    using assms by (simp add: v(2) lowerMavenVersion_def lower_english_ok_def)
  then show "maven_canonicalVersion E canonical = Inr canonical"
    using p by (simp add: maven_canonicalVersion_def v(2))
  show "maven_CompareVersions E value canonical = Inr 0"
    using p v by (simp add: maven_CompareVersions_def)
qed

text \<open>The ASCII instance of the outside tables meets what is assumed of them.\<close>

lemma ascii_externals_ok: "lower_english_ok ascii_externals" "digit_rows_above_ascii ascii_externals"
  by (simp_all add: lower_english_ok_def digit_rows_above_ascii_def ascii_externals_def)

theorem maven_accepts_and_canonical_witness:
  "maven_ValidateVersion ascii_externals ''1.0-rc1'' = None \<and>
   maven_CompareVersions ascii_externals ''1.0-rc1'' ''1.0-rc1'' = Inr 0"
proof -
  have v: "maven_ValidateVersion ascii_externals ''1.0-rc1'' = None" by code_simp
  moreover have "maven_canonicalVersion ascii_externals ''1.0-rc1'' = Inr ''1.0-rc1''" by code_simp
  ultimately show ?thesis using maven_accepts_and_canonical [OF ascii_externals_ok(1)] by blast
qed

text \<open>
  Maven's order is not transitive: \<open>sp\<close> is above \<open>0\<close>, \<open>0\<close> above \<open>0-alpha\<close>, and
  \<open>0-alpha\<close> above \<open>sp\<close>. An ordered selector over this order would have no consistent
  meaning, which is why the dialect does not support ranges.
\<close>

theorem maven_order_cycle:
  assumes "digit_rows_above_ascii E"
    and "lower_english E ''sp'' = ''sp''" and "lower_english E ''0'' = ''0''"
    and "lower_english E ''0-alpha'' = ''0-alpha''"
  shows "maven_CompareVersions E ''sp'' ''0'' = Inr 1 \<and>
    maven_CompareVersions E ''0'' ''0-alpha'' = Inr 1 \<and>
    maven_CompareVersions E ''0-alpha'' ''sp'' = Inr 1"
proof -
  have dig: "isMavenDigit E r \<longleftrightarrow> 48 \<le> r \<and> r \<le> 57" if "r < 128" for r
    using mavenDigitValue_ascii [OF assms(1) that] by (simp add: isMavenDigit_def)
  have clean: "TrimSpace s = s" "\<not> ContainsFunc s IsControl" "\<not> ContainsFunc s IsSpace"
    if "s \<in> {''sp'', ''0'', ''0-alpha''}" for s
    using that by (elim insertE emptyE; hypsubst; code_simp)+
  have digs: "isMavenDigit E 48" "\<not> isMavenDigit E 115" "\<not> isMavenDigit E 112" "\<not> isMavenDigit E 97"
    "\<not> isMavenDigit E 108" "\<not> isMavenDigit E 104" "mavenDigitValue E 48 = Some 0"
    using dig mavenDigitValue_ascii [OF assms(1), of 48] by simp_all
  have enc: "EncodeRune 115 = ''s''" "EncodeRune 112 = ''p''" "EncodeRune 97 = ''a''" "EncodeRune 108 = ''l''"
    "EncodeRune 104 = ''h''"
    by code_simp+
  have runes: "runes ''sp'' = [115, 112]" "runes ''0'' = [48]" "runes ''0-alpha'' = [48, 45, 97, 108, 112, 104, 97]"
    by code_simp+
  have sp: "parseMavenVersion E ''sp'' = Inr \<lparr>mv_items = mavenListItem [mavenStringItem ''sp'']\<rparr>"
    using clean [of "''sp''"] assms(2) digs enc runes
    by (simp add: parseMavenVersion_def lowerMavenVersion_def mavenStep_def Let_def
        mavenFinish_def parseMavenItem_def string_of_runes_def newMavenStringItem_def maven_append_def
        maven_normalize_def)
  have zero: "parseMavenVersion E ''0'' = Inr \<lparr>mv_items = mavenListItem []\<rparr>"
    using clean [of "''0''"] assms(3) digs enc runes
    by (simp add: parseMavenVersion_def lowerMavenVersion_def mavenStep_def Let_def
        mavenFinish_def parseMavenItem_def normalizeMavenDecimal_def maven_append_def maven_normalize_def)
  have alpha: "parseMavenVersion E ''0-alpha'' =
      Inr \<lparr>mv_items = mavenListItem [mavenListItem [mavenStringItem ''alpha'']]\<rparr>"
    using clean [of "''0-alpha''"] assms(4) digs enc runes
    by (simp add: parseMavenVersion_def lowerMavenVersion_def mavenStep_def Let_def
        maven_separator_def mavenFinish_def parseMavenItem_def normalizeMavenDecimal_def maven_append_def
        maven_nest_def maven_normalize_def string_of_runes_def newMavenStringItem_def)
  show ?thesis
    by (simp add: maven_CompareVersions_def sp zero alpha maven_compare_def compareMavenQualifiers_def
        mavenQualifierOrder_def signOf_def)
qed

theorem maven_order_cycle_witness:
  "maven_CompareVersions ascii_externals ''sp'' ''0'' = Inr 1 \<and>
   maven_CompareVersions ascii_externals ''0'' ''0-alpha'' = Inr 1 \<and>
   maven_CompareVersions ascii_externals ''0-alpha'' ''sp'' = Inr 1"
  by (rule maven_order_cycle) (simp_all add: ascii_externals_ok ascii_externals_def digit_rows_above_ascii_def)

end
