(* ===== verification/Go_Path_Match.thy ===== *)
theory Go_Path_Match
  imports Lexical
begin

text \<open>
  Go's \<open>path.Match\<close>, which validates and matches package globs. \<open>Inl\<close> is
  \<open>ErrBadPattern\<close>. The pattern is cut into chunks, each an optional star followed by text
  without stars outside a character class; a chunk is matched at a position, and behind a
  star at every position up to the next slash.
\<close>

definition getEsc :: "string \<Rightarrow> gerror + (rune \<times> string)" where
  "getEsc chunk =
     (if chunk = [] \<or> hd chunk = CHR ''-'' \<or> hd chunk = CHR '']'' then Inl plain_error
      else (let chunk1 = (if hd chunk = CHR 0x5C then tl chunk else chunk) in
        if chunk1 = [] then Inl plain_error
        else (let (r, n) = DecodeRune chunk1; nchunk = drop n chunk1 in
          if r = RuneError \<and> n = 1 then Inl plain_error
          else if nchunk = [] then Inl plain_error
          else Inr (r, nchunk))))"

lemma getEsc_shorter: "getEsc chunk = Inr (r, rest) \<Longrightarrow> length rest < length chunk"
proof -
  assume a: "getEsc chunk = Inr (r, rest)"
  define chunk1 where "chunk1 = (if hd chunk = CHR 0x5C then tl chunk else chunk)"
  have ne: "chunk \<noteq> []" "chunk1 \<noteq> []" "rest = drop (snd (DecodeRune chunk1)) chunk1"
    using a unfolding getEsc_def chunk1_def [symmetric] Let_def
    by (auto split: if_splits prod.splits)
  then have "length rest < length chunk1"
    using DecodeRune_width_pos [OF ne(2)] by simp
  moreover have "length chunk1 \<le> length chunk" by (simp add: chunk1_def)
  ultimately show ?thesis by simp
qed

text \<open>The ranges of a character class, up to its closing bracket; \<open>r\<close> is the rune to match.\<close>

function matchRanges :: "rune \<Rightarrow> nat \<Rightarrow> bool \<Rightarrow> string \<Rightarrow> gerror + (bool \<times> string)" where
  "matchRanges r nrange matched chunk =
     (if chunk \<noteq> [] \<and> hd chunk = CHR '']'' \<and> nrange > 0 then Inr (matched, tl chunk)
      else case getEsc chunk of
        Inl e \<Rightarrow> Inl e
      | Inr (lo, chunk1) \<Rightarrow>
          if hd chunk1 = CHR ''-'' then
            (case getEsc (tl chunk1) of
               Inl e \<Rightarrow> Inl e
             | Inr (hi, chunk2) \<Rightarrow> matchRanges r (Suc nrange) (matched \<or> lo \<le> r \<and> r \<le> hi) chunk2)
          else matchRanges r (Suc nrange) (matched \<or> lo \<le> r \<and> r \<le> lo) chunk1)"
  by pat_completeness auto
termination
  by (relation "measure (\<lambda>(r, n, m, chunk). length chunk)")
     (auto dest!: getEsc_shorter [OF sym] getEsc_shorter)

declare matchRanges.simps [simp del]

lemma matchRanges_shorter:
  "matchRanges r n m chunk = Inr (m', rest) \<Longrightarrow> length rest < length chunk"
proof (induction r n m chunk arbitrary: m' rest rule: matchRanges.induct)
  case (1 r n m chunk)
  show ?case
  proof (cases "chunk \<noteq> [] \<and> hd chunk = CHR '']'' \<and> n > 0")
    case True
    then show ?thesis using "1.prems" unfolding matchRanges.simps [of r n m chunk]
      by (cases chunk) auto
  next
    case False
    then obtain lo chunk1 where g: "getEsc chunk = Inr (lo, chunk1)"
      using "1.prems" unfolding matchRanges.simps [of r n m chunk] by (auto split: sum.splits)
    note shorter = getEsc_shorter [OF g]
    show ?thesis
    proof (cases "hd chunk1 = CHR ''-''")
      case dash: True
      then obtain hi chunk2 where g2: "getEsc (tl chunk1) = Inr (hi, chunk2)"
        "matchRanges r (Suc n) (m \<or> lo \<le> r \<and> r \<le> hi) chunk2 = Inr (m', rest)"
        using "1.prems" False g unfolding matchRanges.simps [of r n m chunk] by (auto split: sum.splits)
      have "length rest < length chunk2" using "1.IH"(1) [OF False g refl dash g2(1) refl g2(2)] .
      then show ?thesis using getEsc_shorter [OF g2(1)] shorter by simp
    next
      case nodash: False
      then have "matchRanges r (Suc n) (m \<or> lo \<le> r \<and> r \<le> lo) chunk1 = Inr (m', rest)"
        using "1.prems" False g unfolding matchRanges.simps [of r n m chunk] by auto
      then have "length rest < length chunk1" using "1.IH"(2) [OF False g refl nodash] by simp
      then show ?thesis using shorter by simp
    qed
  qed
qed

text \<open>
  \<open>matchChunk\<close>: after a mismatch the chunk is only checked for its syntax. The result is
  the rest of the name, or \<open>None\<close> where the chunk did not match.
\<close>

function matchChunk :: "bool \<Rightarrow> string \<Rightarrow> string \<Rightarrow> gerror + string option" where
  "matchChunk failed0 chunk s =
     (if chunk = [] then Inr (if failed0 then None else Some s)
      else (let failed = (failed0 \<or> s = []) in
        if hd chunk = CHR ''['' then
          (let (r, n) = (if failed then (0, 0) else DecodeRune s);
               chunk1 = tl chunk;
               negated = (chunk1 \<noteq> [] \<and> hd chunk1 = CHR 0x5E);
               chunk2 = (if negated then tl chunk1 else chunk1)
           in case matchRanges r 0 False chunk2 of
                Inl e \<Rightarrow> Inl e
              | Inr (matched, chunk3) \<Rightarrow> matchChunk (failed \<or> matched = negated) chunk3 (drop n s))
        else if hd chunk = CHR 0x3F then
          (if failed then matchChunk True (tl chunk) s
           else matchChunk (hd s = CHR ''/'') (tl chunk) (drop (snd (DecodeRune s)) s))
        else (let chunk1 = (if hd chunk = CHR 0x5C then tl chunk else chunk) in
          if chunk1 = [] then Inl plain_error
          else if failed then matchChunk True (tl chunk1) s
          else matchChunk (hd chunk1 \<noteq> hd s) (tl chunk1) (tl s))))"
  by pat_completeness auto
termination
proof (relation "measure (\<lambda>(f, chunk, s). length chunk)", goal_cases)
  case (2 failed0 chunk s failed p r n chunk1 negated chunk2 q matched chunk3)
  have "length chunk2 \<le> length chunk1" using 2 by (auto intro: diff_le_mono2)
  moreover have "length chunk1 < length chunk" using 2 by (cases chunk) auto
  moreover have "length chunk3 < length chunk2" using 2 by (auto dest: matchRanges_shorter)
  ultimately show ?case by simp
qed (auto simp: neq_Nil_conv split: if_splits)

declare matchChunk.simps [simp del]

text \<open>\<open>scanChunk\<close>: the star, the chunk and the rest of the pattern.\<close>

fun scanBody :: "bool \<Rightarrow> string \<Rightarrow> string \<times> string" where
  "scanBody inrange [] = ([], [])"
| "scanBody inrange (c # p) =
     (if c = CHR 0x5C then
        (case p of
           [] \<Rightarrow> ([c], [])
         | d # p' \<Rightarrow> (let (chunk, rest) = scanBody inrange p' in (c # d # chunk, rest)))
      else if c = CHR ''*'' \<and> \<not> inrange then ([], c # p)
      else (let inrange' = (if c = CHR ''['' then True else if c = CHR '']'' then False else inrange);
                (chunk, rest) = scanBody inrange' p
            in (c # chunk, rest)))"

definition scanChunk :: "string \<Rightarrow> bool \<times> string \<times> string" where
  "scanChunk pattern =
     (let star = (pattern \<noteq> [] \<and> hd pattern = CHR ''*'');
          (chunk, rest) = scanBody False (dropWhile (\<lambda>c. c = CHR ''*'') pattern)
      in (star, chunk, rest))"

lemma scanBody_append: "scanBody r p = (chunk, rest) \<Longrightarrow> p = chunk @ rest"
proof (induction r p arbitrary: chunk rest rule: scanBody.induct)
  case (2 inrange c p)
  then show ?case by (auto simp: Let_def split: if_splits list.splits prod.splits) blast
qed simp

lemma scanBody_nonempty: "p \<noteq> [] \<Longrightarrow> hd p \<noteq> CHR ''*'' \<Longrightarrow> fst (scanBody False p) \<noteq> []"
proof (cases p)
  case (Cons c q)
  assume "hd p \<noteq> CHR ''*''"
  then show ?thesis
    unfolding Cons scanBody.simps(2)
    by (simp add: Let_def del: scanBody.simps split: list.split prod.split)
qed simp

declare scanBody.simps [simp del]

lemma scanChunk_shorter:
  assumes "scanChunk pattern = (star, chunk, rest)" and "pattern \<noteq> []"
  shows "length rest < length pattern"
proof -
  let ?p = "dropWhile (\<lambda>c. c = CHR ''*'') pattern"
  have body: "scanBody False ?p = (chunk, rest)"
    using assms(1) by (auto simp: scanChunk_def Let_def split: prod.splits)
  then have app: "?p = chunk @ rest" by (rule scanBody_append)
  have len: "length ?p \<le> length pattern" by (rule length_dropWhile_le)
  show ?thesis
  proof (cases "hd pattern = CHR ''*''")
    case True
    then have "length ?p < length pattern"
      using assms(2) length_dropWhile_le [of "\<lambda>c. c = CHR ''*''" "tl pattern"] by (cases pattern) auto
    then show ?thesis using app by simp
  next
    case False
    then have "?p = pattern" using assms(2) by (cases pattern) auto
    then have "chunk \<noteq> []" using scanBody_nonempty [OF assms(2) False] body by simp
    then show ?thesis using app len by (cases chunk) auto
  qed
qed

text \<open>The check of the remaining pattern once the match has failed.\<close>

function checkRest :: "string \<Rightarrow> gerror + bool" where
  "checkRest pattern =
     (if pattern = [] then Inr False
      else (let (star, chunk, rest) = scanChunk pattern in
        case matchChunk False chunk [] of Inl e \<Rightarrow> Inl e | Inr _ \<Rightarrow> checkRest rest))"
  by pat_completeness auto
termination
  by (relation "measure length") (auto dest: scanChunk_shorter [OF sym])

declare checkRest.simps [simp del]

text \<open>
  The search behind a star: \<open>Inl\<close> a bad pattern, \<open>Inr (Some t)\<close> the rest of the name after
  the first usable match, \<open>Inr None\<close> none up to the next slash. \<open>lastChunk\<close> asks for a match
  that exhausts the name.
\<close>

fun starSearch :: "bool \<Rightarrow> string \<Rightarrow> string \<Rightarrow> gerror + string option" where
  "starSearch lastChunk chunk [] = Inr None"
| "starSearch lastChunk chunk (c # name) =
     (if c = CHR ''/'' then Inr None
      else case matchChunk False chunk name of
        Inl e \<Rightarrow> Inl e
      | Inr None \<Rightarrow> starSearch lastChunk chunk name
      | Inr (Some t) \<Rightarrow> if lastChunk \<and> t \<noteq> [] then starSearch lastChunk chunk name else Inr (Some t))"

function path_Match :: "string \<Rightarrow> string \<Rightarrow> gerror + bool" where
  "path_Match pattern name =
     (if pattern = [] then Inr (name = [])
      else (let (star, chunk, rest) = scanChunk pattern in
        if star \<and> chunk = [] then Inr (CHR ''/'' \<notin> set name)
        else (case matchChunk False chunk name of
          Inl e \<Rightarrow> Inl e
        | Inr here \<Rightarrow>
            (case here of
               Some t \<Rightarrow>
                 if t = [] \<or> rest \<noteq> [] then path_Match rest t
                 else if star then
                   (case starSearch (rest = []) chunk name of
                      Inl e \<Rightarrow> Inl e
                    | Inr (Some t') \<Rightarrow> path_Match rest t'
                    | Inr None \<Rightarrow> checkRest rest)
                 else checkRest rest
             | None \<Rightarrow>
                 if star then
                   (case starSearch (rest = []) chunk name of
                      Inl e \<Rightarrow> Inl e
                    | Inr (Some t') \<Rightarrow> path_Match rest t'
                    | Inr None \<Rightarrow> checkRest rest)
                 else checkRest rest))))"
  by pat_completeness auto
termination
  by (relation "measure (\<lambda>(p, n). length p)") (auto dest: scanChunk_shorter [OF sym])

declare path_Match.simps [simp del]

text \<open>A pattern without metacharacters matches exactly itself.\<close>

definition glob_meta :: "char \<Rightarrow> bool" where
  "glob_meta c \<longleftrightarrow> c = CHR ''*'' \<or> c = CHR 0x3F \<or> c = CHR ''['' \<or> c = CHR 0x5C"

lemma scanBody_literal:
  "list_all (\<lambda>c. \<not> glob_meta c) p \<Longrightarrow> scanBody r p = (p, [])"
proof (induction r p rule: scanBody.induct)
  case (2 inrange c p)
  then show ?case by (simp add: scanBody.simps(2) glob_meta_def Let_def)
qed (simp add: scanBody.simps)

lemma matchChunk_literal:
  "list_all (\<lambda>c. \<not> glob_meta c) p \<Longrightarrow>
     matchChunk f p s = Inr (if \<not> f \<and> prefix p s then Some (drop (length p) s) else None)"
proof (induction p arbitrary: f s)
  case Nil
  then show ?case by (simp add: matchChunk.simps)
next
  case (Cons c p)
  then show ?case
    by (subst matchChunk.simps) (cases s; auto simp: glob_meta_def Let_def)
qed

lemma path_Match_literal:
  assumes "list_all (\<lambda>c. \<not> glob_meta c) p"
  shows "path_Match p name = Inr (name = p)"
proof (cases p)
  case Nil
  then show ?thesis by (simp add: path_Match.simps [of "[]"])
next
  case (Cons c q)
  then have ne: "p \<noteq> []" "hd p \<noteq> CHR ''*''" using assms by (auto simp: glob_meta_def)
  then have "dropWhile (\<lambda>c. c = CHR ''*'') p = p" by (cases p) auto
  then have scan: "scanChunk p = (False, p, [])"
    using ne scanBody_literal [OF assms] by (simp add: scanChunk_def)
  have nil: "path_Match [] t = Inr (t = [])" "checkRest [] = Inr False" for t
    by (simp_all add: path_Match.simps [of "[]"] checkRest.simps [of "[]"])
  have eq: "(prefix p n \<and> drop (length p) n = []) \<longleftrightarrow> n = p" for n by (auto simp: prefix_def)
  show ?thesis
    unfolding path_Match.simps [of p "name"]
    using ne scan matchChunk_literal [OF assms, of False "name"] eq [of "name"] by (auto simp: nil)
qed

end
