(* ===== verification/Package_Names.thy ===== *)
theory Package_Names
  imports Go_Path_Match
begin

text \<open>
  Package names of \<open>internal/packagepolicy\<close> (\<open>dialect.go\<close>, and the name parts of
  \<open>pep440.go\<close>, \<open>nuget.go\<close>, \<open>cran.go\<close>, \<open>maven.go\<close>, \<open>debian.go\<close>) and of
  \<open>internal/gomoduleidentity\<close>: validators, normalisers of names, of prefixes and of globs.

  A validator with result \<open>error\<close> is a predicate here, true where the code returns
  \<open>nil\<close>: every error it can return is a plain one, so that which check fails first is not
  observable. The early returns are conjunctions in the order of the code. A normaliser
  returns \<open>gerror + string\<close>.
\<close>

definition ret :: "bool \<Rightarrow> 'a \<Rightarrow> gerror + 'a" where
  "ret ok x = (if ok then Inr x else Inl plain_error)"

lemma ret_Inr [simp]: "ret ok x = Inr y \<longleftrightarrow> ok \<and> y = x"
  by (auto simp: ret_def)

definition validatePackageNameInput :: "string \<Rightarrow> bool" where
  "validatePackageNameInput name \<longleftrightarrow>
     \<not> (name = [] \<or> TrimSpace name \<noteq> name \<or> ContainsFunc name IsControl \<or> ContainsFunc name IsSpace)"

definition validatePackageGlobInput :: "string \<Rightarrow> bool" where
  "validatePackageGlobInput pattern \<longleftrightarrow>
     validatePackageNameInput pattern \<and> is_Inr (path_Match pattern [])"

text \<open>\<open>strings.ContainsAny\<close> with the four metacharacters, and the characters a glob may contain.\<close>

definition glob_metacharacters :: string where
  "glob_metacharacters = [CHR ''*'', CHR 0x3F, CHR ''['', CHR 0x5C]"

definition hasGlobMetacharacter :: "string \<Rightarrow> bool" where
  "hasGlobMetacharacter value \<longleftrightarrow> ContainsAny value glob_metacharacters"

definition glob_syntax :: string where
  "glob_syntax = [CHR ''*'', CHR 0x3F, CHR ''['', CHR '']'', CHR 0x5C, CHR 0x5E]"

definition validGlobCharacter :: "string \<Rightarrow> bool \<Rightarrow> char \<Rightarrow> bool" where
  "validGlobCharacter punctuation allowUppercase c \<longleftrightarrow>
     (if isASCIIAlphanumeric c then \<not> (\<not> allowUppercase \<and> isASCIIUpper c)
      else c \<in> set (punctuation @ glob_syntax))"

definition validateGlobCharacters :: "string \<Rightarrow> string \<Rightarrow> bool \<Rightarrow> bool" where
  "validateGlobCharacters value punctuation allowUppercase \<longleftrightarrow>
     list_all (validGlobCharacter punctuation allowUppercase) value"

definition validateSimpleASCIIName :: "string \<Rightarrow> string \<Rightarrow> bool \<Rightarrow> bool \<Rightarrow> bool" where
  "validateSimpleASCIIName value punctuation allowTrailingPunctuation allowUppercase \<longleftrightarrow>
     \<not> (value = [] \<or> value = ''.'' \<or> value = ''..'' \<or> \<not> isASCIIAlphanumeric (hd value)) \<and>
     \<not> (\<not> allowTrailingPunctuation \<and> \<not> isASCIIAlphanumeric (last value)) \<and>
     list_all (\<lambda>c. if isASCIIAlphanumeric c then \<not> (\<not> allowUppercase \<and> isASCIIUpper c)
                   else c \<in> set punctuation) value"

definition exactCoordinateParts :: "string \<Rightarrow> nat \<Rightarrow> string list option" where
  "exactCoordinateParts value count =
     (let parts = Split value CHR ''/'' in
      if length parts \<noteq> count then None
      else if \<not> list_all (\<lambda>part. part \<noteq> []) parts then None
      else Some parts)"

text \<open>\<open>for strings.Count(candidate, "/") < totalParts-1 { candidate += "/x" }\<close>.\<close>

function completeCoordinate :: "nat \<Rightarrow> string \<Rightarrow> string" where
  "completeCoordinate totalParts candidate =
     (if Count candidate CHR ''/'' < totalParts - 1
      then completeCoordinate totalParts (candidate @ ''/x'') else candidate)"
  by pat_completeness auto
termination
  by (relation "measure (\<lambda>(n, c). n - 1 - Count c CHR ''/'')") (auto simp: Count_def)

declare completeCoordinate.simps [simp del]

definition validateCompletedCoordinatePrefix :: "string \<Rightarrow> nat \<Rightarrow> (string \<Rightarrow> bool) \<Rightarrow> bool" where
  "validateCompletedCoordinatePrefix pfx totalParts validate \<longleftrightarrow>
     validatePackageNameInput pfx \<and>
     \<not> Count pfx CHR ''/'' \<ge> totalParts \<and>
     validate (completeCoordinate totalParts (pfx @ ''x''))"

definition validateStructuredPackageGlob :: "string \<Rightarrow> nat \<Rightarrow> string \<Rightarrow> bool \<Rightarrow> string list option" where
  "validateStructuredPackageGlob pattern totalParts punctuation allowUppercase =
     (if \<not> validatePackageGlobInput pattern then None
      else (let parts = Split pattern CHR ''/'' in
        if length parts \<noteq> totalParts then None
        else if \<not> list_all (\<lambda>part. \<not> (part = [] \<or> part = ''.'' \<or> part = ''..'') \<and>
            validateGlobCharacters part punctuation allowUppercase) parts then None
        else Some parts))"

subsection \<open>Cargo\<close>

text \<open>\<open>unicode.IsLetter\<close>, \<open>unicode.IsNumber\<close> and \<open>Other_Alphabetic\<close>: exact on ASCII, a table above.\<close>

definition isCargoPackageNameCharacter :: "externals \<Rightarrow> rune \<Rightarrow> bool" where
  "isCargoPackageNameCharacter E r \<longleftrightarrow>
     (if r < 128 then 65 \<le> r \<and> r \<le> 90 \<or> 97 \<le> r \<and> r \<le> 122 \<or> 48 \<le> r \<and> r \<le> 57
      else uc_letter E r \<or> uc_number E r \<or> uc_other_alphabetic E r) \<or>
     r = byte CHR ''-'' \<or> r = byte CHR ''_''"

definition validateCargoPackageName :: "externals \<Rightarrow> string \<Rightarrow> bool" where
  "validateCargoPackageName E name \<longleftrightarrow> list_all (isCargoPackageNameCharacter E) (runes name)"

definition normalizeCargoPackageGlob :: "externals \<Rightarrow> string \<Rightarrow> gerror + string" where
  "normalizeCargoPackageGlob E pattern =
     ret (validatePackageGlobInput pattern \<and> \<not> ContainsByte pattern CHR ''/'' \<and>
       list_all (\<lambda>r. isCargoPackageNameCharacter E r \<or> r \<in> set (map byte glob_syntax)) (runes pattern))
     pattern"

subsection \<open>npm\<close>

definition validateNPMURLSafeComponent :: "string \<Rightarrow> bool" where
  "validateNPMURLSafeComponent value \<longleftrightarrow>
     value \<noteq> [] \<and>
     list_all (\<lambda>c. isASCIIAlphanumeric c \<or> c \<in> set (''._~!()*'' @ [CHR 0x27] @ ''-'')) value"

definition validateNPMPackageName :: "externals \<Rightarrow> string \<Rightarrow> bool" where
  "validateNPMPackageName E name \<longleftrightarrow>
     \<not> length name > 214 \<and>
     (if HasPrefix name ''@'' then
        (let parts = Split name CHR ''/'' in
         \<not> (length parts \<noteq> 2 \<or> length (parts ! 0) = 1 \<or> parts ! 1 = []) \<and>
         validateNPMURLSafeComponent (drop 1 (parts ! 0)) \<and>
         hd (parts ! 1) \<noteq> CHR ''.'' \<and>
         validateNPMURLSafeComponent (parts ! 1))
      else
        \<not> ContainsByte name CHR ''/'' \<and>
        hd name \<notin> set ''._-'' \<and>
        \<not> (ToLower E name = ''node_modules'' \<or> ToLower E name = ''favicon.ico'') \<and>
        validateNPMURLSafeComponent name)"

definition normalizeNPMPackagePrefix :: "externals \<Rightarrow> string \<Rightarrow> gerror + string" where
  "normalizeNPMPackagePrefix E pfx =
     (if \<not> validatePackageNameInput pfx then Inl plain_error
      else if validateNPMPackageName E pfx then Inr pfx
      else (let candidate = pfx @ ''x'' @
              (if HasPrefix pfx ''@'' \<and> \<not> ContainsByte pfx CHR ''/'' then ''/x'' else [])
        in ret (validateNPMPackageName E candidate) pfx))"

definition npm_glob_punctuation :: string where
  "npm_glob_punctuation = ''._~!()'' @ [CHR 0x27] @ ''-''"

definition normalizeNPMPackageGlob :: "externals \<Rightarrow> string \<Rightarrow> gerror + string" where
  "normalizeNPMPackageGlob E pattern =
     ret (validatePackageGlobInput pattern \<and>
       (let parts = Split pattern CHR ''/'' in
        if HasPrefix pattern ''@'' then
          \<not> (length parts \<noteq> 2 \<or> length (parts ! 0) = 1 \<or> parts ! 1 = []) \<and>
          hd (parts ! 1) \<noteq> CHR ''.'' \<and>
          list_all (\<lambda>part. validateGlobCharacters part npm_glob_punctuation True)
            [drop 1 (parts ! 0), parts ! 1]
        else
          length parts = 1 \<and>
          hd pattern \<notin> set ''._-'' \<and>
          validateGlobCharacters pattern npm_glob_punctuation True) \<and>
       (\<not> hasGlobMetacharacter pattern \<longrightarrow> validateNPMPackageName E pattern))
     pattern"

subsection \<open>PyPI\<close>

definition validatePyPIPackageName :: "string \<Rightarrow> bool" where
  "validatePyPIPackageName name \<longleftrightarrow>
     validatePackageNameInput name \<and>
     list_all (\<lambda>c. isASCIIAlphanumeric c \<or> c = CHR ''.'' \<or> c = CHR ''_'' \<or> c = CHR ''-'') name \<and>
     \<not> (\<not> isASCIIAlphanumeric (hd name) \<or> \<not> isASCIIAlphanumeric (last name))"

fun normalizePythonRunes :: "bool \<Rightarrow> rune list \<Rightarrow> string" where
  "normalizePythonRunes separator [] = (if separator then ''-'' else [])"
| "normalizePythonRunes separator (r # rs) =
     (if r = byte CHR ''-'' \<or> r = byte CHR ''_'' \<or> r = byte CHR ''.'' then normalizePythonRunes True rs
      else (if separator then ''-'' else []) @ EncodeRune r @ normalizePythonRunes False rs)"

definition normalizePythonName :: "externals \<Rightarrow> string \<Rightarrow> string" where
  "normalizePythonName E value = normalizePythonRunes False (runes (ToLower E value))"

definition normalizePyPIPackagePrefix :: "externals \<Rightarrow> string \<Rightarrow> gerror + string" where
  "normalizePyPIPackagePrefix E pfx =
     ret (isASCIIAlphanumeric (hd pfx) \<and>
       list_all (\<lambda>c. isASCIIAlphanumeric c \<or> c \<in> set ''._-'') pfx)
     (normalizePythonName E pfx)"

subsection \<open>Composer\<close>

definition isWindowsReservedName :: "externals \<Rightarrow> string \<Rightarrow> bool" where
  "isWindowsReservedName E value \<longleftrightarrow>
     (let lowered = ToLower E value;
          base = (case IndexByte lowered CHR ''.'' of None \<Rightarrow> lowered | Some dot \<Rightarrow> take dot lowered)
      in if base \<in> set [''con'', ''prn'', ''aux'', ''nul''] then True
         else if length base = 4 \<and> (HasPrefix base ''com'' \<or> HasPrefix base ''lpt'')
         then byte CHR ''1'' \<le> byte (base ! 3) \<and> byte (base ! 3) \<le> byte CHR ''9''
         else False)"

text \<open>The scan of \<open>validateComposerNamePart\<close>: letters and digits, and runs of one separator.\<close>

function composerScan :: "nat \<Rightarrow> string \<Rightarrow> bool" where
  "composerScan maxHyphenRun value =
     (if value = [] then True
      else if isASCIIAlphanumeric (hd value) then composerScan maxHyphenRun (tl value)
      else (let separator = hd value in
        if separator \<noteq> CHR ''.'' \<and> separator \<noteq> CHR ''_'' \<and> separator \<noteq> CHR ''-'' then False
        else (let run = length (takeWhile (\<lambda>c. c = separator) value);
                  rest = dropWhile (\<lambda>c. c = separator) value in
          if separator \<noteq> CHR ''-'' \<and> run > 1 \<or> separator = CHR ''-'' \<and> run > maxHyphenRun then False
          else if rest = [] \<or> \<not> isASCIIAlphanumeric (hd rest) then False
          else composerScan maxHyphenRun rest)))"
  by pat_completeness auto
termination
proof (relation "measure (\<lambda>(n, v). length v)", goal_cases)
  case (3 n v sep run rest)
  then have "length (dropWhile (\<lambda>c. c = sep) v) < length v"
    using length_dropWhile_le [of "\<lambda>c. c = sep" "tl v"] by (cases v) auto
  then show ?case using 3 by simp
qed auto

declare composerScan.simps [simp del]

definition validateComposerNamePart :: "string \<Rightarrow> nat \<Rightarrow> bool" where
  "validateComposerNamePart value maxHyphenRun \<longleftrightarrow>
     \<not> (\<not> isASCIIAlphanumeric (hd value) \<or> \<not> isASCIIAlphanumeric (last value)) \<and>
     composerScan maxHyphenRun value"

definition validateComposerPackageName :: "externals \<Rightarrow> string \<Rightarrow> bool" where
  "validateComposerPackageName E name \<longleftrightarrow>
     (case exactCoordinateParts name 2 of
        None \<Rightarrow> False
      | Some parts \<Rightarrow>
          validateComposerNamePart (parts ! 0) 1 \<and>
          validateComposerNamePart (parts ! 1) 2 \<and>
          list_all (\<lambda>part. \<not> isWindowsReservedName E part) parts \<and>
          \<not> HasSuffix (ToLower E (parts ! 1)) ''.json'')"

definition normalizeComposerPackagePrefix :: "externals \<Rightarrow> string \<Rightarrow> gerror + string" where
  "normalizeComposerPackagePrefix E pfx =
     ret (validateCompletedCoordinatePrefix pfx 2 (validateComposerPackageName E)) (ToLower E pfx)"

definition composerGlobPart :: "externals \<Rightarrow> nat \<Rightarrow> string \<Rightarrow> bool" where
  "composerGlobPart E index part \<longleftrightarrow>
     hasGlobMetacharacter part \<or>
     validateComposerNamePart part (if index = 1 then 2 else 1) \<and>
     \<not> isWindowsReservedName E part \<and>
     \<not> (index = 1 \<and> HasSuffix (ToLower E part) ''.json'')"

definition normalizeComposerPackageGlob :: "externals \<Rightarrow> string \<Rightarrow> gerror + string" where
  "normalizeComposerPackageGlob E pattern =
     (case validateStructuredPackageGlob pattern 2 ''._-'' True of
        None \<Rightarrow> Inl plain_error
      | Some parts \<Rightarrow>
          ret (list_all (\<lambda>(index, part). composerGlobPart E index part) (List.enumerate 0 parts))
            (ToLower E pattern))"

subsection \<open>Conda\<close>

definition normalizeCondaPackageName :: "externals \<Rightarrow> string \<Rightarrow> string" where
  "normalizeCondaPackageName E name =
     (case LastIndexByte name CHR ''/'' of
        None \<Rightarrow> ToLower E name
      | Some slash \<Rightarrow> take (slash + 1) name @ ToLower E (drop (slash + 1) name))"

definition validateCondaNamePart :: "string \<Rightarrow> bool" where
  "validateCondaNamePart value \<longleftrightarrow>
     \<not> (value = [] \<or> value = ''.'' \<or> value = ''..'') \<and>
     \<not> (\<not> isASCIIAlphanumeric (hd value) \<and> hd value \<noteq> CHR ''_'') \<and>
     isASCIIAlphanumeric (last value) \<and>
     list_all (\<lambda>c. isASCIIAlphanumeric c \<or> c \<in> set ''._-'') value"

abbreviation condaChannelPart :: "string \<Rightarrow> bool" where
  "condaChannelPart part \<equiv> validateSimpleASCIIName part ''._-'' False True"

definition validateCondaPackageName :: "string \<Rightarrow> bool" where
  "validateCondaPackageName name \<longleftrightarrow>
     (let parts = Split name CHR ''/'' in
      \<not> length parts < 2 \<and>
      list_all condaChannelPart (butlast parts) \<and>
      validateCondaNamePart (last parts))"

definition normalizeCondaPackagePrefix :: "externals \<Rightarrow> string \<Rightarrow> gerror + string" where
  "normalizeCondaPackagePrefix E pfx =
     (if \<not> validatePackageNameInput pfx then Inl plain_error
      else if validateCondaPackageName pfx then Inr (normalizeCondaPackageName E pfx)
      else case LastIndexByte pfx CHR ''/'' of
        None \<Rightarrow> ret (condaChannelPart (pfx @ ''x'')) pfx
      | Some slash \<Rightarrow>
          if \<not> list_all condaChannelPart (Split (take slash pfx) CHR ''/'') then Inl plain_error
          else (let packagePrefix = drop (slash + 1) pfx in
            if packagePrefix = [] then Inr pfx
            else ret (validateCondaNamePart (packagePrefix @ ''x''))
              (take (slash + 1) pfx @ ToLower E (drop (slash + 1) pfx))))"

definition normalizeCondaPackageGlob :: "externals \<Rightarrow> string \<Rightarrow> gerror + string" where
  "normalizeCondaPackageGlob E pattern =
     (if \<not> validatePackageGlobInput pattern then Inl plain_error
      else (let parts = Split pattern CHR ''/'' in
        if length parts < 2 then Inl plain_error
        else if \<not> list_all (\<lambda>part. validateGlobCharacters part ''._-'' True \<and>
            (\<not> hasGlobMetacharacter part \<longrightarrow> condaChannelPart part)) (butlast parts) then Inl plain_error
        else (let packagePattern = last parts in
          ret (validateGlobCharacters packagePattern ''._-'' True \<and>
              (\<not> hasGlobMetacharacter packagePattern \<longrightarrow> validateCondaNamePart packagePattern))
            (Join (butlast parts @ [ToLower E packagePattern]) ''/''))))"

subsection \<open>Alpine\<close>

definition validateAlpinePackageName :: "string \<Rightarrow> bool" where
  "validateAlpinePackageName name \<longleftrightarrow>
     (case exactCoordinateParts name 4 of
        None \<Rightarrow> False
      | Some parts \<Rightarrow> list_all (\<lambda>part. validateSimpleASCIIName part ''._+-'' True True) parts)"

definition normalizeAlpinePackagePrefix :: "string \<Rightarrow> gerror + string" where
  "normalizeAlpinePackagePrefix pfx =
     ret (validateCompletedCoordinatePrefix pfx 4 validateAlpinePackageName) pfx"

definition normalizeAlpinePackageGlob :: "string \<Rightarrow> gerror + string" where
  "normalizeAlpinePackageGlob pattern =
     (case validateStructuredPackageGlob pattern 4 ''._+-'' True of
        None \<Rightarrow> Inl plain_error
      | Some parts \<Rightarrow>
          ret (list_all (\<lambda>part. hasGlobMetacharacter part \<or>
            validateSimpleASCIIName part ''._+-'' True True) parts) pattern)"

subsection \<open>Hugging Face\<close>

text \<open>\<open>huggingFaceRepoIDStart\<close>; \<open>None\<close> is its error.\<close>

definition huggingFaceRepoIDStart :: "string list \<Rightarrow> bool \<Rightarrow> nat option" where
  "huggingFaceRepoIDStart parts pattern =
     (if length parts = 1 then Some 0
      else if length parts = 2 then
        (if EqualFoldASCII (parts ! 0) ''datasets'' \<and> (\<not> pattern \<or> \<not> hasGlobMetacharacter (parts ! 0))
         then Some 1 else Some 0)
      else if length parts = 3 then
        (if \<not> EqualFoldASCII (parts ! 0) ''datasets'' \<or> pattern \<and> hasGlobMetacharacter (parts ! 0)
         then None else Some 1)
      else None)"

definition validateHuggingFaceNamePart :: "string \<Rightarrow> bool" where
  "validateHuggingFaceNamePart value \<longleftrightarrow>
     \<not> (value = [] \<or> length value > 96) \<and>
     \<not> (\<not> isASCIIAlphanumeric (hd value) \<and> hd value \<noteq> CHR ''_'' \<or>
        \<not> isASCIIAlphanumeric (last value) \<and> last value \<noteq> CHR ''_'') \<and>
     \<not> (Contains value ''--'' \<or> Contains value ''..'') \<and>
     list_all (\<lambda>c. isASCIIAlphanumeric c \<or> c \<in> set ''._-'') value"

definition validateHuggingFacePackageName :: "externals \<Rightarrow> string \<Rightarrow> bool" where
  "validateHuggingFacePackageName E name \<longleftrightarrow>
     (let parts = Split name CHR ''/'' in
      case huggingFaceRepoIDStart parts False of
        None \<Rightarrow> False
      | Some start \<Rightarrow>
          \<not> length (Join (drop start parts) ''/'') > 96 \<and>
          \<not> HasSuffix (ToLower E (last parts)) ''.git'' \<and>
          list_all validateHuggingFaceNamePart (drop start parts))"

definition normalizeHuggingFacePackagePrefix :: "externals \<Rightarrow> string \<Rightarrow> gerror + string" where
  "normalizeHuggingFacePackagePrefix E pfx =
     ret (validatePackageNameInput pfx \<and>
       (validateHuggingFacePackageName E pfx \<or> validateHuggingFacePackageName E (pfx @ ''x'')))
     (ToLower E pfx)"

definition validateHuggingFaceGlobPart :: "externals \<Rightarrow> string \<Rightarrow> bool \<Rightarrow> bool" where
  "validateHuggingFaceGlobPart E part repositoryName \<longleftrightarrow>
     validateGlobCharacters part ''._-'' True \<and>
     (if \<not> hasGlobMetacharacter part then
        \<not> (repositoryName \<and> HasSuffix (ToLower E part) ''.git'') \<and> validateHuggingFaceNamePart part
      else
        \<not> (hd part = CHR ''-'' \<or> hd part = CHR ''.'' \<or> last part = CHR ''-'' \<or> last part = CHR ''.'') \<and>
        \<not> (Contains part ''--'' \<or> Contains part ''..'') \<and>
        \<not> (repositoryName \<and> HasSuffix (ToLower E part) ''.git''))"

definition normalizeHuggingFacePackageGlob :: "externals \<Rightarrow> string \<Rightarrow> gerror + string" where
  "normalizeHuggingFacePackageGlob E pattern =
     (if \<not> validatePackageGlobInput pattern then Inl plain_error
      else (let parts = Split pattern CHR ''/'' in
        case huggingFaceRepoIDStart parts True of
          None \<Rightarrow> Inl plain_error
        | Some start \<Rightarrow>
            (let repoParts = drop start parts in
             ret (\<not> length (Join repoParts ''/'') > 96 \<and>
                 list_all (\<lambda>(index, part). part \<noteq> [] \<and>
                   validateHuggingFaceGlobPart E part (index = length repoParts - 1))
                   (List.enumerate 0 repoParts))
               (ToLower E pattern))))"

subsection \<open>Docker\<close>

abbreviation dockerWord :: "char \<Rightarrow> bool" where
  "dockerWord \<equiv> isASCIILowercaseAlphanumeric"

text \<open>The separators after a word: one dot, one or two underscores, or hyphens.\<close>

definition dockerSeparatorRest :: "string \<Rightarrow> string option" where
  "dockerSeparatorRest value =
     (let separator = hd value in
      if separator = CHR ''.'' \<or> separator = CHR ''_'' then
        (if separator = CHR ''_'' \<and> tl value \<noteq> [] \<and> hd (tl value) = CHR ''_'' then Some (tl (tl value))
         else Some (tl value))
      else if separator = CHR ''-'' then Some (dropWhile (\<lambda>c. c = CHR ''-'') value)
      else None)"

lemma dockerSeparatorRest_le:
  "dockerSeparatorRest value = Some rest \<Longrightarrow> length rest \<le> length value"
  using length_dropWhile_le [of "\<lambda>c. c = CHR ''-''" "value"]
  by (auto simp: dockerSeparatorRest_def Let_def split: if_splits)

function dockerScan :: "string \<Rightarrow> bool" where
  "dockerScan value =
     (if value = [] then True
      else case dockerSeparatorRest value of
        None \<Rightarrow> False
      | Some rest \<Rightarrow>
          if rest = [] \<or> \<not> dockerWord (hd rest) then False
          else dockerScan (dropWhile dockerWord rest))"
  by pat_completeness auto
termination
proof (relation "measure length", goal_cases)
  case (2 v rest)
  then have "length (dropWhile dockerWord rest) < length rest"
    using length_dropWhile_le [of dockerWord "tl rest"] by (cases rest) auto
  then show ?case using 2 dockerSeparatorRest_le [of v rest] by simp
qed simp

declare dockerScan.simps [simp del]

definition validateDockerPathComponent :: "string \<Rightarrow> bool" where
  "validateDockerPathComponent value \<longleftrightarrow>
     \<not> (value = [] \<or> \<not> dockerWord (hd value)) \<and> dockerScan (dropWhile dockerWord value)"

definition validateDockerRemoteName :: "string \<Rightarrow> bool" where
  "validateDockerRemoteName name \<longleftrightarrow> list_all validateDockerPathComponent (Split name CHR ''/'')"

definition normalizeDockerPackagePrefix :: "string \<Rightarrow> gerror + string" where
  "normalizeDockerPackagePrefix pfx =
     ret (validatePackageNameInput pfx \<and> validateDockerRemoteName (pfx @ ''x'')) pfx"

definition normalizeDockerPackageGlob :: "string \<Rightarrow> gerror + string" where
  "normalizeDockerPackageGlob pattern =
     ret (validatePackageGlobInput pattern \<and>
       list_all (\<lambda>part. \<not> (part = [] \<or> part = ''.'' \<or> part = ''..'') \<and>
         validateGlobCharacters part ''._-'' False \<and>
         (\<not> hasGlobMetacharacter part \<longrightarrow> validateDockerPathComponent part)) (Split pattern CHR ''/''))
     pattern"

subsection \<open>NuGet\<close>

definition isNuGetPackageWord :: "char \<Rightarrow> bool" where
  "isNuGetPackageWord c \<longleftrightarrow> isASCIIAlphanumeric c \<or> c = CHR ''_''"

fun nugetScan :: "string \<Rightarrow> bool" where
  "nugetScan [] = True"
| "nugetScan (c # s) =
     (if isNuGetPackageWord c then nugetScan s
      else if c \<noteq> CHR ''.'' \<and> c \<noteq> CHR ''-'' then False
      else if s = [] \<or> \<not> isNuGetPackageWord (hd s) then False
      else nugetScan s)"

definition validateNuGetPackageName :: "string \<Rightarrow> bool" where
  "validateNuGetPackageName name \<longleftrightarrow>
     validatePackageNameInput name \<and> \<not> length name > 100 \<and>
     isNuGetPackageWord (hd name) \<and> nugetScan name"

definition normalizeNuGetPackagePrefix :: "string \<Rightarrow> gerror + string" where
  "normalizeNuGetPackagePrefix pfx =
     ret (validatePackageNameInput pfx \<and>
       (validateNuGetPackageName pfx \<or>
        \<not> length pfx \<ge> 100 \<and> validateNuGetPackageName (pfx @ ''x'')))
     (lowerASCII pfx)"

definition normalizeNuGetPackageGlob :: "string \<Rightarrow> gerror + string" where
  "normalizeNuGetPackageGlob pattern =
     ret (validatePackageGlobInput pattern \<and> \<not> length pattern > 100 \<and>
       validateGlobCharacters pattern ''_.-'' True \<and>
       (\<not> hasGlobMetacharacter pattern \<longrightarrow> validateNuGetPackageName pattern))
     (lowerASCII pattern)"

subsection \<open>CRAN\<close>

definition validateCRANPackageName :: "string \<Rightarrow> bool" where
  "validateCRANPackageName name \<longleftrightarrow>
     validatePackageNameInput name \<and>
     \<not> (length name < 2 \<or> \<not> isASCIIAlpha (hd name)) \<and>
     isASCIIAlphanumeric (last name) \<and>
     list_all (\<lambda>c. isASCIIAlphanumeric c \<or> c = CHR ''.'') name"

definition cran_NormalizePackageName :: "string \<Rightarrow> gerror + string" where
  "cran_NormalizePackageName name = ret (validateCRANPackageName name) name"

definition cran_normalizePackagePrefix :: "string \<Rightarrow> gerror + string" where
  "cran_normalizePackagePrefix pfx =
     ret (validatePackageNameInput pfx \<and>
       (validateCRANPackageName pfx \<or> validateCRANPackageName (pfx @ ''x''))) pfx"

definition cran_normalizePackageGlob :: "string \<Rightarrow> gerror + string" where
  "cran_normalizePackageGlob pattern =
     ret (validatePackageGlobInput pattern \<and> validateGlobCharacters pattern ''.'' True \<and>
       (\<not> hasGlobMetacharacter pattern \<longrightarrow> validateCRANPackageName pattern)) pattern"

subsection \<open>Maven\<close>

definition validateMavenID :: "string \<Rightarrow> bool" where
  "validateMavenID value \<longleftrightarrow>
     list_all (\<lambda>c. isASCIIAlphanumeric c \<or> c = CHR ''_'' \<or> c = CHR ''-'' \<or> c = CHR ''.'') value"

definition validateMavenPackageName :: "string \<Rightarrow> bool" where
  "validateMavenPackageName name \<longleftrightarrow>
     validatePackageNameInput name \<and>
     Count name CHR '':'' = 1 \<and>
     (let (groupID, artifactID, found) = Cut name CHR '':'' in
      \<not> (groupID = [] \<or> artifactID = []) \<and>
      list_all (\<lambda>segment. segment \<noteq> [] \<and> validateMavenID segment) (Split groupID CHR ''.'') \<and>
      validateMavenID artifactID)"

definition maven_NormalizePackageName :: "string \<Rightarrow> gerror + string" where
  "maven_NormalizePackageName name = ret (validateMavenPackageName name) name"

definition maven_normalizePackagePrefix :: "string \<Rightarrow> gerror + string" where
  "maven_normalizePackagePrefix pfx =
     (if \<not> validatePackageNameInput pfx then Inl plain_error
      else if validateMavenPackageName pfx then Inr pfx
      else if Count pfx CHR '':'' > 1 then Inl plain_error
      else ret (validateMavenPackageName
          (pfx @ ''x'' @ (if \<not> ContainsByte pfx CHR '':'' then '':x'' else []))) pfx)"

definition maven_normalizePackageGlob :: "string \<Rightarrow> gerror + string" where
  "maven_normalizePackageGlob pattern =
     (if \<not> (validatePackageGlobInput pattern \<and> validateGlobCharacters pattern ''_.-:'' True \<and>
            \<not> Count pattern CHR '':'' > 1) then Inl plain_error
      else if \<not> hasGlobMetacharacter pattern then maven_NormalizePackageName pattern
      else Inr pattern)"

subsection \<open>Debian\<close>

definition debian_NormalizePackageName :: "string \<Rightarrow> gerror + string" where
  "debian_NormalizePackageName name =
     ret (validatePackageNameInput name \<and>
       \<not> (length name < 2 \<or> \<not> isASCIILowercaseAlphanumeric (hd name)) \<and>
       list_all (\<lambda>c. isASCIILowercaseAlphanumeric c \<or> c = CHR ''+'' \<or> c = CHR ''-'' \<or> c = CHR ''.'') name)
     name"

subsection \<open>Go modules\<close>

text \<open>\<open>module.CheckPath\<close> of \<open>golang.org/x/mod\<close> is the parameter \<open>module_CheckPath\<close>.\<close>

definition ValidatePath :: "externals \<Rightarrow> string \<Rightarrow> bool" where
  "ValidatePath E v \<longleftrightarrow> module_CheckPath E v"

definition ValidatePrefix :: "externals \<Rightarrow> string \<Rightarrow> bool" where
  "ValidatePrefix E pfx \<longleftrightarrow> ValidatePath E pfx \<or> ValidatePath E (pfx @ ''x'')"

definition isModulePathByte :: "char \<Rightarrow> bool" where
  "isModulePathByte c \<longleftrightarrow>
     byte CHR ''a'' \<le> byte c \<and> byte c \<le> byte CHR ''z'' \<or>
     byte CHR ''A'' \<le> byte c \<and> byte c \<le> byte CHR ''Z'' \<or>
     byte CHR ''0'' \<le> byte c \<and> byte c \<le> byte CHR ''9'' \<or> c \<in> set ''-._~''"

text \<open>
  \<open>closingBracket\<close> on the text after the opening bracket: how many characters precede the
  closing one; \<open>None\<close> where there is none.
\<close>

fun closingBracket :: "string \<Rightarrow> nat option" where
  "closingBracket [] = None"
| "closingBracket (c # s) =
     (if c = CHR 0x5C then
        (case s of [] \<Rightarrow> None | d # t \<Rightarrow> map_option (\<lambda>n. n + 2) (closingBracket t))
      else if c = CHR '']'' then Some 0
      else map_option Suc (closingBracket s))"

definition classCandidates :: string where
  "classCandidates = ''abcdefghijklmnopqrstuvwxyz23456789ABCDEFGHIJKLMNOPQRSTUVWXYZ_-~.01''"

definition classWitness :: "string \<Rightarrow> char option" where
  "classWitness cls = List.find (\<lambda>candidate. path_Match cls [candidate] = Inr True) classCandidates"

lemma closingBracket_bound: "closingBracket s = Some n \<Longrightarrow> n < length s"
  by (induction s arbitrary: n rule: closingBracket.induct) (auto split: if_splits list.splits)

function globWitness :: "string \<Rightarrow> gerror + string" where
  "globWitness pattern =
     (if pattern = [] then Inr []
      else (let c = hd pattern; rest = tl pattern in
        if c = CHR ''*'' \<or> c = CHR 0x3F then bind_err (globWitness rest) (\<lambda>w. Inr (CHR ''x'' # w))
        else if c = CHR ''['' then
          (case closingBracket rest of
             None \<Rightarrow> Inl plain_error
           | Some n \<Rightarrow>
               (case classWitness (c # take (n + 1) rest) of
                  None \<Rightarrow> Inl plain_error
                | Some candidate \<Rightarrow> bind_err (globWitness (drop (n + 1) rest)) (\<lambda>w. Inr (candidate # w))))
        else if c = CHR 0x5C then
          (if rest = [] then Inl plain_error
           else if \<not> isModulePathByte (hd rest) then Inl plain_error
           else bind_err (globWitness (tl rest)) (\<lambda>w. Inr (hd rest # w)))
        else if \<not> isModulePathByte c \<and> c \<noteq> CHR ''/'' then Inl plain_error
        else bind_err (globWitness rest) (\<lambda>w. Inr (c # w))))"
  by pat_completeness auto
termination
  by (relation "measure length") (auto simp: neq_Nil_conv)

declare globWitness.simps [simp del]

definition ValidateGlob :: "externals \<Rightarrow> string \<Rightarrow> bool" where
  "ValidateGlob E pattern \<longleftrightarrow>
     is_Inr (path_Match pattern []) \<and>
     \<not> (pattern = [] \<or> HasPrefix pattern ''/'' \<or> HasSuffix pattern ''/'' \<or> Contains pattern ''//'') \<and>
     (case globWitness pattern of
        Inl _ \<Rightarrow> False
      | Inr witness \<Rightarrow> ValidatePath E witness \<and> path_Match pattern witness = Inr True)"

definition normalizeGoModulePrefix :: "externals \<Rightarrow> string \<Rightarrow> gerror + string" where
  "normalizeGoModulePrefix E pfx = ret (validatePackageNameInput pfx \<and> ValidatePrefix E pfx) pfx"

definition normalizeGoModuleGlob :: "externals \<Rightarrow> string \<Rightarrow> gerror + string" where
  "normalizeGoModuleGlob E pattern = ret (validatePackageGlobInput pattern \<and> ValidateGlob E pattern) pattern"

end
