(* ===== verification/Dialects.thy ===== *)
theory Dialects
  imports Semver Debian Cran Nuget Pep440 Maven Package_Names
begin

text \<open>
  \<open>internal/packagepolicy/dialect.go\<close> and \<open>capability.go\<close>: the dialect registry of
  revision 1 and the operations of the interface \<open>PackagePolicyDialect\<close>, dispatched on the
  dynamic type of the dialect. A dialect is a value of the datatype \<open>dialect\<close>, with the
  function fields the registry fills in. The laws of the version contract are collected here
  for every dialect of the registry.
\<close>

record semverConfig =
  sd_coreMax :: string
  sd_normalizeName :: "string \<Rightarrow> string"
  sd_validateName :: "(string \<Rightarrow> bool) option"
  sd_normalizePrefix :: "(string \<Rightarrow> gerror + string) option"
  sd_normalizeGlob :: "(string \<Rightarrow> gerror + string) option"

record exactConfig =
  ed_normalizeName :: "string \<Rightarrow> string"
  ed_validateName :: "(string \<Rightarrow> bool) option"
  ed_normalizePrefix :: "(string \<Rightarrow> gerror + string) option"
  ed_normalizeGlob :: "(string \<Rightarrow> gerror + string) option"

datatype dialect =
    semverDialect semverConfig
  | pep440Dialect
  | mavenDialect
  | debianDialect
  | nugetDialect exactConfig
  | exactDialect exactConfig
  | cranDialect

definition identity :: "string \<Rightarrow> string" where
  "identity v = v"

definition npmDialect :: "externals \<Rightarrow> dialect" where
  "npmDialect E = semverDialect \<lparr>
     sd_coreMax = ''9007199254740991'', sd_normalizeName = identity,
     sd_validateName = Some (validateNPMPackageName E),
     sd_normalizePrefix = Some (normalizeNPMPackagePrefix E),
     sd_normalizeGlob = Some (normalizeNPMPackageGlob E)\<rparr>"

definition cargoDialect :: "externals \<Rightarrow> dialect" where
  "cargoDialect E = semverDialect \<lparr>
     sd_coreMax = ''18446744073709551615'', sd_normalizeName = identity,
     sd_validateName = Some (validateCargoPackageName E),
     sd_normalizePrefix = None,
     sd_normalizeGlob = Some (normalizeCargoPackageGlob E)\<rparr>"

definition dialectForRevision1 :: "externals \<Rightarrow> string \<Rightarrow> gerror + dialect" where
  "dialectForRevision1 E ecosystem =
     (let name = ToLower E (TrimSpace ecosystem) in
      if name = ''npm'' then Inr (npmDialect E)
      else if name = ''cargo'' then Inr (cargoDialect E)
      else if name = ''pypi'' then Inr pep440Dialect
      else if name = ''maven'' then Inr mavenDialect
      else if name = ''apt'' then Inr debianDialect
      else if name = ''nuget'' then Inr (nugetDialect \<lparr>
        ed_normalizeName = lowerASCII, ed_validateName = Some validateNuGetPackageName,
        ed_normalizePrefix = Some normalizeNuGetPackagePrefix,
        ed_normalizeGlob = Some normalizeNuGetPackageGlob\<rparr>)
      else if name = ''composer'' then Inr (exactDialect \<lparr>
        ed_normalizeName = ToLower E, ed_validateName = Some (validateComposerPackageName E),
        ed_normalizePrefix = Some (normalizeComposerPackagePrefix E),
        ed_normalizeGlob = Some (normalizeComposerPackageGlob E)\<rparr>)
      else if name = ''conda'' then Inr (exactDialect \<lparr>
        ed_normalizeName = normalizeCondaPackageName E, ed_validateName = Some validateCondaPackageName,
        ed_normalizePrefix = Some (normalizeCondaPackagePrefix E),
        ed_normalizeGlob = Some (normalizeCondaPackageGlob E)\<rparr>)
      else if name = ''alpine'' then Inr (exactDialect \<lparr>
        ed_normalizeName = identity, ed_validateName = Some validateAlpinePackageName,
        ed_normalizePrefix = Some normalizeAlpinePackagePrefix,
        ed_normalizeGlob = Some normalizeAlpinePackageGlob\<rparr>)
      else if name = ''huggingface'' then Inr (exactDialect \<lparr>
        ed_normalizeName = ToLower E, ed_validateName = Some (validateHuggingFacePackageName E),
        ed_normalizePrefix = Some (normalizeHuggingFacePackagePrefix E),
        ed_normalizeGlob = Some (normalizeHuggingFacePackageGlob E)\<rparr>)
      else if name = ''docker'' then Inr (exactDialect \<lparr>
        ed_normalizeName = identity, ed_validateName = Some validateDockerRemoteName,
        ed_normalizePrefix = Some normalizeDockerPackagePrefix,
        ed_normalizeGlob = Some normalizeDockerPackageGlob\<rparr>)
      else if name = ''go'' then Inr (exactDialect \<lparr>
        ed_normalizeName = identity, ed_validateName = Some (ValidatePath E),
        ed_normalizePrefix = Some (normalizeGoModulePrefix E),
        ed_normalizeGlob = Some (normalizeGoModuleGlob E)\<rparr>)
      else if name = ''cran'' then Inr cranDialect
      else if name = ''rubygems'' \<or> name = ''helm'' then Inr (exactDialect \<lparr>
        ed_normalizeName = identity, ed_validateName = None,
        ed_normalizePrefix = None, ed_normalizeGlob = None\<rparr>)
      else Inl plain_error)"

definition DialectFor :: "externals \<Rightarrow> string \<Rightarrow> gerror + dialect" where
  "DialectFor E ecosystem = dialectForRevision1 E ecosystem"

subsection \<open>Package names\<close>

definition semver_NormalizePackageName :: "semverConfig \<Rightarrow> string \<Rightarrow> gerror + string" where
  "semver_NormalizePackageName d name =
     ret (validatePackageNameInput name \<and>
       (case sd_validateName d of None \<Rightarrow> True | Some validate \<Rightarrow> validate name))
     (sd_normalizeName d name)"

definition exact_NormalizePackageName :: "exactConfig \<Rightarrow> string \<Rightarrow> gerror + string" where
  "exact_NormalizePackageName d name =
     ret (validatePackageNameInput name \<and>
       (case ed_validateName d of None \<Rightarrow> True | Some validate \<Rightarrow> validate name))
     (ed_normalizeName d name)"

definition pep440_NormalizePackageName :: "externals \<Rightarrow> string \<Rightarrow> gerror + string" where
  "pep440_NormalizePackageName E name = ret (validatePyPIPackageName name) (normalizePythonName E name)"

fun NormalizePackageName :: "externals \<Rightarrow> dialect \<Rightarrow> string \<Rightarrow> gerror + string" where
  "NormalizePackageName E (semverDialect d) name = semver_NormalizePackageName d name"
| "NormalizePackageName E pep440Dialect name = pep440_NormalizePackageName E name"
| "NormalizePackageName E mavenDialect name = maven_NormalizePackageName name"
| "NormalizePackageName E debianDialect name = debian_NormalizePackageName name"
| "NormalizePackageName E (nugetDialect d) name = exact_NormalizePackageName d name"
| "NormalizePackageName E (exactDialect d) name = exact_NormalizePackageName d name"
| "NormalizePackageName E cranDialect name = cran_NormalizePackageName name"

definition semver_normalizePackagePrefix :: "semverConfig \<Rightarrow> string \<Rightarrow> gerror + string" where
  "semver_normalizePackagePrefix d pfx =
     (case sd_normalizePrefix d of Some f \<Rightarrow> f pfx | None \<Rightarrow> semver_NormalizePackageName d pfx)"

definition exact_normalizePackagePrefix :: "exactConfig \<Rightarrow> string \<Rightarrow> gerror + string" where
  "exact_normalizePackagePrefix d pfx =
     (case ed_normalizePrefix d of Some f \<Rightarrow> f pfx | None \<Rightarrow> exact_NormalizePackageName d pfx)"

definition semver_normalizePackageGlob :: "semverConfig \<Rightarrow> string \<Rightarrow> gerror + string" where
  "semver_normalizePackageGlob d pattern =
     (case sd_normalizeGlob d of Some f \<Rightarrow> f pattern
      | None \<Rightarrow> ret (validatePackageGlobInput pattern) (sd_normalizeName d pattern))"

definition exact_normalizePackageGlob :: "exactConfig \<Rightarrow> string \<Rightarrow> gerror + string" where
  "exact_normalizePackageGlob d pattern =
     (case ed_normalizeGlob d of Some f \<Rightarrow> f pattern
      | None \<Rightarrow> ret (validatePackageGlobInput pattern) (ed_normalizeName d pattern))"

definition normalizePackagePrefixWithFiller :: "externals \<Rightarrow> dialect \<Rightarrow> string \<Rightarrow> gerror + string" where
  "normalizePackagePrefixWithFiller E d pfx =
     (case NormalizePackageName E d pfx of
        Inr normalized \<Rightarrow> Inr normalized
      | Inl _ \<Rightarrow>
          bind_err (NormalizePackageName E d (pfx @ ''x'')) (\<lambda>normalized.
            if \<not> HasSuffix normalized ''x'' then Inl plain_error
            else Inr (TrimSuffix normalized ''x'')))"

text \<open>\<open>normalizeDialectPackagePrefix\<close>: the two special types first, then the interface assertion.\<close>

definition normalizeDialectPackagePrefix :: "externals \<Rightarrow> dialect \<Rightarrow> string \<Rightarrow> gerror + string" where
  "normalizeDialectPackagePrefix E d pfx =
     (if \<not> validatePackageNameInput pfx then Inl plain_error
      else case d of
        pep440Dialect \<Rightarrow> normalizePyPIPackagePrefix E pfx
      | debianDialect \<Rightarrow> normalizePackagePrefixWithFiller E d pfx
      | semverDialect c \<Rightarrow> semver_normalizePackagePrefix c pfx
      | exactDialect c \<Rightarrow> exact_normalizePackagePrefix c pfx
      | nugetDialect c \<Rightarrow> exact_normalizePackagePrefix c pfx
      | mavenDialect \<Rightarrow> maven_normalizePackagePrefix pfx
      | cranDialect \<Rightarrow> cran_normalizePackagePrefix pfx)"

definition NormalizePackageGlob :: "externals \<Rightarrow> dialect \<Rightarrow> string \<Rightarrow> gerror + string" where
  "NormalizePackageGlob E d pattern =
     (case d of
        semverDialect c \<Rightarrow> semver_normalizePackageGlob c pattern
      | exactDialect c \<Rightarrow> exact_normalizePackageGlob c pattern
      | nugetDialect c \<Rightarrow> exact_normalizePackageGlob c pattern
      | mavenDialect \<Rightarrow> maven_normalizePackageGlob pattern
      | cranDialect \<Rightarrow> cran_normalizePackageGlob pattern
      | pep440Dialect \<Rightarrow>
          ret (validatePackageGlobInput pattern \<and> validateGlobCharacters pattern ''._-'' True)
            (normalizePythonName E pattern)
      | debianDialect \<Rightarrow>
          if \<not> validatePackageGlobInput pattern then Inl plain_error
          else debian_NormalizePackageName pattern)"

subsection \<open>Versions\<close>

definition exact_ValidateVersion :: "string \<Rightarrow> gerror option" where
  "exact_ValidateVersion version =
     (if version = [] \<or> TrimSpace version \<noteq> version \<or> ContainsFunc version IsControl \<or>
         ContainsFunc version IsSpace then Some plain_error else None)"

definition exact_CompareVersions :: "string \<Rightarrow> string \<Rightarrow> gerror + int" where
  "exact_CompareVersions a b =
     (case exact_ValidateVersion a of
        Some e \<Rightarrow> Inl e
      | None \<Rightarrow> (case exact_ValidateVersion b of Some e \<Rightarrow> Inl e | None \<Rightarrow> Inr (Compare a b)))"

definition exact_canonicalVersion :: "string \<Rightarrow> gerror + string" where
  "exact_canonicalVersion v =
     (case exact_ValidateVersion v of Some e \<Rightarrow> Inl e | None \<Rightarrow> Inr v)"

fun CompareVersions :: "externals \<Rightarrow> dialect \<Rightarrow> string \<Rightarrow> string \<Rightarrow> gerror + int" where
  "CompareVersions E (semverDialect d) a b = semver_CompareVersions (sd_coreMax d) a b"
| "CompareVersions E pep440Dialect a b = pep440_CompareVersions a b"
| "CompareVersions E mavenDialect a b = maven_CompareVersions E a b"
| "CompareVersions E debianDialect a b = debian_CompareVersions a b"
| "CompareVersions E (nugetDialect d) a b = nuget_CompareVersions a b"
| "CompareVersions E (exactDialect d) a b = exact_CompareVersions a b"
| "CompareVersions E cranDialect a b = cran_CompareVersions a b"

fun SupportsRanges :: "dialect \<Rightarrow> bool" where
  "SupportsRanges (semverDialect d) = True"
| "SupportsRanges pep440Dialect = True"
| "SupportsRanges mavenDialect = False"
| "SupportsRanges debianDialect = True"
| "SupportsRanges (nugetDialect d) = False"
| "SupportsRanges (exactDialect d) = False"
| "SupportsRanges cranDialect = False"

text \<open>Every dialect implements \<open>versionCanonicalizer\<close>.\<close>

fun canonicalVersion :: "externals \<Rightarrow> dialect \<Rightarrow> string \<Rightarrow> gerror + string" where
  "canonicalVersion E (semverDialect d) v = semver_canonicalVersion (sd_coreMax d) v"
| "canonicalVersion E pep440Dialect v = pep440_canonicalVersion v"
| "canonicalVersion E mavenDialect v = maven_canonicalVersion E v"
| "canonicalVersion E debianDialect v = debian_canonicalVersion v"
| "canonicalVersion E (nugetDialect d) v = nuget_canonicalVersion v"
| "canonicalVersion E (exactDialect d) v = exact_canonicalVersion v"
| "canonicalVersion E cranDialect v = cran_canonicalVersion v"

text \<open>\<open>ValidateVersion\<close> of each dialect is the error of its parser.\<close>

definition ValidateVersion :: "externals \<Rightarrow> dialect \<Rightarrow> string \<Rightarrow> gerror option" where
  "ValidateVersion E d version =
     (case d of
        semverDialect c \<Rightarrow> semver_ValidateVersion (sd_coreMax c) version
      | pep440Dialect \<Rightarrow> (case parsePEP440Version version of Inl e \<Rightarrow> Some e | Inr _ \<Rightarrow> None)
      | mavenDialect \<Rightarrow> maven_ValidateVersion E version
      | debianDialect \<Rightarrow> (case parseDebianVersion version of Inl e \<Rightarrow> Some e | Inr _ \<Rightarrow> None)
      | nugetDialect _ \<Rightarrow> (case parseNuGetVersion version of Inl e \<Rightarrow> Some e | Inr _ \<Rightarrow> None)
      | exactDialect _ \<Rightarrow> exact_ValidateVersion version
      | cranDialect \<Rightarrow> (case parseCRANVersion version of Inl e \<Rightarrow> Some e | Inr _ \<Rightarrow> None))"

definition validateRangeTarget :: "dialect \<Rightarrow> string \<Rightarrow> gerror option" where
  "validateRangeTarget d target =
     (case d of pep440Dialect \<Rightarrow> pep440_validateRangeTarget target | _ \<Rightarrow> None)"

subsection \<open>Version capabilities\<close>

datatype PolicyVersionCapability =
  PolicyVersionsPackageOnly | PolicyVersionsExactOnly | PolicyVersionsRanges

definition versionCapabilityForRevision1 :: "externals \<Rightarrow> string \<Rightarrow> gerror + PolicyVersionCapability" where
  "versionCapabilityForRevision1 E ecosystem =
     (let normalized = ToLower E (TrimSpace ecosystem) in
      if normalized \<in> set [''apt'', ''composer'', ''rubygems''] then Inr PolicyVersionsPackageOnly
      else if normalized \<in> set [''cargo'', ''npm'', ''pypi''] then Inr PolicyVersionsRanges
      else if normalized \<in> set [''maven'', ''go'', ''nuget'', ''conda'', ''cran'', ''alpine'',
        ''huggingface'', ''docker'', ''helm''] then Inr PolicyVersionsExactOnly
      else bind_err (dialectForRevision1 E normalized) (\<lambda>_. Inr PolicyVersionsPackageOnly))"

definition NormalizeVersion :: "externals \<Rightarrow> string \<Rightarrow> string \<Rightarrow> gerror + string" where
  "NormalizeVersion E ecosystem v =
     bind_err (DialectFor E (ToLower E (TrimSpace ecosystem))) (\<lambda>dialect. canonicalVersion E dialect v)"

subsection \<open>The version contract of every dialect\<close>

text \<open>The exact dialect compares validated strings byte by byte.\<close>

definition exactParse :: "string \<Rightarrow> gerror + string" where
  "exactParse v = (case exact_ValidateVersion v of Some e \<Rightarrow> Inl e | None \<Rightarrow> Inr v)"

interpretation exact: version_order Compare exactParse identity
proof (intro version_order.intro version_identity.intro version_identity_axioms.intro)
  show "three_way Compare" by (rule Compare_three_way)
  then show "symmetric_cmp Compare" by (rule three_way.axioms(1))
qed (auto simp: exactParse_def identity_def split: option.splits)

lemma exact_canonical_of: "exact_canonicalVersion = canonical_of exactParse identity"
  by (intro ext) (simp add: exact_canonicalVersion_def canonical_of_def exactParse_def identity_def split: option.split)

lemma exact_compare_of: "exact_CompareVersions = compare_of exactParse Compare"
  by (intro ext) (simp add: exact_CompareVersions_def compare_of_def exactParse_def split: option.split)

lemmas dialect_canonical_of = semver_canonical_of pep440_canonical_of debian_canonical_of
  nuget_canonical_of exact_canonical_of cran_canonical_of

lemmas dialect_compare_of = semver_compare_of pep440_compare_of maven_compare_of debian_compare_of
  nuget_compare_of exact_compare_of cran_compare_of

lemma maven_canonical_law:
  assumes "lower_english_ok E" and "maven_canonicalVersion E v = Inr c"
  shows "maven_canonicalVersion E c = Inr c \<and> maven_CompareVersions E v c = Inr 0"
proof -
  obtain p where p: "parseMavenVersion E v = Inr p" "c = lowerMavenVersion E v"
    using assms(2) by (auto simp: maven_canonicalVersion_def)
  note c = parseMavenVersion_canonical [OF assms(1) p(1)]
  have "lowerMavenVersion E c = c"
    using assms(1) by (simp add: p(2) lowerMavenVersion_def lower_english_ok_def)
  then show ?thesis using c p by (simp add: maven_canonicalVersion_def maven_CompareVersions_def)
qed

lemma canonicalVersion_law:
  assumes "lower_english_ok E" and "canonicalVersion E d v = Inr c"
  shows "canonicalVersion E d c = Inr c \<and> CompareVersions E d v c = Inr 0"
proof (cases d)
  case mavenDialect
  then show ?thesis using assms maven_canonical_law by simp
qed (use assms(2) in \<open>auto simp: dialect_canonical_of dialect_compare_of
  intro: semver.canonical_fixpoint semver.canonical_equal pep440.canonical_fixpoint pep440.canonical_equal
    debian.canonical_fixpoint debian.canonical_equal nuget.canonical_fixpoint nuget.canonical_equal
    exact.canonical_fixpoint exact.canonical_equal cran.canonical_fixpoint cran.canonical_equal\<close>)

lemma maven_compare_swap: "compare_of parse maven_compare a b = Inr c \<Longrightarrow> compare_of parse maven_compare b a = Inr (- c)"
  unfolding compare_of_Inr by (metis maven.antisym)

lemma CompareVersions_swap:
  assumes "CompareVersions E d a b = Inr x"
  shows "CompareVersions E d b a = Inr (- x)"
  using assms
  by (cases d) (auto simp: dialect_compare_of intro: semver.compare_swap pep440.compare_swap
      debian.compare_swap nuget.compare_swap exact.compare_swap cran.compare_swap maven_compare_swap)

lemma CompareVersions_trans:
  assumes "SupportsRanges d" and "CompareVersions E d a b = Inr x" and "x \<le> 0"
    and "CompareVersions E d b c = Inr y" and "y \<le> 0"
  shows "\<exists>z. CompareVersions E d a c = Inr z \<and> z \<le> 0"
  using assms
  by (cases d) (simp_all add: dialect_compare_of semver.compare_transitive pep440.compare_transitive
      debian.compare_transitive)

text \<open>A comparison has a result exactly for two accepted versions.\<close>

lemma CompareVersions_total:
  "is_Inr (CompareVersions E d a b) \<longleftrightarrow> ValidateVersion E d a = None \<and> ValidateVersion E d b = None"
  by (cases d)
     (auto simp: dialect_compare_of compare_of_def ValidateVersion_def semver_ValidateVersion_def
       maven_ValidateVersion_def exactParse_def is_Inr_iff split: sum.splits option.splits)

lemma canonicalVersion_valid: "is_Inr (canonicalVersion E d v) \<longleftrightarrow> ValidateVersion E d v = None"
  by (cases d)
     (auto simp: dialect_canonical_of canonical_of_def ValidateVersion_def semver_ValidateVersion_def
       maven_ValidateVersion_def maven_canonicalVersion_def exactParse_def is_Inr_iff
       split: sum.splits option.splits)

subsection \<open>Properties\<close>

text \<open>
  C32: Every dialect that supports ranges orders its versions by a total preorder: a
  comparison has a result exactly for two accepted versions, swapping the arguments negates
  it, and it is transitive. So every ordered selector denotes an interval.
\<close>

theorem range_dialects_total_preorder:
  assumes "SupportsRanges d"
  shows "(is_Inr (CompareVersions E d a b) \<longleftrightarrow>
      ValidateVersion E d a = None \<and> ValidateVersion E d b = None) \<and>
    (\<forall>x. CompareVersions E d a b = Inr x \<longrightarrow> CompareVersions E d b a = Inr (- x)) \<and>
    (\<forall>x y. CompareVersions E d a b = Inr x \<and> x \<le> 0 \<and> CompareVersions E d b c = Inr y \<and> y \<le> 0 \<longrightarrow>
      (\<exists>z. CompareVersions E d a c = Inr z \<and> z \<le> 0))"
  using CompareVersions_total CompareVersions_swap CompareVersions_trans [OF assms] by blast

theorem range_dialects_total_preorder_witness:
  "\<exists>z. CompareVersions ascii_externals pep440Dialect ''1.0.dev1'' ''1.0.post1'' = Inr z \<and> z \<le> 0"
proof -
  have "CompareVersions ascii_externals pep440Dialect ''1.0.dev1'' ''1.0'' = Inr (-1)"
    "CompareVersions ascii_externals pep440Dialect ''1.0'' ''1.0.post1'' = Inr (-1)"
    by code_simp+
  then show ?thesis
    using range_dialects_total_preorder [of pep440Dialect ascii_externals "''1.0.dev1''" "''1.0''" "''1.0.post1''"]
    by auto
qed

text \<open>
  In every dialect the canonical version is the identity a rule stores: it is accepted
  again, is its own canonical form, and compares equal to the version it came from. For Maven
  this rests on the documented behaviour of the lower-casing it calls.
\<close>

theorem canonical_version_identity:
  assumes "lower_english_ok E" and "canonicalVersion E d v = Inr c"
  shows "canonicalVersion E d c = Inr c \<and> ValidateVersion E d c = None \<and> CompareVersions E d v c = Inr 0"
  using canonicalVersion_law [OF assms] canonicalVersion_valid [of E d c] by (simp add: is_Inr_iff)

theorem canonical_version_identity_witness:
  "CompareVersions ascii_externals debianDialect ''0:1.0-1'' ''1.0-1'' = Inr 0"
proof -
  have "canonicalVersion ascii_externals debianDialect ''0:1.0-1'' = Inr ''1.0-1''" by code_simp
  from canonical_version_identity [OF ascii_externals_ok(1) this] show ?thesis by blast
qed

end
