(* ===== verification/Rule.thy ===== *)
theory Rule
  imports Dialects
begin

text \<open>
  \<open>internal/packagepolicy/rule.go\<close>, \<open>action.go\<close>: how an operator's rule becomes a
  prepared rule. Preparation keeps the trimmed display values and adds the normalised
  selectors that the engine evaluates. The main fact is that normalising a version selector
  is idempotent, so that what is stored compiles again to the same selector.
\<close>

definition DialectRevision1 :: nat where
  "DialectRevision1 = 1"

definition CurrentDialectRevision :: nat where
  "CurrentDialectRevision = DialectRevision1"

definition maxEcosystemLength :: nat where "maxEcosystemLength = 16"
definition maxPackageLength :: nat where "maxPackageLength = 256"
definition maxVersionLength :: nat where "maxVersionLength = 128"

record RawRule =
  raw_Ecosystem :: string
  raw_PackageName :: string
  raw_Version :: string

record PreparedRule =
  pr_Ecosystem :: string
  pr_PackageName :: string
  pr_Version :: string
  pr_NormalizedPackageName :: string
  pr_NormalizedVersion :: string
  pr_DialectRevision :: nat

definition NormalizeRuleAction :: "externals \<Rightarrow> string \<Rightarrow> gerror + string" where
  "NormalizeRuleAction E action =
     (let normalized = ToLower E (TrimSpace action) in
      if normalized \<noteq> ''allow'' \<and> normalized \<noteq> ''deny'' then Inl [ErrInvalidRule]
      else Inr normalized)"

definition containsControl :: "string \<Rightarrow> bool" where
  "containsControl v \<longleftrightarrow> ContainsFunc v IsControl"

definition validateRawRuleBounds :: "PreparedRule \<Rightarrow> gerror option" where
  "validateRawRuleBounds rule =
     (if pr_Ecosystem rule = [] \<or> length (pr_Ecosystem rule) > maxEcosystemLength \<or>
         containsControl (pr_Ecosystem rule) then Some [ErrInvalidRule]
      else if pr_PackageName rule = [] \<or> length (pr_PackageName rule) > maxPackageLength \<or>
         containsControl (pr_PackageName rule) then Some [ErrInvalidRule]
      else if pr_Version rule = [] \<or> length (pr_Version rule) > maxVersionLength \<or>
         containsControl (pr_Version rule) then Some [ErrInvalidRule]
      else None)"

definition ruleEnforcementRevision1 :: "string \<Rightarrow> bool" where
  "ruleEnforcementRevision1 name \<longleftrightarrow>
     name \<in> set [''pypi'', ''apt'', ''npm'', ''go'', ''cargo'', ''maven'', ''composer'', ''nuget'',
       ''conda'', ''cran'', ''alpine'']"

definition normalizePackageSelector :: "externals \<Rightarrow> dialect \<Rightarrow> string \<Rightarrow> gerror + string" where
  "normalizePackageSelector E dialect selector =
     (if selector = ''*'' then Inr selector
      else if Count selector CHR ''*'' > 1 \<or> ContainsByte selector CHR ''*'' \<and> \<not> HasSuffix selector ''*''
      then Inl plain_error
      else (let isPrefix = HasSuffix selector ''*''; name = TrimSuffix selector ''*'' in
        if name = [] then Inl plain_error
        else bind_err
          (if isPrefix then normalizeDialectPackagePrefix E dialect name
           else NormalizePackageName E dialect name)
          (\<lambda>normalized.
            if length normalized > maxPackageLength then Inl plain_error
            else if isPrefix then
              (if length normalized = maxPackageLength then Inl plain_error else Inr (normalized @ ''*''))
            else Inr normalized)))"

definition comparisonOperators :: "string list" where
  "comparisonOperators = [''<='', ''>='', ''<'', ''>'']"

definition splitComparison :: "string \<Rightarrow> string \<times> string" where
  "splitComparison v =
     (case List.find (\<lambda>operator. HasPrefix v operator) comparisonOperators of
        Some operator \<Rightarrow> (operator, TrimSpace (drop (length operator) v))
      | None \<Rightarrow> ([], v))"

definition normalizeVersionSelector :: "externals \<Rightarrow> dialect \<Rightarrow> string \<Rightarrow> gerror + string" where
  "normalizeVersionSelector E dialect selector =
     (if selector = ''*'' then Inr selector
      else if ContainsByte selector CHR ''*'' then Inl [ErrInvalidRule]
      else (let (operator, target) = splitComparison selector in
        if operator = [] then
          (if HasPrefix selector ''='' \<or> HasPrefix selector ''!'' \<or> HasPrefix selector ''~'' \<or>
              ContainsAny selector ''<>'' \<or> ContainsFunc selector IsSpace then Inl [ErrInvalidRule]
           else (case canonicalVersion E dialect selector of
              Inl _ \<Rightarrow> Inl [ErrInvalidRule]
            | Inr canonical \<Rightarrow> Inr canonical))
        else if \<not> SupportsRanges dialect then Inl [ErrInvalidRule, ErrRangesUnsupported]
        else if target = [] then Inl [ErrInvalidRule]
        else if ContainsAny target ''<>'' \<or> ContainsFunc target IsSpace then Inl [ErrInvalidRule]
        else if validateRangeTarget dialect target \<noteq> None then Inl [ErrInvalidRule]
        else (case canonicalVersion E dialect target of
            Inl _ \<Rightarrow> Inl [ErrInvalidRule]
          | Inr canonical \<Rightarrow> Inr (operator @ '' '' @ canonical))))"

definition prepared_display :: "externals \<Rightarrow> RawRule \<Rightarrow> PreparedRule" where
  "prepared_display E raw =
     \<lparr>pr_Ecosystem = ToLower E (TrimSpace (raw_Ecosystem raw)),
      pr_PackageName = TrimSpace (raw_PackageName raw),
      pr_Version = (let version = TrimSpace (raw_Version raw) in if version = [] then ''*'' else version),
      pr_NormalizedPackageName = [], pr_NormalizedVersion = [],
      pr_DialectRevision = DialectRevision1\<rparr>"

definition PrepareRuleRevision1 :: "externals \<Rightarrow> RawRule \<Rightarrow> gerror + PreparedRule" where
  "PrepareRuleRevision1 E raw =
     (let prepared = prepared_display E raw in
      case validateRawRuleBounds prepared of
        Some e \<Rightarrow> Inl e
      | None \<Rightarrow>
          if pr_Ecosystem prepared = ''*'' then
            (if pr_PackageName prepared \<noteq> ''*'' \<or> pr_Version prepared \<noteq> ''*'' then Inl [ErrInvalidRule]
             else Inr (prepared\<lparr>pr_NormalizedPackageName := ''*'', pr_NormalizedVersion := ''*''\<rparr>))
          else if \<not> ruleEnforcementRevision1 (pr_Ecosystem prepared) then Inl [ErrInvalidRule]
          else (case dialectForRevision1 E (pr_Ecosystem prepared) of
            Inl _ \<Rightarrow> Inl [ErrInvalidRule]
          | Inr dialect \<Rightarrow>
              (case normalizePackageSelector E dialect (pr_PackageName prepared) of
                 Inl _ \<Rightarrow> Inl [ErrInvalidRule]
               | Inr normalizedPackage \<Rightarrow>
                   (case versionCapabilityForRevision1 E (pr_Ecosystem prepared) of
                      Inl _ \<Rightarrow> Inl [ErrInvalidRule]
                    | Inr capability \<Rightarrow>
                        if capability = PolicyVersionsPackageOnly \<and> pr_Version prepared \<noteq> ''*''
                        then Inl [ErrInvalidRule, ErrVersionSelectorsUnsupported]
                        else bind_err (normalizeVersionSelector E dialect (pr_Version prepared))
                          (\<lambda>normalizedVersion. Inr (prepared\<lparr>
                             pr_NormalizedPackageName := normalizedPackage,
                             pr_NormalizedVersion := normalizedVersion\<rparr>))))))"

definition PrepareRule :: "externals \<Rightarrow> RawRule \<Rightarrow> gerror + PreparedRule" where
  "PrepareRule E raw =
     (if CurrentDialectRevision = DialectRevision1 then PrepareRuleRevision1 E raw
      else Inl [ErrInvalidRule])"

subsection \<open>Normalising a version selector twice\<close>

definition plain_version :: "string \<Rightarrow> bool" where
  "plain_version s \<longleftrightarrow> s \<noteq> [] \<and> isASCIIDigit (hd s) \<and>
     list_all (\<lambda>c. isASCIIAlphanumeric c \<or> c \<in> set ''.+-~:!'') s"

definition selector_ok :: "string \<Rightarrow> bool" where
  "selector_ok s \<longleftrightarrow> CHR ''*'' \<notin> set s \<and> \<not> HasPrefix s ''='' \<and> \<not> HasPrefix s ''!'' \<and>
     \<not> HasPrefix s ''~'' \<and> \<not> ContainsAny s ''<>'' \<and> \<not> ContainsFunc s IsSpace"

lemma plain_version_char:
  "isASCIIAlphanumeric c \<or> c \<in> set ''.+-~:!'' \<Longrightarrow>
     byte c < 128 \<and> \<not> IsSpace (byte c) \<and> c \<notin> set ''*<>='' "
  by (auto simp: isASCIIAlphanumeric_def isASCIIDigit_def IsSpace_def byte_def)

lemma plain_version_selector: "plain_version s \<Longrightarrow> selector_ok s"
proof -
  assume p: "plain_version s"
  then obtain c t where s: "s = c # t" "isASCIIDigit c" by (cases s) (auto simp: plain_version_def)
  have "list_all (\<lambda>c. byte c < 128 \<and> \<not> IsSpace (byte c) \<and> c \<notin> set ''*<>='') s"
    using p plain_version_char unfolding plain_version_def by (auto elim!: list_all_imp)
  then have "is_ascii s" "\<forall>c \<in> set s. \<not> IsSpace (byte c) \<and> c \<notin> set ''*<>=''"
    by (auto simp: list_all_iff is_ascii_def)
  moreover have "c \<noteq> CHR ''='' \<and> c \<noteq> CHR ''!'' \<and> c \<noteq> CHR ''~''"
    using s(2) by (auto simp: isASCIIDigit_def byte_def)
  ultimately show ?thesis
    using s(1) by (auto simp: selector_ok_def HasPrefix_def ContainsAny_def ContainsFunc_ascii list_ex_iff)
qed

lemma semver_plain:
  assumes "parseStrictSemVer m s = Inr v"
  shows "plain_version s"
proof -
  obtain a b c where core: "sv_core v = (a, b, c)" by (metis prod_cases3)
  have "semverCorePart m a" using parseStrictSemVer_ok(2) [OF assms] core by (simp add: wf_strictSemVer_def)
  then have "a \<noteq> []" "isASCIIDigit (hd a)"
    using semverCorePart_digits [of m a] by (auto simp: no_leading_zero_def neq_Nil_conv)
  then have "semver_public v \<noteq> []" "isASCIIDigit (hd (semver_public v))"
    by (auto simp: semver_public_def core hd_append)
  then have "takeWhile (\<lambda>c. c \<noteq> CHR ''+'') s \<noteq> []" "isASCIIDigit (hd (takeWhile (\<lambda>c. c \<noteq> CHR ''+'') s))"
    using parseStrictSemVer_ok(3) [OF assms] by simp_all
  then have "s \<noteq> []" "isASCIIDigit (hd s)" by (cases s; auto split: if_splits)+
  moreover have "list_all (\<lambda>c. isASCIIAlphanumeric c \<or> c \<in> set ''.+-~:!'') s"
    using parseStrictSemVer_ok(4) [OF assms] by (rule list_all_imp) (auto simp: isSemverByte_def)
  ultimately show ?thesis by (simp add: plain_version_def)
qed

lemma debian_plain: "wf_debianVersion v \<Longrightarrow> plain_version (debian_render v)"
proof -
  assume wf: "wf_debianVersion v"
  let ?P = "\<lambda>c. isASCIIAlphanumeric c \<or> c \<in> set ''.+-~:!''"
  let ?e = "TrimLeft (deb_epoch v) CHR ''0''"
  have e: "list_all isASCIIDigit ?e" using wf by (simp add: wf_debianVersion_def list_all_TrimLeft)
  have "list_all ?P ?e" using e by (rule list_all_imp) (simp add: digit_alphanumeric)
  moreover have "list_all ?P (deb_upstream v)" "list_all ?P (deb_revision v)"
    using wf by (auto simp: wf_debianVersion_def debian_upstream_char_def debian_revision_char_def elim!: list_all_imp)
  moreover have "isASCIIDigit (hd (debian_render v))"
    using wf e by (cases ?e) (auto simp: debian_render_def wf_debianVersion_def Let_def hd_append)
  ultimately show ?thesis
    using wf by (auto simp: plain_version_def debian_render_def wf_debianVersion_def Let_def)
qed

lemma nuget_plain: "wf_nugetVersion v \<Longrightarrow> plain_version (nuget_canonical v)"
proof -
  assume wf: "wf_nugetVersion v"
  have "list_all (\<lambda>c. isASCIIAlphanumeric c \<or> c \<in> set ''.+-~:!'') (nuget_canonical v)"
    using nuget_canonical_chars [OF wf]
    by (rule list_all_imp)
       (auto simp: isNuGetIdentifierCharacter_def isASCIIAlphanumeric_def isASCIIDigit_def byte_eq_iff [symmetric]
         simp del: byte_eq_iff)
  moreover obtain a b c d where r: "nv_release v = (a, b, c, d)" by (metis prod_cases4)
  have "isASCIIDigit (hd (FormatUint (unat a)))"
    using FormatUint_digits [of "unat a"] FormatUint_nonempty [of "unat a"] by (cases "FormatUint (unat a)") auto
  then have "isASCIIDigit (hd (nuget_canonical v))" "nuget_canonical v \<noteq> []"
    by (simp_all add: nuget_canonical_def r hd_append)
  ultimately show ?thesis by (simp add: plain_version_def)
qed

lemma components_plain:
  assumes "list_all wf_component cs" and "cs \<noteq> []"
  shows "list_all (\<lambda>c. isASCIIAlphanumeric c \<or> c \<in> set ''.+-~:!'') (Join cs ''.'')"
    and "Join cs ''.'' \<noteq> []" and "isASCIIDigit (hd (Join cs ''.''))"
proof -
  show "list_all (\<lambda>c. isASCIIAlphanumeric c \<or> c \<in> set ''.+-~:!'') (Join cs ''.'')"
    using assms(1) by (intro list_all_Join)
      (auto elim!: list_all_imp simp: wf_component_def digit_alphanumeric)
  have w: "wf_component (hd cs)" using assms by (cases cs) simp_all
  obtain c ds where "cs = c # ds" using assms(2) by (cases cs) auto
  moreover obtain d t where "hd cs = d # t" "isASCIIDigit d"
    using wf_component_facts [OF w] by (cases "hd cs") auto
  ultimately have cs: "cs = (d # t) # ds" "isASCIIDigit d" by simp_all
  then show "Join cs ''.'' \<noteq> []" "isASCIIDigit (hd (Join cs ''.''))"
    by (simp_all add: Join_Cons_char)
qed

lemma cran_plain: "wf_cranVersion v \<Longrightarrow> plain_version (cran_render v)"
  using dropTrailingZeros_facts [of wf_component "cran_components v"]
    components_plain [of "dropTrailingZeros (cran_components v)"]
  by (fastforce simp: wf_cranVersion_def cran_render_def plain_version_def)

lemma pep440_plain:
  assumes "wf_pep440 v"
  shows "plain_version (pv_canonical v)"
proof -
  let ?P = "\<lambda>c. isASCIIAlphanumeric c \<or> c \<in> set ''.+-~:!''"
  have comp: "list_all ?P w" if "wf_component w" for w
    using that by (auto elim!: list_all_imp simp: wf_component_def digit_alphanumeric)
  have seg: "list_all (list_all ?P) (map ls_value (pv_local v))"
    using assms lower_alphanumeric
    by (auto simp: wf_pep440_def wf_localSegment_def list_all_iff)
  note rel = components_plain [of "pv_release v"]
  have parts: "list_all ?P (pv_epoch v)"
    "list_all ?P (case pv_pre v of None \<Rightarrow> [] | Some p \<Rightarrow> pre_kind p @ pre_number p)"
    "list_all ?P (case pv_post v of None \<Rightarrow> [] | Some n \<Rightarrow> ''.post'' @ n)"
    "list_all ?P (case pv_dev v of None \<Rightarrow> [] | Some n \<Rightarrow> ''.dev'' @ n)"
    subgoal using assms comp by (simp add: wf_pep440_def)
    subgoal using assms comp
      by (cases "pv_pre v") (auto simp: wf_pep440_def wf_pre_def isASCIIAlphanumeric_def byte_def)
    subgoal using assms comp by (cases "pv_post v") (simp_all add: wf_pep440_def isASCIIAlphanumeric_def byte_def)
    subgoal using assms comp by (cases "pv_dev v") (simp_all add: wf_pep440_def isASCIIAlphanumeric_def byte_def)
    done
  have "list_all ?P (buildCanonical v)"
    unfolding buildCanonical_def using parts rel(1) assms list_all_Join [OF seg, of "''.''"]
    by (simp add: wf_pep440_def)
  moreover have "isASCIIDigit (hd (buildCanonical v))" "buildCanonical v \<noteq> []"
    using assms rel(2,3) wf_component_facts [of "pv_epoch v"]
    by (auto simp: wf_pep440_def buildCanonical_text hd_append neq_Nil_conv)
  ultimately show ?thesis using assms by (simp add: plain_version_def wf_pep440_def)
qed


text \<open>
  The documented behaviour of the Maven lower-casing that a stored selector relies on: it
  introduces none of the selector's own marks.
\<close>

definition lower_english_marks :: "externals \<Rightarrow> bool" where
  "lower_english_marks E \<longleftrightarrow> (\<forall>s.
     (\<forall>c \<in> set ''*<>''. c \<in> set (lower_english E s) \<longrightarrow> c \<in> set s) \<and>
     (\<forall>c \<in> set ''=!~''. HasPrefix (lower_english E s) [c] \<longrightarrow> HasPrefix s [c]))"

lemma range_canonical_plain:
  assumes "SupportsRanges d" and "canonicalVersion E d s = Inr c"
  shows "plain_version c"
proof (cases d)
  case (semverDialect m)
  then have "semver_canonicalVersion (sd_coreMax m) c = Inr c"
    using assms(2) semver.canonical_fixpoint by (simp add: semver_canonical_of)
  then show ?thesis by (auto simp: semver_canonical_of canonical_of_Inr dest: semver_plain)
next
  case pep440Dialect
  then show ?thesis using assms(2)
    by (auto simp: pep440_canonical_of canonical_of_Inr intro: pep440_plain parsePEP440Version_ok)
next
  case debianDialect
  then show ?thesis using assms(2)
    by (auto simp: debian_canonical_of canonical_of_Inr intro: debian_plain parseDebianVersion_ok)
qed (use assms(1) in auto)

lemma exact_canonical_selector:
  assumes "lower_english_ok E" and "lower_english_marks E"
    and "selector_ok s" and "canonicalVersion E d s = Inr c"
  shows "selector_ok c"
proof (cases d)
  case mavenDialect
  then have c: "c = lower_english E s" using assms(4) by (auto simp: maven_canonicalVersion_def lowerMavenVersion_def)
  have k: "\<not> ContainsFunc s IsSpace \<longrightarrow> \<not> ContainsFunc c IsSpace"
    using assms(1) by (simp add: lower_english_ok_def c)
  have m: "CHR ''*'' \<in> set c \<longrightarrow> CHR ''*'' \<in> set s" "CHR ''<'' \<in> set c \<longrightarrow> CHR ''<'' \<in> set s"
    "CHR ''>'' \<in> set c \<longrightarrow> CHR ''>'' \<in> set s" "HasPrefix c ''='' \<longrightarrow> HasPrefix s ''=''"
    "HasPrefix c ''!'' \<longrightarrow> HasPrefix s ''!''" "HasPrefix c ''~'' \<longrightarrow> HasPrefix s ''~''"
    using assms(2) by (simp_all add: lower_english_marks_def c)
  show ?thesis using assms(3) k m by (auto simp: selector_ok_def ContainsAny_def list_ex_iff)
next
  case (exactDialect m)
  then show ?thesis using assms(3,4) by (auto simp: exact_canonicalVersion_def split: option.splits)
next
  case (nugetDialect m)
  then show ?thesis using assms(4)
    by (auto simp: nuget_canonical_of canonical_of_Inr intro: plain_version_selector nuget_plain parseNuGetVersion_ok)
next
  case cranDialect
  then show ?thesis using assms(4)
    by (auto simp: cran_canonical_of canonical_of_Inr intro: plain_version_selector cran_plain parseCRANVersion_ok)
qed (use assms(4) range_canonical_plain [of d E s c] plain_version_selector in auto)

lemma splitComparison_plain: "selector_ok s \<Longrightarrow> splitComparison s = ([], s)"
  by (cases s) (auto simp: selector_ok_def splitComparison_def comparisonOperators_def HasPrefix_def ContainsAny_def)

lemma TrimSpace_space: "TrimSpace (CHR '' '' # s) = TrimSpace s"
  by (simp add: TrimSpace_def IsSpace_def byte_def)

lemma splitComparison_operator:
  assumes "operator \<in> set comparisonOperators" and "\<not> ContainsFunc s IsSpace"
  shows "splitComparison (operator @ '' '' @ s) = (operator, s)"
  using assms TrimSpace_id [OF assms(2)]
  by (auto simp: comparisonOperators_def splitComparison_def HasPrefix_def TrimSpace_space)

lemma splitComparison_result:
  "splitComparison s = (operator, target) \<Longrightarrow> operator = [] \<and> target = s \<or> operator \<in> set comparisonOperators"
  by (auto simp: splitComparison_def find_Some_iff split: option.splits)

lemma range_target_again:
  assumes "validateRangeTarget d s = None" and "canonicalVersion E d s = Inr c"
  shows "validateRangeTarget d c = None"
proof (cases d)
  case pep440Dialect
  then obtain v where "parsePEP440Version s = Inr v" "c = pv_canonical v" "pv_local v = []"
    using assms by (auto simp: validateRangeTarget_def pep440_validateRangeTarget_def pep440_canonical_of
      canonical_of_Inr split: if_splits)
  moreover from this have "wf_pep440 v" by (simp add: parsePEP440Version_ok)
  ultimately show ?thesis using pep440Dialect parse_pep440_canonical [of v]
    by (simp add: validateRangeTarget_def pep440_validateRangeTarget_def wf_pep440_def)
qed (use assms in \<open>auto simp: validateRangeTarget_def\<close>)

text \<open>The two shapes of an accepted selector other than the wildcard.\<close>

lemma normalizeVersionSelector_cases:
  assumes "normalizeVersionSelector E d s = Inr n"
  obtains (wild) "s = ''*''" "n = ''*''"
  | (exact) "selector_ok s" "canonicalVersion E d s = Inr n"
  | (range) operator target canonical where "operator \<in> set comparisonOperators" "SupportsRanges d"
      "splitComparison s = (operator, target)" "canonicalVersion E d target = Inr canonical"
      "validateRangeTarget d target = None" "n = operator @ '' '' @ canonical"
proof (cases "s = ''*''")
  case True
  moreover from this have "n = ''*''" using assms by (simp add: normalizeVersionSelector_def)
  ultimately show ?thesis by (rule wild)
next
  case False
  obtain operator target where sp: "splitComparison s = (operator, target)" by (cases "splitComparison s")
  show ?thesis
  proof (cases "operator = []")
    case True
    then have "selector_ok s \<and> canonicalVersion E d s = Inr n"
      using assms False sp
      by (simp add: normalizeVersionSelector_def selector_ok_def ContainsByte_def split: if_splits sum.splits)
    then show ?thesis using exact by blast
  next
    case op: False
    then have "SupportsRanges d \<and> validateRangeTarget d target = None \<and>
        (\<exists>c. canonicalVersion E d target = Inr c \<and> n = operator @ '' '' @ c)"
      using assms False sp by (simp add: normalizeVersionSelector_def split: if_splits sum.splits)
    then show ?thesis using range sp op splitComparison_result [OF sp] by blast
  qed
qed

lemma normalizeVersionSelector_idem:
  assumes "lower_english_ok E" and "lower_english_marks E" and "normalizeVersionSelector E d s = Inr n"
  shows "normalizeVersionSelector E d n = Inr n"
  using assms(3)
proof (cases rule: normalizeVersionSelector_cases)
  case wild
  then show ?thesis by (simp add: normalizeVersionSelector_def)
next
  case exact
  then have n: "selector_ok n" "canonicalVersion E d n = Inr n"
    using exact_canonical_selector assms(1,2) canonicalVersion_law by blast+
  then show ?thesis
    using splitComparison_plain [OF n(1)]
    by (auto simp: normalizeVersionSelector_def selector_ok_def ContainsByte_def)
next
  case (range operator target canonical)
  note ok = plain_version_selector [OF range_canonical_plain [OF range(2,4)]]
  have c: "canonicalVersion E d canonical = Inr canonical" "validateRangeTarget d canonical = None"
    using canonicalVersion_law [OF assms(1) range(4)] range_target_again range by blast+
  have "splitComparison n = (operator, canonical)"
    using splitComparison_operator [OF range(1), of canonical] range(6) ok by (simp add: selector_ok_def)
  moreover have "CHR ''*'' \<notin> set n" "n \<noteq> ''*''" "operator \<noteq> []"
    using range(1,6) ok by (auto simp: selector_ok_def comparisonOperators_def)
  moreover have "canonical \<noteq> []" using range_canonical_plain [OF range(2,4)] by (simp add: plain_version_def)
  ultimately show ?thesis
    using range c ok by (simp add: normalizeVersionSelector_def selector_ok_def ContainsByte_def)
qed

subsection \<open>What preparation accepts\<close>

lemma enforced_name:
  assumes "ruleEnforcementRevision1 n \<or> n = ''*''"
  shows "TrimSpace n = n" and "ToLower E n = n"
proof -
  have "is_ascii n \<and> lowerASCII n = n \<and> TrimSpace n = n"
    using assms unfolding ruleEnforcementRevision1_def list.set insert_iff empty_iff
    by (elim disjE FalseE; hypsubst; code_simp)
  then show "TrimSpace n = n" "ToLower E n = n" by (simp_all add: ToLower_ascii)
qed

lemma enforced_dialect:
  assumes "ruleEnforcementRevision1 n"
  shows "\<exists>d. dialectForRevision1 E n = Inr d"
  using assms enforced_name(1) [of n] enforced_name(2) [of n E]
  by (auto simp: dialectForRevision1_def ruleEnforcementRevision1_def)

lemma enforced_capability:
  assumes "ruleEnforcementRevision1 n"
  shows "\<exists>c. versionCapabilityForRevision1 E n = Inr c"
  using assms enforced_name(1) [of n] enforced_name(2) [of n E]
  by (auto simp: versionCapabilityForRevision1_def ruleEnforcementRevision1_def)

text \<open>The two ways a rule is accepted: the global wildcard, and an enforced ecosystem.\<close>

lemma PrepareRule_cases:
  assumes "PrepareRule E raw = Inr p"
  obtains (global) "pr_Ecosystem p = ''*''" "pr_PackageName p = ''*''" "pr_Version p = ''*''"
      "pr_NormalizedPackageName p = ''*''" "pr_NormalizedVersion p = ''*''"
  | (enforced) d where "ruleEnforcementRevision1 (pr_Ecosystem p)"
      "dialectForRevision1 E (pr_Ecosystem p) = Inr d"
      "normalizePackageSelector E d (pr_PackageName p) = Inr (pr_NormalizedPackageName p)"
      "normalizeVersionSelector E d (pr_Version p) = Inr (pr_NormalizedVersion p)"
      "versionCapabilityForRevision1 E (pr_Ecosystem p) = Inr PolicyVersionsPackageOnly \<longrightarrow> pr_Version p = ''*''"
proof -
  let ?q = "prepared_display E raw"
  have P: "PrepareRuleRevision1 E raw = Inr p"
    using assms by (simp add: PrepareRule_def CurrentDialectRevision_def)
  show ?thesis
  proof (cases "pr_Ecosystem ?q = ''*''")
    case True
    then have "p = ?q\<lparr>pr_NormalizedPackageName := ''*'', pr_NormalizedVersion := ''*''\<rparr> \<and>
        pr_PackageName ?q = ''*'' \<and> pr_Version ?q = ''*''"
      using P by (simp add: PrepareRuleRevision1_def Let_def split: option.splits if_splits)
    then show ?thesis using True global by simp
  next
    case False
    then obtain d pkg ver where "ruleEnforcementRevision1 (pr_Ecosystem ?q)"
      "dialectForRevision1 E (pr_Ecosystem ?q) = Inr d"
      "normalizePackageSelector E d (pr_PackageName ?q) = Inr pkg"
      "normalizeVersionSelector E d (pr_Version ?q) = Inr ver"
      "versionCapabilityForRevision1 E (pr_Ecosystem ?q) = Inr PolicyVersionsPackageOnly \<longrightarrow> pr_Version ?q = ''*''"
      "p = ?q\<lparr>pr_NormalizedPackageName := pkg, pr_NormalizedVersion := ver\<rparr>"
      using P by (simp add: PrepareRuleRevision1_def Let_def split: option.splits if_splits sum.splits) blast
    then show ?thesis using enforced by simp
  qed
qed

lemma PrepareRule_display:
  assumes "PrepareRule E raw = Inr p"
  obtains pkg ver where "p = (prepared_display E raw)\<lparr>pr_NormalizedPackageName := pkg, pr_NormalizedVersion := ver\<rparr>"
    and "validateRawRuleBounds (prepared_display E raw) = None"
  using assms
  by (simp add: PrepareRule_def CurrentDialectRevision_def PrepareRuleRevision1_def Let_def
      split: option.splits if_splits sum.splits) blast+

definition raw_of :: "PreparedRule \<Rightarrow> RawRule" where
  "raw_of p = \<lparr>raw_Ecosystem = pr_Ecosystem p, raw_PackageName = pr_PackageName p, raw_Version = pr_Version p\<rparr>"

lemma prepared_display_again:
  assumes "PrepareRule E raw = Inr p"
  shows "prepared_display E (raw_of p) = prepared_display E raw"
proof -
  have e: "TrimSpace (pr_Ecosystem p) = pr_Ecosystem p" "ToLower E (pr_Ecosystem p) = pr_Ecosystem p"
    using assms by (cases rule: PrepareRule_cases; use enforced_name in blast)+
  have star: "TrimSpace ''*'' = ''*''" by code_simp
  have d: "pr_Ecosystem p = pr_Ecosystem (prepared_display E raw)"
    "pr_PackageName p = pr_PackageName (prepared_display E raw)" "pr_Version p = pr_Version (prepared_display E raw)"
    using assms by (cases rule: PrepareRule_display; simp)+
  have "TrimSpace (pr_Version p) = pr_Version p" "pr_Version p \<noteq> []" "TrimSpace (pr_PackageName p) = pr_PackageName p"
    by (simp_all add: d prepared_display_def Let_def star)
  then show ?thesis using e
    by (simp add: prepared_display_def [of E "raw_of p"] raw_of_def Let_def)
       (simp add: d, simp add: prepared_display_def)
qed

subsection \<open>Properties\<close>

text \<open>
  Preparing a rule is idempotent: the display values of a prepared rule prepare to the
  very same rule. This is what lets the engine recognise a stored row as untampered.
\<close>

theorem PrepareRule_idempotent:
  assumes "PrepareRule E raw = Inr p"
  shows "PrepareRule E (raw_of p) = Inr p"
  using assms prepared_display_again [OF assms]
  by (simp add: PrepareRule_def CurrentDialectRevision_def PrepareRuleRevision1_def)

theorem PrepareRule_idempotent_witness:
  "\<exists>p. PrepareRule ascii_externals
     \<lparr>raw_Ecosystem = '' PyPI '', raw_PackageName = ''Foo_Bar'', raw_Version = ''<= 01.0RC1''\<rparr> = Inr p \<and>
   pr_NormalizedPackageName p = ''foo-bar'' \<and> pr_NormalizedVersion p = ''<= 1.0rc1'' \<and>
   PrepareRule ascii_externals (raw_of p) = Inr p"
proof -
  let ?r = "\<lparr>raw_Ecosystem = '' PyPI '', raw_PackageName = ''Foo_Bar'', raw_Version = ''<= 01.0RC1''\<rparr>"
  let ?p = "\<lparr>pr_Ecosystem = ''pypi'', pr_PackageName = ''Foo_Bar'', pr_Version = ''<= 01.0RC1'',
    pr_NormalizedPackageName = ''foo-bar'', pr_NormalizedVersion = ''<= 1.0rc1'', pr_DialectRevision = 1\<rparr>"
  have p: "PrepareRule ascii_externals ?r = Inr ?p" by code_simp
  from PrepareRule_idempotent [OF p] p show ?thesis by auto
qed

text \<open>
  A stored version selector is in normal form: normalising it again, as the matcher
  does, is accepted and changes nothing. For Maven this rests on the documented behaviour
  of the lower-casing it calls.
\<close>

theorem version_selector_normal_form:
  assumes "lower_english_ok E" and "lower_english_marks E" and "normalizeVersionSelector E d s = Inr n"
  shows "normalizeVersionSelector E d n = Inr n"
  using assms by (rule normalizeVersionSelector_idem)

theorem version_selector_normal_form_witness:
  "normalizeVersionSelector ascii_externals debianDialect ''>= 1:2.0-1'' = Inr ''>= 1:2.0-1''"
proof -
  have "normalizeVersionSelector ascii_externals debianDialect ''>=   01:2.0-1'' = Inr ''>= 1:2.0-1''"
    by code_simp
  moreover have "lower_english_marks ascii_externals"
    by (simp add: lower_english_marks_def ascii_externals_def)
  ultimately show ?thesis using version_selector_normal_form [OF ascii_externals_ok(1)] by blast
qed

end
