(* ===== verification/Matcher.thy ===== *)
theory Matcher
  imports Rule
begin

text \<open>
  \<open>internal/packagepolicy/matcher.go\<close>: version selectors compiled once per rule and
  matched against the version of each request. The implementations of the interface
  \<open>VersionMatcher\<close> are the constructors of a datatype. The facts: every selector that a
  rule can store compiles, a compiled matcher fails only on versions that the dialect
  rejects, and the ordered matchers of one target are disjoint and, on releases, complete.
\<close>

datatype versionMatcher =
    anyVersionMatcher
  | exactVersionMatcher dialect string
  | semverComparisonMatcher semverConfig string strictSemVer
  | comparisonVersionMatcher dialect string string
  | pep440ComparisonMatcher string pep440Version

definition CompileVersionMatcher :: "externals \<Rightarrow> string \<Rightarrow> string \<Rightarrow> gerror + versionMatcher" where
  "CompileVersionMatcher E ecosystem selector =
     bind_err (DialectFor E ecosystem) (\<lambda>dialect.
       bind_err (normalizeVersionSelector E dialect selector) (\<lambda>normalized.
         if normalized = ''*'' then Inr anyVersionMatcher
         else (let (operator, target) = splitComparison normalized in
           if operator = [] then Inr (exactVersionMatcher dialect normalized)
           else (case dialect of
             pep440Dialect \<Rightarrow>
               bind_err (parsePEP440Version target) (\<lambda>parsedTarget.
                 Inr (pep440ComparisonMatcher operator parsedTarget))
           | semverDialect config \<Rightarrow>
               bind_err (parseStrictSemVer (sd_coreMax config) target) (\<lambda>parsedTarget.
                 Inr (semverComparisonMatcher config operator parsedTarget))
           | _ \<Rightarrow> Inr (comparisonVersionMatcher dialect operator target)))))"

text \<open>The \<open>switch\<close> on the operator that the matchers share; any other operator is an error.\<close>

definition operatorHolds :: "string \<Rightarrow> int \<Rightarrow> gerror + bool" where
  "operatorHolds operator comparison =
     (if operator = ''<'' then Inr (comparison < 0)
      else if operator = ''<='' then Inr (comparison \<le> 0)
      else if operator = ''>'' then Inr (comparison > 0)
      else if operator = ''>='' then Inr (comparison \<ge> 0)
      else Inl plain_error)"

definition exact_Match :: "externals \<Rightarrow> dialect \<Rightarrow> string \<Rightarrow> string \<Rightarrow> gerror + bool" where
  "exact_Match E dialect target version =
     bind_err (CompareVersions E dialect version target) (\<lambda>comparison. Inr (comparison = 0))"

definition semver_Match :: "semverConfig \<Rightarrow> string \<Rightarrow> strictSemVer \<Rightarrow> string \<Rightarrow> gerror + bool" where
  "semver_Match config operator target version =
     bind_err (parseStrictSemVer (sd_coreMax config) version) (\<lambda>parsed.
       if semver_hasPrerelease parsed \<and>
          (\<not> semver_hasPrerelease target \<or> semver_compareCore parsed target \<noteq> 0) then Inr False
       else operatorHolds operator (semver_Compare parsed target))"

definition comparison_Match :: "externals \<Rightarrow> dialect \<Rightarrow> string \<Rightarrow> string \<Rightarrow> string \<Rightarrow> gerror + bool" where
  "comparison_Match E dialect operator target version =
     bind_err (CompareVersions E dialect version target) (\<lambda>comparison. operatorHolds operator comparison)"

definition pep440_Match :: "string \<Rightarrow> pep440Version \<Rightarrow> string \<Rightarrow> gerror + bool" where
  "pep440_Match operator target value =
     bind_err (parsePEP440Version value) (\<lambda>version.
       let comparisonVersion = (if operator = ''<='' \<or> operator = ''>='' then withoutLocal version else version);
           comparison = comparePEP440Versions comparisonVersion target in
       if operator = ''<'' then
         (if comparison \<ge> 0 then Inr False
          else if \<not> isPrerelease target \<and> isPrerelease version \<and>
            comparePEP440Versions version (earliestPrerelease target) \<ge> 0 then Inr False
          else Inr True)
       else if operator = ''<='' then Inr (comparison \<le> 0)
       else if operator = ''>'' then
         (if comparison \<le> 0 then Inr False
          else if \<not> isPostrelease target \<and> isPostrelease version \<and>
            comparePEP440Versions (postBase version) target = 0 then Inr False
          else if pv_local version \<noteq> [] \<and>
            comparePEP440Versions (withoutLocal version) target = 0 then Inr False
          else Inr True)
       else if operator = ''>='' then Inr (comparison \<ge> 0)
       else Inl plain_error)"

fun Match :: "externals \<Rightarrow> versionMatcher \<Rightarrow> string \<Rightarrow> gerror + bool" where
  "Match E anyVersionMatcher version = Inr True"
| "Match E (exactVersionMatcher dialect target) version = exact_Match E dialect target version"
| "Match E (semverComparisonMatcher config operator target) version = semver_Match config operator target version"
| "Match E (comparisonVersionMatcher dialect operator target) version = comparison_Match E dialect operator target version"
| "Match E (pep440ComparisonMatcher operator target) version = pep440_Match operator target version"

subsection \<open>Compiling a selector\<close>

text \<open>The matcher of a normalised ordered selector.\<close>

definition orderedMatcher :: "dialect \<Rightarrow> string \<Rightarrow> string \<Rightarrow> versionMatcher \<Rightarrow> bool" where
  "orderedMatcher d operator target m =
     (case d of
        pep440Dialect \<Rightarrow> (case m of pep440ComparisonMatcher op t \<Rightarrow>
            op = operator \<and> parsePEP440Version target = Inr t \<and> pv_local t = [] | _ \<Rightarrow> False)
      | semverDialect c \<Rightarrow> (case m of semverComparisonMatcher c' op t \<Rightarrow>
            c' = c \<and> op = operator \<and> parseStrictSemVer (sd_coreMax c) target = Inr t | _ \<Rightarrow> False)
      | debianDialect \<Rightarrow> m = comparisonVersionMatcher d operator target
      | _ \<Rightarrow> False)"

lemma compile_normal_ordered:
  assumes d: "DialectFor E eco = Inr d" and "SupportsRanges d" and "operator \<in> set comparisonOperators"
    and c: "canonicalVersion E d target = Inr c" and r: "validateRangeTarget d target = None"
    and n: "normalizeVersionSelector E d s = Inr (operator @ '' '' @ c)"
  shows "\<exists>m. CompileVersionMatcher E eco s = Inr m \<and> orderedMatcher d operator c m"
proof -
  note pl = plain_version_selector [OF range_canonical_plain [OF assms(2) c]]
  have sp: "splitComparison (operator @ '' '' @ c) = (operator, c)" "operator \<noteq> []" "operator @ '' '' @ c \<noteq> ''*''"
    using assms(3) splitComparison_operator [OF assms(3), of c] pl
    by (auto simp: selector_ok_def comparisonOperators_def)
  have "validateRangeTarget d c = None" by (rule range_target_again [OF r c])
  moreover have "is_Inr (canonicalVersion E d c)" if "d \<noteq> mavenDialect"
    using c that by (cases d) (auto simp: dialect_canonical_of is_Inr_iff dest: semver.canonical_fixpoint
      pep440.canonical_fixpoint debian.canonical_fixpoint nuget.canonical_fixpoint exact.canonical_fixpoint
      cran.canonical_fixpoint)
  ultimately show ?thesis
    using sp n d assms(2)
    by (cases d)
       (auto simp: CompileVersionMatcher_def orderedMatcher_def validateRangeTarget_def
         pep440_validateRangeTarget_def dialect_canonical_of canonical_of_Inr is_Inr_iff split: sum.splits if_splits)
qed

lemma compile_ordered:
  assumes op: "operator \<in> set comparisonOperators"
    and m: "CompileVersionMatcher E eco (operator @ '' '' @ t) = Inr m"
  obtains d c where "DialectFor E eco = Inr d" "SupportsRanges d"
    "canonicalVersion E d (TrimSpace t) = Inr c" "orderedMatcher d operator c m"
proof -
  from m obtain d n where d: "DialectFor E eco = Inr d"
    "normalizeVersionSelector E d (operator @ '' '' @ t) = Inr n" by (auto simp: CompileVersionMatcher_def)
  have sp: "splitComparison (operator @ '' '' @ t) = (operator, TrimSpace t)"
    using op by (auto simp: comparisonOperators_def splitComparison_def HasPrefix_def TrimSpace_space)
  have shape: "operator @ '' '' @ t \<noteq> ''*''" "operator \<noteq> []" "\<not> selector_ok (operator @ '' '' @ t)"
    using op by (auto simp: comparisonOperators_def selector_ok_def ContainsAny_def)
  from d(2) show ?thesis
  proof (cases rule: normalizeVersionSelector_cases)
    case (range op' target c)
    then have "op' = operator" "target = TrimSpace t" using sp by simp_all
    moreover obtain m' where "CompileVersionMatcher E eco (operator @ '' '' @ t) = Inr m'" "orderedMatcher d op' c m'"
      using compile_normal_ordered [OF d(1) range(2,1,4,5)] d(2) range(6) by auto
    ultimately show ?thesis using that d range m by simp
  qed (use shape in auto)
qed

subsection \<open>Matching\<close>

lemma operatorHolds_total: "operator \<in> set comparisonOperators \<Longrightarrow> is_Inr (operatorHolds operator x)"
  by (auto simp: operatorHolds_def comparisonOperators_def)

lemma pep440_Match_total:
  "operator \<in> set comparisonOperators \<Longrightarrow> parsePEP440Version v = Inr p \<Longrightarrow> is_Inr (pep440_Match operator t v)"
  by (auto simp: pep440_Match_def comparisonOperators_def Let_def)

lemma orderedMatcher_total:
  assumes "orderedMatcher d operator c m" and "operator \<in> set comparisonOperators"
    and "ValidateVersion E d c = None" and "ValidateVersion E d v = None"
  shows "is_Inr (Match E m v)"
proof (cases d)
  case (semverDialect k)
  then show ?thesis using assms operatorHolds_total [OF assms(2)]
    by (auto simp: orderedMatcher_def semver_Match_def ValidateVersion_def semver_ValidateVersion_def
        split: versionMatcher.splits sum.splits)
next
  case pep440Dialect
  then show ?thesis using assms
    by (auto simp: orderedMatcher_def ValidateVersion_def pep440_Match_total
        split: versionMatcher.splits sum.splits)
next
  case debianDialect
  obtain x where "CompareVersions E d v c = Inr x"
    using CompareVersions_total [of E d v c] assms(3,4) by (auto simp: is_Inr_iff)
  then show ?thesis using assms(1) debianDialect operatorHolds_total [OF assms(2)]
    by (simp add: orderedMatcher_def comparison_Match_def)
qed (use assms(1) in \<open>auto simp: orderedMatcher_def\<close>)

lemma compile_normal_selector:
  assumes "lower_english_ok E" and "lower_english_marks E"
    and "DialectFor E eco = Inr d" and "normalizeVersionSelector E d s = Inr n"
  shows "\<exists>m. CompileVersionMatcher E eco n = Inr m \<and>
    (\<forall>v. ValidateVersion E d v = None \<longrightarrow> is_Inr (Match E m v))"
proof -
  note again = normalizeVersionSelector_idem [OF assms(1,2,4)]
  from again show ?thesis
  proof (cases rule: normalizeVersionSelector_cases)
    case wild
    then have "CompileVersionMatcher E eco n = Inr anyVersionMatcher"
      using assms(3) again by (simp add: CompileVersionMatcher_def)
    then show ?thesis by simp
  next
    case exact
    then have "CompileVersionMatcher E eco n = Inr (exactVersionMatcher d n)"
      using assms(3) again splitComparison_plain [OF exact(1)]
      by (auto simp: CompileVersionMatcher_def selector_ok_def)
    moreover have "ValidateVersion E d n = None" using exact(2) canonicalVersion_valid [of E d n] by simp
    ultimately show ?thesis
      using CompareVersions_total [of E d _ n] by (fastforce simp: exact_Match_def is_Inr_iff)
  next
    case (range operator target c)
    have "normalizeVersionSelector E d n = Inr (operator @ '' '' @ c)" using again range(6) by simp
    from compile_normal_ordered [OF assms(3) range(2,1,4,5) this]
    obtain m where m: "CompileVersionMatcher E eco n = Inr m" "orderedMatcher d operator c m" by blast
    have "ValidateVersion E d c = None"
      using canonicalVersion_law [OF assms(1) range(4)] canonicalVersion_valid [of E d c] by simp
    then show ?thesis using m orderedMatcher_total [OF m(2) range(1)] by blast
  qed
qed

text \<open>Against a target without local label, the label only breaks a tie.\<close>

lemma compare_without_local:
  assumes "pv_local t = []"
  shows "comparePEP440Versions v t =
    (if comparePEP440Versions (withoutLocal v) t \<noteq> 0 then comparePEP440Versions (withoutLocal v) t
     else if pv_local v = [] then 0 else 1)"
proof -
  have "pep440PreSentinel (withoutLocal v) = pep440PreSentinel v" "pv_pre (withoutLocal v) = pv_pre v"
    by (simp_all add: pep440PreSentinel_def withoutLocal_def)
  then have pre: "comparePEP440Pre (withoutLocal v) t = comparePEP440Pre v t"
    by (simp only: comparePEP440Pre_def)
  have loc: "comparePEP440Local (pv_local (withoutLocal v)) (pv_local t) = 0"
    "comparePEP440Local (pv_local v) (pv_local t) = (if pv_local v = [] then 0 else 1)"
    using assms by (simp_all add: withoutLocal_def comparePEP440Local_def)
  show ?thesis
    unfolding comparePEP440Versions_def pre loc Let_def by (simp add: withoutLocal_def)
qed

lemma orderedMatcher_disjoint:
  assumes "orderedMatcher d op1 c m1" and "orderedMatcher d op2 c m2"
    and "(op1, op2) = (''<'', ''>='') \<or> (op1, op2) = (''<='', ''>'')"
  shows "\<not> (Match E m1 v = Inr True \<and> Match E m2 v = Inr True)"
proof (cases d)
  case (semverDialect k)
  then obtain t where t: "m1 = semverComparisonMatcher k op1 t" "m2 = semverComparisonMatcher k op2 t"
    using assms(1,2) by (auto simp: orderedMatcher_def split: versionMatcher.splits)
  show ?thesis using assms(3) unfolding t
    by (cases "parseStrictSemVer (sd_coreMax k) v") (auto simp: semver_Match_def operatorHolds_def)
next
  case pep440Dialect
  then obtain t where t: "m1 = pep440ComparisonMatcher op1 t" "m2 = pep440ComparisonMatcher op2 t" "pv_local t = []"
    using assms(1,2) by (auto simp: orderedMatcher_def split: versionMatcher.splits)
  show ?thesis
  proof (cases "parsePEP440Version v")
    case (Inr p)
    from assms(3) show ?thesis
      by (elim disjE) (simp_all add: t(1,2) Inr pep440_Match_def Let_def compare_without_local [OF t(3), of p])
  qed (simp add: t(1) pep440_Match_def)
next
  case debianDialect
  then show ?thesis using assms
    by (auto simp: orderedMatcher_def comparison_Match_def operatorHolds_def)
qed (use assms in \<open>auto simp: orderedMatcher_def\<close>)

subsection \<open>Properties\<close>

text \<open>
  Every rule that preparation accepts can be enforced: its stored version selector
  compiles, and the matcher gives an answer on every version that the ecosystem's dialect
  accepts. Evaluation can therefore fail only on a malformed request version.
\<close>

theorem prepared_rules_compile:
  assumes "lower_english_ok E" and "lower_english_marks E"
    and "PrepareRule E raw = Inr p" and "pr_Ecosystem p \<noteq> ''*''"
  shows "\<exists>d m. DialectFor E (pr_Ecosystem p) = Inr d \<and>
    CompileVersionMatcher E (pr_Ecosystem p) (pr_NormalizedVersion p) = Inr m \<and>
    (\<forall>v. ValidateVersion E d v = None \<longrightarrow> is_Inr (Match E m v))"
  using assms(3)
proof (cases rule: PrepareRule_cases)
  case (enforced d)
  then have "DialectFor E (pr_Ecosystem p) = Inr d" by (simp add: DialectFor_def)
  with compile_normal_selector [OF assms(1,2) this enforced(4)] show ?thesis by blast
qed (use assms(4) in auto)

theorem prepared_rules_compile_witness:
  "\<exists>d m. DialectFor ascii_externals ''npm'' = Inr d \<and>
    CompileVersionMatcher ascii_externals ''npm'' ''>= 1.2.3-rc.1'' = Inr m \<and>
    (\<forall>v. ValidateVersion ascii_externals d v = None \<longrightarrow> is_Inr (Match ascii_externals m v))"
proof -
  let ?r = "\<lparr>raw_Ecosystem = ''npm'', raw_PackageName = ''@acme/*'', raw_Version = ''>=1.2.3-rc.1''\<rparr>"
  let ?p = "\<lparr>pr_Ecosystem = ''npm'', pr_PackageName = ''@acme/*'', pr_Version = ''>=1.2.3-rc.1'',
    pr_NormalizedPackageName = ''@acme/*'', pr_NormalizedVersion = ''>= 1.2.3-rc.1'', pr_DialectRevision = 1\<rparr>"
  have p: "PrepareRule ascii_externals ?r = Inr ?p" by code_simp
  have marks: "lower_english_marks ascii_externals" by (simp add: lower_english_marks_def ascii_externals_def)
  from prepared_rules_compile [OF ascii_externals_ok(1) marks p] show ?thesis by simp
qed

text \<open>
  In every ecosystem with ranges, a strict selector and the inclusive selector of the
  opposite direction with the same target never match the same version, although the
  matchers treat prereleases, post-releases and local labels differently in each direction.
  A deny on one side and an allow on the other never meet.
\<close>

theorem opposite_ranges_disjoint:
  assumes "(op1, op2) = (''<'', ''>='') \<or> (op1, op2) = (''<='', ''>'')"
    and "CompileVersionMatcher E eco (op1 @ '' '' @ t) = Inr m1"
    and "CompileVersionMatcher E eco (op2 @ '' '' @ t) = Inr m2"
  shows "\<not> (Match E m1 v = Inr True \<and> Match E m2 v = Inr True)"
proof -
  have o: "op1 \<in> set comparisonOperators" "op2 \<in> set comparisonOperators"
    using assms(1) by (auto simp: comparisonOperators_def)
  obtain d c where d: "DialectFor E eco = Inr d" "canonicalVersion E d (TrimSpace t) = Inr c" "orderedMatcher d op1 c m1"
    using compile_ordered [OF o(1) assms(2)] .
  moreover obtain d' c' where "DialectFor E eco = Inr d'" "canonicalVersion E d' (TrimSpace t) = Inr c'"
    "orderedMatcher d' op2 c' m2"
    using compile_ordered [OF o(2) assms(3)] .
  ultimately have "orderedMatcher d op2 c m2" by simp
  from orderedMatcher_disjoint [OF d(3) this assms(1)] show ?thesis .
qed

theorem opposite_ranges_disjoint_witness:
  "\<exists>m1 m2. CompileVersionMatcher ascii_externals ''pypi'' ''<= 1.0'' = Inr m1 \<and>
     CompileVersionMatcher ascii_externals ''pypi'' ''> 1.0'' = Inr m2 \<and>
     Match ascii_externals m1 ''1.0+local'' = Inr True \<and>
     \<not> (Match ascii_externals m1 ''1.0+local'' = Inr True \<and> Match ascii_externals m2 ''1.0+local'' = Inr True)"
proof -
  have "bind_err (CompileVersionMatcher ascii_externals ''pypi'' ''<= 1.0'')
      (\<lambda>m. Match ascii_externals m ''1.0+local'') = Inr True"
    "is_Inr (CompileVersionMatcher ascii_externals ''pypi'' ''> 1.0'')"
    by code_simp+
  then obtain m1 m2 where m: "CompileVersionMatcher ascii_externals ''pypi'' ''<= 1.0'' = Inr m1"
    "CompileVersionMatcher ascii_externals ''pypi'' ''> 1.0'' = Inr m2" "Match ascii_externals m1 ''1.0+local'' = Inr True"
    by (auto simp: is_Inr_iff)
  have "\<not> (Match ascii_externals m1 ''1.0+local'' = Inr True \<and> Match ascii_externals m2 ''1.0+local'' = Inr True)"
    using opposite_ranges_disjoint [of "''<=''" "''>''" ascii_externals "''pypi''" "''1.0''" m1 m2] m(1,2) by simp
  then show ?thesis using m by blast
qed

text \<open>
  For npm and Cargo a prerelease is never matched by an ordered selector whose target
  is not a prerelease of the same core version; in every other case the answer is the
  operator applied to the precedence of the two versions.
\<close>

theorem semver_range_eligibility:
  assumes "CompileVersionMatcher E eco (operator @ '' '' @ t) = Inr (semverComparisonMatcher config operator target)"
    and "operator \<in> set comparisonOperators" and "parseStrictSemVer (sd_coreMax config) v = Inr parsed"
  shows "if semver_hasPrerelease parsed \<and> \<not> (semver_hasPrerelease target \<and> sv_core parsed = sv_core target)
    then Match E (semverComparisonMatcher config operator target) v = Inr False
    else Match E (semverComparisonMatcher config operator target) v =
      operatorHolds operator (semver_Compare parsed target)"
proof -
  have "parseStrictSemVer (sd_coreMax config) c = Inr target" if "orderedMatcher d operator c
      (semverComparisonMatcher config operator target)" for d c
    using that by (cases d) (auto simp: orderedMatcher_def)
  then obtain c where c: "parseStrictSemVer (sd_coreMax config) c = Inr target"
    using compile_ordered [OF assms(2,1)] by metis
  have "semver_compareCore parsed target = 0 \<longleftrightarrow> sv_core parsed = sv_core target"
    using parseStrictSemVer_ok(2) [OF c] parseStrictSemVer_ok(2) [OF assms(3)]
    by (cases "sv_core parsed"; cases "sv_core target")
       (simp add: semver_compareCore_def wf_strictSemVer_def compareCoreParts_exact [where m = "sd_coreMax config" and n = "sd_coreMax config"]
         del: compareCoreParts.simps)
  then show ?thesis using assms(3) by (auto simp: semver_Match_def)
qed

theorem semver_range_eligibility_witness:
  "\<exists>config target. CompileVersionMatcher ascii_externals ''npm'' ''< 2.0.0'' =
      Inr (semverComparisonMatcher config ''<'' target) \<and>
    Match ascii_externals (semverComparisonMatcher config ''<'' target) ''2.0.0-rc.1'' = Inr False"
proof -
  let ?p = "\<lparr>sv_raw = ''2.0.0-rc.1'', sv_core = (''2'', ''0'', ''0''), sv_prerelease =
    [\<lparr>si_value = ''rc'', si_numeric = False\<rparr>, \<lparr>si_value = ''1'', si_numeric = True\<rparr>]\<rparr>"
  have "case CompileVersionMatcher ascii_externals ''npm'' ''< 2.0.0'' of
      Inr (semverComparisonMatcher config op target) \<Rightarrow> op = ''<'' \<and> \<not> semver_hasPrerelease target \<and>
        parseStrictSemVer (sd_coreMax config) ''2.0.0-rc.1'' = Inr ?p
    | _ \<Rightarrow> False" by code_simp
  then obtain config target where m: "CompileVersionMatcher ascii_externals ''npm'' ''< 2.0.0'' =
      Inr (semverComparisonMatcher config ''<'' target)" "\<not> semver_hasPrerelease target"
    "parseStrictSemVer (sd_coreMax config) ''2.0.0-rc.1'' = Inr ?p"
    by (simp split: sum.splits versionMatcher.splits)
  have "''<'' \<in> set comparisonOperators" "semver_hasPrerelease ?p"
    by (simp_all add: comparisonOperators_def semver_hasPrerelease_def)
  then show ?thesis
    using semver_range_eligibility [of ascii_externals "''npm''" "''<''" "''2.0.0''" config target "''2.0.0-rc.1''" ?p] m
    by auto
qed

end
