(* ===== verification/Ecosystem_Catalog.thy ===== *)
theory Ecosystem_Catalog
  imports Rule
begin

text \<open>
  \<open>internal/ecosystem/catalog.go\<close>: the static catalogue of ecosystems and its lookups.
  The catalogue agrees with the snapshot of enforced ecosystems that rule preparation uses,
  and its mapping to OSV names can be inverted.
\<close>

record Definition =
  def_Name :: string
  def_Route :: string
  def_StandardUpstreams :: bool
  def_AvailableInSetup :: bool
  def_RuleEnforcement :: bool
  def_OSVName :: string
  def_MaliciousDataset :: bool

definition entry :: "string \<Rightarrow> string \<Rightarrow> bool \<Rightarrow> bool \<Rightarrow> bool \<Rightarrow> string \<Rightarrow> bool \<Rightarrow> Definition" where
  "entry n route standard setup rules osv malicious =
     \<lparr>def_Name = n, def_Route = route, def_StandardUpstreams = standard, def_AvailableInSetup = setup,
      def_RuleEnforcement = rules, def_OSVName = osv, def_MaliciousDataset = malicious\<rparr>"

definition definitions :: "Definition list" where
  "definitions =
    [entry ''pypi'' ''/pypi'' True True True ''PyPI'' True,
     entry ''apt'' ''/apt'' True True True ''Debian'' False,
     entry ''npm'' ''/npm'' True True True ''npm'' True,
     entry ''go'' ''/go'' True True True ''Go'' True,
     entry ''cargo'' ''/crates'' True True True ''crates.io'' True,
     entry ''maven'' ''/maven'' True True True ''Maven'' True,
     entry ''rubygems'' ''/rubygems'' True True False ''RubyGems'' True,
     entry ''composer'' ''/composer'' True True True ''Packagist'' True,
     entry ''nuget'' ''/nuget'' True True True ''NuGet'' True,
     entry ''conda'' ''/conda'' True True True [] False,
     entry ''cran'' ''/cran'' True True True ''CRAN'' False,
     entry ''alpine'' ''/alpine'' True True True [] False,
     entry ''helm'' ''/helm'' True True False [] False,
     entry ''huggingface'' ''/huggingface'' True False False [] False,
     entry ''docker'' ''/v2'' False False False [] False]"

definition maliciousDatasetOrder :: "string list" where
  "maliciousDatasetOrder =
     [''npm'', ''pypi'', ''cargo'', ''rubygems'', ''composer'', ''nuget'', ''go'', ''maven'']"

definition All :: "Definition list" where
  "All = definitions"

definition Lookup :: "string \<Rightarrow> Definition option" where
  "Lookup n = List.find (\<lambda>definition. def_Name definition = n) definitions"

definition matching :: "(Definition \<Rightarrow> bool) \<Rightarrow> Definition list" where
  "matching include = filter include definitions"

definition StandardUpstreamDefinitions :: "Definition list" where
  "StandardUpstreamDefinitions = matching def_StandardUpstreams"

definition SetupDefinitions :: "Definition list" where
  "SetupDefinitions = matching def_AvailableInSetup"

definition RuleDefinitions :: "Definition list" where
  "RuleDefinitions = matching def_RuleEnforcement"

definition MaliciousDatasetDefinitions :: "Definition list" where
  "MaliciousDatasetDefinitions =
     concat (map (\<lambda>n. case Lookup n of
         Some definition \<Rightarrow> if def_MaliciousDataset definition then [definition] else []
       | None \<Rightarrow> []) maliciousDatasetOrder)"

definition OSVNameFor :: "string \<Rightarrow> string" where
  "OSVNameFor n = (case Lookup n of None \<Rightarrow> [] | Some definition \<Rightarrow> def_OSVName definition)"

definition NameForOSV :: "string \<Rightarrow> string" where
  "NameForOSV osvName =
     (case List.find (\<lambda>definition. def_OSVName definition = osvName \<and> osvName \<noteq> []) definitions of
        Some definition \<Rightarrow> def_Name definition
      | None \<Rightarrow> [])"

lemma Lookup_Some: "Lookup n = Some d \<Longrightarrow> d \<in> set definitions \<and> def_Name d = n"
  by (auto simp: Lookup_def find_Some_iff)

lemma catalog_facts:
  "list_all (\<lambda>d. Lookup (def_Name d) = Some d \<and>
     (def_OSVName d \<noteq> [] \<longrightarrow> NameForOSV (def_OSVName d) = def_Name d) \<and>
     (def_RuleEnforcement d \<longleftrightarrow> ruleEnforcementRevision1 (def_Name d)) \<and>
     (def_MaliciousDataset d \<longrightarrow> def_OSVName d \<noteq> [] \<and> def_Name d \<in> set maliciousDatasetOrder) \<and>
     (def_AvailableInSetup d \<longrightarrow> def_StandardUpstreams d)) definitions"
  by code_simp

lemma enforced_Lookup:
  "ruleEnforcementRevision1 n \<Longrightarrow> \<exists>d. Lookup n = Some d \<and> def_RuleEnforcement d"
  unfolding ruleEnforcementRevision1_def list.set insert_iff empty_iff
  by (elim disjE FalseE; hypsubst; simp add: Lookup_def definitions_def entry_def)

lemma catalog_enforcement:
  "(\<exists>d. Lookup n = Some d \<and> def_RuleEnforcement d) \<longleftrightarrow> ruleEnforcementRevision1 n"
  using enforced_Lookup Lookup_Some catalog_facts by (auto simp: list_all_iff)

lemma malicious_member:
  "d \<in> set MaliciousDatasetDefinitions \<longleftrightarrow>
     (\<exists>n \<in> set maliciousDatasetOrder. Lookup n = Some d \<and> def_MaliciousDataset d)"
  by (auto simp: MaliciousDatasetDefinitions_def eq_commute [of "Some d"] split: option.splits)

text \<open>
  The catalogue is coherent: the ecosystems that the request path enforces are exactly
  those for which preparation accepts rules, and each of them has a dialect; the OSV
  mapping inverts on every ecosystem that has an OSV name; every malicious-dataset ecosystem
  is listed in the status order and has an OSV name.
\<close>

theorem catalog_coherent:
  "((\<exists>d. Lookup n = Some d \<and> def_RuleEnforcement d) \<longleftrightarrow> ruleEnforcementRevision1 n) \<and>
   (ruleEnforcementRevision1 n \<longrightarrow> is_Inr (DialectFor E n)) \<and>
   (OSVNameFor n \<noteq> [] \<longrightarrow> NameForOSV (OSVNameFor n) = n) \<and>
   set MaliciousDatasetDefinitions = {d \<in> set All. def_MaliciousDataset d}"
proof (intro conjI)
  show "(\<exists>d. Lookup n = Some d \<and> def_RuleEnforcement d) \<longleftrightarrow> ruleEnforcementRevision1 n"
    by (rule catalog_enforcement)
  show "ruleEnforcementRevision1 n \<longrightarrow> is_Inr (DialectFor E n)"
    using enforced_dialect [of n E] by (auto simp: DialectFor_def is_Inr_iff)
  show "OSVNameFor n \<noteq> [] \<longrightarrow> NameForOSV (OSVNameFor n) = n"
    using catalog_facts Lookup_Some [of n] by (auto simp: OSVNameFor_def list_all_iff split: option.splits)
  show "set MaliciousDatasetDefinitions = {d \<in> set All. def_MaliciousDataset d}"
    using catalog_facts Lookup_Some unfolding set_eq_iff malicious_member All_def list_all_iff by blast
qed

theorem catalog_coherent_witness:
  "is_Inr (DialectFor ascii_externals ''cargo'') \<and> NameForOSV (OSVNameFor ''cargo'') = ''cargo''"
proof -
  have "ruleEnforcementRevision1 ''cargo''" "OSVNameFor ''cargo'' \<noteq> []" by code_simp+
  then show ?thesis using catalog_coherent [of "''cargo''" ascii_externals] by blast
qed

end
