(* ===== verification/Rule_Engine.thy ===== *)
theory Rule_Engine
  imports Matcher Ecosystem_Catalog "HOL-Library.Multiset"
begin

text \<open>
  \<open>internal/rules/engine.go\<close>, the evaluation half: compiling a stored row, the
  specificity tuple and its order, the winner selection of the request path, the explanation
  of a decision, and the decision on artifacts without a proven identity. The state of the
  engine is in \<open>Engine_State\<close>; here the snapshot of compiled rules is an argument.
\<close>

record PackageRule =
  r_ID :: uint
  r_Ecosystem :: string
  r_PackageName :: string
  r_Version :: string
  r_Action :: string
  r_Reason :: string
  r_CreatedBy :: string
  r_CreatedAt :: "time"
  r_UpdatedAt :: "time"
  r_NormalizedPackageName :: string
  r_NormalizedVersion :: string
  r_DialectRevision :: nat

datatype selectorKind = selectorWildcard | selectorPrefix | selectorRange | selectorExact

record compiledRule =
  cr_model :: PackageRule
  cr_packageKind :: selectorKind
  cr_packageValue :: string
  cr_versionKind :: selectorKind
  cr_version :: "versionMatcher option"

definition hasComparisonOperator :: "string \<Rightarrow> bool" where
  "hasComparisonOperator value \<longleftrightarrow>
     list_ex (\<lambda>operator. HasPrefix value operator) [''<='', ''>='', ''<'', ''>'']"

definition raw_of_model :: "PackageRule \<Rightarrow> RawRule" where
  "raw_of_model model =
     \<lparr>raw_Ecosystem = r_Ecosystem model, raw_PackageName = r_PackageName model, raw_Version = r_Version model\<rparr>"

definition compilePersistedRule :: "externals \<Rightarrow> PackageRule \<Rightarrow> gerror + compiledRule" where
  "compilePersistedRule E model =
     bind_err (PrepareRule E (raw_of_model model)) (\<lambda>prepared.
       if r_Ecosystem model \<noteq> pr_Ecosystem prepared \<or>
          r_PackageName model \<noteq> pr_PackageName prepared \<or>
          r_Version model \<noteq> pr_Version prepared \<or>
          r_NormalizedPackageName model \<noteq> pr_NormalizedPackageName prepared \<or>
          r_NormalizedVersion model \<noteq> pr_NormalizedVersion prepared \<or>
          r_DialectRevision model \<noteq> pr_DialectRevision prepared then Inl plain_error
       else if r_Action model \<noteq> ''allow'' \<and> r_Action model \<noteq> ''deny'' then Inl plain_error
       else
         let package = r_NormalizedPackageName model; version = r_NormalizedVersion model;
             compiled = \<lparr>cr_model = model,
               cr_packageKind =
                 (if package = ''*'' then selectorWildcard
                  else if HasSuffix package ''*'' then selectorPrefix else selectorExact),
               cr_packageValue =
                 (if package \<noteq> ''*'' \<and> HasSuffix package ''*'' then TrimSuffix package ''*'' else package),
               cr_versionKind =
                 (if version = ''*'' then selectorWildcard
                  else if hasComparisonOperator version then selectorRange else selectorExact),
               cr_version = None\<rparr> in
         if r_Ecosystem model \<noteq> ''*'' then
           bind_err (CompileVersionMatcher E (r_Ecosystem model) version)
             (\<lambda>matcher. Inr (compiled\<lparr>cr_version := Some matcher\<rparr>))
         else Inr compiled)"

subsection \<open>Specificity\<close>

record RuleSpecificity =
  sp_Priority :: int
  sp_Ecosystem :: int
  sp_Package :: int
  sp_Version :: int
  sp_Action :: int
  sp_ID :: uint

definition RuleSpecificity_Compare :: "RuleSpecificity \<Rightarrow> RuleSpecificity \<Rightarrow> int" where
  "RuleSpecificity_Compare s other =
     (if sp_Priority s \<noteq> sp_Priority other then (if sp_Priority s > sp_Priority other then 1 else -1)
      else if sp_Ecosystem s \<noteq> sp_Ecosystem other then (if sp_Ecosystem s > sp_Ecosystem other then 1 else -1)
      else if sp_Package s \<noteq> sp_Package other then (if sp_Package s > sp_Package other then 1 else -1)
      else if sp_Version s \<noteq> sp_Version other then (if sp_Version s > sp_Version other then 1 else -1)
      else if sp_Action s \<noteq> sp_Action other then (if sp_Action s > sp_Action other then 1 else -1)
      else if sp_ID s \<noteq> sp_ID other then (if sp_ID s > sp_ID other then 1 else -1)
      else 0)"

definition specificity :: "compiledRule \<Rightarrow> RuleSpecificity" where
  "specificity r = \<lparr>
     sp_Priority = 0,
     sp_Ecosystem = (if r_Ecosystem (cr_model r) \<noteq> ''*'' then 2 else 1),
     sp_Package = (case cr_packageKind r of selectorPrefix \<Rightarrow> 1 | selectorExact \<Rightarrow> 2 | _ \<Rightarrow> 0),
     sp_Version = (case cr_versionKind r of selectorRange \<Rightarrow> 1 | selectorExact \<Rightarrow> 2 | _ \<Rightarrow> 0),
     sp_Action = (if r_Action (cr_model r) = ''deny'' then 1 else 0),
     sp_ID = r_ID (cr_model r)\<rparr>"

text \<open>
  \<open>matchSpecificity\<close>: \<open>None\<close> when the rule does not match. \<open>selectorRange\<close> is never a package
  kind; the Go \<open>switch\<close> falls through for it.
\<close>

definition package_matches :: "compiledRule \<Rightarrow> string \<Rightarrow> bool" where
  "package_matches r normalizedPackage =
     (case cr_packageKind r of
        selectorPrefix \<Rightarrow> HasPrefix normalizedPackage (cr_packageValue r)
      | selectorExact \<Rightarrow> normalizedPackage = cr_packageValue r
      | _ \<Rightarrow> True)"

definition matchSpecificity ::
  "externals \<Rightarrow> compiledRule \<Rightarrow> string \<Rightarrow> string \<Rightarrow> string \<Rightarrow> gerror + RuleSpecificity option" where
  "matchSpecificity E r ecosystem normalizedPackage actualVersion =
     (if r_Ecosystem (cr_model r) \<noteq> ''*'' \<and> r_Ecosystem (cr_model r) \<noteq> ecosystem then Inr None
      else if \<not> package_matches r normalizedPackage then Inr None
      else if cr_versionKind r \<noteq> selectorWildcard then
        (if actualVersion = [] then Inr None
         else case cr_version r of
           None \<Rightarrow> Inl plain_error
         | Some matcher \<Rightarrow> bind_err (Match E matcher actualVersion) (\<lambda>matched.
             if matched then Inr (Some (specificity r)) else Inr None))
      else Inr (Some (specificity r)))"

record RuleMatchLevels =
  ml_Ecosystem :: string
  ml_Package :: string
  ml_Version :: string

definition matchLevels :: "compiledRule \<Rightarrow> RuleMatchLevels" where
  "matchLevels r = \<lparr>
     ml_Ecosystem = (if r_Ecosystem (cr_model r) = ''*'' then ''wildcard'' else ''exact''),
     ml_Package = (case cr_packageKind r of selectorPrefix \<Rightarrow> ''prefix'' | selectorExact \<Rightarrow> ''exact'' | _ \<Rightarrow> ''wildcard''),
     ml_Version = (case cr_versionKind r of selectorRange \<Rightarrow> ''range'' | selectorExact \<Rightarrow> ''exact'' | _ \<Rightarrow> ''wildcard'')\<rparr>"

subsection \<open>The request path\<close>

text \<open>The loop of \<open>selectBestCompiledRule\<close>; the accumulator is the pair of its two variables.\<close>

fun selectBestLoop ::
  "externals \<Rightarrow> compiledRule list \<Rightarrow> string \<Rightarrow> string \<Rightarrow> string \<Rightarrow> (PackageRule \<times> RuleSpecificity) option \<Rightarrow>
   gerror + (PackageRule \<times> RuleSpecificity) option" where
  "selectBestLoop E [] eco pkg ver best = Inr best"
| "selectBestLoop E (rule # rules) eco pkg ver best =
     (case matchSpecificity E rule eco pkg ver of
        Inl _ \<Rightarrow> Inl [ErrPolicyEvaluation]
      | Inr None \<Rightarrow> selectBestLoop E rules eco pkg ver best
      | Inr (Some s) \<Rightarrow>
          (case best of
             Some (_, bestSpecificity) \<Rightarrow>
               if RuleSpecificity_Compare s bestSpecificity \<le> 0
               then selectBestLoop E rules eco pkg ver best
               else selectBestLoop E rules eco pkg ver (Some (cr_model rule, s))
           | None \<Rightarrow> selectBestLoop E rules eco pkg ver (Some (cr_model rule, s))))"

definition selectBestCompiledRule ::
  "externals \<Rightarrow> compiledRule list \<Rightarrow> string \<Rightarrow> string \<Rightarrow> string \<Rightarrow> gerror + PackageRule option" where
  "selectBestCompiledRule E rules eco pkg ver =
     bind_err (selectBestLoop E rules eco pkg ver None) (\<lambda>best. Inr (map_option fst best))"

text \<open>
  The results of \<open>Check\<close> are \<open>(allowed, rule, err)\<close>. \<open>check_snapshot\<close> is the part of
  \<open>Check\<close> that follows a usable snapshot; \<open>normalized_request\<close> is the common prologue of
  \<open>Check\<close> and \<open>Explain\<close>.
\<close>

type_synonym decision = "bool \<times> PackageRule option \<times> gerror option"

definition rule_ecosystem :: "externals \<Rightarrow> string \<Rightarrow> gerror + string" where
  "rule_ecosystem E ecosystem =
     (let normalized = ToLower E (TrimSpace ecosystem) in
      case Lookup normalized of
        None \<Rightarrow> Inl [ErrPolicyEvaluation]
      | Some definition \<Rightarrow> if def_RuleEnforcement definition then Inr normalized else Inl [ErrPolicyEvaluation])"

definition normalized_request :: "externals \<Rightarrow> string \<Rightarrow> string \<Rightarrow> gerror + (string \<times> string)" where
  "normalized_request E ecosystem packageName =
     bind_err (rule_ecosystem E ecosystem) (\<lambda>eco.
       case DialectFor E eco of
         Inl _ \<Rightarrow> Inl [ErrPolicyEvaluation]
       | Inr dialect \<Rightarrow>
           (case NormalizePackageName E dialect packageName of
              Inl _ \<Rightarrow> Inl [ErrPolicyEvaluation]
            | Inr normalizedPackage \<Rightarrow> Inr (eco, normalizedPackage)))"

definition check_snapshot :: "externals \<Rightarrow> compiledRule list \<Rightarrow> string \<Rightarrow> string \<Rightarrow> string \<Rightarrow> decision" where
  "check_snapshot E rules ecosystem packageName version =
     (case bind_err (normalized_request E ecosystem packageName) (\<lambda>(eco, pkg).
        selectBestCompiledRule E rules eco pkg version) of
        Inl e \<Rightarrow> (False, None, Some e)
      | Inr None \<Rightarrow> (True, None, None)
      | Inr (Some bestRule) \<Rightarrow> (r_Action bestRule = ''allow'', Some bestRule, None))"

subsection \<open>The explanation\<close>

record RuleCandidate =
  cand_Rule :: PackageRule
  cand_Specificity :: RuleSpecificity
  cand_MatchLevels :: RuleMatchLevels
  cand_Matched :: bool
  cand_Selected :: bool
  cand_Explanation :: string

text \<open>\<open>Evaluation\<close> without \<open>PolicyStatus\<close>, which \<open>Explain\<close> fills in from the engine state.\<close>

record Evaluation =
  ev_Allowed :: bool
  ev_MatchedRule :: "PackageRule option"
  ev_Reason :: string
  ev_WinningRule :: "PackageRule option"
  ev_WinnerReason :: string
  ev_PrecedenceReason :: string
  ev_Winner :: "RuleCandidate option"
  ev_Candidates :: "RuleCandidate list"

definition fmt_d :: "int \<Rightarrow> string" where
  "fmt_d i = (if i < 0 then ''-'' @ FormatUint (nat (- i)) else FormatUint (nat i))"

definition explainCandidate :: "RuleSpecificity \<Rightarrow> string \<Rightarrow> string" where
  "explainCandidate s action =
     ''priority='' @ fmt_d (sp_Priority s) @ '' ecosystem='' @ fmt_d (sp_Ecosystem s) @
     '' package='' @ fmt_d (sp_Package s) @ '' version='' @ fmt_d (sp_Version s) @
     (if action = ''deny'' then '' deny='' else '' allow='') @ fmt_d (sp_Action s) @
     '' id='' @ FormatUint (unat (sp_ID s))"

definition defaultDecisionReason :: "string \<Rightarrow> string" where
  "defaultDecisionReason action = (if action = ''deny'' then ''matched deny rule'' else ''matched allow rule'')"

fun precedenceLoop :: "RuleSpecificity \<Rightarrow> RuleSpecificity list \<Rightarrow> string" where
  "precedenceLoop winner [] = ''stable_order''"
| "precedenceLoop winner (other # others) =
     (if sp_Priority winner \<noteq> sp_Priority other then ''priority''
      else if sp_Ecosystem winner \<noteq> sp_Ecosystem other then ''ecosystem_specificity''
      else if sp_Package winner \<noteq> sp_Package other then ''package_specificity''
      else if sp_Version winner \<noteq> sp_Version other then ''version_specificity''
      else if sp_Action winner \<noteq> sp_Action other then ''deny_tie_break''
      else if sp_ID winner \<noteq> sp_ID other then ''id_tie_break''
      else precedenceLoop winner others)"

definition precedenceReason :: "RuleCandidate list \<Rightarrow> string" where
  "precedenceReason candidates =
     (case candidates of
        [] \<Rightarrow> ''default_allow''
      | [_] \<Rightarrow> ''only_matching_rule''
      | c # cs \<Rightarrow> precedenceLoop (cand_Specificity c) (map cand_Specificity cs))"

text \<open>\<open>sort.SliceStable\<close>: elements are inserted one by one behind those they are not less than.\<close>

fun insertStable :: "('a \<Rightarrow> 'a \<Rightarrow> bool) \<Rightarrow> 'a \<Rightarrow> 'a list \<Rightarrow> 'a list" where
  "insertStable lt x [] = [x]"
| "insertStable lt x (y # ys) = (if lt x y then x # y # ys else y # insertStable lt x ys)"

definition SliceStable :: "('a \<Rightarrow> 'a \<Rightarrow> bool) \<Rightarrow> 'a list \<Rightarrow> 'a list" where
  "SliceStable lt xs = foldl (\<lambda>acc x. insertStable lt x acc) [] xs"

definition candidate :: "compiledRule \<Rightarrow> RuleSpecificity \<Rightarrow> RuleCandidate" where
  "candidate rule s = \<lparr>cand_Rule = cr_model rule, cand_Specificity = s, cand_MatchLevels = matchLevels rule,
     cand_Matched = True, cand_Selected = False,
     cand_Explanation = explainCandidate s (r_Action (cr_model rule))\<rparr>"

fun collectCandidates ::
  "externals \<Rightarrow> compiledRule list \<Rightarrow> string \<Rightarrow> string \<Rightarrow> string \<Rightarrow> gerror + RuleCandidate list" where
  "collectCandidates E [] eco pkg ver = Inr []"
| "collectCandidates E (rule # rules) eco pkg ver =
     (case matchSpecificity E rule eco pkg ver of
        Inl _ \<Rightarrow> Inl [ErrPolicyEvaluation]
      | Inr None \<Rightarrow> collectCandidates E rules eco pkg ver
      | Inr (Some s) \<Rightarrow>
          bind_err (collectCandidates E rules eco pkg ver) (\<lambda>cs. Inr (candidate rule s # cs)))"

definition candidateLess :: "RuleCandidate \<Rightarrow> RuleCandidate \<Rightarrow> bool" where
  "candidateLess a b \<longleftrightarrow> RuleSpecificity_Compare (cand_Specificity a) (cand_Specificity b) > 0"

definition evaluateCompiledRules ::
  "externals \<Rightarrow> compiledRule list \<Rightarrow> string \<Rightarrow> string \<Rightarrow> string \<Rightarrow> gerror + Evaluation" where
  "evaluateCompiledRules E rules eco pkg ver =
     bind_err (collectCandidates E rules eco pkg ver) (\<lambda>collected.
       case SliceStable candidateLess collected of
         [] \<Rightarrow> Inr \<lparr>ev_Allowed = True, ev_MatchedRule = None, ev_Reason = ''no matching rule; default allow'',
             ev_WinningRule = None, ev_WinnerReason = [], ev_PrecedenceReason = ''default_allow'',
             ev_Winner = None, ev_Candidates = []\<rparr>
       | c # cs \<Rightarrow>
           (let winner = c\<lparr>cand_Selected := True\<rparr>; candidates = winner # cs; winningRule = cand_Rule winner in
            Inr \<lparr>ev_Allowed = (r_Action winningRule = ''allow''), ev_MatchedRule = Some winningRule,
              ev_Reason = r_Reason winningRule, ev_WinningRule = Some winningRule,
              ev_WinnerReason = (if r_Reason winningRule = [] then defaultDecisionReason (r_Action winningRule)
                else r_Reason winningRule),
              ev_PrecedenceReason = precedenceReason candidates,
              ev_Winner = Some winner, ev_Candidates = candidates\<rparr>))"

definition explain_snapshot ::
  "externals \<Rightarrow> compiledRule list \<Rightarrow> string \<Rightarrow> string \<Rightarrow> string \<Rightarrow> gerror + Evaluation" where
  "explain_snapshot E rules ecosystem packageName version =
     bind_err (normalized_request E ecosystem packageName) (\<lambda>(eco, pkg).
       evaluateCompiledRules E rules eco pkg version)"

subsection \<open>Artifacts without a proven identity\<close>

definition in_scope :: "string \<Rightarrow> compiledRule \<Rightarrow> bool" where
  "in_scope ecosystem rule \<longleftrightarrow>
     \<not> (r_Ecosystem (cr_model rule) \<noteq> ''*'' \<and> r_Ecosystem (cr_model rule) \<noteq> ecosystem)"

definition unconditional :: "compiledRule \<Rightarrow> bool" where
  "unconditional rule \<longleftrightarrow> \<not> (cr_packageKind rule \<noteq> selectorWildcard \<or> cr_versionKind rule \<noteq> selectorWildcard)"

fun fallbackLoop ::
  "compiledRule list \<Rightarrow> string \<Rightarrow> (PackageRule \<times> RuleSpecificity) option \<Rightarrow> (PackageRule \<times> RuleSpecificity) option" where
  "fallbackLoop [] eco fallback = fallback"
| "fallbackLoop (rule # rules) eco fallback =
     (if \<not> in_scope eco rule then fallbackLoop rules eco fallback
      else if \<not> unconditional rule then fallbackLoop rules eco fallback
      else (case fallback of
          None \<Rightarrow> fallbackLoop rules eco (Some (cr_model rule, specificity rule))
        | Some (_, fallbackSpecificity) \<Rightarrow>
            if RuleSpecificity_Compare (specificity rule) fallbackSpecificity > 0
            then fallbackLoop rules eco (Some (cr_model rule, specificity rule))
            else fallbackLoop rules eco fallback))"

fun conflictLoop :: "compiledRule list \<Rightarrow> string \<Rightarrow> string \<Rightarrow> gerror option" where
  "conflictLoop [] eco fallbackAction = None"
| "conflictLoop (rule # rules) eco fallbackAction =
     (if \<not> in_scope eco rule then conflictLoop rules eco fallbackAction
      else if unconditional rule then conflictLoop rules eco fallbackAction
      else if r_Action (cr_model rule) \<noteq> fallbackAction then Some [ErrPolicyEvaluation]
      else conflictLoop rules eco fallbackAction)"

definition incomplete_snapshot :: "externals \<Rightarrow> compiledRule list \<Rightarrow> string \<Rightarrow> decision" where
  "incomplete_snapshot E rules ecosystem =
     (case rule_ecosystem E ecosystem of
        Inl e \<Rightarrow> (False, None, Some e)
      | Inr eco \<Rightarrow>
          (let fallback = fallbackLoop rules eco None;
               fallbackAction = (case fallback of None \<Rightarrow> ''allow'' | Some (rule, _) \<Rightarrow> r_Action rule) in
           case conflictLoop rules eco fallbackAction of
             Some e \<Rightarrow> (False, None, Some e)
           | None \<Rightarrow> (fallbackAction = ''allow'', map_option fst fallback, None)))"

subsection \<open>The order on specificities\<close>

lemma specificity_lex:
  "RuleSpecificity_Compare =
     lex_cmp (\<lambda>s t. int_cmp (sp_Priority s) (sp_Priority t))
     (lex_cmp (\<lambda>s t. int_cmp (sp_Ecosystem s) (sp_Ecosystem t))
     (lex_cmp (\<lambda>s t. int_cmp (sp_Package s) (sp_Package t))
     (lex_cmp (\<lambda>s t. int_cmp (sp_Version s) (sp_Version t))
     (lex_cmp (\<lambda>s t. int_cmp (sp_Action s) (sp_Action t))
       (\<lambda>s t. int_cmp (uint (sp_ID s)) (uint (sp_ID t)))))))"
  by (intro ext) (auto simp: RuleSpecificity_Compare_def lex_cmp_def int_cmp_def sgn_if word_less_def word_uint_eq_iff)

interpretation specificity: three_way RuleSpecificity_Compare
  unfolding specificity_lex
  by (intro lex_cmp_three_way image_three_way [OF int_cmp_three_way])

lemma specificity_exact: "RuleSpecificity_Compare s t = 0 \<longleftrightarrow> s = t"
  by (cases s; cases t) (simp add: RuleSpecificity_Compare_def)

text \<open>\<open>s\<close> is beaten by \<open>t\<close> or is equal to it.\<close>

abbreviation spec_le :: "RuleSpecificity \<Rightarrow> RuleSpecificity \<Rightarrow> bool" where
  "spec_le s t \<equiv> RuleSpecificity_Compare s t \<le> 0"

lemma spec_le_antisym: "spec_le s t \<Longrightarrow> spec_le t s \<Longrightarrow> s = t"
  using specificity.antisym [of s t] specificity_exact [of s t] by linarith

subsection \<open>Selecting the winner\<close>

text \<open>The matching rules of a request, in snapshot order.\<close>

definition matches :: "externals \<Rightarrow> compiledRule list \<Rightarrow> string \<Rightarrow> string \<Rightarrow> string \<Rightarrow> compiledRule list" where
  "matches E rules eco pkg ver =
     filter (\<lambda>r. matchSpecificity E r eco pkg ver = Inr (Some (specificity r))) rules"

definition evaluable :: "externals \<Rightarrow> compiledRule list \<Rightarrow> string \<Rightarrow> string \<Rightarrow> string \<Rightarrow> bool" where
  "evaluable E rules eco pkg ver \<longleftrightarrow> list_all (\<lambda>r. is_Inr (matchSpecificity E r eco pkg ver)) rules"

lemma matchSpecificity_Some:
  "matchSpecificity E r eco pkg ver = Inr (Some s) \<Longrightarrow> s = specificity r"
  by (auto simp: matchSpecificity_def split: if_splits option.splits)

text \<open>One pass that keeps the first of the most specific elements.\<close>

fun best_of :: "(compiledRule \<Rightarrow> bool) \<Rightarrow> compiledRule list \<Rightarrow> (PackageRule \<times> RuleSpecificity) option \<Rightarrow>
    (PackageRule \<times> RuleSpecificity) option" where
  "best_of P [] best = best"
| "best_of P (r # rs) best =
     best_of P rs
       (if P r \<and> (case best of None \<Rightarrow> True | Some (_, s) \<Rightarrow> \<not> spec_le (specificity r) s)
        then Some (cr_model r, specificity r) else best)"

lemma selectBestLoop_best_of:
  "selectBestLoop E rules eco pkg ver best =
     (if evaluable E rules eco pkg ver
      then Inr (best_of (\<lambda>r. matchSpecificity E r eco pkg ver = Inr (Some (specificity r))) rules best)
      else Inl [ErrPolicyEvaluation])"
proof (induction rules arbitrary: best)
  case (Cons r rs)
  show ?case
  proof (cases "matchSpecificity E r eco pkg ver")
    case (Inr o')
    then show ?thesis
      using Cons.IH matchSpecificity_Some [of E r eco pkg ver]
      by (cases o') (auto simp: evaluable_def split: option.splits)
  qed (simp add: evaluable_def)
qed (simp add: evaluable_def)

lemma fallbackLoop_best_of:
  "fallbackLoop rules eco best = best_of (\<lambda>r. in_scope eco r \<and> unconditional r) rules best"
  by (induction rules arbitrary: best) (auto split: option.splits)

lemma best_of_start: "best_of P rs (Some b) \<noteq> None"
  by (induction rs arbitrary: b) auto

lemma best_of_None: "best_of P rs None = None \<longleftrightarrow> filter P rs = []"
  by (induction rs) (simp_all add: best_of_start del: not_None_eq)

text \<open>The result is the maximum of what is seen and the start value, and comes from one of them.\<close>

lemma best_of_max:
  assumes "best_of P rs best = Some (m, s)"
  shows "(best = Some (m, s) \<or> (\<exists>r \<in> set (filter P rs). m = cr_model r \<and> s = specificity r)) \<and>
    (\<forall>m' s'. best = Some (m', s') \<longrightarrow> spec_le s' s) \<and> (\<forall>r \<in> set (filter P rs). spec_le (specificity r) s)"
  using assms
proof (induction rs arbitrary: best)
  case (Cons r rs)
  define next' where "next' = (if P r \<and> (case best of None \<Rightarrow> True | Some (_, s) \<Rightarrow> \<not> spec_le (specificity r) s)
        then Some (cr_model r, specificity r) else best)"
  have IH: "(next' = Some (m, s) \<or> (\<exists>r \<in> set (filter P rs). m = cr_model r \<and> s = specificity r)) \<and>
      (\<forall>m' s'. next' = Some (m', s') \<longrightarrow> spec_le s' s) \<and> (\<forall>r \<in> set (filter P rs). spec_le (specificity r) s)"
    using Cons by (simp add: next'_def)
  show ?case
  proof (cases "P r \<and> (case best of None \<Rightarrow> True | Some (_, s) \<Rightarrow> \<not> spec_le (specificity r) s)")
    case True
    then have n: "next' = Some (cr_model r, specificity r)" by (simp add: next'_def)
    have "spec_le s' (specificity r)" if "best = Some (m', s')" for m' s'
      using True that specificity.connex [of s' "specificity r"] by simp
    moreover have r: "spec_le (specificity r) s" using IH n by simp
    ultimately have "spec_le s' s" if "best = Some (m', s')" for m' s'
      using that specificity.le_trans by blast
    then show ?thesis using IH n True r by auto
  next
    case False
    then have n: "next' = best" by (simp only: next'_def if_False)
    moreover have "spec_le (specificity r) s" if P: "P r"
    proof -
      obtain m' s' where b: "best = Some (m', s')" "spec_le (specificity r) s'"
        using False P by (auto split: option.splits)
      then have "spec_le s' s" using IH n by blast
      with b(2) show ?thesis by (rule specificity.le_trans)
    qed
    ultimately show ?thesis using IH by auto
  qed
qed simp

lemma best_of_winner:
  assumes "best_of P rs None = Some (m, s)"
  obtains r where "r \<in> set rs" "P r" "m = cr_model r" "s = specificity r"
    "\<And>r'. r' \<in> set rs \<Longrightarrow> P r' \<Longrightarrow> spec_le (specificity r') (specificity r)"
  using best_of_max [OF assms] by auto

text \<open>
  A successful selection: nothing matches, or the winner matches and no matching rule beats
  it.
\<close>

lemma selectBest_None:
  "selectBestCompiledRule E rules eco pkg ver = Inr None \<longleftrightarrow>
     evaluable E rules eco pkg ver \<and> matches E rules eco pkg ver = []"
  by (auto simp: selectBestCompiledRule_def selectBestLoop_best_of best_of_None matches_def)

lemma selectBest_Some:
  assumes "selectBestCompiledRule E rules eco pkg ver = Inr (Some m)"
  obtains r where "r \<in> set (matches E rules eco pkg ver)" "m = cr_model r"
    "\<And>r'. r' \<in> set (matches E rules eco pkg ver) \<Longrightarrow> spec_le (specificity r') (specificity r)"
proof -
  obtain s where "best_of (\<lambda>r. matchSpecificity E r eco pkg ver = Inr (Some (specificity r))) rules None = Some (m, s)"
    using assms by (auto simp: selectBestCompiledRule_def selectBestLoop_best_of split: if_splits)
  then show ?thesis using that by (rule best_of_winner) (auto simp: matches_def)
qed

lemma selectBest_evaluable:
  "selectBestCompiledRule E rules eco pkg ver = Inr x \<Longrightarrow> evaluable E rules eco pkg ver"
  by (auto simp: selectBestCompiledRule_def selectBestLoop_best_of split: if_splits)

lemma selectBest_total:
  "is_Inr (selectBestCompiledRule E rules eco pkg ver) \<longleftrightarrow> evaluable E rules eco pkg ver"
  by (simp add: selectBestCompiledRule_def selectBestLoop_best_of)

subsection \<open>Explanation and request path agree\<close>

lemma collectCandidates_matches:
  "collectCandidates E rules eco pkg ver =
     (if evaluable E rules eco pkg ver
      then Inr (map (\<lambda>r. candidate r (specificity r)) (matches E rules eco pkg ver))
      else Inl [ErrPolicyEvaluation])"
proof (induction rules)
  case (Cons r rs)
  consider e where "matchSpecificity E r eco pkg ver = Inl e"
    | "matchSpecificity E r eco pkg ver = Inr None"
    | "matchSpecificity E r eco pkg ver = Inr (Some (specificity r))"
    by (metis matchSpecificity_Some option.exhaust sum.exhaust)
  then show ?case using Cons by cases (simp_all add: evaluable_def matches_def)
qed (simp add: evaluable_def matches_def)

lemma insertStable_mset: "mset (insertStable lt x ys) = add_mset x (mset ys)"
  by (induction ys) auto

lemma SliceStable_mset: "mset (SliceStable lt xs) = mset xs"
proof -
  have "mset (foldl (\<lambda>acc x. insertStable lt x acc) ys xs) = mset ys + mset xs" for ys
    by (induction xs arbitrary: ys) (simp_all add: insertStable_mset)
  then show ?thesis by (simp add: SliceStable_def)
qed

text \<open>The head of the sorted list is the rule that the single pass keeps.\<close>

definition head_of :: "RuleCandidate list \<Rightarrow> (PackageRule \<times> RuleSpecificity) option" where
  "head_of cs = (case cs of [] \<Rightarrow> None | c # _ \<Rightarrow> Some (cand_Rule c, cand_Specificity c))"

lemma head_insertStable:
  "head_of (insertStable candidateLess (candidate r (specificity r)) cs) =
     (case head_of cs of
        None \<Rightarrow> Some (cr_model r, specificity r)
      | Some (m, s) \<Rightarrow> if \<not> spec_le (specificity r) s then Some (cr_model r, specificity r) else Some (m, s))"
  by (cases cs) (auto simp: head_of_def candidateLess_def candidate_def)

lemma head_SliceStable:
  "head_of (foldl (\<lambda>acc x. insertStable candidateLess x acc) cs (map (\<lambda>r. candidate r (specificity r)) (filter P rs))) =
     best_of P rs (head_of cs)"
  by (induction rs arbitrary: cs) (auto simp: head_insertStable split: option.splits)

lemma evaluate_head:
  assumes "evaluable E rules eco pkg ver"
  shows "head_of (SliceStable candidateLess (map (\<lambda>r. candidate r (specificity r)) (matches E rules eco pkg ver))) =
    best_of (\<lambda>r. matchSpecificity E r eco pkg ver = Inr (Some (specificity r))) rules None"
  using head_SliceStable [of "[]"] by (simp add: SliceStable_def matches_def head_of_def)

lemma evaluate_select:
  "(case evaluateCompiledRules E rules eco pkg ver of
      Inl e \<Rightarrow> Inl e | Inr ev \<Rightarrow> Inr (ev_MatchedRule ev)) = selectBestCompiledRule E rules eco pkg ver"
proof (cases "evaluable E rules eco pkg ver")
  case True
  let ?cs = "SliceStable candidateLess (map (\<lambda>r. candidate r (specificity r)) (matches E rules eco pkg ver))"
  have "selectBestCompiledRule E rules eco pkg ver = Inr (map_option fst (head_of ?cs))"
    using True evaluate_head [OF True] by (simp add: selectBestCompiledRule_def selectBestLoop_best_of)
  then show ?thesis
    using True
    by (cases ?cs) (simp_all add: evaluateCompiledRules_def collectCandidates_matches head_of_def Let_def)
qed (simp add: evaluateCompiledRules_def collectCandidates_matches selectBestCompiledRule_def selectBestLoop_best_of)

subsection \<open>Compiled rules\<close>

definition prepared_of_model :: "PackageRule \<Rightarrow> PreparedRule" where
  "prepared_of_model m =
     \<lparr>pr_Ecosystem = r_Ecosystem m, pr_PackageName = r_PackageName m, pr_Version = r_Version m,
      pr_NormalizedPackageName = r_NormalizedPackageName m, pr_NormalizedVersion = r_NormalizedVersion m,
      pr_DialectRevision = r_DialectRevision m\<rparr>"

definition untampered :: "externals \<Rightarrow> PackageRule \<Rightarrow> bool" where
  "untampered E m \<longleftrightarrow> PrepareRule E (raw_of_model m) = Inr (prepared_of_model m) \<and>
     (r_Action m = ''allow'' \<or> r_Action m = ''deny'')"

lemma prepared_of_model_eq:
  "p = prepared_of_model m \<longleftrightarrow>
     r_Ecosystem m = pr_Ecosystem p \<and> r_PackageName m = pr_PackageName p \<and> r_Version m = pr_Version p \<and>
     r_NormalizedPackageName m = pr_NormalizedPackageName p \<and>
     r_NormalizedVersion m = pr_NormalizedVersion p \<and> r_DialectRevision m = pr_DialectRevision p"
  by (cases p) (auto simp: prepared_of_model_def)

lemma compile_untampered:
  assumes "compilePersistedRule E m = Inr c"
  shows "untampered E m" and "cr_model c = m"
    and "cr_versionKind c = selectorWildcard \<longleftrightarrow> r_NormalizedVersion m = ''*''"
    and "r_Ecosystem m \<noteq> ''*'' \<longrightarrow>
      (\<exists>k. cr_version c = Some k \<and> CompileVersionMatcher E (r_Ecosystem m) (r_NormalizedVersion m) = Inr k)"
    and "cr_packageKind c = selectorWildcard \<longleftrightarrow> r_NormalizedPackageName m = ''*''"
  using assms
  by (auto simp: compilePersistedRule_def untampered_def prepared_of_model_eq Let_def split: if_splits)

lemma untampered_version:
  assumes "untampered E m"
  shows "r_Ecosystem m = ''*'' \<and> r_NormalizedVersion m = ''*'' \<or>
    (\<exists>d s. DialectFor E (r_Ecosystem m) = Inr d \<and> ruleEnforcementRevision1 (r_Ecosystem m) \<and>
       normalizeVersionSelector E d s = Inr (r_NormalizedVersion m))"
proof -
  have "PrepareRule E (raw_of_model m) = Inr (prepared_of_model m)" using assms by (simp add: untampered_def)
  then show ?thesis by (cases rule: PrepareRule_cases) (auto simp: prepared_of_model_def DialectFor_def)
qed

lemma untampered_compiles:
  assumes "lower_english_ok E" and "lower_english_marks E" and "untampered E m"
  shows "is_Inr (compilePersistedRule E m)"
proof -
  have p: "PrepareRule E (raw_of_model m) = Inr (prepared_of_model m)" "r_Action m = ''allow'' \<or> r_Action m = ''deny''"
    using assms(3) by (simp_all add: untampered_def)
  have "is_Inr (CompileVersionMatcher E (r_Ecosystem m) (r_NormalizedVersion m))" if "r_Ecosystem m \<noteq> ''*''"
    using untampered_version [OF assms(3)] compile_normal_selector [OF assms(1,2)] that
    unfolding is_Inr_iff by blast
  then show ?thesis using p by (auto simp: compilePersistedRule_def prepared_of_model_def Let_def is_Inr_iff)
qed

definition compiled_snapshot :: "externals \<Rightarrow> compiledRule list \<Rightarrow> bool" where
  "compiled_snapshot E rules \<longleftrightarrow> (\<forall>c \<in> set rules. compilePersistedRule E (cr_model c) = Inr c)"

lemma normalized_request_eco:
  assumes "normalized_request E ecosystem name = Inr (eco, pkg)"
  shows "rule_ecosystem E ecosystem = Inr eco" and "ruleEnforcementRevision1 eco"
proof -
  show "rule_ecosystem E ecosystem = Inr eco"
  proof (cases "rule_ecosystem E ecosystem")
    case (Inr x)
    then show ?thesis using assms by (simp add: normalized_request_def split: sum.split_asm)
  qed (use assms in \<open>simp add: normalized_request_def\<close>)
  then show "ruleEnforcementRevision1 eco"
    using catalog_enforcement by (auto simp: rule_ecosystem_def Let_def split: option.splits if_splits)
qed

lemma compiled_evaluable:
  assumes "lower_english_ok E" and "lower_english_marks E" and "compiled_snapshot E rules"
    and "DialectFor E eco = Inr d" and "ver = [] \<or> ValidateVersion E d ver = None"
  shows "evaluable E rules eco pkg ver"
  unfolding evaluable_def list_all_iff
proof
  fix c assume c: "c \<in> set rules"
  then have comp: "compilePersistedRule E (cr_model c) = Inr c" using assms(3) by (simp add: compiled_snapshot_def)
  note f = compile_untampered [OF comp]
  show "is_Inr (matchSpecificity E c eco pkg ver)"
  proof (cases "cr_versionKind c = selectorWildcard \<or> r_Ecosystem (cr_model c) = ''*'' \<or> r_Ecosystem (cr_model c) \<noteq> eco")
    case True
    have "r_Ecosystem (cr_model c) = ''*'' \<longrightarrow> cr_versionKind c = selectorWildcard"
      using untampered_version [OF f(1)] f(3) by (auto simp: ruleEnforcementRevision1_def)
    then show ?thesis using True by (auto simp: matchSpecificity_def)
  next
    case False
    then obtain k where k: "cr_version c = Some k" "CompileVersionMatcher E eco (r_NormalizedVersion (cr_model c)) = Inr k"
      using f(4) by auto
    obtain d' s where "DialectFor E eco = Inr d'" "normalizeVersionSelector E d' s = Inr (r_NormalizedVersion (cr_model c))"
      using untampered_version [OF f(1)] False by blast
    then have "normalizeVersionSelector E d s = Inr (r_NormalizedVersion (cr_model c))" using assms(4) by simp
    from compile_normal_selector [OF assms(1,2,4) this] k(2)
    have "ver \<noteq> [] \<longrightarrow> is_Inr (Match E k ver)" using assms(5) by auto
    then show ?thesis using k(1)
      by (cases "ver = []"; cases "Match E k ver") (simp_all add: matchSpecificity_def)
  qed
qed

subsection \<open>Incomplete artifacts\<close>

lemma conflictLoop_None:
  "conflictLoop rules eco action = None \<longleftrightarrow>
     (\<forall>c \<in> set rules. in_scope eco c \<and> \<not> unconditional c \<longrightarrow> r_Action (cr_model c) = action)"
  by (induction rules) auto

lemma matches_scope: "c \<in> set (matches E rules eco pkg ver) \<Longrightarrow> c \<in> set rules \<and> in_scope eco c"
  by (auto simp: matches_def matchSpecificity_def in_scope_def split: if_splits)

lemma unconditional_matches:
  "c \<in> set rules \<Longrightarrow> in_scope eco c \<Longrightarrow> unconditional c \<Longrightarrow> c \<in> set (matches E rules eco pkg ver)"
  by (simp add: matches_def matchSpecificity_def in_scope_def unconditional_def package_matches_def)

lemma same_specificity_action:
  assumes "specificity c = specificity c'"
  shows "r_Action (cr_model c) = ''deny'' \<longleftrightarrow> r_Action (cr_model c') = ''deny''"
proof -
  have "sp_Action (specificity c) = sp_Action (specificity c')" using assms by simp
  then show ?thesis by (simp add: specificity_def split: if_splits)
qed

text \<open>The winner of a complete request has the action of the unconditional fallback.\<close>

lemma fallback_decides:
  assumes snap: "compiled_snapshot E rules"
    and conf: "conflictLoop rules eco (case fallbackLoop rules eco None of
      None \<Rightarrow> ''allow'' | Some (rule, _) \<Rightarrow> r_Action rule) = None"
    and sel: "selectBestCompiledRule E rules eco pkg ver = Inr (Some m)"
  shows "r_Action m = (case fallbackLoop rules eco None of None \<Rightarrow> ''allow'' | Some (rule, _) \<Rightarrow> r_Action rule)"
proof -
  from sel obtain c where c: "c \<in> set (matches E rules eco pkg ver)" "m = cr_model c"
    and max: "\<And>c'. c' \<in> set (matches E rules eco pkg ver) \<Longrightarrow> spec_le (specificity c') (specificity c)"
    by (metis selectBest_Some)
  note sc = matches_scope [OF c(1)]
  show ?thesis
  proof (cases "unconditional c")
    case False
    then show ?thesis using conf c(2) sc unfolding conflictLoop_None by blast
  next
    case True
    obtain f s where f: "fallbackLoop rules eco None = Some (f, s)"
      using True sc best_of_None [of "\<lambda>r. in_scope eco r \<and> unconditional r" rules]
      by (cases "fallbackLoop rules eco None") (auto simp: fallbackLoop_best_of filter_empty_conv)
    then obtain c' where c': "c' \<in> set rules" "in_scope eco c'" "unconditional c'" "f = cr_model c'"
      and max': "\<And>r. r \<in> set rules \<Longrightarrow> in_scope eco r \<and> unconditional r \<Longrightarrow> spec_le (specificity r) (specificity c')"
      unfolding fallbackLoop_best_of by (rule best_of_winner) blast
    have "specificity c = specificity c'"
      using max [OF unconditional_matches [OF c'(1-3)]] max' [of c] sc True by (intro spec_le_antisym) auto
    then have "r_Action m = ''deny'' \<longleftrightarrow> r_Action f = ''deny''"
      using same_specificity_action c(2) c'(4) by blast
    moreover have "r_Action (cr_model x) = ''allow'' \<or> r_Action (cr_model x) = ''deny''" if "x \<in> set rules" for x
      using snap that compile_untampered(1) unfolding compiled_snapshot_def untampered_def by blast
    ultimately have "r_Action m = r_Action f" using c(2) c'(1,4) sc by metis
    then show ?thesis using f by simp
  qed
qed

subsection \<open>Properties\<close>

text \<open>
  C27: The decision of the request path. When a check succeeds, either no rule of the
  snapshot matches and the request is allowed without a rule, or the reported rule is a
  matching rule that no other matching rule beats in specificity, and the request is allowed
  exactly when its action is \<open>allow\<close>.
\<close>

theorem check_reports_most_specific_rule:
  assumes "normalized_request E ecosystem name = Inr (eco, pkg)"
    and "check_snapshot E rules ecosystem name ver = (allowed, rule, None)"
  shows "matches E rules eco pkg ver = [] \<and> allowed \<and> rule = None \<or>
    (\<exists>c \<in> set (matches E rules eco pkg ver). rule = Some (cr_model c) \<and>
      allowed = (r_Action (cr_model c) = ''allow'') \<and>
      (\<forall>c' \<in> set (matches E rules eco pkg ver). RuleSpecificity_Compare (specificity c') (specificity c) \<le> 0))"
proof (cases "selectBestCompiledRule E rules eco pkg ver")
  case (Inr best)
  show ?thesis
  proof (cases best)
    case None
    then have "matches E rules eco pkg ver = []" using Inr selectBest_None by blast
    moreover have "allowed" "rule = None" using None Inr assms by (simp_all add: check_snapshot_def)
    ultimately have "matches E rules eco pkg ver = []" "allowed" "rule = None" by simp_all
    then show ?thesis by simp
  next
    case (Some m)
    then have r: "rule = Some m" "allowed = (r_Action m = ''allow'')"
      using Inr assms by (simp_all add: check_snapshot_def)
    from Inr Some have "selectBestCompiledRule E rules eco pkg ver = Inr (Some m)" by simp
    then show ?thesis by (rule selectBest_Some) (use r in blast)
  qed
qed (use assms in \<open>simp add: check_snapshot_def\<close>)

text \<open>
  The decision does not depend on the order of the rows: two snapshots with the same
  rows, whose identifiers are distinct, give the same decision, the same rule and the same
  error on every request.
\<close>

theorem check_order_independent:
  assumes "mset rules = mset rules'" and "distinct (map (r_ID \<circ> cr_model) rules)"
  shows "check_snapshot E rules ecosystem name ver = check_snapshot E rules' ecosystem name ver"
proof -
  have set: "set rules = set rules'" using assms(1) by (metis set_mset_mset)
  have same: "selectBestCompiledRule E rules eco pkg ver = selectBestCompiledRule E rules' eco pkg ver" for eco pkg
  proof (cases "evaluable E rules eco pkg ver")
    case False
    moreover have "\<not> evaluable E rules' eco pkg ver" using False set by (simp add: evaluable_def list_all_iff)
    ultimately show ?thesis by (simp add: selectBestCompiledRule_def selectBestLoop_best_of)
  next
    case True
    then have ev: "evaluable E rules' eco pkg ver" using set by (simp add: evaluable_def list_all_iff)
    have m: "set (matches E rules eco pkg ver) = set (matches E rules' eco pkg ver)" using set by (simp add: matches_def)
    obtain b b' where b: "selectBestCompiledRule E rules eco pkg ver = Inr b" "selectBestCompiledRule E rules' eco pkg ver = Inr b'"
      using True ev selectBest_total by (metis is_Inr_iff)
    show ?thesis
    proof (cases "matches E rules eco pkg ver = []")
      case True
      then have "matches E rules' eco pkg ver = []" using m by simp
      then show ?thesis using True ev \<open>evaluable E rules eco pkg ver\<close> selectBest_None by metis
    next
      case False
      then obtain x x' where x: "b = Some x" "b' = Some x'" using b m selectBest_None by (metis option.exhaust set_empty)
      from b(1) x(1) obtain c where c: "c \<in> set (matches E rules eco pkg ver)" "x = cr_model c"
        "\<And>r. r \<in> set (matches E rules eco pkg ver) \<Longrightarrow> spec_le (specificity r) (specificity c)"
        by (metis selectBest_Some)
      from b(2) x(2) obtain c' where c': "c' \<in> set (matches E rules eco pkg ver)" "x' = cr_model c'"
        "\<And>r. r \<in> set (matches E rules eco pkg ver) \<Longrightarrow> spec_le (specificity r) (specificity c')"
        using m by (metis selectBest_Some)
      have "specificity c = specificity c'" using c(1,3) c'(1,3) spec_le_antisym by blast
      then have "sp_ID (specificity c) = sp_ID (specificity c')" by simp
      then have "r_ID (cr_model c) = r_ID (cr_model c')" by (simp add: specificity_def)
      moreover have "c \<in> set rules" "c' \<in> set rules" using c(1) c'(1) matches_scope by blast+
      ultimately have "c = c'" using assms(2) by (simp add: distinct_map inj_on_def)
      then show ?thesis using b x c(2) c'(2) by simp
    qed
  qed
  then show ?thesis by (simp add: check_snapshot_def)
qed

text \<open>
  A deny is never outvoted by an allow of the same shape: if a request is allowed by a
  rule, then every matching deny rule has a selector of strictly lower specificity in the
  order ecosystem, package, version.
\<close>

theorem deny_beats_allow_of_same_shape:
  assumes "normalized_request E ecosystem name = Inr (eco, pkg)"
    and "check_snapshot E rules ecosystem name ver = (True, Some m, None)"
    and "d \<in> set (matches E rules eco pkg ver)" and "r_Action (cr_model d) = ''deny''"
  shows "\<exists>c \<in> set (matches E rules eco pkg ver). cr_model c = m \<and>
    (sp_Ecosystem (specificity d) < sp_Ecosystem (specificity c) \<or>
     sp_Ecosystem (specificity d) = sp_Ecosystem (specificity c) \<and>
       (sp_Package (specificity d) < sp_Package (specificity c) \<or>
        sp_Package (specificity d) = sp_Package (specificity c) \<and>
          sp_Version (specificity d) < sp_Version (specificity c)))"
proof -
  have "selectBestCompiledRule E rules eco pkg ver = Inr (Some m) \<and> r_Action m = ''allow''"
    using assms(1,2) by (simp add: check_snapshot_def split: sum.splits option.splits)
  then obtain c where c: "c \<in> set (matches E rules eco pkg ver)" "m = cr_model c" "r_Action m = ''allow''"
    and max: "spec_le (specificity d) (specificity c)"
    using assms(3) by (metis selectBest_Some)
  have act: "sp_Action (specificity d) = 1" "sp_Action (specificity c) = 0"
    "sp_Priority (specificity d) = sp_Priority (specificity c)"
    using assms(4) c(2,3) by (simp_all add: specificity_def)
  have "sp_Ecosystem (specificity d) < sp_Ecosystem (specificity c) \<or>
     sp_Ecosystem (specificity d) = sp_Ecosystem (specificity c) \<and>
       (sp_Package (specificity d) < sp_Package (specificity c) \<or>
        sp_Package (specificity d) = sp_Package (specificity c) \<and>
          sp_Version (specificity d) < sp_Version (specificity c))"
    using max act by (auto simp: RuleSpecificity_Compare_def split: if_splits)
  then show ?thesis using c(1,2) by blast
qed

text \<open>
  The explanation shown to the operator is the decision of the request path: for the
  same snapshot and request, \<open>Explain\<close> fails exactly when \<open>Check\<close> does and with the same
  error, and otherwise reports the same permission and the same rule. The candidates are the
  matching rules, each once, and the first one is the winner.
\<close>

theorem explain_agrees_with_check:
  "case explain_snapshot E rules ecosystem name ver of
     Inl e \<Rightarrow> check_snapshot E rules ecosystem name ver = (False, None, Some e)
   | Inr ev \<Rightarrow> check_snapshot E rules ecosystem name ver = (ev_Allowed ev, ev_MatchedRule ev, None) \<and>
       ev_MatchedRule ev = map_option cand_Rule (ev_Winner ev) \<and>
       (\<exists>eco pkg. normalized_request E ecosystem name = Inr (eco, pkg) \<and>
         mset (map cand_Rule (ev_Candidates ev)) = mset (map cr_model (matches E rules eco pkg ver)))"
proof (cases "normalized_request E ecosystem name")
  case (Inr ep)
  obtain eco pkg where ep: "ep = (eco, pkg)" by (cases ep)
  let ?cs = "SliceStable candidateLess (map (\<lambda>r. candidate r (specificity r)) (matches E rules eco pkg ver))"
  have ms: "mset (map cand_Rule ?cs) = mset (map cr_model (matches E rules eco pkg ver))"
  proof -
    have "mset (map cand_Rule ?cs) = image_mset cand_Rule (mset ?cs)" by simp
    also have "\<dots> = mset (map cr_model (matches E rules eco pkg ver))"
      by (simp add: SliceStable_mset candidate_def image_mset.compositionality o_def)
    finally show ?thesis .
  qed
  note sel = evaluate_select [of E rules eco pkg ver]
  show ?thesis
  proof (cases "evaluable E rules eco pkg ver")
    case True
    then show ?thesis
      using Inr ep ms sel
      by (cases ?cs)
         (auto simp: explain_snapshot_def check_snapshot_def evaluateCompiledRules_def collectCandidates_matches Let_def
           dest!: sym [of _ "selectBestCompiledRule E rules eco pkg ver"])
  next
    case False
    then show ?thesis
      using Inr ep sel
      by (auto simp: explain_snapshot_def check_snapshot_def evaluateCompiledRules_def collectCandidates_matches
           dest!: sym [of _ "selectBestCompiledRule E rules eco pkg ver"])
  qed
qed (simp add: explain_snapshot_def check_snapshot_def)

text \<open>
  The decision on an artifact whose identity is not proven is safe: if it is made
  without an error, then every complete request of that ecosystem that can be evaluated gets
  the same permission, whatever package and version it names.
\<close>

theorem incomplete_artifact_safe:
  assumes "compiled_snapshot E rules" and "incomplete_snapshot E rules ecosystem = (allowed, rule, None)"
    and "check_snapshot E rules ecosystem name ver = (allowed', rule', None)"
  shows "allowed' = allowed"
proof -
  obtain eco where eco: "rule_ecosystem E ecosystem = Inr eco"
    using assms(2) by (cases "rule_ecosystem E ecosystem") (simp_all add: incomplete_snapshot_def)
  define act where "act = (case fallbackLoop rules eco None of None \<Rightarrow> ''allow'' | Some (rule, _) \<Rightarrow> r_Action rule)"
  have inc: "conflictLoop rules eco act = None" "allowed = (act = ''allow'')"
    using assms(2) eco by (simp_all add: incomplete_snapshot_def act_def [symmetric] Let_def split: option.splits)
  obtain pkg where req: "normalized_request E ecosystem name = Inr (eco, pkg)"
  proof (cases "normalized_request E ecosystem name")
    case (Inr ep)
    then show ?thesis using that eco normalized_request_eco(1) by (cases ep) fastforce
  qed (use assms(3) in \<open>simp add: check_snapshot_def\<close>)
  obtain b where sel: "selectBestCompiledRule E rules eco pkg ver = Inr b"
    using assms(3) req by (cases "selectBestCompiledRule E rules eco pkg ver") (simp_all add: check_snapshot_def)
  show ?thesis
  proof (cases b)
    case None
    have "fallbackLoop rules eco None = None"
      using sel None unconditional_matches [of _ rules eco E pkg ver] selectBest_None [of E rules eco pkg ver]
      by (auto simp: fallbackLoop_best_of best_of_None filter_empty_conv)
    then show ?thesis using assms(3) req sel None inc by (simp add: check_snapshot_def act_def)
  next
    case (Some m)
    then have "r_Action m = act"
      using fallback_decides [OF assms(1)] inc(1) sel unfolding act_def by blast
    then show ?thesis using assms(3) req sel Some inc(2) by (simp add: check_snapshot_def)
  qed
qed

text \<open>
  The integrity check of the engine: a stored row compiles exactly when its normalised
  columns are the output of the current preparation on its display columns and its action is
  one of the two. Every other row, and so every edit behind the store's back, is refused.
\<close>

theorem compile_accepts_exactly_untampered:
  assumes "lower_english_ok E" and "lower_english_marks E"
  shows "is_Inr (compilePersistedRule E m) \<longleftrightarrow>
    PrepareRule E (raw_of_model m) = Inr (prepared_of_model m) \<and> (r_Action m = ''allow'' \<or> r_Action m = ''deny'')"
  using compile_untampered(1) untampered_compiles [OF assms] unfolding is_Inr_iff untampered_def by blast

text \<open>
  A well-formed request always gets a decision: over a compiled snapshot, if the
  ecosystem is enforced, the name is valid and the version is empty or valid in the dialect,
  then the check returns no error.
\<close>

theorem well_formed_request_is_decided:
  assumes "lower_english_ok E" and "lower_english_marks E" and "compiled_snapshot E rules"
    and "normalized_request E ecosystem name = Inr (eco, pkg)" and "DialectFor E eco = Inr d"
    and "ver = [] \<or> ValidateVersion E d ver = None"
  shows "\<exists>allowed rule. check_snapshot E rules ecosystem name ver = (allowed, rule, None)"
proof -
  have "is_Inr (selectBestCompiledRule E rules eco pkg ver)"
    using compiled_evaluable [OF assms(1-3,5,6)] selectBest_total by blast
  then obtain b where "selectBestCompiledRule E rules eco pkg ver = Inr b" by (auto simp: is_Inr_iff)
  then show ?thesis using assms(4) by (cases b) (auto simp: check_snapshot_def)
qed

subsection \<open>A concrete snapshot\<close>

definition sample_rule :: "uint \<Rightarrow> string \<Rightarrow> string \<Rightarrow> string \<Rightarrow> string \<Rightarrow> PackageRule" where
  "sample_rule i eco pkg ver action =
     \<lparr>r_ID = i, r_Ecosystem = eco, r_PackageName = pkg, r_Version = ver, r_Action = action, r_Reason = [],
      r_CreatedBy = [], r_CreatedAt = 0, r_UpdatedAt = 0, r_NormalizedPackageName = pkg,
      r_NormalizedVersion = ver, r_DialectRevision = 1\<rparr>"

definition sample_models :: "PackageRule list" where
  "sample_models =
     [sample_rule 1 ''npm'' ''left-pad'' ''>= 1.0.0'' ''allow'',
      sample_rule 2 ''npm'' ''left-*'' ''*'' ''deny'',
      sample_rule 3 ''npm'' ''left-pad'' ''>= 1.2.0'' ''deny'']"

definition sample_snapshot :: "compiledRule list" where
  "sample_snapshot = map (\<lambda>m. projr (compilePersistedRule ascii_externals m)) sample_models"

lemma ascii_marks: "lower_english_marks ascii_externals"
  by (simp add: lower_english_marks_def ascii_externals_def)

lemma compiled_snapshot_map:
  assumes "list_all (\<lambda>m. is_Inr (compilePersistedRule E m)) ms"
  shows "compiled_snapshot E (map (\<lambda>m. projr (compilePersistedRule E m)) ms)"
  using assms compile_untampered(2) by (fastforce simp: compiled_snapshot_def list_all_iff is_Inr_iff)

lemma sample_compiled: "compiled_snapshot ascii_externals sample_snapshot"
  unfolding sample_snapshot_def by (rule compiled_snapshot_map) code_simp

lemma sample_request:
  "normalized_request ascii_externals ''npm'' ''left-pad'' = Inr (''npm'', ''left-pad'')"
  by code_simp

lemma sample_deny:
  "check_snapshot ascii_externals sample_snapshot ''npm'' ''left-pad'' ''1.3.0'' =
     (False, Some (sample_rule 3 ''npm'' ''left-pad'' ''>= 1.2.0'' ''deny''), None)"
  by code_simp

lemma sample_allow:
  "check_snapshot ascii_externals sample_snapshot ''npm'' ''left-pad'' ''1.1.0'' =
     (True, Some (sample_rule 1 ''npm'' ''left-pad'' ''>= 1.0.0'' ''allow''), None)"
  by code_simp

theorem check_reports_most_specific_rule_witness:
  "\<exists>c \<in> set (matches ascii_externals sample_snapshot ''npm'' ''left-pad'' ''1.3.0'').
     cr_model c = sample_rule 3 ''npm'' ''left-pad'' ''>= 1.2.0'' ''deny'' \<and>
     (\<forall>c' \<in> set (matches ascii_externals sample_snapshot ''npm'' ''left-pad'' ''1.3.0'').
        RuleSpecificity_Compare (specificity c') (specificity c) \<le> 0)"
  using check_reports_most_specific_rule [OF sample_request sample_deny] by fastforce

theorem check_order_independent_witness:
  "check_snapshot ascii_externals (rev sample_snapshot) ''npm'' ''left-pad'' ''1.3.0'' =
     (False, Some (sample_rule 3 ''npm'' ''left-pad'' ''>= 1.2.0'' ''deny''), None)"
proof -
  have "map (r_ID \<circ> cr_model) sample_snapshot = [1, 2, 3]" by code_simp
  then have "distinct (map (r_ID \<circ> cr_model) sample_snapshot)" by simp
  then show ?thesis
    using check_order_independent [of sample_snapshot "rev sample_snapshot"] sample_deny by simp
qed

theorem deny_beats_allow_of_same_shape_witness:
  "\<exists>c d. c \<in> set sample_snapshot \<and> d \<in> set sample_snapshot \<and> r_Action (cr_model d) = ''deny'' \<and>
     cr_model c = sample_rule 1 ''npm'' ''left-pad'' ''>= 1.0.0'' ''allow'' \<and>
     sp_Package (specificity d) < sp_Package (specificity c)"
proof -
  let ?d = "projr (compilePersistedRule ascii_externals (sample_rule 2 ''npm'' ''left-*'' ''*'' ''deny''))"
  have "case matchSpecificity ascii_externals ?d ''npm'' ''left-pad'' ''1.1.0'' of
      Inr (Some s) \<Rightarrow> s = specificity ?d | _ \<Rightarrow> False" by code_simp
  then have "matchSpecificity ascii_externals ?d ''npm'' ''left-pad'' ''1.1.0'' = Inr (Some (specificity ?d))"
    by (simp split: sum.splits option.splits)
  then have d: "?d \<in> set (matches ascii_externals sample_snapshot ''npm'' ''left-pad'' ''1.1.0'')"
    by (simp add: matches_def sample_snapshot_def sample_models_def)
  have act: "r_Action (cr_model ?d) = ''deny''" "sp_Ecosystem (specificity ?d) = 2" "sp_Package (specificity ?d) = 1"
    by code_simp+
  obtain c where c: "c \<in> set (matches ascii_externals sample_snapshot ''npm'' ''left-pad'' ''1.1.0'')"
    "cr_model c = sample_rule 1 ''npm'' ''left-pad'' ''>= 1.0.0'' ''allow''"
    "sp_Ecosystem (specificity ?d) < sp_Ecosystem (specificity c) \<or>
     sp_Ecosystem (specificity ?d) = sp_Ecosystem (specificity c) \<and>
       (sp_Package (specificity ?d) < sp_Package (specificity c) \<or>
        sp_Package (specificity ?d) = sp_Package (specificity c) \<and>
          sp_Version (specificity ?d) < sp_Version (specificity c))"
    using deny_beats_allow_of_same_shape [OF sample_request sample_allow d act(1)] by blast
  have "compilePersistedRule ascii_externals (cr_model c) = Inr c" "c \<in> set sample_snapshot"
    using sample_compiled matches_scope [OF c(1)] by (simp_all add: compiled_snapshot_def)
  then have "c = projr (compilePersistedRule ascii_externals (sample_rule 1 ''npm'' ''left-pad'' ''>= 1.0.0'' ''allow''))"
    using c(2) by (metis sum.sel(2))
  moreover have "sp_Package (specificity (projr (compilePersistedRule ascii_externals
      (sample_rule 1 ''npm'' ''left-pad'' ''>= 1.0.0'' ''allow'')))) = 2" by code_simp
  ultimately show ?thesis
    using c(2) act matches_scope [OF c(1)] matches_scope [OF d] by force
qed

theorem incomplete_artifact_safe_witness:
  "fst (check_snapshot ascii_externals [projr (compilePersistedRule ascii_externals
     (sample_rule 2 ''npm'' ''left-*'' ''*'' ''allow''))] ''npm'' ''left-pad'' ''1.3.0'') = True"
proof -
  let ?s = "map (\<lambda>m. projr (compilePersistedRule ascii_externals m)) [sample_rule 2 ''npm'' ''left-*'' ''*'' ''allow'']"
  have "compiled_snapshot ascii_externals ?s" by (rule compiled_snapshot_map) code_simp
  moreover have "incomplete_snapshot ascii_externals ?s ''npm'' = (True, None, None)" by code_simp
  moreover have "check_snapshot ascii_externals ?s ''npm'' ''left-pad'' ''1.3.0'' =
      (True, Some (sample_rule 2 ''npm'' ''left-*'' ''*'' ''allow''), None)" by code_simp
  ultimately show ?thesis using incomplete_artifact_safe by auto
qed

theorem compile_accepts_exactly_untampered_witness:
  "\<not> is_Inr (compilePersistedRule ascii_externals
     ((sample_rule 1 ''npm'' ''left-pad'' ''>= 1.0.0'' ''deny'')\<lparr>r_NormalizedVersion := ''>= 9.0.0''\<rparr>))"
proof -
  let ?m = "(sample_rule 1 ''npm'' ''left-pad'' ''>= 1.0.0'' ''deny'')\<lparr>r_NormalizedVersion := ''>= 9.0.0''\<rparr>"
  have "PrepareRule ascii_externals (raw_of_model ?m) \<noteq> Inr (prepared_of_model ?m)" by code_simp
  then show ?thesis
    using compile_accepts_exactly_untampered [OF ascii_externals_ok(1) ascii_marks, of ?m] by blast
qed

theorem well_formed_request_is_decided_witness:
  "\<exists>allowed rule. check_snapshot ascii_externals sample_snapshot ''npm'' ''left-pad'' ''1.3.0'' = (allowed, rule, None)"
proof -
  have "is_Inr (DialectFor ascii_externals ''npm'')" by code_simp
  then obtain d where d: "DialectFor ascii_externals ''npm'' = Inr d" by (auto simp: is_Inr_iff)
  have "case DialectFor ascii_externals ''npm'' of Inr d \<Rightarrow> ValidateVersion ascii_externals d ''1.3.0'' = None | _ \<Rightarrow> False"
    by code_simp
  then have "ValidateVersion ascii_externals d ''1.3.0'' = None" by (simp add: d)
  then show ?thesis
    using well_formed_request_is_decided [OF ascii_externals_ok(1) ascii_marks sample_compiled sample_request d] by blast
qed

end
