(* ===== verification/Rule_Store.thy ===== *)
theory Rule_Store
  imports Rule_Engine
begin

text \<open>
  \<open>internal/rules/store.go\<close>: reading and writing the rule table. The database is GORM over
  SQLite, which is not part of the repository: its answers are parameters. A read is
  described by the answers of the calls it makes (\<open>list_calls\<close>), a write by the operations
  of the table (\<open>rule_table\<close>) with their documented behaviour as the hypothesis
  \<open>rule_table_ok\<close>. The facts: a failed read is always classified, an authorisation failure
  is never taken for an outage, and every row a write leaves behind passes the engine's
  integrity check.
\<close>

subsection \<open>Reading\<close>

text \<open>The error that \<open>errors.As\<close> finds is the first in the chain with a \<open>Code()\<close>.\<close>

fun sqlite_code :: "gerror \<Rightarrow> int option" where
  "sqlite_code [] = None"
| "sqlite_code (SQLiteCode c # e) = Some c"
| "sqlite_code (s # e) = sqlite_code e"

definition isRuleStoreAvailabilityError :: "gerror \<Rightarrow> bool" where
  "isRuleStoreAvailabilityError err \<longleftrightarrow>
     errors_Is err ErrContextCanceled \<or> errors_Is err ErrDeadlineExceeded \<or> errors_Is err ErrConnDone \<or>
     errors_Is err ErrBadConn \<or> errors_Is err ErrInvalidDB \<or>
     (case sqlite_code err of
        None \<Rightarrow> False
      | Some c \<Rightarrow> c mod 256 \<in> set [5, 6, 7, 9, 10, 13, 14, 15, 22])"

definition isSQLiteRuleStoreAuthorizationError :: "gerror \<Rightarrow> bool" where
  "isSQLiteRuleStoreAuthorizationError err \<longleftrightarrow>
     (case sqlite_code err of None \<Rightarrow> False | Some c \<Rightarrow> c mod 256 = 23)"

definition classifyImmediateRuleStoreReadError :: "gerror \<Rightarrow> gerror option" where
  "classifyImmediateRuleStoreReadError err =
     (if errors_Is err ErrRuleDataIntegrity then Some err
      else if isSQLiteRuleStoreAuthorizationError err then Some [ErrRuleDataIntegrity]
      else if isRuleStoreAvailabilityError err then Some [ErrRuleStoreUnavailable]
      else None)"

text \<open>
  What the database answers to the calls of one \<open>List\<close>: the handle, the two pings, the begin
  and the commit of the transaction, the count of rows with invalid storage types, and the
  ordered query.
\<close>

record list_calls =
  lc_nil :: bool
  lc_handle :: "gerror option"
  lc_ping :: "gerror option"
  lc_begin :: "gerror option"
  lc_invalid :: "gerror + int"
  lc_find :: "gerror + PackageRule list"
  lc_commit :: "gerror option"
  lc_ping_again :: "gerror option"

definition list_transaction :: "list_calls \<Rightarrow> gerror + PackageRule list" where
  "list_transaction c =
     (case lc_begin c of
        Some e \<Rightarrow> Inl e
      | None \<Rightarrow>
          bind_err (lc_invalid c) (\<lambda>invalid.
            if invalid \<noteq> 0 then Inl [ErrRuleDataIntegrity]
            else bind_err (lc_find c) (\<lambda>rules.
              case lc_commit c of Some e \<Rightarrow> Inl e | None \<Rightarrow> Inr rules)))"

definition Store_List :: "list_calls \<Rightarrow> gerror + PackageRule list" where
  "Store_List c =
     (if lc_nil c then Inl [ErrRuleStoreUnavailable]
      else if lc_handle c \<noteq> None then Inl [ErrRuleStoreUnavailable]
      else if lc_ping c \<noteq> None then Inl [ErrRuleStoreUnavailable]
      else (case list_transaction c of
          Inr rules \<Rightarrow> Inr rules
        | Inl err \<Rightarrow>
            (case classifyImmediateRuleStoreReadError err of
               Some classified \<Rightarrow> Inl classified
             | None \<Rightarrow>
                 if lc_ping_again c \<noteq> None then Inl [ErrRuleStoreUnavailable]
                 else Inl [ErrRuleDataIntegrity])))"

subsection \<open>Writing\<close>

record RulePatch =
  patch_Ecosystem :: "string option"
  patch_PackageName :: "string option"
  patch_Version :: "string option"
  patch_Action :: "string option"
  patch_Reason :: "string option"

definition patched :: "'a option \<Rightarrow> 'a \<Rightarrow> 'a" where
  "patched p x = (case p of Some y \<Rightarrow> y | None \<Rightarrow> x)"

definition applyRulePatch :: "PackageRule \<Rightarrow> RulePatch \<Rightarrow> PackageRule" where
  "applyRulePatch rule patch =
     rule\<lparr>r_Ecosystem := patched (patch_Ecosystem patch) (r_Ecosystem rule),
          r_PackageName := patched (patch_PackageName patch) (r_PackageName rule),
          r_Version := patched (patch_Version patch) (r_Version rule),
          r_Action := patched (patch_Action patch) (r_Action rule),
          r_Reason := patched (patch_Reason patch) (r_Reason rule)\<rparr>"

text \<open>\<open>prepareRuleModel\<close> of a non-nil rule; it changes the rule only when it returns \<open>nil\<close>.\<close>

definition prepareRuleModel :: "externals \<Rightarrow> PackageRule \<Rightarrow> gerror + PackageRule" where
  "prepareRuleModel E rule =
     bind_err (PrepareRule E (raw_of_model rule)) (\<lambda>prepared.
       bind_err (NormalizeRuleAction E (r_Action rule)) (\<lambda>action.
         let reason = TrimSpace (r_Reason rule); createdBy = TrimSpace (r_CreatedBy rule) in
         if length reason > 512 \<or> ContainsFunc reason IsControl then Inl [ErrInvalidRule]
         else if length createdBy > 64 \<or> ContainsFunc createdBy IsControl then Inl [ErrInvalidRule]
         else Inr (rule\<lparr>r_Ecosystem := pr_Ecosystem prepared, r_PackageName := pr_PackageName prepared,
             r_Version := pr_Version prepared,
             r_NormalizedPackageName := pr_NormalizedPackageName prepared,
             r_NormalizedVersion := pr_NormalizedVersion prepared,
             r_DialectRevision := pr_DialectRevision prepared,
             r_Action := action, r_Reason := reason, r_CreatedBy := createdBy\<rparr>)))"

text \<open>
  The calls into the table: \<open>Create\<close> inserts a row and returns it with its identifier,
  \<open>First\<close> finds a row by its identifier, \<open>Save\<close> writes it back, \<open>Delete\<close> reports the number
  of rows it removed.
\<close>

record 'db rule_table =
  tb_Create :: "PackageRule \<Rightarrow> 'db \<Rightarrow> 'db \<times> (gerror + PackageRule)"
  tb_First :: "uint \<Rightarrow> 'db \<Rightarrow> gerror + PackageRule"
  tb_Save :: "PackageRule \<Rightarrow> 'db \<Rightarrow> 'db \<times> (gerror + PackageRule)"
  tb_Delete :: "uint \<Rightarrow> 'db \<Rightarrow> 'db \<times> (gerror + int)"

definition Store_Create ::
  "externals \<Rightarrow> 'db rule_table \<Rightarrow> PackageRule \<Rightarrow> 'db \<Rightarrow> 'db \<times> (gerror + PackageRule)" where
  "Store_Create E T rule db =
     (case prepareRuleModel E rule of
        Inl e \<Rightarrow> (db, Inl e)
      | Inr prepared \<Rightarrow> tb_Create T prepared db)"

text \<open>\<open>Update\<close> runs in a transaction: when it fails, the table is the one it started from.\<close>

definition Store_Update ::
  "externals \<Rightarrow> 'db rule_table \<Rightarrow> uint \<Rightarrow> RulePatch \<Rightarrow> 'db \<Rightarrow> 'db \<times> (gerror + PackageRule)" where
  "Store_Update E T i patch db =
     (case tb_First T i db of
        Inl e \<Rightarrow> (db, Inl e)
      | Inr current \<Rightarrow>
          (case prepareRuleModel E (applyRulePatch current patch) of
             Inl e \<Rightarrow> (db, Inl e)
           | Inr updated \<Rightarrow>
               (case tb_Save T updated db of
                  (db', Inr saved) \<Rightarrow> (db', Inr saved)
                | (db', Inl e) \<Rightarrow> (db, Inl e))))"

definition Store_Delete :: "'db rule_table \<Rightarrow> uint \<Rightarrow> 'db \<Rightarrow> 'db \<times> gerror option" where
  "Store_Delete T i db =
     (case tb_Delete T i db of
        (db', Inl e) \<Rightarrow> (db', Some e)
      | (db', Inr rowsAffected) \<Rightarrow>
          if rowsAffected = 0 then (db', Some [ErrRecordNotFound]) else (db', None))"

subsection \<open>Classification of reads\<close>

lemma Store_List_classified:
  assumes "Store_List c = Inl e"
  shows "errors_Is e ErrRuleStoreUnavailable \<or> errors_Is e ErrRuleDataIntegrity"
  using assms
  by (auto simp: Store_List_def errors_Is_def classifyImmediateRuleStoreReadError_def
      split: if_splits sum.split_asm option.split_asm)

text \<open>
  A failed read of the rules is always classified. Every error of \<open>List\<close> is an outage or
  an integrity failure, and it is an outage only when the handle or a ping failed or the read
  itself reported a transient condition: corrupt rows, a refused authorisation and any
  unknown error on a reachable database are integrity failures.
\<close>

theorem list_errors_classified:
  assumes "Store_List c = Inl e"
  shows "(errors_Is e ErrRuleStoreUnavailable \<or> errors_Is e ErrRuleDataIntegrity) \<and>
    (\<not> lc_nil c \<and> lc_handle c = None \<and> lc_ping c = None \<and> lc_ping_again c = None \<and>
     list_transaction c = Inl err \<and>
     (errors_Is err ErrRuleDataIntegrity \<or> isSQLiteRuleStoreAuthorizationError err \<or>
      \<not> isRuleStoreAvailabilityError err) \<longrightarrow> errors_Is e ErrRuleDataIntegrity)"
  using assms Store_List_classified [OF assms]
  by (auto simp: Store_List_def errors_Is_def classifyImmediateRuleStoreReadError_def split: if_splits)

theorem list_errors_classified_witness:
  "errors_Is [ErrRuleDataIntegrity] ErrRuleDataIntegrity \<and>
   Store_List \<lparr>lc_nil = False, lc_handle = None, lc_ping = None, lc_begin = None,
     lc_invalid = Inl [SQLiteCode 279], lc_find = Inr [], lc_commit = None, lc_ping_again = None\<rparr> =
     Inl [ErrRuleDataIntegrity]"
proof -
  let ?c = "\<lparr>lc_nil = False, lc_handle = None, lc_ping = None, lc_begin = None,
     lc_invalid = Inl [SQLiteCode 279], lc_find = Inr [], lc_commit = None, lc_ping_again = None\<rparr>"
  have l: "Store_List ?c = Inl [ErrRuleDataIntegrity]" by code_simp
  have "list_transaction ?c = Inl [SQLiteCode 279]" "isSQLiteRuleStoreAuthorizationError [SQLiteCode 279]"
    by code_simp+
  then show ?thesis using l list_errors_classified [OF l, of "[SQLiteCode 279]"] by simp
qed

subsection \<open>What a write leaves behind\<close>

lemma normal_action:
  assumes "NormalizeRuleAction E a = Inr action"
  shows "action = ''allow'' \<or> action = ''deny''"
  using assms by (auto simp: NormalizeRuleAction_def Let_def split: if_splits)

lemma prepareRuleModel_untampered:
  assumes "prepareRuleModel E rule = Inr m"
  shows "untampered E m" and "r_ID m = r_ID rule"
proof -
  obtain p where p: "PrepareRule E (raw_of_model rule) = Inr p" "prepared_of_model m = p"
    "r_Action m = ''allow'' \<or> r_Action m = ''deny''" "r_ID m = r_ID rule"
    using assms normal_action
    by (auto simp: prepareRuleModel_def Let_def prepared_of_model_def split: if_splits)
  have "raw_of_model m = raw_of p" using p(2) by (auto simp: raw_of_model_def raw_of_def prepared_of_model_def)
  moreover have "PrepareRule E (raw_of p) = Inr p"
    using p(1) prepared_display_again [OF p(1)]
    by (simp add: PrepareRule_def CurrentDialectRevision_def PrepareRuleRevision1_def)
  ultimately show "untampered E m" "r_ID m = r_ID rule" using p by (simp_all add: untampered_def)
qed

text \<open>
  The documented behaviour of the table: a failed statement leaves the rows as they are; an
  insert adds the given row with an identifier and timestamps of the database's choice; a
  save replaces the row with the same identifier; a delete only removes rows.
\<close>

definition same_rule :: "PackageRule \<Rightarrow> PackageRule \<Rightarrow> bool" where
  "same_rule a b \<longleftrightarrow>
     a\<lparr>r_ID := 0, r_CreatedAt := 0, r_UpdatedAt := 0\<rparr> = b\<lparr>r_ID := 0, r_CreatedAt := 0, r_UpdatedAt := 0\<rparr>"

definition rule_table_ok :: "'db rule_table \<Rightarrow> ('db \<Rightarrow> PackageRule set) \<Rightarrow> bool" where
  "rule_table_ok T rows \<longleftrightarrow>
     (\<forall>m db db' r. tb_Create T m db = (db', r) \<longrightarrow>
        (case r of Inl _ \<Rightarrow> rows db' = rows db
         | Inr m' \<Rightarrow> same_rule m' m \<and> rows db' = insert m' (rows db))) \<and>
     (\<forall>i db m. tb_First T i db = Inr m \<longrightarrow> m \<in> rows db \<and> r_ID m = i) \<and>
     (\<forall>m db db' r. tb_Save T m db = (db', r) \<longrightarrow>
        (case r of Inl _ \<Rightarrow> rows db' = rows db
         | Inr m' \<Rightarrow> same_rule m' m \<and> r_ID m' = r_ID m \<and>
             rows db' = insert m' {x \<in> rows db. r_ID x \<noteq> r_ID m})) \<and>
     (\<forall>i db db' r. tb_Delete T i db = (db', r) \<longrightarrow>
        (case r of Inl _ \<Rightarrow> rows db' = rows db
         | Inr n \<Rightarrow> rows db' = {x \<in> rows db. r_ID x \<noteq> i} \<and> (n = 0 \<longleftrightarrow> rows db' = rows db)))"

lemma same_rule_untampered: "same_rule a b \<Longrightarrow> untampered E b \<Longrightarrow> untampered E a"
proof -
  assume s: "same_rule a b" and u: "untampered E b"
  have "raw_of_model a = raw_of_model b" "prepared_of_model a = prepared_of_model b" "r_Action a = r_Action b"
    using s by (cases a; cases b; simp add: same_rule_def raw_of_model_def prepared_of_model_def)+
  then show ?thesis using u by (simp add: untampered_def)
qed

datatype store_op = OpCreate PackageRule | OpUpdate uint RulePatch | OpDelete uint

fun store_step :: "externals \<Rightarrow> 'db rule_table \<Rightarrow> store_op \<Rightarrow> 'db \<Rightarrow> 'db" where
  "store_step E T (OpCreate rule) db = fst (Store_Create E T rule db)"
| "store_step E T (OpUpdate i patch) db = fst (Store_Update E T i patch db)"
| "store_step E T (OpDelete i) db = fst (Store_Delete T i db)"

definition store_run :: "externals \<Rightarrow> 'db rule_table \<Rightarrow> store_op list \<Rightarrow> 'db \<Rightarrow> 'db" where
  "store_run E T ops db = fold (store_step E T) ops db"

definition rows_untampered :: "externals \<Rightarrow> PackageRule set \<Rightarrow> bool" where
  "rows_untampered E R \<longleftrightarrow> (\<forall>m \<in> R. untampered E m)"

lemma store_step_untampered:
  assumes ok: "rule_table_ok T rows" and inv: "rows_untampered E (rows db)"
  shows "rows_untampered E (rows (store_step E T op db))"
proof (cases op)
  case (OpCreate rule)
  show ?thesis
  proof (cases "prepareRuleModel E rule")
    case (Inr m)
    obtain db' r where c: "tb_Create T m db = (db', r)" by fastforce
    have "case r of Inl _ \<Rightarrow> rows db' = rows db | Inr m' \<Rightarrow> same_rule m' m \<and> rows db' = insert m' (rows db)"
      using ok c unfolding rule_table_ok_def by blast
    then show ?thesis
      using OpCreate Inr c inv same_rule_untampered prepareRuleModel_untampered(1) [OF Inr]
      by (auto simp: Store_Create_def rows_untampered_def split: sum.splits)
  qed (use OpCreate inv in \<open>simp add: Store_Create_def\<close>)
next
  case (OpUpdate i patch)
  show ?thesis
  proof (cases "tb_First T i db")
    case first: (Inr cur)
    show ?thesis
    proof (cases "prepareRuleModel E (applyRulePatch cur patch)")
      case (Inr m)
      obtain db' r where c: "tb_Save T m db = (db', r)" by fastforce
      have "case r of Inl _ \<Rightarrow> rows db' = rows db | Inr m' \<Rightarrow> same_rule m' m \<and> r_ID m' = r_ID m \<and>
          rows db' = insert m' {x \<in> rows db. r_ID x \<noteq> r_ID m}"
        using ok c unfolding rule_table_ok_def by blast
      then show ?thesis
        using OpUpdate first Inr c inv same_rule_untampered prepareRuleModel_untampered(1) [OF Inr]
        by (auto simp: Store_Update_def rows_untampered_def split: sum.splits)
    qed (use OpUpdate first inv in \<open>simp add: Store_Update_def\<close>)
  qed (use OpUpdate inv in \<open>simp add: Store_Update_def\<close>)
next
  case (OpDelete i)
  obtain db' r where c: "tb_Delete T i db = (db', r)" by fastforce
  have "case r of Inl _ \<Rightarrow> rows db' = rows db
      | Inr n \<Rightarrow> rows db' = {x \<in> rows db. r_ID x \<noteq> i} \<and> (n = 0 \<longleftrightarrow> rows db' = rows db)"
    using ok c unfolding rule_table_ok_def by blast
  then show ?thesis
    using OpDelete c inv by (auto simp: Store_Delete_def rows_untampered_def split: sum.splits)
qed

lemma store_run_untampered:
  assumes "rule_table_ok T rows" and "rows_untampered E (rows db)"
  shows "rows_untampered E (rows (store_run E T ops db))"
  using assms(2) unfolding store_run_def
  by (induction ops arbitrary: db) (simp_all add: store_step_untampered [OF assms(1)])

text \<open>
  The invariant of the rule table: starting from a table whose rows pass the engine's
  integrity check, any sequence of creates, updates and deletes, successful or not, leaves a
  table in which every row compiles.
\<close>

theorem store_keeps_rules_compilable:
  assumes "lower_english_ok E" and "lower_english_marks E" and "rule_table_ok T rows"
    and "\<forall>m \<in> rows db. untampered E m" and "m \<in> rows (store_run E T ops db)"
  shows "is_Inr (compilePersistedRule E m)"
  using store_run_untampered [OF assms(3), of E db ops] assms(4,5) untampered_compiles [OF assms(1,2)]
  by (simp add: rows_untampered_def)

text \<open>A table kept as a list, whose operations have the documented behaviour.\<close>

definition list_table :: "PackageRule list rule_table" where
  "list_table =
     \<lparr>tb_Create = (\<lambda>m db. let m' = m\<lparr>r_ID := word_of_nat (Suc (length db))\<rparr> in (m' # db, Inr m')),
      tb_First = (\<lambda>i db. case List.find (\<lambda>m. r_ID m = i) db of Some m \<Rightarrow> Inr m | None \<Rightarrow> Inl [ErrRecordNotFound]),
      tb_Save = (\<lambda>m db. (m # filter (\<lambda>x. r_ID x \<noteq> r_ID m) db, Inr m)),
      tb_Delete = (\<lambda>i db. (filter (\<lambda>x. r_ID x \<noteq> i) db, Inr (int (length (filter (\<lambda>x. r_ID x = i) db)))))\<rparr>"

lemma list_table_ok: "rule_table_ok list_table set"
proof -
  have create: "\<forall>m db db' r. tb_Create list_table m db = (db', r) \<longrightarrow>
      (case r of Inl _ \<Rightarrow> set db' = set db | Inr m' \<Rightarrow> same_rule m' m \<and> set db' = insert m' (set db))"
    by (auto simp: list_table_def Let_def same_rule_def)
  moreover have first: "\<forall>i db m. tb_First list_table i db = Inr m \<longrightarrow> m \<in> set db \<and> r_ID m = i"
    by (auto simp: list_table_def find_Some_iff split: option.splits)
  moreover have save: "\<forall>m db db' r. tb_Save list_table m db = (db', r) \<longrightarrow>
      (case r of Inl _ \<Rightarrow> set db' = set db | Inr m' \<Rightarrow> same_rule m' m \<and> r_ID m' = r_ID m \<and>
         set db' = insert m' {x \<in> set db. r_ID x \<noteq> r_ID m})"
    by (auto simp: list_table_def same_rule_def)
  moreover have "\<forall>i db db' r. tb_Delete list_table i db = (db', r) \<longrightarrow>
      (case r of Inl _ \<Rightarrow> set db' = set db
       | Inr n \<Rightarrow> set db' = {x \<in> set db. r_ID x \<noteq> i} \<and> (n = 0 \<longleftrightarrow> set db' = set db))"
    by (auto simp: list_table_def filter_empty_conv)
  ultimately show ?thesis unfolding rule_table_ok_def by (intro conjI)
qed

definition sample_ops :: "store_op list" where
  "sample_ops =
     [OpCreate (sample_rule 0 '' NPM'' ''left-pad'' [] ''Deny''),
      OpUpdate 1 \<lparr>patch_Ecosystem = None, patch_PackageName = None, patch_Version = Some ''>=1.0.0'',
        patch_Action = None, patch_Reason = None\<rparr>]"

theorem store_keeps_rules_compilable_witness:
  "is_Inr (compilePersistedRule ascii_externals
     ((sample_rule 1 ''npm'' ''left-pad'' ''>=1.0.0'' ''deny'')\<lparr>r_NormalizedVersion := ''>= 1.0.0''\<rparr>))"
proof -
  let ?m = "(sample_rule 1 ''npm'' ''left-pad'' ''>=1.0.0'' ''deny'')\<lparr>r_NormalizedVersion := ''>= 1.0.0''\<rparr>"
  have "store_run ascii_externals list_table sample_ops [] = [?m]" by code_simp
  then have "?m \<in> set (store_run ascii_externals list_table sample_ops [])" by simp
  from store_keeps_rules_compilable [OF ascii_externals_ok(1) ascii_marks list_table_ok _ this] show ?thesis by simp
qed

end
