(* ===== verification/Go_Time.thy ===== *)
theory Go_Time
  imports Go_Strconv
begin

text \<open>
  The part of Go's \<open>time\<close> and \<open>fmt\<close> that reads durations: \<open>fmt.Sscanf\<close> with the verb \<open>%d\<close>, which
  ignores what follows the number, and \<open>time.ParseDuration\<close>. A \<open>Duration\<close> is an integer of
  64 bits, in nanoseconds. The one computation in floating point, the value of the digits
  behind a decimal point, is the parameter \<open>F\<close>.
\<close>

text \<open>The value of an \<open>int64\<close> computation that wraps around.\<close>

definition wrap64 :: "int \<Rightarrow> int" where
  "wrap64 x = (x + 2 ^ 63) mod 2 ^ 64 - 2 ^ 63"

lemma wrap64_bounds: "- (2 ^ 63) \<le> wrap64 x" "wrap64 x < 2 ^ 63"
  by (simp_all add: wrap64_def)

lemma wrap64_id: "- (2 ^ 63) \<le> x \<Longrightarrow> x < 2 ^ 63 \<Longrightarrow> wrap64 x = x"
  by (simp add: wrap64_def)

text \<open>\<open>time.Time.Sub\<close> saturates at the limits of a \<open>Duration\<close>.\<close>

definition time_Sub :: "int \<Rightarrow> int \<Rightarrow> int" where
  "time_Sub t u = max (- (2 ^ 63)) (min (2 ^ 63 - 1) (t - u))"

definition Sscanf_d :: "string \<Rightarrow> gerror + int" where
  "Sscanf_d s =
     (let neg = (s \<noteq> [] \<and> hd s = CHR ''-'');
          rest = (if s \<noteq> [] \<and> (hd s = CHR ''-'' \<or> hd s = CHR ''+'') then tl s else s);
          digits = takeWhile isASCIIDigit rest;
          n = (if neg then - int (decimal_value 0 digits) else int (decimal_value 0 digits)) in
      if digits = [] \<or> n < - (2 ^ 63) \<or> 2 ^ 63 \<le> n then Inl plain_error else Inr n)"

definition duration_unit :: "string \<Rightarrow> nat option" where
  "duration_unit u =
     (if u = ''ns'' then Some 1
      else if u = ''us'' \<or> map byte u = [194, 181, 115] \<or> map byte u = [206, 188, 115] then Some 1000
      else if u = ''ms'' then Some 1000000
      else if u = ''s'' then Some 1000000000
      else if u = ''m'' then Some 60000000000
      else if u = ''h'' then Some 3600000000000
      else None)"

abbreviation unit_char :: "char \<Rightarrow> bool" where
  "unit_char c \<equiv> c \<noteq> CHR ''.'' \<and> \<not> isASCIIDigit c"

text \<open>The digits before and behind the point of one component, and what follows them.\<close>

definition component :: "string \<Rightarrow> string \<times> string \<times> string" where
  "component s =
     (let s1 = dropWhile isASCIIDigit s in
      if s1 \<noteq> [] \<and> hd s1 = CHR ''.''
      then (takeWhile isASCIIDigit s, takeWhile isASCIIDigit (tl s1), dropWhile isASCIIDigit (tl s1))
      else (takeWhile isASCIIDigit s, [], s1))"

lemma component_length: "component s = (ds, fs, s2) \<Longrightarrow> length s2 \<le> length s"
  using length_dropWhile_le [of isASCIIDigit s] length_dropWhile_le [of isASCIIDigit "tl (dropWhile isASCIIDigit s)"]
  by (auto simp: component_def Let_def split: if_splits)

lemma dropWhile_shorter: "takeWhile P s \<noteq> [] \<Longrightarrow> length (dropWhile P s) < length s"
  by (cases s) (auto simp: less_Suc_eq_le length_dropWhile_le split: if_splits)

lemma component_shorter:
  "(ds, fs, s2) = component s \<Longrightarrow> takeWhile unit_char s2 \<noteq> [] \<Longrightarrow> length (dropWhile unit_char s2) < length s"
  using component_length [of s ds fs s2] dropWhile_shorter [of unit_char s2] by simp

function duration_loop :: "(string \<Rightarrow> nat \<Rightarrow> nat) \<Rightarrow> nat \<Rightarrow> string \<Rightarrow> gerror + nat" where
  "duration_loop F d s =
     (if s = [] then Inr d
      else if \<not> (hd s = CHR ''.'' \<or> isASCIIDigit (hd s)) then Inl plain_error
      else (case component s of
        (ds, fs, s2) \<Rightarrow>
          if decimal_value 0 ds > 2 ^ 63 \<or> ds = [] \<and> fs = [] \<or> takeWhile unit_char s2 = [] then Inl plain_error
          else (case duration_unit (takeWhile unit_char s2) of
              None \<Rightarrow> Inl plain_error
            | Some unit \<Rightarrow>
                if decimal_value 0 ds > 2 ^ 63 div unit then Inl plain_error
                else (let v = decimal_value 0 ds * unit;
                          v' = (if list_all (\<lambda>c. c = CHR ''0'') fs then v else (v + F fs unit) mod 2 ^ 64);
                          d' = (d + v') mod 2 ^ 64 in
                  if v' > 2 ^ 63 \<or> d' > 2 ^ 63 then Inl plain_error
                  else duration_loop F d' (dropWhile unit_char s2)))))"
  by pat_completeness auto
termination
proof (relation "measure (\<lambda>(F, d, s). length s)", goal_cases)
  case (2 F d s ds y fs s2)
  then show ?case using component_shorter [of ds fs s2 s] by simp
qed simp

declare duration_loop.simps [simp del]

definition time_ParseDuration :: "(string \<Rightarrow> nat \<Rightarrow> nat) \<Rightarrow> string \<Rightarrow> gerror + int" where
  "time_ParseDuration F s0 =
     (let neg = (s0 \<noteq> [] \<and> hd s0 = CHR ''-'');
          s = (if s0 \<noteq> [] \<and> (hd s0 = CHR ''-'' \<or> hd s0 = CHR ''+'') then tl s0 else s0) in
      if s = ''0'' then Inr 0
      else if s = [] then Inl plain_error
      else bind_err (duration_loop F 0 s) (\<lambda>d.
        if neg then Inr (wrap64 (- wrap64 (int d)))
        else if d > 2 ^ 63 - 1 then Inl plain_error
        else Inr (int d)))"

text \<open>A result is in the range of a \<open>Duration\<close>.\<close>

lemma time_ParseDuration_range:
  "time_ParseDuration F s = Inr d \<Longrightarrow> - (2 ^ 63) \<le> d \<and> d < 2 ^ 63"
  using wrap64_bounds by (auto simp: time_ParseDuration_def Let_def split: if_splits)

lemma Sscanf_d_digits:
  assumes "ds \<noteq> []" and "list_all isASCIIDigit ds" and "decimal_value 0 ds < 2 ^ 63"
    and "rest = [] \<or> \<not> isASCIIDigit (hd rest)"
  shows "Sscanf_d (ds @ rest) = Inr (int (decimal_value 0 ds))"
proof -
  obtain c cs where ds: "ds = c # cs" "isASCIIDigit c" using assms(1,2) by (cases ds) auto
  then have "c \<noteq> CHR ''-''" "c \<noteq> CHR ''+''" by (auto simp: isASCIIDigit_def)
  moreover have "takeWhile isASCIIDigit (ds @ rest) = ds"
    using assms(2,4) by (cases rest) (auto simp: list_all_iff takeWhile_append2)
  ultimately show ?thesis using ds(1) assms(3) by (simp add: Sscanf_d_def Let_def)
qed

end
