(* ===== verification/Engine_State.thy ===== *)
theory Engine_State
  imports Rule_Store Go_Time
begin

text \<open>
  \<open>internal/rules/engine.go\<close>, the state half: the in-memory snapshot, its refresh from the
  store with time-to-live and retry backoff, the fallback when the store is unavailable,
  invalidation, and the operator-facing status. \<open>loadRulesWithState\<close> releases the state lock
  while it reads the store, so it is split at that point into \<open>load_begin\<close> and \<open>load_end\<close>;
  the relation \<open>sys_step\<close> interleaves them with writes of the rules and invalidations.

  Times are nanoseconds; the zero \<open>time.Time\<close> is \<open>None\<close>. Telemetry callbacks and logging are
  not modelled: they neither read nor change the state.
\<close>

subsection \<open>Configuration\<close>

type_synonym OnLoadErrorPolicy = string

definition OnLoadErrorUseStaleThenAllow :: OnLoadErrorPolicy where
  "OnLoadErrorUseStaleThenAllow = ''use_stale_then_allow''"
definition OnLoadErrorUseStaleThenDeny :: OnLoadErrorPolicy where
  "OnLoadErrorUseStaleThenDeny = ''use_stale_then_deny''"
definition OnLoadErrorAllow :: OnLoadErrorPolicy where
  "OnLoadErrorAllow = ''allow''"
definition OnLoadErrorDeny :: OnLoadErrorPolicy where
  "OnLoadErrorDeny = ''deny''"
definition DefaultOnLoadErrorPolicy :: OnLoadErrorPolicy where
  "DefaultOnLoadErrorPolicy = OnLoadErrorUseStaleThenAllow"

lemmas policy_defs = OnLoadErrorUseStaleThenAllow_def OnLoadErrorUseStaleThenDeny_def OnLoadErrorAllow_def
  OnLoadErrorDeny_def DefaultOnLoadErrorPolicy_def

definition ParseOnLoadErrorPolicy :: "externals \<Rightarrow> string \<Rightarrow> gerror + OnLoadErrorPolicy" where
  "ParseOnLoadErrorPolicy E value =
     (let normalized = ToLower E (TrimSpace value) in
      if normalized = [] then Inr DefaultOnLoadErrorPolicy
      else if normalized \<in> set [OnLoadErrorUseStaleThenAllow, OnLoadErrorUseStaleThenDeny,
        OnLoadErrorAllow, OnLoadErrorDeny] then Inr normalized
      else Inl plain_error)"

record Engine =
  en_store :: bool                                \<comment> \<open>the store pointer is not nil\<close>
  en_cache :: "compiledRule list option"
  en_lastLoad :: "time option"
  en_lastRefreshAttempt :: "time option"
  en_lastRefreshError :: "gerror option"
  en_lastRefreshWasFailure :: bool
  en_degraded :: bool
  en_usingStaleSnapshot :: bool
  en_refreshFailures :: uint
  en_forceRefresh :: bool
  en_refreshGeneration :: uint
  en_cacheTTL :: int
  en_refreshRetryInterval :: int
  en_onLoadError :: OnLoadErrorPolicy
  en_optionErr :: "gerror option"

text \<open>
  The options of the constructor: \<open>WithOnLoadErrorPolicy\<close>, and \<open>WithPolicyTelemetry\<close>, which
  does not touch the modelled state. A nil option is skipped; the first failing one is
  remembered and ends the loop.
\<close>

datatype EngineOption = NilOption | WithOnLoadErrorPolicy OnLoadErrorPolicy | WithPolicyTelemetry

fun apply_option :: "externals \<Rightarrow> EngineOption \<Rightarrow> Engine \<Rightarrow> gerror + Engine" where
  "apply_option E NilOption e = Inr e"
| "apply_option E (WithOnLoadErrorPolicy policy) e =
     bind_err (ParseOnLoadErrorPolicy E policy) (\<lambda>parsed. Inr (e\<lparr>en_onLoadError := parsed\<rparr>))"
| "apply_option E WithPolicyTelemetry e = Inr e"

fun apply_options :: "externals \<Rightarrow> EngineOption list \<Rightarrow> Engine \<Rightarrow> Engine" where
  "apply_options E [] e = e"
| "apply_options E (opt # opts) e =
     (case apply_option E opt e of
        Inl err \<Rightarrow> e\<lparr>en_optionErr := Some err\<rparr>
      | Inr e' \<Rightarrow> apply_options E opts e')"

definition NewEngine :: "externals \<Rightarrow> bool \<Rightarrow> EngineOption list \<Rightarrow> Engine" where
  "NewEngine E store opts =
     apply_options E opts \<lparr>en_store = store, en_cache = None, en_lastLoad = None, en_lastRefreshAttempt = None,
       en_lastRefreshError = None, en_lastRefreshWasFailure = False, en_degraded = False,
       en_usingStaleSnapshot = False, en_refreshFailures = 0, en_forceRefresh = False,
       en_refreshGeneration = 0, en_cacheTTL = 30 * 1000000000, en_refreshRetryInterval = 5 * 1000000000,
       en_onLoadError = DefaultOnLoadErrorPolicy, en_optionErr = None\<rparr>"

definition NewEngineWithOptions :: "externals \<Rightarrow> bool \<Rightarrow> EngineOption list \<Rightarrow> gerror + Engine" where
  "NewEngineWithOptions E store opts =
     (let e = NewEngine E store opts in
      case en_optionErr e of Some err \<Rightarrow> Inl err | None \<Rightarrow> Inr e)"

subsection \<open>Freshness, backoff and fallback\<close>

definition snapshotFreshLocked :: "Engine \<Rightarrow> time \<Rightarrow> bool" where
  "snapshotFreshLocked e now \<longleftrightarrow> \<not> en_forceRefresh e \<and> en_cache e \<noteq> None \<and>
     (case en_lastLoad e of
        None \<Rightarrow> False
      | Some t \<Rightarrow> en_cacheTTL e > 0 \<and> time_Sub now t < en_cacheTTL e)"

definition retryBackoffActiveLocked :: "Engine \<Rightarrow> time \<Rightarrow> bool" where
  "retryBackoffActiveLocked e now \<longleftrightarrow> en_lastRefreshWasFailure e \<and>
     (case en_lastRefreshError e of None \<Rightarrow> False | Some err \<Rightarrow> errors_Is err ErrRuleStoreUnavailable) \<and>
     (case en_lastRefreshAttempt e of
        None \<Rightarrow> False
      | Some t \<Rightarrow> en_refreshRetryInterval e > 0 \<and> time_Sub now t < en_refreshRetryInterval e)"

datatype loadOutcome = loadOutcomeFresh | loadOutcomeStale | loadOutcomeAllow | loadOutcomeDeny

type_synonym load_result = "compiledRule list \<times> loadOutcome \<times> gerror option"

definition fallbackLocked :: "Engine \<Rightarrow> compiledRule list \<times> loadOutcome" where
  "fallbackLocked e =
     (let policy = (if en_onLoadError e = [] then DefaultOnLoadErrorPolicy else en_onLoadError e);
          useStale = (policy = OnLoadErrorUseStaleThenAllow \<or> policy = OnLoadErrorUseStaleThenDeny) in
      if useStale \<and> en_cache e \<noteq> None then (the (en_cache e), loadOutcomeStale)
      else if policy = OnLoadErrorUseStaleThenDeny \<or> policy = OnLoadErrorDeny then ([], loadOutcomeDeny)
      else ([], loadOutcomeAllow))"

definition fallbackReadOnlyLocked :: "Engine \<Rightarrow> compiledRule list \<times> loadOutcome" where
  "fallbackReadOnlyLocked e =
     (let policy = (if en_onLoadError e = [] then DefaultOnLoadErrorPolicy else en_onLoadError e);
          useStale = (policy = OnLoadErrorUseStaleThenAllow \<or> policy = OnLoadErrorUseStaleThenDeny) in
      if useStale \<and> en_cache e \<noteq> None then (the (en_cache e), loadOutcomeStale)
      else if policy = OnLoadErrorUseStaleThenDeny \<or> policy = OnLoadErrorDeny then ([], loadOutcomeDeny)
      else ([], loadOutcomeAllow))"

definition InvalidateCache :: "Engine \<Rightarrow> Engine" where
  "InvalidateCache e =
     e\<lparr>en_forceRefresh := True, en_refreshGeneration := en_refreshGeneration e + 1,
       en_lastRefreshAttempt := None, en_lastRefreshError := None, en_lastRefreshWasFailure := False\<rparr>"

definition finishRefreshFailureLocked ::
  "time \<Rightarrow> gerror \<Rightarrow> bool \<Rightarrow> Engine \<Rightarrow> Engine \<times> load_result" where
  "finishRefreshFailureLocked now err unavailable e =
     (let e1 = e\<lparr>en_lastRefreshAttempt := Some now, en_lastRefreshError := Some err,
            en_lastRefreshWasFailure := unavailable, en_refreshFailures := en_refreshFailures e + 1,
            en_degraded := True\<rparr> in
      if unavailable then
        (let (rules, outcome) = fallbackLocked e1 in
         (e1\<lparr>en_usingStaleSnapshot := (outcome = loadOutcomeStale)\<rparr>, (rules, outcome, None)))
      else (e1\<lparr>en_usingStaleSnapshot := False\<rparr>, ([], loadOutcomeAllow, Some err)))"

subsection \<open>Loading\<close>

text \<open>The checks that both locked sections of \<open>loadRulesWithState\<close> make, in order.\<close>

definition load_fast :: "time \<Rightarrow> Engine \<Rightarrow> load_result option" where
  "load_fast now e =
     (case en_optionErr e of
        Some err \<Rightarrow> Some ([], loadOutcomeAllow, Some err)
      | None \<Rightarrow>
          if snapshotFreshLocked e now then Some (the (en_cache e), loadOutcomeFresh, None)
          else if retryBackoffActiveLocked e now then
            (let (rules, outcome) = fallbackReadOnlyLocked e in Some (rules, outcome, None))
          else None)"

datatype load_start = LoadDone load_result | LoadRefresh Engine uint

definition load_begin :: "time \<Rightarrow> Engine \<Rightarrow> load_start" where
  "load_begin now e =
     (case en_optionErr e of
        Some err \<Rightarrow> LoadDone ([], loadOutcomeAllow, Some err)
      | None \<Rightarrow>
          if snapshotFreshLocked e now then LoadDone (the (en_cache e), loadOutcomeFresh, None)
          else if retryBackoffActiveLocked e now then
            (let (rules, outcome) = fallbackLocked e in LoadDone (rules, outcome, None))
          else LoadRefresh (e\<lparr>en_lastRefreshAttempt := Some now\<rparr>) (en_refreshGeneration e))"

fun compileAll :: "externals \<Rightarrow> PackageRule list \<Rightarrow> gerror + compiledRule list" where
  "compileAll E [] = Inr []"
| "compileAll E (model # models) =
     (case compilePersistedRule E model of
        Inl _ \<Rightarrow> Inl [ErrPolicyIntegrity]
      | Inr rule \<Rightarrow> bind_err (compileAll E models) (\<lambda>rules. Inr (rule # rules)))"

text \<open>How a failed read is recorded: the wrapped error, and whether it counts as an outage.\<close>

definition classifyLoadError :: "gerror \<Rightarrow> gerror \<times> bool" where
  "classifyLoadError err =
     (if errors_Is err ErrRuleDataIntegrity \<or> errors_Is err ErrPolicyIntegrity then ([ErrPolicyIntegrity], False)
      else if errors_Is err ErrRuleStoreUnavailable \<or> isRuleStoreAvailabilityError err then
        (if errors_Is err ErrRuleStoreUnavailable then err else [ErrRuleStoreUnavailable], True)
      else ([ErrPolicyIntegrity], False))"

definition load_end ::
  "externals \<Rightarrow> time \<Rightarrow> uint \<Rightarrow> gerror + PackageRule list \<Rightarrow> time \<Rightarrow> Engine \<Rightarrow> Engine \<times> load_result" where
  "load_end E began generation read finished e =
     (if \<not> en_store e then finishRefreshFailureLocked finished [ErrRuleStoreUnavailable] True e
      else (case read of
          Inl err \<Rightarrow> (let (wrapped, unavailable) = classifyLoadError err in
            finishRefreshFailureLocked finished wrapped unavailable e)
        | Inr models \<Rightarrow>
            (case compileAll E models of
               Inl err \<Rightarrow> finishRefreshFailureLocked finished err False e
             | Inr compiled \<Rightarrow>
                 (e\<lparr>en_cache := Some compiled, en_lastLoad := Some finished, en_lastRefreshAttempt := Some began,
                    en_lastRefreshError := None, en_lastRefreshWasFailure := False,
                    en_forceRefresh := (if en_refreshGeneration e = generation then False else en_forceRefresh e),
                    en_degraded := False, en_usingStaleSnapshot := False\<rparr>,
                  (compiled, loadOutcomeFresh, None)))))"

text \<open>
  One undisturbed call: the three clock readings and the answer of \<open>Store.List\<close>. A nil
  engine has no rules.
\<close>

record load_env =
  le_now :: "time"
  le_locked :: "time"
  le_read :: "gerror + PackageRule list"
  le_finished :: "time"

definition loadRulesWithState :: "externals \<Rightarrow> load_env \<Rightarrow> Engine option \<Rightarrow> Engine option \<times> load_result" where
  "loadRulesWithState E env eo =
     (case eo of
        None \<Rightarrow> (None, ([], loadOutcomeAllow, None))
      | Some e \<Rightarrow>
          (case load_fast (le_now env) e of
             Some r \<Rightarrow> (Some e, r)
           | None \<Rightarrow>
               (case load_begin (le_locked env) e of
                  LoadDone r \<Rightarrow> (Some e, r)
                | LoadRefresh e' generation \<Rightarrow>
                    (let (e'', r) = load_end E (le_locked env) generation (le_read env) (le_finished env) e'
                     in (Some e'', r)))))"

subsection \<open>Status\<close>

record PolicyStatus =
  ps_Status :: string
  ps_Degraded :: bool
  ps_UsingStaleSnapshot :: bool
  ps_LastSuccessfulRefresh :: "time option"
  ps_SnapshotLoadedAt :: "time option"
  ps_SnapshotAge :: int                    \<comment> \<open>in nanoseconds; the code converts to seconds\<close>
  ps_RefreshFailures :: uint
  ps_OnLoadError :: OnLoadErrorPolicy

definition policyStatusLocked :: "Engine \<Rightarrow> time \<Rightarrow> PolicyStatus" where
  "policyStatusLocked e now =
     \<lparr>ps_Status = (if en_lastLoad e = None then ''unavailable'' else if en_degraded e then ''degraded'' else ''healthy''),
      ps_Degraded = en_degraded e, ps_UsingStaleSnapshot = en_usingStaleSnapshot e,
      ps_LastSuccessfulRefresh = en_lastLoad e, ps_SnapshotLoadedAt = en_lastLoad e,
      ps_SnapshotAge = (case en_lastLoad e of None \<Rightarrow> 0 | Some t \<Rightarrow>
        if time_Sub now t < 0 then 0 else time_Sub now t),
      ps_RefreshFailures = en_refreshFailures e,
      ps_OnLoadError = (if en_onLoadError e = [] then DefaultOnLoadErrorPolicy else en_onLoadError e)\<rparr>"

definition Engine_PolicyStatus :: "Engine option \<Rightarrow> time \<Rightarrow> PolicyStatus" where
  "Engine_PolicyStatus eo now =
     (case eo of
        None \<Rightarrow> \<lparr>ps_Status = ''unavailable'', ps_Degraded = False, ps_UsingStaleSnapshot = False,
          ps_LastSuccessfulRefresh = None, ps_SnapshotLoadedAt = None, ps_SnapshotAge = 0,
          ps_RefreshFailures = 0, ps_OnLoadError = DefaultOnLoadErrorPolicy\<rparr>
      | Some e \<Rightarrow> policyStatusLocked e now)"

definition Engine_OnLoadErrorPolicy :: "Engine option \<Rightarrow> OnLoadErrorPolicy" where
  "Engine_OnLoadErrorPolicy eo =
     (case eo of
        None \<Rightarrow> DefaultOnLoadErrorPolicy
      | Some e \<Rightarrow> if en_onLoadError e = [] then DefaultOnLoadErrorPolicy else en_onLoadError e)"

definition fallbackAllowsWithoutSnapshot :: "Engine option \<Rightarrow> bool" where
  "fallbackAllowsWithoutSnapshot eo \<longleftrightarrow>
     Engine_OnLoadErrorPolicy eo \<noteq> OnLoadErrorUseStaleThenDeny \<and> Engine_OnLoadErrorPolicy eo \<noteq> OnLoadErrorDeny"

subsection \<open>Decisions\<close>

text \<open>\<open>ctx\<close> is the error of the request context, if it is done.\<close>

definition Check ::
  "externals \<Rightarrow> gerror option \<Rightarrow> load_env \<Rightarrow> Engine option \<Rightarrow> string \<Rightarrow> string \<Rightarrow> string \<Rightarrow> Engine option \<times> decision" where
  "Check E ctx env eo ecosystem packageName version =
     (case ctx of
        Some err \<Rightarrow> (eo, (True, None, Some err))
      | None \<Rightarrow>
          (case loadRulesWithState E env eo of
             (eo', (rules, outcome, Some err)) \<Rightarrow> (eo', (True, None, Some err))
           | (eo', (rules, outcome, None)) \<Rightarrow>
               if outcome = loadOutcomeDeny then (eo', (False, None, None))
               else (eo', check_snapshot E rules ecosystem packageName version)))"

definition CheckIncompleteArtifact ::
  "externals \<Rightarrow> gerror option \<Rightarrow> load_env \<Rightarrow> Engine option \<Rightarrow> string \<Rightarrow> Engine option \<times> decision" where
  "CheckIncompleteArtifact E ctx env eo ecosystem =
     (case ctx of
        Some err \<Rightarrow> (eo, (True, None, Some err))
      | None \<Rightarrow>
          (case loadRulesWithState E env eo of
             (eo', (rules, outcome, Some err)) \<Rightarrow> (eo', (True, None, Some err))
           | (eo', (rules, outcome, None)) \<Rightarrow>
               if outcome = loadOutcomeDeny then (eo', (False, None, None))
               else (eo', incomplete_snapshot E rules ecosystem)))"

definition deny_evaluation :: Evaluation where
  "deny_evaluation =
     \<lparr>ev_Allowed = False, ev_MatchedRule = None, ev_Reason = ''policy load fallback denied request'',
      ev_WinningRule = None, ev_WinnerReason = ''policy load fallback denied request'',
      ev_PrecedenceReason = ''policy_fallback_deny'', ev_Winner = None, ev_Candidates = []\<rparr>"

text \<open>\<open>Explain\<close> with the status read at \<open>now\<close>.\<close>

definition Explain ::
  "externals \<Rightarrow> gerror option \<Rightarrow> load_env \<Rightarrow> time \<Rightarrow> Engine option \<Rightarrow> string \<Rightarrow> string \<Rightarrow> string \<Rightarrow>
   Engine option \<times> (gerror + Evaluation \<times> PolicyStatus)" where
  "Explain E ctx env now eo ecosystem packageName version =
     (case ctx of
        Some err \<Rightarrow> (eo, Inl err)
      | None \<Rightarrow>
          (case loadRulesWithState E env eo of
             (eo', (rules, outcome, Some err)) \<Rightarrow> (eo', Inl err)
           | (eo', (rules, outcome, None)) \<Rightarrow>
               if outcome = loadOutcomeDeny then (eo', Inr (deny_evaluation, Engine_PolicyStatus eo' now))
               else (eo', bind_err (explain_snapshot E rules ecosystem packageName version)
                 (\<lambda>evaluation. Inr (evaluation, Engine_PolicyStatus eo' now)))))"

subsection \<open>Interleaving with writers\<close>

text \<open>
  The engine together with the rule table and at most one refresh in flight (\<open>refreshMu\<close>).
  A job records what \<open>load_begin\<close> captured and, later, what the store answered. Two fields
  are ghost state: whether the table was written since the last invalidation, and the number
  of invalidations. A writer writes the table and then calls \<open>InvalidateCache\<close>; anything may
  happen in between.
\<close>

record refresh_job =
  rj_began :: "time"
  rj_generation :: uint
  rj_read :: "(gerror + PackageRule list) option"

record policy_system =
  sy_engine :: Engine
  sy_rows :: "PackageRule list"
  sy_job :: "refresh_job option"
  sy_dirty :: bool
  sy_invalidations :: nat

definition sys_init :: "Engine \<Rightarrow> PackageRule list \<Rightarrow> policy_system" where
  "sys_init e rows = \<lparr>sy_engine = e, sy_rows = rows, sy_job = None, sy_dirty = False, sy_invalidations = 0\<rparr>"

inductive sys_step :: "externals \<Rightarrow> policy_system \<Rightarrow> policy_system \<Rightarrow> bool" for E where
  write_rules: "sys_step E s (s\<lparr>sy_rows := rows, sy_dirty := True\<rparr>)"
| invalidate: "sys_step E s (s\<lparr>sy_engine := InvalidateCache (sy_engine s), sy_dirty := False,
    sy_invalidations := Suc (sy_invalidations s)\<rparr>)"
| start: "sy_job s = None \<Longrightarrow> load_begin now (sy_engine s) = LoadRefresh e generation \<Longrightarrow>
    sys_step E s (s\<lparr>sy_engine := e,
      sy_job := Some \<lparr>rj_began = now, rj_generation = generation, rj_read = None\<rparr>\<rparr>)"
| read: "sy_job s = Some j \<Longrightarrow> rj_read j = None \<Longrightarrow> r = Inr (sy_rows s) \<or> r = Inl err \<Longrightarrow>
    sys_step E s (s\<lparr>sy_job := Some (j\<lparr>rj_read := Some r\<rparr>)\<rparr>)"
| finish: "sy_job s = Some j \<Longrightarrow> rj_read j = Some r \<Longrightarrow>
    load_end E (rj_began j) (rj_generation j) r now (sy_engine s) = (e, result) \<Longrightarrow>
    sys_step E s (s\<lparr>sy_engine := e, sy_job := None\<rparr>)"

inductive sys_reachable :: "externals \<Rightarrow> policy_system \<Rightarrow> bool" for E where
  init: "sys_reachable E (sys_init (NewEngine E store opts) rows)"
| step: "sys_reachable E s \<Longrightarrow> sys_step E s t \<Longrightarrow> sys_reachable E t"

lemma finish_failure_frame:
  assumes "finishRefreshFailureLocked now err unavailable e = (e', r)"
  shows "en_cache e' = en_cache e" "en_forceRefresh e' = en_forceRefresh e" "en_lastLoad e' = en_lastLoad e"
    "en_refreshGeneration e' = en_refreshGeneration e"
  using assms by (auto simp: finishRefreshFailureLocked_def Let_def split: if_splits prod.splits)

lemma compileAll_error: "compileAll E models = Inl err \<Longrightarrow> err = [ErrPolicyIntegrity]"
  by (induction models) (auto split: sum.splits)

text \<open>The end of a refresh either publishes a compiled table or leaves the snapshot alone.\<close>

lemma load_end_cases:
  assumes "load_end E began generation r now e = (e', result)"
  obtains (published) models compiled where "r = Inr models" "compileAll E models = Inr compiled"
      "en_cache e' = Some compiled" "en_lastLoad e' = Some now"
      "en_forceRefresh e' = (en_refreshGeneration e \<noteq> generation \<and> en_forceRefresh e)"
      "en_refreshGeneration e' = en_refreshGeneration e" "\<not> en_degraded e'" "\<not> en_usingStaleSnapshot e'"
      "result = (compiled, loadOutcomeFresh, None)"
  | (failed) err unavailable where
      "finishRefreshFailureLocked now err unavailable e = (e', result)"
      "unavailable \<longrightarrow> errors_Is err ErrRuleStoreUnavailable" "\<not> unavailable \<longrightarrow> errors_Is err ErrPolicyIntegrity"
proof (cases "en_store e")
  case False
  then show ?thesis using assms failed [of "[ErrRuleStoreUnavailable]" True] by (simp add: load_end_def errors_Is_def)
next
  case True
  show ?thesis
  proof (cases r)
    case (Inl err)
    obtain w u where w: "classifyLoadError err = (w, u)" by fastforce
    have "(u \<longrightarrow> errors_Is w ErrRuleStoreUnavailable) \<and> (\<not> u \<longrightarrow> errors_Is w ErrPolicyIntegrity)"
      using w by (auto simp: classifyLoadError_def errors_Is_def split: if_splits)
    then show ?thesis using assms True Inl w failed [of w u] by (simp add: load_end_def)
  next
    case (Inr models)
    show ?thesis
    proof (cases "compileAll E models")
      case (Inl err)
      then have "errors_Is err ErrPolicyIntegrity" using compileAll_error [OF Inl] by (simp add: errors_Is_def)
      then show ?thesis using assms True \<open>r = Inr models\<close> Inl failed [of err False] by (simp add: load_end_def)
    next
      case compiled: (Inr compiled)
      then show ?thesis using assms True Inr published [OF Inr compiled] by (auto simp: load_end_def split: if_splits)
    qed
  qed
qed

lemma load_begin_refresh:
  assumes "load_begin now e = LoadRefresh e' generation"
  shows "e' = e\<lparr>en_lastRefreshAttempt := Some now\<rparr>" "generation = en_refreshGeneration e"
  using assms by (auto simp: load_begin_def split: option.splits if_splits prod.splits)

subsection \<open>The invariant of the system\<close>

text \<open>
  A generation counter of 64 bits identifies the number of invalidations while that number
  is below \<open>2 ^ 64\<close>. A refresh whose generation is current and whose table was not written
  since the last invalidation has read the current rows; one that was overtaken leaves
  \<open>forceRefresh\<close> set.
\<close>

definition sys_inv :: "externals \<Rightarrow> policy_system \<Rightarrow> bool" where
  "sys_inv E s \<longleftrightarrow>
     en_refreshGeneration (sy_engine s) = word_of_nat (sy_invalidations s) \<and>
     (\<forall>j. sy_job s = Some j \<longrightarrow>
        (\<exists>m \<le> sy_invalidations s. rj_generation j = word_of_nat m \<and>
           (m < sy_invalidations s \<longrightarrow> en_forceRefresh (sy_engine s)) \<and>
           (\<forall>rows. rj_read j = Some (Inr rows) \<and> m = sy_invalidations s \<and> \<not> sy_dirty s \<longrightarrow> rows = sy_rows s))) \<and>
     (\<forall>c. en_cache (sy_engine s) = Some c \<and> \<not> en_forceRefresh (sy_engine s) \<and> \<not> sy_dirty s \<longrightarrow>
        compileAll E (sy_rows s) = Inr c)"

lemma apply_options_frame:
  "en_cache (apply_options E opts e) = en_cache e \<and>
   en_refreshGeneration (apply_options E opts e) = en_refreshGeneration e \<and>
   en_lastLoad (apply_options E opts e) = en_lastLoad e"
proof (induction opts arbitrary: e)
  case (Cons opt opts)
  then show ?case by (cases opt) (auto split: sum.splits)
qed simp

lemma sys_inv_init: "sys_inv E (sys_init (NewEngine E store opts) rows)"
  by (simp add: sys_inv_def sys_init_def NewEngine_def apply_options_frame)

lemma word_of_nat_inj64: "m \<le> n \<Longrightarrow> n < 2 ^ 64 \<Longrightarrow> (word_of_nat m :: 64 word) = word_of_nat n \<longleftrightarrow> m = n"
  by (auto simp: word_of_nat_eq_iff take_bit_nat_eq_self)

lemma sys_step_mono: "sys_step E s t \<Longrightarrow> sy_invalidations s \<le> sy_invalidations t"
  by (induction rule: sys_step.induct) simp_all

lemma sys_step_inv:
  assumes "sys_step E s t" and "sys_inv E s" and "sy_invalidations t < 2 ^ 64"
  shows "sys_inv E t"
  using assms
proof (induction rule: sys_step.induct)
  case (write_rules s rows)
  then show ?case unfolding sys_inv_def by simp blast
next
  case (invalidate s)
  have "\<exists>m \<le> Suc (sy_invalidations s). rj_generation j = word_of_nat m \<and> m \<noteq> Suc (sy_invalidations s)"
    if "sy_job s = Some j" for j
    using invalidate(1) that unfolding sys_inv_def by (metis le_SucI Suc_n_not_le_n)
  then show ?case using invalidate(1) by (fastforce simp: sys_inv_def InvalidateCache_def add.commute)
next
  case (start s now e generation)
  then show ?case using load_begin_refresh [OF start(2)] by (auto simp: sys_inv_def)
next
  case (read s j r err)
  then show ?case by (auto simp: sys_inv_def)
next
  case (finish s j r now e result)
  from finish(3) show ?case
  proof (cases rule: load_end_cases)
    case (failed err unavailable)
    then show ?thesis using finish(4) finish_failure_frame [OF failed(1)] by (simp add: sys_inv_def)
  next
    case (published models compiled)
    obtain m where m: "m \<le> sy_invalidations s" "rj_generation j = word_of_nat m"
      "m < sy_invalidations s \<longrightarrow> en_forceRefresh (sy_engine s)"
      "m = sy_invalidations s \<and> \<not> sy_dirty s \<longrightarrow> models = sy_rows s"
      using finish(1,2,4) published(1) unfolding sys_inv_def by blast
    have g: "en_refreshGeneration (sy_engine s) = rj_generation j \<longleftrightarrow> m = sy_invalidations s"
      using finish(4,5) m(1,2) word_of_nat_inj64 [of m "sy_invalidations s"] by (auto simp: sys_inv_def)
    have "compileAll E (sy_rows s) = Inr compiled" if "\<not> en_forceRefresh e" "\<not> sy_dirty s"
    proof -
      have "m = sy_invalidations s" using that(1) published(5) g m(1,3) by linarith
      then show ?thesis using m(4) that(2) published(2) by simp
    qed
    then show ?thesis using finish(4) published(3,6) by (simp add: sys_inv_def)
  qed
qed

lemma sys_reachable_inv: "sys_reachable E s \<Longrightarrow> sy_invalidations s < 2 ^ 64 \<Longrightarrow> sys_inv E s"
proof (induction rule: sys_reachable.induct)
  case (init store opts rows)
  show ?case by (rule sys_inv_init)
next
  case (step s t)
  then show ?case using sys_step_mono [OF step(2)] sys_step_inv [OF step(2)] by simp
qed

text \<open>
  C29: No invalidation is lost. In every interleaving of rule writes, invalidations and
  refreshes with fewer than \<open>2 ^ 64\<close> invalidations, when every write has been followed by an
  invalidation: a request that finds a fresh snapshot, in either of the two checks, is given the
  compilation of the rules that are now in the table; a request whose own refresh began after the
  last invalidation is given it too; and a refresh that began earlier, which answers its own
  request with the rows it read, leaves the engine without a fresh snapshot, so that no later
  request is given them as fresh.
\<close>

theorem invalidation_never_lost:
  assumes "sys_reachable E s" and "sy_invalidations s < 2 ^ 64" and "\<not> sy_dirty s"
  shows "(\<forall>now rules err. load_fast now (sy_engine s) = Some (rules, loadOutcomeFresh, err) \<or>
        load_begin now (sy_engine s) = LoadDone (rules, loadOutcomeFresh, err) \<longrightarrow> compileAll E (sy_rows s) = Inr rules) \<and>
    (\<forall>j r now e' rules err. sy_job s = Some j \<and> rj_read j = Some r \<and>
        load_end E (rj_began j) (rj_generation j) r now (sy_engine s) = (e', rules, loadOutcomeFresh, err) \<longrightarrow>
        (if rj_generation j = en_refreshGeneration (sy_engine s) then compileAll E (sy_rows s) = Inr rules
         else \<forall>later. \<not> snapshotFreshLocked e' later))"
proof (intro conjI allI impI)
  note inv = sys_reachable_inv [OF assms(1,2)]
  fix now rules err
  assume "load_fast now (sy_engine s) = Some (rules, loadOutcomeFresh, err) \<or>
    load_begin now (sy_engine s) = LoadDone (rules, loadOutcomeFresh, err)"
  then have "snapshotFreshLocked (sy_engine s) now \<and> en_cache (sy_engine s) = Some rules"
    by (auto simp: load_fast_def load_begin_def fallbackReadOnlyLocked_def fallbackLocked_def snapshotFreshLocked_def Let_def
        split: option.splits if_splits prod.splits)
  then show "compileAll E (sy_rows s) = Inr rules" using inv assms(3) by (auto simp: sys_inv_def snapshotFreshLocked_def)
next
  note inv = sys_reachable_inv [OF assms(1,2)]
  fix j r now e' rules err
  assume asm: "sy_job s = Some j \<and> rj_read j = Some r \<and>
    load_end E (rj_began j) (rj_generation j) r now (sy_engine s) = (e', rules, loadOutcomeFresh, err)"
  then obtain models where models: "r = Inr models" "compileAll E models = Inr rules"
    and force: "en_forceRefresh e' = (if en_refreshGeneration (sy_engine s) = rj_generation j then False else en_forceRefresh (sy_engine s))"
    by (auto simp: load_end_def finishRefreshFailureLocked_def fallbackLocked_def Let_def
        split: if_splits sum.split_asm prod.split_asm)
  obtain m where m: "m \<le> sy_invalidations s" "rj_generation j = word_of_nat m" "m < sy_invalidations s \<longrightarrow> en_forceRefresh (sy_engine s)"
    "m = sy_invalidations s \<longrightarrow> models = sy_rows s"
    using inv asm models(1) assms(3) unfolding sys_inv_def by blast
  have "rj_generation j = en_refreshGeneration (sy_engine s) \<longleftrightarrow> m = sy_invalidations s"
    using inv m(1,2) word_of_nat_inj64 [of m "sy_invalidations s"] assms(2) by (auto simp: sys_inv_def)
  then show "if rj_generation j = en_refreshGeneration (sy_engine s) then compileAll E (sy_rows s) = Inr rules
      else \<forall>later. \<not> snapshotFreshLocked e' later"
    using m models(2) force by (auto simp: snapshotFreshLocked_def)
qed

text \<open>
  Two interleaved executions: a refresh reads the empty table, a rule is written and
  invalidated while the refresh is in flight, the refresh publishes the old rows, and the
  next refresh publishes the new ones.
\<close>

abbreviation sample_row :: PackageRule where
  "sample_row \<equiv> sample_rule 2 ''npm'' ''left-*'' ''*'' ''deny''"

fun race_steps :: "nat \<Rightarrow> policy_system \<Rightarrow> policy_system" where
  "race_steps 0 s = s"
| "race_steps (Suc n) s = race_steps n
     (case sy_job s of
        None \<Rightarrow> (case load_begin 5 (sy_engine s) of
            LoadRefresh e g \<Rightarrow> s\<lparr>sy_engine := e, sy_job := Some \<lparr>rj_began = 5, rj_generation = g, rj_read = None\<rparr>\<rparr>
          | LoadDone r \<Rightarrow> s)
      | Some j \<Rightarrow> (case rj_read j of
            None \<Rightarrow> s\<lparr>sy_job := Some (j\<lparr>rj_read := Some (Inr (sy_rows s))\<rparr>)\<rparr>
          | Some r \<Rightarrow> s\<lparr>sy_engine := fst (load_end ascii_externals (rj_began j) (rj_generation j) r 6 (sy_engine s)), sy_job := None\<rparr>))"

lemma race_steps_reachable:
  "sys_reachable ascii_externals s \<Longrightarrow> sys_reachable ascii_externals (race_steps n s)"
proof (induction n arbitrary: s)
  case (Suc n)
  let ?t = "race_steps 1 s"
  have "?t = s \<or> sys_step ascii_externals s ?t"
  proof (cases "sy_job s")
    case None
    then show ?thesis
      by (cases "load_begin 5 (sy_engine s)") (auto intro: sys_step.start)
  next
    case (Some j)
    show ?thesis
    proof (cases "rj_read j")
      case None
      then show ?thesis using Some by (auto intro: sys_step.read)
    next
      case (Some r)
      obtain e result where "load_end ascii_externals (rj_began j) (rj_generation j) r 6 (sy_engine s) = (e, result)"
        by (meson surj_pair)
      then show ?thesis using \<open>sy_job s = Some j\<close> Some by (auto intro: sys_step.finish)
    qed
  qed
  then have "sys_reachable ascii_externals ?t" using Suc.prems sys_reachable.step by metis
  then show ?case using Suc.IH by simp
qed simp

definition race_middle :: policy_system where
  "race_middle = (let s = race_steps 2 (sys_init (NewEngine ascii_externals True []) []) in
     s\<lparr>sy_rows := [sample_row], sy_engine := InvalidateCache (sy_engine s), sy_dirty := False,
       sy_invalidations := Suc (sy_invalidations s)\<rparr>)"

lemma race_middle_reachable: "sys_reachable ascii_externals race_middle"
proof -
  let ?s = "race_steps 2 (sys_init (NewEngine ascii_externals True []) [])"
  have "sys_reachable ascii_externals ?s" by (rule race_steps_reachable) (rule sys_reachable.init)
  then have "sys_reachable ascii_externals (?s\<lparr>sy_rows := [sample_row], sy_dirty := True\<rparr>)"
    by (rule sys_reachable.step) (rule sys_step.write_rules)
  then have "sys_reachable ascii_externals (?s\<lparr>sy_rows := [sample_row], sy_dirty := True\<rparr>
      \<lparr>sy_engine := InvalidateCache (sy_engine (?s\<lparr>sy_rows := [sample_row], sy_dirty := True\<rparr>)), sy_dirty := False,
       sy_invalidations := Suc (sy_invalidations (?s\<lparr>sy_rows := [sample_row], sy_dirty := True\<rparr>))\<rparr>)"
    by (rule sys_reachable.step) (rule sys_step.invalidate)
  then show ?thesis by (simp add: race_middle_def Let_def)
qed

lemma race_middle_job: "\<exists>j r. sy_job race_middle = Some j \<and> rj_read j = Some r"
proof -
  have "case sy_job race_middle of Some j \<Rightarrow> rj_read j \<noteq> None | None \<Rightarrow> False" by code_simp
  then show ?thesis by (auto split: option.splits)
qed

theorem invalidation_never_lost_witness:
  "(\<forall>later. \<not> snapshotFreshLocked (sy_engine (race_steps 1 race_middle)) later) \<and>
   (\<exists>rules. load_fast 7 (sy_engine (race_steps 4 race_middle)) = Some (rules, loadOutcomeFresh, None) \<and>
      compileAll ascii_externals [sample_row] = Inr rules)"
proof
  let ?m = "race_middle" and ?s = "race_steps 4 race_middle"
  obtain j r where j: "sy_job ?m = Some j" "rj_read j = Some r"
    using race_middle_job by blast
  let ?fin = "load_end ascii_externals (rj_began j) (rj_generation j) r 6 (sy_engine ?m)"
  have "case sy_job ?m of Some j \<Rightarrow> (case rj_read j of Some r \<Rightarrow>
      rj_generation j \<noteq> en_refreshGeneration (sy_engine ?m) \<and>
      (case load_end ascii_externals (rj_began j) (rj_generation j) r 6 (sy_engine ?m) of (_, _, outcome, _) \<Rightarrow> outcome = loadOutcomeFresh)
      | None \<Rightarrow> False) | None \<Rightarrow> False" by code_simp
  then have g: "rj_generation j \<noteq> en_refreshGeneration (sy_engine ?m)" and "fst (snd (snd ?fin)) = loadOutcomeFresh"
    using j by (auto split: prod.splits)
  then obtain e' rules err where e: "?fin = (e', rules, loadOutcomeFresh, err)" by (metis prod.collapse)
  have ok: "sy_invalidations ?m < 2 ^ 64" "\<not> sy_dirty ?m" by code_simp+
  have "\<forall>later. \<not> snapshotFreshLocked e' later"
    using conjunct2 [OF invalidation_never_lost [OF race_middle_reachable ok]] j e g by metis
  moreover have "sy_engine (race_steps 1 ?m) = e'" using j e by simp
  ultimately show "\<forall>later. \<not> snapshotFreshLocked (sy_engine (race_steps 1 ?m)) later" by simp
  have "case load_fast 7 (sy_engine ?s) of Some (rules, loadOutcomeFresh, None) \<Rightarrow> True | _ \<Rightarrow> False" by code_simp
  then obtain rules where fast: "load_fast 7 (sy_engine ?s) = Some (rules, loadOutcomeFresh, None)"
    by (auto split: option.splits prod.splits loadOutcome.splits)
  have "sy_invalidations ?s < 2 ^ 64" "\<not> sy_dirty ?s" "sy_rows ?s = [sample_row]" by code_simp+
  then have "compileAll ascii_externals [sample_row] = Inr rules"
    using conjunct1 [OF invalidation_never_lost [OF race_steps_reachable [OF race_middle_reachable]]] fast by metis
  then show "\<exists>rules. load_fast 7 (sy_engine ?s) = Some (rules, loadOutcomeFresh, None) \<and>
      compileAll ascii_externals [sample_row] = Inr rules" using fast by blast
qed

end
