(* ===== verification/Go_Paths.thy ===== *)
theory Go_Paths
  imports Lexical
begin

text \<open>
  More of the Go library, as the request-path code uses it: substring search, \<open>SplitN\<close>,
  case folding, \<open>path.Base\<close> and \<open>url.PathUnescape\<close>. The fold classes above ASCII and the
  escaping of \<open>golang.org/x/mod/module\<close> are the fields of \<open>path_externals\<close>.
\<close>

record path_externals =
  uc_fold :: "rune \<Rightarrow> rune"                    \<comment> \<open>a representative of the simple-fold orbit\<close>
  module_UnescapePath :: "string \<Rightarrow> string option"
  module_EscapePath :: "string \<Rightarrow> string option"
  module_UnescapeVersion :: "string \<Rightarrow> string option"
  module_EscapeVersion :: "string \<Rightarrow> string option"

text \<open>An instance for the witnesses: no letters beyond ASCII, module paths unescaped.\<close>

definition ascii_paths :: path_externals where
  "ascii_paths = \<lparr>uc_fold = (\<lambda>r. r), module_UnescapePath = Some, module_EscapePath = Some,
     module_UnescapeVersion = Some, module_EscapeVersion = Some\<rparr>"

text \<open>\<open>strings.Index\<close> and \<open>strings.LastIndex\<close>; \<open>None\<close> is the result \<open>-1\<close>.\<close>

fun Index :: "string \<Rightarrow> string \<Rightarrow> nat option" where
  "Index [] sub = (if sub = [] then Some 0 else None)"
| "Index (c # s) sub = (if HasPrefix (c # s) sub then Some 0 else map_option Suc (Index s sub))"

fun LastIndex :: "string \<Rightarrow> string \<Rightarrow> nat option" where
  "LastIndex [] sub = (if sub = [] then Some 0 else None)"
| "LastIndex (c # s) sub =
     (case LastIndex s sub of
        Some i \<Rightarrow> Some (Suc i)
      | None \<Rightarrow> if HasPrefix (c # s) sub then Some 0 else None)"

text \<open>\<open>strings.SplitN\<close> at a byte, and at a string with a limit of two.\<close>

fun SplitN :: "string \<Rightarrow> char \<Rightarrow> nat \<Rightarrow> string list" where
  "SplitN s c 0 = []"
| "SplitN s c (Suc 0) = [s]"
| "SplitN s c (Suc (Suc n)) =
     (case Cut s c of (before, after, found) \<Rightarrow> if found then before # SplitN after c (Suc n) else [s])"

definition SplitTwo :: "string \<Rightarrow> string \<Rightarrow> string list" where
  "SplitTwo s sep = (case Index s sep of None \<Rightarrow> [s] | Some i \<Rightarrow> [take i s, drop (i + length sep) s])"

definition FoldClass :: "path_externals \<Rightarrow> rune \<Rightarrow> rune" where
  "FoldClass X r = (if r < 128 \<or> r = 383 \<or> r = 8490 then FoldRune r else uc_fold X r)"

definition EqualFold :: "path_externals \<Rightarrow> string \<Rightarrow> string \<Rightarrow> bool" where
  "EqualFold X s t \<longleftrightarrow> map (FoldClass X) (runes s) = map (FoldClass X) (runes t)"

definition path_Base :: "string \<Rightarrow> string" where
  "path_Base p =
     (if p = [] then ''.''
      else (let stripped = strip_suffix_while (\<lambda>c. c = CHR ''/'') p;
                base = rev (takeWhile (\<lambda>c. c \<noteq> CHR ''/'') (rev stripped)) in
        if base = [] then ''/'' else base))"

definition unhex :: "char \<Rightarrow> nat option" where
  "unhex c =
     (if 48 \<le> byte c \<and> byte c \<le> 57 then Some (byte c - 48)
      else if 97 \<le> byte c \<and> byte c \<le> 102 then Some (byte c - 87)
      else if 65 \<le> byte c \<and> byte c \<le> 70 then Some (byte c - 55)
      else None)"

text \<open>The three bytes of an escape, or the error of a malformed one.\<close>

fun PathUnescape :: "string \<Rightarrow> string option" where
  "PathUnescape [] = Some []"
| "PathUnescape (c # s) =
     (if c = CHR ''%'' then
        (case s of
           a # b # r \<Rightarrow>
             (case (unhex a, unhex b) of
                (Some x, Some y) \<Rightarrow> map_option ((#) (char_of (16 * x + y))) (PathUnescape r)
              | _ \<Rightarrow> None)
         | _ \<Rightarrow> None)
      else map_option ((#) c) (PathUnescape s))"

subsection \<open>Facts\<close>

lemma HasPrefix_append [simp]: "HasPrefix (p @ s) p"
  by (simp add: HasPrefix_def)

lemma HasPrefix_iff: "HasPrefix s p \<longleftrightarrow> (\<exists>r. s = p @ r)"
  by (metis HasPrefix_def HasPrefix_append append_take_drop_id)

lemma HasSuffix_iff: "HasSuffix s p \<longleftrightarrow> (\<exists>r. s = r @ p)"
  unfolding HasSuffix_def HasPrefix_iff by (metis rev_append rev_rev_ident)

lemma HasSuffix_append [simp]: "HasSuffix (s @ p) p"
  by (auto simp: HasSuffix_iff)

lemma TrimSuffix_append [simp]: "TrimSuffix (s @ p) p = s"
  by (simp add: TrimSuffix_def)

lemma TrimPrefix_append [simp]: "TrimPrefix (p @ s) p = s"
  by (simp add: TrimPrefix_def)

lemma TrimSuffix_eq: "HasSuffix s p \<Longrightarrow> s = TrimSuffix s p @ p"
  by (auto simp: HasSuffix_iff)

lemma TrimPrefix_eq: "HasPrefix s p \<Longrightarrow> s = p @ TrimPrefix s p"
  by (auto simp: HasPrefix_iff)

lemma Index_Some: "Index s sub = Some i \<Longrightarrow> s = take i s @ sub @ drop (i + length sub) s"
proof (induction s sub arbitrary: i rule: Index.induct)
  case (2 c s sub)
  then show ?case
    by (cases "HasPrefix (c # s) sub") (auto simp: HasPrefix_iff)
qed (auto split: if_splits)

lemma LastIndex_Some: "LastIndex s sub = Some i \<Longrightarrow> s = take i s @ sub @ drop (i + length sub) s"
proof (induction s sub arbitrary: i rule: LastIndex.induct)
  case (2 c s sub)
  then show ?case
    by (auto simp: HasPrefix_iff split: option.splits if_splits)
qed (auto split: if_splits)

lemma LastIndexByte_Some: "LastIndexByte s c = Some i \<Longrightarrow> s = take i s @ c # drop (Suc i) s \<and> c \<notin> set (drop (Suc i) s)"
proof -
  assume a: "LastIndexByte s c = Some i"
  then have m: "c \<in> set s" by (auto simp: LastIndexByte_def split: if_splits)
  then obtain x y where s: "s = x @ c # y" "c \<notin> set y" by (metis split_list_last)
  then have "i = length x" using a LastIndexByte_append by simp
  then show ?thesis using s by simp
qed

end
