(* ===== verification/Package_Key.thy ===== *)
theory Package_Key
  imports Go_Paths Package_Names Maven
begin

text \<open>
  \<open>internal/adapter/packagekey\<close>: the package identity that a download path or a cache key
  establishes. Every parser returns the pair (name, version); the empty string is Go's way to
  say that the identity is not established. Then \<open>DecodeProxyPath\<close> and \<open>DecodeProxyVersion\<close>
  of \<open>internal/gomoduleidentity\<close>. The facts say that a parsed identity is spelled in the path
  in exactly one way.
\<close>

type_synonym pkg_identity = "string \<times> string"

abbreviation no_identity :: pkg_identity where
  "no_identity \<equiv> ([], [])"

subsection \<open>Go module proxy paths\<close>

definition DecodeProxyPath :: "path_externals \<Rightarrow> string \<Rightarrow> gerror + string" where
  "DecodeProxyPath X escaped =
     (case module_UnescapePath X escaped of
        None \<Rightarrow> Inl plain_error
      | Some value \<Rightarrow>
          (case module_EscapePath X value of
             None \<Rightarrow> Inl plain_error
           | Some canonical \<Rightarrow> if canonical \<noteq> escaped then Inl plain_error else Inr value))"

definition DecodeProxyVersion :: "path_externals \<Rightarrow> string \<Rightarrow> gerror + string" where
  "DecodeProxyVersion X escaped =
     (if escaped = [] then Inl plain_error
      else (case module_UnescapeVersion X escaped of
        None \<Rightarrow> Inl plain_error
      | Some value \<Rightarrow>
          (case module_EscapeVersion X value of
             None \<Rightarrow> Inl plain_error
           | Some canonical \<Rightarrow> if canonical \<noteq> escaped then Inl plain_error else Inr value)))"

definition ParseGoZipPath :: "path_externals \<Rightarrow> string \<Rightarrow> pkg_identity" where
  "ParseGoZipPath X path =
     (case Index path ''/@v/'' of
        None \<Rightarrow> no_identity
      | Some i \<Rightarrow>
          if i = 0 \<or> \<not> HasSuffix path ''.zip'' then no_identity
          else (let escapedVersion = TrimSuffix (drop (i + 4) path) ''.zip'' in
            case DecodeProxyPath X (take i path) of
              Inl _ \<Rightarrow> no_identity
            | Inr module \<Rightarrow>
                (case DecodeProxyVersion X escapedVersion of
                   Inl _ \<Rightarrow> no_identity
                 | Inr version \<Rightarrow> (module, version))))"

subsection \<open>Artifact file names and paths\<close>

definition starts_digit :: "string \<Rightarrow> bool" where
  "starts_digit s \<longleftrightarrow> s \<noteq> [] \<and> isASCIIDigit (hd s)"

definition ParsePypiFilename :: "string \<Rightarrow> pkg_identity" where
  "ParsePypiFilename filename =
     (if HasSuffix filename ''.whl'' then
        (let parts = Split (TrimSuffix filename ''.whl'') CHR ''-'' in
         if length parts \<noteq> 5 \<and> length parts \<noteq> 6 then no_identity
         else if list_ex (\<lambda>part. part = []) parts then no_identity
         else if \<not> starts_digit (parts ! 1) then no_identity
         else if length parts = 6 \<and> \<not> starts_digit (parts ! 2) then no_identity
         else (parts ! 0, parts ! 1))
      else if HasSuffix filename ''.tar.gz'' then
        (let base = TrimSuffix filename ''.tar.gz'' in
         if Count base CHR ''-'' \<noteq> 1 then no_identity
         else (case Cut base CHR ''-'' of (pkg, version, _) \<Rightarrow>
           if pkg = [] \<or> version = [] then no_identity else (pkg, version)))
      else no_identity)"

definition ParseCargoCratePath :: "string \<Rightarrow> pkg_identity" where
  "ParseCargoCratePath path =
     (let parts = Split (TrimPrefix path ''/'') CHR ''/'' in
      if length parts < 6 then no_identity
      else if parts ! 0 \<noteq> ''api'' \<or> parts ! 1 \<noteq> ''v1'' \<or> parts ! 2 \<noteq> ''crates'' \<or> parts ! 5 \<noteq> ''download''
      then no_identity
      else (parts ! 3, parts ! 4))"

text \<open>The loop from the right end over the hyphens at positions above zero.\<close>

fun lastDashDigit :: "string \<Rightarrow> nat \<Rightarrow> nat option" where
  "lastDashDigit base 0 = None"
| "lastDashDigit base (Suc i) =
     (if base ! Suc i = CHR ''-'' \<and> starts_digit (drop (Suc (Suc i)) base) then Some (Suc i)
      else lastDashDigit base i)"

definition splitDashVersion :: "string \<Rightarrow> pkg_identity" where
  "splitDashVersion base =
     (case lastDashDigit base (length base - 1) of
        None \<Rightarrow> no_identity
      | Some i \<Rightarrow> (take i base, drop (Suc i) base))"

definition ParseRubygemsFilename :: "string \<Rightarrow> pkg_identity" where
  "ParseRubygemsFilename filename =
     (if \<not> HasSuffix filename ''.gem'' then no_identity
      else splitDashVersion (TrimSuffix filename ''.gem''))"

definition after_last_slash :: "string \<Rightarrow> string" where
  "after_last_slash p = (case LastIndexByte p CHR ''/'' of None \<Rightarrow> p | Some i \<Rightarrow> drop (Suc i) p)"

definition ParseHelmPath :: "string \<Rightarrow> pkg_identity" where
  "ParseHelmPath path =
     (let filename = after_last_slash (TrimPrefix path ''/'') in
      if \<not> HasSuffix filename ''.tgz'' then no_identity
      else splitDashVersion (TrimSuffix filename ''.tgz''))"

subsubsection \<open>Maven\<close>

definition mavenArtifactTokenIsValid :: "string \<Rightarrow> bool" where
  "mavenArtifactTokenIsValid token \<longleftrightarrow>
     token \<noteq> [] \<and> list_all (\<lambda>c. isASCIIAlphanumeric c \<or> c \<in> set ''-_+'') token"

definition mavenClassifierIsValid :: "string \<Rightarrow> bool" where
  "mavenClassifierIsValid classifier \<longleftrightarrow>
     classifier \<noteq> [] \<and> list_all mavenArtifactTokenIsValid (Split classifier CHR ''.'')"

definition mavenVersionQualifiers :: "string list" where
  "mavenVersionQualifiers = [''alpha'', ''a'', ''beta'', ''b'', ''milestone'', ''m'', ''rc'', ''cr'',
     ''snapshot'', ''final'', ''ga'', ''release'', ''sp'']"

definition mavenVersionLikeMavenToken :: "externals \<Rightarrow> string \<Rightarrow> bool" where
  "mavenVersionLikeMavenToken E token \<longleftrightarrow>
     token = [] \<or> isASCIIDigit (hd token) \<or>
     (let lower = ToLower E token in
      list_ex (\<lambda>qualifier. lower = qualifier \<or>
        HasPrefix lower qualifier \<and>
        (let sfx = drop (length qualifier) lower in sfx \<noteq> [] \<and> list_all isASCIIDigit sfx))
      mavenVersionQualifiers)"

definition mavenArtifactRemainderIsValid :: "externals \<Rightarrow> string \<Rightarrow> bool" where
  "mavenArtifactRemainderIsValid E remainder \<longleftrightarrow>
     \<not> (length remainder < 2 \<or> hd remainder \<noteq> CHR ''.'' \<and> hd remainder \<noteq> CHR ''-'') \<and>
     (if hd remainder = CHR ''.'' then
        (let parts = Split (tl remainder) CHR ''.'' in
         \<not> mavenVersionLikeMavenToken E (hd parts) \<and> list_all mavenArtifactTokenIsValid parts)
      else (case LastIndexByte remainder CHR ''.'' of
          None \<Rightarrow> False
        | Some extensionIndex \<Rightarrow>
            extensionIndex > 1 \<and> extensionIndex \<noteq> length remainder - 1 \<and>
            (let classifier = drop 1 (take extensionIndex remainder);
                 extension = drop (extensionIndex + 1) remainder in
             \<not> mavenVersionLikeMavenToken E classifier \<and> mavenClassifierIsValid classifier \<and>
             mavenArtifactTokenIsValid extension)))"

definition mavenUniqueSnapshot :: "externals \<Rightarrow> string \<Rightarrow> bool" where
  "mavenUniqueSnapshot E unique \<longleftrightarrow>
     length unique \<ge> 19 \<and> list_all isASCIIDigit (take 8 unique) \<and> unique ! 8 = CHR ''.'' \<and>
     list_all isASCIIDigit (take 6 (drop 9 unique)) \<and> unique ! 15 = CHR ''-'' \<and>
     (let rest = dropWhile isASCIIDigit (drop 16 unique) in
      rest \<noteq> drop 16 unique \<and> rest \<noteq> [] \<and> mavenArtifactRemainderIsValid E rest)"

definition mavenArtifactSuffixMatchesVersion :: "externals \<Rightarrow> string \<Rightarrow> string \<Rightarrow> bool" where
  "mavenArtifactSuffixMatchesVersion E sfx baseVersion \<longleftrightarrow>
     sfx \<noteq> [] \<and> baseVersion \<noteq> [] \<and>
     (if HasPrefix sfx baseVersion then
        mavenArtifactRemainderIsValid E (TrimPrefix sfx baseVersion)
      else HasSuffix baseVersion ''-SNAPSHOT'' \<and>
        (let base = TrimSuffix baseVersion ''SNAPSHOT'' in
         HasPrefix sfx base \<and> mavenUniqueSnapshot E (TrimPrefix sfx base)))"

definition dot_segment :: "string \<Rightarrow> bool" where
  "dot_segment part \<longleftrightarrow> part = [] \<or> part = ''.'' \<or> part = ''..''"

definition ParseMavenPath :: "externals \<Rightarrow> string \<Rightarrow> pkg_identity" where
  "ParseMavenPath E path =
     (let parts = Split (TrimPrefix path ''/'') CHR ''/'' in
      if length parts < 4 then no_identity
      else if list_ex dot_segment parts then no_identity
      else (let filename = parts ! (length parts - 1); version = parts ! (length parts - 2);
                artifact = parts ! (length parts - 3) in
        if filename = ''maven-metadata.xml'' \<or> HasSuffix filename ''.lastUpdated'' \<or>
           filename = ''_remote.repositories'' then no_identity
        else (let pfx = artifact @ ''-'' in
          if artifact = [] \<or> version = [] \<or> \<not> HasPrefix filename pfx then no_identity
          else if \<not> mavenArtifactSuffixMatchesVersion E (TrimPrefix filename pfx) version then no_identity
          else (let group = Join (take (length parts - 3) parts) ''.'' in
            if group = [] then no_identity else (group @ '':'' @ artifact, version)))))"

subsubsection \<open>NuGet, Conda, CRAN, Alpine, Docker\<close>

definition ParseNugetPath :: "path_externals \<Rightarrow> string \<Rightarrow> pkg_identity" where
  "ParseNugetPath X path =
     (let p = TrimPrefix path ''/'' in
      if \<not> HasPrefix p ''v3-flatcontainer/'' then no_identity
      else (let parts = Split p CHR ''/'' in
        if length parts \<noteq> 4 then no_identity
        else if list_ex (\<lambda>part. part = []) parts then no_identity
        else if \<not> EqualFold X (parts ! 3) (parts ! 1 @ ''.'' @ parts ! 2 @ ''.nupkg'') then no_identity
        else (parts ! 1, parts ! 2)))"

text \<open>The name and version before the last two hyphens of a Conda file name.\<close>

definition splitConda :: "string \<Rightarrow> string \<Rightarrow> pkg_identity" where
  "splitConda channel base =
     (case LastIndexByte base CHR ''-'' of
        None \<Rightarrow> no_identity
      | Some lastDash \<Rightarrow>
          if lastDash = 0 then no_identity
          else (case LastIndexByte (take lastDash base) CHR ''-'' of
              None \<Rightarrow> no_identity
            | Some mid \<Rightarrow>
                if mid = 0 then no_identity
                else (channel @ ''/'' @ take mid base, drop (mid + 1) (take lastDash base))))"

definition ParseCondaPath :: "string \<Rightarrow> pkg_identity" where
  "ParseCondaPath path =
     (let parts = Split (TrimPrefix path ''/'') CHR ''/'' in
      if length parts < 3 then no_identity
      else (let channelParts = take (length parts - 2) parts in
        if list_ex (\<lambda>part. part = []) channelParts then no_identity
        else (let channel = Join channelParts ''/'' in
          if channel = [] \<or> parts ! (length parts - 2) = [] then no_identity
          else (let filename = parts ! (length parts - 1) in
            if HasSuffix filename ''.conda'' then splitConda channel (TrimSuffix filename ''.conda'')
            else if HasSuffix filename ''.tar.bz2'' then splitConda channel (TrimSuffix filename ''.tar.bz2'')
            else no_identity))))"

text \<open>The extension and, for an archived source, the package directory of a CRAN layout.\<close>

definition cranLayout :: "string list \<Rightarrow> (string \<times> string) option" where
  "cranLayout parts =
     (if length parts = 3 \<and> parts ! 0 = ''src'' \<and> parts ! 1 = ''contrib'' then Some (''.tar.gz'', [])
      else if length parts = 5 \<and> parts ! 0 = ''src'' \<and> parts ! 1 = ''contrib'' \<and> parts ! 2 = ''Archive''
      then Some (''.tar.gz'', parts ! 3)
      else if length parts = 5 \<and> parts ! 0 = ''bin'' \<and> parts ! 1 = ''windows'' \<and> parts ! 2 = ''contrib''
      then Some (''.zip'', [])
      else if length parts \<ge> 5 \<and> parts ! 0 = ''bin'' \<and> parts ! 1 = ''macosx'' \<and>
        parts ! (length parts - 3) = ''contrib'' then Some (''.tgz'', [])
      else None)"

definition ParseCranPath :: "string \<Rightarrow> pkg_identity" where
  "ParseCranPath path =
     (let parts = Split (TrimPrefix path ''/'') CHR ''/'' in
      if list_ex dot_segment parts then no_identity
      else (case cranLayout parts of
          None \<Rightarrow> no_identity
        | Some (extension, archivePackage) \<Rightarrow>
            (let filename = parts ! (length parts - 1) in
             if \<not> HasSuffix filename extension then no_identity
             else (let base = TrimSuffix filename extension in
               if Count base CHR ''_'' \<noteq> 1 then no_identity
               else (case IndexByte base CHR ''_'' of
                   None \<Rightarrow> no_identity
                 | Some u \<Rightarrow>
                     if u = 0 \<or> u = length base - 1 then no_identity
                     else (let pkg = take u base; version = drop (u + 1) base in
                       if archivePackage \<noteq> [] \<and> pkg \<noteq> archivePackage then no_identity
                       else (pkg, version)))))))"

definition ParseAlpinePath :: "string \<Rightarrow> pkg_identity" where
  "ParseAlpinePath path =
     (let parts = Split (TrimPrefix path ''/'') CHR ''/'' in
      if length parts < 4 then no_identity
      else (let filename = parts ! 3 in
        if \<not> HasSuffix filename ''.apk'' then no_identity
        else (let base = TrimSuffix filename ''.apk'' in
          case LastIndexByte base CHR ''-'' of
            None \<Rightarrow> no_identity
          | Some lastDash \<Rightarrow>
              if lastDash = 0 then no_identity
              else (let rev' = drop (lastDash + 1) base in
                if \<not> HasPrefix rev' ''r'' \<or> length rev' < 2 then no_identity
                else (let beforeRev = take lastDash base in
                  case LastIndexByte beforeRev CHR ''-'' of
                    None \<Rightarrow> no_identity
                  | Some verDash \<Rightarrow>
                      if verDash = 0 then no_identity
                      else (parts ! 0 @ ''/'' @ parts ! 1 @ ''/'' @ parts ! 2 @ ''/'' @ take verDash beforeRev,
                            drop (verDash + 1) beforeRev @ ''-'' @ rev'))))))"

definition ParseDockerPath :: "string \<Rightarrow> pkg_identity" where
  "ParseDockerPath path =
     (let p = TrimPrefix path ''/'' in
      if \<not> HasPrefix p ''v2/'' then no_identity
      else (case Index p ''/manifests/'' of
          None \<Rightarrow> no_identity
        | Some idx \<Rightarrow>
            (let image = drop 3 (take idx p); tag = drop (idx + 11) p in
             if image = [] \<or> tag = [] then no_identity else (image, tag))))"

subsubsection \<open>Composer\<close>

definition validComposerNamePart :: "string \<Rightarrow> nat \<Rightarrow> bool" where
  "validComposerNamePart value maxHyphenRun \<longleftrightarrow>
     \<not> (value = [] \<or> value = ''.'' \<or> value = ''..'' \<or>
        \<not> isASCIIAlphanumeric (hd value) \<or> \<not> isASCIIAlphanumeric (last value)) \<and>
     composerScan maxHyphenRun value"

definition validComposerArtifactToken :: "string \<Rightarrow> bool" where
  "validComposerArtifactToken value \<longleftrightarrow>
     value \<noteq> [] \<and> list_all (\<lambda>c. isASCIIAlphanumeric c \<or> c \<in> set ''._-'') value"

definition validComposerRouteValue :: "string \<Rightarrow> bool \<Rightarrow> bool" where
  "validComposerRouteValue value allowSlash \<longleftrightarrow>
     value \<noteq> [] \<and>
     list_all (\<lambda>part. \<not> dot_segment part \<and> validComposerArtifactToken part)
       (if allowSlash then Split value CHR ''/'' else [value])"

definition composerCoordinate :: "externals \<Rightarrow> string \<Rightarrow> string option" where
  "composerCoordinate E value =
     (let parts = Split value CHR ''/'' in
      if length parts \<noteq> 2 \<or> \<not> validComposerNamePart (parts ! 0) 1 \<or>
         \<not> validComposerNamePart (parts ! 1) 2 \<or> HasSuffix (ToLower E (parts ! 1)) ''.json'' then None
      else Some (parts ! 0 @ ''/'' @ parts ! 1))"

definition parseComposerP2Path :: "externals \<Rightarrow> string \<Rightarrow> string option" where
  "parseComposerP2Path E path =
     (if \<not> HasSuffix path ''.json'' then None
      else (let coordinate = TrimSuffix path ''.json'' in
        composerCoordinate E (if HasSuffix coordinate ''~dev'' then TrimSuffix coordinate ''~dev'' else coordinate)))"

definition parseComposerDistPath :: "externals \<Rightarrow> string \<Rightarrow> string option" where
  "parseComposerDistPath E path =
     (let parts = Split path CHR ''/'' in
      if length parts \<noteq> 3 then None
      else (let artifact = parts ! 2 in
        case LastIndexByte artifact CHR ''.'' of
          None \<Rightarrow> None
        | Some dot \<Rightarrow>
            if dot = 0 \<or> dot = length artifact - 1 \<or> \<not> validComposerArtifactToken artifact then None
            else composerCoordinate E (parts ! 0 @ ''/'' @ parts ! 1)))"

definition ParseComposerPath :: "externals \<Rightarrow> string \<Rightarrow> string option" where
  "ParseComposerPath E path =
     (let p = TrimPrefix path ''/'' in
      if HasPrefix p ''p2/'' then parseComposerP2Path E (TrimPrefix p ''p2/'')
      else if HasPrefix p ''dist/'' then parseComposerDistPath E (TrimPrefix p ''dist/'')
      else None)"

text \<open>The name, and the version or the empty string for metadata.\<close>

definition ParseComposerRequestPath :: "externals \<Rightarrow> string \<Rightarrow> pkg_identity option" where
  "ParseComposerRequestPath E path =
     (let p = TrimPrefix path ''/'' in
      if HasPrefix p ''p2/'' then map_option (\<lambda>name. (name, [])) (ParseComposerPath E p)
      else if \<not> HasPrefix p ''dist/'' then None
      else (let parts = Split (TrimPrefix p ''dist/'') CHR ''/'' in
        if length parts < 4 then None
        else (case composerCoordinate E (parts ! 0 @ ''/'' @ parts ! 1) of
            None \<Rightarrow> None
          | Some name \<Rightarrow>
              (let version = Join (drop 2 (take (length parts - 1) parts)) ''/'' in
               if \<not> validComposerRouteValue version True then None
               else (let file = parts ! (length parts - 1) in
                 case IndexByte file CHR ''.'' of
                   None \<Rightarrow> None
                 | Some dot \<Rightarrow>
                     if dot = 0 \<or> dot = length file - 1 \<or> \<not> validComposerArtifactToken (take dot file) \<or>
                        \<not> validComposerRouteValue (drop (dot + 1) file) False then None
                     else Some (name, version))))))"

subsection \<open>Properties\<close>

lemma last_three:
  assumes "length xs \<ge> 3"
  shows "xs = take (length xs - 3) xs @ [xs ! (length xs - 3), xs ! (length xs - 2), xs ! (length xs - 1)]"
proof -
  have "drop (length xs - 3) xs = [xs ! (length xs - 3), xs ! (length xs - 2), xs ! (length xs - 1)]"
    using assms by (simp add: Cons_nth_drop_Suc [symmetric] numeral_eq_Suc Suc_diff_Suc flip: Cons_nth_drop_Suc)
  then show ?thesis by (metis append_take_drop_id)
qed

text \<open>
  What a Maven identity says about its path. When the parser establishes a coordinate
  and a version, the path is the group's segments, the artifact, the version and a file name
  that starts with the artifact; the coordinate spells exactly the group and the artifact,
  the version is the directory's version, and no segment is empty or a dot segment.
\<close>

theorem maven_path_spelling:
  assumes "ParseMavenPath E path = (coordinate, version)" and "coordinate \<noteq> []"
  shows "\<exists>groups artifact file.
    Split (TrimPrefix path ''/'') CHR ''/'' = groups @ [artifact, version, file] \<and> groups \<noteq> [] \<and>
    coordinate = Join groups ''.'' @ '':'' @ artifact \<and>
    HasPrefix file (artifact @ ''-'') \<and>
    mavenArtifactSuffixMatchesVersion E (TrimPrefix file (artifact @ ''-'')) version \<and>
    list_all (\<lambda>part. \<not> dot_segment part) (groups @ [artifact, version, file])"
proof -
  let ?p = "Split (TrimPrefix path ''/'') CHR ''/''"
  let ?a = "?p ! (length ?p - 3)" and ?v = "?p ! (length ?p - 2)" and ?f = "?p ! (length ?p - 1)"
  let ?g = "take (length ?p - 3) ?p"
  have ok: "length ?p \<ge> 4" "\<not> list_ex dot_segment ?p" "HasPrefix ?f (?a @ ''-'')"
    "mavenArtifactSuffixMatchesVersion E (TrimPrefix ?f (?a @ ''-'')) ?v"
    "coordinate = Join ?g ''.'' @ '':'' @ ?a" "version = ?v"
    using assms by (auto simp: ParseMavenPath_def Let_def split: if_splits)
  have parts: "?p = ?g @ [?a, ?v, ?f]" using ok(1) by (intro last_three) simp
  moreover have "list_all (\<lambda>part. \<not> dot_segment part) (?g @ [?a, ?v, ?f])"
    using ok(2) unfolding parts [symmetric] by (simp add: list_ex_iff list_all_iff)
  moreover have "?g \<noteq> []" using ok(1) by (simp add: take_eq_Nil)
  ultimately show ?thesis using ok(3-6) by blast
qed

theorem maven_path_spelling_witness:
  "\<exists>groups artifact file.
    Split ''org/acme/app/1.0-SNAPSHOT/app-1.0-20260901.010203-7.jar'' CHR ''/'' = groups @ [artifact, ''1.0-SNAPSHOT'', file] \<and>
    ''org.acme:app'' = Join groups ''.'' @ '':'' @ artifact"
proof -
  have "ParseMavenPath ascii_externals ''/org/acme/app/1.0-SNAPSHOT/app-1.0-20260901.010203-7.jar'' =
      (''org.acme:app'', ''1.0-SNAPSHOT'')" by code_simp
  moreover have "TrimPrefix ''/org/acme/app/1.0-SNAPSHOT/app-1.0-20260901.010203-7.jar'' ''/'' =
      ''org/acme/app/1.0-SNAPSHOT/app-1.0-20260901.010203-7.jar''" by code_simp
  ultimately show ?thesis
    using maven_path_spelling [of ascii_externals "''/org/acme/app/1.0-SNAPSHOT/app-1.0-20260901.010203-7.jar''"]
    by fastforce
qed

lemma splitConda_render:
  assumes "CHR ''-'' \<notin> set version" and "CHR ''-'' \<notin> set build" and "name \<noteq> []"
  shows "splitConda channel (name @ ''-'' @ version @ ''-'' @ build) = (channel @ ''/'' @ name, version)"
proof -
  have "LastIndexByte ((name @ ''-'' @ version) @ CHR ''-'' # build) CHR ''-'' = Some (length (name @ ''-'' @ version))"
    by (rule LastIndexByte_append [OF assms(2)])
  moreover have "LastIndexByte (name @ CHR ''-'' # version) CHR ''-'' = Some (length name)"
    by (rule LastIndexByte_append [OF assms(1)])
  ultimately show ?thesis using assms(3) by (simp add: splitConda_def)
qed

text \<open>
  Conda download paths round-trip: the path that the layout gives to a channel, an
  architecture and a file \<open>name-version-build\<close> parses back to the channel-qualified name
  and the version, for every name, including names with hyphens.
\<close>

theorem conda_path_roundtrip:
  assumes "channel \<noteq> []" and "list_all (\<lambda>part. part \<noteq> [] \<and> CHR ''/'' \<notin> set part) channel"
    and "arch \<noteq> []" and "CHR ''/'' \<notin> set arch"
    and "name \<noteq> []" and "CHR ''/'' \<notin> set (name @ version @ build)"
    and "CHR ''-'' \<notin> set version" and "CHR ''-'' \<notin> set build"
    and "extension = ''.conda'' \<or> extension = ''.tar.bz2''"
  shows "ParseCondaPath (''/'' @ Join (channel @ [arch, name @ ''-'' @ version @ ''-'' @ build @ extension]) ''/'') =
    (Join channel ''/'' @ ''/'' @ name, version)"
proof -
  define base where "base = name @ ''-'' @ version @ ''-'' @ build"
  let ?parts = "channel @ [arch, base @ extension]"
  have "list_all (\<lambda>part. CHR ''/'' \<notin> set part) ?parts"
    using assms(2,4,6,9) by (auto simp: base_def elim!: list_all_imp)
  then have split: "Split (TrimPrefix (''/'' @ Join ?parts ''/'') ''/'') CHR ''/'' = ?parts"
    unfolding TrimPrefix_append by (intro Split_Join) auto
  have n: "length ?parts \<ge> 3" "take (length ?parts - 2) ?parts = channel" "?parts ! (length ?parts - 2) = arch"
    "?parts ! (length ?parts - 1) = base @ extension"
    using assms(1) by (cases channel; simp add: nth_append)+
  have ch: "\<not> list_ex (\<lambda>part. part = []) channel" using assms(2) by (auto simp: list_ex_iff list_all_iff)
  have ch': "Join channel ''/'' \<noteq> []" using assms(1,2) Join_head by (cases channel) auto
  have "\<not> HasSuffix (base @ ''.tar.bz2'') ''.conda''" by (simp add: HasSuffix_def HasPrefix_def)
  then have "ParseCondaPath (''/'' @ Join ?parts ''/'') = splitConda (Join channel ''/'') base"
    unfolding ParseCondaPath_def split Let_def n(2-4) using n(1) ch ch' assms(3,9) by auto
  then show ?thesis
    using splitConda_render [OF assms(7,8,5)] by (simp add: base_def)
qed

theorem conda_path_roundtrip_witness:
  "ParseCondaPath ''/conda-forge/linux-64/python-dateutil-2.9.0-pyhd8ed1ab_0.conda'' =
    (''conda-forge/python-dateutil'', ''2.9.0'')"
  using conda_path_roundtrip [of "[''conda-forge'']" "''linux-64''" "''python-dateutil''" "''2.9.0''" "''pyhd8ed1ab_0''" "''.conda''"]
  by simp

subsection \<open>Go proxy spellings\<close>

lemma DecodeProxyPath_Inr: "DecodeProxyPath X escaped = Inr m \<Longrightarrow> module_EscapePath X m = Some escaped"
  by (auto simp: DecodeProxyPath_def split: option.split_asm if_splits)

lemma DecodeProxyVersion_Inr: "DecodeProxyVersion X escaped = Inr v \<Longrightarrow> module_EscapeVersion X v = Some escaped"
  by (auto simp: DecodeProxyVersion_def split: option.split_asm if_splits)

lemma zip_suffix_behind:
  assumes "HasSuffix (a @ ''/@v/'' @ b) ''.zip''"
  shows "b = TrimSuffix b ''.zip'' @ ''.zip''"
proof -
  obtain r where "(a @ ''/@v/'') @ b = r @ ''.zip''" using assms unfolding HasSuffix_iff by auto
  then obtain us where us: "a @ ''/@v/'' = r @ us \<and> us @ b = ''.zip'' \<or> b = us @ ''.zip''"
    unfolding append_eq_append_conv2 by blast
  have "us = []" if "a @ ''/@v/'' = r @ us" "us @ b = ''.zip''"
  proof (rule ccontr)
    assume "us \<noteq> []"
    then have "CHR ''/'' \<in> set us" using arg_cong [OF that(1), of last] by (metis last.simps last_appendR last_in_set list.distinct(1))
    then have "CHR ''/'' \<in> set ''.zip''" using that(2) by (metis Un_iff set_append)
    then show False by simp
  qed
  then have "HasSuffix b ''.zip''" using us by (auto simp: HasSuffix_iff)
  then show ?thesis by (rule TrimSuffix_eq)
qed

lemma ParseGoZipPath_spelling:
  assumes "ParseGoZipPath X path = (m, v)" and "m \<noteq> []"
  obtains em ev where "module_EscapePath X m = Some em" "module_EscapeVersion X v = Some ev"
    "path = em @ ''/@v/'' @ ev @ ''.zip''"
proof -
  obtain i where i: "Index path ''/@v/'' = Some i" "HasSuffix path ''.zip''"
    "DecodeProxyPath X (take i path) = Inr m"
    "DecodeProxyVersion X (TrimSuffix (drop (i + 4) path) ''.zip'') = Inr v"
    using assms by (auto simp: ParseGoZipPath_def Let_def split: option.split_asm if_splits sum.split_asm)
  have path: "path = take i path @ ''/@v/'' @ drop (i + 4) path"
    using Index_Some [OF i(1)] by (simp add: numeral_eq_Suc)
  have "drop (i + 4) path = TrimSuffix (drop (i + 4) path) ''.zip'' @ ''.zip''"
    using zip_suffix_behind [of "take i path" "drop (i + 4) path"] i(2) path by simp
  then show ?thesis
    using that [OF DecodeProxyPath_Inr [OF i(3)] DecodeProxyVersion_Inr [OF i(4)]] path by simp
qed

text \<open>
  A Go module archive has one download path: two proxy paths that decode to the same
  module and version are the same path. Alternative spellings of the escapes are rejected and
  cannot be used to fetch an archive under another cache key or past a rule. Nothing is
  assumed of the escaping functions of \<open>golang.org/x/mod\<close>.
\<close>

theorem go_zip_path_unique:
  assumes "ParseGoZipPath X path = (m, v)" and "ParseGoZipPath X path' = (m, v)" and "m \<noteq> []"
  shows "path = path'"
proof -
  obtain em ev where a: "module_EscapePath X m = Some em" "module_EscapeVersion X v = Some ev"
    "path = em @ ''/@v/'' @ ev @ ''.zip''"
    using ParseGoZipPath_spelling [OF assms(1,3)] .
  obtain em' ev' where b: "module_EscapePath X m = Some em'" "module_EscapeVersion X v = Some ev'"
    "path' = em' @ ''/@v/'' @ ev' @ ''.zip''"
    using ParseGoZipPath_spelling [OF assms(2,3)] .
  show ?thesis using a b by simp
qed

text \<open>Escaping of one upper-case letter, enough for a concrete module.\<close>

definition sample_escaping :: path_externals where
  "sample_escaping = \<lparr>uc_fold = (\<lambda>r. r),
     module_UnescapePath = (\<lambda>s. Some (if s = ''ex.org/!a'' then ''ex.org/A'' else s)),
     module_EscapePath = (\<lambda>s. Some (if s = ''ex.org/A'' then ''ex.org/!a'' else s)),
     module_UnescapeVersion = Some, module_EscapeVersion = Some\<rparr>"

theorem go_zip_path_unique_witness:
  "ParseGoZipPath sample_escaping ''ex.org/!a/@v/v1.0.0.zip'' = (''ex.org/A'', ''v1.0.0'') \<and>
   ParseGoZipPath sample_escaping ''ex.org/A/@v/v1.0.0.zip'' \<noteq> (''ex.org/A'', ''v1.0.0'')"
proof -
  have a: "ParseGoZipPath sample_escaping ''ex.org/!a/@v/v1.0.0.zip'' = (''ex.org/A'', ''v1.0.0'')" by code_simp
  have "''ex.org/!a/@v/v1.0.0.zip'' \<noteq> ''ex.org/A/@v/v1.0.0.zip''" by simp
  then show ?thesis using go_zip_path_unique [OF a, of "''ex.org/A/@v/v1.0.0.zip''"] a by blast
qed

end
