(* ===== verification/Cache_Key.thy ===== *)
theory Cache_Key
  imports Package_Key
begin

text \<open>
  \<open>internal/adapter/packagekey/extract.go\<close> and \<open>classify.go\<close>: the name, the version and the
  file kind that a cache key of an adapter carries. Each arm of the two \<open>switch\<close> statements
  is a definition; the empty string means that the key does not establish the value.
\<close>

definition NPMExactIdentityCachePrefix :: string where
  "NPMExactIdentityCachePrefix = ''npm-exact-v1/''"

definition last_segment :: "string \<Rightarrow> string" where
  "last_segment key = last (Split key CHR ''/'')"

definition trimDebianPackageExtension :: "string \<Rightarrow> string option" where
  "trimDebianPackageExtension value =
     (if HasSuffix value ''.udeb'' then Some (TrimSuffix value ''.udeb'')
      else if HasSuffix value ''.deb'' then Some (TrimSuffix value ''.deb'')
      else None)"

text \<open>The position of the first hyphen that a digit follows, and of the last one.\<close>

fun firstDashDigit :: "string \<Rightarrow> nat option" where
  "firstDashDigit (a # b # s) =
     (if a = CHR ''-'' \<and> isASCIIDigit b then Some 0 else map_option Suc (firstDashDigit (b # s)))"
| "firstDashDigit s = None"

fun finalDashDigit :: "string \<Rightarrow> nat option" where
  "finalDashDigit (a # b # s) =
     (case finalDashDigit (b # s) of
        Some i \<Rightarrow> Some (Suc i)
      | None \<Rightarrow> if a = CHR ''-'' \<and> isASCIIDigit b then Some 0 else None)"
| "finalDashDigit s = None"

definition isLowerHexSHA256 :: "string \<Rightarrow> bool" where
  "isLowerHexSHA256 value \<longleftrightarrow>
     length value = 64 \<and>
     list_all (\<lambda>c. isASCIIDigit c \<or> 97 \<le> byte c \<and> byte c \<le> 102) value"

subsection \<open>Hugging Face keys\<close>

definition hf_component :: "string \<Rightarrow> string option" where
  "hf_component part =
     (case PathUnescape part of
        None \<Rightarrow> None
      | Some decoded \<Rightarrow> if dot_segment decoded then None else Some decoded)"

fun hf_components :: "string list \<Rightarrow> string list option" where
  "hf_components [] = Some []"
| "hf_components (part # parts) =
     (case hf_component part of
        None \<Rightarrow> None
      | Some decoded \<Rightarrow> map_option ((#) decoded) (hf_components parts))"

text \<open>The loop over the possible positions of the route word, from the right.\<close>

fun hf_file_loop :: "string list \<Rightarrow> nat \<Rightarrow> (string \<times> string) option" where
  "hf_file_loop parts 0 = None"
| "hf_file_loop parts (Suc i) =
     (if parts ! Suc i \<noteq> ''resolve'' \<and> parts ! Suc i \<noteq> ''raw'' then hf_file_loop parts i
      else if Suc i + 2 \<ge> length parts \<or> parts ! (Suc i + 1) = [] \<or> Join (drop (Suc i + 2) parts) ''/'' = []
      then None
      else (case hf_components (take (Suc i) parts) of
          None \<Rightarrow> None
        | Some repoParts \<Rightarrow>
            (case hf_component (parts ! (Suc i + 1)) of
               None \<Rightarrow> None
             | Some ref \<Rightarrow>
                 if Join repoParts ''/'' = [] then None else Some (Join repoParts ''/'', ref))))"

definition hf_query_rest :: "string \<Rightarrow> string option" where
  "hf_query_rest rest =
     (if \<not> HasPrefix rest ''__query__/'' then Some rest
      else (let queryParts = Split rest CHR ''/'' in
        if length queryParts \<ge> 4 \<and> (queryParts ! 1 = ''artifact'' \<or> queryParts ! 1 = ''metadata'') \<and>
           isLowerHexSHA256 (queryParts ! 2) then
          (if queryParts ! 1 \<noteq> ''artifact'' then None else Some (Join (drop 3 queryParts) ''/''))
        else Some rest))"

definition parseHuggingFaceFileKey :: "string \<Rightarrow> (string \<times> string) option" where
  "parseHuggingFaceFileKey key =
     (if \<not> HasPrefix key ''huggingface/'' then None
      else (case hf_query_rest (TrimPrefix key ''huggingface/'') of
          None \<Rightarrow> None
        | Some rest \<Rightarrow>
            (let parts = Split rest CHR ''/'' in
             if parts ! 0 = ''api'' then None
             else hf_file_loop parts (min (if parts ! 0 = ''datasets'' then 3 else 2) (length parts - 1)))))"

definition hf_metadata_rest :: "string \<Rightarrow> string option" where
  "hf_metadata_rest rest =
     (if \<not> HasPrefix rest ''__query__/'' then Some rest
      else (let queryParts = Split rest CHR ''/'' in
        if length queryParts < 4 \<or> queryParts ! 1 \<noteq> ''metadata'' \<or> \<not> isLowerHexSHA256 (queryParts ! 2)
        then None else Some (Join (drop 3 queryParts) ''/'')))"

text \<open>The loop for \<open>splitAt\<close>; \<open>None\<close> is \<open>-1\<close>.\<close>

fun hf_split_at :: "string list \<Rightarrow> nat \<Rightarrow> nat option" where
  "hf_split_at decoded 0 = None"
| "hf_split_at decoded (Suc i) =
     (if decoded ! Suc i = ''tree'' \<or> decoded ! Suc i = ''revision'' then Some (Suc i)
      else hf_split_at decoded i)"

definition hf_repo_parts :: "string list \<Rightarrow> string list option" where
  "hf_repo_parts decoded =
     (case hf_split_at decoded (min 2 (length decoded - 2)) of
        None \<Rightarrow> if length decoded < 1 \<or> length decoded > 2 then None else Some decoded
      | Some splitAt \<Rightarrow>
          (let repoParts = take splitAt decoded in
           if length repoParts < 1 \<or> length repoParts > 2 \<or> splitAt + 1 \<ge> length decoded then None
           else if decoded ! splitAt = ''revision'' \<and> splitAt + 2 \<noteq> length decoded then None
           else Some repoParts))"

definition parseHuggingFaceMetadataKey :: "string \<Rightarrow> string option" where
  "parseHuggingFaceMetadataKey key =
     (if \<not> HasPrefix key ''huggingface/'' then None
      else (case hf_metadata_rest (TrimPrefix key ''huggingface/'') of
          None \<Rightarrow> None
        | Some rest \<Rightarrow>
            (let parts = Split rest CHR ''/'' in
             if length parts < 3 \<or> parts ! 0 \<noteq> ''api'' \<or> parts ! 1 \<noteq> ''models'' \<and> parts ! 1 \<noteq> ''datasets''
             then None
             else (case hf_components (drop 2 parts) of
                 None \<Rightarrow> None
               | Some decoded \<Rightarrow>
                   (case hf_repo_parts decoded of
                      None \<Rightarrow> None
                    | Some repoParts \<Rightarrow>
                        (let repo = (if parts ! 1 = ''datasets'' then ''datasets/'' @ Join repoParts ''/''
                           else Join repoParts ''/'') in
                         if repo = [] then None else Some repo))))))"

subsection \<open>Names\<close>

definition npm_name :: "string \<Rightarrow> string" where
  "npm_name trimmed =
     (if HasPrefix trimmed ''@'' then
        (let parts = SplitN trimmed CHR ''/'' 3 in
         if length parts \<ge> 2 then parts ! 0 @ ''/'' @ parts ! 1 else [])
      else SplitN trimmed CHR ''/'' 2 ! 0)"

definition go_escaped :: "string \<Rightarrow> string" where
  "go_escaped trimmed =
     (case Index trimmed ''/@v/'' of
        Some (Suc i) \<Rightarrow> take (Suc i) trimmed
      | _ \<Rightarrow> (case Index trimmed ''/@latest'' of Some (Suc i) \<Rightarrow> take (Suc i) trimmed | _ \<Rightarrow> []))"

definition before_underscore :: "string \<Rightarrow> string" where
  "before_underscore fname = (case IndexByte fname CHR ''_'' of Some (Suc i) \<Rightarrow> take (Suc i) fname | _ \<Rightarrow> fname)"

definition cargo_name :: "string \<Rightarrow> string" where
  "cargo_name key =
     (if HasPrefix key ''cargo/crates/'' then
        (let parts = Split (TrimPrefix key ''cargo/crates/'') CHR ''/'' in
         if length parts = 2 \<and> parts ! 0 \<noteq> [] \<and> HasSuffix (parts ! 1) ''.crate'' \<and>
            TrimSuffix (parts ! 1) ''.crate'' \<noteq> [] then parts ! 0 else [])
      else [])"

definition rubygems_name :: "string \<Rightarrow> string" where
  "rubygems_name trimmed =
     (if HasPrefix trimmed ''gems/'' then
        (let fname = TrimPrefix trimmed ''gems/'' in
         case LastIndexByte fname CHR ''-'' of
           Some (Suc i) \<Rightarrow> take (Suc i) fname
         | _ \<Rightarrow> TrimSuffix fname ''.gem'')
      else if HasPrefix trimmed ''info/'' then TrimPrefix trimmed ''info/''
      else [])"

definition conda_name :: "string \<Rightarrow> string" where
  "conda_name fname =
     (if HasSuffix fname ''.tar.bz2'' \<or> HasSuffix fname ''.conda'' then
        (let base = (if HasSuffix fname ''.tar.bz2'' then TrimSuffix fname ''.tar.bz2'' else TrimSuffix fname ''.conda'') in
         case IndexByte base CHR ''-'' of Some (Suc i) \<Rightarrow> take (Suc i) base | _ \<Rightarrow> base)
      else fname)"

definition nuget_name :: "path_externals \<Rightarrow> string \<Rightarrow> string" where
  "nuget_name X trimmed =
     (let i = fst (ParseNugetPath X trimmed) in
      if i \<noteq> [] then i
      else if HasPrefix trimmed ''v3/package/'' then SplitN (TrimPrefix trimmed ''v3/package/'') CHR ''/'' 2 ! 0
      else if HasPrefix trimmed ''v3/registration/'' then
        SplitN (TrimPrefix trimmed ''v3/registration/'') CHR ''/'' 2 ! 0
      else [])"

definition helm_name :: "string \<Rightarrow> string" where
  "helm_name trimmed =
     (if HasSuffix trimmed ''.tgz'' then
        (let fname = TrimSuffix (after_last_slash trimmed) ''.tgz'' in
         case finalDashDigit fname of Some i \<Rightarrow> take i fname | None \<Rightarrow> fname)
      else [])"

definition docker_name :: "string \<Rightarrow> string" where
  "docker_name key =
     (if Contains key ''/manifests/'' then
        (let image = SplitTwo key ''/manifests/'' ! 1 in
         case LastIndexByte image CHR ''/'' of Some (Suc i) \<Rightarrow> take (Suc i) image | _ \<Rightarrow> image)
      else if Contains key ''/tags/'' then TrimSuffix (SplitTwo key ''/tags/'' ! 1) ''/list''
      else [])"

definition huggingface_name :: "string \<Rightarrow> string" where
  "huggingface_name key =
     (case parseHuggingFaceFileKey key of
        Some (repo, _) \<Rightarrow> repo
      | None \<Rightarrow> (case parseHuggingFaceMetadataKey key of Some repo \<Rightarrow> repo | None \<Rightarrow> []))"

definition pypi_name :: "string \<Rightarrow> string" where
  "pypi_name key =
     (if HasPrefix key ''pypi/simple/'' then SplitN (TrimPrefix key ''pypi/simple/'') CHR ''/'' 2 ! 0
      else if HasPrefix key ''pypi/files/'' then
        fst (ParsePypiFilename (last_segment (TrimPrefix key ''pypi/files/'')))
      else [])"

definition ExtractName :: "externals \<Rightarrow> path_externals \<Rightarrow> string \<Rightarrow> string \<Rightarrow> string" where
  "ExtractName E X adapterType key =
     (if adapterType = ''pypi'' then pypi_name key
      else if adapterType = ''apt'' then
        (if trimDebianPackageExtension key \<noteq> None then before_underscore (last_segment key) else [])
      else if adapterType = ''npm'' then
        (if HasPrefix key NPMExactIdentityCachePrefix then npm_name (TrimPrefix key NPMExactIdentityCachePrefix)
         else if HasPrefix key ''npm/'' then npm_name (TrimPrefix key ''npm/'')
         else [])
      else if adapterType = ''go'' then
        (if \<not> HasPrefix key ''go/'' then []
         else (let escaped = go_escaped (TrimPrefix key ''go/'') in
           if escaped = [] then []
           else (case DecodeProxyPath X escaped of Inl _ \<Rightarrow> [] | Inr modulePath \<Rightarrow> modulePath)))
      else if adapterType = ''cargo'' then cargo_name key
      else if adapterType = ''maven'' then
        (if \<not> HasPrefix key ''maven/'' then [] else fst (ParseMavenPath E (TrimPrefix key ''maven/'')))
      else if adapterType = ''rubygems'' then rubygems_name (TrimPrefix key ''rubygems/'')
      else if adapterType = ''composer'' then
        (if \<not> HasPrefix key ''composer/'' then []
         else (case ParseComposerPath E (TrimPrefix key ''composer/'') of Some name \<Rightarrow> name | None \<Rightarrow> []))
      else if adapterType = ''conda'' then conda_name (last_segment (TrimPrefix key ''conda/''))
      else if adapterType = ''cran'' then
        (if \<not> HasPrefix key ''cran/'' then [] else fst (ParseCranPath (TrimPrefix key ''cran/'')))
      else if adapterType = ''alpine'' then
        (if \<not> HasSuffix key ''.apk'' then []
         else (let fname = TrimSuffix (last_segment key) ''.apk'' in
           case firstDashDigit fname of Some i \<Rightarrow> take i fname | None \<Rightarrow> fname))
      else if adapterType = ''nuget'' then nuget_name X (TrimPrefix key ''nuget/'')
      else if adapterType = ''helm'' then helm_name (TrimPrefix key ''helm/'')
      else if adapterType = ''docker'' then docker_name key
      else if adapterType = ''huggingface'' then huggingface_name key
      else [])"

subsection \<open>Versions and file kinds\<close>

definition second_field :: "string \<Rightarrow> char \<Rightarrow> string" where
  "second_field fname c = (let parts = SplitN fname c 3 in if length parts \<ge> 2 then parts ! 1 else [])"

definition trimSuffixes :: "string \<Rightarrow> string list \<Rightarrow> string" where
  "trimSuffixes fname exts = fold (\<lambda>ext s. TrimSuffix s ext) exts fname"

definition after_last_dash :: "string \<Rightarrow> string" where
  "after_last_dash fname = (case LastIndexByte fname CHR ''-'' of Some (Suc i) \<Rightarrow> drop (Suc (Suc i)) fname | _ \<Rightarrow> [])"

fun package_field :: "string list \<Rightarrow> string" where
  "package_field (p # ps) = (if p = ''package'' \<and> length ps \<ge> 2 then ps ! 1 else package_field ps)"
| "package_field [] = []"

definition nuget_version :: "path_externals \<Rightarrow> string \<Rightarrow> string" where
  "nuget_version X trimmed =
     (let version = snd (ParseNugetPath X trimmed) in
      if version \<noteq> [] then version
      else (let parts = Split trimmed CHR ''/'' in
        if length parts \<ge> 3 \<and> HasPrefix (parts ! 0) ''v3/package'' then parts ! 2
        else package_field parts))"

definition go_version :: "path_externals \<Rightarrow> string \<Rightarrow> string" where
  "go_version X key =
     (case Index key ''/@v/'' of
        Some (Suc i) \<Rightarrow>
          (case DecodeProxyVersion X (trimSuffixes (drop (Suc i + 4) key) [''.zip'', ''.mod'', ''.info'']) of
             Inl _ \<Rightarrow> [] | Inr version \<Rightarrow> version)
      | _ \<Rightarrow> [])"

definition apt_version :: "string \<Rightarrow> string" where
  "apt_version key =
     (case trimDebianPackageExtension key of
        None \<Rightarrow> []
      | Some trimmed \<Rightarrow> second_field (after_last_slash (TrimSuffix trimmed ''/'')) CHR ''_'')"

definition docker_version :: "string \<Rightarrow> string" where
  "docker_version key =
     (if Contains key ''/manifests/'' then
        (let image = SplitTwo key ''/manifests/'' ! 1 in
         case LastIndexByte image CHR ''/'' of Some (Suc i) \<Rightarrow> drop (Suc (Suc i)) image | _ \<Rightarrow> [])
      else [])"

definition ExtractVersion :: "path_externals \<Rightarrow> string \<Rightarrow> string \<Rightarrow> string" where
  "ExtractVersion X adapterType key =
     (if adapterType = ''pypi'' then
        (if \<not> HasPrefix key ''pypi/files/'' then []
         else second_field (trimSuffixes (last_segment key) [''.whl'', ''.tar.gz'', ''.zip'', ''.egg'']) CHR ''-'')
      else if adapterType = ''npm'' then
        (if \<not> HasSuffix key ''.tgz'' then [] else after_last_dash (TrimSuffix (last_segment key) ''.tgz''))
      else if adapterType = ''go'' then go_version X key
      else if adapterType = ''cargo'' then
        (if \<not> HasSuffix key ''.crate'' then [] else TrimSuffix (last_segment key) ''.crate'')
      else if adapterType = ''apt'' then apt_version key
      else if adapterType = ''maven'' then
        (let parts = Split (TrimPrefix key ''maven/'') CHR ''/'' in
         if length parts \<ge> 3 then parts ! (length parts - 2) else [])
      else if adapterType = ''rubygems'' then
        (if \<not> HasSuffix key ''.gem'' then [] else after_last_dash (TrimSuffix (last_segment key) ''.gem''))
      else if adapterType = ''alpine'' then
        (if \<not> HasSuffix key ''.apk'' then []
         else (let fname = TrimSuffix (last_segment key) ''.apk'' in
           case firstDashDigit fname of Some i \<Rightarrow> drop (Suc i) fname | None \<Rightarrow> []))
      else if adapterType = ''nuget'' then nuget_version X (TrimPrefix key ''nuget/'')
      else if adapterType = ''conda'' then
        second_field (trimSuffixes (last_segment key) [''.tar.bz2'', ''.conda'']) CHR ''-''
      else if adapterType = ''cran'' then
        (let fname = trimSuffixes (last_segment key) [''.tar.gz'', ''.zip'', ''.tgz''] in
         case IndexByte fname CHR ''_'' of Some (Suc i) \<Rightarrow> drop (Suc (Suc i)) fname | _ \<Rightarrow> [])
      else if adapterType = ''helm'' then
        (if \<not> HasSuffix key ''.tgz'' then []
         else (let fname = TrimSuffix (last_segment key) ''.tgz'' in
           case finalDashDigit fname of Some i \<Rightarrow> drop (Suc i) fname | None \<Rightarrow> []))
      else if adapterType = ''docker'' then docker_version key
      else if adapterType = ''huggingface'' then
        (case parseHuggingFaceFileKey key of Some (_, ref) \<Rightarrow> ref | None \<Rightarrow> [])
      else [])"

definition IsPackageFile :: "externals \<Rightarrow> string \<Rightarrow> string \<Rightarrow> bool" where
  "IsPackageFile E adapterType key \<longleftrightarrow>
     (if adapterType = ''pypi'' then HasPrefix key ''pypi/files/''
      else if adapterType = ''npm'' then HasSuffix key ''.tgz''
      else if adapterType = ''go'' then HasSuffix key ''.zip''
      else if adapterType = ''cargo'' then HasSuffix key ''.crate''
      else if adapterType = ''apt'' then trimDebianPackageExtension key \<noteq> None
      else if adapterType = ''maven'' then
        (let lower = ToLower E key in
         \<not> list_ex (\<lambda>sidecar. HasSuffix lower sidecar) [''.asc'', ''.md5'', ''.sha1'', ''.sha256'', ''.sha512''] \<and>
         (let (coordinate, version) = ParseMavenPath E (TrimPrefix key ''maven/'') in
          coordinate \<noteq> [] \<and> version \<noteq> []))
      else if adapterType = ''rubygems'' then HasSuffix key ''.gem''
      else if adapterType = ''composer'' then HasSuffix key ''.zip''
      else if adapterType = ''nuget'' then HasSuffix key ''.nupkg''
      else if adapterType = ''conda'' then HasSuffix key ''.tar.bz2'' \<or> HasSuffix key ''.conda''
      else if adapterType = ''cran'' then HasSuffix key ''.tar.gz'' \<or> HasSuffix key ''.zip'' \<or> HasSuffix key ''.tgz''
      else if adapterType = ''alpine'' then HasSuffix key ''.apk''
      else if adapterType = ''helm'' then HasSuffix key ''.tgz''
      else if adapterType = ''docker'' then Contains key ''/blobs/'' \<or> Contains key ''/manifests/''
      else if adapterType = ''huggingface'' then parseHuggingFaceFileKey key \<noteq> None
      else False)"

subsection \<open>Agreement of the key readers\<close>

lemma Split_leading: "Split (CHR ''/'' # s) CHR ''/'' = [] # Split s CHR ''/''"
  by simp

lemma Split_second_last:
  assumes "length (Split (TrimPrefix s ''/'') CHR ''/'') \<ge> 4"
  shows "length (Split s CHR ''/'') \<ge> 3 \<and>
    Split s CHR ''/'' ! (length (Split s CHR ''/'') - 2) =
    Split (TrimPrefix s ''/'') CHR ''/'' ! (length (Split (TrimPrefix s ''/'') CHR ''/'') - 2)"
proof (cases "HasPrefix s ''/''")
  case True
  then obtain r where "s = CHR ''/'' # r" by (auto simp: HasPrefix_iff)
  then show ?thesis using assms TrimPrefix_append [of "''/''" r] by (simp add: nth_Cons' Suc_diff_Suc numeral_2_eq_2)
next
  case False
  then show ?thesis using assms by (simp add: TrimPrefix_def)
qed

lemma ParseMavenPath_version:
  assumes "ParseMavenPath E path = (coordinate, version)" and "coordinate \<noteq> []"
  shows "length (Split (TrimPrefix path ''/'') CHR ''/'') \<ge> 4" and "version \<noteq> []"
    and "version = Split (TrimPrefix path ''/'') CHR ''/'' ! (length (Split (TrimPrefix path ''/'') CHR ''/'') - 2)"
  using assms by (auto simp: ParseMavenPath_def Let_def split: if_splits)

text \<open>
  The three readers of a Maven cache key agree. When the path behind \<open>maven/\<close> has a strict
  Maven identity, \<open>ExtractName\<close> and \<open>ExtractVersion\<close>, although the latter only splits the key,
  return exactly that identity, and the key counts as a package file unless it is a signature
  or a checksum.
\<close>

theorem maven_cache_identity:
  assumes "ParseMavenPath E path = (coordinate, version)" and "coordinate \<noteq> []"
  shows "ExtractName E X ''maven'' (''maven/'' @ path) = coordinate \<and>
    ExtractVersion X ''maven'' (''maven/'' @ path) = version \<and>
    (IsPackageFile E ''maven'' (''maven/'' @ path) \<longleftrightarrow>
       \<not> list_ex (HasSuffix (ToLower E (''maven/'' @ path))) [''.asc'', ''.md5'', ''.sha1'', ''.sha256'', ''.sha512''])"
proof -
  have "TrimPrefix (''maven/'' @ path) ''maven/'' = path" "HasPrefix (''maven/'' @ path) ''maven/''"
    by (rule TrimPrefix_append) (rule HasPrefix_append)
  then show ?thesis
    using assms ParseMavenPath_version [OF assms] Split_second_last [of path]
    by (simp add: ExtractName_def ExtractVersion_def IsPackageFile_def Let_def del: append_Cons append_Nil)
qed

theorem maven_cache_identity_witness:
  "ExtractVersion sample_escaping ''maven'' ''maven/org/acme/app/1.0/app-1.0.jar'' = ''1.0''"
proof -
  have "ParseMavenPath ascii_externals ''org/acme/app/1.0/app-1.0.jar'' = (''org.acme:app'', ''1.0'')" by code_simp
  then show ?thesis using maven_cache_identity [of ascii_externals "''org/acme/app/1.0/app-1.0.jar''"] by simp
qed

lemma PathUnescape_plain: "CHR ''%'' \<notin> set s \<Longrightarrow> PathUnescape s = Some s"
  by (induction s rule: PathUnescape.induct) auto

definition hf_plain :: "string \<Rightarrow> bool" where
  "hf_plain s \<longleftrightarrow> CHR ''/'' \<notin> set s \<and> CHR ''%'' \<notin> set s \<and> \<not> dot_segment s"

lemma hf_component_plain: "hf_plain s \<Longrightarrow> hf_component s = Some s"
  by (simp add: hf_plain_def hf_component_def PathUnescape_plain)

text \<open>
  Hugging Face artifact keys can be read back: the key of a file of a model repository
  gives the repository \<open>owner/name\<close>, the revision, and is a package file, for every owner,
  name, revision and file, a repository or a directory called \<open>resolve\<close> or \<open>raw\<close> included.
\<close>

theorem huggingface_key_roundtrip:
  assumes "hf_plain owner" and "hf_plain name" and "hf_plain ref"
    and "owner \<notin> {''api'', ''datasets'', ''__query__''}" and "file \<noteq> []"
  shows "let key = ''huggingface/'' @ owner @ ''/'' @ name @ ''/resolve/'' @ ref @ ''/'' @ file in
    ExtractName E X ''huggingface'' key = owner @ ''/'' @ name \<and>
    ExtractVersion X ''huggingface'' key = ref \<and> IsPackageFile E ''huggingface'' key"
proof -
  let ?rest = "owner @ ''/'' @ name @ ''/resolve/'' @ ref @ ''/'' @ file"
  have sep: "CHR ''/'' \<notin> set owner" "CHR ''/'' \<notin> set name" "CHR ''/'' \<notin> set ref"
    "CHR ''/'' \<notin> set ''resolve''"
    using assms(1-3) by (simp_all add: hf_plain_def)
  have parts: "Split ?rest CHR ''/'' = owner # name # ''resolve'' # ref # Split file CHR ''/''"
    using Split_append_sep [OF sep(1)] Split_append_sep [OF sep(2)] Split_append_sep [OF sep(3)]
      Split_append_sep [OF sep(4)] by simp
  have "\<not> HasPrefix ?rest ''__query__/''"
  proof
    assume "HasPrefix ?rest ''__query__/''"
    then obtain r where "?rest = ''__query__'' @ CHR ''/'' # r" by (auto simp: HasPrefix_iff)
    then have "hd (Split ?rest CHR ''/'') = ''__query__''" using Split_append_sep [of "CHR ''/''" "''__query__''" r] by simp
    then show False using parts assms(4) by simp
  qed
  moreover have "ref \<noteq> []" using assms(3) by (auto simp: hf_plain_def dot_segment_def)
  ultimately have "parseHuggingFaceFileKey (''huggingface/'' @ ?rest) = Some (owner @ ''/'' @ name, ref)"
    using TrimPrefix_append [of "''huggingface/''" ?rest] HasPrefix_append [of "''huggingface/''" ?rest]
      parts assms(4) hf_component_plain [OF assms(1)] hf_component_plain [OF assms(2)] hf_component_plain [OF assms(3)] assms(5)
    by (simp add: parseHuggingFaceFileKey_def hf_query_rest_def numeral_2_eq_2 numeral_3_eq_3 Let_def
        del: append_Cons append_Nil append_assoc)
  then show ?thesis by (simp add: Let_def ExtractName_def ExtractVersion_def IsPackageFile_def huggingface_name_def)
qed

theorem huggingface_key_roundtrip_witness:
  "ExtractName ascii_externals sample_escaping ''huggingface'' ''huggingface/acme/raw/resolve/main/resolve/x.bin'' = ''acme/raw''"
  using huggingface_key_roundtrip [of "''acme''" "''raw''" "''main''" "''resolve/x.bin''" ascii_externals sample_escaping]
  by (simp add: hf_plain_def dot_segment_def Let_def)

text \<open>
  Not every reader agrees with the strict parsers. The name and the version that are derived
  from the cache key of a Conda package with a hyphen in its name are cut at the first hyphens,
  and a prerelease of an npm package loses everything before its last hyphen.
\<close>

lemma conda_key_cut_at_hyphen:
  "ParseCondaPath ''conda-forge/noarch/python-dateutil-2.9.0-pyhd8ed1ab_0.conda'' = (''conda-forge/python-dateutil'', ''2.9.0'') \<and>
   ExtractName ascii_externals sample_escaping ''conda'' ''conda/conda-forge/noarch/python-dateutil-2.9.0-pyhd8ed1ab_0.conda'' = ''python'' \<and>
   ExtractVersion sample_escaping ''conda'' ''conda/conda-forge/noarch/python-dateutil-2.9.0-pyhd8ed1ab_0.conda'' = ''dateutil'' \<and>
   ExtractVersion sample_escaping ''npm'' ''npm/left-pad/-/left-pad-1.0.0-beta.1.tgz'' = ''beta.1''"
  by (intro conjI) code_simp+

end
