(* ===== verification/Request_Target.thy ===== *)
theory Request_Target
  imports Cache_Key Ecosystem_Catalog
begin

text \<open>
  \<open>internal/rules/request_target.go\<close>: the package identity that a request path establishes
  before the adapter runs, for the global routes, their project-scoped counterparts and the
  configured PyPI-compatible routes. \<open>None\<close> is the result \<open>false\<close>: the middleware lets the
  request pass without a policy decision, so what matters is which paths have a target.
\<close>

record requestTarget =
  rt_Ecosystem :: string
  rt_PackageName :: string
  rt_Version :: string
  rt_AmbiguousArtifact :: bool

record PyPIRouteDescriptor =
  prd_path :: string
  prd_channelFamily :: bool

definition validConfiguredRoutePath :: "string \<Rightarrow> bool" where
  "validConfiguredRoutePath value \<longleftrightarrow>
     \<not> (value = [] \<or> value \<noteq> Trim value CHR ''/'') \<and>
     list_all (\<lambda>segment. \<not> dot_segment segment \<and>
       list_all (\<lambda>r. 97 \<le> r \<and> r \<le> 122 \<or> 65 \<le> r \<and> r \<le> 90 \<or> 48 \<le> r \<and> r \<le> 57 \<or> r = 46 \<or> r = 95 \<or> r = 45)
         (runes segment))
       (Split value CHR ''/'')"

definition NewPyPIRouteDescriptor :: "string \<Rightarrow> bool \<Rightarrow> gerror + PyPIRouteDescriptor" where
  "NewPyPIRouteDescriptor configuredPath channelFamily =
     (if \<not> validConfiguredRoutePath configuredPath then Inl plain_error
      else Inr \<lparr>prd_path = ''/'' @ configuredPath, prd_channelFamily = channelFamily\<rparr>)"

text \<open>\<open>internal/adapter/pypi/channel_family.go\<close>.\<close>

definition asciiChannelAlphaNumeric :: "char \<Rightarrow> bool" where
  "asciiChannelAlphaNumeric c \<longleftrightarrow> 97 \<le> byte c \<and> byte c \<le> 122 \<or> 48 \<le> byte c \<and> byte c \<le> 57"

definition ValidIndexChannel :: "externals \<Rightarrow> string \<Rightarrow> bool" where
  "ValidIndexChannel E value \<longleftrightarrow>
     \<not> (value = [] \<or> length value > 64 \<or> value \<noteq> ToLower E value) \<and>
     asciiChannelAlphaNumeric (hd value) \<and> asciiChannelAlphaNumeric (last value) \<and>
     list_all (\<lambda>c. asciiChannelAlphaNumeric c \<or> c \<in> set ''._-'') value"

subsection \<open>Targets\<close>

definition newTarget :: "string \<Rightarrow> string \<Rightarrow> string \<Rightarrow> bool \<Rightarrow> requestTarget option" where
  "newTarget ecosystem name version requireVersion =
     (if ecosystem = [] \<or> name = [] \<or> requireVersion \<and> version = [] then None
      else Some \<lparr>rt_Ecosystem = ecosystem, rt_PackageName = name, rt_Version = version,
        rt_AmbiguousArtifact = False\<rparr>)"

definition metadataTarget :: "string \<Rightarrow> string \<Rightarrow> requestTarget option" where
  "metadataTarget ecosystem name = newTarget ecosystem name [] False"

definition versionedTarget :: "string \<Rightarrow> string \<Rightarrow> string \<Rightarrow> requestTarget option" where
  "versionedTarget ecosystem name version = newTarget ecosystem name version True"

definition artifactTarget :: "string \<Rightarrow> pkg_identity \<Rightarrow> requestTarget option" where
  "artifactTarget ecosystem ident = newTarget ecosystem (fst ident) (snd ident) False"

definition splitPath :: "string \<Rightarrow> string list" where
  "splitPath value = filter (\<lambda>part. part \<noteq> []) (Split (Trim value CHR ''/'') CHR ''/'')"

definition hasAnySuffix :: "string \<Rightarrow> string list \<Rightarrow> bool" where
  "hasAnySuffix value sfxs \<longleftrightarrow> list_ex (HasSuffix value) sfxs"

definition stripProjectPrefix :: "string \<Rightarrow> string" where
  "stripProjectPrefix requestPath =
     (if \<not> HasPrefix requestPath ''/p/'' then requestPath
      else (let rest = TrimPrefix requestPath ''/p/'' in
        case IndexByte rest CHR ''/'' of
          Some (Suc i) \<Rightarrow> drop (Suc i) rest
        | _ \<Rightarrow> requestPath))"

definition trimRoute :: "string \<Rightarrow> string \<Rightarrow> string option" where
  "trimRoute requestPath route =
     (if requestPath = route \<or> requestPath = route @ ''/'' then Some []
      else if \<not> HasPrefix requestPath (route @ ''/'') then None
      else Some (TrimPrefix requestPath (route @ ''/'')))"

subsection \<open>Ecosystems\<close>

definition validPyPIArtifactIdentity :: "externals \<Rightarrow> pkg_identity \<Rightarrow> bool" where
  "validPyPIArtifactIdentity E ident \<longleftrightarrow>
     fst ident \<noteq> [] \<and> snd ident \<noteq> [] \<and>
     (case DialectFor E ''pypi'' of
        Inl _ \<Rightarrow> False
      | Inr dialect \<Rightarrow> is_Inr (NormalizePackageName E dialect (fst ident)) \<and>
          ValidateVersion E dialect (snd ident) = None)"

definition isPyPISidecar :: "externals \<Rightarrow> string \<Rightarrow> bool" where
  "isPyPISidecar E filename \<longleftrightarrow> HasSuffix (ToLower E filename) ''.metadata''"

definition ambiguousPyPI :: requestTarget where
  "ambiguousPyPI = \<lparr>rt_Ecosystem = ''pypi'', rt_PackageName = [], rt_Version = [], rt_AmbiguousArtifact = True\<rparr>"

definition extractPyPITarget :: "externals \<Rightarrow> string \<Rightarrow> requestTarget option" where
  "extractPyPITarget E relative =
     (if HasPrefix relative ''simple/'' then
        (let name = TrimSuffix (TrimPrefix relative ''simple/'') ''/'' in
         if name \<noteq> [] \<and> \<not> ContainsByte name CHR ''/'' then metadataTarget ''pypi'' name else None)
      else if HasPrefix relative ''files/'' then
        (let filename = path_Base relative in
         if isPyPISidecar E filename then None
         else (let ident = ParsePypiFilename filename in
           if validPyPIArtifactIdentity E ident then artifactTarget ''pypi'' ident
           else Some ambiguousPyPI))
      else None)"

definition extractAPTTarget :: "externals \<Rightarrow> path_externals \<Rightarrow> string \<Rightarrow> requestTarget option" where
  "extractAPTTarget E X relative =
     (if \<not> hasAnySuffix relative [''.deb'', ''.udeb''] then None
      else metadataTarget ''apt'' (ExtractName E X ''apt'' (''apt/'' @ relative)))"

fun goMetadata :: "path_externals \<Rightarrow> string \<Rightarrow> string list \<Rightarrow> requestTarget option option" where
  "goMetadata X relative [] = None"
| "goMetadata X relative (sfx # sfxs) =
     (if HasSuffix relative sfx then
        Some (case DecodeProxyPath X (TrimSuffix relative sfx) of
            Inl _ \<Rightarrow> None
          | Inr name \<Rightarrow> metadataTarget ''go'' name)
      else goMetadata X relative sfxs)"

fun goVersioned :: "path_externals \<Rightarrow> string \<Rightarrow> string \<Rightarrow> string list \<Rightarrow> requestTarget option" where
  "goVersioned X modulePart versionFile [] = None"
| "goVersioned X modulePart versionFile (sfx # sfxs) =
     (if HasSuffix versionFile sfx then
        (case DecodeProxyPath X modulePart of
           Inl _ \<Rightarrow> None
         | Inr name \<Rightarrow>
             (case DecodeProxyVersion X (TrimSuffix versionFile sfx) of
                Inl _ \<Rightarrow> None
              | Inr version \<Rightarrow> versionedTarget ''go'' name version))
      else goVersioned X modulePart versionFile sfxs)"

definition extractGoTarget :: "path_externals \<Rightarrow> string \<Rightarrow> requestTarget option" where
  "extractGoTarget X relative =
     (if HasSuffix relative ''.zip'' then artifactTarget ''go'' (ParseGoZipPath X relative)
      else (case goMetadata X relative [''/@v/list'', ''/@latest''] of
          Some result \<Rightarrow> result
        | None \<Rightarrow>
            (case LastIndex relative ''/@v/'' of
               Some (Suc i) \<Rightarrow>
                 goVersioned X (take (Suc i) relative) (drop (Suc i + 4) relative) [''.info'', ''.mod'']
             | _ \<Rightarrow> None)))"

text \<open>Both remaining arms of \<open>extractCargoTarget\<close> return no target.\<close>

definition extractCargoTarget :: "string \<Rightarrow> requestTarget option" where
  "extractCargoTarget relative =
     (if HasPrefix relative ''api/v1/crates/'' then artifactTarget ''cargo'' (ParseCargoCratePath relative)
      else None)"

definition extractMavenTarget :: "externals \<Rightarrow> string \<Rightarrow> requestTarget option" where
  "extractMavenTarget E relative = artifactTarget ''maven'' (ParseMavenPath E relative)"

definition extractComposerTarget :: "externals \<Rightarrow> string \<Rightarrow> requestTarget option" where
  "extractComposerTarget E relative =
     (case ParseComposerRequestPath E relative of
        None \<Rightarrow> None
      | Some (name, version) \<Rightarrow>
          if version = [] then metadataTarget ''composer'' name else artifactTarget ''composer'' (name, version))"

definition extractNuGetTarget :: "path_externals \<Rightarrow> string \<Rightarrow> requestTarget option" where
  "extractNuGetTarget X relative =
     (let ident = ParseNugetPath X relative in
      if fst ident \<noteq> [] \<or> snd ident \<noteq> [] then artifactTarget ''nuget'' ident
      else (let parts = splitPath relative in
        if length parts \<ge> 2 \<and> parts ! 0 = ''v3-flatcontainer'' then metadataTarget ''nuget'' (parts ! 1)
        else if length parts \<ge> 3 \<and> parts ! 0 = ''v3'' \<and> HasPrefix (parts ! 1) ''registration'' then
          (if length parts \<ge> 4 \<and> parts ! 3 \<noteq> ''index.json''
           then versionedTarget ''nuget'' (parts ! 2) (TrimSuffix (parts ! 3) ''.json'')
           else metadataTarget ''nuget'' (parts ! 2))
        else None))"

definition extractCRANTarget :: "string \<Rightarrow> requestTarget option" where
  "extractCRANTarget relative =
     (let ident = ParseCranPath relative in
      if fst ident \<noteq> [] \<or> snd ident \<noteq> [] then artifactTarget ''cran'' ident
      else (let parts = splitPath relative in
        if length parts \<ge> 3 \<and> parts ! 0 = ''web'' \<and> parts ! 1 = ''packages'' then metadataTarget ''cran'' (parts ! 2)
        else None))"

definition extractEcosystemTarget ::
  "externals \<Rightarrow> path_externals \<Rightarrow> string \<Rightarrow> string \<Rightarrow> requestTarget option" where
  "extractEcosystemTarget E X ecosystem relativePath =
     (let relative = TrimPrefix relativePath ''/'' in
      if ecosystem = ''pypi'' then extractPyPITarget E relative
      else if ecosystem = ''apt'' then extractAPTTarget E X relative
      else if ecosystem = ''npm'' then None
      else if ecosystem = ''go'' then extractGoTarget X relative
      else if ecosystem = ''cargo'' then extractCargoTarget relative
      else if ecosystem = ''maven'' then extractMavenTarget E relative
      else if ecosystem = ''composer'' then extractComposerTarget E relative
      else if ecosystem = ''nuget'' then extractNuGetTarget X relative
      else if ecosystem = ''conda'' then artifactTarget ecosystem (ParseCondaPath relative)
      else if ecosystem = ''cran'' then extractCRANTarget relative
      else if ecosystem = ''alpine'' then artifactTarget ecosystem (ParseAlpinePath relative)
      else None)"

definition route_extract :: "externals \<Rightarrow> PyPIRouteDescriptor \<Rightarrow> string \<Rightarrow> requestTarget option" where
  "route_extract E route requestPath =
     (if prd_path route = [] then None
      else (case trimRoute requestPath (prd_path route) of
          None \<Rightarrow> None
        | Some relative \<Rightarrow>
            if \<not> prd_channelFamily route then extractPyPITarget E relative
            else (case Cut (TrimPrefix relative ''/'') CHR ''/'' of
              (channel, rest, found) \<Rightarrow>
                if \<not> found \<or> \<not> ValidIndexChannel E channel then None else extractPyPITarget E rest)))"

fun firstRoute :: "externals \<Rightarrow> path_externals \<Rightarrow> Definition list \<Rightarrow> string \<Rightarrow> requestTarget option option" where
  "firstRoute E X [] requestPath = None"
| "firstRoute E X (definition # defs) requestPath =
     (case trimRoute requestPath (def_Route definition) of
        Some relative \<Rightarrow> Some (extractEcosystemTarget E X (def_Name definition) relative)
      | None \<Rightarrow> firstRoute E X defs requestPath)"

fun extraRoutes :: "externals \<Rightarrow> PyPIRouteDescriptor list \<Rightarrow> string \<Rightarrow> requestTarget option" where
  "extraRoutes E [] requestPath = None"
| "extraRoutes E (route # routes) requestPath =
     (case route_extract E route requestPath of
        Some target \<Rightarrow> Some target
      | None \<Rightarrow> extraRoutes E routes requestPath)"

definition extractRequestTarget ::
  "externals \<Rightarrow> path_externals \<Rightarrow> PyPIRouteDescriptor list \<Rightarrow> string \<Rightarrow> requestTarget option" where
  "extractRequestTarget E X extraPyPIRoutes path =
     (let requestPath = stripProjectPrefix path in
      case firstRoute E X RuleDefinitions requestPath of
        Some result \<Rightarrow> result
      | None \<Rightarrow> extraRoutes E extraPyPIRoutes requestPath)"

subsection \<open>What a target is\<close>

text \<open>A result that, if it is a target at all, names a package of the given ecosystem.\<close>

definition names_package :: "string \<Rightarrow> requestTarget option \<Rightarrow> bool" where
  "names_package ecosystem result \<longleftrightarrow>
     pred_option (\<lambda>t. rt_Ecosystem t = ecosystem \<and> rt_PackageName t \<noteq> [] \<and> \<not> rt_AmbiguousArtifact t) result"

named_theorems names_package_intros \<open>results that name a package of a fixed ecosystem\<close>

lemma names_package_None [simp]: "names_package ecosystem None"
  by (simp add: names_package_def)

lemma names_package_newTarget [simp]: "names_package ecosystem (newTarget ecosystem n v b)"
  by (simp add: names_package_def newTarget_def)

lemma names_package_constructors [simp]:
  "names_package ecosystem (metadataTarget ecosystem n)"
  "names_package ecosystem (versionedTarget ecosystem n v)"
  "names_package ecosystem (artifactTarget ecosystem ident)"
  by (simp_all add: metadataTarget_def versionedTarget_def artifactTarget_def)

lemma names_package_APT [names_package_intros]: "names_package ''apt'' (extractAPTTarget E X relative)"
  by (simp add: extractAPTTarget_def)

lemma names_package_goMetadata:
  "pred_option (names_package ''go'') (goMetadata X relative sfxs)"
  by (induction sfxs) (simp_all split: sum.split)

lemma names_package_goVersioned: "names_package ''go'' (goVersioned X m f sfxs)"
  by (induction sfxs) (simp_all split: sum.split)

lemma names_package_Go [names_package_intros]: "names_package ''go'' (extractGoTarget X relative)"
  using names_package_goMetadata [of X relative "[''/@v/list'', ''/@latest'']"]
  by (auto simp: extractGoTarget_def names_package_goVersioned simp del: goMetadata.simps goVersioned.simps
      split: option.split nat.split)

lemma names_package_others [names_package_intros]:
  "names_package ''cargo'' (extractCargoTarget relative)"
  "names_package ''maven'' (extractMavenTarget E relative)"
  "names_package ''composer'' (extractComposerTarget E relative)"
  "names_package ''nuget'' (extractNuGetTarget X relative)"
  "names_package ''cran'' (extractCRANTarget relative)"
  by (simp_all add: extractCargoTarget_def extractMavenTarget_def extractComposerTarget_def
      extractNuGetTarget_def extractCRANTarget_def Let_def split: option.split prod.split)

lemma extractPyPITarget_cases:
  assumes "extractPyPITarget E relative = Some t"
  obtains (ambiguous) "t = ambiguousPyPI"
  | (metadata) n where "t = \<lparr>rt_Ecosystem = ''pypi'', rt_PackageName = n, rt_Version = [], rt_AmbiguousArtifact = False\<rparr>"
      "n \<noteq> []"
  | (artifact) n v where "t = \<lparr>rt_Ecosystem = ''pypi'', rt_PackageName = n, rt_Version = v, rt_AmbiguousArtifact = False\<rparr>"
      "validPyPIArtifactIdentity E (n, v)"
  using assms
  by (fastforce simp: extractPyPITarget_def metadataTarget_def artifactTarget_def newTarget_def Let_def
      split: if_splits)

lemma extractEcosystemTarget_names:
  "ecosystem \<noteq> ''pypi'' \<Longrightarrow> names_package ecosystem (extractEcosystemTarget E X ecosystem relative)"
  by (simp add: extractEcosystemTarget_def Let_def names_package_intros)

text \<open>The shape of the targets of one ecosystem.\<close>

definition target_of :: "externals \<Rightarrow> string \<Rightarrow> requestTarget \<Rightarrow> bool" where
  "target_of E ecosystem t \<longleftrightarrow> rt_Ecosystem t = ecosystem \<and>
     (if rt_AmbiguousArtifact t then t = ambiguousPyPI
      else rt_PackageName t \<noteq> [] \<and>
        (ecosystem = ''pypi'' \<and> rt_Version t \<noteq> [] \<longrightarrow>
           validPyPIArtifactIdentity E (rt_PackageName t, rt_Version t)))"

lemma target_of_PyPI: "extractPyPITarget E relative = Some t \<Longrightarrow> target_of E ''pypi'' t"
  by (erule extractPyPITarget_cases) (auto simp: target_of_def ambiguousPyPI_def validPyPIArtifactIdentity_def)

lemma target_of_ecosystem:
  assumes "extractEcosystemTarget E X ecosystem relative = Some t"
  shows "target_of E ecosystem t"
proof (cases "ecosystem = ''pypi''")
  case True
  then show ?thesis using assms target_of_PyPI by (auto simp: extractEcosystemTarget_def Let_def)
next
  case False
  then show ?thesis
    using extractEcosystemTarget_names [OF False, of E X relative] assms by (simp add: names_package_def target_of_def)
qed

lemma firstRoute_Some:
  "firstRoute E X defs path = Some (Some t) \<Longrightarrow> \<exists>d \<in> set defs. target_of E (def_Name d) t"
  by (induction defs) (auto dest: target_of_ecosystem split: option.split_asm)

lemma extraRoutes_Some: "extraRoutes E routes path = Some t \<Longrightarrow> target_of E ''pypi'' t"
proof (induction routes)
  case (Cons route routes)
  show ?case
  proof (cases "route_extract E route path")
    case None
    then show ?thesis using Cons by simp
  next
    case (Some u)
    then have "\<exists>relative. extractPyPITarget E relative = Some u"
      by (auto simp: route_extract_def split: if_splits option.split_asm prod.split_asm)
    then show ?thesis using Cons.prems Some target_of_PyPI by auto
  qed
qed simp

lemma RuleDefinitions_names:
  "map def_Name RuleDefinitions =
     [''pypi'', ''apt'', ''npm'', ''go'', ''cargo'', ''maven'', ''composer'', ''nuget'', ''conda'', ''cran'', ''alpine'']"
  by (simp add: RuleDefinitions_def matching_def definitions_def entry_def)

text \<open>
  Every target belongs to an ecosystem of the catalogue whose rules are enforced. It
  names a package, or it is the ambiguous artifact, which only PyPI routes produce and which
  carries no name and no version. A version that a PyPI target carries is a valid PEP 440
  version of a valid project name, so the evaluation of the rules never meets a versioned PyPI
  coordinate it must reject.
\<close>

theorem request_target_shape:
  assumes "extractRequestTarget E X routes path = Some t"
  shows "rt_Ecosystem t \<in> def_Name ` set RuleDefinitions \<and>
    (rt_AmbiguousArtifact t \<longrightarrow> rt_Ecosystem t = ''pypi'' \<and> rt_PackageName t = [] \<and> rt_Version t = []) \<and>
    (\<not> rt_AmbiguousArtifact t \<longrightarrow> rt_PackageName t \<noteq> []) \<and>
    (rt_Ecosystem t = ''pypi'' \<and> rt_Version t \<noteq> [] \<longrightarrow>
       validPyPIArtifactIdentity E (rt_PackageName t, rt_Version t))"
proof -
  have "\<exists>n \<in> def_Name ` set RuleDefinitions. target_of E n t"
  proof (cases "firstRoute E X RuleDefinitions (stripProjectPrefix path)")
    case None
    then have "target_of E ''pypi'' t" using assms extraRoutes_Some by (simp add: extractRequestTarget_def Let_def)
    moreover have "''pypi'' \<in> set (map def_Name RuleDefinitions)" by (simp add: RuleDefinitions_names)
    ultimately show ?thesis by auto
  next
    case (Some r)
    then show ?thesis using assms firstRoute_Some by (fastforce simp: extractRequestTarget_def Let_def)
  qed
  then show ?thesis
    by (auto simp: target_of_def ambiguousPyPI_def split: if_splits)
qed

text \<open>A request path and its target, for the witnesses.\<close>

definition sample_target :: requestTarget where
  "sample_target = \<lparr>rt_Ecosystem = ''pypi'', rt_PackageName = ''requests'', rt_Version = ''2.31.0'', rt_AmbiguousArtifact = False\<rparr>"

lemma sample_target_extracted:
  "extractRequestTarget ascii_externals ascii_paths [] ''/pypi/files/ab/requests-2.31.0-py3-none-any.whl'' = Some sample_target"
  by code_simp

theorem request_target_shape_witness:
  "''pypi'' \<in> def_Name ` set RuleDefinitions \<and> validPyPIArtifactIdentity ascii_externals (''requests'', ''2.31.0'')"
  using request_target_shape [OF sample_target_extracted] by (simp add: sample_target_def)

subsection \<open>Routes\<close>

lemma stripProjectPrefix_project:
  assumes "slug \<noteq> []" and "CHR ''/'' \<notin> set slug"
  shows "stripProjectPrefix (''/p/'' @ slug @ ''/'' @ rest) = ''/'' @ rest"
proof -
  have "IndexByte (slug @ ''/'' @ rest) CHR ''/'' = Some (length slug)"
    using IndexByte_append [OF assms(2), of rest] by simp
  moreover obtain n where "length slug = Suc n" using assms(1) by (cases slug) auto
  ultimately show ?thesis
    using TrimPrefix_append [of "''/p/''" "slug @ ''/'' @ rest"] HasPrefix_append [of "''/p/''" "slug @ ''/'' @ rest"]
    by (simp add: stripProjectPrefix_def)
qed

lemma stripProjectPrefix_global: "\<not> HasPrefix path ''/p/'' \<Longrightarrow> stripProjectPrefix path = path"
  by (simp add: stripProjectPrefix_def)

text \<open>
  A project-scoped request is decided as its global counterpart: putting \<open>/p/<slug>\<close> in
  front of a path changes neither whether there is a target nor which. A project can thus not
  be used to get around a rule.
\<close>

theorem project_scope_same_target:
  assumes "slug \<noteq> []" and "CHR ''/'' \<notin> set slug" and "\<not> HasPrefix (''/'' @ rest) ''/p/''"
  shows "extractRequestTarget E X routes (''/p/'' @ slug @ ''/'' @ rest) = extractRequestTarget E X routes (''/'' @ rest)"
  by (simp only: extractRequestTarget_def stripProjectPrefix_project [OF assms(1,2)]
      stripProjectPrefix_global [OF assms(3)])

theorem project_scope_same_target_witness:
  "extractRequestTarget ascii_externals ascii_paths [] ''/p/team/pypi/files/ab/requests-2.31.0-py3-none-any.whl'' = Some sample_target"
  using project_scope_same_target [of "''team''" "''pypi/files/ab/requests-2.31.0-py3-none-any.whl''" ascii_externals ascii_paths "[]"]
    sample_target_extracted
  by (simp add: HasPrefix_def)

text \<open>The artifact subtree of a route, and the extraction of what lies under it.\<close>

lemma trimRoute_append: "rest \<noteq> [] \<Longrightarrow> trimRoute (route @ ''/'' @ rest) route = Some rest"
  using TrimPrefix_append [of "route @ ''/''" rest] HasPrefix_append [of "route @ ''/''" rest]
  by (simp add: trimRoute_def)

lemma extractPyPITarget_files:
  "extractPyPITarget E (''files/'' @ rest) = None \<longleftrightarrow> isPyPISidecar E (path_Base (''files/'' @ rest))"
proof -
  have "\<not> HasPrefix (''files/'' @ rest) ''simple/''" by (simp add: HasPrefix_def)
  moreover have "HasPrefix (''files/'' @ rest) ''files/''" by (rule HasPrefix_append)
  ultimately show ?thesis
    by (simp add: extractPyPITarget_def Let_def artifactTarget_def newTarget_def validPyPIArtifactIdentity_def)
qed

lemma firstRoute_pypi:
  assumes "rest \<noteq> []"
  shows "firstRoute E X RuleDefinitions (''/pypi/'' @ rest) = Some (extractEcosystemTarget E X ''pypi'' rest)"
proof -
  obtain ds where ds: "RuleDefinitions = entry ''pypi'' ''/pypi'' True True True ''PyPI'' True # ds"
    by (simp add: RuleDefinitions_def matching_def definitions_def entry_def)
  show ?thesis unfolding ds using trimRoute_append [OF assms, of "''/pypi''"] by (simp add: entry_def)
qed

text \<open>
  Nothing in the PyPI artifact subtree bypasses the rules: a request below
  \<open>/pypi/files/\<close> is without a target exactly when its last path element is a PEP 658
  \<open>.metadata\<close> file, whatever the rest of the path looks like.
\<close>

theorem pypi_files_never_bypass:
  "extractRequestTarget E X routes (''/pypi/files/'' @ rest) = None \<longleftrightarrow>
     isPyPISidecar E (path_Base (''files/'' @ rest))"
proof -
  have "stripProjectPrefix (''/pypi/files/'' @ rest) = ''/pypi/'' @ (''files/'' @ rest)"
    by (simp add: stripProjectPrefix_global HasPrefix_def)
  moreover have "TrimPrefix (''files/'' @ rest) ''/'' = ''files/'' @ rest"
    by (simp add: TrimPrefix_def HasPrefix_def)
  ultimately show ?thesis
    using firstRoute_pypi [of "''files/'' @ rest" E X] extractPyPITarget_files [of E rest]
    by (simp add: extractRequestTarget_def extractEcosystemTarget_def)
qed

end
