(* ===== verification/Policy_Middleware.thy ===== *)
theory Policy_Middleware
  imports Engine_State Request_Target
begin

text \<open>
  \<open>internal/rules/middleware.go\<close> and \<open>adapter_bridge.go\<close>: how a decision of the engine, or its
  error, becomes an HTTP answer, and how it reaches the protocol adapters. The answer is the
  value \<open>response\<close>; logging and the record of a blocked request are not modelled. The locale
  \<open>policy_check\<close> is the interface between the engine and its two clients.
\<close>

subsection \<open>Answers\<close>

datatype response = Proceed | Abort (ab_status: int) (ab_code: string) (ab_message: string) (ab_package: "string option")

definition isUnsafePolicyError :: "gerror \<Rightarrow> bool" where
  "isUnsafePolicyError err \<longleftrightarrow> errors_Is err ErrPolicyIntegrity \<or> errors_Is err ErrRuleDataIntegrity \<or>
     errors_Is err ErrPolicyEvaluation"

definition abortPolicyUnevaluable :: response where
  "abortPolicyUnevaluable =
     Abort 503 ''PACKAGE_POLICY_UNEVALUABLE'' ''Package policy could not be evaluated safely'' None"

definition abortPolicyUnavailable :: response where
  "abortPolicyUnavailable =
     Abort 503 ''PACKAGE_POLICY_UNAVAILABLE''
       ''Package policy is unavailable and the configured fallback denies this request'' None"

definition package_denied :: "PackageRule option \<Rightarrow> requestTarget \<Rightarrow> response" where
  "package_denied rule target =
     Abort 403 ''PACKAGE_DENIED''
       (case rule of Some r \<Rightarrow> if r_Reason r \<noteq> [] then r_Reason r else ''Package blocked by policy''
        | None \<Rightarrow> ''Package blocked by policy'')
       (Some (rt_PackageName target))"

lemmas abort_defs = abortPolicyUnevaluable_def abortPolicyUnavailable_def package_denied_def

text \<open>The part of the handler that follows the check; \<open>fallback\<close> is \<open>fallbackAllowsWithoutSnapshot\<close>.\<close>

definition respond :: "requestTarget \<Rightarrow> bool \<Rightarrow> decision \<Rightarrow> response" where
  "respond target fallback = (\<lambda>(allowed, rule, e).
     case e of
       Some err \<Rightarrow>
         if isUnsafePolicyError err then abortPolicyUnevaluable
         else if errors_Is err ErrRuleStoreUnavailable then
           (if fallback then Proceed else abortPolicyUnavailable)
         else if errors_Is err ErrContextCanceled \<or> errors_Is err ErrDeadlineExceeded then Proceed
         else abortPolicyUnavailable
     | None \<Rightarrow> if \<not> allowed then package_denied rule target else Proceed)"

definition check_target ::
  "externals \<Rightarrow> gerror option \<Rightarrow> load_env \<Rightarrow> Engine option \<Rightarrow> requestTarget \<Rightarrow> Engine option \<times> decision" where
  "check_target E ctx env eo target =
     (if rt_AmbiguousArtifact target then CheckIncompleteArtifact E ctx env eo (rt_Ecosystem target)
      else Check E ctx env eo (rt_Ecosystem target) (rt_PackageName target) (rt_Version target))"

definition Middleware ::
  "externals \<Rightarrow> path_externals \<Rightarrow> PyPIRouteDescriptor list \<Rightarrow> gerror option \<Rightarrow> load_env \<Rightarrow> Engine option \<Rightarrow> string \<Rightarrow>
   Engine option \<times> response" where
  "Middleware E X routes ctx env eo path =
     (case extractRequestTarget E X routes path of
        None \<Rightarrow> (eo, Proceed)
      | Some target \<Rightarrow>
          (case check_target E ctx env eo target of
             (eo', d) \<Rightarrow> (eo', respond target (fallbackAllowsWithoutSnapshot eo') d)))"

subsection \<open>The adapters' interface\<close>

datatype PackageRuleOutcome = PackageRuleAllow | PackageRuleDeny | PackageRuleUnevaluable

record PackageRuleDecision =
  pd_Outcome :: PackageRuleOutcome
  pd_Reason :: string

definition adapter_decision :: "bool \<Rightarrow> decision \<Rightarrow> PackageRuleDecision" where
  "adapter_decision fallback = (\<lambda>(allowed, matched, e).
     case e of
       Some err \<Rightarrow>
         if isUnsafePolicyError err then \<lparr>pd_Outcome = PackageRuleUnevaluable, pd_Reason = []\<rparr>
         else if errors_Is err ErrRuleStoreUnavailable then
           (if fallback then \<lparr>pd_Outcome = PackageRuleAllow, pd_Reason = []\<rparr>
            else \<lparr>pd_Outcome = PackageRuleDeny, pd_Reason = ''Package policy unavailable''\<rparr>)
         else if errors_Is err ErrContextCanceled \<or> errors_Is err ErrDeadlineExceeded then
           \<lparr>pd_Outcome = PackageRuleAllow, pd_Reason = []\<rparr>
         else \<lparr>pd_Outcome = PackageRuleDeny, pd_Reason = ''Package policy unavailable''\<rparr>
     | None \<Rightarrow>
         if allowed then \<lparr>pd_Outcome = PackageRuleAllow, pd_Reason = []\<rparr>
         else \<lparr>pd_Outcome = PackageRuleDeny,
           pd_Reason = (case matched of None \<Rightarrow> [] | Some r \<Rightarrow> r_Reason r)\<rparr>)"

definition EvaluatePackageRule ::
  "externals \<Rightarrow> gerror option \<Rightarrow> load_env \<Rightarrow> Engine option \<Rightarrow> string \<Rightarrow> string \<Rightarrow> string \<Rightarrow>
   Engine option \<times> PackageRuleDecision" where
  "EvaluatePackageRule E ctx env inner ecosystem packageName version =
     (case inner of
        None \<Rightarrow> (inner, \<lparr>pd_Outcome = PackageRuleAllow, pd_Reason = []\<rparr>)
      | Some _ \<Rightarrow>
          (case Check E ctx env inner ecosystem packageName version of
             (inner', d) \<Rightarrow> (inner', adapter_decision (fallbackAllowsWithoutSnapshot inner') d)))"

subsection \<open>The contract between the engine and its clients\<close>

text \<open>
  A check on a state that satisfies the invariant keeps the invariant, and an error that it
  returns is one that makes the evaluation unsafe. The clients may rely on both.
\<close>

locale policy_check =
  fixes ready :: "'s \<Rightarrow> bool" and check :: "'s \<Rightarrow> 's \<times> decision"
  assumes check_ready: "ready s \<Longrightarrow> ready (fst (check s))"
    and check_errors: "ready s \<Longrightarrow> snd (check s) = (allowed, rule, Some err) \<Longrightarrow> isUnsafePolicyError err"
begin

lemma respond_cases:
  assumes "ready s"
  obtains (unsafe) "respond target fallback (snd (check s)) = abortPolicyUnevaluable"
      "pd_Outcome (adapter_decision fallback (snd (check s))) = PackageRuleUnevaluable"
      "\<exists>err. snd (snd (snd (check s))) = Some err"
  | (denied) rule where "snd (check s) = (False, rule, None)"
      "respond target fallback (snd (check s)) = package_denied rule target"
      "pd_Outcome (adapter_decision fallback (snd (check s))) = PackageRuleDeny"
  | (allowed) rule where "snd (check s) = (True, rule, None)"
      "respond target fallback (snd (check s)) = Proceed"
      "pd_Outcome (adapter_decision fallback (snd (check s))) = PackageRuleAllow"
proof -
  obtain a r e where d: "snd (check s) = (a, r, e)" by (cases "snd (check s)") auto
  show ?thesis
  proof (cases e)
    case None
    then show ?thesis using d denied allowed by (cases a) (auto simp: respond_def adapter_decision_def)
  next
    case (Some err)
    then have "isUnsafePolicyError err" using check_errors [OF assms] d by blast
    then show ?thesis using d Some unsafe by (simp add: respond_def adapter_decision_def)
  qed
qed

text \<open>The answer for an unavailable policy is never given, and the two clients agree.\<close>

lemma never_unavailable: "ready s \<Longrightarrow> respond target fallback (snd (check s)) \<noteq> abortPolicyUnavailable"
  by (erule respond_cases [of s target fallback]) (simp_all add: abort_defs)

lemma proceeds_iff:
  "ready s \<Longrightarrow> respond target fallback (snd (check s)) = Proceed \<longleftrightarrow> (\<exists>rule. snd (check s) = (True, rule, None))"
  by (erule respond_cases [of s target fallback]) (auto simp: abort_defs)

lemma clients_agree:
  "ready s \<Longrightarrow> pd_Outcome (adapter_decision fallback (snd (check s))) =
     (case respond target fallback (snd (check s)) of
        Proceed \<Rightarrow> PackageRuleAllow
      | Abort status _ _ _ \<Rightarrow> if status = 403 then PackageRuleDeny else PackageRuleUnevaluable)"
  by (erule respond_cases [of s target fallback]) (simp_all add: abort_defs)

end

subsection \<open>The engine provides it\<close>

definition engine_ready :: "Engine option \<Rightarrow> bool" where
  "engine_ready eo \<longleftrightarrow> pred_option (\<lambda>e. en_optionErr e = None) eo"

lemma NewEngineWithOptions_ready: "NewEngineWithOptions E store opts = Inr e \<Longrightarrow> engine_ready (Some e)"
  by (auto simp: NewEngineWithOptions_def engine_ready_def Let_def split: option.split_asm)

lemma finish_failure_ready:
  assumes "finishRefreshFailureLocked now err unavailable e = (e', r)"
  shows "en_optionErr e' = en_optionErr e" "en_onLoadError e' = en_onLoadError e"
  using assms by (auto simp: finishRefreshFailureLocked_def Let_def split: if_splits prod.splits)

lemma finish_failure_error:
  "finishRefreshFailureLocked now err unavailable e = (e', rules, outcome, Some x) \<Longrightarrow> x = err \<and> \<not> unavailable"
  by (auto simp: finishRefreshFailureLocked_def Let_def split: if_splits prod.splits)

lemma load_end_ready:
  "en_optionErr (fst (load_end E began generation r now e)) = en_optionErr e \<and>
   en_onLoadError (fst (load_end E began generation r now e)) = en_onLoadError e"
  by (auto simp: load_end_def Let_def dest: finish_failure_ready
      intro: finish_failure_ready [OF surjective_pairing] split: prod.split sum.split)

lemma load_end_error:
  assumes "load_end E began generation r now e = (e', rules, outcome, Some err)"
  shows "errors_Is err ErrPolicyIntegrity"
  using assms
proof (cases rule: load_end_cases)
  case (failed err' unavailable)
  then show ?thesis using finish_failure_error [OF failed(1)] by simp
qed simp

subsection \<open>What a load makes known\<close>

text \<open>
  What one load learns about the rules, seen from outside: the current rules, that the store
  cannot be reached, or that its content cannot be trusted.
\<close>

datatype store_view = Current "compiledRule list" | Outage | Corrupt

definition read_view :: "externals \<Rightarrow> gerror + PackageRule list \<Rightarrow> store_view" where
  "read_view E read =
     (case read of
        Inl err \<Rightarrow> if snd (classifyLoadError err) then Outage else Corrupt
      | Inr models \<Rightarrow> (case compileAll E models of Inl _ \<Rightarrow> Corrupt | Inr compiled \<Rightarrow> Current compiled))"

definition load_view :: "externals \<Rightarrow> load_env \<Rightarrow> Engine \<Rightarrow> store_view" where
  "load_view E env e =
     (if snapshotFreshLocked e (le_now env) then Current (the (en_cache e))
      else if retryBackoffActiveLocked e (le_now env) then Outage
      else if snapshotFreshLocked e (le_locked env) then Current (the (en_cache e))
      else if retryBackoffActiveLocked e (le_locked env) then Outage
      else if \<not> en_store e then Outage
      else read_view E (le_read env))"

fun view_result :: "Engine \<Rightarrow> store_view \<Rightarrow> load_result \<Rightarrow> bool" where
  "view_result e (Current rs) r = (r = (rs, loadOutcomeFresh, None))"
| "view_result e Outage r = (\<exists>rules outcome. fallbackLocked e = (rules, outcome) \<and> r = (rules, outcome, None))"
| "view_result e Corrupt (rules, outcome, err) = (\<exists>x. err = Some x \<and> errors_Is x ErrPolicyIntegrity)"

lemma fallbackLocked_cong:
  "en_cache e = en_cache e' \<Longrightarrow> en_onLoadError e = en_onLoadError e' \<Longrightarrow> fallbackLocked e = fallbackLocked e'"
  by (simp only: fallbackLocked_def)

lemma fallback_read_only: "fallbackReadOnlyLocked = fallbackLocked"
  by (simp add: fun_eq_iff fallbackReadOnlyLocked_def fallbackLocked_def)

lemma finish_failure_outage:
  "view_result e Outage (snd (finishRefreshFailureLocked now err True e))"
proof -
  let ?e1 = "e\<lparr>en_lastRefreshAttempt := Some now, en_lastRefreshError := Some err,
    en_lastRefreshWasFailure := True, en_refreshFailures := en_refreshFailures e + 1, en_degraded := True\<rparr>"
  have "fallbackLocked ?e1 = fallbackLocked e" by (rule fallbackLocked_cong) simp_all
  then show ?thesis by (cases "fallbackLocked e") (simp add: finishRefreshFailureLocked_def)
qed

lemma finish_failure_corrupt:
  "errors_Is err ErrPolicyIntegrity \<Longrightarrow> view_result e Corrupt (snd (finishRefreshFailureLocked now err False e'))"
  by (simp add: finishRefreshFailureLocked_def)

lemma classify_corrupt:
  "classifyLoadError err = (w, u) \<Longrightarrow> \<not> u \<Longrightarrow> errors_Is w ErrPolicyIntegrity"
  by (auto simp: classifyLoadError_def errors_Is_def split: if_splits)

lemma load_end_view:
  "view_result e (if \<not> en_store e then Outage else read_view E r) (snd (load_end E began generation r now e))"
proof (cases "en_store e")
  case True
  show ?thesis
  proof (cases r)
    case (Inl err)
    obtain w u where "classifyLoadError err = (w, u)" by fastforce
    then show ?thesis
      using True Inl classify_corrupt [of err w u] finish_failure_outage [of e now w]
        finish_failure_corrupt [of w e now e]
      by (cases u) (simp_all add: load_end_def read_view_def del: view_result.simps)
  next
    case (Inr models)
    show ?thesis
    proof (cases "compileAll E models")
      case (Inl err)
      then show ?thesis
        using True Inr finish_failure_corrupt [of err e now e] compileAll_error [OF Inl]
        by (simp add: load_end_def read_view_def errors_Is_def del: view_result.simps)
    next
      case compiled: (Inr compiled)
      then show ?thesis using True Inr by (simp add: load_end_def read_view_def)
    qed
  qed
qed (use finish_failure_outage in \<open>simp add: load_end_def del: view_result.simps\<close>)

lemma load_view_correct:
  assumes "en_optionErr e = None"
  shows "view_result e (load_view E env e) (snd (loadRulesWithState E env (Some e)))"
proof -
  let ?e' = "e\<lparr>en_lastRefreshAttempt := Some (le_locked env)\<rparr>"
  have same: "view_result ?e' v r = view_result e v r" for v r
    using fallbackLocked_cong [of ?e' e] by (cases v; cases r) simp_all
  have "view_result e (if \<not> en_store e then Outage else read_view E (le_read env))
      (snd (load_end E (le_locked env) (en_refreshGeneration e) (le_read env) (le_finished env) ?e'))"
    using load_end_view [of ?e' E "le_read env"] by (simp only: same) simp
  then show ?thesis
    using assms
    by (simp add: loadRulesWithState_def load_fast_def load_begin_def load_view_def fallback_read_only case_prod_unfold Let_def)
qed

lemma loadRules_ready:
  "engine_ready eo \<Longrightarrow> engine_ready (fst (loadRulesWithState E env eo)) \<and>
     Engine_OnLoadErrorPolicy (fst (loadRulesWithState E env eo)) = Engine_OnLoadErrorPolicy eo"
  using load_end_ready
  by (auto simp: loadRulesWithState_def engine_ready_def Engine_OnLoadErrorPolicy_def case_prod_unfold Let_def
      load_begin_def split: option.split load_start.split if_splits)

lemma loadRules_error:
  assumes "engine_ready eo" and "snd (loadRulesWithState E env eo) = (rules, outcome, Some err)"
  shows "errors_Is err ErrPolicyIntegrity"
proof (cases eo)
  case None
  then show ?thesis using assms(2) by (simp add: loadRulesWithState_def)
next
  case (Some e)
  then have "view_result e (load_view E env e) (rules, outcome, Some err)"
    using assms load_view_correct [of e E env] by (simp add: engine_ready_def)
  then show ?thesis by (cases "load_view E env e") auto
qed

lemma selectBestLoop_error: "selectBestLoop E rules eco pkg ver best = Inl err \<Longrightarrow> err = [ErrPolicyEvaluation]"
  by (induction rules arbitrary: best) (auto split: sum.split_asm option.split_asm if_splits)

lemma rule_ecosystem_error: "rule_ecosystem E ecosystem = Inl err \<Longrightarrow> err = [ErrPolicyEvaluation]"
  by (auto simp: rule_ecosystem_def Let_def split: option.split_asm if_splits)

lemma normalized_request_error:
  assumes "normalized_request E ecosystem pkg = Inl err"
  shows "err = [ErrPolicyEvaluation]"
proof (cases "rule_ecosystem E ecosystem")
  case (Inl x)
  then show ?thesis using assms rule_ecosystem_error [OF Inl] by (simp add: normalized_request_def)
next
  case (Inr eco)
  then show ?thesis using assms
    by (cases "DialectFor E eco"; cases "NormalizePackageName E (projr (DialectFor E eco)) pkg")
      (simp_all add: normalized_request_def)
qed

lemma check_snapshot_error:
  assumes "check_snapshot E rules ecosystem pkg ver = (a, r, Some err)"
  shows "err = [ErrPolicyEvaluation]"
proof (cases "normalized_request E ecosystem pkg")
  case (Inl x)
  then show ?thesis using assms normalized_request_error [OF Inl] by (simp add: check_snapshot_def)
next
  case (Inr p)
  obtain eco n where p: "p = (eco, n)" by fastforce
  show ?thesis
  proof (cases "selectBestLoop E rules eco n ver None")
    case (Inl x)
    then show ?thesis using assms Inr p selectBestLoop_error [OF Inl]
      by (simp add: check_snapshot_def selectBestCompiledRule_def)
  next
    case best: (Inr best)
    then show ?thesis using assms Inr p by (cases best) (simp_all add: check_snapshot_def selectBestCompiledRule_def)
  qed
qed

lemma conflictLoop_error: "conflictLoop rules eco action = Some err \<Longrightarrow> err = [ErrPolicyEvaluation]"
  by (induction rules) (auto split: if_splits)

lemma incomplete_snapshot_error:
  "incomplete_snapshot E rules ecosystem = (a, r, Some err) \<Longrightarrow> err = [ErrPolicyEvaluation]"
  by (auto simp: incomplete_snapshot_def Let_def dest: rule_ecosystem_error conflictLoop_error
      split: sum.split_asm option.split_asm)

text \<open>One request of a live context, on the rules that a load returned.\<close>

definition decide :: "externals \<Rightarrow> requestTarget \<Rightarrow> load_result \<Rightarrow> decision" where
  "decide E target = (\<lambda>(rules, outcome, e).
     case e of
       Some err \<Rightarrow> (True, None, Some err)
     | None \<Rightarrow>
         if outcome = loadOutcomeDeny then (False, None, None)
         else if rt_AmbiguousArtifact target then incomplete_snapshot E rules (rt_Ecosystem target)
         else check_snapshot E rules (rt_Ecosystem target) (rt_PackageName target) (rt_Version target))"

lemma check_target_decide:
  "check_target E None env eo target =
     (fst (loadRulesWithState E env eo), decide E target (snd (loadRulesWithState E env eo)))"
  by (auto simp: check_target_def Check_def CheckIncompleteArtifact_def decide_def split: prod.split option.split)

lemma decide_error:
  "decide E target (rules, outcome, e) = (a, r, Some err) \<Longrightarrow> e = Some err \<or> err = [ErrPolicyEvaluation]"
  by (auto simp: decide_def dest: check_snapshot_error incomplete_snapshot_error split: option.split_asm if_splits)

interpretation engine: policy_check engine_ready "\<lambda>eo. check_target E None env eo target" for E env target
proof
  fix eo :: "Engine option" and a r err
  assume ready: "engine_ready eo"
  show "engine_ready (fst (check_target E None env eo target))"
    using loadRules_ready [OF ready] by (simp add: check_target_decide)
  assume d: "snd (check_target E None env eo target) = (a, r, Some err)"
  obtain rules outcome e where load: "snd (loadRulesWithState E env eo) = (rules, outcome, e)"
    by (cases "snd (loadRulesWithState E env eo)") auto
  from d load have "decide E target (rules, outcome, e) = (a, r, Some err)" by (simp add: check_target_decide)
  then consider "e = Some err" | "err = [ErrPolicyEvaluation]" using decide_error by blast
  then show "isUnsafePolicyError err"
    using loadRules_error [OF ready] load by cases (auto simp: isUnsafePolicyError_def errors_Is_def)
qed

subsection \<open>The policy that the gate implements\<close>

text \<open>
  The specification of the gate, without clocks, locks and bookkeeping: the answer is a
  function of the configured policy, the last rules that were loaded, and what is known of the
  store. Rules that cannot be trusted are never replaced by an older or an empty set.
\<close>

definition verdict :: "externals \<Rightarrow> requestTarget \<Rightarrow> compiledRule list \<Rightarrow> response" where
  "verdict E target rules =
     (case if rt_AmbiguousArtifact target then incomplete_snapshot E rules (rt_Ecosystem target)
        else check_snapshot E rules (rt_Ecosystem target) (rt_PackageName target) (rt_Version target) of
        (allowed, rule, Some err) \<Rightarrow> abortPolicyUnevaluable
      | (allowed, rule, None) \<Rightarrow> if allowed then Proceed else package_denied rule target)"

definition gate_spec ::
  "externals \<Rightarrow> OnLoadErrorPolicy \<Rightarrow> compiledRule list option \<Rightarrow> store_view \<Rightarrow> requestTarget \<Rightarrow> response" where
  "gate_spec E policy known view target =
     (case view of
        Current rules \<Rightarrow> verdict E target rules
      | Corrupt \<Rightarrow> abortPolicyUnevaluable
      | Outage \<Rightarrow>
          (case known of
             Some rules \<Rightarrow>
               if policy = ''use_stale_then_allow'' \<or> policy = ''use_stale_then_deny'' then verdict E target rules
               else if policy = ''deny'' then package_denied None target else verdict E target []
           | None \<Rightarrow>
               if policy = ''use_stale_then_deny'' \<or> policy = ''deny'' then package_denied None target
               else verdict E target []))"

lemma respond_decide_rules:
  assumes "outcome \<noteq> loadOutcomeDeny"
  shows "respond target fallback (decide E target (rules, outcome, None)) = verdict E target rules"
proof -
  let ?d = "if rt_AmbiguousArtifact target then incomplete_snapshot E rules (rt_Ecosystem target)
    else check_snapshot E rules (rt_Ecosystem target) (rt_PackageName target) (rt_Version target)"
  obtain a r e where d: "?d = (a, r, e)" by (cases ?d) auto
  have "isUnsafePolicyError err" if "e = Some err" for err
    using d that
    by (auto simp: isUnsafePolicyError_def errors_Is_def dest: check_snapshot_error incomplete_snapshot_error
        split: if_splits)
  then show ?thesis using assms d by (auto simp: decide_def respond_def verdict_def split: option.split)
qed

lemma fallback_outcome:
  "fallbackLocked e =
     (let policy = Engine_OnLoadErrorPolicy (Some e) in
      if (policy = OnLoadErrorUseStaleThenAllow \<or> policy = OnLoadErrorUseStaleThenDeny) \<and> en_cache e \<noteq> None
      then (the (en_cache e), loadOutcomeStale)
      else if policy = OnLoadErrorUseStaleThenDeny \<or> policy = OnLoadErrorDeny then ([], loadOutcomeDeny)
      else ([], loadOutcomeAllow))"
  by (simp add: fallbackLocked_def Engine_OnLoadErrorPolicy_def)

lemma respond_view:
  assumes "view_result e view r"
  shows "respond target fallback (decide E target r) =
    gate_spec E (Engine_OnLoadErrorPolicy (Some e)) (en_cache e) view target"
proof (cases view)
  case (Current rs)
  then show ?thesis using assms respond_decide_rules [of loadOutcomeFresh] by (simp add: gate_spec_def)
next
  case Outage
  obtain rules outcome where f: "fallbackLocked e = (rules, outcome)" "r = (rules, outcome, None)"
    using assms Outage by auto
  show ?thesis
  proof (cases "outcome = loadOutcomeDeny")
    case True
    then have "respond target fallback (decide E target r) = package_denied None target"
      using f by (simp add: decide_def respond_def)
    then show ?thesis
      using f True Outage
      by (auto simp: fallback_outcome gate_spec_def Let_def policy_defs split: if_splits option.split)
  next
    case False
    then show ?thesis
      using f Outage respond_decide_rules [OF False, of target fallback E rules]
      by (auto simp: fallback_outcome gate_spec_def Let_def policy_defs split: if_splits option.split)
  qed
next
  case Corrupt
  obtain rules outcome x where "r = (rules, outcome, Some x)" "errors_Is x ErrPolicyIntegrity"
    using assms Corrupt by (cases r) auto
  then show ?thesis using Corrupt by (simp add: decide_def respond_def gate_spec_def isUnsafePolicyError_def)
qed

text \<open>
  C1: The request gate implements the documented policy, for every state of the engine:
  whatever the caches, timestamps, backoff and failure counters, the answer to a live request
  for a package is the one that the specification gives for the configured policy, the last
  snapshot and what this load learned of the store. In particular an outage follows
  \<open>on_load_error\<close>, and corrupt rules answer 503 under every policy.
\<close>

theorem middleware_implements_policy:
  assumes "en_optionErr e = None" and "extractRequestTarget E X routes path = Some target"
  shows "snd (Middleware E X routes None env (Some e) path) =
    gate_spec E (Engine_OnLoadErrorPolicy (Some e)) (en_cache e) (load_view E env e) target"
  using respond_view [OF load_view_correct [OF assms(1)]] assms(2)
  by (simp add: Middleware_def check_target_decide)

text \<open>An engine that denies when the rules cannot be read, and a store that is busy.\<close>

definition deny_engine :: Engine where
  "deny_engine = NewEngine ascii_externals True [WithOnLoadErrorPolicy ''deny'']"

definition busy_env :: load_env where
  "busy_env = \<lparr>le_now = 10, le_locked = 11, le_read = Inl [ErrRuleStoreUnavailable], le_finished = 12\<rparr>"

definition sample_path :: string where
  "sample_path = ''/pypi/files/ab/requests-2.31.0-py3-none-any.whl''"

lemma sample_path_target: "extractRequestTarget ascii_externals ascii_paths [] sample_path = Some sample_target"
  using sample_target_extracted by (simp add: sample_path_def)

lemma deny_engine_ok: "en_optionErr deny_engine = None" "engine_ready (Some deny_engine)"
proof -
  show "en_optionErr deny_engine = None" by code_simp
  then show "engine_ready (Some deny_engine)" by (simp add: engine_ready_def)
qed

theorem middleware_implements_policy_witness:
  "snd (Middleware ascii_externals ascii_paths [] None busy_env (Some deny_engine) sample_path) =
     Abort 403 ''PACKAGE_DENIED'' ''Package blocked by policy'' (Some ''requests'')"
proof -
  have "gate_spec ascii_externals (Engine_OnLoadErrorPolicy (Some deny_engine)) (en_cache deny_engine)
      (load_view ascii_externals busy_env deny_engine) sample_target =
    Abort 403 ''PACKAGE_DENIED'' ''Package blocked by policy'' (Some ''requests'')" by code_simp
  then show ?thesis
    using middleware_implements_policy [OF deny_engine_ok(1) sample_path_target, of busy_env] by simp
qed

subsection \<open>The two clients\<close>

text \<open>
  The HTTP gate and the adapters decide alike: for a named package, the adapter interface
  allows exactly when the gate lets the request pass, denies exactly when the gate answers 403
  and reports an unevaluable policy exactly when it answers 503, and both leave the engine in
  the same state.
\<close>

theorem adapter_agrees_with_middleware:
  assumes "en_optionErr e = None" and "extractRequestTarget E X routes path = Some t" and "\<not> rt_AmbiguousArtifact t"
  shows "pd_Outcome (snd (EvaluatePackageRule E None env (Some e) (rt_Ecosystem t) (rt_PackageName t) (rt_Version t))) =
     (case snd (Middleware E X routes None env (Some e) path) of
        Proceed \<Rightarrow> PackageRuleAllow
      | Abort status _ _ _ \<Rightarrow> if status = 403 then PackageRuleDeny else PackageRuleUnevaluable) \<and>
    fst (EvaluatePackageRule E None env (Some e) (rt_Ecosystem t) (rt_PackageName t) (rt_Version t)) =
     fst (Middleware E X routes None env (Some e) path)"
proof -
  have ready: "engine_ready (Some e)" using assms(1) by (simp add: engine_ready_def)
  have "Check E None env (Some e) (rt_Ecosystem t) (rt_PackageName t) (rt_Version t) = check_target E None env (Some e) t"
    using assms(3) by (simp add: check_target_def)
  then show ?thesis
    using engine.clients_agree [OF ready, where target = t] assms(2)
    by (simp add: EvaluatePackageRule_def Middleware_def case_prod_unfold)
qed

theorem adapter_agrees_with_middleware_witness:
  "pd_Outcome (snd (EvaluatePackageRule ascii_externals None busy_env (Some deny_engine) ''pypi'' ''requests'' ''2.31.0'')) =
     PackageRuleDeny"
proof -
  have "\<not> rt_AmbiguousArtifact sample_target" by (simp add: sample_target_def)
  moreover have "ab_status (snd (Middleware ascii_externals ascii_paths [] None busy_env (Some deny_engine) sample_path)) = 403 \<and>
      snd (Middleware ascii_externals ascii_paths [] None busy_env (Some deny_engine) sample_path) \<noteq> Proceed" by code_simp
  ultimately show ?thesis
    using adapter_agrees_with_middleware [OF deny_engine_ok(1) sample_path_target, of busy_env]
    by (auto simp: sample_target_def split: response.splits)
qed

text \<open>
  C30: The error paths of the gate: with a live request context, a request passes the gate only
  if it has no target or the check allowed it without an error. Every error of a properly
  constructed engine is answered with 503 \<open>PACKAGE_POLICY_UNEVALUABLE\<close>; the defensive answer
  \<open>PACKAGE_POLICY_UNAVAILABLE\<close> is never given.
\<close>

theorem gate_passes_only_allowed:
  assumes "engine_ready eo"
  shows "(snd (Middleware E X routes None env eo path) = Proceed \<longleftrightarrow>
      (case extractRequestTarget E X routes path of
         None \<Rightarrow> True
       | Some t \<Rightarrow> (\<exists>rule. snd (check_target E None env eo t) = (True, rule, None)))) \<and>
    snd (Middleware E X routes None env eo path) \<noteq> abortPolicyUnavailable"
  using engine.proceeds_iff [OF assms] engine.never_unavailable [OF assms]
  by (auto simp: Middleware_def case_prod_unfold abort_defs split: option.split)

theorem gate_passes_only_allowed_witness:
  "snd (Middleware ascii_externals ascii_paths [] None busy_env (Some deny_engine) ''/pypi/simple/requests/'') \<noteq> Proceed"
proof -
  let ?t = "\<lparr>rt_Ecosystem = ''pypi'', rt_PackageName = ''requests'', rt_Version = [], rt_AmbiguousArtifact = False\<rparr>"
  have "extractRequestTarget ascii_externals ascii_paths [] ''/pypi/simple/requests/'' = Some ?t" by code_simp
  moreover have "fst (snd (check_target ascii_externals None busy_env (Some deny_engine) ?t)) = False" by code_simp
  ultimately show ?thesis
    using gate_passes_only_allowed [OF deny_engine_ok(2), of ascii_externals ascii_paths "[]" busy_env "''/pypi/simple/requests/''"]
    by auto
qed

end
