(* ===== verification/Engine_Liveness.thy ===== *)
theory Engine_Liveness
  imports Engine_State
begin

text \<open>
  Two consequences of the engine's refresh protocol over all interleavings of \<open>sys_step\<close>: the
  status that operators see is truthful, and an outage ends for the engine within one retry
  interval of the store coming back.
\<close>

subsection \<open>The bookkeeping invariant\<close>

definition status_inv :: "Engine \<Rightarrow> bool" where
  "status_inv e \<longleftrightarrow>
     (en_cache e = None \<longleftrightarrow> en_lastLoad e = None) \<and>
     (en_usingStaleSnapshot e \<longrightarrow> en_degraded e \<and> en_cache e \<noteq> None) \<and>
     (en_lastRefreshError e \<noteq> None \<longrightarrow> en_degraded e) \<and>
     en_cacheTTL e = 30 * 1000000000 \<and> en_refreshRetryInterval e = 5 * 1000000000"

lemma status_inv_options: "status_inv e \<Longrightarrow> status_inv (apply_options E opts e)"
proof (induction opts arbitrary: e)
  case (Cons opt opts)
  have "status_inv e'" if "apply_option E opt e = Inr e'" for e'
    using that Cons.prems by (cases opt) (auto simp: status_inv_def)
  then show ?case using Cons by (auto simp: status_inv_def split: sum.split)
qed simp

lemma status_inv_new: "status_inv (NewEngine E store opts)"
  unfolding NewEngine_def by (rule status_inv_options) (simp add: status_inv_def)

lemma fallbackLocked_stale: "fallbackLocked e = (rules, loadOutcomeStale) \<Longrightarrow> en_cache e \<noteq> None"
  by (auto simp: fallbackLocked_def Let_def split: if_splits)

lemma status_inv_failure:
  assumes "status_inv e"
  shows "status_inv (fst (finishRefreshFailureLocked now err unavailable e))"
proof -
  let ?e1 = "e\<lparr>en_lastRefreshAttempt := Some now, en_lastRefreshError := Some err,
    en_lastRefreshWasFailure := unavailable, en_refreshFailures := en_refreshFailures e + 1, en_degraded := True\<rparr>"
  obtain rules outcome where f: "fallbackLocked ?e1 = (rules, outcome)" by fastforce
  have "en_cache ?e1 \<noteq> None" if "outcome = loadOutcomeStale"
    using fallbackLocked_stale f that by blast
  then have stale: "en_cache e \<noteq> None" if "outcome = loadOutcomeStale" using that by simp
  have "fst (finishRefreshFailureLocked now err unavailable e) =
      ?e1\<lparr>en_usingStaleSnapshot := (unavailable \<and> outcome = loadOutcomeStale)\<rparr>"
    using f by (cases unavailable) (simp_all add: finishRefreshFailureLocked_def)
  then show ?thesis using assms stale by (simp add: status_inv_def)
qed

lemma status_inv_load_end: "status_inv e \<Longrightarrow> status_inv (fst (load_end E began generation r now e))"
  by (auto simp: load_end_def Let_def intro: status_inv_failure split: sum.split prod.split)
    (simp_all add: status_inv_def)

lemma status_inv_step: "sys_step E s t \<Longrightarrow> status_inv (sy_engine s) \<Longrightarrow> status_inv (sy_engine t)"
proof (induction rule: sys_step.induct)
  case (start s now e generation)
  then show ?case using load_begin_refresh [OF start(2)] by (auto simp: status_inv_def)
next
  case (finish s j r now e result)
  then show ?case using status_inv_load_end [of "sy_engine s" E "rj_began j" "rj_generation j" r now] by simp
qed (auto simp: status_inv_def InvalidateCache_def)

lemma reachable_status_inv: "sys_reachable E s \<Longrightarrow> status_inv (sy_engine s)"
  by (induction rule: sys_reachable.induct) (simp_all add: sys_init_def status_inv_new status_inv_step)

text \<open>
  The status is truthful in every reachable state: \<open>unavailable\<close> means that no rules have
  ever been loaded, a stale snapshot in use is reported as \<open>degraded\<close>, a recorded refresh error
  excludes \<open>healthy\<close>, and the age of the snapshot is never negative.
\<close>

theorem status_truthful:
  assumes "sys_reachable E s"
  shows "(ps_Status (Engine_PolicyStatus (Some (sy_engine s)) now) = ''unavailable'' \<longleftrightarrow> en_cache (sy_engine s) = None) \<and>
    (ps_UsingStaleSnapshot (Engine_PolicyStatus (Some (sy_engine s)) now) \<longrightarrow>
       ps_Status (Engine_PolicyStatus (Some (sy_engine s)) now) = ''degraded'') \<and>
    (en_lastRefreshError (sy_engine s) \<noteq> None \<longrightarrow>
       ps_Status (Engine_PolicyStatus (Some (sy_engine s)) now) \<noteq> ''healthy'') \<and>
    0 \<le> ps_SnapshotAge (Engine_PolicyStatus (Some (sy_engine s)) now)"
  using reachable_status_inv [OF assms]
  by (auto simp: Engine_PolicyStatus_def policyStatusLocked_def status_inv_def split: option.split)

theorem status_truthful_witness:
  "ps_Status (Engine_PolicyStatus (Some (sy_engine race_middle)) 9) = ''unavailable''"
proof -
  have "case en_cache (sy_engine race_middle) of None \<Rightarrow> True | _ \<Rightarrow> False" by code_simp
  then show ?thesis using status_truthful [OF race_middle_reachable, of 9] by (auto split: option.splits)
qed

subsection \<open>Recovery\<close>

lemma time_Sub_ge: "d \<le> 2 ^ 63 - 1 \<Longrightarrow> t + d \<le> now \<Longrightarrow> \<not> time_Sub now t < d"
  unfolding time_Sub_def by linarith

lemma backoff_over:
  assumes "status_inv e" and "\<forall>t. en_lastRefreshAttempt e = Some t \<longrightarrow> t + 5 * 1000000000 \<le> now"
  shows "\<not> retryBackoffActiveLocked e now"
  using assms time_Sub_ge [of "5 * 1000000000" _ now]
  by (auto simp: retryBackoffActiveLocked_def status_inv_def split: option.split)

text \<open>
  C31: An outage ends. From every reachable state of an engine with a store, however many
  refreshes failed before: a request that comes at least five seconds after the last attempt,
  when the store can be read again, is served as fresh. Unless a snapshot was still fresh, it
  is served the rules that are now stored, and the status is \<open>healthy\<close> from then on.
\<close>

theorem refresh_recovers:
  assumes "sys_reachable E s" and "en_optionErr (sy_engine s) = None" and "en_store (sy_engine s)"
    and "\<forall>t. en_lastRefreshAttempt (sy_engine s) = Some t \<longrightarrow>
      t + 5 * 1000000000 \<le> le_now env \<and> t + 5 * 1000000000 \<le> le_locked env"
    and "le_read env = Inr models" and "compileAll E models = Inr compiled"
  shows "\<exists>e' rules. loadRulesWithState E env (Some (sy_engine s)) = (Some e', rules, loadOutcomeFresh, None) \<and>
    (\<not> snapshotFreshLocked (sy_engine s) (le_now env) \<and> \<not> snapshotFreshLocked (sy_engine s) (le_locked env) \<longrightarrow>
       rules = compiled \<and> ps_Status (Engine_PolicyStatus (Some e') now) = ''healthy'')"
proof -
  let ?e = "sy_engine s"
  have inv: "status_inv ?e" by (rule reachable_status_inv [OF assms(1)])
  have "\<not> retryBackoffActiveLocked ?e (le_now env)" "\<not> retryBackoffActiveLocked ?e (le_locked env)"
    using backoff_over [OF inv] assms(4) by blast+
  then show ?thesis
    using assms(2,3,5,6)
    by (simp add: loadRulesWithState_def load_fast_def load_begin_def load_end_def Engine_PolicyStatus_def
        policyStatusLocked_def)
qed

theorem refresh_recovers_witness:
  "\<exists>e' rules. loadRulesWithState ascii_externals
     \<lparr>le_now = 5000000005, le_locked = 5000000006, le_read = Inr [sample_row], le_finished = 5000000007\<rparr>
     (Some (sy_engine race_middle)) = (Some e', rules, loadOutcomeFresh, None)"
proof -
  let ?env = "\<lparr>le_now = 5000000005, le_locked = 5000000006, le_read = Inr [sample_row], le_finished = 5000000007\<rparr>"
  have c: "is_Inr (compileAll ascii_externals [sample_row])" by code_simp
  then obtain compiled where c: "compileAll ascii_externals [sample_row] = Inr compiled" unfolding is_Inr_iff by blast
  have "en_optionErr (sy_engine race_middle) = None" "en_store (sy_engine race_middle)"
    "en_lastRefreshAttempt (sy_engine race_middle) = None" by code_simp+
  then show ?thesis
    using refresh_recovers [OF race_middle_reachable, of ?env "[sample_row]" compiled] c by fastforce
qed

end
