(* ===== verification/Name_Identity.thy ===== *)
theory Name_Identity
  imports Dialects Go_Paths
begin

text \<open>
  Normalised package names are canonical: normalising a normalised name changes nothing, in
  every dialect of the registry. Rules, approvals and the blocklist compare normalised names
  and store them, so a name must not drift when it is read back.
\<close>

subsection \<open>Lowering ASCII text\<close>

lemma IsSpace_lowerByte: "byte c < 128 \<Longrightarrow> IsSpace (byte (lowerByte c)) = IsSpace (byte c)"
  by (auto simp: lowerByte_def isASCIIUpper_def IsSpace_def)

lemma TrimSpace_ascii:
  assumes "is_ascii s"
  shows "TrimSpace s = strip_suffix_while (\<lambda>c. IsSpace (byte c)) (dropWhile (\<lambda>c. IsSpace (byte c)) s)"
proof -
  have bytes: "concat (map snd (map (\<lambda>c. (byte c, [c])) xs)) = xs" for xs by (induction xs) simp_all
  have "strip_suffix_while (IsSpace \<circ> fst) (dropWhile (IsSpace \<circ> fst) (segments s)) =
      map (\<lambda>c. (byte c, [c])) (strip_suffix_while (\<lambda>c. IsSpace (byte c)) (dropWhile (\<lambda>c. IsSpace (byte c)) s))"
    using assms by (simp add: segments_ascii strip_suffix_while_def dropWhile_map rev_map comp_def)
  then show ?thesis by (simp only: TrimSpace_def bytes)
qed

lemma set_strip_suffix_while: "set (strip_suffix_while P xs) \<subseteq> set xs"
  using set_dropWhileD by (fastforce simp: strip_suffix_while_def)

lemma is_ascii_TrimSpace: "is_ascii s \<Longrightarrow> is_ascii (TrimSpace s)"
  using set_strip_suffix_while set_dropWhileD
  by (fastforce simp: TrimSpace_ascii is_ascii_def list_all_iff)

lemma TrimSpace_lowerASCII:
  assumes "is_ascii s"
  shows "TrimSpace (lowerASCII s) = lowerASCII (TrimSpace s)"
proof -
  have "dropWhile (\<lambda>c. IsSpace (byte c)) (map lowerByte xs) = map lowerByte (dropWhile (\<lambda>c. IsSpace (byte c)) xs)"
    if "list_all (\<lambda>c. byte c < 128) xs" for xs
    using that by (induction xs) (auto simp: IsSpace_lowerByte)
  moreover have "list_all (\<lambda>c. byte c < 128) (rev (dropWhile (\<lambda>c. IsSpace (byte c)) s))"
    using assms set_dropWhileD by (fastforce simp: is_ascii_def list_all_iff)
  moreover have "is_ascii (map lowerByte s)" using assms is_ascii_lowerASCII [of s] by (simp only: lowerASCII_def)
  ultimately show ?thesis
    using assms by (simp add: TrimSpace_ascii lowerASCII_def strip_suffix_while_def is_ascii_def rev_map)
qed

lemma Split_lowerASCII: "\<not> isASCIIAlpha c \<Longrightarrow> Split (lowerASCII s) c = map lowerASCII (Split s c)"
proof (induction s)
  case (Cons d s)
  then show ?case
    by (cases "d = c"; cases "Split s c") (auto simp: lowerASCII_def lowerByte_eq_iff)
qed (simp add: lowerASCII_def)

lemma Join_lowerASCII: "Join (map lowerASCII ws) (lowerASCII sep) = lowerASCII (Join ws sep)"
proof (induction ws)
  case (Cons w ws)
  then show ?case by (cases ws) simp_all
qed simp

lemma lowerASCII_hd: "s \<noteq> [] \<Longrightarrow> hd (lowerASCII s) = lowerByte (hd s)"
  by (simp add: lowerASCII_def hd_map)

lemma lowerASCII_last: "s \<noteq> [] \<Longrightarrow> last (lowerASCII s) = lowerByte (last s)"
  by (simp add: lowerASCII_def last_map)

lemma lowerASCII_empty [simp]: "lowerASCII s = [] \<longleftrightarrow> s = []"
  by (simp add: lowerASCII_def)

lemma list_all_lowerASCII: "list_all P (lowerASCII s) \<longleftrightarrow> list_all (\<lambda>c. P (lowerByte c)) s"
  by (simp add: lowerASCII_def list.pred_map comp_def)

lemma ToLower_again: "is_ascii s \<Longrightarrow> ToLower E (lowerASCII s) = ToLower E s"
  by (simp add: ToLower_ascii)

lemma IsControl_lowerByte: "byte c < 128 \<Longrightarrow> IsControl (byte (lowerByte c)) = IsControl (byte c)"
  by (auto simp: lowerByte_byte isASCIIUpper_def IsControl_def)

text \<open>Lowering some characters of an ASCII name keeps it free of white space and controls.\<close>

lemma validatePackageNameInput_ascii:
  assumes "is_ascii s"
  shows "validatePackageNameInput s \<longleftrightarrow> s \<noteq> [] \<and> list_all (\<lambda>c. \<not> IsSpace (byte c) \<and> \<not> IsControl (byte c)) s"
  using assms TrimSpace_id [of s]
  by (auto simp: validatePackageNameInput_def ContainsFunc_ascii list_all_iff)

lemma validatePackageNameInput_mixed:
  assumes "is_ascii a" and "is_ascii b" and "validatePackageNameInput (a @ CHR ''/'' # b)"
  shows "validatePackageNameInput (a @ CHR ''/'' # lowerASCII b)"
proof -
  have asc: "is_ascii (a @ CHR ''/'' # b)" "is_ascii (a @ CHR ''/'' # lowerASCII b)" using assms(1,2) by simp_all
  have "\<forall>c \<in> set b. byte c < 128" using assms(2) by (simp add: is_ascii_def list_all_iff)
  then show ?thesis
    using assms(3) unfolding validatePackageNameInput_ascii [OF asc(1)] validatePackageNameInput_ascii [OF asc(2)]
    by (auto simp: list_all_iff lowerASCII_def IsSpace_lowerByte IsControl_lowerByte)
qed

lemma validatePackageNameInput_lower:
  assumes "is_ascii s" and "validatePackageNameInput s"
  shows "validatePackageNameInput (lowerASCII s)"
proof -
  have "is_ascii (lowerASCII s)" using assms(1) by simp
  moreover have "\<forall>c \<in> set s. byte c < 128" using assms(1) by (simp add: is_ascii_def list_all_iff)
  ultimately show ?thesis
    using assms by (auto simp: validatePackageNameInput_ascii list_all_iff lowerASCII_def IsSpace_lowerByte IsControl_lowerByte)
qed

subsection \<open>The validators\<close>

lemma sep_not_alpha [simp]:
  "\<not> isASCIIAlpha CHR ''/''" "\<not> isASCIIAlpha CHR ''.''" "\<not> isASCIIAlpha CHR ''_''" "\<not> isASCIIAlpha CHR ''-''"
  by code_simp+

lemma lowerByte_sep [simp]:
  "lowerByte c = CHR ''.'' \<longleftrightarrow> c = CHR ''.''" "lowerByte c = CHR ''_'' \<longleftrightarrow> c = CHR ''_''"
  "lowerByte c = CHR ''-'' \<longleftrightarrow> c = CHR ''-''" "lowerByte c = CHR ''/'' \<longleftrightarrow> c = CHR ''/''"
  by (simp_all add: lowerByte_eq_iff)

lemma while_lowerASCII:
  assumes "\<not> isASCIIAlpha sep"
  shows "takeWhile (\<lambda>c. c = sep) (lowerASCII s) = lowerASCII (takeWhile (\<lambda>c. c = sep) s)"
    and "dropWhile (\<lambda>c. c = sep) (lowerASCII s) = lowerASCII (dropWhile (\<lambda>c. c = sep) s)"
  using assms by (induction s) (simp_all add: lowerASCII_def lowerByte_eq_iff)

lemma composerScan_lower: "composerScan n (lowerASCII s) = composerScan n s"
proof (induction n s rule: composerScan.induct)
  case (1 n s)
  show ?case
  proof (cases "s = [] \<or> isASCIIAlphanumeric (hd s)")
    case True
    then show ?thesis
      using 1(1) composerScan.simps [of n "lowerASCII s"] composerScan.simps [of n s]
      by (cases s) (simp_all add: lowerASCII_def)
  next
    case False
    let ?sep = "hd s"
    show ?thesis
    proof (cases "?sep = CHR ''.'' \<or> ?sep = CHR ''_'' \<or> ?sep = CHR ''-''")
      case True
      then have sep: "hd (lowerASCII s) = ?sep" "\<not> isASCIIAlpha ?sep"
        using False by (auto simp: lowerASCII_hd)
      let ?run = "length (takeWhile (\<lambda>c. c = ?sep) s)" and ?rest = "dropWhile (\<lambda>c. c = ?sep) s"
      let ?bad = "(?sep \<noteq> CHR ''-'' \<and> ?run > 1 \<or> ?sep = CHR ''-'' \<and> ?run > n) \<or>
        ?rest = [] \<or> \<not> isASCIIAlphanumeric (hd ?rest)"
      have scan: "composerScan n s = (\<not> ?bad \<and> composerScan n ?rest)"
        using composerScan.simps [of n s] False True by (auto simp: Let_def)
      have "composerScan n (lowerASCII s) = (\<not> ?bad \<and> composerScan n (lowerASCII ?rest))"
        using composerScan.simps [of n "lowerASCII s"] False True sep
        by (cases "?rest = []") (auto simp: Let_def while_lowerASCII lowerASCII_hd)
      moreover have "composerScan n (lowerASCII ?rest) = composerScan n ?rest" if "\<not> ?bad"
        using 1(2) [OF _ _ refl _ refl refl] False True that by blast
      ultimately show ?thesis using scan by blast
    next
      case other: False
      then show ?thesis
        using False by (auto simp: composerScan.simps [of n "lowerASCII s"] composerScan.simps [of n s] lowerASCII_hd Let_def)
    qed
  qed
qed

lemma nugetScan_lower: "nugetScan (lowerASCII s) = nugetScan s"
  by (induction s) (auto simp: isNuGetPackageWord_def lowerASCII_def hd_map)

lemma composer_part_lower:
  "s \<noteq> [] \<Longrightarrow> validateComposerNamePart (lowerASCII s) n = validateComposerNamePart s n"
  by (simp add: validateComposerNamePart_def composerScan_lower lowerASCII_hd lowerASCII_last)

lemma is_ascii_parts: "is_ascii s \<Longrightarrow> w \<in> set (Split s c) \<Longrightarrow> is_ascii w"
  using list_all_Split [of "\<lambda>c. byte c < 128" s c] by (auto simp: is_ascii_def list_all_iff)

lemma composer_name_lower:
  assumes "is_ascii s" and "validateComposerPackageName E s"
  shows "validateComposerPackageName E (lowerASCII s)"
proof -
  obtain p q where parts: "Split s CHR ''/'' = [p, q]" "p \<noteq> []" "q \<noteq> []"
    using assms(2)
    by (auto simp: validateComposerPackageName_def exactCoordinateParts_def Let_def numeral_2_eq_2 length_Suc_conv
        split: if_splits)
  have "is_ascii p" "is_ascii q" using is_ascii_parts [OF assms(1), of _ "CHR ''/''"] parts by auto
  then show ?thesis
    using assms(2) parts
    by (simp add: validateComposerPackageName_def exactCoordinateParts_def Split_lowerASCII composer_part_lower
        isWindowsReservedName_def ToLower_again)
qed

text \<open>Conda lowers the part behind the last slash only.\<close>

lemma Split_last: "c \<notin> set b \<Longrightarrow> Split (a @ c # b) c = Split a c @ [b]"
proof (induction a)
  case (Cons d a)
  then show ?case by (cases "d = c"; cases "Split a c") auto
qed (simp add: Split_no_occ)

lemma lowerASCII_dots [simp]: "lowerASCII s = ''.'' \<longleftrightarrow> s = ''.''" "lowerASCII s = ''..'' \<longleftrightarrow> s = ''..''"
  by (auto simp: lowerASCII_def Cons_eq_map_conv)

lemma conda_name_part_lower: "validateCondaNamePart s \<Longrightarrow> validateCondaNamePart (lowerASCII s)"
  by (cases "s = []")
    (simp_all add: validateCondaNamePart_def lowerASCII_hd lowerASCII_last list_all_lowerASCII)

lemma conda_name_again:
  assumes "is_ascii s" and "validateCondaPackageName s" and "validatePackageNameInput s"
  shows "validateCondaPackageName (normalizeCondaPackageName E s) \<and>
    validatePackageNameInput (normalizeCondaPackageName E s) \<and>
    normalizeCondaPackageName E (normalizeCondaPackageName E s) = normalizeCondaPackageName E s"
proof -
  have "CHR ''/'' \<in> set s"
    using assms(2) Split_no_occ [of "CHR ''/''" s] by (fastforce simp: validateCondaPackageName_def Let_def)
  then obtain i where i: "LastIndexByte s CHR ''/'' = Some i" by (cases "LastIndexByte s CHR ''/''") (auto simp: LastIndexByte_None)
  define a b where "a = take i s" and "b = drop (Suc i) s"
  have s: "s = a @ CHR ''/'' # b" "CHR ''/'' \<notin> set b"
    using LastIndexByte_Some [OF i] by (auto simp: a_def b_def)
  have n: "normalizeCondaPackageName E (a @ CHR ''/'' # x) = a @ CHR ''/'' # ToLower E x" if "CHR ''/'' \<notin> set x" for x
    using LastIndexByte_append [OF that, of a] by (simp add: normalizeCondaPackageName_def)
  have asc: "is_ascii a" "is_ascii b" using assms(1) s(1) by simp_all
  have lb: "ToLower E b = lowerASCII b" "CHR ''/'' \<notin> set (lowerASCII b)"
    using asc s(2) by (simp_all add: ToLower_ascii lowerASCII_def image_iff)
      (metis lowerByte_sep(4))
  have res: "normalizeCondaPackageName E s = a @ CHR ''/'' # lowerASCII b" using n [OF s(2)] lb(1) s(1) by simp
  have "list_all condaChannelPart (Split a CHR ''/'')" "validateCondaNamePart b"
    using assms(2) s by (auto simp: validateCondaPackageName_def Split_last Let_def)
  then have "validateCondaPackageName (a @ CHR ''/'' # lowerASCII b)"
    using lb(2) conda_name_part_lower by (cases "Split a CHR ''/''") (auto simp: validateCondaPackageName_def Split_last Let_def)
  moreover have "validatePackageNameInput (a @ CHR ''/'' # lowerASCII b)"
  proof (rule validatePackageNameInput_mixed)
    show "is_ascii a" "is_ascii b" "validatePackageNameInput (a @ CHR ''/'' # b)" using asc assms(3) s(1) by simp_all
  qed
  moreover have "normalizeCondaPackageName E (a @ CHR ''/'' # lowerASCII b) = a @ CHR ''/'' # lowerASCII b"
    using n [OF lb(2)] asc(2) by (simp add: ToLower_again ToLower_ascii)
  ultimately show ?thesis by (simp add: res)
qed

text \<open>Hugging Face: the optional segment \<open>datasets\<close> is compared without regard to case.\<close>

lemma HasPrefix_lower: "list_all (\<lambda>c. \<not> isASCIIAlpha c) p \<Longrightarrow> HasPrefix (lowerASCII s) p = HasPrefix s p"
proof (induction p arbitrary: s)
  case (Cons c p)
  then show ?case by (cases s) (auto simp: HasPrefix_def lowerASCII_def lowerByte_eq_iff)
qed (simp add: HasPrefix_def)

lemma Contains_lower: "list_all (\<lambda>c. \<not> isASCIIAlpha c) p \<Longrightarrow> Contains (lowerASCII s) p = Contains s p"
proof (induction s)
  case (Cons c s)
  then show ?case using HasPrefix_lower [of p "c # s"] by (simp add: lowerASCII_def)
qed (simp add: lowerASCII_def)

lemma hf_part_lower: "validateHuggingFaceNamePart (lowerASCII s) = validateHuggingFaceNamePart s"
  by (cases "s = []")
    (simp_all add: validateHuggingFaceNamePart_def lowerASCII_hd lowerASCII_last list_all_lowerASCII Contains_lower)

lemma FoldRune_lower: "FoldRune (byte (lowerByte c)) = FoldRune (byte c)"
  by (auto simp: FoldRune_def lowerByte_byte isASCIIUpper_def)

lemma EqualFold_lower: "is_ascii s \<Longrightarrow> EqualFoldASCII (lowerASCII s) w = EqualFoldASCII s w"
  by (simp add: EqualFoldASCII_def runes_ascii) (simp add: lowerASCII_def FoldRune_lower comp_def)

lemma hf_name_lower:
  assumes "is_ascii s"
  shows "validateHuggingFacePackageName E (lowerASCII s) = validateHuggingFacePackageName E s"
proof -
  let ?ps = "Split s CHR ''/''"
  have asc: "\<forall>w \<in> set ?ps. is_ascii w" using is_ascii_parts [OF assms] by blast
  have "huggingFaceRepoIDStart (map lowerASCII ?ps) False = huggingFaceRepoIDStart ?ps False"
    using asc by (cases ?ps) (simp_all add: huggingFaceRepoIDStart_def EqualFold_lower)
  moreover have "ToLower E (last (map lowerASCII ?ps)) = ToLower E (last ?ps)"
    using asc by (simp add: last_map ToLower_again)
  moreover have "length (Join (map lowerASCII ws) ''/'') = length (Join ws ''/'')" for ws
  proof -
    have "lowerASCII ''/'' = ''/''" by code_simp
    then show ?thesis using Join_lowerASCII [of ws "''/''"] by simp
  qed
  moreover have "list_all validateHuggingFaceNamePart (map lowerASCII ws) = list_all validateHuggingFaceNamePart ws" for ws
    by (simp add: list.pred_map comp_def hf_part_lower)
  ultimately show ?thesis
    by (simp add: validateHuggingFacePackageName_def Split_lowerASCII drop_map Let_def split: option.split)
qed

text \<open>PyPI: runs of \<open>-\<close>, \<open>_\<close> and \<open>.\<close> become one \<open>-\<close>.\<close>

definition python_separator :: "char \<Rightarrow> bool" where
  "python_separator c \<longleftrightarrow> c = CHR ''-'' \<or> c = CHR ''_'' \<or> c = CHR ''.''"

fun collapse :: "bool \<Rightarrow> string \<Rightarrow> string" where
  "collapse separator [] = (if separator then ''-'' else [])"
| "collapse separator (c # s) =
     (if python_separator c then collapse True s
      else (if separator then ''-'' else []) @ c # collapse False s)"

lemma normalizePythonRunes_ascii: "is_ascii s \<Longrightarrow> normalizePythonRunes b (map byte s) = collapse b s"
  by (induction s arbitrary: b) (auto simp: python_separator_def simp del: byte_of_CHR)

lemma collapse_again:
  "s \<noteq> [] \<Longrightarrow> \<not> python_separator (last s) \<Longrightarrow> collapse False (collapse b s) = collapse b s"
proof (induction s arbitrary: b)
  case (Cons c s)
  have "python_separator CHR ''-''" by (simp add: python_separator_def)
  then show ?case using Cons by (cases "s = []") auto
qed simp

lemma collapse_set: "set (collapse b s) \<subseteq> insert CHR ''-'' (set s)"
  by (induction s arbitrary: b) (auto split: if_splits)

lemma collapse_last:
  "s \<noteq> [] \<Longrightarrow> \<not> python_separator (last s) \<Longrightarrow> collapse b s \<noteq> [] \<and> last (collapse b s) = last s"
proof (induction s arbitrary: b)
  case (Cons c s)
  then show ?case by (cases "s = []") auto
qed simp

lemma alnum_not_separator: "isASCIIAlphanumeric c \<Longrightarrow> \<not> python_separator c"
  by (auto simp: python_separator_def isASCIIAlphanumeric_def isASCIIDigit_def)

lemma alnum_clean: "isASCIIAlphanumeric c \<Longrightarrow> byte c < 128 \<and> \<not> IsSpace (byte c) \<and> \<not> IsControl (byte c)"
  by (auto simp: isASCIIAlphanumeric_def isASCIIDigit_def IsSpace_def IsControl_def)

lemma pypi_name_again:
  assumes "validatePyPIPackageName s"
  shows "validatePyPIPackageName (normalizePythonName E s) \<and>
    normalizePythonName E (normalizePythonName E s) = normalizePythonName E s"
proof -
  let ?l = "lowerASCII s" and ?ok = "\<lambda>c. isASCIIAlphanumeric c \<or> python_separator c"
  have s: "s \<noteq> []" "list_all ?ok s" "isASCIIAlphanumeric (hd s)" "isASCIIAlphanumeric (last s)"
    using assms by (auto simp: validatePyPIPackageName_def validatePackageNameInput_def list_all_iff python_separator_def)
  have clean: "byte c < 128 \<and> \<not> IsSpace (byte c) \<and> \<not> IsControl (byte c)" if "?ok c" for c
    using that alnum_clean by (auto simp: python_separator_def IsSpace_def IsControl_def)
  have asc: "is_ascii w" if "list_all ?ok w" for w using that clean by (auto simp: is_ascii_def list_all_iff)
  have l: "?l \<noteq> []" "isASCIIAlphanumeric (last ?l)" using s by (simp_all add: lowerASCII_last)
  have lok: "list_all ?ok ?l" using s(2) by (simp add: list_all_lowerASCII python_separator_def)
  have n: "normalizePythonName E w = collapse False (lowerASCII w)" if "list_all ?ok w" for w
    using asc [OF that] by (simp add: normalizePythonName_def ToLower_ascii runes_ascii normalizePythonRunes_ascii)
  let ?n = "collapse False ?l"
  have nok: "list_all ?ok ?n"
    using lok collapse_set [of False ?l] by (auto simp: list_all_iff python_separator_def)
  have last: "?n \<noteq> []" "last ?n = last ?l" using collapse_last [OF l(1)] l(2) alnum_not_separator by auto
  have hd: "isASCIIAlphanumeric (hd ?n)" using s(1,3) alnum_not_separator [of "lowerByte (hd s)"]
    by (cases s) (auto simp: lowerASCII_def)
  have "validatePyPIPackageName ?n"
    using last hd l(2) nok clean
    by (auto simp: validatePyPIPackageName_def validatePackageNameInput_ascii [OF asc [OF nok]] list_all_iff python_separator_def)
  moreover have "lowerASCII ?n = ?n"
  proof -
    have "lowerByte CHR ''-'' = CHR ''-''" by code_simp
    then have "\<forall>c \<in> set ?n. lowerByte c = c" using collapse_set [of False ?l] by (auto simp: lowerASCII_def)
    then show ?thesis by (simp add: lowerASCII_def map_idI)
  qed
  ultimately show ?thesis
    using n [OF s(2)] n [OF nok] collapse_again [OF l(1)] l(2) alnum_not_separator by simp
qed

lemma nuget_name_lower:
  assumes "is_ascii s" and "validateNuGetPackageName s"
  shows "validateNuGetPackageName (lowerASCII s)"
  using assms validatePackageNameInput_lower [of s]
  by (cases "s = []") (simp_all add: validateNuGetPackageName_def lowerASCII_hd nugetScan_lower isNuGetPackageWord_def)

subsection \<open>Normalising a name twice\<close>

text \<open>Where a dialect lowers names it has checked that they are ASCII, Hugging Face apart.\<close>

lemma is_ascii_alnum: "list_all (\<lambda>c. isASCIIAlphanumeric c \<or> c \<in> set ''._-'') s \<Longrightarrow> is_ascii s"
  using alnum_clean by (auto simp: is_ascii_def list_all_iff)

lemma is_ascii_Split: "\<forall>w \<in> set (Split s CHR ''/''). is_ascii w \<Longrightarrow> is_ascii s"
  unfolding is_ascii_def list_all_iff set_Split [of s "CHR ''/''"] by (auto split: if_splits)

lemma composerScan_chars: "composerScan n s \<Longrightarrow> list_all (\<lambda>c. isASCIIAlphanumeric c \<or> c \<in> set ''._-'') s"
proof (induction n s rule: composerScan.induct)
  case (1 n s)
  show ?case
  proof (cases "s = []")
    case nonempty: False
    show ?thesis
    proof (cases "isASCIIAlphanumeric (hd s)")
      case True
      then have "composerScan n (tl s)" using "1.prems" nonempty by (subst (asm) composerScan.simps) simp
      then show ?thesis using "1.IH"(1) nonempty True by (cases s) auto
    next
      case False
      let ?c = "hd s" and ?rest = "dropWhile (\<lambda>c. c = hd s) s"
      have scan: "?c \<in> set ''._-''" "composerScan n ?rest"
        using "1.prems" nonempty False
        by (subst (asm) composerScan.simps; auto simp: Let_def split: if_splits)+
      have "list_all (\<lambda>c. isASCIIAlphanumeric c \<or> c \<in> set ''._-'') ?rest"
        using "1.IH"(2) "1.prems" nonempty False
        by (subst (asm) composerScan.simps) (auto simp: Let_def split: if_splits)
      moreover have "list_all (\<lambda>c. isASCIIAlphanumeric c \<or> c \<in> set ''._-'') (takeWhile (\<lambda>c. c = hd s) s)"
        using scan(1) by (auto simp: list_all_iff dest!: set_takeWhileD)
      ultimately show ?thesis using takeWhile_dropWhile_id [of "\<lambda>c. c = hd s" s] by (metis list_all_append)
    qed
  qed simp
qed

lemma composer_ascii: "validateComposerPackageName E s \<Longrightarrow> is_ascii s"
proof -
  assume v: "validateComposerPackageName E s"
  then obtain p q where parts: "Split s CHR ''/'' = [p, q]"
    by (auto simp: validateComposerPackageName_def exactCoordinateParts_def Let_def numeral_2_eq_2 length_Suc_conv
        split: if_splits)
  then have "is_ascii p" "is_ascii q"
    using v composerScan_chars [THEN is_ascii_alnum]
    by (auto simp: validateComposerPackageName_def exactCoordinateParts_def validateComposerNamePart_def split: if_splits)
  then show ?thesis using is_ascii_Split [of s] parts by simp
qed

lemma conda_ascii: "validateCondaPackageName s \<Longrightarrow> is_ascii s"
proof (rule is_ascii_Split)
  assume v: "validateCondaPackageName s"
  have chan: "is_ascii w" if "condaChannelPart w" for w
    using that by (intro is_ascii_alnum) (auto simp: validateSimpleASCIIName_def list_all_iff split: if_splits)
  have name: "is_ascii w" if "validateCondaNamePart w" for w
    using that by (intro is_ascii_alnum) (simp add: validateCondaNamePart_def)
  have "set (Split s CHR ''/'') = set (butlast (Split s CHR ''/'')) \<union> {last (Split s CHR ''/'')}"
    by (metis Split_nonempty append_butlast_last_id empty_set list.simps(15) set_append)
  then show "\<forall>w \<in> set (Split s CHR ''/''). is_ascii w"
    using v chan name by (auto simp: validateCondaPackageName_def Let_def list_all_iff)
qed

lemma nugetScan_chars: "nugetScan s \<Longrightarrow> list_all (\<lambda>c. isASCIIAlphanumeric c \<or> c \<in> set ''._-'') s"
  by (induction s) (auto simp: isNuGetPackageWord_def split: if_splits)

lemma nuget_ascii: "validateNuGetPackageName s \<Longrightarrow> is_ascii s"
  using nugetScan_chars is_ascii_alnum by (auto simp: validateNuGetPackageName_def)

lemma name_normal_form:
  assumes d: "DialectFor E ecosystem = Inr d" and n: "NormalizePackageName E d name = Inr n"
    and hf: "ToLower E (TrimSpace ecosystem) = ''huggingface'' \<longrightarrow> is_ascii name"
  shows "NormalizePackageName E d n = Inr n"
proof -
  note input = validatePackageNameInput_lower and low = ToLower_ascii [of name E] ToLower_ascii [of "lowerASCII name" E]
  note names = composer_name_lower [of name E] hf_name_lower [of name E] nuget_name_lower [of name] conda_name_again [of name E]
    pypi_name_again [of name E] composer_ascii [of E name] conda_ascii [of name] nuget_ascii [of name]
  show ?thesis
    using d n hf input [of name] names low
    unfolding DialectFor_def dialectForRevision1_def Let_def
    by (auto split: if_splits simp: npmDialect_def cargoDialect_def identity_def semver_NormalizePackageName_def
      exact_NormalizePackageName_def pep440_NormalizePackageName_def maven_NormalizePackageName_def
      debian_NormalizePackageName_def cran_NormalizePackageName_def)
qed

text \<open>
  What a name is stored as is its own normal form: for every ecosystem with a dialect, a
  normalised name is accepted again and is normalised to itself. The cache keys, the policy
  rules, the approvals and the audit entries, each of which normalises what another component
  has already normalised, therefore name the same package. For Hugging Face, whose validator
  lets the letter U+017F through, the name has to be ASCII.
\<close>

theorem package_name_normal_form:
  assumes "DialectFor E ecosystem = Inr d" and "NormalizePackageName E d name = Inr n"
    and "ToLower E (TrimSpace ecosystem) = ''huggingface'' \<longrightarrow> is_ascii name"
  shows "NormalizePackageName E d n = Inr n"
  by (rule name_normal_form [OF assms])

theorem package_name_normal_form_witness:
  "NormalizePackageName ascii_externals pep440Dialect ''Zope_Interface'' = Inr ''zope-interface'' \<and>
   NormalizePackageName ascii_externals pep440Dialect ''zope-interface'' = Inr ''zope-interface''"
proof -
  have "ToLower ascii_externals (TrimSpace ''pypi'') = ''pypi''" by code_simp
  then have "DialectFor ascii_externals ''pypi'' = Inr pep440Dialect"
    by (simp add: DialectFor_def dialectForRevision1_def)
  moreover have "is_ascii ''Zope_Interface''" "NormalizePackageName ascii_externals pep440Dialect ''Zope_Interface'' = Inr ''zope-interface''"
    by code_simp+
  ultimately show ?thesis using package_name_normal_form by blast
qed

end
