(* ===== verification/Quarantine_Policy.thy ===== *)
theory Quarantine_Policy
  imports Go_Time Go_Paths Matcher Name_Identity
begin

text \<open>
  \<open>internal/quarantine/policy.go\<close> and \<open>allowlist.go\<close>: the configuration of the minimum release
  age, its validation, and the list of bypass rules. A Go map is an association list in the
  order in which the loop visits it; the facts hold for every order. \<open>F\<close> is the floating-point
  parameter of \<open>time.ParseDuration\<close>.
\<close>

type_synonym Mode = string

definition ModeBlock :: Mode where "ModeBlock = ''block''"
definition ModeWarn :: Mode where "ModeWarn = ''warn''"
definition ModeServeLastEligible :: Mode where "ModeServeLastEligible = ''serve_last_eligible''"

lemmas mode_defs = ModeBlock_def ModeWarn_def ModeServeLastEligible_def

definition hour :: int where "hour = 3600000000000"

definition quarantine_ParseDuration :: "(string \<Rightarrow> nat \<Rightarrow> nat) \<Rightarrow> string \<Rightarrow> gerror + int" where
  "quarantine_ParseDuration F text =
     (let s = TrimSpace text in
      if s = [] \<or> s = ''0'' then Inr 0
      else (let multiplier = (if last s = CHR ''d'' then 24 * hour else if last s = CHR ''w'' then 7 * 24 * hour else 0) in
        if multiplier > 0 then
          bind_err (Sscanf_d (butlast s)) (\<lambda>n. if n < 0 then Inl plain_error else Inr (wrap64 (n * multiplier)))
        else bind_err (time_ParseDuration F s) (\<lambda>d. if d < 0 then Inl plain_error else Inr d)))"

subsection \<open>Bypass rules\<close>

record allowEntry =
  ae_ecosystem :: string
  ae_dialect :: dialect
  ae_packageName :: string
  ae_packageGlob :: bool
  ae_versionMatcher :: versionMatcher     \<comment> \<open>only read when \<open>ae_packageGlob\<close> is false\<close>

datatype quarantineVersionCapability =
  quarantineVersionsPackageOnly | quarantineVersionsExactOnly | quarantineVersionsRanges

definition quarantineAllowVersionCapability :: "string \<Rightarrow> dialect \<Rightarrow> quarantineVersionCapability" where
  "quarantineAllowVersionCapability ecosystem dialect =
     (if ecosystem \<in> set [''apt'', ''composer'', ''rubygems'', ''helm''] then quarantineVersionsPackageOnly
      else if ecosystem = ''npm'' then quarantineVersionsRanges
      else if SupportsRanges dialect then quarantineVersionsRanges
      else quarantineVersionsExactOnly)"

text \<open>The first operator, in the order of the list, that occurs in the rule.\<close>

definition allowOperators :: "string list" where
  "allowOperators = [''>='', ''<='', ''=='', ''>'', ''<'']"

fun firstOperator :: "string list \<Rightarrow> string \<Rightarrow> (string \<times> nat) option" where
  "firstOperator [] rule = None"
| "firstOperator (op # ops) rule =
     (case Index rule op of Some i \<Rightarrow> Some (op, i) | None \<Rightarrow> firstOperator ops rule)"

definition parseVersionEntry ::
  "externals \<Rightarrow> string \<Rightarrow> dialect \<Rightarrow> string \<Rightarrow> string \<Rightarrow> nat \<Rightarrow> gerror + allowEntry" where
  "parseVersionEntry E ecosystem dialect rule operator index =
     (let name = TrimSpace (take index rule); version = TrimSpace (drop (index + length operator) rule);
          capability = quarantineAllowVersionCapability ecosystem dialect in
      if name = [] \<or> version = [] then Inl plain_error
      else if operator = ''=='' \<and> version = ''*'' then Inl plain_error
      else if capability = quarantineVersionsPackageOnly then Inl [ErrVersionSelectorsUnsupported]
      else if operator \<noteq> ''=='' \<and> capability \<noteq> quarantineVersionsRanges then Inl [ErrVersionSelectorsUnsupported]
      else bind_err (NormalizePackageName E dialect name) (\<lambda>normalizedName.
        bind_err (CompileVersionMatcher E ecosystem (if operator = ''=='' then version else operator @ version))
          (\<lambda>matcher. Inr \<lparr>ae_ecosystem = ecosystem, ae_dialect = dialect, ae_packageName = normalizedName,
             ae_packageGlob = False, ae_versionMatcher = matcher\<rparr>)))"

definition parseAllowEntry :: "externals \<Rightarrow> string \<Rightarrow> gerror + allowEntry" where
  "parseAllowEntry E raw =
     (case IndexByte raw CHR '':'' of
        None \<Rightarrow> Inl plain_error
      | Some colon \<Rightarrow>
          if colon = 0 \<or> colon = length raw - 1 then Inl plain_error
          else (let ecosystem = ToLower E (TrimSpace (take colon raw)); rule = TrimSpace (drop (colon + 1) raw) in
            if ecosystem = [] \<or> rule = [] then Inl plain_error
            else bind_err (DialectFor E ecosystem) (\<lambda>dialect.
              case firstOperator allowOperators rule of
                Some (operator, index) \<Rightarrow> parseVersionEntry E ecosystem dialect rule operator index
              | None \<Rightarrow> bind_err (NormalizePackageGlob E dialect rule) (\<lambda>pattern.
                  Inr \<lparr>ae_ecosystem = ecosystem, ae_dialect = dialect, ae_packageName = pattern,
                    ae_packageGlob = True, ae_versionMatcher = anyVersionMatcher\<rparr>))))"

fun ParseAllowList :: "externals \<Rightarrow> string list \<Rightarrow> gerror + allowEntry list" where
  "ParseAllowList E [] = Inr []"
| "ParseAllowList E (raw # rules) =
     (if TrimSpace raw = [] then ParseAllowList E rules
      else bind_err (parseAllowEntry E (TrimSpace raw)) (\<lambda>entry.
        bind_err (ParseAllowList E rules) (\<lambda>entries. Inr (entry # entries))))"

text \<open>
  The loop of \<open>Match\<close>; the accumulator is the normalised package name once it was computed.
\<close>

fun allowLoop ::
  "externals \<Rightarrow> allowEntry list \<Rightarrow> string \<Rightarrow> string \<Rightarrow> string \<Rightarrow> string option \<Rightarrow> bool" where
  "allowLoop E [] ecosystem packageName version normalized = False"
| "allowLoop E (entry # entries) ecosystem packageName version normalized =
     (if ae_ecosystem entry \<noteq> ecosystem then allowLoop E entries ecosystem packageName version normalized
      else (case (case normalized of Some n \<Rightarrow> Inr n | None \<Rightarrow> NormalizePackageName E (ae_dialect entry) packageName) of
          Inl _ \<Rightarrow> False
        | Inr n \<Rightarrow>
            if ae_packageGlob entry then
              (if path_Match (ae_packageName entry) n = Inr True then True
               else allowLoop E entries ecosystem packageName version (Some n))
            else if ae_packageName entry \<noteq> n \<or> version = [] then
              allowLoop E entries ecosystem packageName version (Some n)
            else if Match E (ae_versionMatcher entry) version = Inr True then True
            else allowLoop E entries ecosystem packageName version (Some n)))"

text \<open>A nil list is \<open>None\<close>.\<close>

definition AllowList_Match :: "externals \<Rightarrow> allowEntry list option \<Rightarrow> string \<Rightarrow> string \<Rightarrow> string \<Rightarrow> bool" where
  "AllowList_Match E a ecosystem packageName version =
     (case a of
        None \<Rightarrow> False
      | Some entries \<Rightarrow> entries \<noteq> [] \<and> allowLoop E entries (ToLower E (TrimSpace ecosystem)) packageName version None)"

subsection \<open>The policy\<close>

record Policy =
  qp_ageGateEnabled :: bool
  qp_sourceProvenanceBound :: "(string \<Rightarrow> bool) option"
  qp_approximateProvenance :: "string list"
  qp_observationProvenance :: "string list"
  qp_Thresholds :: "string \<rightharpoonup> int"
  qp_Default :: int
  qp_Mode :: Mode
  qp_Allow :: "allowEntry list option"
  qp_FailClosed :: bool

record Config =
  qc_MinReleaseAgeEnabled :: "bool option"
  qc_MinReleaseAge :: "(string \<times> string) list"
  qc_ApproximateSources :: "string list"
  qc_ObservationSources :: "string list"
  qc_Mode :: string
  qc_Allow :: "string list"
  qc_FailClosed :: "bool option"

definition default_ecosystems :: "string list" where
  "default_ecosystems =
     [''pypi'', ''npm'', ''go'', ''cargo'', ''maven'', ''rubygems'', ''composer'', ''nuget'', ''conda'', ''cran'',
      ''helm'', ''alpine'', ''docker'', ''huggingface'', ''apt'']"

definition DefaultThresholds :: "string \<rightharpoonup> int" where
  "DefaultThresholds = (\<lambda>e. if e \<in> set default_ecosystems then Some 0 else None)"

definition SupportsMinimumReleaseAge :: "string \<Rightarrow> bool" where
  "SupportsMinimumReleaseAge ecosystem = False"

definition approximateCapable :: "string \<Rightarrow> bool" where
  "approximateCapable ecosystem \<longleftrightarrow> ecosystem \<in> set [''conda'', ''cran'', ''maven'', ''alpine'', ''helm'']"

definition observationCapable :: "string \<Rightarrow> bool" where
  "observationCapable ecosystem \<longleftrightarrow> ecosystem = ''docker''"

abbreviation normal_ecosystem :: "externals \<Rightarrow> string \<Rightarrow> string" where
  "normal_ecosystem E e \<equiv> ToLower E (TrimSpace e)"

text \<open>The ecosystems of a list of acknowledgements that an adapter can really provide for.\<close>

definition acknowledgedSources :: "externals \<Rightarrow> (string \<Rightarrow> bool) \<Rightarrow> string list \<Rightarrow> string list" where
  "acknowledgedSources E capable sources =
     filter (\<lambda>e. e \<noteq> [] \<and> capable e) (map (normal_ecosystem E) sources)"

definition provenanceBound ::
  "(string \<Rightarrow> bool) option \<Rightarrow> string list \<Rightarrow> string list \<Rightarrow> string \<Rightarrow> bool" where
  "provenanceBound bound approximate observed ecosystem \<longleftrightarrow>
     SupportsMinimumReleaseAge ecosystem \<or> (case bound of Some f \<Rightarrow> f ecosystem | None \<Rightarrow> False) \<or>
     ecosystem \<in> set approximate \<or> ecosystem \<in> set observed"

text \<open>The loop over the configured thresholds; all its rejections are errors without a sentinel.\<close>

fun thresholdLoop ::
  "(string \<Rightarrow> nat \<Rightarrow> nat) \<Rightarrow> externals \<Rightarrow> bool \<Rightarrow> (string \<Rightarrow> bool) \<Rightarrow> (string \<times> string) list \<Rightarrow>
   (string \<rightharpoonup> int) \<Rightarrow> int \<Rightarrow> gerror + (string \<rightharpoonup> int) \<times> int" where
  "thresholdLoop F E enabled isBound [] thresholds defaultThreshold = Inr (thresholds, defaultThreshold)"
| "thresholdLoop F E enabled isBound ((key, value) # rest) thresholds defaultThreshold =
     bind_err (quarantine_ParseDuration F value) (\<lambda>dur.
       let normalizedKey = normal_ecosystem E key in
       if normalizedKey = ''default'' then
         (if enabled \<and> dur > 0 then Inl plain_error
          else thresholdLoop F E enabled isBound rest thresholds dur)
       else if enabled \<and> dur > 0 \<and> \<not> isBound normalizedKey then Inl plain_error
       else thresholdLoop F E enabled isBound rest (thresholds(normalizedKey \<mapsto> dur)) defaultThreshold)"

definition parseMode :: "externals \<Rightarrow> string \<Rightarrow> gerror + Mode" where
  "parseMode E text =
     (let m = ToLower E (TrimSpace text) in
      if m = [] \<or> m = ''block'' then Inr ModeBlock
      else if m = ''warn'' then Inr ModeWarn
      else if m = ''serve_last_eligible'' then Inr ModeServeLastEligible
      else Inl plain_error)"

definition NewPolicyWithProvenance ::
  "(string \<Rightarrow> nat \<Rightarrow> nat) \<Rightarrow> externals \<Rightarrow> Config \<Rightarrow> (string \<Rightarrow> bool) option \<Rightarrow> gerror + Policy" where
  "NewPolicyWithProvenance F E cfg bound =
     (let enabled = (case qc_MinReleaseAgeEnabled cfg of Some b \<Rightarrow> b | None \<Rightarrow> qc_MinReleaseAge cfg \<noteq> []);
          approximate = acknowledgedSources E approximateCapable (qc_ApproximateSources cfg);
          observed = acknowledgedSources E observationCapable (qc_ObservationSources cfg) in
      bind_err (thresholdLoop F E enabled (provenanceBound bound approximate observed) (qc_MinReleaseAge cfg)
          DefaultThresholds 0) (\<lambda>(thresholds, defaultThreshold).
        bind_err (parseMode E (qc_Mode cfg)) (\<lambda>mode.
          bind_err (ParseAllowList E (qc_Allow cfg)) (\<lambda>allow.
            Inr \<lparr>qp_ageGateEnabled = enabled, qp_sourceProvenanceBound = bound,
              qp_approximateProvenance = approximate, qp_observationProvenance = observed,
              qp_Thresholds = thresholds, qp_Default = defaultThreshold, qp_Mode = mode,
              qp_Allow = Some allow,
              qp_FailClosed = (case qc_FailClosed cfg of Some b \<Rightarrow> b | None \<Rightarrow> True)\<rparr>))))"

definition NewPolicy :: "(string \<Rightarrow> nat \<Rightarrow> nat) \<Rightarrow> externals \<Rightarrow> Config \<Rightarrow> gerror + Policy" where
  "NewPolicy F E cfg = NewPolicyWithProvenance F E cfg None"

text \<open>The methods; a nil policy is \<open>None\<close>.\<close>

definition SourceProvenanceBound :: "externals \<Rightarrow> Policy option \<Rightarrow> string \<Rightarrow> bool" where
  "SourceProvenanceBound E po ecosystem \<longleftrightarrow>
     (case po of
        None \<Rightarrow> False
      | Some p \<Rightarrow> provenanceBound (qp_sourceProvenanceBound p) (qp_approximateProvenance p)
          (qp_observationProvenance p) (normal_ecosystem E ecosystem))"

definition ApproximateProvenance :: "externals \<Rightarrow> Policy option \<Rightarrow> string \<Rightarrow> bool" where
  "ApproximateProvenance E po ecosystem \<longleftrightarrow>
     (case po of None \<Rightarrow> False | Some p \<Rightarrow> normal_ecosystem E ecosystem \<in> set (qp_approximateProvenance p))"

definition ObservationProvenance :: "externals \<Rightarrow> Policy option \<Rightarrow> string \<Rightarrow> bool" where
  "ObservationProvenance E po ecosystem \<longleftrightarrow>
     (case po of None \<Rightarrow> False | Some p \<Rightarrow> normal_ecosystem E ecosystem \<in> set (qp_observationProvenance p))"

definition Threshold :: "externals \<Rightarrow> Policy option \<Rightarrow> string \<Rightarrow> int" where
  "Threshold E po ecosystem =
     (case po of
        None \<Rightarrow> 0
      | Some p \<Rightarrow>
          if \<not> qp_ageGateEnabled p then 0
          else if \<not> SourceProvenanceBound E po (normal_ecosystem E ecosystem) then 0
          else (case qp_Thresholds p (normal_ecosystem E ecosystem) of Some d \<Rightarrow> d | None \<Rightarrow> qp_Default p))"

definition policy_Enabled :: "externals \<Rightarrow> Policy option \<Rightarrow> string \<Rightarrow> bool" where
  "policy_Enabled E po ecosystem \<longleftrightarrow> Threshold E po ecosystem > 0"

definition IsAgeGateEnabled :: "Policy option \<Rightarrow> bool" where
  "IsAgeGateEnabled po \<longleftrightarrow> (case po of None \<Rightarrow> False | Some p \<Rightarrow> qp_ageGateEnabled p)"

text \<open>The loop visits the keys of the map; \<open>keys\<close> lists them.\<close>

definition HasActiveThresholds :: "externals \<Rightarrow> string list \<Rightarrow> Policy option \<Rightarrow> bool" where
  "HasActiveThresholds E keys po \<longleftrightarrow>
     (case po of
        None \<Rightarrow> False
      | Some p \<Rightarrow> qp_ageGateEnabled p \<and> list_ex (\<lambda>e. Threshold E po e > 0) keys)"

subsection \<open>Ecosystem names\<close>

lemma normal_ecosystem_idem:
  assumes "is_ascii s"
  shows "normal_ecosystem E (normal_ecosystem E s) = normal_ecosystem E s"
proof -
  have a: "is_ascii (TrimSpace s)" using assms by (rule is_ascii_TrimSpace)
  then show ?thesis by (simp add: ToLower_ascii TrimSpace_lowerASCII)
qed

subsection \<open>Thresholds\<close>

lemma thresholdLoop_other:
  assumes "thresholdLoop F E enabled isBound entries th df = Inr (T, D)"
    and "key \<notin> set (map (normal_ecosystem E \<circ> fst) entries) \<or> key = ''default''"
  shows "T key = th key"
  using assms
proof (induction entries arbitrary: th df)
  case (Cons kv entries)
  obtain k v where kv: "kv = (k, v)" by fastforce
  then show ?case using Cons by (auto simp: Let_def split: if_splits)
qed simp

lemma thresholdLoop_entry:
  assumes "thresholdLoop F E enabled isBound entries th df = Inr (T, D)"
    and "distinct (map (normal_ecosystem E \<circ> fst) entries)" and "(k, v) \<in> set entries"
    and "quarantine_ParseDuration F v = Inr d"
  shows "if normal_ecosystem E k = ''default'' then \<not> (enabled \<and> d > 0)
    else T (normal_ecosystem E k) = Some d \<and> (enabled \<and> d > 0 \<longrightarrow> isBound (normal_ecosystem E k))"
  using assms
proof (induction entries arbitrary: th df)
  case (Cons kv entries)
  obtain k' v' where kv: "kv = (k', v')" by fastforce
  show ?case
  proof (cases "(k, v) \<in> set entries")
    case True
    then show ?thesis using Cons kv by (auto simp: Let_def split: if_splits)
  next
    case False
    then have kv: "kv = (k, v)" using Cons.prems(3) by simp
    then show ?thesis
      using Cons.prems thresholdLoop_other [of F E enabled isBound entries "th(normal_ecosystem E k \<mapsto> d)" df T D]
      by (auto simp: Let_def split: if_splits)
  qed
qed simp

lemma thresholdLoop_default:
  "thresholdLoop F E True isBound entries th df = Inr (T, D) \<Longrightarrow> df \<le> 0 \<Longrightarrow> D \<le> 0"
  by (induction entries arbitrary: th df) (auto simp: Let_def split: if_splits)

lemma thresholdLoop_parsed:
  "thresholdLoop F E enabled isBound entries th df = Inr (T, D) \<Longrightarrow> (k, v) \<in> set entries \<Longrightarrow>
     is_Inr (quarantine_ParseDuration F v)"
  by (induction entries arbitrary: th df) (auto simp: Let_def is_Inr_iff split: if_splits)

lemma distinct_map_unique: "distinct (map f xs) \<Longrightarrow> x \<in> set xs \<Longrightarrow> y \<in> set xs \<Longrightarrow> f x = f y \<Longrightarrow> x = y"
  by (auto simp: distinct_map dest: inj_onD)

text \<open>What the constructor guarantees of its fields.\<close>

lemma NewPolicy_fields:
  assumes "NewPolicyWithProvenance F E cfg bound = Inr p"
  shows "thresholdLoop F E (qp_ageGateEnabled p)
      (provenanceBound (qp_sourceProvenanceBound p) (qp_approximateProvenance p) (qp_observationProvenance p))
      (qc_MinReleaseAge cfg) DefaultThresholds 0 = Inr (qp_Thresholds p, qp_Default p)"
    and "qp_Mode p \<in> {ModeBlock, ModeWarn, ModeServeLastEligible}"
    and "\<exists>allow. ParseAllowList E (qc_Allow cfg) = Inr allow \<and> qp_Allow p = Some allow"
  using assms by (auto simp: NewPolicyWithProvenance_def parseMode_def Let_def split: if_splits)

text \<open>
  A configured age is enforced exactly as configured, or the proxy does not start. For a
  policy that the constructor accepts, and an ecosystem whose name is ASCII in any spelling,
  the effective threshold is a positive \<open>d\<close> exactly when the gate is on and the configuration
  has an entry for that ecosystem that reads as \<open>d\<close>: no positive entry is dropped because its
  provenance is not bound, and no threshold appears that was not configured. The loop over the
  Go map may visit the entries in any order, as long as no two keys name one ecosystem.
\<close>

theorem thresholds_enforced_exactly:
  assumes "NewPolicyWithProvenance F E cfg bound = Inr p"
    and "distinct (map (normal_ecosystem E \<circ> fst) (qc_MinReleaseAge cfg))"
    and "is_ascii ecosystem" and "normal_ecosystem E ecosystem \<noteq> ''default''" and "d > 0"
  shows "Threshold E (Some p) ecosystem = d \<longleftrightarrow>
    qp_ageGateEnabled p \<and> (\<exists>(key, value) \<in> set (qc_MinReleaseAge cfg).
      normal_ecosystem E key = normal_ecosystem E ecosystem \<and> quarantine_ParseDuration F value = Inr d)"
proof (cases "qp_ageGateEnabled p")
  case True
  let ?n = "normal_ecosystem E ecosystem"
  have loop: "thresholdLoop F E True
      (provenanceBound (qp_sourceProvenanceBound p) (qp_approximateProvenance p) (qp_observationProvenance p))
      (qc_MinReleaseAge cfg) DefaultThresholds 0 = Inr (qp_Thresholds p, qp_Default p)"
    using NewPolicy_fields(1) [OF assms(1)] True by simp
  have T: "Threshold E (Some p) ecosystem =
    (if provenanceBound (qp_sourceProvenanceBound p) (qp_approximateProvenance p) (qp_observationProvenance p) ?n
     then (case qp_Thresholds p ?n of Some d \<Rightarrow> d | None \<Rightarrow> qp_Default p) else 0)"
    using True by (simp add: Threshold_def SourceProvenanceBound_def normal_ecosystem_idem [OF assms(3)])
  show ?thesis
  proof (cases "\<exists>(k, v) \<in> set (qc_MinReleaseAge cfg). normal_ecosystem E k = ?n")
    case True
    then obtain k v where kv: "(k, v) \<in> set (qc_MinReleaseAge cfg)" "normal_ecosystem E k = ?n" by auto
    obtain d' where d': "quarantine_ParseDuration F v = Inr d'"
      using thresholdLoop_parsed [OF loop kv(1)] by (auto simp: is_Inr_iff)
    have e: "qp_Thresholds p ?n = Some d'"
      "d' > 0 \<longrightarrow> provenanceBound (qp_sourceProvenanceBound p) (qp_approximateProvenance p) (qp_observationProvenance p) ?n"
      using thresholdLoop_entry [OF loop assms(2) kv(1) d'] kv(2) assms(4) by simp_all
    have "v' = v" if "(k', v') \<in> set (qc_MinReleaseAge cfg)" "normal_ecosystem E k' = ?n" for k' v'
      using distinct_map_unique [OF assms(2) that(1) kv(1)] that(2) kv(2) by simp
    then have "d' = d" if "(k', v') \<in> set (qc_MinReleaseAge cfg)" "normal_ecosystem E k' = ?n"
        "quarantine_ParseDuration F v' = Inr d" for k' v'
      using that d' by (metis sum.inject(2))
    then have unique: "(\<exists>(k', v') \<in> set (qc_MinReleaseAge cfg). normal_ecosystem E k' = ?n \<and>
        quarantine_ParseDuration F v' = Inr d) \<longleftrightarrow> d' = d"
      using kv d' by blast
    have "Threshold E (Some p) ecosystem = d \<longleftrightarrow> d' = d" using T e assms(5) by auto
    then show ?thesis using unique \<open>qp_ageGateEnabled p\<close> by blast
  next
    case False
    then have "?n \<notin> set (map (normal_ecosystem E \<circ> fst) (qc_MinReleaseAge cfg))" by auto
    then have "qp_Thresholds p ?n = DefaultThresholds ?n" using thresholdLoop_other [OF loop] by blast
    then have "Threshold E (Some p) ecosystem \<le> 0"
      using T thresholdLoop_default [OF loop] by (auto simp: DefaultThresholds_def split: option.split)
    then show ?thesis using False assms(5) by auto
  qed
next
  case False
  then show ?thesis using assms(5) by (simp add: Threshold_def)
qed

text \<open>A sample configuration: two weeks for \<open>conda\<close>, acknowledged, and an exempted scope.\<close>

definition sample_config :: Config where
  "sample_config = \<lparr>qc_MinReleaseAgeEnabled = Some True, qc_MinReleaseAge = [(''Conda'', ''2w''), (''npm'', ''0'')],
     qc_ApproximateSources = [''conda''], qc_ObservationSources = [], qc_Mode = [],
     qc_Allow = [''conda:conda-forge/numpy==1.0'', ''npm:@acme/*''], qc_FailClosed = None\<rparr>"

abbreviation no_fraction :: "string \<Rightarrow> nat \<Rightarrow> nat" where
  "no_fraction \<equiv> \<lambda>fs unit. 0"

theorem thresholds_enforced_exactly_witness:
  "\<exists>p. NewPolicyWithProvenance no_fraction ascii_externals sample_config None = Inr p \<and>
     Threshold ascii_externals (Some p) ''conda'' = 14 * 24 * hour"
proof -
  have ok: "is_Inr (NewPolicyWithProvenance no_fraction ascii_externals sample_config None)" by code_simp
  then obtain p where p: "NewPolicyWithProvenance no_fraction ascii_externals sample_config None = Inr p"
    unfolding is_Inr_iff by blast
  have "case NewPolicyWithProvenance no_fraction ascii_externals sample_config None of
      Inr q \<Rightarrow> qp_ageGateEnabled q | _ \<Rightarrow> False" by code_simp
  then have "qp_ageGateEnabled p" using p by simp
  moreover have "distinct (map (normal_ecosystem ascii_externals \<circ> fst) (qc_MinReleaseAge sample_config))"
    "is_ascii ''conda''" "normal_ecosystem ascii_externals ''conda'' \<noteq> ''default''"
    "normal_ecosystem ascii_externals ''Conda'' = normal_ecosystem ascii_externals ''conda''"
    "quarantine_ParseDuration no_fraction ''2w'' = Inr (14 * 24 * hour)" "14 * 24 * hour > 0"
    "(''Conda'', ''2w'') \<in> set (qc_MinReleaseAge sample_config)" by code_simp+
  ultimately show ?thesis
    using thresholds_enforced_exactly [OF p, of "''conda''" "14 * 24 * hour"] p by blast
qed

subsection \<open>Ages in days\<close>

lemma TrimSpace_digit_d:
  assumes "is_ascii s" and "s \<noteq> []" and "\<not> IsSpace (byte (hd s))"
  shows "TrimSpace (s @ ''d'') = s @ ''d''"
proof -
  obtain c cs where "s = c # cs" "\<not> IsSpace (byte c)" using assms(2,3) by (cases s) auto
  then have "dropWhile (\<lambda>c. IsSpace (byte c)) (s @ ''d'') = s @ ''d''" by simp
  moreover have "\<not> IsSpace (byte CHR ''d'')" by code_simp
  moreover have "is_ascii ''d''" by code_simp
  ultimately show ?thesis using assms(1) TrimSpace_ascii [of "s @ ''d''"] by (simp del: is_ascii_simps(2))
qed

lemma wrap64_day: "0 \<le> n \<Longrightarrow> wrap64 (n * (24 * hour)) = n * (24 * hour) \<longleftrightarrow> n \<le> 106751"
  using wrap64_bounds(2) [of "n * (24 * hour)"] wrap64_id [of "n * (24 * hour)"]
  by (auto simp: hour_def)

text \<open>
  What an age in days means. The value of \<open><digits><rest>d\<close> is the number that its leading
  digits spell, times one day, in the wrapping arithmetic of 64 bits; whatever stands between
  the digits and the suffix is ignored. The value is the intended one exactly up to 106751
  days. Larger ages wrap around without an error, and a fraction is cut off without an error.
\<close>

theorem day_age_value:
  assumes "ds \<noteq> []" and "list_all isASCIIDigit ds" and "decimal_value 0 ds < 2 ^ 63"
    and "rest = [] \<or> \<not> isASCIIDigit (hd rest)" and "is_ascii rest"
  shows "quarantine_ParseDuration F (ds @ rest @ ''d'') = Inr (wrap64 (int (decimal_value 0 ds) * (24 * hour))) \<and>
    (wrap64 (int (decimal_value 0 ds) * (24 * hour)) = int (decimal_value 0 ds) * (24 * hour) \<longleftrightarrow>
       decimal_value 0 ds \<le> 106751)"
proof -
  obtain c cs where c: "ds = c # cs" "isASCIIDigit c" using assms(1,2) by (cases ds) auto
  then have "\<not> IsSpace (byte c)" by (auto simp: isASCIIDigit_def IsSpace_def)
  moreover have "is_ascii (ds @ rest)"
    using assms(2,5) byte_class_ascii(1) by (auto simp: is_ascii_def list_all_iff)
  ultimately have "TrimSpace ((ds @ rest) @ ''d'') = (ds @ rest) @ ''d''"
    using TrimSpace_digit_d [of "ds @ rest"] c(1) by simp
  moreover have "butlast ((ds @ rest) @ ''d'') = ds @ rest" "last ((ds @ rest) @ ''d'') = CHR ''d''"
    "(ds @ rest) @ ''d'' \<noteq> ''0''" "24 * hour > 0"
    using assms(1) by (simp_all only: butlast_snoc last_snoc) (auto simp: append_eq_Cons_conv hour_def)
  ultimately have "quarantine_ParseDuration F ((ds @ rest) @ ''d'') =
      Inr (wrap64 (int (decimal_value 0 ds) * (24 * hour)))"
    using Sscanf_d_digits [OF assms(1-4)] by (simp add: quarantine_ParseDuration_def Let_def del: append_assoc)
  then show ?thesis using wrap64_day [of "int (decimal_value 0 ds)"] by simp
qed

theorem day_age_value_witness:
  "quarantine_ParseDuration no_fraction ''1.5d'' = Inr (24 * hour) \<and>
   quarantine_ParseDuration no_fraction ''106752d'' = Inr (wrap64 (106752 * (24 * hour))) \<and>
   wrap64 (106752 * (24 * hour)) < 0"
proof -
  have "wrap64 (106752 * (24 * hour)) < 0" "wrap64 (int (decimal_value 0 ''1'') * (24 * hour)) = 24 * hour"
    "decimal_value 0 ''1'' < 2 ^ 63" "list_all isASCIIDigit ''1''" "\<not> isASCIIDigit CHR ''.''" "is_ascii ''.5''"
    "decimal_value 0 ''106752'' = 106752" "list_all isASCIIDigit ''106752''" by code_simp+
  then show ?thesis
    using day_age_value [of "''1''" "''.5''" no_fraction] day_age_value [of "''106752''" "[]" no_fraction] by simp
qed

subsection \<open>The meaning of the bypass rules\<close>

definition bypasses :: "externals \<Rightarrow> allowEntry \<Rightarrow> string \<Rightarrow> string \<Rightarrow> bool" where
  "bypasses E entry n version \<longleftrightarrow>
     (if ae_packageGlob entry then path_Match (ae_packageName entry) n = Inr True
      else ae_packageName entry = n \<and> version \<noteq> [] \<and> Match E (ae_versionMatcher entry) version = Inr True)"

lemma parseVersionEntry_Inr:
  assumes "parseVersionEntry E ecosystem d rule operator index = Inr entry"
  shows "ae_ecosystem entry = ecosystem" and "ae_dialect entry = d"
    and "ecosystem \<notin> {''apt'', ''composer'', ''rubygems'', ''helm''}"
proof -
  have c: "quarantineAllowVersionCapability ecosystem d \<noteq> quarantineVersionsPackageOnly"
    using assms by (auto simp: parseVersionEntry_def Let_def split: if_splits)
  show "ae_ecosystem entry = ecosystem" "ae_dialect entry = d"
    using assms by (auto simp: parseVersionEntry_def Let_def split: if_splits)
  show "ecosystem \<notin> {''apt'', ''composer'', ''rubygems'', ''helm''}"
    using c by (auto simp: quarantineAllowVersionCapability_def)
qed

lemma parseAllowEntry_Inr:
  assumes "parseAllowEntry E raw = Inr entry"
  shows "DialectFor E (ae_ecosystem entry) = Inr (ae_dialect entry) \<and>
    (\<not> ae_packageGlob entry \<longrightarrow> ae_ecosystem entry \<notin> {''apt'', ''composer'', ''rubygems'', ''helm''})"
proof -
  obtain colon where "IndexByte raw CHR '':'' = Some colon" using assms
    by (cases "IndexByte raw CHR '':''") (simp_all add: parseAllowEntry_def)
  then obtain eco rule d where d: "DialectFor E eco = Inr d"
    "(case firstOperator allowOperators rule of
        Some (operator, index) \<Rightarrow> parseVersionEntry E eco d rule operator index
      | None \<Rightarrow> bind_err (NormalizePackageGlob E d rule) (\<lambda>pattern.
          Inr \<lparr>ae_ecosystem = eco, ae_dialect = d, ae_packageName = pattern,
            ae_packageGlob = True, ae_versionMatcher = anyVersionMatcher\<rparr>)) = Inr entry"
    using assms by (auto simp: parseAllowEntry_def Let_def split: if_splits)
  show ?thesis
  proof (cases "firstOperator allowOperators rule")
    case None
    then show ?thesis using d by auto
  next
    case (Some oi)
    obtain operator index where "oi = (operator, index)" by fastforce
    then have "parseVersionEntry E eco d rule operator index = Inr entry" using d(2) Some by simp
    from parseVersionEntry_Inr [OF this] show ?thesis using d(1) by simp
  qed
qed

lemma ParseAllowList_entries:
  "ParseAllowList E rules = Inr entries \<Longrightarrow> entry \<in> set entries \<Longrightarrow>
     DialectFor E (ae_ecosystem entry) = Inr (ae_dialect entry) \<and>
     (\<not> ae_packageGlob entry \<longrightarrow> ae_ecosystem entry \<notin> {''apt'', ''composer'', ''rubygems'', ''helm''})"
proof (induction rules arbitrary: entries)
  case (Cons raw rules)
  then show ?case by (auto dest: parseAllowEntry_Inr split: if_splits)
qed simp

lemma allowLoop_known:
  "allowLoop E entries eco pkg version (Some n) \<longleftrightarrow>
     (\<exists>entry \<in> set entries. ae_ecosystem entry = eco \<and> bypasses E entry n version)"
  by (induction entries) (auto simp: bypasses_def)

lemma allowLoop_meaning:
  assumes "\<forall>entry \<in> set entries. ae_ecosystem entry = eco \<longrightarrow> ae_dialect entry = d"
  shows "allowLoop E entries eco pkg version None \<longleftrightarrow>
    (\<exists>n. NormalizePackageName E d pkg = Inr n \<and>
       (\<exists>entry \<in> set entries. ae_ecosystem entry = eco \<and> bypasses E entry n version))"
  using assms
proof (induction entries)
  case (Cons entry entries)
  show ?case
  proof (cases "ae_ecosystem entry = eco")
    case True
    then have "ae_dialect entry = d" using Cons.prems by simp
    then show ?thesis using True
      by (cases "NormalizePackageName E d pkg") (auto simp: allowLoop_known bypasses_def)
  next
    case False
    then show ?thesis using Cons by auto
  qed
qed simp

text \<open>
  The bypass list means what its entries say. A parsed list exempts a coordinate exactly
  when the package name is valid in its ecosystem and some entry of that ecosystem either is a
  glob that matches the normalised name, or names it exactly and its version selector accepts
  the known version: the order of the entries does not matter, an unknown version never meets a
  version rule, and no version rule exists for an ecosystem whose versions are not
  authenticated.
\<close>

theorem allow_list_meaning:
  assumes "ParseAllowList E rules = Inr entries"
    and "DialectFor E (normal_ecosystem E ecosystem) = Inr d"
  shows "(AllowList_Match E (Some entries) ecosystem pkg version \<longleftrightarrow>
      (\<exists>n. NormalizePackageName E d pkg = Inr n \<and>
         (\<exists>entry \<in> set entries. ae_ecosystem entry = normal_ecosystem E ecosystem \<and>
            (if ae_packageGlob entry then path_Match (ae_packageName entry) n = Inr True
             else ae_packageName entry = n \<and> version \<noteq> [] \<and> Match E (ae_versionMatcher entry) version = Inr True)))) \<and>
    (\<forall>entry \<in> set entries. \<not> ae_packageGlob entry \<longrightarrow>
       ae_ecosystem entry \<notin> {''apt'', ''composer'', ''rubygems'', ''helm''})"
proof -
  have "\<forall>entry \<in> set entries. ae_ecosystem entry = normal_ecosystem E ecosystem \<longrightarrow> ae_dialect entry = d"
    using ParseAllowList_entries [OF assms(1)] assms(2) by fastforce
  from allowLoop_meaning [OF this] show ?thesis
    using ParseAllowList_entries [OF assms(1)] by (auto simp: AllowList_Match_def bypasses_def)
qed

theorem allow_list_meaning_witness:
  "\<exists>n entry. NormalizePackageName ascii_externals (npmDialect ascii_externals) ''left-pad'' = Inr n \<and>
     entry \<in> set (projr (ParseAllowList ascii_externals [''pypi:six'', ''NPM: left-pad >=1.0.0''])) \<and>
     ae_ecosystem entry = ''npm''"
proof -
  let ?es = "projr (ParseAllowList ascii_externals [''pypi:six'', ''NPM: left-pad >=1.0.0''])"
  have "is_Inr (ParseAllowList ascii_externals [''pypi:six'', ''NPM: left-pad >=1.0.0''])" by code_simp
  then have p: "ParseAllowList ascii_externals [''pypi:six'', ''NPM: left-pad >=1.0.0''] = Inr ?es"
    unfolding is_Inr_iff by (metis sum.sel(2))
  have n: "normal_ecosystem ascii_externals ''npm'' = ''npm''" by code_simp
  have d: "DialectFor ascii_externals (normal_ecosystem ascii_externals ''npm'') = Inr (npmDialect ascii_externals)"
    unfolding n by (simp add: DialectFor_def dialectForRevision1_def n)
  have "AllowList_Match ascii_externals (Some ?es) ''npm'' ''left-pad'' ''1.2.0''" by code_simp
  then show ?thesis using allow_list_meaning [OF p d, of "''left-pad''" "''1.2.0''"] unfolding n by blast
qed

end
