(* ===== verification/Quarantine_Lookup.thy ===== *)
theory Quarantine_Lookup
  imports Quarantine_Policy
begin

text \<open>
  \<open>internal/quarantine/lookup.go\<close>: the publish time of a version through three tiers, a map in
  memory, the database and the resolver of the ecosystem. One call is described by the answers
  of the tiers it may ask (\<open>lookup_env\<close>); \<open>singleflight\<close> only merges concurrent calls of one key
  into one. The map is an association list with distinct keys; a successful call also says what
  it writes to the database.
\<close>

type_synonym publish = "gerror + int"

record LookupState =
  lk_store :: bool                                 \<comment> \<open>the store pointer is not nil\<close>
  lk_mem :: "(string \<times> publish) list"

record lookup_env =
  le_db :: "gerror + int option"                   \<comment> \<open>\<open>LookupTimestamp\<close>; \<open>None\<close> is \<open>ok = false\<close>\<close>
  le_resolver :: "publish option"                  \<comment> \<open>the resolver's answer; \<open>None\<close> without a resolver\<close>

definition memLimit :: nat where "memLimit = 4096"

definition memKey :: "string \<Rightarrow> string \<Rightarrow> string \<Rightarrow> string" where
  "memKey ecosystem pkg version = ecosystem @ [CHR 0x00] @ pkg @ [CHR 0x00] @ version"

definition NewLookup :: "bool \<Rightarrow> LookupState" where
  "NewLookup store = \<lparr>lk_store = store, lk_mem = []\<rparr>"

definition memorize :: "string \<Rightarrow> publish \<Rightarrow> LookupState \<Rightarrow> LookupState" where
  "memorize key entry l =
     (let mem = (if length (lk_mem l) \<ge> memLimit then [] else lk_mem l) in
      l\<lparr>lk_mem := (key, entry) # filter (\<lambda>p. fst p \<noteq> key) mem\<rparr>)"

definition fetchUpstream :: "lookup_env \<Rightarrow> publish" where
  "fetchUpstream env =
     (case le_resolver env of
        None \<Rightarrow> Inl [ErrUnsupported]
      | Some answer \<Rightarrow> answer)"

text \<open>The result is the new map, the answer, and the time saved in the database, if any.\<close>

definition lookup_Get ::
  "externals \<Rightarrow> lookup_env \<Rightarrow> LookupState option \<Rightarrow> string \<Rightarrow> string \<Rightarrow> string \<Rightarrow> LookupState option \<times> publish \<times> int option" where
  "lookup_Get E env lo ecosystem0 pkg version =
     (case lo of
        None \<Rightarrow> (None, Inl [ErrUnsupported], None)
      | Some l \<Rightarrow>
          (let ecosystem = ToLower E ecosystem0; key = memKey ecosystem pkg version in
           case map_of (lk_mem l) key of
             Some entry \<Rightarrow> (Some l, entry, None)
           | None \<Rightarrow>
               (case (if lk_store l then le_db env else Inr None) of
                  Inr (Some t) \<Rightarrow> (Some (memorize key (Inr t) l), Inr t, None)
                | _ \<Rightarrow>
                    (case fetchUpstream env of
                       Inl err \<Rightarrow> (Some (memorize key (Inl err) l), Inl err, None)
                     | Inr t \<Rightarrow> (Some (memorize key (Inr t) l), Inr t, if lk_store l then Some t else None)))))"

subsection \<open>Facts\<close>

lemma map_of_filter_other: "k \<noteq> key \<Longrightarrow> map_of (filter (\<lambda>p. fst p \<noteq> key) m) k = map_of m k"
  by (induction m) auto

lemma memorize_lookup:
  "map_of (lk_mem (memorize key entry l)) k =
     (if k = key then Some entry else if length (lk_mem l) \<ge> memLimit then None else map_of (lk_mem l) k)"
  by (simp add: memorize_def Let_def map_of_filter_other)

lemma memorize_length: "length (lk_mem l) < memLimit \<Longrightarrow> length (lk_mem (memorize key entry l)) \<le> Suc (length (lk_mem l))"
  by (simp add: memorize_def Let_def)

definition mem_ok :: "LookupState \<Rightarrow> bool" where
  "mem_ok l \<longleftrightarrow> distinct (map fst (lk_mem l)) \<and> length (lk_mem l) \<le> memLimit"

lemma memorize_ok: "mem_ok l \<Longrightarrow> mem_ok (memorize key entry l)"
proof -
  assume ok: "mem_ok l"
  have "distinct (map fst (filter P m))" if "distinct (map fst m)" for P and m :: "(string \<times> publish) list"
    using that by (rule distinct_map_filter)
  moreover have "length (filter (\<lambda>p. fst p \<noteq> key) (lk_mem l)) \<le> length (lk_mem l)" by simp
  ultimately show ?thesis using ok by (auto simp: mem_ok_def memorize_def Let_def memLimit_def simp del: length_filter_le)
qed

text \<open>What a call does to the map: nothing, or it remembers its answer under its key.\<close>

lemma Get_effect:
  assumes "lookup_Get E env (Some l) ecosystem pkg version = (lo, answer, saved)"
  shows "(lo = Some l \<and> map_of (lk_mem l) (memKey (ToLower E ecosystem) pkg version) = Some answer) \<or>
    (lo = Some (memorize (memKey (ToLower E ecosystem) pkg version) answer l) \<and>
       map_of (lk_mem l) (memKey (ToLower E ecosystem) pkg version) = None)"
  using assms by (auto simp: lookup_Get_def Let_def split: option.split_asm sum.split_asm if_splits)

text \<open>A sequence of calls with their coordinates.\<close>

type_synonym lookup_call = "lookup_env \<times> string \<times> string \<times> string"

fun lookup_run :: "externals \<Rightarrow> lookup_call list \<Rightarrow> LookupState option \<Rightarrow> LookupState option" where
  "lookup_run E [] lo = lo"
| "lookup_run E ((env, ecosystem, pkg, version) # calls) lo =
     lookup_run E calls (fst (lookup_Get E env lo ecosystem pkg version))"

lemma run_keeps:
  assumes "map_of (lk_mem l) key = Some answer" and "length (lk_mem l) + length calls \<le> memLimit"
  shows "\<exists>l'. lookup_run E calls (Some l) = Some l' \<and> map_of (lk_mem l') key = Some answer"
  using assms
proof (induction calls arbitrary: l)
  case (Cons call calls)
  obtain env ecosystem pkg version where call: "call = (env, ecosystem, pkg, version)" by (cases call)
  obtain lo answer' saved where get: "lookup_Get E env (Some l) ecosystem pkg version = (lo, answer', saved)"
    by (meson prod_cases3)
  let ?k = "memKey (ToLower E ecosystem) pkg version"
  consider "lo = Some l" | "lo = Some (memorize ?k answer' l)" "map_of (lk_mem l) ?k = None"
    using Get_effect [OF get] by (elim disjE) auto
  then show ?case
  proof cases
    case 1
    then show ?thesis using Cons call get by simp
  next
    case 2
    then have "key \<noteq> ?k" using Cons.prems(1) by auto
    moreover have "length (lk_mem l) < memLimit" using Cons.prems(2) by simp
    ultimately have "map_of (lk_mem (memorize ?k answer' l)) key = Some answer"
      "length (lk_mem (memorize ?k answer' l)) + length calls \<le> memLimit"
      using Cons.prems memorize_lookup [of ?k answer' l key] memorize_length [of l ?k answer'] by simp_all
    then show ?thesis using Cons.IH [of "memorize ?k answer' l"] 2 call get by simp
  qed
qed simp

text \<open>
  The memory tier is sound for answers and keeps errors. A time that a call returned is
  returned again, without asking the database or the registry, and so is every error: after a
  call that failed because the registry was unavailable, each later call for the coordinate
  fails with the same error, whatever the registry and the database now say, until the map has
  taken 4096 entries. The documentation of the function announces this for versions that were
  not found only.
\<close>

theorem lookup_answer_sticks:
  assumes "lookup_Get E env (Some l) ecosystem pkg version = (Some l', answer, saved)"
    and "length (lk_mem l') + length calls \<le> 4096" and "lookup_run E calls (Some l') = lo"
  shows "lookup_Get E env' lo ecosystem pkg version = (lo, answer, None)"
proof -
  let ?k = "memKey (ToLower E ecosystem) pkg version"
  have "map_of (lk_mem l') ?k = Some answer"
    using Get_effect [OF assms(1)] memorize_lookup [of ?k answer l ?k] by auto
  then obtain l'' where "lo = Some l''" "map_of (lk_mem l'') ?k = Some answer"
    using run_keeps [of l' ?k answer calls E] assms(2,3) by (auto simp: memLimit_def)
  then show ?thesis by (simp add: lookup_Get_def Let_def)
qed

definition outage_env :: lookup_env where
  "outage_env = \<lparr>le_db = Inr None, le_resolver = Some (Inl [ErrUpstreamUnavailable])\<rparr>"

definition healthy_env :: lookup_env where
  "healthy_env = \<lparr>le_db = Inr None, le_resolver = Some (Inr 1000)\<rparr>"

theorem lookup_answer_sticks_witness:
  "fst (snd (lookup_Get ascii_externals healthy_env
     (fst (lookup_Get ascii_externals outage_env (Some (NewLookup True)) ''npm'' ''left-pad'' ''9.9.9''))
     ''npm'' ''left-pad'' ''9.9.9'')) = Inl [ErrUpstreamUnavailable]"
proof -
  let ?r = "lookup_Get ascii_externals outage_env (Some (NewLookup True)) ''npm'' ''left-pad'' ''9.9.9''"
  obtain l' where r: "?r = (Some l', Inl [ErrUpstreamUnavailable], None)" "length (lk_mem l') = 1"
    by (simp add: lookup_Get_def NewLookup_def outage_env_def fetchUpstream_def memorize_def memLimit_def Let_def)
  then show ?thesis using lookup_answer_sticks [OF r(1), of "[]" "Some l'" healthy_env] by simp
qed

end
