(* ===== verification/Quarantine_Store.thy ===== *)
theory Quarantine_Store
  imports Quarantine_Policy
begin

text \<open>
  \<open>internal/quarantine/store.go\<close> and the rows of \<open>internal/db/quarantine.go\<close>: coordinates,
  permanent approvals with their revocation, the event stream and the cached publish times. The
  database is GORM, which is not part of the repository: the calls of the store are the record
  \<open>approval_table\<close>, and their documented behaviour is the hypothesis \<open>approval_table_ok\<close>. A nil
  store, or one without a database, is \<open>None\<close>; a time is a number of nanoseconds.
\<close>

record Coordinate =
  c_Ecosystem :: string
  c_Package :: string
  c_Version :: string

definition NormalizeCoordinate :: "externals \<Rightarrow> string \<Rightarrow> string \<Rightarrow> string \<Rightarrow> gerror + Coordinate" where
  "NormalizeCoordinate E ecosystem0 pkg version0 =
     (let ecosystem = ToLower E (TrimSpace ecosystem0) in
      case DialectFor E ecosystem of
        Inl _ \<Rightarrow> Inl [ErrInvalidCoordinate]
      | Inr dialect \<Rightarrow>
          (case NormalizePackageName E dialect pkg of
             Inl _ \<Rightarrow> Inl [ErrInvalidCoordinate]
           | Inr package \<Rightarrow>
               (case NormalizeVersion E ecosystem version0 of
                  Inl _ \<Rightarrow> Inl [ErrInvalidCoordinate]
                | Inr version \<Rightarrow>
                    if length ecosystem > 32 \<or> length package > 256 \<or> length version > 128
                    then Inl [ErrInvalidCoordinate]
                    else Inr \<lparr>c_Ecosystem = ecosystem, c_Package = package, c_Version = version\<rparr>)))"

definition ActionBlocked :: string where "ActionBlocked = ''blocked''"
definition ActionBypassed :: string where "ActionBypassed = ''bypassed''"
definition ActionApproved :: string where "ActionApproved = ''approved''"
definition ActionRevoked :: string where "ActionRevoked = ''approval_revoked''"
definition ActionWarned :: string where "ActionWarned = ''warned''"
definition ActionMalwareBlocked :: string where "ActionMalwareBlocked = ''malware_blocked''"
definition ActionMalwareBypassed :: string where "ActionMalwareBypassed = ''malware_bypassed''"
definition ActionMalwareWarned :: string where "ActionMalwareWarned = ''malware_warned''"
definition ActionSnapshotBlocked :: string where "ActionSnapshotBlocked = ''snapshot_blocked''"

lemmas action_defs = ActionBlocked_def ActionBypassed_def ActionApproved_def ActionRevoked_def ActionWarned_def
  ActionMalwareBlocked_def ActionMalwareBypassed_def ActionMalwareWarned_def ActionSnapshotBlocked_def

record ApprovedVersion =
  av_ID :: uint
  av_Ecosystem :: string
  av_Package :: string
  av_Version :: string
  av_Reason :: string
  av_ApprovedBy :: uint
  av_CreatedAt :: int

text \<open>\<open>None\<close> is the zero time.\<close>

record QuarantineEvent =
  ev_Ecosystem :: string
  ev_Package :: string
  ev_Version :: string
  ev_Action :: string
  ev_Reason :: string
  ev_Threshold :: int
  ev_AgeAtCall :: int
  ev_ActorID :: uint
  ev_ClientIP :: string
  ev_CreatedAt :: "int option"

subsection \<open>The calls into the database\<close>

record 'db approval_table =
  at_Find :: "string \<Rightarrow> 'db \<Rightarrow> gerror + ApprovedVersion list"      \<comment> \<open>\<open>lower(ecosystem) = ?\<close>\<close>
  at_Delete :: "uint list \<Rightarrow> 'db \<Rightarrow> 'db \<times> gerror option"           \<comment> \<open>\<open>id IN ?\<close>\<close>
  at_Upsert :: "ApprovedVersion \<Rightarrow> 'db \<Rightarrow> 'db \<times> gerror option"
  at_Event :: "QuarantineEvent \<Rightarrow> 'db \<Rightarrow> 'db \<times> gerror option"
  at_Begin :: "'db \<Rightarrow> gerror option"
  at_Commit :: "'db \<Rightarrow> gerror option"
  at_Time :: "string \<times> string \<times> string \<Rightarrow> 'db \<Rightarrow> gerror + int"
  at_SaveTime :: "string \<times> string \<times> string \<Rightarrow> int \<Rightarrow> 'db \<Rightarrow> 'db \<times> gerror option"

text \<open>\<open>Transaction\<close>: a failed body or commit leaves the database as it was.\<close>

definition run_transaction ::
  "'db approval_table \<Rightarrow> ('db \<Rightarrow> 'db \<times> gerror option) \<Rightarrow> 'db \<Rightarrow> 'db \<times> gerror option" where
  "run_transaction T body db =
     (case at_Begin T db of
        Some e \<Rightarrow> (db, Some e)
      | None \<Rightarrow>
          (case body db of
             (_, Some e) \<Rightarrow> (db, Some e)
           | (db', None) \<Rightarrow>
               (case at_Commit T db' of Some e \<Rightarrow> (db, Some e) | None \<Rightarrow> (db', None))))"

definition then_do :: "'db \<times> gerror option \<Rightarrow> ('db \<Rightarrow> 'db \<times> gerror option) \<Rightarrow> 'db \<times> gerror option" where
  "then_do r f = (case r of (db, Some e) \<Rightarrow> (db, Some e) | (db, None) \<Rightarrow> f db)"

definition on_store :: "('db \<Rightarrow> 'db \<times> gerror option) \<Rightarrow> 'db option \<Rightarrow> 'db option \<times> gerror option" where
  "on_store f s = (case s of None \<Rightarrow> (None, None) | Some db \<Rightarrow> (let (db', e) = f db in (Some db', e)))"

subsection \<open>Publish times\<close>

text \<open>\<open>Inr None\<close> is the answer \<open>(zero, false, nil)\<close>.\<close>

definition LookupTimestamp ::
  "'db approval_table \<Rightarrow> 'db option \<Rightarrow> string \<Rightarrow> string \<Rightarrow> string \<Rightarrow> gerror + int option" where
  "LookupTimestamp T s ecosystem pkg version =
     (case s of
        None \<Rightarrow> Inr None
      | Some db \<Rightarrow>
          (case at_Time T (ecosystem, pkg, version) db of
             Inr t \<Rightarrow> Inr (Some t)
           | Inl e \<Rightarrow> if errors_Is e ErrRecordNotFound then Inr None else Inl e))"

definition SaveTimestamp ::
  "'db approval_table \<Rightarrow> 'db option \<Rightarrow> string \<Rightarrow> string \<Rightarrow> string \<Rightarrow> int \<Rightarrow> 'db option \<times> gerror option" where
  "SaveTimestamp T s ecosystem pkg version publishAt =
     on_store (at_SaveTime T (ecosystem, pkg, version) publishAt) s"

subsection \<open>Approvals\<close>

definition approval_matches :: "externals \<Rightarrow> dialect \<Rightarrow> Coordinate \<Rightarrow> ApprovedVersion \<Rightarrow> bool" where
  "approval_matches E dialect target candidate \<longleftrightarrow>
     (case NormalizeCoordinate E (av_Ecosystem candidate) (av_Package candidate) (av_Version candidate) of
        Inl _ \<Rightarrow> False
      | Inr normalized \<Rightarrow>
          c_Package normalized = c_Package target \<and>
          CompareVersions E dialect (c_Version normalized) (c_Version target) = Inr 0)"

definition equivalentApprovalIDs ::
  "externals \<Rightarrow> 'db approval_table \<Rightarrow> 'db \<Rightarrow> Coordinate \<Rightarrow> gerror + uint list" where
  "equivalentApprovalIDs E T db target =
     bind_err (at_Find T (c_Ecosystem target) db) (\<lambda>candidates.
       bind_err (DialectFor E (c_Ecosystem target)) (\<lambda>dialect.
         Inr (map av_ID (filter (approval_matches E dialect target) candidates))))"

definition IsApproved ::
  "externals \<Rightarrow> 'db approval_table \<Rightarrow> 'db option \<Rightarrow> string \<Rightarrow> string \<Rightarrow> string \<Rightarrow> gerror + bool" where
  "IsApproved E T s ecosystem pkg version =
     (case s of
        None \<Rightarrow> Inr False
      | Some db \<Rightarrow>
          bind_err (NormalizeCoordinate E ecosystem pkg version) (\<lambda>coordinate.
            bind_err (equivalentApprovalIDs E T db coordinate) (\<lambda>ids. Inr (ids \<noteq> []))))"

definition admin_event :: "Coordinate \<Rightarrow> string \<Rightarrow> string \<Rightarrow> uint \<Rightarrow> int \<Rightarrow> QuarantineEvent" where
  "admin_event coordinate action reason actorID now =
     \<lparr>ev_Ecosystem = c_Ecosystem coordinate, ev_Package = c_Package coordinate,
      ev_Version = c_Version coordinate, ev_Action = action, ev_Reason = reason,
      ev_Threshold = 0, ev_AgeAtCall = 0, ev_ActorID = actorID, ev_ClientIP = [], ev_CreatedAt = Some now\<rparr>"

definition approve_body ::
  "externals \<Rightarrow> 'db approval_table \<Rightarrow> Coordinate \<Rightarrow> string \<Rightarrow> uint \<Rightarrow> int \<Rightarrow> 'db \<Rightarrow> 'db \<times> gerror option" where
  "approve_body E T coordinate reason actorID now db =
     (case equivalentApprovalIDs E T db coordinate of
        Inl e \<Rightarrow> (db, Some e)
      | Inr ids \<Rightarrow>
          then_do (if ids \<noteq> [] then at_Delete T ids db else (db, None)) (\<lambda>db.
          then_do (at_Upsert T
            \<lparr>av_ID = 0, av_Ecosystem = c_Ecosystem coordinate, av_Package = c_Package coordinate,
             av_Version = c_Version coordinate, av_Reason = reason, av_ApprovedBy = actorID, av_CreatedAt = now\<rparr> db)
          (at_Event T (admin_event coordinate ActionApproved reason actorID now))))"

definition Approve ::
  "externals \<Rightarrow> 'db approval_table \<Rightarrow> int \<Rightarrow> string \<Rightarrow> string \<Rightarrow> string \<Rightarrow> string \<Rightarrow> uint \<Rightarrow>
     'db option \<Rightarrow> 'db option \<times> gerror option" where
  "Approve E T now ecosystem pkg version reason actorID =
     on_store (\<lambda>db.
       case NormalizeCoordinate E ecosystem pkg version of
         Inl e \<Rightarrow> (db, Some e)
       | Inr coordinate \<Rightarrow> run_transaction T (approve_body E T coordinate reason actorID now) db)"

definition revoke_body ::
  "externals \<Rightarrow> 'db approval_table \<Rightarrow> Coordinate \<Rightarrow> string \<Rightarrow> uint \<Rightarrow> int \<Rightarrow> 'db \<Rightarrow> 'db \<times> gerror option" where
  "revoke_body E T coordinate reason actorID now db =
     (case equivalentApprovalIDs E T db coordinate of
        Inl e \<Rightarrow> (db, Some e)
      | Inr ids \<Rightarrow>
          if ids = [] then (db, None)
          else then_do (at_Delete T ids db)
            (at_Event T (admin_event coordinate ActionRevoked reason actorID now)))"

definition Revoke ::
  "externals \<Rightarrow> 'db approval_table \<Rightarrow> int \<Rightarrow> string \<Rightarrow> string \<Rightarrow> string \<Rightarrow> string \<Rightarrow> uint \<Rightarrow>
     'db option \<Rightarrow> 'db option \<times> gerror option" where
  "Revoke E T now ecosystem pkg version reason actorID =
     on_store (\<lambda>db.
       case NormalizeCoordinate E ecosystem pkg version of
         Inl e \<Rightarrow> (db, Some e)
       | Inr coordinate \<Rightarrow> run_transaction T (revoke_body E T coordinate reason actorID now) db)"

definition RecordEvent ::
  "'db approval_table \<Rightarrow> int \<Rightarrow> QuarantineEvent \<Rightarrow> 'db option \<Rightarrow> 'db option \<times> gerror option" where
  "RecordEvent T now ev =
     on_store (at_Event T (case ev_CreatedAt ev of None \<Rightarrow> ev\<lparr>ev_CreatedAt := Some now\<rparr> | Some _ \<Rightarrow> ev))"

subsection \<open>What the database promises\<close>

abbreviation av_key :: "ApprovedVersion \<Rightarrow> string \<times> string \<times> string" where
  "av_key r \<equiv> (av_Ecosystem r, av_Package r, av_Version r)"

text \<open>
  The documented behaviour of the calls, over the rows \<open>rows db\<close> and the events \<open>events db\<close> of
  a database: identifiers are unique, the query compares the ecosystem without ASCII case, a
  successful delete, upsert or insert does what it says and nothing else.
\<close>

definition approval_table_ok ::
  "'db approval_table \<Rightarrow> ('db \<Rightarrow> ApprovedVersion set) \<Rightarrow> ('db \<Rightarrow> QuarantineEvent list) \<Rightarrow> bool" where
  "approval_table_ok T rows events \<longleftrightarrow>
     (\<forall>db. inj_on av_ID (rows db)) \<and>
     (\<forall>e db rs. at_Find T e db = Inr rs \<longrightarrow> set rs = {r \<in> rows db. lowerASCII (av_Ecosystem r) = e}) \<and>
     (\<forall>ids db db'. at_Delete T ids db = (db', None) \<longrightarrow>
        rows db' = {r \<in> rows db. av_ID r \<notin> set ids} \<and> events db' = events db) \<and>
     (\<forall>r db db'. at_Upsert T r db = (db', None) \<longrightarrow>
        (\<exists>i. rows db' = insert (r\<lparr>av_ID := i\<rparr>) {x \<in> rows db. av_key x \<noteq> av_key r}) \<and> events db' = events db) \<and>
     (\<forall>ev db db'. at_Event T ev db = (db', None) \<longrightarrow> rows db' = rows db \<and> events db' = events db @ [ev])"

lemma table_okD:
  assumes "approval_table_ok T rows events"
  shows "inj_on av_ID (rows db)"
    and "at_Find T e db = Inr rs \<Longrightarrow> set rs = {r \<in> rows db. lowerASCII (av_Ecosystem r) = e}"
    and "at_Delete T ids db = (db', None) \<Longrightarrow> rows db' = {r \<in> rows db. av_ID r \<notin> set ids} \<and> events db' = events db"
    and "at_Upsert T r db = (db', None) \<Longrightarrow>
      (\<exists>i. rows db' = insert (r\<lparr>av_ID := i\<rparr>) {x \<in> rows db. av_key x \<noteq> av_key r}) \<and> events db' = events db"
    and "at_Event T ev db = (db', None) \<Longrightarrow> rows db' = rows db \<and> events db' = events db @ [ev]"
  using assms unfolding approval_table_ok_def by simp_all

subsection \<open>Coordinates\<close>

text \<open>A coordinate as the store keeps it.\<close>

definition normal_coordinate :: "externals \<Rightarrow> Coordinate \<Rightarrow> bool" where
  "normal_coordinate E c \<longleftrightarrow>
     NormalizeCoordinate E (c_Ecosystem c) (c_Package c) (c_Version c) = Inr c \<and>
     normal_ecosystem E (c_Ecosystem c) = c_Ecosystem c \<and> lowerASCII (c_Ecosystem c) = c_Ecosystem c"

lemma DialectFor_normal: "DialectFor E (normal_ecosystem E s) = DialectFor E s" if "is_ascii s"
  using normal_ecosystem_idem [OF that, of E] by (simp add: DialectFor_def dialectForRevision1_def)

lemma NormalizeCoordinate_Inr:
  "NormalizeCoordinate E ecosystem pkg version = Inr c \<longleftrightarrow>
     c_Ecosystem c = normal_ecosystem E ecosystem \<and>
     (\<exists>d. DialectFor E (c_Ecosystem c) = Inr d \<and> NormalizePackageName E d pkg = Inr (c_Package c)) \<and>
     NormalizeVersion E (c_Ecosystem c) version = Inr (c_Version c) \<and>
     length (c_Ecosystem c) \<le> 32 \<and> length (c_Package c) \<le> 256 \<and> length (c_Version c) \<le> 128"
  by (cases c) (auto simp: NormalizeCoordinate_def Let_def split: sum.splits if_splits)

lemma NormalizeCoordinate_normal:
  assumes "lower_english_ok E" and asc: "is_ascii ecosystem" "is_ascii pkg"
    and c: "NormalizeCoordinate E ecosystem pkg version = Inr c"
  shows "normal_coordinate E c"
proof -
  let ?e = "c_Ecosystem c"
  have e: "?e = normal_ecosystem E ecosystem" "normal_ecosystem E ?e = ?e" "is_ascii ?e"
    using c asc(1) normal_ecosystem_idem [OF asc(1), of E] is_ascii_TrimSpace [OF asc(1)]
    by (simp_all add: NormalizeCoordinate_Inr ToLower_ascii)
  obtain d where d: "DialectFor E ?e = Inr d" "NormalizePackageName E d pkg = Inr (c_Package c)"
    "NormalizeVersion E ?e version = Inr (c_Version c)"
    using c by (auto simp: NormalizeCoordinate_Inr)
  have "NormalizePackageName E d (c_Package c) = Inr (c_Package c)"
    using name_normal_form [OF d(1,2)] asc(2) by blast
  moreover have "NormalizeVersion E ?e (c_Version c) = Inr (c_Version c)"
    using d(3) canonicalVersion_law [OF assms(1)] by (auto simp: NormalizeVersion_def)
  moreover have "lowerASCII ?e = ?e"
    using e(1) is_ascii_TrimSpace [OF asc(1)] by (simp add: ToLower_ascii)
  ultimately show ?thesis using c d(1) e(2) by (auto simp: normal_coordinate_def NormalizeCoordinate_Inr)
qed

lemma normal_coordinate_compare:
  assumes "lower_english_ok E" and "normal_coordinate E c" and "DialectFor E (c_Ecosystem c) = Inr d"
  shows "CompareVersions E d (c_Version c) (c_Version c) = Inr 0"
  using assms canonicalVersion_law [OF assms(1), of d "c_Version c" "c_Version c"]
  by (auto simp: normal_coordinate_def NormalizeCoordinate_Inr NormalizeVersion_def)

subsection \<open>The coordinates a row approves\<close>

lemma approval_matches_iff:
  "approval_matches E d q r \<longleftrightarrow>
     (\<exists>n. NormalizeCoordinate E (av_Ecosystem r) (av_Package r) (av_Version r) = Inr n \<and>
        c_Package n = c_Package q \<and> CompareVersions E d (c_Version n) (c_Version q) = Inr 0)"
  by (simp add: approval_matches_def split: sum.split)

definition row_approves :: "externals \<Rightarrow> ApprovedVersion \<Rightarrow> Coordinate \<Rightarrow> bool" where
  "row_approves E r q \<longleftrightarrow>
     lowerASCII (av_Ecosystem r) = c_Ecosystem q \<and>
     (\<exists>d. DialectFor E (c_Ecosystem q) = Inr d \<and> approval_matches E d q r)"

definition approved :: "externals \<Rightarrow> ApprovedVersion set \<Rightarrow> Coordinate \<Rightarrow> bool" where
  "approved E rs q \<longleftrightarrow> (\<exists>r \<in> rs. row_approves E r q)"

definition same_release :: "externals \<Rightarrow> Coordinate \<Rightarrow> Coordinate \<Rightarrow> bool" where
  "same_release E c q \<longleftrightarrow> c_Ecosystem c = c_Ecosystem q \<and> c_Package c = c_Package q \<and>
     (\<exists>d. DialectFor E (c_Ecosystem q) = Inr d \<and> CompareVersions E d (c_Version c) (c_Version q) = Inr 0)"

lemma equivalentApprovalIDs_Inr:
  assumes "approval_table_ok T rows events" and "equivalentApprovalIDs E T db c = Inr ids"
  shows "{r \<in> rows db. av_ID r \<notin> set ids} = {r \<in> rows db. \<not> row_approves E r c}"
    and "ids = [] \<longleftrightarrow> \<not> approved E (rows db) c"
proof -
  obtain rs d where rs: "at_Find T (c_Ecosystem c) db = Inr rs" "DialectFor E (c_Ecosystem c) = Inr d"
    "ids = map av_ID (filter (approval_matches E d c) rs)"
    using assms(2) by (auto simp: equivalentApprovalIDs_def)
  have "set (filter (approval_matches E d c) rs) = {r \<in> rows db. row_approves E r c}"
    using table_okD(2) [OF assms(1) rs(1)] rs(2) by (auto simp: row_approves_def)
  then have ids: "set ids = av_ID ` {r \<in> rows db. row_approves E r c}" using rs(3) by simp
  then show "{r \<in> rows db. av_ID r \<notin> set ids} = {r \<in> rows db. \<not> row_approves E r c}"
    using table_okD(1) [OF assms(1), of db] by (auto simp: inj_on_def)
  show "ids = [] \<longleftrightarrow> \<not> approved E (rows db) c" using ids by (cases ids) (auto simp: approved_def)
qed

lemma IsApproved_Inr:
  assumes "approval_table_ok T rows events" and "NormalizeCoordinate E ecosystem pkg version = Inr q"
    and "IsApproved E T (Some db) ecosystem pkg version = Inr b"
  shows "b \<longleftrightarrow> approved E (rows db) q"
  using assms(2,3) equivalentApprovalIDs_Inr(2) [OF assms(1)] by (auto simp: IsApproved_def)

text \<open>The row that an approval writes approves the coordinates of its release.\<close>

lemma new_row_approves:
  assumes "normal_coordinate E c" and "av_key r = (c_Ecosystem c, c_Package c, c_Version c)"
  shows "row_approves E r q \<longleftrightarrow> same_release E c q"
  using assms by (auto simp: row_approves_def same_release_def approval_matches_def normal_coordinate_def split: sum.splits)

lemma transaction_ok:
  "run_transaction T body db = (db', None) \<Longrightarrow> body db = (db', None)"
  by (auto simp: run_transaction_def split: option.splits prod.splits)

lemma transaction_failed:
  "run_transaction T body db = (db', Some e) \<Longrightarrow> db' = db"
  by (auto simp: run_transaction_def split: option.splits prod.splits)

lemma then_do_ok: "then_do r f = (db', None) \<longleftrightarrow> (\<exists>db. r = (db, None) \<and> f db = (db', None))"
  by (auto simp: then_do_def split: prod.splits option.splits)

lemma same_release_refl:
  "lower_english_ok E \<Longrightarrow> normal_coordinate E c \<Longrightarrow> same_release E c c"
  using normal_coordinate_compare by (fastforce simp: same_release_def normal_coordinate_def NormalizeCoordinate_Inr)

lemma approve_body_rows:
  assumes ok: "approval_table_ok T rows events" and E: "lower_english_ok E" and c: "normal_coordinate E c"
    and run: "approve_body E T c reason actor now db = (db', None)"
  shows "approved E (rows db') q \<longleftrightarrow> same_release E c q \<or> approved E {r \<in> rows db. \<not> row_approves E r c} q"
    and "events db' = events db @ [admin_event c ActionApproved reason actor now]"
proof -
  let ?new = "\<lparr>av_ID = 0, av_Ecosystem = c_Ecosystem c, av_Package = c_Package c, av_Version = c_Version c,
    av_Reason = reason, av_ApprovedBy = actor, av_CreatedAt = now\<rparr>"
  obtain ids db1 db2 where steps: "equivalentApprovalIDs E T db c = Inr ids"
    "(if ids \<noteq> [] then at_Delete T ids db else (db, None)) = (db1, None)" "at_Upsert T ?new db1 = (db2, None)"
    "at_Event T (admin_event c ActionApproved reason actor now) db2 = (db', None)"
    using run by (auto simp: approve_body_def then_do_ok split: sum.split_asm)
  note ids = equivalentApprovalIDs_Inr [OF ok steps(1)]
  have db1: "rows db1 = {r \<in> rows db. \<not> row_approves E r c}" "events db1 = events db"
    using steps(2) ids(1) table_okD(3) [OF ok, of ids db db1] by (auto split: if_splits)
  obtain i where db2: "rows db2 = insert (?new\<lparr>av_ID := i\<rparr>) {x \<in> rows db1. av_key x \<noteq> av_key ?new}" "events db2 = events db1"
    using table_okD(4) [OF ok steps(3)] by blast
  have "av_key x \<noteq> av_key ?new" if "x \<in> rows db1" for x
    using that db1(1) new_row_approves [OF c, of x c] same_release_refl [OF E c] by auto
  then have "rows db2 = insert (?new\<lparr>av_ID := i\<rparr>) (rows db1)" using db2(1) by auto
  moreover have "rows db' = rows db2" "events db' = events db2 @ [admin_event c ActionApproved reason actor now]"
    using table_okD(5) [OF ok steps(4)] by simp_all
  moreover have "row_approves E (?new\<lparr>av_ID := i\<rparr>) q \<longleftrightarrow> same_release E c q"
    using new_row_approves [OF c, of "?new\<lparr>av_ID := i\<rparr>" q] by simp
  ultimately show "approved E (rows db') q \<longleftrightarrow> same_release E c q \<or> approved E {r \<in> rows db. \<not> row_approves E r c} q"
    "events db' = events db @ [admin_event c ActionApproved reason actor now]"
    using db1 db2(2) by (auto simp: approved_def)
qed

lemma revoke_body_rows:
  assumes ok: "approval_table_ok T rows events"
    and run: "revoke_body E T c reason actor now db = (db', None)"
  shows "approved E (rows db') q \<longleftrightarrow> approved E {r \<in> rows db. \<not> row_approves E r c} q"
    and "events db' = events db @ (if approved E (rows db) c then [admin_event c ActionRevoked reason actor now] else [])"
proof -
  obtain ids where ids: "equivalentApprovalIDs E T db c = Inr ids"
    using run by (auto simp: revoke_body_def split: sum.split_asm)
  note facts = equivalentApprovalIDs_Inr [OF ok ids]
  have "rows db' = {r \<in> rows db. \<not> row_approves E r c} \<and>
    events db' = events db @ (if approved E (rows db) c then [admin_event c ActionRevoked reason actor now] else [])"
  proof (cases "ids = []")
    case True
    then show ?thesis using run ids facts by (auto simp: revoke_body_def)
  next
    case False
    then obtain db1 where db1: "at_Delete T ids db = (db1, None)"
      "at_Event T (admin_event c ActionRevoked reason actor now) db1 = (db', None)"
      using run ids by (auto simp: revoke_body_def then_do_ok)
    then show ?thesis using False facts table_okD(3) [OF ok db1(1)] table_okD(5) [OF ok db1(2)] by simp
  qed
  then show "approved E (rows db') q \<longleftrightarrow> approved E {r \<in> rows db. \<not> row_approves E r c} q"
    "events db' = events db @ (if approved E (rows db) c then [admin_event c ActionRevoked reason actor now] else [])"
    by simp_all
qed

subsection \<open>Releases\<close>

text \<open>Outside Maven, versions that compare equal are interchangeable.\<close>

lemma CompareVersions_equal_trans:
  assumes "d \<noteq> mavenDialect" and "CompareVersions E d a b = Inr 0" and "CompareVersions E d b c = Inr 0"
  shows "CompareVersions E d a c = Inr 0"
proof -
  have le: "\<exists>z. CompareVersions E d a c = Inr z \<and> z \<le> 0"
    if "CompareVersions E d a b = Inr x" "x \<le> 0" "CompareVersions E d b c = Inr y" "y \<le> 0" for a b c x y
    using that assms(1)
    by (cases d) (simp_all add: dialect_compare_of semver.compare_transitive pep440.compare_transitive
        debian.compare_transitive nuget.compare_transitive exact.compare_transitive cran.compare_transitive)
  obtain z where z: "CompareVersions E d a c = Inr z" "z \<le> 0" using le [OF assms(2) _ assms(3)] by auto
  have "CompareVersions E d c b = Inr 0" "CompareVersions E d b a = Inr 0"
    using CompareVersions_swap [OF assms(2)] CompareVersions_swap [OF assms(3)] by simp_all
  then obtain w where w: "CompareVersions E d c a = Inr w" "w \<le> 0" using le [of c b 0 a 0] by auto
  have "CompareVersions E d c a = Inr (- z)" by (rule CompareVersions_swap [OF z(1)])
  then show ?thesis using z w by simp
qed

lemma survivors:
  assumes "DialectFor E (c_Ecosystem c) \<noteq> Inr mavenDialect"
  shows "approved E {r \<in> R. \<not> row_approves E r c} q \<longleftrightarrow> approved E R q \<and> \<not> same_release E c q"
proof -
  have rows: "row_approves E r c \<longleftrightarrow> same_release E c q" if q: "row_approves E r q" for r
  proof -
    obtain d n where d: "DialectFor E (c_Ecosystem q) = Inr d" "lowerASCII (av_Ecosystem r) = c_Ecosystem q"
      "NormalizeCoordinate E (av_Ecosystem r) (av_Package r) (av_Version r) = Inr n"
      "c_Package n = c_Package q" "CompareVersions E d (c_Version n) (c_Version q) = Inr 0"
      using q by (auto simp: row_approves_def approval_matches_iff)
    have "CompareVersions E d (c_Version n) (c_Version c) = Inr 0 \<longleftrightarrow> CompareVersions E d (c_Version c) (c_Version q) = Inr 0"
      if "d \<noteq> mavenDialect"
      using CompareVersions_equal_trans [OF that] CompareVersions_swap d(5) by (metis add.inverse_neutral)
    then show ?thesis using d assms by (auto simp: row_approves_def approval_matches_def same_release_def)
  qed
  then show ?thesis by (auto simp: approved_def)
qed

subsection \<open>Refinement\<close>

text \<open>
  The operations of an administrator, each with the time of its call. The specification keeps
  one set of approved releases: an approval adds a release, a revocation removes one, and a
  call that fails does nothing.
\<close>

datatype approval_op =
    OpApprove time string string string string uint
  | OpRevoke time string string string string uint

fun op_step :: "externals \<Rightarrow> 'db approval_table \<Rightarrow> approval_op \<Rightarrow> 'db option \<Rightarrow> 'db option \<times> gerror option" where
  "op_step E T (OpApprove now ecosystem pkg version reason actor) s = Approve E T now ecosystem pkg version reason actor s"
| "op_step E T (OpRevoke now ecosystem pkg version reason actor) s = Revoke E T now ecosystem pkg version reason actor s"

fun op_coordinate :: "externals \<Rightarrow> approval_op \<Rightarrow> gerror + Coordinate" where
  "op_coordinate E (OpApprove now ecosystem pkg version reason actor) = NormalizeCoordinate E ecosystem pkg version"
| "op_coordinate E (OpRevoke now ecosystem pkg version reason actor) = NormalizeCoordinate E ecosystem pkg version"

fun op_ok :: "externals \<Rightarrow> approval_op \<Rightarrow> bool" where
  "op_ok E (OpApprove now ecosystem pkg version reason actor) \<longleftrightarrow>
     is_ascii ecosystem \<and> is_ascii pkg \<and> normal_ecosystem E ecosystem \<noteq> ''maven''"
| "op_ok E (OpRevoke now ecosystem pkg version reason actor) \<longleftrightarrow>
     is_ascii ecosystem \<and> is_ascii pkg \<and> normal_ecosystem E ecosystem \<noteq> ''maven''"

definition is_approve :: "approval_op \<Rightarrow> bool" where
  "is_approve op = (case op of OpApprove _ _ _ _ _ _ \<Rightarrow> True | OpRevoke _ _ _ _ _ _ \<Rightarrow> False)"

definition spec_step :: "externals \<Rightarrow> approval_op \<times> gerror option \<Rightarrow> (Coordinate \<Rightarrow> bool) \<Rightarrow> Coordinate \<Rightarrow> bool" where
  "spec_step E step A q =
     (case step of
        (op, Some _) \<Rightarrow> A q
      | (op, None) \<Rightarrow>
          (case op_coordinate E op of
             Inl _ \<Rightarrow> A q
           | Inr c \<Rightarrow> if is_approve op then A q \<or> same_release E c q else A q \<and> \<not> same_release E c q))"

fun op_run :: "externals \<Rightarrow> 'db approval_table \<Rightarrow> approval_op list \<Rightarrow> 'db option \<Rightarrow> 'db option \<times> gerror option list" where
  "op_run E T [] s = (s, [])"
| "op_run E T (op # ops) s =
     (let (s', e) = op_step E T op s; (s'', es) = op_run E T ops s' in (s'', e # es))"

fun spec_run :: "externals \<Rightarrow> (approval_op \<times> gerror option) list \<Rightarrow> (Coordinate \<Rightarrow> bool) \<Rightarrow> Coordinate \<Rightarrow> bool" where
  "spec_run E [] A = A"
| "spec_run E (step # steps) A = spec_run E steps (spec_step E step A)"

lemma not_maven:
  assumes "is_ascii ecosystem" and "normal_ecosystem E ecosystem \<noteq> ''maven''"
  shows "DialectFor E (normal_ecosystem E ecosystem) \<noteq> Inr mavenDialect"
  using assms normal_ecosystem_idem [OF assms(1), of E]
  by (auto simp: DialectFor_def dialectForRevision1_def npmDialect_def cargoDialect_def Let_def split: if_splits)

lemma op_step_refines:
  assumes ok: "approval_table_ok T rows events" and E: "lower_english_ok E" and op: "op_ok E op"
    and step: "op_step E T op (Some db) = (s', e)"
  shows "\<exists>db'. s' = Some db' \<and> approved E (rows db') = spec_step E (op, e) (approved E (rows db))"
proof (cases "op_coordinate E op")
  case (Inl err)
  then show ?thesis using step
    by (cases op) (auto simp: Approve_def Revoke_def on_store_def spec_step_def fun_eq_iff)
next
  case (Inr c)
  have c: "normal_coordinate E c" "DialectFor E (c_Ecosystem c) \<noteq> Inr mavenDialect"
    using op Inr NormalizeCoordinate_normal [OF E] not_maven by (cases op; auto simp: NormalizeCoordinate_Inr)+
  show ?thesis
  proof (cases e)
    case (Some err)
    then have "s' = Some db" using step Inr transaction_failed
      by (cases op) (fastforce simp: Approve_def Revoke_def on_store_def split: prod.split_asm)+
    then show ?thesis using Some by (simp add: spec_step_def fun_eq_iff)
  next
    case None
    show ?thesis
    proof (cases op)
      case (OpApprove now ecosystem pkg version reason actor)
      then obtain db' where db': "s' = Some db'" "approve_body E T c reason actor now db = (db', None)"
        using step None Inr transaction_ok [of T "approve_body E T c reason actor now" db]
        by (auto simp: Approve_def on_store_def split: prod.split_asm)
      show ?thesis
        using db'(1) approve_body_rows(1) [OF ok E c(1) db'(2)] survivors [OF c(2)] None Inr OpApprove
        by (auto simp: spec_step_def is_approve_def fun_eq_iff)
    next
      case (OpRevoke now ecosystem pkg version reason actor)
      then obtain db' where db': "s' = Some db'" "revoke_body E T c reason actor now db = (db', None)"
        using step None Inr transaction_ok [of T "revoke_body E T c reason actor now" db]
        by (auto simp: Revoke_def on_store_def split: prod.split_asm)
      show ?thesis
        using db'(1) revoke_body_rows(1) [OF ok db'(2)] survivors [OF c(2)] None Inr OpRevoke
        by (auto simp: spec_step_def is_approve_def fun_eq_iff)
    qed
  qed
qed

lemma op_run_refines:
  assumes "approval_table_ok T rows events" and "lower_english_ok E" and "list_all (op_ok E) ops"
    and "op_run E T ops (Some db) = (s', es)"
  shows "\<exists>db'. s' = Some db' \<and> approved E (rows db') = spec_run E (zip ops es) (approved E (rows db))"
  using assms(3,4)
proof (induction ops arbitrary: db es)
  case (Cons op ops)
  obtain s1 e es' where run: "op_step E T op (Some db) = (s1, e)" "op_run E T ops s1 = (s', es')" "es = e # es'"
    using Cons.prems(2) by (auto simp: Let_def split: prod.split_asm)
  obtain db1 where db1: "s1 = Some db1" "approved E (rows db1) = spec_step E (op, e) (approved E (rows db))"
    using op_step_refines [OF assms(1,2) _ run(1)] Cons.prems(1) by auto
  then show ?case using Cons.IH [of db1 es'] Cons.prems(1) run by auto
qed auto

text \<open>
  C4: The approval store implements one set of approved releases. Over any sequence of
  approvals and revocations, including calls that fail and are rolled back, and whatever legacy
  spellings the table already holds, a query answers whether the set contains the release it
  names: an approval under one spelling of a package or of a version is found under every
  equivalent spelling, and a revocation under one spelling ends it for all of them. The calls
  of the sequence name ecosystems and packages in ASCII, with any version, and none is for Maven,
  whose equality of versions is not known to be transitive.
\<close>

theorem approvals_refine_release_set:
  assumes "approval_table_ok T rows events" and "lower_english_ok E" and "list_all (op_ok E) ops"
    and "op_run E T ops (Some db) = (s', es)"
    and "NormalizeCoordinate E ecosystem pkg version = Inr q" and "IsApproved E T s' ecosystem pkg version = Inr b"
  shows "b \<longleftrightarrow> spec_run E (zip ops es) (approved E (rows db)) q"
proof -
  obtain db' where "s' = Some db'" "approved E (rows db') = spec_run E (zip ops es) (approved E (rows db))"
    using op_run_refines [OF assms(1-4)] by blast
  then show ?thesis using IsApproved_Inr [OF assms(1,5), of db' b] assms(6) by simp
qed

text \<open>A table of two lists: rows with distinct identifiers, and events.\<close>

type_synonym lists = "ApprovedVersion list \<times> QuarantineEvent list"

fun uniq :: "ApprovedVersion list \<Rightarrow> ApprovedVersion list" where
  "uniq [] = []"
| "uniq (r # rs) = r # filter (\<lambda>x. av_ID x \<noteq> av_ID r) (uniq rs)"

lemma uniq_distinct: "distinct (map av_ID (uniq rs))"
  by (induction rs) (auto simp: distinct_map_filter)

lemma uniq_id: "distinct (map av_ID rs) \<Longrightarrow> uniq rs = rs"
  by (induction rs) (auto intro!: filter_True simp: rev_image_eqI)

lemma uniq_filter [simp]: "uniq (filter P (uniq rs)) = filter P (uniq rs)"
  by (rule uniq_id) (rule distinct_map_filter [OF uniq_distinct])

definition lists_upsert :: "ApprovedVersion \<Rightarrow> lists \<Rightarrow> lists \<times> gerror option" where
  "lists_upsert r db =
     (let others = filter (\<lambda>x. av_key x \<noteq> av_key r) (uniq (fst db)); i = word_of_nat (Suc (length others)) in
      if i \<in> av_ID ` set others then (db, Some plain_error)
      else ((r\<lparr>av_ID := i\<rparr> # others, snd db), None))"

definition lists_table :: "lists approval_table" where
  "lists_table =
     \<lparr>at_Find = (\<lambda>e db. Inr (filter (\<lambda>r. lowerASCII (av_Ecosystem r) = e) (uniq (fst db)))),
      at_Delete = (\<lambda>ids db. ((filter (\<lambda>r. av_ID r \<notin> set ids) (uniq (fst db)), snd db), None)),
      at_Upsert = lists_upsert,
      at_Event = (\<lambda>ev db. ((fst db, snd db @ [ev]), None)),
      at_Begin = (\<lambda>db. None), at_Commit = (\<lambda>db. None),
      at_Time = (\<lambda>key db. Inl [ErrRecordNotFound]), at_SaveTime = (\<lambda>key t db. (db, None))\<rparr>"

lemma lists_upsert_ok:
  assumes "lists_upsert r db = (db', None)"
  shows "(\<exists>i. set (uniq (fst db')) = insert (r\<lparr>av_ID := i\<rparr>) {x \<in> set (uniq (fst db)). av_key x \<noteq> av_key r}) \<and> snd db' = snd db"
proof -
  let ?others = "filter (\<lambda>x. av_key x \<noteq> av_key r) (uniq (fst db))"
  let ?i = "word_of_nat (Suc (length ?others)) :: uint"
  have i: "?i \<notin> av_ID ` set ?others" "db' = (r\<lparr>av_ID := ?i\<rparr> # ?others, snd db)"
    using assms by (auto simp: lists_upsert_def Let_def split: if_splits)
  have "distinct (map av_ID (r\<lparr>av_ID := ?i\<rparr> # ?others))" using i(1) distinct_map_filter [OF uniq_distinct] by simp
  from uniq_id [OF this] show ?thesis using i(2) by (intro conjI exI [of _ ?i]) auto
qed

lemma lists_table_ok: "approval_table_ok lists_table (\<lambda>db. set (uniq (fst db))) snd"
proof -
  have "inj_on av_ID (set (uniq rs))" for rs using uniq_distinct [of rs] by (simp add: distinct_map)
  moreover have "\<forall>r db db'. at_Upsert lists_table r db = (db', None) \<longrightarrow>
      (\<exists>i. set (uniq (fst db')) = insert (r\<lparr>av_ID := i\<rparr>) {x \<in> set (uniq (fst db)). av_key x \<noteq> av_key r}) \<and> snd db' = snd db"
    using lists_upsert_ok by (simp add: lists_table_def)
  moreover have "\<forall>ids db db'. at_Delete lists_table ids db = (db', None) \<longrightarrow>
      set (uniq (fst db')) = {r \<in> set (uniq (fst db)). av_ID r \<notin> set ids} \<and> snd db' = snd db"
    by (auto simp: lists_table_def)
  moreover have "\<forall>ev db db'. at_Event lists_table ev db = (db', None) \<longrightarrow>
      set (uniq (fst db')) = set (uniq (fst db)) \<and> snd db' = snd db @ [ev]"
    by (auto simp: lists_table_def)
  moreover have "\<forall>e db rs. at_Find lists_table e db = Inr rs \<longrightarrow>
      set rs = {r \<in> set (uniq (fst db)). lowerASCII (av_Ecosystem r) = e}"
    by (auto simp: lists_table_def)
  ultimately show ?thesis unfolding approval_table_ok_def by blast
qed

definition legacy_row :: ApprovedVersion where
  "legacy_row = \<lparr>av_ID = 7, av_Ecosystem = ''PyPI'', av_Package = ''Zope_Interface'', av_Version = ''5.0'',
     av_Reason = [], av_ApprovedBy = 1, av_CreatedAt = 0\<rparr>"

definition sample_approvals :: "approval_op list" where
  "sample_approvals =
     [OpApprove 10 ''npm'' ''left-pad'' ''1.2.0'' ''ok'' 1,
      OpRevoke 20 '' pypi'' ''zope.interface'' ''5.0.0'' ''bad'' 1]"

theorem approvals_refine_release_set_witness:
  "spec_run ascii_externals (zip sample_approvals [None, None])
     (approved ascii_externals (set (uniq [legacy_row]))) \<lparr>c_Ecosystem = ''npm'', c_Package = ''left-pad'', c_Version = ''1.2.0''\<rparr> \<and>
   \<not> spec_run ascii_externals (zip sample_approvals [None, None])
     (approved ascii_externals (set (uniq [legacy_row]))) \<lparr>c_Ecosystem = ''pypi'', c_Package = ''zope-interface'', c_Version = ''5.0''\<rparr>"
proof -
  let ?E = ascii_externals and ?db = "([legacy_row], [])"
  let ?s = "Some ([\<lparr>av_ID = 2, av_Ecosystem = ''npm'', av_Package = ''left-pad'', av_Version = ''1.2.0'',
      av_Reason = ''ok'', av_ApprovedBy = 1, av_CreatedAt = 10\<rparr>],
    [admin_event \<lparr>c_Ecosystem = ''npm'', c_Package = ''left-pad'', c_Version = ''1.2.0''\<rparr> ActionApproved ''ok'' 1 10,
     admin_event \<lparr>c_Ecosystem = ''pypi'', c_Package = ''zope-interface'', c_Version = ''5.0.0''\<rparr> ActionRevoked ''bad'' 1 20])"
  have run: "op_run ?E lists_table sample_approvals (Some ?db) = (?s, [None, None])" by code_simp
  have ops: "list_all (op_ok ?E) sample_approvals" by code_simp
  have npm: "NormalizeCoordinate ?E ''npm'' ''left-pad'' ''1.2.0'' = Inr \<lparr>c_Ecosystem = ''npm'', c_Package = ''left-pad'', c_Version = ''1.2.0''\<rparr>"
    "IsApproved ?E lists_table ?s ''npm'' ''left-pad'' ''1.2.0'' = Inr True" by code_simp+
  have pypi: "NormalizeCoordinate ?E ''pypi'' ''Zope_Interface'' ''5.0'' = Inr \<lparr>c_Ecosystem = ''pypi'', c_Package = ''zope-interface'', c_Version = ''5.0''\<rparr>"
    "IsApproved ?E lists_table ?s ''pypi'' ''Zope_Interface'' ''5.0'' = Inr False" by code_simp+
  note refines = approvals_refine_release_set [OF lists_table_ok ascii_externals_ok(1) ops run]
  show ?thesis using refines [OF npm] refines [OF pypi] by simp
qed

end
