(* ===== verification/Quarantine_Checker.thy ===== *)
theory Quarantine_Checker
  imports Quarantine_Lookup Quarantine_Store
begin

text \<open>
  \<open>internal/quarantine/checker.go\<close> and \<open>adapter_bridge.go\<close>: the decision on one request, in the
  order of the code (known malware, active snapshot, minimum release age with allow list,
  approval and publish time), with the events it writes and the hook it calls. The blocklist and
  the snapshot gate are the interfaces of the checker: functions of the request. What differs
  from call to call, the clock, the answer of the registry, the text of its error, is the record
  \<open>check_env\<close>, with two conversions of the Go library: the verb \<open>%q\<close> and \<open>Duration.Seconds\<close>, which
  computes in floating point. The zero time of a \<open>Provenance\<close> is \<open>None\<close>.
\<close>

definition CodeQuarantined :: string where "CodeQuarantined = ''QUARANTINED''"
definition CodeMaliciousBlocked :: string where "CodeMaliciousBlocked = ''MALICIOUS_BLOCKED''"
definition CodeSnapshotBlocked :: string where "CodeSnapshotBlocked = ''SNAPSHOT_BLOCKED''"


record Provenance =
  pv_SourceID :: string
  pv_PublishAt :: "time option"
  pv_Kind :: string

definition ProvenanceKindFirstObserved :: string where
  "ProvenanceKindFirstObserved = ''first_observed''"

record Decision =
  dn_Allowed :: bool
  dn_Code :: string
  dn_Reason :: string
  dn_Warned :: bool
  dn_AgeAtCall :: int
  dn_Threshold :: int

definition zero_decision :: Decision where
  "zero_decision = \<lparr>dn_Allowed = False, dn_Code = [], dn_Reason = [], dn_Warned = False, dn_AgeAtCall = 0, dn_Threshold = 0\<rparr>"

record BlocklistMatch =
  bm_SourceID :: string
  bm_Summary :: string

record SnapshotMatch =
  sm_Allowed :: bool
  sm_SnapshotID :: uint
  sm_SnapshotName :: string

type_synonym blocklist = "string \<Rightarrow> string \<Rightarrow> string \<Rightarrow> BlocklistMatch option \<times> bool \<times> gerror option"
type_synonym snapshot_gate = "string \<Rightarrow> string \<Rightarrow> string \<Rightarrow> gerror + SnapshotMatch"

record 'db Checker =
  ck_policy :: "Policy option"
  ck_lookup :: "LookupState option"
  ck_store :: "'db option"
  ck_onBlock :: bool                              \<comment> \<open>the hook is installed\<close>
  ck_blocklist :: "blocklist option"
  ck_snapshot :: "snapshot_gate option"
  ck_blocklistMode :: Mode

record check_env =
  ce_now :: time
  ce_stamp :: time                                \<comment> \<open>the clock when an event is recorded\<close>
  ce_resolver :: "publish option"
  ce_error :: string                              \<comment> \<open>the text of the error of the lookup\<close>
  ce_quote :: "string \<Rightarrow> string"
  ce_Seconds :: "int \<Rightarrow> int"

subsection \<open>Construction\<close>

definition SetBlocklist :: "blocklist option \<Rightarrow> 'db Checker \<Rightarrow> 'db Checker" where
  "SetBlocklist bl c = c\<lparr>ck_blocklist := bl\<rparr>"

definition SetSnapshotGate :: "snapshot_gate option \<Rightarrow> 'db Checker \<Rightarrow> 'db Checker" where
  "SetSnapshotGate gate c = c\<lparr>ck_snapshot := gate\<rparr>"

definition SetBlocklistMode :: "Mode \<Rightarrow> 'db Checker \<Rightarrow> 'db Checker" where
  "SetBlocklistMode m c = c\<lparr>ck_blocklistMode := m\<rparr>"

definition SetOnBlock :: "bool \<Rightarrow> 'db Checker \<Rightarrow> 'db Checker" where
  "SetOnBlock fn c = c\<lparr>ck_onBlock := fn\<rparr>"

definition NewChecker :: "Policy option \<Rightarrow> LookupState option \<Rightarrow> 'db option \<Rightarrow> gerror + 'db Checker" where
  "NewChecker p l s =
     (case p of
        None \<Rightarrow> Inl plain_error
      | Some policy \<Rightarrow>
          if qp_Mode policy = ModeBlock \<or> qp_Mode policy = ModeWarn
          then Inr \<lparr>ck_policy = p, ck_lookup = l, ck_store = s, ck_onBlock = False, ck_blocklist = None,
            ck_snapshot = None, ck_blocklistMode = ModeBlock\<rparr>
          else Inl plain_error)"

subsection \<open>Events\<close>

text \<open>
  \<open>recordEvent\<close> returns the events handed to the hook. A failed insert is logged only, and a
  panic of the hook is recovered.
\<close>

definition recordEvent ::
  "'db approval_table \<Rightarrow> check_env \<Rightarrow> QuarantineEvent \<Rightarrow> 'db Checker \<Rightarrow> 'db Checker \<times> QuarantineEvent list" where
  "recordEvent T env ev0 c =
     (let ev = (case ev_CreatedAt ev0 of None \<Rightarrow> ev0\<lparr>ev_CreatedAt := Some (ce_stamp env)\<rparr> | Some _ \<Rightarrow> ev0);
          (s, _) = RecordEvent T (ce_stamp env) ev (ck_store c) in
      (c\<lparr>ck_store := s\<rparr>,
       if ck_onBlock c \<and> (ev_Action ev = ActionBlocked \<or> ev_Action ev = ActionMalwareBlocked) then [ev] else []))"

record request =
  rq_ecosystem :: string
  rq_pkg :: string
  rq_version :: string
  rq_clientIP :: string

definition request_event :: "request \<Rightarrow> string \<Rightarrow> string \<Rightarrow> int \<Rightarrow> int \<Rightarrow> QuarantineEvent" where
  "request_event rq action reason threshold age =
     \<lparr>ev_Ecosystem = rq_ecosystem rq, ev_Package = rq_pkg rq, ev_Version = rq_version rq, ev_Action = action,
      ev_Reason = reason, ev_Threshold = threshold, ev_AgeAtCall = age, ev_ActorID = 0,
      ev_ClientIP = rq_clientIP rq, ev_CreatedAt = None\<rparr>"

text \<open>An event, then the answer.\<close>

definition logged ::
  "'db approval_table \<Rightarrow> check_env \<Rightarrow> QuarantineEvent \<Rightarrow> 'd \<Rightarrow> 'db Checker \<Rightarrow> 'db Checker \<times> QuarantineEvent list \<times> 'd" where
  "logged T env ev d c = (let (c', hooks) = recordEvent T env ev c in (c', hooks, d))"

subsection \<open>Texts\<close>

definition em_dash :: string where "em_dash = [CHR 0xE2, CHR 0x80, CHR 0x94]"

definition observe_note :: string where
  "observe_note = '' '' @ em_dash @ '' observe mode, serving anyway''"

text \<open>Division that truncates towards zero, for a positive divisor.\<close>

definition tdiv :: "int \<Rightarrow> int \<Rightarrow> int" where "tdiv a b = sgn a * (\<bar>a\<bar> div b)"
definition tmod :: "int \<Rightarrow> int \<Rightarrow> int" where "tmod a b = a - tdiv a b * b"

definition format_d :: "int \<Rightarrow> string" where
  "format_d n = (if n < 0 then ''-'' else []) @ FormatUint (nat \<bar>n\<bar>)"

definition formatAge :: "int \<Rightarrow> string" where
  "formatAge d0 =
     (let d = (if d0 < 0 then wrap64 (- d0) else d0);
          days = tdiv d (24 * hour); hours = tdiv (tmod d (24 * hour)) hour;
          minutes = tdiv (tmod d hour) (60 * 1000000000) in
      if days > 0 \<and> hours > 0 then format_d days @ ''d '' @ format_d hours @ ''h''
      else if days > 0 then format_d days @ ''d''
      else if hours > 0 \<and> minutes > 0 then format_d hours @ ''h '' @ format_d minutes @ ''m''
      else if hours > 0 then format_d hours @ ''h''
      else if minutes > 0 then format_d minutes @ ''m''
      else format_d (tdiv d 1000000000) @ ''s'')"

definition shortProvenanceSource :: "string \<Rightarrow> string" where
  "shortProvenanceSource sourceID =
     (if length sourceID \<le> 12 then sourceID else take 12 sourceID @ [CHR 0xE2, CHR 0x80, CHR 0xA6])"

subsection \<open>The lookup error\<close>

definition lookup_error_reason :: "check_env \<Rightarrow> request \<Rightarrow> gerror \<Rightarrow> string" where
  "lookup_error_reason env rq err =
     (if errors_Is err ErrNotFound then
        ''version '' @ rq_version rq @ '' of '' @ rq_pkg rq @ '' was not found on the upstream '' @ rq_ecosystem rq @
        '' registry; quarantine is configured to fail-closed''
      else if errors_Is err ErrUnsupported then
        ''ecosystem '' @ rq_ecosystem rq @ '' does not have a quarantine resolver in this build; configured to fail-closed''
      else if errors_Is err ErrMissingProvenance then
        ''version '' @ rq_version rq @ '' of '' @ rq_pkg rq @
        '' has no source-bound publish time from its authenticated upstream; quarantine is configured to fail-closed''
      else ''quarantine lookup failed: '' @ ce_error env)"

definition handleLookupError ::
  "'db approval_table \<Rightarrow> check_env \<Rightarrow> Policy \<Rightarrow> request \<Rightarrow> int \<Rightarrow> gerror \<Rightarrow> 'db Checker \<Rightarrow>
     'db Checker \<times> QuarantineEvent list \<times> Decision" where
  "handleLookupError T env policy rq threshold err c =
     (if errors_Is err ErrUpstreamUnavailable then
        (c, [], zero_decision\<lparr>dn_Allowed := True, dn_Threshold := threshold\<rparr>)
      else if \<not> qp_FailClosed policy then
        (c, [], zero_decision\<lparr>dn_Allowed := True, dn_Threshold := threshold\<rparr>)
      else (let reason = lookup_error_reason env rq err in
        if qp_Mode policy = ModeWarn then
          logged T env (request_event rq ActionWarned (reason @ observe_note) (ce_Seconds env threshold) 0)
            (zero_decision\<lparr>dn_Allowed := True, dn_Warned := True, dn_Code := CodeQuarantined,
              dn_Reason := reason @ observe_note, dn_Threshold := threshold\<rparr>) c
        else
          logged T env (request_event rq ActionBlocked reason (ce_Seconds env threshold) 0)
            (zero_decision\<lparr>dn_Code := CodeQuarantined, dn_Reason := reason, dn_Threshold := threshold\<rparr>) c))"

subsection \<open>The release age\<close>

definition age_reason :: "request \<Rightarrow> bool \<Rightarrow> int \<Rightarrow> int \<Rightarrow> string \<Rightarrow> string" where
  "age_reason rq firstObserved age threshold sourceNote =
     ''version '' @ rq_version rq @ '' of '' @ rq_pkg rq @ '' '' @
     (if firstObserved then ''was first observed'' else ''was published'') @ '' '' @ formatAge age @
     '' ago, which is younger than the configured '' @ formatAge threshold @ '' minimum release age for '' @
     rq_ecosystem rq @ sourceNote"

definition threshold_check ::
  "'db approval_table \<Rightarrow> check_env \<Rightarrow> Policy \<Rightarrow> request \<Rightarrow> Provenance option \<Rightarrow> int \<Rightarrow> time \<Rightarrow> string \<Rightarrow> 'db Checker \<Rightarrow>
     'db Checker \<times> QuarantineEvent list \<times> Decision" where
  "threshold_check T env policy rq provenance threshold publishAt sourceNote c =
     (let age = time_Sub (ce_now env) publishAt in
      if age < threshold then
        (let firstObserved = (case provenance of Some p \<Rightarrow> pv_Kind p = ProvenanceKindFirstObserved | None \<Rightarrow> False);
             reason = age_reason rq firstObserved age threshold sourceNote in
         if qp_Mode policy = ModeWarn then
           logged T env (request_event rq ActionWarned (reason @ observe_note)
               (ce_Seconds env threshold) (ce_Seconds env age))
             (zero_decision\<lparr>dn_Allowed := True, dn_Warned := True, dn_Code := CodeQuarantined,
               dn_Reason := reason @ observe_note, dn_AgeAtCall := age, dn_Threshold := threshold\<rparr>) c
         else
           logged T env (request_event rq ActionBlocked reason (ce_Seconds env threshold) (ce_Seconds env age))
             (zero_decision\<lparr>dn_Code := CodeQuarantined, dn_Reason := reason, dn_AgeAtCall := age,
               dn_Threshold := threshold\<rparr>) c)
      else (c, [], zero_decision\<lparr>dn_Allowed := True, dn_AgeAtCall := age, dn_Threshold := threshold\<rparr>))"

text \<open>
  The lookup of the checker, which shares its store: the second tier reads the table, and a time
  from the registry is saved there; a failed save is logged only.
\<close>

definition checker_lookup ::
  "externals \<Rightarrow> 'db approval_table \<Rightarrow> check_env \<Rightarrow> request \<Rightarrow> 'db Checker \<Rightarrow> 'db Checker \<times> publish" where
  "checker_lookup E T env rq c =
     (let ecosystem = ToLower E (rq_ecosystem rq);
          lenv = \<lparr>le_db = LookupTimestamp T (ck_store c) ecosystem (rq_pkg rq) (rq_version rq),
                  le_resolver = ce_resolver env\<rparr>;
          (l, answer, saved) = lookup_Get E lenv (ck_lookup c) (rq_ecosystem rq) (rq_pkg rq) (rq_version rq);
          s = (case saved of
                 None \<Rightarrow> ck_store c
               | Some t \<Rightarrow> fst (SaveTimestamp T (ck_store c) ecosystem (rq_pkg rq) (rq_version rq) t)) in
      (c\<lparr>ck_lookup := l, ck_store := s\<rparr>, answer))"

text \<open>Steps 1 to 6 of \<open>check\<close>.\<close>

definition age_gate ::
  "externals \<Rightarrow> 'db approval_table \<Rightarrow> check_env \<Rightarrow> Policy \<Rightarrow> request \<Rightarrow> Provenance option \<Rightarrow> 'db Checker \<Rightarrow>
     'db Checker \<times> QuarantineEvent list \<times> Decision" where
  "age_gate E T env policy rq provenance c =
     (let threshold = Threshold E (Some policy) (rq_ecosystem rq) in
      if threshold \<le> 0 then (c, [], zero_decision\<lparr>dn_Allowed := True\<rparr>)
      else if rq_version rq = [] then (c, [], zero_decision\<lparr>dn_Allowed := True, dn_Threshold := threshold\<rparr>)
      else if AllowList_Match E (qp_Allow policy) (rq_ecosystem rq) (rq_pkg rq) (rq_version rq) then
        logged T env (request_event rq ActionBypassed ''allow-list rule matched'' (ce_Seconds env threshold) 0)
          (zero_decision\<lparr>dn_Allowed := True, dn_Reason := ''allow-list bypass'', dn_Threshold := threshold\<rparr>) c
      else if IsApproved E T (ck_store c) (rq_ecosystem rq) (rq_pkg rq) (rq_version rq) = Inr True then
        (c, [], zero_decision\<lparr>dn_Allowed := True, dn_Reason := ''approved by operator'', dn_Threshold := threshold\<rparr>)
      else (case provenance of
          Some p \<Rightarrow>
            if \<not> SourceProvenanceBound E (Some policy) (rq_ecosystem rq)
            then handleLookupError T env policy rq threshold [ErrMissingProvenance] c
            else (case pv_PublishAt p of
                None \<Rightarrow> handleLookupError T env policy rq threshold [ErrMissingProvenance] c
              | Some publishAt \<Rightarrow>
                  if pv_SourceID p = [] then handleLookupError T env policy rq threshold [ErrMissingProvenance] c
                  else threshold_check T env policy rq provenance threshold publishAt
                    ('' (source '' @ shortProvenanceSource (pv_SourceID p) @ '')'') c)
        | None \<Rightarrow>
            (case checker_lookup E T env rq c of
               (c', Inl err) \<Rightarrow> handleLookupError T env policy rq threshold err c'
             | (c', Inr publishAt) \<Rightarrow> threshold_check T env policy rq None threshold publishAt [] c')))"

subsection \<open>The check\<close>

text \<open>Step 0: \<open>Inl\<close> is an early return, \<open>Inr\<close> the checker that continues and the hooks so far.\<close>

definition malware_base :: "request \<Rightarrow> BlocklistMatch \<Rightarrow> string" where
  "malware_base rq m = rq_pkg rq @ ''@'' @ rq_version rq @ '' is a known-malicious version ('' @
     bm_SourceID m @ ''): '' @ bm_Summary m"

definition malware_refusal :: "request \<Rightarrow> BlocklistMatch \<Rightarrow> string" where
  "malware_refusal rq m = malware_base rq m @ '' '' @ em_dash @ '' refusing to serve''"

definition override_note :: "BlocklistMatch \<Rightarrow> string" where
  "override_note m = ''operator override active for '' @ bm_SourceID m"

definition malware_step ::
  "'db approval_table \<Rightarrow> check_env \<Rightarrow> request \<Rightarrow> 'db Checker \<Rightarrow>
     'db Checker \<times> QuarantineEvent list \<times> Decision option" where
  "malware_step T env rq c =
     (case ck_blocklist c of
        None \<Rightarrow> (c, [], None)
      | Some bl \<Rightarrow>
          if rq_version rq = [] then (c, [], None)
          else (case bl (rq_ecosystem rq) (rq_pkg rq) (rq_version rq) of
              (None, _, _) \<Rightarrow> (c, [], None)
            | (Some m, overridden0, err) \<Rightarrow>
                (let overridden = overridden0 \<and> err = None in
                 if overridden then logged T env (request_event rq ActionMalwareBypassed (override_note m) 0 0) None c
                 else if ck_blocklistMode c = ModeWarn then
                   (let reason = malware_base rq m @ observe_note in
                    logged T env (request_event rq ActionMalwareWarned reason 0 0)
                      (Some (zero_decision\<lparr>dn_Allowed := True, dn_Warned := True,
                         dn_Code := CodeMaliciousBlocked, dn_Reason := reason\<rparr>)) c)
                 else
                   logged T env (request_event rq ActionMalwareBlocked (malware_refusal rq m) 0 0)
                     (Some (zero_decision\<lparr>dn_Code := CodeMaliciousBlocked, dn_Reason := malware_refusal rq m\<rparr>)) c)))"

definition snapshot_unverified :: "request \<Rightarrow> string" where
  "snapshot_unverified rq = ''snapshot membership for '' @ rq_pkg rq @ ''@'' @ rq_version rq @
     '' could not be verified; snapshot-only mode is enabled''"

definition snapshot_missing :: "check_env \<Rightarrow> request \<Rightarrow> SnapshotMatch \<Rightarrow> string" where
  "snapshot_missing env rq m = ''version '' @ rq_version rq @ '' of '' @ rq_pkg rq @
     '' is not in the active snapshot '' @ ce_quote env (sm_SnapshotName m) @ ''; snapshot-only mode is enabled '' @
     em_dash @ '' update the snapshot or disable snapshot-only mode''"

definition snapshot_block ::
  "'db approval_table \<Rightarrow> check_env \<Rightarrow> request \<Rightarrow> string \<Rightarrow> 'db Checker \<Rightarrow>
     'db Checker \<times> QuarantineEvent list \<times> Decision option" where
  "snapshot_block T env rq reason c =
     logged T env (request_event rq ActionSnapshotBlocked reason 0 0)
       (Some (zero_decision\<lparr>dn_Code := CodeSnapshotBlocked, dn_Reason := reason\<rparr>)) c"

definition snapshot_step ::
  "'db approval_table \<Rightarrow> check_env \<Rightarrow> request \<Rightarrow> 'db Checker \<Rightarrow>
     'db Checker \<times> QuarantineEvent list \<times> Decision option" where
  "snapshot_step T env rq c =
     (case ck_snapshot c of
        None \<Rightarrow> (c, [], None)
      | Some gate \<Rightarrow>
          if rq_version rq = [] then (c, [], None)
          else (case gate (rq_ecosystem rq) (rq_pkg rq) (rq_version rq) of
              Inl err \<Rightarrow> snapshot_block T env rq (snapshot_unverified rq) c
            | Inr m \<Rightarrow>
                if \<not> sm_Allowed m then snapshot_block T env rq (snapshot_missing env rq m) c
                else (c, [], None)))"

text \<open>A nil checker, which allows every request at once, appears in the bridge below.\<close>

definition check ::
  "externals \<Rightarrow> 'db approval_table \<Rightarrow> check_env \<Rightarrow> request \<Rightarrow> Provenance option \<Rightarrow> 'db Checker \<Rightarrow>
     'db Checker \<times> QuarantineEvent list \<times> Decision" where
  "check E T env rq provenance c =
     (case ck_policy c of
        None \<Rightarrow> (c, [], zero_decision\<lparr>dn_Allowed := True\<rparr>)
      | Some policy \<Rightarrow>
          (case malware_step T env rq c of
             (c1, hooks1, Some decision) \<Rightarrow> (c1, hooks1, decision)
           | (c1, hooks1, None) \<Rightarrow>
               (case snapshot_step T env rq c1 of
                  (c2, hooks2, Some decision) \<Rightarrow> (c2, hooks1 @ hooks2, decision)
                | (c2, hooks2, None) \<Rightarrow>
                    (let (c3, hooks3, decision) = age_gate E T env policy rq provenance c2 in
                     (c3, hooks1 @ hooks2 @ hooks3, decision)))))"

definition checker_Check ::
  "externals \<Rightarrow> 'db approval_table \<Rightarrow> check_env \<Rightarrow> request \<Rightarrow> 'db Checker \<Rightarrow> 'db Checker \<times> QuarantineEvent list \<times> Decision" where
  "checker_Check E T env rq c = check E T env rq None c"

definition CheckWithProvenance ::
  "externals \<Rightarrow> 'db approval_table \<Rightarrow> check_env \<Rightarrow> request \<Rightarrow> Provenance \<Rightarrow> 'db Checker \<Rightarrow>
     'db Checker \<times> QuarantineEvent list \<times> Decision" where
  "CheckWithProvenance E T env rq provenance c = check E T env rq (Some provenance) c"

subsection \<open>The adapters' gate\<close>

text \<open>
  \<open>internal/adapter/quarantine.go\<close>: a checker of the adapters is its method \<open>Check\<close> and, when it
  has one, its method \<open>CheckWithProvenance\<close>, over a state.
\<close>

record QuarantineDecision =
  qd_Allowed :: bool
  qd_Code :: string
  qd_Reason :: string
  qd_Warned :: bool

record 's QuarantineChecker =
  qk_Check :: "request \<Rightarrow> 's \<Rightarrow> 's \<times> QuarantineDecision"
  qk_CheckWithProvenance :: "(request \<Rightarrow> Provenance \<Rightarrow> 's \<Rightarrow> 's \<times> QuarantineDecision) option"

record gate_response =
  gr_status :: nat
  gr_code :: string
  gr_message :: string

text \<open>
  The process-wide checker of unscoped callers: \<open>InstallQuarantineChecker\<close> stores a new owned
  snapshot, here numbered, and its release clears the pointer only while it still holds it.
\<close>

type_synonym 's hooks = "(nat \<times> 's QuarantineChecker option) option"

definition InstallQuarantineChecker :: "nat \<Rightarrow> 's QuarantineChecker option \<Rightarrow> 's hooks \<Rightarrow> 's hooks" where
  "InstallQuarantineChecker owned checker h = Some (owned, checker)"

definition release_checker :: "nat \<Rightarrow> 's hooks \<Rightarrow> 's hooks" where
  "release_checker owned h =
     (case h of Some (current, checker) \<Rightarrow> if current = owned then None else h | None \<Rightarrow> None)"

definition SetQuarantineChecker :: "nat \<Rightarrow> 's QuarantineChecker option \<Rightarrow> 's hooks \<Rightarrow> 's hooks" where
  "SetQuarantineChecker fresh checker h = (case checker of None \<Rightarrow> None | Some c \<Rightarrow> Some (fresh, Some c))"

text \<open>
  \<open>installed\<close> is the process-wide checker, \<open>scope\<close> the checker of the request's scope when it
  has one. \<open>Some\<close> is a response that was written, for which the gate returns \<open>true\<close>.
\<close>

definition quarantineGate ::
  "'s QuarantineChecker option \<Rightarrow> 's QuarantineChecker option option \<Rightarrow> request \<Rightarrow> Provenance option \<Rightarrow> 's \<Rightarrow>
     's \<times> gate_response option" where
  "quarantineGate installed scope rq provenance s =
     (case (case scope of Some checker \<Rightarrow> checker | None \<Rightarrow> installed) of
        None \<Rightarrow> (s, None)
      | Some checker \<Rightarrow>
          if rq_pkg rq = [] \<or> rq_version rq = [] then (s, None)
          else (let (s', d) = (case provenance of
                   Some p \<Rightarrow> (case qk_CheckWithProvenance checker of
                       Some f \<Rightarrow> f rq p s
                     | None \<Rightarrow> qk_Check checker rq s)
                 | None \<Rightarrow> qk_Check checker rq s) in
            if qd_Allowed d then (s', None)
            else (s', Some \<lparr>gr_status = 451, gr_code = (if qd_Code d = [] then ''QUARANTINED'' else qd_Code d),
              gr_message = qd_Reason d\<rparr>)))"

text \<open>\<open>adapter_bridge.go\<close>; the state is the checker, nil or not, and the events its hook has received.\<close>

definition adapterDecision :: "Decision \<Rightarrow> QuarantineDecision" where
  "adapterDecision d =
     \<lparr>qd_Allowed = dn_Allowed d, qd_Code = dn_Code d, qd_Reason = dn_Reason d, qd_Warned = dn_Warned d\<rparr>"

definition allow_all :: QuarantineDecision where
  "allow_all = \<lparr>qd_Allowed = True, qd_Code = [], qd_Reason = [], qd_Warned = False\<rparr>"

type_synonym 'db bridge_state = "'db Checker option \<times> QuarantineEvent list"

definition bridge_Check ::
  "externals \<Rightarrow> 'db approval_table \<Rightarrow> check_env \<Rightarrow> request \<Rightarrow> 'db bridge_state \<Rightarrow> 'db bridge_state \<times> QuarantineDecision" where
  "bridge_Check E T env rq s =
     (case s of
        (None, sent) \<Rightarrow> (s, allow_all)
      | (Some c, sent) \<Rightarrow> (let (c', hooks, d) = checker_Check E T env rq c in ((Some c', sent @ hooks), adapterDecision d)))"

definition bridge_CheckWithProvenance ::
  "externals \<Rightarrow> 'db approval_table \<Rightarrow> check_env \<Rightarrow> request \<Rightarrow> Provenance \<Rightarrow> 'db bridge_state \<Rightarrow>
     'db bridge_state \<times> QuarantineDecision" where
  "bridge_CheckWithProvenance E T env rq provenance s =
     (case s of
        (None, sent) \<Rightarrow> (s, allow_all)
      | (Some c, sent) \<Rightarrow>
          (let (c', hooks, d) = CheckWithProvenance E T env rq provenance c in ((Some c', sent @ hooks), adapterDecision d)))"

definition Wrap :: "externals \<Rightarrow> 'db approval_table \<Rightarrow> check_env \<Rightarrow> 'db bridge_state QuarantineChecker" where
  "Wrap E T env = \<lparr>qk_Check = bridge_Check E T env, qk_CheckWithProvenance = Some (bridge_CheckWithProvenance E T env)\<rparr>"

subsection \<open>What each step does\<close>

lemma recordEvent_fields:
  assumes "recordEvent T env ev c = (c', hooks)"
  shows "ck_policy c' = ck_policy c" "ck_lookup c' = ck_lookup c" "ck_onBlock c' = ck_onBlock c"
    "ck_blocklist c' = ck_blocklist c" "ck_snapshot c' = ck_snapshot c" "ck_blocklistMode c' = ck_blocklistMode c"
  using assms by (auto simp: recordEvent_def Let_def split: prod.split_asm)

text \<open>The conditions of the three gates, as the documentation states them.\<close>

definition known_malicious :: "request \<Rightarrow> 'db Checker \<Rightarrow> bool" where
  "known_malicious rq c \<longleftrightarrow> rq_version rq \<noteq> [] \<and>
     (\<exists>bl m overridden err. ck_blocklist c = Some bl \<and>
        bl (rq_ecosystem rq) (rq_pkg rq) (rq_version rq) = (Some m, overridden, err) \<and> (\<not> overridden \<or> err \<noteq> None))"

definition outside_snapshot :: "request \<Rightarrow> 'db Checker \<Rightarrow> bool" where
  "outside_snapshot rq c \<longleftrightarrow> rq_version rq \<noteq> [] \<and>
     (\<exists>gate. ck_snapshot c = Some gate \<and>
        (\<forall>m. gate (rq_ecosystem rq) (rq_pkg rq) (rq_version rq) = Inr m \<longrightarrow> \<not> sm_Allowed m))"

definition publish_time ::
  "externals \<Rightarrow> 'db approval_table \<Rightarrow> check_env \<Rightarrow> Policy \<Rightarrow> request \<Rightarrow> Provenance option \<Rightarrow> 'db Checker \<Rightarrow> publish" where
  "publish_time E T env policy rq provenance c =
     (case provenance of
        None \<Rightarrow> snd (checker_lookup E T env rq c)
      | Some p \<Rightarrow>
          (case pv_PublishAt p of
             Some t \<Rightarrow> if SourceProvenanceBound E (Some policy) (rq_ecosystem rq) \<and> pv_SourceID p \<noteq> []
               then Inr t else Inl [ErrMissingProvenance]
           | None \<Rightarrow> Inl [ErrMissingProvenance]))"

definition not_aged :: "check_env \<Rightarrow> Policy \<Rightarrow> int \<Rightarrow> publish \<Rightarrow> bool" where
  "not_aged env policy threshold answer \<longleftrightarrow>
     (case answer of
        Inl err \<Rightarrow> qp_FailClosed policy \<and> \<not> errors_Is err ErrUpstreamUnavailable
      | Inr t \<Rightarrow> ce_now env - t < threshold)"

definition age_violation ::
  "externals \<Rightarrow> 'db approval_table \<Rightarrow> check_env \<Rightarrow> Policy \<Rightarrow> request \<Rightarrow> Provenance option \<Rightarrow> 'db Checker \<Rightarrow> bool" where
  "age_violation E T env policy rq provenance c \<longleftrightarrow>
     (let threshold = Threshold E (Some policy) (rq_ecosystem rq) in
      threshold > 0 \<and> rq_version rq \<noteq> [] \<and>
      \<not> AllowList_Match E (qp_Allow policy) (rq_ecosystem rq) (rq_pkg rq) (rq_version rq) \<and>
      IsApproved E T (ck_store c) (rq_ecosystem rq) (rq_pkg rq) (rq_version rq) \<noteq> Inr True \<and>
      not_aged env policy threshold (publish_time E T env policy rq provenance c))"

lemma logged_fields:
  assumes "logged T env ev d c = (c', hooks, d')"
  shows "d' = d" "ck_policy c' = ck_policy c" "ck_lookup c' = ck_lookup c" "ck_onBlock c' = ck_onBlock c"
    "ck_blocklist c' = ck_blocklist c" "ck_snapshot c' = ck_snapshot c" "ck_blocklistMode c' = ck_blocklistMode c"
  using assms recordEvent_fields [of T env ev c] by (auto simp: logged_def split: prod.split_asm)

lemma logged_iff: "logged T env ev d c = (c', hooks, d') \<longleftrightarrow> d' = d \<and> recordEvent T env ev c = (c', hooks)"
  by (auto simp: logged_def split: prod.split)

text \<open>The events a step may write.\<close>

lemma malware_step_cases:
  assumes "malware_step T env rq c = (c', hooks, d)"
  obtains (clean) "\<not> known_malicious rq c" "c' = c" "hooks = []" "d = None"
    | (override) m where "\<not> known_malicious rq c" "d = None"
        "recordEvent T env (request_event rq ActionMalwareBypassed (override_note m) 0 0) c = (c', hooks)"
    | (observed) reason where "known_malicious rq c" "ck_blocklistMode c = ModeWarn"
        "recordEvent T env (request_event rq ActionMalwareWarned reason 0 0) c = (c', hooks)"
        "d = Some (zero_decision\<lparr>dn_Allowed := True, dn_Warned := True, dn_Code := CodeMaliciousBlocked, dn_Reason := reason\<rparr>)"
    | (refused) reason where "known_malicious rq c" "ck_blocklistMode c \<noteq> ModeWarn"
        "recordEvent T env (request_event rq ActionMalwareBlocked reason 0 0) c = (c', hooks)"
        "d = Some (zero_decision\<lparr>dn_Code := CodeMaliciousBlocked, dn_Reason := reason\<rparr>)"
  using assms
  by (auto simp: malware_step_def known_malicious_def logged_iff Let_def split: option.split_asm prod.split_asm if_splits)

lemma snapshot_step_cases:
  assumes "snapshot_step T env rq c = (c', hooks, d)"
  obtains (inside) "\<not> outside_snapshot rq c" "c' = c" "hooks = []" "d = None"
    | (outside) reason where "outside_snapshot rq c"
        "recordEvent T env (request_event rq ActionSnapshotBlocked reason 0 0) c = (c', hooks)"
        "d = Some (zero_decision\<lparr>dn_Code := CodeSnapshotBlocked, dn_Reason := reason\<rparr>)"
  using assms
  by (auto simp: snapshot_step_def outside_snapshot_def snapshot_block_def logged_iff
      split: option.split_asm sum.split_asm if_splits)

lemma time_Sub_less: "0 < th \<Longrightarrow> th < 2 ^ 63 \<Longrightarrow> time_Sub t u < th \<longleftrightarrow> t - u < th"
  by (auto simp: time_Sub_def)

text \<open>The two ends of the age gate: the answer is refused, observed or served.\<close>

lemma handleLookupError_cases:
  assumes "handleLookupError T env policy rq threshold err c = (c', hooks, d)"
  obtains (served) "\<not> not_aged env policy threshold (Inl err)" "dn_Allowed d" "\<not> dn_Warned d" "c' = c" "hooks = []"
    | (observed) ev where "not_aged env policy threshold (Inl err)" "qp_Mode policy = ModeWarn" "dn_Allowed d" "dn_Warned d"
        "recordEvent T env ev c = (c', hooks)" "ev_Action ev = ActionWarned"
    | (refused) reason secs age where "not_aged env policy threshold (Inl err)" "qp_Mode policy \<noteq> ModeWarn" "\<not> dn_Allowed d"
        "recordEvent T env (request_event rq ActionBlocked reason secs age) c = (c', hooks)"
        "dn_Reason d = reason" "dn_Code d = CodeQuarantined"
  using assms
  by (auto simp: handleLookupError_def not_aged_def logged_iff zero_decision_def request_event_def Let_def split: if_splits)

lemma threshold_check_cases:
  assumes "threshold_check T env policy rq provenance threshold t note c = (c', hooks, d)" and "0 < threshold" "threshold < 2 ^ 63"
  obtains (served) "\<not> not_aged env policy threshold (Inr t)" "dn_Allowed d" "\<not> dn_Warned d" "c' = c" "hooks = []"
    | (observed) ev where "not_aged env policy threshold (Inr t)" "qp_Mode policy = ModeWarn" "dn_Allowed d" "dn_Warned d"
        "recordEvent T env ev c = (c', hooks)" "ev_Action ev = ActionWarned"
    | (refused) reason secs age where "not_aged env policy threshold (Inr t)" "qp_Mode policy \<noteq> ModeWarn" "\<not> dn_Allowed d"
        "recordEvent T env (request_event rq ActionBlocked reason secs age) c = (c', hooks)"
        "dn_Reason d = reason" "dn_Code d = CodeQuarantined"
  using assms
  by (auto simp: threshold_check_def not_aged_def logged_iff zero_decision_def request_event_def Let_def
      time_Sub_less split: if_splits)

text \<open>The checker whose store the age gate has written to when it decides.\<close>

definition age_state ::
  "externals \<Rightarrow> 'db approval_table \<Rightarrow> check_env \<Rightarrow> request \<Rightarrow> Provenance option \<Rightarrow> 'db Checker \<Rightarrow> 'db Checker" where
  "age_state E T env rq provenance c = (case provenance of None \<Rightarrow> fst (checker_lookup E T env rq c) | Some _ \<Rightarrow> c)"

lemma age_gate_decided:
  assumes "Threshold E (Some policy) (rq_ecosystem rq) > 0" and "rq_version rq \<noteq> []"
    and "\<not> AllowList_Match E (qp_Allow policy) (rq_ecosystem rq) (rq_pkg rq) (rq_version rq)"
    and "IsApproved E T (ck_store c) (rq_ecosystem rq) (rq_pkg rq) (rq_version rq) \<noteq> Inr True"
  shows "\<exists>note. age_gate E T env policy rq provenance c =
    (case publish_time E T env policy rq provenance c of
       Inl err \<Rightarrow> handleLookupError T env policy rq (Threshold E (Some policy) (rq_ecosystem rq)) err (age_state E T env rq provenance c)
     | Inr t \<Rightarrow> threshold_check T env policy rq provenance (Threshold E (Some policy) (rq_ecosystem rq)) t note
         (age_state E T env rq provenance c))"
  using assms
  by (cases provenance; cases "checker_lookup E T env rq c")
    (auto simp: age_gate_def publish_time_def age_state_def Let_def split: option.split sum.split)

lemma age_gate_cases:
  assumes "age_gate E T env policy rq provenance c = (c', hooks, d)"
    and "Threshold E (Some policy) (rq_ecosystem rq) < 2 ^ 63"
  obtains (served) "\<not> age_violation E T env policy rq provenance c" "dn_Allowed d" "hooks = []"
    | (observed) "age_violation E T env policy rq provenance c" "qp_Mode policy = ModeWarn" "dn_Allowed d" "hooks = []"
    | (refused) reason secs age where "age_violation E T env policy rq provenance c" "qp_Mode policy \<noteq> ModeWarn" "\<not> dn_Allowed d"
        "recordEvent T env (request_event rq ActionBlocked reason secs age) (age_state E T env rq provenance c) = (c', hooks)"
        "dn_Reason d = reason" "dn_Code d = CodeQuarantined"
proof -
  let ?th = "Threshold E (Some policy) (rq_ecosystem rq)"
  have quiet: "hooks = []" if "recordEvent T env ev c0 = (c', hooks)" "ev_Action ev = ActionWarned \<or> ev_Action ev = ActionBypassed" for ev c0
    using that by (auto simp: recordEvent_def Let_def action_defs split: prod.split_asm option.split_asm if_splits)
  show thesis
  proof (cases "?th > 0 \<and> rq_version rq \<noteq> [] \<and>
      \<not> AllowList_Match E (qp_Allow policy) (rq_ecosystem rq) (rq_pkg rq) (rq_version rq) \<and>
      IsApproved E T (ck_store c) (rq_ecosystem rq) (rq_pkg rq) (rq_version rq) \<noteq> Inr True")
    case False
    then have "\<not> age_violation E T env policy rq provenance c" by (auto simp: age_violation_def Let_def)
    moreover have "dn_Allowed d" "hooks = []"
      using assms(1) False quiet
      by (auto simp: age_gate_def Let_def logged_iff zero_decision_def request_event_def split: if_splits)
    ultimately show thesis using served by blast
  next
    case True
    let ?p = "publish_time E T env policy rq provenance c" and ?c = "age_state E T env rq provenance c"
    have v: "age_violation E T env policy rq provenance c \<longleftrightarrow> not_aged env policy ?th ?p"
      using True by (simp add: age_violation_def Let_def)
    obtain src where gate: "(case ?p of Inl err \<Rightarrow> handleLookupError T env policy rq ?th err ?c
        | Inr t \<Rightarrow> threshold_check T env policy rq provenance ?th t src ?c) = (c', hooks, d)"
      using age_gate_decided [of E policy rq T c env provenance] True assms(1) by auto
    show thesis
    proof (cases ?p)
      case (Inl err)
      then have "handleLookupError T env policy rq ?th err ?c = (c', hooks, d)" using gate by simp
      then show thesis
        by (cases rule: handleLookupError_cases) (use v Inl served observed refused quiet in auto)
    next
      case (Inr t)
      then have "threshold_check T env policy rq provenance ?th t src ?c = (c', hooks, d)" using gate by simp
      moreover have "0 < ?th" using True by simp
      ultimately show thesis using assms(2)
        by (cases rule: threshold_check_cases) (use v Inr served observed refused quiet in auto)
    qed
  qed
qed

subsection \<open>Properties of the decision\<close>

lemma check_cases:
  assumes "check E T env rq provenance c = (c', hooks, d)" and "ck_policy c = Some policy"
  obtains (malware) "known_malicious rq c" "malware_step T env rq c = (c', hooks, Some d)"
    | (snapshot) c1 hooks1 hooks2 where "\<not> known_malicious rq c" "malware_step T env rq c = (c1, hooks1, None)"
        "outside_snapshot rq c" "snapshot_step T env rq c1 = (c', hooks2, Some d)" "hooks = hooks1 @ hooks2"
    | (age) c1 hooks1 hooks3 where "\<not> known_malicious rq c" "malware_step T env rq c = (c1, hooks1, None)"
        "\<not> outside_snapshot rq c" "age_gate E T env policy rq provenance c1 = (c', hooks3, d)" "hooks = hooks1 @ hooks3"
proof -
  obtain c1 hooks1 d1 where m: "malware_step T env rq c = (c1, hooks1, d1)" by (meson prod_cases3)
  have d1: "d1 = None \<longleftrightarrow> \<not> known_malicious rq c" using m by (cases rule: malware_step_cases) auto
  have snap: "ck_snapshot c1 = ck_snapshot c"
    using m by (cases rule: malware_step_cases) (auto dest: recordEvent_fields)
  obtain c2 hooks2 d2 where s: "snapshot_step T env rq c1 = (c2, hooks2, d2)" by (meson prod_cases3)
  have d2: "d2 = None \<longleftrightarrow> \<not> outside_snapshot rq c1" "d2 = None \<longrightarrow> c2 = c1 \<and> hooks2 = []"
    using s by (cases rule: snapshot_step_cases; auto)+
  have outside: "outside_snapshot rq c1 = outside_snapshot rq c" using snap by (simp add: outside_snapshot_def)
  show thesis
  proof (cases d1)
    case (Some x)
    then show thesis using malware assms d1 m by (auto simp: check_def)
  next
    case None
    show thesis
    proof (cases d2)
      case (Some x)
      then show thesis using snapshot [of c1 hooks1 hooks2] None assms d1 d2 m s outside by (auto simp: check_def)
    next
      case n2: None
      then show thesis using age [of c1 hooks1] None assms d1 d2 m s outside
        by (auto simp: check_def Let_def split: prod.split_asm)
    qed
  qed
qed

lemma refused_iff:
  assumes "ck_policy c = Some policy" and "Threshold E (Some policy) (rq_ecosystem rq) < 2 ^ 63"
    and "check E T env rq provenance c = (c', hooks, d)"
  shows "(\<not> dn_Allowed d \<longleftrightarrow>
      (if known_malicious rq c then ck_blocklistMode c \<noteq> ModeWarn
       else outside_snapshot rq c \<or>
         qp_Mode policy \<noteq> ModeWarn \<and> age_violation E T env policy rq provenance (fst (malware_step T env rq c)))) \<and>
    (\<not> dn_Allowed d \<longrightarrow> dn_Code d =
      (if known_malicious rq c then CodeMaliciousBlocked
       else if outside_snapshot rq c then CodeSnapshotBlocked else CodeQuarantined))"
  using assms(3,1)
proof (cases rule: check_cases)
  case malware
  from malware(2) show ?thesis
    by (cases rule: malware_step_cases) (use malware(1) in \<open>simp_all add: zero_decision_def\<close>)
next
  case (snapshot c1 hooks1 hooks2)
  from snapshot(4) show ?thesis
    by (cases rule: snapshot_step_cases) (use snapshot in \<open>simp_all add: zero_decision_def\<close>)
next
  case (age c1 hooks1 hooks3)
  from age(4) assms(2) show ?thesis
    by (cases rule: age_gate_cases) (use age in simp_all)
qed


text \<open>A registry whose only version is a day old, under a policy of two days for npm that fails closed.\<close>

definition two_day_policy :: Policy where
  "two_day_policy =
     \<lparr>qp_ageGateEnabled = True, qp_sourceProvenanceBound = Some (\<lambda>e. e = ''npm''), qp_approximateProvenance = [],
      qp_observationProvenance = [], qp_Thresholds = [''npm'' \<mapsto> 48 * hour], qp_Default = 0, qp_Mode = ModeBlock,
      qp_Allow = Some [], qp_FailClosed = True\<rparr>"

definition sample_checker :: "lists Checker" where
  "sample_checker =
     \<lparr>ck_policy = Some two_day_policy, ck_lookup = Some (NewLookup True), ck_store = Some ([], []), ck_onBlock = True,
      ck_blocklist = None, ck_snapshot = None, ck_blocklistMode = ModeBlock\<rparr>"

definition sample_env :: "publish option \<Rightarrow> check_env" where
  "sample_env answer =
     \<lparr>ce_now = 72 * hour, ce_stamp = 72 * hour, ce_resolver = answer, ce_error = [], ce_quote = (\<lambda>s. s),
      ce_Seconds = (\<lambda>d. tdiv d 1000000000)\<rparr>"

definition sample_request :: request where
  "sample_request = \<lparr>rq_ecosystem = ''npm'', rq_pkg = ''left-pad'', rq_version = ''1.2.0'', rq_clientIP = ''10.0.0.1''\<rparr>"

definition check_sample :: "publish option \<Rightarrow> lists Checker \<Rightarrow> lists Checker \<times> QuarantineEvent list \<times> Decision" where
  "check_sample answer c = checker_Check ascii_externals lists_table (sample_env answer) sample_request c"

lemma sample_threshold: "Threshold ascii_externals (Some two_day_policy) (rq_ecosystem sample_request) < 2 ^ 63"
  by code_simp


subsection \<open>The trail of a refusal\<close>












subsection \<open>After an outage\<close>

text \<open>Requests in any order, each with its own environment, and the decisions they got.\<close>

fun decisions ::
  "externals \<Rightarrow> 'db approval_table \<Rightarrow> (request \<times> check_env) list \<Rightarrow> 'db Checker \<Rightarrow> (request \<times> Decision) list" where
  "decisions E T [] c = []"
| "decisions E T ((rq, env) # calls) c = (let (c', hooks, d) = checker_Check E T env rq c in (rq, d) # decisions E T calls c')"

definition lookup_key :: "externals \<Rightarrow> request \<Rightarrow> string" where
  "lookup_key E rq = memKey (ToLower E (rq_ecosystem rq)) (rq_pkg rq) (rq_version rq)"

definition remembers :: "string \<Rightarrow> publish \<Rightarrow> nat \<Rightarrow> 'db Checker \<Rightarrow> bool" where
  "remembers key answer room c \<longleftrightarrow>
     (\<exists>l. ck_lookup c = Some l \<and> map_of (lk_mem l) key = Some answer \<and> length (lk_mem l) + room \<le> memLimit)"

lemma remembers_same: "ck_lookup c' = ck_lookup c \<Longrightarrow> remembers key answer room c' = remembers key answer room c"
  by (simp add: remembers_def)

lemma remembers_less: "remembers key answer (Suc room) c \<Longrightarrow> ck_lookup c' = ck_lookup c \<Longrightarrow> remembers key answer room c'"
  by (auto simp: remembers_def)

lemma checker_lookup_effect:
  assumes "checker_lookup E T env rq c = (c', answer)" and "ck_lookup c = Some l"
  shows "ck_lookup c' = Some l \<and> map_of (lk_mem l) (lookup_key E rq) = Some answer \<or>
    ck_lookup c' = Some (memorize (lookup_key E rq) answer l) \<and> map_of (lk_mem l) (lookup_key E rq) = None"
proof -
  let ?env = "\<lparr>le_db = LookupTimestamp T (ck_store c) (ToLower E (rq_ecosystem rq)) (rq_pkg rq) (rq_version rq),
    le_resolver = ce_resolver env\<rparr>"
  obtain lo saved where g: "lookup_Get E ?env (Some l) (rq_ecosystem rq) (rq_pkg rq) (rq_version rq) = (lo, answer, saved)"
    "ck_lookup c' = lo"
    using assms by (auto simp: checker_lookup_def Let_def split: prod.split_asm)
  then show ?thesis using Get_effect [OF g(1)] by (auto simp: lookup_key_def)
qed

lemma lookup_keeps:
  assumes "checker_lookup E T env rq c = (c', answer')" and "remembers key answer (Suc room) c"
  shows "remembers key answer room c' \<and> (lookup_key E rq = key \<longrightarrow> answer' = answer)"
proof -
  obtain l where l: "ck_lookup c = Some l" "map_of (lk_mem l) key = Some answer" "length (lk_mem l) + Suc room \<le> memLimit"
    using assms(2) by (auto simp: remembers_def)
  from checker_lookup_effect [OF assms(1) l(1)] show ?thesis
  proof (elim disjE conjE)
    assume "ck_lookup c' = Some (memorize (lookup_key E rq) answer' l)" "map_of (lk_mem l) (lookup_key E rq) = None"
    moreover from this have "key \<noteq> lookup_key E rq" using l(2) by auto
    ultimately show ?thesis
      using l memorize_lookup [of "lookup_key E rq" answer' l key] memorize_length [of l "lookup_key E rq" answer']
      by (auto simp: remembers_def)
  qed (use l in \<open>auto simp: remembers_def\<close>)
qed

lemma lookup_remembers:
  assumes "ck_lookup c = Some l" and "checker_lookup E T env rq c = (c', answer)" and "length (lk_mem l) + room < memLimit"
  shows "remembers (lookup_key E rq) answer room c'"
  using checker_lookup_effect [OF assms(2,1)] assms(3) memorize_length [of l "lookup_key E rq" answer]
  by (auto simp: remembers_def memorize_lookup)

text \<open>What the age gate does to the memory tier, and to a version whose answer is an outage.\<close>

lemma handleLookupError_lookup:
  "handleLookupError T env policy rq threshold err c = (c', hooks, d) \<Longrightarrow> ck_lookup c' = ck_lookup c \<and> ck_policy c' = ck_policy c"
  by (auto simp: handleLookupError_def Let_def logged_iff dest: recordEvent_fields split: if_splits)

lemma threshold_check_lookup:
  "threshold_check T env policy rq provenance threshold t sourceNote c = (c', hooks, d) \<Longrightarrow> ck_lookup c' = ck_lookup c \<and> ck_policy c' = ck_policy c"
  by (auto simp: threshold_check_def Let_def logged_iff dest: recordEvent_fields split: if_splits)

lemma age_gate_lookup:
  assumes "age_gate E T env policy rq None c = (c', hooks, d)"
  shows "ck_policy c' = ck_policy c"
    and "ck_lookup c' = ck_lookup c \<and> dn_Allowed d \<or> ck_lookup c' = ck_lookup (fst (checker_lookup E T env rq c)) \<and>
      (\<forall>err. snd (checker_lookup E T env rq c) = Inl err \<and> errors_Is err ErrUpstreamUnavailable \<longrightarrow> dn_Allowed d)"
proof -
  obtain c1 answer where g: "checker_lookup E T env rq c = (c1, answer)" by fastforce
  have p: "ck_policy c1 = ck_policy c" using g by (auto simp: checker_lookup_def Let_def split: prod.split_asm)
  show "ck_policy c' = ck_policy c"
    using assms g p
    by (auto simp: age_gate_def Let_def logged_iff split: if_splits sum.split_asm
        dest: recordEvent_fields handleLookupError_lookup threshold_check_lookup)
  show "ck_lookup c' = ck_lookup c \<and> dn_Allowed d \<or> ck_lookup c' = ck_lookup (fst (checker_lookup E T env rq c)) \<and>
      (\<forall>err. snd (checker_lookup E T env rq c) = Inl err \<and> errors_Is err ErrUpstreamUnavailable \<longrightarrow> dn_Allowed d)"
  proof (cases "age_gate E T env policy rq None c = (case answer of
      Inl err \<Rightarrow> handleLookupError T env policy rq (Threshold E (Some policy) (rq_ecosystem rq)) err c1
    | Inr t \<Rightarrow> threshold_check T env policy rq None (Threshold E (Some policy) (rq_ecosystem rq)) t [] c1)")
    case True
    then have "ck_lookup c' = ck_lookup c1"
      using assms by (auto split: sum.split_asm dest!: sym [of "(c', hooks, d)"] handleLookupError_lookup threshold_check_lookup)
    moreover have "dn_Allowed d" if "answer = Inl err" "errors_Is err ErrUpstreamUnavailable" for err
      using True assms that by (auto simp: handleLookupError_def zero_decision_def)
    ultimately show ?thesis using g by auto
  next
    case False
    then show ?thesis
      using assms g by (auto simp: age_gate_def Let_def logged_iff zero_decision_def dest: recordEvent_fields split: if_splits sum.split_asm)
  qed
qed

text \<open>One request while the outage is remembered: it stays remembered, and the age gate does not refuse its version.\<close>

lemma check_remembered:
  assumes "checker_Check E T env rq c = (c', hooks, d)" and "ck_policy c = Some policy"
    and "remembers key (Inl err) (Suc room) c" and "errors_Is err ErrUpstreamUnavailable"
  shows "remembers key (Inl err) room c' \<and> ck_policy c' = Some policy \<and>
    (lookup_key E rq = key \<and> \<not> dn_Allowed d \<longrightarrow> dn_Code d \<in> {CodeMaliciousBlocked, CodeSnapshotBlocked})"
  using assms(1,2) unfolding checker_Check_def
proof (cases rule: check_cases)
  case malware
  from malware(2) have "ck_lookup c' = ck_lookup c \<and> ck_policy c' = ck_policy c \<and> dn_Code d = CodeMaliciousBlocked"
    by (cases rule: malware_step_cases) (auto dest: recordEvent_fields)
  then show ?thesis using assms(2) remembers_less [OF assms(3)] by auto
next
  case (snapshot c1 hooks1 hooks2)
  have 1: "ck_lookup c1 = ck_lookup c \<and> ck_policy c1 = ck_policy c"
    using snapshot(2) by (cases rule: malware_step_cases) (auto dest: recordEvent_fields)
  from snapshot(4) have "ck_lookup c' = ck_lookup c1 \<and> ck_policy c' = ck_policy c1 \<and> dn_Code d = CodeSnapshotBlocked"
    by (cases rule: snapshot_step_cases) (auto dest: recordEvent_fields)
  then show ?thesis using 1 assms(2) remembers_less [OF assms(3)] by auto
next
  case (age c1 hooks1 hooks3)
  have 1: "ck_lookup c1 = ck_lookup c" "ck_policy c1 = ck_policy c"
    using age(2) by (cases rule: malware_step_cases; auto dest: recordEvent_fields)+
  obtain c2 answer where g: "checker_lookup E T env rq c1 = (c2, answer)" by fastforce
  have r: "remembers key (Inl err) (Suc room) c1" using 1(1) assms(3) remembers_same by blast
  note keep = lookup_keeps [OF g r]
  have "remembers key (Inl err) room c'"
    using age_gate_lookup(2) [OF age(4)] g keep remembers_less [OF r, of c'] remembers_same [of c' c2] by auto
  moreover have "dn_Allowed d" if "lookup_key E rq = key"
    using age_gate_lookup(2) [OF age(4)] g keep assms(4) that by auto
  ultimately show ?thesis using age_gate_lookup(1) [OF age(4)] 1(2) assms(2) by auto
qed

lemma decisions_remembered:
  assumes "errors_Is err ErrUpstreamUnavailable" and "remembers key (Inl err) (length calls) c" and "ck_policy c = Some policy"
    and "(rq, d) \<in> set (decisions E T calls c)" and "lookup_key E rq = key" and "\<not> dn_Allowed d"
  shows "dn_Code d \<in> {CodeMaliciousBlocked, CodeSnapshotBlocked}"
  using assms(2-4)
proof (induction calls arbitrary: c)
  case (Cons call calls)
  obtain rq' env where call: "call = (rq', env)" by fastforce
  obtain c' hooks d' where g: "checker_Check E T env rq' c = (c', hooks, d')" by (meson prod_cases3)
  from check_remembered [OF g Cons.prems(2) _ assms(1), of key "length calls"] Cons.prems(1)
  have "remembers key (Inl err) (length calls) c'" "ck_policy c' = Some policy"
    "lookup_key E rq' = key \<and> \<not> dn_Allowed d' \<longrightarrow> dn_Code d' \<in> {CodeMaliciousBlocked, CodeSnapshotBlocked}" by auto
  then show ?case using Cons.IH [of c'] Cons.prems(3) call g assms(5,6) by auto
qed simp

text \<open>
  C40: One outage opens the age gate for a version. A request reaches the lookup of the publish
  time and the registry is unavailable. From then on, whatever requests follow, in whatever order
  and whatever the registry and the database answer them, a request for the same version that
  brings no provenance of its own is refused, if at all, as malware or by the snapshot, never for
  its age; this holds while the entries of the memory tier at the first request and the requests
  after it are together fewer than 4096, the size at which the tier is dropped.
\<close>

theorem outage_opens_age_gate:
  assumes "ck_policy c = Some policy" and "ck_lookup c = Some l" and "length (lk_mem l) + length later < 4096"
    and "\<not> known_malicious rq c" and "\<not> outside_snapshot rq c" and "fst (malware_step T env rq c) = c1"
    and "Threshold E (Some policy) (rq_ecosystem rq) > 0" and "rq_version rq \<noteq> []"
    and "\<not> AllowList_Match E (qp_Allow policy) (rq_ecosystem rq) (rq_pkg rq) (rq_version rq)"
    and "IsApproved E T (ck_store c1) (rq_ecosystem rq) (rq_pkg rq) (rq_version rq) \<noteq> Inr True"
    and "snd (checker_lookup E T env rq c1) = Inl err" and "errors_Is err ErrUpstreamUnavailable"
    and "(rq', d) \<in> set (decisions E T ((rq, env) # later) c)" and "\<not> dn_Allowed d"
    and "(ToLower E (rq_ecosystem rq'), rq_pkg rq', rq_version rq') = (ToLower E (rq_ecosystem rq), rq_pkg rq, rq_version rq)"
  shows "dn_Code d = CodeMaliciousBlocked \<or> dn_Code d = CodeSnapshotBlocked"
proof -
  obtain c' hooks d' where run: "checker_Check E T env rq c = (c', hooks, d')" by (meson prod_cases3)
  from run [unfolded checker_Check_def] assms(1)
  have "dn_Allowed d' \<and> ck_policy c' = Some policy \<and> remembers (lookup_key E rq) (Inl err) (length later) c'"
  proof (cases rule: check_cases)
    case (age c0 hooks1 hooks3)
    have c1: "c0 = c1" using age(2) assms(6) by simp
    have 1: "ck_lookup c1 = Some l" "ck_policy c1 = Some policy"
      using age(2) assms(1,2) unfolding c1 by (cases rule: malware_step_cases; auto dest: recordEvent_fields)+
    obtain c2 where g: "checker_lookup E T env rq c1 = (c2, Inl err)" using assms(11) by (metis prod.collapse)
    have r: "remembers (lookup_key E rq) (Inl err) (length later) c2"
      by (rule lookup_remembers [OF 1(1) g]) (use assms(3) in \<open>simp add: memLimit_def\<close>)
    have "age_gate E T env policy rq None c1 =
        (c2, [], zero_decision\<lparr>dn_Allowed := True, dn_Threshold := Threshold E (Some policy) (rq_ecosystem rq)\<rparr>)"
      using assms(7-10,12) g by (simp add: age_gate_def Let_def handleLookupError_def)
    then have "c' = c2" "dn_Allowed d'" using age(4) unfolding c1 by auto
    then show ?thesis using r age_gate_lookup(1) [OF age(4)] 1(2) unfolding c1 by simp
  qed (use assms(4,5) in auto)
  moreover have "lookup_key E rq' = lookup_key E rq" using assms(15) by (simp add: lookup_key_def)
  moreover have "(rq', d) = (rq, d') \<or> (rq', d) \<in> set (decisions E T later c')" using assms(13) run by auto
  ultimately show ?thesis using decisions_remembered [OF assms(12), of "lookup_key E rq" later c' policy rq' d E T] assms(14) by auto
qed

text \<open>The registry is back and says that the version was published this moment; it is served.\<close>

theorem outage_opens_age_gate_witness:
  "\<exists>d1 d2. decisions ascii_externals lists_table
     [(sample_request, sample_env (Some (Inl [ErrUpstreamUnavailable]))), (sample_request, sample_env (Some (Inr (72 * hour))))]
     sample_checker = [(sample_request, d1), (sample_request, d2)] \<and> dn_Allowed d1 \<and> dn_Allowed d2"
proof -
  let ?down = "sample_env (Some (Inl [ErrUpstreamUnavailable]))" and ?up = "sample_env (Some (Inr (72 * hour)))"
  let ?run = "decisions ascii_externals lists_table [(sample_request, ?down), (sample_request, ?up)] sample_checker"
  obtain d1 d2 where run: "?run = [(sample_request, d1), (sample_request, d2)]" by (simp add: case_prod_beta)
  have step: "malware_step lists_table ?down sample_request sample_checker = (sample_checker, [], None)"
    by (simp add: malware_step_def sample_checker_def)
  have hyp: "ck_policy sample_checker = Some two_day_policy" "ck_lookup sample_checker = Some (NewLookup True)"
    "length (lk_mem (NewLookup True)) + length [(sample_request, ?up)] < 4096"
    "\<not> known_malicious sample_request sample_checker" "\<not> outside_snapshot sample_request sample_checker"
    by (simp_all add: sample_checker_def known_malicious_def outside_snapshot_def NewLookup_def)
  have rest: "Threshold ascii_externals (Some two_day_policy) (rq_ecosystem sample_request) > 0" "rq_version sample_request \<noteq> []"
    "IsApproved ascii_externals lists_table (ck_store sample_checker) (rq_ecosystem sample_request) (rq_pkg sample_request)
      (rq_version sample_request) \<noteq> Inr True"
    "snd (checker_lookup ascii_externals lists_table ?down sample_request sample_checker) = Inl [ErrUpstreamUnavailable]"
    by code_simp+
  have allow: "\<not> AllowList_Match ascii_externals (qp_Allow two_day_policy) (rq_ecosystem sample_request) (rq_pkg sample_request)
      (rq_version sample_request)"
    by (simp add: two_day_policy_def AllowList_Match_def)
  have "dn_Code d = CodeMaliciousBlocked \<or> dn_Code d = CodeSnapshotBlocked" if "(sample_request, d) \<in> set ?run" "\<not> dn_Allowed d" for d
    by (rule outage_opens_age_gate [OF hyp _ rest(1,2) allow rest(3,4) _ that])
      (use step in \<open>simp_all add: errors_Is_def\<close>)
  moreover have "list_all (\<lambda>(rq, d). dn_Code d \<noteq> CodeMaliciousBlocked \<and> dn_Code d \<noteq> CodeSnapshotBlocked) ?run" by code_simp
  ultimately have "dn_Allowed d1" "dn_Allowed d2" unfolding run by auto
  then show ?thesis using run by blast
qed

subsection \<open>Observed malware\<close>

text \<open>
  The observe mode of the blocklist is not independent of the other gates, as the field of
  the checker says it is. A version that is known to be malicious is then served although the
  active snapshot excludes it and although it is too young: the warning returns before the two
  gates are asked, which would refuse the same version if the blocklist did not name it.
\<close>

theorem observed_malware_skips_the_gates:
  assumes "ck_policy c = Some policy" and "Threshold E (Some policy) (rq_ecosystem rq) < 2 ^ 63"
    and "ck_blocklistMode c = ModeWarn" and "known_malicious rq c"
    and "outside_snapshot rq c \<or> qp_Mode policy \<noteq> ModeWarn \<and> age_violation E T env policy rq provenance c"
  shows "dn_Allowed (snd (snd (check E T env rq provenance c))) \<and>
    \<not> dn_Allowed (snd (snd (check E T env rq provenance (SetBlocklist None c))))"
proof -
  obtain c1 hooks1 d1 where m: "malware_step T env rq c = (c1, hooks1, d1)" by (meson prod_cases3)
  have served: "\<exists>d. d1 = Some d \<and> dn_Allowed d"
    using m by (cases rule: malware_step_cases) (use assms(3,4) in \<open>auto simp: zero_decision_def\<close>)
  let ?c = "SetBlocklist None c"
  have store: "ck_store ?c = ck_store c" "ck_lookup ?c = ck_lookup c" "ck_policy ?c = Some policy"
    "ck_snapshot ?c = ck_snapshot c" "ck_blocklist ?c = None"
    using assms(1) by (simp_all add: SetBlocklist_def)
  then have free: "\<not> known_malicious rq ?c" "malware_step T env rq ?c = (?c, [], None)"
    by (simp_all add: known_malicious_def malware_step_def)
  have "snd (checker_lookup E T env rq ?c) = snd (checker_lookup E T env rq c)"
    using store by (simp add: checker_lookup_def Let_def case_prod_beta)
  then have "publish_time E T env policy rq provenance ?c = publish_time E T env policy rq provenance c"
    by (cases provenance) (simp_all add: publish_time_def)
  then have "age_violation E T env policy rq provenance ?c = age_violation E T env policy rq provenance c"
    using store by (simp add: age_violation_def)
  moreover have "outside_snapshot rq ?c = outside_snapshot rq c" using store by (simp add: outside_snapshot_def)
  moreover obtain c' hooks d where run: "check E T env rq provenance ?c = (c', hooks, d)" by (meson prod_cases3)
  ultimately have "\<not> dn_Allowed d" using refused_iff [OF store(3) assms(2) run] free assms(5) by simp
  then show ?thesis using served m run assms(1) by (auto simp: check_def)
qed

theorem observed_malware_skips_the_gates_witness:
  "dn_Allowed (snd (snd (check_sample (Some (Inr (71 * hour))) (sample_checker\<lparr>ck_blocklistMode := ModeWarn, ck_blocklist :=
     Some (\<lambda>e p v. (Some \<lparr>bm_SourceID = ''MAL-1'', bm_Summary = ''steals tokens''\<rparr>, False, None))\<rparr>)))) \<and>
   \<not> dn_Allowed (snd (snd (check_sample (Some (Inr (71 * hour))) (sample_checker\<lparr>ck_blocklistMode := ModeWarn\<rparr>))))"
proof -
  let ?bl = "\<lambda>e p v. (Some \<lparr>bm_SourceID = ''MAL-1'', bm_Summary = ''steals tokens''\<rparr>, False, None)"
  let ?c = "sample_checker\<lparr>ck_blocklistMode := ModeWarn, ck_blocklist := Some ?bl\<rparr>" and ?env = "sample_env (Some (Inr (71 * hour)))"
  have "ck_policy ?c = Some two_day_policy" "ck_blocklistMode ?c = ModeWarn" "known_malicious sample_request ?c"
    by (simp_all add: sample_checker_def known_malicious_def sample_request_def ex_bool_eq)
  moreover have "qp_Mode two_day_policy \<noteq> ModeWarn \<and>
      age_violation ascii_externals lists_table ?env two_day_policy sample_request None ?c" by code_simp
  moreover have "SetBlocklist None ?c = sample_checker\<lparr>ck_blocklistMode := ModeWarn\<rparr>"
    by (simp add: SetBlocklist_def sample_checker_def)
  ultimately show ?thesis
    using observed_malware_skips_the_gates [OF _ sample_threshold, of ?c lists_table ?env None]
    by (simp add: check_sample_def checker_Check_def)
qed

text \<open>
  The gate of the adapters, with the checker that the server wraps, writes 451 exactly for the
  refusals of the checker, with the checker's code and reason; a request whose scope carries no
  checker is never gated by the checker of another server.
\<close>

theorem gate_answers_451_exactly:
  assumes "rq_pkg rq \<noteq> []" and "rq_version rq \<noteq> []" and "check E T env rq provenance c = (c', hooks, d)"
    and "dn_Allowed d \<or> dn_Code d \<noteq> []"
  shows "quarantineGate installed (Some (Some (Wrap E T env))) rq provenance (Some c, sent) =
      ((Some c', sent @ hooks),
       if dn_Allowed d then None else Some \<lparr>gr_status = 451, gr_code = dn_Code d, gr_message = dn_Reason d\<rparr>) \<and>
    quarantineGate installed (Some None) rq provenance s = (s, None)"
  using assms
  by (cases provenance) (auto simp: quarantineGate_def Wrap_def bridge_Check_def bridge_CheckWithProvenance_def
      checker_Check_def CheckWithProvenance_def adapterDecision_def)

theorem gate_answers_451_exactly_witness:
  "\<exists>r. snd (quarantineGate None (Some (Some (Wrap ascii_externals lists_table (sample_env (Some (Inr (48 * hour)))))))
     sample_request None (Some sample_checker, [])) = Some r \<and> gr_status r = 451 \<and> gr_code r = ''QUARANTINED''"
proof -
  let ?env = "sample_env (Some (Inr (48 * hour)))"
  obtain c' hooks d where run: "check ascii_externals lists_table ?env sample_request None sample_checker = (c', hooks, d)"
    by (meson prod_cases3)
  have "\<not> dn_Allowed (snd (snd (check ascii_externals lists_table ?env sample_request None sample_checker))) \<and>
    dn_Code (snd (snd (check ascii_externals lists_table ?env sample_request None sample_checker))) = ''QUARANTINED''" by code_simp
  then have d: "\<not> dn_Allowed d" "dn_Code d = ''QUARANTINED''" using run by simp_all
  have "rq_pkg sample_request \<noteq> []" "rq_version sample_request \<noteq> []" by (simp_all add: sample_request_def)
  from gate_answers_451_exactly [OF this run, of None "[]" "(None, [])"] d show ?thesis by simp
qed

end
