(* ===== verification/Blocklist.thy ===== *)
theory Blocklist
  imports Quarantine_Checker Ecosystem_Catalog
begin

text \<open>
  \<open>internal/blocklist\<close> (\<open>blocklist.go\<close>, \<open>store.go\<close>, \<open>bridge.go\<close>): the known-malicious versions and the
  operator overrides. The database is GORM, which is not part of the repository: the calls of
  the store are the record \<open>malware_table\<close>. The column \<open>Versions\<close> holds a JSON array; reading it
  is the parameter \<open>J\<close>, which gives \<open>None\<close> for text that is no array of strings.
\<close>

definition OverrideTTL :: int where "OverrideTTL = 24 * hour"

definition ActionOverrideCreated :: string where "ActionOverrideCreated = ''override_created''"
definition ActionOverrideRevoked :: string where "ActionOverrideRevoked = ''override_revoked''"

record blocklist_Config =
  bc_Enabled :: "bool option"
  bc_SyncInterval :: string
  bc_MirrorURL :: string
  bc_Proxy :: string
  bc_Mode :: string

definition blocklist_IsEnabled :: "blocklist_Config \<Rightarrow> bool" where
  "blocklist_IsEnabled c \<longleftrightarrow> (case bc_Enabled c of None \<Rightarrow> True | Some b \<Rightarrow> b)"

definition SyncedEcosystems :: "string list" where
  "SyncedEcosystems = map def_Name MaliciousDatasetDefinitions"

subsection \<open>Identities\<close>

definition CanonicalEcosystem :: "externals \<Rightarrow> string \<Rightarrow> string" where
  "CanonicalEcosystem E ecosystem =
     (let canonical = ToLower E ecosystem in if HasPrefix canonical ''extra:'' then ''pypi'' else canonical)"

definition normalizeNameStrict :: "externals \<Rightarrow> string \<Rightarrow> string \<Rightarrow> gerror + string" where
  "normalizeNameStrict E ecosystem n =
     bind_err (DialectFor E (CanonicalEcosystem E ecosystem)) (\<lambda>dialect. NormalizePackageName E dialect n)"

definition NormalizeName :: "externals \<Rightarrow> string \<Rightarrow> string \<Rightarrow> string" where
  "NormalizeName E ecosystem n = (case normalizeNameStrict E ecosystem n of Inl _ \<Rightarrow> [] | Inr m \<Rightarrow> m)"

definition normalizeVersionStrict :: "externals \<Rightarrow> string \<Rightarrow> string \<Rightarrow> gerror + string" where
  "normalizeVersionStrict E ecosystem0 version =
     (if version = [] then Inr []
      else (let ecosystem = CanonicalEcosystem E ecosystem0 in
        NormalizeVersion E ecosystem (if ecosystem = ''go'' then TrimPrefix version ''v'' else version)))"

definition IsSyncedEcosystem :: "externals \<Rightarrow> string \<Rightarrow> bool" where
  "IsSyncedEcosystem E ecosystem \<longleftrightarrow>
     (case Lookup (CanonicalEcosystem E ecosystem) of None \<Rightarrow> False | Some definition \<Rightarrow> def_MaliciousDataset definition)"

subsection \<open>Rows\<close>

record MaliciousPackage =
  mp_ID :: uint
  mp_SourceID :: string
  mp_Ecosystem :: string
  mp_Package :: string
  mp_Versions :: string
  mp_Aliases :: string
  mp_Summary :: string
  mp_Modified :: time
  mp_ImportedAt :: time

record MalwareOverride =
  mo_ID :: uint
  mo_Ecosystem :: string
  mo_Package :: string
  mo_Version :: string
  mo_Reason :: string
  mo_ActorID :: uint
  mo_ExpiresAt :: time

record 'db malware_table =
  mt_Rows :: "string \<Rightarrow> string \<Rightarrow> 'db \<Rightarrow> gerror + MaliciousPackage list"
  mt_Overrides :: "string \<Rightarrow> string \<Rightarrow> time \<Rightarrow> 'db \<Rightarrow> gerror + MalwareOverride list"  \<comment> \<open>\<open>expires_at > ?\<close>\<close>
  mt_CreateOverride :: "MalwareOverride \<Rightarrow> 'db \<Rightarrow> 'db \<times> (gerror + MalwareOverride)"
  mt_First :: "uint \<Rightarrow> 'db \<Rightarrow> gerror + MalwareOverride"
  mt_DeleteOverride :: "MalwareOverride \<Rightarrow> 'db \<Rightarrow> 'db \<times> gerror option"
  mt_Prune :: "time \<Rightarrow> 'db \<Rightarrow> 'db \<times> gerror option"                                     \<comment> \<open>\<open>expires_at < ?\<close>\<close>
  mt_AllOverrides :: "'db \<Rightarrow> gerror + MalwareOverride list"
  mt_Event :: "QuarantineEvent \<Rightarrow> 'db \<Rightarrow> 'db \<times> gerror option"
  mt_DeleteRows :: "string \<Rightarrow> 'db \<Rightarrow> 'db \<times> gerror option"
  mt_CreateRows :: "MaliciousPackage list \<Rightarrow> 'db \<Rightarrow> 'db \<times> gerror option"
  mt_Counts :: "'db \<Rightarrow> gerror + (string \<times> int) list"
  mt_Begin :: "'db \<Rightarrow> gerror option"
  mt_Commit :: "'db \<Rightarrow> gerror option"

subsection \<open>Matching\<close>

type_synonym json = "string \<Rightarrow> string list option"

definition row_match :: "MaliciousPackage \<Rightarrow> BlocklistMatch" where
  "row_match r = \<lparr>bm_SourceID = mp_SourceID r, bm_Summary = mp_Summary r\<rparr>"

definition covers_all :: "json \<Rightarrow> MaliciousPackage \<Rightarrow> bool" where
  "covers_all J r \<longleftrightarrow> mp_Versions r = [] \<or> mp_Versions r = ''[]'' \<or> J (mp_Versions r) = None"

text \<open>The inner loop over the versions of a row; the accumulator is \<open>firstIntegrityError\<close>.\<close>

fun version_loop ::
  "externals \<Rightarrow> dialect \<Rightarrow> string \<Rightarrow> string \<Rightarrow> string list \<Rightarrow> gerror option \<Rightarrow> bool \<times> gerror option" where
  "version_loop E dialect ecosystem request [] err = (False, err)"
| "version_loop E dialect ecosystem request (v # vs) err =
     (case normalizeVersionStrict E ecosystem v of
        Inl e \<Rightarrow> version_loop E dialect ecosystem request vs (case err of None \<Rightarrow> Some e | Some _ \<Rightarrow> err)
      | Inr canonical \<Rightarrow>
          (case CompareVersions E dialect canonical request of
             Inl e \<Rightarrow> version_loop E dialect ecosystem request vs (case err of None \<Rightarrow> Some e | Some _ \<Rightarrow> err)
           | Inr equal \<Rightarrow> if equal = 0 then (True, err) else version_loop E dialect ecosystem request vs err))"

fun row_loop ::
  "externals \<Rightarrow> json \<Rightarrow> dialect \<Rightarrow> string \<Rightarrow> string \<Rightarrow> MaliciousPackage list \<Rightarrow> gerror option \<Rightarrow>
     gerror + BlocklistMatch option" where
  "row_loop E J dialect ecosystem request [] err = (case err of None \<Rightarrow> Inr None | Some e \<Rightarrow> Inl e)"
| "row_loop E J dialect ecosystem request (r # rs) err =
     (case J (mp_Versions r) of
        None \<Rightarrow> row_loop E J dialect ecosystem request rs err
      | Some versions \<Rightarrow>
          (case version_loop E dialect ecosystem request versions err of
             (True, _) \<Rightarrow> Inr (Some (row_match r))
           | (False, err') \<Rightarrow> row_loop E J dialect ecosystem request rs err'))"

definition matchVersion ::
  "externals \<Rightarrow> json \<Rightarrow> MaliciousPackage list \<Rightarrow> string \<Rightarrow> string \<Rightarrow> gerror + BlocklistMatch option" where
  "matchVersion E J rows ecosystem version =
     (case List.find (covers_all J) rows of
        Some r \<Rightarrow> Inr (Some (row_match r))
      | None \<Rightarrow>
          bind_err (DialectFor E ecosystem) (\<lambda>dialect.
            bind_err (normalizeVersionStrict E ecosystem version) (\<lambda>request.
              row_loop E J dialect ecosystem request rows None)))"

fun override_loop ::
  "externals \<Rightarrow> dialect \<Rightarrow> string \<Rightarrow> string \<Rightarrow> MalwareOverride list \<Rightarrow> gerror + bool" where
  "override_loop E dialect ecosystem request [] = Inr False"
| "override_loop E dialect ecosystem request (ov # ovs) =
     (if mo_Version ov = [] then Inr True
      else bind_err (normalizeVersionStrict E ecosystem (mo_Version ov)) (\<lambda>overrideVersion.
        bind_err (CompareVersions E dialect overrideVersion request) (\<lambda>comparison.
          if comparison = 0 then Inr True else override_loop E dialect ecosystem request ovs)))"

definition hasOverride ::
  "externals \<Rightarrow> 'db malware_table \<Rightarrow> time \<Rightarrow> 'db \<Rightarrow> string \<Rightarrow> string \<Rightarrow> string \<Rightarrow> gerror + bool" where
  "hasOverride E M now db ecosystem n version =
     bind_err (mt_Overrides M ecosystem n now db) (\<lambda>overrides.
       bind_err (normalizeVersionStrict E ecosystem version) (\<lambda>request.
         bind_err (DialectFor E ecosystem) (\<lambda>dialect. override_loop E dialect ecosystem request overrides)))"

text \<open>The result is a match or nil, whether an override is in force, and an error.\<close>

definition blocklist_Check ::
  "externals \<Rightarrow> json \<Rightarrow> 'db malware_table \<Rightarrow> time \<Rightarrow> 'db \<Rightarrow> string \<Rightarrow> string \<Rightarrow> string \<Rightarrow>
     BlocklistMatch option \<times> bool \<times> gerror option" where
  "blocklist_Check E J M now db ecosystem0 pkg version =
     (let ecosystem = CanonicalEcosystem E ecosystem0 in
      case normalizeNameStrict E ecosystem pkg of
        Inl e \<Rightarrow> (None, False, Some e)
      | Inr n \<Rightarrow>
          (case mt_Rows M ecosystem n db of
             Inl e \<Rightarrow> (None, False, Some e)
           | Inr rows \<Rightarrow>
               if rows = [] then (None, False, None)
               else (case matchVersion E J rows ecosystem version of
                   Inl e \<Rightarrow> (None, False, Some e)
                 | Inr None \<Rightarrow> (None, False, None)
                 | Inr (Some m) \<Rightarrow>
                     (case hasOverride E M now db ecosystem n version of
                        Inl e \<Rightarrow> (Some m, False, Some e)
                      | Inr overridden \<Rightarrow> (Some m, overridden, None)))))"

definition QuarantineBridge :: "externals \<Rightarrow> json \<Rightarrow> 'db malware_table \<Rightarrow> time \<Rightarrow> 'db \<Rightarrow> blocklist" where
  "QuarantineBridge E J M now db = (\<lambda>ecosystem pkg version. blocklist_Check E J M now db ecosystem pkg version)"

subsection \<open>Overrides\<close>

definition override_event :: "MalwareOverride \<Rightarrow> string \<Rightarrow> string \<Rightarrow> uint \<Rightarrow> QuarantineEvent" where
  "override_event ov action reason actorID =
     \<lparr>ev_Ecosystem = mo_Ecosystem ov, ev_Package = mo_Package ov, ev_Version = mo_Version ov, ev_Action = action,
      ev_Reason = reason, ev_Threshold = 0, ev_AgeAtCall = 0, ev_ActorID = actorID, ev_ClientIP = [], ev_CreatedAt = None\<rparr>"

definition malware_transaction ::
  "'db malware_table \<Rightarrow> ('db \<Rightarrow> 'db \<times> (gerror + 'a)) \<Rightarrow> 'db \<Rightarrow> 'db \<times> (gerror + 'a)" where
  "malware_transaction M body db =
     (case mt_Begin M db of
        Some e \<Rightarrow> (db, Inl e)
      | None \<Rightarrow>
          (case body db of
             (_, Inl e) \<Rightarrow> (db, Inl e)
           | (db', Inr x) \<Rightarrow> (case mt_Commit M db' of Some e \<Rightarrow> (db, Inl e) | None \<Rightarrow> (db', Inr x))))"

definition CreateOverride ::
  "externals \<Rightarrow> 'db malware_table \<Rightarrow> time \<Rightarrow> string \<Rightarrow> string \<Rightarrow> string \<Rightarrow> string \<Rightarrow> uint \<Rightarrow> 'db \<Rightarrow>
     'db \<times> (gerror + MalwareOverride)" where
  "CreateOverride E M now ecosystem0 pkg version reason actorID db =
     (if reason = [] then (db, Inl plain_error)
      else (let ecosystem = CanonicalEcosystem E ecosystem0 in
        case normalizeNameStrict E ecosystem pkg of
          Inl e \<Rightarrow> (db, Inl e)
        | Inr n \<Rightarrow>
            (case normalizeVersionStrict E ecosystem version of
               Inl e \<Rightarrow> (db, Inl e)
             | Inr normalizedVersion \<Rightarrow>
                 malware_transaction M (\<lambda>db.
                   case mt_CreateOverride M
                     \<lparr>mo_ID = 0, mo_Ecosystem = ecosystem, mo_Package = n, mo_Version = normalizedVersion,
                      mo_Reason = reason, mo_ActorID = actorID, mo_ExpiresAt = now + OverrideTTL\<rparr> db of
                     (db', Inl e) \<Rightarrow> (db', Inl e)
                   | (db', Inr ov) \<Rightarrow>
                       (case mt_Event M (override_event ov ActionOverrideCreated reason actorID) db' of
                          (db'', Some e) \<Rightarrow> (db'', Inl e)
                        | (db'', None) \<Rightarrow> (db'', Inr ov))) db)))"

definition RevokeOverride ::
  "'db malware_table \<Rightarrow> uint \<Rightarrow> string \<Rightarrow> uint \<Rightarrow> 'db \<Rightarrow> 'db \<times> (gerror + unit)" where
  "RevokeOverride M i reason actorID db =
     (if reason = [] then (db, Inl plain_error)
      else malware_transaction M (\<lambda>db.
        case mt_First M i db of
          Inl e \<Rightarrow> (db, Inl e)
        | Inr ov \<Rightarrow>
            (case mt_DeleteOverride M ov db of
               (db', Some e) \<Rightarrow> (db', Inl e)
             | (db', None) \<Rightarrow>
                 (case mt_Event M (override_event ov ActionOverrideRevoked reason actorID) db' of
                    (db'', Some e) \<Rightarrow> (db'', Inl e)
                  | (db'', None) \<Rightarrow> (db'', Inr ())))) db)"

definition ListOverrides :: "'db malware_table \<Rightarrow> time \<Rightarrow> 'db \<Rightarrow> 'db \<times> (gerror + MalwareOverride list)" where
  "ListOverrides M now db =
     (case mt_Prune M (now - 7 * 24 * hour) db of
        (db', Some e) \<Rightarrow> (db', Inl e)
      | (db', None) \<Rightarrow> (db', mt_AllOverrides M db'))"

subsection \<open>The dataset\<close>

definition ReplaceEcosystem ::
  "'db malware_table \<Rightarrow> string \<Rightarrow> MaliciousPackage list \<Rightarrow> 'db \<Rightarrow> 'db \<times> (gerror + unit)" where
  "ReplaceEcosystem M ecosystem rows =
     malware_transaction M (\<lambda>db.
       case mt_DeleteRows M ecosystem db of
         (db', Some e) \<Rightarrow> (db', Inl e)
       | (db', None) \<Rightarrow>
           if rows = [] then (db', Inr ())
           else (case mt_CreateRows M rows db' of
               (db'', Some e) \<Rightarrow> (db'', Inl e)
             | (db'', None) \<Rightarrow> (db'', Inr ())))"

definition HasEntries :: "externals \<Rightarrow> 'db malware_table \<Rightarrow> 'db \<Rightarrow> string \<Rightarrow> string \<Rightarrow> gerror + bool" where
  "HasEntries E M db ecosystem0 pkg =
     (let ecosystem = CanonicalEcosystem E ecosystem0 in
      bind_err (normalizeNameStrict E ecosystem pkg) (\<lambda>n.
        bind_err (mt_Rows M ecosystem n db) (\<lambda>rows. Inr (rows \<noteq> []))))"

text \<open>The counts by ecosystem, and their sum.\<close>

definition EntryCounts :: "'db malware_table \<Rightarrow> 'db \<Rightarrow> gerror + (string \<rightharpoonup> int) \<times> int" where
  "EntryCounts M db = bind_err (mt_Counts M db) (\<lambda>rows. Inr (map_of (rev rows), sum_list (map snd rows)))"

subsection \<open>What a match means\<close>

text \<open>A row names a version when it covers every version or lists an equal one.\<close>

definition lists_version :: "externals \<Rightarrow> dialect \<Rightarrow> string \<Rightarrow> string \<Rightarrow> string list \<Rightarrow> bool" where
  "lists_version E d ecosystem request versions \<longleftrightarrow>
     (\<exists>v \<in> set versions. \<exists>c. normalizeVersionStrict E ecosystem v = Inr c \<and> CompareVersions E d c request = Inr 0)"

definition names_version :: "externals \<Rightarrow> json \<Rightarrow> dialect \<Rightarrow> string \<Rightarrow> string \<Rightarrow> MaliciousPackage \<Rightarrow> bool" where
  "names_version E J d ecosystem request r \<longleftrightarrow>
     covers_all J r \<or> (\<exists>versions. J (mp_Versions r) = Some versions \<and> lists_version E d ecosystem request versions)"

lemma version_loop_iff: "fst (version_loop E d ecosystem request vs err) \<longleftrightarrow> lists_version E d ecosystem request vs"
  by (induction vs arbitrary: err) (auto simp: lists_version_def split: sum.splits)

lemma version_loop_err: "err \<noteq> None \<Longrightarrow> snd (version_loop E d ecosystem request vs err) = err"
  by (induction vs) (auto split: sum.splits)

lemma row_loop_match:
  "row_loop E J d ecosystem request rs err = Inr (Some m) \<Longrightarrow>
     \<exists>r \<in> set rs. m = row_match r \<and> names_version E J d ecosystem request r"
proof (induction rs arbitrary: err)
  case (Cons r rs)
  have "lists_version E d ecosystem request vs"
    if "version_loop E d ecosystem request vs err = (True, e)" for vs e
    using version_loop_iff [of E d ecosystem request vs err] that by simp
  then show ?case using Cons
    by (fastforce simp: names_version_def split: option.split_asm prod.split_asm bool.split_asm)
qed (simp split: option.split_asm)

lemma row_loop_no_match:
  assumes "\<forall>r \<in> set rs. \<not> covers_all J r" and "\<not> (\<exists>m. row_loop E J d ecosystem request rs err = Inr (Some m))"
  shows "\<forall>r \<in> set rs. \<not> names_version E J d ecosystem request r"
  using assms
proof (induction rs arbitrary: err)
  case (Cons r rs)
  then obtain vs where vs: "J (mp_Versions r) = Some vs" by (auto simp: covers_all_def)
  obtain b err' where loop: "version_loop E d ecosystem request vs err = (b, err')" by (cases "version_loop E d ecosystem request vs err")
  have "\<not> b" using Cons.prems(2) vs loop by (cases b) auto
  then have "\<not> lists_version E d ecosystem request vs" using version_loop_iff [of E d ecosystem request vs err] loop by simp
  then show ?case using Cons vs loop \<open>\<not> b\<close> by (auto simp: names_version_def)
qed simp

lemma matchVersion_iff:
  assumes "DialectFor E ecosystem = Inr d" and "normalizeVersionStrict E ecosystem version = Inr request"
  shows "(\<exists>m. matchVersion E J rows ecosystem version = Inr (Some m)) \<longleftrightarrow> (\<exists>r \<in> set rows. names_version E J d ecosystem request r)"
proof (cases "List.find (covers_all J) rows")
  case None
  then have none: "\<forall>r \<in> set rows. \<not> covers_all J r" by (simp add: find_None_iff)
  then have "matchVersion E J rows ecosystem version = row_loop E J d ecosystem request rows None"
    using None assms by (simp add: matchVersion_def)
  then show ?thesis using row_loop_match row_loop_no_match [OF none] by metis
next
  case (Some r)
  then have "covers_all J r" "r \<in> set rows" by (auto simp: find_Some_iff)
  then show ?thesis using Some by (auto simp: matchVersion_def names_version_def)
qed

lemma matchVersion_row:
  assumes "matchVersion E J rows ecosystem version = Inr (Some m)"
  shows "\<exists>r \<in> set rows. m = row_match r"
proof (cases "List.find (covers_all J) rows")
  case None
  then obtain d request where "row_loop E J d ecosystem request rows None = Inr (Some m)"
    using assms by (auto simp: matchVersion_def)
  then show ?thesis using row_loop_match by blast
next
  case (Some r)
  then have "r \<in> set rows" by (auto simp: find_Some_iff)
  then show ?thesis using Some assms by (auto simp: matchVersion_def)
qed

subsection \<open>What an override releases\<close>

definition releases :: "externals \<Rightarrow> dialect \<Rightarrow> string \<Rightarrow> string \<Rightarrow> MalwareOverride \<Rightarrow> bool" where
  "releases E d ecosystem request ov \<longleftrightarrow>
     mo_Version ov = [] \<or>
     (\<exists>c. normalizeVersionStrict E ecosystem (mo_Version ov) = Inr c \<and> CompareVersions E d c request = Inr 0)"

lemma override_loop_Inr:
  "override_loop E d ecosystem request ovs = Inr b \<Longrightarrow> b \<longleftrightarrow> (\<exists>ov \<in> set ovs. releases E d ecosystem request ov)"
  by (induction ovs) (auto simp: releases_def split: if_splits)

lemma override_loop_True:
  "override_loop E d ecosystem request ovs = Inr True \<Longrightarrow> \<exists>ov \<in> set ovs. releases E d ecosystem request ov"
  using override_loop_Inr by blast

subsection \<open>What the database promises\<close>

abbreviation without_id :: "MaliciousPackage \<Rightarrow> MaliciousPackage" where
  "without_id r \<equiv> r\<lparr>mp_ID := 0\<rparr>"

definition malware_table_ok ::
  "'db malware_table \<Rightarrow> ('db \<Rightarrow> MaliciousPackage set) \<Rightarrow> ('db \<Rightarrow> MalwareOverride set) \<Rightarrow> bool" where
  "malware_table_ok M rows overrides \<longleftrightarrow>
     (\<forall>e n db rs. mt_Rows M e n db = Inr rs \<longrightarrow> set rs = {r \<in> rows db. mp_Ecosystem r = e \<and> mp_Package r = n}) \<and>
     (\<forall>e n t db os. mt_Overrides M e n t db = Inr os \<longrightarrow>
        set os = {ov \<in> overrides db. mo_Ecosystem ov = e \<and> mo_Package ov = n \<and> mo_ExpiresAt ov > t}) \<and>
     (\<forall>ov db db' ov'. mt_CreateOverride M ov db = (db', Inr ov') \<longrightarrow>
        (\<exists>i. ov' = ov\<lparr>mo_ID := i\<rparr> \<and> i \<notin> mo_ID ` overrides db) \<and> overrides db' = insert ov' (overrides db) \<and> rows db' = rows db) \<and>
     (\<forall>i db ov. mt_First M i db = Inr ov \<longrightarrow> ov \<in> overrides db \<and> mo_ID ov = i) \<and>
     (\<forall>ov db db'. mt_DeleteOverride M ov db = (db', None) \<longrightarrow>
        overrides db' = {x \<in> overrides db. mo_ID x \<noteq> mo_ID ov} \<and> rows db' = rows db) \<and>
     (\<forall>ev db db'. mt_Event M ev db = (db', None) \<longrightarrow> overrides db' = overrides db \<and> rows db' = rows db) \<and>
     (\<forall>e db db'. mt_DeleteRows M e db = (db', None) \<longrightarrow>
        rows db' = {r \<in> rows db. mp_Ecosystem r \<noteq> e} \<and> overrides db' = overrides db) \<and>
     (\<forall>rs db db'. mt_CreateRows M rs db = (db', None) \<longrightarrow>
        without_id ` rows db' = without_id ` rows db \<union> without_id ` set rs \<and> overrides db' = overrides db) \<and>
     (\<forall>db cs. mt_Counts M db = Inr cs \<longrightarrow> distinct (map fst cs) \<and>
        (\<forall>e. (\<exists>n > 0. (e, n) \<in> set cs) \<longleftrightarrow> (\<exists>r \<in> rows db. mp_Ecosystem r = e)))"

lemma malware_okD:
  assumes "malware_table_ok M rows overrides"
  shows "mt_Rows M e n db = Inr rs \<Longrightarrow> set rs = {r \<in> rows db. mp_Ecosystem r = e \<and> mp_Package r = n}"
    and "mt_Overrides M e n t db = Inr os \<Longrightarrow>
      set os = {ov \<in> overrides db. mo_Ecosystem ov = e \<and> mo_Package ov = n \<and> mo_ExpiresAt ov > t}"
    and "mt_CreateOverride M ov db = (db', Inr ov') \<Longrightarrow>
      (\<exists>i. ov' = ov\<lparr>mo_ID := i\<rparr> \<and> i \<notin> mo_ID ` overrides db) \<and> overrides db' = insert ov' (overrides db) \<and> rows db' = rows db"
    and "mt_First M i db = Inr ov \<Longrightarrow> ov \<in> overrides db \<and> mo_ID ov = i"
    and "mt_DeleteOverride M ov db = (db', None) \<Longrightarrow>
      overrides db' = {x \<in> overrides db. mo_ID x \<noteq> mo_ID ov} \<and> rows db' = rows db"
    and "mt_Event M ev db = (db', None) \<Longrightarrow> overrides db' = overrides db \<and> rows db' = rows db"
    and "mt_DeleteRows M e db = (db', None) \<Longrightarrow>
      rows db' = {r \<in> rows db. mp_Ecosystem r \<noteq> e} \<and> overrides db' = overrides db"
    and "mt_CreateRows M rs' db = (db', None) \<Longrightarrow>
      without_id ` rows db' = without_id ` rows db \<union> without_id ` set rs' \<and> overrides db' = overrides db"
    and "mt_Counts M db = Inr cs \<Longrightarrow> distinct (map fst cs) \<and>
        (\<forall>e. (\<exists>n > 0. (e, n) \<in> set cs) \<longleftrightarrow> (\<exists>r \<in> rows db. mp_Ecosystem r = e))"
  using assms unfolding malware_table_ok_def by simp_all

lemma malware_transaction_Inr:
  "malware_transaction M body db = (db', Inr x) \<Longrightarrow> body db = (db', Inr x)"
  by (auto simp: malware_transaction_def split: option.splits prod.splits sum.splits)

lemma malware_transaction_Inl:
  "malware_transaction M body db = (db', Inl e) \<Longrightarrow> db' = db"
  by (auto simp: malware_transaction_def split: option.splits prod.splits sum.splits)

subsection \<open>Properties\<close>

text \<open>The ecosystem of a row: what \<open>CanonicalEcosystem\<close> leaves as it is.\<close>

lemma Check_match:
  assumes ok: "malware_table_ok M rows overrides"
    and names: "CanonicalEcosystem E ecosystem = eco" "CanonicalEcosystem E eco = eco"
      "DialectFor E eco = Inr d" "NormalizePackageName E d pkg = Inr n" "normalizeVersionStrict E eco version = Inr request"
    and rs: "mt_Rows M eco n db = Inr rs"
    and r: "r \<in> rows db" "mp_Ecosystem r = eco" "mp_Package r = n" "names_version E J d eco request r"
  shows "\<exists>m. blocklist_Check E J M now db ecosystem pkg version =
    (case hasOverride E M now db eco n version of Inl e \<Rightarrow> (Some m, False, Some e) | Inr b \<Rightarrow> (Some m, b, None))"
proof -
  have n: "normalizeNameStrict E eco pkg = Inr n" using names by (simp add: normalizeNameStrict_def)
  have "r \<in> set rs" using malware_okD(1) [OF ok rs] r by simp
  then obtain m where "matchVersion E J rs eco version = Inr (Some m)" "rs \<noteq> []"
    using matchVersion_iff [OF names(3,5), of J rs] r(4) by fastforce
  then show ?thesis using n names(1) rs by (simp add: blocklist_Check_def) blast
qed

lemma hasOverride_Inr:
  assumes "malware_table_ok M rows overrides" and "DialectFor E eco = Inr d"
    and "normalizeVersionStrict E eco version = Inr request" and "hasOverride E M now db eco n version = Inr b"
  shows "b \<longleftrightarrow> (\<exists>ov \<in> overrides db. mo_Ecosystem ov = eco \<and> mo_Package ov = n \<and> mo_ExpiresAt ov > now \<and>
    releases E d eco request ov)"
proof -
  obtain os where os: "mt_Overrides M eco n now db = Inr os" "override_loop E d eco request os = Inr b"
    using assms(2-4) by (auto simp: hasOverride_def)
  show ?thesis using override_loop_Inr [OF os(2)] malware_okD(2) [OF assms(1) os(1)] by auto
qed

text \<open>
  A version that an advisory names is a known-malicious one for the checker, under every
  spelling of the package and of the version that its ecosystem takes for the same, and for
  every extra index that speaks the PyPI protocol, unless an operator's override that has not
  expired releases this version or the whole package. A broken override releases nothing.
\<close>

lemma named_version_is_malicious:
  assumes ok: "malware_table_ok M rows overrides"
    and names: "CanonicalEcosystem E (rq_ecosystem rq) = eco" "CanonicalEcosystem E eco = eco" "DialectFor E eco = Inr d"
      "NormalizePackageName E d (rq_pkg rq) = Inr n" "normalizeVersionStrict E eco (rq_version rq) = Inr request" "rq_version rq \<noteq> []"
    and "is_Inr (mt_Rows M eco n db)"
    and r: "r \<in> rows db" "mp_Ecosystem r = eco" "mp_Package r = n" "names_version E J d eco request r"
    and none: "\<forall>ov \<in> overrides db. mo_Ecosystem ov = eco \<and> mo_Package ov = n \<and> releases E d eco request ov \<longrightarrow> mo_ExpiresAt ov \<le> now"
  shows "known_malicious rq (SetBlocklist (Some (QuarantineBridge E J M now db)) c)"
proof -
  obtain rs where rs: "mt_Rows M eco n db = Inr rs" using assms(8) by (auto simp: is_Inr_iff)
  obtain m where m: "blocklist_Check E J M now db (rq_ecosystem rq) (rq_pkg rq) (rq_version rq) =
    (case hasOverride E M now db eco n (rq_version rq) of Inl e \<Rightarrow> (Some m, False, Some e) | Inr b \<Rightarrow> (Some m, b, None))"
    using Check_match [OF ok names(1-5) rs r] by blast
  have "\<not> b" if "hasOverride E M now db eco n (rq_version rq) = Inr b" for b
    using hasOverride_Inr [OF ok names(3,5) that] none by force
  then have "\<exists>b e. blocklist_Check E J M now db (rq_ecosystem rq) (rq_pkg rq) (rq_version rq) = (Some m, b, e) \<and> (\<not> b \<or> e \<noteq> None)"
    using m by (cases "hasOverride E M now db eco n (rq_version rq)") auto
  then show ?thesis using names(6) by (auto simp: known_malicious_def SetBlocklist_def QuarantineBridge_def)
qed

lemma CreateOverride_overrides:
  assumes "malware_table_ok M rows overrides"
    and "CreateOverride E M now ecosystem pkg version reason actor db = (db', Inr ov)"
  shows "overrides db' = insert ov (overrides db) \<and> rows db' = rows db \<and> mo_ExpiresAt ov = now + OverrideTTL \<and>
    mo_Ecosystem ov = CanonicalEcosystem E ecosystem \<and>
    normalizeNameStrict E (CanonicalEcosystem E ecosystem) pkg = Inr (mo_Package ov) \<and>
    normalizeVersionStrict E (CanonicalEcosystem E ecosystem) version = Inr (mo_Version ov)"
proof -
  let ?eco = "CanonicalEcosystem E ecosystem"
  obtain n v where n: "normalizeNameStrict E ?eco pkg = Inr n" "normalizeVersionStrict E ?eco version = Inr v"
    using assms(2) by (auto simp: CreateOverride_def Let_def split: if_splits sum.split_asm)
  let ?new = "\<lparr>mo_ID = 0, mo_Ecosystem = ?eco, mo_Package = n, mo_Version = v, mo_Reason = reason, mo_ActorID = actor,
    mo_ExpiresAt = now + OverrideTTL\<rparr>"
  let ?body = "\<lambda>db. case mt_CreateOverride M ?new db of (db', Inl e) \<Rightarrow> (db', Inl e)
      | (db', Inr ov) \<Rightarrow> (case mt_Event M (override_event ov ActionOverrideCreated reason actor) db' of
          (db'', Some e) \<Rightarrow> (db'', Inl e) | (db'', None) \<Rightarrow> (db'', Inr ov))"
  have "malware_transaction M ?body db = (db', Inr ov)"
    using assms(2) n by (simp add: CreateOverride_def Let_def split: if_splits)
  from malware_transaction_Inr [OF this]
  obtain db1 where c: "mt_CreateOverride M ?new db = (db1, Inr ov)"
    "mt_Event M (override_event ov ActionOverrideCreated reason actor) db1 = (db', None)"
    by (auto split: prod.split_asm sum.split_asm option.split_asm)
  show ?thesis using malware_okD(3) [OF assms(1) c(1)] malware_okD(6) [OF assms(1) c(2)] n by auto
qed

lemma CanonicalEcosystem_ascii:
  assumes "is_ascii e"
  shows "is_ascii (CanonicalEcosystem E e)" and "CanonicalEcosystem E (CanonicalEcosystem E e) = CanonicalEcosystem E e"
proof -
  have "is_ascii ''pypi''" "CanonicalEcosystem E ''pypi'' = ''pypi''"
    by (code_simp, simp add: CanonicalEcosystem_def ToLower_ascii) code_simp
  then show "is_ascii (CanonicalEcosystem E e)" "CanonicalEcosystem E (CanonicalEcosystem E e) = CanonicalEcosystem E e"
    using assms by (simp_all add: CanonicalEcosystem_def ToLower_ascii Let_def)
qed

lemma normalizeVersionStrict_again:
  assumes "lower_english_ok E" and "is_ascii eco" and "CanonicalEcosystem E eco = eco" and "DialectFor E eco = Inr d"
    and "normalizeVersionStrict E eco v = Inr c" and "v \<noteq> []" and "eco = ''go'' \<longrightarrow> \<not> HasPrefix c ''v''"
  shows "normalizeVersionStrict E eco c = Inr c" and "CompareVersions E d c c = Inr 0"
proof -
  have n: "NormalizeVersion E eco w = canonicalVersion E d w" for w
    using DialectFor_normal [OF assms(2), of E] assms(4) by (simp add: NormalizeVersion_def)
  have "\<exists>w. canonicalVersion E d w = Inr c" using assms(3,5,6) by (auto simp: normalizeVersionStrict_def Let_def n)
  then have "canonicalVersion E d c = Inr c" using canonicalVersion_law [OF assms(1)] by blast
  then show "normalizeVersionStrict E eco c = Inr c" "CompareVersions E d c c = Inr 0"
    using assms(3,7) canonicalVersion_law [OF assms(1), of d c c] by (auto simp: normalizeVersionStrict_def Let_def n TrimPrefix_def)
qed

text \<open>
  An override is an exemption of twenty-four hours. From its creation until exactly
  twenty-four hours later, and not at that instant or after it, a query for the package and an
  equal version finds it.
\<close>

theorem override_lasts_a_day:
  assumes ok: "malware_table_ok M rows overrides" and E: "lower_english_ok E" and asc: "is_ascii ecosystem"
    and create: "CreateOverride E M now ecosystem pkg version reason actor db = (db1, Inr ov)"
    and other: "\<forall>x \<in> overrides db. mo_Package x \<noteq> mo_Package ov"
    and d: "DialectFor E (mo_Ecosystem ov) = Inr d" and v: "version \<noteq> []" "mo_Ecosystem ov = ''go'' \<longrightarrow> \<not> HasPrefix (mo_Version ov) ''v''"
    and request: "normalizeVersionStrict E (mo_Ecosystem ov) version' = Inr request" "CompareVersions E d (mo_Version ov) request = Inr 0"
    and query: "hasOverride E M t db1 (mo_Ecosystem ov) (mo_Package ov) version' = Inr b"
  shows "b \<longleftrightarrow> t < now + 24 * hour"
proof -
  note facts = CreateOverride_overrides [OF ok create]
  have eco: "is_ascii (mo_Ecosystem ov)" "CanonicalEcosystem E (mo_Ecosystem ov) = mo_Ecosystem ov"
    using CanonicalEcosystem_ascii [OF asc, of E] facts by simp_all
  have "normalizeVersionStrict E (mo_Ecosystem ov) version = Inr (mo_Version ov)" using facts by simp
  from normalizeVersionStrict_again(1) [OF E eco d this v]
  have "releases E d (mo_Ecosystem ov) request ov" using request(2) by (simp add: releases_def)
  then show ?thesis using hasOverride_Inr [OF ok d request(1) query] facts other by (auto simp: OverrideTTL_def)
qed

subsection \<open>A table of lists\<close>

type_synonym malware_lists = "MaliciousPackage list \<times> MalwareOverride list"

definition lists_create_override :: "MalwareOverride \<Rightarrow> malware_lists \<Rightarrow> malware_lists \<times> (gerror + MalwareOverride)" where
  "lists_create_override ov db =
     (let i = word_of_nat (Suc (length (snd db))); ov' = ov\<lparr>mo_ID := i\<rparr> in
      if i \<in> mo_ID ` set (snd db) then (db, Inl plain_error) else ((fst db, ov' # snd db), Inr ov'))"

definition lists_counts :: "malware_lists \<Rightarrow> (string \<times> int) list" where
  "lists_counts db =
     map (\<lambda>e. (e, int (length (filter (\<lambda>r. mp_Ecosystem r = e) (fst db))))) (remdups (map mp_Ecosystem (fst db)))"

definition malware_lists_table :: "malware_lists malware_table" where
  "malware_lists_table =
     \<lparr>mt_Rows = (\<lambda>e n db. Inr (filter (\<lambda>r. mp_Ecosystem r = e \<and> mp_Package r = n) (fst db))),
      mt_Overrides = (\<lambda>e n t db. Inr (filter (\<lambda>ov. mo_Ecosystem ov = e \<and> mo_Package ov = n \<and> mo_ExpiresAt ov > t) (snd db))),
      mt_CreateOverride = lists_create_override,
      mt_First = (\<lambda>i db. case List.find (\<lambda>ov. mo_ID ov = i) (snd db) of None \<Rightarrow> Inl [ErrRecordNotFound] | Some ov \<Rightarrow> Inr ov),
      mt_DeleteOverride = (\<lambda>ov db. ((fst db, filter (\<lambda>x. mo_ID x \<noteq> mo_ID ov) (snd db)), None)),
      mt_Prune = (\<lambda>t db. ((fst db, filter (\<lambda>x. \<not> mo_ExpiresAt x < t) (snd db)), None)),
      mt_AllOverrides = (\<lambda>db. Inr (snd db)), mt_Event = (\<lambda>ev db. (db, None)),
      mt_DeleteRows = (\<lambda>e db. ((filter (\<lambda>r. mp_Ecosystem r \<noteq> e) (fst db), snd db), None)),
      mt_CreateRows = (\<lambda>rs db. ((fst db @ rs, snd db), None)), mt_Counts = (\<lambda>db. Inr (lists_counts db)),
      mt_Begin = (\<lambda>db. None), mt_Commit = (\<lambda>db. None)\<rparr>"

lemma lists_counts_ok:
  "distinct (map fst (lists_counts db)) \<and>
     (\<forall>e. (\<exists>n > 0. (e, n) \<in> set (lists_counts db)) \<longleftrightarrow> (\<exists>r \<in> set (fst db). mp_Ecosystem r = e))"
proof
  show "distinct (map fst (lists_counts db))" by (simp add: lists_counts_def comp_def)
  have "(\<exists>n > 0. (e, n) \<in> set (lists_counts db)) \<longleftrightarrow> (\<exists>r \<in> set (fst db). mp_Ecosystem r = e)" for e
  proof -
    have "(e, n) \<in> set (lists_counts db) \<longleftrightarrow> e \<in> mp_Ecosystem ` set (fst db) \<and>
        n = int (length (filter (\<lambda>r. mp_Ecosystem r = e) (fst db)))" for n
      by (auto simp: lists_counts_def)
    then show ?thesis by (auto simp: filter_empty_conv)
  qed
  then show "\<forall>e. (\<exists>n > 0. (e, n) \<in> set (lists_counts db)) \<longleftrightarrow> (\<exists>r \<in> set (fst db). mp_Ecosystem r = e)" by blast
qed

lemma malware_lists_ok: "malware_table_ok malware_lists_table (set \<circ> fst) (set \<circ> snd)"
  unfolding malware_table_ok_def
proof (intro conjI)
  show "\<forall>db cs. mt_Counts malware_lists_table db = Inr cs \<longrightarrow> distinct (map fst cs) \<and>
      (\<forall>e. (\<exists>n > 0. (e, n) \<in> set cs) \<longleftrightarrow> (\<exists>r \<in> (set \<circ> fst) db. mp_Ecosystem r = e))"
    using lists_counts_ok by (simp add: malware_lists_table_def)
qed (auto simp: malware_lists_table_def lists_create_override_def Let_def find_Some_iff image_Un split: if_splits option.split_asm)

lemma npm_dialect:
  "DialectFor ascii_externals ''npm'' = Inr (npmDialect ascii_externals)"
proof -
  have "ToLower ascii_externals (TrimSpace ''npm'') = ''npm''" by code_simp
  then show ?thesis by (simp add: DialectFor_def dialectForRevision1_def)
qed

theorem override_lasts_a_day_witness:
  "\<exists>ov db1. CreateOverride ascii_externals malware_lists_table 0 ''npm'' ''left-pad'' ''1.2.0'' ''false positive'' 1 ([], []) = (db1, Inr ov) \<and>
     hasOverride ascii_externals malware_lists_table (23 * hour) db1 ''npm'' ''left-pad'' ''1.2.0'' = Inr True \<and>
     (hasOverride ascii_externals malware_lists_table (24 * hour) db1 ''npm'' ''left-pad'' ''1.2.0'' = Inr True \<longleftrightarrow> 24 * hour < 0 + 24 * hour)"
proof -
  let ?ov = "\<lparr>mo_ID = 1, mo_Ecosystem = ''npm'', mo_Package = ''left-pad'', mo_Version = ''1.2.0'', mo_Reason = ''false positive'',
    mo_ActorID = 1, mo_ExpiresAt = 24 * hour\<rparr>"
  let ?db = "([], [?ov])"
  have create: "CreateOverride ascii_externals malware_lists_table 0 ''npm'' ''left-pad'' ''1.2.0'' ''false positive'' 1 ([], []) = (?db, Inr ?ov)"
    by code_simp
  have facts: "is_ascii ''npm''" "normalizeVersionStrict ascii_externals ''npm'' ''1.2.0'' = Inr ''1.2.0''"
    "CompareVersions ascii_externals (npmDialect ascii_externals) ''1.2.0'' ''1.2.0'' = Inr 0" by code_simp+
  have q: "hasOverride ascii_externals malware_lists_table (23 * hour) ?db ''npm'' ''left-pad'' ''1.2.0'' = Inr True"
    "hasOverride ascii_externals malware_lists_table (24 * hour) ?db ''npm'' ''left-pad'' ''1.2.0'' = Inr False" by code_simp+
  have "False \<longleftrightarrow> 24 * hour < 0 + 24 * hour"
    by (rule override_lasts_a_day [OF malware_lists_ok ascii_externals_ok(1) facts(1) create])
       (use npm_dialect facts q(2) in simp_all)
  then show ?thesis using create q by auto
qed

end
