(* ===== verification/Blocklist_Sync.thy ===== *)
theory Blocklist_Sync
  imports Blocklist
begin

text \<open>
  \<open>internal/blocklist/sync.go\<close> and the sync state of \<open>store.go\<close>: importing the OSV archives. The
  download, the zip reader and the JSON decoder are described by what they deliver: an archive
  is an error or its members, a member its name and an error or its decoded advisory.
  \<open>json.Marshal\<close> of a list of strings is the parameter \<open>enc\<close>. A missing or zero \<open>withdrawn\<close> is \<open>None\<close>.
\<close>

definition DefaultMirrorURL :: string where
  "DefaultMirrorURL = ''https://osv-vulnerabilities.storage.googleapis.com''"

definition DefaultSyncInterval :: int where "DefaultSyncInterval = 6 * hour"

record Syncer =
  sy_mirror :: string
  sy_interval :: int

definition minute :: int where "minute = 60 * 1000000000"

text \<open>\<open>proxy_ok\<close> tells whether \<open>url.Parse\<close> accepts the proxy.\<close>

definition NewSyncer :: "(string \<Rightarrow> nat \<Rightarrow> nat) \<Rightarrow> (string \<Rightarrow> bool) \<Rightarrow> blocklist_Config \<Rightarrow> gerror + Syncer" where
  "NewSyncer F proxy_ok cfg =
     (let trimmed = strip_suffix_while (\<lambda>c. c = CHR ''/'') (bc_MirrorURL cfg);
          mirror = (if trimmed = [] then DefaultMirrorURL else trimmed) in
      bind_err (if bc_SyncInterval cfg = [] then Inr DefaultSyncInterval
          else bind_err (time_ParseDuration F (bc_SyncInterval cfg)) (\<lambda>d. if d < minute then Inl plain_error else Inr d))
        (\<lambda>interval.
          if bc_Proxy cfg \<noteq> [] \<and> \<not> proxy_ok (bc_Proxy cfg) then Inl plain_error
          else Inr \<lparr>sy_mirror = mirror, sy_interval = interval\<rparr>))"

subsection \<open>Advisories\<close>

record osvEvent =
  oe_Introduced :: string
  oe_Fixed :: string
  oe_LastAffected :: string

record osvRange =
  or_Type :: string
  or_Events :: "osvEvent list"

record osvAffected =
  oa_Ecosystem :: string
  oa_Name :: string
  oa_Versions :: "string list"
  oa_Ranges :: "osvRange list"

record osvAdvisory =
  adv_ID :: string
  adv_Summary :: string
  adv_Aliases :: "string list"
  adv_Modified :: time
  adv_Withdrawn :: "time option"
  adv_Affected :: "osvAffected list"

definition coversAllVersions :: "osvRange list \<Rightarrow> bool" where
  "coversAllVersions ranges \<longleftrightarrow>
     list_ex (\<lambda>r. list_ex (\<lambda>e. oe_Introduced e = ''0'') (or_Events r) \<and>
       \<not> list_ex (\<lambda>e. oe_Fixed e \<noteq> [] \<or> oe_LastAffected e \<noteq> []) (or_Events r)) ranges"

fun normalizeVersions :: "externals \<Rightarrow> string \<Rightarrow> string list \<Rightarrow> gerror + string list" where
  "normalizeVersions E eco [] = Inr []"
| "normalizeVersions E eco (v # vs) =
     bind_err (normalizeVersionStrict E eco v) (\<lambda>n. bind_err (normalizeVersions E eco vs) (\<lambda>ns. Inr (n # ns)))"

definition baseEcosystem :: "string \<Rightarrow> string" where
  "baseEcosystem e = (case IndexByte e CHR '':'' of None \<Rightarrow> e | Some i \<Rightarrow> take i e)"

text \<open>The versions column of one affected section; \<open>None\<close> is the section that is skipped.\<close>

definition affected_versions ::
  "externals \<Rightarrow> (string list \<Rightarrow> string) \<Rightarrow> string \<Rightarrow> osvAffected \<Rightarrow> gerror + string option" where
  "affected_versions E enc eco aff =
     (if oa_Versions aff \<noteq> [] \<and> \<not> coversAllVersions (oa_Ranges aff) then
        bind_err (normalizeVersions E eco (oa_Versions aff)) (\<lambda>ns. Inr (Some (enc ns)))
      else if coversAllVersions (oa_Ranges aff) then Inr (Some [])
      else Inr None)"

fun affected_rows ::
  "externals \<Rightarrow> (string list \<Rightarrow> string) \<Rightarrow> string \<Rightarrow> string \<Rightarrow> time \<Rightarrow> osvAdvisory \<Rightarrow> osvAffected list \<Rightarrow>
     gerror + MaliciousPackage list" where
  "affected_rows E enc eco osvName importedAt adv [] = Inr []"
| "affected_rows E enc eco osvName importedAt adv (aff # affs) =
     (if \<not> EqualFoldASCII (baseEcosystem (oa_Ecosystem aff)) osvName
      then affected_rows E enc eco osvName importedAt adv affs
      else bind_err (affected_versions E enc eco aff) (\<lambda>column.
        case column of
          None \<Rightarrow> affected_rows E enc eco osvName importedAt adv affs
        | Some versions \<Rightarrow>
            bind_err (normalizeNameStrict E eco (oa_Name aff)) (\<lambda>packageName.
              bind_err (affected_rows E enc eco osvName importedAt adv affs) (\<lambda>rows.
                Inr (\<lparr>mp_ID = 0, mp_SourceID = adv_ID adv, mp_Ecosystem = eco, mp_Package = packageName,
                  mp_Versions = versions, mp_Aliases = take 500 (Join (adv_Aliases adv) '',''),
                  mp_Summary = take 500 (adv_Summary adv), mp_Modified = adv_Modified adv,
                  mp_ImportedAt = importedAt\<rparr> # rows)))))"

definition parseAdvisory ::
  "externals \<Rightarrow> (string list \<Rightarrow> string) \<Rightarrow> gerror + osvAdvisory \<Rightarrow> string \<Rightarrow> string \<Rightarrow> time \<Rightarrow> gerror + MaliciousPackage list" where
  "parseAdvisory E enc r eco osvName importedAt =
     bind_err r (\<lambda>adv.
       if adv_Withdrawn adv \<noteq> None then Inr []
       else affected_rows E enc eco osvName importedAt adv (adv_Affected adv))"

subsection \<open>Archives\<close>

definition baseName :: "string \<Rightarrow> string" where
  "baseName p = (case LastIndexByte p CHR ''/'' of None \<Rightarrow> p | Some i \<Rightarrow> drop (i + 1) p)"

text \<open>A member: its name, and the error of opening it or the outcome of decoding it.\<close>

type_synonym member = "string \<times> (gerror + (gerror + osvAdvisory))"

fun member_rows ::
  "externals \<Rightarrow> (string list \<Rightarrow> string) \<Rightarrow> string \<Rightarrow> time \<Rightarrow> member list \<Rightarrow> gerror + MaliciousPackage list" where
  "member_rows E enc eco importedAt [] = Inr []"
| "member_rows E enc eco importedAt ((n, opened) # members) =
     (if \<not> HasPrefix (baseName n) ''MAL-'' then member_rows E enc eco importedAt members
      else bind_err opened (\<lambda>decoded.
        case parseAdvisory E enc decoded eco (OSVNameFor eco) importedAt of
          Inl _ \<Rightarrow> member_rows E enc eco importedAt members
        | Inr entryRows \<Rightarrow> bind_err (member_rows E enc eco importedAt members) (\<lambda>rows. Inr (entryRows @ rows))))"

definition fetchEcosystem ::
  "externals \<Rightarrow> (string list \<Rightarrow> string) \<Rightarrow> (string \<Rightarrow> gerror + member list) \<Rightarrow> string \<Rightarrow> time \<Rightarrow> gerror + MaliciousPackage list" where
  "fetchEcosystem E enc archive eco importedAt = bind_err (archive (OSVNameFor eco)) (member_rows E enc eco importedAt)"

subsection \<open>One sync\<close>

fun fetch_all ::
  "externals \<Rightarrow> (string list \<Rightarrow> string) \<Rightarrow> (string \<Rightarrow> gerror + member list) \<Rightarrow> time \<Rightarrow> string list \<Rightarrow>
     gerror + (string \<times> MaliciousPackage list) list" where
  "fetch_all E enc archive t [] = Inr []"
| "fetch_all E enc archive t (eco # ecos) =
     bind_err (fetchEcosystem E enc archive eco t) (\<lambda>rows.
       bind_err (fetch_all E enc archive t ecos) (\<lambda>rest. Inr ((eco, rows) # rest)))"

fun commit_all ::
  "'db malware_table \<Rightarrow> (string \<times> MaliciousPackage list) list \<Rightarrow> int \<Rightarrow> 'db \<Rightarrow> 'db \<times> (gerror + int)" where
  "commit_all M [] count db = (db, Inr count)"
| "commit_all M ((eco, rows) # rest) count db =
     (case ReplaceEcosystem M eco rows db of
        (db', Inl e) \<Rightarrow> (db', Inl e)
      | (db', Inr _) \<Rightarrow> commit_all M rest (count + int (length rows)) db')"

text \<open>The guard against wiping: an ecosystem with entries whose archive has none.\<close>

definition would_wipe :: "(string \<rightharpoonup> int) \<Rightarrow> (string \<times> MaliciousPackage list) list \<Rightarrow> bool" where
  "would_wipe existing fetched \<longleftrightarrow>
     list_ex (\<lambda>(eco, rows). rows = [] \<and> (case existing eco of None \<Rightarrow> False | Some n \<Rightarrow> n > 0)) fetched"

definition SyncOnce ::
  "externals \<Rightarrow> (string list \<Rightarrow> string) \<Rightarrow> (string \<Rightarrow> gerror + member list) \<Rightarrow> 'db malware_table \<Rightarrow> time \<Rightarrow> 'db \<Rightarrow>
     'db \<times> (gerror + int)" where
  "SyncOnce E enc archive M t db =
     (case fetch_all E enc archive t SyncedEcosystems of
        Inl e \<Rightarrow> (db, Inl e)
      | Inr fetched \<Rightarrow>
          (case EntryCounts M db of
             Inl e \<Rightarrow> (db, Inl e)
           | Inr (existing, _) \<Rightarrow>
               if would_wipe existing fetched then (db, Inl plain_error)
               else commit_all M fetched 0 db))"

subsection \<open>The sync state\<close>

record BlocklistSyncState =
  ss_ID :: uint
  ss_LastSyncAt :: "time option"
  ss_LastSuccessAt :: "time option"
  ss_LastError :: string
  ss_EntryCount :: int
  ss_DurationMs :: int

definition SyncState :: "gerror + BlocklistSyncState \<Rightarrow> gerror + BlocklistSyncState" where
  "SyncState row =
     (case row of
        Inl e \<Rightarrow> if errors_Is e ErrRecordNotFound
          then Inr \<lparr>ss_ID = 1, ss_LastSyncAt = None, ss_LastSuccessAt = None, ss_LastError = [], ss_EntryCount = 0, ss_DurationMs = 0\<rparr>
          else Inl e
      | Inr st \<Rightarrow> Inr st)"

text \<open>The row that \<open>RecordSync\<close> saves; \<open>syncErr\<close> is the text of the error.\<close>

definition RecordSync ::
  "gerror + BlocklistSyncState \<Rightarrow> time \<Rightarrow> string option \<Rightarrow> int \<Rightarrow> int \<Rightarrow> gerror + BlocklistSyncState" where
  "RecordSync row now syncErr entryCount took =
     bind_err (SyncState row) (\<lambda>st0.
       let st = st0\<lparr>ss_ID := 1, ss_LastSyncAt := Some now, ss_DurationMs := tdiv took 1000000\<rparr> in
       Inr (case syncErr of
         Some text \<Rightarrow> st\<lparr>ss_LastError := text\<rparr>
       | None \<Rightarrow> st\<lparr>ss_LastError := [], ss_LastSuccessAt := Some now, ss_EntryCount := entryCount\<rparr>))"

subsection \<open>The slot of the running sync\<close>

text \<open>
  The flag \<open>running\<close>, with the callers that hold it: those of \<open>TryStartSync\<close> between their
  reservation and the answer of the task runtime, and the syncs that were handed over or run.
  Each function is one access to the flag.
\<close>

record slot =
  sl_running :: bool
  sl_submitting :: nat
  sl_active :: nat

datatype start_result = Started | ErrSyncInProgress | ErrSyncUnavailable

definition free_slot :: slot where
  "free_slot = \<lparr>sl_running = False, sl_submitting = 0, sl_active = 0\<rparr>"

text \<open>\<open>runOnce\<close>: a tick of the schedule reserves the slot and runs, or is skipped.\<close>

definition runOnce :: "slot \<Rightarrow> slot" where
  "runOnce s = (if sl_running s then s else s\<lparr>sl_running := True, sl_active := sl_active s + 1\<rparr>)"

text \<open>The end of \<open>runReserved\<close>.\<close>

definition runReserved_done :: "slot \<Rightarrow> slot" where
  "runReserved_done s = s\<lparr>sl_running := False, sl_active := sl_active s - 1\<rparr>"

definition TryStartSync_reserve :: "slot \<Rightarrow> slot \<times> start_result option" where
  "TryStartSync_reserve s =
     (if sl_running s then (s, Some ErrSyncInProgress)
      else (s\<lparr>sl_running := True, sl_submitting := sl_submitting s + 1\<rparr>, None))"

text \<open>The second half; \<open>tasks\<close> is nil or the answer of \<open>Submit\<close>.\<close>

definition TryStartSync_submit :: "gerror option option \<Rightarrow> slot \<Rightarrow> slot \<times> start_result" where
  "TryStartSync_submit tasks s =
     (case tasks of
        Some None \<Rightarrow> (s\<lparr>sl_submitting := sl_submitting s - 1, sl_active := sl_active s + 1\<rparr>, Started)
      | _ \<Rightarrow> (s\<lparr>sl_running := False, sl_submitting := sl_submitting s - 1\<rparr>, ErrSyncUnavailable))"

definition Running :: "slot \<Rightarrow> bool" where
  "Running s = sl_running s"

text \<open>Every interleaving of ticks, operators and syncs that end.\<close>

inductive slot_reach :: "slot \<Rightarrow> bool" where
  start: "slot_reach free_slot"
| tick: "slot_reach s \<Longrightarrow> slot_reach (runOnce s)"
| reserve: "slot_reach s \<Longrightarrow> slot_reach (fst (TryStartSync_reserve s))"
| submit: "slot_reach s \<Longrightarrow> 0 < sl_submitting s \<Longrightarrow> slot_reach (fst (TryStartSync_submit tasks s))"
| finish: "slot_reach s \<Longrightarrow> 0 < sl_active s \<Longrightarrow> slot_reach (runReserved_done s)"

lemma slot_invariant:
  "slot_reach s \<Longrightarrow> sl_submitting s + sl_active s = (if sl_running s then 1 else 0)"
  by (induction rule: slot_reach.induct)
     (auto simp: free_slot_def runOnce_def runReserved_done_def TryStartSync_reserve_def TryStartSync_submit_def
       split: if_splits option.split)

text \<open>
  Syncs never overlap and the status never sticks. In every interleaving of schedule ticks,
  operator requests, rejected submissions and syncs that end, at most one sync is in flight, and
  the flag the status shows is set exactly while one caller holds the slot; so an operator's
  request is refused as already running only while a sync is reserved or runs.
\<close>

theorem syncs_never_overlap:
  assumes "slot_reach s"
  shows "sl_active s \<le> 1 \<and> (Running s \<longleftrightarrow> sl_submitting s + sl_active s = 1) \<and>
    (snd (TryStartSync_reserve s) = Some ErrSyncInProgress \<longleftrightarrow> sl_submitting s + sl_active s = 1)"
  using slot_invariant [OF assms] by (auto simp: Running_def TryStartSync_reserve_def split: if_splits)

theorem syncs_never_overlap_witness:
  "snd (TryStartSync_reserve (runOnce free_slot)) = Some ErrSyncInProgress \<and>
   sl_active (fst (TryStartSync_submit (Some None) (fst (TryStartSync_reserve (runReserved_done (runOnce free_slot)))))) \<le> 1"
proof -
  have one: "slot_reach (runOnce free_slot)" by (intro tick start)
  have "0 < sl_active (runOnce free_slot)" by code_simp
  then have two: "slot_reach (fst (TryStartSync_reserve (runReserved_done (runOnce free_slot))))" using one by (intro reserve finish)
  have "0 < sl_submitting (fst (TryStartSync_reserve (runReserved_done (runOnce free_slot))))" by code_simp
  then have "slot_reach (fst (TryStartSync_submit (Some None) (fst (TryStartSync_reserve (runReserved_done (runOnce free_slot))))))"
    using two by (intro submit)
  moreover have "sl_submitting (runOnce free_slot) + sl_active (runOnce free_slot) = 1" by code_simp
  ultimately show ?thesis using syncs_never_overlap [OF one] syncs_never_overlap by blast
qed

subsection \<open>What an advisory turns into\<close>

text \<open>An advisory names a version of a package: a section of the ecosystem does.\<close>

definition section_names ::
  "externals \<Rightarrow> dialect \<Rightarrow> string \<Rightarrow> string \<Rightarrow> string \<Rightarrow> string \<Rightarrow> osvAffected \<Rightarrow> bool" where
  "section_names E d eco osvName n request aff \<longleftrightarrow>
     EqualFoldASCII (baseEcosystem (oa_Ecosystem aff)) osvName \<and> normalizeNameStrict E eco (oa_Name aff) = Inr n \<and>
     (coversAllVersions (oa_Ranges aff) \<or> lists_version E d eco request (oa_Versions aff))"

text \<open>What the import needs of the JSON encoder: its lists are read back, and are not taken for the two empty ones.\<close>

definition json_ok :: "json \<Rightarrow> (string list \<Rightarrow> string) \<Rightarrow> bool" where
  "json_ok J enc \<longleftrightarrow> (\<forall>vs. vs \<noteq> [] \<longrightarrow> J (enc vs) = Some vs \<and> enc vs \<noteq> [] \<and> enc vs \<noteq> ''[]'')"

lemma normalizeVersions_Inr:
  "normalizeVersions E eco vs = Inr ns \<Longrightarrow> list_all2 (\<lambda>v n. normalizeVersionStrict E eco v = Inr n) vs ns"
  by (induction vs arbitrary: ns) auto

lemma lists_version_normalized:
  assumes "lower_english_ok E" and "is_ascii eco" "CanonicalEcosystem E eco = eco" "DialectFor E eco = Inr d"
    and go: "eco = ''go'' \<longrightarrow> list_all (\<lambda>n. \<not> HasPrefix n ''v'') ns" and "normalizeVersions E eco vs = Inr ns"
  shows "lists_version E d eco request ns \<longleftrightarrow> lists_version E d eco request vs"
proof -
  have again: "normalizeVersionStrict E eco n = Inr n" if "normalizeVersionStrict E eco v = Inr n" "n \<in> set ns" for v n
  proof (cases "v = []")
    case True
    then show ?thesis using that by (simp add: normalizeVersionStrict_def)
  next
    case False
    then show ?thesis
      using normalizeVersionStrict_again(1) [OF assms(1-4) that(1) False] go that(2) by (auto simp: list_all_iff)
  qed
  have all: "list_all2 (\<lambda>v n. normalizeVersionStrict E eco v = Inr n) vs ns" by (rule normalizeVersions_Inr) fact
  have "(\<exists>n \<in> set ns. CompareVersions E d n request = Inr 0) \<longleftrightarrow>
    (\<exists>v \<in> set vs. \<exists>n. normalizeVersionStrict E eco v = Inr n \<and> CompareVersions E d n request = Inr 0)"
    using all by (induction rule: list_all2_induct) auto
  moreover have "\<forall>n \<in> set ns. \<exists>v. normalizeVersionStrict E eco v = Inr n"
    using all by (induction rule: list_all2_induct) auto
  then have "\<forall>n \<in> set ns. normalizeVersionStrict E eco n = Inr n" using again by blast
  ultimately show ?thesis by (auto simp: lists_version_def)
qed

definition named :: "externals \<Rightarrow> json \<Rightarrow> dialect \<Rightarrow> string \<Rightarrow> string \<Rightarrow> string \<Rightarrow> MaliciousPackage set \<Rightarrow> bool" where
  "named E J d eco n request R \<longleftrightarrow>
     (\<exists>r \<in> R. mp_Ecosystem r = eco \<and> mp_Package r = n \<and> names_version E J d eco request r)"

lemma named_simps [simp]:
  "\<not> named E J d eco n request {}"
  "named E J d eco n request (insert r R) \<longleftrightarrow>
     (mp_Ecosystem r = eco \<and> mp_Package r = n \<and> names_version E J d eco request r) \<or> named E J d eco n request R"
  "named E J d eco n request (R \<union> R') \<longleftrightarrow> named E J d eco n request R \<or> named E J d eco n request R'"
  by (auto simp: named_def)

lemma affected_rows_named:
  assumes E: "lower_english_ok E" and eco: "is_ascii eco" "CanonicalEcosystem E eco = eco" "DialectFor E eco = Inr d"
    and J: "json_ok J enc"
    and go: "eco = ''go'' \<longrightarrow> (\<forall>aff \<in> set affs. \<forall>v \<in> set (oa_Versions aff). \<forall>c. normalizeVersionStrict E eco v = Inr c \<longrightarrow> \<not> HasPrefix c ''v'')"
    and rows: "affected_rows E enc eco osvName t adv affs = Inr rows"
  shows "named E J d eco n request (set rows) \<longleftrightarrow> (\<exists>aff \<in> set affs. section_names E d eco osvName n request aff)"
  using go rows
proof (induction affs arbitrary: rows)
  case (Cons aff affs)
  let ?skip = "\<not> EqualFoldASCII (baseEcosystem (oa_Ecosystem aff)) osvName"
  show ?case
  proof (cases "?skip")
    case True
    then show ?thesis using Cons by (auto simp: section_names_def)
  next
    case False
    obtain column where col: "affected_versions E enc eco aff = Inr column"
      using Cons.prems(2) False by (auto simp: split: option.split_asm)
    show ?thesis
    proof (cases column)
      case None
      then have "oa_Versions aff = []" "\<not> coversAllVersions (oa_Ranges aff)"
        using col by (auto simp: affected_versions_def split: if_splits)
      then have "\<not> section_names E d eco osvName n request aff" by (simp add: section_names_def lists_version_def)
      then show ?thesis using Cons False col None by auto
    next
      case (Some versions)
      obtain p rest where p: "normalizeNameStrict E eco (oa_Name aff) = Inr p"
        "affected_rows E enc eco osvName t adv affs = Inr rest"
        "rows = \<lparr>mp_ID = 0, mp_SourceID = adv_ID adv, mp_Ecosystem = eco, mp_Package = p,
                  mp_Versions = versions, mp_Aliases = take 500 (Join (adv_Aliases adv) '',''),
                  mp_Summary = take 500 (adv_Summary adv), mp_Modified = adv_Modified adv,
                  mp_ImportedAt = t\<rparr> # rest"
        using Cons.prems(2) False col Some by auto
      have "names_version E J d eco request (hd rows) \<longleftrightarrow>
          coversAllVersions (oa_Ranges aff) \<or> lists_version E d eco request (oa_Versions aff)"
      proof (cases "coversAllVersions (oa_Ranges aff)")
        case True
        then have "versions = []" using col Some by (auto simp: affected_versions_def)
        then show ?thesis using True p(3) by (simp add: names_version_def covers_all_def)
      next
        case all: False
        then obtain ns where ns: "normalizeVersions E eco (oa_Versions aff) = Inr ns" "versions = enc ns" "oa_Versions aff \<noteq> []"
          using col Some by (auto simp: affected_versions_def split: if_splits)
        have l2: "list_all2 (\<lambda>v n. normalizeVersionStrict E eco v = Inr n) (oa_Versions aff) ns"
          using normalizeVersions_Inr [OF ns(1)] .
        have "ns \<noteq> []" using l2 ns(3) by auto
        moreover have "eco = ''go'' \<longrightarrow> list_all (\<lambda>n. \<not> HasPrefix n ''v'') ns"
          using l2 Cons.prems(1) by (fastforce simp: list_all_iff in_set_conv_nth list_all2_conv_all_nth)
        ultimately show ?thesis
          using all p(3) ns J lists_version_normalized [OF E eco _ ns(1), of request]
          by (simp add: names_version_def covers_all_def json_ok_def)
      qed
      then have "mp_Package (hd rows) = n \<and> names_version E J d eco request (hd rows) \<longleftrightarrow> section_names E d eco osvName n request aff"
        using False p by (auto simp: section_names_def)
      moreover have "named E J d eco n request (set rest) \<longleftrightarrow> (\<exists>aff \<in> set affs. section_names E d eco osvName n request aff)"
        using Cons.IH [OF _ p(2)] Cons.prems(1) by simp
      ultimately show ?thesis using p(3) by auto
    qed
  qed
qed simp

lemma affected_rows_ecosystem:
  "affected_rows E enc eco osvName t adv affs = Inr rows \<Longrightarrow> \<forall>r \<in> set rows. mp_Ecosystem r = eco"
  by (induction affs arbitrary: rows) (auto split: if_splits option.split_asm)

lemma parseAdvisory_ecosystem:
  "parseAdvisory E enc decoded eco osvName t = Inr rows \<Longrightarrow> \<forall>r \<in> set rows. mp_Ecosystem r = eco"
  using affected_rows_ecosystem [of E enc eco osvName t] by (auto simp: parseAdvisory_def split: if_splits)

text \<open>A member contributes the rows of its advisory, or none.\<close>

lemma member_rows_Cons:
  assumes "member_rows E enc eco t ((n, opened) # members) = Inr rows"
  shows "\<exists>found rest. member_rows E enc eco t members = Inr rest \<and> rows = found @ rest \<and>
    (found = [] \<or> (\<exists>decoded. parseAdvisory E enc decoded eco (OSVNameFor eco) t = Inr found)) \<and>
    (\<forall>decoded rs. HasPrefix (baseName n) ''MAL-'' \<and> opened = Inr decoded \<and>
       parseAdvisory E enc decoded eco (OSVNameFor eco) t = Inr rs \<longrightarrow> found = rs)"
proof (cases "HasPrefix (baseName n) ''MAL-''")
  case True
  then obtain decoded where d: "opened = Inr decoded" using assms by auto
  show ?thesis
  proof (cases "parseAdvisory E enc decoded eco (OSVNameFor eco) t")
    case (Inl e)
    then show ?thesis using assms True d by - (rule exI [of _ "[]"], rule exI [of _ rows], simp)
  next
    case (Inr rs)
    then show ?thesis using assms True d by - (rule exI [of _ rs], auto)
  qed
qed (use assms in simp)

lemma member_rows_ecosystem:
  "member_rows E enc eco t members = Inr rows \<Longrightarrow> \<forall>r \<in> set rows. mp_Ecosystem r = eco"
proof (induction members arbitrary: rows)
  case (Cons m members)
  obtain n opened where m: "m = (n, opened)" by (cases m)
  obtain found rest where r: "member_rows E enc eco t members = Inr rest" "rows = found @ rest"
    "found = [] \<or> (\<exists>decoded. parseAdvisory E enc decoded eco (OSVNameFor eco) t = Inr found)"
    using member_rows_Cons [OF Cons.prems [unfolded m]] by blast
  have "\<forall>x \<in> set found. mp_Ecosystem x = eco" using r(3) parseAdvisory_ecosystem by fastforce
  then show ?case using Cons.IH [OF r(1)] r(2) by auto
qed simp

text \<open>A readable advisory of the archive is among the imported rows.\<close>

lemma member_rows_include:
  assumes "member_rows E enc eco t members = Inr rows" and "(n, Inr decoded) \<in> set members" and "HasPrefix (baseName n) ''MAL-''"
    and "parseAdvisory E enc decoded eco (OSVNameFor eco) t = Inr found"
  shows "\<exists>pre post. rows = pre @ found @ post"
  using assms(1,2)
proof (induction members arbitrary: rows)
  case (Cons m members)
  obtain n' opened where m: "m = (n', opened)" by (cases m)
  obtain rs rest where r: "member_rows E enc eco t members = Inr rest" "rows = rs @ rest"
    "\<forall>decoded f. HasPrefix (baseName n') ''MAL-'' \<and> opened = Inr decoded \<and>
       parseAdvisory E enc decoded eco (OSVNameFor eco) t = Inr f \<longrightarrow> rs = f"
    using member_rows_Cons [OF Cons.prems(1) [unfolded m]] by blast
  show ?case
  proof (cases "m = (n, Inr decoded)")
    case True
    then have "rs = found" using r(3) m assms(3,4) by simp
    then show ?thesis using r(2) by (metis append_Nil)
  next
    case False
    then obtain pre post where "rest = pre @ found @ post" using Cons.IH [OF r(1)] Cons.prems(2) by auto
    then show ?thesis using r(2) by (metis append_assoc)
  qed
qed simp

subsection \<open>What a sync leaves in the table\<close>

definition of_ecosystem :: "string \<Rightarrow> MaliciousPackage set \<Rightarrow> MaliciousPackage set" where
  "of_ecosystem eco R = {r \<in> without_id ` R. mp_Ecosystem r = eco}"

lemma of_ecosystem_empty: "of_ecosystem eco R = {} \<longleftrightarrow> \<not> (\<exists>r \<in> R. mp_Ecosystem r = eco)"
  by (auto simp: of_ecosystem_def)


lemma Replace_rows:
  assumes "malware_table_ok M rows overrides" and "ReplaceEcosystem M eco rs db = (db', Inr u)" and "\<forall>r \<in> set rs. mp_Ecosystem r = eco"
  shows "of_ecosystem e (rows db') = (if e = eco then without_id ` set rs else of_ecosystem e (rows db))"
    and "overrides db' = overrides db"
proof -
  let ?body = "\<lambda>db. case mt_DeleteRows M eco db of (db', Some e) \<Rightarrow> (db', Inl e)
      | (db', None) \<Rightarrow> if rs = [] then (db', Inr ()) else (case mt_CreateRows M rs db' of
          (db'', Some e) \<Rightarrow> (db'', Inl e) | (db'', None) \<Rightarrow> (db'', Inr ()))"
  have "malware_transaction M ?body db = (db', Inr u)" using assms(2) by (simp add: ReplaceEcosystem_def)
  from malware_transaction_Inr [OF this] obtain db1
    where db1: "mt_DeleteRows M eco db = (db1, None)" "if rs = [] then db' = db1 else mt_CreateRows M rs db1 = (db', None)"
    by (auto split: prod.split_asm option.split_asm if_splits)
  have "without_id ` rows db' = without_id ` {r \<in> rows db. mp_Ecosystem r \<noteq> eco} \<union> without_id ` set rs \<and> overrides db' = overrides db"
    using malware_okD(7) [OF assms(1) db1(1)] malware_okD(8) [OF assms(1), of rs db1 db'] db1(2) by (cases "rs = []") simp_all
  then show "of_ecosystem e (rows db') = (if e = eco then without_id ` set rs else of_ecosystem e (rows db))"
    "overrides db' = overrides db"
    using assms(3) by (auto simp: of_ecosystem_def)
qed

lemma commit_all_rows:
  assumes ok: "malware_table_ok M rows overrides"
    and "\<forall>(eco, rs) \<in> set fetched. \<forall>r \<in> set rs. mp_Ecosystem r = eco" and "distinct (map fst fetched)"
    and "commit_all M fetched k db = (db', res)"
  shows "(\<forall>e. of_ecosystem e (rows db') = of_ecosystem e (rows db) \<or>
      (\<exists>rs. (e, rs) \<in> set fetched \<and> of_ecosystem e (rows db') = without_id ` set rs)) \<and>
    (is_Inr res \<longrightarrow> (\<forall>(e, rs) \<in> set fetched. of_ecosystem e (rows db') = without_id ` set rs)) \<and>
    overrides db' = overrides db"
  using assms(2-)
proof (induction fetched arbitrary: k db)
  case (Cons f fetched)
  obtain eco rs where f: "f = (eco, rs)" by (cases f)
  obtain db1 r1 where rep: "ReplaceEcosystem M eco rs db = (db1, r1)" by (cases "ReplaceEcosystem M eco rs db")
  show ?case
  proof (cases r1)
    case (Inl e)
    then have "db1 = db" using rep malware_transaction_Inl by (fastforce simp: ReplaceEcosystem_def)
    then show ?thesis using Inl rep f Cons.prems(3) by auto
  next
    case (Inr u)
    have "\<forall>r \<in> set rs. mp_Ecosystem r = eco" using Cons.prems(1) f by simp
    note r = Replace_rows [OF ok rep [unfolded Inr] this]
    have run: "commit_all M fetched (k + int (length rs)) db1 = (db', res)" using Cons.prems(3) f rep Inr by simp
    have prems: "\<forall>(eco, rs) \<in> set fetched. \<forall>r \<in> set rs. mp_Ecosystem r = eco" "distinct (map fst fetched)"
      using Cons.prems(1,2) by simp_all
    note all = Cons.IH [OF prems run]
    note ih = all [THEN conjunct1, THEN spec] all [THEN conjunct2, THEN conjunct1, THEN mp] all [THEN conjunct2, THEN conjunct2]
    have "(eco, x) \<notin> set fetched" for x using Cons.prems(2) f image_eqI [of eco fst "(eco, x)" "set fetched"] by auto
    then have keep: "of_ecosystem eco (rows db') = without_id ` set rs" using ih(1) [of eco] r(1) [of eco] by simp
    have eachone: "of_ecosystem e (rows db') = of_ecosystem e (rows db) \<or>
        (\<exists>rs. (e, rs) \<in> set (f # fetched) \<and> of_ecosystem e (rows db') = without_id ` set rs)" for e
      using ih(1) [of e] r(1) [of e] keep f by (cases "e = eco") auto
    have final: "\<forall>(e, rs) \<in> set (f # fetched). of_ecosystem e (rows db') = without_id ` set rs" if "is_Inr res"
      using ih(2) [OF that] keep f by simp
    show ?thesis using eachone final ih(3) r(2) by simp
  qed
qed auto

lemma fetch_all_Inr:
  "fetch_all E enc archive t ecos = Inr fetched \<Longrightarrow>
     map fst fetched = ecos \<and> (\<forall>(eco, rs) \<in> set fetched. fetchEcosystem E enc archive eco t = Inr rs)"
  by (induction ecos arbitrary: fetched) auto

lemma fetched_ecosystem:
  assumes "fetch_all E enc archive t ecos = Inr fetched"
  shows "\<forall>(eco, rs) \<in> set fetched. \<forall>r \<in> set rs. mp_Ecosystem r = eco"
  using fetch_all_Inr [OF assms] member_rows_ecosystem by (fastforce simp: fetchEcosystem_def)

lemma synced_distinct: "distinct SyncedEcosystems"
  by code_simp

lemma EntryCounts_positive:
  assumes "malware_table_ok M rows overrides" and "EntryCounts M db = Inr (existing, total')" and "r \<in> rows db"
  shows "\<exists>k > 0. existing (mp_Ecosystem r) = Some k"
proof -
  obtain cs where cs: "mt_Counts M db = Inr cs" "existing = map_of (rev cs)" using assms(2) by (auto simp: EntryCounts_def)
  note ok = malware_okD(9) [OF assms(1) cs(1)]
  obtain k where "k > 0" "(mp_Ecosystem r, k) \<in> set cs" using ok assms(3) by blast
  then show ?thesis using ok cs(2) by (auto simp: map_of_eq_Some_iff rev_map [symmetric])
qed

text \<open>The two ways through \<open>SyncOnce\<close>.\<close>

lemma SyncOnce_cases:
  assumes "SyncOnce E enc archive M t db = (db', res)"
  obtains (early) e where "db' = db" "res = Inl e"
    | (commit) fetched existing k where "fetch_all E enc archive t SyncedEcosystems = Inr fetched"
        "EntryCounts M db = Inr (existing, k)" "\<not> would_wipe existing fetched" "commit_all M fetched 0 db = (db', res)"
  using assms by (auto simp: SyncOnce_def split: sum.split_asm prod.split_asm if_splits)

lemma SyncOnce_nonempty:
  assumes ok: "malware_table_ok M rows overrides" and run: "SyncOnce E enc archive M t db = (db', res)"
    and r: "r \<in> rows db"
  shows "\<exists>r' \<in> rows db'. mp_Ecosystem r' = mp_Ecosystem r"
  using run
proof (cases rule: SyncOnce_cases)
  case (commit fetched existing k)
  let ?e = "mp_Ecosystem r"
  have "rs \<noteq> []" if "(?e, rs) \<in> set fetched" for rs
    using that commit(3) EntryCounts_positive [OF ok commit(2) r] by (fastforce simp: would_wipe_def list_ex_iff)
  moreover have "of_ecosystem ?e (rows db) \<noteq> {}" using r of_ecosystem_empty [of ?e "rows db"] by blast
  moreover have "distinct (map fst fetched)" using fetch_all_Inr [OF commit(1)] synced_distinct by simp
  ultimately have "of_ecosystem ?e (rows db') \<noteq> {}"
    using commit_all_rows [OF ok fetched_ecosystem [OF commit(1)] _ commit(4), THEN conjunct1, THEN spec, of ?e] by auto
  then show ?thesis using of_ecosystem_empty [of ?e "rows db'"] by blast
qed (use r in auto)

subsection \<open>Properties\<close>

text \<open>
  An import says what the advisory says. The rows that one advisory becomes name a version
  of a package, for the matcher that reads them back, exactly when a section of the advisory
  for this ecosystem does: by a range that starts at zero and is never bounded, or by listing an
  equal version. A withdrawn advisory names nothing, and neither does a bounded range without a
  list of versions.
\<close>

theorem import_is_exact:
  assumes "lower_english_ok E" and "is_ascii eco" "CanonicalEcosystem E eco = eco" "DialectFor E eco = Inr d" and "json_ok J enc"
    and "eco = ''go'' \<longrightarrow> (\<forall>aff \<in> set (adv_Affected adv). \<forall>v \<in> set (oa_Versions aff). \<forall>c.
      normalizeVersionStrict E eco v = Inr c \<longrightarrow> \<not> HasPrefix c ''v'')"
    and "parseAdvisory E enc (Inr adv) eco osvName t = Inr rows"
  shows "named E J d eco n request (set rows) \<longleftrightarrow>
    adv_Withdrawn adv = None \<and> (\<exists>aff \<in> set (adv_Affected adv). section_names E d eco osvName n request aff)"
proof (cases "adv_Withdrawn adv")
  case None
  then have "affected_rows E enc eco osvName t adv (adv_Affected adv) = Inr rows"
    using assms(7) by (simp add: parseAdvisory_def)
  then show ?thesis using affected_rows_named [OF assms(1-6)] None by simp
qed (use assms(7) in \<open>simp add: parseAdvisory_def\<close>)

text \<open>
  A sync never takes protection away. When an archive cannot be fetched or read, nothing is
  written; and whatever happens, in the first phase or while the ecosystems are committed, an
  ecosystem with entries keeps entries, and no override is touched.
\<close>

theorem sync_keeps_protection:
  assumes "malware_table_ok M rows overrides" and "SyncOnce E enc archive M t db = (db', res)"
  shows "(\<not> is_Inr (fetch_all E enc archive t SyncedEcosystems) \<longrightarrow> db' = db) \<and>
    (\<forall>eco. (\<exists>r \<in> rows db. mp_Ecosystem r = eco) \<longrightarrow> (\<exists>r \<in> rows db'. mp_Ecosystem r = eco)) \<and>
    overrides db' = overrides db"
proof (intro conjI)
  show "\<not> is_Inr (fetch_all E enc archive t SyncedEcosystems) \<longrightarrow> db' = db"
    using assms(2) by (cases rule: SyncOnce_cases) auto
  show "\<forall>eco. (\<exists>r \<in> rows db. mp_Ecosystem r = eco) \<longrightarrow> (\<exists>r \<in> rows db'. mp_Ecosystem r = eco)"
    using SyncOnce_nonempty [OF assms] by blast
  show "overrides db' = overrides db" using assms(2)
  proof (cases rule: SyncOnce_cases)
    case (commit fetched existing k)
    have "distinct (map fst fetched)" using fetch_all_Inr [OF commit(1)] synced_distinct by simp
    then show ?thesis using commit_all_rows [OF assms(1) fetched_ecosystem [OF commit(1)] _ commit(4)] by blast
  qed simp
qed



subsection \<open>A package in two sections\<close>

abbreviation row_key :: "MaliciousPackage \<Rightarrow> string \<times> string \<times> string" where
  "row_key r \<equiv> (mp_SourceID r, mp_Ecosystem r, mp_Package r)"

text \<open>The sections that become rows.\<close>

definition imported :: "string \<Rightarrow> osvAffected \<Rightarrow> bool" where
  "imported osvName aff \<longleftrightarrow> EqualFoldASCII (baseEcosystem (oa_Ecosystem aff)) osvName \<and>
     (oa_Versions aff \<noteq> [] \<or> coversAllVersions (oa_Ranges aff))"

lemma affected_rows_packages:
  "affected_rows E enc eco osvName t adv affs = Inr rows \<Longrightarrow>
     map (Inr \<circ> mp_Package) rows = map (normalizeNameStrict E eco \<circ> oa_Name) (filter (imported osvName) affs) \<and>
     list_all (\<lambda>r. mp_SourceID r = adv_ID adv \<and> mp_Ecosystem r = eco) rows"
proof (induction affs arbitrary: rows)
  case (Cons aff affs)
  show ?case
  proof (cases "imported osvName aff")
    case True
    then obtain column where "affected_versions E enc eco aff = Inr (Some column)"
      using Cons.prems by (auto simp: imported_def affected_versions_def split: if_splits)
    then show ?thesis using Cons True by (auto simp: imported_def)
  next
    case False
    then have "EqualFoldASCII (baseEcosystem (oa_Ecosystem aff)) osvName \<longrightarrow> affected_versions E enc eco aff = Inr None"
      by (auto simp: imported_def affected_versions_def)
    then show ?thesis using Cons False by (auto split: if_splits)
  qed
qed simp

lemma affected_rows_repeat:
  assumes "affected_rows E enc eco osvName t adv (xs @ a # ys @ b # zs) = Inr rows" and "imported osvName a" "imported osvName b"
    and "normalizeNameStrict E eco (oa_Name a) = normalizeNameStrict E eco (oa_Name b)"
  shows "\<not> distinct (map row_key rows)"
proof
  assume dist: "distinct (map row_key rows)"
  note p = affected_rows_packages [OF assms(1)]
  have keys: "map row_key rows = map (\<lambda>n. (adv_ID adv, eco, n)) (map mp_Package rows)"
    using p by (auto simp: list_all_iff)
  have "distinct (map mp_Package rows)" using dist [unfolded keys] by (rule distinct_map [THEN iffD1, THEN conjunct1])
  then have "distinct (map (Inr \<circ> mp_Package) rows :: (gerror + string) list)"
    by (simp add: distinct_map comp_inj_on_iff inj_on_def)
  then show False using p assms(2-4) by simp
qed

lemma commit_all_repeat:
  assumes "\<And>rs db db'. mt_CreateRows M rs db = (db', None) \<Longrightarrow> distinct (map row_key rs)"
    and "(eco, rs) \<in> set fetched" and "\<not> distinct (map row_key rs)"
  shows "\<not> is_Inr (snd (commit_all M fetched k db))"
  using assms(2)
proof (induction fetched arbitrary: k db)
  case (Cons f fetched)
  obtain e rs' where f: "f = (e, rs')" by (cases f)
  obtain db1 r1 where rep: "ReplaceEcosystem M e rs' db = (db1, r1)" by (cases "ReplaceEcosystem M e rs' db")
  show ?case
  proof (cases "f = (eco, rs)")
    case True
    have "rs' \<noteq> []" using True f assms(3) by auto
    have "\<not> is_Inr r1"
    proof
      assume "is_Inr r1"
      then obtain u where "r1 = Inr u" by (auto simp: is_Inr_iff)
      then show False
        using rep [unfolded ReplaceEcosystem_def] malware_transaction_Inr assms(1,3) True f \<open>rs' \<noteq> []\<close>
        by (fastforce split: prod.split_asm option.split_asm)
    qed
    then show ?thesis using f rep by (cases r1) auto
  next
    case False
    then have "(eco, rs) \<in> set fetched" using Cons.prems by simp
    then show ?thesis using Cons.IH f rep by (cases r1) auto
  qed
qed simp

text \<open>
  One advisory with two sections for one package, in the same or in two equivalent spellings,
  stops every sync. Its rows carry the same source, ecosystem and package, which is the unique
  index of the table; a table that enforces the index refuses them, the transaction of the
  ecosystem fails, and so does the sync, at every interval. The documentation wants one
  malformed advisory not to unprotect the rest of the ecosystem.
\<close>

theorem repeated_package_stops_sync:
  assumes unique: "\<And>rs db db'. mt_CreateRows M rs db = (db', None) \<Longrightarrow> distinct (map row_key rs)"
    and eco: "eco \<in> set SyncedEcosystems" and arch: "archive (OSVNameFor eco) = Inr members"
      "(f, Inr (Inr adv)) \<in> set members" "HasPrefix (baseName f) ''MAL-''"
    and readable: "is_Inr (parseAdvisory E enc (Inr adv) eco (OSVNameFor eco) t)" "adv_Withdrawn adv = None"
    and twice: "adv_Affected adv = xs @ a # ys @ b # zs" "imported (OSVNameFor eco) a" "imported (OSVNameFor eco) b"
      "normalizeNameStrict E eco (oa_Name a) = normalizeNameStrict E eco (oa_Name b)"
  shows "\<not> is_Inr (snd (SyncOnce E enc archive M t db))"
proof
  assume ok: "is_Inr (snd (SyncOnce E enc archive M t db))"
  obtain db' res where run: "SyncOnce E enc archive M t db = (db', res)" by (meson surj_pair)
  obtain found where found: "parseAdvisory E enc (Inr adv) eco (OSVNameFor eco) t = Inr found"
    using readable(1) by (auto simp: is_Inr_iff)
  have rep: "\<not> distinct (map row_key found)"
    using affected_rows_repeat [of E enc eco "OSVNameFor eco" t adv xs a ys b zs found] found readable(2) twice
    by (simp add: parseAdvisory_def)
  from run show False
  proof (cases rule: SyncOnce_cases)
    case (commit fetched existing k)
    have "eco \<in> fst ` set fetched" using fetch_all_Inr [OF commit(1)] eco by (metis list.set_map)
    then obtain rs where rs: "(eco, rs) \<in> set fetched" by auto
    then have "member_rows E enc eco t members = Inr rs"
      using fetch_all_Inr [OF commit(1)] arch(1) by (fastforce simp: fetchEcosystem_def)
    from member_rows_include [OF this arch(2,3) found] have twofold: "\<not> distinct (map row_key rs)" using rep by auto
    have "\<not> is_Inr (snd (commit_all M fetched 0 db))"
      by (rule commit_all_repeat [OF _ rs twofold]) (erule unique)
    then show False using commit(4) ok run by simp
  qed (use ok run in simp)
qed

subsection \<open>Witnesses\<close>

text \<open>A codec of lists of strings: each byte behind an \<open>a\<close>, each string ended by a \<open>b\<close>.\<close>

definition sample_enc :: "string list \<Rightarrow> string" where
  "sample_enc vs = concat (map (\<lambda>v. concat (map (\<lambda>c. [CHR ''a'', c]) v) @ ''b'') vs)"

fun sample_read :: "string \<Rightarrow> string \<Rightarrow> string list option" where
  "sample_read acc [] = (if acc = [] then Some [] else None)"
| "sample_read acc [c] = (if c = CHR ''b'' then Some [rev acc] else None)"
| "sample_read acc (c # x # s) =
     (if c = CHR ''b'' then map_option ((#) (rev acc)) (sample_read [] (x # s))
      else if c = CHR ''a'' then sample_read (x # acc) s else None)"

definition sample_json :: json where "sample_json s = sample_read [] s"

lemma sample_read_string:
  "sample_read acc (concat (map (\<lambda>c. [CHR ''a'', c]) v) @ CHR ''b'' # s) = map_option ((#) (rev acc @ v)) (sample_read [] s)"
proof (induction v arbitrary: acc)
  case Nil
  then show ?case by (cases s) auto
qed simp

lemma sample_json_ok: "json_ok sample_json sample_enc"
proof -
  have "sample_read [] (sample_enc vs) = Some vs" for vs
    by (induction vs) (auto simp: sample_enc_def sample_read_string)
  moreover have "sample_enc vs \<noteq> ''[]'' \<and> sample_enc vs \<noteq> []" if "vs \<noteq> []" for vs
    using that by (cases vs; cases "hd vs") (auto simp: sample_enc_def)
  ultimately show ?thesis by (simp add: json_ok_def sample_json_def)
qed

definition sample_section :: osvAffected where
  "sample_section = \<lparr>oa_Ecosystem = ''npm'', oa_Name = ''left-pad'', oa_Versions = [''1.2.0''], oa_Ranges = []\<rparr>"

definition sample_advisory :: osvAdvisory where
  "sample_advisory = \<lparr>adv_ID = ''MAL-2026-1'', adv_Summary = ''steals tokens'', adv_Aliases = [], adv_Modified = 0,
     adv_Withdrawn = None, adv_Affected = [sample_section]\<rparr>"

definition sample_archive :: "string \<Rightarrow> gerror + member list" where
  "sample_archive osvName = Inr (if osvName = ''npm'' then [(''npm/MAL-2026-1.json'', Inr (Inr sample_advisory))] else [])"

lemma sample_names:
  "section_names ascii_externals (npmDialect ascii_externals) ''npm'' ''npm'' ''left-pad'' ''1.2.0'' sample_section"
proof -
  have "normalizeVersionStrict ascii_externals ''npm'' ''1.2.0'' = Inr ''1.2.0''"
    "CompareVersions ascii_externals (npmDialect ascii_externals) ''1.2.0'' ''1.2.0'' = Inr 0"
    "EqualFoldASCII (baseEcosystem ''npm'') ''npm''" "normalizeNameStrict ascii_externals ''npm'' ''left-pad'' = Inr ''left-pad''"
    by code_simp+
  then show ?thesis by (simp add: section_names_def sample_section_def lists_version_def)
qed

lemma npm_stored: "is_ascii ''npm''" "CanonicalEcosystem ascii_externals ''npm'' = ''npm''"
  by code_simp+

theorem import_is_exact_witness:
  "\<exists>rows. parseAdvisory ascii_externals sample_enc (Inr sample_advisory) ''npm'' ''npm'' 0 = Inr rows \<and>
     named ascii_externals sample_json (npmDialect ascii_externals) ''npm'' ''left-pad'' ''1.2.0'' (set rows)"
proof -
  have "is_Inr (parseAdvisory ascii_externals sample_enc (Inr sample_advisory) ''npm'' ''npm'' 0)" by code_simp
  then obtain rows where rows: "parseAdvisory ascii_externals sample_enc (Inr sample_advisory) ''npm'' ''npm'' 0 = Inr rows"
    by (auto simp: is_Inr_iff)
  have "named ascii_externals sample_json (npmDialect ascii_externals) ''npm'' ''left-pad'' ''1.2.0'' (set rows)"
    using import_is_exact [OF ascii_externals_ok(1) npm_stored npm_dialect sample_json_ok _ rows] sample_names
    by (simp add: sample_advisory_def)
  then show ?thesis using rows by blast
qed

definition sample_pypi_row :: MaliciousPackage where
  "sample_pypi_row = \<lparr>mp_ID = 1, mp_SourceID = ''MAL-2025-7'', mp_Ecosystem = ''pypi'', mp_Package = ''requestz'',
     mp_Versions = [], mp_Aliases = [], mp_Summary = [], mp_Modified = 0, mp_ImportedAt = 0\<rparr>"

theorem sync_keeps_protection_witness:
  "\<exists>r \<in> set (fst (fst (SyncOnce ascii_externals sample_enc sample_archive malware_lists_table 0 ([sample_pypi_row], [])))).
     mp_Ecosystem r = ''pypi''"
proof -
  obtain db' res where run: "SyncOnce ascii_externals sample_enc sample_archive malware_lists_table 0 ([sample_pypi_row], []) = (db', res)"
    by (meson surj_pair)
  have "sample_pypi_row \<in> (set \<circ> fst) ([sample_pypi_row], [])" "mp_Ecosystem sample_pypi_row = ''pypi''" by (simp_all add: sample_pypi_row_def)
  then show ?thesis using sync_keeps_protection [OF malware_lists_ok run] run by fastforce
qed


text \<open>A table of lists that enforces the unique index.\<close>

definition indexed_table :: "malware_lists malware_table" where
  "indexed_table = malware_lists_table\<lparr>mt_CreateRows := (\<lambda>rs db.
     if distinct (map row_key rs) then ((fst db @ rs, snd db), None) else (db, Some plain_error))\<rparr>"

definition twice_advisory :: osvAdvisory where
  "twice_advisory = sample_advisory\<lparr>adv_Affected := [sample_section, sample_section\<lparr>oa_Versions := [''1.3.0'']\<rparr>]\<rparr>"

theorem repeated_package_stops_sync_witness:
  "\<not> is_Inr (snd (SyncOnce ascii_externals sample_enc
     (\<lambda>osvName. Inr (if osvName = ''npm'' then [(''MAL-1.json'', Inr (Inr twice_advisory))] else [])) indexed_table 0 ([], [])))"
proof (rule repeated_package_stops_sync)
  show "mt_CreateRows indexed_table rs db = (db', None) \<Longrightarrow> distinct (map row_key rs)" for rs db db'
    by (auto simp: indexed_table_def split: if_splits)
  have npm: "OSVNameFor ''npm'' = ''npm''" by code_simp
  show "''npm'' \<in> set SyncedEcosystems" by code_simp
  show "(\<lambda>osvName. Inr (if osvName = ''npm'' then [(''MAL-1.json'', Inr (Inr twice_advisory))] else [])) (OSVNameFor ''npm'') =
      Inr [(''MAL-1.json'', Inr (Inr twice_advisory))]"
    by (simp add: npm)
  show "(''MAL-1.json'', Inr (Inr twice_advisory)) \<in> set [(''MAL-1.json'', Inr (Inr twice_advisory))]" by simp
  show "HasPrefix (baseName ''MAL-1.json'') ''MAL-''" by code_simp
  show "is_Inr (parseAdvisory ascii_externals sample_enc (Inr twice_advisory) ''npm'' (OSVNameFor ''npm'') 0)" by code_simp
  show "adv_Withdrawn twice_advisory = None" by (simp add: twice_advisory_def sample_advisory_def)
  show "adv_Affected twice_advisory = [] @ sample_section # [] @ sample_section\<lparr>oa_Versions := [''1.3.0'']\<rparr> # []"
    by (simp add: twice_advisory_def)
  show "imported (OSVNameFor ''npm'') sample_section" "imported (OSVNameFor ''npm'') (sample_section\<lparr>oa_Versions := [''1.3.0'']\<rparr>)"
    by code_simp+
  show "normalizeNameStrict ascii_externals ''npm'' (oa_Name sample_section) =
      normalizeNameStrict ascii_externals ''npm'' (oa_Name (sample_section\<lparr>oa_Versions := [''1.3.0'']\<rparr>))"
    by simp
qed

end
