(* ===== verification/Go_Encoding.thy ===== *)
theory Go_Encoding
  imports Go_Strconv
begin

unbundle bit_operations_syntax

text \<open>
  The encoders of the Go library that the audit trail uses: the string escaping of
  \<open>encoding/json\<close>, \<open>strconv.FormatInt\<close>, the layout \<open>time.RFC3339Nano\<close> of an instant in UTC,
  \<open>encoding/hex\<close> and \<open>crypto/sha256\<close>. The lemmas say how much of the input can be read back from
  the text: all of it for numbers and instants, all but the invalid bytes for strings. The hash
  is defined as FIPS 180-4 does; nothing is assumed about collisions.
\<close>

subsection \<open>SHA-256\<close>

type_synonym word32 = "32 word"

text \<open>
  The round constants and the initial value are the first 32 bits behind the binary point of the
  cube roots and the square roots of small primes; \<open>digit_root\<close> finds a root bit by bit.
\<close>

fun digit_root :: "nat \<Rightarrow> nat \<Rightarrow> nat \<Rightarrow> nat \<Rightarrow> nat" where
  "digit_root e x 0 r = r"
| "digit_root e x (Suc i) r = digit_root e x i (if (r + 2 ^ i) ^ e \<le> x then r + 2 ^ i else r)"

definition root_fraction :: "nat \<Rightarrow> nat \<Rightarrow> word32" where
  "root_fraction e p = of_nat (digit_root e (p * 2 ^ (32 * e)) 37 0)"

definition sha_primes :: "nat list" where
  "sha_primes =
    [2, 3, 5, 7, 11, 13, 17, 19, 23, 29, 31, 37, 41, 43, 47, 53,
     59, 61, 67, 71, 73, 79, 83, 89, 97, 101, 103, 107, 109, 113, 127, 131,
     137, 139, 149, 151, 157, 163, 167, 173, 179, 181, 191, 193, 197, 199, 211, 223,
     227, 229, 233, 239, 241, 251, 257, 263, 269, 271, 277, 281, 283, 293, 307, 311]"

definition sha_K :: "word32 list" where
  "sha_K = map (root_fraction 3) sha_primes"

definition sha_init :: "word32 list" where
  "sha_init = map (root_fraction 2) (take 8 sha_primes)"

definition sha_Ch :: "word32 \<Rightarrow> word32 \<Rightarrow> word32 \<Rightarrow> word32" where
  "sha_Ch x y z = (x AND y) XOR (NOT x AND z)"

definition sha_Maj :: "word32 \<Rightarrow> word32 \<Rightarrow> word32 \<Rightarrow> word32" where
  "sha_Maj x y z = (x AND y) XOR (x AND z) XOR (y AND z)"

definition sha_S0 :: "word32 \<Rightarrow> word32" where
  "sha_S0 x = word_rotr 2 x XOR word_rotr 13 x XOR word_rotr 22 x"

definition sha_S1 :: "word32 \<Rightarrow> word32" where
  "sha_S1 x = word_rotr 6 x XOR word_rotr 11 x XOR word_rotr 25 x"

definition sha_s0 :: "word32 \<Rightarrow> word32" where
  "sha_s0 x = word_rotr 7 x XOR word_rotr 18 x XOR drop_bit 3 x"

definition sha_s1 :: "word32 \<Rightarrow> word32" where
  "sha_s1 x = word_rotr 17 x XOR word_rotr 19 x XOR drop_bit 10 x"

text \<open>The message schedule, the most recent word first.\<close>

fun sha_schedule :: "nat \<Rightarrow> word32 list \<Rightarrow> word32 list" where
  "sha_schedule 0 ws = ws"
| "sha_schedule (Suc n) ws =
     sha_schedule n ((sha_s1 (ws ! 1) + ws ! 6 + sha_s0 (ws ! 14) + ws ! 15) # ws)"

fun sha_round :: "word32 list \<Rightarrow> word32 \<times> word32 \<Rightarrow> word32 list" where
  "sha_round [a, b, c, d, e, f, g, h] (k, w) =
     (let t1 = h + sha_S1 e + sha_Ch e f g + k + w;
          t2 = sha_S0 a + sha_Maj a b c in
      [t1 + t2, a, b, c, d + t1, e, f, g])"
| "sha_round s _ = s"

definition sha_block :: "word32 list \<Rightarrow> word32 list \<Rightarrow> word32 list" where
  "sha_block hs ws = map2 (+) hs (foldl sha_round hs (zip sha_K (rev (sha_schedule 48 (rev ws)))))"

definition bytes_word :: "string \<Rightarrow> word32" where
  "bytes_word s = of_nat (foldl (\<lambda>n c. 256 * n + byte c) 0 s)"

fun sha_words :: "string \<Rightarrow> word32 list" where
  "sha_words (a # b # c # d # s) = bytes_word [a, b, c, d] # sha_words s"
| "sha_words _ = []"

fun sha_blocks :: "nat \<Rightarrow> word32 list \<Rightarrow> word32 list list" where
  "sha_blocks 0 ws = []"
| "sha_blocks (Suc n) ws = take 16 ws # sha_blocks n (drop 16 ws)"

definition be_bytes :: "nat \<Rightarrow> nat \<Rightarrow> string" where
  "be_bytes width n = map (\<lambda>i. char_of (n div 256 ^ (width - 1 - i) mod 256)) [0..<width]"

definition sha_pad :: "string \<Rightarrow> string" where
  "sha_pad s = s @ char_of (128 :: nat) # replicate ((119 - length s mod 64) mod 64) (char_of (0 :: nat)) @
     be_bytes 8 (8 * length s mod 2 ^ 64)"

definition Sum256 :: "string \<Rightarrow> string" where
  "Sum256 s =
     (let ws = sha_words (sha_pad s) in
      concat (map (\<lambda>w. be_bytes 4 (unat w)) (foldl sha_block sha_init (sha_blocks (length ws div 16) ws))))"

subsection \<open>Hexadecimal text\<close>

definition hex_digit :: "nat \<Rightarrow> char" where
  "hex_digit n = ''0123456789abcdef'' ! n"

definition EncodeToString :: "string \<Rightarrow> string" where
  "EncodeToString s = concat (map (\<lambda>c. [hex_digit (byte c div 16), hex_digit (byte c mod 16)]) s)"

subsection \<open>Strings in JSON\<close>

definition json_byte :: "char \<Rightarrow> string" where
  "json_byte c =
     (let b = byte c in
      if b = 34 \<or> b = 92 then [char_of (92 :: nat), c]
      else if b = 8 then char_of (92 :: nat) # ''b''
      else if b = 12 then char_of (92 :: nat) # ''f''
      else if b = 10 then char_of (92 :: nat) # ''n''
      else if b = 13 then char_of (92 :: nat) # ''r''
      else if b = 9 then char_of (92 :: nat) # ''t''
      else if b < 32 \<or> b = 38 \<or> b = 60 \<or> b = 62
        then char_of (92 :: nat) # ''u00'' @ [hex_digit (b div 16), hex_digit (b mod 16)]
      else [c])"

definition json_segment :: "rune \<times> string \<Rightarrow> string" where
  "json_segment = (\<lambda>(r, b).
     if r < 128 then concat (map json_byte b)
     else if r = RuneError \<and> length b = 1 then char_of (92 :: nat) # ''ufffd''
     else if r = 0x2028 \<or> r = 0x2029 then char_of (92 :: nat) # ''u202'' @ [hex_digit (r mod 16)]
     else b)"

definition json_string :: "string \<Rightarrow> string" where
  "json_string s = char_of (34 :: nat) # concat (map json_segment (segments s)) @ [char_of (34 :: nat)]"

text \<open>What a reader of the text gets back: an invalid byte has become U+FFFD.\<close>

definition shown :: "string \<Rightarrow> string" where
  "shown s = concat (map (\<lambda>(r, b). if r = RuneError \<and> length b = 1 then EncodeRune RuneError else b) (segments s))"

subsection \<open>Numbers and instants\<close>

definition FormatInt :: "int \<Rightarrow> string" where
  "FormatInt n = (if n < 0 then CHR ''-'' # FormatUint (nat (- n)) else FormatUint (nat n))"

definition pad_digits :: "nat \<Rightarrow> nat \<Rightarrow> string" where
  "pad_digits width n = replicate (width - length (FormatUint n)) CHR ''0'' @ FormatUint n"

definition appendInt :: "int \<Rightarrow> nat \<Rightarrow> string" where
  "appendInt n width = (if n < 0 then CHR ''-'' # pad_digits width (nat (- n)) else pad_digits width (nat n))"

text \<open>The date of a day counted from 1970-01-01, in the proleptic Gregorian calendar: year, month, day.\<close>

definition year_of_era :: "int \<Rightarrow> int" where
  "year_of_era doe = (doe - doe div 1460 + doe div 36524 - doe div 146096) div 365"

definition date_of :: "int \<Rightarrow> int \<Rightarrow> int \<Rightarrow> int \<times> int \<times> int" where
  "date_of era yoe doy =
     (let mp = (5 * doy + 2) div 153; m = (if mp < 10 then mp + 3 else mp - 9) in
      (yoe + era * 400 + (if m \<le> 2 then 1 else 0), m, doy - (153 * mp + 2) div 5 + 1))"

definition civil :: "int \<Rightarrow> int \<times> int \<times> int" where
  "civil days =
     (let z = days + 719468; doe = z mod 146097; yoe = year_of_era doe in
      date_of (z div 146097) yoe (doe - (365 * yoe + yoe div 4 - yoe div 100)))"

definition fraction :: "int \<Rightarrow> string" where
  "fraction ns =
     (if ns = 0 then []
      else CHR ''.'' # strip_suffix_while (\<lambda>c. c = CHR ''0'') (pad_digits 9 (nat ns)))"

definition FormatRFC3339Nano :: "time \<Rightarrow> string" where
  "FormatRFC3339Nano t =
     (let secs = t div 1000000000; day = secs mod 86400;
          (y, m, d) = civil (secs div 86400) in
      appendInt y 4 @ CHR ''-'' # pad_digits 2 (nat m) @ CHR ''-'' # pad_digits 2 (nat d) @ CHR ''T'' #
      pad_digits 2 (nat (day div 3600)) @ CHR '':'' # pad_digits 2 (nat (day mod 3600 div 60)) @ CHR '':'' #
      pad_digits 2 (nat (day mod 60)) @ fraction (t mod 1000000000) @ ''Z'')"

subsection \<open>Lengths of digests\<close>

lemma length_sha_round: "length hs = 8 \<Longrightarrow> length (sha_round hs kw) = 8"
  by (induction hs kw rule: sha_round.induct) (simp_all add: Let_def)

lemma length_sha_rounds: "length hs = 8 \<Longrightarrow> length (foldl sha_round hs kws) = 8"
  by (induction kws arbitrary: hs) (simp_all add: length_sha_round)

lemma length_sha_blocks: "length hs = 8 \<Longrightarrow> length (foldl sha_block hs blocks) = 8"
  by (induction blocks arbitrary: hs) (simp_all add: sha_block_def length_sha_rounds)

lemma length_concat_be: "length (concat (map (\<lambda>w. be_bytes k (f w)) ws)) = k * length ws"
  by (induction ws) (simp_all add: be_bytes_def)

lemma length_Sum256: "length (Sum256 s) = 32"
proof -
  have "length (foldl sha_block sha_init blocks) = 8" for blocks
    by (rule length_sha_blocks) (simp add: sha_init_def sha_primes_def)
  then show ?thesis unfolding Sum256_def Let_def length_concat_be by simp
qed

lemma length_EncodeToString [simp]: "length (EncodeToString s) = 2 * length s"
  by (induction s) (simp_all add: EncodeToString_def)

lemma hex_digit_range: "n < 16 \<Longrightarrow> hex_digit n \<in> set ''0123456789abcdef''"
  unfolding hex_digit_def by (rule nth_mem) simp

lemma hex_digit_inj: "m < 16 \<Longrightarrow> n < 16 \<Longrightarrow> hex_digit m = hex_digit n \<longleftrightarrow> m = n"
  unfolding hex_digit_def by (subst nth_eq_iff_index_eq) simp_all

lemma byte_nibbles: "byte c div 16 < 16" "byte c mod 16 < 16"
proof -
  show "byte c div 16 < 16" using byte_less_256 [of c] by linarith
qed simp

lemma EncodeToString_inj: "EncodeToString s = EncodeToString t \<longleftrightarrow> s = t"
proof (induction s arbitrary: t)
  case Nil
  then show ?case by (cases t) (simp_all add: EncodeToString_def)
next
  case (Cons c s)
  show ?case
  proof (cases t)
    case Nil
    then show ?thesis by (simp add: EncodeToString_def)
  next
    case (Cons d t')
    have "byte c = byte d \<longleftrightarrow> byte c div 16 = byte d div 16 \<and> byte c mod 16 = byte d mod 16"
      by (metis div_mult_mod_eq)
    then show ?thesis
      using Cons.IH [of t'] Cons
      by (auto simp: EncodeToString_def hex_digit_inj byte_nibbles)
  qed
qed

lemma EncodeToString_ascii: "is_ascii (EncodeToString s)"
proof -
  have "is_ascii ''0123456789abcdef''" by code_simp
  then have d: "byte (hex_digit n) < 128" if "n < 16" for n
    using hex_digit_range [OF that] by (auto simp: is_ascii_def list_all_iff)
  show ?thesis by (induction s) (simp_all add: EncodeToString_def is_ascii_def d byte_nibbles)
qed

subsection \<open>Reading a JSON string back\<close>

lemma segments_single:
  assumes "(r, b) \<in> set (segments s)"
  shows "b \<noteq> [] \<and> DecodeRune b = (r, length b)"
proof -
  obtain xs ys where s: "segments s = xs @ (r, b) # ys" using assms by (meson split_list)
  have "segments (concat (map snd ((r, b) # ys))) = [(r, b)] @ ys"
    using segments_append_right [OF s] by simp
  then have "segments (concat (map snd [(r, b)])) = [(r, b)]" by (rule segments_append_left)
  then have b: "segments b = [(r, b)]" by simp
  then obtain c t where ct: "b = c # t" by (cases b) auto
  obtain r' n where d: "DecodeRune (c # t) = (r', n)" by fastforce
  have n: "n \<le> length (c # t)" using DecodeRune_width_le [of "c # t"] d by simp
  have "segments (c # t) = (r', take n (c # t)) # segments (drop n (c # t))"
    by (simp only: segments.simps d Let_def case_prod_conv)
  then have "r = r'" "b = take n b" using b unfolding ct by simp_all
  then have "length b = n" using n ct by (metis length_take min.absorb2)
  then show ?thesis using d ct \<open>r = r'\<close> by simp
qed

lemma decode_high_bytes:
  assumes "\<not> byte c < 128" and "DecodeRune (c # t) = (r, Suc (length t))"
  shows "list_all (\<lambda>c. 128 \<le> byte c) t"
proof -
  have 2: "list_all (\<lambda>c. 128 \<le> byte c) t" if "decode2 b t = (r, Suc (length t))" for b
    using that by (induction b t rule: decode2.induct) (auto simp: is_continuation_def split: if_splits)
  have 3: "list_all (\<lambda>c. 128 \<le> byte c) t" if "decode3 b t = (r, Suc (length t))" for b
    using that by (induction b t rule: decode3.induct) (auto simp: is_continuation_def split: if_splits)
  have 4: "list_all (\<lambda>c. 128 \<le> byte c) t" if "decode4 b t = (r, Suc (length t))" for b
    using that by (induction b t rule: decode4.induct) (auto simp: is_continuation_def split: if_splits)
  show ?thesis using assms 2 3 4 by (auto simp: DecodeRune.simps Let_def split: if_splits)
qed

lemma separator_digits:
  fixes p q s :: nat
  assumes "p * 4096 + q * 64 + s = r" and "r = 8232 \<or> r = 8233" and "q \<le> 63" and "s \<le> 63"
  shows "p = 2 \<and> q = 0 \<and> s = r - 8192"
proof -
  have "p = 2" using assms by linarith
  moreover have "q = 0" using assms calculation by linarith
  ultimately show ?thesis using assms by linarith
qed

lemma decode_separator:
  assumes "DecodeRune (c # t) = (r, Suc (length t))" and "r = 8232 \<or> r = 8233"
  shows "map byte (c # t) = [226, 128, r - 8064]"
proof -
  have c: "\<not> byte c < 128" using assms by (auto simp: DecodeRune.simps Let_def)
  have 2: "fst (decode2 b t) < 8232 \<or> fst (decode2 b t) = RuneError" if "b \<le> 223" for b
    using that by (induction b t rule: decode2.induct) (auto simp: is_continuation_def)
  have 4: "8233 < fst (decode4 b t)" if "240 \<le> b" for b
    using that by (induction b t rule: decode4.induct) (auto simp: is_continuation_def RuneError_def split: if_splits)
  have 3: "map byte (c # t) = [226, 128, r - 8064]" if d: "decode3 (byte c) t = (r, Suc (length t))" "224 \<le> byte c"
  proof -
    obtain x y where xy: "t = [x, y]"
      using d(1) assms(2) by (cases "(byte c, t)" rule: decode3.cases) (auto simp: RuneError_def split: if_splits)
    then have v: "(byte c - 224) * 4096 + (byte x - 128) * 64 + (byte y - 128) = r"
      and b: "128 \<le> byte x" "byte x \<le> 191" "128 \<le> byte y" "byte y \<le> 191"
      using d assms(2) by (auto simp: RuneError_def is_continuation_def split: if_splits)
    have "byte c - 224 = 2 \<and> byte x - 128 = 0 \<and> byte y - 128 = r - 8192"
      using b by (intro separator_digits [OF v assms(2)]) simp_all
    then have "byte c = 226 \<and> byte x = 128 \<and> byte y = r - 8064" using b d(2) assms(2) by linarith
    then show ?thesis using xy by simp
  qed
  show ?thesis
    using assms c 2 [of "byte c"] 3 4 [of "byte c"]
    by (auto simp: DecodeRune.simps Let_def RuneError_def split: if_splits)
qed

definition hex_value :: "char \<Rightarrow> nat" where
  "hex_value c = (if isASCIIDigit c then byte c - 48 else byte c - 87)"

definition unescape :: "char \<Rightarrow> char" where
  "unescape c =
     (if c = CHR ''b'' then char_of (8 :: nat) else if c = CHR ''f'' then char_of (12 :: nat)
      else if c = CHR ''n'' then char_of (10 :: nat) else if c = CHR ''r'' then char_of (13 :: nat)
      else if c = CHR ''t'' then char_of (9 :: nat) else c)"

fun json_read :: "string \<Rightarrow> string \<times> string" where
  "json_read [] = ([], [])"
| "json_read (c # s) =
     (if byte c = 34 then ([], s)
      else if byte c = 92 then
        (case s of
           [] \<Rightarrow> ([], [])
         | e # t \<Rightarrow>
             if e = CHR ''u'' then
               apfst ((@) (EncodeRune (foldl (\<lambda>n d. 16 * n + hex_value d) 0 (take 4 t)))) (json_read (drop 4 t))
             else apfst ((#) (unescape e)) (json_read t))
      else apfst ((#) c) (json_read s))"

declare json_read.simps [simp del]

lemma hex_value_digit: "n < 16 \<Longrightarrow> hex_value (hex_digit n) = n"
proof -
  have "list_all (\<lambda>n. hex_value (hex_digit n) = n) [0..<16]" by code_simp
  then show "n < 16 \<Longrightarrow> hex_value (hex_digit n) = n" by (simp add: list_all_iff)
qed

lemma hex_value_letters:
  "hex_value CHR ''0'' = 0" "hex_value CHR ''2'' = 2" "hex_value CHR ''f'' = 15" "hex_value CHR ''d'' = 13"
  by code_simp+

lemma json_read_plain:
  "list_all (\<lambda>c. 128 \<le> byte c) b \<Longrightarrow> json_read (b @ t) = (b @ fst (json_read t), snd (json_read t))"
  by (induction b) (auto simp: json_read.simps(2) apfst_def map_prod_def case_prod_beta)

lemma json_read_escape:
  "e \<noteq> CHR ''u'' \<Longrightarrow> json_read (char_of (92 :: nat) # e # t) = (unescape e # fst (json_read t), snd (json_read t))"
  by (simp add: json_read.simps(2) apfst_def map_prod_def case_prod_beta)

lemma json_read_unicode:
  "json_read (char_of (92 :: nat) # CHR ''u'' # w # x # y # z # t) =
    (EncodeRune (16 * (16 * (16 * hex_value w + hex_value x) + hex_value y) + hex_value z) @ fst (json_read t),
     snd (json_read t))"
  by (simp add: json_read.simps(2) apfst_def map_prod_def case_prod_beta)

lemma unescape_simps:
  "unescape CHR ''b'' = char_of (8 :: nat)" "unescape CHR ''f'' = char_of (12 :: nat)"
  "unescape CHR ''n'' = char_of (10 :: nat)" "unescape CHR ''r'' = char_of (13 :: nat)"
  "unescape CHR ''t'' = char_of (9 :: nat)"
  by (simp_all add: unescape_def)

lemma json_read_byte:
  assumes "byte c < 128"
  shows "json_read (json_byte c @ t) = (c # fst (json_read t), snd (json_read t))"
proof -
  have c: "c = char_of n" if "byte c = n" for n using that char_of_byte [of c] by simp
  have nib: "hex_value (hex_digit (byte c div 16)) = byte c div 16" "hex_value (hex_digit (byte c mod 16)) = byte c mod 16"
    using byte_nibbles [of c] by (simp_all add: hex_value_digit)
  have enc: "EncodeRune (16 * (byte c div 16) + byte c mod 16) = [c]"
    using assms by (simp add: EncodeRune_ascii)
  consider "byte c = 34 \<or> byte c = 92" | "byte c = 8" | "byte c = 12" | "byte c = 10" | "byte c = 13" | "byte c = 9"
    | "byte c \<notin> {34, 92, 8, 12, 10, 13, 9}" "byte c < 32 \<or> byte c = 38 \<or> byte c = 60 \<or> byte c = 62"
    | "byte c \<notin> {34, 92, 8, 12, 10, 13, 9}" "\<not> (byte c < 32 \<or> byte c = 38 \<or> byte c = 60 \<or> byte c = 62)"
    by blast
  then show ?thesis
  proof cases
    case 1
    then have "c \<noteq> CHR ''u''" "unescape c = c" by (auto simp: unescape_def byte_def)
    then show ?thesis using 1 by (auto simp: json_byte_def json_read_escape)
  next
    case 7
    then show ?thesis
      using enc by (simp add: json_byte_def Let_def json_read_unicode hex_value_letters nib)
  next
    case 8
    then show ?thesis
      by (simp add: json_byte_def Let_def json_read.simps(2) apfst_def map_prod_def case_prod_beta)
  qed (simp_all add: json_byte_def json_read_escape unescape_simps c [symmetric])
qed

definition shown_segment :: "rune \<times> string \<Rightarrow> string" where
  "shown_segment = (\<lambda>(r, b). if r = RuneError \<and> length b = 1 then EncodeRune RuneError else b)"

lemma shown_segments: "shown s = concat (map shown_segment (segments s))"
  by (simp add: shown_def shown_segment_def)

lemma json_read_segment:
  assumes "x \<in> set (segments s)"
  shows "json_read (json_segment x @ t) = (shown_segment x @ fst (json_read t), snd (json_read t))"
proof -
  obtain r b where x: "x = (r, b)" by (cases x)
  obtain c u where b: "b = c # u" and d: "DecodeRune (c # u) = (r, Suc (length u))"
    using segments_single [of r b s] assms x by (cases b) auto
  show ?thesis
  proof (cases "byte c < 128")
    case True
    then have "r = byte c" "u = []" using d by (auto simp: DecodeRune.simps Let_def)
    moreover have "byte c \<noteq> RuneError" using True by (simp add: RuneError_def)
    ultimately show ?thesis
      using True x b json_read_byte [of c t] by (simp add: json_segment_def shown_segment_def)
  next
    case False
    then have r: "\<not> r < 128" using decode_non_ascii [OF False, of u] d by simp
    have high: "list_all (\<lambda>c. 128 \<le> byte c) b" using decode_high_bytes [OF False d] False b by simp
    consider "r = RuneError \<and> length b = 1" | "r = 8232 \<or> r = 8233"
      | "\<not> (r = RuneError \<and> length b = 1)" "\<not> (r = 8232 \<or> r = 8233)" by blast
    then show ?thesis
    proof cases
      case 1
      then show ?thesis
        using r x by (simp add: json_segment_def shown_segment_def json_read_unicode hex_value_letters RuneError_def)
    next
      case 2
      have bytes: "map byte b = [226, 128, r - 8064]" using decode_separator [OF d 2] b by simp
      then have "b = map char_of [226, 128, r - 8064]" by (metis char_of_byte map_map comp_apply map_idI)
      moreover have "EncodeRune r = map char_of [226, 128, r - 8064]"
        using 2 by (auto simp: EncodeRune_def)
      ultimately have e: "EncodeRune r = b" by simp
      have "r mod 16 < 16" "8224 + r mod 16 = r" using 2 by auto
      then have "json_read (json_segment x @ t) = (EncodeRune r @ fst (json_read t), snd (json_read t))"
        using 2 r x by (auto simp: json_segment_def json_read_unicode hex_value_letters hex_value_digit RuneError_def)
      then show ?thesis using e 2 x by (auto simp: shown_segment_def RuneError_def)
    next
      case 3
      then show ?thesis
        using r x json_read_plain [OF high] by (auto simp: json_segment_def shown_segment_def)
    qed
  qed
qed

lemma json_read_string: "json_read (tl (json_string s) @ t) = (shown s, t)"
proof -
  have q: "json_read (char_of (34 :: nat) # t) = ([], t)" by (simp add: json_read.simps(2))
  have "json_read (concat (map json_segment xs) @ char_of (34 :: nat) # t) = (concat (map shown_segment xs), t)"
    if "set xs \<subseteq> set (segments s)" for xs
    using that by (induction xs) (simp_all add: q json_read_segment [of _ s])
  then show ?thesis by (simp add: json_string_def shown_segments)
qed

lemma json_string_cancel:
  assumes "json_string a @ x = json_string b @ y"
  shows "shown a = shown b \<and> x = y"
proof -
  have "tl (json_string a) @ x = tl (json_string b) @ y" using assms by (simp add: json_string_def)
  then show ?thesis using json_read_string [of a x] json_read_string [of b y] by simp
qed

lemma shown_valid: "(\<forall>(r, b) \<in> set (segments s). \<not> (r = RuneError \<and> length b = 1)) \<Longrightarrow> shown s = s"
proof -
  assume *: "\<forall>(r, b) \<in> set (segments s). \<not> (r = RuneError \<and> length b = 1)"
  have "map shown_segment (segments s) = map snd (segments s)" using * by (auto simp: shown_segment_def)
  then show ?thesis unfolding shown_segments by (simp only: concat_segments)
qed

lemma shown_ascii [simp]: "is_ascii s \<Longrightarrow> shown s = s"
  by (rule shown_valid) (auto simp: segments_ascii is_ascii_def list_all_iff RuneError_def)

subsection \<open>Reading numbers back\<close>

definition digit_free :: "string \<Rightarrow> bool" where
  "digit_free s \<longleftrightarrow> s = [] \<or> \<not> isASCIIDigit (hd s)"

lemma takeWhile_digits:
  "list_all isASCIIDigit d \<Longrightarrow> digit_free x \<Longrightarrow> takeWhile isASCIIDigit (d @ x) = d \<and> dropWhile isASCIIDigit (d @ x) = x"
proof (induction d)
  case Nil
  then show ?case by (cases x) (simp_all add: digit_free_def)
qed simp

lemma digits_cancel:
  assumes "d @ x = e @ y" and "list_all isASCIIDigit d" and "list_all isASCIIDigit e" and "digit_free x" and "digit_free y"
  shows "d = e \<and> x = y"
  using takeWhile_digits [OF assms(2,4)] takeWhile_digits [OF assms(3,5)] unfolding assms(1) by metis

lemma zero_digit: "isASCIIDigit CHR ''0''"
  by (simp add: isASCIIDigit_def)

lemma pad_digits_digits: "list_all isASCIIDigit (pad_digits w n)"
  using FormatUint_digits [of n] by (auto simp: pad_digits_def list_all_iff zero_digit)

lemma decimal_value_zeros: "decimal_value 0 (replicate k CHR ''0'') = 0"
  by (induction k) simp_all

lemma decimal_value_pad [simp]: "decimal_value 0 (pad_digits w n) = n"
  by (simp add: pad_digits_def decimal_value_append decimal_value_zeros)

lemma pad_digits_inj [simp]: "pad_digits w n = pad_digits w m \<longleftrightarrow> n = m"
  by (metis decimal_value_pad)

lemma pad_digits_cancel:
  "pad_digits w n @ x = pad_digits w m @ y \<Longrightarrow> digit_free x \<Longrightarrow> digit_free y \<Longrightarrow> n = m \<and> x = y"
  using digits_cancel [OF _ pad_digits_digits pad_digits_digits] pad_digits_inj by blast

lemma pad_digits_hd: "pad_digits w n \<noteq> []" "isASCIIDigit (hd (pad_digits w n))"
proof -
  show ne: "pad_digits w n \<noteq> []" by (simp add: pad_digits_def)
  then show "isASCIIDigit (hd (pad_digits w n))" using pad_digits_digits [of w n] by (cases "pad_digits w n") auto
qed

lemma minus_no_digit: "\<not> isASCIIDigit CHR ''-''"
  by (simp add: isASCIIDigit_def)

lemma pad_digits_no_minus: "CHR ''-'' # x \<noteq> pad_digits w n @ y"
  using pad_digits_hd [of w n] minus_no_digit by (cases "pad_digits w n") auto

lemma appendInt_cancel:
  assumes "appendInt n w @ x = appendInt m w @ y" and "digit_free x" and "digit_free y"
  shows "n = m \<and> x = y"
proof -
  consider "n < 0" "m < 0" | "n < 0" "\<not> m < 0" | "\<not> n < 0" "m < 0" | "\<not> n < 0" "\<not> m < 0" by blast
  then show ?thesis
  proof cases
    case 1
    then have "pad_digits w (nat (- n)) @ x = pad_digits w (nat (- m)) @ y" using assms(1) by (simp add: appendInt_def)
    then show ?thesis using pad_digits_cancel [OF _ assms(2,3)] 1 by (metis nat_eq_iff2 neg_0_less_iff_less neg_equal_iff_equal less_le)
  next
    case 2
    then show ?thesis using assms(1) pad_digits_no_minus by (simp add: appendInt_def)
  next
    case 3
    then have "CHR ''-'' # pad_digits w (nat (- m)) @ y = pad_digits w (nat n) @ x" using assms(1) by (simp add: appendInt_def)
    then show ?thesis using pad_digits_no_minus by blast
  next
    case 4
    then have "pad_digits w (nat n) @ x = pad_digits w (nat m) @ y" using assms(1) by (simp add: appendInt_def)
    then show ?thesis using pad_digits_cancel [OF _ assms(2,3)] 4 by (metis nat_eq_iff2 not_less)
  qed
qed

lemma FormatInt_appendInt: "FormatInt n = appendInt n 0"
  by (simp add: FormatInt_def appendInt_def pad_digits_def)

lemmas FormatInt_cancel = appendInt_cancel [where w = 0, folded FormatInt_appendInt]

lemma length_FormatUint:
  assumes "n < 10 ^ k" and "0 < k"
  shows "length (FormatUint n) \<le> k"
proof (cases "n = 0")
  case True
  then show ?thesis using assms(2) by (simp add: FormatUint.simps [of 0])
next
  case False
  then have "10 ^ (length (FormatUint n) - 1) \<le> n"
    using decimal_value_lower [of "FormatUint n"] FormatUint_digits FormatUint_hd by simp
  then have "10 ^ (length (FormatUint n) - 1) < (10 :: nat) ^ k" using assms(1) by linarith
  then have "length (FormatUint n) - 1 < k" by simp
  then show ?thesis by linarith
qed

lemma length_pad_digits: "n < 10 ^ k \<Longrightarrow> 0 < k \<Longrightarrow> length (pad_digits k n) = k"
  using length_FormatUint [of n k] by (simp add: pad_digits_def)

lemma fraction_digits:
  assumes "0 \<le> a" and "a < 1000000000" and "0 \<le> b" and "b < 1000000000" and "fraction a = fraction b"
  shows "a = b"
proof -
  let ?z = "\<lambda>c. c = CHR ''0''"
  have restore: "pad_digits 9 (nat a) = s @ replicate (9 - length s) CHR ''0''"
    if le: "0 \<le> a" and lt: "a < 1000000000" and s: "s = strip_suffix_while ?z (pad_digits 9 (nat a))" for a s
  proof -
    obtain ys where ys: "pad_digits 9 (nat a) = s @ ys" "list_all ?z ys"
      using strip_suffix_while_prefix [of "pad_digits 9 (nat a)" ?z] s by auto
    have "nat a < 10 ^ 9" using le lt by simp
    then have "length (pad_digits 9 (nat a)) = 9" by (rule length_pad_digits) simp
    then have len: "length ys = 9 - length s" using ys(1) by (metis add_diff_cancel_left' length_append)
    have "ys = replicate (length ys) CHR ''0''" using ys(2) by (induction ys) simp_all
    then show ?thesis using ys(1) unfolding len by simp
  qed
  consider "a = 0 \<and> b = 0" | "a \<noteq> 0 \<and> b \<noteq> 0" using assms(5) by (auto simp: fraction_def split: if_splits)
  then show ?thesis
  proof cases
    case 2
    then have "strip_suffix_while ?z (pad_digits 9 (nat a)) = strip_suffix_while ?z (pad_digits 9 (nat b))"
      using assms(5) by (simp add: fraction_def)
    then have "pad_digits 9 (nat a) = pad_digits 9 (nat b)"
      using restore [OF assms(1,2) refl] restore [OF assms(3,4) refl] by simp
    then show ?thesis using assms by simp
  qed simp
qed

lemma fraction_digit_free: "digit_free (fraction a @ ''Z'')"
  by (simp add: digit_free_def fraction_def isASCIIDigit_def)

subsection \<open>The calendar\<close>

definition days_before :: "int \<Rightarrow> int" where
  "days_before y = 365 * y + y div 4 - y div 100 + y div 400"

definition era_days :: "int \<Rightarrow> int" where
  "era_days doe = doe - doe div 1460 + doe div 36524 - doe div 146096"

lemma era_days_mono:
  assumes "d \<le> e"
  shows "era_days d \<le> era_days e"
proof -
  have step: "k - k div n \<le> l - l div n" if "k < l" "n = 1460 \<or> n = 4" for k l n :: int using that by auto
  have 1: "d - d div 1460 \<le> e - e div 1460" using assms step [of d e 1460] by (cases "d = e") simp_all
  have "k - k div 4 \<le> l - l div 4" if "k \<le> l" for k l :: int using that step [of k l 4] by (cases "k = l") simp_all
  then have "d div 36524 - d div 36524 div 4 \<le> e div 36524 - e div 36524 div 4"
    using assms by (simp add: zdiv_mono1)
  moreover have "x div 146096 = x div 36524 div 4" for x :: int
    by (simp add: zdiv_zmult2_eq [symmetric])
  ultimately show ?thesis using 1 by (simp add: era_days_def)
qed

lemma div_eqI: "n * k \<le> x \<Longrightarrow> x < n * k + n \<Longrightarrow> x div n = (k :: int)"
  by (rule int_div_pos_eq [of _ n k "x - n * k"]) simp_all

lemma quotient_bounds: "4 * (y div 4) \<le> y" "y \<le> 4 * (y div 4) + 3" "100 * (y div 100) \<le> y" "y \<le> 100 * (y div 100) + (99 :: int)"
  by linarith+

lemma days_before_parts:
  assumes "0 \<le> y" and "y < 400"
  obtains p q where "days_before y = 365 * y + p - q" and "4 * p \<le> y" and "y \<le> 4 * p + 3"
    and "100 * q \<le> y" and "y \<le> 100 * q + 99" and "25 * q \<le> p" and "0 \<le> q"
proof
  show "days_before y = 365 * y + y div 4 - y div 100" using assms by (simp add: days_before_def)
  show "4 * (y div 4) \<le> y" "y \<le> 4 * (y div 4) + 3" "100 * (y div 100) \<le> y" "y \<le> 100 * (y div 100) + 99"
    by (rule quotient_bounds)+
  show "25 * (y div 100) \<le> y div 4" using quotient_bounds [of y] by linarith
  show "0 \<le> y div 100" using assms(1) by simp
qed

lemma era_days_year:
  assumes "0 \<le> y" and "y < 400"
  shows "era_days (days_before y) = 365 * y"
proof -
  obtain p q where d: "days_before y = 365 * y + p - q" and b: "4 * p \<le> y" "y \<le> 4 * p + 3"
    "100 * q \<le> y" "y \<le> 100 * q + 99" "25 * q \<le> p" "0 \<le> q" by (rule days_before_parts [OF assms])
  have "days_before y div 1460 = p" by (rule div_eqI) (use d b assms in linarith)+
  moreover have "days_before y div 36524 = q" by (rule div_eqI) (use d b assms in linarith)+
  moreover have "days_before y div 146096 = 0" by (rule div_eqI) (use d b assms in linarith)+
  ultimately show ?thesis using d by (simp add: era_days_def)
qed

lemma era_days_last:
  assumes "0 \<le> y" and "y < 400"
  shows "era_days (days_before (y + 1) - 1) \<le> 365 * y + 364"
proof (cases "y = 399")
  case True
  then show ?thesis by (simp add: days_before_def era_days_def)
next
  case False
  define n where "n = y + 1"
  have n: "1 \<le> n" "n < 400" using assms False by (simp_all add: n_def)
  obtain p q where d: "days_before n = 365 * n + p - q" and b: "4 * p \<le> n" "n \<le> 4 * p + 3"
    "100 * q \<le> n" "n \<le> 100 * q + 99" "25 * q \<le> p" "0 \<le> q"
    by (rule days_before_parts [of n]) (use n in simp_all)
  have "p = 0 \<or> q < p" using b by linarith
  then have "(days_before n - 1) div 1460 = p" by (intro div_eqI; elim disjE) (use d b n in linarith)+
  moreover have "(days_before n - 1) div 36524 \<le> q"
  proof -
    have "days_before n div 36524 = q" by (rule div_eqI) (use d b n in linarith)+
    then show ?thesis using zdiv_mono1 [of "days_before n - 1" "days_before n" 36524] by simp
  qed
  moreover have "(days_before n - 1) div 146096 = 0" by (rule div_eqI) (use d b n in linarith)+
  ultimately show ?thesis using d by (simp add: era_days_def n_def)
qed

lemma days_in_year:
  assumes "0 \<le> y" and "y < 400"
  shows "days_before (y + 1) - days_before y \<le> 366"
proof (cases "y = 399")
  case True
  then show ?thesis by (simp add: days_before_def)
next
  case False
  define n where "n = y + 1"
  have n: "0 \<le> n" "n < 400" using assms False by (simp_all add: n_def)
  obtain p q where d: "days_before y = 365 * y + p - q" and b: "4 * p \<le> y" "y \<le> 4 * p + 3"
    "100 * q \<le> y" "y \<le> 100 * q + 99" by (rule days_before_parts [OF assms])
  obtain p' q' where d': "days_before n = 365 * n + p' - q'" and b': "4 * p' \<le> n" "n \<le> 4 * p' + 3"
    "100 * q' \<le> n" "n \<le> 100 * q' + 99" by (rule days_before_parts [OF n])
  have "p' \<le> p + 1" "q \<le> q'" using b b' n_def by linarith+
  then show ?thesis using d d' n_def by simp
qed

lemma month_index: "0 \<le> d \<Longrightarrow> d < 366 \<Longrightarrow> 0 \<le> (5 * d + 2) div 153 \<and> (5 * d + 2) div 153 < (12 :: int)"
  by auto

lemma month_start: "(153 * ((5 * d + 2) div 153) + 2) div 5 \<le> (d :: int)"
  by linarith

lemma year_exists: "0 \<le> d \<Longrightarrow> d < days_before (int n) \<Longrightarrow> \<exists>y < n. days_before (int y) \<le> d \<and> d < days_before (int y + 1)"
proof (induction n)
  case 0
  then show ?case by (simp add: days_before_def)
next
  case (Suc n)
  show ?case
  proof (cases "d < days_before (int n)")
    case True
    then show ?thesis using Suc by (meson less_SucI)
  next
    case False
    then show ?thesis using Suc.prems by (intro exI [of _ n]) (auto simp: add.commute)
  qed
qed

lemma year_of_era_bounds:
  assumes "0 \<le> doe" and "doe < 146097"
  shows "0 \<le> year_of_era doe \<and> year_of_era doe < 400 \<and> 0 \<le> doe - days_before (year_of_era doe) \<and>
    doe - days_before (year_of_era doe) < 366"
proof -
  have "doe < days_before (int 400)" using assms(2) by (simp add: days_before_def)
  then obtain n where n: "n < 400" "days_before (int n) \<le> doe" "doe < days_before (int n + 1)"
    using year_exists [OF assms(1)] by blast
  let ?y = "int n"
  have t: "era_days (days_before ?y) = 365 * ?y" "era_days (days_before (?y + 1) - 1) \<le> 365 * ?y + 364"
    "days_before (?y + 1) - days_before ?y \<le> 366"
    using n(1) era_days_year [of ?y] era_days_last [of ?y] days_in_year [of ?y] by simp_all
  have "era_days (days_before ?y) \<le> era_days doe" using n(2) by (rule era_days_mono)
  moreover have "era_days doe \<le> era_days (days_before (?y + 1) - 1)" by (rule era_days_mono) (use n(3) in simp)
  ultimately have "365 * ?y \<le> era_days doe" "era_days doe \<le> 365 * ?y + 364" using t by linarith+
  moreover have "year_of_era doe = era_days doe div 365" by (simp add: year_of_era_def era_days_def)
  ultimately have "year_of_era doe = ?y" by linarith
  then show ?thesis using n t(3) by simp
qed

definition days_of_civil :: "int \<times> int \<times> int \<Rightarrow> int" where
  "days_of_civil = (\<lambda>(y, m, d).
     let y' = y - (if m \<le> 2 then 1 else 0); mp = (if m \<le> 2 then m + 9 else m - 3) in
     y' div 400 * 146097 + days_before (y' mod 400) + (153 * mp + 2) div 5 + d - 1 - 719468)"

lemma civil_parts:
  obtains era yoe doy where "civil days = date_of era yoe doy" and "0 \<le> yoe" and "yoe < 400"
    and "0 \<le> doy" and "doy < 366" and "era * 146097 + days_before yoe + doy = days + 719468"
proof
  define z where "z = days + 719468"
  define doe where "doe = z mod 146097"
  define yoe where "yoe = year_of_era doe"
  have b: "0 \<le> yoe \<and> yoe < 400 \<and> 0 \<le> doe - days_before yoe \<and> doe - days_before yoe < 366"
    unfolding yoe_def by (rule year_of_era_bounds) (simp_all add: doe_def)
  then have "yoe div 400 = 0" by simp
  then show "civil days = date_of (z div 146097) yoe (doe - days_before yoe)"
    by (simp add: civil_def days_before_def Let_def z_def doe_def yoe_def)
  show "0 \<le> yoe" "yoe < 400" "0 \<le> doe - days_before yoe" "doe - days_before yoe < 366" using b by simp_all
  show "z div 146097 * 146097 + days_before yoe + (doe - days_before yoe) = days + 719468"
    using div_mult_mod_eq [of z 146097] by (simp add: z_def doe_def)
qed

lemma date_of_inverse:
  assumes "0 \<le> yoe" and "yoe < 400" and "0 \<le> doy" and "doy < 366"
  shows "days_of_civil (date_of era yoe doy) = era * 146097 + days_before yoe + doy - 719468"
    and "date_of era yoe doy = (y, m, d) \<Longrightarrow> 1 \<le> m \<and> m \<le> 12 \<and> 1 \<le> d"
proof -
  define mp where "mp = (5 * doy + 2) div 153"
  define start where "start = (153 * mp + 2) div 5"
  define month where "month = (if mp < 10 then mp + 3 else mp - 9)"
  have mp: "0 \<le> mp" "mp < 12" using month_index [OF assms(3,4)] by (simp_all add: mp_def)
  have "start \<le> doy" using month_start [of doy] by (simp add: mp_def start_def)
  have date: "date_of era yoe doy = (yoe + era * 400 + (if month \<le> 2 then 1 else 0), month, doy - start + 1)"
    by (simp add: date_of_def Let_def mp_def start_def month_def)
  show "date_of era yoe doy = (y, m, d) \<Longrightarrow> 1 \<le> m \<and> m \<le> 12 \<and> 1 \<le> d"
    using date mp \<open>start \<le> doy\<close> by (auto simp: month_def)
  have mp': "(if month \<le> 2 then month + 9 else month - 3) = mp" using mp by (auto simp: month_def)
  have "(yoe + era * 400) div 400 = era" "(yoe + era * 400) mod 400 = yoe" using assms(1,2) by simp_all
  then show "days_of_civil (date_of era yoe doy) = era * 146097 + days_before yoe + doy - 719468"
    unfolding date days_of_civil_def Let_def case_prod_conv mp' by (simp add: start_def)
qed

lemma civil_roundtrip: "days_of_civil (civil days) = days"
proof -
  obtain era yoe doy where "civil days = date_of era yoe doy" "0 \<le> yoe" "yoe < 400" "0 \<le> doy" "doy < 366"
    "era * 146097 + days_before yoe + doy = days + 719468" by (rule civil_parts)
  then show ?thesis using date_of_inverse(1) [of yoe doy era] by simp
qed

lemma civil_bounds: "civil days = (y, m, d) \<Longrightarrow> 1 \<le> m \<and> m \<le> 12 \<and> 1 \<le> d"
  using date_of_inverse(2) civil_parts [of days] by metis

lemma clock_fields: "(a :: int) = 3600 * (a div 3600) + 60 * (a mod 3600 div 60) + a mod 60"
proof -
  have "a mod 3600 mod 60 = a mod 60" by (rule mod_mod_cancel) simp
  then have "a mod 3600 = 60 * (a mod 3600 div 60) + a mod 60" by (metis mult_div_mod_eq)
  then show ?thesis using mult_div_mod_eq [of 3600 a] by linarith
qed

lemma FormatRFC3339Nano_inj:
  assumes eq: "FormatRFC3339Nano t = FormatRFC3339Nano u"
  shows "t = u"
proof -
  define day where "day t = t div 1000000000 mod 86400" for t :: int
  define date where "date t = civil (t div 1000000000 div 86400)" for t :: int
  obtain y m d where c: "date t = (y, m, d)" by (cases "date t")
  obtain y' m' d' where c': "date u = (y', m', d')" by (cases "date u")
  have no: "\<not> isASCIIDigit CHR ''T''" "\<not> isASCIIDigit CHR '':''" by code_simp+
  have free: "digit_free (CHR ''-'' # s)" "digit_free (CHR ''T'' # s)" "digit_free (CHR '':'' # s)" for s
    using minus_no_digit no by (simp_all add: digit_free_def)
  let ?rest = "\<lambda>t. pad_digits 2 (nat (day t mod 60)) @ fraction (t mod 1000000000) @ ''Z''"
  let ?time = "\<lambda>t. pad_digits 2 (nat (day t div 3600)) @ CHR '':'' # pad_digits 2 (nat (day t mod 3600 div 60)) @ CHR '':'' # ?rest t"
  have layout: "FormatRFC3339Nano t =
      appendInt y 4 @ CHR ''-'' # pad_digits 2 (nat m) @ CHR ''-'' # pad_digits 2 (nat d) @ CHR ''T'' # ?time t"
    if "date t = (y, m, d)" for t y m d
    using that unfolding FormatRFC3339Nano_def date_def day_def Let_def by (simp only: case_prod_conv)
  note eq [unfolded layout [OF c] layout [OF c']]
  note 1 = appendInt_cancel [OF this free(1) free(1)]
  note 2 = pad_digits_cancel [OF 1 [THEN conjunct2, unfolded list.inject, THEN conjunct2] free(1) free(1)]
  note 3 = pad_digits_cancel [OF 2 [THEN conjunct2, unfolded list.inject, THEN conjunct2] free(2) free(2)]
  note 4 = pad_digits_cancel [OF 3 [THEN conjunct2, unfolded list.inject, THEN conjunct2] free(3) free(3)]
  note 5 = pad_digits_cancel [OF 4 [THEN conjunct2, unfolded list.inject, THEN conjunct2] free(3) free(3)]
  note 6 = pad_digits_cancel [OF 5 [THEN conjunct2, unfolded list.inject, THEN conjunct2] fraction_digit_free fraction_digit_free]
  have "1 \<le> m \<and> m \<le> 12 \<and> 1 \<le> d" "1 \<le> m' \<and> m' \<le> 12 \<and> 1 \<le> d'"
    using civil_bounds c c' unfolding date_def by blast+
  then have "m = m'" "d = d'" using 2 [THEN conjunct1] 3 [THEN conjunct1] by linarith+
  then have "date t = date u" using 1 c c' by simp
  then have days: "t div 1000000000 div 86400 = u div 1000000000 div 86400"
    unfolding date_def by (metis civil_roundtrip)
  have pos: "0 \<le> day t" "0 \<le> day u" by (simp_all add: day_def)
  have nonneg: "0 \<le> x div 3600" "0 \<le> x mod 3600 div 60" "0 \<le> x mod 60" if "0 \<le> x" for x :: int
    using that by (simp_all add: pos_imp_zdiv_nonneg_iff)
  have "day t div 3600 = day u div 3600" using 4 [THEN conjunct1] nonneg(1) pos by (metis eq_nat_nat_iff)
  moreover have "day t mod 3600 div 60 = day u mod 3600 div 60" using 5 [THEN conjunct1] nonneg(2) pos by (metis eq_nat_nat_iff)
  moreover have "day t mod 60 = day u mod 60" using 6 [THEN conjunct1] nonneg(3) pos by (metis eq_nat_nat_iff)
  ultimately have "day t = day u" using clock_fields [of "day t"] clock_fields [of "day u"] by metis
  then have secs: "t div 1000000000 = u div 1000000000" using days by (metis day_def div_mult_mod_eq)
  have "fraction (t mod 1000000000) = fraction (u mod 1000000000)" using 6 [THEN conjunct2] by (rule append_same_eq [THEN iffD1])
  then have "t mod 1000000000 = u mod 1000000000" by (intro fraction_digits) simp_all
  then show ?thesis using secs by (metis div_mult_mod_eq)
qed

end
