(* ===== verification/Audit_Chain.thy ===== *)
theory Audit_Chain
  imports Go_Encoding Rule_Store
begin

text \<open>
  The tamper-evident audit log, \<open>internal/audit/chain.go\<close> and \<open>management.go\<close>: the canonical
  payload of a row and its SHA-256, the append with its retries, the verification walk. The
  table \<open>audit_logs\<close> is reached through the calls in \<open>audit_table\<close>; the hypothesis
  \<open>audit_table_ok\<close> states what SQLite documents for them: rows come in the order of their
  identifiers, a failed insert leaves the table alone, and the index on \<open>prev_hash\<close> is unique.
  Nothing is assumed of the hash: what the chain cannot exclude is an explicit collision.
\<close>

subsection \<open>Rows and their payload\<close>

record AuditLog =
  al_ID :: uint
  al_Ecosystem :: string
  al_PackageName :: string
  al_Version :: string
  al_Action :: string
  al_CacheResult :: string
  al_ClientIP :: string
  al_UserAgent :: string
  al_UpstreamURL :: string
  al_LatencyMs :: int
  al_BytesSent :: int
  al_StatusCode :: int
  al_CreatedAt :: time
  al_RequestID :: string
  al_PrevHash :: "string option"
  al_Hash :: string

definition ChainHashVersion :: string where
  "ChainHashVersion = ''depsilo/audit-chain/v1''"

text \<open>A JSON object of strings and integers, with the keys in the given order.\<close>

datatype json_value = JString string | JInt int

fun json_text :: "json_value \<Rightarrow> string" where
  "json_text (JString s) = json_string s"
| "json_text (JInt n) = FormatInt n"

fun json_members :: "(string \<times> json_value) list \<Rightarrow> string" where
  "json_members [] = ''}''"
| "json_members ((k, v) # ms) =
     json_string k @ '':'' @ json_text v @ (if ms = [] then ''}'' else CHR '','' # json_members ms)"

definition chainPayload :: "string \<Rightarrow> AuditLog \<Rightarrow> (string \<times> json_value) list" where
  "chainPayload prevHash row =
    [(''hash_version'', JString ChainHashVersion),
     (''prev_hash'', JString prevHash),
     (''ecosystem'', JString (al_Ecosystem row)),
     (''package_name'', JString (al_PackageName row)),
     (''version'', JString (al_Version row)),
     (''action'', JString (al_Action row)),
     (''cache_result'', JString (al_CacheResult row)),
     (''client_ip'', JString (al_ClientIP row)),
     (''user_agent'', JString (al_UserAgent row)),
     (''upstream_url'', JString (al_UpstreamURL row)),
     (''latency_ms'', JInt (al_LatencyMs row)),
     (''bytes_sent'', JInt (al_BytesSent row)),
     (''status_code'', JInt (al_StatusCode row)),
     (''created_at'', JString (FormatRFC3339Nano (al_CreatedAt row))),
     (''request_id'', JString (al_RequestID row))]"

definition payload_text :: "string \<Rightarrow> AuditLog \<Rightarrow> string" where
  "payload_text prevHash row = CHR ''{'' # json_members (chainPayload prevHash row)"

definition ComputeAuditHash :: "string \<Rightarrow> AuditLog \<Rightarrow> string" where
  "ComputeAuditHash prevHash row = EncodeToString (Sum256 (payload_text prevHash row))"

subsection \<open>Appending\<close>

record 'db audit_table =
  au_Last :: "'db \<Rightarrow> gerror + AuditLog option"              \<comment> \<open>Order("id DESC").Limit(1).Find\<close>
  au_Create :: "AuditLog list \<Rightarrow> 'db \<Rightarrow> 'db \<times> gerror option" \<comment> \<open>Create in the transaction\<close>
  au_Scan :: "nat \<Rightarrow> 'db \<Rightarrow> AuditLog list list \<times> gerror option" \<comment> \<open>Order("id").FindInBatches\<close>
  au_First :: "uint \<Rightarrow> 'db \<Rightarrow> gerror + AuditLog"           \<comment> \<open>First(&row, id)\<close>
  au_After :: "uint \<Rightarrow> nat \<Rightarrow> 'db \<Rightarrow> gerror + AuditLog list"  \<comment> \<open>Where("id > ?").Order("id").Limit\<close>

definition chainHead :: "'db audit_table \<Rightarrow> 'db \<Rightarrow> gerror + string" where
  "chainHead T db = bind_err (au_Last T db) (\<lambda>head.
     case head of None \<Rightarrow> Inr [] | Some row \<Rightarrow> Inr (if al_ID row = 0 then [] else al_Hash row))"

fun chain_rows :: "string \<Rightarrow> AuditLog list \<Rightarrow> AuditLog list" where
  "chain_rows prev [] = []"
| "chain_rows prev (row # rows) =
     (let hash = ComputeAuditHash prev row in row\<lparr>al_PrevHash := Some prev, al_Hash := hash\<rparr> # chain_rows hash rows)"

definition err_text :: "gerror \<Rightarrow> string" where
  "err_text err = concat (map (\<lambda>s. case s of ErrMessage m \<Rightarrow> m | _ \<Rightarrow> []) err)"

definition isChainAppendConflict :: "externals \<Rightarrow> gerror \<Rightarrow> bool" where
  "isChainAppendConflict E err \<longleftrightarrow>
     (case sqlite_code err of Some c \<Rightarrow> c mod 256 = 5 | None \<Rightarrow> False) \<or>
     (let message = ToLower E (err_text err) in Contains message ''unique'' \<and> Contains message ''prev_hash'')"

text \<open>
  One transaction: the head is read from the snapshot in which it began, the rows are created in
  the table as other writers have left it by then.
\<close>

definition append_attempt :: "'db audit_table \<Rightarrow> AuditLog list \<Rightarrow> 'db \<Rightarrow> 'db \<Rightarrow> 'db \<times> gerror option" where
  "append_attempt T rows snapshot db =
     (case chainHead T snapshot of
        Inl e \<Rightarrow> (db, Some e)
      | Inr prev \<Rightarrow> au_Create T (chain_rows prev rows) db)"

fun append_loop ::
  "externals \<Rightarrow> 'db audit_table \<Rightarrow> (nat \<Rightarrow> 'db \<Rightarrow> 'db) \<Rightarrow> AuditLog list \<Rightarrow> nat \<Rightarrow> nat \<Rightarrow> gerror \<Rightarrow> 'db \<Rightarrow>
     'db \<times> gerror option" where
  "append_loop E T others rows 0 attempt lastErr db = (db, Some lastErr)"
| "append_loop E T others rows (Suc n) attempt lastErr db =
     (case append_attempt T rows db (others attempt db) of
        (db', None) \<Rightarrow> (db', None)
      | (db', Some e) \<Rightarrow>
          if \<not> isChainAppendConflict E e then (db', Some e)
          else append_loop E T others rows n (Suc attempt) e db')"

definition AppendAuditRows ::
  "externals \<Rightarrow> 'db audit_table option \<Rightarrow> (nat \<Rightarrow> 'db \<Rightarrow> 'db) \<Rightarrow> AuditLog list \<Rightarrow> 'db \<Rightarrow> 'db \<times> gerror option" where
  "AppendAuditRows E database others rows db =
     (case database of
        None \<Rightarrow> (db, None)
      | Some T \<Rightarrow> if rows = [] then (db, None) else append_loop E T others rows 4 0 plain_error db)"

subsection \<open>Management events\<close>

record ManagementEvent =
  me_ActorID :: uint
  me_Action :: string
  me_Target :: string
  me_Success :: bool
  me_ClientIP :: string
  me_Detail :: string

definition managementEcosystem :: string where
  "managementEcosystem = ''admin''"

definition management_row :: "time \<Rightarrow> ManagementEvent \<Rightarrow> AuditLog" where
  "management_row now event =
    \<lparr>al_ID = 0, al_Ecosystem = managementEcosystem, al_PackageName = me_Target event, al_Version = me_Detail event,
     al_Action = me_Action event, al_CacheResult = (if me_Success event then ''success'' else ''error''),
     al_ClientIP = me_ClientIP event, al_UserAgent = ''operator:'' @ FormatUint (unat (me_ActorID event)),
     al_UpstreamURL = [], al_LatencyMs = 0, al_BytesSent = 0,
     al_StatusCode = (if me_Success event then 200 else 500), al_CreatedAt = now, al_RequestID = [],
     al_PrevHash = None, al_Hash = []\<rparr>"

definition RecordManagementEvent ::
  "externals \<Rightarrow> 'db audit_table option \<Rightarrow> (nat \<Rightarrow> 'db \<Rightarrow> 'db) \<Rightarrow> time \<Rightarrow> ManagementEvent \<Rightarrow> 'db \<Rightarrow> 'db \<times> gerror option" where
  "RecordManagementEvent E database others now event db =
     (case database of
        None \<Rightarrow> (db, None)
      | Some _ \<Rightarrow> AppendAuditRows E database others [management_row now event] db)"

subsection \<open>Verification\<close>

record ChainReport =
  cr_OK :: bool
  cr_RowsScanned :: int
  cr_ChainedRows :: int
  cr_UnchainedRows :: int
  cr_FirstChainedID :: uint
  cr_HeadID :: uint
  cr_HeadHash :: string
  cr_BrokenAtID :: uint
  cr_Reason :: string
  cr_ScannedAt :: time

text \<open>The variables of the walk: the report, \<open>prev\<close> and \<open>started\<close>.\<close>

type_synonym walk = "ChainReport \<times> string \<times> bool"

definition rowPrev :: "AuditLog \<Rightarrow> string" where
  "rowPrev row = (case al_PrevHash row of None \<Rightarrow> [] | Some p \<Rightarrow> p)"

definition broken :: "string \<Rightarrow> AuditLog \<Rightarrow> ChainReport \<Rightarrow> ChainReport" where
  "broken reason row r = r\<lparr>cr_OK := False, cr_BrokenAtID := al_ID row, cr_Reason := reason\<rparr>"

fun walk_batch :: "AuditLog list \<Rightarrow> walk \<Rightarrow> walk" where
  "walk_batch [] w = w"
| "walk_batch (row # rows) (report0, prev, started0) =
     (if cr_BrokenAtID report0 \<noteq> 0 then (report0, prev, started0)
      else (let report = report0\<lparr>cr_RowsScanned := cr_RowsScanned report0 + 1\<rparr> in
        if al_Hash row = [] then
          (if started0 then (broken ''row is not chained after the chain started'' row report, prev, started0)
           else walk_batch rows (report\<lparr>cr_UnchainedRows := cr_UnchainedRows report + 1\<rparr>, prev, started0))
        else
          (let report' = (if started0 then report else report\<lparr>cr_FirstChainedID := al_ID row\<rparr>) in
           if rowPrev row \<noteq> prev then (broken ''prev_hash does not link to the previous row'' row report', prev, True)
           else if ComputeAuditHash prev row \<noteq> al_Hash row
           then (broken ''hash does not match the row content'' row report', prev, True)
           else walk_batch rows
             (report'\<lparr>cr_ChainedRows := cr_ChainedRows report' + 1, cr_HeadID := al_ID row, cr_HeadHash := al_Hash row\<rparr>,
              al_Hash row, True))))"

definition fresh_report :: "time \<Rightarrow> ChainReport" where
  "fresh_report now = \<lparr>cr_OK = True, cr_RowsScanned = 0, cr_ChainedRows = 0, cr_UnchainedRows = 0,
     cr_FirstChainedID = 0, cr_HeadID = 0, cr_HeadHash = [], cr_BrokenAtID = 0, cr_Reason = [], cr_ScannedAt = now\<rparr>"

definition VerifyChain ::
  "'db audit_table option \<Rightarrow> time \<Rightarrow> int \<Rightarrow> 'db \<Rightarrow> ChainReport \<times> gerror option" where
  "VerifyChain database now batchSize db =
     (case database of
        None \<Rightarrow> (fresh_report now, Some plain_error)
      | Some T \<Rightarrow>
          (let size = (if batchSize \<le> 0 then 1000 else nat batchSize);
               (batches, err) = au_Scan T size db;
               (report, _) = fold walk_batch batches (fresh_report now, [], False) in
           (report, err)))"

subsection \<open>What a payload determines\<close>

fun shown_value :: "json_value \<Rightarrow> json_value" where
  "shown_value (JString s) = JString (shown s)"
| "shown_value (JInt n) = JInt n"

lemma FormatInt_no_quote: "FormatInt n @ x \<noteq> char_of (34 :: nat) # y"
proof -
  have "FormatInt n \<noteq> []" by (simp add: FormatInt_def)
  moreover have "byte (hd (FormatInt n)) \<noteq> 34"
    using FormatUint_digits [of "nat n"] by (cases "FormatUint (nat n)") (auto simp: FormatInt_def isASCIIDigit_def)
  ultimately show ?thesis by (cases "FormatInt n") auto
qed

lemma json_text_cancel:
  assumes "json_text v @ x = json_text w @ y" and "digit_free x" and "digit_free y"
  shows "shown_value v = shown_value w \<and> x = y"
proof (cases v)
  case (JString s)
  then show ?thesis
    using assms json_string_cancel [of s x _ y] FormatInt_no_quote [THEN not_sym]
    by (cases w) (simp_all, simp add: json_string_def)
next
  case (JInt n)
  show ?thesis
  proof (cases w)
    case (JString s)
    then show ?thesis using assms(1) JInt FormatInt_no_quote [of n x] by (simp add: json_string_def)
  next
    case (JInt m)
    then show ?thesis using assms \<open>v = JInt n\<close> FormatInt_cancel [of n x m y] by simp
  qed
qed

lemma json_members_cancel:
  "map fst ms = map fst ns \<Longrightarrow> json_members ms = json_members ns \<Longrightarrow>
    map (\<lambda>m. shown_value (snd m)) ms = map (\<lambda>m. shown_value (snd m)) ns"
proof (induction ms arbitrary: ns)
  case (Cons m ms)
  obtain k v where m: "m = (k, v)" by (cases m)
  obtain w ns' where ns: "ns = (k, w) # ns'" "map fst ms = map fst ns'" using Cons.prems(1) m by (cases ns) auto
  define tail where "tail ms = (if ms = [] then ''}'' else CHR '','' # json_members ms)" for ms
  have free: "digit_free (tail ms)" for ms by (simp add: tail_def digit_free_def isASCIIDigit_def byte_def)
  have "json_text v @ tail ms = json_text w @ tail ns'"
    using Cons.prems(2) m ns(1) by (simp add: tail_def)
  note 1 = json_text_cancel [OF this free free]
  have "ms = [] \<longleftrightarrow> ns' = []" using ns(2) by auto
  then have "json_members ms = json_members ns'" using 1 by (auto simp: tail_def split: if_splits)
  then show ?case using Cons.IH [OF ns(2)] 1 m ns(1) by simp
qed simp

text \<open>The audited content of a row: everything but its identifier and hashes, each text as a reader of the payload sees it.\<close>

definition audited :: "AuditLog \<Rightarrow> AuditLog" where
  "audited row = row\<lparr>al_ID := 0, al_Ecosystem := shown (al_Ecosystem row), al_PackageName := shown (al_PackageName row),
     al_Version := shown (al_Version row), al_Action := shown (al_Action row), al_CacheResult := shown (al_CacheResult row),
     al_ClientIP := shown (al_ClientIP row), al_UserAgent := shown (al_UserAgent row),
     al_UpstreamURL := shown (al_UpstreamURL row), al_RequestID := shown (al_RequestID row),
     al_PrevHash := None, al_Hash := []\<rparr>"

lemma pad_digits_ascii: "is_ascii (pad_digits w n)"
  using pad_digits_digits [of w n] by (auto simp: is_ascii_def list_all_iff byte_class_ascii)

lemma is_ascii_append: "is_ascii (s @ t) \<longleftrightarrow> is_ascii s \<and> is_ascii t"
  by (simp add: is_ascii_def)

lemma ascii_punctuation: "is_ascii (CHR ''-'' # s) \<longleftrightarrow> is_ascii s" "is_ascii (CHR ''.'' # s) \<longleftrightarrow> is_ascii s"
  "is_ascii (CHR ''T'' # s) \<longleftrightarrow> is_ascii s" "is_ascii (CHR '':'' # s) \<longleftrightarrow> is_ascii s" "is_ascii ''Z''" "is_ascii []"
  by (simp_all add: is_ascii_def byte_def)

lemma fraction_ascii: "is_ascii (fraction n)"
proof -
  let ?z = "\<lambda>c. c = CHR ''0''"
  obtain ys where "pad_digits 9 (nat n) = strip_suffix_while ?z (pad_digits 9 (nat n)) @ ys"
    using strip_suffix_while_prefix [of "pad_digits 9 (nat n)" ?z] by blast
  then have "is_ascii (strip_suffix_while ?z (pad_digits 9 (nat n)))"
    using pad_digits_ascii [of 9 "nat n"] by (metis is_ascii_append)
  then show ?thesis by (simp add: fraction_def ascii_punctuation)
qed

lemma FormatRFC3339Nano_ascii: "is_ascii (FormatRFC3339Nano t)"
proof -
  have "is_ascii (appendInt n w)" for n w by (simp add: appendInt_def ascii_punctuation pad_digits_ascii)
  then show ?thesis
    unfolding FormatRFC3339Nano_def Let_def case_prod_beta
    by (simp only: is_ascii_append ascii_punctuation pad_digits_ascii fraction_ascii simp_thms)
qed

lemma payload_determines:
  assumes "payload_text p r = payload_text q s"
  shows "shown p = shown q \<and> audited r = audited s"
proof -
  have "map (\<lambda>m. shown_value (snd m)) (chainPayload p r) = map (\<lambda>m. shown_value (snd m)) (chainPayload q s)"
    using assms by (intro json_members_cancel) (simp_all add: payload_text_def chainPayload_def)
  then have "shown p = shown q \<and> shown (al_Ecosystem r) = shown (al_Ecosystem s) \<and>
    shown (al_PackageName r) = shown (al_PackageName s) \<and> shown (al_Version r) = shown (al_Version s) \<and>
    shown (al_Action r) = shown (al_Action s) \<and> shown (al_CacheResult r) = shown (al_CacheResult s) \<and>
    shown (al_ClientIP r) = shown (al_ClientIP s) \<and> shown (al_UserAgent r) = shown (al_UserAgent s) \<and>
    shown (al_UpstreamURL r) = shown (al_UpstreamURL s) \<and> al_LatencyMs r = al_LatencyMs s \<and>
    al_BytesSent r = al_BytesSent s \<and> al_StatusCode r = al_StatusCode s \<and>
    FormatRFC3339Nano (al_CreatedAt r) = FormatRFC3339Nano (al_CreatedAt s) \<and>
    shown (al_RequestID r) = shown (al_RequestID s)"
    unfolding chainPayload_def by (simp add: FormatRFC3339Nano_ascii)
  then show ?thesis using FormatRFC3339Nano_inj by (simp add: audited_def)
qed

lemma hash_nonempty [simp]: "ComputeAuditHash p r \<noteq> []" "[] \<noteq> ComputeAuditHash p r"
proof -
  have "length (ComputeAuditHash p r) = 64" by (simp add: ComputeAuditHash_def length_Sum256)
  then show "ComputeAuditHash p r \<noteq> []" by auto
  then show "[] \<noteq> ComputeAuditHash p r" by (rule not_sym)
qed

subsection \<open>Linked rows\<close>

fun linked :: "string \<Rightarrow> AuditLog list \<Rightarrow> bool" where
  "linked prev [] \<longleftrightarrow> True"
| "linked prev (row # rows) \<longleftrightarrow>
     rowPrev row = prev \<and> al_Hash row = ComputeAuditHash prev row \<and> linked (al_Hash row) rows"

definition last_hash :: "string \<Rightarrow> AuditLog list \<Rightarrow> string" where
  "last_hash prev rows = (if rows = [] then prev else al_Hash (last rows))"

fun payloads :: "string \<Rightarrow> AuditLog list \<Rightarrow> string list" where
  "payloads prev [] = []"
| "payloads prev (row # rows) = payload_text prev row # payloads (al_Hash row) rows"

definition chained :: "AuditLog list \<Rightarrow> AuditLog list" where
  "chained rows = dropWhile (\<lambda>r. al_Hash r = []) rows"

lemma last_hash_simps [simp]: "last_hash p [] = p" "last_hash p (r # rs) = last_hash (al_Hash r) rs"
  "last_hash p (rs @ [r]) = al_Hash r"
  by (simp_all add: last_hash_def)

lemma linked_append: "linked p (xs @ ys) \<longleftrightarrow> linked p xs \<and> linked (last_hash p xs) ys"
  by (induction xs arbitrary: p) auto

lemma payloads_append: "payloads p (xs @ ys) = payloads p xs @ payloads (last_hash p xs) ys"
  by (induction xs arbitrary: p) auto

lemma linked_last_hash: "linked p rs \<Longrightarrow> rs \<noteq> [] \<Longrightarrow> \<exists>q r. last_hash p rs = ComputeAuditHash q r"
  by (induction rs rule: rev_induct) (auto simp: linked_append)

lemma linked_shown: "linked [] rs \<Longrightarrow> shown (last_hash [] rs) = last_hash [] rs"
  using linked_last_hash [of "[]" rs] by (cases "rs = []") (auto simp: ComputeAuditHash_def EncodeToString_ascii ascii_punctuation)

lemma linked_history:
  assumes "linked [] xs" and "linked [] ys" and "last_hash [] xs = last_hash [] ys"
  shows "map audited xs = map audited ys \<or>
    (\<exists>a \<in> set (payloads [] xs). \<exists>b \<in> set (payloads [] ys). a \<noteq> b \<and> Sum256 a = Sum256 b)"
  using assms
proof (induction xs arbitrary: ys rule: rev_induct)
  case Nil
  then show ?case using linked_last_hash [of "[]" ys] by (cases "ys = []") auto
next
  case (snoc x xs)
  have x: "linked [] xs" "al_Hash x = ComputeAuditHash (last_hash [] xs) x" using snoc.prems(1) by (simp_all add: linked_append)
  then have "ys \<noteq> []" using snoc.prems(3) by auto
  then obtain zs y where ys: "ys = zs @ [y]" by (cases ys rule: rev_cases) auto
  have y: "linked [] zs" "al_Hash y = ComputeAuditHash (last_hash [] zs) y" using snoc.prems(2) ys by (simp_all add: linked_append)
  let ?a = "payload_text (last_hash [] xs) x" and ?b = "payload_text (last_hash [] zs) y"
  have sum: "Sum256 ?a = Sum256 ?b"
    using snoc.prems(3) x(2) y(2) ys by (simp add: ComputeAuditHash_def EncodeToString_inj)
  have mem: "?a \<in> set (payloads [] (xs @ [x]))" "?b \<in> set (payloads [] ys)" using ys by (simp_all add: payloads_append)
  show ?case
  proof (cases "?a = ?b")
    case True
    then have d: "last_hash [] xs = last_hash [] zs" "audited x = audited y"
      using payload_determines [OF True] linked_shown [OF x(1)] linked_shown [OF y(1)] by simp_all
    then show ?thesis using snoc.IH [OF x(1) y(1)] ys by (auto simp: payloads_append)
  next
    case False
    then show ?thesis using sum mem by blast
  qed
qed

subsection \<open>The walk decides linkedness\<close>

fun accepts :: "bool \<Rightarrow> string \<Rightarrow> AuditLog list \<Rightarrow> bool" where
  "accepts started prev [] \<longleftrightarrow> True"
| "accepts started prev (row # rows) \<longleftrightarrow>
     (if al_Hash row = [] then \<not> started \<and> accepts started prev rows
      else rowPrev row = prev \<and> ComputeAuditHash prev row = al_Hash row \<and> accepts True (al_Hash row) rows)"

text \<open>The report after an accepted walk.\<close>

definition walked :: "AuditLog list \<Rightarrow> walk \<Rightarrow> walk" where
  "walked rows = (\<lambda>(report, prev, started).
     let c = (if started then rows else chained rows) in
     (report\<lparr>cr_RowsScanned := cr_RowsScanned report + int (length rows),
        cr_ChainedRows := cr_ChainedRows report + int (length c),
        cr_UnchainedRows := cr_UnchainedRows report + int (length rows - length c),
        cr_FirstChainedID := (if started \<or> c = [] then cr_FirstChainedID report else al_ID (hd c)),
        cr_HeadID := (if c = [] then cr_HeadID report else al_ID (last c)),
        cr_HeadHash := (if c = [] then cr_HeadHash report else al_Hash (last c))\<rparr>,
      last_hash prev c, started \<or> c \<noteq> []))"

lemma walk_not_ok: "\<not> cr_OK r \<Longrightarrow> \<not> cr_OK (fst (walk_batch rows (r, p, s)))"
  by (induction rows arbitrary: r p s) (auto simp: Let_def broken_def)

lemma walks_not_ok: "\<not> cr_OK (fst w) \<Longrightarrow> \<not> cr_OK (fst (fold walk_batch batches w))"
proof (induction batches arbitrary: w)
  case (Cons b bs)
  have "\<not> cr_OK (fst (walk_batch b w))" using Cons.prems by (cases w) (simp add: walk_not_ok)
  then show ?case using Cons.IH by simp
qed simp

lemma accepts_started: "accepts True p rows \<longleftrightarrow> linked p rows"
  by (induction rows arbitrary: p) auto

lemma accepts_fresh: "accepts False [] rows \<longleftrightarrow> linked [] (chained rows)"
  by (induction rows) (auto simp: chained_def accepts_started)

lemma accepts_append:
  "accepts s p (xs @ ys) \<longleftrightarrow> accepts s p xs \<and> accepts (s \<or> (\<exists>x \<in> set xs. al_Hash x \<noteq> [])) (last_hash p (if s then xs else chained xs)) ys"
proof (induction xs arbitrary: s p)
  case (Cons x xs)
  then show ?case by (cases s) (auto simp: chained_def)
qed (simp add: chained_def)

lemma chained_eq_Nil: "chained rows = [] \<longleftrightarrow> \<not> (\<exists>x \<in> set rows. al_Hash x \<noteq> [])"
  by (auto simp: chained_def)

lemma length_chained: "length (chained rows) \<le> length rows"
  by (simp add: chained_def length_dropWhile_le)

lemma walk_rejects:
  "cr_OK (fst (walk_batch rows (r, p, s))) \<Longrightarrow> cr_BrokenAtID r = 0 \<Longrightarrow> accepts s p rows"
proof (induction rows arbitrary: r p s)
  case (Cons row rows)
  note IH = Cons.IH [of "_\<lparr>cr_UnchainedRows := _\<rparr>"] Cons.IH [of "_\<lparr>cr_HeadHash := _\<rparr>"]
  show ?case using Cons.prems by (auto simp: Let_def broken_def split: if_splits dest: IH)
qed simp

lemma walk_accepts_started:
  "linked p rows \<Longrightarrow> cr_BrokenAtID r = 0 \<Longrightarrow> walk_batch rows (r, p, True) = walked rows (r, p, True)"
proof (induction rows arbitrary: r p)
  case (Cons row rows)
  then have eq: "ComputeAuditHash p row = al_Hash row" by simp
  have "al_Hash row \<noteq> []" using hash_nonempty(1) [of p row] unfolding eq .
  note h = this eq
  show ?case
    using Cons.prems h
    by (simp add: Let_def Cons.IH walked_def last_hash_def)
qed (simp add: walked_def)

lemma walk_accepts:
  "accepts s p rows \<Longrightarrow> cr_BrokenAtID r = 0 \<Longrightarrow> walk_batch rows (r, p, s) = walked rows (r, p, s)"
proof (cases s)
  case True
  then show "accepts s p rows \<Longrightarrow> cr_BrokenAtID r = 0 \<Longrightarrow> ?thesis"
    by (simp add: accepts_started walk_accepts_started)
next
  case False
  have "accepts False p rows \<Longrightarrow> cr_BrokenAtID r = 0 \<Longrightarrow> walk_batch rows (r, p, False) = walked rows (r, p, False)"
  proof (induction rows arbitrary: r)
    case (Cons row rows)
    show ?case
    proof (cases "al_Hash row = []")
      case True
      have "length (chained rows) \<le> length rows" by (rule length_chained)
      then show ?thesis using True Cons by (simp add: walked_def Let_def chained_def)
    next
      case False
      then show ?thesis using Cons.prems by (simp add: walked_def Let_def chained_def accepts_started walk_accepts_started last_hash_def)
    qed
  qed (simp add: walked_def chained_def)
  then show "accepts s p rows \<Longrightarrow> cr_BrokenAtID r = 0 \<Longrightarrow> ?thesis" using False by simp
qed

lemma walks_verdict:
  assumes "cr_OK r" and "cr_BrokenAtID r = 0"
  shows "cr_OK (fst (fold walk_batch batches (r, p, s))) \<longleftrightarrow> accepts s p (concat batches)"
  using assms
proof (induction batches arbitrary: r p s)
  case (Cons b bs)
  obtain r' p' s' where w: "walk_batch b (r, p, s) = (r', p', s')" by (cases "walk_batch b (r, p, s)")
  show ?case
  proof (cases "accepts s p b")
    case True
    have "(r', p', s') = walked b (r, p, s)" using walk_accepts [OF True Cons.prems(2)] w by simp
    then have "cr_OK r'" "cr_BrokenAtID r' = 0" "p' = last_hash p (if s then b else chained b)"
      "s' \<longleftrightarrow> s \<or> (\<exists>x \<in> set b. al_Hash x \<noteq> [])"
      using Cons.prems by (auto simp: walked_def Let_def chained_eq_Nil)
    then show ?thesis using Cons.IH [of r' p' s'] True w by (simp add: accepts_append)
  next
    case False
    then have "\<not> cr_OK r'" using walk_rejects [of b r p s] False Cons.prems(2) w by auto
    then show ?thesis using walks_not_ok [of "(r', p', s')" bs] False w by (simp add: accepts_append)
  qed
qed simp

lemma chained_append: "chained (xs @ ys) = (if chained xs = [] then chained ys else chained xs @ ys)"
  by (induction xs) (auto simp: chained_def)

lemma walked_append: "walked ys (walked xs w) = walked (xs @ ys) w"
proof -
  obtain r p s where w: "w = (r, p, s)" by (cases w)
  show ?thesis
    using length_chained [of xs] length_chained [of ys]
    by (cases s; cases "chained xs = []"; cases "chained ys = []"; cases "xs = []"; cases "ys = []")
      (simp_all add: w walked_def Let_def chained_append last_hash_def chained_eq_Nil)
qed

lemma walks_accepted:
  assumes "cr_BrokenAtID r = 0" and "accepts s p (concat batches)"
  shows "fold walk_batch batches (r, p, s) = walked (concat batches) (r, p, s)"
  using assms
proof (induction batches arbitrary: r p s)
  case Nil
  then show ?case by (simp add: walked_def chained_def last_hash_def)
next
  case (Cons b bs)
  have b: "walk_batch b (r, p, s) = walked b (r, p, s)" using Cons.prems by (intro walk_accepts) (simp_all add: accepts_append)
  obtain r' p' s' where w: "walked b (r, p, s) = (r', p', s')" by (cases "walked b (r, p, s)")
  have "cr_BrokenAtID r' = 0" "accepts s' p' (concat bs)"
    using w Cons.prems by (auto simp: walked_def Let_def accepts_append chained_eq_Nil)
  then show ?case using Cons.IH [of r' s' p'] b w walked_append [of "concat bs" b "(r, p, s)"] by simp
qed

subsection \<open>The table\<close>

definition prev_hashes :: "AuditLog list \<Rightarrow> string list" where
  "prev_hashes rows = concat (map (\<lambda>r. case al_PrevHash r of None \<Rightarrow> [] | Some p \<Rightarrow> [p]) rows)"

definition with_ids :: "AuditLog list \<Rightarrow> uint list \<Rightarrow> AuditLog list" where
  "with_ids pending ids = map2 (\<lambda>r i. r\<lparr>al_ID := i\<rparr>) pending ids"

definition audit_table_ok :: "'db audit_table \<Rightarrow> ('db \<Rightarrow> AuditLog list) \<Rightarrow> bool" where
  "audit_table_ok T rows \<longleftrightarrow>
     (\<forall>db. sorted_wrt (\<lambda>a b. al_ID a < al_ID b) (rows db) \<and> (\<forall>r \<in> set (rows db). al_ID r \<noteq> 0)) \<and>
     (\<forall>db last_row. au_Last T db = Inr last_row \<longrightarrow>
        last_row = (if rows db = [] then None else Some (last (rows db)))) \<and>
     (\<forall>pending db db'. au_Create T pending db = (db', None) \<longrightarrow>
        (\<exists>ids. length ids = length pending \<and> rows db' = rows db @ with_ids pending ids) \<and>
        distinct (prev_hashes (rows db'))) \<and>
     (\<forall>pending db db' e. au_Create T pending db = (db', Some e) \<longrightarrow> rows db' = rows db) \<and>
     (\<forall>n db batches. au_Scan T n db = (batches, None) \<longrightarrow> concat batches = rows db) \<and>
     (\<forall>i db r. au_First T i db = Inr r \<longrightarrow> r \<in> set (rows db) \<and> al_ID r = i) \<and>
     (\<forall>c n db rs. au_After T c n db = Inr rs \<longrightarrow> rs = take n (filter (\<lambda>r. c < al_ID r) (rows db)))"

lemma audit_okD:
  assumes "audit_table_ok T rows"
  shows "sorted_wrt (\<lambda>a b. al_ID a < al_ID b) (rows db)" and "\<forall>r \<in> set (rows db). al_ID r \<noteq> 0"
    and "au_Last T db = Inr last_row \<Longrightarrow> last_row = (if rows db = [] then None else Some (last (rows db)))"
    and "au_Create T pending db = (db', None) \<Longrightarrow>
      (\<exists>ids. length ids = length pending \<and> rows db' = rows db @ with_ids pending ids) \<and> distinct (prev_hashes (rows db'))"
    and "au_Create T pending db = (db', Some e) \<Longrightarrow> rows db' = rows db"
    and "au_Scan T n db = (batches, None) \<Longrightarrow> concat batches = rows db"
    and "au_First T i db = Inr r \<Longrightarrow> r \<in> set (rows db) \<and> al_ID r = i"
    and "au_After T c n db = Inr rs \<Longrightarrow> rs = take n (filter (\<lambda>r. c < al_ID r) (rows db))"
proof -
  note ok = assms [unfolded audit_table_ok_def]
  show "sorted_wrt (\<lambda>a b. al_ID a < al_ID b) (rows db)" "\<forall>r \<in> set (rows db). al_ID r \<noteq> 0" using ok by simp_all
  show "au_Last T db = Inr last_row \<Longrightarrow> last_row = (if rows db = [] then None else Some (last (rows db)))"
    using ok [THEN conjunct2, THEN conjunct1] by blast
  show "au_Create T pending db = (db', None) \<Longrightarrow>
      (\<exists>ids. length ids = length pending \<and> rows db' = rows db @ with_ids pending ids) \<and> distinct (prev_hashes (rows db'))"
    using ok [THEN conjunct2, THEN conjunct2, THEN conjunct1] by blast
  show "au_Create T pending db = (db', Some e) \<Longrightarrow> rows db' = rows db"
    using ok [THEN conjunct2, THEN conjunct2, THEN conjunct2, THEN conjunct1] by blast
  show "au_Scan T n db = (batches, None) \<Longrightarrow> concat batches = rows db"
    "au_First T i db = Inr r \<Longrightarrow> r \<in> set (rows db) \<and> al_ID r = i"
    "au_After T c n db = Inr rs \<Longrightarrow> rs = take n (filter (\<lambda>r. c < al_ID r) (rows db))"
    using ok by simp_all
qed

lemma VerifyChain_report:
  assumes ok: "audit_table_ok T rows" and verify: "VerifyChain (Some T) now n db = (report, None)"
  shows "cr_OK report \<longleftrightarrow> linked [] (chained (rows db))"
    and "cr_OK report \<Longrightarrow> cr_HeadHash report = last_hash [] (chained (rows db)) \<and>
      cr_ChainedRows report = int (length (chained (rows db))) \<and>
      cr_UnchainedRows report = int (length (rows db) - length (chained (rows db)))"
proof -
  let ?size = "if n \<le> 0 then 1000 else nat n"
  obtain batches e where pair: "au_Scan T ?size db = (batches, e)" by (cases "au_Scan T ?size db")
  then have scan: "au_Scan T ?size db = (batches, None)"
    and report: "report = fst (fold walk_batch batches (fresh_report now, [], False))"
    using verify unfolding VerifyChain_def Let_def option.case(2) case_prod_beta by simp_all
  have rows: "concat batches = rows db" using audit_okD(6) [OF ok scan] .
  have start: "cr_OK (fresh_report now)" "cr_BrokenAtID (fresh_report now) = 0" by (simp_all add: fresh_report_def)
  show verdict: "cr_OK report \<longleftrightarrow> linked [] (chained (rows db))"
    using walks_verdict [OF start, of batches "[]" False] by (simp add: report rows accepts_fresh)
  assume "cr_OK report"
  then have "accepts False [] (concat batches)" using verdict rows by (simp add: accepts_fresh)
  then have "report = fst (walked (rows db) (fresh_report now, [], False))"
    using walks_accepted [OF start(2)] report rows by simp
  then show "cr_HeadHash report = last_hash [] (chained (rows db)) \<and>
      cr_ChainedRows report = int (length (chained (rows db))) \<and>
      cr_UnchainedRows report = int (length (rows db) - length (chained (rows db)))"
    by (simp add: walked_def fresh_report_def Let_def last_hash_def)
qed

subsection \<open>Concurrent writers\<close>

definition head_hash :: "AuditLog list \<Rightarrow> string" where
  "head_hash rows = (if rows = [] then [] else al_Hash (last rows))"

lemma chainHead_head_hash:
  assumes "audit_table_ok T rows" and "chainHead T db = Inr prev"
  shows "prev = head_hash (rows db)"
proof -
  obtain l where l: "au_Last T db = Inr l" using assms(2) by (cases "au_Last T db") (simp_all add: chainHead_def)
  have "al_ID (last (rows db)) \<noteq> 0" if "rows db \<noteq> []" using audit_okD(2) [OF assms(1), of db] that by simp
  then show ?thesis using audit_okD(3) [OF assms(1) l] assms(2) l by (auto simp: chainHead_def head_hash_def)
qed

text \<open>
  Any number of writers: each begins a transaction, which fixes the snapshot its head is read
  from, and finishes it later with the rows it appends; whatever the outcome, it may begin again.
\<close>

inductive audit_reach :: "'db audit_table \<Rightarrow> 'db \<Rightarrow> 'db \<times> (nat \<Rightarrow> 'db option) \<Rightarrow> bool" for T db0 where
  start: "audit_reach T db0 (db0, \<lambda>_. None)"
| begin_tx: "audit_reach T db0 (db, p) \<Longrightarrow> audit_reach T db0 (db, p(w \<mapsto> db))"
| finish_tx: "audit_reach T db0 (db, p) \<Longrightarrow> p w = Some snapshot \<Longrightarrow> rs \<noteq> [] \<Longrightarrow>
    append_attempt T rs snapshot db = (db', err) \<Longrightarrow> audit_reach T db0 (db', p(w := None))"

fun strict :: "string \<Rightarrow> AuditLog list \<Rightarrow> bool" where
  "strict prev [] \<longleftrightarrow> True"
| "strict prev (row # rows) \<longleftrightarrow>
     al_PrevHash row = Some prev \<and> al_Hash row = ComputeAuditHash prev row \<and> strict (al_Hash row) rows"

lemma strict_append: "strict p (xs @ ys) \<longleftrightarrow> strict p xs \<and> strict (last_hash p xs) ys"
  by (induction xs arbitrary: p) auto

lemma strict_linked: "strict p rs \<Longrightarrow> linked p rs"
  by (induction rs arbitrary: p) (auto simp: rowPrev_def)

lemma ComputeAuditHash_id [simp]:
  "ComputeAuditHash p (r\<lparr>al_ID := i\<rparr>) = ComputeAuditHash p r"
  "ComputeAuditHash p (r\<lparr>al_PrevHash := q, al_Hash := h\<rparr>) = ComputeAuditHash p r"
  by (simp_all add: ComputeAuditHash_def payload_text_def chainPayload_def)

lemma chain_rows_strict: "length ids = length rs \<Longrightarrow> strict p (with_ids (chain_rows p rs) ids)"
proof (induction rs arbitrary: p ids)
  case (Cons r rs)
  then show ?case by (cases ids) (simp_all add: with_ids_def Let_def)
qed (simp add: with_ids_def)

lemma length_chain_rows [simp]: "length (chain_rows p rs) = length rs"
  by (induction rs arbitrary: p) (simp_all add: Let_def)

lemma chain_rows_head:
  "rs \<noteq> [] \<Longrightarrow> length ids = length rs \<Longrightarrow> Some p \<in> al_PrevHash ` set (with_ids (chain_rows p rs) ids)"
  by (cases rs; cases ids) (simp_all add: with_ids_def Let_def)

lemma prev_hashes_append: "prev_hashes (xs @ ys) = prev_hashes xs @ prev_hashes ys"
  by (simp add: prev_hashes_def)

lemma set_prev_hashes: "p \<in> set (prev_hashes rows) \<longleftrightarrow> Some p \<in> al_PrevHash ` set rows"
  by (force simp: prev_hashes_def split: option.splits)

definition chain_inv :: "AuditLog list \<Rightarrow> AuditLog list \<Rightarrow> bool" where
  "chain_inv initial rows \<longleftrightarrow> (\<exists>c. rows = initial @ c \<and> strict [] c)"

lemma chain_inv_head: "\<forall>r \<in> set initial. al_Hash r = [] \<Longrightarrow> strict [] c \<Longrightarrow> head_hash (initial @ c) = last_hash [] c"
  by (cases "c = []"; cases "initial = []") (simp_all add: head_hash_def last_hash_def)

lemma append_keeps_chain:
  assumes ok: "audit_table_ok T rows" and initial: "\<forall>r \<in> set initial. al_Hash r = []"
    and inv: "chain_inv initial (rows db)" and rs: "rs \<noteq> []"
    and stale: "head_hash (rows snapshot) = head_hash (rows db) \<or> Some (head_hash (rows snapshot)) \<in> al_PrevHash ` set (rows db)"
    and run: "append_attempt T rs snapshot db = (db', err)"
  shows "chain_inv initial (rows db')"
    and "rows db' = rows db \<or> Some (head_hash (rows db)) \<in> al_PrevHash ` set (rows db')"
    and "\<exists>new. rows db' = rows db @ new"
proof -
  have "(chain_inv initial (rows db') \<and>
    (rows db' = rows db \<or> Some (head_hash (rows db)) \<in> al_PrevHash ` set (rows db'))) \<and> (\<exists>new. rows db' = rows db @ new)"
  proof (cases "err = None \<and> (\<exists>prev. chainHead T snapshot = Inr prev)")
    case False
    then have "rows db' = rows db" using run audit_okD(5) [OF ok]
      by (cases err) (auto simp: append_attempt_def split: sum.split_asm)
    then show ?thesis using inv by simp
  next
    case True
    then obtain prev where prev: "chainHead T snapshot = Inr prev" and err: "err = None" by blast
    have p: "prev = head_hash (rows snapshot)" using chainHead_head_hash [OF ok prev] .
    have create: "au_Create T (chain_rows prev rs) db = (db', None)" using run prev err by (simp add: append_attempt_def)
    obtain ids where ids: "length ids = length rs" "rows db' = rows db @ with_ids (chain_rows prev rs) ids"
      and dist: "distinct (prev_hashes (rows db'))" using audit_okD(4) [OF ok create] by auto
    have mem: "Some prev \<in> al_PrevHash ` set (with_ids (chain_rows prev rs) ids)" using chain_rows_head [OF rs ids(1)] .
    then have "Some prev \<notin> al_PrevHash ` set (rows db)"
      using dist unfolding ids(2) prev_hashes_append by (auto simp: set_prev_hashes [symmetric])
    then have head: "prev = head_hash (rows db)" using stale p by auto
    obtain c where c: "rows db = initial @ c" "strict [] c" using inv by (auto simp: chain_inv_def)
    then have "prev = last_hash [] c" using head chain_inv_head [OF initial] by simp
    then have "strict [] (c @ with_ids (chain_rows prev rs) ids)"
      using c(2) chain_rows_strict [OF ids(1), of prev] by (simp add: strict_append)
    then show ?thesis using c(1) ids(2) mem head by (auto simp: chain_inv_def)
  qed
  then show "chain_inv initial (rows db')"
    and "rows db' = rows db \<or> Some (head_hash (rows db)) \<in> al_PrevHash ` set (rows db')"
    and "\<exists>new. rows db' = rows db @ new" by blast+
qed

lemma audit_reach_inv:
  assumes "audit_reach T db0 state" and ok: "audit_table_ok T rows" and initial: "\<forall>r \<in> set (rows db0). al_Hash r = []"
  shows "chain_inv (rows db0) (rows (fst state)) \<and>
    (\<forall>w snapshot. snd state w = Some snapshot \<longrightarrow>
       head_hash (rows snapshot) = head_hash (rows (fst state)) \<or>
       Some (head_hash (rows snapshot)) \<in> al_PrevHash ` set (rows (fst state)))"
  using assms(1)
proof induction
  case start
  then show ?case by (simp add: chain_inv_def)
next
  case (begin_tx db p w)
  then show ?case by simp
next
  case (finish_tx db p w snapshot rs db' err)
  let ?stale = "\<lambda>rows' snap. head_hash (rows snap) = head_hash rows' \<or> Some (head_hash (rows snap)) \<in> al_PrevHash ` set rows'"
  have inv: "chain_inv (rows db0) (rows db)" and pending: "\<And>w snap. p w = Some snap \<Longrightarrow> ?stale (rows db) snap"
    using finish_tx.IH by simp_all
  note keep = append_keeps_chain [OF ok initial inv finish_tx.hyps(3) pending [OF finish_tx.hyps(2)] finish_tx.hyps(4)]
  have "?stale (rows db') snap" if "p v = Some snap" for v snap
    using pending [OF that] keep(2,3) by auto
  then show ?case using keep(1) by simp
qed

subsection \<open>Properties\<close>

text \<open>
  C6: The head fixes the history. If two tables both pass \<open>VerifyChain\<close> and report the same head
  hash, then their chained rows have the same audited content, row by row and in the same
  order, or two different payloads that the two walks hashed form a collision of SHA-256. So no
  row can be changed, dropped, inserted or moved below a known head.
\<close>

theorem head_fixes_history:
  assumes "audit_table_ok T rows"
    and "VerifyChain (Some T) t1 n1 db1 = (report1, None)" and "cr_OK report1"
    and "VerifyChain (Some T) t2 n2 db2 = (report2, None)" and "cr_OK report2"
    and "cr_HeadHash report1 = cr_HeadHash report2"
  shows "map audited (chained (rows db1)) = map audited (chained (rows db2)) \<or>
    (\<exists>a \<in> set (payloads [] (chained (rows db1))). \<exists>b \<in> set (payloads [] (chained (rows db2))).
       a \<noteq> b \<and> Sum256 a = Sum256 b)"
proof (rule linked_history)
  show "linked [] (chained (rows db1))" "linked [] (chained (rows db2))"
    using VerifyChain_report(1) [OF assms(1,2)] VerifyChain_report(1) [OF assms(1,4)] assms(3,5) by simp_all
  show "last_hash [] (chained (rows db1)) = last_hash [] (chained (rows db2))"
    using VerifyChain_report(2) [OF assms(1,2,3)] VerifyChain_report(2) [OF assms(1,4,5)] assms(6) by simp
qed

text \<open>
  C7: Writers never fork the chain. Start from a table in which no row is chained, and let any
  number of writers append batches in any interleaving, with stale heads, conflicts, failures
  and retries. Then the table only grows, and \<open>VerifyChain\<close> accepts it: the old rows are
  counted as the unchained prefix and every appended row as chained.
\<close>

theorem writers_never_fork:
  assumes "audit_table_ok T rows" and "\<forall>r \<in> set (rows db0). al_Hash r = []"
    and "audit_reach T db0 (db, pending)" and "VerifyChain (Some T) now n db = (report, None)"
  shows "cr_OK report \<and> (\<exists>new. rows db = rows db0 @ new \<and> cr_ChainedRows report = int (length new)) \<and>
    cr_UnchainedRows report = int (length (rows db0))"
proof -
  obtain c where c: "rows db = rows db0 @ c" "strict [] c"
    using audit_reach_inv [OF assms(3,1,2)] by (auto simp: chain_inv_def)
  have "chained (rows db0) = []" using assms(2) by (simp add: chained_eq_Nil)
  moreover have "chained c = c" using c(2) by (cases c) (auto simp: chained_def)
  ultimately have chain: "chained (rows db) = c" using c(1) by (simp add: chained_append)
  then have ok: "cr_OK report" using VerifyChain_report(1) [OF assms(1,4)] strict_linked [OF c(2)] by simp
  show ?thesis using VerifyChain_report(2) [OF assms(1,4) ok] chain c(1) ok by simp
qed

subsection \<open>A table held in a list\<close>

definition next_ids :: "nat \<Rightarrow> nat \<Rightarrow> uint list" where
  "next_ids n k = map (\<lambda>i. of_nat (Suc (n + i))) [0..<k]"

definition numbered :: "AuditLog list \<Rightarrow> AuditLog list" where
  "numbered db = (if length db + 1 < 2 ^ 64 then with_ids db (next_ids 0 (length db)) else [])"

definition list_audit :: "AuditLog list audit_table" where
  "list_audit =
    \<lparr>au_Last = (\<lambda>db. Inr (if numbered db = [] then None else Some (last (numbered db)))),
     au_Create = (\<lambda>pending db.
       if length (db @ pending) + 1 < 2 ^ 64 \<and> distinct (prev_hashes (db @ pending)) then (db @ pending, None)
       else (db, Some [SQLiteCode 2067, ErrMessage ''UNIQUE constraint failed: audit_logs.prev_hash''])),
     au_Scan = (\<lambda>n db. ([numbered db], None)),
     au_First = (\<lambda>i db. case List.find (\<lambda>r. al_ID r = i) (numbered db) of None \<Rightarrow> Inl [ErrRecordNotFound] | Some r \<Rightarrow> Inr r),
     au_After = (\<lambda>c n db. Inr (take n (filter (\<lambda>r. c < al_ID r) (numbered db))))\<rparr>"

lemma length_with_ids: "length (with_ids rs ids) = min (length rs) (length ids)"
  by (simp add: with_ids_def)

lemma next_ids_nth: "i < k \<Longrightarrow> next_ids n k ! i = of_nat (Suc (n + i))"
  by (simp add: next_ids_def)

lemma length_next_ids [simp]: "length (next_ids n k) = k"
  by (simp add: next_ids_def)

lemma with_ids_nth: "i < length rs \<Longrightarrow> i < length ids \<Longrightarrow> with_ids rs ids ! i = (rs ! i)\<lparr>al_ID := ids ! i\<rparr>"
  by (simp add: with_ids_def)

lemma of_nat_less_word: "i < j \<Longrightarrow> j < 2 ^ 64 \<Longrightarrow> (of_nat i :: uint) < of_nat j"
  by (simp add: word_less_nat_alt unat_of_nat)

lemma numbered_sorted: "sorted_wrt (\<lambda>a b. al_ID a < al_ID b) (numbered db) \<and> (\<forall>r \<in> set (numbered db). al_ID r \<noteq> 0)"
proof (cases "length db + 1 < 2 ^ 64")
  case True
  have nth: "al_ID (numbered db ! i) = of_nat (Suc i)" if "i < length db" for i
    using that True by (simp add: numbered_def with_ids_nth next_ids_nth)
  have len: "length (numbered db) = length db" using True by (simp add: numbered_def length_with_ids)
  have "al_ID (numbered db ! i) < al_ID (numbered db ! j)" if "i < j" "j < length db" for i j
    unfolding nth [OF that(2)] nth [OF less_trans [OF that]] using that True by (intro of_nat_less_word) simp_all
  moreover have "al_ID (numbered db ! i) \<noteq> 0" if "i < length db" for i
  proof -
    have "(of_nat 0 :: uint) < of_nat (Suc i)" using that True by (intro of_nat_less_word) simp_all
    then show ?thesis unfolding nth [OF that] by simp
  qed
  ultimately show ?thesis using len by (auto simp: sorted_wrt_iff_nth_less in_set_conv_nth)
next
  case False
  then show ?thesis by (simp add: numbered_def)
qed

lemma next_ids_split: "next_ids n (k + l) = next_ids n k @ next_ids (n + k) l"
  by (rule nth_equalityI) (auto simp: nth_append next_ids_nth)

lemma with_ids_append: "length rs = length ids \<Longrightarrow> with_ids (rs @ qs) (ids @ js) = with_ids rs ids @ with_ids qs js"
  by (simp add: with_ids_def)

lemma numbered_append:
  assumes "length (db @ pending) + 1 < 2 ^ 64"
  shows "numbered (db @ pending) = numbered db @ with_ids pending (next_ids (length db) (length pending))"
  using assms next_ids_split [of 0 "length db" "length pending"]
  by (simp add: numbered_def with_ids_append)

lemma prev_hashes_with_ids: "length ids = length rs \<Longrightarrow> prev_hashes (with_ids rs ids) = prev_hashes rs"
proof (induction rs arbitrary: ids)
  case (Cons r rs)
  then show ?case by (cases ids) (simp_all add: with_ids_def prev_hashes_def)
qed (simp add: with_ids_def)

lemma list_audit_ok: "audit_table_ok list_audit numbered"
proof -
  have create: "(\<exists>ids. length ids = length pending \<and> numbered db' = numbered db @ with_ids pending ids) \<and>
    distinct (prev_hashes (numbered db'))" if "au_Create list_audit pending db = (db', None)" for pending db db'
  proof -
    have db': "db' = db @ pending" "length (db @ pending) + 1 < 2 ^ 64" "distinct (prev_hashes (db @ pending))"
      using that by (auto simp: list_audit_def split: if_splits)
    moreover have "prev_hashes (numbered db') = prev_hashes db'"
      using db' by (simp add: numbered_def prev_hashes_with_ids)
    ultimately show ?thesis using numbered_append [of db pending] length_next_ids by metis
  qed
  have first: "r \<in> set (numbered db) \<and> al_ID r = i" if "au_First list_audit i db = Inr r" for i db r
    using that by (auto simp: list_audit_def find_Some_iff split: option.split_asm)
  have rest: "last_row = (if numbered db = [] then None else Some (last (numbered db)))"
      if "au_Last list_audit db = Inr last_row" for db last_row
    using that by (auto simp: list_audit_def split: if_splits)
  show ?thesis
    unfolding audit_table_ok_def
    by (intro conjI allI impI numbered_sorted [THEN conjunct1] numbered_sorted [THEN conjunct2]
        create [THEN conjunct1] create [THEN conjunct2] first [THEN conjunct1] first [THEN conjunct2] rest)
      (auto simp: list_audit_def split: if_splits)
qed

definition sample_audit :: AuditLog where
  "sample_audit = management_row 1700000000000000000
     \<lparr>me_ActorID = 7, me_Action = ''rule_created'', me_Target = ''rules/1'', me_Success = True, me_ClientIP = ''10.0.0.1'',
      me_Detail = ''deny left-pad''\<rparr>"

definition sample_chain :: "AuditLog list" where
  "sample_chain = chain_rows [] [sample_audit, sample_audit\<lparr>al_Action := ''rule_deleted''\<rparr>]"

lemma strict_numbered: "strict p rs \<Longrightarrow> length ids = length rs \<Longrightarrow> strict p (with_ids rs ids)"
proof (induction rs arbitrary: p ids)
  case (Cons r rs)
  then show ?case by (cases ids) (auto simp: with_ids_def)
qed (simp add: with_ids_def)

lemma length_sample_chain: "length sample_chain = 2"
  unfolding sample_chain_def by (simp only: length_chain_rows) simp

lemma sample_strict: "length ids = 2 \<Longrightarrow> strict [] (with_ids sample_chain ids)"
  using length_sample_chain by (intro strict_numbered) (simp_all add: sample_chain_def Let_def)

lemma last_hash_with_ids: "length ids = length rs \<Longrightarrow> last_hash p (with_ids rs ids) = last_hash p rs"
proof (induction rs arbitrary: p ids)
  case (Cons r rs)
  then show ?case by (cases ids) (auto simp: with_ids_def)
qed (simp add: with_ids_def)

lemma sample_chained:
  "chained (numbered sample_chain) = with_ids sample_chain (next_ids 0 2)"
  "chained (numbered (sample_audit # sample_chain)) = with_ids sample_chain (next_ids 1 2)"
proof -
  have c: "chained (with_ids sample_chain ids) = with_ids sample_chain ids" if "length ids = 2" for ids
    using sample_strict [OF that] by (cases "with_ids sample_chain ids") (auto simp: chained_def)
  show "chained (numbered sample_chain) = with_ids sample_chain (next_ids 0 2)"
    using length_sample_chain by (simp add: numbered_def c)
  have "chained (numbered [sample_audit]) = []"
    by (simp add: chained_def numbered_def with_ids_def next_ids_def sample_audit_def management_row_def)
  moreover have "numbered ([sample_audit] @ sample_chain) = numbered [sample_audit] @ with_ids sample_chain (next_ids 1 2)"
    using numbered_append [of "[sample_audit]" sample_chain] length_sample_chain by simp
  ultimately show "chained (numbered (sample_audit # sample_chain)) = with_ids sample_chain (next_ids 1 2)"
    by (simp add: chained_append c)
qed

lemma list_verify: "VerifyChain (Some list_audit) t n db = (fst (VerifyChain (Some list_audit) t n db), None)"
  by (simp add: VerifyChain_def list_audit_def case_prod_beta)

lemma list_verifies: "strict [] (chained (numbered db)) \<Longrightarrow> cr_OK (fst (VerifyChain (Some list_audit) t n db))"
  using VerifyChain_report(1) [OF list_audit_ok list_verify] strict_linked by blast

theorem head_fixes_history_witness:
  "map audited (chained (numbered sample_chain)) = map audited (chained (numbered (sample_audit # sample_chain))) \<or>
    (\<exists>a \<in> set (payloads [] (chained (numbered sample_chain))).
     \<exists>b \<in> set (payloads [] (chained (numbered (sample_audit # sample_chain)))). a \<noteq> b \<and> Sum256 a = Sum256 b)"
proof -
  let ?v = "\<lambda>db. VerifyChain (Some list_audit) 0 10 db"
  let ?more = "sample_audit # sample_chain"
  have ok: "cr_OK (fst (?v sample_chain))" "cr_OK (fst (?v ?more))"
    by (rule list_verifies, simp only: sample_chained, rule sample_strict, simp)+
  have "cr_HeadHash (fst (?v sample_chain)) = cr_HeadHash (fst (?v ?more))"
    using VerifyChain_report(2) [OF list_audit_ok list_verify ok(1)] VerifyChain_report(2) [OF list_audit_ok list_verify ok(2)]
    by (simp add: sample_chained last_hash_with_ids length_sample_chain)
  then show ?thesis by (rule head_fixes_history [OF list_audit_ok list_verify ok(1) list_verify ok(2)])
qed

theorem writers_never_fork_witness:
  "\<exists>db pending. audit_reach list_audit [] (db, pending) \<and> length db = 1 \<and>
     cr_OK (fst (VerifyChain (Some list_audit) 0 10 db)) \<and> cr_ChainedRows (fst (VerifyChain (Some list_audit) 0 10 db)) = 1"
proof -
  let ?snap = "[] :: AuditLog list"
  let ?p = "(\<lambda>_. None)(1 \<mapsto> ?snap, 2 \<mapsto> ?snap) :: nat \<Rightarrow> AuditLog list option"
  let ?db = "chain_rows [] [sample_audit]"
  have "audit_reach list_audit [] (?snap, ?p)" by (intro audit_reach.begin_tx audit_reach.start)
  moreover have "append_attempt list_audit [sample_audit] ?snap ?snap = (?db, None)"
    by (simp add: append_attempt_def chainHead_def list_audit_def numbered_def with_ids_def prev_hashes_def Let_def)
  ultimately have 1: "audit_reach list_audit [] (?db, ?p(1 := None))"
    by (intro audit_reach.finish_tx [of _ _ ?snap ?p 1 ?snap "[sample_audit]" ?db None]) simp_all
  have "append_attempt list_audit [sample_audit] ?snap ?db =
      (?db, Some [SQLiteCode 2067, ErrMessage ''UNIQUE constraint failed: audit_logs.prev_hash''])"
    by (simp add: append_attempt_def chainHead_def list_audit_def numbered_def with_ids_def prev_hashes_def Let_def)
  with 1 have 2: "audit_reach list_audit [] (?db, ?p(1 := None, 2 := None))"
    by (intro audit_reach.finish_tx [of _ _ ?db "?p(1 := None)" 2 ?snap "[sample_audit]" ?db]) simp_all
  let ?v = "VerifyChain (Some list_audit) 0 10 ?db"
  have "cr_OK (fst ?v) \<and> (\<exists>new. numbered ?db = numbered ?snap @ new \<and> cr_ChainedRows (fst ?v) = int (length new)) \<and>
    cr_UnchainedRows (fst ?v) = int (length (numbered ?snap))"
    by (rule writers_never_fork [OF list_audit_ok _ 2 list_verify]) (simp add: numbered_def with_ids_def)
  moreover have "length (numbered ?db) = 1" "numbered ?snap = []" by (simp_all add: numbered_def length_with_ids with_ids_def)
  ultimately show ?thesis using 2 by (intro exI [of _ ?db] exI) (auto simp: Let_def)
qed

end
