(* ===== verification/Audit_Anchor.thy ===== *)
theory Audit_Anchor
  imports Audit_Chain
begin

text \<open>
  Checkpoints of the audit chain, \<open>internal/audit/anchor.go\<close>: the two sinks with their
  deduplication and retry delay, the checkpoint file and its reader, and the cross-check of the
  stored checkpoints with the table. The file is the string of its bytes; the outcomes of the
  file system and of the HTTP client are in \<open>file_calls\<close> and \<open>remote_calls\<close>, and \<open>json.Unmarshal\<close>
  of a line is the parameter \<open>decode\<close>. The zero \<open>time.Time\<close> is \<open>None\<close>.
\<close>

definition AnchorFormat :: string where
  "AnchorFormat = ''depsilo/audit-anchor/v1''"

definition anchorRetryDelay :: int where
  "anchorRetryDelay = 60 * 1000000000"

record ChainCheckpoint =
  cp_Format :: string
  cp_CheckedAt :: time
  cp_HeadID :: uint
  cp_HeadHash :: string

definition ChainHead :: "'db audit_table \<Rightarrow> 'db \<Rightarrow> gerror + (uint \<times> string)" where
  "ChainHead T db = bind_err (au_Last T db) (\<lambda>head.
     case head of None \<Rightarrow> Inr (0, []) | Some row \<Rightarrow> Inr (al_ID row, al_Hash row))"

subsection \<open>State\<close>

record anchorSink =
  as_configured :: bool
  as_seeded :: bool
  as_lastID :: uint
  as_lastHash :: string
  as_lastSuccessAt :: "time option"
  as_lastError :: string
  as_nextAttempt :: "time option"

record Anchor =
  an_filePath :: string
  an_remoteURL :: string
  an_token :: string
  an_interval :: int
  an_file :: anchorSink
  an_remote :: anchorSink

definition new_sink :: "bool \<Rightarrow> anchorSink" where
  "new_sink configured = \<lparr>as_configured = configured, as_seeded = False, as_lastID = 0, as_lastHash = [],
     as_lastSuccessAt = None, as_lastError = [], as_nextAttempt = None\<rparr>"

text \<open>\<open>parse\<close> is \<open>url.Parse\<close>: the scheme and the host of a URL.\<close>

definition NewAnchor ::
  "(string \<Rightarrow> (string \<times> string) option) \<Rightarrow> string \<Rightarrow> string \<Rightarrow> string \<Rightarrow> int \<Rightarrow> gerror + Anchor" where
  "NewAnchor parse filePath remoteURL0 token interval0 =
     (let interval = (if interval0 \<le> 0 then 15 * 60 * 1000000000 else interval0);
          remoteURL = TrimSpace remoteURL0;
          absolute = (case parse remoteURL of
              None \<Rightarrow> False
            | Some (scheme, host) \<Rightarrow> (scheme = ''http'' \<or> scheme = ''https'') \<and> host \<noteq> []) in
      if remoteURL \<noteq> [] \<and> \<not> absolute then Inl plain_error
      else Inr \<lparr>an_filePath = TrimSpace filePath, an_remoteURL = remoteURL, an_token = TrimSpace token,
        an_interval = interval, an_file = new_sink (TrimSpace filePath \<noteq> []), an_remote = new_sink (remoteURL \<noteq> [])\<rparr>)"

definition Enabled :: "Anchor option \<Rightarrow> bool" where
  "Enabled a \<longleftrightarrow> (case a of None \<Rightarrow> False | Some a \<Rightarrow> as_configured (an_file a) \<or> as_configured (an_remote a))"

definition CheckpointPath :: "Anchor option \<Rightarrow> string" where
  "CheckpointPath a = (case a of None \<Rightarrow> [] | Some a \<Rightarrow> an_filePath a)"

definition retryDelay :: "Anchor \<Rightarrow> int" where
  "retryDelay a = (if an_interval a < anchorRetryDelay then an_interval a else anchorRetryDelay)"

definition now_before :: "time \<Rightarrow> time option \<Rightarrow> bool" where
  "now_before now t \<longleftrightarrow> (case t of None \<Rightarrow> False | Some t \<Rightarrow> now < t)"

definition sink_failed :: "int \<Rightarrow> gerror \<Rightarrow> time \<Rightarrow> anchorSink \<Rightarrow> anchorSink" where
  "sink_failed delay err now s = s\<lparr>as_lastError := err_text err, as_nextAttempt := Some (now + delay)\<rparr>"

definition sink_accepted :: "uint \<Rightarrow> string \<Rightarrow> time \<Rightarrow> anchorSink \<Rightarrow> anchorSink" where
  "sink_accepted headID headHash now s = s\<lparr>as_lastID := headID, as_lastHash := headHash, as_lastError := [],
     as_lastSuccessAt := Some now, as_nextAttempt := None\<rparr>"

definition failFile :: "gerror \<Rightarrow> time \<Rightarrow> Anchor \<Rightarrow> Anchor" where
  "failFile err now a = a\<lparr>an_file := sink_failed (retryDelay a) err now (an_file a)\<rparr>"

definition failRemote :: "gerror \<Rightarrow> time \<Rightarrow> Anchor \<Rightarrow> Anchor" where
  "failRemote err now a = a\<lparr>an_remote := sink_failed (retryDelay a) err now (an_remote a)\<rparr>"

subsection \<open>The checkpoint file\<close>

text \<open>
  The lines of \<open>bufio.Scanner\<close>: a final line may lack its newline, a carriage return before the
  newline is dropped, and a line that does not fit the buffer of 1 MiB ends the scan with an
  error.
\<close>

definition drop_cr :: "string \<Rightarrow> string" where
  "drop_cr s = (if s \<noteq> [] \<and> byte (last s) = 13 then butlast s else s)"

definition raw_lines :: "string \<Rightarrow> string list" where
  "raw_lines content = (let parts = Split content (char_of (10 :: nat)) in if last parts = [] then butlast parts else parts)"

fun scan_loop :: "(string \<Rightarrow> ChainCheckpoint option) \<Rightarrow> string list \<Rightarrow> ChainCheckpoint list \<times> int \<times> gerror option" where
  "scan_loop decode [] = ([], 0, None)"
| "scan_loop decode (raw # rest) =
     (if 2 ^ 20 \<le> length raw then ([], 0, Some plain_error)
      else (let line = TrimSpace (drop_cr raw); (cps, invalid, err) = scan_loop decode rest in
        if line = [] then (cps, invalid, err)
        else (case decode line of
            None \<Rightarrow> (cps, invalid + 1, err)
          | Some c \<Rightarrow>
              if cp_Format c \<noteq> AnchorFormat \<or> cp_HeadHash c = [] then (cps, invalid + 1, err)
              else (c # cps, invalid, err))))"

text \<open>\<open>opened\<close> is the outcome of \<open>os.Open\<close>: the bytes of the file, nothing when it does not exist, or an error.\<close>

definition LoadCheckpoints ::
  "(string \<Rightarrow> ChainCheckpoint option) \<Rightarrow> string \<Rightarrow> gerror + string option \<Rightarrow> ChainCheckpoint list \<times> int \<times> gerror option" where
  "LoadCheckpoints decode path opened =
     (if TrimSpace path = [] then ([], 0, None)
      else (case opened of
          Inl e \<Rightarrow> ([], 0, Some e)
        | Inr None \<Rightarrow> ([], 0, None)
        | Inr (Some content) \<Rightarrow>
            (case scan_loop decode (raw_lines content) of
               (cps, invalid, None) \<Rightarrow> (cps, invalid, None)
             | (cps, invalid, Some e) \<Rightarrow> ([], invalid, Some e))))"

definition lastCheckpoint ::
  "(string \<Rightarrow> ChainCheckpoint option) \<Rightarrow> string \<Rightarrow> gerror + string option \<Rightarrow> ChainCheckpoint option" where
  "lastCheckpoint decode path opened =
     (case LoadCheckpoints decode path opened of
        (cps, _, err) \<Rightarrow> if err \<noteq> None \<or> cps = [] then None else Some (last cps))"

subsection \<open>Writing a checkpoint\<close>

record file_calls =
  fc_opened :: "gerror option"     \<comment> \<open>os.Open for reading fails\<close>
  fc_dir :: string                 \<comment> \<open>filepath.Dir of the path\<close>
  fc_mkdir :: "gerror option"
  fc_open :: "gerror option"       \<comment> \<open>OpenFile for appending\<close>
  fc_write :: "(nat \<times> gerror) option" \<comment> \<open>a failed Write and the bytes it wrote\<close>
  fc_sync :: "gerror option"
  fc_close :: "gerror option"

record remote_calls =
  rc_request :: "gerror option"
  rc_response :: "gerror + int"    \<comment> \<open>the status of the answer\<close>

type_synonym disk_file = "string option"

definition opened_file :: "file_calls \<Rightarrow> disk_file \<Rightarrow> gerror + string option" where
  "opened_file calls content = (case fc_opened calls of Some e \<Rightarrow> Inl e | None \<Rightarrow> Inr content)"

definition content_of :: "disk_file \<Rightarrow> string" where
  "content_of f = (case f of None \<Rightarrow> [] | Some s \<Rightarrow> s)"

text \<open>The calls that append a line: the file they leave and the first error.\<close>

definition append_line :: "file_calls \<Rightarrow> string \<Rightarrow> disk_file \<Rightarrow> disk_file \<times> gerror option" where
  "append_line calls line f =
     (case (if fc_dir calls \<noteq> [] \<and> fc_dir calls \<noteq> ''.'' then fc_mkdir calls else None) of
        Some e \<Rightarrow> (f, Some e)
      | None \<Rightarrow>
          (case fc_open calls of
             Some e \<Rightarrow> (f, Some e)
           | None \<Rightarrow>
               (case fc_write calls of
                  Some (k, e) \<Rightarrow> (Some (content_of f @ take k line), Some e)
                | None \<Rightarrow>
                    (Some (content_of f @ line), if fc_sync calls \<noteq> None then fc_sync calls else fc_close calls))))"

definition seed_file :: "(string \<Rightarrow> ChainCheckpoint option) \<Rightarrow> file_calls \<Rightarrow> disk_file \<Rightarrow> Anchor \<Rightarrow> Anchor" where
  "seed_file decode calls f a =
     (if as_seeded (an_file a) then a
      else (case lastCheckpoint decode (an_filePath a) (opened_file calls f) of
          None \<Rightarrow> a\<lparr>an_file := (an_file a)\<lparr>as_seeded := True\<rparr>\<rparr>
        | Some c \<Rightarrow> a\<lparr>an_file := (an_file a)\<lparr>as_lastID := cp_HeadID c, as_lastHash := cp_HeadHash c, as_seeded := True\<rparr>\<rparr>))"

definition writeFileSink ::
  "(string \<Rightarrow> ChainCheckpoint option) \<Rightarrow> file_calls \<Rightarrow> string \<Rightarrow> uint \<Rightarrow> string \<Rightarrow> time \<Rightarrow> Anchor \<Rightarrow> disk_file \<Rightarrow>
     Anchor \<times> disk_file \<times> (gerror + bool)" where
  "writeFileSink decode calls encoded headID headHash now a0 f =
     (let a = seed_file decode calls f a0; s = an_file a in
      if as_lastID s = headID \<and> as_lastHash s = headHash then (a, f, Inr False)
      else if now_before now (as_nextAttempt s) then (a, f, Inr False)
      else (case append_line calls (encoded @ [char_of (10 :: nat)]) f of
          (f', Some e) \<Rightarrow> (failFile e now a, f', Inl e)
        | (f', None) \<Rightarrow> (a\<lparr>an_file := sink_accepted headID headHash now s\<rparr>, f', Inr True)))"

text \<open>The third component is what was posted.\<close>

definition pushRemoteSink ::
  "remote_calls \<Rightarrow> string \<Rightarrow> uint \<Rightarrow> string \<Rightarrow> time \<Rightarrow> Anchor \<Rightarrow> Anchor \<times> string list \<times> (gerror + bool)" where
  "pushRemoteSink calls encoded headID headHash now a =
     (let s = an_remote a in
      if as_lastID s = headID \<and> as_lastHash s = headHash then (a, [], Inr False)
      else if now_before now (as_nextAttempt s) then (a, [], Inr False)
      else (case rc_request calls of
          Some e \<Rightarrow> (failRemote e now a, [], Inl e)
        | None \<Rightarrow>
            (let posted = [encoded @ [char_of (10 :: nat)]] in
             case rc_response calls of
               Inl e \<Rightarrow> (failRemote e now a, posted, Inl e)
             | Inr status \<Rightarrow>
                 if status < 200 \<or> 300 \<le> status
                 then (let e = [ErrMessage (''anchor endpoint returned HTTP '' @ FormatInt status)] in
                       (failRemote e now a, posted, Inl e))
                 else (a\<lparr>an_remote := sink_accepted headID headHash now (s\<lparr>as_seeded := True\<rparr>)\<rparr>, posted, Inr True))))"

text \<open>\<open>json.Marshal\<close> of a checkpoint; a time outside the years 0 to 9999 is an error.\<close>

definition checkpoint_text :: "ChainCheckpoint \<Rightarrow> string" where
  "checkpoint_text c = CHR ''{'' # json_members
     [(''format'', JString (cp_Format c)), (''checked_at'', JString (FormatRFC3339Nano (cp_CheckedAt c))),
      (''head_id'', JInt (int (unat (cp_HeadID c)))), (''head_hash'', JString (cp_HeadHash c))]"

definition marshal_checkpoint :: "ChainCheckpoint \<Rightarrow> gerror + string" where
  "marshal_checkpoint c =
     (let (y, _, _) = civil (cp_CheckedAt c div 1000000000 div 86400) in
      if y < 0 \<or> 10000 \<le> y then Inl plain_error else Inr (checkpoint_text c))"

record anchor_env =
  ae_checked :: time              \<comment> \<open>the first reading of the clock\<close>
  ae_now :: time                  \<comment> \<open>the second\<close>
  ae_file :: file_calls
  ae_remote :: remote_calls

definition WriteCheckpoint ::
  "(string \<Rightarrow> ChainCheckpoint option) \<Rightarrow> 'db audit_table \<Rightarrow> anchor_env \<Rightarrow> 'db \<Rightarrow> Anchor option \<Rightarrow> disk_file \<Rightarrow>
     Anchor option \<times> disk_file \<times> string list \<times> bool \<times> gerror list" where
  "WriteCheckpoint decode T env db a0 f =
     (case a0 of
        None \<Rightarrow> (a0, f, [], False, [])
      | Some a \<Rightarrow>
          if \<not> Enabled (Some a) then (a0, f, [], False, [])
          else (case ChainHead T db of
              Inl e \<Rightarrow> (a0, f, [], False, [e])
            | Inr (headID, headHash) \<Rightarrow>
                if headHash = [] then (a0, f, [], False, [])
                else (case marshal_checkpoint \<lparr>cp_Format = AnchorFormat, cp_CheckedAt = ae_checked env,
                        cp_HeadID = headID, cp_HeadHash = headHash\<rparr> of
                    Inl e \<Rightarrow> (a0, f, [], False, [e])
                  | Inr encoded \<Rightarrow>
                      (let (a1, f1, r1) = (if as_configured (an_file a)
                             then writeFileSink decode (ae_file env) encoded headID headHash (ae_now env) a f
                             else (a, f, Inr False));
                           (a2, posted, r2) = (if as_configured (an_remote a)
                             then pushRemoteSink (ae_remote env) encoded headID headHash (ae_now env) a1
                             else (a1, [], Inr False)) in
                       (Some a2, f1, posted, r1 = Inr True \<or> r2 = Inr True,
                        (case r1 of Inl e \<Rightarrow> [e] | Inr _ \<Rightarrow> []) @ (case r2 of Inl e \<Rightarrow> [e] | Inr _ \<Rightarrow> []))))))"

record AnchorFeedStatus =
  fs_FileConfigured :: bool
  fs_FileLastSuccessAt :: "time option"
  fs_FileLastError :: string
  fs_RemoteConfigured :: bool
  fs_RemoteLastSuccessAt :: "time option"
  fs_RemoteHeadID :: uint
  fs_RemoteLastError :: string

definition FeedStatus :: "Anchor option \<Rightarrow> AnchorFeedStatus" where
  "FeedStatus a =
     (case a of
        None \<Rightarrow> \<lparr>fs_FileConfigured = False, fs_FileLastSuccessAt = None, fs_FileLastError = [],
          fs_RemoteConfigured = False, fs_RemoteLastSuccessAt = None, fs_RemoteHeadID = 0, fs_RemoteLastError = []\<rparr>
      | Some a \<Rightarrow> \<lparr>fs_FileConfigured = as_configured (an_file a), fs_FileLastSuccessAt = as_lastSuccessAt (an_file a),
          fs_FileLastError = as_lastError (an_file a), fs_RemoteConfigured = as_configured (an_remote a),
          fs_RemoteLastSuccessAt = as_lastSuccessAt (an_remote a), fs_RemoteHeadID = as_lastID (an_remote a),
          fs_RemoteLastError = as_lastError (an_remote a)\<rparr>)"

subsection \<open>The cross-check\<close>

record AnchorReport =
  ar_Configured :: bool
  ar_Path :: string
  ar_Checkpoints :: int
  ar_InvalidLines :: int
  ar_LatestCheckedAt :: "time option"
  ar_LatestHeadID :: uint
  ar_LatestHeadHash :: string
  ar_OK :: bool
  ar_BrokenAtID :: uint
  ar_Reason :: string

fun anchor_loop :: "'db audit_table \<Rightarrow> 'db \<Rightarrow> ChainCheckpoint list \<Rightarrow> AnchorReport \<Rightarrow> AnchorReport \<times> gerror option" where
  "anchor_loop T db [] report = (report, None)"
| "anchor_loop T db (c # cps) report =
     (let i = FormatUint (unat (cp_HeadID c)) in
      case au_First T (cp_HeadID c) db of
        Inl e \<Rightarrow>
          if errors_Is e ErrRecordNotFound
          then (report\<lparr>ar_OK := False, ar_BrokenAtID := cp_HeadID c,
                  ar_Reason := ''checkpointed row '' @ i @ '' is missing''\<rparr>, None)
          else (report, Some e)
      | Inr row \<Rightarrow>
          if al_Hash row \<noteq> cp_HeadHash c
          then (report\<lparr>ar_OK := False, ar_BrokenAtID := cp_HeadID c,
                  ar_Reason := ''row '' @ i @ '' no longer matches its checkpoint''\<rparr>, None)
          else anchor_loop T db cps report)"

definition VerifyAnchors ::
  "(string \<Rightarrow> ChainCheckpoint option) \<Rightarrow> 'db audit_table \<Rightarrow> 'db \<Rightarrow> string \<Rightarrow> gerror + string option \<Rightarrow>
     AnchorReport \<times> gerror option" where
  "VerifyAnchors decode T db path opened =
     (let report = \<lparr>ar_Configured = (TrimSpace path \<noteq> []), ar_Path = path, ar_Checkpoints = 0, ar_InvalidLines = 0,
            ar_LatestCheckedAt = None, ar_LatestHeadID = 0, ar_LatestHeadHash = [], ar_OK = True,
            ar_BrokenAtID = 0, ar_Reason = []\<rparr> in
      if \<not> ar_Configured report then (report, None)
      else (case LoadCheckpoints decode path opened of
          (_, _, Some e) \<Rightarrow> (report, Some e)
        | (cps, invalid, None) \<Rightarrow>
            (let report' = report\<lparr>ar_Checkpoints := int (length cps), ar_InvalidLines := invalid\<rparr> in
             if cps = [] then (report', None)
             else anchor_loop T db cps (report'\<lparr>ar_LatestCheckedAt := Some (cp_CheckedAt (last cps)),
               ar_LatestHeadID := cp_HeadID (last cps), ar_LatestHeadHash := cp_HeadHash (last cps)\<rparr>))))"

subsection \<open>Properties\<close>

lemma anchor_loop_ok:
  "anchor_loop T db cps report = (r, None) \<Longrightarrow> ar_OK r \<Longrightarrow> c \<in> set cps \<Longrightarrow>
    \<exists>row. au_First T (cp_HeadID c) db = Inr row \<and> al_Hash row = cp_HeadHash c"
  by (induction cps arbitrary: report) (auto simp: Let_def split: sum.split_asm if_splits)

lemma VerifyAnchors_ok:
  assumes "VerifyAnchors decode T db path opened = (r, None)" and "ar_OK r"
    and "c \<in> set (fst (LoadCheckpoints decode path opened))"
  shows "\<exists>row. au_First T (cp_HeadID c) db = Inr row \<and> al_Hash row = cp_HeadHash c"
proof -
  obtain cps invalid err where load: "LoadCheckpoints decode path opened = (cps, invalid, err)"
    by (cases "LoadCheckpoints decode path opened")
  have "TrimSpace path \<noteq> []" using assms(3) by (auto simp: LoadCheckpoints_def)
  then have "err = None" "\<exists>report. anchor_loop T db cps report = (r, None)"
    using assms load by (auto simp: VerifyAnchors_def Let_def split: option.split_asm if_splits)
  then show ?thesis using anchor_loop_ok [OF _ assms(2)] assms(3) load by auto
qed

lemma chained_member: "r \<in> set rows \<Longrightarrow> al_Hash r \<noteq> [] \<Longrightarrow> r \<in> set (chained rows)"
  by (induction rows) (auto simp: chained_def)

lemma ChainHead_last:
  assumes "audit_table_ok T rows" and "ChainHead T db = Inr (i, h)" and "h \<noteq> []"
  shows "last_hash [] (chained (rows db)) = h"
proof -
  obtain l where l: "au_Last T db = Inr l" using assms(2) by (cases "au_Last T db") (simp_all add: ChainHead_def)
  then have last: "rows db \<noteq> []" "al_Hash (last (rows db)) = h"
    using audit_okD(3) [OF assms(1) l] assms(2,3) by (auto simp: ChainHead_def split: if_splits)
  then have "last (rows db) \<in> set (chained (rows db))" using assms(3) by (intro chained_member) simp_all
  then have ne: "chained (rows db) \<noteq> []" by auto
  then have "last (chained (rows db)) = last (rows db)"
    by (metis append_Nil2 chained_def last_appendR takeWhile_dropWhile_id)
  then show ?thesis using ne last by (simp add: last_hash_def)
qed

text \<open>
  C11: A checkpoint pins the history. Let \<open>db0\<close> be a table that verified when its head was
  checkpointed, and let the checkpoint be among those the file still holds. If a later table
  passes both \<open>VerifyChain\<close> and \<open>VerifyAnchors\<close>, then everything that was chained at the time of
  the checkpoint is still there, unchanged and at the beginning of the chain, or the two walks
  hashed an explicit SHA-256 collision. So truncating or rewriting the whole chain is detected.
\<close>

theorem checkpoint_pins_history:
  assumes "audit_table_ok T rows"
    and "VerifyChain (Some T) t0 n0 db0 = (report0, None)" and "cr_OK report0"
    and "ChainHead T db0 = Inr (cp_HeadID c, cp_HeadHash c)" and "cp_HeadHash c \<noteq> []"
    and "c \<in> set (fst (LoadCheckpoints decode path opened))"
    and "VerifyChain (Some T) t n db = (report, None)" and "cr_OK report"
    and "VerifyAnchors decode T db path opened = (anchors, None)" and "ar_OK anchors"
  shows "map audited (chained (rows db0)) = map audited (take (length (chained (rows db0))) (chained (rows db))) \<or>
    (\<exists>a \<in> set (payloads [] (chained (rows db0))). \<exists>b \<in> set (payloads [] (chained (rows db))). a \<noteq> b \<and> Sum256 a = Sum256 b)"
proof -
  have l0: "linked [] (chained (rows db0))" and l: "linked [] (chained (rows db))"
    using VerifyChain_report(1) [OF assms(1,2)] VerifyChain_report(1) [OF assms(1,7)] assms(3,8) by simp_all
  obtain row where first: "au_First T (cp_HeadID c) db = Inr row" and hash: "al_Hash row = cp_HeadHash c"
    using VerifyAnchors_ok [OF assms(9,10,6)] by blast
  have "row \<in> set (rows db)" using audit_okD(7) [OF assms(1) first] by simp
  then have "row \<in> set (chained (rows db))" using hash assms(5) by (intro chained_member) simp_all
  then obtain xs ys where split: "chained (rows db) = (xs @ [row]) @ ys" by (metis append_Cons append_Nil append_assoc split_list)
  have "linked [] (xs @ [row])" using l unfolding split linked_append by blast
  moreover have "last_hash [] (chained (rows db0)) = last_hash [] (xs @ [row])"
    using ChainHead_last [OF assms(1,4,5)] hash by simp
  ultimately have h: "map audited (chained (rows db0)) = map audited (xs @ [row]) \<or>
    (\<exists>a \<in> set (payloads [] (chained (rows db0))). \<exists>b \<in> set (payloads [] (xs @ [row])). a \<noteq> b \<and> Sum256 a = Sum256 b)"
    using linked_history [OF l0] by blast
  have sub: "set (payloads [] (xs @ [row])) \<subseteq> set (payloads [] (chained (rows db)))"
    unfolding split payloads_append by auto
  show ?thesis
  proof (cases "map audited (chained (rows db0)) = map audited (xs @ [row])")
    case True
    then have "length (chained (rows db0)) = length (xs @ [row])" by (metis length_map)
    then show ?thesis using True split by simp
  next
    case False
    then show ?thesis using h sub by blast
  qed
qed

subsection \<open>The file and its reader\<close>

definition graphic :: "string \<Rightarrow> bool" where
  "graphic s \<longleftrightarrow> list_all (\<lambda>c. 33 \<le> byte c \<and> byte c < 127) s"

lemma graphic_append [simp]: "graphic (s @ t) \<longleftrightarrow> graphic s \<and> graphic t" "graphic []"
  by (simp_all add: graphic_def)

lemma graphic_Cons: "graphic (c # s) \<longleftrightarrow> 33 \<le> byte c \<and> byte c < 127 \<and> graphic s"
  by (simp add: graphic_def)

lemma graphic_ascii: "graphic s \<Longrightarrow> is_ascii s"
  by (auto simp: graphic_def is_ascii_def list_all_iff)

lemma hex_digit_graphic: "n < 16 \<Longrightarrow> 33 \<le> byte (hex_digit n) \<and> byte (hex_digit n) < 127"
proof -
  have "list_all (\<lambda>n. 33 \<le> byte (hex_digit n) \<and> byte (hex_digit n) < 127) [0..<16]" by code_simp
  then show "n < 16 \<Longrightarrow> ?thesis" by (simp add: list_all_iff)
qed

lemma json_byte_graphic: "33 \<le> byte c \<Longrightarrow> byte c < 127 \<Longrightarrow> graphic (json_byte c)"
proof -
  assume c: "33 \<le> byte c" "byte c < 127"
  have "graphic ''u00''" "graphic ''b''" "graphic ''f''" "graphic ''n''" "graphic ''r''" "graphic ''t''" by code_simp+
  then show ?thesis
    using c byte_nibbles [of c] by (auto simp: json_byte_def Let_def graphic_Cons hex_digit_graphic)
qed

lemma json_string_graphic: "graphic s \<Longrightarrow> graphic (json_string s)"
proof -
  assume s: "graphic s"
  have "concat (map json_segment (segments s)) = concat (map json_byte s)"
    using graphic_ascii [OF s] by (induction s) (auto simp: segments_ascii json_segment_def is_ascii_def)
  moreover have "graphic (concat (map json_byte s))"
    using s by (induction s) (auto simp: graphic_Cons json_byte_graphic)
  ultimately show ?thesis by (simp add: json_string_def graphic_Cons)
qed

lemma graphic_digits: "list_all isASCIIDigit s \<Longrightarrow> graphic s"
  by (auto simp: graphic_def list_all_iff isASCIIDigit_def)

lemma FormatInt_graphic: "graphic (FormatInt n)"
  using graphic_digits [OF FormatUint_digits] by (simp add: FormatInt_def graphic_Cons)

lemma fraction_graphic: "graphic (fraction n)"
proof -
  let ?z = "\<lambda>c. c = CHR ''0''"
  obtain ys where "pad_digits 9 (nat n) = strip_suffix_while ?z (pad_digits 9 (nat n)) @ ys"
    using strip_suffix_while_prefix [of "pad_digits 9 (nat n)" ?z] by blast
  then have "graphic (strip_suffix_while ?z (pad_digits 9 (nat n)))"
    using graphic_digits [OF pad_digits_digits [of 9 "nat n"]] by (metis graphic_append)
  then show ?thesis by (simp add: fraction_def graphic_Cons)
qed

lemma FormatRFC3339Nano_graphic: "graphic (FormatRFC3339Nano t)"
proof -
  have p: "graphic (pad_digits w n)" for w n by (rule graphic_digits [OF pad_digits_digits])
  have a: "graphic (appendInt n w)" for n w by (simp add: appendInt_def graphic_Cons p)
  have c: "33 \<le> byte CHR ''T'' \<and> byte CHR ''T'' < 127" "graphic ''Z''" by code_simp+
  show ?thesis
    unfolding FormatRFC3339Nano_def Let_def case_prod_beta
    using c by (simp add: graphic_Cons p a fraction_graphic)
qed

definition sound_checkpoint :: "ChainCheckpoint \<Rightarrow> bool" where
  "sound_checkpoint c \<longleftrightarrow> cp_Format c = AnchorFormat \<and> cp_HeadHash c \<noteq> [] \<and> graphic (cp_HeadHash c) \<and>
     length (checkpoint_text c) < 2 ^ 19"

lemma checkpoint_text_graphic: "sound_checkpoint c \<Longrightarrow> graphic (checkpoint_text c)"
proof -
  assume c: "sound_checkpoint c"
  have k: "graphic ''format''" "graphic ''checked_at''" "graphic ''head_id''" "graphic ''head_hash''" "graphic AnchorFormat"
    "graphic '',''" "graphic '':''" "graphic ''}''" "graphic ''{''" by code_simp+
  then show ?thesis
    using c FormatRFC3339Nano_graphic FormatInt_graphic
    by (simp add: checkpoint_text_def sound_checkpoint_def json_string_graphic graphic_Cons)
qed

lemma graphic_line: "graphic s \<Longrightarrow> TrimSpace (drop_cr s) = s \<and> char_of (10 :: nat) \<notin> set s"
proof -
  assume s: "graphic s"
  have "\<not> ContainsFunc s IsSpace"
    using s graphic_ascii [OF s] by (auto simp: ContainsFunc_ascii graphic_def list_all_iff list_ex_iff IsSpace_def)
  moreover have "drop_cr s = s"
  proof (cases "s = []")
    case False
    then have "33 \<le> byte (last s)" using s by (simp add: graphic_def list_all_iff)
    then show ?thesis by (simp add: drop_cr_def)
  qed (simp add: drop_cr_def)
  moreover have "char_of (10 :: nat) \<notin> set s" using s by (auto simp: graphic_def list_all_iff)
  ultimately show ?thesis by (simp add: TrimSpace_id)
qed

definition checkpoint_lines :: "string list \<Rightarrow> string" where
  "checkpoint_lines ts = concat (map (\<lambda>t. t @ [char_of (10 :: nat)]) ts)"

lemma raw_lines_lines: "list_all graphic ts \<Longrightarrow> raw_lines (checkpoint_lines ts) = ts"
proof -
  assume ts: "list_all graphic ts"
  have "Split (checkpoint_lines ts) (char_of (10 :: nat)) = ts @ [[]]"
    using ts by (induction ts) (simp_all add: checkpoint_lines_def Split_append_sep graphic_line)
  then show ?thesis by (simp add: raw_lines_def)
qed

lemma scan_loop_append:
  "scan_loop decode xs = (cps, invalid, None) \<Longrightarrow> scan_loop decode ys = (cps', invalid', None) \<Longrightarrow>
    scan_loop decode (xs @ ys) = (cps @ cps', invalid + invalid', None)"
proof (induction xs arbitrary: cps invalid)
  case (Cons x xs)
  obtain c i e where r: "scan_loop decode xs = (c, i, e)" by (cases "scan_loop decode xs")
  have e: "e = None" using Cons.prems(1) r by (auto simp: Let_def split: if_splits option.splits)
  have s: "scan_loop decode (xs @ ys) = (c @ cps', i + invalid', None)" using Cons.IH Cons.prems(2) r e by simp
  show ?case using Cons.prems(1) r s by (auto simp: Let_def split: if_splits option.splits)
qed simp

lemma scan_sound:
  "list_all sound_checkpoint cs \<Longrightarrow> \<forall>c \<in> set cs. decode (checkpoint_text c) = Some c \<Longrightarrow>
    scan_loop decode (map checkpoint_text cs) = (cs, 0, None)"
proof (induction cs)
  case (Cons c cs)
  have "TrimSpace (drop_cr (checkpoint_text c)) = checkpoint_text c"
    using Cons.prems(1) graphic_line [OF checkpoint_text_graphic] by simp
  moreover have "checkpoint_text c \<noteq> []" by (simp add: checkpoint_text_def)
  ultimately show ?case using Cons by (simp add: sound_checkpoint_def)
qed simp

lemma load_lines:
  assumes "TrimSpace path \<noteq> []" and "list_all graphic ts" and "scan_loop decode ts = (cps, invalid, None)"
  shows "LoadCheckpoints decode path (Inr (Some (checkpoint_lines ts))) = (cps, invalid, None)"
  using assms by (simp add: LoadCheckpoints_def raw_lines_lines)

lemma scan_torn:
  assumes "graphic (torn @ t)" and "torn \<noteq> []" and "length (torn @ t) < 2 ^ 20" and "decode (torn @ t) = None"
  shows "scan_loop decode [torn @ t] = ([], 1, None)"
  using assms graphic_line [OF assms(1)] by simp

lemma append_line_ok:
  "fc_mkdir calls = None \<Longrightarrow> fc_open calls = None \<Longrightarrow> fc_write calls = None \<Longrightarrow> fc_sync calls = None \<Longrightarrow> fc_close calls = None \<Longrightarrow>
    append_line calls line f = (Some (content_of f @ line), None)"
  by (simp add: append_line_def)

lemma append_line_torn:
  "fc_mkdir calls = None \<Longrightarrow> fc_open calls = None \<Longrightarrow> fc_write calls = Some (k, e) \<Longrightarrow>
    append_line calls line f = (Some (content_of f @ take k line), Some e)"
  by (simp add: append_line_def)

text \<open>
  A torn write hides the next checkpoint. Suppose that the file holds the checkpoints \<open>cs\<close> and
  that writing a further line fails after some of its bytes, as on a full disk. When a later
  call then delivers a checkpoint and reports success, its line continues the torn one, so the
  reader finds one invalid line and still only \<open>cs\<close>: a checkpoint that was accepted is lost.
\<close>

theorem torn_write_hides_checkpoint:
  assumes "TrimSpace path \<noteq> []" and "list_all sound_checkpoint cs" and "sound_checkpoint c" and "sound_checkpoint d"
    and "\<forall>c \<in> set cs. decode (checkpoint_text c) = Some c"
    and "0 < k" and "k \<le> length (checkpoint_text c)"
    and "decode (take k (checkpoint_text c) @ checkpoint_text d) = None"
    and "as_seeded (an_file a)" and "as_nextAttempt (an_file a) = None"
    and "(as_lastID (an_file a), as_lastHash (an_file a)) \<notin> {(cp_HeadID c, cp_HeadHash c), (cp_HeadID d, cp_HeadHash d)}"
    and "fc_mkdir bad = None" and "fc_open bad = None" and "fc_write bad = Some (k, e)"
    and "fc_mkdir good = None" and "fc_open good = None" and "fc_write good = None" and "fc_sync good = None" and "fc_close good = None"
    and "t1 + retryDelay a \<le> t2"
    and "writeFileSink decode bad (checkpoint_text c) (cp_HeadID c) (cp_HeadHash c) t1 a
        (Some (checkpoint_lines (map checkpoint_text cs))) = (a1, f1, r1)"
    and "writeFileSink decode good (checkpoint_text d) (cp_HeadID d) (cp_HeadHash d) t2 a1 f1 = (a2, f2, r2)"
  shows "r1 = Inl e \<and> r2 = Inr True \<and> LoadCheckpoints decode path (Inr f2) = (cs, 1, None)"
proof -
  let ?nl = "[char_of (10 :: nat)]"
  let ?file = "checkpoint_lines (map checkpoint_text cs)"
  let ?torn = "take k (checkpoint_text c)"
  have "take k (checkpoint_text c @ ?nl) = ?torn" using assms(7) by simp
  then have 1: "a1 = failFile e t1 a" "f1 = Some (?file @ ?torn)" "r1 = Inl e"
    using assms(21) assms(9-11) append_line_torn [OF assms(12-14), of "checkpoint_text c @ ?nl" "Some ?file"]
    by (auto simp: writeFileSink_def seed_file_def now_before_def content_of_def)
  have seeded: "as_seeded (an_file a1)" "as_lastID (an_file a1) = as_lastID (an_file a)"
    "as_lastHash (an_file a1) = as_lastHash (an_file a)" "as_nextAttempt (an_file a1) = Some (t1 + retryDelay a)"
    using assms(9) by (simp_all add: 1(1) failFile_def sink_failed_def)
  have 2: "f2 = Some (?file @ ?torn @ checkpoint_text d @ ?nl)" "r2 = Inr True"
    using assms(22) seeded assms(11,20) append_line_ok [OF assms(15-19), of "checkpoint_text d @ ?nl" f1] 1(2)
    by (auto simp: writeFileSink_def seed_file_def now_before_def content_of_def)
  let ?ts = "map checkpoint_text cs @ [?torn @ checkpoint_text d]"
  have g: "graphic (?torn @ checkpoint_text d)"
    using checkpoint_text_graphic [OF assms(3)] checkpoint_text_graphic [OF assms(4)]
    by (metis append_take_drop_id graphic_append(1))
  have "length (?torn @ checkpoint_text d) < 2 ^ 20"
    using assms(3,4) by (simp add: sound_checkpoint_def min_def)
  moreover have "?torn \<noteq> []" using assms(6) by (simp add: checkpoint_text_def)
  ultimately have "scan_loop decode ?ts = (cs @ [], 0 + 1, None)"
    by (intro scan_loop_append scan_sound [OF assms(2,5)] scan_torn [OF g]) (simp_all add: assms(8))
  moreover have "f2 = Some (checkpoint_lines ?ts)" using 2(1) by (simp add: checkpoint_lines_def)
  moreover have "list_all graphic ?ts" using assms(2) g checkpoint_text_graphic by (auto simp: list_all_iff)
  ultimately show ?thesis using load_lines [OF assms(1)] 1(3) 2(2) by simp
qed

definition sample_checkpoint :: "string \<Rightarrow> ChainCheckpoint" where
  "sample_checkpoint h = \<lparr>cp_Format = AnchorFormat, cp_CheckedAt = 0, cp_HeadID = 2, cp_HeadHash = h\<rparr>"

definition sample_decode :: "ChainCheckpoint \<Rightarrow> string \<Rightarrow> ChainCheckpoint option" where
  "sample_decode c line = (if line = checkpoint_text c then Some c else None)"

definition sample_calls :: file_calls where
  "sample_calls = \<lparr>fc_opened = None, fc_dir = ''.'', fc_mkdir = None, fc_open = None, fc_write = None, fc_sync = None, fc_close = None\<rparr>"

definition sample_anchor :: Anchor where
  "sample_anchor = \<lparr>an_filePath = ''a'', an_remoteURL = [], an_token = [], an_interval = 30 * 1000000000,
     an_file = (new_sink True)\<lparr>as_seeded := True\<rparr>, an_remote = new_sink False\<rparr>"

lemma json_segments_short: "is_ascii s \<Longrightarrow> length (json_string s) \<le> 6 * length s + 2"
proof -
  assume s: "is_ascii s"
  have b: "length (json_byte c) \<le> 6" for c by (simp add: json_byte_def Let_def)
  have "length (concat (map json_byte s)) \<le> 6 * length s" for s
  proof (induction s)
    case (Cons c s)
    then show ?case using b [of c] by simp
  qed simp
  moreover have "concat (map json_segment (segments s)) = concat (map json_byte s)"
    using s by (induction s) (auto simp: segments_ascii json_segment_def is_ascii_def)
  ultimately show ?thesis by (simp add: json_string_def)
qed

lemma sample_checkpoint_sound: "graphic h \<Longrightarrow> h \<noteq> [] \<Longrightarrow> length h \<le> 64 \<Longrightarrow> sound_checkpoint (sample_checkpoint h)"
proof -
  assume h: "graphic h" "h \<noteq> []" "length h \<le> 64"
  have "length (json_string h) \<le> 386" using json_segments_short [OF graphic_ascii [OF h(1)]] h(3) by linarith
  moreover have "length (json_string ''format'') = 8" "length (json_string ''checked_at'') = 12"
    "length (json_string ''head_id'') = 9" "length (json_string ''head_hash'') = 11" "length (json_string AnchorFormat) = 25"
    "length (json_string (FormatRFC3339Nano 0)) = 22" "length (FormatInt 2) = 1" by code_simp+
  ultimately have "length (checkpoint_text (sample_checkpoint h)) < 2 ^ 19"
    by (simp add: checkpoint_text_def sample_checkpoint_def)
  then show ?thesis using h by (simp add: sound_checkpoint_def sample_checkpoint_def)
qed

theorem torn_write_hides_checkpoint_witness:
  "\<exists>a1 f1 a2 f2. writeFileSink (sample_decode (sample_checkpoint ''bb'')) (sample_calls\<lparr>fc_write := Some (5, plain_error)\<rparr>)
       (checkpoint_text (sample_checkpoint ''aa'')) 2 ''aa'' 0 sample_anchor (Some []) = (a1, f1, Inl plain_error) \<and>
     writeFileSink (sample_decode (sample_checkpoint ''bb'')) sample_calls
       (checkpoint_text (sample_checkpoint ''bb'')) 2 ''bb'' 60000000000 a1 f1 = (a2, f2, Inr True) \<and>
     LoadCheckpoints (sample_decode (sample_checkpoint ''bb'')) ''a'' (Inr f2) = ([], 1, None)"
proof -
  let ?dec = "sample_decode (sample_checkpoint ''bb'')" and ?c = "sample_checkpoint ''aa''" and ?d = "sample_checkpoint ''bb''"
  let ?bad = "sample_calls\<lparr>fc_write := Some (5, plain_error)\<rparr>"
  have sound: "sound_checkpoint ?c" "sound_checkpoint ?d" by (rule sample_checkpoint_sound; code_simp)+
  have k: "5 \<le> length (checkpoint_text ?c)" by code_simp
  have "length (take 5 (checkpoint_text ?c) @ checkpoint_text ?d) = 5 + length (checkpoint_text ?d)" using k by simp
  then have "take 5 (checkpoint_text ?c) @ checkpoint_text ?d \<noteq> checkpoint_text ?d" by auto
  then have dec: "?dec (take 5 (checkpoint_text ?c) @ checkpoint_text ?d) = None" by (simp add: sample_decode_def)
  have path: "TrimSpace ''a'' \<noteq> []" by code_simp
  have fields: "cp_HeadID ?c = 2" "cp_HeadHash ?c = ''aa''" "cp_HeadID ?d = 2" "cp_HeadHash ?d = ''bb''"
    by (simp_all add: sample_checkpoint_def)
  obtain a1 f1 r1 where w1: "writeFileSink ?dec ?bad (checkpoint_text ?c) 2 ''aa'' 0 sample_anchor (Some []) = (a1, f1, r1)"
    by (metis prod_cases3)
  obtain a2 f2 r2 where w2: "writeFileSink ?dec sample_calls (checkpoint_text ?d) 2 ''bb'' 60000000000 a1 f1 = (a2, f2, r2)"
    by (metis prod_cases3)
  have "r1 = Inl plain_error \<and> r2 = Inr True \<and> LoadCheckpoints ?dec ''a'' (Inr f2) = ([], 1, None)"
  proof (rule torn_write_hides_checkpoint [where decode = ?dec and c = ?c and d = ?d and k = 5 and cs = "[]", OF path _ sound _ _ k dec])
    show "writeFileSink ?dec ?bad (checkpoint_text ?c) (cp_HeadID ?c) (cp_HeadHash ?c) 0 sample_anchor
      (Some (checkpoint_lines (map checkpoint_text []))) = (a1, f1, r1)" using w1 by (simp add: fields checkpoint_lines_def)
    show "writeFileSink ?dec sample_calls (checkpoint_text ?d) (cp_HeadID ?d) (cp_HeadHash ?d) 60000000000 a1 f1 = (a2, f2, r2)"
      using w2 by (simp add: fields)
  qed (simp_all add: sample_calls_def sample_anchor_def new_sink_def retryDelay_def anchorRetryDelay_def fields)
  then show ?thesis using w1 w2 by blast
qed

lemma EncodeToString_graphic: "graphic (EncodeToString s)"
  by (induction s) (simp_all add: EncodeToString_def graphic_Cons hex_digit_graphic byte_nibbles)

theorem checkpoint_pins_history_witness:
  "map audited (chained (numbered sample_chain)) = map audited (take 2 (chained (numbered sample_chain))) \<or>
    (\<exists>a \<in> set (payloads [] (chained (numbered sample_chain))). \<exists>b \<in> set (payloads [] (chained (numbered sample_chain))).
       a \<noteq> b \<and> Sum256 a = Sum256 b)"
proof -
  let ?h = "last_hash [] sample_chain"
  let ?c = "sample_checkpoint ?h"
  let ?rows = "with_ids sample_chain (next_ids 0 2)"
  let ?open = "Inr (Some (checkpoint_lines (map checkpoint_text [?c]))) :: gerror + string option"
  have num: "numbered sample_chain = ?rows" using length_sample_chain by (simp add: numbered_def)
  have len: "length (chained (numbered sample_chain)) = 2" by (simp add: sample_chained length_with_ids length_sample_chain)
  have ne: "sample_chain \<noteq> []" using length_sample_chain by auto
  have last: "last ?rows = (last sample_chain)\<lparr>al_ID := 2\<rparr>" "?rows \<noteq> []"
    by (simp_all add: sample_chain_def with_ids_def next_ids_def Let_def upt_rec)
  have "linked [] sample_chain" by (rule strict_linked) (simp add: sample_chain_def Let_def)
  then obtain q r where "?h = ComputeAuditHash q r" using linked_last_hash ne by blast
  then have h: "graphic ?h" "?h \<noteq> []" "length ?h \<le> 64"
    using EncodeToString_graphic by (simp_all add: ComputeAuditHash_def length_Sum256) (metis hash_nonempty(1) ComputeAuditHash_def)
  have ok: "cr_OK (fst (VerifyChain (Some list_audit) 0 10 sample_chain))"
    by (rule list_verifies, simp only: sample_chained, rule sample_strict, simp)
  have head: "ChainHead list_audit sample_chain = Inr (cp_HeadID ?c, cp_HeadHash ?c)"
    using last ne by (simp add: ChainHead_def list_audit_def num sample_checkpoint_def last_hash_def)
  have path: "TrimSpace ''a'' \<noteq> []" by code_simp
  have "scan_loop (sample_decode ?c) (map checkpoint_text [?c]) = ([?c], 0, None)"
    by (rule scan_sound) (simp_all add: sample_checkpoint_sound [OF h] sample_decode_def)
  then have load: "LoadCheckpoints (sample_decode ?c) ''a'' ?open = ([?c], 0, None)"
    using checkpoint_text_graphic [OF sample_checkpoint_sound [OF h]] by (intro load_lines path) simp_all
  have "List.find (\<lambda>r. al_ID r = 2) ?rows = Some (last ?rows)"
    by (simp add: sample_chain_def with_ids_def next_ids_def Let_def upt_rec)
  then have "au_First list_audit (cp_HeadID ?c) sample_chain = Inr (last ?rows)" "al_Hash (last ?rows) = cp_HeadHash ?c"
    using last(1) ne by (simp_all add: list_audit_def num sample_checkpoint_def last_hash_def)
  then have "\<exists>r. VerifyAnchors (sample_decode ?c) list_audit sample_chain ''a'' ?open = (r, None) \<and> ar_OK r"
    using load path by (simp add: VerifyAnchors_def)
  then obtain r where r: "VerifyAnchors (sample_decode ?c) list_audit sample_chain ''a'' ?open = (r, None)" "ar_OK r" by blast
  show ?thesis
    using checkpoint_pins_history [OF list_audit_ok list_verify ok head _ _ list_verify ok r] h(2) load len
    by (simp add: sample_checkpoint_def)
qed

end
