(* ===== verification/Audit_Delivery.thy ===== *)
theory Audit_Delivery
  imports Audit_Chain Go_Time
begin

text \<open>
  How audit entries travel: the bounded queue and batching writer of \<open>internal/audit/logger.go\<close>, and
  the forwarder of \<open>internal/audit/forwarder.go\<close>, which streams the table to collectors behind a
  cursor per exporter. The updates of \<open>audit_exporters\<close> are the calls in \<open>exporter_table\<close>, the
  clock and the HTTP client the records of outcomes \<open>batch_env\<close>.
\<close>

subsection \<open>The logger\<close>

record Logger =
  lg_queue :: "AuditLog list"
  lg_batch :: "AuditLog list"
  lg_flushed :: "AuditLog list list"   \<comment> \<open>the batches handed to \<open>AppendAuditRows\<close>\<close>

definition NewLogger :: Logger where
  "NewLogger = \<lparr>lg_queue = [], lg_batch = [], lg_flushed = []\<rparr>"

definition logger_flush :: "Logger \<Rightarrow> Logger" where
  "logger_flush l = l\<lparr>lg_flushed := lg_flushed l @ [lg_batch l], lg_batch := []\<rparr>"

text \<open>\<open>Log\<close>: a full queue drops the entry.\<close>

definition logger_Log :: "AuditLog \<Rightarrow> Logger \<Rightarrow> Logger \<times> bool" where
  "logger_Log e l = (if length (lg_queue l) < 1000 then (l\<lparr>lg_queue := lg_queue l @ [e]\<rparr>, True) else (l, False))"

definition logger_take :: "Logger \<Rightarrow> Logger" where
  "logger_take l =
     (case lg_queue l of
        [] \<Rightarrow> l
      | e # q \<Rightarrow>
          (let l' = l\<lparr>lg_queue := q, lg_batch := lg_batch l @ [e]\<rparr> in
           if 100 \<le> length (lg_batch l') then logger_flush l' else l'))"

definition logger_tick :: "Logger \<Rightarrow> Logger" where
  "logger_tick l = (if lg_batch l \<noteq> [] then logger_flush l else l)"

function logger_drain :: "Logger \<Rightarrow> Logger" where
  "logger_drain l = (if lg_queue l = [] then logger_tick l else logger_drain (logger_take l))"
  by pat_completeness auto
termination
  by (relation "measure (\<lambda>l. length (lg_queue l))") (auto simp: logger_take_def logger_flush_def Let_def neq_Nil_conv)

declare logger_drain.simps [simp del]

text \<open>The loop of \<open>Start\<close> with the callers of \<open>Log\<close>; the second component is what the queue accepted.\<close>

inductive logger_reach :: "Logger \<times> AuditLog list \<Rightarrow> bool" where
  new: "logger_reach (NewLogger, [])"
| accept: "logger_reach (l, acc) \<Longrightarrow> logger_Log e l = (l', True) \<Longrightarrow> logger_reach (l', acc @ [e])"
| refuse: "logger_reach (l, acc) \<Longrightarrow> logger_Log e l = (l', False) \<Longrightarrow> logger_reach (l', acc)"
| take_one: "logger_reach (l, acc) \<Longrightarrow> logger_reach (logger_take l, acc)"
| tick: "logger_reach (l, acc) \<Longrightarrow> logger_reach (logger_tick l, acc)"

subsection \<open>Exporters\<close>

record AuditExporter =
  ex_ID :: uint
  ex_Name :: string
  ex_Kind :: string
  ex_URL :: string
  ex_Token :: string
  ex_Events :: string
  ex_Enabled :: bool
  ex_Cursor :: uint
  ex_DeliveredCount :: int
  ex_LastError :: string
  ex_LastAttemptAt :: "time option"
  ex_LastSuccessAt :: "time option"

definition AuditExporterKindNDJSON :: string where "AuditExporterKindNDJSON = ''ndjson''"
definition AuditExporterKindSplunkHEC :: string where "AuditExporterKindSplunkHEC = ''splunk_hec''"

definition forwarderBatchSize :: nat where "forwarderBatchSize = 200"
definition forwarderMaxBatchesPerRun :: nat where "forwarderMaxBatchesPerRun = 10"
definition forwarderMinBackoff :: int where "forwarderMinBackoff = 10 * 1000000000"
definition forwarderMaxBackoff :: int where "forwarderMaxBackoff = 5 * 60 * 1000000000"

record forwarderFailure =
  ff_count :: nat
  ff_nextRetry :: time

record Forwarder =
  fw_host :: string
  fw_batch :: nat
  fw_failures :: "uint \<rightharpoonup> forwarderFailure"

definition NewForwarder :: "gerror + string \<Rightarrow> Forwarder" where
  "NewForwarder hostname = \<lparr>fw_host = (case hostname of Inl _ \<Rightarrow> ''depsilo'' | Inr h \<Rightarrow> if h = [] then ''depsilo'' else h),
     fw_batch = forwarderBatchSize, fw_failures = Map.empty\<rparr>"

definition fw_ready :: "time \<Rightarrow> uint \<Rightarrow> Forwarder \<Rightarrow> bool" where
  "fw_ready now i f \<longleftrightarrow> (case fw_failures f i of None \<Rightarrow> True | Some x \<Rightarrow> \<not> now < ff_nextRetry x)"

text \<open>The shift of a \<open>Duration\<close> wraps around.\<close>

definition forward_backoff :: "nat \<Rightarrow> int" where
  "forward_backoff n =
     (let backoff = wrap64 (forwarderMinBackoff * 2 ^ (n - 1)) in
      if backoff > forwarderMaxBackoff \<or> backoff \<le> 0 then forwarderMaxBackoff else backoff)"

definition recordFailure :: "time \<Rightarrow> uint \<Rightarrow> Forwarder \<Rightarrow> Forwarder" where
  "recordFailure now i f =
     (let n = (case fw_failures f i of None \<Rightarrow> 0 | Some x \<Rightarrow> ff_count x) + 1 in
      f\<lparr>fw_failures := (fw_failures f)(i \<mapsto> \<lparr>ff_count = n, ff_nextRetry = now + forward_backoff n\<rparr>)\<rparr>)"

definition clearFailure :: "uint \<Rightarrow> Forwarder \<Rightarrow> Forwarder" where
  "clearFailure i f = f\<lparr>fw_failures := (fw_failures f)(i := None)\<rparr>"

subsection \<open>The filter\<close>

text \<open>The set of tokens, \<open>None\<close> once a star is met.\<close>

fun filter_tokens :: "externals \<Rightarrow> string list \<Rightarrow> string list option" where
  "filter_tokens E [] = Some []"
| "filter_tokens E (raw # rest) =
     (let token = ToLower E (TrimSpace raw) in
      if token = [] then filter_tokens E rest
      else if token = ''*'' then None
      else map_option ((#) token) (filter_tokens E rest))"

definition parseEventFilter :: "externals \<Rightarrow> string \<Rightarrow> string list" where
  "parseEventFilter E events = (case filter_tokens E (Split events CHR '','') of None \<Rightarrow> [] | Some ts \<Rightarrow> ts)"

definition row_selected :: "externals \<Rightarrow> string \<Rightarrow> AuditLog \<Rightarrow> bool" where
  "row_selected E events row \<longleftrightarrow>
     (let tokens = parseEventFilter E events in
      tokens = [] \<or> ToLower E (al_Action row) \<in> set tokens \<or> ToLower E (al_CacheResult row) \<in> set tokens)"

definition FilterAuditRows :: "externals \<Rightarrow> AuditLog list \<Rightarrow> string \<Rightarrow> AuditLog list" where
  "FilterAuditRows E rows events = filter (row_selected E events) rows"

subsection \<open>The payload\<close>

text \<open>Strings without the escapes for HTML, and objects whose values are already text.\<close>

definition json_raw :: "string \<Rightarrow> string" where
  "json_raw s = char_of (34 :: nat) #
     concat (map (\<lambda>(r, b). if r = 38 \<or> r = 60 \<or> r = 62 then b else json_segment (r, b)) (segments s)) @ [char_of (34 :: nat)]"

definition object_text :: "(string \<times> string) list \<Rightarrow> string" where
  "object_text members = ''{'' @ Join (map (\<lambda>(k, v). json_string k @ '':'' @ v) members) '','' @ ''}''"

definition row_json :: "AuditLog \<Rightarrow> gerror + string" where
  "row_json row =
     (let (y, _, _) = civil (al_CreatedAt row div 1000000000 div 86400) in
      if y < 0 \<or> 10000 \<le> y then Inl plain_error
      else Inr (object_text (
        [(''id'', FormatUint (unat (al_ID row))), (''ecosystem'', json_raw (al_Ecosystem row)),
         (''package_name'', json_raw (al_PackageName row)), (''version'', json_raw (al_Version row)),
         (''action'', json_raw (al_Action row)), (''cache_result'', json_raw (al_CacheResult row)),
         (''client_ip'', json_raw (al_ClientIP row)), (''user_agent'', json_raw (al_UserAgent row)),
         (''upstream_url'', json_raw (al_UpstreamURL row)), (''latency_ms'', FormatInt (al_LatencyMs row)),
         (''bytes_sent'', FormatInt (al_BytesSent row)), (''status_code'', FormatInt (al_StatusCode row)),
         (''created_at'', json_string (FormatRFC3339Nano (al_CreatedAt row))), (''request_id'', json_raw (al_RequestID row))] @
        (case al_PrevHash row of None \<Rightarrow> [] | Some p \<Rightarrow> [(''prev_hash'', json_raw p)]) @
        (if al_Hash row = [] then [] else [(''hash'', json_raw (al_Hash row))]))))"

text \<open>The keys of a Go map are encoded in order.\<close>

definition splunk_json :: "string \<Rightarrow> AuditLog \<Rightarrow> gerror + string" where
  "splunk_json host row = bind_err (row_json row) (\<lambda>event. Inr (object_text
     [(''event'', event), (''host'', json_raw host), (''source'', json_raw ''depsilo''),
      (''sourcetype'', json_raw ''depsilo:audit''), (''time'', FormatInt (al_CreatedAt row div 1000000000))]))"

fun encode_lines :: "(AuditLog \<Rightarrow> gerror + string) \<Rightarrow> AuditLog list \<Rightarrow> gerror + string" where
  "encode_lines enc [] = Inr []"
| "encode_lines enc (row # rows) = bind_err (enc row) (\<lambda>t. bind_err (encode_lines enc rows) (\<lambda>ts.
     Inr (t @ char_of (10 :: nat) # ts)))"

definition BuildAuditPayload :: "AuditExporter \<Rightarrow> AuditLog list \<Rightarrow> string \<Rightarrow> gerror + (string \<times> string)" where
  "BuildAuditPayload exporter rows host =
     (if ex_Kind exporter = AuditExporterKindNDJSON
      then bind_err (encode_lines row_json rows) (\<lambda>t. Inr (t, ''application/x-ndjson''))
      else if ex_Kind exporter = AuditExporterKindSplunkHEC
      then bind_err (encode_lines (splunk_json host) rows) (\<lambda>t. Inr (t, ''application/json''))
      else Inl plain_error)"

subsection \<open>Forwarding\<close>

record batch_env =
  be_now :: time
  be_failed :: time                 \<comment> \<open>the clock in \<open>recordFailure\<close>\<close>
  be_request :: "gerror option"
  be_response :: "gerror + int"

record post =
  po_exporter :: uint
  po_rows :: "AuditLog list"
  po_payload :: string
  po_authorization :: string
  po_accepted :: bool

record 'db exporter_table =
  et_Enabled :: "'db \<Rightarrow> gerror + AuditExporter list"                    \<comment> \<open>Where("enabled").Order("id").Find\<close>
  et_Failed :: "uint \<Rightarrow> string \<Rightarrow> time \<Rightarrow> 'db \<Rightarrow> 'db"                 \<comment> \<open>last_error, last_attempt_at\<close>
  et_Advance :: "uint \<Rightarrow> uint \<Rightarrow> int \<Rightarrow> time \<Rightarrow> 'db \<Rightarrow> 'db \<times> gerror option" \<comment> \<open>where cursor < lastID\<close>

definition deliver :: "batch_env \<Rightarrow> Forwarder \<Rightarrow> AuditExporter \<Rightarrow> AuditLog list \<Rightarrow> post list \<times> gerror option" where
  "deliver env f exporter rows =
     (case BuildAuditPayload exporter rows (fw_host f) of
        Inl e \<Rightarrow> ([], Some e)
      | Inr (payload, contentType) \<Rightarrow>
          (case be_request env of
             Some e \<Rightarrow> ([], Some e)
           | None \<Rightarrow>
               (let ok = (case be_response env of Inl _ \<Rightarrow> False | Inr status \<Rightarrow> 200 \<le> status \<and> status < 300);
                    auth = (if ex_Token exporter = [] then []
                            else if ex_Kind exporter = AuditExporterKindSplunkHEC then ''Splunk '' @ ex_Token exporter
                            else ''Bearer '' @ ex_Token exporter) in
                ([\<lparr>po_exporter = ex_ID exporter, po_rows = rows, po_payload = payload, po_authorization = auth, po_accepted = ok\<rparr>],
                 (case be_response env of
                    Inl e \<Rightarrow> Some e
                  | Inr status \<Rightarrow> if ok then None else Some [ErrMessage (''collector returned HTTP '' @ FormatInt status)])))))"

definition truncateError :: "string \<Rightarrow> string" where
  "truncateError message = (if length message \<le> 500 then message else take 500 message)"

text \<open>The result: the forwarder, the table, the posts, the number delivered, whether more rows remain, the error.\<close>

definition forwardBatch ::
  "externals \<Rightarrow> 'db audit_table \<Rightarrow> 'db exporter_table \<Rightarrow> batch_env \<Rightarrow> AuditExporter \<Rightarrow> Forwarder \<Rightarrow> 'db \<Rightarrow>
     Forwarder \<times> 'db \<times> post list \<times> int \<times> bool \<times> gerror option" where
  "forwardBatch E T X env exporter f db =
     (case au_After T (ex_Cursor exporter) (fw_batch f) db of
        Inl e \<Rightarrow> (f, db, [], 0, False, Some e)
      | Inr rows \<Rightarrow>
          if rows = [] then (f, db, [], 0, False, None)
          else (let lastID = al_ID (last rows); remain = (length rows = fw_batch f);
                    selected = FilterAuditRows E rows (ex_Events exporter);
                    (posts, err) = (if selected = [] then ([], None) else deliver env f exporter selected) in
            case err of
              Some e \<Rightarrow> (recordFailure (be_failed env) (ex_ID exporter) f,
                         et_Failed X (ex_ID exporter) (truncateError (err_text e)) (be_now env) db, posts, 0, remain, Some e)
            | None \<Rightarrow>
                (case et_Advance X (ex_ID exporter) lastID (int (length selected)) (be_now env) db of
                   (db', Some e) \<Rightarrow> (clearFailure (ex_ID exporter) f, db', posts, 0, remain, Some e)
                 | (db', None) \<Rightarrow> (clearFailure (ex_ID exporter) f, db', posts, int (length selected), remain, None))))"

text \<open>The inner loop of \<open>RunOnce\<close>; every iteration is given the same copy of the exporter.\<close>

fun batch_loop ::
  "externals \<Rightarrow> 'db audit_table \<Rightarrow> 'db exporter_table \<Rightarrow> (nat \<Rightarrow> batch_env) \<Rightarrow> AuditExporter \<Rightarrow> nat \<Rightarrow> nat \<Rightarrow> Forwarder \<Rightarrow> 'db \<Rightarrow>
     Forwarder \<times> 'db \<times> post list \<times> int \<times> gerror option" where
  "batch_loop E T X env exporter 0 batch f db = (f, db, [], 0, None)"
| "batch_loop E T X env exporter (Suc n) batch f db =
     (case forwardBatch E T X (env batch) exporter f db of
        (f', db', posts, sent, remain, Some e) \<Rightarrow> (f', db', posts, sent, Some e)
      | (f', db', posts, sent, remain, None) \<Rightarrow>
          if \<not> remain then (f', db', posts, sent, None)
          else (case batch_loop E T X env exporter n (Suc batch) f' db' of
              (f'', db'', posts', sent', err) \<Rightarrow> (f'', db'', posts @ posts', sent + sent', err)))"

fun exporter_loop ::
  "externals \<Rightarrow> 'db audit_table \<Rightarrow> 'db exporter_table \<Rightarrow> (uint \<Rightarrow> time) \<Rightarrow> (uint \<Rightarrow> nat \<Rightarrow> batch_env) \<Rightarrow> AuditExporter list \<Rightarrow>
     Forwarder \<Rightarrow> 'db \<Rightarrow> Forwarder \<times> 'db \<times> post list \<times> int \<times> gerror list" where
  "exporter_loop E T X ready_at env [] f db = (f, db, [], 0, [])"
| "exporter_loop E T X ready_at env (x # xs) f db =
     (if \<not> fw_ready (ready_at (ex_ID x)) (ex_ID x) f then exporter_loop E T X ready_at env xs f db
      else (case batch_loop E T X (env (ex_ID x)) x forwarderMaxBatchesPerRun 0 f db of
          (f', db', posts, sent, err) \<Rightarrow>
            (case exporter_loop E T X ready_at env xs f' db' of
               (f'', db'', posts', sent', errs) \<Rightarrow>
                 (f'', db'', posts @ posts', sent + sent', (case err of None \<Rightarrow> [] | Some e \<Rightarrow> [e]) @ errs))))"

definition RunOnce ::
  "externals \<Rightarrow> 'db audit_table \<Rightarrow> 'db exporter_table \<Rightarrow> (uint \<Rightarrow> time) \<Rightarrow> (uint \<Rightarrow> nat \<Rightarrow> batch_env) \<Rightarrow> Forwarder \<Rightarrow> 'db \<Rightarrow>
     Forwarder \<times> 'db \<times> post list \<times> int \<times> gerror list" where
  "RunOnce E T X ready_at env f db =
     (case et_Enabled X db of
        Inl e \<Rightarrow> (f, db, [], 0, [e])
      | Inr exporters \<Rightarrow> exporter_loop E T X ready_at env exporters f db)"

text \<open>A synthetic event through the real delivery path.\<close>

definition SendTest :: "batch_env \<Rightarrow> Forwarder \<Rightarrow> AuditExporter \<Rightarrow> post list \<times> gerror option" where
  "SendTest env f exporter = deliver env f exporter
     [\<lparr>al_ID = 0, al_Ecosystem = [], al_PackageName = [], al_Version = [], al_Action = ''exporter_test'',
       al_CacheResult = ''test'', al_ClientIP = [], al_UserAgent = [], al_UpstreamURL = [], al_LatencyMs = 0, al_BytesSent = 0,
       al_StatusCode = 200, al_CreatedAt = be_now env, al_RequestID = [], al_PrevHash = None, al_Hash = []\<rparr>]"

subsection \<open>The logger keeps what it accepts\<close>

definition logger_inv :: "Logger \<Rightarrow> AuditLog list \<Rightarrow> bool" where
  "logger_inv l acc \<longleftrightarrow> acc = concat (lg_flushed l) @ lg_batch l @ lg_queue l \<and> length (lg_batch l) < 100 \<and>
     length (lg_queue l) \<le> 1000 \<and> list_all (\<lambda>b. b \<noteq> [] \<and> length b \<le> 100) (lg_flushed l)"

lemma logger_inv_take: "logger_inv l acc \<Longrightarrow> logger_inv (logger_take l) acc"
  by (auto simp: logger_inv_def logger_take_def logger_flush_def Let_def split: list.splits)

lemma logger_inv_tick: "logger_inv l acc \<Longrightarrow> logger_inv (logger_tick l) acc"
  by (auto simp: logger_inv_def logger_tick_def logger_flush_def)

lemma logger_inv_drain: "logger_inv l acc \<Longrightarrow> logger_inv (logger_drain l) acc \<and> lg_queue (logger_drain l) = [] \<and> lg_batch (logger_drain l) = []"
proof (induction l rule: logger_drain.induct)
  case (1 l)
  show ?case
  proof (cases "lg_queue l = []")
    case True
    then show ?thesis
      using 1 logger_inv_tick [of l acc] by (simp add: logger_drain.simps [of l] logger_tick_def logger_flush_def)
  next
    case False
    then show ?thesis using "1.IH" [OF False logger_inv_take [OF "1.prems"]] by (simp add: logger_drain.simps [of l])
  qed
qed

lemma logger_reach_inv: "logger_reach s \<Longrightarrow> logger_inv (fst s) (snd s)"
proof (induction rule: logger_reach.induct)
  case (accept l acc e l')
  then show ?case by (auto simp: logger_inv_def logger_Log_def split: if_splits)
next
  case (refuse l acc e l')
  then show ?case by (auto simp: logger_Log_def split: if_splits)
qed (simp_all add: logger_inv_take logger_inv_tick, simp add: logger_inv_def NewLogger_def)

text \<open>
  No accepted entry is lost or reordered. Whatever the interleaving of callers, the writer and
  its ticker, when the logger is drained at shutdown the batches it has handed to the chain are,
  put together, exactly the accepted entries in the order in which they were accepted, each
  batch has between one and one hundred rows, and an entry is refused only while a thousand
  others wait.
\<close>

theorem logger_loses_nothing:
  assumes "logger_reach (l, accepted)"
  shows "concat (lg_flushed (logger_drain l)) = accepted \<and> lg_queue (logger_drain l) = [] \<and>
    list_all (\<lambda>b. 1 \<le> length b \<and> length b \<le> 100) (lg_flushed (logger_drain l)) \<and>
    (\<not> snd (logger_Log e l) \<longrightarrow> length (lg_queue l) = 1000)"
proof -
  have inv: "logger_inv l accepted" using logger_reach_inv [OF assms] by simp
  have "list_all (\<lambda>b. 1 \<le> length b \<and> length b \<le> 100) (lg_flushed (logger_drain l))"
    using logger_inv_drain [OF inv] by (auto simp: logger_inv_def list_all_iff Suc_le_eq)
  then show ?thesis using logger_inv_drain [OF inv] inv by (auto simp: logger_inv_def logger_Log_def)
qed

theorem logger_loses_nothing_witness:
  "concat (lg_flushed (logger_drain (fst (logger_Log sample_audit NewLogger)))) = [sample_audit]"
proof -
  obtain l where l: "logger_Log sample_audit NewLogger = (l, True)" by (simp add: logger_Log_def NewLogger_def)
  have "logger_reach (l, [] @ [sample_audit])" by (rule logger_reach.accept [OF logger_reach.new l])
  then show ?thesis using logger_loses_nothing [of l "[sample_audit]"] l by simp
qed

subsection \<open>The retry delay of the forwarder\<close>

lemma forward_backoff_wraps:
  assumes "29 \<le> k"
  shows "wrap64 (forwarderMinBackoff * 2 ^ k) \<le> 0 \<or> forwarderMaxBackoff < wrap64 (forwarderMinBackoff * 2 ^ k)"
proof -
  let ?x = "forwarderMinBackoff * 2 ^ k"
  have "(2 :: int) ^ 39 dvd ?x"
  proof -
    have "?x = 2 ^ 39 * (9765625 * 2 ^ (k - 29))"
      using assms power_add [of "2 :: int" 29 "k - 29"] by (simp add: forwarderMinBackoff_def)
    then show ?thesis by (metis dvd_triv_left)
  qed
  then have "(2 :: int) ^ 39 dvd ?x + 2 ^ 63" by simp
  then have "(2 :: int) ^ 39 dvd (?x + 2 ^ 63) mod 2 ^ 64" by (simp add: dvd_mod)
  then have "(2 :: int) ^ 39 dvd wrap64 ?x" unfolding wrap64_def by (intro dvd_diff) simp_all
  then obtain q where q: "wrap64 ?x = 2 ^ 39 * q" by (rule dvdE)
  then show ?thesis by (cases "q \<le> 0") (simp_all add: forwarderMaxBackoff_def mult_le_0_iff)
qed

text \<open>
  The delay before a failed collector is tried again doubles from ten seconds and stops at five
  minutes, for every number of failures: the shift overflows a \<open>Duration\<close> from the thirtieth
  failure on, but no overflow gives a shorter delay.
\<close>

theorem forward_backoff_capped:
  assumes "1 \<le> n"
  shows "forward_backoff n = min (10 * 1000000000 * 2 ^ (n - 1)) (300 * 1000000000)"
proof -
  obtain k where n: "n = Suc k" using assms by (cases n) simp_all
  show ?thesis
  proof (cases "k \<le> 28")
    case True
    have "(2 :: int) ^ k \<le> 2 ^ 28" using True by (intro power_increasing) simp_all
    then have "forwarderMinBackoff * 2 ^ k < 2 ^ 63" by (simp add: forwarderMinBackoff_def)
    moreover have "0 \<le> forwarderMinBackoff * 2 ^ k" by (simp add: forwarderMinBackoff_def)
    ultimately have "wrap64 (forwarderMinBackoff * 2 ^ k) = forwarderMinBackoff * 2 ^ k" by (intro wrap64_id) linarith+
    then show ?thesis by (simp add: forward_backoff_def n Let_def forwarderMaxBackoff_def forwarderMinBackoff_def min_def)
  next
    case False
    then have "forward_backoff n = forwarderMaxBackoff"
      using forward_backoff_wraps [of k] by (auto simp: forward_backoff_def n Let_def)
    moreover have "(2 :: int) ^ 5 \<le> 2 ^ k" using False by (intro power_increasing) simp_all
    ultimately show ?thesis by (simp add: forwarderMaxBackoff_def n)
  qed
qed

theorem forward_backoff_capped_witness: "forward_backoff 31 = 300 * 1000000000"
proof -
  have "min (10 * 1000000000 * 2 ^ (31 - 1 :: nat)) (300 * 1000000000) = (300 * 1000000000 :: int)" by simp
  then show ?thesis using forward_backoff_capped [of 31] by simp
qed

subsection \<open>At-least-once delivery\<close>

definition exporter_table_ok ::
  "'db exporter_table \<Rightarrow> ('db \<Rightarrow> AuditLog list) \<Rightarrow> ('db \<Rightarrow> uint \<Rightarrow> uint) \<Rightarrow> bool" where
  "exporter_table_ok X rows cur \<longleftrightarrow>
     (\<forall>db xs. et_Enabled X db = Inr xs \<longrightarrow> distinct (map ex_ID xs) \<and> (\<forall>x \<in> set xs. ex_Cursor x = cur db (ex_ID x))) \<and>
     (\<forall>i m t db. rows (et_Failed X i m t db) = rows db \<and> cur (et_Failed X i m t db) = cur db) \<and>
     (\<forall>i lastID n t db db'. et_Advance X i lastID n t db = (db', None) \<longrightarrow>
        rows db' = rows db \<and> cur db' = (cur db)(i := max (cur db i) lastID)) \<and>
     (\<forall>i lastID n t db db' e. et_Advance X i lastID n t db = (db', Some e) \<longrightarrow> rows db' = rows db \<and> cur db' = cur db)"

lemma exporter_okD:
  assumes "exporter_table_ok X rows cur"
  shows "et_Enabled X db = Inr xs \<Longrightarrow> distinct (map ex_ID xs) \<and> (\<forall>x \<in> set xs. ex_Cursor x = cur db (ex_ID x))"
    and "rows (et_Failed X i m t db) = rows db" and "cur (et_Failed X i m t db) = cur db"
    and "et_Advance X i lastID n t db = (db', None) \<Longrightarrow> rows db' = rows db \<and> cur db' = (cur db)(i := max (cur db i) lastID)"
    and "et_Advance X i lastID n t db = (db', Some e) \<Longrightarrow> rows db' = rows db \<and> cur db' = cur db"
proof -
  note ok = assms [unfolded exporter_table_ok_def]
  show "et_Enabled X db = Inr xs \<Longrightarrow> distinct (map ex_ID xs) \<and> (\<forall>x \<in> set xs. ex_Cursor x = cur db (ex_ID x))"
    using ok [THEN conjunct1] by blast
  show "rows (et_Failed X i m t db) = rows db" "cur (et_Failed X i m t db) = cur db"
    using ok [THEN conjunct2, THEN conjunct1] by blast+
  show "et_Advance X i lastID n t db = (db', None) \<Longrightarrow> rows db' = rows db \<and> cur db' = (cur db)(i := max (cur db i) lastID)"
    using ok [THEN conjunct2, THEN conjunct2, THEN conjunct1] by blast
  show "et_Advance X i lastID n t db = (db', Some e) \<Longrightarrow> rows db' = rows db \<and> cur db' = cur db"
    using ok [THEN conjunct2, THEN conjunct2, THEN conjunct2] by blast
qed

text \<open>Every selected row behind \<open>from\<close> and up to \<open>to\<close> was in a post that the collector accepted.\<close>

definition delivered :: "externals \<Rightarrow> AuditExporter \<Rightarrow> AuditLog list \<Rightarrow> uint \<Rightarrow> uint \<Rightarrow> post list \<Rightarrow> bool" where
  "delivered E x rows from to posts \<longleftrightarrow>
     (\<forall>r \<in> set rows. from < al_ID r \<and> al_ID r \<le> to \<and> row_selected E (ex_Events x) r \<longrightarrow>
        (\<exists>p \<in> set posts. po_exporter p = ex_ID x \<and> po_accepted p \<and> r \<in> set (po_rows p)))"

lemma delivered_more: "delivered E x rows a b posts \<Longrightarrow> set posts \<subseteq> set posts' \<Longrightarrow> delivered E x rows a b posts'"
  unfolding delivered_def by blast

lemma take_covers:
  assumes "sorted_wrt (\<lambda>a b. al_ID a < al_ID b) xs" and "take n xs \<noteq> []" and "r \<in> set xs"
    and "al_ID r \<le> al_ID (last (take n xs))"
  shows "r \<in> set (take n xs)"
proof (rule ccontr)
  assume "r \<notin> set (take n xs)"
  then have "r \<in> set (drop n xs)" using assms(3) by (metis UnE append_take_drop_id set_append)
  moreover have "sorted_wrt (\<lambda>a b. al_ID a < al_ID b) (take n xs @ drop n xs)" using assms(1) by simp
  then have "\<forall>a \<in> set (take n xs). \<forall>b \<in> set (drop n xs). al_ID a < al_ID b" unfolding sorted_wrt_append by blast
  ultimately have "al_ID (last (take n xs)) < al_ID r" using last_in_set [OF assms(2)] by blast
  then show False using assms(4) by simp
qed

lemma deliver_accepted: "deliver env f x rows = (posts, None) \<Longrightarrow> \<exists>p \<in> set posts. po_exporter p = ex_ID x \<and> po_accepted p \<and> po_rows p = rows"
  by (auto simp: deliver_def Let_def split: sum.split_asm option.split_asm prod.split_asm if_splits)

lemma forwardBatch_delivers:
  assumes ok: "audit_table_ok T rows" and xok: "exporter_table_ok X rows cur"
    and run: "forwardBatch E T X env x f db = (f', db', posts, n, m, err)"
  shows "rows db' = rows db \<and> (\<exists>c. cur db' = (cur db)(ex_ID x := c) \<and> cur db (ex_ID x) \<le> c \<and>
    (c = cur db (ex_ID x) \<or> delivered E x (rows db) (ex_Cursor x) c posts))"
proof -
  let ?i = "ex_ID x"
  have same: ?thesis if "rows db' = rows db" "cur db' = cur db" using that by (intro conjI exI [of _ "cur db ?i"]) simp_all
  show ?thesis
  proof (cases "au_After T (ex_Cursor x) (fw_batch f) db")
    case (Inl e)
    then show ?thesis using run same by (simp add: forwardBatch_def)
  next
    case (Inr rs)
    have rs: "rs = take (fw_batch f) (filter (\<lambda>r. ex_Cursor x < al_ID r) (rows db))" using audit_okD(8) [OF ok Inr] .
    show ?thesis
    proof (cases "rs = []")
      case True
      then show ?thesis using run same Inr by (simp add: forwardBatch_def)
    next
      case False
      let ?sel = "FilterAuditRows E rs (ex_Events x)"
      obtain ps err1 where d: "(if ?sel = [] then ([], None) else deliver env f x ?sel) = (ps, err1)" by fastforce
      show ?thesis
      proof (cases err1)
        case (Some e)
        then have "db' = et_Failed X ?i (truncateError (err_text e)) (be_now env) db"
          using run Inr False d by (simp add: forwardBatch_def Let_def)
        then show ?thesis using same exporter_okD(2,3) [OF xok] by simp
      next
        case None
        obtain db1 err2 where adv: "et_Advance X ?i (al_ID (last rs)) (int (length ?sel)) (be_now env) db = (db1, err2)" by fastforce
        then have db1: "db' = db1" "posts = ps" using run Inr False d None by (auto simp: forwardBatch_def Let_def split: option.split_asm)
        show ?thesis
        proof (cases err2)
          case (Some e)
          then show ?thesis using same adv db1 exporter_okD(5) [OF xok] by blast
        next
          case None2: None
          have upd: "rows db' = rows db \<and> cur db' = (cur db)(?i := max (cur db ?i) (al_ID (last rs)))"
            using exporter_okD(4) [OF xok, of ?i "al_ID (last rs)"] adv db1 None2 by blast
          have "delivered E x (rows db) (ex_Cursor x) (al_ID (last rs)) posts"
            unfolding delivered_def
          proof (intro ballI impI)
            fix r
            assume r: "r \<in> set (rows db)" "ex_Cursor x < al_ID r \<and> al_ID r \<le> al_ID (last rs) \<and> row_selected E (ex_Events x) r"
            have "sorted_wrt (\<lambda>a b. al_ID a < al_ID b) (filter (\<lambda>r. ex_Cursor x < al_ID r) (rows db))"
              using audit_okD(1) [OF ok] by (rule sorted_wrt_filter)
            then have "r \<in> set rs" using take_covers r False unfolding rs by force
            then have sel: "r \<in> set ?sel" using r by (simp add: FilterAuditRows_def)
            then have "deliver env f x ?sel = (ps, None)" using d None by (cases "?sel = []") auto
            then show "\<exists>p \<in> set posts. po_exporter p = ex_ID x \<and> po_accepted p \<and> r \<in> set (po_rows p)"
              using deliver_accepted sel db1 by metis
          qed
          then show ?thesis using upd by (intro conjI exI [of _ "max (cur db ?i) (al_ID (last rs))"]) (auto simp: max_def)
        qed
      qed
    qed
  qed
qed

lemma batch_loop_delivers:
  assumes ok: "audit_table_ok T rows" and xok: "exporter_table_ok X rows cur"
    and "batch_loop E T X env x k b f db = (f', db', posts, n, err)"
    and "delivered E x (rows db) (ex_Cursor x) (cur db (ex_ID x)) before"
  shows "rows db' = rows db \<and> (\<exists>c. cur db' = (cur db)(ex_ID x := c) \<and> cur db (ex_ID x) \<le> c \<and>
    delivered E x (rows db) (ex_Cursor x) c (before @ posts))"
  using assms(3,4)
proof (induction k arbitrary: b f db f' db' posts n err before)
  case 0
  then show ?case by (intro conjI exI [of _ "cur db (ex_ID x)"]) simp_all
next
  case (Suc k)
  let ?i = "ex_ID x"
  obtain f1 db1 ps m more1 err1 where one: "forwardBatch E T X (env b) x f db = (f1, db1, ps, m, more1, err1)"
    by (metis prod_cases6)
  obtain c where c: "rows db1 = rows db" "cur db1 = (cur db)(?i := c)" "cur db ?i \<le> c"
    "c = cur db ?i \<or> delivered E x (rows db) (ex_Cursor x) c ps"
    using forwardBatch_delivers [OF ok xok one] by blast
  have d1: "delivered E x (rows db1) (ex_Cursor x) (cur db1 ?i) (before @ ps)"
    using c(4) Suc.prems(2) delivered_more [of E x "rows db" "ex_Cursor x" c] unfolding c(1,2) by auto
  show ?case
  proof (cases "err1 = None \<and> more1")
    case False
    then have "db' = db1" "posts = ps" using Suc.prems(1) one by (auto split: option.split_asm if_splits)
    then show ?thesis using c d1 by auto
  next
    case True
    obtain f2 db2 ps2 m2 err2 where rest: "batch_loop E T X env x k (Suc b) f1 db1 = (f2, db2, ps2, m2, err2)" by (metis prod_cases5)
    then have eq: "db' = db2" "posts = ps @ ps2" using Suc.prems(1) one True by auto
    obtain c2 where "rows db2 = rows db1" "cur db2 = (cur db1)(?i := c2)" "cur db1 ?i \<le> c2"
      "delivered E x (rows db1) (ex_Cursor x) c2 ((before @ ps) @ ps2)"
      using Suc.IH [OF rest d1] by blast
    then show ?thesis using c eq by (intro conjI exI [of _ c2]) auto
  qed
qed

lemma exporter_loop_delivers:
  assumes ok: "audit_table_ok T rows" and xok: "exporter_table_ok X rows cur"
    and "exporter_loop E T X ready_at env xs f db = (f', db', posts, n, errs)"
    and "distinct (map ex_ID xs)" and "\<forall>x \<in> set xs. ex_Cursor x = cur db (ex_ID x)"
  shows "rows db' = rows db \<and> (\<forall>i. i \<notin> ex_ID ` set xs \<longrightarrow> cur db' i = cur db i) \<and>
    (\<forall>x \<in> set xs. cur db (ex_ID x) \<le> cur db' (ex_ID x) \<and>
       delivered E x (rows db) (cur db (ex_ID x)) (cur db' (ex_ID x)) posts)"
  using assms(3-5)
proof (induction xs arbitrary: f db f' db' posts n errs)
  case (Cons x xs)
  show ?case
  proof (cases "fw_ready (ready_at (ex_ID x)) (ex_ID x) f")
    case False
    then have "exporter_loop E T X ready_at env xs f db = (f', db', posts, n, errs)" using Cons.prems(1) by simp
    then have h: "rows db' = rows db \<and> (\<forall>i. i \<notin> ex_ID ` set xs \<longrightarrow> cur db' i = cur db i) \<and>
      (\<forall>x \<in> set xs. cur db (ex_ID x) \<le> cur db' (ex_ID x) \<and> delivered E x (rows db) (cur db (ex_ID x)) (cur db' (ex_ID x)) posts)"
      using Cons.IH Cons.prems(2,3) by simp
    have "cur db' (ex_ID x) = cur db (ex_ID x)" using h Cons.prems(2) by auto
    then show ?thesis using h by (auto simp: delivered_def)
  next
    case True
    obtain f1 db1 ps m err1 where one: "batch_loop E T X (env (ex_ID x)) x forwarderMaxBatchesPerRun 0 f db = (f1, db1, ps, m, err1)"
      by (metis prod_cases5)
    obtain f2 db2 ps2 m2 errs2 where rest: "exporter_loop E T X ready_at env xs f1 db1 = (f2, db2, ps2, m2, errs2)" by (metis prod_cases5)
    have eq: "db' = db2" "posts = ps @ ps2" using Cons.prems(1) True one rest by auto
    have "delivered E x (rows db) (ex_Cursor x) (cur db (ex_ID x)) []" using Cons.prems(3) by (auto simp: delivered_def)
    then obtain c where c: "rows db1 = rows db" "cur db1 = (cur db)(ex_ID x := c)" "cur db (ex_ID x) \<le> c"
      "delivered E x (rows db) (ex_Cursor x) c ([] @ ps)"
      using batch_loop_delivers [OF ok xok one] by blast
    have "ex_ID x \<notin> ex_ID ` set xs" using Cons.prems(2) by simp
    then have other: "ex_ID y \<noteq> ex_ID x" if "y \<in> set xs" for y using that by (metis image_eqI)
    have "\<forall>y \<in> set xs. ex_Cursor y = cur db1 (ex_ID y)" using Cons.prems(3) c(2) other by simp
    then have h: "rows db2 = rows db1 \<and> (\<forall>i. i \<notin> ex_ID ` set xs \<longrightarrow> cur db2 i = cur db1 i) \<and>
      (\<forall>x \<in> set xs. cur db1 (ex_ID x) \<le> cur db2 (ex_ID x) \<and> delivered E x (rows db1) (cur db1 (ex_ID x)) (cur db2 (ex_ID x)) ps2)"
      using Cons.IH [OF rest] Cons.prems(2) by simp
    have "cur db2 (ex_ID x) = c" using h Cons.prems(2) c(2) by auto
    then have "cur db (ex_ID x) \<le> cur db' (ex_ID x) \<and> delivered E x (rows db) (cur db (ex_ID x)) (cur db' (ex_ID x)) posts"
      using c(3,4) eq Cons.prems(3) by (auto intro: delivered_more)
    moreover have "cur db (ex_ID y) \<le> cur db' (ex_ID y) \<and> delivered E y (rows db) (cur db (ex_ID y)) (cur db' (ex_ID y)) posts"
      if "y \<in> set xs" for y
    proof -
      have "cur db1 (ex_ID y) = cur db (ex_ID y)" using other [OF that] c(2) by simp
      then have "cur db (ex_ID y) \<le> cur db2 (ex_ID y) \<and> delivered E y (rows db) (cur db (ex_ID y)) (cur db2 (ex_ID y)) ps2"
        using h [THEN conjunct2, THEN conjunct2, THEN bspec, OF that] c(1) by simp
      then show ?thesis unfolding eq by (auto intro: delivered_more)
    qed
    ultimately show ?thesis using h c(1,2) eq by auto
  qed
qed simp

text \<open>
  C10: Delivery is at least once. A run of the forwarder never moves a cursor back, and whenever it
  moves the cursor of an exporter, every row that the cursor passed and that the exporter's
  filter selects was in a request which that exporter's collector answered with success; so an
  outage, a bad payload or a failed cursor update loses nothing.
\<close>

theorem forwarding_loses_nothing:
  assumes "audit_table_ok T rows" and "exporter_table_ok X rows cur" and "et_Enabled X db = Inr exporters"
    and "RunOnce E T X ready_at env f db = (f', db', posts, n, errs)" and "x \<in> set exporters"
  shows "rows db' = rows db \<and> cur db (ex_ID x) \<le> cur db' (ex_ID x) \<and>
    (\<forall>r \<in> set (rows db). cur db (ex_ID x) < al_ID r \<and> al_ID r \<le> cur db' (ex_ID x) \<and> row_selected E (ex_Events x) r \<longrightarrow>
       (\<exists>p \<in> set posts. po_exporter p = ex_ID x \<and> po_accepted p \<and> r \<in> set (po_rows p)))"
proof -
  have "exporter_loop E T X ready_at env exporters f db = (f', db', posts, n, errs)"
    using assms(3,4) by (simp add: RunOnce_def)
  moreover have "distinct (map ex_ID exporters)" "\<forall>x \<in> set exporters. ex_Cursor x = cur db (ex_ID x)"
    using exporter_okD(1) [OF assms(2,3)] by simp_all
  ultimately have "rows db' = rows db \<and> (\<forall>i. i \<notin> ex_ID ` set exporters \<longrightarrow> cur db' i = cur db i) \<and>
    (\<forall>x \<in> set exporters. cur db (ex_ID x) \<le> cur db' (ex_ID x) \<and>
       delivered E x (rows db) (cur db (ex_ID x)) (cur db' (ex_ID x)) posts)"
    by (rule exporter_loop_delivers [OF assms(1,2)])
  then show ?thesis using assms(5) unfolding delivered_def by blast
qed

subsection \<open>A backlog is sent ten times over\<close>

lemma forwardBatch_success:
  assumes ok: "audit_table_ok T rows" and xok: "exporter_table_ok X rows cur"
    and reads: "\<And>db. is_Inr (au_After T (ex_Cursor x) (fw_batch f) db)"
    and writes: "\<And>i l n t db. snd (et_Advance X i l n t db) = None"
    and rs: "rs = take (fw_batch f) (filter (\<lambda>r. ex_Cursor x < al_ID r) (rows db))" "length rs = fw_batch f" "0 < fw_batch f"
    and sel: "sel = FilterAuditRows E rs (ex_Events x)" "sel \<noteq> []"
    and payload: "BuildAuditPayload x sel (fw_host f) = Inr (payload, ctype)"
    and net: "be_request env = None" "be_response env = Inr 200"
  shows "\<exists>db' p. forwardBatch E T X env x f db = (clearFailure (ex_ID x) f, db', [p], int (length sel), True, None) \<and>
    po_rows p = sel \<and> po_exporter p = ex_ID x \<and> rows db' = rows db \<and>
    cur db' = (cur db)(ex_ID x := max (cur db (ex_ID x)) (al_ID (last rs)))"
proof -
  obtain rs' where read: "au_After T (ex_Cursor x) (fw_batch f) db = Inr rs'" using reads [of db] by (auto simp: is_Inr_iff)
  then have rs': "rs' = rs" using audit_okD(8) [OF ok] rs(1) by blast
  have ne: "rs \<noteq> []" using rs(2,3) by auto
  obtain db' where adv: "et_Advance X (ex_ID x) (al_ID (last rs)) (int (length sel)) (be_now env) db = (db', None)"
    using writes by (metis prod.collapse)
  have d: "\<exists>p. deliver env f x sel = ([p], None) \<and> po_rows p = sel \<and> po_exporter p = ex_ID x"
    using payload net by (simp add: deliver_def)
  then obtain p where p: "deliver env f x sel = ([p], None)" "po_rows p = sel" "po_exporter p = ex_ID x" by blast
  have "forwardBatch E T X env x f db = (clearFailure (ex_ID x) f, db', [p], int (length sel), True, None)"
    using read rs' ne rs(2) sel p adv by (simp add: forwardBatch_def Let_def)
  then show ?thesis using p exporter_okD(4) [OF xok adv] by blast
qed

lemma batch_loop_repeats:
  assumes ok: "audit_table_ok T rows" and xok: "exporter_table_ok X rows cur"
    and reads: "\<And>db. is_Inr (au_After T (ex_Cursor x) (fw_batch f) db)"
    and writes: "\<And>i l n t db. snd (et_Advance X i l n t db) = None"
    and rs: "rs = take (fw_batch f) (filter (\<lambda>r. ex_Cursor x < al_ID r) (rows db))" "length rs = fw_batch f" "0 < fw_batch f"
    and sel: "sel = FilterAuditRows E rs (ex_Events x)" "sel \<noteq> []"
    and payload: "BuildAuditPayload x sel (fw_host f) = Inr (payload, ctype)"
    and net: "\<And>b. be_request (env b) = None" "\<And>b. be_response (env b) = Inr 200"
  shows "\<exists>f' db' posts. batch_loop E T X env x k b f db = (f', db', posts, int (k * length sel), None) \<and>
    map po_rows posts = replicate k sel \<and> rows db' = rows db \<and>
    cur db' = (cur db)(ex_ID x := (if k = 0 then cur db (ex_ID x) else max (cur db (ex_ID x)) (al_ID (last rs))))"
  using reads rs payload
proof (induction k arbitrary: b f db)
  case (Suc k)
  obtain db1 p where one: "forwardBatch E T X (env b) x f db = (clearFailure (ex_ID x) f, db1, [p], int (length sel), True, None)"
    "po_rows p = sel" "rows db1 = rows db" "cur db1 = (cur db)(ex_ID x := max (cur db (ex_ID x)) (al_ID (last rs)))"
    using forwardBatch_success [OF ok xok Suc.prems(1) writes Suc.prems(2-4) sel Suc.prems(5) net] by blast
  let ?f = "clearFailure (ex_ID x) f"
  have f: "fw_batch ?f = fw_batch f" "fw_host ?f = fw_host f" by (simp_all add: clearFailure_def)
  obtain f' db' posts where "batch_loop E T X env x k (Suc b) ?f db1 = (f', db', posts, int (k * length sel), None)"
    "map po_rows posts = replicate k sel" "rows db' = rows db"
    "cur db' = (cur db1)(ex_ID x := (if k = 0 then cur db1 (ex_ID x) else max (cur db1 (ex_ID x)) (al_ID (last rs))))"
    using Suc.IH [of ?f db1 "Suc b", unfolded f one(3), OF Suc.prems] by blast
  then show ?case using one by (intro exI [of _ f'] exI [of _ db'] exI [of _ "p # posts"]) auto
qed auto

text \<open>
  A backlog is sent ten times over. \<open>RunOnce\<close> gives every iteration of its inner loop the copy
  of the exporter that it read before the loop, with the cursor of that moment. If a full batch
  waits behind the cursor and nothing fails, the run posts that same batch ten times, counts it
  ten times, and moves the cursor past it once.
\<close>

theorem backlog_sent_ten_times:
  assumes "audit_table_ok T rows" and "exporter_table_ok X rows cur"
    and "\<forall>db. is_Inr (au_After T (ex_Cursor x) (fw_batch f) db)"
    and "\<forall>i l n t db. snd (et_Advance X i l n t db) = None"
    and "rs = take (fw_batch f) (filter (\<lambda>r. ex_Cursor x < al_ID r) (rows db))" and "length rs = fw_batch f" and "0 < fw_batch f"
    and "sel = FilterAuditRows E rs (ex_Events x)" and "sel \<noteq> []"
    and "BuildAuditPayload x sel (fw_host f) = Inr (payload, ctype)"
    and "\<forall>b. be_request (env (ex_ID x) b) = None \<and> be_response (env (ex_ID x) b) = Inr 200"
    and "et_Enabled X db = Inr [x]" and "fw_ready (ready_at (ex_ID x)) (ex_ID x) f"
  shows "\<exists>f' db' posts. RunOnce E T X ready_at env f db = (f', db', posts, int (10 * length sel), []) \<and>
    map po_rows posts = replicate 10 sel \<and> cur db' (ex_ID x) = max (cur db (ex_ID x)) (al_ID (last rs))"
proof -
  obtain f' db' posts where loop: "batch_loop E T X (env (ex_ID x)) x 10 0 f db = (f', db', posts, int (10 * length sel), None)"
    "map po_rows posts = replicate 10 sel"
    "cur db' = (cur db)(ex_ID x := (if (10 :: nat) = 0 then cur db (ex_ID x) else max (cur db (ex_ID x)) (al_ID (last rs))))"
    using batch_loop_repeats [OF assms(1,2) assms(3) [THEN spec] _ assms(5-10), of "env (ex_ID x)" 10 0] assms(4,11) by blast
  then show ?thesis using assms(12,13) by (simp add: RunOnce_def forwarderMaxBatchesPerRun_def)
qed

subsection \<open>Exporters beside a table in a list\<close>

type_synonym list_db = "AuditLog list \<times> AuditExporter"

definition pair_audit :: "list_db audit_table" where
  "pair_audit =
    \<lparr>au_Last = (\<lambda>db. au_Last list_audit (fst db)),
     au_Create = (\<lambda>pending db. case au_Create list_audit pending (fst db) of (l, e) \<Rightarrow> ((l, snd db), e)),
     au_Scan = (\<lambda>n db. au_Scan list_audit n (fst db)),
     au_First = (\<lambda>i db. au_First list_audit i (fst db)),
     au_After = (\<lambda>c n db. au_After list_audit c n (fst db))\<rparr>"

definition pair_exporters :: "list_db exporter_table" where
  "pair_exporters =
    \<lparr>et_Enabled = (\<lambda>db. Inr [snd db]),
     et_Failed = (\<lambda>i m t db. apsnd (\<lambda>x. x\<lparr>ex_LastError := m, ex_LastAttemptAt := Some t\<rparr>) db),
     et_Advance = (\<lambda>i l n t db.
       (if ex_ID (snd db) = i \<and> ex_Cursor (snd db) < l
        then apsnd (\<lambda>x. x\<lparr>ex_Cursor := l, ex_DeliveredCount := ex_DeliveredCount x + n, ex_LastError := [],
               ex_LastAttemptAt := Some t, ex_LastSuccessAt := Some t\<rparr>) db
        else db, None))\<rparr>"

definition pair_cursor :: "list_db \<Rightarrow> uint \<Rightarrow> uint" where
  "pair_cursor db i = (if ex_ID (snd db) = i then ex_Cursor (snd db) else - 1)"

lemma pair_audit_ok: "audit_table_ok pair_audit (\<lambda>db. numbered (fst db))"
proof -
  note ok = audit_okD [OF list_audit_ok]
  have "(\<exists>ids. length ids = length pending \<and> numbered (fst db') = numbered (fst db) @ with_ids pending ids) \<and>
    distinct (prev_hashes (numbered (fst db')))" if "au_Create pair_audit pending db = (db', None)" for pending db db'
    using ok(4) [of pending "fst db" "fst db'"] that by (auto simp: pair_audit_def split: prod.split_asm)
  moreover have "numbered (fst db') = numbered (fst db)" if "au_Create pair_audit pending db = (db', Some e)" for pending db db' e
    using ok(5) [of pending "fst db" "fst db'" e] that by (auto simp: pair_audit_def split: prod.split_asm)
  ultimately show ?thesis
    using ok(1,2,3,6,7,8) unfolding audit_table_ok_def by (simp add: pair_audit_def)
qed

lemma pair_exporters_ok: "exporter_table_ok pair_exporters (\<lambda>db. numbered (fst db)) pair_cursor"
proof -
  have top: "max (- 1) l = - 1" for l :: uint by (rule max_absorb1) simp
  show ?thesis
    unfolding exporter_table_ok_def by (auto simp: pair_exporters_def pair_cursor_def fun_eq_iff top)
qed

definition sample_exporter :: AuditExporter where
  "sample_exporter = \<lparr>ex_ID = 1, ex_Name = ''siem'', ex_Kind = ''ndjson'', ex_URL = ''https://siem'', ex_Token = [], ex_Events = ''*'',
     ex_Enabled = True, ex_Cursor = 0, ex_DeliveredCount = 0, ex_LastError = [], ex_LastAttemptAt = None, ex_LastSuccessAt = None\<rparr>"

definition sample_batch :: batch_env where
  "sample_batch = \<lparr>be_now = 0, be_failed = 0, be_request = None, be_response = Inr 200\<rparr>"

definition sample_forwarder :: Forwarder where
  "sample_forwarder = \<lparr>fw_host = ''h'', fw_batch = 1, fw_failures = Map.empty\<rparr>"

lemma sample_numbered: "numbered [sample_audit] = [sample_audit\<lparr>al_ID := 1\<rparr>]"
  by (simp add: numbered_def with_ids_def next_ids_def)

lemma sample_filter: "FilterAuditRows ascii_externals rs (ex_Events sample_exporter) = rs"
proof -
  have "parseEventFilter ascii_externals ''*'' = []" by code_simp
  then show ?thesis by (simp add: FilterAuditRows_def row_selected_def sample_exporter_def)
qed

theorem backlog_sent_ten_times_witness:
  "\<exists>f' db' posts. RunOnce ascii_externals pair_audit pair_exporters (\<lambda>_. 0) (\<lambda>_ _. sample_batch) sample_forwarder
      ([sample_audit], sample_exporter) = (f', db', posts, 10, []) \<and>
    map po_rows posts = replicate 10 [sample_audit\<lparr>al_ID := 1\<rparr>] \<and> pair_cursor db' 1 = 1"
proof -
  let ?rs = "[sample_audit\<lparr>al_ID := 1\<rparr>]"
  have "is_Inr (BuildAuditPayload sample_exporter ?rs ''h'')" by code_simp
  then obtain payload ctype where p: "BuildAuditPayload sample_exporter ?rs (fw_host sample_forwarder) = Inr (payload, ctype)"
    by (auto simp: is_Inr_iff sample_forwarder_def)
  have rs: "?rs = take (fw_batch sample_forwarder)
      (filter (\<lambda>r. ex_Cursor sample_exporter < al_ID r) (numbered (fst ([sample_audit], sample_exporter))))"
    by (simp add: sample_numbered sample_forwarder_def sample_exporter_def)
  have "\<exists>f' db' posts. RunOnce ascii_externals pair_audit pair_exporters (\<lambda>_. 0) (\<lambda>_ _. sample_batch) sample_forwarder
      ([sample_audit], sample_exporter) = (f', db', posts, int (10 * length ?rs), []) \<and>
    map po_rows posts = replicate 10 ?rs \<and>
    pair_cursor db' (ex_ID sample_exporter) = max (pair_cursor ([sample_audit], sample_exporter) (ex_ID sample_exporter)) (al_ID (last ?rs))"
    by (rule backlog_sent_ten_times [OF pair_audit_ok pair_exporters_ok _ _ rs _ _ _ _ p])
      (simp_all add: sample_filter pair_audit_def pair_exporters_def list_audit_def sample_forwarder_def sample_batch_def fw_ready_def)
  then show ?thesis by (simp add: pair_cursor_def sample_exporter_def)
qed

theorem forwarding_loses_nothing_witness:
  "\<exists>f' db' posts n errs. RunOnce ascii_externals pair_audit pair_exporters (\<lambda>_. 0) (\<lambda>_ _. sample_batch) sample_forwarder
      ([sample_audit], sample_exporter) = (f', db', posts, n, errs) \<and> numbered (fst db') = [sample_audit\<lparr>al_ID := 1\<rparr>] \<and>
      (1 \<le> pair_cursor db' 1 \<longrightarrow> (\<exists>p \<in> set posts. po_accepted p \<and> sample_audit\<lparr>al_ID := 1\<rparr> \<in> set (po_rows p)))"
proof -
  let ?db = "([sample_audit], sample_exporter)"
  obtain f' db' posts n errs where run: "RunOnce ascii_externals pair_audit pair_exporters (\<lambda>_. 0) (\<lambda>_ _. sample_batch) sample_forwarder
      ?db = (f', db', posts, n, errs)" by (metis prod_cases5)
  have en: "et_Enabled pair_exporters ?db = Inr [sample_exporter]" by (simp add: pair_exporters_def)
  note h = forwarding_loses_nothing [OF pair_audit_ok pair_exporters_ok en run, of sample_exporter]
  have "ex_ID sample_exporter = 1" "pair_cursor ?db 1 = 0" by (simp_all add: sample_exporter_def pair_cursor_def)
  moreover have "row_selected ascii_externals (ex_Events sample_exporter) r" for r
    using sample_filter [of "[r]"] by (auto simp: FilterAuditRows_def split: if_splits)
  ultimately show ?thesis using h run by (auto simp: sample_numbered)
qed

end
