(* ===== verification/Cascade.thy ===== *)
theory Cascade
  imports Go_Encoding Go_Time
begin

text \<open>
  The wire contract between instances that relay upstream fetches through one another,
  \<open>internal/cascade/cascade.go\<close>: instance identifiers, the traversal chain and its header, the
  values that a request context carries, the freshness header.
\<close>

definition RelayPath :: string where "RelayPath = ''/_depsilo/relay/v1''"
definition HeaderTarget :: string where "HeaderTarget = ''X-Depsilo-Relay-Target''"
definition HeaderCache :: string where "HeaderCache = ''X-Depsilo-Relay-Cache''"
definition HeaderTTL :: string where "HeaderTTL = ''X-Depsilo-Relay-TTL''"
definition HeaderSource :: string where "HeaderSource = ''X-Depsilo-Relay-Source''"
definition HeaderKind :: string where "HeaderKind = ''X-Depsilo-Relay-Kind''"
definition HeaderToken :: string where "HeaderToken = ''X-Depsilo-Cascade-Token''"
definition HeaderChain :: string where "HeaderChain = ''X-Depsilo-Cascade-Chain''"
definition HeaderInstance :: string where "HeaderInstance = ''X-Depsilo-Instance''"

definition CacheHit :: string where "CacheHit = ''HIT''"
definition CacheMiss :: string where "CacheMiss = ''MISS''"
definition CacheBypass :: string where "CacheBypass = ''BYPASS''"
definition KindIndex :: string where "KindIndex = ''index''"
definition KindArtifact :: string where "KindArtifact = ''artifact''"

definition DefaultMaxHops :: int where "DefaultMaxHops = 4"
definition MaxChainEntries :: nat where "MaxChainEntries = 16"
definition MaxInstanceIDLength :: nat where "MaxInstanceIDLength = 64"
definition MaxTargetURLLength :: nat where "MaxTargetURLLength = 8192"

subsection \<open>Instance identifiers\<close>

text \<open>\<open>raw\<close> are the sixteen bytes of \<open>rand.Read\<close>.\<close>

definition NewInstanceID :: "gerror + string \<Rightarrow> gerror + string" where
  "NewInstanceID raw = bind_err raw (\<lambda>bytes. Inr (EncodeToString bytes))"

definition instance_rune :: "rune \<Rightarrow> bool" where
  "instance_rune r \<longleftrightarrow> (97 \<le> r \<and> r \<le> 122) \<or> (48 \<le> r \<and> r \<le> 57) \<or> r = 45"

definition ValidInstanceID :: "string \<Rightarrow> bool" where
  "ValidInstanceID s \<longleftrightarrow> \<not> (s = [] \<or> length s > MaxInstanceIDLength) \<and> list_all instance_rune (runes s)"

subsection \<open>Chains\<close>

type_synonym Chain = "string list"

datatype chain_error = errEmptyInstanceID | errBadInstanceID | errChainTooLong

fun parse_parts :: "string list \<Rightarrow> chain_error + Chain" where
  "parse_parts [] = Inr []"
| "parse_parts (part # parts) =
     (let s = TrimSpace part in
      if s = [] then Inl errEmptyInstanceID
      else if \<not> ValidInstanceID s then Inl errBadInstanceID
      else (case parse_parts parts of Inl e \<Rightarrow> Inl e | Inr chain \<Rightarrow> Inr (s # chain)))"

definition ParseChain :: "string \<Rightarrow> chain_error + Chain" where
  "ParseChain raw0 =
     (let raw = TrimSpace raw0 in
      if raw = [] then Inr []
      else (let parts = Split raw CHR '','' in
        if length parts > MaxChainEntries then Inl errChainTooLong else parse_parts parts))"

definition chain_String :: "Chain \<Rightarrow> string" where
  "chain_String c = Join c '',''"

definition chain_Contains :: "Chain \<Rightarrow> string \<Rightarrow> bool" where
  "chain_Contains c s \<longleftrightarrow> s \<in> set c"

definition chain_With :: "Chain \<Rightarrow> string \<Rightarrow> Chain" where
  "chain_With c s = c @ [s]"

subsection \<open>The request context\<close>

text \<open>The three values under the package's context keys; a nil chain is \<open>None\<close>.\<close>

record cascade_context =
  cx_chain :: "Chain option"
  cx_ttl :: "int option"
  cx_kind :: "string option"

definition background :: cascade_context where
  "background = \<lparr>cx_chain = None, cx_ttl = None, cx_kind = None\<rparr>"

definition or_background :: "cascade_context option \<Rightarrow> cascade_context" where
  "or_background ctx = (case ctx of None \<Rightarrow> background | Some c \<Rightarrow> c)"

definition WithChain :: "cascade_context option \<Rightarrow> Chain option \<Rightarrow> cascade_context" where
  "WithChain ctx chain = (case chain of None \<Rightarrow> or_background ctx | Some c \<Rightarrow> (or_background ctx)\<lparr>cx_chain := Some c\<rparr>)"

definition ChainFrom :: "cascade_context option \<Rightarrow> Chain" where
  "ChainFrom ctx = (case ctx of None \<Rightarrow> [] | Some c \<Rightarrow> (case cx_chain c of None \<Rightarrow> [] | Some ch \<Rightarrow> ch))"

definition WithFetchTTL :: "cascade_context option \<Rightarrow> int \<Rightarrow> cascade_context" where
  "WithFetchTTL ctx ttl = (if ttl \<le> 0 then or_background ctx else (or_background ctx)\<lparr>cx_ttl := Some ttl\<rparr>)"

definition FetchTTLFrom :: "cascade_context option \<Rightarrow> int option" where
  "FetchTTLFrom ctx = (case ctx of None \<Rightarrow> None | Some c \<Rightarrow>
     (case cx_ttl c of None \<Rightarrow> None | Some ttl \<Rightarrow> if ttl \<le> 0 then None else Some ttl))"

definition WithFetchKind :: "cascade_context option \<Rightarrow> string \<Rightarrow> cascade_context" where
  "WithFetchKind ctx kind =
     (if kind \<noteq> KindIndex \<and> kind \<noteq> KindArtifact then or_background ctx
      else (or_background ctx)\<lparr>cx_kind := Some kind\<rparr>)"

definition FetchKindFrom :: "cascade_context option \<Rightarrow> string option" where
  "FetchKindFrom ctx = (case ctx of None \<Rightarrow> None | Some c \<Rightarrow> cx_kind c)"

subsection \<open>The freshness header\<close>

text \<open>\<open>strconv.ParseInt\<close> in base 10 with 64 bits.\<close>

definition ParseInt64 :: "string \<Rightarrow> int option" where
  "ParseInt64 s =
     (let neg = (s \<noteq> [] \<and> hd s = CHR ''-'');
          rest = (if s \<noteq> [] \<and> (hd s = CHR ''-'' \<or> hd s = CHR ''+'') then tl s else s);
          n = (if neg then - int (decimal_value 0 rest) else int (decimal_value 0 rest)) in
      if rest = [] \<or> \<not> list_all isASCIIDigit rest \<or> n < - (2 ^ 63) \<or> 2 ^ 63 \<le> n then None else Some n)"

definition ParseTTLHeader :: "string \<Rightarrow> gerror + int option" where
  "ParseTTLHeader raw0 =
     (let raw = TrimSpace raw0 in
      if raw = [] then Inr None
      else (case ParseInt64 raw of
          None \<Rightarrow> Inl plain_error
        | Some seconds \<Rightarrow> if seconds < 0 then Inl plain_error else Inr (Some (wrap64 (seconds * 1000000000)))))"

definition FormatTTLHeader :: "int \<Rightarrow> string" where
  "FormatTTLHeader ttl = (if ttl \<le> 0 then ''0'' else FormatInt (ttl div 1000000000))"

subsection \<open>Round trips\<close>

lemma instance_byte: "list_all instance_rune (runes s) \<longleftrightarrow> list_all (\<lambda>c. instance_rune (byte c)) s"
  by (rule list_all_runes) (auto simp: instance_rune_def)

lemma valid_id_bytes: "ValidInstanceID s \<Longrightarrow> c \<in> set s \<Longrightarrow> instance_rune (byte c)"
  using instance_byte [of s] unfolding ValidInstanceID_def by (simp only: list_all_iff)

lemma valid_id_chars:
  assumes "ValidInstanceID s"
  shows "s \<noteq> []" and "is_ascii s" and "CHR '','' \<notin> set s" and "TrimSpace s = s"
proof -
  have all: "\<forall>c \<in> set s. instance_rune (byte c)" using assms valid_id_bytes by blast
  show "s \<noteq> []" using assms by (simp add: ValidInstanceID_def)
  show ascii: "is_ascii s" using all by (force simp: is_ascii_def list_all_iff instance_rune_def)
  have "\<not> instance_rune (byte CHR '','')" by code_simp
  then show "CHR '','' \<notin> set s" using all by blast
  have "\<not> ContainsFunc s IsSpace" using all ascii by (force simp: ContainsFunc_ascii list_ex_iff instance_rune_def IsSpace_def)
  then show "TrimSpace s = s" by (rule TrimSpace_id)
qed

lemma parse_parts_valid: "list_all ValidInstanceID c \<Longrightarrow> parse_parts c = Inr c"
  by (induction c) (simp_all add: valid_id_chars)

lemma parse_parts_sound: "parse_parts parts = Inr c \<Longrightarrow> list_all ValidInstanceID c \<and> length c = length parts"
proof (induction parts arbitrary: c)
  case (Cons p ps)
  then show ?case by (auto simp: Let_def split: if_splits sum.split_asm)
qed simp

lemma ParseChain_sound: "ParseChain raw = Inr c \<Longrightarrow> list_all ValidInstanceID c \<and> length c \<le> MaxChainEntries"
  using parse_parts_sound by (fastforce simp: ParseChain_def Let_def split: if_splits)

lemma ParseChain_String:
  assumes "list_all ValidInstanceID c" and "length c \<le> MaxChainEntries"
  shows "ParseChain (chain_String c) = Inr c"
proof (cases "c = []")
  case True
  then show ?thesis by (simp add: ParseChain_def chain_String_def)
next
  case False
  have no: "list_all (\<lambda>w. CHR '','' \<notin> set w) c" using assms(1) valid_id_chars(3) by (auto simp: list_all_iff)
  have split: "Split (chain_String c) CHR '','' = c" unfolding chain_String_def by (rule Split_Join [OF False no])
  have bytes: "instance_rune (byte d) \<or> d = CHR '',''" if "d \<in> set (chain_String c)" for d
  proof -
    have "list_all (\<lambda>d. instance_rune (byte d) \<or> d = CHR '','') (Join c '','')"
      using assms(1) valid_id_bytes by (intro list_all_Join) (auto simp: list_all_iff)
    then show ?thesis using that by (simp add: chain_String_def list_all_iff)
  qed
  have comma: "byte CHR '','' = 44" by code_simp
  have b: "byte d < 128 \<and> \<not> IsSpace (byte d)" if "d \<in> set (chain_String c)" for d
  proof (cases "d = CHR '',''")
    case True
    then show ?thesis using comma by (simp add: IsSpace_def)
  next
    case False
    then have "instance_rune (byte d)" using bytes [OF that] by simp
    then show ?thesis by (auto simp: instance_rune_def IsSpace_def)
  qed
  then have ascii: "is_ascii (chain_String c)" by (simp add: is_ascii_def list_all_iff)
  then have "\<not> ContainsFunc (chain_String c) IsSpace" using b by (auto simp: ContainsFunc_ascii list_ex_iff)
  then have trim: "TrimSpace (chain_String c) = chain_String c" by (simp add: TrimSpace_id)
  obtain s rest where c: "c = s # rest" using False by (cases c) auto
  have "chain_String c \<noteq> []"
    using assms(1) valid_id_chars(1) by (cases rest) (auto simp: c chain_String_def)
  then show ?thesis using assms parse_parts_valid [OF assms(1)] by (simp add: ParseChain_def Let_def trim split)
qed

end
