(* ===== verification/Go_Http.thy ===== *)
theory Go_Http
  imports Go_Paths
begin

text \<open>
  The part of \<open>net/http\<close> and \<open>net/url\<close> that the relay uses: header maps under canonical keys, and
  a parsed URL as the fields the code reads. \<open>url.Parse\<close> itself is a parameter where it is used.
\<close>

definition upper_byte :: "char \<Rightarrow> char" where
  "upper_byte c = (if 97 \<le> byte c \<and> byte c \<le> 122 then char_of (byte c - 32) else c)"

definition token_byte :: "char \<Rightarrow> bool" where
  "token_byte c \<longleftrightarrow> isASCIIAlphanumeric c \<or> c \<in> set ''!#$%&*+-.^_`|~'' \<or> byte c = 39"

fun canonical_loop :: "bool \<Rightarrow> string \<Rightarrow> string" where
  "canonical_loop upper [] = []"
| "canonical_loop upper (c # s) = (if upper then upper_byte c else lowerByte c) # canonical_loop (c = CHR ''-'') s"

definition CanonicalMIMEHeaderKey :: "string \<Rightarrow> string" where
  "CanonicalMIMEHeaderKey s = (if list_all token_byte s then canonical_loop True s else s)"

type_synonym header = "string \<Rightarrow> string list"

definition header_Values :: "header \<Rightarrow> string \<Rightarrow> string list" where
  "header_Values h k = h (CanonicalMIMEHeaderKey k)"

definition header_Get :: "header \<Rightarrow> string \<Rightarrow> string" where
  "header_Get h k = (case header_Values h k of [] \<Rightarrow> [] | v # _ \<Rightarrow> v)"

definition header_Set :: "string \<Rightarrow> string \<Rightarrow> header \<Rightarrow> header" where
  "header_Set k v h = h(CanonicalMIMEHeaderKey k := [v])"

definition header_Del :: "string \<Rightarrow> header \<Rightarrow> header" where
  "header_Del k h = h(CanonicalMIMEHeaderKey k := [])"

definition header_Add :: "string \<Rightarrow> string \<Rightarrow> header \<Rightarrow> header" where
  "header_Add k v h = h(CanonicalMIMEHeaderKey k := h (CanonicalMIMEHeaderKey k) @ [v])"

definition no_header :: header where
  "no_header = (\<lambda>_. [])"

lemma header_Get_Set:
  "header_Get (header_Set k v h) k' =
     (if CanonicalMIMEHeaderKey k' = CanonicalMIMEHeaderKey k then v else header_Get h k')"
  by (simp add: header_Get_def header_Set_def header_Values_def)

lemma header_Get_Del:
  "header_Get (header_Del k h) k' =
     (if CanonicalMIMEHeaderKey k' = CanonicalMIMEHeaderKey k then [] else header_Get h k')"
  by (simp add: header_Get_def header_Del_def header_Values_def)

record url =
  u_Scheme :: string
  u_Host :: string
  u_User :: bool            \<comment> \<open>User is not nil\<close>
  u_Path :: string
  u_Fragment :: string
  u_Text :: string          \<comment> \<open>String()\<close>

end
