(* ===== verification/Relay.thy ===== *)
theory Relay
  imports Cascade Go_Http
begin

text \<open>
  Both ends of cascade peering: the parent's endpoint, \<open>internal/relay/handler.go\<close>, and the
  transport with which a child reaches it, \<open>internal/upstream/peer_egress.go\<close>. Parameters are
  \<open>url.Parse\<close> and \<open>http.NewRequest\<close>, what a client answers, and the call \<open>Cache.Get\<close>, which may or may
  not call the fetch function it is given.
\<close>

definition cacheAdapterType :: string where "cacheAdapterType = ''relay''"
definition cacheKeyPrefix :: string where "cacheKeyPrefix = ''relay-v1/''"
definition minRelayTTL :: int where "minRelayTTL = 30 * 1000000000"
definition defaultMaxTTL :: int where "defaultMaxTTL = 7 * 24 * 3600 * 1000000000"

record http_request =
  hr_Method :: string
  hr_URL :: url
  hr_Header :: header
  hr_Context :: "cascade_context option"

record http_response =
  hp_Status :: int
  hp_Header :: header
  hp_ContentLength :: int
  hp_Body :: string

record written =
  wr_Status :: int
  wr_Header :: header
  wr_Body :: string

record 'client Handler =
  h_DB :: bool                \<comment> \<open>not nil\<close>
  h_Cache :: bool             \<comment> \<open>not nil\<close>
  h_Identity :: string
  h_Token :: string
  h_MaxHops :: int
  h_MaxTTL :: int
  h_DefaultClient :: 'client
  h_ResolveEgress :: "(string \<Rightarrow> string \<Rightarrow> 'client option) option"

record plan =
  pl_method :: string
  pl_target :: url
  pl_targetRaw :: string
  pl_source :: string
  pl_sourceURL :: "url option"
  pl_kind :: string
  pl_ttl :: int
  pl_chain :: Chain
  pl_next :: Chain
  pl_headers :: header
  pl_cacheKey :: string

subsection \<open>Planning\<close>

definition authorized :: "'client Handler \<Rightarrow> http_request \<Rightarrow> bool" where
  "authorized h request \<longleftrightarrow>
     h_Token h \<noteq> [] \<and>
     (let provided = header_Get (hr_Header request) HeaderToken in
      length provided = length (h_Token h) \<and> provided = h_Token h)"

definition maxHops :: "'client Handler \<Rightarrow> int" where
  "maxHops h = (if h_MaxHops h > 0 then h_MaxHops h else DefaultMaxHops)"

definition maxTTL :: "'client Handler \<Rightarrow> int" where
  "maxTTL h = (if h_MaxTTL h > 0 then h_MaxTTL h else defaultMaxTTL)"

definition nul :: char where
  "nul = char_of (0 :: nat)"

definition relayCacheKey :: "plan \<Rightarrow> string" where
  "relayCacheKey exchange =
     cacheKeyPrefix @ pl_kind exchange @ ''/'' @
     EncodeToString (Sum256 (pl_method exchange @ [nul] @ pl_targetRaw exchange @ [nul] @ header_Get (pl_headers exchange) ''Accept''))"

definition relay_ttl :: "'client Handler \<Rightarrow> int \<Rightarrow> int" where
  "relay_ttl h ttl0 =
     (let ttl = (if ttl0 > maxTTL h then maxTTL h else ttl0) in
      if ttl > 0 \<and> ttl < minRelayTTL then minRelayTTL else ttl)"

definition source_url :: "(string \<Rightarrow> url option) \<Rightarrow> string \<Rightarrow> url option" where
  "source_url parse source =
     (if source = [] then None
      else (case parse source of None \<Rightarrow> None | Some u \<Rightarrow> if u_Host u \<noteq> [] then Some u else None))"

definition make_plan :: "(string \<Rightarrow> url option) \<Rightarrow> 'client Handler \<Rightarrow> http_request \<Rightarrow> url \<Rightarrow> Chain \<Rightarrow> int option \<Rightarrow> plan" where
  "make_plan parse h request target chain ttl =
     (let get = header_Get (hr_Header request); source = TrimSpace (get HeaderSource);
          exchange = \<lparr>pl_method = hr_Method request, pl_target = target, pl_targetRaw = u_Text target,
            pl_source = source, pl_sourceURL = source_url parse source,
            pl_kind = (if get HeaderKind \<noteq> KindArtifact then KindIndex else get HeaderKind),
            pl_ttl = relay_ttl h (case ttl of None \<Rightarrow> 0 | Some t \<Rightarrow> t),
            pl_chain = chain, pl_next = [], pl_headers = hr_Header request, pl_cacheKey = []\<rparr> in
      exchange\<lparr>pl_cacheKey := relayCacheKey exchange\<rparr>)"

definition valid_target :: "url \<Rightarrow> bool" where
  "valid_target target \<longleftrightarrow> \<not> (u_Host target = [] \<or> u_User target \<or> u_Fragment target \<noteq> [] \<or>
     (u_Scheme target \<noteq> ''http'' \<and> u_Scheme target \<noteq> ''https''))"

definition planRequest :: "(string \<Rightarrow> url option) \<Rightarrow> 'client Handler \<Rightarrow> http_request \<Rightarrow> string + plan" where
  "planRequest parse h request =
     (let get = header_Get (hr_Header request); rawTarget = TrimSpace (get HeaderTarget) in
      if \<not> ValidInstanceID (h_Identity h) then Inl ''relay instance identity is not configured''
      else if rawTarget = [] \<or> length rawTarget > MaxTargetURLLength then Inl ''relay target is missing or too long''
      else (case parse rawTarget of
          None \<Rightarrow> Inl ''relay target is not a valid absolute HTTP URL''
        | Some target \<Rightarrow>
            if \<not> valid_target target then Inl ''relay target is not a valid absolute HTTP URL''
            else (case ParseChain (get HeaderChain) of
                Inl _ \<Rightarrow> Inl ''relay chain is missing or invalid''
              | Inr chain \<Rightarrow>
                  if chain = [] then Inl ''relay chain is missing or invalid''
                  else (case ParseTTLHeader (get HeaderTTL) of
                      Inl _ \<Rightarrow> Inl ''relay TTL is invalid''
                    | Inr ttl \<Rightarrow> Inr (make_plan parse h request target chain ttl)))))"

datatype relay_decision =
    RelayError int string string    \<comment> \<open>status, code, message\<close>
  | ServeUncached plan
  | ServeCached plan

definition relay_decide :: "(string \<Rightarrow> url option) \<Rightarrow> 'client Handler \<Rightarrow> http_request \<Rightarrow> relay_decision" where
  "relay_decide parse h request =
     (if hr_Method request \<noteq> ''GET'' \<and> hr_Method request \<noteq> ''HEAD''
      then RelayError 405 ''METHOD_NOT_ALLOWED'' ''relay supports GET and HEAD''
      else if \<not> authorized h request
      then RelayError 401 ''CASCADE_UNAUTHORIZED'' ''cascade token is missing or invalid''
      else (case planRequest parse h request of
          Inl message \<Rightarrow> RelayError 400 ''INVALID_RELAY_REQUEST'' message
        | Inr exchange0 \<Rightarrow>
            if chain_Contains (pl_chain exchange0) (h_Identity h)
            then RelayError 508 ''CASCADE_LOOP'' ''cascade request returned to an instance it already visited''
            else if int (length (pl_chain exchange0)) \<ge> maxHops h
            then RelayError 508 ''CASCADE_HOP_LIMIT'' ''cascade request exceeded the configured hop limit''
            else (let exchange = exchange0\<lparr>pl_next := chain_With (pl_chain exchange0) (h_Identity h)\<rparr> in
              if pl_method exchange = ''GET'' \<and> pl_ttl exchange > 0 \<and>
                 header_Get (pl_headers exchange) ''Range'' = [] \<and> h_Cache h
              then ServeCached exchange else ServeUncached exchange)))"

subsection \<open>Exchanges with the origin\<close>

definition sameOrigin :: "path_externals \<Rightarrow> url \<Rightarrow> url \<Rightarrow> bool" where
  "sameOrigin X left right \<longleftrightarrow> EqualFold X (u_Scheme left) (u_Scheme right) \<and> EqualFold X (u_Host left) (u_Host right)"

definition copy_header :: "header \<Rightarrow> string \<Rightarrow> header \<Rightarrow> header" where
  "copy_header inbound name h = (if header_Get inbound name \<noteq> [] then header_Set name (header_Get inbound name) h else h)"

definition origin_header :: "path_externals \<Rightarrow> header \<Rightarrow> plan \<Rightarrow> header" where
  "origin_header X inbound exchange =
     (let userAgent0 = TrimSpace (header_Get inbound ''User-Agent'');
          userAgent = (if userAgent0 = [] then ''depsilo-relay/0.1'' else userAgent0);
          h = fold (copy_header inbound) [''Accept'', ''Accept-Language'', ''Range''] (header_Set ''User-Agent'' userAgent no_header) in
      case pl_sourceURL exchange of
        None \<Rightarrow> h
      | Some s \<Rightarrow> if sameOrigin X (pl_target exchange) s then copy_header inbound ''Authorization'' h else h)"

text \<open>\<open>valid\<close> says whether \<open>http.NewRequest\<close> accepts the URL.\<close>

definition buildOriginRequest ::
  "path_externals \<Rightarrow> (string \<Rightarrow> bool) \<Rightarrow> cascade_context \<Rightarrow> http_request \<Rightarrow> plan \<Rightarrow> string \<Rightarrow> http_request option" where
  "buildOriginRequest X valid ctx inbound exchange method =
     (if \<not> valid (pl_targetRaw exchange) then None
      else Some \<lparr>hr_Method = method, hr_URL = pl_target exchange, hr_Header = origin_header X (hr_Header inbound) exchange,
        hr_Context = Some ctx\<rparr>)"

definition clientFor :: "'client Handler \<Rightarrow> plan \<Rightarrow> 'client" where
  "clientFor h exchange =
     (case h_ResolveEgress h of
        None \<Rightarrow> h_DefaultClient h
      | Some resolve \<Rightarrow>
          if pl_source exchange = [] then h_DefaultClient h
          else (case resolve (pl_source exchange) (pl_targetRaw exchange) of None \<Rightarrow> h_DefaultClient h | Some c \<Rightarrow> c))"

definition relayResponseHeaders :: "string list" where
  "relayResponseHeaders =
    [''Accept-Ranges'', ''Content-Disposition'', ''Content-Encoding'', ''Content-Language'', ''Content-Range'', ''Digest'',
     ''Docker-Content-Digest'', ''ETag'', ''Last-Modified'', ''Link'', ''Location'', ''X-Checksum-Md5'', ''X-Checksum-Sha1'',
     ''X-Checksum-Sha256'', ''X-Checksum-Sha512'', ''X-Linked-Etag'', ''X-Linked-Size'', ''X-Repo-Commit'']"

definition copyRelayResponseHeaders :: "http_response \<Rightarrow> header \<Rightarrow> header" where
  "copyRelayResponseHeaders response destination =
     (let d1 = fold (\<lambda>name d. fold (header_Add name) (header_Values (hp_Header response) name) d) relayResponseHeaders destination;
          contentType = header_Get (hp_Header response) ''Content-Type'';
          d2 = (if contentType \<noteq> [] then header_Set ''Content-Type'' contentType d1 else d1) in
      if hp_ContentLength response > 0 then header_Set ''Content-Length'' (FormatInt (hp_ContentLength response)) d2 else d2)"

text \<open>The codes and messages are plain ASCII, for which the verb \<open>%q\<close> writes the text between quotes.\<close>

definition quoted :: "string \<Rightarrow> string" where
  "quoted s = char_of (34 :: nat) # s @ [char_of (34 :: nat)]"

definition writeRelayError :: "header \<Rightarrow> int \<Rightarrow> string \<Rightarrow> string \<Rightarrow> written" where
  "writeRelayError w status code message =
     \<lparr>wr_Status = status, wr_Header = header_Set ''Content-Type'' ''application/json; charset=utf-8'' w,
      wr_Body = ''{'' @ quoted ''code'' @ '':'' @ quoted code @ '','' @ quoted ''message'' @ '':'' @ quoted message @ ''}''\<rparr>"

definition relay_unavailable :: "header \<Rightarrow> written" where
  "relay_unavailable w = writeRelayError w 502 ''RELAY_UPSTREAM_UNAVAILABLE'' ''relay could not reach the origin''"

type_synonym 'client network = "'client \<Rightarrow> http_request \<Rightarrow> gerror + http_response"

definition serveUncached ::
  "path_externals \<Rightarrow> (string \<Rightarrow> bool) \<Rightarrow> 'client network \<Rightarrow> 'client Handler \<Rightarrow> http_request \<Rightarrow> plan \<Rightarrow> header \<Rightarrow> written" where
  "serveUncached X valid net h request exchange w =
     (let ctx = WithChain (hr_Context request) (Some (pl_next exchange)) in
      case buildOriginRequest X valid ctx request exchange (pl_method exchange) of
        None \<Rightarrow> writeRelayError w 400 ''INVALID_RELAY_REQUEST'' ''relay request could not be built''
      | Some origin \<Rightarrow>
          (case net (clientFor h exchange) origin of
             Inl _ \<Rightarrow> relay_unavailable w
           | Inr response \<Rightarrow>
               \<lparr>wr_Status = hp_Status response,
                wr_Header = header_Set HeaderCache CacheBypass (copyRelayResponseHeaders response w),
                wr_Body = (if pl_method exchange = ''HEAD'' then [] else hp_Body response)\<rparr>))"

datatype fetch_error = errRelayRedirect | errNotModified | originStatusError int | fetchFailed gerror

text \<open>\<open>stored\<close> are the validators of the cached entry, when there is one.\<close>

definition relay_fetch ::
  "path_externals \<Rightarrow> (string \<Rightarrow> bool) \<Rightarrow> 'client network \<Rightarrow> 'client Handler \<Rightarrow> (string \<times> string) option \<Rightarrow> http_request \<Rightarrow> plan \<Rightarrow>
     cascade_context \<Rightarrow> fetch_error + http_response" where
  "relay_fetch X valid net h stored request exchange ctx =
     (case buildOriginRequest X valid ctx request exchange ''GET'' of
        None \<Rightarrow> Inl (fetchFailed plain_error)
      | Some origin0 \<Rightarrow>
          (let origin = (case stored of
                 None \<Rightarrow> origin0
               | Some (etag, modified) \<Rightarrow>
                   if \<not> h_DB h then origin0
                   else origin0\<lparr>hr_Header :=
                     (let h1 = (if etag \<noteq> [] then header_Set ''If-None-Match'' etag (hr_Header origin0) else hr_Header origin0) in
                      if modified \<noteq> [] then header_Set ''If-Modified-Since'' modified h1 else h1)\<rparr>) in
           case net (clientFor h exchange) origin of
             Inl e \<Rightarrow> Inl (fetchFailed e)
           | Inr response \<Rightarrow>
               if hp_Status response = 304 then Inl errNotModified
               else if 300 \<le> hp_Status response \<and> hp_Status response < 400 then Inl errRelayRedirect
               else if 400 \<le> hp_Status response then Inl (originStatusError (hp_Status response))
               else Inr response))"

definition AllowStaleFallback :: "int \<Rightarrow> bool" where
  "AllowStaleFallback status \<longleftrightarrow> \<not> (status = 401 \<or> status = 403 \<or> status = 404 \<or> status = 410)"

record cache_result =
  ca_Headers :: "(string \<times> string list) list"
  ca_ContentType :: string
  ca_Size :: int
  ca_Hit :: bool
  ca_Body :: string

type_synonym cache_get = "string \<Rightarrow> string \<Rightarrow> int \<Rightarrow> (cascade_context \<Rightarrow> fetch_error + http_response) \<Rightarrow> cascade_context \<Rightarrow> fetch_error + cache_result"

definition serveCached ::
  "path_externals \<Rightarrow> (string \<Rightarrow> bool) \<Rightarrow> 'client network \<Rightarrow> cache_get \<Rightarrow> (string \<times> string) option \<Rightarrow> 'client Handler \<Rightarrow>
     http_request \<Rightarrow> plan \<Rightarrow> header \<Rightarrow> written" where
  "serveCached X valid net cache stored h request exchange w =
     (let ctx = WithChain (hr_Context request) (Some (pl_next exchange)) in
      case cache (pl_cacheKey exchange) cacheAdapterType (pl_ttl exchange)
          (relay_fetch X valid net h stored request exchange) ctx of
        Inl errRelayRedirect \<Rightarrow> serveUncached X valid net h request exchange w
      | Inl errNotModified \<Rightarrow> serveUncached X valid net h request exchange w
      | Inl (originStatusError status) \<Rightarrow> writeRelayError w status ''UPSTREAM_ERROR'' ''origin returned an error status''
      | Inl (fetchFailed _) \<Rightarrow> relay_unavailable w
      | Inr result \<Rightarrow>
          (let w1 = fold (\<lambda>(name, values) w. w(name := values)) (ca_Headers result) w;
               contentType = (if ca_ContentType result = [] then ''application/octet-stream'' else ca_ContentType result);
               w2 = header_Set ''Content-Type'' contentType w1;
               w3 = (if ca_Size result > 0 then header_Set ''Content-Length'' (FormatInt (ca_Size result)) w2 else w2) in
           \<lparr>wr_Status = 200, wr_Header = header_Set HeaderCache (if ca_Hit result then CacheHit else CacheMiss) w3,
            wr_Body = ca_Body result\<rparr>))"

definition relay_ServeHTTP ::
  "path_externals \<Rightarrow> (string \<Rightarrow> url option) \<Rightarrow> (string \<Rightarrow> bool) \<Rightarrow> 'client network \<Rightarrow> cache_get \<Rightarrow> (string \<times> string) option \<Rightarrow>
     'client Handler \<Rightarrow> http_request \<Rightarrow> written" where
  "relay_ServeHTTP X parse valid net cache stored h request =
     (let w = header_Set HeaderInstance (h_Identity h) no_header in
      case relay_decide parse h request of
        RelayError status code message \<Rightarrow> writeRelayError w status code message
      | ServeUncached exchange \<Rightarrow> serveUncached X valid net h request exchange w
      | ServeCached exchange \<Rightarrow> serveCached X valid net cache stored h request exchange w)"

subsection \<open>The child's transport\<close>

record PeerEgress =
  pe_Name :: string
  pe_URL :: "url option"
  pe_Token :: string
  pe_LocalInstanceID :: string
  pe_MaxHops :: int
  pe_ForwardCredentials :: bool

type_synonym PeerSet = "string \<rightharpoonup> PeerEgress"

definition NewPeerSet :: "PeerEgress list \<Rightarrow> PeerSet" where
  "NewPeerSet entries = fold (\<lambda>e s. s(pe_Name e \<mapsto> e)) entries Map.empty"

definition peer_Resolve :: "PeerSet option \<Rightarrow> string \<Rightarrow> PeerEgress option" where
  "peer_Resolve s name = (case s of None \<Rightarrow> None | Some peers \<Rightarrow> peers name)"

record peerTransport =
  pt_relay :: url
  pt_peer :: PeerEgress
  pt_source :: string

text \<open>\<open>base\<close> says whether a base transport is given.\<close>

definition newPeerTransport :: "(string \<Rightarrow> url option) \<Rightarrow> bool \<Rightarrow> PeerEgress \<Rightarrow> string \<Rightarrow> gerror + peerTransport" where
  "newPeerTransport parse base peer0 source =
     (if \<not> base then Inl plain_error
      else (case pe_URL peer0 of
          None \<Rightarrow> Inl plain_error
        | Some u \<Rightarrow>
            if u_Host u = [] \<or> (u_Scheme u \<noteq> ''http'' \<and> u_Scheme u \<noteq> ''https'') then Inl plain_error
            else if pe_Token peer0 = [] then Inl plain_error
            else if \<not> ValidInstanceID (pe_LocalInstanceID peer0) then Inl plain_error
            else (let peer = (if pe_MaxHops peer0 \<le> 0 then peer0\<lparr>pe_MaxHops := DefaultMaxHops\<rparr> else peer0) in
              if pe_MaxHops peer > int MaxChainEntries then Inl plain_error
              else (case parse (TrimSpace source) of
                  None \<Rightarrow> Inl plain_error
                | Some s \<Rightarrow>
                    if u_Host s = [] \<or> (u_Scheme s \<noteq> ''http'' \<and> u_Scheme s \<noteq> ''https'') then Inl plain_error
                    else Inr \<lparr>pt_relay = u\<lparr>u_Path := strip_suffix_while (\<lambda>c. c = CHR ''/'') (u_Path u) @ RelayPath, u_Fragment := []\<rparr>,
                      pt_peer = peer, pt_source = u_Text s\<rparr>))))"

definition hopByHopHeaders :: "string list" where
  "hopByHopHeaders = [''Connection'', ''Proxy-Connection'', ''Keep-Alive'', ''Proxy-Authenticate'', ''Proxy-Authorization'',
     ''TE'', ''Trailer'', ''Transfer-Encoding'', ''Upgrade'']"

definition connection_names :: "header \<Rightarrow> string list" where
  "connection_names h = filter (\<lambda>n. n \<noteq> []) (map TrimSpace (concat (map (\<lambda>v. Split v CHR '','') (header_Values h ''Connection''))))"

definition stripHopByHopHeaders :: "header \<Rightarrow> header" where
  "stripHopByHopHeaders h = fold header_Del hopByHopHeaders (fold header_Del (connection_names h) h)"

definition relay_header :: "peerTransport \<Rightarrow> http_request \<Rightarrow> Chain \<Rightarrow> header" where
  "relay_header t request chain =
     (let peer = pt_peer t;
          h1 = stripHopByHopHeaders (hr_Header request);
          h2 = (if pe_ForwardCredentials peer then h1
                else header_Del ''Proxy-Authorization'' (header_Del ''Cookie'' (header_Del ''Authorization'' h1)));
          h3 = header_Set HeaderChain (chain_String chain) (header_Set HeaderToken (pe_Token peer)
                 (header_Set HeaderSource (pt_source t) (header_Set HeaderTarget (u_Text (hr_URL request)) h2)));
          h4 = (case FetchTTLFrom (hr_Context request) of
                  Some ttl \<Rightarrow> header_Set HeaderTTL (FormatTTLHeader ttl) h3 | None \<Rightarrow> header_Del HeaderTTL h3) in
      case FetchKindFrom (hr_Context request) of
        Some kind \<Rightarrow> header_Set HeaderKind kind h4 | None \<Rightarrow> header_Del HeaderKind h4)"

definition peer_RoundTrip :: "peerTransport \<Rightarrow> http_request \<Rightarrow> gerror + http_request" where
  "peer_RoundTrip t request =
     (let target = hr_URL request; peer = pt_peer t;
          chain0 = ChainFrom (hr_Context request);
          chain = (if chain0 = [] then [pe_LocalInstanceID peer] else chain0) in
      if hr_Method request \<noteq> ''GET'' \<and> hr_Method request \<noteq> ''HEAD'' then Inl plain_error
      else if u_User target then Inl plain_error
      else if u_Scheme target \<noteq> ''http'' \<and> u_Scheme target \<noteq> ''https'' then Inl plain_error
      else if length (u_Text target) > MaxTargetURLLength then Inl plain_error
      else if int (length chain) > pe_MaxHops peer then Inl plain_error
      else Inr (request\<lparr>hr_URL := pt_relay t, hr_Header := relay_header t request chain\<rparr>))"

subsection \<open>Loops\<close>

text \<open>The plan of a request that the endpoint serves.\<close>

definition accepted :: "(string \<Rightarrow> url option) \<Rightarrow> 'client Handler \<Rightarrow> http_request \<Rightarrow> plan option" where
  "accepted parse h request =
     (case relay_decide parse h request of RelayError _ _ _ \<Rightarrow> None | ServeUncached p \<Rightarrow> Some p | ServeCached p \<Rightarrow> Some p)"

lemma planRequest_facts:
  "planRequest parse h request = Inr p \<Longrightarrow>
    ParseChain (header_Get (hr_Header request) HeaderChain) = Inr (pl_chain p) \<and> pl_chain p \<noteq> [] \<and> ValidInstanceID (h_Identity h) \<and>
    pl_headers p = hr_Header request \<and> pl_cacheKey p = relayCacheKey p \<and>
    (\<exists>t. ParseTTLHeader (header_Get (hr_Header request) HeaderTTL) = Inr t \<and> pl_ttl p = relay_ttl h (case t of None \<Rightarrow> 0 | Some t \<Rightarrow> t))"
  by (auto simp: planRequest_def Let_def make_plan_def relayCacheKey_def split: if_split_asm option.split_asm sum.split_asm)

lemma planRequest_chain:
  assumes "planRequest parse h request = Inr p"
  shows "ParseChain (header_Get (hr_Header request) HeaderChain) = Inr (pl_chain p)" and "pl_chain p \<noteq> []"
    and "ValidInstanceID (h_Identity h)"
    and "pl_headers p = hr_Header request" and "pl_cacheKey p = relayCacheKey p"
    and "\<exists>t. ParseTTLHeader (header_Get (hr_Header request) HeaderTTL) = Inr t \<and> pl_ttl p = relay_ttl h (case t of None \<Rightarrow> 0 | Some t \<Rightarrow> t)"
  using planRequest_facts [OF assms] by blast+

lemma relay_decide_served:
  assumes "relay_decide parse h request = ServeCached p \<or> relay_decide parse h request = ServeUncached p"
  shows "\<exists>p0. planRequest parse h request = Inr p0 \<and> p = p0\<lparr>pl_next := chain_With (pl_chain p0) (h_Identity h)\<rparr> \<and>
    h_Identity h \<notin> set (pl_chain p0) \<and> int (length (pl_chain p0)) < maxHops h"
  using assms by (auto simp: relay_decide_def Let_def chain_Contains_def split: if_splits sum.split_asm)

lemma accepted_chain:
  assumes "accepted parse h request = Some p"
  shows "ParseChain (header_Get (hr_Header request) HeaderChain) = Inr (pl_chain p)" and "pl_chain p \<noteq> []"
    and "ValidInstanceID (h_Identity h)" and "h_Identity h \<notin> set (pl_chain p)"
    and "int (length (pl_chain p)) < maxHops h" and "pl_next p = pl_chain p @ [h_Identity h]"
proof -
  have "relay_decide parse h request = ServeCached p \<or> relay_decide parse h request = ServeUncached p"
    using assms by (auto simp: accepted_def split: relay_decision.split_asm)
  then obtain p0 where p0: "planRequest parse h request = Inr p0" "p = p0\<lparr>pl_next := chain_With (pl_chain p0) (h_Identity h)\<rparr>"
    "h_Identity h \<notin> set (pl_chain p0)" "int (length (pl_chain p0)) < maxHops h"
    using relay_decide_served by blast
  note planRequest_chain [OF p0(1)]
  then show "ParseChain (header_Get (hr_Header request) HeaderChain) = Inr (pl_chain p)" "pl_chain p \<noteq> []"
    "ValidInstanceID (h_Identity h)" "h_Identity h \<notin> set (pl_chain p)"
    "int (length (pl_chain p)) < maxHops h" "pl_next p = pl_chain p @ [h_Identity h]"
    using p0 by (simp_all add: chain_With_def)
qed

lemma canonical_keys:
  "CanonicalMIMEHeaderKey HeaderChain \<noteq> CanonicalMIMEHeaderKey HeaderTTL"
  "CanonicalMIMEHeaderKey HeaderChain \<noteq> CanonicalMIMEHeaderKey HeaderKind"
  by code_simp+

lemma RoundTrip_header:
  assumes "peer_RoundTrip t request = Inr out"
  shows "\<exists>chain. chain = (if ChainFrom (hr_Context request) = [] then [pe_LocalInstanceID (pt_peer t)] else ChainFrom (hr_Context request)) \<and>
    int (length chain) \<le> pe_MaxHops (pt_peer t) \<and> hr_Header out = relay_header t request chain"
  using assms unfolding peer_RoundTrip_def Let_def by (auto split: if_split_asm)

lemma relay_header_chain: "header_Get (relay_header t request chain) HeaderChain = chain_String chain"
  using canonical_keys by (simp add: relay_header_def Let_def header_Get_Set header_Get_Del split: option.split)

lemma RoundTrip_chain:
  assumes "peer_RoundTrip t request = Inr out"
  shows "header_Get (hr_Header out) HeaderChain =
      chain_String (if ChainFrom (hr_Context request) = [] then [pe_LocalInstanceID (pt_peer t)] else ChainFrom (hr_Context request))"
    and "int (length (ChainFrom (hr_Context request))) \<le> pe_MaxHops (pt_peer t)"
  using RoundTrip_header [OF assms] relay_header_chain by (simp, fastforce split: if_splits)

lemma newPeerTransport_hops:
  "newPeerTransport parse base peer source = Inr t \<Longrightarrow> pe_MaxHops (pt_peer t) \<le> int MaxChainEntries"
  by (auto simp: newPeerTransport_def Let_def split: if_splits option.split_asm)

text \<open>
  The handlers that one request passes, each reached from the one before through the child's
  transport, whatever else the requests carry. The chain of the first request and the chain
  that the last handler passes on are recorded.
\<close>

inductive relay_path :: "(string \<Rightarrow> url option) \<Rightarrow> 'client Handler list \<Rightarrow> Chain \<Rightarrow> Chain \<Rightarrow> bool" for parse where
  first: "accepted parse h request = Some p \<Longrightarrow> relay_path parse [h] (pl_chain p) (pl_next p)"
| hop: "relay_path parse hs c0 chain \<Longrightarrow> newPeerTransport parse True peer source = Inr t \<Longrightarrow>
    ChainFrom (hr_Context request) = chain \<Longrightarrow> peer_RoundTrip t request = Inr out \<Longrightarrow>
    accepted parse h out = Some p \<Longrightarrow> relay_path parse (hs @ [h]) c0 (pl_next p)"

lemma relay_path_inv:
  "relay_path parse hs c0 chain \<Longrightarrow>
    hs \<noteq> [] \<and> c0 \<noteq> [] \<and> chain = c0 @ map h_Identity hs \<and> list_all ValidInstanceID chain \<and>
    distinct (map h_Identity hs) \<and> set (map h_Identity hs) \<inter> set c0 = {} \<and> int (length chain) \<le> maxHops (last hs)"
proof (induction rule: relay_path.induct)
  case (first h request p)
  then show ?case using accepted_chain [OF first] ParseChain_sound by fastforce
next
  case (hop hs c0 chain peer source t request out h p)
  have chain: "chain \<noteq> []" using hop.IH by simp
  have "int (length chain) \<le> int MaxChainEntries"
    using RoundTrip_chain(2) [OF hop.hyps(4)] newPeerTransport_hops [OF hop.hyps(2)] hop.hyps(3)
    by simp
  moreover have "list_all ValidInstanceID chain" using hop.IH by blast
  ultimately have "ParseChain (chain_String chain) = Inr chain" by (intro ParseChain_String) simp_all
  then have "pl_chain p = chain"
    using accepted_chain(1) [OF hop.hyps(5)] RoundTrip_chain(1) [OF hop.hyps(4)] hop.hyps(3) chain by simp
  then show ?case using accepted_chain(2-6) [OF hop.hyps(5)] hop.IH by auto
qed

text \<open>
  C8: A relayed request never loops. Along every path of handlers that serve one request, each
  reached through the transport of the one before, no instance appears twice and none that the
  first request had already visited appears again; the path is shorter than the hop limit of its
  last handler. So relaying ends, whatever the peers' configuration.
\<close>

theorem relay_never_loops:
  assumes "relay_path parse hs c0 chain"
  shows "distinct (map h_Identity hs) \<and> set (map h_Identity hs) \<inter> set c0 = {} \<and> int (length hs) < maxHops (last hs)"
proof -
  have "c0 \<noteq> []" "chain = c0 @ map h_Identity hs" "int (length chain) \<le> maxHops (last hs)"
    using relay_path_inv [OF assms] by blast+
  then have "int (length hs) < maxHops (last hs)" by (cases c0) simp_all
  then show ?thesis using relay_path_inv [OF assms] by blast
qed

subsection \<open>Credentials\<close>

lemma strip_keeps_empty: "header_Get (fold header_Del names h) k = [] \<or> header_Get (fold header_Del names h) k = header_Get h k"
proof (induction names arbitrary: h)
  case (Cons n names)
  then show ?case using Cons.IH [of "header_Del n h"] by (auto simp: header_Get_Del split: if_splits)
qed simp

lemma credential_keys:
  "list_all (\<lambda>k. list_all (\<lambda>c. CanonicalMIMEHeaderKey k \<noteq> CanonicalMIMEHeaderKey c)
     [HeaderChain, HeaderToken, HeaderSource, HeaderTarget, HeaderTTL, HeaderKind])
     [''Authorization'', ''Cookie'', ''Proxy-Authorization'']"
  by code_simp

lemma RoundTrip_credentials:
  assumes "peer_RoundTrip t request = Inr out" and "\<not> pe_ForwardCredentials (pt_peer t)"
    and "k \<in> {''Authorization'', ''Cookie'', ''Proxy-Authorization''}"
  shows "header_Get (hr_Header out) k = []"
proof -
  have "CanonicalMIMEHeaderKey k \<noteq> CanonicalMIMEHeaderKey c"
    if "c \<in> {HeaderChain, HeaderToken, HeaderSource, HeaderTarget, HeaderTTL, HeaderKind}" for c
    using credential_keys that assms(3) by (auto simp: list_all_iff)
  then have "header_Get (relay_header t request chain) k = []" for chain
    using assms(2,3) by (auto simp: relay_header_def Let_def header_Get_Set header_Get_Del split: option.split)
  then show ?thesis using RoundTrip_header [OF assms(1)] by auto
qed

lemma copy_header_other:
  "CanonicalMIMEHeaderKey k \<noteq> CanonicalMIMEHeaderKey name \<Longrightarrow> header_Get (copy_header inbound name h) k = header_Get h k"
  by (simp add: copy_header_def header_Get_Set)

lemma origin_keys:
  "list_all (\<lambda>k. list_all (\<lambda>c. CanonicalMIMEHeaderKey k \<noteq> CanonicalMIMEHeaderKey c)
     [''Accept'', ''Accept-Language'', ''Range'', ''User-Agent'']) [''Authorization'', ''Cookie'', ''Proxy-Authorization'']"
  "CanonicalMIMEHeaderKey ''Cookie'' \<noteq> CanonicalMIMEHeaderKey ''Authorization''"
  "CanonicalMIMEHeaderKey ''Proxy-Authorization'' \<noteq> CanonicalMIMEHeaderKey ''Authorization''"
  by code_simp+

lemma origin_header_credentials:
  assumes "k \<in> {''Authorization'', ''Cookie'', ''Proxy-Authorization''}"
  shows "header_Get (origin_header X inbound p) k =
    (if k = ''Authorization'' \<and> (\<exists>s. pl_sourceURL p = Some s \<and> sameOrigin X (pl_target p) s)
     then header_Get inbound ''Authorization'' else [])"
proof -
  have other: "CanonicalMIMEHeaderKey k \<noteq> CanonicalMIMEHeaderKey c" if "c \<in> {''Accept'', ''Accept-Language'', ''Range'', ''User-Agent''}" for c
    using origin_keys(1) assms that by (auto simp: list_all_iff)
  have "header_Get no_header k = []" by (simp add: header_Get_def header_Values_def no_header_def)
  then have base: "header_Get (fold (copy_header inbound) [''Accept'', ''Accept-Language'', ''Range''] (header_Set ''User-Agent'' u no_header)) k = []" for u
    using other by (simp add: copy_header_other header_Get_Set)
  then show ?thesis
    using assms origin_keys(2,3)
    by (auto simp: origin_header_def Let_def copy_header_def [of _ "''Authorization''"] header_Get_Set split: option.split)
qed

text \<open>
  C9: Credentials stay where they belong. A child whose peer is not allowed to see credentials sends
  none of the three credential headers, whatever its adapters put into the request. The parent
  sends an \<open>Authorization\<close> header on to the target only if the target is on the origin that the
  child named as its source, and then the child's own value; it never sends a cookie.
\<close>

theorem credentials_stay_home:
  assumes "k \<in> {''Authorization'', ''Cookie'', ''Proxy-Authorization''}"
  shows "(peer_RoundTrip t request = Inr out \<and> \<not> pe_ForwardCredentials (pt_peer t) \<longrightarrow> header_Get (hr_Header out) k = []) \<and>
    (buildOriginRequest X valid ctx inbound p method = Some origin \<and> header_Get (hr_Header origin) k \<noteq> [] \<longrightarrow>
       k = ''Authorization'' \<and> header_Get (hr_Header origin) k = header_Get (hr_Header inbound) ''Authorization'' \<and>
       (\<exists>s. pl_sourceURL p = Some s \<and> sameOrigin X (pl_target p) s))"
  using RoundTrip_credentials [OF _ _ assms] origin_header_credentials [OF assms, of X "hr_Header inbound" p]
  by (auto simp: buildOriginRequest_def split: if_splits)

definition with_credentials :: "string \<Rightarrow> http_request \<Rightarrow> http_request" where
  "with_credentials a request = request\<lparr>hr_Header := header_Set ''Authorization'' a (hr_Header request)\<rparr>"

lemma authorization_key:
  "list_all (\<lambda>k. CanonicalMIMEHeaderKey k \<noteq> CanonicalMIMEHeaderKey ''Authorization'')
     [HeaderToken, HeaderTarget, HeaderChain, HeaderTTL, HeaderKind, HeaderSource, ''Accept'', ''Range'']"
  by code_simp

lemma with_credentials_Get:
  "k \<in> {HeaderToken, HeaderTarget, HeaderChain, HeaderTTL, HeaderKind, HeaderSource, ''Accept'', ''Range''} \<Longrightarrow>
    header_Get (hr_Header (with_credentials a request)) k = header_Get (hr_Header request) k"
  using authorization_key by (auto simp: with_credentials_def header_Get_Set list_all_iff)

lemma with_credentials_any:
  "planRequest parse h (with_credentials c request) =
    map_sum id (\<lambda>p. p\<lparr>pl_headers := hr_Header (with_credentials c request)\<rparr>) (planRequest parse h request)"
proof -
  have same_verb: "hr_Method (with_credentials c request) = hr_Method request" by (simp add: with_credentials_def)
  have "make_plan parse h (with_credentials c request) target chain ttl =
    (make_plan parse h request target chain ttl)\<lparr>pl_headers := hr_Header (with_credentials c request)\<rparr>" for target chain ttl
    by (simp add: make_plan_def Let_def with_credentials_Get same_verb relayCacheKey_def)
  then show ?thesis
    unfolding planRequest_def Let_def by (simp add: with_credentials_Get split: option.split sum.split)
qed

lemma with_credentials_plan:
  assumes "planRequest parse h (with_credentials a request) = Inr p"
  shows "planRequest parse h (with_credentials b request) = Inr (p\<lparr>pl_headers := hr_Header (with_credentials b request)\<rparr>)"
  using assms with_credentials_any [of parse h a request] with_credentials_any [of parse h b request]
  by (cases "planRequest parse h request") auto

text \<open>
  The cache is shared across credentials. The key of a relayed response is made from the method,
  the target and the \<open>Accept\<close> header. Two cacheable requests that differ only in \<open>Authorization\<close>,
  or in that one has none, have the same key, while each is answered by the origin under its
  own credentials; a cache that holds the answer to the first gives its body to the second.
\<close>

theorem relay_cache_ignores_credentials:
  assumes "relay_decide parse h (with_credentials a request) = ServeCached p" and "store (pl_cacheKey p) = Some answer"
  shows "\<exists>q. relay_decide parse h (with_credentials b request) = ServeCached q \<and> pl_cacheKey q = pl_cacheKey p \<and>
    wr_Body (relay_ServeHTTP X parse valid net (\<lambda>key _ _ fetch ctx. case store key of Some r \<Rightarrow> Inr r | None \<Rightarrow> Inl (fetchFailed plain_error))
       stored h (with_credentials b request)) = ca_Body answer"
proof -
  obtain p0 where p0: "planRequest parse h (with_credentials a request) = Inr p0"
    "p = p0\<lparr>pl_next := chain_With (pl_chain p0) (h_Identity h)\<rparr>"
    using relay_decide_served assms(1) by blast
  let ?q0 = "p0\<lparr>pl_headers := hr_Header (with_credentials b request)\<rparr>"
  let ?q = "?q0\<lparr>pl_next := chain_With (pl_chain p0) (h_Identity h)\<rparr>"
  have same_verb: "hr_Method (with_credentials c request) = hr_Method request" for c by (simp add: with_credentials_def)
  have auth: "authorized h (with_credentials c request) \<longleftrightarrow> authorized h request" for c
    by (simp add: authorized_def with_credentials_Get)
  have heads: "pl_headers p0 = hr_Header (with_credentials a request)" using planRequest_chain(4) [OF p0(1)] .
  have served: "relay_decide parse h (with_credentials b request) = ServeCached ?q"
    using assms(1) p0 heads with_credentials_plan [OF p0(1), of b]
    by (simp add: relay_decide_def Let_def same_verb auth with_credentials_Get split: if_splits)
  moreover have "pl_cacheKey ?q = pl_cacheKey p" using p0(2) by simp
  ultimately show ?thesis
    using assms(2) by (intro exI [of _ ?q]) (simp add: relay_ServeHTTP_def serveCached_def Let_def)
qed

subsection \<open>Freshness\<close>

text \<open>
  The freshness header. What a child writes, the parent reads back as the same whole seconds. The
  budget of a served plan is zero or less, which means uncached, or at least thirty seconds, and
  never above the larger of the configured maximum and thirty seconds.
\<close>

theorem relay_ttl_bounds:
  assumes "planRequest parse h request = Inr p"
  shows "(pl_ttl p \<le> 0 \<or> minRelayTTL \<le> pl_ttl p) \<and> pl_ttl p \<le> max (maxTTL h) minRelayTTL"
proof -
  obtain t where "pl_ttl p = relay_ttl h t" using planRequest_chain(6) [OF assms] by blast
  then show ?thesis by (auto simp: relay_ttl_def Let_def)
qed

lemma ParseInt64_FormatInt: "0 \<le> n \<Longrightarrow> n < 2 ^ 63 \<Longrightarrow> ParseInt64 (FormatInt n) = Some n"
proof -
  assume n: "0 \<le> n" "n < 2 ^ 63"
  have d: "list_all isASCIIDigit (FormatUint (nat n))" by (rule FormatUint_digits)
  moreover have "hd (FormatUint (nat n)) \<noteq> CHR ''-'' \<and> hd (FormatUint (nat n)) \<noteq> CHR ''+''"
  proof -
    have "isASCIIDigit (hd (FormatUint (nat n)))" using d by (cases "FormatUint (nat n)") auto
    moreover have "\<not> isASCIIDigit CHR ''-''" "\<not> isASCIIDigit CHR ''+''" by code_simp+
    ultimately show ?thesis by metis
  qed
  ultimately show ?thesis using n by (simp add: ParseInt64_def FormatInt_def Let_def)
qed

text \<open>
  The freshness header survives the wire to the second, and only to a point: a duration comes
  back truncated to whole seconds, but a header of \<open>2^63 div 10^9 + 1\<close> seconds or more, which is
  accepted, wraps around instead of being clamped.
\<close>

theorem ttl_header_roundtrip:
  assumes "0 < ttl" and "ttl < 2 ^ 63"
  shows "ParseTTLHeader (FormatTTLHeader ttl) = Inr (Some (ttl - ttl mod 1000000000)) \<and>
    ParseTTLHeader ''9223372037'' = Inr (Some (- 9223372036709551616))"
proof -
  let ?n = "ttl div 1000000000"
  have n: "0 \<le> ?n" "?n < 2 ^ 63" using assms by (auto simp: pos_imp_zdiv_nonneg_iff)
  have digits: "\<forall>c \<in> set (FormatInt ?n). isASCIIDigit c"
    using n(1) FormatUint_digits [of "nat ?n"] by (simp add: FormatInt_def list_all_iff)
  have trim: "TrimSpace (FormatInt ?n) = FormatInt ?n"
  proof (rule TrimSpace_id)
    have "is_ascii (FormatInt ?n)" using digits by (auto simp: is_ascii_def list_all_iff byte_class_ascii)
    then show "\<not> ContainsFunc (FormatInt ?n) IsSpace"
      using digits by (auto simp: ContainsFunc_ascii list_ex_iff isASCIIDigit_def IsSpace_def)
  qed
  have ne: "FormatInt ?n \<noteq> []" by (simp add: FormatInt_def)
  have eq: "?n * 1000000000 = ttl - ttl mod 1000000000" by (simp add: minus_mod_eq_div_mult)
  have "0 \<le> ttl mod 1000000000" by simp
  then have "wrap64 (?n * 1000000000) = ?n * 1000000000" using assms n eq by (intro wrap64_id) linarith+
  then have "ParseTTLHeader (FormatTTLHeader ttl) = Inr (Some (ttl - ttl mod 1000000000))"
    using assms(1) ParseInt64_FormatInt [OF n] trim ne eq n(1) by (simp add: ParseTTLHeader_def FormatTTLHeader_def Let_def)
  moreover have "ParseTTLHeader ''9223372037'' = Inr (Some (- 9223372036709551616))" by code_simp
  ultimately show ?thesis by blast
qed

subsection \<open>A chain of two instances\<close>

definition sample_parse :: "string \<Rightarrow> url option" where
  "sample_parse s = (if s = [] then None
     else Some \<lparr>u_Scheme = ''https'', u_Host = ''r'', u_User = False, u_Path = ''/x'', u_Fragment = [], u_Text = s\<rparr>)"

definition sample_folding :: path_externals where
  "sample_folding = \<lparr>uc_fold = id, module_UnescapePath = (\<lambda>_. None), module_EscapePath = (\<lambda>_. None),
     module_UnescapeVersion = (\<lambda>_. None), module_EscapeVersion = (\<lambda>_. None)\<rparr>"

definition sample_handler :: "string \<Rightarrow> unit Handler" where
  "sample_handler i = \<lparr>h_DB = False, h_Cache = True, h_Identity = i, h_Token = ''t'', h_MaxHops = 0, h_MaxTTL = 0,
     h_DefaultClient = (), h_ResolveEgress = None\<rparr>"

definition sample_url :: url where
  "sample_url = \<lparr>u_Scheme = ''https'', u_Host = ''r'', u_User = False, u_Path = ''/x'', u_Fragment = [], u_Text = ''https://r/x''\<rparr>"

definition sample_request :: http_request where
  "sample_request = \<lparr>hr_Method = ''GET'', hr_URL = sample_url,
     hr_Header = header_Set HeaderTarget ''https://r/x'' (header_Set HeaderToken ''t'' (header_Set HeaderChain ''c''
       (header_Set HeaderTTL ''60'' no_header))), hr_Context = None\<rparr>"

definition sample_peer :: PeerEgress where
  "sample_peer = \<lparr>pe_Name = ''p'', pe_URL = Some sample_url, pe_Token = ''t'', pe_LocalInstanceID = ''a'', pe_MaxHops = 0,
     pe_ForwardCredentials = False\<rparr>"

definition sample_onward :: http_request where
  "sample_onward = \<lparr>hr_Method = ''GET'', hr_URL = sample_url, hr_Header = no_header,
     hr_Context = Some (WithChain None (Some [''c'', ''a'']))\<rparr>"

definition sample_transport :: peerTransport where
  "sample_transport = \<lparr>pt_relay = sample_url\<lparr>u_Path := ''/x'' @ RelayPath\<rparr>, pt_peer = sample_peer\<lparr>pe_MaxHops := 4\<rparr>, pt_source = ''https://r/''\<rparr>"

lemma planRequest_ok:
  assumes "ValidInstanceID (h_Identity h)" and "TrimSpace (header_Get (hr_Header r) HeaderTarget) = raw" and "raw \<noteq> []"
    and "length raw \<le> MaxTargetURLLength" and "parse raw = Some u" and "valid_target u" and "ParseChain (header_Get (hr_Header r) HeaderChain) = Inr c" and "c \<noteq> []"
    and "ParseTTLHeader (header_Get (hr_Header r) HeaderTTL) = Inr t"
  shows "\<exists>p. planRequest parse h r = Inr p \<and> pl_chain p = c \<and> pl_method p = hr_Method r \<and> pl_headers p = hr_Header r \<and>
    pl_ttl p = relay_ttl h (case t of None \<Rightarrow> 0 | Some t \<Rightarrow> t)"
  using assms by (simp add: planRequest_def make_plan_def Let_def)

lemma accepted_ok:
  assumes "planRequest parse h r = Inr p" and "hr_Method r = ''GET''" and "authorized h r"
    and "h_Identity h \<notin> set (pl_chain p)" and "int (length (pl_chain p)) < maxHops h"
  shows "\<exists>q. accepted parse h r = Some q \<and> pl_chain q = pl_chain p \<and> pl_next q = pl_chain p @ [h_Identity h]"
  using assms by (simp add: accepted_def relay_decide_def Let_def chain_Contains_def chain_With_def)

lemma sample_plan:
  "\<exists>p. planRequest sample_parse (sample_handler ''a'') sample_request = Inr p \<and> pl_chain p = [''c''] \<and> pl_method p = ''GET'' \<and>
     pl_headers p = hr_Header sample_request \<and> pl_ttl p = 60000000000"
proof -
  have "ValidInstanceID ''a''" "TrimSpace (header_Get (hr_Header sample_request) HeaderTarget) = ''https://r/x''"
    "ParseChain (header_Get (hr_Header sample_request) HeaderChain) = Inr [''c'']"
    "ParseTTLHeader (header_Get (hr_Header sample_request) HeaderTTL) = Inr (Some 60000000000)"
    "relay_ttl (sample_handler ''a'') 60000000000 = 60000000000" by code_simp+
  then show ?thesis
    using planRequest_ok [of "sample_handler ''a''" sample_request "''https://r/x''" sample_parse sample_url "[''c'']" "Some 60000000000"]
    by (simp add: sample_handler_def sample_parse_def sample_url_def MaxTargetURLLength_def valid_target_def sample_request_def)
qed

lemma sample_first: "\<exists>p. accepted sample_parse (sample_handler ''a'') sample_request = Some p \<and> pl_chain p = [''c''] \<and> pl_next p = [''c'', ''a'']"
proof -
  obtain p where p: "planRequest sample_parse (sample_handler ''a'') sample_request = Inr p" "pl_chain p = [''c'']" using sample_plan by blast
  have "authorized (sample_handler ''a'') sample_request" by code_simp
  then show ?thesis
    using accepted_ok [OF p(1)] p(2) by (simp add: sample_request_def sample_handler_def maxHops_def DefaultMaxHops_def)
qed

lemma sample_roundtrip:
  "peer_RoundTrip sample_transport sample_onward =
    Inr (sample_onward\<lparr>hr_URL := pt_relay sample_transport, hr_Header := relay_header sample_transport sample_onward [''c'', ''a'']\<rparr>)"
  by (simp add: peer_RoundTrip_def sample_onward_def sample_transport_def sample_peer_def sample_url_def WithChain_def ChainFrom_def
      or_background_def background_def MaxTargetURLLength_def Let_def)

theorem relay_never_loops_witness:
  "\<exists>chain. relay_path sample_parse [sample_handler ''a'', sample_handler ''b''] [''c''] chain \<and>
     distinct (map h_Identity [sample_handler ''a'', sample_handler ''b'']) \<and> (2 :: int) < maxHops (sample_handler ''b'')"
proof -
  let ?out = "sample_onward\<lparr>hr_URL := pt_relay sample_transport, hr_Header := relay_header sample_transport sample_onward [''c'', ''a'']\<rparr>"
  obtain p where p: "accepted sample_parse (sample_handler ''a'') sample_request = Some p" "pl_chain p = [''c'']" "pl_next p = [''c'', ''a'']"
    using sample_first by blast
  have one: "relay_path sample_parse [sample_handler ''a''] [''c''] [''c'', ''a'']" using relay_path.first [OF p(1)] p by simp
  have "strip_suffix_while (\<lambda>c. c = CHR ''/'') ''/x'' = ''/x''" "ValidInstanceID ''a''" "TrimSpace ''https://r/'' = ''https://r/''" by code_simp+
  then have t: "newPeerTransport sample_parse True sample_peer ''https://r/'' = Inr sample_transport"
    by (simp add: newPeerTransport_def sample_peer_def sample_url_def sample_parse_def sample_transport_def DefaultMaxHops_def MaxChainEntries_def)
  have "ValidInstanceID ''b''" "TrimSpace (header_Get (hr_Header ?out) HeaderTarget) = ''https://r/x''"
    "ParseChain (header_Get (hr_Header ?out) HeaderChain) = Inr [''c'', ''a'']"
    "ParseTTLHeader (header_Get (hr_Header ?out) HeaderTTL) = Inr None" by code_simp+
  then obtain q where q: "planRequest sample_parse (sample_handler ''b'') ?out = Inr q" "pl_chain q = [''c'', ''a'']"
    using planRequest_ok [of "sample_handler ''b''" ?out "''https://r/x''" sample_parse sample_url "[''c'', ''a'']" None]
    by (auto simp: sample_handler_def sample_parse_def sample_url_def MaxTargetURLLength_def valid_target_def)
  have "authorized (sample_handler ''b'') ?out" by code_simp
  then obtain q' where "accepted sample_parse (sample_handler ''b'') ?out = Some q'"
    using accepted_ok [OF q(1)] q(2) by (auto simp: sample_onward_def sample_handler_def maxHops_def DefaultMaxHops_def)
  moreover have "ChainFrom (hr_Context sample_onward) = [''c'', ''a'']"
    by (simp add: sample_onward_def WithChain_def ChainFrom_def or_background_def background_def)
  ultimately have "relay_path sample_parse ([sample_handler ''a''] @ [sample_handler ''b'']) [''c''] (pl_next q')"
    by (intro relay_path.hop [OF one t _ sample_roundtrip])
  then show ?thesis
    using relay_never_loops [of sample_parse "[sample_handler ''a'', sample_handler ''b'']" "[''c'']" "pl_next q'"] by auto
qed

theorem credentials_stay_home_witness:
  "header_Get (relay_header sample_transport sample_onward [''c'', ''a'']) ''Cookie'' = []"
proof -
  let ?out = "sample_onward\<lparr>hr_URL := pt_relay sample_transport, hr_Header := relay_header sample_transport sample_onward [''c'', ''a'']\<rparr>"
  have "\<not> pe_ForwardCredentials (pt_peer sample_transport)" by (simp add: sample_transport_def sample_peer_def)
  then have "header_Get (hr_Header ?out) ''Cookie'' = []"
    using credentials_stay_home [of "''Cookie''", THEN conjunct1, rule_format] sample_roundtrip by blast
  then show ?thesis by simp
qed

theorem relay_cache_ignores_credentials_witness:
  "\<exists>key. wr_Body (relay_ServeHTTP sample_folding sample_parse (\<lambda>_. True) (\<lambda>_ _. Inl plain_error)
      (\<lambda>k _ _ fetch ctx. case (Map.empty(key \<mapsto> \<lparr>ca_Headers = [], ca_ContentType = [], ca_Size = 6, ca_Hit = True, ca_Body = ''secret''\<rparr>)) k of
         Some r \<Rightarrow> Inr r | None \<Rightarrow> Inl (fetchFailed plain_error)) None (sample_handler ''a'') (with_credentials [] sample_request)) = ''secret''"
proof -
  let ?r = "with_credentials ''Bearer x'' sample_request"
  obtain p0 where p0: "planRequest sample_parse (sample_handler ''a'') sample_request = Inr p0" "pl_chain p0 = [''c'']" "pl_method p0 = ''GET''"
    "pl_ttl p0 = 60000000000" using sample_plan by blast
  have plan: "planRequest sample_parse (sample_handler ''a'') ?r = Inr (p0\<lparr>pl_headers := hr_Header ?r\<rparr>)"
    using with_credentials_any [of sample_parse "sample_handler ''a''" "''Bearer x''" sample_request] p0(1) by simp
  have "authorized (sample_handler ''a'') ?r" "header_Get (hr_Header ?r) ''Range'' = []" by code_simp+
  then obtain p where "relay_decide sample_parse (sample_handler ''a'') ?r = ServeCached p"
    using plan p0 by (auto simp: relay_decide_def Let_def with_credentials_def sample_request_def sample_handler_def
      chain_Contains_def maxHops_def DefaultMaxHops_def)
  from relay_cache_ignores_credentials [OF this, of "Map.empty(pl_cacheKey p \<mapsto> \<lparr>ca_Headers = [], ca_ContentType = [], ca_Size = 6, ca_Hit = True, ca_Body = ''secret''\<rparr>)"]
  show ?thesis by fastforce
qed

theorem relay_ttl_bounds_witness:
  "\<exists>p. planRequest sample_parse (sample_handler ''a'') sample_request = Inr p \<and> pl_ttl p \<le> max (maxTTL (sample_handler ''a'')) minRelayTTL"
  using sample_plan relay_ttl_bounds by blast

theorem ttl_header_roundtrip_witness: "ParseTTLHeader (FormatTTLHeader 60500000000) = Inr (Some 60000000000)"
  using ttl_header_roundtrip [of 60500000000] by simp

end
