(* ===== verification/Mutation_Gate.thy ===== *)
theory Mutation_Gate
  imports Prelude
begin

text \<open>
  The lock per cache key, \<open>internal/cache/key_mutation_gate.go\<close>: entries with a token and a
  reference count, created on demand and removed with their last reference. The entries are
  objects that the code compares by identity, so they live in a heap. A call is a thread that
  goes through the sections the code runs under \<open>mu\<close> and the channel operations between them,
  in any interleaving with the others. What is shown: the gate refines a plain lock per key,
  returning the token never blocks, and no entry outlives its users.
\<close>

record keyMutationEntry =
  ke_token :: bool   \<comment> \<open>the buffered channel holds its one token\<close>
  ke_refs :: int

record keyMutationGate =
  kg_entries :: "string \<rightharpoonup> nat"
  kg_heap :: "nat \<Rightarrow> keyMutationEntry"
  kg_next :: nat     \<comment> \<open>the first address never allocated\<close>

definition newKeyMutationGate :: keyMutationGate where
  "newKeyMutationGate =
     \<lparr>kg_entries = Map.empty, kg_heap = (\<lambda>_. \<lparr>ke_token = False, ke_refs = 0\<rparr>), kg_next = 0\<rparr>"

text \<open>The checks before the gate is touched; \<open>enforce\<close> tells \<open>lock\<close> from \<open>lockSnapshot\<close>.\<close>

definition gate_refuses :: "bool \<Rightarrow> string \<Rightarrow> gerror option \<Rightarrow> gerror option \<Rightarrow> gerror option" where
  "gate_refuses enforce key ctxErr lifecycleErr =
     (if key = [] then Some plain_error
      else if ctxErr \<noteq> None then ctxErr
      else if enforce then lifecycleErr else None)"

definition gate_ref :: "string \<Rightarrow> keyMutationGate \<Rightarrow> nat \<times> keyMutationGate" where
  "gate_ref key g =
     (let (e, g') = (case kg_entries g key of
            Some e \<Rightarrow> (e, g)
          | None \<Rightarrow> (kg_next g, g\<lparr>kg_entries := (kg_entries g)(key \<mapsto> kg_next g),
                                  kg_heap := (kg_heap g)(kg_next g := \<lparr>ke_token = True, ke_refs = 0\<rparr>),
                                  kg_next := Suc (kg_next g)\<rparr>)) in
      (e, g'\<lparr>kg_heap := (kg_heap g')(e := (kg_heap g' e)\<lparr>ke_refs := ke_refs (kg_heap g' e) + 1\<rparr>)\<rparr>))"

definition gate_receive :: "nat \<Rightarrow> keyMutationGate \<Rightarrow> keyMutationGate option" where
  "gate_receive e g =
     (if ke_token (kg_heap g e) then Some (g\<lparr>kg_heap := (kg_heap g)(e := (kg_heap g e)\<lparr>ke_token := False\<rparr>)\<rparr>) else None)"

text \<open>The two halves of \<open>release\<close>: a send on a channel of capacity one blocks while it is full.\<close>

definition gate_send :: "nat \<Rightarrow> keyMutationGate \<Rightarrow> keyMutationGate option" where
  "gate_send e g =
     (if ke_token (kg_heap g e) then None else Some (g\<lparr>kg_heap := (kg_heap g)(e := (kg_heap g e)\<lparr>ke_token := True\<rparr>)\<rparr>))"

definition gate_unref :: "string \<Rightarrow> nat \<Rightarrow> keyMutationGate \<Rightarrow> keyMutationGate" where
  "gate_unref key e g =
     (let g' = g\<lparr>kg_heap := (kg_heap g)(e := (kg_heap g e)\<lparr>ke_refs := ke_refs (kg_heap g e) - 1\<rparr>)\<rparr> in
      if ke_refs (kg_heap g' e) = 0 \<and> kg_entries g' key = Some e
      then g'\<lparr>kg_entries := (kg_entries g')(key := None)\<rparr> else g')"

text \<open>
  A call of \<open>lock\<close> or \<open>lockSnapshot\<close> and of the function it returns. \<open>Undoing\<close> is a call that took
  the token and then found a context cancelled.
\<close>

datatype gate_thread =
    Outside
  | Waiting bool string nat
  | Owning string nat
  | Undoing string nat
  | Dropping string nat

datatype gate_event =
    Enter bool string "gerror option" "gerror option"
  | Receive "gerror option" "gerror option"
  | Cancelled
  | Send
  | Unref

fun gate_move :: "gate_event \<Rightarrow> gate_thread \<Rightarrow> keyMutationGate \<Rightarrow> (gate_thread \<times> keyMutationGate) option" where
  "gate_move (Enter enforce key ctxErr lifecycleErr) Outside g =
     (if gate_refuses enforce key ctxErr lifecycleErr \<noteq> None then Some (Outside, g)
      else (case gate_ref key g of (e, g') \<Rightarrow> Some (Waiting enforce key e, g')))"
| "gate_move (Receive ctxErr lifecycleErr) (Waiting enforce key e) g =
     map_option (\<lambda>g'. (if ctxErr \<noteq> None \<or> enforce \<and> lifecycleErr \<noteq> None then Undoing key e else Owning key e, g'))
       (gate_receive e g)"
| "gate_move Cancelled (Waiting enforce key e) g = Some (Dropping key e, g)"
| "gate_move Send (Owning key e) g = map_option (\<lambda>g'. (Dropping key e, g')) (gate_send e g)"
| "gate_move Send (Undoing key e) g = map_option (\<lambda>g'. (Dropping key e, g')) (gate_send e g)"
| "gate_move Unref (Dropping key e) g = Some (Outside, gate_unref key e g)"
| "gate_move _ _ g = None"

type_synonym gate_system = "keyMutationGate \<times> (nat \<Rightarrow> gate_thread)"

inductive gate_reach :: "gate_system \<Rightarrow> bool" where
  start: "gate_reach (newKeyMutationGate, \<lambda>_. Outside)"
| move: "gate_reach (g, th) \<Longrightarrow> gate_move ev (th t) g = Some (p, g') \<Longrightarrow> gate_reach (g', th(t := p))"

subsection \<open>The invariant\<close>

fun uses :: "gate_thread \<Rightarrow> (string \<times> nat) option" where
  "uses Outside = None"
| "uses (Waiting b k e) = Some (k, e)"
| "uses (Owning k e) = Some (k, e)"
| "uses (Undoing k e) = Some (k, e)"
| "uses (Dropping k e) = Some (k, e)"

fun has_token :: "gate_thread \<Rightarrow> nat option" where
  "has_token (Owning k e) = Some e"
| "has_token (Undoing k e) = Some e"
| "has_token _ = None"

definition users :: "(nat \<Rightarrow> gate_thread) \<Rightarrow> nat \<Rightarrow> nat set" where
  "users th e = {t. \<exists>k. uses (th t) = Some (k, e)}"

text \<open>
  Every thread uses the entry its key has in the map, the reference count is the number of users,
  an entry in the map is allocated, used and found under one key, and exactly one of the channel
  and the threads has the token of an entry in use.
\<close>

definition gate_inv :: "gate_system \<Rightarrow> bool" where
  "gate_inv s = (case s of (g, th) \<Rightarrow>
     finite {t. th t \<noteq> Outside} \<and>
     (\<forall>t k e. uses (th t) = Some (k, e) \<longrightarrow> kg_entries g k = Some e) \<and>
     (\<forall>k e. kg_entries g k = Some e \<longrightarrow> e < kg_next g \<and> users th e \<noteq> {} \<and> ke_refs (kg_heap g e) = int (card (users th e))) \<and>
     (\<forall>k k' e. kg_entries g k = Some e \<longrightarrow> kg_entries g k' = Some e \<longrightarrow> k = k') \<and>
     (\<forall>k e. kg_entries g k = Some e \<longrightarrow> (ke_token (kg_heap g e) \<longleftrightarrow> (\<forall>t. has_token (th t) \<noteq> Some e))) \<and>
     (\<forall>t t' e. has_token (th t) = Some e \<longrightarrow> has_token (th t') = Some e \<longrightarrow> t = t'))"

lemma users_update: "users (th(t := p)) e = (if \<exists>k. uses p = Some (k, e) then insert t (users th e) else users th e - {t})"
  by (auto simp: users_def)

lemma token_uses: "has_token p = Some e \<Longrightarrow> \<exists>k. uses p = Some (k, e)"
  by (cases p) auto

lemma gate_invD:
  assumes "gate_inv (g, th)"
  shows "finite {t. th t \<noteq> Outside}"
    and "uses (th t) = Some (k, e) \<Longrightarrow> kg_entries g k = Some e"
    and "kg_entries g k = Some e \<Longrightarrow> e < kg_next g \<and> users th e \<noteq> {} \<and> ke_refs (kg_heap g e) = int (card (users th e))"
    and "kg_entries g k = Some e \<Longrightarrow> kg_entries g k' = Some e \<Longrightarrow> k = k'"
    and "kg_entries g k = Some e \<Longrightarrow> ke_token (kg_heap g e) \<longleftrightarrow> (\<forall>t. has_token (th t) \<noteq> Some e)"
    and "has_token (th t) = Some e \<Longrightarrow> has_token (th t') = Some e \<Longrightarrow> t = t'"
  using assms unfolding gate_inv_def by simp_all

lemma gate_invI:
  assumes "finite {t. th t \<noteq> Outside}"
    and "\<And>t k e. uses (th t) = Some (k, e) \<Longrightarrow> kg_entries g k = Some e"
    and "\<And>k e. kg_entries g k = Some e \<Longrightarrow> e < kg_next g \<and> users th e \<noteq> {} \<and> ke_refs (kg_heap g e) = int (card (users th e))"
    and "\<And>k k' e. kg_entries g k = Some e \<Longrightarrow> kg_entries g k' = Some e \<Longrightarrow> k = k'"
    and "\<And>k e. kg_entries g k = Some e \<Longrightarrow> ke_token (kg_heap g e) \<longleftrightarrow> (\<forall>t. has_token (th t) \<noteq> Some e)"
    and "\<And>t t' e. has_token (th t) = Some e \<Longrightarrow> has_token (th t') = Some e \<Longrightarrow> t = t'"
  shows "gate_inv (g, th)"
  unfolding gate_inv_def using assms by simp

lemma gate_users:
  assumes "gate_inv (g, th)"
  shows "finite (users th e)" and "users th (kg_next g) = {}"
proof -
  have "users th e \<subseteq> {t. th t \<noteq> Outside}" by (auto simp: users_def)
  then show "finite (users th e)" using gate_invD(1) [OF assms] finite_subset by blast
  show "users th (kg_next g) = {}"
    using gate_invD(2,3) [OF assms] by (fastforce simp: users_def)
qed

lemma finite_threads: "finite {t. th t \<noteq> Outside} \<Longrightarrow> finite {t'. (th(t := p)) t' \<noteq> Outside}"
  by (rule finite_subset [of _ "insert t {t. th t \<noteq> Outside}"]) auto

text \<open>A thread comes in: it uses the entry of its key, which is made if there is none.\<close>

lemma gate_inv_ref:
  assumes inv: "gate_inv (g, th)" and out: "th t = Outside" and ref: "gate_ref k g = (e, g')"
  shows "gate_inv (g', th(t := Waiting b k e))"
proof (cases "kg_entries g k")
  case (Some e0)
  then have g': "g' = g\<lparr>kg_heap := (kg_heap g)(e := (kg_heap g e)\<lparr>ke_refs := ke_refs (kg_heap g e) + 1\<rparr>)\<rparr>" and e: "e0 = e"
    using ref by (auto simp: gate_ref_def)
  have "t \<notin> users th e'" for e' using out by (simp add: users_def)
  then have card: "card (users (th(t := Waiting b k e)) e') = card (users th e') + (if e' = e then 1 else 0)" for e'
    using gate_users(1) [OF inv] by (simp add: users_update)
  have nonempty: "users (th(t := Waiting b k e)) e' \<noteq> {}" if "users th e' \<noteq> {}" for e'
    using that \<open>t \<notin> users th e'\<close> by (auto simp: users_update)
  let ?th = "th(t := Waiting b k e)"
  show ?thesis
  proof (rule gate_invI)
    show "finite {t'. ?th t' \<noteq> Outside}" by (rule finite_threads [OF gate_invD(1) [OF inv]])
  next
    fix t' k' e' assume "uses (?th t') = Some (k', e')"
    then show "kg_entries g' k' = Some e'"
      using gate_invD(2) [OF inv, of t'] Some e by (cases "t' = t") (simp_all add: g')
  next
    fix k' e' assume "kg_entries g' k' = Some e'"
    then show "e' < kg_next g' \<and> users ?th e' \<noteq> {} \<and> ke_refs (kg_heap g' e') = int (card (users ?th e'))"
      using gate_invD(3) [OF inv, of k' e'] nonempty [of e'] by (auto simp: g' card)
  next
    fix k1 k2 e' assume "kg_entries g' k1 = Some e'" "kg_entries g' k2 = Some e'"
    then show "k1 = k2" using gate_invD(4) [OF inv] by (simp add: g')
  next
    fix k' e' assume k': "kg_entries g' k' = Some e'"
    show "ke_token (kg_heap g' e') \<longleftrightarrow> (\<forall>t'. has_token (?th t') \<noteq> Some e')"
    proof -
      have "has_token (?th t') = has_token (th t')" for t' using out by simp
      then show ?thesis using gate_invD(5) [OF inv, of k' e'] k' by (auto simp: g')
    qed
  next
    fix t1 t2 e' assume "has_token (?th t1) = Some e'" "has_token (?th t2) = Some e'"
    then show "t1 = t2" using gate_invD(6) [OF inv] by (simp split: if_splits)
  qed
next
  case None
  then have e: "e = kg_next g" and g': "g' = g\<lparr>kg_entries := (kg_entries g)(k \<mapsto> e), kg_heap := (kg_heap g)(e := \<lparr>ke_token = True, ke_refs = 1\<rparr>), kg_next := Suc e\<rparr>"
    using ref by (auto simp: gate_ref_def)
  have fresh: "users th e = {}" using gate_users(2) [OF inv] e by simp
  have old: "e' \<noteq> e" if "kg_entries g k' = Some e'" for k' e' using gate_invD(3) [OF inv that] e by auto
  have token: "has_token (th t') \<noteq> Some e" for t' using fresh token_uses [of "th t'" e] by (auto simp: users_def)
  have "t \<notin> users th e'" for e' using out by (simp add: users_def)
  then have same: "users (th(t := Waiting b k e)) e' = users th e'" if "e' \<noteq> e" for e' using that by (auto simp: users_update)
  have new: "users (th(t := Waiting b k e)) e = {t}" using fresh by (simp add: users_update)
  have uses_k: "uses (th t') \<noteq> Some (k, e')" for t' e' using gate_invD(2) [OF inv] None by fastforce
  let ?th = "th(t := Waiting b k e)"
  show ?thesis
  proof (rule gate_invI)
    show "finite {t'. ?th t' \<noteq> Outside}" by (rule finite_threads [OF gate_invD(1) [OF inv]])
  next
    fix t' k' e' assume "uses (?th t') = Some (k', e')"
    then show "kg_entries g' k' = Some e'"
      using gate_invD(2) [OF inv, of t' k' e'] uses_k [of t' e'] by (cases "t' = t") (auto simp: g')
  next
    fix k' e' assume k': "kg_entries g' k' = Some e'"
    show "e' < kg_next g' \<and> users ?th e' \<noteq> {} \<and> ke_refs (kg_heap g' e') = int (card (users ?th e'))"
    proof (cases "k' = k")
      case True
      then show ?thesis using k' new by (simp add: g')
    next
      case False
      then have "kg_entries g k' = Some e'" using k' by (simp add: g')
      then show ?thesis using gate_invD(3) [OF inv, of k' e'] old [of k' e'] same [of e'] e by (simp add: g')
    qed
  next
    fix k1 k2 e' assume "kg_entries g' k1 = Some e'" "kg_entries g' k2 = Some e'"
    then show "k1 = k2" using gate_invD(4) [OF inv, of k1 e' k2] old [of k1 e'] old [of k2 e'] by (simp add: g' split: if_splits)
  next
    fix k' e' assume k': "kg_entries g' k' = Some e'"
    have "has_token (?th t') = has_token (th t')" for t' using out by simp
    then show "ke_token (kg_heap g' e') \<longleftrightarrow> (\<forall>t'. has_token (?th t') \<noteq> Some e')"
      using gate_invD(5) [OF inv, of k' e'] token old [of k' e'] k' by (auto simp: g' split: if_splits)
  next
    fix t1 t2 e' assume "has_token (?th t1) = Some e'" "has_token (?th t2) = Some e'"
    then show "t1 = t2" using gate_invD(6) [OF inv] by (simp split: if_splits)
  qed
qed

text \<open>A thread that stays with its entry keeps the map and the counts.\<close>

lemma gate_inv_stay:
  assumes inv: "gate_inv (g, th)" and same: "uses p = uses (th t)" "uses p = Some (k, e)"
    and g': "g' = g\<lparr>kg_heap := (kg_heap g)(e := (kg_heap g e)\<lparr>ke_token := b\<rparr>)\<rparr>"
    and b: "b \<longleftrightarrow> (\<forall>t'. has_token ((th(t := p)) t') \<noteq> Some e)"
    and uniq: "has_token p = Some e \<Longrightarrow> \<forall>t'. t' \<noteq> t \<longrightarrow> has_token (th t') \<noteq> Some e"
  shows "gate_inv (g', th(t := p))"
proof (rule gate_invI)
  have users: "users (th(t := p)) e' = users th e'" for e' using same by (auto simp: users_update) (auto simp: users_def)
  have tok: "has_token p = Some e' \<Longrightarrow> e' = e" "has_token (th t) = Some e' \<Longrightarrow> e' = e" for e'
    using token_uses [of p e'] token_uses [of "th t" e'] same by auto
  show "finite {t'. (th(t := p)) t' \<noteq> Outside}" by (rule finite_threads [OF gate_invD(1) [OF inv]])
  show "kg_entries g' k' = Some e'" if "uses ((th(t := p)) t') = Some (k', e')" for t' k' e'
    using gate_invD(2) [OF inv, of t' k' e'] same that by (simp add: g' split: if_splits)
  show "e' < kg_next g' \<and> users (th(t := p)) e' \<noteq> {} \<and> ke_refs (kg_heap g' e') = int (card (users (th(t := p)) e'))"
    if "kg_entries g' k' = Some e'" for k' e'
    using gate_invD(3) [OF inv, of k' e'] that by (auto simp: g' users)
  show "k1 = k2" if "kg_entries g' k1 = Some e'" "kg_entries g' k2 = Some e'" for k1 k2 e'
    using gate_invD(4) [OF inv] that by (simp add: g')
  show "ke_token (kg_heap g' e') \<longleftrightarrow> (\<forall>t'. has_token ((th(t := p)) t') \<noteq> Some e')" if "kg_entries g' k' = Some e'" for k' e'
  proof (cases "e' = e")
    case True
    then show ?thesis using b by (simp add: g')
  next
    case False
    then have "has_token ((th(t := p)) t') \<noteq> Some e' \<longleftrightarrow> has_token (th t') \<noteq> Some e'" for t'
      using tok [of e'] by auto
    then show ?thesis using gate_invD(5) [OF inv, of k' e'] that False by (simp add: g')
  qed
  show "t1 = t2" if "has_token ((th(t := p)) t1) = Some e'" "has_token ((th(t := p)) t2) = Some e'" for t1 t2 e'
    using gate_invD(6) [OF inv, of t1 e' t2] uniq tok(1) [of e'] that by (auto split: if_splits)
qed

text \<open>A thread leaves; with the last user the entry goes.\<close>

lemma gate_inv_unref:
  assumes inv: "gate_inv (g, th)" and th: "th t = Dropping k e"
  shows "gate_inv (gate_unref k e g, th(t := Outside))"
proof (rule gate_invI)
  let ?g = "gate_unref k e g" and ?th = "th(t := Outside)"
  have k: "kg_entries g k = Some e" using gate_invD(2) [OF inv, of t k e] th by simp
  have t: "t \<in> users th e" using th by (simp add: users_def)
  have users: "users ?th e' = (if e' = e then users th e - {t} else users th e')" for e'
    using th by (auto simp: users_update users_def)
  have refs: "ke_refs (kg_heap g e) - 1 = int (card (users ?th e))"
    using gate_invD(3) [OF inv k] t gate_users(1) [OF inv, of e] by (simp add: users card_Diff_singleton)
      (metis One_nat_def Suc_pred' card_gt_0_iff empty_iff of_nat_Suc of_nat_1 add_diff_cancel_left' plus_1_eq_Suc)
  have gone: "ke_refs (kg_heap g e) - 1 = 0 \<longleftrightarrow> users ?th e = {}"
    unfolding refs using gate_users(1) [OF inv, of e] by (simp add: users)
  have entries: "kg_entries ?g = (if users ?th e = {} then (kg_entries g)(k := None) else kg_entries g)"
    and heap: "kg_heap ?g = (kg_heap g)(e := (kg_heap g e)\<lparr>ke_refs := ke_refs (kg_heap g e) - 1\<rparr>)" and nxt: "kg_next ?g = kg_next g"
    using gone k by (auto simp: gate_unref_def Let_def)
  have only: "k' = k" if "kg_entries g k' = Some e" for k' using gate_invD(4) [OF inv that k] .
  have tok: "has_token (?th t') = has_token (th t')" for t' using th by simp
  show "finite {t'. ?th t' \<noteq> Outside}" by (rule finite_threads [OF gate_invD(1) [OF inv]])
  show "kg_entries ?g k' = Some e'" if "uses (?th t') = Some (k', e')" for t' k' e'
  proof -
    have "t' \<in> users ?th e'" using that by (auto simp: users_def)
    moreover have "kg_entries g k' = Some e'" using gate_invD(2) [OF inv, of t' k' e'] that by (simp split: if_splits)
    ultimately show ?thesis using k by (auto simp: entries)
  qed
  show "e' < kg_next ?g \<and> users ?th e' \<noteq> {} \<and> ke_refs (kg_heap ?g e') = int (card (users ?th e'))"
    if "kg_entries ?g k' = Some e'" for k' e'
  proof -
    have k': "kg_entries g k' = Some e'" using that by (simp add: entries split: if_splits)
    have "users ?th e \<noteq> {}" if "e' = e" using \<open>kg_entries ?g k' = Some e'\<close> that only [of k'] k' by (auto simp: entries split: if_splits)
    then show ?thesis using gate_invD(3) [OF inv k'] refs by (cases "e' = e") (simp_all add: heap nxt users)
  qed
  show "k1 = k2" if "kg_entries ?g k1 = Some e'" "kg_entries ?g k2 = Some e'" for k1 k2 e'
    using gate_invD(4) [OF inv, of k1 e' k2] that by (simp add: entries split: if_splits)
  show "ke_token (kg_heap ?g e') \<longleftrightarrow> (\<forall>t'. has_token (?th t') \<noteq> Some e')" if "kg_entries ?g k' = Some e'" for k' e'
    using gate_invD(5) [OF inv, of k' e'] that unfolding tok by (auto simp: entries heap split: if_splits)
  show "t1 = t2" if "has_token (?th t1) = Some e'" "has_token (?th t2) = Some e'" for t1 t2 e'
    using gate_invD(6) [OF inv, of t1 e' t2] that unfolding tok by simp
qed

lemmas gate_moveE = gate_move.elims

lemma gate_inv_move:
  assumes inv: "gate_inv (g, th)" and move: "gate_move ev (th t) g = Some (p, g')"
  shows "gate_inv (g', th(t := p))"
  using move
proof (cases rule: gate_moveE)
  case (1 enforce key ctxErr lifecycleErr)
  show ?thesis
  proof (cases "gate_refuses enforce key ctxErr lifecycleErr = None")
    case True
    then show ?thesis using 1 gate_inv_ref [OF inv 1(2)] by (auto split: prod.splits)
  next
    case False
    then show ?thesis using 1 inv by (metis fun_upd_triv option.inject prod.inject)
  qed
next
  case (2 ctxErr lifecycleErr enforce key e)
  have k: "kg_entries g key = Some e" using gate_invD(2) [OF inv, of t key e] 2 by simp
  have g': "g' = g\<lparr>kg_heap := (kg_heap g)(e := (kg_heap g e)\<lparr>ke_token := False\<rparr>)\<rparr>" and free: "ke_token (kg_heap g e)"
    and p: "p = Undoing key e \<or> p = Owning key e"
    using 2 by (auto simp: gate_receive_def split: if_splits)
  show ?thesis
    by (rule gate_inv_stay [OF inv _ _ g', of _ _ key]) (use 2 p free gate_invD(5) [OF inv k] in auto)
next
  case (3 enforce key e)
  have k: "kg_entries g key = Some e" using gate_invD(2) [OF inv, of t key e] 3 by simp
  have g': "g' = g\<lparr>kg_heap := (kg_heap g)(e := (kg_heap g e)\<lparr>ke_token := ke_token (kg_heap g e)\<rparr>)\<rparr>" using 3 by simp
  have same: "has_token ((th(t := p)) t') = has_token (th t')" for t' using 3 by simp
  show ?thesis
  proof (rule gate_inv_stay [OF inv _ _ g'])
    show "ke_token (kg_heap g e) \<longleftrightarrow> (\<forall>t'. has_token ((th(t := p)) t') \<noteq> Some e)"
      unfolding same by (rule gate_invD(5) [OF inv k])
  qed (use 3 in simp_all)
next
  case (4 key e)
  have g': "g' = g\<lparr>kg_heap := (kg_heap g)(e := (kg_heap g e)\<lparr>ke_token := True\<rparr>)\<rparr>"
    using 4 by (auto simp: gate_send_def split: if_splits)
  have p: "p = Dropping key e" using 4 by (auto simp: gate_send_def split: if_splits)
  have "has_token (th t') \<noteq> Some e" if "t' \<noteq> t" for t' using gate_invD(6) [OF inv, of t e t'] 4 that by auto
  then show ?thesis
    by (intro gate_inv_stay [OF inv _ _ g', of _ _ key]) (use 4(2) p in auto)
next
  case (5 key e)
  have g': "g' = g\<lparr>kg_heap := (kg_heap g)(e := (kg_heap g e)\<lparr>ke_token := True\<rparr>)\<rparr>"
    using 5 by (auto simp: gate_send_def split: if_splits)
  have p: "p = Dropping key e" using 5 by (auto simp: gate_send_def split: if_splits)
  have "has_token (th t') \<noteq> Some e" if "t' \<noteq> t" for t' using gate_invD(6) [OF inv, of t e t'] 5 that by auto
  then show ?thesis
    by (intro gate_inv_stay [OF inv _ _ g', of _ _ key]) (use 5(2) p in auto)
next
  case (6 key e)
  then show ?thesis using gate_inv_unref [OF inv 6(2)] by simp
qed simp_all

lemma gate_reach_inv: "gate_reach s \<Longrightarrow> gate_inv s"
proof (induction rule: gate_reach.induct)
  case start
  show ?case by (rule gate_invI) (simp_all add: newKeyMutationGate_def)
next
  case (move g th ev t p g')
  then show ?case using gate_inv_move by blast
qed

subsection \<open>Refinement of a lock per key\<close>

text \<open>The contract: a map from keys to their holder, which only the holder clears.\<close>

inductive lock_step :: "nat \<Rightarrow> (string \<rightharpoonup> nat) \<Rightarrow> (string \<rightharpoonup> nat) \<Rightarrow> bool" for t where
  stutter: "lock_step t h h"
| acquire: "h k = None \<Longrightarrow> lock_step t h (h(k \<mapsto> t))"
| release: "h k = Some t \<Longrightarrow> lock_step t h (h(k := None))"

text \<open>The holder of a key in a state of the gate.\<close>

definition owns :: "(nat \<Rightarrow> gate_thread) \<Rightarrow> string \<Rightarrow> nat \<Rightarrow> bool" where
  "owns th k t \<longleftrightarrow> (\<exists>e. has_token (th t) = Some e \<and> uses (th t) = Some (k, e))"

definition holders :: "(nat \<Rightarrow> gate_thread) \<Rightarrow> (string \<rightharpoonup> nat) \<Rightarrow> bool" where
  "holders th h \<longleftrightarrow> (\<forall>k t. h k = Some t \<longleftrightarrow> owns th k t)"

lemma owns_thread: "owns th k t \<longleftrightarrow> (\<exists>e. th t = Owning k e \<or> th t = Undoing k e)"
  by (cases "th t") (auto simp: owns_def)

lemma owns_other [simp]: "t' \<noteq> t \<Longrightarrow> owns (th(t := p)) k t' \<longleftrightarrow> owns th k t'"
  by (simp add: owns_def)

lemma holders_stay:
  assumes h: "holders th h" and "\<And>k. owns (th(t := p)) k t \<longleftrightarrow> owns th k t"
  shows "holders (th(t := p)) h"
proof -
  have "owns (th(t := p)) k t' \<longleftrightarrow> h k = Some t'" for k t'
    using assms by (cases "t' = t") (simp_all add: holders_def)
  then show ?thesis by (simp add: holders_def)
qed

lemma holders_acquire:
  assumes h: "holders th h" and "\<And>k'. owns (th(t := p)) k' t \<longleftrightarrow> k' = k" and "\<And>k'. \<not> owns th k' t" and "h k = None"
  shows "holders (th(t := p)) (h(k \<mapsto> t))"
proof -
  have "owns (th(t := p)) k' t' \<longleftrightarrow> (h(k \<mapsto> t)) k' = Some t'" for k' t'
    using assms(2-) h [unfolded holders_def, rule_format, symmetric] by (cases "t' = t"; cases "k' = k") auto
  then show ?thesis by (simp add: holders_def)
qed

lemma holders_release:
  assumes h: "holders th h" and "\<And>k'. \<not> owns (th(t := p)) k' t" and "\<And>k'. owns th k' t \<longleftrightarrow> k' = k"
  shows "holders (th(t := p)) (h(k := None))"
proof -
  have own: "owns th k' t' \<longleftrightarrow> h k' = Some t'" for k' t' using h by (simp add: holders_def)
  have "owns (th(t := p)) k' t' \<longleftrightarrow> (h(k := None)) k' = Some t'" for k' t'
    using assms(2) assms(3) [of k'] assms(3) [of k] by (cases "t' = t"; cases "k' = k") (auto simp: own)
  then show ?thesis by (simp add: holders_def)
qed

lemma free_token:
  assumes inv: "gate_inv (g, th)" and k: "kg_entries g k = Some e" and token: "ke_token (kg_heap g e)"
  shows "\<not> owns th k t"
  using gate_invD(5) [OF inv k] token gate_invD(2) [OF inv, of t k] k by (auto simp: owns_def)

lemma holders_move:
  assumes inv: "gate_inv (g, th)" and move: "gate_move ev (th t) g = Some (p, g')" and h: "holders th h"
  shows "\<exists>h'. holders (th(t := p)) h' \<and> lock_step t h h'"
  using move
proof (cases rule: gate_moveE)
  case (1 enforce key ctxErr lifecycleErr)
  then have "p = Outside \<or> (\<exists>b e. p = Waiting b key e)" by (auto split: if_splits prod.splits)
  then have "holders (th(t := p)) h" using 1(2) by (intro holders_stay [OF h]) (auto simp: owns_thread)
  then show ?thesis using lock_step.stutter by blast
next
  case (2 ctxErr lifecycleErr enforce key e)
  have k: "kg_entries g key = Some e" using gate_invD(2) [OF inv, of t key e] 2 by simp
  have p: "p = Undoing key e \<or> p = Owning key e" and free: "ke_token (kg_heap g e)"
    using 2 by (auto simp: gate_receive_def split: if_splits)
  have none: "h key = None" using free_token [OF inv k free] h by (cases "h key") (auto simp: holders_def)
  have "holders (th(t := p)) (h(key \<mapsto> t))"
    by (rule holders_acquire [OF h _ _ none]) (use 2(2) p in \<open>auto simp: owns_thread\<close>)
  then show ?thesis using lock_step.acquire [of h key t] none by blast
next
  case (3 enforce key e)
  then have "holders (th(t := p)) h" by (intro holders_stay [OF h]) (auto simp: owns_thread)
  then show ?thesis using lock_step.stutter by blast
next
  case (4 key e)
  then have p: "p = Dropping key e" by (auto simp: gate_send_def split: if_splits)
  have own: "h key = Some t" using h 4(2) by (auto simp: holders_def owns_thread)
  have "holders (th(t := p)) (h(key := None))"
    by (rule holders_release [OF h]) (use 4(2) p in \<open>auto simp: owns_thread\<close>)
  then show ?thesis using lock_step.release [of h key t] own by blast
next
  case (5 key e)
  then have p: "p = Dropping key e" by (auto simp: gate_send_def split: if_splits)
  have own: "h key = Some t" using h 5(2) by (auto simp: holders_def owns_thread)
  have "holders (th(t := p)) (h(key := None))"
    by (rule holders_release [OF h]) (use 5(2) p in \<open>auto simp: owns_thread\<close>)
  then show ?thesis using lock_step.release [of h key t] own by blast
next
  case (6 key e)
  then have "holders (th(t := p)) h" by (intro holders_stay [OF h]) (auto simp: owns_thread)
  then show ?thesis using lock_step.stutter by blast
qed simp_all

text \<open>
  C13: The gate refines a lock per key. In every interleaving of callers, with cancellations at any
  point, the threads between taking a key's token and giving it back are the holders of a lock
  map, and each step of the gate is a step of that map: a key is acquired only while nobody holds
  it and released only by its holder. Returning the token never blocks, a waiting thread can
  proceed whenever nobody holds its key, and a key that no thread uses has no entry.
\<close>

theorem gate_refines_lock:
  assumes "gate_reach (g, th)"
  shows "\<exists>h. holders th h \<and>
      (\<forall>ev t p g'. gate_move ev (th t) g = Some (p, g') \<longrightarrow> (\<exists>h'. holders (th(t := p)) h' \<and> lock_step t h h')) \<and>
      (\<forall>k t. h k = Some t \<longrightarrow> gate_move Send (th t) g \<noteq> None) \<and>
      (\<forall>b k e t. th t = Waiting b k e \<and> h k = None \<longrightarrow> gate_move (Receive None None) (th t) g \<noteq> None) \<and>
      (\<forall>k. (\<forall>t e. uses (th t) \<noteq> Some (k, e)) \<longrightarrow> kg_entries g k = None)"
proof -
  have inv: "gate_inv (g, th)" using gate_reach_inv [OF assms] .
  have uniq: "t = t'" if own: "owns th k t" "owns th k t'" for k t t'
    using own gate_invD(2) [OF inv, of t k] gate_invD(2) [OF inv, of t' k] gate_invD(6) [OF inv, of t _ t'] by (fastforce simp: owns_def)
  define h where "h k = (if \<exists>t. owns th k t then Some (THE t. owns th k t) else None)" for k
  have "h k = Some t \<longleftrightarrow> owns th k t" for k t
    using uniq the_equality [of "owns th k"] unfolding h_def by (metis option.distinct(1) option.inject)
  then have h: "holders th h" by (simp add: holders_def)
  have send: "gate_move Send (th t) g \<noteq> None" if own: "h k = Some t" for k t
  proof -
    obtain e where e: "th t = Owning k e \<or> th t = Undoing k e" using h own by (auto simp: holders_def owns_thread)
    then have "kg_entries g k = Some e" using gate_invD(2) [OF inv, of t k e] by auto
    then have "\<not> ke_token (kg_heap g e)" using gate_invD(5) [OF inv] e by (metis has_token.simps(1,2))
    then show ?thesis using e by (auto simp: gate_send_def)
  qed
  have receive: "gate_move (Receive None None) (th t) g \<noteq> None" if w: "th t = Waiting b k e" and none: "h k = None" for b k e t
  proof -
    have k: "kg_entries g k = Some e" using gate_invD(2) [OF inv, of t k e] w by simp
    have "has_token (th t') \<noteq> Some e" for t'
    proof
      assume tok: "has_token (th t') = Some e"
      then obtain k' where k': "uses (th t') = Some (k', e)" using token_uses by blast
      then have "k' = k" using gate_invD(2) [OF inv k'] gate_invD(4) [OF inv _ k] by blast
      then have "owns th k t'" using tok k' by (simp add: owns_def)
      then show False using h none by (simp add: holders_def) (metis option.distinct(1))
    qed
    then have "ke_token (kg_heap g e)" using gate_invD(5) [OF inv k] by blast
    then show ?thesis using w by (simp add: gate_receive_def)
  qed
  have entries: "kg_entries g k = None" if "\<forall>t e. uses (th t) \<noteq> Some (k, e)" for k
  proof (rule ccontr)
    assume "kg_entries g k \<noteq> None"
    then obtain e where k: "kg_entries g k = Some e" by auto
    then obtain t k' where u: "uses (th t) = Some (k', e)" using gate_invD(3) [OF inv k] by (auto simp: users_def)
    then have "k' = k" using gate_invD(2) [OF inv u] gate_invD(4) [OF inv _ k] by blast
    then show False using that u by blast
  qed
  show ?thesis using h holders_move [OF inv _ h] send receive entries by blast
qed

lemma sample_gate: "gate_reach (snd (gate_ref ''k'' newKeyMutationGate), (\<lambda>_. Outside)(0 := Waiting True ''k'' 0))"
proof (rule gate_reach.move [OF gate_reach.start])
  show "gate_move (Enter True ''k'' None None) ((\<lambda>_. Outside) 0) newKeyMutationGate =
    Some (Waiting True ''k'' 0, snd (gate_ref ''k'' newKeyMutationGate))"
    by (simp add: gate_refuses_def gate_ref_def newKeyMutationGate_def Let_def)
qed

theorem gate_refines_lock_witness:
  "gate_move (Receive None None) (Waiting True ''k'' 0) (snd (gate_ref ''k'' newKeyMutationGate)) \<noteq> None"
proof -
  let ?th = "(\<lambda>_. Outside)(0 :: nat := Waiting True ''k'' 0)"
  let ?g = "snd (gate_ref ''k'' newKeyMutationGate)"
  obtain h where h: "holders ?th h"
    and receive: "\<forall>b k e t. ?th t = Waiting b k e \<and> h k = None \<longrightarrow> gate_move (Receive None None) (?th t) ?g \<noteq> None"
    using gate_refines_lock [OF sample_gate] by (elim exE conjE) (rule that)
  have "h ''k'' = None"
  proof (cases "h ''k''")
    case (Some t)
    then have "owns ?th ''k'' t" using h by (simp add: holders_def)
    then show ?thesis by (simp add: owns_thread split: if_splits)
  qed simp
  then show ?thesis using receive [rule_format, of 0 True "''k''" 0] by simp
qed

end
