(* ===== verification/Cache_Invalidation.thy ===== *)
theory Cache_Invalidation
  imports Prelude
begin

text \<open>
  The registry of invalidations, \<open>internal/cache/invalidation_state.go\<close>: per cache key a
  generation, the writes and invalidations under way, and a tombstone that makes the key
  unreadable until what it stood for is known to be gone. Entries that nobody uses and that need
  no tombstone are dropped, at most \<open>maxRetainedInvalidations\<close> unresolved ones are kept, and past
  that the registry refuses every read. Each operation runs under the registry's mutex and is
  one step. The ghost state of \<open>reg_inv\<close> (who has begun what, and when) ties the counters and
  generations to the history.
\<close>

definition maxRetainedInvalidations :: int where
  "maxRetainedInvalidations = 4096"

record cacheInvalidationState =
  cs_generation :: uint
  cs_writers :: int
  cs_invalidations :: int
  cs_tombstoned :: bool
  cs_cleanupSafe :: bool
  cs_retained :: bool

record cacheInvalidationRegistry =
  rg_states :: "string \<rightharpoonup> cacheInvalidationState"
  rg_retained :: int
  rg_failClosed :: bool

definition newCacheInvalidationRegistry :: cacheInvalidationRegistry where
  "newCacheInvalidationRegistry = \<lparr>rg_states = Map.empty, rg_retained = 0, rg_failClosed = False\<rparr>"

definition new_state :: cacheInvalidationState where
  "new_state = \<lparr>cs_generation = 0, cs_writers = 0, cs_invalidations = 0, cs_tombstoned = False,
     cs_cleanupSafe = False, cs_retained = False\<rparr>"

definition state_of :: "string \<Rightarrow> cacheInvalidationRegistry \<Rightarrow> cacheInvalidationState" where
  "state_of key r = (case rg_states r key of None \<Rightarrow> new_state | Some s \<Rightarrow> s)"

definition put_state :: "string \<Rightarrow> cacheInvalidationState \<Rightarrow> cacheInvalidationRegistry \<Rightarrow> cacheInvalidationRegistry" where
  "put_state key s r = r\<lparr>rg_states := (rg_states r)(key \<mapsto> s)\<rparr>"

definition drop_state :: "string \<Rightarrow> cacheInvalidationRegistry \<Rightarrow> cacheInvalidationRegistry" where
  "drop_state key r = r\<lparr>rg_states := (rg_states r)(key := None)\<rparr>"

definition idle :: "cacheInvalidationState \<Rightarrow> bool" where
  "idle s \<longleftrightarrow> cs_writers s = 0 \<and> cs_invalidations s = 0"

definition unretainLocked ::
  "cacheInvalidationState \<Rightarrow> cacheInvalidationRegistry \<Rightarrow> cacheInvalidationState \<times> cacheInvalidationRegistry" where
  "unretainLocked s r =
     (if \<not> cs_retained s then (s, r) else (s\<lparr>cs_retained := False\<rparr>, r\<lparr>rg_retained := rg_retained r - 1\<rparr>))"

definition capRetainedLocked :: "cacheInvalidationRegistry \<Rightarrow> cacheInvalidationRegistry" where
  "capRetainedLocked r =
     (if rg_retained r \<le> maxRetainedInvalidations then r
      else r\<lparr>rg_failClosed := True,
             rg_states := (\<lambda>key. case rg_states r key of None \<Rightarrow> None | Some s \<Rightarrow> if idle s then None else Some s),
             rg_retained := 0\<rparr>)"

text \<open>The state \<open>s\<close> is the one of \<open>key\<close> as the caller has changed it.\<close>

definition settleIdleLocked ::
  "string \<Rightarrow> cacheInvalidationState \<Rightarrow> cacheInvalidationRegistry \<Rightarrow> cacheInvalidationRegistry" where
  "settleIdleLocked key s0 r =
     (if \<not> idle s0 then put_state key s0 r
      else (let s = (if cs_tombstoned s0 \<and> cs_cleanupSafe s0 then s0\<lparr>cs_tombstoned := False\<rparr> else s0) in
        if \<not> cs_tombstoned s then drop_state key (snd (unretainLocked s r))
        else if rg_failClosed r then drop_state key (snd (unretainLocked s r))
        else if \<not> cs_retained s
        then capRetainedLocked (put_state key (s\<lparr>cs_retained := True\<rparr>) (r\<lparr>rg_retained := rg_retained r + 1\<rparr>))
        else capRetainedLocked (put_state key s r)))"

definition beginWrite :: "string \<Rightarrow> cacheInvalidationRegistry \<Rightarrow> uint \<times> cacheInvalidationRegistry" where
  "beginWrite key r0 =
     (let (s, r) = unretainLocked (state_of key r0) r0 in
      (cs_generation s, put_state key (s\<lparr>cs_writers := cs_writers s + 1\<rparr>) r))"

definition writeCurrent :: "string \<Rightarrow> uint \<Rightarrow> cacheInvalidationRegistry \<Rightarrow> bool" where
  "writeCurrent key generation r = (case rg_states r key of None \<Rightarrow> False | Some s \<Rightarrow> cs_generation s = generation)"

definition commitWrite :: "string \<Rightarrow> uint \<Rightarrow> cacheInvalidationRegistry \<Rightarrow> bool \<times> cacheInvalidationRegistry" where
  "commitWrite key generation r =
     (case rg_states r key of
        None \<Rightarrow> (False, r)
      | Some s \<Rightarrow>
          if cs_generation s \<noteq> generation then (False, r)
          else (True, settleIdleLocked key
                  (s\<lparr>cs_tombstoned := False, cs_cleanupSafe := True, cs_writers := cs_writers s - 1\<rparr>) r))"

definition abortWrite :: "string \<Rightarrow> bool \<Rightarrow> cacheInvalidationRegistry \<Rightarrow> cacheInvalidationRegistry" where
  "abortWrite key cleanupSafe r =
     (case rg_states r key of
        None \<Rightarrow> r
      | Some s \<Rightarrow>
          settleIdleLocked key
            (s\<lparr>cs_cleanupSafe := (if cleanupSafe then True else cs_cleanupSafe s), cs_writers := cs_writers s - 1\<rparr>) r)"

definition markCleanupSafe :: "string \<Rightarrow> cacheInvalidationRegistry \<Rightarrow> cacheInvalidationRegistry" where
  "markCleanupSafe key r =
     (case rg_states r key of
        None \<Rightarrow> r
      | Some s \<Rightarrow> settleIdleLocked key (s\<lparr>cs_cleanupSafe := True\<rparr>) r)"

definition beginInvalidation :: "string \<Rightarrow> cacheInvalidationRegistry \<Rightarrow> uint \<times> cacheInvalidationRegistry" where
  "beginInvalidation key r0 =
     (let (s, r) = unretainLocked (state_of key r0) r0;
          s' = s\<lparr>cs_generation := cs_generation s + 1, cs_invalidations := cs_invalidations s + 1,
                 cs_tombstoned := True, cs_cleanupSafe := False\<rparr> in
      (cs_generation s', put_state key s' r))"

definition invalidationPending :: "string \<Rightarrow> uint \<Rightarrow> cacheInvalidationRegistry \<Rightarrow> bool" where
  "invalidationPending key generation r =
     (case rg_states r key of None \<Rightarrow> False | Some s \<Rightarrow> cs_generation s = generation \<and> cs_tombstoned s)"

definition finishInvalidation :: "string \<Rightarrow> uint \<Rightarrow> bool \<Rightarrow> cacheInvalidationRegistry \<Rightarrow> cacheInvalidationRegistry" where
  "finishInvalidation key generation cleanupSafe r =
     (case rg_states r key of
        None \<Rightarrow> r
      | Some s \<Rightarrow>
          settleIdleLocked key
            (s\<lparr>cs_cleanupSafe := (if cs_generation s = generation \<and> cs_tombstoned s \<and> cleanupSafe then True else cs_cleanupSafe s),
               cs_invalidations := cs_invalidations s - 1\<rparr>) r)"

definition tombstoned :: "string \<Rightarrow> cacheInvalidationRegistry \<Rightarrow> bool" where
  "tombstoned key r \<longleftrightarrow> rg_failClosed r \<or> (case rg_states r key of None \<Rightarrow> False | Some s \<Rightarrow> cs_tombstoned s)"

definition readable :: "string \<Rightarrow> cacheInvalidationRegistry \<Rightarrow> bool" where
  "readable key r \<longleftrightarrow> \<not> rg_failClosed r \<and> (case rg_states r key of None \<Rightarrow> True | Some s \<Rightarrow> \<not> cs_tombstoned s)"

lemma readable_tombstoned: "readable key r \<longleftrightarrow> \<not> tombstoned key r"
  by (auto simp: readable_def tombstoned_def split: option.splits)

subsection \<open>The bookkeeping invariant\<close>

text \<open>
  Every state that is not retained is in use, a retained one is idle, carries a tombstone that
  could not be resolved, and is counted; after the registry has closed, nothing is retained.
\<close>

definition retained_keys :: "cacheInvalidationRegistry \<Rightarrow> string set" where
  "retained_keys r = {k. \<exists>s. rg_states r k = Some s \<and> cs_retained s}"

definition registry_ok :: "cacheInvalidationRegistry \<Rightarrow> bool" where
  "registry_ok r \<longleftrightarrow>
     finite (dom (rg_states r)) \<and> rg_retained r = int (card (retained_keys r)) \<and>
     rg_retained r \<le> maxRetainedInvalidations \<and> (rg_failClosed r \<longrightarrow> retained_keys r = {}) \<and>
     (\<forall>k s. rg_states r k = Some s \<longrightarrow> 0 \<le> cs_writers s \<and> 0 \<le> cs_invalidations s \<and> (cs_retained s \<longleftrightarrow> idle s) \<and>
        (cs_retained s \<longrightarrow> cs_tombstoned s \<and> \<not> cs_cleanupSafe s))"

lemma registry_okD:
  assumes "registry_ok r"
  shows "finite (dom (rg_states r))" and "rg_retained r = int (card (retained_keys r))"
    and "rg_retained r \<le> maxRetainedInvalidations" and "rg_failClosed r \<Longrightarrow> retained_keys r = {}"
    and "rg_states r k = Some s \<Longrightarrow> 0 \<le> cs_writers s \<and> 0 \<le> cs_invalidations s"
    and "rg_states r k = Some s \<Longrightarrow> cs_retained s \<longleftrightarrow> idle s"
    and "rg_states r k = Some s \<Longrightarrow> cs_retained s \<Longrightarrow> cs_tombstoned s \<and> \<not> cs_cleanupSafe s"
  using assms by (auto simp: registry_ok_def)

lemma finite_retained: "registry_ok r \<Longrightarrow> finite (retained_keys r)"
  by (rule finite_subset [OF _ registry_okD(1)]) (auto simp: retained_keys_def)

lemma registry_ok_new [simp]: "registry_ok newCacheInvalidationRegistry"
  by (simp add: registry_ok_def newCacheInvalidationRegistry_def retained_keys_def maxRetainedInvalidations_def)

lemma retained_keys_put:
  "retained_keys (put_state k s r) = (if cs_retained s then insert k (retained_keys r) else retained_keys r - {k})"
  by (auto simp: retained_keys_def put_state_def)

lemma retained_keys_drop: "retained_keys (drop_state k r) = retained_keys r - {k}"
  by (auto simp: retained_keys_def drop_state_def)

lemma state_fields [simp]:
  "rg_states (put_state k s r) = (rg_states r)(k \<mapsto> s)" "rg_retained (put_state k s r) = rg_retained r"
  "rg_failClosed (put_state k s r) = rg_failClosed r"
  "rg_states (drop_state k r) = (rg_states r)(k := None)" "rg_retained (drop_state k r) = rg_retained r"
  "rg_failClosed (drop_state k r) = rg_failClosed r"
  "retained_keys (r\<lparr>rg_retained := n\<rparr>) = retained_keys r"
  by (simp_all add: put_state_def drop_state_def retained_keys_def)

text \<open>A key comes into use: its state, if it has one, is no longer retained.\<close>

definition in_use :: "string \<Rightarrow> cacheInvalidationRegistry \<Rightarrow> cacheInvalidationState \<Rightarrow> cacheInvalidationRegistry" where
  "in_use k r s = put_state k (s\<lparr>cs_retained := False\<rparr>) (snd (unretainLocked (state_of k r) r))"

lemma retained_card_diff:
  assumes "registry_ok r"
  shows "int (card (retained_keys r - {k})) = rg_retained (snd (unretainLocked (state_of k r) r))"
proof (cases "rg_states r k")
  case None
  then have "k \<notin> retained_keys r" by (simp add: retained_keys_def)
  then show ?thesis using None registry_okD(2) [OF assms] by (simp add: unretainLocked_def state_of_def new_state_def)
next
  case (Some s)
  show ?thesis
  proof (cases "cs_retained s")
    case True
    then have "k \<in> retained_keys r" using Some by (simp add: retained_keys_def)
    then have "int (card (retained_keys r - {k})) = int (card (retained_keys r)) - 1"
      using finite_retained [OF assms] by (simp add: card_Diff_singleton) (metis card_gt_0_iff empty_iff of_nat_1 of_nat_diff Suc_leI One_nat_def)
    then show ?thesis using Some True registry_okD(2) [OF assms] by (simp add: unretainLocked_def state_of_def)
  next
    case False
    then have "k \<notin> retained_keys r" using Some by (simp add: retained_keys_def)
    then show ?thesis using Some False registry_okD(2) [OF assms] by (simp add: unretainLocked_def state_of_def)
  qed
qed

lemma unretain_fields [simp]:
  "rg_states (snd (unretainLocked s r)) = rg_states r" "rg_failClosed (snd (unretainLocked s r)) = rg_failClosed r"
  "retained_keys (snd (unretainLocked s r)) = retained_keys r"
  "rg_retained (snd (unretainLocked s r)) \<le> rg_retained r"
  by (auto simp: unretainLocked_def retained_keys_def)

lemma registry_ok_in_use:
  assumes ok: "registry_ok r" and "0 \<le> cs_writers s" "0 \<le> cs_invalidations s" "\<not> idle s"
  shows "registry_ok (in_use k r s)"
  unfolding registry_ok_def
proof (intro conjI allI impI)
  let ?r = "in_use k r s"
  have keys: "retained_keys ?r = retained_keys r - {k}" by (simp add: in_use_def retained_keys_put)
  show "finite (dom (rg_states ?r))" using registry_okD(1) [OF ok] by (simp add: in_use_def)
  show "rg_retained ?r = int (card (retained_keys ?r))" using retained_card_diff [OF ok, of k] by (simp add: keys) (simp add: in_use_def)
  show "rg_retained ?r \<le> maxRetainedInvalidations"
    using order_trans [OF unretain_fields(4) registry_okD(3) [OF ok]] by (simp add: in_use_def)
  show "retained_keys ?r = {}" if "rg_failClosed ?r" using registry_okD(4) [OF ok] that by (simp add: keys) (simp add: in_use_def)
  fix k' s' assume s': "rg_states ?r k' = Some s'"
  have "s' = s\<lparr>cs_retained := False\<rparr> \<or> rg_states r k' = Some s'" using s' by (auto simp: in_use_def split: if_splits)
  then show "0 \<le> cs_writers s'" "0 \<le> cs_invalidations s'" "cs_retained s' \<longleftrightarrow> idle s'"
    "cs_retained s' \<Longrightarrow> cs_tombstoned s'" "cs_retained s' \<Longrightarrow> \<not> cs_cleanupSafe s'"
    using assms registry_okD(5-7) [OF ok, of k' s'] by (auto simp: idle_def)
qed


text \<open>A key may go out of use: \<open>settleIdleLocked\<close> on its changed state.\<close>

lemma registry_ok_cap:
  assumes "finite (dom (rg_states r))" and "rg_retained r = int (card (retained_keys r))" and "\<not> rg_failClosed r"
    and states: "\<And>k s. rg_states r k = Some s \<Longrightarrow> 0 \<le> cs_writers s \<and> 0 \<le> cs_invalidations s \<and> (cs_retained s \<longleftrightarrow> idle s) \<and>
        (cs_retained s \<longrightarrow> cs_tombstoned s \<and> \<not> cs_cleanupSafe s)"
  shows "registry_ok (capRetainedLocked r)"
proof (cases "rg_retained r \<le> maxRetainedInvalidations")
  case True
  then show ?thesis using assms by (simp add: capRetainedLocked_def registry_ok_def)
next
  case False
  let ?r = "capRetainedLocked r"
  have look: "rg_states ?r k = Some s \<longleftrightarrow> rg_states r k = Some s \<and> \<not> idle s" for k s
    using False by (auto simp: capRetainedLocked_def split: option.splits)
  have none: "retained_keys ?r = {}" unfolding retained_keys_def look using states by blast
  have "dom (rg_states ?r) \<subseteq> dom (rg_states r)" using look by fastforce
  then have "finite (dom (rg_states ?r))" using assms(1) finite_subset by blast
  then show ?thesis unfolding registry_ok_def look using none states False
    by (auto simp: capRetainedLocked_def maxRetainedInvalidations_def)
qed

lemma registry_ok_settle:
  assumes ok: "registry_ok r" and s: "rg_states r k = Some s" and same: "cs_retained s0 = cs_retained s"
    and s0: "0 \<le> cs_writers s0" "0 \<le> cs_invalidations s0" "cs_retained s0 \<Longrightarrow> idle s0"
  shows "registry_ok (settleIdleLocked k s0 r)"
proof (cases "idle s0")
  case False
  then have "\<not> cs_retained s0" "k \<notin> retained_keys r" using s0(3) same s by (auto simp: retained_keys_def)
  then show ?thesis
    using False s0 registry_okD [OF ok] by (auto simp: settleIdleLocked_def registry_ok_def retained_keys_put)
next
  case True
  define s1 where "s1 = (if cs_tombstoned s0 \<and> cs_cleanupSafe s0 then s0\<lparr>cs_tombstoned := False\<rparr> else s0)"
  have ret: "cs_retained s1 = cs_retained s" by (simp add: s1_def same)
  have settle: "settleIdleLocked k s0 r =
     (if \<not> cs_tombstoned s1 \<or> rg_failClosed r then drop_state k (snd (unretainLocked s1 r))
      else if \<not> cs_retained s1
      then capRetainedLocked (put_state k (s1\<lparr>cs_retained := True\<rparr>) (r\<lparr>rg_retained := rg_retained r + 1\<rparr>))
      else capRetainedLocked (put_state k s1 r))"
    using True by (simp add: settleIdleLocked_def s1_def Let_def)
  have drop: "registry_ok (drop_state k (snd (unretainLocked s1 r)))"
  proof -
    have "rg_retained (snd (unretainLocked s1 r)) = int (card (retained_keys r - {k}))"
      using retained_card_diff [OF ok, of k] s ret by (simp add: unretainLocked_def state_of_def)
    then show ?thesis
      using registry_okD [OF ok] order_trans [OF unretain_fields(4) [of s1 r] registry_okD(3) [OF ok]]
      by (auto simp: registry_ok_def retained_keys_drop)
  qed
  have keep: "registry_ok (capRetainedLocked (put_state k (s1\<lparr>cs_retained := True\<rparr>) (r\<lparr>rg_retained := n\<rparr>)))"
    if "cs_tombstoned s1" "\<not> rg_failClosed r" and n: "n = (if cs_retained s then rg_retained r else rg_retained r + 1)" for n
  proof (rule registry_ok_cap)
    have unsafe: "\<not> cs_cleanupSafe s1" and idle1: "idle s1" using that(1) True by (auto simp: s1_def idle_def split: if_splits)
    have keys: "retained_keys (put_state k (s1\<lparr>cs_retained := True\<rparr>) (r\<lparr>rg_retained := n\<rparr>)) = insert k (retained_keys r)"
      by (simp add: retained_keys_put)
    have "k \<in> retained_keys r \<longleftrightarrow> cs_retained s" using s by (simp add: retained_keys_def)
    then show "rg_retained (put_state k (s1\<lparr>cs_retained := True\<rparr>) (r\<lparr>rg_retained := n\<rparr>)) =
        int (card (retained_keys (put_state k (s1\<lparr>cs_retained := True\<rparr>) (r\<lparr>rg_retained := n\<rparr>))))"
      unfolding keys using n registry_okD(2) [OF ok] finite_retained [OF ok] by (simp add: insert_absorb)
    show "0 \<le> cs_writers s' \<and> 0 \<le> cs_invalidations s' \<and> (cs_retained s' \<longleftrightarrow> idle s') \<and> (cs_retained s' \<longrightarrow> cs_tombstoned s' \<and> \<not> cs_cleanupSafe s')"
      if "rg_states (put_state k (s1\<lparr>cs_retained := True\<rparr>) (r\<lparr>rg_retained := n\<rparr>)) k' = Some s'" for k' s'
      using that registry_okD(5-7) [OF ok, of k' s'] unsafe idle1 \<open>cs_tombstoned s1\<close> by (auto simp: idle_def split: if_splits)
  qed (use registry_okD(1) [OF ok] that in simp_all)
  show ?thesis
  proof (cases "\<not> cs_tombstoned s1 \<or> rg_failClosed r")
    case True
    then show ?thesis using drop by (simp add: settle)
  next
    case False
    then have "put_state k s1 r = put_state k (s1\<lparr>cs_retained := True\<rparr>) (r\<lparr>rg_retained := rg_retained r\<rparr>)" if "cs_retained s1"
      using that by (cases s1) simp
    then show ?thesis using False keep [of "rg_retained r"] keep [of "rg_retained r + 1"] ret by (auto simp: settle)
  qed
qed

subsection \<open>What an operation does to each key\<close>

lemma settle_closed: "rg_failClosed r \<Longrightarrow> rg_failClosed (settleIdleLocked k s r)"
  by (simp add: settleIdleLocked_def Let_def)

text \<open>Another key keeps its state, unless it was idle and the registry closed.\<close>

definition framed :: "string \<Rightarrow> cacheInvalidationRegistry \<Rightarrow> cacheInvalidationRegistry \<Rightarrow> bool" where
  "framed k r r' \<longleftrightarrow> (rg_failClosed r \<longrightarrow> rg_failClosed r') \<and>
     (\<forall>k'. k' \<noteq> k \<longrightarrow> rg_states r' k' = rg_states r k' \<or>
        rg_failClosed r' \<and> rg_states r' k' = None \<and> (\<exists>s. rg_states r k' = Some s \<and> idle s))"

lemma framed_refl [simp]: "framed k r r"
  by (simp add: framed_def)

lemma framed_in_use: "framed k r (in_use k r s)"
  by (simp add: framed_def in_use_def)

lemma framed_settle: "framed k r (settleIdleLocked k s r)"
  unfolding framed_def
proof (intro conjI allI impI)
  fix k' assume "k' \<noteq> k"
  then show "rg_states (settleIdleLocked k s r) k' = rg_states r k' \<or>
      rg_failClosed (settleIdleLocked k s r) \<and> rg_states (settleIdleLocked k s r) k' = None \<and> (\<exists>s. rg_states r k' = Some s \<and> idle s)"
    by (auto simp: settleIdleLocked_def Let_def capRetainedLocked_def split: option.splits)
qed (rule settle_closed)

lemma settle_own:
  "\<not> idle s \<Longrightarrow> rg_states (settleIdleLocked k s r) k = Some s"
  "idle s \<Longrightarrow> rg_states (settleIdleLocked k s r) k = Some s' \<Longrightarrow>
     s' = s\<lparr>cs_retained := True\<rparr> \<and> cs_tombstoned s \<and> \<not> cs_cleanupSafe s"
  "idle s \<Longrightarrow> cs_tombstoned s \<Longrightarrow> \<not> cs_cleanupSafe s \<Longrightarrow> tombstoned k (settleIdleLocked k s r)"
  by (auto simp: settleIdleLocked_def Let_def capRetainedLocked_def tombstoned_def idle_def split: if_splits)

lemma framed_tombstoned: "framed k r r' \<Longrightarrow> k' \<noteq> k \<Longrightarrow> tombstoned k' r \<Longrightarrow> tombstoned k' r'"
  by (auto simp: framed_def tombstoned_def split: option.splits)

lemma framed_busy: "framed k r r' \<Longrightarrow> k' \<noteq> k \<Longrightarrow> rg_states r k' = Some s \<Longrightarrow> \<not> idle s \<Longrightarrow> rg_states r' k' = Some s"
  by (auto simp: framed_def)

lemma framed_some: "framed k r r' \<Longrightarrow> k' \<noteq> k \<Longrightarrow> rg_states r' k' = Some s \<Longrightarrow> rg_states r k' = Some s"
  by (auto simp: framed_def)

subsection \<open>Handles\<close>

text \<open>
  A client holds a handle for every write and every invalidation it has begun and not ended: the
  key, the generation it was given, and the ghost time at which it began. \<open>li k\<close> is the time of
  the last invalidation of \<open>k\<close>.
\<close>

type_synonym handles = "nat \<rightharpoonup> string \<times> uint \<times> nat"

definition on_key :: "handles \<Rightarrow> string \<Rightarrow> nat set" where
  "on_key H k = {t. \<exists>g b. H t = Some (k, g, b)}"

definition reg_inv :: "cacheInvalidationRegistry \<Rightarrow> handles \<Rightarrow> handles \<Rightarrow> nat \<Rightarrow> (string \<Rightarrow> nat) \<Rightarrow> bool" where
  "reg_inv r W I clock li \<longleftrightarrow>
     registry_ok r \<and> finite (dom W) \<and> finite (dom I) \<and>
     (\<forall>k s. rg_states r k = Some s \<longrightarrow> cs_writers s = int (card (on_key W k)) \<and> cs_invalidations s = int (card (on_key I k)) \<and>
        unat (cs_generation s) \<le> clock) \<and>
     (\<forall>k. rg_states r k = None \<longrightarrow> on_key W k = {} \<and> on_key I k = {}) \<and>
     (\<forall>k. li k \<le> clock) \<and>
     (\<forall>t k g b s. W t = Some (k, g, b) \<and> rg_states r k = Some s \<longrightarrow>
        b \<le> clock \<and> g \<le> cs_generation s \<and> (g = cs_generation s \<longleftrightarrow> li k \<le> b)) \<and>
     (\<forall>t k g b s. I t = Some (k, g, b) \<and> rg_states r k = Some s \<longrightarrow>
        b \<le> li k \<and> g \<le> cs_generation s \<and> (g = cs_generation s \<longleftrightarrow> li k = b))"

lemma reg_invD:
  assumes "reg_inv r W I clock li"
  shows "registry_ok r" and "finite (dom W)" and "finite (dom I)"
    and "rg_states r k = Some s \<Longrightarrow> cs_writers s = int (card (on_key W k)) \<and> cs_invalidations s = int (card (on_key I k))"
    and "rg_states r k = Some s \<Longrightarrow> unat (cs_generation s) \<le> clock"
    and "rg_states r k = None \<Longrightarrow> on_key W k = {} \<and> on_key I k = {}"
    and "li k \<le> clock"
    and "W t = Some (k, g, b) \<Longrightarrow> rg_states r k = Some s \<Longrightarrow> b \<le> clock \<and> g \<le> cs_generation s \<and> (g = cs_generation s \<longleftrightarrow> li k \<le> b)"
    and "I t = Some (k, g, b) \<Longrightarrow> rg_states r k = Some s \<Longrightarrow> b \<le> li k \<and> g \<le> cs_generation s \<and> (g = cs_generation s \<longleftrightarrow> li k = b)"
  using assms by (auto simp: reg_inv_def)

lemma finite_on_key: "finite (dom H) \<Longrightarrow> finite (on_key H k)"
  by (rule finite_subset [of _ "dom H"]) (auto simp: on_key_def)

lemma on_key_upd: "on_key (H(t := h)) k = (if \<exists>g b. h = Some (k, g, b) then insert t (on_key H k) else on_key H k - {t})"
  by (auto simp: on_key_def)

lemma card_on_key:
  assumes "finite (dom H)"
  shows "H t = None \<Longrightarrow> card (on_key (H(t \<mapsto> (k, g, b))) k') = card (on_key H k') + (if k' = k then 1 else 0)"
    and "H t = Some (k, g, b) \<Longrightarrow> int (card (on_key (H(t := None)) k')) = int (card (on_key H k')) - (if k' = k then 1 else 0)"
proof -
  have fin: "finite (on_key H k')" using finite_on_key [OF assms] .
  show "card (on_key (H(t \<mapsto> (k, g, b))) k') = card (on_key H k') + (if k' = k then 1 else 0)" if "H t = None"
    using that fin by (auto simp: on_key_upd) (auto simp: on_key_def)
  show "int (card (on_key (H(t := None)) k')) = int (card (on_key H k')) - (if k' = k then 1 else 0)" if "H t = Some (k, g, b)"
  proof -
    have mem: "t \<in> on_key H k' \<longleftrightarrow> k' = k" using that by (auto simp: on_key_def)
    show ?thesis
    proof (cases "k' = k")
      case True
      then have "0 < card (on_key H k')" using mem fin card_gt_0_iff by blast
      then show ?thesis using True mem fin by (simp add: on_key_upd card_Diff_singleton of_nat_diff)
    next
      case False
      then show ?thesis using mem by (simp add: on_key_upd)
    qed
  qed
qed

text \<open>A key with a handle has a state that is not idle.\<close>

lemma handle_state:
  assumes inv: "reg_inv r W I clock li" and h: "W t = Some (k, g, b) \<or> I t = Some (k, g, b)"
  obtains s where "rg_states r k = Some s" and "\<not> idle s"
proof -
  have "t \<in> on_key W k \<or> t \<in> on_key I k" using h by (auto simp: on_key_def)
  then obtain s where s: "rg_states r k = Some s" using reg_invD(6) [OF inv, of k] by (cases "rg_states r k") auto
  have "0 < card (on_key W k) \<or> 0 < card (on_key I k)"
    using \<open>t \<in> on_key W k \<or> t \<in> on_key I k\<close> finite_on_key [OF reg_invD(2) [OF inv]] finite_on_key [OF reg_invD(3) [OF inv]]
    by (auto simp: card_gt_0_iff)
  then have "\<not> idle s" using reg_invD(4) [OF inv s] by (auto simp: idle_def)
  then show ?thesis using that s by blast
qed


text \<open>It is enough to look at the key of the operation.\<close>

lemma reg_inv_frame:
  assumes inv: "reg_inv r W I clock li" and frame: "framed k r r'" and ok: "registry_ok r'"
    and fin: "finite (dom W')" "finite (dom I')" and clock: "clock \<le> clock'"
    and W': "\<And>t k' g b. k' \<noteq> k \<Longrightarrow> W' t = Some (k', g, b) \<longleftrightarrow> W t = Some (k', g, b)"
    and I': "\<And>t k' g b. k' \<noteq> k \<Longrightarrow> I' t = Some (k', g, b) \<longleftrightarrow> I t = Some (k', g, b)"
    and li': "\<And>k'. k' \<noteq> k \<Longrightarrow> li' k' = li k'" "li' k \<le> clock'"
    and own: "\<And>s. rg_states r' k = Some s \<Longrightarrow> cs_writers s = int (card (on_key W' k)) \<and>
        cs_invalidations s = int (card (on_key I' k)) \<and> unat (cs_generation s) \<le> clock'"
    and none: "rg_states r' k = None \<Longrightarrow> on_key W' k = {} \<and> on_key I' k = {}"
    and writes: "\<And>t g b s. W' t = Some (k, g, b) \<Longrightarrow> rg_states r' k = Some s \<Longrightarrow>
        b \<le> clock' \<and> g \<le> cs_generation s \<and> (g = cs_generation s \<longleftrightarrow> li' k \<le> b)"
    and invs: "\<And>t g b s. I' t = Some (k, g, b) \<Longrightarrow> rg_states r' k = Some s \<Longrightarrow>
        b \<le> li' k \<and> g \<le> cs_generation s \<and> (g = cs_generation s \<longleftrightarrow> li' k = b)"
  shows "reg_inv r' W' I' clock' li'"
  unfolding reg_inv_def
proof (intro conjI allI impI)
  have other: "on_key W' k' = on_key W k'" "on_key I' k' = on_key I k'" if "k' \<noteq> k" for k'
    using that W' I' by (auto simp: on_key_def)
  have some: "rg_states r k' = Some s" if "rg_states r' k' = Some s" "k' \<noteq> k" for k' s using framed_some [OF frame that(2,1)] .
  show "registry_ok r'" "finite (dom W')" "finite (dom I')" by fact+
  show "cs_writers s = int (card (on_key W' k'))" "cs_invalidations s = int (card (on_key I' k'))" "unat (cs_generation s) \<le> clock'"
    if s: "rg_states r' k' = Some s" for k' s
    using own [of s] s some [OF s] other reg_invD(4,5) [OF inv, of k' s] clock by (cases "k' = k"; auto)+
  show "on_key W' k' = {}" "on_key I' k' = {}" if s: "rg_states r' k' = None" for k'
  proof -
    have "on_key W k' = {} \<and> on_key I k' = {}" if "k' \<noteq> k"
    proof (cases "rg_states r k'")
      case None
      then show ?thesis using reg_invD(6) [OF inv] by blast
    next
      case (Some s0)
      then have "idle s0" using framed_busy [OF frame that Some] s by auto
      then show ?thesis using reg_invD(4) [OF inv Some] finite_on_key [OF reg_invD(2) [OF inv]] finite_on_key [OF reg_invD(3) [OF inv]]
        by (simp add: idle_def)
    qed
    then show "on_key W' k' = {}" "on_key I' k' = {}" using none s other by (cases "k' = k"; auto)+
  qed
  show "li' k' \<le> clock'" for k' using li' reg_invD(7) [OF inv, of k'] clock by (cases "k' = k") auto
  show "b \<le> clock'" "g \<le> cs_generation s" "g = cs_generation s \<longleftrightarrow> li' k' \<le> b"
    if h: "W' t = Some (k', g, b) \<and> rg_states r' k' = Some s" for t k' g b s
    using h writes [of t g b s] W' [of k' t g b] some [of k' s] li'(1) [of k'] reg_invD(8) [OF inv, of t k' g b s] clock
    by (cases "k' = k"; auto)+
  show "b \<le> li' k'" "g \<le> cs_generation s" "g = cs_generation s \<longleftrightarrow> li' k' = b"
    if h: "I' t = Some (k', g, b) \<and> rg_states r' k' = Some s" for t k' g b s
    using h invs [of t g b s] I' [of k' t g b] some [of k' s] li'(1) [of k'] reg_invD(9) [OF inv, of t k' g b s]
    by (cases "k' = k"; auto)+
qed

lemma unretain_state: "fst (unretainLocked s r) = s\<lparr>cs_retained := False\<rparr>"
  by (cases s) (simp add: unretainLocked_def)

lemma beginWrite_in_use:
  "beginWrite k r = (cs_generation (state_of k r), in_use k r ((state_of k r)\<lparr>cs_writers := cs_writers (state_of k r) + 1\<rparr>))"
  using unretain_state [of "state_of k r" r] by (cases "unretainLocked (state_of k r) r"; cases "state_of k r") (simp add: beginWrite_def in_use_def)

lemma beginInvalidation_in_use:
  "beginInvalidation k r = (cs_generation (state_of k r) + 1,
     in_use k r ((state_of k r)\<lparr>cs_generation := cs_generation (state_of k r) + 1,
       cs_invalidations := cs_invalidations (state_of k r) + 1, cs_tombstoned := True, cs_cleanupSafe := False\<rparr>))"
  using unretain_state [of "state_of k r" r] by (cases "unretainLocked (state_of k r) r"; cases "state_of k r") (simp add: beginInvalidation_def in_use_def)

lemma in_use_own [simp]: "rg_states (in_use k r s) k = Some (s\<lparr>cs_retained := False\<rparr>)"
  by (simp add: in_use_def)

lemma state_of_inv:
  assumes "reg_inv r W I clock li"
  shows "cs_writers (state_of k r) = int (card (on_key W k))" "cs_invalidations (state_of k r) = int (card (on_key I k))"
    "unat (cs_generation (state_of k r)) \<le> clock"
  using reg_invD(4,5,6) [OF assms, of k] by (cases "rg_states r k"; simp add: state_of_def new_state_def)+

lemma handle_inv:
  assumes "reg_inv r W I clock li"
  shows "W t = Some (k, g, b) \<Longrightarrow> b \<le> clock \<and> g \<le> cs_generation (state_of k r) \<and> (g = cs_generation (state_of k r) \<longleftrightarrow> li k \<le> b)"
    and "I t = Some (k, g, b) \<Longrightarrow> b \<le> li k \<and> g \<le> cs_generation (state_of k r) \<and> (g = cs_generation (state_of k r) \<longleftrightarrow> li k = b)"
  using handle_state [OF assms, of t k g b] reg_invD(8) [OF assms, of t k g b] reg_invD(9) [OF assms, of t k g b]
  by (simp_all add: state_of_def) (metis option.simps(5))+

lemma reg_inv_beginWrite:
  assumes inv: "reg_inv r W I clock li" and t: "W t = None" and run: "beginWrite k r = (g, r')"
  shows "reg_inv r' (W(t \<mapsto> (k, g, Suc clock))) I (Suc clock) li"
proof (rule reg_inv_frame [OF inv])
  let ?s = "state_of k r"
  have r': "r' = in_use k r (?s\<lparr>cs_writers := cs_writers ?s + 1\<rparr>)" and g: "g = cs_generation ?s"
    using run by (simp_all add: beginWrite_in_use)
  note s = state_of_inv [OF inv, of k]
  show "framed k r r'" unfolding r' by (rule framed_in_use)
  show "registry_ok r'" unfolding r' by (rule registry_ok_in_use [OF reg_invD(1) [OF inv]]) (simp_all add: s idle_def)
  show "cs_writers s' = int (card (on_key (W(t \<mapsto> (k, g, Suc clock))) k)) \<and> cs_invalidations s' = int (card (on_key I k)) \<and>
      unat (cs_generation s') \<le> Suc clock" if "rg_states r' k = Some s'" for s'
    using that s by (auto simp: r' card_on_key(1) [OF reg_invD(2) [OF inv] t])
  show "b \<le> Suc clock \<and> g' \<le> cs_generation s' \<and> (g' = cs_generation s' \<longleftrightarrow> li k \<le> b)"
    if "(W(t \<mapsto> (k, g, Suc clock))) t' = Some (k, g', b)" "rg_states r' k = Some s'" for t' g' b s'
    using that handle_inv(1) [OF inv, of t' k g' b] reg_invD(7) [OF inv, of k] by (auto simp: r' g split: if_splits)
  show "b \<le> li k \<and> g' \<le> cs_generation s' \<and> (g' = cs_generation s' \<longleftrightarrow> li k = b)"
    if "I t' = Some (k, g', b)" "rg_states r' k = Some s'" for t' g' b s'
    using that handle_inv(2) [OF inv, of t' k g' b] by (auto simp: r')
  show "li k \<le> Suc clock" using reg_invD(7) [OF inv, of k] by simp
  show "on_key (W(t \<mapsto> (k, g, Suc clock))) k = {} \<and> on_key I k = {}" if "rg_states r' k = None" using that by (simp add: r')
  show "(W(t \<mapsto> (k, g, Suc clock))) t' = Some (k', g', b) \<longleftrightarrow> W t' = Some (k', g', b)" if "k' \<noteq> k" for t' k' g' b
    using that t by auto
qed (use reg_invD(2,3) [OF inv] in simp_all)

lemma reg_inv_beginInvalidation:
  assumes inv: "reg_inv r W I clock li" and t: "I t = None" and run: "beginInvalidation k r = (g, r')" and bound: "Suc clock < 2 ^ 64"
  shows "reg_inv r' W (I(t \<mapsto> (k, g, Suc clock))) (Suc clock) (li(k := Suc clock))"
proof (rule reg_inv_frame [OF inv])
  let ?s = "state_of k r"
  have r': "r' = in_use k r (?s\<lparr>cs_generation := cs_generation ?s + 1, cs_invalidations := cs_invalidations ?s + 1,
       cs_tombstoned := True, cs_cleanupSafe := False\<rparr>)" and g: "g = cs_generation ?s + 1"
    using run by (auto simp: beginInvalidation_in_use)
  note s = state_of_inv [OF inv, of k]
  have next_gen: "unat (cs_generation ?s + 1) = Suc (unat (cs_generation ?s))"
  proof -
    have "unat (cs_generation ?s) + 1 < 2 ^ LENGTH(64)" using s(3) bound by simp
    then show ?thesis by (subst unat_add_lem [THEN iffD1]) simp_all
  qed
  have newer: "g' < cs_generation ?s + 1" if "g' \<le> cs_generation ?s" for g'
    using that next_gen by (simp add: word_less_nat_alt word_le_nat_alt)
  show "framed k r r'" unfolding r' by (rule framed_in_use)
  show "registry_ok r'" unfolding r' by (rule registry_ok_in_use [OF reg_invD(1) [OF inv]]) (simp_all add: s idle_def)
  show "cs_writers s' = int (card (on_key W k)) \<and> cs_invalidations s' = int (card (on_key (I(t \<mapsto> (k, g, Suc clock))) k)) \<and>
      unat (cs_generation s') \<le> Suc clock" if "rg_states r' k = Some s'" for s'
    using that s next_gen by (auto simp: r' card_on_key(1) [OF reg_invD(3) [OF inv] t])
  show "b \<le> Suc clock \<and> g' \<le> cs_generation s' \<and> (g' = cs_generation s' \<longleftrightarrow> (li(k := Suc clock)) k \<le> b)"
    if "W t' = Some (k, g', b)" "rg_states r' k = Some s'" for t' g' b s'
    using that handle_inv(1) [OF inv, of t' k g' b] newer [of g'] by (auto simp: r')
  show "b \<le> (li(k := Suc clock)) k \<and> g' \<le> cs_generation s' \<and> (g' = cs_generation s' \<longleftrightarrow> (li(k := Suc clock)) k = b)"
    if "(I(t \<mapsto> (k, g, Suc clock))) t' = Some (k, g', b)" "rg_states r' k = Some s'" for t' g' b s'
    using that handle_inv(2) [OF inv, of t' k g' b] newer [of g'] reg_invD(7) [OF inv, of k] by (auto simp: r' g split: if_splits)
  show "on_key W k = {} \<and> on_key (I(t \<mapsto> (k, g, Suc clock))) k = {}" if "rg_states r' k = None" using that by (simp add: r')
  show "(I(t \<mapsto> (k, g, Suc clock))) t' = Some (k', g', b) \<longleftrightarrow> I t' = Some (k', g', b)" if "k' \<noteq> k" for t' k' g' b
    using that t by auto
qed (use reg_invD(2,3) [OF inv] in simp_all)

text \<open>The operations that end something or report a cleanup, which all settle the changed state.\<close>

lemma reg_inv_settle:
  assumes inv: "reg_inv r W I clock li" and s: "rg_states r k = Some s"
    and s0: "cs_generation s0 = cs_generation s" "cs_retained s0 = cs_retained s"
      "cs_writers s0 = int (card (on_key W' k))" "cs_invalidations s0 = int (card (on_key I' k))"
    and W': "W' = W \<or> (\<exists>t g b. W t = Some (k, g, b) \<and> W' = W(t := None))"
    and I': "I' = I \<or> (\<exists>t g b. I t = Some (k, g, b) \<and> I' = I(t := None))"
  shows "reg_inv (settleIdleLocked k s0 r) W' I' clock li"
proof (rule reg_inv_frame [OF inv framed_settle])
  let ?r = "settleIdleLocked k s0 r"
  have sub: "W' \<subseteq>\<^sub>m W" "I' \<subseteq>\<^sub>m I" using W' I' by (auto simp: map_le_def split: if_splits)
  have fin: "finite (dom W')" "finite (dom I')" using reg_invD(2,3) [OF inv] W' I' by auto
  then show "finite (dom W')" "finite (dom I')" .
  have mono: "card (on_key W' k) \<le> card (on_key W k)" "card (on_key I' k) \<le> card (on_key I k)"
    using W' I' finite_on_key [OF reg_invD(2) [OF inv], of k] finite_on_key [OF reg_invD(3) [OF inv], of k]
    by (auto simp: on_key_upd intro: card_mono)
  show "registry_ok ?r"
  proof (rule registry_ok_settle [OF reg_invD(1) [OF inv] s s0(2)])
    assume "cs_retained s0"
    then have "idle s" using registry_okD(6) [OF reg_invD(1) [OF inv] s] s0(2) by simp
    then show "idle s0" using mono reg_invD(4) [OF inv s] by (simp add: idle_def s0)
  qed (simp_all add: s0)
  have state: "s' = s0 \<or> s' = s0\<lparr>cs_retained := True\<rparr>" if "rg_states ?r k = Some s'" for s'
    using that settle_own(1) [of s0 k r] settle_own(2) [of s0 k r s'] by (cases "idle s0") auto
  show "cs_writers s' = int (card (on_key W' k)) \<and> cs_invalidations s' = int (card (on_key I' k)) \<and> unat (cs_generation s') \<le> clock"
    if "rg_states ?r k = Some s'" for s'
    using state [OF that] s0 reg_invD(5) [OF inv s] by auto
  show "on_key W' k = {} \<and> on_key I' k = {}" if "rg_states ?r k = None"
  proof -
    have "idle s0" using that settle_own(1) [of s0 k r] by auto
    then show ?thesis using finite_on_key [OF fin(1), of k] finite_on_key [OF fin(2), of k] by (simp add: idle_def s0)
  qed
  show "b \<le> clock \<and> g \<le> cs_generation s' \<and> (g = cs_generation s' \<longleftrightarrow> li k \<le> b)"
    if "W' t = Some (k, g, b)" "rg_states ?r k = Some s'" for t g b s'
  proof -
    have "W t = Some (k, g, b)" using that(1) sub(1) by (metis domI map_le_def)
    from reg_invD(8) [OF inv this s] show ?thesis using state [OF that(2)] s0(1) by auto
  qed
  show "b \<le> li k \<and> g \<le> cs_generation s' \<and> (g = cs_generation s' \<longleftrightarrow> li k = b)"
    if "I' t = Some (k, g, b)" "rg_states ?r k = Some s'" for t g b s'
  proof -
    have "I t = Some (k, g, b)" using that(1) sub(2) by (metis domI map_le_def)
    from reg_invD(9) [OF inv this s] show ?thesis using state [OF that(2)] s0(1) by auto
  qed
  show "W' t = Some (k', g, b) \<longleftrightarrow> W t = Some (k', g, b)" if "k' \<noteq> k" for t k' g b using W' that by (auto split: if_splits)
  show "I' t = Some (k', g, b) \<longleftrightarrow> I t = Some (k', g, b)" if "k' \<noteq> k" for t k' g b using I' that by (auto split: if_splits)
qed (use reg_invD(7) [OF inv] in simp_all)

lemma reg_inv_commit:
  assumes inv: "reg_inv r W I clock li" and t: "W t = Some (k, g, b)" and run: "commitWrite k g r = (True, r')"
  shows "reg_inv r' (W(t := None)) I clock li"
proof -
  obtain s where s: "rg_states r k = Some s" using handle_state [OF inv] t by metis
  have r': "r' = settleIdleLocked k (s\<lparr>cs_tombstoned := False, cs_cleanupSafe := True, cs_writers := cs_writers s - 1\<rparr>) r"
    using run s by (auto simp: commitWrite_def split: if_splits)
  show ?thesis unfolding r'
    by (rule reg_inv_settle [OF inv s]) (use t reg_invD(4) [OF inv s] card_on_key(2) [OF reg_invD(2) [OF inv] t, of k] in auto)
qed

lemma reg_inv_abort:
  assumes inv: "reg_inv r W I clock li" and t: "W t = Some (k, g, b)"
  shows "reg_inv (abortWrite k safe r) (W(t := None)) I clock li"
proof -
  obtain s where s: "rg_states r k = Some s" using handle_state [OF inv] t by metis
  show ?thesis unfolding abortWrite_def s option.case
    by (rule reg_inv_settle [OF inv s]) (use t reg_invD(4) [OF inv s] card_on_key(2) [OF reg_invD(2) [OF inv] t, of k] in auto)
qed

lemma reg_inv_finish:
  assumes inv: "reg_inv r W I clock li" and t: "I t = Some (k, g, b)"
  shows "reg_inv (finishInvalidation k g' safe r) W (I(t := None)) clock li"
proof -
  obtain s where s: "rg_states r k = Some s" using handle_state [OF inv] t by metis
  show ?thesis unfolding finishInvalidation_def s option.case
    by (rule reg_inv_settle [OF inv s]) (use t reg_invD(4) [OF inv s] card_on_key(2) [OF reg_invD(3) [OF inv] t, of k] in auto)
qed

lemma reg_inv_mark:
  assumes inv: "reg_inv r W I clock li"
  shows "reg_inv (markCleanupSafe k r) W I clock li"
proof (cases "rg_states r k")
  case (Some s)
  show ?thesis unfolding markCleanupSafe_def Some option.case
    by (rule reg_inv_settle [OF inv Some]) (use reg_invD(4) [OF inv Some] in auto)
qed (use inv in \<open>simp add: markCleanupSafe_def\<close>)

end
