(* ===== verification/Cache_Protocol.thy ===== *)
theory Cache_Protocol
  imports Cache_Invalidation
begin

text \<open>
  How the cache manager (\<open>internal/cache/manager.go\<close>) keeps revoked bytes from being served. Fills
  (\<open>storeAndCommit\<close>), background refreshes, invalidations and readers of one process run in any
  interleaving over the registry of \<open>Cache_Invalidation\<close>, the lock per key of \<open>Mutation_Gate\<close>, the
  table of cache entries and the object store. A thread's control point lies before the next call
  that another thread can observe; a \<open>choice\<close> tells how the call ends. The two deletions of a cleanup form one step, because
  both are made under the key's lock and nothing of the registry is called between them.

  A failed statement or a failed storage call is taken to leave the row or the object as it was.
  Ghost state: a clock that counts the beginnings of writes and invalidations; every row and
  object carries the time at which its write began, and \<open>cm_last\<close> the time of a key's last
  invalidation.
\<close>

record cache_object =
  ob_born :: nat
  ob_whole :: bool   \<comment> \<open>the declared size, if there is one, was consumed exactly\<close>

record cache_sys =
  cm_registry :: cacheInvalidationRegistry
  cm_holder :: "string \<rightharpoonup> nat"
  cm_rows :: "string \<rightharpoonup> nat"
  cm_objects :: "string \<rightharpoonup> cache_object"
  cm_flights :: "(string \<times> nat) list"   \<comment> \<open>entries that finished fills handed to their followers\<close>
  cm_clock :: nat
  cm_last :: "string \<Rightarrow> nat"

definition new_cache :: "(string \<rightharpoonup> nat) \<Rightarrow> (string \<rightharpoonup> cache_object) \<Rightarrow> cache_sys" where
  "new_cache rows objects = \<lparr>cm_registry = newCacheInvalidationRegistry, cm_holder = Map.empty, cm_rows = rows,
     cm_objects = objects, cm_flights = [], cm_clock = 0, cm_last = (\<lambda>_. 0)\<rparr>"

record choice =
  ch_ok :: bool
  ch_ok2 :: bool
  ch_sized :: bool   \<comment> \<open>the response declares its size\<close>

datatype write_point =
    WLock | WCheck | WReload | WPut | WRecheck | WPersist | WVerified | WCommit
  | WDiscard | WMark | WRemove | WWipe uint nat | WFinish uint nat bool | WUnlock | WAbort | WDone

datatype invalidate_point = ILock | IPending | IWipe | IUnlock bool | IFinish bool

datatype read_point =
    RLock "nat option" | RReadable | RRow | RAgain nat | RGet nat nat | RUnlock "(nat \<times> cache_object \<times> nat) option"
  | RDone "(nat \<times> cache_object \<times> nat) option"

text \<open>
  A writer has its kind (\<open>True\<close> for a background refresh), key, generation and time of beginning.
  A reader is given the committed entry if it follows a fill, and reads the row itself otherwise;
  what it delivers is the row, the object and, as ghost, the last invalidation it could have seen.
\<close>

datatype cache_thread =
    Quiet
  | Writer bool string uint nat write_point
  | Invalidator string uint nat invalidate_point
  | Reader bool string read_point

definition acquire :: "nat \<Rightarrow> string \<Rightarrow> cache_sys \<Rightarrow> cache_sys option" where
  "acquire t k s = (if cm_holder s k = None then Some (s\<lparr>cm_holder := (cm_holder s)(k \<mapsto> t)\<rparr>) else None)"

definition unlock :: "string \<Rightarrow> cache_sys \<Rightarrow> cache_sys" where
  "unlock k s = s\<lparr>cm_holder := (cm_holder s)(k := None)\<rparr>"

definition start_write :: "string \<Rightarrow> cache_sys \<Rightarrow> uint \<times> nat \<times> cache_sys" where
  "start_write k s =
     (let (g, r) = beginWrite k (cm_registry s); b = Suc (cm_clock s) in
      (g, b, s\<lparr>cm_registry := r, cm_clock := b\<rparr>))"

definition start_invalidation :: "string \<Rightarrow> cache_sys \<Rightarrow> uint \<times> nat \<times> cache_sys" where
  "start_invalidation k s =
     (let (g, r) = beginInvalidation k (cm_registry s); b = Suc (cm_clock s) in
      (g, b, s\<lparr>cm_registry := r, cm_clock := b, cm_last := (cm_last s)(k := b)\<rparr>))"

text \<open>Deletion of the row and of the object, each of which may fail.\<close>

definition wipe :: "choice \<Rightarrow> string \<Rightarrow> cache_sys \<Rightarrow> cache_sys" where
  "wipe c k s = s\<lparr>cm_rows := (if ch_ok c then (cm_rows s)(k := None) else cm_rows s),
                  cm_objects := (if ch_ok2 c then (cm_objects s)(k := None) else cm_objects s)\<rparr>"

definition on_registry :: "(cacheInvalidationRegistry \<Rightarrow> cacheInvalidationRegistry) \<Rightarrow> cache_sys \<Rightarrow> cache_sys" where
  "on_registry f s = s\<lparr>cm_registry := f (cm_registry s)\<rparr>"

text \<open>
  The ends that both kinds of writer share: \<open>discardSupersededWrite\<close> (\<open>WDiscard\<close>, \<open>WMark\<close>),
  \<open>removeUncommittedObject\<close> (\<open>WRemove\<close>, \<open>WWipe\<close>, \<open>WFinish\<close>), and the deferred calls.
\<close>

fun discard_step :: "choice \<Rightarrow> string \<Rightarrow> write_point \<Rightarrow> cache_sys \<Rightarrow> (write_point option \<times> cache_sys) option" where
  "discard_step c k WDiscard s = Some (Some (if ch_ok c \<or> ch_ok2 c then WMark else WUnlock), wipe c k s)"
| "discard_step c k WMark s = Some (Some WUnlock, on_registry (markCleanupSafe k) s)"
| "discard_step c k _ s = None"

fun remove_step :: "choice \<Rightarrow> string \<Rightarrow> write_point \<Rightarrow> cache_sys \<Rightarrow> (write_point option \<times> cache_sys) option" where
  "remove_step c k WRemove s = (case start_invalidation k s of (g', b', s') \<Rightarrow> Some (Some (WWipe g' b'), s'))"
| "remove_step c k (WWipe g' b') s = Some (Some (WFinish g' b' (ch_ok c \<or> ch_ok2 c)), wipe c k s)"
| "remove_step c k (WFinish g' b' safe) s = Some (Some WUnlock, on_registry (finishInvalidation k g' safe) s)"
| "remove_step c k p s = discard_step c k p s"

fun end_step :: "choice \<Rightarrow> string \<Rightarrow> write_point \<Rightarrow> cache_sys \<Rightarrow> (write_point option \<times> cache_sys) option" where
  "end_step c k WUnlock s = Some (Some WAbort, unlock k s)"
| "end_step c k WAbort s = Some (None, on_registry (abortWrite k False) s)"
| "end_step c k WDone s = Some (None, unlock k s)"
| "end_step c k p s = remove_step c k p s"

definition commit_step :: "bool \<Rightarrow> string \<Rightarrow> uint \<Rightarrow> nat \<Rightarrow> cache_sys \<Rightarrow> (write_point option \<times> cache_sys) option" where
  "commit_step refresh k g b s =
     (case commitWrite k g (cm_registry s) of
        (True, r) \<Rightarrow> Some (Some WDone, s\<lparr>cm_registry := r, cm_flights := (if refresh then cm_flights s else (k, b) # cm_flights s)\<rparr>)
      | (False, r) \<Rightarrow> Some (Some WDiscard, s))"

text \<open>
  After a \<open>Put\<close> that succeeded, \<open>validateConsumed\<close> is asked only when the response declared its
  size; \<open>ch_ok2\<close> is its answer. A body of unknown size is taken as the reader delivered it.
\<close>

definition consumed :: "choice \<Rightarrow> bool" where
  "consumed c \<longleftrightarrow> (ch_sized c \<longrightarrow> ch_ok2 c)"

text \<open>\<open>storeAndCommit\<close> after the \<open>beginWrite\<close> of \<open>fetchAndStore\<close>; a fetch that fails gives up at \<open>WLock\<close>.\<close>

fun fill_step :: "choice \<Rightarrow> nat \<Rightarrow> string \<Rightarrow> uint \<Rightarrow> nat \<Rightarrow> write_point \<Rightarrow> cache_sys \<Rightarrow> (write_point option \<times> cache_sys) option" where
  "fill_step c t k g b WLock s =
     (if ch_ok c then map_option (\<lambda>s'. (Some WCheck, s')) (acquire t k s) else Some (Some WAbort, s))"
| "fill_step c t k g b WCheck s = Some (Some (if writeCurrent k g (cm_registry s) then WPut else WDiscard), s)"
| "fill_step c t k g b WPut s =
     (if \<not> ch_ok c then Some (Some WUnlock, s)
      else Some (Some (if consumed c then WRecheck else WRemove),
                 s\<lparr>cm_objects := (cm_objects s)(k \<mapsto> \<lparr>ob_born = b, ob_whole = consumed c\<rparr>)\<rparr>))"
| "fill_step c t k g b WRecheck s = Some (Some (if writeCurrent k g (cm_registry s) then WPersist else WDiscard), s)"
| "fill_step c t k g b WPersist s =
     (if \<not> ch_ok c then Some (Some WRemove, s)
      else Some (Some (if ch_ok2 c then WCommit else WUnlock), s\<lparr>cm_rows := (cm_rows s)(k \<mapsto> b)\<rparr>))"
| "fill_step c t k g b WCommit s = commit_step False k g b s"
| "fill_step c t k g b p s = end_step c k p s"

text \<open>
  \<open>backgroundRefresh\<close> after its \<open>beginWrite\<close>. With \<open>tamper\<close>, a refresh of an immutable artifact
  verifies the body and does not store it; it extends the row and commits, also on a mismatch.
\<close>

fun refresh_step :: "bool \<Rightarrow> choice \<Rightarrow> nat \<Rightarrow> string \<Rightarrow> uint \<Rightarrow> nat \<Rightarrow> write_point \<Rightarrow> cache_sys \<Rightarrow> (write_point option \<times> cache_sys) option" where
  "refresh_step tamper c t k g b WLock s =
     (if ch_ok c then map_option (\<lambda>s'. (Some WCheck, s')) (acquire t k s) else Some (Some WAbort, s))"
| "refresh_step tamper c t k g b WCheck s = Some (Some (if writeCurrent k g (cm_registry s) then WReload else WDiscard), s)"
| "refresh_step tamper c t k g b WReload s =
     Some (Some (if cm_rows s k = None \<or> \<not> ch_ok c then WUnlock else if tamper \<and> ch_ok2 c then WVerified else WPut), s)"
| "refresh_step tamper c t k g b WVerified s = Some (Some (if ch_ok c then WCommit else WUnlock), s)"
| "refresh_step tamper c t k g b WPut s =
     (if \<not> ch_ok c then Some (Some WUnlock, s)
      else Some (Some (if consumed c then WPersist else WRemove),
                 s\<lparr>cm_objects := (cm_objects s)(k \<mapsto> \<lparr>ob_born = b, ob_whole = consumed c\<rparr>)\<rparr>))"
| "refresh_step tamper c t k g b WPersist s =
     (if \<not> ch_ok c \<or> cm_rows s k = None then Some (Some WRemove, s)
      else Some (Some WCommit, s\<lparr>cm_rows := (cm_rows s)(k \<mapsto> b)\<rparr>))"
| "refresh_step tamper c t k g b WCommit s = commit_step True k g b s"
| "refresh_step tamper c t k g b p s = end_step c k p s"

text \<open>\<open>invalidateCachedEntry\<close>, and the cleanup of one entry in \<open>InvalidatePackage\<close>, after \<open>beginInvalidation\<close>.\<close>

fun invalidate_step :: "choice \<Rightarrow> nat \<Rightarrow> string \<Rightarrow> uint \<Rightarrow> nat \<Rightarrow> invalidate_point \<Rightarrow> cache_sys \<Rightarrow> (invalidate_point option \<times> cache_sys) option" where
  "invalidate_step c t k g b ILock s =
     (if ch_ok c then map_option (\<lambda>s'. (Some IPending, s')) (acquire t k s) else Some (Some (IFinish False), s))"
| "invalidate_step c t k g b IPending s =
     Some (Some (if invalidationPending k g (cm_registry s) then IWipe else IUnlock False), s)"
| "invalidate_step c t k g b IWipe s = Some (Some (IUnlock (ch_ok c \<or> ch_ok2 c)), wipe c k s)"
| "invalidate_step c t k g b (IUnlock safe) s = Some (Some (IFinish safe), unlock k s)"
| "invalidate_step c t k g b (IFinish safe) s = Some (None, on_registry (finishInvalidation k g safe) s)"

text \<open>The snapshot read of \<open>serveStale\<close>, which is also the one of \<open>get\<close>.\<close>

fun read_step :: "choice \<Rightarrow> nat \<Rightarrow> string \<Rightarrow> read_point \<Rightarrow> cache_sys \<Rightarrow> (read_point \<times> cache_sys) option" where
  "read_step c t k (RLock entry) s =
     (if ch_ok c then map_option (\<lambda>s'. (RReadable, s')) (acquire t k s) else Some (RDone None, s))"
| "read_step c t k RReadable s = Some (if readable k (cm_registry s) then RRow else RUnlock None, s)"
| "read_step c t k RRow s =
     Some (if \<not> ch_ok c then RUnlock None else case cm_rows s k of None \<Rightarrow> RUnlock None | Some a \<Rightarrow> RAgain a, s)"
| "read_step c t k (RAgain a) s =
     Some (if readable k (cm_registry s) then RGet a (cm_last s k) else RUnlock None, s)"
| "read_step c t k (RGet a seen) s =
     Some (if \<not> ch_ok c then RUnlock None
           else case cm_objects s k of None \<Rightarrow> RUnlock None | Some o' \<Rightarrow> RUnlock (Some (a, o', seen)), s)"
| "read_step c t k (RUnlock result) s = Some (RDone result, unlock k s)"
| "read_step c t k (RDone result) s = None"

text \<open>\<open>followInflight\<close> from the point where the fill it waited for is done: no row is read.\<close>

fun follow_step :: "choice \<Rightarrow> nat \<Rightarrow> string \<Rightarrow> read_point \<Rightarrow> cache_sys \<Rightarrow> (read_point \<times> cache_sys) option" where
  "follow_step c t k (RLock (Some a)) s =
     (if ch_ok c then map_option (\<lambda>s'. (RAgain a, s')) (acquire t k s) else Some (RDone None, s))"
| "follow_step c t k (RAgain a) s =
     Some (if readable k (cm_registry s) then RGet a (cm_last s k) else RUnlock None, s)"
| "follow_step c t k (RGet a seen) s =
     Some (if \<not> ch_ok c then RUnlock None
           else case cm_objects s k of None \<Rightarrow> RUnlock None | Some o' \<Rightarrow> RUnlock (Some (a, o', seen)), s)"
| "follow_step c t k (RUnlock result) s = Some (RDone result, unlock k s)"
| "follow_step c t k _ s = None"

fun thread_step :: "bool \<Rightarrow> choice \<Rightarrow> nat \<Rightarrow> cache_thread \<Rightarrow> cache_sys \<Rightarrow> (cache_thread \<times> cache_sys) option" where
  "thread_step tamper c t Quiet s = None"
| "thread_step tamper c t (Writer refresh k g b p) s =
     map_option (\<lambda>(p', s'). (case p' of None \<Rightarrow> Quiet | Some p' \<Rightarrow> Writer refresh k g b p', s'))
       (if refresh then refresh_step tamper c t k g b p s else fill_step c t k g b p s)"
| "thread_step tamper c t (Invalidator k g b p) s =
     map_option (\<lambda>(p', s'). (case p' of None \<Rightarrow> Quiet | Some p' \<Rightarrow> Invalidator k g b p', s')) (invalidate_step c t k g b p s)"
| "thread_step tamper c t (Reader follower k p) s =
     map_option (\<lambda>(p', s'). (Reader follower k p', s')) (if follower then follow_step c t k p s else read_step c t k p s)"

inductive cache_reach :: "bool \<Rightarrow> cache_sys \<times> (nat \<Rightarrow> cache_thread) \<Rightarrow> bool" for tamper where
  start: "(\<And>k a o'. rows k = Some a \<Longrightarrow> objects k = Some o' \<Longrightarrow> ob_whole o' \<and> ob_born o' = a) \<Longrightarrow>
    cache_reach tamper (new_cache rows objects, \<lambda>_. Quiet)"
| begin_write: "cache_reach tamper (s, th) \<Longrightarrow> th t = Quiet \<Longrightarrow> start_write k s = (g, b, s') \<Longrightarrow>
    cache_reach tamper (s', th(t := Writer refresh k g b WLock))"
| begin_invalidation: "cache_reach tamper (s, th) \<Longrightarrow> th t = Quiet \<Longrightarrow> start_invalidation k s = (g, b, s') \<Longrightarrow>
    cache_reach tamper (s', th(t := Invalidator k g b ILock))"
| begin_read: "cache_reach tamper (s, th) \<Longrightarrow> th t = Quiet \<Longrightarrow> cache_reach tamper (s, th(t := Reader False k (RLock None)))"
| begin_follow: "cache_reach tamper (s, th) \<Longrightarrow> th t = Quiet \<Longrightarrow> (k, a) \<in> set (cm_flights s) \<Longrightarrow>
    cache_reach tamper (s, th(t := Reader True k (RLock (Some a))))"
| step: "cache_reach tamper (s, th) \<Longrightarrow> thread_step tamper c t (th t) s = Some (p, s') \<Longrightarrow> cache_reach tamper (s', th(t := p))"

subsection \<open>Roles of a thread\<close>

text \<open>The write and the invalidation it has begun, and the key it has locked.\<close>

fun write_handle :: "cache_thread \<Rightarrow> (string \<times> uint \<times> nat) option" where
  "write_handle (Writer f k g b WDone) = None"
| "write_handle (Writer f k g b p) = Some (k, g, b)"
| "write_handle _ = None"

fun inv_handle :: "cache_thread \<Rightarrow> (string \<times> uint \<times> nat) option" where
  "inv_handle (Writer f k g b (WWipe g' b')) = Some (k, g', b')"
| "inv_handle (Writer f k g b (WFinish g' b' safe)) = Some (k, g', b')"
| "inv_handle (Invalidator k g b p) = Some (k, g, b)"
| "inv_handle _ = None"

fun locked :: "cache_thread \<Rightarrow> string option" where
  "locked (Writer f k g b p) = (if p = WLock \<or> p = WAbort then None else Some k)"
| "locked (Invalidator k g b p) = (case p of ILock \<Rightarrow> None | IFinish safe \<Rightarrow> None | _ \<Rightarrow> Some k)"
| "locked (Reader f k p) = (case p of RLock e \<Rightarrow> None | RDone res \<Rightarrow> None | _ \<Rightarrow> Some k)"
| "locked Quiet = None"

text \<open>
  A writer that has found its generation current goes on to write; from the moment the new object
  is stored until the row and the tombstone agree with it, the key is in transition.
\<close>

fun writing :: "cache_thread \<Rightarrow> (string \<times> nat) option" where
  "writing (Writer f k g b p) = (if p \<in> {WReload, WPut, WRecheck, WPersist, WCommit, WRemove} then Some (k, b) else None)"
| "writing _ = None"

fun transit :: "cache_thread \<Rightarrow> (string \<times> nat) option" where
  "transit (Writer f k g b p) = (if p \<in> {WRecheck, WPersist, WCommit, WRemove} then Some (k, b) else None)"
| "transit _ = None"

text \<open>An invalidation whose cleanup succeeded and is about to be reported.\<close>

fun cleaned :: "cache_thread \<Rightarrow> (string \<times> nat) option" where
  "cleaned (Writer f k g b (WFinish g' b' True)) = Some (k, b')"
| "cleaned (Invalidator k g b (IUnlock True)) = Some (k, b)"
| "cleaned (Invalidator k g b (IFinish True)) = Some (k, b)"
| "cleaned _ = None"

text \<open>What a thread knows of the row and the object while it holds the lock, and of its result.\<close>

definition served_ok :: "nat \<times> cache_object \<times> nat \<Rightarrow> bool" where
  "served_ok res = (case res of (a, o', seen) \<Rightarrow> ob_whole o' \<and> ob_born o' = a \<and> seen \<le> ob_born o')"

fun knows :: "cache_sys \<Rightarrow> cache_thread \<Rightarrow> bool" where
  "knows s (Writer f k g b p) \<longleftrightarrow>
     (p \<in> {WRecheck, WPersist, WCommit} \<longrightarrow> cm_objects s k = Some \<lparr>ob_born = b, ob_whole = True\<rparr>) \<and>
     (p = WCommit \<longrightarrow> cm_rows s k = Some b) \<and> (p = WMark \<longrightarrow> cm_rows s k = None \<or> cm_objects s k = None) \<and> p \<noteq> WVerified"
| "knows s (Reader False k (RLock entry)) \<longleftrightarrow> entry = None"
| "knows s (Reader False k (RAgain a)) \<longleftrightarrow> cm_rows s k = Some a"
| "knows s (Reader False k (RGet a seen)) \<longleftrightarrow> (\<forall>o'. cm_objects s k = Some o' \<longrightarrow> served_ok (a, o', seen))"
| "knows s (Reader False k (RUnlock (Some res))) \<longleftrightarrow> served_ok res"
| "knows s (Reader False k (RDone (Some res))) \<longleftrightarrow> served_ok res"
| "knows s _ \<longleftrightarrow> True"

text \<open>The key could serve bytes that are revoked, incomplete or described by another write's row.\<close>

definition bad :: "cache_sys \<Rightarrow> string \<Rightarrow> bool" where
  "bad s k \<longleftrightarrow> (\<exists>a o'. cm_rows s k = Some a \<and> cm_objects s k = Some o' \<and> \<not> served_ok (a, o', cm_last s k))"

text \<open>The tombstone holds and nothing has been reported that would lift it.\<close>

definition pinned :: "string \<Rightarrow> cacheInvalidationRegistry \<Rightarrow> bool" where
  "pinned k r \<longleftrightarrow> rg_failClosed r \<or> (\<exists>s. rg_states r k = Some s \<and> cs_tombstoned s \<and> \<not> cs_cleanupSafe s)"

definition in_transit :: "cache_sys \<Rightarrow> (nat \<Rightarrow> cache_thread) \<Rightarrow> string \<Rightarrow> bool" where
  "in_transit s th k \<longleftrightarrow> (\<exists>t b. transit (th t) = Some (k, b) \<and> cm_last s k \<le> b)"

definition clean_report :: "cache_sys \<Rightarrow> (nat \<Rightarrow> cache_thread) \<Rightarrow> string \<Rightarrow> bool" where
  "clean_report s th k \<longleftrightarrow> (\<exists>t. cleaned (th t) = Some (k, cm_last s k))"

definition key_inv :: "cache_sys \<Rightarrow> (nat \<Rightarrow> cache_thread) \<Rightarrow> string \<Rightarrow> bool" where
  "key_inv s th k \<longleftrightarrow>
     (bad s k \<longrightarrow> pinned k (cm_registry s) \<or> in_transit s th k) \<and>
     (\<forall>t b. writing (th t) = Some (k, b) \<and> b < cm_last s k \<longrightarrow> pinned k (cm_registry s) \<and> \<not> clean_report s th k) \<and>
     (clean_report s th k \<longrightarrow> \<not> bad s k \<or> in_transit s th k)"

definition exclusive :: "cache_sys \<Rightarrow> (nat \<Rightarrow> cache_thread) \<Rightarrow> bool" where
  "exclusive s th \<longleftrightarrow> (\<forall>k t. cm_holder s k = Some t \<longleftrightarrow> locked (th t) = Some k)"

definition handles_ok :: "cache_sys \<Rightarrow> (nat \<Rightarrow> cache_thread) \<Rightarrow> bool" where
  "handles_ok s th \<longleftrightarrow> reg_inv (cm_registry s) (write_handle \<circ> th) (inv_handle \<circ> th) (cm_clock s) (cm_last s)"

definition cache_inv :: "cache_sys \<Rightarrow> (nat \<Rightarrow> cache_thread) \<Rightarrow> bool" where
  "cache_inv s th \<longleftrightarrow> handles_ok s th \<and> exclusive s th \<and> (\<forall>t. knows s (th t)) \<and> (\<forall>k. key_inv s th k)"

subsection \<open>Frame rules\<close>

lemma transit_writing: "transit p = Some (k, b) \<Longrightarrow> writing p = Some (k, b)"
  by (cases p) (auto split: if_splits)

lemma writing_locked: "writing p = Some (k, b) \<Longrightarrow> locked p = Some k"
  by (cases p) (auto split: if_splits)

lemma writing_handle: "writing p = Some (k, b) \<Longrightarrow> \<exists>g. write_handle p = Some (k, g, b)"
  by (cases p) (auto split: if_splits)

lemma exclusiveD: "exclusive s th \<Longrightarrow> locked (th t) = Some k \<Longrightarrow> locked (th t') = Some k \<Longrightarrow> t' = t"
  unfolding exclusive_def by (metis option.inject)

lemma in_transit_holder:
  assumes "exclusive s th" and "locked (th t) = Some k"
  shows "in_transit s' (th(t := p)) k \<longleftrightarrow> (\<exists>b. transit p = Some (k, b) \<and> cm_last s' k \<le> b)"
    and "in_transit s' th k \<longleftrightarrow> (\<exists>b. transit (th t) = Some (k, b) \<and> cm_last s' k \<le> b)"
proof -
  have other: "transit (th t') \<noteq> Some (k, b)" if "t' \<noteq> t" for t' b
    using that exclusiveD [OF assms] transit_writing writing_locked by blast
  show "in_transit s' (th(t := p)) k \<longleftrightarrow> (\<exists>b. transit p = Some (k, b) \<and> cm_last s' k \<le> b)"
    using other by (auto simp: in_transit_def)
  show "in_transit s' th k \<longleftrightarrow> (\<exists>b. transit (th t) = Some (k, b) \<and> cm_last s' k \<le> b)"
    using other unfolding in_transit_def by metis
qed

lemma writing_holder:
  assumes "exclusive s th" and "locked (th t) = Some k" and "writing ((th(t := p)) t') = Some (k, b)"
  shows "t' = t \<and> writing p = Some (k, b)"
  using assms exclusiveD [OF assms(1,2), of t'] writing_locked by (auto split: if_splits)

lemma in_transit_free:
  assumes "\<And>b. transit (th t) \<noteq> Some (k, b)" and "\<And>b. transit p \<noteq> Some (k, b)" and "cm_last s' k = cm_last s k"
  shows "in_transit s' (th(t := p)) k \<longleftrightarrow> in_transit s th k"
  unfolding in_transit_def assms(3) using assms(1,2) by (metis fun_upd_other fun_upd_same)

lemma clean_report_upd:
  "clean_report s (th(t := p)) k \<longleftrightarrow> cleaned p = Some (k, cm_last s k) \<or> (\<exists>t'. t' \<noteq> t \<and> cleaned (th t') = Some (k, cm_last s k))"
  by (auto simp: clean_report_def)

lemma clean_report_same:
  assumes "cm_last s' k = cm_last s k" and "cleaned p \<noteq> Some (k, cm_last s k)"
  shows "clean_report s' (th(t := p)) k \<Longrightarrow> clean_report s th k"
  using assms by (auto simp: clean_report_def split: if_splits)

text \<open>A step on another key.\<close>

definition about :: "string \<Rightarrow> cache_thread \<Rightarrow> bool" where
  "about k0 p \<longleftrightarrow> (\<forall>k. k \<noteq> k0 \<longrightarrow> (\<forall>b. writing p \<noteq> Some (k, b)) \<and> (\<forall>b. cleaned p \<noteq> Some (k, b)))"

lemma key_inv_other:
  assumes inv: "key_inv s th k" and "k \<noteq> k0" and "about k0 (th t)" and "about k0 p"
    and same: "cm_rows s' k = cm_rows s k" "cm_objects s' k = cm_objects s k" "cm_last s' k = cm_last s k"
    and pinned: "pinned k (cm_registry s) \<Longrightarrow> pinned k (cm_registry s')"
  shows "key_inv s' (th(t := p)) k"
proof -
  have none: "writing (th t) \<noteq> Some (k, b)" "writing p \<noteq> Some (k, b)" "cleaned (th t) \<noteq> Some (k, b)" "cleaned p \<noteq> Some (k, b)" for b
    using assms(2-4) by (auto simp: about_def)
  have transit: "in_transit s' (th(t := p)) k \<longleftrightarrow> in_transit s th k"
    by (rule in_transit_free) (use none transit_writing same in blast)+
  have report: "clean_report s' (th(t := p)) k \<longleftrightarrow> clean_report s th k"
    unfolding clean_report_def same using none by (metis fun_upd_other fun_upd_same)
  have bad: "bad s' k \<longleftrightarrow> bad s k" by (simp add: bad_def same)
  have writing: "writing ((th(t := p)) t') = Some (k, b) \<Longrightarrow> writing (th t') = Some (k, b)" for t' b
    using none by (auto split: if_splits)
  show ?thesis unfolding key_inv_def transit report bad same
    using inv pinned writing unfolding key_inv_def by blast
qed

lemma framed_pinned: "framed k r r' \<Longrightarrow> k' \<noteq> k \<Longrightarrow> pinned k' r \<Longrightarrow> pinned k' r'"
  unfolding pinned_def by (metis framed_def)

lemma knows_cong:
  assumes "\<And>k. locked p = Some k \<Longrightarrow> cm_rows s' k = cm_rows s k \<and> cm_objects s' k = cm_objects s k"
  shows "knows s' p \<longleftrightarrow> knows s p"
  using assms by (cases "(s, p)" rule: knows.cases) auto

text \<open>A step concerns one key; what it does to the rows and objects it does under the lock.\<close>

lemma cache_inv_step:
  assumes inv: "cache_inv s th"
    and handles: "handles_ok s' (th(t := p))" and excl: "exclusive s' (th(t := p))"
    and own: "key_inv s' (th(t := p)) k0" and knows: "knows s' p"
    and locked: "locked (th t) = Some k0 \<or> cm_rows s' k0 = cm_rows s k0 \<and> cm_objects s' k0 = cm_objects s k0"
    and same: "\<And>k. k \<noteq> k0 \<Longrightarrow> cm_rows s' k = cm_rows s k \<and> cm_objects s' k = cm_objects s k \<and> cm_last s' k = cm_last s k"
    and frame: "framed k0 (cm_registry s) (cm_registry s')" and about: "about k0 (th t)" "about k0 p"
  shows "cache_inv s' (th(t := p))"
  unfolding cache_inv_def
proof (intro conjI allI handles excl)
  have old: "exclusive s th" "\<And>t. knows s (th t)" "\<And>k. key_inv s th k" using inv by (auto simp: cache_inv_def)
  show "knows s' ((th(t := p)) t')" for t'
  proof (cases "t' = t")
    case False
    have "knows s' (th t') \<longleftrightarrow> knows s (th t')"
    proof (rule knows_cong)
      fix k assume k: "locked (th t') = Some k"
      show "cm_rows s' k = cm_rows s k \<and> cm_objects s' k = cm_objects s k"
        using locked same [of k] exclusiveD [OF old(1), of t k t'] k False by (cases "k = k0") auto
    qed
    then show ?thesis using old(2) False by simp
  qed (use knows in simp)
  show "key_inv s' (th(t := p)) k" for k
  proof (cases "k = k0")
    case False
    show ?thesis
      by (rule key_inv_other [OF old(3) False about]) (use same [OF False] framed_pinned [OF frame False] in auto)
  qed (use own in simp)
qed

lemma key_inv_holder:
  assumes "exclusive s th" and "locked (th t) = Some k"
  shows "key_inv s' (th(t := p)) k \<longleftrightarrow>
     (bad s' k \<longrightarrow> pinned k (cm_registry s') \<or> (\<exists>b. transit p = Some (k, b) \<and> cm_last s' k \<le> b)) \<and>
     (\<forall>b. writing p = Some (k, b) \<and> b < cm_last s' k \<longrightarrow> pinned k (cm_registry s') \<and> \<not> clean_report s' (th(t := p)) k) \<and>
     (clean_report s' (th(t := p)) k \<longrightarrow> \<not> bad s' k \<or> (\<exists>b. transit p = Some (k, b) \<and> cm_last s' k \<le> b))"
  unfolding key_inv_def in_transit_holder [OF assms]
  using writing_holder [OF assms, of p] by (metis fun_upd_same)

lemma key_inv_old:
  assumes "exclusive s th" and "locked (th t) = Some k" and "key_inv s th k"
  shows "bad s k \<Longrightarrow> pinned k (cm_registry s) \<or> (\<exists>b. transit (th t) = Some (k, b) \<and> cm_last s k \<le> b)"
    and "writing (th t) = Some (k, b) \<Longrightarrow> cm_last s k \<le> b \<or> pinned k (cm_registry s) \<and> \<not> clean_report s th k"
    and "clean_report s th k \<Longrightarrow> \<not> bad s k \<or> (\<exists>b. transit (th t) = Some (k, b) \<and> cm_last s k \<le> b)"
  using assms(3) unfolding key_inv_def in_transit_holder(2) [OF assms(1,2)] by (auto simp: not_le [symmetric])

lemma cache_invD:
  assumes "cache_inv s th"
  shows "handles_ok s th" "exclusive s th" "knows s (th t)" "key_inv s th k"
  using assms by (auto simp: cache_inv_def)

subsection \<open>Tombstones\<close>

lemma pinned_unreadable: "pinned k r \<Longrightarrow> \<not> readable k r"
  by (auto simp: pinned_def readable_def)

lemma settle_pinned:
  assumes "rg_failClosed r \<or> cs_tombstoned s \<and> \<not> cs_cleanupSafe s"
  shows "pinned k (settleIdleLocked k s r)"
  using assms settle_closed [of r k s] settle_own [of s k r] by (cases "idle s") (auto simp: pinned_def tombstoned_def split: option.splits)

lemma pinned_beginWrite: "pinned k r \<Longrightarrow> beginWrite k r = (g, r') \<Longrightarrow> pinned k r'"
  by (auto simp: pinned_def beginWrite_in_use state_of_def in_use_def)

lemma pinned_beginInvalidation: "beginInvalidation k r = (g, r') \<Longrightarrow> pinned k r'"
  by (auto simp: pinned_def beginInvalidation_in_use)

lemma pinned_abort: "pinned k r \<Longrightarrow> pinned k (abortWrite k False r)"
  unfolding abortWrite_def by (cases "rg_states r k") (auto simp: pinned_def intro!: settle_pinned [unfolded pinned_def])

lemma pinned_finish:
  assumes "pinned k r" and "\<And>s. rg_states r k = Some s \<Longrightarrow> safe \<Longrightarrow> cs_generation s \<noteq> g"
  shows "pinned k (finishInvalidation k g safe r)"
  using assms unfolding finishInvalidation_def
  by (cases "rg_states r k") (auto simp: pinned_def intro!: settle_pinned [unfolded pinned_def])

subsection \<open>Handles and generations\<close>

lemma current_iff:
  assumes "handles_ok s th" and "write_handle (th t) = Some (k, g, b)"
  shows "writeCurrent k g (cm_registry s) \<longleftrightarrow> cm_last s k \<le> b"
proof -
  obtain st where st: "rg_states (cm_registry s) k = Some st"
    using handle_state [OF assms(1) [unfolded handles_ok_def], of t k g b] assms(2) by auto
  then show ?thesis using reg_invD(8) [OF assms(1) [unfolded handles_ok_def], of t k g b st] assms(2)
    by (auto simp: writeCurrent_def)
qed

lemma cleaned_handle: "cleaned p = Some (k, b) \<Longrightarrow> \<exists>g. inv_handle p = Some (k, g, b)"
  by (cases p rule: cleaned.cases) auto

lemma inv_handle_last:
  assumes "handles_ok s th" and "inv_handle (th t) = Some (k, g, b)"
  shows "b \<le> cm_last s k" and "rg_states (cm_registry s) k = Some st \<Longrightarrow> cs_generation st = g \<longleftrightarrow> cm_last s k = b"
  using handle_inv(2) [OF assms(1) [unfolded handles_ok_def], of t k g b] assms(2)
    reg_invD(9) [OF assms(1) [unfolded handles_ok_def], of t k g b st] by auto

lemma no_new_report:
  assumes ok: "handles_ok s th" and "cm_last s' k = Suc (cm_clock s)" and "\<And>b. cleaned p = Some (k, b) \<Longrightarrow> b \<le> cm_clock s"
  shows "\<not> clean_report s' (th(t := p)) k"
proof
  assume "clean_report s' (th(t := p)) k"
  then consider "cleaned p = Some (k, Suc (cm_clock s))" | t' where "cleaned (th t') = Some (k, Suc (cm_clock s))"
    using assms(2) by (auto simp: clean_report_upd)
  then show False
  proof cases
    case 1
    then show False using assms(3) by fastforce
  next
    case 2
    then obtain g where "inv_handle (th t') = Some (k, g, Suc (cm_clock s))" using cleaned_handle by blast
    then have "Suc (cm_clock s) \<le> cm_last s k" using inv_handle_last(1) [OF ok] by blast
    moreover have "cm_last s k \<le> cm_clock s" using reg_invD(7) [OF ok [unfolded handles_ok_def]] .
    ultimately show False by simp
  qed
qed

subsection \<open>Kinds of steps\<close>

lemma comp_upd: "f \<circ> th(t := p) = (f \<circ> th)(t := f p)"
  by auto

lemma handles_same:
  assumes "handles_ok s th" and "write_handle p = write_handle (th t)" and "inv_handle p = inv_handle (th t)"
    and "cm_registry s' = cm_registry s" "cm_clock s' = cm_clock s" "cm_last s' = cm_last s"
  shows "handles_ok s' (th(t := p))"
proof -
  have "write_handle \<circ> th(t := p) = write_handle \<circ> th" "inv_handle \<circ> th(t := p) = inv_handle \<circ> th"
    using assms(2,3) by (auto simp: fun_eq_iff)
  then show ?thesis using assms by (simp add: handles_ok_def)
qed

lemma exclusive_same: "exclusive s th \<Longrightarrow> locked p = locked (th t) \<Longrightarrow> cm_holder s' = cm_holder s \<Longrightarrow> exclusive s' (th(t := p))"
  by (simp add: exclusive_def)

lemma exclusive_acquire:
  assumes "exclusive s th" and "acquire t k s = Some s'" and "locked (th t) = None" and "locked p = Some k"
  shows "exclusive s' (th(t := p))"
  using assms by (auto simp: exclusive_def acquire_def split: if_splits) (metis option.distinct(1))+

lemma exclusive_unlock:
  assumes "exclusive s th" and "locked (th t) = Some k" and "locked p = None"
  shows "exclusive (unlock k s) (th(t := p))"
  using assms by (auto simp: exclusive_def unlock_def) (metis option.inject)+

lemma about_simps [simp]:
  "about k Quiet" "about k (Writer f k g b w)" "about k (Invalidator k g b i)" "about k0 (Reader f k1 r)"
  by (auto simp: about_def elim: cleaned.elims split: if_splits)

lemma unlock_fields [simp]:
  "cm_registry (unlock k s) = cm_registry s" "cm_rows (unlock k s) = cm_rows s" "cm_objects (unlock k s) = cm_objects s"
  "cm_last (unlock k s) = cm_last s" "cm_clock (unlock k s) = cm_clock s"
  by (simp_all add: unlock_def)

lemma acquire_fields:
  "acquire t k s = Some s' \<Longrightarrow> cm_registry s' = cm_registry s \<and> cm_rows s' = cm_rows s \<and> cm_objects s' = cm_objects s \<and>
     cm_last s' = cm_last s \<and> cm_clock s' = cm_clock s"
  by (auto simp: acquire_def split: if_splits)

text \<open>A thread moves without changing rows, objects or registry, and is and stays no writer in progress.\<close>

lemma key_inv_quiet:
  assumes inv: "key_inv s th k"
    and same: "cm_rows s' k = cm_rows s k" "cm_objects s' k = cm_objects s k" "cm_last s' k = cm_last s k" "cm_registry s' = cm_registry s"
    and "\<And>b. writing (th t) \<noteq> Some (k, b)" and "\<And>b. writing p \<noteq> Some (k, b)" and "cleaned p = cleaned (th t)"
  shows "key_inv s' (th(t := p)) k"
proof -
  have transit: "in_transit s' (th(t := p)) k \<longleftrightarrow> in_transit s th k"
    by (rule in_transit_free) (use assms(6,7) transit_writing same in blast)+
  have "cleaned ((th(t := p)) t') = cleaned (th t')" for t' using assms(8) by simp
  then have report: "clean_report s' (th(t := p)) k \<longleftrightarrow> clean_report s th k" by (simp add: clean_report_def same)
  have bad: "bad s' k \<longleftrightarrow> bad s k" by (simp add: bad_def same)
  have writing: "writing ((th(t := p)) t') = Some (k, b) \<Longrightarrow> writing (th t') = Some (k, b)" for t' b
    using assms(7) by (auto split: if_splits)
  show ?thesis unfolding key_inv_def transit report bad same using inv writing unfolding key_inv_def by blast
qed

lemma quiet_step:
  assumes inv: "cache_inv s th"
    and handles: "write_handle p = write_handle (th t)" "inv_handle p = inv_handle (th t)"
    and excl: "exclusive s' (th(t := p))" and knows: "knows s' p"
    and same: "cm_rows s' = cm_rows s" "cm_objects s' = cm_objects s" "cm_last s' = cm_last s" "cm_registry s' = cm_registry s" "cm_clock s' = cm_clock s"
    and quiet: "writing (th t) = None" "writing p = None" "cleaned p = cleaned (th t)" and about: "about k0 (th t)" "about k0 p"
  shows "cache_inv s' (th(t := p))"
proof (rule cache_inv_step [OF inv _ excl _ knows])
  show "handles_ok s' (th(t := p))" by (rule handles_same [OF cache_invD(1) [OF inv]]) (use handles same in simp_all)
  show "key_inv s' (th(t := p)) k0"
    by (rule key_inv_quiet [OF cache_invD(4) [OF inv]]) (use same quiet in simp_all)
qed (use same about in simp_all)

text \<open>A thread that holds the lock makes a step that leaves the registry and its handles.\<close>

lemma holder_step:
  assumes inv: "cache_inv s th" and lock: "locked (th t) = Some k" "locked p = Some k"
    and handles: "write_handle p = write_handle (th t)" "inv_handle p = inv_handle (th t)"
    and same: "cm_registry s' = cm_registry s" "cm_clock s' = cm_clock s" "cm_last s' = cm_last s" "cm_holder s' = cm_holder s"
    and other: "\<And>k'. k' \<noteq> k \<Longrightarrow> cm_rows s' k' = cm_rows s k' \<and> cm_objects s' k' = cm_objects s k'"
    and knows: "knows s' p" and about: "about k (th t)" "about k p" and own: "key_inv s' (th(t := p)) k"
  shows "cache_inv s' (th(t := p))"
proof (rule cache_inv_step [OF inv _ _ own knows])
  show "handles_ok s' (th(t := p))" by (rule handles_same [OF cache_invD(1) [OF inv]]) (use handles same in simp_all)
  show "exclusive s' (th(t := p))" by (rule exclusive_same [OF cache_invD(2) [OF inv]]) (use lock same in simp_all)
qed (use same about lock other in simp_all)

text \<open>A cleanup that succeeded leaves nothing to serve.\<close>

lemma wipe_bad: "ch_ok c \<or> ch_ok2 c \<Longrightarrow> \<not> bad (wipe c k s) k"
  by (auto simp: bad_def wipe_def)

lemma wipe_none: "\<not> (ch_ok c \<or> ch_ok2 c) \<Longrightarrow> wipe c k s = s"
  by (simp add: wipe_def)

lemma wipe_fields [simp]:
  "cm_registry (wipe c k s) = cm_registry s" "cm_clock (wipe c k s) = cm_clock s" "cm_last (wipe c k s) = cm_last s"
  "cm_holder (wipe c k s) = cm_holder s" "k' \<noteq> k \<Longrightarrow> cm_rows (wipe c k s) k' = cm_rows s k'"
  "k' \<noteq> k \<Longrightarrow> cm_objects (wipe c k s) k' = cm_objects s k'"
  "ch_ok c \<or> ch_ok2 c \<Longrightarrow> cm_rows (wipe c k s) k = None \<or> cm_objects (wipe c k s) k = None"
  by (auto simp: wipe_def)

text \<open>A step of the registry by a thread that holds the lock or is no writer in progress.\<close>

lemma registry_step:
  assumes inv: "cache_inv s th" and handles: "handles_ok s' (th(t := p))" and locked: "locked p = locked (th t)"
    and same: "cm_rows s' = cm_rows s" "cm_objects s' = cm_objects s" "cm_holder s' = cm_holder s" "\<And>k'. k' \<noteq> k \<Longrightarrow> cm_last s' k' = cm_last s k'"
    and frame: "framed k (cm_registry s) (cm_registry s')" and knows: "knows s' p" and about: "about k (th t)" "about k p"
    and own: "key_inv s' (th(t := p)) k"
  shows "cache_inv s' (th(t := p))"
  by (rule cache_inv_step [OF inv handles _ own knows])
    (use same locked frame about exclusive_same [OF cache_invD(2) [OF inv]] in simp_all)

subsection \<open>Steps of a writer\<close>

lemma report_same:
  "cm_last s' = cm_last s \<Longrightarrow> cleaned (th t) = None \<Longrightarrow> cleaned p = None \<Longrightarrow> clean_report s' (th(t := p)) k \<longleftrightarrow> clean_report s th k"
  unfolding clean_report_def by (metis fun_upd_other fun_upd_same option.distinct(1))

lemma writer_facts:
  assumes inv: "cache_inv s th" and th: "th t = Writer f k g b w" and w: "w \<noteq> WLock" "w \<noteq> WAbort" "w \<noteq> WDone"
  shows "exclusive s th" and "locked (th t) = Some k" and "writeCurrent k g (cm_registry s) \<longleftrightarrow> cm_last s k \<le> b"
    and "bad s k \<Longrightarrow> pinned k (cm_registry s) \<or> (\<exists>b. transit (th t) = Some (k, b) \<and> cm_last s k \<le> b)"
    and "writing (th t) = Some (k, b) \<Longrightarrow> cm_last s k \<le> b \<or> pinned k (cm_registry s) \<and> \<not> clean_report s th k"
    and "clean_report s th k \<Longrightarrow> \<not> bad s k \<or> (\<exists>b. transit (th t) = Some (k, b) \<and> cm_last s k \<le> b)"
    and "knows s (Writer f k g b w)"
proof -
  show excl: "exclusive s th" and lock: "locked (th t) = Some k" using cache_invD(2) [OF inv] th w by simp_all
  have "write_handle (th t) = Some (k, g, b)" using th w by (cases w) auto
  then show "writeCurrent k g (cm_registry s) \<longleftrightarrow> cm_last s k \<le> b" by (rule current_iff [OF cache_invD(1) [OF inv]])
  show "bad s k \<Longrightarrow> pinned k (cm_registry s) \<or> (\<exists>b. transit (th t) = Some (k, b) \<and> cm_last s k \<le> b)"
    "writing (th t) = Some (k, b) \<Longrightarrow> cm_last s k \<le> b \<or> pinned k (cm_registry s) \<and> \<not> clean_report s th k"
    "clean_report s th k \<Longrightarrow> \<not> bad s k \<or> (\<exists>b. transit (th t) = Some (k, b) \<and> cm_last s k \<le> b)"
    using key_inv_old [OF excl lock cache_invD(4) [OF inv]] by blast+
  show "knows s (Writer f k g b w)" using cache_invD(3) [OF inv, of t] th by simp
qed

text \<open>Moves that change nothing but the control point.\<close>

lemma writer_move:
  assumes inv: "cache_inv s th" and th: "th t = Writer f k g b w"
    and move: "(w, w') \<in> {(WReload, WUnlock), (WReload, WPut), (WPut, WUnlock), (WPersist, WRemove)} \<or>
      (w, w') \<in> {(WCheck, WReload), (WCheck, WPut), (WRecheck, WPersist)} \<and> writeCurrent k g (cm_registry s) \<or>
      (w, w') \<in> {(WCheck, WDiscard), (WRecheck, WDiscard), (WCommit, WDiscard)} \<and> \<not> writeCurrent k g (cm_registry s)"
  shows "cache_inv s (th(t := Writer f k g b w'))"
proof -
  have w: "w \<noteq> WLock" "w \<noteq> WAbort" "w \<noteq> WDone" using move by auto
  note facts = writer_facts [OF inv th w]
  have cleaned: "cleaned (th t) = None" "cleaned (Writer f k g b w') = None" using th move by auto
  note report = report_same [of s s th t "Writer f k g b w'" k, OF refl cleaned]
  show ?thesis
  proof (rule holder_step [OF inv facts(2)])
    show "key_inv s (th(t := Writer f k g b w')) k"
      unfolding key_inv_holder [OF facts(1,2)] report using move facts(3-6) th by auto
    show "knows s (Writer f k g b w')" using facts(7) move by auto
  qed (use th move in auto)
qed

lemma writer_put:
  assumes inv: "cache_inv s th" and th: "th t = Writer f k g b WPut" and w': "w' = WRemove \<or> whole \<and> w' \<in> {WPersist, WRecheck}"
  shows "cache_inv (s\<lparr>cm_objects := (cm_objects s)(k \<mapsto> \<lparr>ob_born = b, ob_whole = whole\<rparr>)\<rparr>) (th(t := Writer f k g b w'))"
    (is "cache_inv ?s (th(t := ?p))")
proof -
  note facts = writer_facts [OF inv th, simplified]
  have cleaned: "cleaned (th t) = None" "cleaned ?p = None" using th w' by auto
  note report = report_same [of ?s s th t ?p k, OF _ cleaned, simplified]
  have lock: "locked (th t) = Some k" using th by simp
  show ?thesis
  proof (rule holder_step [OF inv lock])
    show "key_inv ?s (th(t := ?p)) k"
      unfolding key_inv_holder [OF facts(1) lock] report using facts(5) th w' by auto
    show "knows ?s ?p" using w' by auto
  qed (use th w' in auto)
qed

lemma writer_persist:
  assumes inv: "cache_inv s th" and th: "th t = Writer f k g b WPersist" and w': "w' = WUnlock \<or> w' = WCommit"
  shows "cache_inv (s\<lparr>cm_rows := (cm_rows s)(k \<mapsto> b)\<rparr>) (th(t := Writer f k g b w'))" (is "cache_inv ?s (th(t := ?p))")
proof -
  note facts = writer_facts [OF inv th, simplified]
  have cleaned: "cleaned (th t) = None" "cleaned ?p = None" using th w' by auto
  note report = report_same [of ?s s th t ?p k, OF _ cleaned, simplified]
  have lock: "locked (th t) = Some k" using th by simp
  have obj: "cm_objects s k = Some \<lparr>ob_born = b, ob_whole = True\<rparr>" using facts(7) by simp
  then have bad: "bad ?s k \<longleftrightarrow> b < cm_last s k" by (auto simp: bad_def served_ok_def)
  show ?thesis
  proof (rule holder_step [OF inv lock])
    show "key_inv ?s (th(t := ?p)) k"
      unfolding key_inv_holder [OF facts(1) lock] report bad using facts(5) th w' by auto
    show "knows ?s ?p" using w' obj by auto
  qed (use th w' in auto)
qed

lemma writer_discard:
  assumes inv: "cache_inv s th" and th: "th t = Writer f k g b WDiscard"
  shows "cache_inv (wipe c k s) (th(t := Writer f k g b (if ch_ok c \<or> ch_ok2 c then WMark else WUnlock)))" (is "cache_inv ?s (th(t := ?p))")
proof -
  note facts = writer_facts [OF inv th, simplified]
  have cleaned: "cleaned (th t) = None" "cleaned ?p = None" using th by auto
  note report = report_same [of ?s s th t ?p k, OF _ cleaned, simplified]
  have lock: "locked (th t) = Some k" using th by simp
  show ?thesis
  proof (rule holder_step [OF inv lock])
    show "key_inv ?s (th(t := ?p)) k"
    proof (cases "ch_ok c \<or> ch_ok2 c")
      case True
      then show ?thesis unfolding key_inv_holder [OF facts(1) lock] report using wipe_bad [OF True, of k s] by simp
    next
      case False
      then show ?thesis unfolding key_inv_holder [OF facts(1) lock] report using facts(4,6) th by (simp add: wipe_none)
    qed
    show "knows ?s ?p" using wipe_fields(7) [of c k s] by auto
  qed (use th in auto)
qed

lemma writer_wipe:
  assumes inv: "cache_inv s th" and th: "th t = Writer f k g b (WWipe g' b')"
  shows "cache_inv (wipe c k s) (th(t := Writer f k g b (WFinish g' b' (ch_ok c \<or> ch_ok2 c))))" (is "cache_inv ?s (th(t := ?p))")
proof -
  note facts = writer_facts [OF inv th, simplified]
  have lock: "locked (th t) = Some k" using th by simp
  show ?thesis
  proof (rule holder_step [OF inv lock])
    show "key_inv ?s (th(t := ?p)) k"
    proof (cases "ch_ok c \<or> ch_ok2 c")
      case True
      then show ?thesis unfolding key_inv_holder [OF facts(1) lock] using wipe_bad [OF True, of k s] by simp
    next
      case False
      then have cleaned: "cleaned (th t) = None" "cleaned ?p = None" using th by auto
      note report = report_same [of ?s s th t ?p k, OF _ cleaned, simplified]
      show ?thesis unfolding key_inv_holder [OF facts(1) lock] report using False facts(4,6) th by (simp add: wipe_none)
    qed
  qed (use th in auto)
qed

lemma framed_commit: "framed k r (snd (commitWrite k g r))"
  using framed_settle by (simp add: commitWrite_def split: option.splits)

lemma framed_ops:
  "framed k r (abortWrite k safe r)" "framed k r (markCleanupSafe k r)" "framed k r (finishInvalidation k g safe r)"
  using framed_settle by (simp_all add: abortWrite_def markCleanupSafe_def finishInvalidation_def split: option.splits)

lemma framed_begin: "framed k r (snd (beginWrite k r))" "framed k r (snd (beginInvalidation k r))"
  using framed_in_use by (simp_all add: beginWrite_in_use beginInvalidation_in_use)

lemma on_registry_fields [simp]:
  "cm_registry (on_registry f s) = f (cm_registry s)" "cm_rows (on_registry f s) = cm_rows s" "cm_objects (on_registry f s) = cm_objects s"
  "cm_last (on_registry f s) = cm_last s" "cm_clock (on_registry f s) = cm_clock s" "cm_holder (on_registry f s) = cm_holder s"
  by (simp_all add: on_registry_def)

text \<open>The row and the object a writer commits are its own, and no invalidation has come since.\<close>

lemma writer_commit:
  assumes inv: "cache_inv s th" and th: "th t = Writer f k g b WCommit" and commit: "commitWrite k g (cm_registry s) = (True, r)"
  shows "cache_inv (s\<lparr>cm_registry := r, cm_flights := fl\<rparr>) (th(t := Writer f k g b WDone))" (is "cache_inv ?s (th(t := ?p))")
proof -
  note facts = writer_facts [OF inv th, simplified]
  have lock: "locked (th t) = Some k" using th by simp
  have "writeCurrent k g (cm_registry s)" using commit by (auto simp: commitWrite_def writeCurrent_def split: option.splits if_splits)
  then have "cm_last s k \<le> b" using facts(3) by simp
  then have fine: "\<not> bad ?s k" using facts(7) by (auto simp: bad_def served_ok_def)
  have "reg_inv r ((write_handle \<circ> th)(t := None)) (inv_handle \<circ> th) (cm_clock s) (cm_last s)"
    by (rule reg_inv_commit [OF cache_invD(1) [OF inv, unfolded handles_ok_def] _ commit]) (simp add: th)
  moreover have "inv_handle \<circ> th(t := ?p) = inv_handle \<circ> th" using th by (auto simp: fun_eq_iff)
  ultimately have handles: "handles_ok ?s (th(t := ?p))" unfolding handles_ok_def by (simp add: comp_upd)
  show ?thesis
  proof (rule registry_step [OF inv handles])
    show "framed k (cm_registry s) (cm_registry ?s)" using framed_commit [of k "cm_registry s" g] commit by simp
    show "key_inv ?s (th(t := ?p)) k" unfolding key_inv_holder [OF facts(1) lock] using fine by simp
  qed (use th in auto)
qed

lemma writer_mark:
  assumes inv: "cache_inv s th" and th: "th t = Writer f k g b WMark"
  shows "cache_inv (on_registry (markCleanupSafe k) s) (th(t := Writer f k g b WUnlock))" (is "cache_inv ?s (th(t := ?p))")
proof -
  note facts = writer_facts [OF inv th, simplified]
  have lock: "locked (th t) = Some k" using th by simp
  have fine: "\<not> bad ?s k" using facts(7) by (auto simp: bad_def)
  have "write_handle \<circ> th(t := ?p) = write_handle \<circ> th" "inv_handle \<circ> th(t := ?p) = inv_handle \<circ> th" using th by (auto simp: fun_eq_iff)
  then have handles: "handles_ok ?s (th(t := ?p))"
    unfolding handles_ok_def using reg_inv_mark [OF cache_invD(1) [OF inv, unfolded handles_ok_def]] by simp
  show ?thesis
  proof (rule registry_step [OF inv handles])
    show "key_inv ?s (th(t := ?p)) k" unfolding key_inv_holder [OF facts(1) lock] using fine by simp
  qed (use th framed_ops in auto)
qed

lemma start_invalidation_fields:
  assumes "start_invalidation k s = (g, b, s')"
  shows "b = Suc (cm_clock s)" and "beginInvalidation k (cm_registry s) = (g, cm_registry s')" and "cm_rows s' = cm_rows s"
    and "cm_objects s' = cm_objects s" and "cm_holder s' = cm_holder s" and "cm_clock s' = b" and "cm_last s' = (cm_last s)(k := b)"
  using assms by (auto simp: start_invalidation_def Let_def split: prod.splits)

lemma invalidation_handles:
  assumes ok: "handles_ok s th" and start: "start_invalidation k s = (g', b', s')" and bound: "cm_clock s' < 2 ^ 64"
    and p: "write_handle p = write_handle (th t)" "inv_handle (th t) = None" "inv_handle p = Some (k, g', b')"
  shows "handles_ok s' (th(t := p))"
proof -
  note f = start_invalidation_fields [OF start]
  have "reg_inv (cm_registry s') (write_handle \<circ> th) ((inv_handle \<circ> th)(t \<mapsto> (k, g', Suc (cm_clock s)))) (Suc (cm_clock s))
      ((cm_last s)(k := Suc (cm_clock s)))"
    by (rule reg_inv_beginInvalidation [OF ok [unfolded handles_ok_def] _ f(2)]) (use p f bound in simp_all)
  moreover have "write_handle \<circ> th(t := p) = write_handle \<circ> th" using p by (auto simp: fun_eq_iff)
  ultimately show ?thesis unfolding handles_ok_def comp_upd [of inv_handle] using p f by simp
qed

lemma writer_remove:
  assumes inv: "cache_inv s th" and th: "th t = Writer f k g b WRemove"
    and start: "start_invalidation k s = (g', b', s')" and bound: "cm_clock s' < 2 ^ 64"
  shows "cache_inv s' (th(t := Writer f k g b (WWipe g' b')))" (is "cache_inv _ (th(t := ?p))")
proof -
  note facts = writer_facts [OF inv th, simplified]
  note fields = start_invalidation_fields [OF start]
  have lock: "locked (th t) = Some k" using th by simp
  have handles: "handles_ok s' (th(t := ?p))"
    by (rule invalidation_handles [OF cache_invD(1) [OF inv] start bound]) (simp_all add: th)
  show ?thesis
  proof (rule registry_step [OF inv handles])
    have "pinned k (cm_registry s')" using pinned_beginInvalidation fields(2) by blast
    moreover have "\<not> clean_report s' (th(t := ?p)) k"
      by (rule no_new_report [OF cache_invD(1) [OF inv]]) (use fields in simp_all)
    ultimately show "key_inv s' (th(t := ?p)) k" unfolding key_inv_holder [OF facts(1) lock] by simp
    show "framed k (cm_registry s) (cm_registry s')" using framed_begin(2) [of k "cm_registry s"] fields(2) by simp
  qed (use th fields in auto)
qed

text \<open>The end of an invalidation, by the one who began it.\<close>

lemma finish_own:
  assumes inv: "cache_inv s th" and h: "inv_handle (th t) = Some (k, g, b)" and cleaned: "safe \<Longrightarrow> cleaned (th t) = Some (k, b)"
    and r: "r = finishInvalidation k g safe (cm_registry s)"
  shows "pinned k (cm_registry s) \<Longrightarrow> pinned k r \<or> clean_report s th k"
proof -
  assume pin: "pinned k (cm_registry s)"
  show ?thesis
  proof (cases "safe \<and> cm_last s k = b")
    case True
    then show ?thesis using cleaned by (auto simp: clean_report_def)
  next
    case False
    then have "pinned k r" unfolding r
      by (intro pinned_finish [OF pin]) (use inv_handle_last(2) [OF cache_invD(1) [OF inv] h] in auto)
    then show ?thesis ..
  qed
qed

lemma finish_handles:
  assumes ok: "handles_ok s th" and h: "inv_handle (th t) = Some (k, g, b)" and p: "inv_handle p = None" "write_handle p = write_handle (th t)"
  shows "handles_ok (on_registry (finishInvalidation k g' safe) s) (th(t := p))"
proof -
  have "reg_inv (finishInvalidation k g' safe (cm_registry s)) (write_handle \<circ> th) ((inv_handle \<circ> th)(t := None)) (cm_clock s) (cm_last s)"
    by (rule reg_inv_finish [OF ok [unfolded handles_ok_def]]) (simp add: h)
  moreover have "write_handle \<circ> th(t := p) = write_handle \<circ> th" using p by (auto simp: fun_eq_iff)
  ultimately show ?thesis unfolding handles_ok_def comp_upd [of inv_handle] using p by simp
qed

lemma writer_finish:
  assumes inv: "cache_inv s th" and th: "th t = Writer f k g b (WFinish g' b' safe)"
  shows "cache_inv (on_registry (finishInvalidation k g' safe) s) (th(t := Writer f k g b WUnlock))" (is "cache_inv ?s (th(t := ?p))")
proof -
  note facts = writer_facts [OF inv th, simplified]
  have lock: "locked (th t) = Some k" using th by simp
  have handles: "handles_ok ?s (th(t := ?p))" by (rule finish_handles [OF cache_invD(1) [OF inv], of _ _ g' b']) (simp_all add: th)
  show ?thesis
  proof (rule registry_step [OF inv handles])
    have bad: "bad ?s k \<longleftrightarrow> bad s k" by (simp add: bad_def)
    have "pinned k (cm_registry s) \<Longrightarrow> pinned k (cm_registry ?s) \<or> clean_report s th k"
      by (rule finish_own [OF inv, of t k g' b']) (simp_all add: th)
    moreover have "clean_report ?s (th(t := ?p)) k \<Longrightarrow> clean_report s th k" by (rule clean_report_same) simp_all
    ultimately show "key_inv ?s (th(t := ?p)) k"
      unfolding key_inv_holder [OF facts(1) lock] bad using facts(4,6) th by auto
  qed (use th framed_ops in auto)
qed

text \<open>A registry step of a thread that is no writer in progress and keeps every tombstone or has reported a cleanup.\<close>

lemma key_inv_free:
  assumes inv: "key_inv s th k" and same: "cm_rows s' = cm_rows s" "cm_objects s' = cm_objects s" "cm_last s' k = cm_last s k"
    and pin: "pinned k (cm_registry s) \<Longrightarrow> pinned k (cm_registry s') \<or> clean_report s th k"
    and free: "writing (th t) = None" "writing p = None" "cleaned p = None"
  shows "key_inv s' (th(t := p)) k"
proof -
  have transit: "in_transit s' (th(t := p)) k \<longleftrightarrow> in_transit s th k"
    by (rule in_transit_free) (use free transit_writing same in fastforce)+
  have report: "clean_report s' (th(t := p)) k \<Longrightarrow> clean_report s th k"
    using clean_report_same [of s' k s p th t] same free by simp
  have bad: "bad s' k \<longleftrightarrow> bad s k" by (simp add: bad_def same)
  have writing: "writing ((th(t := p)) t') = Some (k, b) \<Longrightarrow> writing (th t') = Some (k, b)" for t' b
    using free by (auto split: if_splits)
  show ?thesis unfolding key_inv_def transit bad same using inv writing pin report unfolding key_inv_def by blast
qed

lemma writer_abort:
  assumes inv: "cache_inv s th" and th: "th t = Writer f k g b WAbort"
  shows "cache_inv (on_registry (abortWrite k False) s) (th(t := Quiet))" (is "cache_inv ?s _")
proof -
  have "reg_inv (abortWrite k False (cm_registry s)) ((write_handle \<circ> th)(t := None)) (inv_handle \<circ> th) (cm_clock s) (cm_last s)"
    by (rule reg_inv_abort [OF cache_invD(1) [OF inv, unfolded handles_ok_def]]) (simp add: th)
  moreover have "inv_handle \<circ> th(t := Quiet) = inv_handle \<circ> th" using th by (auto simp: fun_eq_iff)
  ultimately have handles: "handles_ok ?s (th(t := Quiet))" unfolding handles_ok_def by (simp add: comp_upd)
  show ?thesis
    by (rule registry_step [OF inv handles _ _ _ _ _ _ _ _ _ key_inv_free [OF cache_invD(4) [OF inv]]])
      (use th framed_ops pinned_abort in auto)
qed

lemma writer_lock:
  assumes inv: "cache_inv s th" and th: "th t = Writer f k g b WLock" and lock: "acquire t k s = Some s'"
  shows "cache_inv s' (th(t := Writer f k g b WCheck))"
  by (rule quiet_step [OF inv, of _ _ _ k]) (use th acquire_fields [OF lock] exclusive_acquire [OF cache_invD(2) [OF inv] lock] in auto)

lemma writer_give_up:
  assumes inv: "cache_inv s th" and th: "th t = Writer f k g b WLock"
  shows "cache_inv s (th(t := Writer f k g b WAbort))"
  by (rule quiet_step [OF inv, of _ _ _ k]) (use th exclusive_same [OF cache_invD(2) [OF inv]] in auto)

lemma writer_unlock:
  assumes inv: "cache_inv s th"
    and "th t = Writer f k g b WUnlock \<and> p = Writer f k g b WAbort \<or> th t = Writer f k g b WDone \<and> p = Quiet"
  shows "cache_inv (unlock k s) (th(t := p))"
  by (rule quiet_step [OF inv, of _ _ _ k]) (use assms(2) exclusive_unlock [OF cache_invD(2) [OF inv]] in auto)

lemma writer_stored:
  assumes inv: "cache_inv s th" and th: "th t = Writer f k g b WPut" and w: "w \<in> {WPersist, WRecheck}"
  shows "cache_inv (s\<lparr>cm_objects := (cm_objects s)(k \<mapsto> \<lparr>ob_born = b, ob_whole = consumed c\<rparr>)\<rparr>)
    (th(t := Writer f k g b (if consumed c then w else WRemove)))"
  by (rule writer_put [OF inv th]) (use w in auto)

lemma end_step_inv:
  assumes inv: "cache_inv s th" and th: "th t = Writer f k g b w"
    and run: "end_step c k w s = Some (w', s')" and bound: "cm_clock s' < 2 ^ 64"
  shows "cache_inv s' (th(t := case w' of None \<Rightarrow> Quiet | Some w' \<Rightarrow> Writer f k g b w'))"
proof (cases w)
  case WDiscard
  then show ?thesis using run writer_discard [OF inv, of t f k g b c] th by auto
next
  case WMark
  then show ?thesis using run writer_mark [OF inv, of t f k g b] th by auto
next
  case WRemove
  then show ?thesis using run writer_remove [OF inv, of t f k g b] th bound by (auto split: prod.splits)
next
  case (WWipe g' b')
  then show ?thesis using run writer_wipe [OF inv, of t f k g b g' b' c] th by auto
next
  case (WFinish g' b' safe)
  then show ?thesis using run writer_finish [OF inv, of t f k g b g' b' safe] th by auto
next
  case WUnlock
  then show ?thesis using run writer_unlock [OF inv, of t f k g b] th by auto
next
  case WAbort
  then show ?thesis using run writer_abort [OF inv, of t f k g b] th by auto
next
  case WDone
  then show ?thesis using run writer_unlock [OF inv, of t f k g b] th by auto
qed (use run in simp_all)

lemma commit_step_inv:
  assumes inv: "cache_inv s th" and th: "th t = Writer f k g b WCommit" and run: "commit_step f k g b s = Some (w', s')"
  shows "cache_inv s' (th(t := case w' of None \<Rightarrow> Quiet | Some w' \<Rightarrow> Writer f k g b w'))"
proof -
  obtain ok r where commit: "commitWrite k g (cm_registry s) = (ok, r)" by fastforce
  show ?thesis
  proof (cases ok)
    case True
    then show ?thesis using run commit writer_commit [OF inv th, of r] by (auto simp: commit_step_def)
  next
    case False
    have "\<not> writeCurrent k g (cm_registry s)"
      using False commit by (auto simp: commitWrite_def writeCurrent_def split: option.splits if_splits)
    then show ?thesis using run commit False writer_move [OF inv th] by (auto simp: commit_step_def)
  qed
qed

lemma fill_step_inv:
  assumes inv: "cache_inv s th" and th: "th t = Writer False k g b w"
    and run: "fill_step c t k g b w s = Some (w', s')" and bound: "cm_clock s' < 2 ^ 64"
  shows "cache_inv s' (th(t := case w' of None \<Rightarrow> Quiet | Some w' \<Rightarrow> Writer False k g b w'))"
proof (cases w)
  case WLock
  then show ?thesis using run writer_lock [OF inv] writer_give_up [OF inv] th by (auto split: if_splits)
next
  case WCheck
  then show ?thesis using run writer_move [OF inv th] by (auto split: if_splits)
next
  case WPut
  then show ?thesis using run writer_move [OF inv th, of WUnlock] writer_stored [OF inv, of t False k g b WRecheck c] th by (cases "ch_ok c") auto
next
  case WRecheck
  then show ?thesis using run writer_move [OF inv th] by (auto split: if_splits)
next
  case WPersist
  then show ?thesis
    using run writer_move [OF inv th, of WRemove] writer_persist [OF inv, of t False k g b "if ch_ok2 c then WCommit else WUnlock"] th
    by (cases "ch_ok c") auto
next
  case WCommit
  then show ?thesis using run commit_step_inv [OF inv, of t False k g b] th by simp
qed (use run end_step_inv [OF inv th _ bound] in \<open>simp_all del: end_step.simps\<close>)

lemma refresh_step_inv:
  assumes inv: "cache_inv s th" and th: "th t = Writer True k g b w"
    and run: "refresh_step False c t k g b w s = Some (w', s')" and bound: "cm_clock s' < 2 ^ 64"
  shows "cache_inv s' (th(t := case w' of None \<Rightarrow> Quiet | Some w' \<Rightarrow> Writer True k g b w'))"
proof (cases w)
  case WLock
  then show ?thesis using run writer_lock [OF inv] writer_give_up [OF inv] th by (auto split: if_splits)
next
  case WCheck
  then show ?thesis using run writer_move [OF inv th] by (auto split: if_splits)
next
  case WReload
  then show ?thesis using run writer_move [OF inv th] by (auto split: if_splits)
next
  case WVerified
  then show ?thesis using cache_invD(3) [OF inv, of t] th by simp
next
  case WPut
  then show ?thesis using run writer_move [OF inv th, of WUnlock] writer_stored [OF inv, of t True k g b WPersist c] th by (cases "ch_ok c") auto
next
  case WPersist
  then show ?thesis
    using run writer_move [OF inv th, of WRemove] writer_persist [OF inv, of t True k g b WCommit] th
    by (cases "ch_ok c \<and> cm_rows s k \<noteq> None") auto
next
  case WCommit
  then show ?thesis using run commit_step_inv [OF inv, of t True k g b] th by simp
qed (use run end_step_inv [OF inv th _ bound] in \<open>simp_all del: end_step.simps\<close>)

subsection \<open>Steps of an invalidation\<close>

lemma invalidate_step_inv:
  assumes inv: "cache_inv s th" and th: "th t = Invalidator k g b i" and run: "invalidate_step c t k g b i s = Some (i', s')"
  shows "cache_inv s' (th(t := case i' of None \<Rightarrow> Quiet | Some i' \<Rightarrow> Invalidator k g b i'))"
proof (cases i)
  case ILock
  show ?thesis
  proof (cases "ch_ok c")
    case True
    then have lock: "acquire t k s = Some s'" and i': "i' = Some IPending" using run ILock by auto
    have "cache_inv s' (th(t := Invalidator k g b IPending))"
      by (rule quiet_step [OF inv, of _ _ _ k])
        (use th ILock acquire_fields [OF lock] exclusive_acquire [OF cache_invD(2) [OF inv] lock] in auto)
    then show ?thesis by (simp add: i')
  next
    case False
    then have i': "i' = Some (IFinish False)" "s' = s" using run ILock by auto
    have "cache_inv s (th(t := Invalidator k g b (IFinish False)))"
      by (rule quiet_step [OF inv, of _ _ _ k]) (use th ILock exclusive_same [OF cache_invD(2) [OF inv]] in auto)
    then show ?thesis by (simp add: i')
  qed
next
  case IPending
  then show ?thesis
    using run th by (auto intro!: quiet_step [OF inv, of _ _ _ k] exclusive_same [OF cache_invD(2) [OF inv]])
next
  case IWipe
  let ?p = "Invalidator k g b (IUnlock (ch_ok c \<or> ch_ok2 c))"
  have lock: "locked (th t) = Some k" using th IWipe by simp
  note excl = cache_invD(2) [OF inv] and old = key_inv_old [OF cache_invD(2) [OF inv] lock cache_invD(4) [OF inv]]
  have "cache_inv (wipe c k s) (th(t := ?p))"
  proof (rule holder_step [OF inv lock])
    show "key_inv (wipe c k s) (th(t := ?p)) k"
    proof (cases "ch_ok c \<or> ch_ok2 c")
      case True
      then show ?thesis unfolding key_inv_holder [OF excl lock] using wipe_bad [OF True, of k s] by simp
    next
      case False
      then have cleaned: "cleaned (th t) = None" "cleaned ?p = None" using th IWipe by auto
      note report = report_same [of "wipe c k s" s th t ?p k, OF _ cleaned, simplified]
      show ?thesis unfolding key_inv_holder [OF excl lock] report using False old th by (simp add: wipe_none)
    qed
  qed (use th IWipe in auto)
  then show ?thesis using run IWipe by auto
next
  case (IUnlock safe)
  have "cleaned (Invalidator k g b (IFinish safe)) = cleaned (Invalidator k g b (IUnlock safe))" by (cases safe) simp_all
  then show ?thesis
    using run th IUnlock by (auto intro!: quiet_step [OF inv, of _ _ _ k] exclusive_unlock [OF cache_invD(2) [OF inv]])
next
  case (IFinish safe)
  let ?s = "on_registry (finishInvalidation k g safe) s"
  have handles: "handles_ok ?s (th(t := Quiet))"
    by (rule finish_handles [OF cache_invD(1) [OF inv], of _ _ g b]) (simp_all add: th)
  have "pinned k (cm_registry s) \<Longrightarrow> pinned k (cm_registry ?s) \<or> clean_report s th k"
    by (rule finish_own [OF inv, of t k g b]) (simp_all add: th IFinish)
  then have "cache_inv ?s (th(t := Quiet))"
    by (intro registry_step [OF inv handles _ _ _ _ _ _ _ _ _ key_inv_free [OF cache_invD(4) [OF inv]]])
      (use th IFinish framed_ops in auto)
  then show ?thesis using run IFinish by auto
qed

subsection \<open>Steps of a reader, and beginnings\<close>

lemma read_fields:
  "read_step c t k r s = Some (r', s') \<Longrightarrow> cm_rows s' = cm_rows s \<and> cm_objects s' = cm_objects s \<and> cm_last s' = cm_last s \<and>
     cm_registry s' = cm_registry s \<and> cm_clock s' = cm_clock s"
  by (cases r) (auto split: if_splits option.splits dest: acquire_fields)

lemma follow_fields:
  "follow_step c t k r s = Some (r', s') \<Longrightarrow> cm_rows s' = cm_rows s \<and> cm_objects s' = cm_objects s \<and> cm_last s' = cm_last s \<and>
     cm_registry s' = cm_registry s \<and> cm_clock s' = cm_clock s"
  by (cases "(c, t, k, r, s)" rule: follow_step.cases) (auto split: if_splits option.splits dest: acquire_fields)

lemma follow_step_inv:
  assumes inv: "cache_inv s th" and th: "th t = Reader True k r" and run: "follow_step c t k r s = Some (r', s')"
  shows "cache_inv s' (th(t := Reader True k r'))"
proof (rule quiet_step [OF inv, of _ _ _ k])
  show "exclusive s' (th(t := Reader True k r'))"
    using run th exclusive_acquire [OF cache_invD(2) [OF inv], of t k s' "Reader True k r'"] exclusive_unlock [OF cache_invD(2) [OF inv], of t k]
      exclusive_same [OF cache_invD(2) [OF inv], of "Reader True k r'" t s']
    by (cases "(c, t, k, r, s)" rule: follow_step.cases) (auto split: if_splits option.splits)
qed (use th follow_fields [OF run] in auto)

lemma read_step_inv:
  assumes inv: "cache_inv s th" and th: "th t = Reader False k r" and run: "read_step c t k r s = Some (r', s')"
  shows "cache_inv s' (th(t := Reader False k r'))"
proof (rule quiet_step [OF inv, of _ _ _ k])
  have knows: "knows s (Reader False k r)" using cache_invD(3) [OF inv, of t] th by simp
  show "exclusive s' (th(t := Reader False k r'))"
    using run th exclusive_acquire [OF cache_invD(2) [OF inv], of t k s' "Reader False k r'"] exclusive_unlock [OF cache_invD(2) [OF inv], of t k]
      exclusive_same [OF cache_invD(2) [OF inv], of "Reader False k r'" t s']
    by (cases r) (auto split: if_splits option.splits)
  show same: "cm_rows s' = cm_rows s" "cm_objects s' = cm_objects s" "cm_last s' = cm_last s" "cm_registry s' = cm_registry s"
    "cm_clock s' = cm_clock s"
    using read_fields [OF run] by simp_all
  show "knows s' (Reader False k r')"
  proof (cases "\<exists>a. r = RAgain a \<and> readable k (cm_registry s)")
    case True
    then obtain a where r: "r = RAgain a" and free: "readable k (cm_registry s)" by blast
    have r': "r' = RGet a (cm_last s k)" using run r free by auto
    have lock: "locked (th t) = Some k" using th r by simp
    have "\<not> pinned k (cm_registry s)" using free pinned_unreadable by blast
    then have "\<not> bad s k" using key_inv_old(1) [OF cache_invD(2) [OF inv] lock cache_invD(4) [OF inv]] th by auto
    moreover have "cm_rows s k = Some a" using knows r by simp
    ultimately show ?thesis by (auto simp: r' same bad_def)
  next
    case False
    show ?thesis
    proof (cases "\<exists>res. r = RUnlock res")
      case True
      then obtain res where "r = RUnlock res" "r' = RDone res" using run by auto
      then show ?thesis using knows by (cases res) simp_all
    next
      case False
      then show ?thesis using run knows \<open>\<not> (\<exists>a. r = RAgain a \<and> readable k (cm_registry s))\<close>
        by (cases r) (auto split: if_splits option.splits dest: acquire_fields)
    qed
  qed
  show "cleaned (Reader False k r') = cleaned (th t)" using th by simp
qed (use th in auto)

lemma begin_write_inv:
  assumes inv: "cache_inv s th" and th: "th t = Quiet" and start: "start_write k s = (g, b, s')"
  shows "cache_inv s' (th(t := Writer f k g b WLock))" (is "cache_inv _ (th(t := ?p))")
proof -
  have r: "beginWrite k (cm_registry s) = (g, cm_registry s')" and b: "b = Suc (cm_clock s)" "cm_clock s' = b" "cm_last s' = cm_last s"
    and same: "cm_rows s' = cm_rows s" "cm_objects s' = cm_objects s" "cm_holder s' = cm_holder s"
    using start by (auto simp: start_write_def Let_def split: prod.splits)
  have "reg_inv (cm_registry s') ((write_handle \<circ> th)(t \<mapsto> (k, g, Suc (cm_clock s)))) (inv_handle \<circ> th) (Suc (cm_clock s)) (cm_last s)"
    by (rule reg_inv_beginWrite [OF cache_invD(1) [OF inv, unfolded handles_ok_def] _ r]) (simp add: th)
  moreover have "inv_handle \<circ> th(t := ?p) = inv_handle \<circ> th" using th by (auto simp: fun_eq_iff)
  ultimately have handles: "handles_ok s' (th(t := ?p))" unfolding handles_ok_def comp_upd [of write_handle] using b by simp
  show ?thesis
    by (rule registry_step [OF inv handles _ _ _ _ _ _ _ _ _ key_inv_free [OF cache_invD(4) [OF inv]]])
      (use th b same framed_begin(1) [of k "cm_registry s"] pinned_beginWrite [OF _ r] r in auto)
qed

lemma begin_invalidation_inv:
  assumes inv: "cache_inv s th" and th: "th t = Quiet" and start: "start_invalidation k s = (g, b, s')" and bound: "cm_clock s' < 2 ^ 64"
  shows "cache_inv s' (th(t := Invalidator k g b ILock))" (is "cache_inv _ (th(t := ?p))")
proof -
  note fields = start_invalidation_fields [OF start]
  have handles: "handles_ok s' (th(t := ?p))"
    by (rule invalidation_handles [OF cache_invD(1) [OF inv] start bound]) (simp_all add: th)
  have "pinned k (cm_registry s')" using pinned_beginInvalidation fields(2) by blast
  moreover have "\<not> clean_report s' (th(t := ?p)) k"
    by (rule no_new_report [OF cache_invD(1) [OF inv]]) (use fields in simp_all)
  ultimately have "key_inv s' (th(t := ?p)) k" by (simp add: key_inv_def)
  then show ?thesis
    by (intro registry_step [OF inv handles]) (use th fields framed_begin(2) [of k "cm_registry s"] in auto)
qed

lemma end_clock: "end_step c k w s = Some (w', s') \<Longrightarrow> cm_clock s \<le> cm_clock s'"
  by (cases w) (auto simp: start_invalidation_def Let_def split: if_splits prod.splits)

lemma clock_mono: "thread_step tamper c t p s = Some (p', s') \<Longrightarrow> cm_clock s \<le> cm_clock s'"
proof (cases p)
  case (Writer f k g b w)
  then show "thread_step tamper c t p s = Some (p', s') \<Longrightarrow> ?thesis"
    by (cases f; cases w)
      (auto simp: commit_step_def split: if_splits prod.splits bool.splits dest: acquire_fields end_clock simp del: end_step.simps)
next
  case (Invalidator k g b i)
  then show "thread_step tamper c t p s = Some (p', s') \<Longrightarrow> ?thesis"
    by (cases i) (auto split: if_splits dest: acquire_fields)
next
  case (Reader f k r)
  then show "thread_step tamper c t p s = Some (p', s') \<Longrightarrow> ?thesis"
    by (cases f) (auto dest: read_fields follow_fields)
qed simp

lemma thread_step_inv:
  assumes inv: "cache_inv s th" and run: "thread_step False c t (th t) s = Some (p, s')" and bound: "cm_clock s' < 2 ^ 64"
  shows "cache_inv s' (th(t := p))"
proof (cases "th t")
  case (Writer f k g b w)
  then show ?thesis using run refresh_step_inv [OF inv _ _ bound] fill_step_inv [OF inv _ _ bound] by (cases f) auto
next
  case (Invalidator k g b i)
  then show ?thesis using run invalidate_step_inv [OF inv Invalidator] by auto
next
  case (Reader f k r)
  then show ?thesis using run read_step_inv [OF inv] follow_step_inv [OF inv] by (cases f) auto
qed (use run in simp)

lemma cache_reach_inv: "cache_reach False (s, th) \<Longrightarrow> cm_clock s < 2 ^ 64 \<Longrightarrow> cache_inv s th"
proof (induction "(s, th)" arbitrary: s th rule: cache_reach.induct)
  case (start rows objects)
  have "reg_inv newCacheInvalidationRegistry Map.empty Map.empty 0 (\<lambda>_. 0)"
    by (simp add: reg_inv_def on_key_def) (simp add: newCacheInvalidationRegistry_def)
  then have "handles_ok (new_cache rows objects) (\<lambda>_. Quiet)" by (simp add: handles_ok_def new_cache_def comp_def)
  moreover have "key_inv (new_cache rows objects) (\<lambda>_. Quiet) k" for k
    using start by (auto simp: key_inv_def bad_def served_ok_def new_cache_def clean_report_def)
  ultimately show ?case by (simp add: cache_inv_def exclusive_def new_cache_def)
next
  case (begin_write s th t k g b s' refresh)
  then have "cm_clock s < 2 ^ 64" by (auto simp: start_write_def Let_def split: prod.splits)
  then show ?case using begin_write begin_write_inv by blast
next
  case (begin_invalidation s th t k g b s')
  then have "cm_clock s < 2 ^ 64" using start_invalidation_fields [of k s g b s'] by simp
  then show ?case using begin_invalidation begin_invalidation_inv by blast
next
  case (begin_read s th t k)
  then show ?case by (intro quiet_step [of s th _ _ _ k] exclusive_same) (auto dest: cache_invD(2))
next
  case (begin_follow s th t k a)
  then show ?case by (intro quiet_step [of s th _ _ _ k] exclusive_same) (auto dest: cache_invD(2))
next
  case (step s th c t p s')
  then have "cm_clock s < 2 ^ 64" using clock_mono [OF step(3)] by simp
  then show ?case using step thread_step_inv by blast
qed

subsection \<open>Properties\<close>

text \<open>
  C12: Revoked bytes are not served. Take any interleaving of fills, refreshes that store what they
  fetch, invalidations and readers, with every failure of the lock, the database and the store.
  What a snapshot reader delivers is a complete body (of its declared size, if the response
  declared one), it belongs to the row that describes it, and
  the write that stored it began after every invalidation of the key that had begun when the
  reader was admitted. The bound is the range of the generation counter.
\<close>

theorem revoked_bytes_not_served:
  assumes "cache_reach False (s, th)" and "cm_clock s < 2 ^ 64" and "th t = Reader False k (RDone (Some (row, body, seen)))"
  shows "ob_whole body \<and> ob_born body = row \<and> seen \<le> ob_born body"
  using cache_invD(3) [OF cache_reach_inv [OF assms(1,2)], of t] assms(3) by (simp add: served_ok_def)

text \<open>
  The registry does not leak and does not forget. In every reachable state at most 4096 unresolved
  tombstones are kept; a key has an entry only while a write or an invalidation of it is under
  way or its tombstone is unresolved; and a key whose cleanup has failed is unreadable.
\<close>

theorem registry_bounded:
  assumes "cache_reach False (s, th)" and "cm_clock s < 2 ^ 64"
  shows "card (retained_keys (cm_registry s)) \<le> 4096 \<and>
    (\<forall>k st. rg_states (cm_registry s) k = Some st \<longrightarrow>
       (\<exists>t g b. write_handle (th t) = Some (k, g, b) \<or> inv_handle (th t) = Some (k, g, b)) \<or> k \<in> retained_keys (cm_registry s)) \<and>
    (\<forall>k \<in> retained_keys (cm_registry s). \<not> readable k (cm_registry s))"
proof -
  have reg: "reg_inv (cm_registry s) (write_handle \<circ> th) (inv_handle \<circ> th) (cm_clock s) (cm_last s)"
    using cache_invD(1) [OF cache_reach_inv [OF assms]] by (simp add: handles_ok_def)
  note ok = reg_invD(1) [OF reg]
  have "int (card (retained_keys (cm_registry s))) \<le> 4096"
    using registry_okD(2,3) [OF ok] by (simp add: maxRetainedInvalidations_def)
  moreover have "(\<exists>t g b. write_handle (th t) = Some (k, g, b) \<or> inv_handle (th t) = Some (k, g, b)) \<or> k \<in> retained_keys (cm_registry s)"
    if st: "rg_states (cm_registry s) k = Some st" for k st
  proof (cases "idle st")
    case True
    then show ?thesis using st registry_okD(6) [OF ok st] by (auto simp: retained_keys_def)
  next
    case False
    then have "on_key (write_handle \<circ> th) k \<noteq> {} \<or> on_key (inv_handle \<circ> th) k \<noteq> {}" using reg_invD(4) [OF reg st] by (auto simp: idle_def)
    then show ?thesis by (auto simp: on_key_def)
  qed
  moreover have "\<not> readable k (cm_registry s)" if "k \<in> retained_keys (cm_registry s)" for k
    using that registry_okD(7) [OF ok, of k] by (auto simp: retained_keys_def readable_def)
  ultimately show ?thesis by auto
qed

subsection \<open>Runs\<close>

text \<open>A run as a list of beginnings and steps; what it reaches is reachable.\<close>

datatype cache_event =
    BeginWrite nat bool string | BeginInvalidation nat string | BeginRead nat string | BeginFollow nat string nat
  | Step nat bool bool

fun cache_apply :: "bool \<Rightarrow> cache_event \<Rightarrow> cache_sys \<times> (nat \<Rightarrow> cache_thread) \<Rightarrow> (cache_sys \<times> (nat \<Rightarrow> cache_thread)) option" where
  "cache_apply tamper (BeginWrite t refresh k) (s, th) =
     (if th t \<noteq> Quiet then None else case start_write k s of (g, b, s') \<Rightarrow> Some (s', th(t := Writer refresh k g b WLock)))"
| "cache_apply tamper (BeginInvalidation t k) (s, th) =
     (if th t \<noteq> Quiet then None else case start_invalidation k s of (g, b, s') \<Rightarrow> Some (s', th(t := Invalidator k g b ILock)))"
| "cache_apply tamper (BeginRead t k) (s, th) =
     (if th t \<noteq> Quiet then None else Some (s, th(t := Reader False k (RLock None))))"
| "cache_apply tamper (BeginFollow t k a) (s, th) =
     (if th t \<noteq> Quiet \<or> (k, a) \<notin> set (cm_flights s) then None else Some (s, th(t := Reader True k (RLock (Some a)))))"
| "cache_apply tamper (Step t ok ok2) (s, th) =
     map_option (\<lambda>(p, s'). (s', th(t := p))) (thread_step tamper \<lparr>ch_ok = ok, ch_ok2 = ok2, ch_sized = True\<rparr> t (th t) s)"

fun cache_run :: "bool \<Rightarrow> cache_event list \<Rightarrow> cache_sys \<times> (nat \<Rightarrow> cache_thread) \<Rightarrow> (cache_sys \<times> (nat \<Rightarrow> cache_thread)) option" where
  "cache_run tamper [] x = Some x"
| "cache_run tamper (e # es) x = (case cache_apply tamper e x of None \<Rightarrow> None | Some y \<Rightarrow> cache_run tamper es y)"

lemma cache_apply_reach:
  assumes "cache_apply tamper e (s, th) = Some (s', th')" and "cache_reach tamper (s, th)"
  shows "cache_reach tamper (s', th')"
  using assms by (cases e) (auto split: if_splits prod.splits
    intro: cache_reach.begin_write cache_reach.begin_invalidation cache_reach.begin_read cache_reach.begin_follow cache_reach.step)

lemma cache_run_reach: "cache_run tamper es x = Some y \<Longrightarrow> cache_reach tamper x \<Longrightarrow> cache_reach tamper y"
proof (induction es arbitrary: x)
  case (Cons e es)
  then show ?case using cache_apply_reach [of tamper e "fst x" "snd x"] by (fastforce split: option.splits)
qed simp


lemma cache_start:
  assumes "cache_run tamper es (new_cache Map.empty Map.empty, \<lambda>_. Quiet) = Some y"
  shows "cache_reach tamper y"
  by (rule cache_run_reach [OF assms cache_reach.start]) simp

lemmas registry_defs = newCacheInvalidationRegistry_def new_state_def state_of_def put_state_def drop_state_def idle_def
  unretainLocked_def capRetainedLocked_def settleIdleLocked_def beginWrite_def writeCurrent_def commitWrite_def abortWrite_def
  beginInvalidation_def invalidationPending_def finishInvalidation_def readable_def maxRetainedInvalidations_def
lemmas step_defs = commit_step_def consumed_def start_write_def start_invalidation_def acquire_def unlock_def wipe_def on_registry_def new_cache_def

text \<open>The run of the follower: a fill, an invalidation that deletes the row only, then the follower.\<close>

definition fill_run :: "nat \<Rightarrow> string \<Rightarrow> cache_event list" where
  "fill_run t k = BeginWrite t False k # replicate 7 (Step t True True)"

definition follower_run :: "string \<Rightarrow> cache_event list" where
  "follower_run k = fill_run 0 k @
     [BeginInvalidation 1 k, Step 1 True True, Step 1 True True, Step 1 True False, Step 1 True True, Step 1 True True,
      BeginFollow 2 k 1, Step 2 True True, Step 2 True True, Step 2 True True, Step 2 True True]"

lemma cache_run_append: "cache_run tamper (es @ es') x = (case cache_run tamper es x of None \<Rightarrow> None | Some y \<Rightarrow> cache_run tamper es' y)"
  by (induction es arbitrary: x) (auto split: option.splits)

lemma fill_runs:
  "cache_run tamper (fill_run 0 k) (new_cache Map.empty Map.empty, \<lambda>_. Quiet) =
     Some (\<lparr>cm_registry = newCacheInvalidationRegistry, cm_holder = Map.empty, cm_rows = [k \<mapsto> 1],
        cm_objects = [k \<mapsto> \<lparr>ob_born = 1, ob_whole = True\<rparr>], cm_flights = [(k, 1)], cm_clock = 1, cm_last = (\<lambda>_. 0)\<rparr>, \<lambda>_. Quiet)"
  by (simp add: fill_run_def numeral_eq_Suc registry_defs step_defs Let_def fun_upd_idem_iff)

text \<open>
  C36: A follower can serve revoked bytes. A fill commits; an invalidation then deletes the row, fails
  to delete the object, reports the cleanup as safe and lifts the tombstone. A request that had
  joined the fill and wakes only now asks the registry, finds the key readable, and opens the
  object without looking for the row: it delivers bytes whose write began before an invalidation
  that had completely ended when it was admitted.
\<close>

theorem follower_serves_revoked_bytes:
  "\<exists>s th t row body seen. cache_reach False (s, th) \<and> th t = Reader True k (RDone (Some (row, body, seen))) \<and>
     ob_born body < seen \<and> seen = cm_last s k \<and> cm_rows s k = None \<and> readable k (cm_registry s)"
proof -
  obtain s th where run: "cache_run False (follower_run k) (new_cache Map.empty Map.empty, \<lambda>_. Quiet) = Some (s, th)"
    and out: "th 2 = Reader True k (RDone (Some (1, \<lparr>ob_born = 1, ob_whole = True\<rparr>, 2)))"
      "cm_last s k = 2" "cm_rows s k = None" "readable k (cm_registry s)"
    by (simp add: follower_run_def cache_run_append fill_runs)
      (simp add: registry_defs step_defs Let_def numeral_eq_Suc)
  show ?thesis using cache_start [OF run] out by (intro exI conjI) (assumption | simp)+
qed

text \<open>
  C37: A verified refresh can lift a tombstone. An invalidation fails to delete both the row and the
  object, so the key stays unreadable. A background refresh of an immutable artifact that was
  scheduled before and begins now does not store what it fetches: whether or not the bytes agree, it
  extends the row and commits, which clears the tombstone. The next reader is served the bytes
  that were revoked.
\<close>

definition verify_run :: "string \<Rightarrow> cache_event list" where
  "verify_run k = fill_run 0 k @
     [BeginInvalidation 1 k, Step 1 True True, Step 1 True True, Step 1 False False, Step 1 True True, Step 1 True True] @
     BeginWrite 2 True k # replicate 6 (Step 2 True True) @
     BeginRead 3 k # replicate 6 (Step 3 True True)"

theorem verified_refresh_serves_revoked_bytes:
  "\<exists>s th t row body seen. cache_reach True (s, th) \<and> th t = Reader False k (RDone (Some (row, body, seen))) \<and>
     ob_born body < seen \<and> seen = cm_last s k"
proof -
  obtain s th where run: "cache_run True (verify_run k) (new_cache Map.empty Map.empty, \<lambda>_. Quiet) = Some (s, th)"
    and out: "th 3 = Reader False k (RDone (Some (1, \<lparr>ob_born = 1, ob_whole = True\<rparr>, 2)))" "cm_last s k = 2"
    by (simp add: verify_run_def cache_run_append fill_runs)
      (simp add: registry_defs step_defs Let_def numeral_eq_Suc)
  show ?thesis using cache_start [OF run] out by (intro exI conjI) (assumption | simp)+
qed

lemma sample_read:
  "\<exists>s th. cache_reach False (s, th) \<and> cm_clock s = 1 \<and>
     th 1 = Reader False ''k'' (RDone (Some (1, \<lparr>ob_born = 1, ob_whole = True\<rparr>, 0)))"
proof -
  obtain s th where run: "cache_run False (fill_run 0 ''k'' @ BeginRead 1 ''k'' # replicate 6 (Step 1 True True))
      (new_cache Map.empty Map.empty, \<lambda>_. Quiet) = Some (s, th)"
    and out: "cm_clock s = 1" "th 1 = Reader False ''k'' (RDone (Some (1, \<lparr>ob_born = 1, ob_whole = True\<rparr>, 0)))"
    by (simp add: cache_run_append fill_runs) (simp add: registry_defs step_defs Let_def numeral_eq_Suc)
  show ?thesis using cache_start [OF run] out by blast
qed

theorem revoked_bytes_not_served_witness:
  "\<exists>s th. cache_reach False (s, th) \<and> th 1 = Reader False ''k'' (RDone (Some (1, \<lparr>ob_born = 1, ob_whole = True\<rparr>, 0))) \<and>
     ob_whole \<lparr>ob_born = 1, ob_whole = True\<rparr>"
proof -
  obtain s th where r: "cache_reach False (s, th)" "cm_clock s = 1" "th 1 = Reader False ''k'' (RDone (Some (1, \<lparr>ob_born = 1, ob_whole = True\<rparr>, 0)))"
    using sample_read by blast
  have "cm_clock s < 2 ^ 64" using r(2) by simp
  from revoked_bytes_not_served [OF r(1) this r(3)] show ?thesis using r by blast
qed

theorem registry_bounded_witness:
  "\<exists>s th. cache_reach False (s, th) \<and> cm_clock s = 1 \<and> card (retained_keys (cm_registry s)) \<le> 4096"
proof -
  obtain s th where r: "cache_reach False (s, th)" "cm_clock s = 1" using sample_read by blast
  have "cm_clock s < 2 ^ 64" using r(2) by simp
  from registry_bounded [OF r(1) this] show ?thesis using r by blast
qed

end
