(* ===== verification/Storage_Path.thy ===== *)
theory Storage_Path
  imports Go_Encoding
begin

text \<open>
  Where the local store keeps a cache key, \<open>internal/cache/storagepath.go\<close>. On a root that folds
  case, every byte outside a small alphabet is escaped and over-long segments become digests. What
  is shown: two keys share a file only through a collision of SHA-256, although the file system
  cannot tell the case of letters, and a listed path is read back to its key exactly when no
  segment became a digest.
\<close>

definition maxStorageSegment :: nat where
  "maxStorageSegment = 200"

definition storageSegmentByteSafe :: "char \<Rightarrow> bool" where
  "storageSegmentByteSafe c \<longleftrightarrow> isASCIILowercaseAlphanumeric c \<or> c \<in> {CHR ''.'', CHR ''-'', CHR ''_''}"

definition storageSegmentSafe :: "string \<Rightarrow> bool" where
  "storageSegmentSafe segment \<longleftrightarrow> segment \<noteq> [] \<and> list_all storageSegmentByteSafe segment"

definition storageEscapeHex :: string where
  "storageEscapeHex = ''0123456789ABCDEF''"

definition escape_byte :: "char \<Rightarrow> string" where
  "escape_byte c = (if storageSegmentByteSafe c then [c]
     else [CHR ''%'', storageEscapeHex ! (byte c div 16), storageEscapeHex ! (byte c mod 16)])"

definition escapeStorageSegment :: "string \<Rightarrow> string" where
  "escapeStorageSegment segment = concat (map escape_byte segment)"

definition storagePathSegment :: "string \<Rightarrow> string" where
  "storagePathSegment segment =
     (if storageSegmentSafe segment then segment
      else let escaped = escapeStorageSegment segment in
        if length escaped \<le> maxStorageSegment then escaped
        else CHR ''~'' # EncodeToString (Sum256 segment))"

definition storagePath :: "string \<Rightarrow> bool \<Rightarrow> string" where
  "storagePath key foldsCase =
     (if \<not> foldsCase \<or> key = [] then key else Join (map storagePathSegment (Split key (CHR ''/''))) ''/'')"

definition storageEscapeValue :: "char \<Rightarrow> nat option" where
  "storageEscapeValue c =
     (if isASCIIDigit c then Some (byte c - byte (CHR ''0''))
      else if byte (CHR ''A'') \<le> byte c \<and> byte c \<le> byte (CHR ''F'') then Some (byte c - byte (CHR ''A'') + 10)
      else None)"

text \<open>The loop of \<open>unescapeStorageSegment\<close>.\<close>

fun unescape_loop :: "string \<Rightarrow> string option" where
  "unescape_loop [] = Some []"
| "unescape_loop (c # s) =
     (if c \<noteq> CHR ''%'' then (if storageSegmentByteSafe c then map_option (\<lambda>r. c # r) (unescape_loop s) else None)
      else (case s of
          h # l # rest \<Rightarrow>
            (case (storageEscapeValue h, storageEscapeValue l) of
               (Some high, Some low) \<Rightarrow> map_option (\<lambda>r. char_of (high * 16 + low) # r) (unescape_loop rest)
             | _ \<Rightarrow> None)
        | _ \<Rightarrow> None))"

definition unescapeStorageSegment :: "string \<Rightarrow> string option" where
  "unescapeStorageSegment segment =
     (if CHR ''%'' \<notin> set segment then (if HasPrefix segment ''~'' then None else Some segment)
      else unescape_loop segment)"

fun unescape_all :: "string list \<Rightarrow> string list option" where
  "unescape_all [] = Some []"
| "unescape_all (w # ws) =
     (case unescapeStorageSegment w of None \<Rightarrow> None | Some d \<Rightarrow> map_option (\<lambda>ds. d # ds) (unescape_all ws))"

definition storageKeyFromPath :: "string \<Rightarrow> bool \<Rightarrow> string option" where
  "storageKeyFromPath path foldsCase =
     (if \<not> foldsCase \<or> path = [] then Some path
      else map_option (\<lambda>ds. Join ds ''/'') (unescape_all (Split path (CHR ''/''))))"

subsection \<open>Bytes and segments\<close>

lemma safe_bytes:
  assumes "storageSegmentByteSafe c"
  shows "lowerByte c = c" and "c \<noteq> CHR ''%''" and "c \<noteq> CHR ''~''" and "c \<noteq> CHR ''/''"
proof -
  have "byte c \<in> {97..122} \<union> {48..57} \<union> {46, 45, 95}"
    using assms by (auto simp: storageSegmentByteSafe_def isASCIILowercaseAlphanumeric_def isASCIIDigit_def)
  then show "lowerByte c = c" and "c \<noteq> CHR ''%''" and "c \<noteq> CHR ''~''" and "c \<noteq> CHR ''/''"
    by (auto simp: lowerByte_def isASCIIUpper_def byte_def)
qed

lemma escape_hex:
  assumes "n < 16"
  shows "lowerByte (storageEscapeHex ! n) = hex_digit n" and "storageEscapeValue (storageEscapeHex ! n) = Some n"
    and "storageEscapeHex ! n \<noteq> CHR ''/''"
    and "hex_digit n \<noteq> CHR ''%''" and "hex_digit n \<noteq> CHR ''/''" and "lowerByte (hex_digit n) = hex_digit n"
proof -
  have "list_all (\<lambda>n. lowerByte (storageEscapeHex ! n) = hex_digit n \<and> storageEscapeValue (storageEscapeHex ! n) = Some n \<and>
      storageEscapeHex ! n \<noteq> CHR ''/'' \<and> hex_digit n \<noteq> CHR ''%'' \<and> hex_digit n \<noteq> CHR ''/'' \<and>
      lowerByte (hex_digit n) = hex_digit n) [0..<16]"
    by code_simp
  then show "lowerByte (storageEscapeHex ! n) = hex_digit n" and "storageEscapeValue (storageEscapeHex ! n) = Some n"
    and "storageEscapeHex ! n \<noteq> CHR ''/''"
    and "hex_digit n \<noteq> CHR ''%''" and "hex_digit n \<noteq> CHR ''/''" and "lowerByte (hex_digit n) = hex_digit n"
    using assms unfolding list_all_iff by simp_all
qed

lemma nibbles: "byte c div 16 < 16" "byte c mod 16 < 16" "byte c div 16 * 16 + byte c mod 16 = byte c"
proof -
  have "byte c < 16 * 16" using byte_less_256 [of c] by simp
  then show "byte c div 16 < 16" by (rule less_mult_imp_div_less)
qed simp_all

lemma nibbles_eq:
  assumes "hex_digit (byte c div 16) = hex_digit (byte d div 16)" and "hex_digit (byte c mod 16) = hex_digit (byte d mod 16)"
  shows "c = d"
proof -
  have "byte c div 16 = byte d div 16" "byte c mod 16 = byte d mod 16" using assms by (simp_all add: hex_digit_inj nibbles(1,2))
  then have "byte c = byte d" using nibbles(3) by metis
  then show ?thesis by simp
qed

lemma fold_escape_byte:
  "lowerASCII (escape_byte c) = (if storageSegmentByteSafe c then [c] else [CHR ''%'', hex_digit (byte c div 16), hex_digit (byte c mod 16)])"
proof -
  have "lowerByte (CHR ''%'') = CHR ''%''" by code_simp
  then show ?thesis by (simp add: escape_byte_def lowerASCII_def safe_bytes escape_hex nibbles)
qed

lemma escape_Cons: "escapeStorageSegment (c # s) = escape_byte c @ escapeStorageSegment s"
  by (simp add: escapeStorageSegment_def)

lemma escape_Nil [simp]: "escapeStorageSegment [] = []"
  by (simp add: escapeStorageSegment_def)

lemma escape_safe: "list_all storageSegmentByteSafe s \<Longrightarrow> escapeStorageSegment s = s"
  by (induction s) (simp_all add: escape_Cons escape_byte_def)

text \<open>Escaped text can be read byte by byte, also after its letters have been folded.\<close>

lemma fold_escape_inj: "lowerASCII (escapeStorageSegment s) = lowerASCII (escapeStorageSegment t) \<Longrightarrow> s = t"
proof (induction s arbitrary: t)
  case Nil
  then show ?case by (cases t) (simp_all add: escape_Cons fold_escape_byte split: if_splits)
next
  case (Cons c s)
  then obtain d t' where t: "t = d # t'" by (cases t) (auto simp: escape_Cons fold_escape_byte split: if_splits)
  have eq: "lowerASCII (escape_byte c) @ lowerASCII (escapeStorageSegment s) =
      lowerASCII (escape_byte d) @ lowerASCII (escapeStorageSegment t')"
    using Cons.prems t by (simp add: escape_Cons)
  have "c = d \<and> lowerASCII (escapeStorageSegment s) = lowerASCII (escapeStorageSegment t')"
  proof (cases "storageSegmentByteSafe c")
    case True
    then show ?thesis using eq safe_bytes(2) [of c] by (cases "storageSegmentByteSafe d") (simp_all add: fold_escape_byte)
  next
    case False
    then show ?thesis
      using eq safe_bytes(2) [of d] nibbles_eq [of c d] by (cases "storageSegmentByteSafe d") (auto simp: fold_escape_byte)
  qed
  then show ?case using Cons.IH t by simp
qed

lemma unescape_escape: "unescape_loop (escapeStorageSegment s) = Some s"
proof (induction s)
  case (Cons c s)
  then show ?case using safe_bytes(2) [of c] nibbles [of c] by (simp add: escape_Cons escape_byte_def escape_hex)
qed simp

lemma escape_percent: "\<not> list_all storageSegmentByteSafe s \<Longrightarrow> CHR ''%'' \<in> set (escapeStorageSegment s)"
  by (induction s) (auto simp: escape_Cons escape_byte_def)

lemma digest_plain: "lowerASCII (EncodeToString s) = EncodeToString s" "CHR ''%'' \<notin> set (EncodeToString s)" "CHR ''/'' \<notin> set (EncodeToString s)"
proof -
  have "c \<noteq> CHR ''%'' \<and> c \<noteq> CHR ''/'' \<and> lowerByte c = c" if "c \<in> set (EncodeToString s)" for c
    using that escape_hex(4-6) nibbles by (auto simp: EncodeToString_def)
  then show "lowerASCII (EncodeToString s) = EncodeToString s" "CHR ''%'' \<notin> set (EncodeToString s)" "CHR ''/'' \<notin> set (EncodeToString s)"
    by (auto simp: lowerASCII_def intro: map_idI)
qed

text \<open>The segment is stored as a digest.\<close>

definition digested :: "string \<Rightarrow> bool" where
  "digested segment \<longleftrightarrow> \<not> storageSegmentSafe segment \<and> maxStorageSegment < length (escapeStorageSegment segment)"

lemma storagePathSegment_cases:
  "storagePathSegment s = (if digested s then CHR ''~'' # EncodeToString (Sum256 s) else escapeStorageSegment s)"
  by (auto simp: storagePathSegment_def digested_def Let_def storageSegmentSafe_def escape_safe)

lemma escape_no_tilde: "lowerASCII (escapeStorageSegment s) \<noteq> CHR ''~'' # x"
  using safe_bytes(3) by (cases s) (auto simp: escape_Cons fold_escape_byte)

lemma storagePathSegment_inj:
  assumes "lowerASCII (storagePathSegment s) = lowerASCII (storagePathSegment t)"
  shows "s = t \<or> digested s \<and> digested t \<and> Sum256 s = Sum256 t"
proof -
  have tilde: "lowerASCII (CHR ''~'' # x) = CHR ''~'' # lowerASCII x" for x
    by (simp add: lowerASCII_def) code_simp
  consider "digested s" "digested t" | "\<not> digested s" "\<not> digested t" | "digested s \<noteq> digested t" by blast
  then show ?thesis
  proof cases
    case 1
    then show ?thesis using assms by (simp add: storagePathSegment_cases tilde digest_plain EncodeToString_inj)
  next
    case 2
    then show ?thesis using assms fold_escape_inj by (simp add: storagePathSegment_cases)
  next
    case 3
    then show ?thesis
      using assms escape_no_tilde [of s] escape_no_tilde [of t] by (auto simp: storagePathSegment_cases tilde dest: sym)
  qed
qed

lemma escape_no_slash: "CHR ''/'' \<notin> set (escapeStorageSegment s)"
proof (induction s)
  case (Cons c s)
  then show ?case
    using safe_bytes(4) [of c] escape_hex(3) [OF nibbles(1) [of c]] escape_hex(3) [OF nibbles(2) [of c]]
    by (auto simp: escape_Cons escape_byte_def)
qed simp

lemma segment_no_slash: "CHR ''/'' \<notin> set (storagePathSegment s)"
  using escape_no_slash digest_plain(3) by (auto simp: storagePathSegment_cases)

lemma unescape_segment: "unescapeStorageSegment (storagePathSegment s) = (if digested s then None else Some s)"
proof (cases "digested s")
  case True
  then show ?thesis using digest_plain(2) by (simp add: storagePathSegment_cases unescapeStorageSegment_def HasPrefix_def)
next
  case False
  show ?thesis
  proof (cases "list_all storageSegmentByteSafe s")
    case True
    then have "CHR ''%'' \<notin> set s" "\<not> HasPrefix s ''~''"
      using safe_bytes(2,3) by (cases s; auto simp: list_all_iff HasPrefix_def)+
    then show ?thesis using False True by (simp add: storagePathSegment_cases escape_safe unescapeStorageSegment_def)
  next
    case unsafe: False
    then show ?thesis using False escape_percent [OF unsafe] unescape_escape by (simp add: storagePathSegment_cases unescapeStorageSegment_def)
  qed
qed


subsection \<open>Paths\<close>

lemma Split_lower: "Split (lowerASCII s) (CHR ''/'') = map lowerASCII (Split s (CHR ''/''))"
proof (induction s)
  case (Cons c s)
  have "\<not> isASCIIAlpha (CHR ''/'')" by code_simp
  then show ?case using Cons lowerByte_eq_iff [of "CHR ''/''" c] by (auto simp: lowerASCII_def split: list.splits)
qed (simp add: lowerASCII_def)

lemma Split_storagePath:
  assumes "key \<noteq> []"
  shows "Split (storagePath key True) (CHR ''/'') = map storagePathSegment (Split key (CHR ''/''))"
  using assms segment_no_slash by (simp add: storagePath_def Split_Join Split_nonempty list_all_iff)

lemma storagePath_Nil: "storagePath key True = [] \<longleftrightarrow> key = []"
proof
  assume empty: "storagePath key True = []"
  show "key = []"
  proof (rule ccontr)
    assume key: "key \<noteq> []"
    then have "map storagePathSegment (Split key (CHR ''/'')) = [[]]" using Split_storagePath [OF key] empty by simp
    then obtain w where w: "Split key (CHR ''/'') = [w]" "storagePathSegment w = []" by auto
    then have "w = []" by (cases w) (auto simp: storagePathSegment_cases escape_Cons escape_byte_def split: if_splits)
    then show False using w key Join_Split [of key "CHR ''/''"] by simp
  qed
qed (simp add: storagePath_def)

lemma segments_inj:
  assumes "map (lowerASCII \<circ> storagePathSegment) ss = map (lowerASCII \<circ> storagePathSegment) ts"
  shows "ss = ts \<or> (\<exists>x \<in> set ss. \<exists>y \<in> set ts. x \<noteq> y \<and> Sum256 x = Sum256 y)"
  using assms
proof (induction ss arbitrary: ts)
  case (Cons a ss)
  then obtain b ts' where t: "ts = b # ts'" by (cases ts) auto
  then show ?case using Cons.IH [of ts'] Cons.prems storagePathSegment_inj [of a b] by auto
qed simp

text \<open>
  C14: Two keys never share a file. On a root that folds case, if the paths of two cache keys differ at
  most in the case of letters, the keys are equal or two of their segments are a collision of
  SHA-256.
\<close>

theorem storage_paths_distinct:
  assumes "lowerASCII (storagePath k True) = lowerASCII (storagePath l True)"
  shows "k = l \<or> (\<exists>x \<in> set (Split k (CHR ''/'')). \<exists>y \<in> set (Split l (CHR ''/'')). x \<noteq> y \<and> Sum256 x = Sum256 y)"
proof (cases "k = [] \<or> l = []")
  case True
  have "length (storagePath k True) = length (storagePath l True)" using arg_cong [OF assms, of length] by simp
  then have "storagePath k True = [] \<longleftrightarrow> storagePath l True = []" by auto
  then show ?thesis using True by (auto simp: storagePath_Nil)
next
  case False
  then have "map (lowerASCII \<circ> storagePathSegment) (Split k (CHR ''/'')) = map (lowerASCII \<circ> storagePathSegment) (Split l (CHR ''/''))"
    using arg_cong [OF assms, of "\<lambda>p. Split p (CHR ''/'')"] by (simp add: Split_lower Split_storagePath)
  from segments_inj [OF this] show ?thesis by (metis Join_Split)
qed

lemma unescape_segments:
  "unescape_all (map storagePathSegment ss) = (if \<exists>w \<in> set ss. digested w then None else Some ss)"
  by (induction ss) (auto simp: unescape_segment)

text \<open>
  C35: A listed path gives back its key: the key itself on a root that keeps case, and on a root that
  folds it the key exactly when none of its segments was replaced by a digest; otherwise nothing.
\<close>

theorem storage_path_roundtrip:
  "storageKeyFromPath (storagePath key foldsCase) foldsCase =
     (if foldsCase \<and> list_ex digested (Split key (CHR ''/'')) then None else Some key)"
proof (cases "foldsCase \<and> key \<noteq> []")
  case True
  then show ?thesis by (simp add: storageKeyFromPath_def storagePath_Nil Split_storagePath unescape_segments list_ex_iff)
next
  case False
  then show ?thesis by (auto simp: storageKeyFromPath_def storagePath_def digested_def)
qed

theorem storage_paths_distinct_witness:
  "storagePath ''npm/Express'' True = ''npm/%45xpress'' \<and>
   (\<exists>l. lowerASCII (storagePath ''npm/Express'' True) = lowerASCII (storagePath l True) \<and>
      (''npm/Express'' = l \<or> (\<exists>x \<in> set (Split ''npm/Express'' (CHR ''/'')). \<exists>y \<in> set (Split l (CHR ''/'')). x \<noteq> y \<and> Sum256 x = Sum256 y)))"
proof -
  have "storagePath ''npm/Express'' True = ''npm/%45xpress''" by code_simp
  then show ?thesis using storage_paths_distinct [of "''npm/Express''" "''npm/Express''"] by blast
qed

end
