(* ===== verification/Artifact_Resume.thy ===== *)
theory Artifact_Resume
  imports Go_Paths Go_Encoding "HOL-Library.Sublist"
begin

text \<open>
  Streaming of an artifact that resumes interrupted reads (\<open>upstream/artifact.go\<close>). A body is the bytes
  that it would still deliver; every read is given how many of them arrive and with which error,
  and every reopening of the artifact the answer it gets. \<open>Close\<close> may run during a \<open>Read\<close>; the
  \<open>read_env\<close> says where it is observed. Transfer statistics and logging are left out.
\<close>

definition artifactResumeAttempts :: nat where
  "artifactResumeAttempts = 2"

abbreviation io_EOF :: sentinel where
  "io_EOF \<equiv> ErrMessage ''EOF''"

definition io_ErrUnexpectedEOF :: gerror where
  "io_ErrUnexpectedEOF = [ErrMessage ''unexpected EOF'']"

definition io_ErrClosedPipe :: gerror where
  "io_ErrClosedPipe = [ErrMessage ''io: read/write on closed pipe'']"

record http_answer =
  ha_StatusCode :: int
  ha_Size :: int
  ha_ETag :: string
  ha_URL :: string
  ha_ContentRange :: string
  ha_ContentEncoding :: string
  ha_data :: string

record artifactBody =
  ab_data :: string          \<comment> \<open>what the current body still delivers\<close>
  ab_closed :: bool
  ab_size :: int
  ab_offset :: int
  ab_etag :: string
  ab_url :: string
  ab_resumable :: bool
  ab_attempts :: nat
  ab_pending :: "gerror option"

definition strongArtifactETag :: "string \<Rightarrow> bool" where
  "strongArtifactETag tag \<longleftrightarrow>
     2 \<le> length tag \<and> hd tag = CHR 0x22 \<and> last tag = CHR 0x22 \<and>
     list_all (\<lambda>c. 0x21 \<le> byte c \<and> c \<noteq> CHR 0x22 \<and> byte c \<noteq> 0x7F) (butlast (tl tag))"

definition identityEncoding :: "path_externals \<Rightarrow> string \<Rightarrow> bool" where
  "identityEncoding X encoding \<longleftrightarrow> encoding = [] \<or> EqualFold X encoding ''identity''"

text \<open>\<open>fetchArtifact\<close> after the first answer.\<close>

definition fetchArtifact :: "path_externals \<Rightarrow> gerror + http_answer \<Rightarrow> gerror + artifactBody" where
  "fetchArtifact X result =
     (case result of
        Inl e \<Rightarrow> Inl e
      | Inr r \<Rightarrow>
          if ha_StatusCode r \<noteq> 200 \<or> \<not> identityEncoding X (ha_ContentEncoding r)
          then Inl [ErrMessage ''artifact response is not a complete identity representation'']
          else Inr \<lparr>ab_data = ha_data r, ab_closed = False, ab_size = ha_Size r, ab_offset = 0, ab_etag = ha_ETag r, ab_url = ha_URL r,
                    ab_resumable = (ha_StatusCode r = 200 \<and> ha_Size r > 0 \<and> strongArtifactETag (ha_ETag r) \<and>
                                    identityEncoding X (ha_ContentEncoding r)),
                    ab_attempts = 0, ab_pending = None\<rparr>)"

definition content_range :: "int \<Rightarrow> int \<Rightarrow> string" where
  "content_range offset total_size = ''bytes '' @ FormatInt offset @ ''-'' @ FormatInt (total_size - 1) @ ''/'' @ FormatInt total_size"

definition artifact_Close :: "artifactBody \<Rightarrow> artifactBody" where
  "artifact_Close b = b\<lparr>ab_closed := True\<rparr>"

text \<open>
  What one call of \<open>Read\<close> meets, by the number of resume attempts made so far: whether the body is
  found closed, what the read of the body returns, the error of the context, whether it ends
  while the timer runs, the answer of \<open>open\<close>, and whether the body was closed meanwhile.
\<close>

record read_env =
  re_closed :: "nat \<Rightarrow> bool"
  re_read :: "nat \<Rightarrow> nat \<times> gerror option"
  re_ctxErr :: "gerror option"
  re_wait :: "nat \<Rightarrow> gerror option"
  re_open :: "nat \<Rightarrow> gerror + http_answer"
  re_closes :: "nat \<Rightarrow> bool"

function resume_loop :: "path_externals \<Rightarrow> read_env \<Rightarrow> gerror \<Rightarrow> artifactBody \<Rightarrow> gerror option \<times> artifactBody" where
  "resume_loop X env failure b =
     (if ab_attempts b < artifactResumeAttempts then
        let k = Suc (ab_attempts b); b1 = b\<lparr>ab_attempts := k\<rparr> in
        case re_wait env k of
          Some e \<Rightarrow> (Some e, b1)
        | None \<Rightarrow>
            (case re_open env k of
               Inl e \<Rightarrow> resume_loop X env e b1
             | Inr r \<Rightarrow>
                 if ha_StatusCode r \<noteq> 206 \<or> ha_ContentRange r \<noteq> content_range (ab_offset b) (ab_size b) \<or>
                    ha_Size r \<noteq> ab_size b - ab_offset b \<or> ha_ETag r \<noteq> ab_etag b \<or> ha_URL r \<noteq> ab_url b \<or>
                    \<not> identityEncoding X (ha_ContentEncoding r)
                 then (Some [ErrMessage ''artifact resume rejected: object identity or byte range changed''], b1)
                 else if ab_closed b \<or> re_closes env k then (Some io_ErrClosedPipe, b1\<lparr>ab_closed := True\<rparr>)
                 else (None, b1\<lparr>ab_data := ha_data r, ab_pending := None\<rparr>))
      else (Some failure, b))"
  by pat_completeness auto
termination
  by (relation "measure (\<lambda>(X, env, failure, b). artifactResumeAttempts - ab_attempts b)") auto

declare resume_loop.simps [simp del]

definition artifact_resume :: "path_externals \<Rightarrow> read_env \<Rightarrow> gerror \<Rightarrow> artifactBody \<Rightarrow> gerror option \<times> artifactBody" where
  "artifact_resume X env failure b =
     (if \<not> ab_resumable b \<or> artifactResumeAttempts \<le> ab_attempts b \<or> re_ctxErr env \<noteq> None then (Some failure, b)
      else resume_loop X env failure b)"

definition resumes_with :: "path_externals \<Rightarrow> artifactBody \<Rightarrow> http_answer \<Rightarrow> bool" where
  "resumes_with X b r \<longleftrightarrow>
     ha_StatusCode r = 206 \<and> ha_ContentRange r = content_range (ab_offset b) (ab_size b) \<and> ha_Size r = ab_size b - ab_offset b \<and>
     ha_ETag r = ab_etag b \<and> ha_URL r = ab_url b \<and> identityEncoding X (ha_ContentEncoding r)"

lemma resume_loop_result:
  "resume_loop X env failure b = (res, b') \<Longrightarrow> ab_attempts b \<le> artifactResumeAttempts \<Longrightarrow>
     (case res of
        None \<Rightarrow> \<exists>k r. ab_attempts b < k \<and> k \<le> artifactResumeAttempts \<and> re_open env k = Inr r \<and> resumes_with X b r \<and>
          b' = b\<lparr>ab_attempts := k, ab_data := ha_data r, ab_pending := None\<rparr>
      | Some e \<Rightarrow> \<exists>k c. k \<le> artifactResumeAttempts \<and> b' = b\<lparr>ab_attempts := k, ab_closed := c\<rparr>)"
proof (induction X env failure b arbitrary: res b' rule: resume_loop.induct)
  case (1 X env failure b)
  let ?k = "Suc (ab_attempts b)"
  let ?b = "b\<lparr>ab_attempts := ?k\<rparr>"
  note eq = 1(2) [unfolded resume_loop.simps [of X env failure b]]
  show ?case
  proof (cases "ab_attempts b < artifactResumeAttempts \<and> re_wait env ?k = None \<and> (\<exists>e. re_open env ?k = Inl e)")
    case True
    then obtain e where e: "ab_attempts b < artifactResumeAttempts" "re_wait env ?k = None" "re_open env ?k = Inl e" by blast
    have r: "resume_loop X env e ?b = (res, b')" using eq e by (simp add: Let_def)
    have same: "resumes_with X ?b r = resumes_with X b r" for r by (simp add: resumes_with_def)
    from 1(1) [OF e(1) refl refl e(2,3) r] e(1) show ?thesis
      by (cases res) (auto simp: same intro: Suc_lessD)
  next
    case False
    show ?thesis
    proof (cases res)
      case None
      obtain r where "ab_attempts b < artifactResumeAttempts" "re_open env ?k = Inr r" "resumes_with X b r"
          "b' = ?b\<lparr>ab_data := ha_data r, ab_pending := None\<rparr>"
        using eq False None by (auto simp: Let_def resumes_with_def split: if_splits option.splits sum.splits)
      then show ?thesis unfolding None option.case by (intro exI [of _ ?k] exI [of _ r]) simp
    next
      case (Some e)
      have "b' = b \<or> ab_attempts b < artifactResumeAttempts \<and> (b' = ?b \<or> b' = ?b\<lparr>ab_closed := True\<rparr>)"
        using eq False Some by (auto simp: Let_def split: if_splits option.splits sum.splits)
      then have "\<exists>k \<le> artifactResumeAttempts. b' = b\<lparr>ab_attempts := k, ab_closed := ab_closed b\<rparr> \<or> b' = b\<lparr>ab_attempts := k, ab_closed := True\<rparr>"
        using 1(3) by (elim disjE conjE) (auto intro: exI [of _ "ab_attempts b"] exI [of _ ?k])
      then show ?thesis unfolding Some option.case by blast
    qed
  qed
qed

lemma artifact_resume_progress:
  "artifact_resume X env failure b = (None, b') \<Longrightarrow> ab_attempts b < ab_attempts b' \<and> ab_attempts b' \<le> artifactResumeAttempts \<and> ab_pending b' = None"
  by (auto simp: artifact_resume_def dest!: resume_loop_result split: if_splits)

text \<open>\<open>Read\<close> with a buffer that is not empty: the bytes, the error and the body afterwards.\<close>

function artifact_Read :: "path_externals \<Rightarrow> read_env \<Rightarrow> artifactBody \<Rightarrow> string \<times> gerror option \<times> artifactBody" where
  "artifact_Read X env b =
     (if ab_closed b \<or> re_closed env (ab_attempts b) then ([], Some io_ErrClosedPipe, b\<lparr>ab_closed := True\<rparr>)
      else case ab_pending b of
          Some failure \<Rightarrow>
            (case artifact_resume X env failure b of
               (Some e, b') \<Rightarrow> ([], Some e, b')
             | (None, b') \<Rightarrow> artifact_Read X env b')
        | None \<Rightarrow>
            (case re_read env (ab_attempts b) of (n0, err) \<Rightarrow>
               let n = min n0 (length (ab_data b));
                   bytes = take n (ab_data b);
                   b1 = b\<lparr>ab_data := drop n (ab_data b), ab_offset := ab_offset b + int n\<rparr> in
               case err of
                 None \<Rightarrow> (bytes, None, b1)
               | Some e \<Rightarrow>
                   if ab_offset b1 < ab_size b then
                     let b2 = b1\<lparr>ab_pending := Some (if errors_Is e io_EOF then io_ErrUnexpectedEOF else e)\<rparr> in
                     if n > 0 then (bytes, None, b2) else artifact_Read X env b2
                   else (bytes, Some e, b1)))"
  by pat_completeness auto
termination
proof (relation "measure (\<lambda>(X, env, b). 2 * (artifactResumeAttempts - ab_attempts b) + (if ab_pending b = None then 1 else 0))", goal_cases)
  case 1
  then show ?case by simp
next
  case 2
  then show ?case by (auto simp: Let_def)
next
  case (3 X env b failure z b1)
  then have "artifact_resume X env failure b = (None, b1)" by simp
  then show ?case using artifact_resume_progress [of X env failure b b1] 3 by auto
qed

declare artifact_Read.simps [simp del]

fun read_all :: "path_externals \<Rightarrow> read_env list \<Rightarrow> artifactBody \<Rightarrow> string \<times> gerror option \<times> artifactBody" where
  "read_all X [] b = ([], None, b)"
| "read_all X (env # envs) b =
     (case artifact_Read X env b of
        (bytes, Some e, b') \<Rightarrow> (bytes, Some e, b')
      | (bytes, None, b') \<Rightarrow> (case read_all X envs b' of (rest, err, b'') \<Rightarrow> (bytes @ rest, err, b'')))"

section \<open>The bytes of one object\<close>

text \<open>
  What HTTP promises of answers with a strong validator: \<open>obj\<close> gives the representation that a URL has
  under an entity tag. A complete answer carries it from the beginning, a partial one from the
  first position of its \<open>Content-Range\<close>; either may be cut short.
\<close>

definition honest :: "(string \<Rightarrow> string \<Rightarrow> string) \<Rightarrow> http_answer \<Rightarrow> bool" where
  "honest obj r \<longleftrightarrow>
     (let representation = obj (ha_URL r) (ha_ETag r) in
      (ha_StatusCode r = 200 \<longrightarrow> (0 \<le> ha_Size r \<longrightarrow> ha_Size r = int (length representation)) \<and> prefix (ha_data r) representation) \<and>
      (\<forall>i. ha_StatusCode r = 206 \<and> ha_ContentRange r = content_range (int i) (int (length representation)) \<longrightarrow>
         prefix (ha_data r) (drop i representation)))"

text \<open>Every answer is honest, and the errors of the context and of \<open>open\<close>, which wraps them, are not \<open>io.EOF\<close> itself.\<close>

definition env_ok :: "(string \<Rightarrow> string \<Rightarrow> string) \<Rightarrow> read_env \<Rightarrow> bool" where
  "env_ok obj env \<longleftrightarrow>
     (\<forall>k r. re_open env k = Inr r \<longrightarrow> honest obj r) \<and> (\<forall>k. re_open env k \<noteq> Inl [io_EOF]) \<and> (\<forall>k. re_wait env k \<noteq> Some [io_EOF])"

definition streams :: "(string \<Rightarrow> string \<Rightarrow> string) \<Rightarrow> string \<Rightarrow> artifactBody \<Rightarrow> bool" where
  "streams obj delivered b \<longleftrightarrow>
     (let representation = obj (ab_url b) (ab_etag b) in
      ab_size b = int (length representation) \<and> ab_offset b = int (length delivered) \<and>
      prefix delivered representation \<and> prefix (ab_data b) (drop (length delivered) representation) \<and>
      ab_attempts b \<le> artifactResumeAttempts \<and> ab_pending b \<noteq> Some [io_EOF])"

lemma resume_loop_error:
  "resume_loop X env failure b = (Some e, b') \<Longrightarrow> env_ok obj env \<Longrightarrow> failure \<noteq> [io_EOF] \<Longrightarrow> e \<noteq> [io_EOF]"
proof (induction X env failure b arbitrary: b' rule: resume_loop.induct)
  case (1 X env failure b)
  let ?k = "Suc (ab_attempts b)"
  let ?b = "b\<lparr>ab_attempts := ?k\<rparr>"
  note eq = 1(2) [unfolded resume_loop.simps [of X env failure b]]
  show ?case
  proof (cases "ab_attempts b < artifactResumeAttempts \<and> re_wait env ?k = None \<and> (\<exists>f. re_open env ?k = Inl f)")
    case True
    then obtain f where f: "ab_attempts b < artifactResumeAttempts" "re_wait env ?k = None" "re_open env ?k = Inl f" by blast
    have "resume_loop X env f ?b = (Some e, b')" using eq f by (simp add: Let_def)
    from 1(1) [OF f(1) refl refl f(2,3) this 1(3)] show ?thesis using 1(3) f(3) by (auto simp: env_ok_def)
  next
    case False
    then show ?thesis using eq 1(3,4)
      by (auto simp: Let_def env_ok_def io_ErrClosedPipe_def split: if_splits option.splits sum.splits)
  qed
qed

lemma artifact_resume_streams:
  assumes "artifact_resume X env failure b = (res, b')" and "streams obj delivered b" and "env_ok obj env" and "failure \<noteq> [io_EOF]"
  shows "streams obj delivered b' \<and> ab_url b' = ab_url b \<and> ab_etag b' = ab_etag b \<and> res \<noteq> Some [io_EOF]"
proof (cases "\<not> ab_resumable b \<or> artifactResumeAttempts \<le> ab_attempts b \<or> re_ctxErr env \<noteq> None")
  case True
  then show ?thesis using assms by (auto simp: artifact_resume_def)
next
  case False
  then have loop: "resume_loop X env failure b = (res, b')" using assms(1) by (simp add: artifact_resume_def)
  have bound: "ab_attempts b \<le> artifactResumeAttempts" using False by simp
  show ?thesis
  proof (cases res)
    case None
    then obtain k r where r: "k \<le> artifactResumeAttempts" "re_open env k = Inr r" "resumes_with X b r"
        "b' = b\<lparr>ab_attempts := k, ab_data := ha_data r, ab_pending := None\<rparr>"
      using resume_loop_result [OF loop bound] by auto
    have "prefix (ha_data r) (drop (length delivered) (obj (ab_url b) (ab_etag b)))"
    proof -
      have "honest obj r" using r(2) assms(3) by (simp add: env_ok_def)
      moreover have "ha_StatusCode r = 206" "ha_URL r = ab_url b" "ha_ETag r = ab_etag b"
        "ha_ContentRange r = content_range (int (length delivered)) (int (length (obj (ab_url b) (ab_etag b))))"
        using r(3) assms(2) by (simp_all add: resumes_with_def streams_def Let_def)
      ultimately show ?thesis unfolding honest_def Let_def by simp
    qed
    then show ?thesis using assms(2) r None by (simp add: streams_def Let_def)
  next
    case (Some e)
    then obtain k c where "k \<le> artifactResumeAttempts" "b' = b\<lparr>ab_attempts := k, ab_closed := c\<rparr>"
      using resume_loop_result [OF loop bound] by auto
    moreover have "e \<noteq> [io_EOF]" using resume_loop_error loop Some assms(3,4) by blast
    ultimately show ?thesis using assms(2) Some by (simp add: streams_def Let_def)
  qed
qed

lemma prefix_take_drop:
  assumes "prefix d (drop k w)" and "prefix v w" and "length v = k"
  shows "prefix (v @ take n d) w" "prefix (drop n d) (drop (k + length (take n d)) w)"
proof -
  obtain rest where w: "w = v @ d @ rest" using assms by (auto simp: prefix_def)
  then have "w = (v @ take n d) @ drop n d @ rest" by simp
  then show "prefix (v @ take n d) w" by (metis prefixI)
  have "drop (k + length (take n d)) w = drop n d @ rest"
    using assms(3) \<open>w = (v @ take n d) @ drop n d @ rest\<close> by (metis append_eq_conv_conj length_append)
  then show "prefix (drop n d) (drop (k + length (take n d)) w)" by simp
qed

lemma artifact_Read_streams:
  assumes "artifact_Read X env b = (bytes, err, b')" and "streams obj delivered b" and "env_ok obj env"
  shows "streams obj (delivered @ bytes) b' \<and> ab_url b' = ab_url b \<and> ab_etag b' = ab_etag b \<and>
    (err = Some [io_EOF] \<longrightarrow> delivered @ bytes = obj (ab_url b) (ab_etag b))"
  using assms
proof (induction X env b arbitrary: bytes err b' rule: artifact_Read.induct)
  case (1 X env b)
  note eq = 1(3) [unfolded artifact_Read.simps [of X env b]]
  show ?case
  proof (cases "ab_closed b \<or> re_closed env (ab_attempts b)")
    case True
    then show ?thesis using eq 1(4) by (auto simp: streams_def Let_def io_ErrClosedPipe_def)
  next
    case open': False
    show ?thesis
    proof (cases "ab_pending b")
      case (Some failure)
      then have nf: "failure \<noteq> [io_EOF]" using 1(4) by (auto simp: streams_def Let_def)
      obtain res b1 where res: "artifact_resume X env failure b = (res, b1)" by fastforce
      note ok = artifact_resume_streams [OF res 1(4,5) nf]
      show ?thesis
      proof (cases res)
        case None
        then have rd: "artifact_Read X env b1 = (bytes, err, b')" using eq open' Some res by simp
        have "streams obj (delivered @ bytes) b' \<and> ab_url b' = ab_url b1 \<and> ab_etag b' = ab_etag b1 \<and>
            (err = Some [io_EOF] \<longrightarrow> delivered @ bytes = obj (ab_url b1) (ab_etag b1))"
          by (rule 1(2) [OF open' Some res [symmetric] None rd _ 1(5)]) (use ok in blast)
        then show ?thesis using ok by simp
      next
        case (Some e)
        then show ?thesis using eq open' \<open>ab_pending b = Some failure\<close> res ok by auto
      qed
    next
      case None
      obtain n0 er where read: "re_read env (ab_attempts b) = (n0, er)" by fastforce
      define n where "n = min n0 (length (ab_data b))"
      define b1 where "b1 = b\<lparr>ab_data := drop n (ab_data b), ab_offset := ab_offset b + int n\<rparr>"
      have b1: "streams obj (delivered @ take n (ab_data b)) b1"
        using 1(4) prefix_take_drop [of "ab_data b" "length delivered" "obj (ab_url b) (ab_etag b)" delivered n]
        by (auto simp: streams_def Let_def b1_def n_def min_def split: if_splits)
      show ?thesis
      proof (cases er)
        case None
        then show ?thesis using eq open' \<open>ab_pending b = None\<close> read b1 by (auto simp: Let_def n_def b1_def)
      next
        case (Some e)
        define b2 where "b2 = b1\<lparr>ab_pending := Some (if errors_Is e io_EOF then io_ErrUnexpectedEOF else e)\<rparr>"
        have b2: "streams obj (delivered @ take n (ab_data b)) b2"
          using b1 by (auto simp: streams_def Let_def b2_def errors_Is_def io_ErrUnexpectedEOF_def)
        have res: "(if ab_offset b1 < ab_size b then if n > 0 then (take n (ab_data b), None, b2) else artifact_Read X env b2
            else (take n (ab_data b), Some e, b1)) = (bytes, err, b')"
          using eq unfolding if_not_P [OF open'] \<open>ab_pending b = None\<close> read Some option.case prod.case Let_def b2_def b1_def n_def
          by simp
        show ?thesis
        proof (cases "ab_offset b1 < ab_size b \<and> n = 0")
          case True
          then have rd: "artifact_Read X env b2 = (bytes, err, b')" using res by simp
          have "streams obj (delivered @ bytes) b' \<and> ab_url b' = ab_url b2 \<and> ab_etag b' = ab_etag b2 \<and>
              (err = Some [io_EOF] \<longrightarrow> delivered @ bytes = obj (ab_url b2) (ab_etag b2))"
          proof (rule 1(1) [OF open' \<open>ab_pending b = None\<close> read [symmetric] n_def refl b1_def Some _ b2_def _ rd _ 1(5)])
            show "ab_offset b1 < ab_size b" "\<not> 0 < n" using True by simp_all
            show "streams obj delivered b2" using b2 True by simp
          qed
          then show ?thesis by (simp add: b2_def b1_def)
        next
          case False
          have full: "ab_size b \<le> ab_offset b1 \<Longrightarrow> delivered @ take n (ab_data b) = obj (ab_url b) (ab_etag b)"
            using b1 unfolding streams_def Let_def b1_def by (auto intro!: prefix_length_prefix [THEN prefix_order.antisym] simp: prefix_def)
          then show ?thesis using res False b1 b2 by (auto simp: b1_def b2_def split: if_splits)
        qed
      qed
    qed
  qed
qed

text \<open>
  C18: A resumed download never mixes objects. Whatever the network does, with reads of any size,
  failures at any byte and a \<open>Close\<close> at any moment, the bytes that the reads deliver are a prefix of
  the one representation that the first answer named by its URL and entity tag; at most two
  resumptions are attempted; and the end of the file is reported only after all of it.
\<close>

theorem resumed_bytes_are_one_object:
  assumes "fetchArtifact X (Inr r) = Inr b" and "0 \<le> ha_Size r" and "honest obj r"
    and "\<forall>env \<in> set envs. env_ok obj env" and "read_all X envs b = (bytes, err, b')"
  shows "prefix bytes (obj (ha_URL r) (ha_ETag r)) \<and> ab_attempts b' \<le> artifactResumeAttempts \<and>
    (err = Some [io_EOF] \<longrightarrow> bytes = obj (ha_URL r) (ha_ETag r))"
proof -
  have "ha_StatusCode r = 200" and b: "ab_url b = ha_URL r" "ab_etag b = ha_ETag r" "ab_data b = ha_data r" "ab_size b = ha_Size r"
      "ab_offset b = 0" "ab_attempts b = 0" "ab_pending b = None"
    using assms(1) by (auto simp: fetchArtifact_def split: if_splits)
  then have start: "streams obj [] b" using assms(2,3) by (simp add: streams_def honest_def Let_def)
  have "streams obj (delivered @ bytes) b' \<and> ab_url b' = ab_url b \<and> ab_etag b' = ab_etag b \<and>
      (err = Some [io_EOF] \<longrightarrow> delivered @ bytes = obj (ab_url b) (ab_etag b))"
    if "streams obj delivered b" "\<forall>env \<in> set envs. env_ok obj env" "read_all X envs b = (bytes, err, b')" for delivered b envs bytes
    using that
  proof (induction envs arbitrary: b bytes delivered)
    case (Cons env envs)
    obtain bs er b1 where rd: "artifact_Read X env b = (bs, er, b1)" by (metis prod_cases3)
    note ok = artifact_Read_streams [OF rd Cons.prems(1)]
    show ?case
    proof (cases er)
      case None
      obtain rest err' b2 where all: "read_all X envs b1 = (rest, err', b2)" by (metis prod_cases3)
      have "bytes = bs @ rest" "err' = err" "b2 = b'" using Cons.prems(3) rd None all by auto
      then show ?thesis using Cons.IH [of "delivered @ bs" b1 rest] ok Cons.prems(2) all by auto
    qed (use ok Cons.prems rd in auto)
  qed simp
  from this [OF start assms(4,5)] show ?thesis using b by (auto simp: streams_def Let_def)
qed

definition cut_answer :: http_answer where
  "cut_answer = \<lparr>ha_StatusCode = 200, ha_Size = 4, ha_ETag = [CHR 0x22, CHR ''v'', CHR 0x22], ha_URL = ''u'', ha_ContentRange = [],
     ha_ContentEncoding = [], ha_data = ''ab''\<rparr>"

definition rest_answer :: http_answer where
  "rest_answer = cut_answer\<lparr>ha_StatusCode := 206, ha_Size := 2, ha_ContentRange := content_range 2 4, ha_data := ''cd''\<rparr>"

definition cut_env :: read_env where
  "cut_env = \<lparr>re_closed = (\<lambda>_. False), re_read = (\<lambda>k. (2, Some [io_EOF])), re_ctxErr = None,
     re_wait = (\<lambda>_. None), re_open = (\<lambda>k. if k = 1 then Inl [ErrMessage ''fetch''] else Inr rest_answer), re_closes = (\<lambda>_. False)\<rparr>"

lemma content_range_start: "content_range 2 4 = content_range (int i) 4 \<Longrightarrow> i = 2"
proof -
  assume *: "content_range 2 4 = content_range (int i) 4"
  have dash: "takeWhile (\<lambda>c. c \<noteq> CHR ''-'') (FormatUint n @ CHR ''-'' # s) = FormatUint n" for n s
    using FormatUint_digits [of n] by (subst takeWhile_append2) (auto simp: list_all_iff isASCIIDigit_def)
  have "FormatUint i = FormatUint 2" using * dash [of i] dash [of 2] by (simp add: content_range_def FormatInt_def)
  then show ?thesis by (metis decimal_value_FormatUint)
qed

theorem resumed_bytes_are_one_object_witness:
  "\<exists>b b'. fetchArtifact ascii_paths (Inr cut_answer) = Inr b \<and>
     read_all ascii_paths [cut_env, cut_env] b = (''abcd'', Some [io_EOF], b') \<and> ab_attempts b' = 2"
proof -
  let ?obj = "\<lambda>u e :: string. ''abcd''"
  obtain b where b: "fetchArtifact ascii_paths (Inr cut_answer) = Inr b"
    by (simp add: fetchArtifact_def cut_answer_def identityEncoding_def)
  have honest: "honest ?obj cut_answer" "honest ?obj rest_answer"
    using content_range_start by (auto simp: honest_def cut_answer_def rest_answer_def Let_def dest: content_range_start)
  then have env: "env_ok ?obj cut_env" by (auto simp: env_ok_def cut_env_def split: if_splits)
  have "case fetchArtifact ascii_paths (Inr cut_answer) of
      Inr b \<Rightarrow> (case read_all ascii_paths [cut_env, cut_env] b of (_, err, b') \<Rightarrow> err = Some [io_EOF] \<and> ab_attempts b' = 2)"
    by code_simp
  then obtain bytes b' where run: "read_all ascii_paths [cut_env, cut_env] b = (bytes, Some [io_EOF], b')" "ab_attempts b' = 2"
    using b by (auto split: prod.splits)
  have "bytes = ''abcd''"
    using resumed_bytes_are_one_object [OF b _ honest(1) _ run(1)] env by (simp add: cut_answer_def)
  then show ?thesis using b run by auto
qed

end
