(* ===== verification/Upstream_Health.thy ===== *)
theory Upstream_Health
  imports Complex_Main Go_Time
begin

text \<open>
  The health of an upstream, its passive recovery and the selectors (\<open>upstream/pool.go\<close>,
  \<open>selector.go\<close>, \<open>egress_selector.go\<close>, \<open>passive_recovery_selector.go\<close>, \<open>response_body.go\<close>, \<open>health.go\<close>).
  Upstreams are shared by pointer, so they live in a heap. Every operation on one upstream holds
  its mutex and is one step. \<open>float64(successReqs) / float64(totalReqs)\<close> is the exact quotient: for
  fewer than \<open>2 ^ 50\<close> requests the comparison with 0.3 has the same outcome, since a
  quotient above 3/10 exceeds it by at least one tenth of \<open>1 / totalReqs\<close>, which is more than a
  unit in the last place, and rounding is monotone.
\<close>

section \<open>Health\<close>

definition zero_time :: time where
  "zero_time = - 62135596800 * 10 ^ 9"

definition time_IsZero :: "time \<Rightarrow> bool" where
  "time_IsZero t \<longleftrightarrow> t = zero_time"

record passiveRecoveryState =
  pr_reserved :: bool
  pr_inFlight :: bool
  pr_nextAttempt :: time

record healthState =
  hs_healthy :: bool
  hs_criticalFailureLatched :: bool
  hs_avgLatency :: int
  hs_successRate :: rat
  hs_totalReqs :: int
  hs_successReqs :: int
  hs_lastCheckedAt :: time

record Upstream =
  up_ID :: uint
  up_AdapterType :: string
  up_Name :: string
  up_URL :: string
  up_Proxy :: string
  up_Priority :: int
  up_ProbeMode :: string
  up_ProbeInterval :: int
  up_Via :: string
  up_directNetworkGuard :: bool
  up_health :: healthState
  up_recovery :: passiveRecoveryState

record HealthSnapshot =
  sn_Healthy :: bool
  sn_AvgLatency :: int
  sn_SuccessRate :: rat
  sn_LastCheckedAt :: time
  sn_HasObservations :: bool
  sn_RuntimeSampleCount :: int

record ProbeResult =
  pb_Healthy :: bool
  pb_Latency :: int
  pb_CheckedAt :: time

text \<open>The moving average, with the division of Go that rounds towards zero.\<close>

definition tenth :: "int \<Rightarrow> int" where
  "tenth x = (if x < 0 then - (- x div 10) else x div 10)"

definition moving_average :: "int \<Rightarrow> int \<Rightarrow> int" where
  "moving_average avg latency = (if avg = 0 then latency else tenth (wrap64 (wrap64 (avg * 7) + wrap64 (latency * 3))))"

definition health_applyProbe :: "ProbeResult \<Rightarrow> healthState \<Rightarrow> healthState" where
  "health_applyProbe result h =
     (if \<not> time_IsZero (pb_CheckedAt result) \<and> \<not> time_IsZero (hs_lastCheckedAt h) \<and> pb_CheckedAt result < hs_lastCheckedAt h then h
      else
        let total' = wrap64 (hs_totalReqs h + 1);
            success' = (if pb_Healthy result then wrap64 (hs_successReqs h + 1) else hs_successReqs h) in
        h\<lparr>hs_totalReqs := total', hs_successReqs := success',
          hs_successRate := of_int success' / of_int total',
          hs_healthy := (pb_Healthy result \<and> \<not> hs_criticalFailureLatched h),
          hs_lastCheckedAt := pb_CheckedAt result,
          hs_avgLatency := (if pb_Latency result > 0 then moving_average (hs_avgLatency h) (pb_Latency result) else hs_avgLatency h)\<rparr>)"

definition health_report :: "int \<Rightarrow> bool \<Rightarrow> healthState \<Rightarrow> healthState" where
  "health_report latency success h =
     (let total' = wrap64 (hs_totalReqs h + 1);
          success' = (if success then wrap64 (hs_successReqs h + 1) else hs_successReqs h);
          rate = of_int success' / of_int total' in
      h\<lparr>hs_totalReqs := total', hs_successReqs := success', hs_successRate := rate,
        hs_avgLatency := moving_average (hs_avgLatency h) latency,
        hs_healthy := (\<not> hs_criticalFailureLatched h \<and> 3 / 10 < rate)\<rparr>)"

definition on_health :: "(healthState \<Rightarrow> healthState) \<Rightarrow> Upstream \<Rightarrow> Upstream" where
  "on_health f u = u\<lparr>up_health := f (up_health u)\<rparr>"

definition upstream_applyProbe :: "ProbeResult \<Rightarrow> Upstream \<Rightarrow> Upstream" where
  "upstream_applyProbe result u = on_health (health_applyProbe result) u"

definition reportLocked :: "int \<Rightarrow> bool \<Rightarrow> Upstream \<Rightarrow> Upstream" where
  "reportLocked latency success u = on_health (health_report latency success) u"

definition Report :: "int \<Rightarrow> bool \<Rightarrow> Upstream \<Rightarrow> Upstream" where
  "Report latency success u = reportLocked latency success u"

definition ReportCriticalFailure :: "int \<Rightarrow> Upstream \<Rightarrow> Upstream" where
  "ReportCriticalFailure latency u = reportLocked latency False (on_health (\<lambda>h. h\<lparr>hs_criticalFailureLatched := True\<rparr>) u)"

text \<open>\<open>admitExchange\<close> of an upstream that is not nil: whether the exchange is the recovery, or an error.\<close>

definition admitExchange :: "Upstream \<Rightarrow> (gerror + bool) \<times> Upstream" where
  "admitExchange u =
     (if hs_criticalFailureLatched (up_health u)
      then (Inl [ErrMessage ''upstream disabled after critical protocol failure''], u)
      else if pr_reserved (up_recovery u)
      then (Inr True, u\<lparr>up_recovery := (up_recovery u)\<lparr>pr_reserved := False, pr_inFlight := True\<rparr>\<rparr>)
      else (Inr False, u))"

definition finishPassiveRecovery :: "Upstream \<Rightarrow> Upstream" where
  "finishPassiveRecovery u = u\<lparr>up_recovery := (up_recovery u)\<lparr>pr_inFlight := False\<rparr>\<rparr>"

definition upstream_HealthSnapshot :: "Upstream \<Rightarrow> HealthSnapshot" where
  "upstream_HealthSnapshot u =
     (let h = up_health u in
      \<lparr>sn_Healthy = hs_healthy h, sn_AvgLatency = hs_avgLatency h, sn_SuccessRate = hs_successRate h,
       sn_LastCheckedAt = hs_lastCheckedAt h,
       sn_HasObservations = (hs_totalReqs h > 0 \<or> \<not> time_IsZero (hs_lastCheckedAt h)),
       sn_RuntimeSampleCount = hs_totalReqs h\<rparr>)"

definition IsHealthy :: "Upstream \<Rightarrow> bool" where
  "IsHealthy u = sn_Healthy (upstream_HealthSnapshot u)"

definition hasCriticalFailure :: "Upstream \<Rightarrow> bool" where
  "hasCriticalFailure u = hs_criticalFailureLatched (up_health u)"

definition reservePassiveRecovery :: "time \<Rightarrow> int \<Rightarrow> Upstream \<Rightarrow> bool \<times> Upstream" where
  "reservePassiveRecovery now cooldown u =
     (if up_ProbeMode u \<noteq> ''passive'' \<or> hs_healthy (up_health u) \<or> hs_criticalFailureLatched (up_health u) \<or> pr_inFlight (up_recovery u)
      then (False, u)
      else if now < pr_nextAttempt (up_recovery u) then (False, u)
      else (True, u\<lparr>up_recovery := (up_recovery u)\<lparr>pr_reserved := True, pr_nextAttempt := now + cooldown\<rparr>\<rparr>))"

section \<open>The end of an exchange\<close>

text \<open>
  \<open>finishExchange\<close>, and the function \<open>finish\<close> of \<open>observeResponseBody\<close>, which
  \<open>terminalResponseBody\<close> calls once, with the completeness of the body. The report and the end of the
  recovery take their locks one after the other; here they are one step.
\<close>

definition finishExchange :: "int \<Rightarrow> bool \<Rightarrow> bool \<Rightarrow> bool \<Rightarrow> Upstream \<Rightarrow> Upstream" where
  "finishExchange latency reportHealth recovery success u =
     (let u1 = (if reportHealth then Report latency success u else u) in
      if recovery then finishPassiveRecovery u1 else u1)"

record terminalResponseBody =
  tb_expectedLength :: int
  tb_bytesRead :: int
  tb_finished :: "bool list"      \<comment> \<open>the calls of \<open>finish\<close>, the last first\<close>

datatype read_end = ReadGoesOn | ReadEOF | ReadError

definition finishTerminal :: "bool \<Rightarrow> terminalResponseBody \<Rightarrow> terminalResponseBody" where
  "finishTerminal whole b = (if tb_finished b = [] then b\<lparr>tb_finished := [whole]\<rparr> else b)"

text \<open>\<open>Read\<close> of \<open>n\<close> bytes from the body below, and how it is reported to the caller.\<close>

definition terminal_Read :: "nat \<Rightarrow> read_end \<Rightarrow> terminalResponseBody \<Rightarrow> read_end \<times> terminalResponseBody" where
  "terminal_Read n ending b0 =
     (let b = b0\<lparr>tb_bytesRead := tb_bytesRead b0 + int n\<rparr> in
      if 0 \<le> tb_expectedLength b \<and> tb_expectedLength b < tb_bytesRead b
      then (if ending = ReadEOF then ReadEOF else ReadError, finishTerminal False b)
      else case ending of
          ReadGoesOn \<Rightarrow> (ReadGoesOn, b)
        | ReadError \<Rightarrow> (ReadError, finishTerminal False b)
        | ReadEOF \<Rightarrow>
            (let whole = (tb_expectedLength b < 0 \<or> tb_bytesRead b = tb_expectedLength b) in
             (if whole then ReadEOF else ReadError, finishTerminal whole b)))"

definition terminal_Close :: "terminalResponseBody \<Rightarrow> terminalResponseBody" where
  "terminal_Close b = finishTerminal False b"

section \<open>Selection\<close>

type_synonym up_heap = "nat \<Rightarrow> Upstream"

text \<open>\<open>sort.SliceStable\<close> by priority.\<close>

definition orderedUpstreams :: "up_heap \<Rightarrow> nat list \<Rightarrow> nat list" where
  "orderedUpstreams heap pool = sort_key (\<lambda>a. up_Priority (heap a)) pool"

definition selectHealthy :: "up_heap \<Rightarrow> nat list \<Rightarrow> nat option \<Rightarrow> gerror + nat" where
  "selectHealthy heap pool excluded =
     (case find (\<lambda>a. Some a \<noteq> excluded \<and> IsHealthy (heap a)) (orderedUpstreams heap pool) of
        Some a \<Rightarrow> Inr a
      | None \<Rightarrow> Inl [ErrMessage (if excluded \<noteq> None then ''no healthy alternate upstream'' else ''all upstreams are unhealthy'')])"

text \<open>The loop that tries to reserve, which stops at the first upstream that grants it.\<close>

fun reserve_loop :: "time \<Rightarrow> int \<Rightarrow> nat option \<Rightarrow> nat list \<Rightarrow> up_heap \<Rightarrow> nat option \<times> up_heap" where
  "reserve_loop now cooldown excluded [] heap = (None, heap)"
| "reserve_loop now cooldown excluded (a # rest) heap =
     (if Some a = excluded then reserve_loop now cooldown excluded rest heap
      else case reservePassiveRecovery now cooldown (heap a) of
          (True, u) \<Rightarrow> (Some a, heap(a := u))
        | (False, u) \<Rightarrow> reserve_loop now cooldown excluded rest heap)"

definition selectCandidate :: "time \<Rightarrow> int \<Rightarrow> up_heap \<Rightarrow> nat list \<Rightarrow> nat option \<Rightarrow> (gerror + nat) \<times> up_heap" where
  "selectCandidate now cooldown heap pool excluded =
     (case selectHealthy heap pool excluded of
        Inr a \<Rightarrow> (Inr a, heap)
      | Inl e \<Rightarrow>
          (case reserve_loop now cooldown excluded (orderedUpstreams heap pool) heap of
             (Some a, heap') \<Rightarrow> (Inr a, heap')
           | (None, heap') \<Rightarrow> (Inl e, heap')))"

fun egress_loop :: "up_heap \<Rightarrow> nat option \<Rightarrow> nat list \<Rightarrow> nat option" where
  "egress_loop heap selected [] = selected"
| "egress_loop heap selected (a # rest) =
     (if hasCriticalFailure (heap a) then egress_loop heap selected rest
      else case selected of
          None \<Rightarrow> egress_loop heap (Some a) rest
        | Some b \<Rightarrow> egress_loop heap (if up_Priority (heap a) < up_Priority (heap b) then Some a else Some b) rest)"

definition egress_Select :: "up_heap \<Rightarrow> nat list \<Rightarrow> gerror + nat" where
  "egress_Select heap pool =
     (case egress_loop heap None pool of None \<Rightarrow> Inl [ErrMessage ''no egress-capable upstream''] | Some a \<Rightarrow> Inr a)"

section \<open>The restored state\<close>

text \<open>
  \<open>RestoreFromDB\<close> for one upstream, given what its query finds: at most ten entries of the log with
  \<open>healthy = true\<close>, the newest first, as latency in milliseconds and time.
\<close>

definition RestoreFromDB :: "(int \<times> bool \<times> time) list \<Rightarrow> Upstream \<Rightarrow> Upstream" where
  "RestoreFromDB logs u =
     (case logs of
        [] \<Rightarrow> u
      | (_, healthy, created) # _ \<Rightarrow>
          (let sum' = sum_list (map fst logs); n = int (length logs);
               avgMs = (if sum' < 0 then - (- sum' div n) else sum' div n) in
           on_health (\<lambda>h. h\<lparr>hs_avgLatency := wrap64 (avgMs * 1000000), hs_healthy := healthy, hs_lastCheckedAt := created\<rparr>) u))"

section \<open>Exchanges on one upstream\<close>

datatype exchange = NotStarted | InFlight bool bool \<comment> \<open>recovery, reported to the health\<close>

record up_system =
  ux_up :: Upstream
  ux_exchange :: "nat \<Rightarrow> exchange"
  ux_clock :: time
  ux_reserved :: "time list"     \<comment> \<open>when a recovery was reserved, the last first\<close>

datatype up_event =
    Reported int bool | Critical int | Probed ProbeResult | Reserves time
  | Admits nat bool | Finishes nat int bool

fun up_step :: "int \<Rightarrow> up_event \<Rightarrow> up_system \<Rightarrow> up_system option" where
  "up_step cooldown (Reported latency success) s = Some (s\<lparr>ux_up := Report latency success (ux_up s)\<rparr>)"
| "up_step cooldown (Critical latency) s = Some (s\<lparr>ux_up := ReportCriticalFailure latency (ux_up s)\<rparr>)"
| "up_step cooldown (Probed result) s = Some (s\<lparr>ux_up := upstream_applyProbe result (ux_up s)\<rparr>)"
| "up_step cooldown (Reserves now) s =
     (if now < ux_clock s then None
      else case reservePassiveRecovery now cooldown (ux_up s) of (ok, u) \<Rightarrow>
        Some (s\<lparr>ux_up := u, ux_clock := now, ux_reserved := (if ok then now # ux_reserved s else ux_reserved s)\<rparr>))"
| "up_step cooldown (Admits t report) s =
     (if ux_exchange s t \<noteq> NotStarted then None
      else case admitExchange (ux_up s) of
          (Inl e, u) \<Rightarrow> Some s
        | (Inr recovery, u) \<Rightarrow> Some (s\<lparr>ux_up := u, ux_exchange := (ux_exchange s)(t := InFlight recovery report)\<rparr>))"
| "up_step cooldown (Finishes t latency success) s =
     (case ux_exchange s t of
        NotStarted \<Rightarrow> None
      | InFlight recovery report \<Rightarrow>
          Some (s\<lparr>ux_up := finishExchange latency report recovery success (ux_up s),
                  ux_exchange := (ux_exchange s)(t := NotStarted)\<rparr>))"

inductive up_reach :: "int \<Rightarrow> up_system \<Rightarrow> up_system \<Rightarrow> bool" for cooldown s0 where
  start: "up_reach cooldown s0 s0"
| step: "up_reach cooldown s0 s \<Longrightarrow> up_step cooldown ev s = Some s' \<Longrightarrow> up_reach cooldown s0 s'"

section \<open>A critical failure is final\<close>

lemma health_defs: "hs_criticalFailureLatched (health_report latency success h) = hs_criticalFailureLatched h"
  "hs_criticalFailureLatched (health_applyProbe result h) = hs_criticalFailureLatched h"
  "hs_criticalFailureLatched h \<Longrightarrow> \<not> hs_healthy (health_report latency success h)"
  "hs_criticalFailureLatched h \<Longrightarrow> \<not> hs_healthy h \<Longrightarrow> \<not> hs_healthy (health_applyProbe result h)"
  by (simp_all add: health_report_def health_applyProbe_def Let_def)

lemmas up_defs = Report_def reportLocked_def ReportCriticalFailure_def upstream_applyProbe_def on_health_def
  finishExchange_def finishPassiveRecovery_def

lemma IsHealthy_health [simp]: "IsHealthy u = hs_healthy (up_health u)"
  by (simp add: IsHealthy_def upstream_HealthSnapshot_def Let_def)

definition disabled :: "Upstream \<Rightarrow> bool" where
  "disabled u \<longleftrightarrow> hasCriticalFailure u \<and> \<not> IsHealthy u"

lemma disabled_ops:
  "disabled (ReportCriticalFailure latency u)"
  "disabled u \<Longrightarrow> disabled (Report latency success u)"
  "disabled u \<Longrightarrow> disabled (upstream_applyProbe result u)"
  "disabled u \<Longrightarrow> disabled (finishExchange latency report recovery success u)"
  "disabled u \<Longrightarrow> reservePassiveRecovery now cooldown u = (False, u)"
  "disabled u \<Longrightarrow> \<exists>e. admitExchange u = (Inl e, u)"
  by (simp_all add: disabled_def hasCriticalFailure_def up_defs health_defs reservePassiveRecovery_def admitExchange_def Let_def)

lemma up_reach_disabled:
  assumes "up_reach cooldown s0 s" and "disabled (ux_up s0)"
  shows "disabled (ux_up s)"
  using assms
proof (induction rule: up_reach.induct)
  case (step s ev s')
  then obtain e where "admitExchange (ux_up s) = (Inl e, ux_up s)" using disabled_ops(6) by blast
  then show ?case using step by (cases ev) (auto simp: disabled_ops split: if_splits exchange.splits)
qed

lemma find_Some_mem: "find P xs = Some x \<Longrightarrow> P x \<and> x \<in> set xs"
  by (induction xs) (auto split: if_splits)

lemma reserve_loop_Some:
  "reserve_loop now cooldown excluded as heap = (Some a, heap') \<Longrightarrow> fst (reservePassiveRecovery now cooldown (heap a)) \<and> a \<in> set as"
  by (induction now cooldown excluded as heap rule: reserve_loop.induct) (auto split: if_splits prod.splits bool.splits)

lemma egress_loop_Some:
  "egress_loop heap selected as = Some a \<Longrightarrow> selected = Some a \<or> a \<in> set as \<and> \<not> hasCriticalFailure (heap a)"
  by (induction heap selected as rule: egress_loop.induct) (auto split: if_splits option.splits)

text \<open>
  C17: A critical failure is final for the runtime object. After \<open>ReportCriticalFailure\<close>, whatever
  exchanges, reports, probes and recoveries follow in any order, the upstream is never healthy
  again, admits no exchange and grants no recovery; and no selector returns it, whatever the rest
  of the pool is.
\<close>

theorem critical_failure_is_final:
  assumes "up_reach cooldown s0 s" and "ux_up s0 = ReportCriticalFailure latency u" and "heap a = ux_up s"
  shows "\<not> IsHealthy (heap a) \<and> (\<exists>e. admitExchange (heap a) = (Inl e, heap a)) \<and>
    fst (reservePassiveRecovery now cooldown (heap a)) = False \<and>
    selectHealthy heap pool excluded \<noteq> Inr a \<and> fst (selectCandidate now cooldown heap pool excluded) \<noteq> Inr a \<and>
    egress_Select heap pool \<noteq> Inr a"
proof -
  have d: "disabled (heap a)" using up_reach_disabled [OF assms(1)] assms(2,3) disabled_ops(1) by simp
  have h: "selectHealthy heap pool excluded \<noteq> Inr a"
    using d by (auto simp: selectHealthy_def disabled_def dest!: find_Some_mem split: option.splits)
  have "fst (selectCandidate now cooldown heap pool excluded) \<noteq> Inr a"
    using h reserve_loop_Some disabled_ops(5) [OF d]
    by (fastforce simp: selectCandidate_def split: sum.splits prod.splits option.splits)
  moreover have "egress_Select heap pool \<noteq> Inr a"
    using d egress_loop_Some [of heap None pool a] by (auto simp: egress_Select_def disabled_def split: option.splits)
  ultimately show ?thesis using d h disabled_ops(5,6) [OF d] by (simp add: disabled_def)
qed

definition sample_up :: "int \<Rightarrow> string \<Rightarrow> Upstream" where
  "sample_up priority mode = \<lparr>up_ID = 1, up_AdapterType = ''pypi'', up_Name = ''main'', up_URL = ''https://repo.example'', up_Proxy = [],
     up_Priority = priority, up_ProbeMode = mode, up_ProbeInterval = 1800000000000, up_Via = [], up_directNetworkGuard = True,
     up_health = \<lparr>hs_healthy = True, hs_criticalFailureLatched = False, hs_avgLatency = 0, hs_successRate = 1, hs_totalReqs = 0,
       hs_successReqs = 0, hs_lastCheckedAt = zero_time\<rparr>,
     up_recovery = \<lparr>pr_reserved = False, pr_inFlight = False, pr_nextAttempt = zero_time\<rparr>\<rparr>"

definition sample_system :: "Upstream \<Rightarrow> up_system" where
  "sample_system u = \<lparr>ux_up = u, ux_exchange = (\<lambda>_. NotStarted), ux_clock = 0, ux_reserved = []\<rparr>"

theorem critical_failure_is_final_witness:
  "let u = Report 5 True (ReportCriticalFailure 7 (sample_up 1 ''passive'')) in
   \<not> IsHealthy u \<and> selectHealthy (\<lambda>_. u) [0] None \<noteq> Inr 0"
proof -
  let ?s = "sample_system (ReportCriticalFailure 7 (sample_up 1 ''passive''))"
  let ?s' = "?s\<lparr>ux_up := Report 5 True (ux_up ?s)\<rparr>"
  have "up_reach 60 ?s ?s'" by (rule up_reach.step [OF up_reach.start, where ev = "Reported 5 True"]) simp
  from critical_failure_is_final [OF this, of 7 "sample_up 1 ''passive''" "\<lambda>_. ux_up ?s'" 0 0 "[0]" None] show ?thesis
    by (simp add: sample_system_def Let_def)
qed

section \<open>One recovery at a time\<close>

definition recovering :: "up_system \<Rightarrow> nat \<Rightarrow> bool" where
  "recovering s t \<longleftrightarrow> (\<exists>report. ux_exchange s t = InFlight True report)"

lemma recovering_frame: "recovering (s\<lparr>ux_up := u\<rparr>) = recovering s"
  by (simp add: recovering_def fun_eq_iff)

definition recovery_inv :: "int \<Rightarrow> up_system \<Rightarrow> bool" where
  "recovery_inv cooldown s \<longleftrightarrow>
     (pr_inFlight (up_recovery (ux_up s)) \<longrightarrow> \<not> pr_reserved (up_recovery (ux_up s)) \<and> (\<exists>!t. recovering s t)) \<and>
     (\<not> pr_inFlight (up_recovery (ux_up s)) \<longrightarrow> (\<forall>t. \<not> recovering s t)) \<and>
     sorted_wrt (\<lambda>later earlier. earlier + cooldown \<le> later) (ux_reserved s) \<and>
     (\<forall>r \<in> set (ux_reserved s). r + cooldown \<le> pr_nextAttempt (up_recovery (ux_up s)))"

lemma recovery_frame [simp]:
  "up_recovery (Report latency success u) = up_recovery u" "up_recovery (ReportCriticalFailure latency u) = up_recovery u"
  "up_recovery (upstream_applyProbe result u) = up_recovery u"
  by (simp_all add: up_defs)

lemma up_step_recovery:
  assumes "up_step cooldown ev s = Some s'" and "recovery_inv cooldown s" and "0 \<le> cooldown"
  shows "recovery_inv cooldown s'"
proof (cases ev)
  case (Reserves now)
  obtain ok u where res: "reservePassiveRecovery now cooldown (ux_up s) = (ok, u)" by fastforce
  then have s': "s' = s\<lparr>ux_up := u, ux_clock := now, ux_reserved := (if ok then now # ux_reserved s else ux_reserved s)\<rparr>"
    using assms(1) Reserves by (simp split: if_splits)
  have eq: "recovering s' = recovering s" by (simp add: s' recovering_def fun_eq_iff)
  show ?thesis
  proof (cases ok)
    case True
    then have u: "\<not> pr_inFlight (up_recovery (ux_up s))" "pr_nextAttempt (up_recovery (ux_up s)) \<le> now"
      "u = ux_up s\<lparr>up_recovery := up_recovery (ux_up s)\<lparr>pr_reserved := True, pr_nextAttempt := now + cooldown\<rparr>\<rparr>"
      using res by (auto simp: reservePassiveRecovery_def split: if_splits)
    then show ?thesis using assms(2,3) True unfolding recovery_inv_def eq by (auto simp: s')
  next
    case False
    then have "u = ux_up s" using res by (auto simp: reservePassiveRecovery_def split: if_splits)
    then show ?thesis using assms(2) False unfolding recovery_inv_def eq by (simp add: s')
  qed
next
  case (Admits t report)
  then have idle: "ux_exchange s t = NotStarted" using assms(1) by (auto split: if_splits)
  then have none: "\<not> recovering s t" by (simp add: recovering_def)
  show ?thesis
  proof (cases "hs_criticalFailureLatched (up_health (ux_up s))")
    case True
    then show ?thesis using assms(1,2) Admits idle by (simp add: admitExchange_def)
  next
    case False
    define r where "r = pr_reserved (up_recovery (ux_up s))"
    have ex: "ux_exchange s' = (ux_exchange s)(t := InFlight r report)" and rs: "ux_reserved s' = ux_reserved s"
      and rec: "up_recovery (ux_up s') = (if r then (up_recovery (ux_up s))\<lparr>pr_reserved := False, pr_inFlight := True\<rparr> else up_recovery (ux_up s))"
      using assms(1) Admits idle False by (auto simp: admitExchange_def r_def split: if_splits)
    have eq: "recovering s' t' \<longleftrightarrow> (if t' = t then r else recovering s t')" for t' by (simp add: recovering_def ex)
    show ?thesis
    proof (cases r)
      case True
      then show ?thesis using assms(2) none rec rs unfolding recovery_inv_def r_def by (auto simp: eq r_def split: if_splits)
    next
      case False
      then have "recovering s' = recovering s" using none by (auto simp: eq fun_eq_iff)
      then show ?thesis using assms(2) False rec rs unfolding recovery_inv_def by simp
    qed
  qed
next
  case (Finishes t latency success)
  then obtain recovery report where f: "ux_exchange s t = InFlight recovery report"
      "s' = s\<lparr>ux_up := finishExchange latency report recovery success (ux_up s), ux_exchange := (ux_exchange s)(t := NotStarted)\<rparr>"
    using assms(1) by (auto split: exchange.splits)
  have eq: "recovering s' t' \<longleftrightarrow> t' \<noteq> t \<and> recovering s t'" for t' by (simp add: f recovering_def)
  have t: "recovering s t \<longleftrightarrow> recovery" using f(1) by (simp add: recovering_def)
  show ?thesis
  proof (cases recovery)
    case True
    then show ?thesis using assms(2) t eq unfolding recovery_inv_def
      by (auto simp: f finishExchange_def finishPassiveRecovery_def Let_def)
  next
    case False
    have "recovering s' = recovering s" using eq t False by (auto simp: fun_eq_iff)
    then show ?thesis using assms(2) False unfolding recovery_inv_def by (simp add: f finishExchange_def)
  qed
qed (use assms in \<open>auto simp add: recovery_inv_def recovering_frame simp del: split_paired_Ex\<close>)

text \<open>
  C20: The half-open state admits one recovery at a time. From an upstream without a recovery, under
  every interleaving of reservations, exchanges, reports and probes: at most one exchange in flight
  is the recovery, the flag is set exactly while there is one, and two reservations are at
  least the cooldown apart.
\<close>

theorem one_recovery_at_a_time:
  assumes "up_reach cooldown s0 s" and "0 \<le> cooldown" and "ux_reserved s0 = []" and "\<forall>t. ux_exchange s0 t = NotStarted"
    and "\<not> pr_inFlight (up_recovery (ux_up s0))"
  shows "(pr_inFlight (up_recovery (ux_up s)) \<longleftrightarrow> (\<exists>t report. ux_exchange s t = InFlight True report)) \<and>
    (\<forall>t t' r r'. ux_exchange s t = InFlight True r \<and> ux_exchange s t' = InFlight True r' \<longrightarrow> t = t') \<and>
    sorted_wrt (\<lambda>later earlier. earlier + cooldown \<le> later) (ux_reserved s)"
proof -
  have "recovery_inv cooldown s"
    using assms(1)
  proof (induction rule: up_reach.induct)
    case start
    then show ?case using assms(3-5) by (simp add: recovery_inv_def recovering_def)
  qed (use up_step_recovery assms(2) in blast)
  then show ?thesis unfolding recovery_inv_def recovering_def by blast
qed

theorem one_recovery_at_a_time_witness:
  "\<exists>s. up_reach 60 (sample_system (Report 1 False (sample_up 1 ''passive''))) s \<and>
     pr_inFlight (up_recovery (ux_up s)) \<and> ux_reserved s = [5] \<and> ux_exchange s 3 = InFlight True True \<and>
     (\<forall>t r. ux_exchange s t = InFlight True r \<longrightarrow> t = 3)"
proof -
  let ?s0 = "sample_system (Report 1 False (sample_up 1 ''passive''))"
  obtain s1 where s1: "up_step 60 (Reserves 5) ?s0 = Some s1" and e1: "ux_exchange s1 = (\<lambda>_. NotStarted)" "ux_reserved s1 = [5]"
      "pr_reserved (up_recovery (ux_up s1))" "\<not> hs_criticalFailureLatched (up_health (ux_up s1))"
    by (simp add: sample_system_def sample_up_def reservePassiveRecovery_def zero_time_def up_defs health_report_def Let_def)
  obtain s2 where s2: "up_step 60 (Admits 3 True) s1 = Some s2"
      and e2: "ux_exchange s2 3 = InFlight True True" "pr_inFlight (up_recovery (ux_up s2))" "ux_reserved s2 = [5]"
    using e1 by (simp add: admitExchange_def)
  have r: "up_reach 60 ?s0 s2" using up_reach.step [OF up_reach.step [OF up_reach.start s1] s2] .
  have "\<forall>t t' r r'. ux_exchange s2 t = InFlight True r \<and> ux_exchange s2 t' = InFlight True r' \<longrightarrow> t = t'"
    using one_recovery_at_a_time [OF r] by (simp add: sample_system_def sample_up_def)
  then show ?thesis using r e2 by blast
qed

section \<open>Probes in any order\<close>

lemma applyProbe_last:
  "hs_lastCheckedAt (health_applyProbe p h) =
     (if \<not> time_IsZero (pb_CheckedAt p) \<and> \<not> time_IsZero (hs_lastCheckedAt h) \<and> pb_CheckedAt p < hs_lastCheckedAt h
      then hs_lastCheckedAt h else pb_CheckedAt p)"
  by (simp add: health_applyProbe_def Let_def)

lemma applyProbe_latch: "hs_criticalFailureLatched (health_applyProbe p h) = hs_criticalFailureLatched h"
  by (simp add: health_applyProbe_def Let_def)

lemma probes_last:
  "hs_lastCheckedAt (fold health_applyProbe ps h) \<in> insert (hs_lastCheckedAt h) (pb_CheckedAt ` set ps)"
proof (induction ps arbitrary: h)
  case (Cons p ps)
  then show ?case using Cons.IH [of "health_applyProbe p h"] by (auto simp: applyProbe_last split: if_splits)
qed simp

lemma probes_latch: "hs_criticalFailureLatched (fold health_applyProbe ps h) = hs_criticalFailureLatched h"
  by (induction ps arbitrary: h) (simp_all add: applyProbe_latch)

lemma older_probes_ignored:
  "\<forall>p \<in> set ps. \<not> time_IsZero (pb_CheckedAt p) \<and> pb_CheckedAt p < hs_lastCheckedAt h \<Longrightarrow> \<not> time_IsZero (hs_lastCheckedAt h) \<Longrightarrow>
     fold health_applyProbe ps h = h"
  by (induction ps) (simp_all add: health_applyProbe_def)

text \<open>
  The newest probe decides. Whatever the order in which the results of overlapping probes arrive,
  the health they leave is that of the newest one, unless a critical failure is latched, and its time
  is recorded as the last check.
\<close>

theorem newest_probe_decides:
  assumes "newest \<in> set probes" and "\<forall>p \<in> set probes. \<not> time_IsZero (pb_CheckedAt p) \<and> (p \<noteq> newest \<longrightarrow> pb_CheckedAt p < pb_CheckedAt newest)"
    and "distinct probes" and "time_IsZero (hs_lastCheckedAt h) \<or> hs_lastCheckedAt h \<le> pb_CheckedAt newest"
  shows "hs_healthy (fold health_applyProbe probes h) = (pb_Healthy newest \<and> \<not> hs_criticalFailureLatched h) \<and>
    hs_lastCheckedAt (fold health_applyProbe probes h) = pb_CheckedAt newest"
proof -
  obtain xs ys where ps: "probes = xs @ newest # ys" using split_list [OF assms(1)] by blast
  define h1 where "h1 = fold health_applyProbe xs h"
  define h2 where "h2 = health_applyProbe newest h1"
  have xs: "\<forall>p \<in> set xs. pb_CheckedAt p < pb_CheckedAt newest" and ys: "\<forall>p \<in> set ys. pb_CheckedAt p < pb_CheckedAt newest"
    using assms(2,3) unfolding ps by auto
  have "time_IsZero (hs_lastCheckedAt h1) \<or> hs_lastCheckedAt h1 \<le> pb_CheckedAt newest"
    using probes_last [of xs h] xs assms(4) unfolding h1_def by auto
  then have h2: "hs_healthy h2 = (pb_Healthy newest \<and> \<not> hs_criticalFailureLatched h1)" "hs_lastCheckedAt h2 = pb_CheckedAt newest"
    by (auto simp: h2_def health_applyProbe_def Let_def)
  have "fold health_applyProbe ys h2 = h2" by (rule older_probes_ignored) (use assms(1,2) ys h2 in \<open>auto simp: ps\<close>)
  then show ?thesis using h2 probes_latch [of xs h] by (simp add: ps h1_def h2_def)
qed

theorem newest_probe_decides_witness:
  "let up = \<lparr>pb_Healthy = True, pb_Latency = 5, pb_CheckedAt = 20\<rparr>; down = \<lparr>pb_Healthy = False, pb_Latency = 9, pb_CheckedAt = 10\<rparr>;
       h = \<lparr>hs_healthy = False, hs_criticalFailureLatched = False, hs_avgLatency = 0, hs_successRate = 0, hs_totalReqs = 0,
            hs_successReqs = 0, hs_lastCheckedAt = zero_time\<rparr> in
   hs_healthy (fold health_applyProbe [up, down] h) \<and> hs_healthy (fold health_applyProbe [down, up] h)"
  unfolding Let_def
  by (intro conjI; subst conjunct1 [OF newest_probe_decides [where newest = "\<lparr>pb_Healthy = True, pb_Latency = 5, pb_CheckedAt = 20\<rparr>"]])
     (simp_all add: time_IsZero_def zero_time_def)

section \<open>What a recovery costs\<close>

definition after_reports :: "bool list \<Rightarrow> healthState \<Rightarrow> healthState" where
  "after_reports outcomes h = fold (health_report 1) outcomes h"

lemma health_report_counts:
  assumes "0 \<le> hs_totalReqs h" "hs_totalReqs h + 1 < 2 ^ 63" "0 \<le> hs_successReqs h" "hs_successReqs h \<le> hs_totalReqs h"
  shows "hs_totalReqs (health_report l ok h) = hs_totalReqs h + 1"
    "hs_successReqs (health_report l ok h) = hs_successReqs h + of_bool ok"
    "hs_healthy (health_report l ok h) \<longleftrightarrow>
       \<not> hs_criticalFailureLatched h \<and> 3 * (hs_totalReqs h + 1) < 10 * (hs_successReqs h + of_bool ok)"
proof -
  have w: "wrap64 (hs_totalReqs h + 1) = hs_totalReqs h + 1" "wrap64 (hs_successReqs h + 1) = hs_successReqs h + 1"
    using assms by (simp_all add: wrap64_id)
  show "hs_totalReqs (health_report l ok h) = hs_totalReqs h + 1"
    "hs_successReqs (health_report l ok h) = hs_successReqs h + of_bool ok"
    by (simp_all add: health_report_def Let_def w)
  have rate: "3 / 10 < (of_int a / of_int b :: rat) \<longleftrightarrow> 3 * b < 10 * a" if "0 < b" for a b :: int
  proof -
    have "3 / 10 < (of_int a / of_int b :: rat) \<longleftrightarrow> 3 * of_int b < (10 * of_int a :: rat)"
      using that by (simp add: divide_simps mult.commute)
    also have "\<dots> \<longleftrightarrow> 3 * b < 10 * a" using of_int_less_iff [of "3 * b" "10 * a", where ?'a = rat] by simp
    finally show ?thesis .
  qed
  show "hs_healthy (health_report l ok h) \<longleftrightarrow>
       \<not> hs_criticalFailureLatched h \<and> 3 * (hs_totalReqs h + 1) < 10 * (hs_successReqs h + of_bool ok)"
    using rate [of "hs_totalReqs h + 1" "hs_successReqs h + of_bool ok"] assms(1)
    by (cases ok) (simp_all add: health_report_def Let_def w)
qed

lemma after_reports_counts:
  assumes "0 \<le> hs_totalReqs h" "hs_totalReqs h + int (length outcomes) < 2 ^ 63" "0 \<le> hs_successReqs h" "hs_successReqs h \<le> hs_totalReqs h"
  shows "hs_totalReqs (after_reports outcomes h) = hs_totalReqs h + int (length outcomes) \<and>
    hs_successReqs (after_reports outcomes h) = hs_successReqs h + int (length (filter id outcomes)) \<and>
    hs_criticalFailureLatched (after_reports outcomes h) = hs_criticalFailureLatched h"
  using assms
proof (induction outcomes arbitrary: h)
  case (Cons ok outcomes)
  define h' where "h' = health_report 1 ok h"
  have step: "hs_totalReqs h' = hs_totalReqs h + 1" "hs_successReqs h' = hs_successReqs h + of_bool ok"
    using health_report_counts [of h 1 ok] Cons.prems by (simp_all add: h'_def)
  have latch: "hs_criticalFailureLatched h' = hs_criticalFailureLatched h" by (simp add: h'_def health_report_def Let_def)
  have eq: "after_reports (ok # outcomes) h = after_reports outcomes h'" by (simp add: after_reports_def h'_def)
  show ?case using Cons.IH [of h'] Cons.prems unfolding eq by (cases ok) (simp_all add: step latch)
qed (simp add: after_reports_def)

text \<open>
  C34: How long a passive upstream stays unselected after an outage. The success rate counts all
  exchanges since the start; with \<open>s\<close> successes of \<open>t\<close> exchanges before, after \<open>n\<close> failed recovery
  attempts the upstream is healthy again only when the number \<open>k\<close> of successful ones exceeds
  \<open>(3 (t + n) - 10 s) / 7\<close>. As the cooldown admits one attempt per minute, an outage of a day
  keeps an upstream with 300 successes of 1000 exchanges out of the selection for more than ten hours
  after it answers again. The rate is the exact quotient, which compares with the threshold like
  the floating-point one of the code for fewer than \<open>2 ^ 50\<close> exchanges.
\<close>

theorem recovery_cost:
  assumes "0 \<le> hs_successReqs h" and "hs_successReqs h \<le> hs_totalReqs h" and "hs_totalReqs h + int n + int k < 2 ^ 63" and "0 < k"
  shows "hs_healthy (after_reports (replicate n False @ replicate k True) h) \<longleftrightarrow>
    \<not> hs_criticalFailureLatched h \<and> 3 * (hs_totalReqs h + int n) - 10 * hs_successReqs h < 7 * int k"
proof -
  obtain k' where k: "k = Suc k'" using assms(4) by (cases k) auto
  define before where "before = replicate n False @ replicate k' True"
  have app: "replicate n False @ replicate k True = before @ [True]" by (simp add: before_def k replicate_append_same)
  have counts: "hs_totalReqs (after_reports before h) = hs_totalReqs h + int (n + k')"
    "hs_successReqs (after_reports before h) = hs_successReqs h + int k'"
    "hs_criticalFailureLatched (after_reports before h) = hs_criticalFailureLatched h"
    using after_reports_counts [of h before] assms k by (simp_all add: before_def)
  have "hs_healthy (after_reports (replicate n False @ replicate k True) h) = hs_healthy (health_report 1 True (after_reports before h))"
    unfolding app by (simp add: after_reports_def)
  also have "\<dots> \<longleftrightarrow> \<not> hs_criticalFailureLatched h \<and> 3 * (hs_totalReqs h + int (n + k') + 1) < 10 * (hs_successReqs h + int k' + 1)"
    using health_report_counts(3) [of "after_reports before h" 1 True] assms k by (simp add: counts)
  also have "\<dots> \<longleftrightarrow> \<not> hs_criticalFailureLatched h \<and> 3 * (hs_totalReqs h + int n) - 10 * hs_successReqs h < 7 * int k"
    using k by auto
  finally show ?thesis .
qed

theorem recovery_cost_witness:
  "let h = \<lparr>hs_healthy = False, hs_criticalFailureLatched = False, hs_avgLatency = 1, hs_successRate = 3 / 10, hs_totalReqs = 1000,
            hs_successReqs = 300, hs_lastCheckedAt = zero_time\<rparr> in
   \<not> hs_healthy (after_reports (replicate 1440 False @ replicate 617 True) h) \<and>
   hs_healthy (after_reports (replicate 1440 False @ replicate 618 True) h)"
  unfolding Let_def by (intro conjI; subst recovery_cost) simp_all

section \<open>The order of selection\<close>

text \<open>The best candidate of a pool: the first one in the order of the pool among those of the least priority.\<close>

definition best_in :: "up_heap \<Rightarrow> (nat \<Rightarrow> bool) \<Rightarrow> nat list \<Rightarrow> nat \<Rightarrow> bool" where
  "best_in heap ok pool a \<longleftrightarrow>
     (\<exists>before after. pool = before @ a # after \<and> ok a \<and>
        (\<forall>b \<in> set before. ok b \<longrightarrow> up_Priority (heap a) < up_Priority (heap b)) \<and>
        (\<forall>b \<in> set after. ok b \<longrightarrow> up_Priority (heap a) \<le> up_Priority (heap b)))"

lemma find_insort:
  assumes "sorted (map f xs)"
  shows "find P (insort_key f a xs) =
    (if P a then (case find P xs of Some b \<Rightarrow> if f b < f a then Some b else Some a | None \<Rightarrow> Some a) else find P xs)"
  using assms
proof (induction xs)
  case (Cons x xs)
  show ?case
  proof (cases "f a \<le> f x")
    case True
    have "f a \<le> f b" if "find P (x # xs) = Some b" for b
    proof -
      have "b \<in> set (x # xs)" using that by (metis find_Some_iff nth_mem)
      then show ?thesis using True Cons.prems by auto
    qed
    then show ?thesis using True by (auto split: option.splits simp: leD)
  next
    case False
    then show ?thesis using Cons by (auto split: option.splits)
  qed
qed simp

lemma find_sort_key_best:
  "find P (sort_key f xs) = Some a \<Longrightarrow>
     \<exists>before after. xs = before @ a # after \<and> P a \<and> (\<forall>b \<in> set before. P b \<longrightarrow> f a < f b) \<and> (\<forall>b \<in> set after. P b \<longrightarrow> f a \<le> f b)"
proof (induction xs arbitrary: a)
  case (Cons x xs)
  have srt: "sorted (map f (sort_key f xs))" by simp
  have none: "find P (sort_key f xs) = None \<longleftrightarrow> (\<forall>b \<in> set xs. \<not> P b)" by (auto simp: find_None_iff)
  show ?case
  proof (cases "find P (sort_key f xs)")
    case None
    then show ?thesis using Cons.prems none by (intro exI [of _ "[]"] exI [of _ xs]) (auto simp: find_insort [OF srt] split: if_splits)
  next
    case (Some b)
    from Cons.IH [OF Some] obtain before after where b: "xs = before @ b # after" "P b"
      "\<forall>c \<in> set before. P c \<longrightarrow> f b < f c" "\<forall>c \<in> set after. P c \<longrightarrow> f b \<le> f c" by blast
    show ?thesis
    proof (cases "P x \<and> f x \<le> f b")
      case True
      then have "a = x" using Cons.prems Some by (auto simp: find_insort [OF srt] split: if_splits)
      then show ?thesis using True b by (intro exI [of _ "[]"] exI [of _ xs]) auto
    next
      case False
      then have "a = b" using Cons.prems Some by (auto simp: find_insort [OF srt] split: if_splits)
      then show ?thesis using False b by (intro exI [of _ "x # before"] exI [of _ after]) auto
    qed
  qed
qed simp

lemma egress_loop_find:
  "egress_loop heap selected pool =
     (case selected of
        None \<Rightarrow> find (\<lambda>a. \<not> hasCriticalFailure (heap a)) (orderedUpstreams heap pool)
      | Some b \<Rightarrow>
          (case find (\<lambda>a. \<not> hasCriticalFailure (heap a)) (orderedUpstreams heap pool) of
             Some a \<Rightarrow> if up_Priority (heap a) < up_Priority (heap b) then Some a else Some b
           | None \<Rightarrow> Some b))"
proof (induction pool arbitrary: selected)
  case (Cons x pool)
  have srt: "sorted (map (\<lambda>a. up_Priority (heap a)) (sort_key (\<lambda>a. up_Priority (heap a)) pool))" by simp
  show ?case
    by (cases selected; cases "hasCriticalFailure (heap x)")
       (auto simp: Cons.IH orderedUpstreams_def find_insort [OF srt] split: option.splits)
qed (auto simp: orderedUpstreams_def split: option.splits)

text \<open>
  C33: Selection follows the configured priorities. \<open>PrioritySelector\<close> returns the healthy upstream,
  other than the excluded one, that comes first among those of the least priority number, and an
  error exactly when there is none; the single pass of \<open>EgressSelector\<close> returns what sorting the
  pool stably and taking the first upstream without a critical failure would return.
\<close>

theorem selection_follows_priority:
  "(\<forall>a. selectHealthy heap pool excluded = Inr a \<longrightarrow> best_in heap (\<lambda>b. Some b \<noteq> excluded \<and> IsHealthy (heap b)) pool a) \<and>
   ((\<exists>e. selectHealthy heap pool excluded = Inl e) \<longleftrightarrow> (\<forall>b \<in> set pool. Some b = excluded \<or> \<not> IsHealthy (heap b))) \<and>
   egress_loop heap None pool = find (\<lambda>a. \<not> hasCriticalFailure (heap a)) (orderedUpstreams heap pool)"
proof (intro conjI allI impI)
  fix a
  assume "selectHealthy heap pool excluded = Inr a"
  then have "find (\<lambda>b. Some b \<noteq> excluded \<and> IsHealthy (heap b)) (sort_key (\<lambda>a. up_Priority (heap a)) pool) = Some a"
    by (auto simp: selectHealthy_def orderedUpstreams_def split: option.splits)
  from find_sort_key_best [OF this] show "best_in heap (\<lambda>b. Some b \<noteq> excluded \<and> IsHealthy (heap b)) pool a"
    unfolding best_in_def .
next
  show "(\<exists>e. selectHealthy heap pool excluded = Inl e) \<longleftrightarrow> (\<forall>b \<in> set pool. Some b = excluded \<or> \<not> IsHealthy (heap b))"
  proof -
    let ?P = "\<lambda>b. Some b \<noteq> excluded \<and> IsHealthy (heap b)"
    have "(\<exists>e. selectHealthy heap pool excluded = Inl e) \<longleftrightarrow> find ?P (orderedUpstreams heap pool) = None"
      by (auto simp: selectHealthy_def split: option.split)
    also have "\<dots> \<longleftrightarrow> (\<forall>b \<in> set pool. \<not> ?P b)" unfolding find_None_iff orderedUpstreams_def by auto
    finally show ?thesis by auto
  qed
qed (simp add: egress_loop_find)

theorem selection_follows_priority_witness:
  "(let heap = (\<lambda>a. (sample_up 5 ''active'')\<lparr>up_Priority := int a + 1, up_health := (up_health (sample_up 5 ''active''))\<lparr>hs_healthy := 0 < a\<rparr>\<rparr>) in
    selectHealthy heap [2, 0, 1] None = Inr 1 \<and>
    best_in heap (\<lambda>b. Some b \<noteq> None \<and> IsHealthy (heap b)) [2, 0, 1] 1)"
proof -
  define heap where "heap = (\<lambda>a :: nat. (sample_up 5 ''active'')\<lparr>up_Priority := int a + 1,
    up_health := (up_health (sample_up 5 ''active''))\<lparr>hs_healthy := 0 < a\<rparr>\<rparr>)"
  have s: "selectHealthy heap [2, 0, 1] None = Inr 1"
    by (simp add: heap_def selectHealthy_def orderedUpstreams_def IsHealthy_def upstream_HealthSnapshot_def Let_def)
  have "best_in heap (\<lambda>b. Some b \<noteq> None \<and> IsHealthy (heap b)) [2, 0, 1] 1"
    using selection_follows_priority [of heap "[2, 0, 1]" None] s by blast
  with s show ?thesis unfolding Let_def heap_def by blast
qed

end
