(* ===== verification/Go_Net.thy ===== *)
theory Go_Net
  imports Go_Http Go_Strconv "HOL-Library.Word"
begin

text \<open>
  The part of \<open>net\<close>, \<open>net/netip\<close> and \<open>net/url\<close> that the network guard uses: host and port of an
  address, the textual forms of IP addresses, the address classes and prefixes. An address is the
  list of its octets, four or sixteen of them; the empty list is a nil \<open>net.IP\<close>.
\<close>

unbundle bit_operations_syntax

type_synonym net_IP = "8 word list"

subsection \<open>Host and port\<close>

text \<open>\<open>url.URL.Hostname\<close> and \<open>Port\<close> of the field \<open>Host\<close>.\<close>

definition validOptionalPort :: "string \<Rightarrow> bool" where
  "validOptionalPort port \<longleftrightarrow> port = [] \<or> hd port = CHR '':'' \<and> list_all isASCIIDigit (tl port)"

definition strip_brackets :: "string \<Rightarrow> string" where
  "strip_brackets host = (if HasPrefix host ''['' \<and> HasSuffix host '']'' then butlast (tl host) else host)"

definition url_splitHostPort :: "string \<Rightarrow> string \<times> string" where
  "url_splitHostPort hostPort =
     (case LastIndexByte hostPort (CHR '':'') of
        Some colon \<Rightarrow>
          if validOptionalPort (drop colon hostPort)
          then (strip_brackets (take colon hostPort), drop (Suc colon) hostPort)
          else (strip_brackets hostPort, [])
      | None \<Rightarrow> (strip_brackets hostPort, []))"

definition url_Hostname :: "'a url_scheme \<Rightarrow> string" where
  "url_Hostname u = fst (url_splitHostPort (u_Host u))"

definition url_Port :: "'a url_scheme \<Rightarrow> string" where
  "url_Port u = snd (url_splitHostPort (u_Host u))"

text \<open>\<open>net.SplitHostPort\<close>; \<open>None\<close> is an error.\<close>

definition net_SplitHostPort :: "string \<Rightarrow> (string \<times> string) option" where
  "net_SplitHostPort hostport =
     (case LastIndexByte hostport (CHR '':'') of
        None \<Rightarrow> None
      | Some i \<Rightarrow>
          if hd hostport = CHR ''['' then
            (case IndexByte hostport (CHR '']'') of
               None \<Rightarrow> None
             | Some e \<Rightarrow>
                 if Suc e \<noteq> i \<or> ContainsByte (tl hostport) (CHR ''['') \<or> ContainsByte (drop (Suc e) hostport) (CHR '']'')
                 then None else Some (tl (take e hostport), drop (Suc i) hostport))
          else if ContainsByte (take i hostport) (CHR '':'') \<or> ContainsByte hostport (CHR ''['') \<or> ContainsByte hostport (CHR '']'')
          then None else Some (take i hostport, drop (Suc i) hostport))"

subsection \<open>Texts of addresses\<close>

definition ipv4_field :: "string \<Rightarrow> 8 word option" where
  "ipv4_field f =
     (if allASCIIDigits f \<and> (length f = 1 \<or> hd f \<noteq> CHR ''0'') \<and> decimal_value 0 f \<le> 255
      then Some (of_nat (decimal_value 0 f)) else None)"

definition parseIPv4Fields :: "string \<Rightarrow> net_IP option" where
  "parseIPv4Fields s =
     (case map ipv4_field (Split s (CHR ''.'')) of [Some a, Some b, Some c, Some d] \<Rightarrow> Some [a, b, c, d] | _ \<Rightarrow> None)"

definition is_hex :: "char \<Rightarrow> bool" where
  "is_hex c \<longleftrightarrow> unhex c \<noteq> None"

definition hex_number :: "string \<Rightarrow> nat" where
  "hex_number = foldl (\<lambda>n c. 16 * n + (case unhex c of Some d \<Rightarrow> d | None \<Rightarrow> 0)) 0"

lemma dropWhile_tail_shorter: "dropWhile P s = c # s1 \<Longrightarrow> length s1 < length s"
  using length_dropWhile_le [of P s] by simp

text \<open>
  The loop of \<open>netip.parseIPv6\<close>: what is left of the text, the octets read and the position of the
  omission. The result is the state in which the loop ends.
\<close>

function ipv6_loop :: "string \<Rightarrow> net_IP \<Rightarrow> nat option \<Rightarrow> (string \<times> net_IP \<times> nat option) option" where
  "ipv6_loop s ip ellipsis =
     (if 16 \<le> length ip then Some (s, ip, ellipsis)
      else let h = takeWhile is_hex s; rest = dropWhile is_hex s; n = hex_number h;
               ip' = ip @ [of_nat (n div 256), of_nat (n mod 256)] in
        if h = [] \<or> 4 < length h then None
        else case rest of
            [] \<Rightarrow> Some ([], ip', ellipsis)
          | c # s1 \<Rightarrow>
              if c = CHR ''.'' then
                if ellipsis = None \<and> length ip \<noteq> 12 \<or> 16 < length ip + 4 then None
                else map_option (\<lambda>fields. ([], ip @ fields, ellipsis)) (parseIPv4Fields s)
              else if c \<noteq> CHR '':'' \<or> s1 = [] then None
              else if hd s1 \<noteq> CHR '':'' then ipv6_loop s1 ip' ellipsis
              else if ellipsis \<noteq> None then None
              else if tl s1 = [] then Some ([], ip', Some (length ip'))
              else ipv6_loop (tl s1) ip' (Some (length ip')))"
  by pat_completeness auto

termination
proof (relation "measure (\<lambda>(s, _, _). length s)", goal_cases)
  case 1
  then show ?case by simp
next
  case (2 s ip ellipsis h rest n ip' c s1)
  then show ?case using dropWhile_tail_shorter [of is_hex s c s1] by simp
next
  case (3 s ip ellipsis h rest n ip' c s1)
  then show ?case using dropWhile_tail_shorter [of is_hex s c s1] by (simp add: less_diff_conv)
qed

declare ipv6_loop.simps [simp del]

definition expand_ellipsis :: "net_IP \<Rightarrow> nat option \<Rightarrow> net_IP option" where
  "expand_ellipsis ip ellipsis =
     (case ellipsis of
        None \<Rightarrow> if length ip < 16 then None else Some ip
      | Some e \<Rightarrow> if length ip < 16 then Some (take e ip @ replicate (16 - length ip) 0 @ drop e ip) else None)"

definition parseIPv6 :: "string \<Rightarrow> net_IP option" where
  "parseIPv6 s =
     (if ContainsByte s (CHR ''%'') then None   \<comment> \<open>an address with a zone, or an error\<close>
      else if HasPrefix s ''::'' \<and> drop 2 s = [] then Some (replicate 16 0)
      else case (if HasPrefix s ''::'' then ipv6_loop (drop 2 s) [] (Some 0) else ipv6_loop s [] None) of
          Some ([], ip, ellipsis) \<Rightarrow> expand_ellipsis ip ellipsis
        | _ \<Rightarrow> None)"

text \<open>\<open>netip.ParseAddr\<close> without zones, and \<open>net.ParseIP\<close>, which gives the form of sixteen octets.\<close>

definition netip_ParseAddr :: "string \<Rightarrow> net_IP option" where
  "netip_ParseAddr s =
     (case dropWhile (\<lambda>c. c \<notin> {CHR ''.'', CHR '':'', CHR ''%''}) s of
        [] \<Rightarrow> None
      | c # _ \<Rightarrow> if c = CHR ''.'' then parseIPv4Fields s else if c = CHR '':'' then parseIPv6 s else None)"

definition v4InV6Prefix :: net_IP where
  "v4InV6Prefix = replicate 10 0 @ [255, 255]"

definition net_ParseIP :: "string \<Rightarrow> net_IP option" where
  "net_ParseIP s = map_option (\<lambda>ip. if length ip = 4 then v4InV6Prefix @ ip else ip) (netip_ParseAddr s)"

subsection \<open>Classes of addresses\<close>

definition To4 :: "net_IP \<Rightarrow> net_IP option" where
  "To4 ip = (if length ip = 4 then Some ip
     else if length ip = 16 \<and> take 12 ip = v4InV6Prefix then Some (drop 12 ip) else None)"

definition IsLoopback :: "net_IP \<Rightarrow> bool" where
  "IsLoopback ip = (case To4 ip of Some ip4 \<Rightarrow> ip4 ! 0 = 127 | None \<Rightarrow> ip = replicate 15 0 @ [1])"

definition IsPrivate :: "net_IP \<Rightarrow> bool" where
  "IsPrivate ip =
     (case To4 ip of
        Some ip4 \<Rightarrow> ip4 ! 0 = 10 \<or> ip4 ! 0 = 172 \<and> ip4 ! 1 AND 0xF0 = 16 \<or> ip4 ! 0 = 192 \<and> ip4 ! 1 = 168
      | None \<Rightarrow> length ip = 16 \<and> ip ! 0 AND 0xFE = 0xFC)"

definition IsUnspecified :: "net_IP \<Rightarrow> bool" where
  "IsUnspecified ip \<longleftrightarrow> To4 ip = Some (replicate 4 0) \<or> ip = replicate 16 0"

definition IsLinkLocalUnicast :: "net_IP \<Rightarrow> bool" where
  "IsLinkLocalUnicast ip =
     (case To4 ip of
        Some ip4 \<Rightarrow> ip4 ! 0 = 169 \<and> ip4 ! 1 = 254
      | None \<Rightarrow> length ip = 16 \<and> ip ! 0 = 0xFE \<and> ip ! 1 AND 0xC0 = 0x80)"

definition IsMulticast :: "net_IP \<Rightarrow> bool" where
  "IsMulticast ip =
     (case To4 ip of Some ip4 \<Rightarrow> ip4 ! 0 AND 0xF0 = 0xE0 | None \<Rightarrow> length ip = 16 \<and> ip ! 0 = 0xFF)"

definition IsLinkLocalMulticast :: "net_IP \<Rightarrow> bool" where
  "IsLinkLocalMulticast ip =
     (case To4 ip of
        Some ip4 \<Rightarrow> ip4 ! 0 = 224 \<and> ip4 ! 1 = 0 \<and> ip4 ! 2 = 0
      | None \<Rightarrow> length ip = 16 \<and> ip ! 0 = 0xFF \<and> ip ! 1 AND 0x0F = 0x02)"

subsection \<open>Prefixes\<close>

definition be_value :: "net_IP \<Rightarrow> nat" where
  "be_value = foldl (\<lambda>n b. 256 * n + unat b) 0"

text \<open>\<open>netip.MustParsePrefix\<close>, on texts that do parse, and \<open>Prefix.Contains\<close>.\<close>

definition MustParsePrefix :: "string \<Rightarrow> net_IP \<times> nat" where
  "MustParsePrefix s =
     (case Cut s (CHR ''/'') of (addr, bits, _) \<Rightarrow>
        (case netip_ParseAddr addr of Some ip \<Rightarrow> (ip, decimal_value 0 bits) | None \<Rightarrow> ([], 0)))"

definition prefix_Contains :: "net_IP \<times> nat \<Rightarrow> net_IP \<Rightarrow> bool" where
  "prefix_Contains p ip =
     (case p of (base, bits) \<Rightarrow>
        base \<noteq> [] \<and> length ip = length base \<and>
        be_value ip div 2 ^ (8 * length ip - bits) = be_value base div 2 ^ (8 * length base - bits))"

end
