(* ===== verification/Network_Guard.thy ===== *)
theory Network_Guard
  imports Go_Net "HOL-Library.Multiset"
begin

text \<open>
  The network boundary of an upstream (\<open>upstream/request.go\<close>): which external URLs a request or a
  redirect may reach, and the dialer that checks the addresses it connects to. The resolver may
  answer differently at every call; each step of a dial is given the answer that it gets. Dials of
  one upstream run concurrently and share the pinned scope of the configured origin, so they form a
  step relation (\<open>dial_reach\<close>); so do the racing connection attempts of one dial (\<open>race_reach\<close>).
\<close>

section \<open>Network scopes\<close>

datatype networkScope = networkPublic | networkPrivate | networkLoopback | networkUnsafe

definition specialPurposeIPv4Prefixes :: "(net_IP \<times> nat) list" where
  "specialPurposeIPv4Prefixes = map MustParsePrefix
     [''0.0.0.0/8'', ''100.64.0.0/10'', ''192.0.0.0/24'', ''192.0.2.0/24'', ''192.31.196.0/24'', ''192.52.193.0/24'',
      ''192.88.99.0/24'', ''192.175.48.0/24'', ''198.18.0.0/15'', ''198.51.100.0/24'', ''203.0.113.0/24'', ''240.0.0.0/4'']"

definition specialPurposeIPv6Prefixes :: "(net_IP \<times> nat) list" where
  "specialPurposeIPv6Prefixes = map MustParsePrefix
     [''64:ff9b::/96'', ''64:ff9b:1::/48'', ''100::/64'', ''100:0:0:1::/64'', ''2001::/23'', ''2001:db8::/32'',
      ''2002::/16'', ''2620:4f:8000::/48'', ''3fff::/20'', ''5f00::/16'']"

definition isSpecialPurposeAddress :: "net_IP \<Rightarrow> bool" where
  "isSpecialPurposeAddress ip =
     (if length ip \<noteq> 4 \<and> length ip \<noteq> 16 then True
      else let address = (case To4 ip of Some ip4 \<Rightarrow> ip4 | None \<Rightarrow> ip) in
        list_ex (\<lambda>prefix. prefix_Contains prefix address)
          (if length address = 4 then specialPurposeIPv4Prefixes else specialPurposeIPv6Prefixes))"

definition ipNetworkScope :: "net_IP \<Rightarrow> networkScope" where
  "ipNetworkScope ip =
     (if ip = [] then networkUnsafe
      else if IsLoopback ip then networkLoopback
      else if IsPrivate ip then networkPrivate
      else if IsUnspecified ip \<or> IsLinkLocalUnicast ip \<or> IsLinkLocalMulticast ip \<or> IsMulticast ip \<or> isSpecialPurposeAddress ip
      then networkUnsafe else networkPublic)"

fun resolved_loop :: "networkScope option \<Rightarrow> net_IP list \<Rightarrow> networkScope" where
  "resolved_loop scope [] = (case scope of None \<Rightarrow> networkUnsafe | Some s \<Rightarrow> s)"
| "resolved_loop scope (ip # ips) =
     (let candidate = ipNetworkScope ip in
      if candidate = networkUnsafe then networkUnsafe
      else case scope of
          None \<Rightarrow> resolved_loop (Some candidate) ips
        | Some s \<Rightarrow> if candidate \<noteq> s then networkUnsafe else resolved_loop (Some s) ips)"

definition resolvedNetworkScope :: "net_IP list \<Rightarrow> networkScope" where
  "resolvedNetworkScope addresses = resolved_loop None addresses"

definition literalHostNetworkScope :: "externals \<Rightarrow> string \<Rightarrow> networkScope option" where
  "literalHostNetworkScope E host =
     (let trimmed = TrimSuffix (ToLower E (TrimSpace host)) ''.'' in
      if trimmed = [] then None
      else if trimmed = ''localhost'' \<or> HasSuffix trimmed ''.localhost'' then Some networkLoopback
      else map_option ipNetworkScope (net_ParseIP trimmed))"

section \<open>Targets and redirects\<close>

definition effectiveURLPort :: "externals \<Rightarrow> url option \<Rightarrow> string" where
  "effectiveURLPort E target =
     (case target of
        None \<Rightarrow> []
      | Some u \<Rightarrow>
          if url_Port u \<noteq> [] then url_Port u
          else if ToLower E (u_Scheme u) = ''http'' then ''80''
          else if ToLower E (u_Scheme u) = ''https'' then ''443'' else [])"

definition sameHTTPOrigin :: "externals \<Rightarrow> path_externals \<Rightarrow> url option \<Rightarrow> url option \<Rightarrow> bool" where
  "sameHTTPOrigin E X left right =
     (case (left, right) of
        (Some l, Some r) \<Rightarrow>
          EqualFold X (u_Scheme l) (u_Scheme r) \<and> EqualFold X (url_Hostname l) (url_Hostname r) \<and>
          effectiveURLPort E left = effectiveURLPort E right
      | _ \<Rightarrow> False)"

definition url_hostname :: "url option \<Rightarrow> string" where
  "url_hostname target = (case target of None \<Rightarrow> [] | Some u \<Rightarrow> url_Hostname u)"

text \<open>\<open>None\<close> is a nil error.\<close>

definition validateExternalTarget :: "externals \<Rightarrow> path_externals \<Rightarrow> url option \<Rightarrow> url option \<Rightarrow> bool \<Rightarrow> gerror option" where
  "validateExternalTarget E X origin target directNetworkGuard =
     (case target of
        None \<Rightarrow> Some [ErrMessage ''invalid external target'']
      | Some t \<Rightarrow>
          if u_Scheme t \<noteq> ''http'' \<and> u_Scheme t \<noteq> ''https'' \<or> u_Host t = [] \<or> u_User t
          then Some [ErrMessage ''invalid external target'']
          else if origin \<noteq> None \<and> EqualFold X (u_Scheme (the origin)) ''https'' \<and> EqualFold X (u_Scheme t) ''http''
          then Some [ErrMessage ''HTTPS downgrade'']
          else
            (case literalHostNetworkScope E (url_Hostname t) of
               None \<Rightarrow> None
             | Some networkUnsafe \<Rightarrow> Some [ErrMessage ''unsafe network target'']
             | Some networkLoopback \<Rightarrow>
                 (case literalHostNetworkScope E (url_hostname origin) of
                    Some originScope \<Rightarrow> if originScope = networkLoopback then None else Some [ErrMessage ''loopback target'']
                  | None \<Rightarrow> if directNetworkGuard then None else Some [ErrMessage ''loopback target''])
             | Some networkPrivate \<Rightarrow>
                 (case literalHostNetworkScope E (url_hostname origin) of
                    Some originScope \<Rightarrow>
                      if originScope = networkPrivate \<or> originScope = networkLoopback then None
                      else Some [ErrMessage ''private network target'']
                  | None \<Rightarrow> if directNetworkGuard then None else Some [ErrMessage ''private network target''])
             | Some networkPublic \<Rightarrow> None))"

text \<open>
  The function that \<open>secureRedirectCheck\<close> returns, for the header and URL of the next request and the
  URLs of the requests made so far; \<open>previousCheck\<close> is the check of the client, which is nil in the
  clients that \<open>buildClient\<close> makes.
\<close>

definition secureRedirectCheck ::
  "externals \<Rightarrow> path_externals \<Rightarrow> url option \<Rightarrow> bool \<Rightarrow> (header \<Rightarrow> url \<Rightarrow> url list \<Rightarrow> gerror option) option \<Rightarrow>
   header \<Rightarrow> url \<Rightarrow> url list \<Rightarrow> gerror option \<times> header" where
  "secureRedirectCheck E X configuredOrigin directNetworkGuard previousCheck h target via =
     (if 10 \<le> length via then (Some [ErrMessage ''external redirect limit exceeded''], h)
      else
        let previousURL = (if via = [] then None else Some (last via));
            h1 = header_Del ''Proxy-Authorization'' (header_Del ''Referer'' h);
            h2 = (if previousURL = None \<or> \<not> sameHTTPOrigin E X previousURL (Some target)
                  then header_Del ''Cookie'' (header_Del ''Authorization'' h1) else h1) in
        if validateExternalTarget E X configuredOrigin (Some target) directNetworkGuard \<noteq> None
        then (Some [ErrMessage ''external redirect target rejected''], h2)
        else if previousURL \<noteq> None \<and> EqualFold X (u_Scheme (the previousURL)) ''https'' \<and> EqualFold X (u_Scheme target) ''http''
        then (Some [ErrMessage ''external redirect HTTPS downgrade rejected''], h2)
        else (case previousCheck of None \<Rightarrow> None | Some check \<Rightarrow> check h2 target via, h2))"

section \<open>Dialing\<close>

definition dialer_resolve :: "(gerror + net_IP list) option \<Rightarrow> string \<Rightarrow> gerror + net_IP list" where
  "dialer_resolve lookup host =
     (case net_ParseIP (TrimSuffix (TrimSpace host) ''.'') of
        Some ip \<Rightarrow> Inr [ip]
      | None \<Rightarrow>
          (case lookup of
             None \<Rightarrow> Inl [ErrMessage ''resolver unavailable'']
           | Some (Inl e) \<Rightarrow> Inl e
           | Some (Inr addresses) \<Rightarrow>
               if addresses = [] then Inl [ErrMessage ''hostname resolved without addresses''] else Inr addresses))"

definition sameDialAddress :: "externals \<Rightarrow> path_externals \<Rightarrow> string \<Rightarrow> url option \<Rightarrow> bool" where
  "sameDialAddress E X address origin =
     (case origin of
        None \<Rightarrow> False
      | Some u \<Rightarrow>
          (let originPort =
             (if url_Port u \<noteq> [] then Some (url_Port u)
              else if ToLower E (u_Scheme u) = ''http'' then Some ''80''
              else if ToLower E (u_Scheme u) = ''https'' then Some ''443'' else None) in
           case (originPort, net_SplitHostPort address) of
             (Some port, Some (targetHost, targetPort)) \<Rightarrow>
               EqualFold X (TrimSuffix targetHost ''.'') (TrimSuffix (url_Hostname u) ''.'') \<and> targetPort = port
           | _ \<Rightarrow> False))"

fun interleave :: "'a list \<Rightarrow> 'a list \<Rightarrow> 'a list" where
  "interleave [] secondary = secondary"
| "interleave (x # primary) [] = x # primary"
| "interleave (x # primary) (y # secondary) = x # y # interleave primary secondary"

definition interleaveIPFamilies :: "net_IP list \<Rightarrow> net_IP list" where
  "interleaveIPFamilies addresses =
     (if length addresses < 2 then addresses
      else let firstIsV4 = (To4 (hd addresses) \<noteq> None); usable = filter (\<lambda>ip. ip \<noteq> []) addresses in
        interleave (filter (\<lambda>ip. (To4 ip \<noteq> None) = firstIsV4) usable) (filter (\<lambda>ip. (To4 ip \<noteq> None) \<noteq> firstIsV4) usable))"

text \<open>\<open>pinOriginScope\<close>: the result and the scope pinned afterwards.\<close>

definition pinOriginScope :: "networkScope \<Rightarrow> networkScope option \<Rightarrow> bool \<times> networkScope option" where
  "pinOriginScope scope pinned = (case pinned of None \<Rightarrow> (True, Some scope) | Some s \<Rightarrow> (s = scope, pinned))"

definition policy_allows :: "networkScope \<Rightarrow> networkScope \<Rightarrow> bool" where
  "policy_allows targetScope originScope =
     (case targetScope of
        networkLoopback \<Rightarrow> originScope = networkLoopback
      | networkPrivate \<Rightarrow> originScope = networkPrivate \<or> originScope = networkLoopback
      | _ \<Rightarrow> True)"

datatype dial_point =
    DResolve                            \<comment> \<open>\<open>DialContext\<close> was called\<close>
  | DCheck "net_IP list"                \<comment> \<open>the target is resolved and not unsafe\<close>
  | DOrigin "net_IP list"               \<comment> \<open>\<open>originScopeForPolicy\<close> found no pinned scope\<close>
  | DPinPolicy "net_IP list" networkScope
  | DDial "net_IP list"
  | DPin "net_IP list" net_IP           \<comment> \<open>connected to the configured origin\<close>
  | DDone "net_IP option"               \<comment> \<open>the peer of the returned connection, or an error\<close>

definition dial_policy :: "net_IP list \<Rightarrow> networkScope \<Rightarrow> dial_point" where
  "dial_policy ips originScope = (if policy_allows (resolvedNetworkScope ips) originScope then DDial ips else DDone None)"

text \<open>
  One step of \<open>DialContext\<close>, between two accesses to the pinned scope. It is given the resolver's
  answer and the address that \<open>dialResolved\<close> connects to.
\<close>

fun dial_step ::
  "externals \<Rightarrow> path_externals \<Rightarrow> url option \<Rightarrow> string \<Rightarrow> (gerror + net_IP list) option \<Rightarrow> nat option \<Rightarrow>
   dial_point \<Rightarrow> networkScope option \<Rightarrow> (dial_point \<times> networkScope option) option" where
  "dial_step E X origin address lookup connected DResolve pinned =
     (case net_SplitHostPort address of
        None \<Rightarrow> Some (DDone None, pinned)
      | Some (host, port) \<Rightarrow>
          if host = [] \<or> port = [] then Some (DDone None, pinned)
          else case dialer_resolve lookup host of
              Inl e \<Rightarrow> Some (DDone None, pinned)
            | Inr ips \<Rightarrow> Some (if resolvedNetworkScope ips = networkUnsafe then DDone None else DCheck ips, pinned))"
| "dial_step E X origin address lookup connected (DCheck ips) pinned =
     (let targetScope = resolvedNetworkScope ips in
      if sameDialAddress E X address origin
      then Some (case pinned of
                   Some s \<Rightarrow> if s \<noteq> targetScope then DDone None else DDial ips
                 | None \<Rightarrow> DDial ips, pinned)
      else if targetScope = networkLoopback \<or> targetScope = networkPrivate
      then Some (case pinned of Some s \<Rightarrow> dial_policy ips s | None \<Rightarrow> DOrigin ips, pinned)
      else Some (DDial ips, pinned))"
| "dial_step E X origin address lookup connected (DOrigin ips) pinned =
     (if url_hostname origin = [] then Some (DDone None, pinned)
      else case dialer_resolve lookup (url_hostname origin) of
          Inl e \<Rightarrow> Some (DDone None, pinned)
        | Inr addresses \<Rightarrow>
            Some (if resolvedNetworkScope addresses = networkUnsafe then DDone None
                  else DPinPolicy ips (resolvedNetworkScope addresses), pinned))"
| "dial_step E X origin address lookup connected (DPinPolicy ips scope) pinned =
     (case pinOriginScope scope pinned of (ok, pinned') \<Rightarrow>
        Some (if ok then dial_policy ips scope else DDone None, pinned'))"
| "dial_step E X origin address lookup connected (DDial ips) pinned =
     (case connected of
        None \<Rightarrow> Some (DDone None, pinned)
      | Some n \<Rightarrow>
          if length (interleaveIPFamilies ips) \<le> n then None
          else let ip = interleaveIPFamilies ips ! n in
            Some (if sameDialAddress E X address origin then DPin ips ip else DDone (Some ip), pinned))"
| "dial_step E X origin address lookup connected (DPin ips ip) pinned =
     (case pinOriginScope (resolvedNetworkScope ips) pinned of (ok, pinned') \<Rightarrow>
        Some (DDone (if ok then Some ip else None), pinned'))"
| "dial_step E X origin address lookup connected (DDone r) pinned = None"

text \<open>All dials of one dialer; a thread has the address it was called with.\<close>

inductive dial_reach ::
  "externals \<Rightarrow> path_externals \<Rightarrow> url option \<Rightarrow> networkScope option \<times> (nat \<rightharpoonup> string \<times> dial_point) \<Rightarrow> bool"
  for E X origin where
  start: "dial_reach E X origin (None, Map.empty)"
| call: "dial_reach E X origin (pinned, th) \<Longrightarrow> th t = None \<Longrightarrow> dial_reach E X origin (pinned, th(t \<mapsto> (address, DResolve)))"
| step: "dial_reach E X origin (pinned, th) \<Longrightarrow> th t = Some (address, p) \<Longrightarrow>
    dial_step E X origin address lookup connected p pinned = Some (p', pinned') \<Longrightarrow>
    dial_reach E X origin (pinned', th(t \<mapsto> (address, p')))"

section \<open>What a dial can reach\<close>

lemma resolved_loop_scope:
  "resolved_loop sc ips \<noteq> networkUnsafe \<Longrightarrow>
     (\<forall>ip \<in> set ips. ipNetworkScope ip = resolved_loop sc ips) \<and> (\<forall>s. sc = Some s \<longrightarrow> resolved_loop sc ips = s)"
proof (induction ips arbitrary: sc)
  case (Cons ip ips)
  define s where "s = (case sc of None \<Rightarrow> ipNetworkScope ip | Some s \<Rightarrow> s)"
  have eq: "resolved_loop sc (ip # ips) = resolved_loop (Some s) ips" and ip: "ipNetworkScope ip = s"
    using Cons.prems by (simp_all add: Let_def s_def split: if_split_asm option.split_asm)
  have "resolved_loop (Some s) ips \<noteq> networkUnsafe" using Cons.prems unfolding eq .
  note ih = Cons.IH [OF this]
  have "sc = Some s' \<Longrightarrow> s' = s" for s' by (simp add: s_def)
  then show ?case unfolding eq using ih ip by auto
qed simp

lemma resolvedNetworkScope_all:
  "resolvedNetworkScope ips \<noteq> networkUnsafe \<Longrightarrow> ip \<in> set ips \<Longrightarrow> ipNetworkScope ip = resolvedNetworkScope ips"
  using resolved_loop_scope unfolding resolvedNetworkScope_def by blast

lemma set_interleave [simp]: "set (interleave xs ys) = set xs \<union> set ys"
  by (induction xs ys rule: interleave.induct) auto

lemma set_interleaveIPFamilies: "set (interleaveIPFamilies ips) \<subseteq> set ips"
  by (auto simp: interleaveIPFamilies_def Let_def)

text \<open>What the pinned scope must be for a target that is not the configured origin.\<close>

definition admitted :: "networkScope \<Rightarrow> networkScope option \<Rightarrow> bool" where
  "admitted scope pinned \<longleftrightarrow>
     (scope = networkLoopback \<longrightarrow> pinned = Some networkLoopback) \<and>
     (scope = networkPrivate \<longrightarrow> pinned = Some networkPrivate \<or> pinned = Some networkLoopback)"

fun point_ok :: "bool \<Rightarrow> networkScope option \<Rightarrow> dial_point \<Rightarrow> bool" where
  "point_ok exact pinned DResolve \<longleftrightarrow> True"
| "point_ok exact pinned (DCheck ips) \<longleftrightarrow> resolvedNetworkScope ips \<noteq> networkUnsafe"
| "point_ok exact pinned (DOrigin ips) \<longleftrightarrow> resolvedNetworkScope ips \<noteq> networkUnsafe \<and> \<not> exact"
| "point_ok exact pinned (DPinPolicy ips s) \<longleftrightarrow> resolvedNetworkScope ips \<noteq> networkUnsafe \<and> \<not> exact"
| "point_ok exact pinned (DDial ips) \<longleftrightarrow>
     resolvedNetworkScope ips \<noteq> networkUnsafe \<and> (exact \<or> admitted (resolvedNetworkScope ips) pinned)"
| "point_ok exact pinned (DPin ips ip) \<longleftrightarrow> resolvedNetworkScope ips \<noteq> networkUnsafe \<and> ip \<in> set ips \<and> exact"
| "point_ok exact pinned (DDone None) \<longleftrightarrow> True"
| "point_ok exact pinned (DDone (Some ip)) \<longleftrightarrow>
     ipNetworkScope ip \<noteq> networkUnsafe \<and>
     (if exact then pinned = Some (ipNetworkScope ip) else admitted (ipNetworkScope ip) pinned)"

definition pin_grows :: "networkScope option \<Rightarrow> networkScope option \<Rightarrow> bool" where
  "pin_grows pinned pinned' \<longleftrightarrow> (\<forall>s. pinned = Some s \<longrightarrow> pinned' = Some s)"

lemma point_ok_grows: "point_ok exact pinned p \<Longrightarrow> pin_grows pinned pinned' \<Longrightarrow> point_ok exact pinned' p"
  by (cases "(exact, pinned, p)" rule: point_ok.cases) (auto simp: admitted_def pin_grows_def)

lemma pinOriginScope_grows:
  "pinOriginScope scope pinned = (ok, pinned') \<Longrightarrow> pin_grows pinned pinned' \<and> (ok \<longrightarrow> pinned' = Some scope)"
  by (auto simp: pinOriginScope_def pin_grows_def split: option.splits)

lemma dial_policy_ok:
  "resolvedNetworkScope ips \<noteq> networkUnsafe \<Longrightarrow> pinned = Some s \<Longrightarrow> point_ok exact pinned (dial_policy ips s)"
  by (auto simp: dial_policy_def policy_allows_def admitted_def split: networkScope.splits)

lemma dial_step_ok:
  assumes "dial_step E X origin address lookup connected p pinned = Some (p', pinned')"
    and "point_ok (sameDialAddress E X address origin) pinned p"
  shows "pin_grows pinned pinned' \<and> point_ok (sameDialAddress E X address origin) pinned' p'"
proof (cases p)
  case (DDial ips)
  show ?thesis
  proof (cases connected)
    case (Some n)
    then have n: "n < length (interleaveIPFamilies ips)" using assms(1) DDial by (auto split: if_splits)
    then have "interleaveIPFamilies ips ! n \<in> set ips" using set_interleaveIPFamilies by (meson nth_mem subsetD)
    then show ?thesis using assms DDial Some n resolvedNetworkScope_all [of ips "interleaveIPFamilies ips ! n"]
      by (auto simp: Let_def pin_grows_def split: if_splits)
  qed (use assms DDial in \<open>auto simp: pin_grows_def\<close>)
next
  case (DPin ips ip)
  then show ?thesis
    using assms resolvedNetworkScope_all [of ips ip] pinOriginScope_grows
    by (auto split: prod.splits if_splits)
next
  case (DPinPolicy ips s)
  obtain ok where pin: "pinOriginScope s pinned = (ok, pinned')" using assms(1) DPinPolicy by (auto split: prod.splits)
  show ?thesis
    using assms DPinPolicy pin pinOriginScope_grows [OF pin] dial_policy_ok [of ips pinned' s] by (auto split: if_splits)
next
  case (DCheck ips)
  then show ?thesis
    using assms dial_policy_ok
    by (cases "resolvedNetworkScope ips") (auto simp: Let_def pin_grows_def admitted_def split: option.splits if_splits)
qed (use assms in \<open>auto simp: pin_grows_def split: option.splits sum.splits if_splits prod.splits\<close>)

lemma dial_reach_ok:
  assumes "dial_reach E X origin (pinned, th)"
  shows "\<forall>t address p. th t = Some (address, p) \<longrightarrow> point_ok (sameDialAddress E X address origin) pinned p"
  using assms
proof (induction "(pinned, th)" arbitrary: pinned th rule: dial_reach.induct)
  case (step pinned th t address p lookup connected p' pinned')
  note ok = dial_step_ok [OF step(4) step(2) [rule_format, OF step(3)]]
  then show ?case using step(2) point_ok_grows [OF _ conjunct1 [OF ok]] by auto
qed auto

text \<open>
  C15: The guard holds under every interleaving of dials and for a resolver that may change its
  answers at any time. A connection that \<open>DialContext\<close> returns never leads to an unsafe address; a
  connection to the configured origin lies in the one scope that is pinned for it; and another
  target on the loopback or a private network is reached only when the pinned scope of the
  configured origin allows it.
\<close>

theorem dials_respect_origin_scope:
  assumes "dial_reach E X origin (pinned, th)" and "th t = Some (address, DDone (Some ip))"
  shows "ipNetworkScope ip \<noteq> networkUnsafe \<and>
    (sameDialAddress E X address origin \<longrightarrow> pinned = Some (ipNetworkScope ip)) \<and>
    (\<not> sameDialAddress E X address origin \<longrightarrow>
       (ipNetworkScope ip = networkLoopback \<longrightarrow> pinned = Some networkLoopback) \<and>
       (ipNetworkScope ip = networkPrivate \<longrightarrow> pinned = Some networkPrivate \<or> pinned = Some networkLoopback))"
  using dial_reach_ok [OF assms(1), rule_format, OF assms(2)] by (auto simp: admitted_def split: if_splits)

definition sample_origin :: url where
  "sample_origin = \<lparr>u_Scheme = ''https'', u_Host = ''repo.example'', u_User = False, u_Path = ''/'', u_Fragment = [],
     u_Text = ''https://repo.example/''\<rparr>"

theorem dials_respect_origin_scope_witness:
  "\<exists>pinned th ip. dial_reach ascii_externals ascii_paths (Some sample_origin) (pinned, th) \<and>
     th 0 = Some (''repo.example:443'', DDone (Some ip)) \<and> ipNetworkScope ip \<noteq> networkUnsafe \<and> pinned = Some networkPublic"
proof -
  let ?r = "dial_reach ascii_externals ascii_paths (Some sample_origin)"
  let ?a = "''repo.example:443''"
  let ?ip = "[8, 8, 8, 8] :: net_IP"
  let ?s = "dial_step ascii_externals ascii_paths (Some sample_origin) ?a (Some (Inr [?ip])) (Some 0)"
  have r0: "?r (None, Map.empty(0 \<mapsto> (?a, DResolve)))" by (intro dial_reach.intros) simp
  have "?s DResolve None = Some (DCheck [?ip], None)" by code_simp
  from dial_reach.step [where t = 0, OF r0 _ this] have r1: "?r (None, Map.empty(0 \<mapsto> (?a, DCheck [?ip])))" by simp
  have "?s (DCheck [?ip]) None = Some (DDial [?ip], None)" by code_simp
  from dial_reach.step [where t = 0, OF r1 _ this] have r2: "?r (None, Map.empty(0 \<mapsto> (?a, DDial [?ip])))" by simp
  have "?s (DDial [?ip]) None = Some (DPin [?ip] ?ip, None)" by code_simp
  from dial_reach.step [where t = 0, OF r2 _ this] have r3: "?r (None, Map.empty(0 \<mapsto> (?a, DPin [?ip] ?ip)))" by simp
  have "?s (DPin [?ip] ?ip) None = Some (DDone (Some ?ip), Some networkPublic)" by code_simp
  from dial_reach.step [where t = 0, OF r3 _ this] have r4: "?r (Some networkPublic, Map.empty(0 \<mapsto> (?a, DDone (Some ?ip))))" by simp
  show ?thesis using r4 dials_respect_origin_scope [OF r4, of 0 ?a ?ip] by (intro exI conjI) (assumption | simp)+
qed

section \<open>Redirects\<close>

text \<open>
  The redirects that a client follows with \<open>secureRedirectCheck\<close>. The client copies the headers of the
  first request to every later one, but leaves out the sensitive ones from the first target on that
  is neither the domain of the first request nor a subdomain of it.
\<close>

definition client_forwards :: "url \<Rightarrow> url \<Rightarrow> bool" where
  "client_forwards first target =
     (let parent = url_Hostname first; sub = url_Hostname target in
      sub = parent \<or> \<not> ContainsAny sub '':%'' \<and> HasSuffix sub parent \<and> sub ! (length sub - length parent - 1) = CHR ''.'')"

definition client_copy :: "bool \<Rightarrow> header \<Rightarrow> header" where
  "client_copy strip h =
     (if strip then fold header_Del [''Authorization'', ''Www-Authenticate'', ''Cookie'', ''Cookie2'', ''Proxy-Authorization'',
        ''Proxy-Authenticate''] h else h)"

fun follow_redirects ::
  "externals \<Rightarrow> path_externals \<Rightarrow> url option \<Rightarrow> bool \<Rightarrow> header \<Rightarrow> url \<Rightarrow> bool \<Rightarrow> url list \<Rightarrow> url list \<Rightarrow> (url \<times> header) list" where
  "follow_redirects E X origin guard h0 first strip via [] = []"
| "follow_redirects E X origin guard h0 first strip via (target # targets) =
     (let strip' = (strip \<or> u_Host first \<noteq> u_Host target \<and> \<not> client_forwards first target) in
      case secureRedirectCheck E X origin guard None (client_copy strip' h0) target via of
        (Some e, h) \<Rightarrow> []
      | (None, h) \<Rightarrow> (target, h) # follow_redirects E X origin guard h0 first strip' (via @ [target]) targets)"

lemma redirect_header_keys [simp]:
  "CanonicalMIMEHeaderKey ''Authorization'' = ''Authorization''" "CanonicalMIMEHeaderKey ''Cookie'' = ''Cookie''"
  "CanonicalMIMEHeaderKey ''Referer'' = ''Referer''" "CanonicalMIMEHeaderKey ''Proxy-Authorization'' = ''Proxy-Authorization''"
  by code_simp+

lemma EqualFold_refl [simp]: "EqualFold X s s"
  by (simp add: EqualFold_def)

lemma secureRedirectCheck_ok:
  assumes "secureRedirectCheck E X origin guard None h target via = (None, h')" and "via \<noteq> []"
  shows "length via < 10" "header_Values h' ''Referer'' = []" "header_Values h' ''Proxy-Authorization'' = []"
    "validateExternalTarget E X origin (Some target) guard = None"
    "header_Values h' ''Authorization'' \<noteq> [] \<or> header_Values h' ''Cookie'' \<noteq> [] \<Longrightarrow> sameHTTPOrigin E X (Some (last via)) (Some target)"
    "u_Scheme (last via) = ''https'' \<Longrightarrow> u_Scheme target = ''https''"
proof -
  have ok: "validateExternalTarget E X origin (Some target) guard = None" "length via < 10"
    "\<not> (EqualFold X (u_Scheme (last via)) ''https'' \<and> EqualFold X (u_Scheme target) ''http'')"
    using assms by (auto simp: secureRedirectCheck_def Let_def split: if_split_asm)
  show "length via < 10" "validateExternalTarget E X origin (Some target) guard = None" by (rule ok)+
  have "u_Scheme target = ''http'' \<or> u_Scheme target = ''https''"
    using ok(1) by (auto simp: validateExternalTarget_def split: if_split_asm)
  then show "u_Scheme (last via) = ''https'' \<Longrightarrow> u_Scheme target = ''https''" using ok(3) by auto
  show "header_Values h' ''Referer'' = []" "header_Values h' ''Proxy-Authorization'' = []"
    "header_Values h' ''Authorization'' \<noteq> [] \<or> header_Values h' ''Cookie'' \<noteq> [] \<Longrightarrow> sameHTTPOrigin E X (Some (last via)) (Some target)"
    using assms ok by (auto simp: secureRedirectCheck_def Let_def header_Values_def header_Del_def split: if_split_asm)
qed

lemma follow_redirects_hop:
  assumes "via \<noteq> []" and "i < length (follow_redirects E X origin guard h0 first strip via targets)"
    and "follow_redirects E X origin guard h0 first strip via targets ! i = (target, h)"
  shows
    "i + length via < 10 \<and> header_Values h ''Referer'' = [] \<and> header_Values h ''Proxy-Authorization'' = [] \<and>
    validateExternalTarget E X origin (Some target) guard = None \<and>
    (header_Values h ''Authorization'' \<noteq> [] \<or> header_Values h ''Cookie'' \<noteq> [] \<longrightarrow> sameHTTPOrigin E X (Some ((last via # map fst (follow_redirects E X origin guard h0 first strip via targets)) ! i)) (Some target)) \<and>
    (u_Scheme ((last via # map fst (follow_redirects E X origin guard h0 first strip via targets)) ! i) = ''https'' \<longrightarrow> u_Scheme target = ''https'')"
  using assms
proof (induction targets arbitrary: strip via i)
  case (Cons t targets)
  define strip' where "strip' \<longleftrightarrow> strip \<or> u_Host first \<noteq> u_Host t \<and> \<not> client_forwards first t"
  obtain e h1 where check: "secureRedirectCheck E X origin guard None (client_copy strip' h0) t via = (e, h1)" by fastforce
  then have e: "e = None" using Cons.prems(2) by (auto simp: strip'_def Let_def split: option.splits)
  let ?rest = "follow_redirects E X origin guard h0 first strip' (via @ [t]) targets"
  have eq: "follow_redirects E X origin guard h0 first strip via (t # targets) = (t, h1) # ?rest"
    using check e by (simp add: strip'_def Let_def)
  show ?case
  proof (cases i)
    case 0
    then have "(target, h) = (t, h1)" using Cons.prems(3) unfolding eq by simp
    then show ?thesis using secureRedirectCheck_ok [OF check [unfolded e] Cons.prems(1)] 0 unfolding eq by auto
  next
    case (Suc j)
    have "j < length ?rest" "?rest ! j = (target, h)" using Cons.prems(2,3) Suc unfolding eq by simp_all
    from Cons.IH [OF _ this] show ?thesis unfolding eq Suc by simp
  qed
qed simp

text \<open>
  C16: What survives a chain of redirects. Whatever the server answers, at most nine redirects are
  followed; no hop receives a \<open>Referer\<close> or proxy credentials; every hop passed the check of external
  targets; credentials or cookies go to a hop only if the hop before it has the same origin; and
  once a hop used https, all later ones do.
\<close>

theorem redirects_guarded:
  assumes "sent = follow_redirects E X origin guard h0 first False [first] targets"
    and "i < length sent" and "sent ! i = (target, h)"
  shows "i < 9 \<and> header_Values h ''Referer'' = [] \<and> header_Values h ''Proxy-Authorization'' = [] \<and>
    validateExternalTarget E X origin (Some target) guard = None \<and>
    (header_Values h ''Authorization'' \<noteq> [] \<or> header_Values h ''Cookie'' \<noteq> [] \<longrightarrow>
       sameHTTPOrigin E X (Some ((first # map fst sent) ! i)) (Some target)) \<and>
    (\<forall>j \<le> i. u_Scheme ((first # map fst sent) ! j) = ''https'' \<longrightarrow> u_Scheme target = ''https'')"
proof -
  have hop: "k < length sent \<Longrightarrow> u_Scheme ((first # map fst sent) ! k) = ''https'' \<Longrightarrow> u_Scheme (fst (sent ! k)) = ''https''" for k
    using follow_redirects_hop [of "[first]" k E X origin guard h0 first False targets "fst (sent ! k)" "snd (sent ! k)"]
    unfolding assms(1) by simp
  have "u_Scheme (fst (sent ! k)) = ''https''"
    if "j \<le> k" "k < length sent" "u_Scheme ((first # map fst sent) ! j) = ''https''" for j k
    using that
  proof (induction k rule: dec_induct)
    case base
    then show ?case by (intro hop) auto
  next
    case (step n)
    then have "u_Scheme ((first # map fst sent) ! Suc n) = ''https''" by simp
    then show ?case using step.prems by (intro hop) auto
  qed
  from this [of _ i] have "\<forall>j \<le> i. u_Scheme ((first # map fst sent) ! j) = ''https'' \<longrightarrow> u_Scheme target = ''https''"
    using assms(2,3) by auto
  then show ?thesis
    using follow_redirects_hop [of "[first]" i E X origin guard h0 first False targets target h] assms by simp
qed

definition http_url :: "string \<Rightarrow> string \<Rightarrow> url" where
  "http_url host path = \<lparr>u_Scheme = ''https'', u_Host = host, u_User = False, u_Path = path, u_Fragment = [],
     u_Text = ''https://'' @ host @ path\<rparr>"

definition token_header :: header where
  "token_header = header_Set ''Authorization'' ''Bearer t'' no_header"

theorem redirects_guarded_witness:
  "let sent = follow_redirects ascii_externals ascii_paths (Some (http_url ''a.example'' ''/'')) True token_header
       (http_url ''a.example'' ''/x'') False [http_url ''a.example'' ''/x''] [http_url ''a.example'' ''/x/''] in
   length sent = 1 \<and> header_Values (snd (sent ! 0)) ''Authorization'' = [''Bearer t''] \<and> u_Scheme (fst (sent ! 0)) = ''https''"
proof -
  define sent where "sent = follow_redirects ascii_externals ascii_paths (Some (http_url ''a.example'' ''/'')) True token_header
       (http_url ''a.example'' ''/x'') False [http_url ''a.example'' ''/x''] [http_url ''a.example'' ''/x/'']"
  have n: "length sent = 1" "header_Values (snd (sent ! 0)) ''Authorization'' = [''Bearer t'']" unfolding sent_def by code_simp+
  have "u_Scheme (fst (sent ! 0)) = ''https''"
    using redirects_guarded [OF sent_def, of 0 "fst (sent ! 0)" "snd (sent ! 0)"] n(1) by (simp add: http_url_def)
  then show ?thesis using n unfolding sent_def Let_def by blast
qed

lemma same_origin_cancel:
  "sameHTTPOrigin E X (Some a) (Some b) \<Longrightarrow> sameHTTPOrigin E X (Some c) (Some b) \<longleftrightarrow> sameHTTPOrigin E X (Some c) (Some a)"
  by (auto simp: sameHTTPOrigin_def EqualFold_def)

text \<open>A redirect that passes: the headers are those of the client, with the credentials only on the origin of the hop before.\<close>

lemma secureRedirectCheck_passes:
  assumes "validateExternalTarget E X origin (Some target) guard = None" and "length via < 10" and "via \<noteq> []"
    and "\<not> (EqualFold X (u_Scheme (last via)) ''https'' \<and> EqualFold X (u_Scheme target) ''http'')"
  shows "\<exists>h'. secureRedirectCheck E X origin guard None h target via = (None, h') \<and>
    (\<forall>k \<in> {''Authorization'', ''Cookie''}. header_Values h' k =
       (if sameHTTPOrigin E X (Some (last via)) (Some target) then header_Values h k else []))"
  using assms by (auto simp: secureRedirectCheck_def Let_def header_Values_def header_Del_def)

text \<open>
  C39: Credentials that a redirect removed come back. The check compares a redirect with the request before it, while the
  client starts every hop from the headers of the first request and itself keeps credentials for
  subdomains of the first host. So whenever a server redirects to another origin on the first host or a
  subdomain of it, and from there to a second target of that origin, both accepted as external targets
  and not of plain http, the first hop carries neither \<open>Authorization\<close> nor \<open>Cookie\<close>, and the second one carries
  both as they were sent to the first origin.
\<close>

theorem redirect_leaks_to_subdomain:
  assumes "client_forwards first t1" and "client_forwards first t2"
    and "\<not> sameHTTPOrigin E X (Some first) (Some t1)" and "sameHTTPOrigin E X (Some t1) (Some t2)"
    and "validateExternalTarget E X origin (Some t1) guard = None" and "validateExternalTarget E X origin (Some t2) guard = None"
    and "\<not> EqualFold X (u_Scheme t1) ''http''"
  shows "\<exists>h1 h2. follow_redirects E X origin guard h0 first False [first] [t1, t2] = [(t1, h1), (t2, h2)] \<and>
    \<not> sameHTTPOrigin E X (Some first) (Some t2) \<and>
    (\<forall>k \<in> {''Authorization'', ''Cookie''}. header_Values h1 k = [] \<and> header_Values h2 k = header_Values h0 k)"
proof -
  have "\<not> EqualFold X (u_Scheme t2) ''http''" using assms(4,7) by (auto simp: sameHTTPOrigin_def EqualFold_def)
  then obtain h2 where h2: "secureRedirectCheck E X origin guard None h0 t2 [first, t1] = (None, h2)"
    "\<forall>k \<in> {''Authorization'', ''Cookie''}. header_Values h2 k = header_Values h0 k"
    using secureRedirectCheck_passes [OF assms(6), of "[first, t1]" h0] assms(4) by auto
  obtain h1 where h1: "secureRedirectCheck E X origin guard None h0 t1 [first] = (None, h1)"
    "\<forall>k \<in> {''Authorization'', ''Cookie''}. header_Values h1 k = []"
    using secureRedirectCheck_passes [OF assms(5), of "[first]" h0] assms(3,7) by auto
  have "follow_redirects E X origin guard h0 first False [first] [t1, t2] = [(t1, h1), (t2, h2)]"
    using assms(1,2) h1(1) h2(1) by (simp add: client_copy_def)
  moreover have "\<not> sameHTTPOrigin E X (Some first) (Some t2)" using assms(3) same_origin_cancel [OF assms(4)] by blast
  ultimately show ?thesis using h1(2) h2(2) by blast
qed

theorem redirect_leaks_to_subdomain_witness:
  "\<exists>h1 h2. follow_redirects ascii_externals ascii_paths (Some (http_url ''a.example'' ''/'')) True token_header
       (http_url ''a.example'' ''/x'') False [http_url ''a.example'' ''/x''] [http_url ''cdn.a.example'' ''/1'', http_url ''cdn.a.example'' ''/2''] =
     [(http_url ''cdn.a.example'' ''/1'', h1), (http_url ''cdn.a.example'' ''/2'', h2)] \<and>
   header_Values h1 ''Authorization'' = [] \<and> header_Values h2 ''Authorization'' = [''Bearer t'']"
proof -
  let ?first = "http_url ''a.example'' ''/x''" and ?t1 = "http_url ''cdn.a.example'' ''/1''" and ?t2 = "http_url ''cdn.a.example'' ''/2''"
  let ?origin = "Some (http_url ''a.example'' ''/'')"
  have hyp: "client_forwards ?first ?t1" "client_forwards ?first ?t2"
    "\<not> sameHTTPOrigin ascii_externals ascii_paths (Some ?first) (Some ?t1)" "sameHTTPOrigin ascii_externals ascii_paths (Some ?t1) (Some ?t2)"
    "validateExternalTarget ascii_externals ascii_paths ?origin (Some ?t1) True = None"
    "validateExternalTarget ascii_externals ascii_paths ?origin (Some ?t2) True = None" "\<not> EqualFold ascii_paths (u_Scheme ?t1) ''http''"
    by code_simp+
  have "header_Values token_header ''Authorization'' = [''Bearer t'']" by code_simp
  then show ?thesis using redirect_leaks_to_subdomain [OF hyp, of token_header] by auto
qed

text \<open>
  A redirect to a URL with user information is refused, also on the configured origin itself: a
  relative \<open>Location\<close> below an origin that is configured with credentials cannot be followed.
\<close>

lemma redirect_with_userinfo_refused:
  "u_User target \<Longrightarrow> fst (secureRedirectCheck E X origin guard None h target via) \<noteq> None"
  by (auto simp: secureRedirectCheck_def validateExternalTarget_def Let_def)

section \<open>The race of the connection attempts\<close>

text \<open>
  \<open>dialResolved\<close> and \<open>awaitDialAttempts\<close>. Attempt \<open>i\<close> dials the \<open>i\<close>-th address, and its connection is
  named by \<open>i\<close>. \<open>ra_closed\<close> lists the connections in the order in which they were closed,
  \<open>ra_results\<close> is the buffered channel (\<open>True\<close> for a result without error). An event carries whether
  a context is found cancelled.
\<close>

datatype dial_attempt = AttemptDialing | AttemptConnected | AttemptPosting bool | AttemptOver

datatype race_await = Awaiting nat | Awaited "nat option"

record dial_race =
  ra_finished :: bool
  ra_winner :: "nat option"
  ra_opened :: "nat set"
  ra_closed :: "nat list"
  ra_results :: "bool list"
  ra_attempt :: "nat \<Rightarrow> dial_attempt"
  ra_await :: race_await

definition race_offer :: "nat \<Rightarrow> dial_race \<Rightarrow> bool \<times> dial_race" where
  "race_offer i r =
     (if \<not> ra_finished r \<and> ra_winner r = None then (True, r\<lparr>ra_winner := Some i\<rparr>)
      else (False, r\<lparr>ra_closed := i # ra_closed r\<rparr>))"

definition race_takeWinner :: "dial_race \<Rightarrow> nat option \<times> dial_race" where
  "race_takeWinner r = (if ra_finished r then (None, r) else (ra_winner r, r\<lparr>ra_finished := True, ra_winner := None\<rparr>))"

definition race_abandon :: "dial_race \<Rightarrow> dial_race" where
  "race_abandon r =
     (if ra_finished r then r
      else r\<lparr>ra_finished := True, ra_winner := None,
             ra_closed := (case ra_winner r of Some c \<Rightarrow> c # ra_closed r | None \<Rightarrow> ra_closed r)\<rparr>)"

definition start_race :: "nat \<Rightarrow> dial_race" where
  "start_race n = \<lparr>ra_finished = False, ra_winner = None, ra_opened = {}, ra_closed = [], ra_results = [],
     ra_attempt = (\<lambda>i. if i < n then AttemptDialing else AttemptOver), ra_await = Awaiting n\<rparr>"

datatype race_event =
    DialFails nat | DialConnects nat | Offers nat bool | Posts nat | Receives bool | Cancels

fun race_step :: "race_event \<Rightarrow> dial_race \<Rightarrow> dial_race option" where
  "race_step (DialFails i) r =
     (if ra_attempt r i = AttemptDialing then Some (r\<lparr>ra_attempt := (ra_attempt r)(i := AttemptPosting False)\<rparr>) else None)"
| "race_step (DialConnects i) r =
     (if ra_attempt r i = AttemptDialing
      then Some (r\<lparr>ra_opened := insert i (ra_opened r), ra_attempt := (ra_attempt r)(i := AttemptConnected)\<rparr>) else None)"
| "race_step (Offers i cancelled) r =
     (if ra_attempt r i \<noteq> AttemptConnected then None
      else if cancelled
      then Some (r\<lparr>ra_closed := i # ra_closed r, ra_attempt := (ra_attempt r)(i := AttemptPosting False)\<rparr>)
      else case race_offer i r of (ok, r') \<Rightarrow> Some (r'\<lparr>ra_attempt := (ra_attempt r)(i := AttemptPosting ok)\<rparr>))"
| "race_step (Posts i) r =
     (case ra_attempt r i of
        AttemptPosting ok \<Rightarrow> Some (r\<lparr>ra_results := ra_results r @ [ok], ra_attempt := (ra_attempt r)(i := AttemptOver)\<rparr>)
      | _ \<Rightarrow> None)"
| "race_step (Receives cancelled) r =
     (case (ra_await r, ra_results r) of
        (Awaiting (Suc n), ok # rest) \<Rightarrow>
          let r1 = r\<lparr>ra_results := rest\<rparr> in
          if ok then
            if cancelled then Some ((race_abandon r1)\<lparr>ra_await := Awaited None\<rparr>)
            else (case race_takeWinner r1 of
                    (Some c, r2) \<Rightarrow> Some (r2\<lparr>ra_await := Awaited (Some c)\<rparr>)
                  | (None, r2) \<Rightarrow> Some ((race_abandon r2)\<lparr>ra_await := Awaited None\<rparr>))
          else if n = 0 then Some ((race_abandon r1)\<lparr>ra_await := Awaited None\<rparr>)
          else Some (r1\<lparr>ra_await := Awaiting n\<rparr>)
      | _ \<Rightarrow> None)"
| "race_step Cancels r =
     (case ra_await r of
        Awaiting (Suc n) \<Rightarrow> Some ((race_abandon r)\<lparr>ra_await := Awaited None\<rparr>)
      | _ \<Rightarrow> None)"

inductive race_reach :: "nat \<Rightarrow> dial_race \<Rightarrow> bool" for n where
  start: "0 < n \<Longrightarrow> race_reach n (start_race n)"
| step: "race_reach n r \<Longrightarrow> race_step ev r = Some r' \<Longrightarrow> race_reach n r'"

text \<open>
  The connections that no attempt holds any more are owned exactly once: they are the winner, the
  returned one, or closed. An undelivered success has a winner behind it.
\<close>

definition race_owned :: "dial_race \<Rightarrow> nat list" where
  "race_owned r = (case ra_winner r of Some c \<Rightarrow> [c] | None \<Rightarrow> []) @
     (case ra_await r of Awaited (Some c) \<Rightarrow> [c] | _ \<Rightarrow> []) @ ra_closed r"

definition race_inv :: "dial_race \<Rightarrow> bool" where
  "race_inv r \<longleftrightarrow>
     distinct (race_owned r) \<and>
     set (race_owned r) = {i \<in> ra_opened r. ra_attempt r i \<noteq> AttemptConnected} \<and>
     (\<forall>i. ra_attempt r i = AttemptDialing \<longrightarrow> i \<notin> ra_opened r) \<and>
     (\<forall>i. ra_attempt r i = AttemptConnected \<longrightarrow> i \<in> ra_opened r) \<and>
     (ra_finished r \<longleftrightarrow> (\<exists>c. ra_await r = Awaited c)) \<and>
     (ra_finished r \<longrightarrow> ra_winner r = None) \<and>
     (\<not> ra_finished r \<longrightarrow> (True \<in> set (ra_results r) \<or> (\<exists>i. ra_attempt r i = AttemptPosting True)) = (ra_winner r \<noteq> None))"

definition busy :: "(nat \<Rightarrow> dial_attempt) \<Rightarrow> nat set" where
  "busy a = {i. a i \<noteq> AttemptOver}"

definition race_count :: "dial_race \<Rightarrow> bool" where
  "race_count r \<longleftrightarrow>
     finite (busy (ra_attempt r)) \<and>
     (\<forall>k. ra_await r = Awaiting k \<longrightarrow> 0 < k \<and> k = card (busy (ra_attempt r)) + length (ra_results r))"

lemma race_start_inv: "0 < n \<Longrightarrow> race_inv (start_race n) \<and> race_count (start_race n)"
proof -
  assume "0 < n"
  moreover have "busy (ra_attempt (start_race n)) = {..<n}" by (auto simp: start_race_def busy_def)
  ultimately show ?thesis by (auto simp: race_inv_def race_count_def race_owned_def start_race_def)
qed

lemma race_owned_update [simp]:
  "race_owned (r\<lparr>ra_attempt := a\<rparr>) = race_owned r" "race_owned (r\<lparr>ra_opened := b\<rparr>) = race_owned r"
  "race_owned (r\<lparr>ra_results := rs\<rparr>) = race_owned r"
  by (simp_all add: race_owned_def)

lemma other_posting: "a i \<noteq> P \<Longrightarrow> v \<noteq> P \<Longrightarrow> (\<exists>j. (a(i := v)) j = P) \<longleftrightarrow> (\<exists>j. a j = P)"
  by (metis fun_upd_apply)

lemma race_invD:
  assumes "race_inv r"
  shows "distinct (race_owned r)" "set (race_owned r) = {i \<in> ra_opened r. ra_attempt r i \<noteq> AttemptConnected}"
    "ra_attempt r i = AttemptDialing \<Longrightarrow> i \<notin> ra_opened r" "ra_attempt r i = AttemptConnected \<Longrightarrow> i \<in> ra_opened r"
    "ra_finished r \<longleftrightarrow> (\<exists>c. ra_await r = Awaited c)" "ra_finished r \<Longrightarrow> ra_winner r = None"
    "\<not> ra_finished r \<Longrightarrow> (True \<in> set (ra_results r) \<or> (\<exists>i. ra_attempt r i = AttemptPosting True)) = (ra_winner r \<noteq> None)"
  using assms by (simp_all add: race_inv_def)

text \<open>The consumer ends: every owned connection stays owned once.\<close>

lemma race_end_inv:
  assumes "race_inv r" and "ra_opened r' = ra_opened r" "ra_attempt r' = ra_attempt r"
    and "ra_finished r'" "ra_winner r' = None" "ra_await r' = Awaited c" "mset (race_owned r') = mset (race_owned r)"
  shows "race_inv r'"
  using race_invD [OF assms(1)] assms(2-6) mset_eq_imp_distinct_iff [OF assms(7)] mset_eq_setD [OF assms(7)]
  unfolding race_inv_def by simp

lemma race_abandon_inv:
  assumes "race_inv r" "ra_await r = Awaiting k"
  shows "race_inv ((race_abandon (r\<lparr>ra_results := rs\<rparr>))\<lparr>ra_await := Awaited None\<rparr>)"
  using race_invD(5) [OF assms(1)] assms(2)
  by (intro race_end_inv [OF assms(1)]) (auto simp: race_abandon_def race_owned_def split: option.splits)

lemma race_take_inv:
  assumes "race_inv r" "ra_await r = Awaiting k" "ra_winner r = Some c"
  shows "race_inv (r\<lparr>ra_results := rs, ra_finished := True, ra_winner := None, ra_await := Awaited (Some c)\<rparr>)"
  using race_invD(5) [OF assms(1)] assms(2,3) by (intro race_end_inv [OF assms(1)]) (auto simp: race_owned_def)

text \<open>A success that is received has a winner behind it.\<close>

lemma race_receive:
  assumes "race_inv r" "ra_await r = Awaiting (Suc n)" "ra_results r = ok # rest" "race_step (Receives cancelled) r = Some r'"
  shows "if ok \<and> \<not> cancelled
    then \<exists>c. ra_winner r = Some c \<and>
      r' = r\<lparr>ra_results := rest, ra_finished := True, ra_winner := None, ra_await := Awaited (Some c)\<rparr>
    else r' = (if \<not> ok \<and> 0 < n then r\<lparr>ra_results := rest, ra_await := Awaiting n\<rparr>
               else (race_abandon (r\<lparr>ra_results := rest\<rparr>))\<lparr>ra_await := Awaited None\<rparr>)"
proof -
  have "\<not> ra_finished r" using race_invD(5) [OF assms(1)] assms(2) by simp
  moreover have "ok \<Longrightarrow> ra_winner r \<noteq> None" using race_invD(7) [OF assms(1) calculation] assms(3) by auto
  ultimately show ?thesis using assms(2-4) by (auto simp: race_takeWinner_def Let_def split: if_splits)
qed

lemma race_step_inv:
  assumes "race_step ev r = Some r'" and "race_inv r"
  shows "race_inv r'"
proof (cases ev)
  case (DialFails i)
  then have i: "ra_attempt r i = AttemptDialing" and r': "r' = r\<lparr>ra_attempt := (ra_attempt r)(i := AttemptPosting False)\<rparr>"
    using assms(1) by (auto split: if_splits)
  note inv = race_invD [OF assms(2)]
  have "(\<exists>j. ra_attempt r' j = AttemptPosting True) \<longleftrightarrow> (\<exists>j. ra_attempt r j = AttemptPosting True)"
    using other_posting [of "ra_attempt r" i "AttemptPosting True" "AttemptPosting False"] i by (simp add: r')
  then show ?thesis using inv i unfolding race_inv_def by (auto simp: r')
next
  case (DialConnects i)
  then have i: "ra_attempt r i = AttemptDialing"
    and r': "r' = r\<lparr>ra_opened := insert i (ra_opened r), ra_attempt := (ra_attempt r)(i := AttemptConnected)\<rparr>"
    using assms(1) by (auto split: if_splits)
  note inv = race_invD [OF assms(2)]
  have "(\<exists>j. ra_attempt r' j = AttemptPosting True) \<longleftrightarrow> (\<exists>j. ra_attempt r j = AttemptPosting True)"
    using other_posting [of "ra_attempt r" i "AttemptPosting True" "AttemptConnected"] i by (simp add: r')
  then show ?thesis using inv i unfolding race_inv_def by (auto simp: r')
next
  case (Offers i cancelled)
  have i: "ra_attempt r i = AttemptConnected" using assms(1) Offers by (auto split: if_splits)
  then have fresh: "i \<in> ra_opened r" "i \<notin> set (race_owned r)" using assms(2) by (auto simp: race_inv_def)
  define ok where "ok \<longleftrightarrow> \<not> cancelled \<and> \<not> ra_finished r \<and> ra_winner r = None"
  define r1 where "r1 = (if ok then r\<lparr>ra_winner := Some i\<rparr> else r\<lparr>ra_closed := i # ra_closed r\<rparr>)"
  have r': "r' = r1\<lparr>ra_attempt := (ra_attempt r)(i := AttemptPosting ok)\<rparr>"
    using assms(1) Offers i by (auto simp: ok_def r1_def race_offer_def split: if_splits)
  have owned: "mset (race_owned r') = add_mset i (mset (race_owned r))"
    by (auto simp: r' r1_def ok_def race_owned_def split: option.splits)
  then have "distinct (race_owned r') \<longleftrightarrow> distinct (i # race_owned r)" "set (race_owned r') = insert i (set (race_owned r))"
    by (metis mset.simps(2) mset_eq_imp_distinct_iff) (metis owned set_mset_add_mset_insert set_mset_mset)
  note own = this
  have post: "(\<exists>j. ra_attempt r' j = AttemptPosting True) \<longleftrightarrow> ok \<or> (\<exists>j. ra_attempt r j = AttemptPosting True)"
    using other_posting [of "ra_attempt r" i "AttemptPosting True" "AttemptPosting False"] i by (cases ok) (auto simp: r')
  have upd: "ra_opened r' = ra_opened r" "ra_finished r' = ra_finished r" "ra_results r' = ra_results r" "ra_await r' = ra_await r"
    "ra_winner r' = (if ok then Some i else ra_winner r)" "ra_attempt r' = (ra_attempt r)(i := AttemptPosting ok)"
    by (simp_all add: r' r1_def)
  note inv = race_invD [OF assms(2)]
  have "set (race_owned r') = {j \<in> ra_opened r'. ra_attempt r' j \<noteq> AttemptConnected}"
    using own(2) inv(2) fresh by (auto simp: upd)
  moreover have "\<forall>j. ra_attempt r' j = AttemptDialing \<longrightarrow> j \<notin> ra_opened r'" "\<forall>j. ra_attempt r' j = AttemptConnected \<longrightarrow> j \<in> ra_opened r'"
    using inv(3,4) by (auto simp: upd)
  moreover have "ra_finished r' \<longrightarrow> ra_winner r' = None" using inv(6) by (simp add: upd ok_def)
  moreover have "\<not> ra_finished r' \<longrightarrow> (True \<in> set (ra_results r') \<or> (\<exists>i. ra_attempt r' i = AttemptPosting True)) = (ra_winner r' \<noteq> None)"
    unfolding post upd(3,5) using inv(7) upd(2) by auto
  ultimately show ?thesis using own(1) inv(1,5) fresh(2) unfolding race_inv_def by (simp add: upd)
next
  case (Posts i)
  then obtain ok where i: "ra_attempt r i = AttemptPosting ok"
    and r': "r' = r\<lparr>ra_results := ra_results r @ [ok], ra_attempt := (ra_attempt r)(i := AttemptOver)\<rparr>"
    using assms(1) by (auto split: dial_attempt.splits)
  have "(True \<in> set (ra_results r') \<or> (\<exists>j. ra_attempt r' j = AttemptPosting True)) \<longleftrightarrow>
        (True \<in> set (ra_results r) \<or> (\<exists>j. ra_attempt r j = AttemptPosting True))"
    using other_posting [of "ra_attempt r" i "AttemptPosting True" AttemptOver] i by (cases ok) (auto simp: r')
  then show ?thesis using race_invD [OF assms(2)] i unfolding race_inv_def by (auto simp: r')
next
  case (Receives cancelled)
  then obtain n ok rest where n: "ra_await r = Awaiting (Suc n)" "ra_results r = ok # rest"
    using assms(1) by (auto split: race_await.splits nat.splits list.splits)
  have step: "race_step (Receives cancelled) r = Some r'" using assms(1) Receives by simp
  show ?thesis
  proof (cases "\<not> ok \<and> 0 < n")
    case True
    then have r': "r' = r\<lparr>ra_results := rest, ra_await := Awaiting n\<rparr>" using race_receive [OF assms(2) n step] by auto
    have "race_owned r' = race_owned r" using n by (simp add: r' race_owned_def)
    then show ?thesis using race_invD [OF assms(2)] True n unfolding race_inv_def by (simp add: r')
  next
    case False
    then show ?thesis
      using race_receive [OF assms(2) n step] race_take_inv [OF assms(2) n(1)] race_abandon_inv [OF assms(2) n(1)]
      by (auto split: if_splits)
  qed
next
  case Cancels
  then obtain n where n: "ra_await r = Awaiting (Suc n)" "r' = (race_abandon r)\<lparr>ra_await := Awaited None\<rparr>"
    using assms(1) by (auto split: race_await.splits nat.splits)
  then show ?thesis using race_abandon_inv [OF assms(2) n(1), of "ra_results r"] by simp
qed

lemma busy_over:
  assumes "finite (busy a)" "a i \<noteq> AttemptOver"
  shows "finite (busy (a(i := AttemptOver)))" "card (busy a) = Suc (card (busy (a(i := AttemptOver))))"
proof -
  have "busy (a(i := AttemptOver)) = busy a - {i}" "i \<in> busy a" using assms(2) by (auto simp: busy_def)
  then show "finite (busy (a(i := AttemptOver)))" "card (busy a) = Suc (card (busy (a(i := AttemptOver))))"
    using assms(1) card_Suc_Diff1 [of "busy a" i] by simp_all
qed

lemma busy_same: "a i \<noteq> AttemptOver \<Longrightarrow> v \<noteq> AttemptOver \<Longrightarrow> busy (a(i := v)) = busy a"
  by (auto simp: busy_def)

lemma race_abandon_frame [simp]:
  "ra_attempt (race_abandon r) = ra_attempt r" "ra_await (race_abandon r) = ra_await r" "ra_results (race_abandon r) = ra_results r"
  by (simp_all add: race_abandon_def)

lemma race_step_count:
  assumes "race_step ev r = Some r'" and "race_count r" and "race_inv r"
  shows "race_count r'"
proof (cases ev)
  case (DialFails i)
  then show ?thesis using assms(1,2) busy_same [of "ra_attempt r" i "AttemptPosting False"]
    by (auto simp: race_count_def split: if_splits)
next
  case (DialConnects i)
  then show ?thesis using assms(1,2) busy_same [of "ra_attempt r" i AttemptConnected]
    by (auto simp: race_count_def split: if_splits)
next
  case (Offers i cancelled)
  then obtain ok where i: "ra_attempt r i \<noteq> AttemptOver" and r': "ra_attempt r' = (ra_attempt r)(i := AttemptPosting ok)"
      "ra_await r' = ra_await r" "ra_results r' = ra_results r"
    using assms(1) by (auto simp: race_offer_def split: if_splits)
  show ?thesis using assms(2) busy_same [of "ra_attempt r" i "AttemptPosting ok"] i unfolding race_count_def r' by simp
next
  case (Posts i)
  then obtain ok where i: "ra_attempt r i = AttemptPosting ok"
    and r': "r' = r\<lparr>ra_results := ra_results r @ [ok], ra_attempt := (ra_attempt r)(i := AttemptOver)\<rparr>"
    using assms(1) by (auto split: dial_attempt.splits)
  have "finite (busy (ra_attempt r))" using assms(2) by (simp add: race_count_def)
  from busy_over [OF this, of i] show ?thesis using assms(2) i unfolding race_count_def by (simp add: r')
next
  case (Receives cancelled)
  then obtain n ok rest where n: "ra_await r = Awaiting (Suc n)" "ra_results r = ok # rest"
    using assms(1) by (auto split: race_await.splits nat.splits list.splits)
  have "race_step (Receives cancelled) r = Some r'" using assms(1) Receives by simp
  from race_receive [OF assms(3) n this] show ?thesis using assms(2) n
    by (cases "ok \<and> \<not> cancelled"; cases "\<not> ok \<and> 0 < n") (auto simp: race_count_def)
next
  case Cancels
  then show ?thesis using assms(1,2) by (auto simp: race_count_def split: race_await.splits nat.splits)
qed

lemma race_reach_inv: "race_reach n r \<Longrightarrow> race_inv r \<and> race_count r"
  by (induction rule: race_reach.induct) (use race_start_inv race_step_inv race_step_count in blast)+

text \<open>
  C22: The race of the connection attempts loses no connection and never hangs on its own. However
  the attempts, the cancellations and the consumer are interleaved: when all attempts are over, a
  waiting consumer has a result to receive; and when it has returned, each connection that was
  opened is either the one it returned, and open, or has been closed exactly once. A success that
  is received without a cancellation yields a connection.
\<close>

theorem dial_race_owns_connections:
  assumes "race_reach n r"
  shows "(\<forall>k. ra_await r = Awaiting k \<and> (\<forall>i. ra_attempt r i = AttemptOver) \<longrightarrow> ra_results r \<noteq> []) \<and>
    (\<forall>c. ra_await r = Awaited c \<and> (\<forall>i. ra_attempt r i = AttemptOver) \<longrightarrow>
       distinct (ra_closed r) \<and> set_option c \<subseteq> ra_opened r \<and> set (ra_closed r) = ra_opened r - set_option c) \<and>
    (\<forall>k rest r'. ra_await r = Awaiting k \<and> ra_results r = True # rest \<and> race_step (Receives False) r = Some r' \<longrightarrow>
       (\<exists>c \<in> ra_opened r. ra_await r' = Awaited (Some c)))"
proof (intro conjI allI impI, goal_cases)
  case (1 k)
  then show ?case using race_reach_inv [OF assms] by (auto simp: race_count_def busy_def)
next
  case (2 c)
  then show ?case using race_invD(1,2,5,6) [OF conjunct1 [OF race_reach_inv [OF assms]]]
    by (cases c) (auto simp: race_owned_def)
next
  case (3 c)
  then show ?case using race_invD(1,2,5,6) [OF conjunct1 [OF race_reach_inv [OF assms]]]
    by (cases c) (auto simp: race_owned_def)
next
  case (4 c)
  then show ?case using race_invD(1,2,5,6) [OF conjunct1 [OF race_reach_inv [OF assms]]]
    by (cases c) (auto simp: race_owned_def)
next
  case (5 k rest r')
  note inv = race_reach_inv [OF assms]
  obtain m where m: "k = Suc m" using 5 inv by (cases k) (auto simp: race_count_def)
  then obtain c where "ra_winner r = Some c" "ra_await r' = Awaited (Some c)"
    using race_receive [of r m True rest False r'] inv 5 by auto
  moreover have "c \<in> set (race_owned r)" using calculation(1) by (simp add: race_owned_def)
  ultimately show ?case using race_invD(2) [OF conjunct1 [OF inv]] by auto
qed

theorem dial_race_owns_connections_witness:
  "\<exists>r. race_reach 2 r \<and> ra_await r = Awaited (Some 1) \<and> ra_opened r = {0, 1} \<and> set (ra_closed r) = {0}"
proof -
  let ?step = "\<lambda>ev r. case r of None \<Rightarrow> None | Some r \<Rightarrow> race_step ev r"
  let ?evs = "[DialConnects 0, DialConnects 1, Offers 1 False, Offers 0 False, Posts 1, Posts 0, Receives False]"
  have run: "race_reach 2 r'" if "foldl (\<lambda>r ev. ?step ev r) (Some r) evs = Some r'" "race_reach 2 r" for r r' evs
    using that
  proof (induction evs arbitrary: r)
    case (Cons ev evs)
    have none: "foldl (\<lambda>r ev. ?step ev r) None evs = None" for evs by (induction evs) auto
    show ?case using Cons none by (cases "race_step ev r") (auto intro: race_reach.step)
  qed simp
  obtain r where r: "foldl (\<lambda>r ev. ?step ev r) (Some (start_race 2)) ?evs = Some r"
    and out: "ra_await r = Awaited (Some 1)" "ra_opened r = {0, 1}" "\<forall>i. ra_attempt r i = AttemptOver"
    by (simp add: start_race_def race_offer_def race_takeWinner_def Let_def) (use insert_commute less_2_cases in force)
  have reach: "race_reach 2 r" using run [OF r race_reach.start] by simp
  then have "set (ra_closed r) = {0}" using dial_race_owns_connections [OF reach] out by auto
  then show ?thesis using reach out by blast
qed

end
