(* ===== verification/Origin_Request.thy ===== *)
theory Origin_Request
  imports Network_Guard "HOL-Library.Sublist"
begin

text \<open>
  Which URL a request of an upstream names (\<open>upstream/request.go\<close>, \<open>pool.go\<close>, \<open>bootstrap.go\<close>): a path
  below the configured origin, an absolute URL of that origin, or an external URL that metadata
  declared, and when the credentials of the origin are added. The parser and the printer of
  \<open>net/url\<close> are the parameters \<open>url_calls\<close>; the decoding of escapes and \<open>path.Clean\<close> are modelled.
\<close>

record parsed_url = url +
  pu_Opaque :: string
  pu_RawQuery :: string
  pu_EscapedPath :: string
  pu_UserInfo :: string            \<comment> \<open>\<open>User.String()\<close>, when \<open>User\<close> is not nil\<close>

record url_calls =
  url_Parse :: "string \<Rightarrow> parsed_url option"
  url_ParseRequestURI :: "string \<Rightarrow> parsed_url option"
  url_String :: "parsed_url \<Rightarrow> string"

text \<open>The fields that the network guard reads.\<close>

definition guard_view :: "parsed_url \<Rightarrow> url" where
  "guard_view u = \<lparr>u_Scheme = u_Scheme u, u_Host = u_Host u, u_User = u_User u, u_Path = u_Path u, u_Fragment = u_Fragment u, u_Text = u_Text u\<rparr>"

definition validHTTPURL :: "url_calls \<Rightarrow> string \<Rightarrow> bool" where
  "validHTTPURL P value =
     (case url_ParseRequestURI P value of
        None \<Rightarrow> False
      | Some parsed \<Rightarrow> u_Host parsed \<noteq> [] \<and> (u_Scheme parsed = ''http'' \<or> u_Scheme parsed = ''https''))"

definition validOriginURL :: "url_calls \<Rightarrow> string \<Rightarrow> bool" where
  "validOriginURL P value =
     (case url_Parse P value of
        None \<Rightarrow> False
      | Some parsed \<Rightarrow>
          u_Scheme parsed \<noteq> [] \<and> pu_Opaque parsed = [] \<and> u_Host parsed \<noteq> [] \<and>
          (u_Scheme parsed = ''http'' \<or> u_Scheme parsed = ''https'') \<and> pu_RawQuery parsed = [] \<and> u_Fragment parsed = [])"

section \<open>Paths\<close>

definition validOriginPathValue :: "string \<Rightarrow> bool" where
  "validOriginPathValue value \<longleftrightarrow>
     HasPrefix value ''/'' \<and> \<not> ContainsByte value (CHR 0x5C) \<and> \<not> Contains value ''//'' \<and>
     list_all (\<lambda>segment. segment \<noteq> ''.'' \<and> segment \<noteq> ''..'') (Split value (CHR ''/''))"

definition maxOriginPathDecodeLayers :: nat where
  "maxOriginPathDecodeLayers = 8"

fun decode_layers :: "nat \<Rightarrow> string \<Rightarrow> bool" where
  "decode_layers 0 candidate = False"
| "decode_layers (Suc n) candidate =
     (if \<not> validOriginPathValue candidate then False
      else case PathUnescape candidate of
          None \<Rightarrow> True
        | Some decoded \<Rightarrow> if decoded = candidate then True else decode_layers n decoded)"

definition validCanonicalOriginPath :: "string \<Rightarrow> bool \<Rightarrow> bool" where
  "validCanonicalOriginPath escapedPath allowEmpty =
     (if escapedPath = [] then allowEmpty else decode_layers maxOriginPathDecodeLayers escapedPath)"

definition validOriginRequestPath :: "parsed_url option \<Rightarrow> bool" where
  "validOriginRequestPath target =
     (case target of
        None \<Rightarrow> False
      | Some u \<Rightarrow> if u_Fragment u \<noteq> [] then False else validCanonicalOriginPath (pu_EscapedPath u) False)"

definition validConfiguredOriginPath :: "parsed_url option \<Rightarrow> bool" where
  "validConfiguredOriginPath target =
     (case target of None \<Rightarrow> False | Some u \<Rightarrow> validCanonicalOriginPath (pu_EscapedPath u) True)"

text \<open>\<open>path.Clean\<close>: the segments that remain, in reverse order, and their text.\<close>

definition clean_segment :: "bool \<Rightarrow> string \<Rightarrow> string list \<Rightarrow> string list" where
  "clean_segment rooted segment out =
     (if segment = [] \<or> segment = ''.'' then out
      else if segment = ''..'' then
        (case out of
           [] \<Rightarrow> if rooted then [] else [''..'']
         | s # rest \<Rightarrow> if s = ''..'' then ''..'' # out else rest)
      else segment # out)"

definition clean_segments :: "string \<Rightarrow> string list" where
  "clean_segments p = rev (fold (clean_segment (HasPrefix p ''/'')) (Split p (CHR ''/'')) [])"

definition path_Clean :: "string \<Rightarrow> string" where
  "path_Clean p =
     (let text = Join (clean_segments p) ''/'' in
      if HasPrefix p ''/'' then CHR ''/'' # text else if text = [] then ''.'' else text)"

definition urlPathWithinBase :: "string \<Rightarrow> string \<Rightarrow> bool" where
  "urlPathWithinBase basePath targetPath =
     (let canonicalBase = path_Clean (CHR ''/'' # TrimPrefix basePath ''/'');
          canonicalTarget = path_Clean (CHR ''/'' # TrimPrefix targetPath ''/'') in
      canonicalBase = ''/'' \<or> canonicalTarget = canonicalBase \<or> HasPrefix canonicalTarget (canonicalBase @ ''/''))"

definition sameURLUserInfo :: "parsed_url \<Rightarrow> parsed_url \<Rightarrow> bool" where
  "sameURLUserInfo left right =
     (if \<not> u_User left \<or> \<not> u_User right then \<not> u_User left \<and> \<not> u_User right
      else pu_UserInfo left = pu_UserInfo right)"

section \<open>The URL of a request\<close>

definition originRequestURL :: "url_calls \<Rightarrow> path_externals \<Rightarrow> string \<Rightarrow> string \<Rightarrow> gerror + string" where
  "originRequestURL P X base path =
     (if \<not> HasPrefix path ''/'' \<or> HasPrefix path ''//'' then Inl [ErrMessage ''invalid relative URL'']
      else
        case (url_ParseRequestURI P path, url_Parse P base) of
          (Some relative, Some baseURL) \<Rightarrow>
            if u_Scheme relative \<noteq> [] \<or> u_Host relative \<noteq> [] \<or> \<not> validOriginRequestPath (Some relative) \<or>
               \<not> validHTTPURL P base \<or> \<not> validConfiguredOriginPath (Some baseURL) \<or>
               pu_RawQuery baseURL \<noteq> [] \<or> u_Fragment baseURL \<noteq> []
            then Inl [ErrMessage ''invalid relative URL'']
            else
              (let reqURL = strip_suffix_while (\<lambda>c. c = CHR ''/'') base @ path in
               if \<not> validHTTPURL P reqURL then Inl [ErrMessage ''invalid HTTP URL'']
               else case url_Parse P reqURL of
                   None \<Rightarrow> Inl [ErrMessage ''target escaped configured origin'']
                 | Some finalURL \<Rightarrow>
                     if \<not> EqualFold X (u_Scheme finalURL) (u_Scheme baseURL) \<or> \<not> EqualFold X (u_Host finalURL) (u_Host baseURL) \<or>
                        \<not> sameURLUserInfo finalURL baseURL \<or> \<not> urlPathWithinBase (u_Path baseURL) (u_Path finalURL)
                     then Inl [ErrMessage ''target escaped configured origin'']
                     else Inr reqURL)
        | _ \<Rightarrow> Inl [ErrMessage ''invalid relative URL''])"

text \<open>\<open>target.User = origin.User\<close>.\<close>

definition with_user_of :: "parsed_url \<Rightarrow> parsed_url \<Rightarrow> parsed_url" where
  "with_user_of origin target = target\<lparr>u_User := u_User origin, pu_UserInfo := pu_UserInfo origin\<rparr>"

text \<open>The URL that \<open>RequestOriginURL\<close> requests; \<open>ParseRequestURI\<close> succeeds on what \<open>validHTTPURL\<close> accepts.\<close>

definition RequestOriginURL :: "url_calls \<Rightarrow> externals \<Rightarrow> path_externals \<Rightarrow> string \<Rightarrow> string \<Rightarrow> gerror + string" where
  "RequestOriginURL P E X originText reqURL =
     (if \<not> validHTTPURL P reqURL then Inl [ErrMessage ''invalid HTTP URL'']
      else
        case (url_Parse P reqURL, url_Parse P originText) of
          (Some target, Some origin) \<Rightarrow>
            if \<not> sameHTTPOrigin E X (Some (guard_view origin)) (Some (guard_view target)) \<or>
               u_User target \<and> \<not> sameURLUserInfo origin target
            then Inl [ErrMessage ''target escaped configured origin'']
            else if \<not> u_User target \<and> u_User origin then Inr (url_String P (with_user_of origin target))
            else Inr reqURL
        | _ \<Rightarrow> Inl [ErrMessage ''target escaped configured origin''])"

definition RequestURL :: "url_calls \<Rightarrow> externals \<Rightarrow> path_externals \<Rightarrow> string \<Rightarrow> bool \<Rightarrow> string \<Rightarrow> gerror + string" where
  "RequestURL P E X originText directNetworkGuard reqURL =
     (if \<not> validHTTPURL P reqURL then Inl [ErrMessage ''invalid HTTP URL'']
      else if validateExternalTarget E X (map_option guard_view (url_Parse P originText))
           (map_option guard_view (url_Parse P reqURL)) directNetworkGuard \<noteq> None
      then Inl [ErrMessage ''external target rejected'']
      else Inr reqURL)"

definition fetchURL :: "url_calls \<Rightarrow> externals \<Rightarrow> path_externals \<Rightarrow> string \<Rightarrow> bool \<Rightarrow> string \<Rightarrow> bool \<Rightarrow> gerror + string" where
  "fetchURL P E X originText directNetworkGuard reqURL restoreOriginCredentials =
     (case RequestURL P E X originText directNetworkGuard reqURL of
        Inl e \<Rightarrow> Inl e
      | Inr _ \<Rightarrow>
          (case (url_Parse P originText, url_Parse P reqURL) of
             (Some origin, Some target) \<Rightarrow>
               if restoreOriginCredentials \<and> sameHTTPOrigin E X (Some (guard_view origin)) (Some (guard_view target)) \<and> u_User origin
               then Inr (url_String P (with_user_of origin target)) else Inr reqURL
           | _ \<Rightarrow> Inr reqURL))"

section \<open>No decoding of an accepted path leaves the base\<close>

text \<open>What \<open>n\<close> further consumers see that each decode the path once; \<open>None\<close> when a decoding fails.\<close>

fun decoded_at :: "nat \<Rightarrow> string \<Rightarrow> string option" where
  "decoded_at 0 p = Some p"
| "decoded_at (Suc n) p = (case PathUnescape p of None \<Rightarrow> None | Some d \<Rightarrow> decoded_at n d)"

lemma decoded_at_fixed: "PathUnescape p = Some p \<Longrightarrow> decoded_at n p = Some p"
  by (induction n) simp_all

lemma decode_layers_valid: "decode_layers n p \<Longrightarrow> decoded_at k p = Some d \<Longrightarrow> validOriginPathValue d"
proof (induction n p arbitrary: k rule: decode_layers.induct)
  case (2 n p)
  show ?case
  proof (cases "k = 0 \<or> PathUnescape p = Some p")
    case True
    then show ?thesis using 2(2,3) decoded_at_fixed [of p k] by (auto split: if_splits)
  next
    case False
    then obtain k' d' where "k = Suc k'" "PathUnescape p = Some d'" "decoded_at k' d' = Some d" "d' \<noteq> p"
      using 2(3) by (cases k) (auto split: option.splits)
    then show ?thesis using 2(1) [of d' k'] 2(2) by (auto split: if_splits)
  qed
qed simp

definition normal_segment :: "string \<Rightarrow> bool" where
  "normal_segment s \<longleftrightarrow> s \<noteq> [] \<and> s \<noteq> ''..'' \<and> CHR ''/'' \<notin> set s"

lemma clean_segment_normal:
  assumes "list_all normal_segment out" and "CHR ''/'' \<notin> set segment"
  shows "list_all normal_segment (clean_segment True segment out)"
proof (cases "segment = [] \<or> segment = ''.'' \<or> segment = ''..''")
  case True
  then show ?thesis using assms by (cases out) (simp_all add: clean_segment_def normal_segment_def)
next
  case False
  then have "normal_segment segment" "clean_segment True segment out = segment # out"
    using assms(2) by (simp_all add: clean_segment_def normal_segment_def)
  then show ?thesis using assms(1) by simp
qed

lemma clean_segments_normal:
  assumes "HasPrefix p ''/''"
  shows "list_all normal_segment (clean_segments p)"
proof -
  have "list_all normal_segment (fold (clean_segment True) segments out)"
    if "\<forall>w \<in> set segments. CHR ''/'' \<notin> set w" "list_all normal_segment out" for segments out
    using that by (induction segments arbitrary: out) (simp_all add: clean_segment_normal)
  from this [of "Split p (CHR ''/'')" "[]"] show ?thesis
    using assms Split_no_sep [of _ p "CHR ''/''"] by (simp add: clean_segments_def list_all_iff)
qed

lemma Split_append: "Split (a @ c # b) c = Split a c @ Split b c"
proof (induction a)
  case (Cons x a)
  then show ?case by (cases "Split a c") auto
qed simp

lemma Split_clean:
  assumes "HasPrefix p ''/''" and "clean_segments p \<noteq> []"
  shows "Split (Join (clean_segments p) ''/'') (CHR ''/'') = clean_segments p"
  using assms clean_segments_normal [OF assms(1)] by (intro Split_Join) (simp_all add: list_all_iff normal_segment_def)

lemma Join_clean_Nil: "HasPrefix p ''/'' \<Longrightarrow> Join (clean_segments p) ''/'' = [] \<longleftrightarrow> clean_segments p = []"
  using clean_segments_normal [of p] by (cases "(clean_segments p, ''/'')" rule: Join.cases) (simp_all add: normal_segment_def)

text \<open>The comparison of the texts is a comparison of segments.\<close>

lemma urlPathWithinBase_prefix:
  assumes "urlPathWithinBase basePath targetPath"
  shows "prefix (clean_segments (CHR ''/'' # TrimPrefix basePath ''/'')) (clean_segments (CHR ''/'' # TrimPrefix targetPath ''/''))"
proof -
  define b where "b = CHR ''/'' # TrimPrefix basePath ''/''"
  define t where "t = CHR ''/'' # TrimPrefix targetPath ''/''"
  have rooted: "HasPrefix b ''/''" "HasPrefix t ''/''" by (simp_all add: b_def t_def HasPrefix_def)
  let ?b = "Join (clean_segments b) ''/''" and ?t = "Join (clean_segments t) ''/''"
  have cases: "?b = [] \<or> ?t = ?b \<or> HasPrefix ?t (?b @ ''/'')"
    using assms rooted by (simp add: urlPathWithinBase_def path_Clean_def b_def t_def Let_def HasPrefix_def)
  show ?thesis
  proof (cases "clean_segments b = []")
    case False
    then have b: "Split ?b (CHR ''/'') = clean_segments b" "?b \<noteq> []"
      using Split_clean [OF rooted(1)] Join_clean_Nil [OF rooted(1)] by auto
    then have "?t \<noteq> []" using cases by (auto simp: HasPrefix_def)
    then have t: "Split ?t (CHR ''/'') = clean_segments t" using Split_clean [OF rooted(2)] by fastforce
    show ?thesis
    proof (cases "?t = ?b")
      case False
      then have "HasPrefix ?t (?b @ ''/'')" using cases b by simp
      then have "?t = (?b @ ''/'') @ drop (length (?b @ ''/'')) ?t"
        unfolding HasPrefix_def using append_take_drop_id [of "length (?b @ ''/'')" ?t] by simp
      then obtain rest where "?t = ?b @ CHR ''/'' # rest" by simp
      then have "clean_segments t = clean_segments b @ Split rest (CHR ''/'')" using Split_append [of ?b "CHR ''/''" rest] t b by simp
      then show ?thesis by (simp add: b_def t_def)
    qed (use t b in \<open>simp add: b_def t_def\<close>)
  qed (simp add: b_def)
qed

text \<open>
  C21: A request for a path stays at the configured origin and below its base path. If
  \<open>originRequestURL\<close> accepts, the URL it returns parses to the scheme, host and user information of
  the origin; the segments of its cleaned path begin with those of the cleaned base path; and
  however often the requested path is decoded, no layer contains a backslash, an empty segment
  or a segment \<open>.\<close> or \<open>..\<close>.
\<close>

theorem origin_requests_stay_below_base:
  assumes "originRequestURL P X base path = Inr reqURL"
  shows "\<exists>relative baseURL finalURL.
    url_ParseRequestURI P path = Some relative \<and> url_Parse P base = Some baseURL \<and> url_Parse P reqURL = Some finalURL \<and>
    EqualFold X (u_Scheme finalURL) (u_Scheme baseURL) \<and> EqualFold X (u_Host finalURL) (u_Host baseURL) \<and>
    sameURLUserInfo finalURL baseURL \<and>
    prefix (clean_segments (CHR ''/'' # TrimPrefix (u_Path baseURL) ''/'')) (clean_segments (CHR ''/'' # TrimPrefix (u_Path finalURL) ''/'')) \<and>
    (\<forall>n d. decoded_at n (pu_EscapedPath relative) = Some d \<longrightarrow> validOriginPathValue d)"
proof -
  obtain relative baseURL finalURL where *: "url_ParseRequestURI P path = Some relative" "url_Parse P base = Some baseURL"
      "url_Parse P reqURL = Some finalURL" "EqualFold X (u_Scheme finalURL) (u_Scheme baseURL)"
      "EqualFold X (u_Host finalURL) (u_Host baseURL)" "sameURLUserInfo finalURL baseURL"
      "urlPathWithinBase (u_Path baseURL) (u_Path finalURL)" "validOriginRequestPath (Some relative)"
    using assms by (auto simp: originRequestURL_def Let_def split: if_split_asm option.split_asm)
  have "decode_layers maxOriginPathDecodeLayers (pu_EscapedPath relative)"
    using *(8) by (auto simp: validOriginRequestPath_def validCanonicalOriginPath_def split: if_splits)
  then have "\<forall>n d. decoded_at n (pu_EscapedPath relative) = Some d \<longrightarrow> validOriginPathValue d"
    using decode_layers_valid by blast
  then show ?thesis using * urlPathWithinBase_prefix [OF *(7)] by blast
qed

text \<open>A parser for the witnesses: URLs with an authority, without user information, query and fragment.\<close>

definition plain_url :: "string \<Rightarrow> string \<Rightarrow> string \<Rightarrow> string \<Rightarrow> parsed_url" where
  "plain_url scheme host path raw = \<lparr>u_Scheme = scheme, u_Host = host, u_User = False, u_Path = path, u_Fragment = [], u_Text = raw,
     pu_Opaque = [], pu_RawQuery = [], pu_EscapedPath = path, pu_UserInfo = []\<rparr>"

definition plain_parse :: "string \<Rightarrow> parsed_url option" where
  "plain_parse raw =
     (if HasPrefix raw ''https://'' then
        (let rest = drop 8 raw; host = takeWhile (\<lambda>c. c \<noteq> CHR ''/'') rest in
         Some (plain_url ''https'' host (drop (length host) rest) raw))
      else if HasPrefix raw ''/'' then Some (plain_url [] [] raw raw) else None)"

definition plain_calls :: url_calls where
  "plain_calls = \<lparr>url_Parse = plain_parse, url_ParseRequestURI = plain_parse, url_String = u_Text\<rparr>"

theorem origin_requests_stay_below_base_witness:
  "originRequestURL plain_calls ascii_paths ''https://repo.example/simple'' ''/numpy/'' = Inr ''https://repo.example/simple/numpy/'' \<and>
   (\<exists>finalURL. url_Parse plain_calls ''https://repo.example/simple/numpy/'' = Some finalURL \<and>
      prefix (clean_segments ''/simple'') (clean_segments (CHR ''/'' # TrimPrefix (u_Path finalURL) ''/'')))"
proof -
  have ok: "originRequestURL plain_calls ascii_paths ''https://repo.example/simple'' ''/numpy/'' = Inr ''https://repo.example/simple/numpy/''"
    by code_simp
  have base: "\<exists>b. url_Parse plain_calls ''https://repo.example/simple'' = Some b \<and> CHR ''/'' # TrimPrefix (u_Path b) ''/'' = ''/simple''"
    by (simp add: plain_calls_def plain_parse_def plain_url_def Let_def HasPrefix_def TrimPrefix_def)
  show ?thesis using ok origin_requests_stay_below_base [OF ok] base by fastforce
qed

end
