(* ===== verification/Upstream_Registry.thy ===== *)
theory Upstream_Registry
  imports Upstream_Health Origin_Request Relay Ecosystem_Catalog
begin

text \<open>
  The pools of upstreams and the registry that changes them (\<open>upstream/pool.go\<close>, \<open>registry.go\<close>,
  \<open>registry_mutation.go\<close>). Rows of the table are a list; each statement of a transaction may fail
  as its \<open>tx_env\<close> says. The mutations of one ecosystem hold its lock and the publication holds
  the lifecycle lock, so a mutation is one operation on the registry and the rows. A worker is
  the object it probes; the waiting for a stopped worker is left out.
\<close>

section \<open>Durations as text\<close>

text \<open>\<open>Duration.String\<close> of a positive duration: \<open>fmtFrac\<close> drops trailing zeros and an empty fraction.\<close>

definition fmtFrac :: "nat \<Rightarrow> nat \<Rightarrow> string" where
  "fmtFrac v prec =
     (let digits = strip_suffix_while (\<lambda>c. c = CHR ''0'') (pad_digits prec (v mod 10 ^ prec)) in
      if digits = [] then [] else CHR ''.'' # digits)"

definition duration_String :: "nat \<Rightarrow> string" where
  "duration_String d =
     (if d = 0 then ''0s''
      else if d < 1000 then FormatUint d @ ''ns''
      else if d < 1000000 then FormatUint (d div 1000) @ fmtFrac d 3 @ map char_of [194, 181 :: nat] @ ''s''
      else if d < 1000000000 then FormatUint (d div 1000000) @ fmtFrac d 6 @ ''ms''
      else
        let s = d div 1000000000; m = s div 60; h = m div 60 in
        (if h > 0 then FormatUint h @ ''h'' else []) @ (if m > 0 then FormatUint (m mod 60) @ ''m'' else []) @
        FormatUint (s mod 60) @ fmtFrac d 9 @ ''s'')"

definition DefaultProbeInterval :: nat where
  "DefaultProbeInterval = 30 * 60 * 1000000000"

section \<open>Pools\<close>

record UpstreamRecord =
  ur_ID :: uint
  ur_AdapterType :: string
  ur_Name :: string
  ur_URL :: string
  ur_Proxy :: string
  ur_Priority :: int
  ur_ProbeMode :: string
  ur_ProbeInterval :: string
  ur_Via :: string
  ur_Healthy :: bool
  ur_AvgLatencyMs :: int
  ur_SuccessRate :: rat
  ur_LastCheckedAt :: time

record poolSnapshot =
  ps_upstreams :: "nat list"
  ps_byID :: "uint \<rightharpoonup> nat"

text \<open>The objects of the process: addresses from \<open>ht_next\<close> on are free.\<close>

record up_heap_state =
  ht_heap :: up_heap
  ht_next :: nat

record pool_calls =
  pc_urls :: url_calls
  pc_float :: "string \<Rightarrow> nat \<Rightarrow> nat"       \<comment> \<open>the fractions of \<open>time.ParseDuration\<close>\<close>
  pc_Peers :: "PeerSet option"

abbreviation ErrInvalidUpstream :: sentinel where
  "ErrInvalidUpstream \<equiv> ErrMessage ''invalid upstream''"

definition normalizeRecordProbe :: "pool_calls \<Rightarrow> UpstreamRecord \<Rightarrow> gerror + string \<times> int" where
  "normalizeRecordProbe C record =
     (let mode = (if ur_ProbeMode record = [] then ''active'' else ur_ProbeMode record);
          intervalText = (if ur_ProbeInterval record = [] then duration_String DefaultProbeInterval else ur_ProbeInterval record) in
      if mode \<noteq> ''active'' \<and> mode \<noteq> ''passive'' then Inl [ErrMessage ''invalid probe mode'']
      else case time_ParseDuration (pc_float C) intervalText of
          Inl e \<Rightarrow> Inl [ErrMessage ''invalid probe interval'']
        | Inr interval \<Rightarrow> if interval \<le> 0 then Inl [ErrMessage ''invalid probe interval''] else Inr (mode, interval))"

text \<open>Clients are nil errors or the error of building them.\<close>

definition buildClient :: "url_calls \<Rightarrow> string \<Rightarrow> string \<Rightarrow> gerror option" where
  "buildClient P proxy origin =
     (if url_Parse P origin = None \<or> \<not> validOriginURL P origin then Some [ErrMessage ''parse origin URL'']
      else if proxy \<noteq> [] \<and> (url_Parse P proxy = None \<or> \<not> validHTTPURL P proxy) then Some [ErrMessage ''parse proxy URL'']
      else None)"

definition buildPeerClient :: "url_calls \<Rightarrow> string \<Rightarrow> PeerEgress \<Rightarrow> string \<Rightarrow> gerror + peerTransport" where
  "buildPeerClient P proxy peer source =
     (case pe_URL peer of
        None \<Rightarrow> Inl [GoPanic]
      | Some u \<Rightarrow>
          (case buildClient P proxy (u_Text u) of
             Some e \<Rightarrow> Inl e
           | None \<Rightarrow> newPeerTransport (\<lambda>s. map_option guard_view (url_Parse P s)) True peer source))"

text \<open>
  The choice of the client at the start of \<open>newUpstreamFromRecord\<close>: the peer's transport, or \<open>None\<close>
  for the direct client. A client of the peer that could not be built is \<open>nil\<close>, so the direct one
  is tried and its error replaces the peer's.
\<close>

definition record_client :: "pool_calls \<Rightarrow> UpstreamRecord \<Rightarrow> gerror + peerTransport option" where
  "record_client C record =
     (let direct = (case buildClient (pc_urls C) (ur_Proxy record) (ur_URL record) of Some e \<Rightarrow> Inl e | None \<Rightarrow> Inr None) in
      case (if ur_Via record \<noteq> [] then peer_Resolve (pc_Peers C) (ur_Via record) else None) of
        None \<Rightarrow> direct
      | Some peer \<Rightarrow>
          (case buildPeerClient (pc_urls C) (ur_Proxy record) peer (ur_URL record) of
             Inr t \<Rightarrow> Inr (Some t)
           | Inl e \<Rightarrow> if e = [GoPanic] then Inl e else direct))"

definition newUpstreamFromRecord :: "pool_calls \<Rightarrow> UpstreamRecord \<Rightarrow> gerror + Upstream" where
  "newUpstreamFromRecord C record =
     (case normalizeRecordProbe C record of
        Inl e \<Rightarrow> Inl e
      | Inr (mode, interval) \<Rightarrow>
          (case record_client C record of
             Inl e \<Rightarrow> Inl e
           | Inr client \<Rightarrow> Inr \<lparr>up_ID = ur_ID record, up_AdapterType = ur_AdapterType record, up_Name = ur_Name record, up_URL = ur_URL record,
               up_Proxy = ur_Proxy record, up_Priority = ur_Priority record, up_ProbeMode = mode, up_ProbeInterval = interval,
               up_Via = ur_Via record, up_directNetworkGuard = (ur_Proxy record = []),
               up_health = \<lparr>hs_healthy = ur_Healthy record, hs_criticalFailureLatched = False,
                 hs_avgLatency = wrap64 (ur_AvgLatencyMs record * 1000000), hs_successRate = ur_SuccessRate record,
                 hs_totalReqs = 0, hs_successReqs = 0, hs_lastCheckedAt = ur_LastCheckedAt record\<rparr>,
               up_recovery = \<lparr>pr_reserved = False, pr_inFlight = False, pr_nextAttempt = zero_time\<rparr>\<rparr>))"

definition config_equals :: "Upstream \<Rightarrow> UpstreamRecord \<Rightarrow> string \<Rightarrow> int \<Rightarrow> bool" where
  "config_equals u record mode interval \<longleftrightarrow>
     up_ID u = ur_ID record \<and> up_AdapterType u = ur_AdapterType record \<and> up_Name u = ur_Name record \<and> up_URL u = ur_URL record \<and>
     up_Proxy u = ur_Proxy record \<and> up_Priority u = ur_Priority record \<and> up_ProbeMode u = mode \<and> up_ProbeInterval u = interval \<and>
     up_Via u = ur_Via record"

definition sameConfig :: "pool_calls \<Rightarrow> Upstream \<Rightarrow> UpstreamRecord \<Rightarrow> bool" where
  "sameConfig C u record =
     (case normalizeRecordProbe C record of Inl e \<Rightarrow> False | Inr (mode, interval) \<Rightarrow> config_equals u record mode interval)"

definition empty_snapshot :: poolSnapshot where
  "empty_snapshot = \<lparr>ps_upstreams = [], ps_byID = Map.empty\<rparr>"

definition add_upstream :: "uint \<Rightarrow> nat \<Rightarrow> poolSnapshot \<Rightarrow> poolSnapshot" where
  "add_upstream uid a snapshot = \<lparr>ps_upstreams = ps_upstreams snapshot @ [a], ps_byID = (ps_byID snapshot)(uid \<mapsto> a)\<rparr>"

fun build_loop :: "pool_calls \<Rightarrow> poolSnapshot option \<Rightarrow> UpstreamRecord list \<Rightarrow> up_heap_state \<Rightarrow> poolSnapshot \<Rightarrow>
    (gerror + poolSnapshot) \<times> up_heap_state" where
  "build_loop C previous [] h next' = (Inr next', h)"
| "build_loop C previous (record # records) h next' =
     (case (case previous of None \<Rightarrow> None | Some p \<Rightarrow> ps_byID p (ur_ID record)) of
        Some a \<Rightarrow>
          if sameConfig C (ht_heap h a) record
          then build_loop C previous records h (add_upstream (ur_ID record) a next')
          else (case newUpstreamFromRecord C record of
                  Inl e \<Rightarrow> (Inl e, h)
                | Inr u \<Rightarrow> build_loop C previous records \<lparr>ht_heap = (ht_heap h)(ht_next h := u), ht_next = Suc (ht_next h)\<rparr>
                             (add_upstream (up_ID u) (ht_next h) next'))
      | None \<Rightarrow>
          (case newUpstreamFromRecord C record of
             Inl e \<Rightarrow> (Inl e, h)
           | Inr u \<Rightarrow> build_loop C previous records \<lparr>ht_heap = (ht_heap h)(ht_next h := u), ht_next = Suc (ht_next h)\<rparr>
                        (add_upstream (up_ID u) (ht_next h) next')))"

definition buildPoolSnapshotWithOptions :: "pool_calls \<Rightarrow> UpstreamRecord list \<Rightarrow> poolSnapshot option \<Rightarrow> up_heap_state \<Rightarrow>
    (gerror + poolSnapshot) \<times> up_heap_state" where
  "buildPoolSnapshotWithOptions C records previous h = build_loop C previous records h empty_snapshot"

fun records_match :: "pool_calls \<Rightarrow> up_heap \<Rightarrow> nat list \<Rightarrow> UpstreamRecord list \<Rightarrow> bool" where
  "records_match C heap [] [] = True"
| "records_match C heap (a # as) (record # records) =
     (let mode = (if ur_ProbeMode record = [] then ''active'' else ur_ProbeMode record);
          intervalText = (if ur_ProbeInterval record = [] then duration_String DefaultProbeInterval else ur_ProbeInterval record) in
      (case time_ParseDuration (pc_float C) intervalText of
         Inl e \<Rightarrow> False
       | Inr interval \<Rightarrow> interval > 0 \<and> config_equals (heap a) record mode interval \<and> records_match C heap as records))"
| "records_match C heap _ _ = False"

definition snapshotMatches :: "pool_calls \<Rightarrow> up_heap \<Rightarrow> poolSnapshot option \<Rightarrow> UpstreamRecord list \<Rightarrow> bool" where
  "snapshotMatches C heap snapshot records =
     (case snapshot of None \<Rightarrow> False | Some s \<Rightarrow> records_match C heap (ps_upstreams s) records)"

section \<open>The registry\<close>

record Registry =
  rt_active :: "string list"
  rt_pools :: "string \<rightharpoonup> poolSnapshot"
  rt_objects :: up_heap_state
  rt_workers :: "uint \<rightharpoonup> nat"
  rt_started :: bool
  rt_degraded :: "string \<Rightarrow> gerror option"

definition startWorkerLocked :: "nat \<Rightarrow> Registry \<Rightarrow> Registry" where
  "startWorkerLocked a r =
     (let u = ht_heap (rt_objects r) a in
      if \<not> rt_started r \<or> up_ID u = 0 \<or> up_ProbeMode u \<noteq> ''active'' then r
      else r\<lparr>rt_workers := (rt_workers r)(up_ID u \<mapsto> a)\<rparr>)"

definition registry_pools :: "Registry \<Rightarrow> nat list" where
  "registry_pools r = concat (map (\<lambda>e. case rt_pools r e of None \<Rightarrow> [] | Some p \<Rightarrow> ps_upstreams p) (rt_active r))"

text \<open>
  \<open>Start\<close> and \<open>CloseContext\<close> when no close is under way. A close cancels every worker; the code takes
  each out of its map when its goroutine ends, here they are gone at once. That the parent context
  is cancelled from outside is not modelled.
\<close>

definition registry_Start :: "Registry \<Rightarrow> Registry" where
  "registry_Start r =
     (if rt_started r then r else fold startWorkerLocked (registry_pools r) (r\<lparr>rt_started := True\<rparr>))"

definition registry_Close :: "Registry \<Rightarrow> Registry" where
  "registry_Close r = r\<lparr>rt_started := False, rt_workers := Map.empty\<rparr>"

record workerPlan =
  wp_stop :: "uint list"
  wp_start :: "nat list"

text \<open>\<open>planWorkers\<close>; the ids of the two snapshots are those of the objects they list.\<close>

definition planWorkers :: "up_heap \<Rightarrow> poolSnapshot option \<Rightarrow> poolSnapshot \<Rightarrow> workerPlan" where
  "planWorkers heap previous next' =
     (let old = (case previous of None \<Rightarrow> Map.empty | Some p \<Rightarrow> ps_byID p);
          old_ids = (case previous of None \<Rightarrow> [] | Some p \<Rightarrow> remdups (map (\<lambda>a. up_ID (heap a)) (ps_upstreams p)));
          new_ids = remdups (map (\<lambda>a. up_ID (heap a)) (ps_upstreams next')) in
      \<lparr>wp_stop = sort_key unat (filter (\<lambda>uid. ps_byID next' uid \<noteq> old uid) old_ids),
       wp_start = map (\<lambda>uid. the (ps_byID next' uid))
         (sort_key unat (filter (\<lambda>uid. case ps_byID next' uid of
             Some a \<Rightarrow> up_ProbeMode (heap a) = ''active'' \<and> Some a \<noteq> old uid | None \<Rightarrow> False) new_ids))\<rparr>)"

definition applyWorkerPlanLocked :: "workerPlan \<Rightarrow> Registry \<Rightarrow> Registry" where
  "applyWorkerPlanLocked plan r =
     fold startWorkerLocked (wp_start plan)
       (fold (\<lambda>uid r. r\<lparr>rt_workers := (rt_workers r)(uid := None)\<rparr>) (wp_stop plan) r)"

text \<open>\<open>Where(adapter_type = ?).Order(priority, id)\<close>.\<close>

definition records_of :: "string \<Rightarrow> UpstreamRecord list \<Rightarrow> UpstreamRecord list" where
  "records_of ecosystem rows =
     sort_key ur_Priority (sort_key (\<lambda>r. unat (ur_ID r)) (filter (\<lambda>r. ur_AdapterType r = ecosystem) rows))"

text \<open>\<open>verify\<close> and \<open>reloadEcosystemLocked\<close>; the first argument is the error of reading the rows.\<close>

definition registry_verify :: "pool_calls \<Rightarrow> gerror option \<Rightarrow> UpstreamRecord list \<Rightarrow> string \<Rightarrow> Registry \<Rightarrow> gerror option" where
  "registry_verify C failed rows ecosystem r =
     (case failed of
        Some e \<Rightarrow> Some e
      | None \<Rightarrow>
          if records_of ecosystem rows = [] then Some [ErrMessage ''active ecosystem has no upstreams'']
          else if \<not> snapshotMatches C (ht_heap (rt_objects r)) (rt_pools r ecosystem) (records_of ecosystem rows)
          then Some [ErrMessage ''runtime snapshot differs from committed records'']
          else None)"

record publish_env =
  pv_verify :: "gerror option"
  pv_load :: "gerror option"
  pv_again :: "gerror option"

definition reloadEcosystemLocked :: "pool_calls \<Rightarrow> publish_env \<Rightarrow> UpstreamRecord list \<Rightarrow> string \<Rightarrow> Registry \<Rightarrow> gerror option \<times> Registry" where
  "reloadEcosystemLocked C env rows ecosystem r =
     (case pv_load env of
        Some e \<Rightarrow> (Some e, r)
      | None \<Rightarrow>
          if records_of ecosystem rows = [] then (Some [ErrMessage ''active ecosystem has no upstreams''], r)
          else
            (case buildPoolSnapshotWithOptions C (records_of ecosystem rows) (rt_pools r ecosystem) (rt_objects r) of
               (Inl e, h) \<Rightarrow> (Some e, r)
             | (Inr next', h) \<Rightarrow>
                 (let plan = planWorkers (ht_heap h) (rt_pools r ecosystem) next';
                      r1 = applyWorkerPlanLocked plan (r\<lparr>rt_pools := (rt_pools r)(ecosystem \<mapsto> next'), rt_objects := h\<rparr>) in
                  (registry_verify C (pv_again env) rows ecosystem r1, r1))))"

record preparedMutation =
  pm_next :: poolSnapshot
  pm_objects :: up_heap_state
  pm_workers :: workerPlan
  pm_resultID :: uint

definition registry_publish :: "pool_calls \<Rightarrow> publish_env \<Rightarrow> UpstreamRecord list \<Rightarrow> string \<Rightarrow> preparedMutation \<Rightarrow> Registry \<Rightarrow>
    gerror option \<times> Registry" where
  "registry_publish C env rows ecosystem prepared r =
     (let r1 = applyWorkerPlanLocked (pm_workers prepared)
            (r\<lparr>rt_pools := (rt_pools r)(ecosystem \<mapsto> pm_next prepared), rt_objects := pm_objects prepared\<rparr>);
          clear = (\<lambda>r. r\<lparr>rt_degraded := (rt_degraded r)(ecosystem := None)\<rparr>) in
      case registry_verify C (pv_verify env) rows ecosystem r1 of
        None \<Rightarrow> (None, clear r1)
      | Some _ \<Rightarrow>
          (case reloadEcosystemLocked C env rows ecosystem r1 of
             (Some e, r2) \<Rightarrow> (Some [ErrMessage ''registry reconcile failed''], r2\<lparr>rt_degraded := (rt_degraded r2)(ecosystem := Some e)\<rparr>)
           | (None, r2) \<Rightarrow> (None, clear r2)))"

section \<open>Transactions\<close>

record MutationInput =
  mi_AdapterType :: string
  mi_Name :: string
  mi_URL :: string
  mi_Proxy :: string
  mi_Via :: string
  mi_Priority :: int
  mi_ProbeMode :: string
  mi_ProbeInterval :: string

definition validPeerName :: "string \<Rightarrow> bool" where
  "validPeerName name \<longleftrightarrow>
     name \<noteq> [] \<and> length name \<le> 64 \<and> hd name \<noteq> CHR ''-'' \<and>
     list_all (\<lambda>c. isASCIILowercaseAlphanumeric c \<or> c = CHR ''-'') name"

definition validatePeerReference :: "pool_calls \<Rightarrow> string \<Rightarrow> gerror option" where
  "validatePeerReference C via =
     (if via = [] then None
      else if peer_Resolve (pc_Peers C) via = None then Some [ErrInvalidUpstream] else None)"

definition validateMutation :: "pool_calls \<Rightarrow> MutationInput \<Rightarrow> gerror + MutationInput" where
  "validateMutation C input0 =
     (let input = input0\<lparr>mi_Name := TrimSpace (mi_Name input0), mi_URL := TrimSpace (mi_URL input0),
            mi_Proxy := TrimSpace (mi_Proxy input0), mi_Via := TrimSpace (mi_Via input0)\<rparr> in
      if mi_Name input = [] \<or> 128 < length (mi_Name input) \<or> mi_Priority input \<le> 0 then Inl [ErrInvalidUpstream]
      else if \<not> validOriginURL (pc_urls C) (mi_URL input) then Inl [ErrInvalidUpstream]
      else if mi_Proxy input \<noteq> [] \<and> \<not> validHTTPURL (pc_urls C) (mi_Proxy input) then Inl [ErrInvalidUpstream]
      else if mi_Via input \<noteq> [] \<and> \<not> validPeerName (mi_Via input) then Inl [ErrInvalidUpstream]
      else if mi_ProbeMode input \<noteq> ''active'' \<and> mi_ProbeMode input \<noteq> ''passive'' then Inl [ErrInvalidUpstream]
      else case time_ParseDuration (pc_float C) (mi_ProbeInterval input) of
          Inl e \<Rightarrow> Inl [ErrInvalidUpstream]
        | Inr interval \<Rightarrow>
            if interval \<le> 0 then Inl [ErrInvalidUpstream]
            else Inr (input\<lparr>mi_ProbeInterval := duration_String (nat interval)\<rparr>))"

record tx_env =
  te_begin :: "gerror option"
  te_read :: "gerror option"
  te_count :: "gerror option"
  te_write :: "gerror option"
  te_find :: "gerror option"
  te_commit :: "gerror option"
  te_cancelled :: "gerror option"    \<comment> \<open>the error of the context, if it ends before the retry\<close>
  te_newID :: uint

type_synonym rows = "UpstreamRecord list"

text \<open>The functions that \<open>Create\<close>, \<open>Update\<close> and \<open>Delete\<close> run in the transaction.\<close>

definition create_rows :: "MutationInput \<Rightarrow> tx_env \<Rightarrow> rows \<Rightarrow> gerror + uint \<times> rows" where
  "create_rows input env rows =
     (case te_count env of
        Some e \<Rightarrow> Inl e
      | None \<Rightarrow>
          if list_ex (\<lambda>r. ur_AdapterType r = mi_AdapterType input \<and> ur_Name r = mi_Name input) rows then Inl [ErrMessage ''upstream conflict'']
          else case te_write env of
              Some e \<Rightarrow> Inl e
            | None \<Rightarrow> Inr (te_newID env, rows @ [\<lparr>ur_ID = te_newID env, ur_AdapterType = mi_AdapterType input, ur_Name = mi_Name input,
                ur_URL = mi_URL input, ur_Proxy = mi_Proxy input, ur_Priority = mi_Priority input, ur_ProbeMode = mi_ProbeMode input,
                ur_ProbeInterval = mi_ProbeInterval input, ur_Via = mi_Via input, ur_Healthy = True, ur_AvgLatencyMs = 0,
                ur_SuccessRate = 1, ur_LastCheckedAt = zero_time\<rparr>]))"

definition update_rows :: "uint \<Rightarrow> string \<Rightarrow> MutationInput \<Rightarrow> tx_env \<Rightarrow> rows \<Rightarrow> gerror + uint \<times> rows" where
  "update_rows uid adapterType input env rows =
     (case te_read env of
        Some e \<Rightarrow> Inl e
      | None \<Rightarrow>
          if \<not> list_ex (\<lambda>r. ur_ID r = uid) rows then Inl [ErrMessage ''upstream not found'']
          else case te_count env of
              Some e \<Rightarrow> Inl e
            | None \<Rightarrow>
                if list_ex (\<lambda>r. ur_AdapterType r = adapterType \<and> ur_Name r = mi_Name input \<and> ur_ID r \<noteq> uid) rows
                then Inl [ErrMessage ''upstream conflict'']
                else case te_write env of
                    Some e \<Rightarrow> Inl e
                  | None \<Rightarrow> Inr (uid, map (\<lambda>r. if ur_ID r = uid
                      then r\<lparr>ur_Name := mi_Name input, ur_URL := mi_URL input, ur_Proxy := mi_Proxy input, ur_Priority := mi_Priority input,
                             ur_ProbeMode := mi_ProbeMode input, ur_ProbeInterval := mi_ProbeInterval input, ur_Via := mi_Via input\<rparr>
                      else r) rows))"

definition delete_rows :: "uint \<Rightarrow> tx_env \<Rightarrow> rows \<Rightarrow> gerror + uint \<times> rows" where
  "delete_rows uid env rows =
     (case te_read env of
        Some e \<Rightarrow> Inl e
      | None \<Rightarrow>
          (case find (\<lambda>r. ur_ID r = uid) rows of
             None \<Rightarrow> Inl [ErrMessage ''upstream not found'']
           | Some record \<Rightarrow>
               (case te_count env of
                  Some e \<Rightarrow> Inl e
                | None \<Rightarrow>
                    if length (filter (\<lambda>r. ur_AdapterType r = ur_AdapterType record) rows) \<le> 1 then Inl [ErrMessage ''last upstream'']
                    else case te_write env of
                        Some e \<Rightarrow> Inl e
                      | None \<Rightarrow> Inr (uid, filter (\<lambda>r. ur_ID r \<noteq> uid) rows))))"

text \<open>The body of \<open>prepareAndCommit\<close> in one transaction: its result and the rows afterwards.\<close>

definition runTransactionOnce :: "pool_calls \<Rightarrow> string \<Rightarrow> (tx_env \<Rightarrow> rows \<Rightarrow> gerror + uint \<times> rows) \<Rightarrow> Registry \<Rightarrow> tx_env \<Rightarrow> rows \<Rightarrow>
    (gerror + preparedMutation) \<times> rows" where
  "runTransactionOnce C ecosystem apply_rows r env rows =
     (case te_begin env of
        Some e \<Rightarrow> (Inl e, rows)
      | None \<Rightarrow>
          (case apply_rows env rows of
             Inl e \<Rightarrow> (Inl e, rows)
           | Inr (uid, rows') \<Rightarrow>
               (case te_find env of
                  Some e \<Rightarrow> (Inl e, rows)
                | None \<Rightarrow>
                    (case buildPoolSnapshotWithOptions C (records_of ecosystem rows') (rt_pools r ecosystem) (rt_objects r) of
                       (Inl e, h) \<Rightarrow> (Inl e, rows)
                     | (Inr next', h) \<Rightarrow>
                         (case te_commit env of
                            Some e \<Rightarrow> (Inl e, rows)
                          | None \<Rightarrow> (Inr \<lparr>pm_next = next', pm_objects = h, pm_workers = planWorkers (ht_heap h) (rt_pools r ecosystem) next',
                                        pm_resultID = uid\<rparr>, rows'))))))"

definition registryBusyRetryLimit :: nat where
  "registryBusyRetryLimit = 3"

definition isSQLiteBusy :: "gerror \<Rightarrow> bool" where
  "isSQLiteBusy e \<longleftrightarrow> list_ex (\<lambda>s. case s of SQLiteCode c \<Rightarrow> c mod 256 = 5 | _ \<Rightarrow> False) e"

text \<open>The retries of \<open>runTransaction\<close>; the environments are those of the attempts in their order.\<close>

fun prepareAndCommit :: "nat \<Rightarrow> pool_calls \<Rightarrow> string \<Rightarrow> (tx_env \<Rightarrow> rows \<Rightarrow> gerror + uint \<times> rows) \<Rightarrow> Registry \<Rightarrow> (nat \<Rightarrow> tx_env) \<Rightarrow> rows \<Rightarrow>
    (gerror + preparedMutation) \<times> rows" where
  "prepareAndCommit retries C ecosystem apply_rows r envs rows =
     (case runTransactionOnce C ecosystem apply_rows r (envs retries) rows of
        (Inr p, rows') \<Rightarrow> (Inr p, rows')
      | (Inl e, rows') \<Rightarrow>
          if \<not> isSQLiteBusy e then (Inl e, rows')
          else case retries of
              0 \<Rightarrow> (Inl e, rows')
            | Suc n \<Rightarrow>
                (case te_cancelled (envs retries) of
                   Some ctxErr \<Rightarrow> (Inl ctxErr, rows')
                 | None \<Rightarrow> prepareAndCommit n C ecosystem apply_rows r envs rows'))"

section \<open>Mutations\<close>

text \<open>\<open>Find\<close> in the pools of the active ecosystems.\<close>

fun find_upstream :: "string list \<Rightarrow> uint \<Rightarrow> Registry \<Rightarrow> nat option" where
  "find_upstream [] uid r = None"
| "find_upstream (e # es) uid r =
     (case (case rt_pools r e of None \<Rightarrow> None | Some p \<Rightarrow> ps_byID p uid) of Some a \<Rightarrow> Some a | None \<Rightarrow> find_upstream es uid r)"

record RuntimeUpstream =
  ru_upstream :: Upstream
  ru_WorkerRunning :: bool

definition runtimeUpstream :: "Registry \<Rightarrow> nat \<Rightarrow> RuntimeUpstream" where
  "runtimeUpstream r a =
     (let u = ht_heap (rt_objects r) a in \<lparr>ru_upstream = u, ru_WorkerRunning = (rt_workers r (up_ID u) \<noteq> None)\<rparr>)"

definition registry_Get :: "Registry \<Rightarrow> uint \<Rightarrow> gerror + RuntimeUpstream" where
  "registry_Get r uid =
     (case find_upstream (rt_active r) uid r of Some a \<Rightarrow> Inr (runtimeUpstream r a) | None \<Rightarrow> Inl [ErrMessage ''upstream not found''])"

definition registry_List :: "Registry \<Rightarrow> RuntimeUpstream list" where
  "registry_List r = map (runtimeUpstream r) (registry_pools r)"

text \<open>What \<open>Create\<close>, \<open>Update\<close> and \<open>Delete\<close> do once they hold the lock.\<close>

definition mutate_locked :: "pool_calls \<Rightarrow> (nat \<Rightarrow> tx_env) \<Rightarrow> publish_env \<Rightarrow> string \<Rightarrow> (tx_env \<Rightarrow> rows \<Rightarrow> gerror + uint \<times> rows) \<Rightarrow>
    Registry \<times> rows \<Rightarrow> (gerror + uint) \<times> Registry \<times> rows" where
  "mutate_locked C envs pub ecosystem apply_rows s =
     (case s of (r, rows) \<Rightarrow>
        (case prepareAndCommit registryBusyRetryLimit C ecosystem apply_rows r envs rows of
           (Inl e, rows') \<Rightarrow> (Inl e, r, rows')
         | (Inr prepared, rows') \<Rightarrow>
             (case registry_publish C pub rows' ecosystem prepared r of
                (Some e, r') \<Rightarrow> (Inl e, r', rows')
              | (None, r') \<Rightarrow> (Inr (pm_resultID prepared), r', rows'))))"

definition registry_Create :: "pool_calls \<Rightarrow> (nat \<Rightarrow> tx_env) \<Rightarrow> publish_env \<Rightarrow> MutationInput \<Rightarrow> Registry \<times> rows \<Rightarrow>
    (gerror + RuntimeUpstream) \<times> Registry \<times> rows" where
  "registry_Create C envs pub input0 s =
     (if mi_AdapterType input0 \<notin> set (rt_active (fst s)) then (Inl [ErrMessage ''ecosystem not active''], s)
      else case validateMutation C input0 of
          Inl e \<Rightarrow> (Inl e, s)
        | Inr input \<Rightarrow>
            (case validatePeerReference C (mi_Via input) of
               Some e \<Rightarrow> (Inl e, s)
             | None \<Rightarrow>
                 (case mutate_locked C envs pub (mi_AdapterType input) (create_rows input) s of
                    (Inl e, s') \<Rightarrow> (Inl e, s')
                  | (Inr uid, s') \<Rightarrow> (registry_Get (fst s') uid, s'))))"

text \<open>\<open>Update\<close>; \<open>found\<close> is the error of the first read, which is made without the lock.\<close>

definition registry_Update :: "pool_calls \<Rightarrow> gerror option \<Rightarrow> (nat \<Rightarrow> tx_env) \<Rightarrow> publish_env \<Rightarrow> uint \<Rightarrow> MutationInput \<Rightarrow> Registry \<times> rows \<Rightarrow>
    (gerror + RuntimeUpstream) \<times> Registry \<times> rows" where
  "registry_Update C found envs pub uid input0 s =
     (case found of
        Some e \<Rightarrow> (Inl e, s)
      | None \<Rightarrow>
          (case find (\<lambda>r. ur_ID r = uid) (snd s) of
             None \<Rightarrow> (Inl [ErrMessage ''upstream not found''], s)
           | Some current \<Rightarrow>
               if mi_AdapterType input0 \<noteq> ur_AdapterType current then (Inl [ErrMessage ''immutable ecosystem''], s)
               else if ur_AdapterType current \<notin> set (rt_active (fst s)) then (Inl [ErrMessage ''ecosystem not active''], s)
               else case validateMutation C input0 of
                   Inl e \<Rightarrow> (Inl e, s)
                 | Inr input \<Rightarrow>
                     (case validatePeerReference C (mi_Via input) of
                        Some e \<Rightarrow> (Inl e, s)
                      | None \<Rightarrow>
                          (case mutate_locked C envs pub (ur_AdapterType current) (update_rows uid (ur_AdapterType current) input) s of
                             (Inl e, s') \<Rightarrow> (Inl e, s')
                           | (Inr _, s') \<Rightarrow> (registry_Get (fst s') uid, s')))))"

definition registry_Delete :: "pool_calls \<Rightarrow> (nat \<Rightarrow> tx_env) \<Rightarrow> publish_env \<Rightarrow> uint \<Rightarrow> Registry \<times> rows \<Rightarrow>
    (gerror + RuntimeUpstream) \<times> Registry \<times> rows" where
  "registry_Delete C envs pub uid s =
     (case registry_Get (fst s) uid of
        Inl e \<Rightarrow> (Inl e, s)
      | Inr current \<Rightarrow>
          if up_AdapterType (ru_upstream current) \<notin> set (rt_active (fst s)) then (Inl [ErrMessage ''ecosystem not active''], s)
          else (case mutate_locked C envs pub (up_AdapterType (ru_upstream current)) (delete_rows uid) s of
                  (Inl e, s') \<Rightarrow> (Inl e, s')
                | (Inr _, s') \<Rightarrow> (Inr current, s')))"

text \<open>
  \<open>Milliseconds\<close> truncates. The environment of \<open>persistCheckedProbe\<close> holds the errors of the
  update, of the count and of the insertion of the log row, each in the one transaction.
\<close>

definition milliseconds :: "int \<Rightarrow> int" where
  "milliseconds d = (if d < 0 then - (- d div 1000000) else d div 1000000)"

record persist_env =
  pe_update :: "gerror option"
  pe_count :: "gerror option"
  pe_log :: "gerror option"

definition newer_row :: "uint \<Rightarrow> HealthSnapshot \<Rightarrow> UpstreamRecord \<Rightarrow> bool" where
  "newer_row uid health r \<longleftrightarrow> ur_ID r = uid \<and> ur_LastCheckedAt r < sn_LastCheckedAt health"

definition persistHealthSnapshot :: "persist_env \<Rightarrow> Upstream \<Rightarrow> HealthSnapshot \<Rightarrow> rows \<Rightarrow> gerror option \<times> rows" where
  "persistHealthSnapshot env u health rows =
     (if up_ID u = 0 then (None, rows)
      else case pe_update env of
          Some e \<Rightarrow> (Some e, rows)
        | None \<Rightarrow>
            let rows' = map (\<lambda>r. if newer_row (up_ID u) health r
                then r\<lparr>ur_Healthy := sn_Healthy health, ur_AvgLatencyMs := milliseconds (sn_AvgLatency health),
                       ur_SuccessRate := sn_SuccessRate health, ur_LastCheckedAt := sn_LastCheckedAt health\<rparr> else r) rows in
            if length (filter (newer_row (up_ID u) health) rows) = 1 then (None, rows')
            else case pe_count env of
                Some e \<Rightarrow> (Some e, rows')
              | None \<Rightarrow> (if list_ex (\<lambda>r. ur_ID r = up_ID u) rows' then None else Some [ErrMessage ''persist upstream''], rows'))"

definition persistCheckedProbe :: "persist_env \<Rightarrow> ProbeResult \<Rightarrow> Upstream \<Rightarrow> rows \<Rightarrow> gerror option \<times> Upstream \<times> rows" where
  "persistCheckedProbe env result u rows =
     (let next' = upstream_applyProbe result u in
      case persistHealthSnapshot env u (upstream_HealthSnapshot next') rows of
        (Some e, _) \<Rightarrow> (Some e, u, rows)
      | (None, rows') \<Rightarrow>
          (case pe_log env of Some e \<Rightarrow> (Some e, u, rows) | None \<Rightarrow> (None, next', rows')))"

definition set_object :: "nat \<Rightarrow> Upstream \<Rightarrow> Registry \<Rightarrow> Registry" where
  "set_object a u r = r\<lparr>rt_objects := (rt_objects r)\<lparr>ht_heap := (ht_heap (rt_objects r))(a := u)\<rparr>\<rparr>"

definition registry_Check :: "persist_env \<Rightarrow> ProbeResult \<Rightarrow> uint \<Rightarrow> Registry \<times> rows \<Rightarrow>
    (gerror + RuntimeUpstream \<times> ProbeResult) \<times> Registry \<times> rows" where
  "registry_Check env result uid s =
     (case registry_Get (fst s) uid of
        Inl e \<Rightarrow> (Inl e, s)
      | Inr resource \<Rightarrow>
          let ecosystem = up_AdapterType (ru_upstream resource) in
          if ecosystem \<notin> set (rt_active (fst s)) then (Inl [ErrMessage ''ecosystem not active''], s)
          else case (case rt_pools (fst s) ecosystem of None \<Rightarrow> None | Some p \<Rightarrow> ps_byID p uid) of
              None \<Rightarrow> (Inl [ErrMessage ''upstream not found''], s)
            | Some a \<Rightarrow>
                (case persistCheckedProbe env result (ht_heap (rt_objects (fst s)) a) (snd s) of
                   (Some e, _, _) \<Rightarrow> (Inl e, s)
                 | (None, u, rows') \<Rightarrow>
                     let r' = set_object a u (fst s) in
                     (case registry_Get r' uid of Inl e \<Rightarrow> (Inl e, r', rows') | Inr updated \<Rightarrow> (Inr (updated, result), r', rows'))))"

section \<open>Opening the registry\<close>

definition supportedEcosystems :: "string list" where
  "supportedEcosystems = map def_Name StandardUpstreamDefinitions"

definition canonicalActive :: "string list \<Rightarrow> gerror + string list" where
  "canonicalActive stored =
     (if \<not> set stored \<subseteq> set supportedEcosystems then Inl [ErrMessage ''unsupported active ecosystem'']
      else if \<not> distinct stored then Inl [ErrMessage ''duplicate active ecosystem'']
      else Inr (filter (\<lambda>e. e \<in> set stored) supportedEcosystems))"

fun open_pools :: "pool_calls \<Rightarrow> (string \<Rightarrow> gerror option) \<Rightarrow> rows \<Rightarrow> string list \<Rightarrow> Registry \<Rightarrow> gerror + Registry" where
  "open_pools C failed rows [] r = Inr r"
| "open_pools C failed rows (e # es) r =
     (case failed e of
        Some er \<Rightarrow> Inl er
      | None \<Rightarrow>
          if records_of e rows = [] then Inl [ErrMessage ''active ecosystem has no upstreams'']
          else
            (case buildPoolSnapshotWithOptions C (records_of e rows) None (rt_objects r) of
               (Inl er, _) \<Rightarrow> Inl er
             | (Inr p, h) \<Rightarrow> open_pools C failed rows es (r\<lparr>rt_pools := (rt_pools r)(e \<mapsto> p), rt_objects := h\<rparr>)))"

definition NewRegistryWithOptions :: "pool_calls \<Rightarrow> (string \<Rightarrow> gerror option) \<Rightarrow> rows \<Rightarrow> up_heap_state \<Rightarrow> string list \<Rightarrow> gerror + Registry" where
  "NewRegistryWithOptions C failed rows h active =
     (case canonicalActive active of
        Inl e \<Rightarrow> Inl e
      | Inr ordered \<Rightarrow>
          open_pools C failed rows ordered
            \<lparr>rt_active = ordered, rt_pools = Map.empty, rt_objects = h, rt_workers = Map.empty, rt_started = False, rt_degraded = (\<lambda>_. None)\<rparr>)"

end
