(* ===== verification/Registry_Invariant.thy ===== *)
theory Registry_Invariant
  imports Upstream_Registry
begin

text \<open>
  The registry of upstreams against its rows: building a snapshot keeps what has not changed,
  publishing keeps pools, rows and workers in agreement, whatever fails, and the histories of
  the registry are the reachable states of a step relation.
\<close>

section \<open>The registry and the rows\<close>

definition pool_ok :: "pool_calls \<Rightarrow> rows \<Rightarrow> up_heap_state \<Rightarrow> string \<Rightarrow> poolSnapshot \<Rightarrow> bool" where
  "pool_ok C rows h e p \<longleftrightarrow>
     records_of e rows \<noteq> [] \<and> list_all2 (\<lambda>a. sameConfig C (ht_heap h a)) (ps_upstreams p) (records_of e rows) \<and>
     ps_byID p = map_of (zip (map ur_ID (records_of e rows)) (ps_upstreams p)) \<and> (\<forall>a \<in> set (ps_upstreams p). a < ht_next h)"

definition supervised :: "Registry \<Rightarrow> uint \<Rightarrow> nat \<Rightarrow> bool" where
  "supervised r uid a \<longleftrightarrow>
     rt_started r \<and> uid \<noteq> 0 \<and> up_ProbeMode (ht_heap (rt_objects r) a) = ''active'' \<and>
     (\<exists>e \<in> set (rt_active r). \<exists>p. rt_pools r e = Some p \<and> ps_byID p uid = Some a)"

definition pools_ok :: "pool_calls \<Rightarrow> rows \<Rightarrow> Registry \<Rightarrow> bool" where
  "pools_ok C rows r \<longleftrightarrow> (\<forall>e \<in> set (rt_active r). \<exists>p. rt_pools r e = Some p \<and> pool_ok C rows (rt_objects r) e p)"

definition registry_sound :: "pool_calls \<Rightarrow> Registry \<times> rows \<Rightarrow> bool" where
  "registry_sound C s \<longleftrightarrow>
     distinct (map ur_ID (snd s)) \<and> pools_ok C (snd s) (fst s) \<and> (\<forall>uid a. rt_workers (fst s) uid = Some a \<longleftrightarrow> supervised (fst s) uid a)"

lemma set_records_of [simp]: "set (records_of e rows) = {r \<in> set rows. ur_AdapterType r = e}"
  by (simp add: records_of_def)

lemma distinct_ids_records_of: "distinct (map ur_ID rows) \<Longrightarrow> distinct (map ur_ID (records_of e rows))"
  by (simp add: records_of_def distinct_map inj_on_def)

lemma same_id: "distinct (map ur_ID rows) \<Longrightarrow> x \<in> set rows \<Longrightarrow> y \<in> set rows \<Longrightarrow> ur_ID x = ur_ID y \<Longrightarrow> x = y"
  by (auto simp: distinct_map inj_on_def)

lemma id_elsewhere:
  assumes "distinct (map ur_ID rows)" and "x \<in> set rows" and "ur_AdapterType x \<noteq> e"
  shows "ur_ID x \<notin> ur_ID ` {r \<in> set rows. ur_AdapterType r = e}"
proof
  assume "ur_ID x \<in> ur_ID ` {r \<in> set rows. ur_AdapterType r = e}"
  then obtain y where "y \<in> set rows" "ur_AdapterType y = e" "ur_ID x = ur_ID y" by blast
  with same_id [OF assms(1,2)] assms(3) show False by blast
qed

lemma sameConfig_ID: "sameConfig C u r \<Longrightarrow> up_ID u = ur_ID r \<and> up_AdapterType u = ur_AdapterType r"
  by (auto simp: sameConfig_def config_equals_def split: sum.splits)

lemma sameConfig_new: "newUpstreamFromRecord C r = Inr u \<Longrightarrow> sameConfig C u r"
  by (auto simp: newUpstreamFromRecord_def sameConfig_def config_equals_def split: sum.splits)

lemma sameConfig_fits:
  assumes "sameConfig C u r"
  shows "\<exists>interval. time_ParseDuration (pc_float C)
      (if ur_ProbeInterval r = [] then duration_String DefaultProbeInterval else ur_ProbeInterval r) = Inr interval \<and> interval > 0 \<and>
    config_equals u r (if ur_ProbeMode r = [] then ''active'' else ur_ProbeMode r) interval"
  using assms by (auto simp: sameConfig_def normalizeRecordProbe_def Let_def split: sum.splits if_splits)

lemma snapshot_matches:
  "list_all2 (\<lambda>a. sameConfig C (heap a)) as records \<Longrightarrow> records_match C heap as records"
proof (induction rule: list_all2_induct)
  case (Cons a as r records)
  then show ?case using sameConfig_fits [OF Cons(1)] by (auto simp: Let_def)
qed simp

lemma pool_member:
  assumes "pool_ok C rows h e p" and "ps_byID p uid = Some a"
  obtains r where "r \<in> set rows" and "ur_AdapterType r = e" and "ur_ID r = uid" and "sameConfig C (ht_heap h a) r" and "a \<in> set (ps_upstreams p)"
proof -
  let ?rs = "records_of e rows"
  have l: "length (ps_upstreams p) = length ?rs" using assms(1) by (auto simp: pool_ok_def dest: list_all2_lengthD)
  have "(uid, a) \<in> set (zip (map ur_ID ?rs) (ps_upstreams p))" using assms by (auto simp: pool_ok_def dest: map_of_SomeD)
  then obtain i where i: "i < length ?rs" "uid = ur_ID (?rs ! i)" "a = ps_upstreams p ! i" using l by (auto simp: in_set_zip)
  have "sameConfig C (ht_heap h a) (?rs ! i)" using assms(1) i l by (auto simp: pool_ok_def list_all2_conv_all_nth)
  moreover have "?rs ! i \<in> set ?rs" "a \<in> set (ps_upstreams p)" by (rule nth_mem [OF i(1)]) (use i l in simp)
  ultimately show ?thesis using that [of "?rs ! i"] i(2) by auto
qed

lemma pool_lookup:
  assumes "pool_ok C rows h e p" and "distinct (map ur_ID rows)" and "r \<in> set rows" and "ur_AdapterType r = e"
  obtains a where "ps_byID p (ur_ID r) = Some a" and "a \<in> set (ps_upstreams p)" and "sameConfig C (ht_heap h a) r"
proof -
  let ?rs = "records_of e rows"
  have l: "length (ps_upstreams p) = length ?rs" using assms(1) by (auto simp: pool_ok_def dest: list_all2_lengthD)
  have "r \<in> set ?rs" using assms(3,4) by simp
  then obtain i where i: "i < length ?rs" "?rs ! i = r" by (meson in_set_conv_nth)
  have "map_of (zip (map ur_ID ?rs) (ps_upstreams p)) (map ur_ID ?rs ! i) = Some (ps_upstreams p ! i)"
    by (rule map_of_zip_nth) (use i l distinct_ids_records_of [OF assms(2), of e] in simp_all)
  then have "ps_byID p (ur_ID r) = Some (ps_upstreams p ! i)" using i assms(1) by (simp add: pool_ok_def)
  moreover have "sameConfig C (ht_heap h (ps_upstreams p ! i)) r" using assms(1) i l by (auto simp: pool_ok_def list_all2_conv_all_nth)
  ultimately show ?thesis using that i l by simp
qed

section \<open>Building a snapshot\<close>

lemma build_loop_keeps:
  assumes "build_loop C previous records h0 snap = (Inr snap', h)" and "distinct (map ur_ID records)"
    and "\<And>p uid a. previous = Some p \<Longrightarrow> ps_byID p uid = Some a \<Longrightarrow> a < ht_next h0"
  shows "ht_next h0 \<le> ht_next h \<and> (\<forall>a < ht_next h0. ht_heap h a = ht_heap h0 a) \<and>
    (\<exists>xs. ps_upstreams snap' = ps_upstreams snap @ xs \<and> list_all2 (\<lambda>a. sameConfig C (ht_heap h a)) xs records \<and>
       (\<forall>a \<in> set xs. a < ht_next h) \<and> ps_byID snap' = ps_byID snap ++ map_of (zip (map ur_ID records) xs) \<and>
       (\<forall>p r a. previous = Some p \<longrightarrow> r \<in> set records \<longrightarrow> ps_byID p (ur_ID r) = Some a \<longrightarrow> sameConfig C (ht_heap h0 a) r \<longrightarrow>
          map_of (zip (map ur_ID records) xs) (ur_ID r) = Some a))"
  using assms
proof (induction records arbitrary: h0 snap)
  case Nil
  then show ?case by simp
next
  case (Cons rc records)
  let ?old = "case previous of None \<Rightarrow> None | Some p \<Rightarrow> ps_byID p (ur_ID rc)"
  obtain a h1 where step: "build_loop C previous records h1 (add_upstream (ur_ID rc) a snap) = (Inr snap', h)"
    and le: "ht_next h0 \<le> ht_next h1" and same: "\<forall>b < ht_next h0. ht_heap h1 b = ht_heap h0 b"
    and a: "a < ht_next h1" "sameConfig C (ht_heap h1 a) rc"
    and kept: "\<And>b. ?old = Some b \<Longrightarrow> sameConfig C (ht_heap h0 b) rc \<Longrightarrow> a = b"
  proof (cases "\<exists>b. ?old = Some b \<and> sameConfig C (ht_heap h0 b) rc")
    case True
    then obtain b where b: "?old = Some b" "sameConfig C (ht_heap h0 b) rc" by blast
    then have "b < ht_next h0" using Cons.prems(3) by (auto split: option.splits)
    then show thesis using b Cons.prems(1) by (intro that [of h0 b]) simp_all
  next
    case False
    then obtain u where u: "newUpstreamFromRecord C rc = Inr u"
      and next': "build_loop C previous records \<lparr>ht_heap = (ht_heap h0)(ht_next h0 := u), ht_next = Suc (ht_next h0)\<rparr>
        (add_upstream (up_ID u) (ht_next h0) snap) = (Inr snap', h)"
      using Cons.prems(1) by (auto split: option.splits sum.splits if_splits)
    note c = sameConfig_new [OF u]
    show thesis
      by (rule that [of "\<lparr>ht_heap = (ht_heap h0)(ht_next h0 := u), ht_next = Suc (ht_next h0)\<rparr>" "ht_next h0"])
        (use next' c sameConfig_ID [OF c] False in auto)
  qed
  from Cons.IH [OF step] Cons.prems(2,3) le
  obtain xs where IH: "ht_next h1 \<le> ht_next h" "\<forall>b < ht_next h1. ht_heap h b = ht_heap h1 b"
    "ps_upstreams snap' = ps_upstreams snap @ a # xs" "list_all2 (\<lambda>a. sameConfig C (ht_heap h a)) xs records" "\<forall>b \<in> set xs. b < ht_next h"
    "ps_byID snap' = (ps_byID snap)(ur_ID rc \<mapsto> a) ++ map_of (zip (map ur_ID records) xs)"
    "\<forall>p r b. previous = Some p \<longrightarrow> r \<in> set records \<longrightarrow> ps_byID p (ur_ID r) = Some b \<longrightarrow> sameConfig C (ht_heap h1 b) r \<longrightarrow>
          map_of (zip (map ur_ID records) xs) (ur_ID r) = Some b"
    by (fastforce simp: add_upstream_def)
  have fresh: "map_of (zip (map ur_ID records) xs) (ur_ID rc) = None"
    using Cons.prems(2) by (auto simp: map_of_eq_None_iff dest: set_zip_leftD)
  show ?case
  proof (intro conjI exI [of _ "a # xs"] allI impI)
    show "ht_next h0 \<le> ht_next h" using le IH(1) by simp
    show "ht_heap h b = ht_heap h0 b" if "b < ht_next h0" for b using that same le IH(2) by simp
    show "ps_upstreams snap' = ps_upstreams snap @ a # xs" by (rule IH(3))
    show "list_all2 (\<lambda>a. sameConfig C (ht_heap h a)) (a # xs) (rc # records)" using a IH(2,4) by simp
    show "\<forall>b \<in> set (a # xs). b < ht_next h" using a IH(1,5) by auto
    show "ps_byID snap' = ps_byID snap ++ map_of (zip (map ur_ID (rc # records)) (a # xs))"
      using IH(6) fresh by (auto simp: map_add_def fun_eq_iff split: option.splits)
    show "map_of (zip (map ur_ID (rc # records)) (a # xs)) (ur_ID r) = Some b"
      if "previous = Some p" "r \<in> set (rc # records)" "ps_byID p (ur_ID r) = Some b" "sameConfig C (ht_heap h0 b) r" for p r b
    proof (cases "r = rc")
      case True
      then show ?thesis using that kept by simp
    next
      case False
      then have r: "r \<in> set records" "ur_ID r \<noteq> ur_ID rc" using that(2) Cons.prems(2) by (auto simp: image_iff)
      have "ht_heap h1 b = ht_heap h0 b" using Cons.prems(3) [OF that(1,3)] same by simp
      then show ?thesis using IH(7) that r by auto
    qed
  qed
qed

section \<open>Publishing\<close>

lemma fold_stop: "rt_workers (fold (\<lambda>uid r. r\<lparr>rt_workers := (rt_workers r)(uid := None)\<rparr>) ids r) = (\<lambda>uid. if uid \<in> set ids then None else rt_workers r uid)"
  "rt_pools (fold (\<lambda>uid r. r\<lparr>rt_workers := (rt_workers r)(uid := None)\<rparr>) ids r) = rt_pools r"
  "rt_objects (fold (\<lambda>uid r. r\<lparr>rt_workers := (rt_workers r)(uid := None)\<rparr>) ids r) = rt_objects r"
  "rt_active (fold (\<lambda>uid r. r\<lparr>rt_workers := (rt_workers r)(uid := None)\<rparr>) ids r) = rt_active r"
  "rt_started (fold (\<lambda>uid r. r\<lparr>rt_workers := (rt_workers r)(uid := None)\<rparr>) ids r) = rt_started r"
  "rt_degraded (fold (\<lambda>uid r. r\<lparr>rt_workers := (rt_workers r)(uid := None)\<rparr>) ids r) = rt_degraded r"
  by (induction ids arbitrary: r) (auto simp: fun_eq_iff)

lemma start_fields [simp]:
  "rt_pools (startWorkerLocked a r) = rt_pools r" "rt_objects (startWorkerLocked a r) = rt_objects r"
  "rt_active (startWorkerLocked a r) = rt_active r" "rt_started (startWorkerLocked a r) = rt_started r"
  "rt_degraded (startWorkerLocked a r) = rt_degraded r"
  by (simp_all add: startWorkerLocked_def Let_def)

lemma fold_start:
  "rt_pools (fold startWorkerLocked as r) = rt_pools r" "rt_objects (fold startWorkerLocked as r) = rt_objects r"
  "rt_active (fold startWorkerLocked as r) = rt_active r" "rt_started (fold startWorkerLocked as r) = rt_started r"
  "rt_degraded (fold startWorkerLocked as r) = rt_degraded r"
  by (induction as arbitrary: r) simp_all

definition startable :: "Registry \<Rightarrow> uint \<Rightarrow> nat \<Rightarrow> bool" where
  "startable r uid a \<longleftrightarrow> rt_started r \<and> uid \<noteq> 0 \<and> up_ID (ht_heap (rt_objects r) a) = uid \<and> up_ProbeMode (ht_heap (rt_objects r) a) = ''active''"

lemma fold_start_workers:
  assumes "distinct (map (\<lambda>a. up_ID (ht_heap (rt_objects r) a)) as)"
  shows "rt_workers (fold startWorkerLocked as r) uid = Some a \<longleftrightarrow>
    (a \<in> set as \<and> startable r uid a) \<or> ((\<forall>b \<in> set as. \<not> startable r uid b) \<and> rt_workers r uid = Some a)"
  using assms
proof (induction as arbitrary: r)
  case (Cons b as)
  have s: "startable (startWorkerLocked b r) uid = startable r uid" by (simp add: startable_def fun_eq_iff)
  have w: "rt_workers (startWorkerLocked b r) uid = (if startable r uid b then Some b else rt_workers r uid)"
    by (auto simp: startWorkerLocked_def startable_def Let_def)
  have o: "\<not> startable r uid c" if "startable r uid b" "c \<in> set as" for c
    using that Cons.prems by (auto simp: startable_def image_iff)
  show ?case using Cons.IH [of "startWorkerLocked b r"] Cons.prems o by (auto simp: s w)
qed simp

lemma pool_ok_extend:
  "pool_ok C rows h e p \<Longrightarrow> ht_next h \<le> ht_next h' \<Longrightarrow> \<forall>a < ht_next h. ht_heap h' a = ht_heap h a \<Longrightarrow> pool_ok C rows h' e p"
  by (auto simp: pool_ok_def list_all2_conv_all_nth)

lemma pool_ok_rows: "pool_ok C rows h e p \<Longrightarrow> records_of e rows' = records_of e rows \<Longrightarrow> pool_ok C rows' h e p"
  by (simp add: pool_ok_def)

lemma pool_ids:
  assumes "pool_ok C rows h e p"
  shows "map (\<lambda>a. up_ID (ht_heap h a)) (ps_upstreams p) = map ur_ID (records_of e rows)"
proof -
  have "list_all2 (\<lambda>a. sameConfig C (ht_heap h a)) (ps_upstreams p) (records_of e rows)" using assms by (simp add: pool_ok_def)
  then show ?thesis by (induction rule: list_all2_induct) (simp_all add: sameConfig_ID)
qed

lemma pool_dom:
  assumes "pool_ok C rows h e p"
  shows "dom (ps_byID p) = ur_ID ` {r \<in> set rows. ur_AdapterType r = e}"
proof -
  have "length (ps_upstreams p) = length (records_of e rows)" using assms by (auto simp: pool_ok_def dest: list_all2_lengthD)
  then show ?thesis using assms by (simp add: pool_ok_def dom_map_of_zip)
qed

lemma plan_start:
  assumes "pool_ok C rows' h e p'"
  shows "a \<in> set (wp_start (planWorkers (ht_heap h) (Some p) p')) \<longleftrightarrow>
    (\<exists>uid. ps_byID p' uid = Some a \<and> up_ProbeMode (ht_heap h a) = ''active'' \<and> ps_byID p uid \<noteq> Some a)"
    (is ?members)
    and "distinct (map (\<lambda>a. up_ID (ht_heap h a)) (wp_start (planWorkers (ht_heap h) (Some p) p')))" (is ?distinct)
proof -
  have ids: "set (map (\<lambda>a. up_ID (ht_heap h a)) (ps_upstreams p')) = dom (ps_byID p')"
    unfolding pool_ids [OF assms] pool_dom [OF assms] by auto
  let ?ids = "sort_key unat (filter (\<lambda>uid. case ps_byID p' uid of
      Some a \<Rightarrow> up_ProbeMode (ht_heap h a) = ''active'' \<and> Some a \<noteq> ps_byID p uid | None \<Rightarrow> False)
      (remdups (map (\<lambda>a. up_ID (ht_heap h a)) (ps_upstreams p'))))"
  have start: "wp_start (planWorkers (ht_heap h) (Some p) p') = map (\<lambda>uid. the (ps_byID p' uid)) ?ids"
    by (simp add: planWorkers_def Let_def)
  have mem: "uid \<in> set ?ids \<longleftrightarrow> (\<exists>a. ps_byID p' uid = Some a \<and> up_ProbeMode (ht_heap h a) = ''active'' \<and> ps_byID p uid \<noteq> Some a)" for uid
    using ids by (auto simp: dom_def split: option.splits)
  show ?members unfolding start set_map image_iff using mem by force
  have "up_ID (ht_heap h (the (ps_byID p' uid))) = uid" if "uid \<in> set ?ids" for uid
  proof -
    from that obtain a where "ps_byID p' uid = Some a" unfolding mem by blast
    then show ?thesis using pool_member [OF assms] sameConfig_ID by (metis option.sel)
  qed
  then have "map (\<lambda>a. up_ID (ht_heap h a)) (wp_start (planWorkers (ht_heap h) (Some p) p')) = ?ids"
    unfolding start map_map by (intro map_idI) simp
  then show ?distinct by (simp only: distinct_sort distinct_filter distinct_remdups)
qed

lemma plan_stop:
  assumes "pool_ok C rows h e p"
  shows "uid \<in> set (wp_stop (planWorkers (ht_heap h) (Some p) p')) \<longleftrightarrow> (\<exists>b. ps_byID p uid = Some b \<and> ps_byID p' uid \<noteq> Some b)"
proof -
  have ids: "set (map (\<lambda>a. up_ID (ht_heap h a)) (ps_upstreams p)) = dom (ps_byID p)"
    unfolding pool_ids [OF assms] pool_dom [OF assms] by auto
  then show ?thesis by (auto simp: planWorkers_def Let_def dom_def)
qed

text \<open>Replacing the snapshot of one ecosystem and running the plan of its workers.\<close>

definition install :: "string \<Rightarrow> poolSnapshot \<Rightarrow> up_heap_state \<Rightarrow> Registry \<Rightarrow> Registry" where
  "install e p h r =
     applyWorkerPlanLocked (planWorkers (ht_heap h) (rt_pools r e) p) (r\<lparr>rt_pools := (rt_pools r)(e \<mapsto> p), rt_objects := h\<rparr>)"

lemma install_fields [simp]:
  "rt_pools (install e p h r) = (rt_pools r)(e \<mapsto> p)" "rt_objects (install e p h r) = h"
  "rt_active (install e p h r) = rt_active r" "rt_started (install e p h r) = rt_started r"
  by (simp_all add: install_def applyWorkerPlanLocked_def fold_start fold_stop)

lemma install_keeps:
  assumes ok: "registry_sound C (r, rows)" and e: "e \<in> set (rt_active r)" and ids: "distinct (map ur_ID rows')"
    and others: "\<And>e'. e' \<noteq> e \<Longrightarrow> records_of e' rows' = records_of e' rows"
    and grows: "ht_next (rt_objects r) \<le> ht_next h" "\<forall>a < ht_next (rt_objects r). ht_heap h a = ht_heap (rt_objects r) a"
    and new: "pool_ok C rows' h e p'"
  shows "registry_sound C (install e p' h r, rows')"
proof -
  obtain p where p: "rt_pools r e = Some p" and "pool_ok C rows (rt_objects r) e p" using ok e by (auto simp: registry_sound_def pools_ok_def)
  then have old: "pool_ok C rows h e p" using pool_ok_extend grows by blast
  have low: "a < ht_next (rt_objects r)" if "e' \<in> set (rt_active r)" "rt_pools r e' = Some q" "ps_byID q uid = Some a" for e' q uid a
  proof -
    have "pool_ok C rows (rt_objects r) e' q" using ok that by (auto simp: registry_sound_def pools_ok_def)
    from pool_member [OF this that(3)] this show ?thesis by (auto simp: pool_ok_def)
  qed
  have pools: "pools_ok C rows' (install e p' h r)"
    unfolding pools_ok_def
  proof
    fix e' assume e': "e' \<in> set (rt_active (install e p' h r))"
    show "\<exists>q. rt_pools (install e p' h r) e' = Some q \<and> pool_ok C rows' (rt_objects (install e p' h r)) e' q"
    proof (cases "e' = e")
      case False
      from ok e' obtain q where "rt_pools r e' = Some q" "pool_ok C rows (rt_objects r) e' q" by (auto simp: registry_sound_def pools_ok_def)
      then show ?thesis using False pool_ok_rows [OF pool_ok_extend [OF _ grows] others [OF False]] by simp
    qed (use new in simp)
  qed
  have apart: "ps_byID p uid = None \<and> ps_byID p' uid = None"
    if "e' \<in> set (rt_active r)" "e' \<noteq> e" "rt_pools r e' = Some q" "ps_byID q uid = Some a" for e' q uid a
  proof -
    have q: "pool_ok C rows (rt_objects r) e' q" using ok that by (auto simp: registry_sound_def pools_ok_def)
    note u = that(4)
    obtain x where x: "x \<in> set rows" "ur_AdapterType x = e'" "ur_ID x = uid" by (rule pool_member [OF q u])
    have x': "x \<in> set rows'" using others [OF that(2)] x by (metis (mono_tags, lifting) mem_Collect_eq set_records_of)
    have d: "distinct (map ur_ID rows)" using ok by (simp add: registry_sound_def)
    have "uid \<notin> dom (ps_byID p)" unfolding pool_dom [OF old] using id_elsewhere [OF d x(1), of e] x that(2) by simp
    moreover have "uid \<notin> dom (ps_byID p')" unfolding pool_dom [OF new] using id_elsewhere [OF ids x', of e] x that(2) by simp
    ultimately show ?thesis by auto
  qed
  let ?plan = "planWorkers (ht_heap h) (Some p) p'"
  let ?r = "install e p' h r"
  let ?started = "\<lambda>uid a. rt_started r \<and> uid \<noteq> 0 \<and> ps_byID p' uid = Some a \<and> up_ProbeMode (ht_heap h a) = ''active'' \<and> ps_byID p uid \<noteq> Some a"
  have start: "a \<in> set (wp_start ?plan) \<and> startable (r\<lparr>rt_pools := (rt_pools r)(e \<mapsto> p'), rt_objects := h\<rparr>) uid a \<longleftrightarrow> ?started uid a" for uid a
  proof -
    have "up_ID (ht_heap h a) = u" if "ps_byID p' u = Some a" for u
      using pool_member [OF new that] sameConfig_ID by metis
    then show ?thesis unfolding plan_start(1) [OF new] startable_def by auto
  qed
  have workers: "rt_workers ?r uid = Some a \<longleftrightarrow> ?started uid a \<or>
      ((\<forall>b. \<not> ?started uid b) \<and> \<not> (\<exists>b. ps_byID p uid = Some b \<and> ps_byID p' uid \<noteq> Some b) \<and> supervised r uid a)" for uid a
  proof -
    let ?r1 = "fold (\<lambda>uid r. r\<lparr>rt_workers := (rt_workers r)(uid := None)\<rparr>) (wp_stop ?plan) (r\<lparr>rt_pools := (rt_pools r)(e \<mapsto> p'), rt_objects := h\<rparr>)"
    have s: "startable ?r1 = startable (r\<lparr>rt_pools := (rt_pools r)(e \<mapsto> p'), rt_objects := h\<rparr>)"
      by (simp add: startable_def fun_eq_iff fold_stop)
    have "rt_workers ?r uid = Some a \<longleftrightarrow> (a \<in> set (wp_start ?plan) \<and> startable ?r1 uid a) \<or>
        ((\<forall>b \<in> set (wp_start ?plan). \<not> startable ?r1 uid b) \<and> rt_workers ?r1 uid = Some a)"
      unfolding install_def applyWorkerPlanLocked_def p
      by (rule fold_start_workers) (use plan_start(2) [OF new] in \<open>simp add: fold_stop\<close>)
    also have "\<dots> \<longleftrightarrow> ?started uid a \<or> ((\<forall>b. \<not> ?started uid b) \<and> rt_workers ?r1 uid = Some a)"
      using start unfolding s by blast
    also have "rt_workers ?r1 uid = Some a \<longleftrightarrow> \<not> (\<exists>b. ps_byID p uid = Some b \<and> ps_byID p' uid \<noteq> Some b) \<and> supervised r uid a"
      using ok plan_stop [OF old, of uid p'] by (simp add: fold_stop registry_sound_def)
    finally show ?thesis by blast
  qed
  have mode: "up_ProbeMode (ht_heap h a) = up_ProbeMode (ht_heap (rt_objects r) a)"
    if "e' \<in> set (rt_active r)" "rt_pools r e' = Some q" "ps_byID q uid = Some a" for e' q uid a
    using low [OF that] grows(2) by simp
  have "rt_workers ?r uid = Some a \<longleftrightarrow> supervised ?r uid a" for uid a
  proof
    assume "rt_workers ?r uid = Some a"
    then consider "?started uid a"
      | "\<not> (\<exists>b. ps_byID p uid = Some b \<and> ps_byID p' uid \<noteq> Some b)" "supervised r uid a" unfolding workers by blast
    then show "supervised ?r uid a"
    proof cases
      case 1
      then show ?thesis using e by (auto simp: supervised_def)
    next
      case 2
      then obtain e' q where q: "e' \<in> set (rt_active r)" "rt_pools r e' = Some q" "ps_byID q uid = Some a" by (auto simp: supervised_def)
      show ?thesis
      proof (cases "e' = e")
        case True
        then have "ps_byID p uid = Some a" using q p by simp
        moreover from this 2(1) have "ps_byID p' uid = Some a" by blast
        ultimately show ?thesis using 2(2) e mode [OF q] by (auto simp: supervised_def)
      next
        case False
        then have "\<exists>x \<in> set (rt_active ?r). \<exists>p. rt_pools ?r x = Some p \<and> ps_byID p uid = Some a" using q by auto
        then show ?thesis using 2(2) mode [OF q] by (simp add: supervised_def)
      qed
    qed
  next
    assume s: "supervised ?r uid a"
    then obtain e' q where q: "e' \<in> set (rt_active r)" "rt_pools ?r e' = Some q" "ps_byID q uid = Some a" by (auto simp: supervised_def)
    from s have m: "rt_started r" "uid \<noteq> 0" "up_ProbeMode (ht_heap h a) = ''active''" by (simp_all add: supervised_def)
    show "rt_workers ?r uid = Some a"
    proof (cases "e' = e")
      case True
      then have a: "ps_byID p' uid = Some a" using q by simp
      show ?thesis
      proof (cases "ps_byID p uid = Some a")
        case True
        then have "supervised r uid a" using m e p mode [OF e p True] by (auto simp: supervised_def)
        then show ?thesis unfolding workers using True a by auto
      qed (use a m in \<open>simp add: workers\<close>)
    next
      case False
      then have q': "rt_pools r e' = Some q" using q by simp
      have "supervised r uid a" using m q q' mode [OF q(1) q' q(3)] by (auto simp: supervised_def)
      then show ?thesis unfolding workers using apart [OF q(1) False q' q(3)] by simp
    qed
  qed
  then show ?thesis using pools ids by (simp add: registry_sound_def)
qed

section \<open>Mutations keep the registry and its objects\<close>

text \<open>
  What a mutation leaves alone: objects stay as they are, and the object of an upstream whose
  configuration is still the one of its row stays in its pool.
\<close>

definition keeps :: "pool_calls \<Rightarrow> rows \<Rightarrow> Registry \<Rightarrow> Registry \<Rightarrow> bool" where
  "keeps C rows r r' \<longleftrightarrow>
     rt_active r' = rt_active r \<and> ht_next (rt_objects r) \<le> ht_next (rt_objects r') \<and>
     (\<forall>a < ht_next (rt_objects r). ht_heap (rt_objects r') a = ht_heap (rt_objects r) a) \<and>
     (\<forall>e \<in> set (rt_active r). \<forall>p. rt_pools r e = Some p \<longrightarrow> (\<exists>p'. rt_pools r' e = Some p' \<and>
        (\<forall>x \<in> set rows. \<forall>a. ur_AdapterType x = e \<longrightarrow> ps_byID p (ur_ID x) = Some a \<longrightarrow> sameConfig C (ht_heap (rt_objects r) a) x \<longrightarrow>
           ps_byID p' (ur_ID x) = Some a)))"

lemma keeps_refl: "keeps C rows r r"
  by (simp add: keeps_def)

lemma pool_low:
  assumes "registry_sound C (r, rows)" and "e \<in> set (rt_active r)" and "rt_pools r e = Some p" and "ps_byID p uid = Some a"
  shows "a < ht_next (rt_objects r)"
proof -
  have ok: "pool_ok C rows (rt_objects r) e p" using assms(1-3) by (auto simp: registry_sound_def pools_ok_def)
  have "a \<in> set (ps_upstreams p)" by (rule pool_member [OF ok assms(4)])
  then show ?thesis using ok by (simp add: pool_ok_def)
qed

lemma keeps_trans:
  assumes k1: "keeps C rows r r1" and k2: "keeps C rows r1 r2" and ok: "registry_sound C (r, rows0)"
  shows "keeps C rows r r2"
  unfolding keeps_def
proof (intro conjI ballI allI impI)
  show "rt_active r2 = rt_active r" using k1 k2 by (simp add: keeps_def)
  show "ht_next (rt_objects r) \<le> ht_next (rt_objects r2)" using k1 k2 by (simp add: keeps_def)
  show "ht_heap (rt_objects r2) a = ht_heap (rt_objects r) a" if "a < ht_next (rt_objects r)" for a
    using k1 k2 that by (simp add: keeps_def)
next
  fix e p assume e: "e \<in> set (rt_active r)" and p: "rt_pools r e = Some p"
  from k1 e p obtain p1 where p1: "rt_pools r1 e = Some p1"
    and s1: "\<And>x a. x \<in> set rows \<Longrightarrow> ur_AdapterType x = e \<Longrightarrow> ps_byID p (ur_ID x) = Some a \<Longrightarrow> sameConfig C (ht_heap (rt_objects r) a) x \<Longrightarrow> ps_byID p1 (ur_ID x) = Some a"
    unfolding keeps_def by blast
  have "e \<in> set (rt_active r1)" using k1 e by (simp add: keeps_def)
  with k2 p1 obtain p2 where p2: "rt_pools r2 e = Some p2"
    and s2: "\<And>x a. x \<in> set rows \<Longrightarrow> ur_AdapterType x = e \<Longrightarrow> ps_byID p1 (ur_ID x) = Some a \<Longrightarrow> sameConfig C (ht_heap (rt_objects r1) a) x \<Longrightarrow> ps_byID p2 (ur_ID x) = Some a"
    unfolding keeps_def by blast
  have "ht_heap (rt_objects r1) a = ht_heap (rt_objects r) a" if "ps_byID p uid = Some a" for uid a
    using k1 pool_low [OF ok e p that] by (simp add: keeps_def)
  then show "\<exists>p'. rt_pools r2 e = Some p' \<and>
      (\<forall>x \<in> set rows. \<forall>a. ur_AdapterType x = e \<longrightarrow> ps_byID p (ur_ID x) = Some a \<longrightarrow> sameConfig C (ht_heap (rt_objects r) a) x \<longrightarrow> ps_byID p' (ur_ID x) = Some a)"
    using p2 s1 s2 by auto
qed

lemma keeps_degraded [simp]:
  "keeps C rows r (r'\<lparr>rt_degraded := d\<rparr>) = keeps C rows r r'"
  by (simp add: keeps_def)

lemma registry_ok_degraded [simp]:
  "registry_sound C (r\<lparr>rt_degraded := d\<rparr>, rows) = registry_sound C (r, rows)"
  by (simp add: registry_sound_def pools_ok_def supervised_def)

lemma build_ok:
  assumes b: "buildPoolSnapshotWithOptions C (records_of e rows') previous h0 = (Inr p', h)"
    and ids: "distinct (map ur_ID rows')" and ne: "records_of e rows' \<noteq> []"
    and low: "\<And>p uid a. previous = Some p \<Longrightarrow> ps_byID p uid = Some a \<Longrightarrow> a < ht_next h0"
  shows "ht_next h0 \<le> ht_next h" and "\<forall>a < ht_next h0. ht_heap h a = ht_heap h0 a" and "pool_ok C rows' h e p'"
    and "previous = Some p \<Longrightarrow> x \<in> set rows' \<Longrightarrow> ur_AdapterType x = e \<Longrightarrow> ps_byID p (ur_ID x) = Some a \<Longrightarrow> sameConfig C (ht_heap h0 a) x \<Longrightarrow>
      ps_byID p' (ur_ID x) = Some a"
proof -
  from b have "build_loop C previous (records_of e rows') h0 empty_snapshot = (Inr p', h)" by (simp add: buildPoolSnapshotWithOptions_def)
  from build_loop_keeps [OF this distinct_ids_records_of [OF ids] low]
  obtain xs where xs: "ht_next h0 \<le> ht_next h" "\<forall>a < ht_next h0. ht_heap h a = ht_heap h0 a" "ps_upstreams p' = xs"
    "list_all2 (\<lambda>a. sameConfig C (ht_heap h a)) xs (records_of e rows')" "\<forall>a \<in> set xs. a < ht_next h"
    "ps_byID p' = map_of (zip (map ur_ID (records_of e rows')) xs)"
    "\<forall>p r a. previous = Some p \<longrightarrow> r \<in> set (records_of e rows') \<longrightarrow> ps_byID p (ur_ID r) = Some a \<longrightarrow> sameConfig C (ht_heap h0 a) r \<longrightarrow>
          map_of (zip (map ur_ID (records_of e rows')) xs) (ur_ID r) = Some a"
    by (auto simp: empty_snapshot_def)
  show "ht_next h0 \<le> ht_next h" "\<forall>a < ht_next h0. ht_heap h a = ht_heap h0 a" by (rule xs(1), rule xs(2))
  show "pool_ok C rows' h e p'" using xs ne by (simp add: pool_ok_def)
  show "ps_byID p' (ur_ID x) = Some a" if "previous = Some p" "x \<in> set rows'" "ur_AdapterType x = e" "ps_byID p (ur_ID x) = Some a" "sameConfig C (ht_heap h0 a) x"
    using xs(6,7) that by simp
qed

lemma install_ok:
  assumes ok: "registry_sound C (r, rows)" and e: "e \<in> set (rt_active r)" and ids: "distinct (map ur_ID rows')"
    and others: "\<And>e'. e' \<noteq> e \<Longrightarrow> records_of e' rows' = records_of e' rows" and ne: "records_of e rows' \<noteq> []"
    and b: "buildPoolSnapshotWithOptions C (records_of e rows') (rt_pools r e) (rt_objects r) = (Inr p', h)"
  shows "registry_sound C (install e p' h r, rows')" and "keeps C rows' r (install e p' h r)"
proof -
  have low: "a < ht_next (rt_objects r)" if "rt_pools r e = Some p" "ps_byID p uid = Some a" for p uid a
    using pool_low [OF ok e that] .
  note built = build_ok [OF b ids ne low]
  show "registry_sound C (install e p' h r, rows')" by (rule install_keeps [OF ok e ids others built(1,2,3)])
  show "keeps C rows' r (install e p' h r)"
    unfolding keeps_def using built by auto
qed

lemma publish_install:
  assumes "pm_workers prepared = planWorkers (ht_heap (pm_objects prepared)) (rt_pools r e) (pm_next prepared)"
  shows "registry_publish C env rows e prepared r =
    (let r1 = install e (pm_next prepared) (pm_objects prepared) r;
         clear = (\<lambda>r. r\<lparr>rt_degraded := (rt_degraded r)(e := None)\<rparr>) in
     case registry_verify C (pv_verify env) rows e r1 of
       None \<Rightarrow> (None, clear r1)
     | Some _ \<Rightarrow>
         (case reloadEcosystemLocked C env rows e r1 of
            (Some e', r2) \<Rightarrow> (Some [ErrMessage ''registry reconcile failed''], r2\<lparr>rt_degraded := (rt_degraded r2)(e := Some e')\<rparr>)
          | (None, r2) \<Rightarrow> (None, clear r2)))"
  using assms by (simp add: registry_publish_def install_def)

lemma reload_install:
  "reloadEcosystemLocked C env rows e r =
     (case pv_load env of
        Some er \<Rightarrow> (Some er, r)
      | None \<Rightarrow>
          if records_of e rows = [] then (Some [ErrMessage ''active ecosystem has no upstreams''], r)
          else
            (case buildPoolSnapshotWithOptions C (records_of e rows) (rt_pools r e) (rt_objects r) of
               (Inl er, h) \<Rightarrow> (Some er, r)
             | (Inr p, h) \<Rightarrow> (registry_verify C (pv_again env) rows e (install e p h r), install e p h r)))"
  by (simp add: reloadEcosystemLocked_def install_def Let_def split: option.splits sum.splits prod.splits)

lemma reload_ok:
  assumes ok: "registry_sound C (r, rows)" and e: "e \<in> set (rt_active r)" and res: "reloadEcosystemLocked C env rows e r = (res, r')"
  shows "registry_sound C (r', rows) \<and> keeps C rows r r'"
proof (cases "r' = r")
  case True
  then show ?thesis using ok by (simp add: keeps_refl)
next
  case False
  have ids: "distinct (map ur_ID rows)" using ok by (simp add: registry_sound_def)
  from False res obtain p h where b: "buildPoolSnapshotWithOptions C (records_of e rows) (rt_pools r e) (rt_objects r) = (Inr p, h)"
    and r': "r' = install e p h r" and ne: "records_of e rows \<noteq> []"
    unfolding reload_install by (auto split: option.splits sum.splits prod.splits if_splits)
  show ?thesis unfolding r' using install_ok [OF ok e ids refl ne b] by blast
qed

lemma publish_ok:
  assumes ok: "registry_sound C (r, rows)" and e: "e \<in> set (rt_active r)" and ids: "distinct (map ur_ID rows')"
    and others: "\<And>e'. e' \<noteq> e \<Longrightarrow> records_of e' rows' = records_of e' rows" and ne: "records_of e rows' \<noteq> []"
    and b: "buildPoolSnapshotWithOptions C (records_of e rows') (rt_pools r e) (rt_objects r) = (Inr (pm_next prepared), pm_objects prepared)"
    and w: "pm_workers prepared = planWorkers (ht_heap (pm_objects prepared)) (rt_pools r e) (pm_next prepared)"
    and res: "registry_publish C env rows' e prepared r = (res, r')"
  shows "registry_sound C (r', rows') \<and> keeps C rows' r r'"
proof -
  let ?r1 = "install e (pm_next prepared) (pm_objects prepared) r"
  note i = install_ok [OF ok e ids others ne b]
  from res obtain r2 d where r': "r' = r2\<lparr>rt_degraded := d\<rparr>"
    and r2: "r2 = ?r1 \<or> (\<exists>x. reloadEcosystemLocked C env rows' e ?r1 = (x, r2))"
    unfolding publish_install [OF w] Let_def by (auto split: option.splits prod.splits)
  from r2 have "registry_sound C (r2, rows') \<and> keeps C rows' ?r1 r2"
  proof
    assume "\<exists>x. reloadEcosystemLocked C env rows' e ?r1 = (x, r2)"
    then obtain x where x: "reloadEcosystemLocked C env rows' e ?r1 = (x, r2)" ..
    have e1: "e \<in> set (rt_active ?r1)" using e by simp
    show ?thesis by (rule reload_ok [OF i(1) e1 x])
  qed (use i in \<open>simp add: keeps_refl\<close>)
  then show ?thesis unfolding r' using keeps_trans [OF i(2) _ ok] by simp
qed

text \<open>The transactions change one ecosystem and leave it with a row.\<close>

definition confined :: "string \<Rightarrow> rows \<Rightarrow> rows \<Rightarrow> bool" where
  "confined e rows rows' \<longleftrightarrow>
     distinct (map ur_ID rows') \<and> (\<forall>e'. e' \<noteq> e \<longrightarrow> records_of e' rows' = records_of e' rows) \<and> records_of e rows' \<noteq> []"

lemma transaction_prepares:
  "runTransactionOnce C e apply_rows r env rows = (Inr prepared, rows') \<Longrightarrow>
     (\<exists>uid. apply_rows env rows = Inr (uid, rows')) \<and>
     buildPoolSnapshotWithOptions C (records_of e rows') (rt_pools r e) (rt_objects r) = (Inr (pm_next prepared), pm_objects prepared) \<and>
     pm_workers prepared = planWorkers (ht_heap (pm_objects prepared)) (rt_pools r e) (pm_next prepared)"
  "runTransactionOnce C e apply_rows r env rows = (Inl er, rows') \<Longrightarrow> rows' = rows"
  by (auto simp: runTransactionOnce_def split: option.splits sum.splits prod.splits)

lemma prepares:
  "prepareAndCommit n C e apply_rows r envs rows = (Inr prepared, rows') \<Longrightarrow>
     (\<exists>i. runTransactionOnce C e apply_rows r (envs i) rows = (Inr prepared, rows'))"
  "prepareAndCommit n C e apply_rows r envs rows = (Inl er, rows') \<Longrightarrow> rows' = rows"
proof (induction n)
  case 0
  { case 1 then show ?case by (auto split: sum.splits prod.splits if_splits) }
  { case 2 then show ?case by (auto split: sum.splits prod.splits if_splits dest: transaction_prepares(2)) }
next
  case (Suc n)
  { case 1 then show ?case using Suc.IH(1) by (auto split: sum.splits prod.splits if_splits option.splits dest: transaction_prepares(2)) }
  { case 2 then show ?case using Suc.IH(2) by (auto split: sum.splits prod.splits if_splits option.splits dest: transaction_prepares(2)) }
qed

declare prepareAndCommit.simps [simp del]

lemma mutate_ok:
  assumes ok: "registry_sound C (r, rows)" and e: "e \<in> set (rt_active r)"
    and confined: "\<And>i uid rows'. apply_rows (envs i) rows = Inr (uid, rows') \<Longrightarrow> confined e rows rows'"
    and res: "mutate_locked C envs pub e apply_rows (r, rows) = (res, r', rows')"
  shows "registry_sound C (r', rows') \<and> keeps C rows' r r'"
proof (cases "prepareAndCommit registryBusyRetryLimit C e apply_rows r envs rows")
  case (Pair x rows1)
  show ?thesis
  proof (cases x)
    case (Inl er)
    with Pair have "rows1 = rows" using prepares(2) by blast
    then show ?thesis using res Pair Inl ok by (auto simp: mutate_locked_def keeps_refl)
  next
    case (Inr prepared)
    with Pair obtain i where t: "runTransactionOnce C e apply_rows r (envs i) rows = (Inr prepared, rows1)" using prepares(1) by blast
    note p = transaction_prepares(1) [OF t]
    from p confined have c: "confined e rows rows1" by blast
    from res Pair Inr obtain y where y: "registry_publish C pub rows1 e prepared r = (y, r')" and rows': "rows' = rows1"
      by (auto simp: mutate_locked_def split: option.splits prod.splits)
    have c': "distinct (map ur_ID rows1)" "\<And>e'. e' \<noteq> e \<Longrightarrow> records_of e' rows1 = records_of e' rows" "records_of e rows1 \<noteq> []"
      using c by (simp_all add: confined_def)
    show ?thesis unfolding rows' using publish_ok [OF ok e c' _ _ y] p by blast
  qed
qed

lemma confined_create:
  assumes "create_rows input env rows = Inr (uid, rows')" and "distinct (map ur_ID rows)" and "te_newID env \<notin> ur_ID ` set rows"
  shows "confined (mi_AdapterType input) rows rows'"
proof -
  from assms(1) obtain x where x: "rows' = rows @ [x]" "ur_ID x = te_newID env" "ur_AdapterType x = mi_AdapterType input"
    by (auto simp: create_rows_def split: option.splits if_splits)
  have "x \<in> set (records_of (mi_AdapterType input) rows')" using x by simp
  then have "records_of (mi_AdapterType input) rows' \<noteq> []" by force
  then show ?thesis using x assms(2,3) by (auto simp: confined_def records_of_def)
qed

lemma filter_map_same:
  "\<forall>x \<in> set xs. P (f x) = P x \<and> (P x \<longrightarrow> f x = x) \<Longrightarrow> filter P (map f xs) = filter P xs"
  by (induction xs) auto

lemma confined_update:
  assumes "update_rows uid e input env rows = Inr (uid', rows')" and "distinct (map ur_ID rows)"
    and own: "\<And>x. x \<in> set rows \<Longrightarrow> ur_ID x = uid \<Longrightarrow> ur_AdapterType x = e"
  shows "confined e rows rows'"
proof -
  from assms(1) obtain f where f: "rows' = map f rows" "\<And>x. ur_ID (f x) = ur_ID x" "\<And>x. ur_AdapterType (f x) = ur_AdapterType x"
      "\<And>x. ur_ID x \<noteq> uid \<Longrightarrow> f x = x" and ex: "\<exists>x \<in> set rows. ur_ID x = uid"
  proof (intro that)
    let ?f = "\<lambda>r. if ur_ID r = uid
      then r\<lparr>ur_Name := mi_Name input, ur_URL := mi_URL input, ur_Proxy := mi_Proxy input, ur_Priority := mi_Priority input,
             ur_ProbeMode := mi_ProbeMode input, ur_ProbeInterval := mi_ProbeInterval input, ur_Via := mi_Via input\<rparr> else r"
    show "rows' = map ?f rows" using assms(1) by (auto simp: update_rows_def split: option.splits if_splits)
    show "\<exists>x \<in> set rows. ur_ID x = uid" using assms(1) by (auto simp: update_rows_def list_ex_iff split: option.splits if_splits)
  qed auto
  from ex obtain x where x: "x \<in> set rows" "ur_ID x = uid" by blast
  have "f x \<in> set (records_of e rows')" using x f own by simp
  then have "records_of e rows' \<noteq> []" by force
  moreover have "map ur_ID rows' = map ur_ID rows" using f by simp
  moreover have "filter (\<lambda>r. ur_AdapterType r = e') rows' = filter (\<lambda>r. ur_AdapterType r = e') rows" if "e' \<noteq> e" for e'
    unfolding f(1)
  proof (rule filter_map_same, intro ballI conjI impI)
    fix y assume y: "y \<in> set rows"
    show "(ur_AdapterType (f y) = e') = (ur_AdapterType y = e')" by (simp add: f(3))
    assume "ur_AdapterType y = e'"
    then have "ur_ID y \<noteq> uid" using own [OF y] that by blast
    then show "f y = y" by (rule f(4))
  qed
  ultimately show ?thesis using assms(2) by (simp add: confined_def records_of_def)
qed

lemma confined_delete:
  assumes "delete_rows uid env rows = Inr (uid', rows')" and "distinct (map ur_ID rows)"
    and own: "\<And>x. x \<in> set rows \<Longrightarrow> ur_ID x = uid \<Longrightarrow> ur_AdapterType x = e"
  shows "confined e rows rows'"
proof -
  from assms(1) obtain x where x: "find (\<lambda>r. ur_ID r = uid) rows = Some x" and rows': "rows' = filter (\<lambda>r. ur_ID r \<noteq> uid) rows"
    and more': "1 < length (filter (\<lambda>r. ur_AdapterType r = ur_AdapterType x) rows)"
    by (auto simp: delete_rows_def split: option.splits if_splits)
  from x have x': "x \<in> set rows" "ur_ID x = uid" by (auto simp: find_Some_iff in_set_conv_nth)
  then have e: "ur_AdapterType x = e" using own by blast
  have d: "distinct (filter (\<lambda>r. ur_AdapterType r = e) rows)" using assms(2) by (simp add: distinct_map)
  have "\<exists>y. y \<in> set (filter (\<lambda>r. ur_AdapterType r = e) rows) \<and> y \<noteq> x"
  proof (rule ccontr)
    assume "\<not> ?thesis"
    then have "set (filter (\<lambda>r. ur_AdapterType r = e) rows) \<subseteq> {x}" by blast
    from card_mono [OF _ this] distinct_card [OF d] more' e show False by simp
  qed
  then obtain y where y: "y \<in> set rows" "ur_AdapterType y = e" "y \<noteq> x" by auto
  have "ur_ID y \<noteq> uid" using same_id [OF assms(2) y(1) x'(1)] x' y by auto
  then have "y \<in> set (records_of e rows')" using y rows' by simp
  then have "records_of e rows' \<noteq> []" by force
  moreover have "distinct (map ur_ID rows')" using assms(2) rows' by (simp add: distinct_map inj_on_def)
  moreover have "filter (\<lambda>r. ur_AdapterType r = e') rows' = filter (\<lambda>r. ur_AdapterType r = e') rows" if "e' \<noteq> e" for e'
    unfolding rows' filter_filter by (rule filter_cong) (use own that in auto)
  ultimately show ?thesis by (simp add: confined_def records_of_def)
qed

lemma validate_adapter: "validateMutation C input = Inr input' \<Longrightarrow> mi_AdapterType input' = mi_AdapterType input"
  by (auto simp: validateMutation_def Let_def split: if_splits sum.splits)

definition kept_by :: "pool_calls \<Rightarrow> Registry \<times> rows \<Rightarrow> Registry \<times> rows \<Rightarrow> bool" where
  "kept_by C s s' \<longleftrightarrow> registry_sound C s' \<and> keeps C (snd s') (fst s) (fst s')"

lemma kept_by_refl: "registry_sound C s \<Longrightarrow> kept_by C s s"
  by (simp add: kept_by_def keeps_refl)

lemma mutate_kept:
  assumes "registry_sound C s" and "e \<in> set (rt_active (fst s))"
    and "\<And>i uid rows'. apply_rows (envs i) (snd s) = Inr (uid, rows') \<Longrightarrow> confined e (snd s) rows'"
    and "mutate_locked C envs pub e apply_rows s = (res, s')"
  shows "kept_by C s s'"
  using mutate_ok [of C "fst s" "snd s" e apply_rows envs pub res "fst s'" "snd s'"] assms by (simp add: kept_by_def)

lemma create_kept:
  assumes ok: "registry_sound C s" and fresh: "\<And>i. te_newID (envs i) \<notin> ur_ID ` set (snd s)"
    and res: "registry_Create C envs pub input s = (res, s')"
  shows "kept_by C s s'"
proof (cases "s' = s")
  case False
  with res obtain input' x where v: "validateMutation C input = Inr input'" and e: "mi_AdapterType input \<in> set (rt_active (fst s))"
    and m: "mutate_locked C envs pub (mi_AdapterType input') (create_rows input') s = (x, s')"
    by (auto simp: registry_Create_def split: if_splits sum.splits option.splits prod.splits)
  have d: "distinct (map ur_ID (snd s))" using ok by (simp add: registry_sound_def)
  note a = validate_adapter [OF v]
  have e': "mi_AdapterType input' \<in> set (rt_active (fst s))" using e a by simp
  show ?thesis by (rule mutate_kept [OF ok e' _ m]) (rule confined_create [OF _ d fresh])
qed (use ok in \<open>simp add: kept_by_refl\<close>)

lemma update_kept:
  assumes ok: "registry_sound C s" and res: "registry_Update C found envs pub uid input s = (res, s')"
  shows "kept_by C s s'"
proof (cases "s' = s")
  case False
  have d: "distinct (map ur_ID (snd s))" using ok by (simp add: registry_sound_def)
  from False res obtain input' current x where f: "find (\<lambda>r. ur_ID r = uid) (snd s) = Some current"
    and e: "ur_AdapterType current \<in> set (rt_active (fst s))"
    and m: "mutate_locked C envs pub (ur_AdapterType current) (update_rows uid (ur_AdapterType current) input') s = (x, s')"
    by (auto simp: registry_Update_def split: if_splits sum.splits option.splits prod.splits)
  from f have c: "current \<in> set (snd s)" "ur_ID current = uid" by (auto simp: find_Some_iff in_set_conv_nth)
  have own: "ur_AdapterType y = ur_AdapterType current" if "y \<in> set (snd s)" "ur_ID y = uid" for y
    using same_id [OF d that(1) c(1)] that c by simp
  show ?thesis by (rule mutate_kept [OF ok e _ m]) (rule confined_update [OF _ d own])
qed (use ok in \<open>simp add: kept_by_refl\<close>)

lemma find_upstream_pool:
  "find_upstream es uid r = Some a \<Longrightarrow> \<exists>e \<in> set es. \<exists>p. rt_pools r e = Some p \<and> ps_byID p uid = Some a"
  by (induction es) (auto split: option.splits)

lemma get_owner:
  assumes ok: "registry_sound C s" and g: "registry_Get (fst s) uid = Inr current"
  obtains x where "x \<in> set (snd s)" and "ur_ID x = uid" and "ur_AdapterType x = up_AdapterType (ru_upstream current)"
    and "ur_AdapterType x \<in> set (rt_active (fst s))"
proof -
  from g obtain a where f: "find_upstream (rt_active (fst s)) uid (fst s) = Some a"
    and current: "current = runtimeUpstream (fst s) a" by (auto simp: registry_Get_def split: option.splits)
  from find_upstream_pool [OF f] obtain e p where e: "e \<in> set (rt_active (fst s))" and p: "rt_pools (fst s) e = Some p" and a: "ps_byID p uid = Some a"
    by blast
  have pool: "pool_ok C (snd s) (rt_objects (fst s)) e p" using ok e p by (auto simp: registry_sound_def pools_ok_def)
  obtain x where x: "x \<in> set (snd s)" "ur_AdapterType x = e" "ur_ID x = uid" "sameConfig C (ht_heap (rt_objects (fst s)) a) x"
    by (rule pool_member [OF pool a])
  have "ur_AdapterType x = up_AdapterType (ru_upstream current)" using sameConfig_ID [OF x(4)] by (simp add: current runtimeUpstream_def Let_def)
  then show thesis using that x e by simp
qed

lemma delete_kept:
  assumes ok: "registry_sound C s" and res: "registry_Delete C envs pub uid s = (res, s')"
  shows "kept_by C s s'"
proof (cases "s' = s")
  case False
  have d: "distinct (map ur_ID (snd s))" using ok by (simp add: registry_sound_def)
  from False res obtain current x where g: "registry_Get (fst s) uid = Inr current"
    and m: "mutate_locked C envs pub (up_AdapterType (ru_upstream current)) (delete_rows uid) s = (x, s')"
    by (auto simp: registry_Delete_def split: if_splits sum.splits prod.splits)
  obtain y where y: "y \<in> set (snd s)" "ur_ID y = uid" "ur_AdapterType y = up_AdapterType (ru_upstream current)"
    "ur_AdapterType y \<in> set (rt_active (fst s))" by (rule get_owner [OF ok g])
  have own: "ur_AdapterType z = up_AdapterType (ru_upstream current)" if "z \<in> set (snd s)" "ur_ID z = uid" for z
    using same_id [OF d that(1) y(1)] that y by simp
  show ?thesis by (rule mutate_kept [OF ok _ _ m]) (use y confined_delete [OF _ d own] in auto)
qed (use ok in \<open>simp add: kept_by_refl\<close>)

lemma open_pools_ok:
  assumes "open_pools C failed rows es r = Inr r'" and "distinct (map ur_ID rows)"
  shows "rt_active r' = rt_active r \<and> rt_workers r' = rt_workers r \<and> rt_started r' = rt_started r \<and>
    ht_next (rt_objects r) \<le> ht_next (rt_objects r') \<and> (\<forall>a < ht_next (rt_objects r). ht_heap (rt_objects r') a = ht_heap (rt_objects r) a) \<and>
    (\<forall>e \<in> set es. \<exists>p. rt_pools r' e = Some p \<and> pool_ok C rows (rt_objects r') e p) \<and>
    (\<forall>e. e \<notin> set es \<longrightarrow> rt_pools r' e = rt_pools r e)"
  using assms
proof (induction es arbitrary: r)
  case (Cons e es)
  from Cons.prems(1) obtain p h where ne: "records_of e rows \<noteq> []"
    and b: "buildPoolSnapshotWithOptions C (records_of e rows) None (rt_objects r) = (Inr p, h)"
    and o: "open_pools C failed rows es (r\<lparr>rt_pools := (rt_pools r)(e \<mapsto> p), rt_objects := h\<rparr>) = Inr r'"
    by (auto split: option.splits if_splits prod.splits sum.splits)
  note built = build_ok(1-3) [OF b Cons.prems(2) ne]
  have g: "ht_next (rt_objects r) \<le> ht_next h" "\<forall>a < ht_next (rt_objects r). ht_heap h a = ht_heap (rt_objects r) a" "pool_ok C rows h e p"
    using built by simp_all
  note IH = Cons.IH [OF o Cons.prems(2)]
  have "pool_ok C rows (rt_objects r') e p" by (rule pool_ok_extend [OF g(3)]) (use IH in simp_all)
  then have "\<exists>p. rt_pools r' e = Some p \<and> pool_ok C rows (rt_objects r') e p" using IH by (cases "e \<in> set es") auto
  then show ?case using IH g by auto
qed simp

lemma opened_ok:
  assumes "NewRegistryWithOptions C failed rows h active = Inr r" and "distinct (map ur_ID rows)"
  shows "registry_sound C (r, rows)"
proof -
  from assms(1) obtain ordered where "open_pools C failed rows ordered
      \<lparr>rt_active = ordered, rt_pools = Map.empty, rt_objects = h, rt_workers = Map.empty, rt_started = False, rt_degraded = (\<lambda>_. None)\<rparr> = Inr r"
    by (auto simp: NewRegistryWithOptions_def split: sum.splits)
  from open_pools_ok [OF this assms(2)] assms(2) show ?thesis by (simp add: registry_sound_def pools_ok_def supervised_def)
qed

section \<open>Workers and health\<close>

lemma fold_start_unique:
  assumes "\<forall>a \<in> set as. \<forall>b \<in> set as. startable r uid a \<longrightarrow> startable r uid b \<longrightarrow> a = b"
  shows "rt_workers (fold startWorkerLocked as r) uid = Some a \<longleftrightarrow>
    (a \<in> set as \<and> startable r uid a) \<or> ((\<forall>b \<in> set as. \<not> startable r uid b) \<and> rt_workers r uid = Some a)"
  using assms
proof (induction as arbitrary: r)
  case (Cons b as)
  have s: "startable (startWorkerLocked b r) uid = startable r uid" by (simp add: startable_def fun_eq_iff)
  have w: "rt_workers (startWorkerLocked b r) uid = (if startable r uid b then Some b else rt_workers r uid)"
    by (auto simp: startWorkerLocked_def startable_def Let_def)
  show ?case using Cons.IH [of "startWorkerLocked b r"] Cons.prems by (auto simp: s w)
qed simp

lemma pool_index:
  assumes ok: "pool_ok C rows h e p" and ids: "distinct (map ur_ID rows)" and a: "a \<in> set (ps_upstreams p)"
  shows "ps_byID p (up_ID (ht_heap h a)) = Some a"
proof -
  let ?rs = "records_of e rows"
  have l: "length (ps_upstreams p) = length ?rs" using ok by (auto simp: pool_ok_def dest: list_all2_lengthD)
  obtain i where i: "i < length (ps_upstreams p)" "ps_upstreams p ! i = a" using a by (meson in_set_conv_nth)
  have "sameConfig C (ht_heap h a) (?rs ! i)" using ok i by (auto simp: pool_ok_def list_all2_conv_all_nth)
  then have u: "up_ID (ht_heap h a) = map ur_ID ?rs ! i" using sameConfig_ID i l by simp
  have "map_of (zip (map ur_ID ?rs) (ps_upstreams p)) (map ur_ID ?rs ! i) = Some (ps_upstreams p ! i)"
    by (rule map_of_zip_nth) (use i l distinct_ids_records_of [OF ids, of e] in simp_all)
  then show ?thesis using u i ok by (simp add: pool_ok_def)
qed

lemma owner_unique:
  assumes ok: "registry_sound C (r, rows)"
    and "e \<in> set (rt_active r)" "rt_pools r e = Some p" "ps_byID p uid = Some a"
    and "e' \<in> set (rt_active r)" "rt_pools r e' = Some p'" "ps_byID p' uid = Some b"
  shows "a = b"
proof -
  have d: "distinct (map ur_ID rows)" using ok by (simp add: registry_sound_def)
  have p: "pool_ok C rows (rt_objects r) e p" and p': "pool_ok C rows (rt_objects r) e' p'"
    using assms by (auto simp: registry_sound_def pools_ok_def)
  obtain x where x: "x \<in> set rows" "ur_AdapterType x = e" "ur_ID x = uid" by (rule pool_member [OF p assms(4)])
  obtain y where y: "y \<in> set rows" "ur_AdapterType y = e'" "ur_ID y = uid" by (rule pool_member [OF p' assms(7)])
  have "x = y" using same_id [OF d x(1) y(1)] x y by simp
  then show ?thesis using x y assms by simp
qed

lemma registry_pools_owner:
  assumes ok: "registry_sound C (r, rows)"
  shows "a \<in> set (registry_pools r) \<longleftrightarrow>
    (\<exists>e \<in> set (rt_active r). \<exists>p. rt_pools r e = Some p \<and> ps_byID p (up_ID (ht_heap (rt_objects r) a)) = Some a)"
proof -
  have d: "distinct (map ur_ID rows)" using ok by (simp add: registry_sound_def)
  have pools: "pool_ok C rows (rt_objects r) e p" if "e \<in> set (rt_active r)" "rt_pools r e = Some p" for e p
    using ok that by (auto simp: registry_sound_def pools_ok_def)
  have "a \<in> set (ps_upstreams p) \<longleftrightarrow> ps_byID p (up_ID (ht_heap (rt_objects r) a)) = Some a"
    if "e \<in> set (rt_active r)" "rt_pools r e = Some p" for e p
    using pool_index [OF pools [OF that] d] pool_member [OF pools [OF that]] by metis
  moreover have "a \<in> set (registry_pools r) \<longleftrightarrow> (\<exists>e \<in> set (rt_active r). \<exists>p. rt_pools r e = Some p \<and> a \<in> set (ps_upstreams p))"
  proof -
    have "a \<in> set (case rt_pools r x of None \<Rightarrow> [] | Some p \<Rightarrow> ps_upstreams p) \<longleftrightarrow> (\<exists>p. rt_pools r x = Some p \<and> a \<in> set (ps_upstreams p))" for x
      by (cases "rt_pools r x") simp_all
    then show ?thesis by (simp add: registry_pools_def)
  qed
  ultimately show ?thesis by (simp cong: bex_cong conj_cong)
qed

lemma start_ok:
  assumes ok: "registry_sound C (r, rows)"
  shows "registry_sound C (registry_Start r, rows)"
proof (cases "rt_started r")
  case False
  let ?r = "r\<lparr>rt_started := True\<rparr>"
  have m: "a \<in> set (registry_pools r) \<and> startable ?r uid a \<longleftrightarrow> supervised ?r uid a" for uid a
  proof -
    have "up_ID (ht_heap (rt_objects r) a) = uid"
      if "e \<in> set (rt_active r)" "rt_pools r e = Some p" "ps_byID p uid = Some a" for e p
    proof -
      have "pool_ok C rows (rt_objects r) e p" using ok that by (auto simp: registry_sound_def pools_ok_def)
      from pool_member [OF this that(3)] sameConfig_ID show ?thesis by metis
    qed
    then show ?thesis unfolding registry_pools_owner [OF ok] by (auto simp: startable_def supervised_def)
  qed
  have unique: "\<forall>a \<in> set (registry_pools r). \<forall>b \<in> set (registry_pools r). startable ?r uid a \<longrightarrow> startable ?r uid b \<longrightarrow> a = b" for uid
  proof (intro ballI impI)
    fix a b assume "a \<in> set (registry_pools r)" "b \<in> set (registry_pools r)" "startable ?r uid a" "startable ?r uid b"
    then have "supervised ?r uid a" "supervised ?r uid b" using m by blast+
    then obtain e p e' p' where "e \<in> set (rt_active r)" "rt_pools r e = Some p" "ps_byID p uid = Some a"
      "e' \<in> set (rt_active r)" "rt_pools r e' = Some p'" "ps_byID p' uid = Some b" by (auto simp: supervised_def)
    then show "a = b" by (rule owner_unique [OF ok])
  qed
  have none: "rt_workers r uid = None" for uid using ok False by (auto simp: registry_sound_def supervised_def)
  have "rt_workers (fold startWorkerLocked (registry_pools r) ?r) uid = Some a \<longleftrightarrow> supervised ?r uid a" for uid a
    unfolding fold_start_unique [OF unique] using m none by auto
  then show ?thesis using ok False by (simp add: registry_Start_def registry_sound_def pools_ok_def supervised_def fold_start)
qed (use ok in \<open>simp add: registry_Start_def\<close>)

lemma close_ok: "registry_sound C (r, rows) \<Longrightarrow> registry_sound C (registry_Close r, rows)"
  by (simp add: registry_Close_def registry_sound_def pools_ok_def supervised_def)

lemma sameConfig_runtime [simp]: "sameConfig C (u\<lparr>up_health := h, up_recovery := c\<rparr>) x = sameConfig C u x"
  "sameConfig C (on_health f u) x = sameConfig C u x"
  by (simp_all add: sameConfig_def config_equals_def on_health_def cong: sum.case_cong)

lemma set_object_ok:
  assumes ok: "registry_sound C (r, rows)" and same: "\<And>x. sameConfig C u x = sameConfig C (ht_heap (rt_objects r) a) x"
    and mode: "up_ProbeMode u = up_ProbeMode (ht_heap (rt_objects r) a)"
  shows "registry_sound C (set_object a u r, rows)"
proof -
  have "pool_ok C rows (rt_objects (set_object a u r)) e p = pool_ok C rows (rt_objects r) e p" for e p
  proof -
    have "sameConfig C (ht_heap (rt_objects (set_object a u r)) b) = sameConfig C (ht_heap (rt_objects r) b)" for b
      by (simp add: fun_eq_iff set_object_def same)
    then show ?thesis by (simp add: pool_ok_def) (simp add: set_object_def)
  qed
  moreover have "supervised (set_object a u r) uid b = supervised r uid b" for uid b
    using mode by (auto simp: supervised_def set_object_def)
  ultimately show ?thesis using ok by (simp add: registry_sound_def pools_ok_def set_object_def)
qed

text \<open>Writing health columns changes neither the order of the rows nor a configuration.\<close>

lemma sort_key_map:
  assumes "\<And>x. k (f x) = k x"
  shows "sort_key k (map f xs) = map f (sort_key k xs)"
proof -
  have "insort_key k (f x) (map f ys) = map f (insort_key k x ys)" for x ys
    using assms by (induction ys) simp_all
  then show ?thesis by (induction xs) simp_all
qed

definition health_only :: "(UpstreamRecord \<Rightarrow> UpstreamRecord) \<Rightarrow> bool" where
  "health_only f \<longleftrightarrow>
     (\<forall>x. \<exists>h l s t. f x = x\<lparr>ur_Healthy := h, ur_AvgLatencyMs := l, ur_SuccessRate := s, ur_LastCheckedAt := t\<rparr>)"

lemma health_only_fields:
  assumes "health_only f"
  shows "ur_ID (f x) = ur_ID x" and "ur_AdapterType (f x) = ur_AdapterType x" and "ur_Priority (f x) = ur_Priority x"
    and "sameConfig C u (f x) = sameConfig C u x"
proof -
  from assms obtain h l s t where f: "f x = x\<lparr>ur_Healthy := h, ur_AvgLatencyMs := l, ur_SuccessRate := s, ur_LastCheckedAt := t\<rparr>"
    unfolding health_only_def by blast
  have "config_equals u (f x) = config_equals u x" by (simp add: fun_eq_iff config_equals_def f)
  moreover have "ur_ProbeMode (f x) = ur_ProbeMode x" "ur_ProbeInterval (f x) = ur_ProbeInterval x" by (simp_all add: f)
  then have "normalizeRecordProbe C (f x) = normalizeRecordProbe C x" by (simp only: normalizeRecordProbe_def)
  ultimately show "sameConfig C u (f x) = sameConfig C u x" by (auto simp: sameConfig_def split: sum.split)
  show "ur_ID (f x) = ur_ID x" "ur_AdapterType (f x) = ur_AdapterType x" "ur_Priority (f x) = ur_Priority x"
    by (simp_all add: f)
qed

lemma records_of_health:
  assumes "health_only f"
  shows "records_of e (map f rows) = map f (records_of e rows)"
  by (simp add: records_of_def filter_map o_def health_only_fields [OF assms] sort_key_map)

lemma health_rows_ok:
  assumes ok: "registry_sound C (r, rows)" and f: "health_only f"
  shows "registry_sound C (r, map f rows)"
proof -
  have "pool_ok C (map f rows) h e p = pool_ok C rows h e p" for h e p
    by (simp add: pool_ok_def records_of_health [OF f] list_all2_map2 health_only_fields [OF f] o_def)
  then show ?thesis using ok by (simp add: registry_sound_def pools_ok_def health_only_fields [OF f] o_def)
qed

lemma persist_health_only:
  assumes "persistCheckedProbe env result u rows = (None, u', rows')"
  shows "u' = upstream_applyProbe result u" and "\<exists>f. health_only f \<and> rows' = map f rows"
proof -
  have same: "health_only (\<lambda>x. x)"
    unfolding health_only_def
  proof
    fix x :: UpstreamRecord
    have "x = x\<lparr>ur_Healthy := ur_Healthy x, ur_AvgLatencyMs := ur_AvgLatencyMs x, ur_SuccessRate := ur_SuccessRate x, ur_LastCheckedAt := ur_LastCheckedAt x\<rparr>"
      by simp
    then show "\<exists>h l s t. x = x\<lparr>ur_Healthy := h, ur_AvgLatencyMs := l, ur_SuccessRate := s, ur_LastCheckedAt := t\<rparr>" by blast
  qed
  have written: "health_only (\<lambda>x. if P x then x\<lparr>ur_Healthy := h, ur_AvgLatencyMs := l, ur_SuccessRate := s, ur_LastCheckedAt := t\<rparr> else x)" for P h l s t
    unfolding health_only_def
  proof
    fix x
    show "\<exists>ha la sa ta. (if P x then x\<lparr>ur_Healthy := h, ur_AvgLatencyMs := l, ur_SuccessRate := s, ur_LastCheckedAt := t\<rparr> else x) =
        x\<lparr>ur_Healthy := ha, ur_AvgLatencyMs := la, ur_SuccessRate := sa, ur_LastCheckedAt := ta\<rparr>"
      using same unfolding health_only_def by (cases "P x") auto
  qed
  have "\<exists>f. health_only f \<and> rows1 = map f rows"
    if "persistHealthSnapshot env v health rows = (x, rows1)" for v health x rows1
  proof (cases "rows1 = rows")
    case True
    then show ?thesis using same by (intro exI [of _ "\<lambda>x. x"]) simp
  next
    case False
    with that have "rows1 = map (\<lambda>r. if newer_row (up_ID v) health r
        then r\<lparr>ur_Healthy := sn_Healthy health, ur_AvgLatencyMs := milliseconds (sn_AvgLatency health),
               ur_SuccessRate := sn_SuccessRate health, ur_LastCheckedAt := sn_LastCheckedAt health\<rparr> else r) rows"
      by (simp add: persistHealthSnapshot_def Let_def split: if_splits option.splits)
    then show ?thesis using written by blast
  qed
  then show "\<exists>f. health_only f \<and> rows' = map f rows" "u' = upstream_applyProbe result u"
    using assms by (auto simp: persistCheckedProbe_def Let_def split: option.splits prod.splits)
qed

lemma check_ok:
  assumes ok: "registry_sound C s" and res: "registry_Check env result uid s = (x, s')"
  shows "registry_sound C s'"
proof (cases "s' = s")
  case False
  from False res obtain a u rows' where p: "persistCheckedProbe env result (ht_heap (rt_objects (fst s)) a) (snd s) = (None, u, rows')"
    and s': "s' = (set_object a u (fst s), rows')"
    by (auto simp: registry_Check_def Let_def split: sum.splits option.splits prod.splits if_splits)
  from persist_health_only [OF p] obtain f where f: "health_only f" "rows' = map f (snd s)"
    and u: "u = on_health (health_applyProbe result) (ht_heap (rt_objects (fst s)) a)" by (auto simp: upstream_applyProbe_def)
  have "registry_sound C (fst s, rows')" unfolding f(2) by (rule health_rows_ok [OF _ f(1)]) (use ok in simp)
  then show ?thesis unfolding s' by (rule set_object_ok) (simp_all add: u, simp add: on_health_def)
qed (use ok in simp)

section \<open>Every history\<close>

text \<open>
  The operations in any order, with any failure of any statement, while the exchanges with the
  upstreams change what they observe of them. A new row has an unused identifier.
\<close>

inductive mutation :: "pool_calls \<Rightarrow> Registry \<times> rows \<Rightarrow> Registry \<times> rows \<Rightarrow> bool" for C where
  created: "(\<And>i. te_newID (envs i) \<notin> ur_ID ` set (snd s)) \<Longrightarrow> registry_Create C envs pub input s = (res, s') \<Longrightarrow> mutation C s s'"
| updated: "registry_Update C found envs pub uid input s = (res, s') \<Longrightarrow> mutation C s s'"
| deleted: "registry_Delete C envs pub uid s = (res, s') \<Longrightarrow> mutation C s s'"

inductive registry_reach :: "pool_calls \<Rightarrow> Registry \<times> rows \<Rightarrow> bool" for C where
  opened: "NewRegistryWithOptions C failed rows h active = Inr r \<Longrightarrow> distinct (map ur_ID rows) \<Longrightarrow> registry_reach C (r, rows)"
| mutated: "registry_reach C s \<Longrightarrow> mutation C s s' \<Longrightarrow> registry_reach C s'"
| started: "registry_reach C (r, rows) \<Longrightarrow> registry_reach C (registry_Start r, rows)"
| closed: "registry_reach C (r, rows) \<Longrightarrow> registry_reach C (registry_Close r, rows)"
| checked: "registry_reach C s \<Longrightarrow> registry_Check env result uid s = (x, s') \<Longrightarrow> registry_reach C s'"
| exchanged: "registry_reach C (r, rows) \<Longrightarrow>
    registry_reach C (set_object a ((ht_heap (rt_objects r) a)\<lparr>up_health := h, up_recovery := c\<rparr>) r, rows)"

lemma mutation_kept: "mutation C s s' \<Longrightarrow> registry_sound C s \<Longrightarrow> kept_by C s s'"
  by (induction rule: mutation.induct) (blast intro: create_kept update_kept delete_kept)+

lemma reach_ok: "registry_reach C s \<Longrightarrow> registry_sound C s"
proof (induction rule: registry_reach.induct)
  case (mutated s s')
  then show ?case using mutation_kept by (simp add: kept_by_def)
next
  case (exchanged r rows a h c)
  then show ?case by (intro set_object_ok) simp_all
qed (simp_all add: opened_ok start_ok close_ok check_ok)

text \<open>
  C19: After any history of openings, mutations, checks, starts and closes, whatever failed in them,
  the code's own verification accepts the pool of every active ecosystem against the committed
  rows, so none is without an upstream, and exactly the upstreams with active probes have a
  worker, which probes the object of the pool, when the registry runs.
\<close>

theorem registry_agrees_with_rows:
  assumes "registry_reach C (r, rows)"
  shows "(\<forall>e \<in> set (rt_active r). registry_verify C None rows e r = None) \<and>
    (\<forall>uid a. rt_workers r uid = Some a \<longleftrightarrow> rt_started r \<and> uid \<noteq> 0 \<and> up_ProbeMode (ht_heap (rt_objects r) a) = ''active'' \<and>
       (\<exists>e \<in> set (rt_active r). \<exists>p. rt_pools r e = Some p \<and> ps_byID p uid = Some a))"
proof -
  have ok: "registry_sound C (r, rows)" by (rule reach_ok [OF assms])
  have "registry_verify C None rows e r = None" if e: "e \<in> set (rt_active r)" for e
  proof -
    from ok e obtain p where "rt_pools r e = Some p" "pool_ok C rows (rt_objects r) e p" by (auto simp: registry_sound_def pools_ok_def)
    then show ?thesis by (simp add: registry_verify_def snapshotMatches_def pool_ok_def snapshot_matches)
  qed
  then show ?thesis using ok by (simp add: registry_sound_def supervised_def)
qed

text \<open>
  A mutation leaves every other upstream alone: the objects keep their health and latches, and
  an upstream whose row is the same before and after keeps its object, and with it the verdicts
  about it.
\<close>

theorem mutation_keeps_other_upstreams:
  assumes "registry_reach C (r, rows)" and "mutation C (r, rows) (r', rows')"
    and "e \<in> set (rt_active r)" and "x \<in> set rows" and "x \<in> set rows'" and "ur_AdapterType x = e"
  shows "\<exists>p p' a. rt_pools r e = Some p \<and> rt_pools r' e = Some p' \<and> ps_byID p (ur_ID x) = Some a \<and> ps_byID p' (ur_ID x) = Some a \<and>
    ht_heap (rt_objects r') a = ht_heap (rt_objects r) a"
proof -
  have ok: "registry_sound C (r, rows)" by (rule reach_ok [OF assms(1)])
  then have k: "keeps C rows' r r'" using mutation_kept [OF assms(2)] by (simp add: kept_by_def)
  have d: "distinct (map ur_ID rows)" using ok by (simp add: registry_sound_def)
  from ok assms(3) obtain p where p: "rt_pools r e = Some p" "pool_ok C rows (rt_objects r) e p" by (auto simp: registry_sound_def pools_ok_def)
  obtain a where a: "ps_byID p (ur_ID x) = Some a" "sameConfig C (ht_heap (rt_objects r) a) x"
    by (rule pool_lookup [OF p(2) d assms(4,6)])
  from k p(1) assms(3,5,6) a obtain p' where "rt_pools r' e = Some p'" "ps_byID p' (ur_ID x) = Some a"
    unfolding keeps_def by blast
  moreover have "ht_heap (rt_objects r') a = ht_heap (rt_objects r) a"
    using k pool_low [OF ok assms(3) p(1) a(1)] by (simp add: keeps_def)
  ultimately show ?thesis using p a by blast
qed

definition sample_pool_calls :: pool_calls where
  "sample_pool_calls = \<lparr>pc_urls = plain_calls, pc_float = (\<lambda>_ _. 0), pc_Peers = None\<rparr>"

definition sample_upstream_row :: "uint \<Rightarrow> string \<Rightarrow> UpstreamRecord" where
  "sample_upstream_row uid name = \<lparr>ur_ID = uid, ur_AdapterType = ''npm'', ur_Name = name, ur_URL = ''https://o/a'', ur_Proxy = [], ur_Priority = 1,
     ur_ProbeMode = ''active'', ur_ProbeInterval = ''30m'', ur_Via = [], ur_Healthy = True, ur_AvgLatencyMs = 0, ur_SuccessRate = 1,
     ur_LastCheckedAt = zero_time\<rparr>"

definition sample_rows :: rows where
  "sample_rows = [sample_upstream_row 1 ''a'', sample_upstream_row 2 ''b'']"

definition sample_opened :: "gerror + Registry" where
  "sample_opened = NewRegistryWithOptions sample_pool_calls (\<lambda>_. None) sample_rows
     \<lparr>ht_heap = (\<lambda>_. sample_up 0 ''passive''), ht_next = 0\<rparr> [''npm'']"


lemma sample_opened_npm: "case sample_opened of Inr r \<Rightarrow> rt_active r = [''npm''] | Inl _ \<Rightarrow> False"
  by code_simp

lemma sample_reach: "sample_opened = Inr r \<Longrightarrow> registry_reach sample_pool_calls (r, sample_rows)"
  unfolding sample_opened_def by (rule registry_reach.opened) (simp_all add: sample_rows_def sample_upstream_row_def)

theorem registry_agrees_with_rows_witness:
  "case sample_opened of Inr r \<Rightarrow> registry_verify sample_pool_calls None sample_rows ''npm'' r = None | Inl _ \<Rightarrow> False"
proof -
  obtain r where r: "sample_opened = Inr r" and a: "rt_active r = [''npm'']" using sample_opened_npm by (auto split: sum.splits)
  have "registry_verify sample_pool_calls None sample_rows ''npm'' r = None"
    using registry_agrees_with_rows [OF sample_reach [OF r]] a by simp
  then show ?thesis unfolding r by (simp only: sum.case)
qed

definition sample_delete :: "Registry \<Rightarrow> (gerror + RuntimeUpstream) \<times> Registry \<times> rows" where
  "sample_delete r = registry_Delete sample_pool_calls
     (\<lambda>_. \<lparr>te_begin = None, te_read = None, te_count = None, te_write = None, te_find = None, te_commit = None, te_cancelled = None, te_newID = 7\<rparr>)
     \<lparr>pv_verify = None, pv_load = None, pv_again = None\<rparr> 2 (r, sample_rows)"

lemma sample_deleted: "case sample_opened of Inr r \<Rightarrow> snd (snd (sample_delete r)) = [sample_upstream_row 1 ''a''] | Inl _ \<Rightarrow> False"
  by code_simp

theorem mutation_keeps_other_upstreams_witness:
  "case sample_opened of Inl _ \<Rightarrow> False | Inr r \<Rightarrow>
     (case sample_delete r of (res, r', rows') \<Rightarrow>
        rows' = [sample_upstream_row 1 ''a''] \<and>
        (\<exists>p p' a. rt_pools r ''npm'' = Some p \<and> rt_pools r' ''npm'' = Some p' \<and> ps_byID p 1 = Some a \<and> ps_byID p' 1 = Some a \<and>
           ht_heap (rt_objects r') a = ht_heap (rt_objects r) a))"
proof -
  obtain r where r: "sample_opened = Inr r" and act: "rt_active r = [''npm'']" using sample_opened_npm by (auto split: sum.splits)
  obtain res r' rows' where d: "sample_delete r = (res, r', rows')" by (metis surj_pair)
  have rows': "rows' = [sample_upstream_row 1 ''a'']" using sample_deleted unfolding r by (simp only: sum.case d snd_conv)
  have m: "mutation sample_pool_calls (r, sample_rows) (r', rows')"
    using d unfolding sample_delete_def by (rule mutation.deleted)
  have x: "sample_upstream_row 1 ''a'' \<in> set sample_rows" "sample_upstream_row 1 ''a'' \<in> set rows'" "ur_AdapterType (sample_upstream_row 1 ''a'') = ''npm''" "ur_ID (sample_upstream_row 1 ''a'') = 1"
    by (simp_all add: sample_rows_def rows' sample_upstream_row_def)
  have e: "''npm'' \<in> set (rt_active r)" using act by simp
  from mutation_keeps_other_upstreams [OF sample_reach [OF r] m e x(1,2,3)] show ?thesis
    unfolding r sum.case d prod.case x(4) using rows' by blast
qed

end
