(* ===== verification/Snapshot_Store.thy ===== *)
theory Snapshot_Store
  imports Quarantine_Checker Cache_Key Go_Encoding
begin

text \<open>
  Frozen snapshots (\<open>snapshot/store.go\<close>, \<open>bridge.go\<close>) and the baselines of the tamper detection
  (\<open>tamper/recorder.go\<close>) they are made of. The four tables are lists in one state; the statements
  of a call may fail as its environment says, and a failed transaction leaves them as they were.
  Manifests are modelled as the values that are encoded, without their JSON text.
\<close>

section \<open>Tables\<close>

record TamperRecord =
  tr_Key :: string
  tr_Ecosystem :: string
  tr_Package :: string
  tr_Version :: string
  tr_SHA256 :: string
  tr_Size :: int
  tr_FirstSeenAt :: time
  tr_LastVerifiedAt :: time
  tr_VerifyCount :: int

record Snapshot =
  sp_SnapshotID :: uint
  sp_Name :: string
  sp_Note :: string
  sp_CreatedBy :: string
  sp_ArtifactCount :: int
  sp_TotalBytes :: int
  sp_CreatedAt :: time

record SnapshotItem =
  si_SnapshotID :: uint
  si_Ecosystem :: string
  si_Package :: string
  si_Version :: string
  si_CacheKey :: string
  si_SHA256 :: string
  si_Size :: int

record snap_db =
  sd_snapshots :: "Snapshot list"
  sd_items :: "SnapshotItem list"
  sd_active :: "string option"        \<comment> \<open>the value of \<open>ActiveStateKey\<close>\<close>
  sd_tamper :: "TamperRecord list"
  sd_events :: "QuarantineEvent list"

text \<open>The pointer in memory.\<close>

record snap_store =
  ss_activeID :: uint
  ss_activeName :: string

text \<open>The errors of the statements of a call, in their order, and what the environment supplies.\<close>

record snap_env =
  se_first :: "gerror option"
  se_second :: "gerror option"
  se_third :: "gerror option"
  se_unique :: bool                   \<comment> \<open>the text of the error contains ``unique''\<close>
  se_newID :: uint
  se_now :: time

section \<open>The active snapshot\<close>

definition setActive :: "uint \<Rightarrow> string \<Rightarrow> snap_store \<Rightarrow> snap_store" where
  "setActive uid name s = s\<lparr>ss_activeID := uid, ss_activeName := name\<rparr>"

definition snapshot_Load :: "snap_env \<Rightarrow> snap_db \<Rightarrow> snap_store \<Rightarrow> gerror option \<times> snap_store" where
  "snapshot_Load env db s =
     (case se_first env of
        Some e \<Rightarrow> (Some e, s)
      | None \<Rightarrow>
          (case sd_active db of
             None \<Rightarrow> (None, setActive 0 [] s)
           | Some value \<Rightarrow>
               (case ParseUint (TrimSpace value) 64 of
                  Inl e \<Rightarrow> (None, setActive 0 [] s)
                | Inr n \<Rightarrow>
                    if n = 0 then (None, setActive 0 [] s)
                    else case se_second env of
                        Some e \<Rightarrow> (Some e, s)
                      | None \<Rightarrow>
                          (case find (\<lambda>x. sp_SnapshotID x = of_nat n) (sd_snapshots db) of
                             None \<Rightarrow> (None, setActive 0 [] s)
                           | Some x \<Rightarrow> (None, setActive (sp_SnapshotID x) (sp_Name x) s)))))"

definition snapshot_pins :: "snap_db \<Rightarrow> uint \<Rightarrow> string \<Rightarrow> string \<Rightarrow> string \<Rightarrow> bool" where
  "snapshot_pins db uid ecosystem pkg version \<longleftrightarrow>
     list_ex (\<lambda>i. si_SnapshotID i = uid \<and> si_Ecosystem i = ecosystem \<and> si_Package i = pkg \<and> si_Version i = version) (sd_items db)"

text \<open>\<open>Check\<close> of the store, with the translation of \<open>snapshotGate\<close>.\<close>

definition snapshot_Check :: "snap_env \<Rightarrow> snap_db \<Rightarrow> snap_store \<Rightarrow> string \<Rightarrow> string \<Rightarrow> string \<Rightarrow> gerror + SnapshotMatch" where
  "snapshot_Check env db s ecosystem pkg version =
     (if ss_activeID s = 0 then Inr \<lparr>sm_Allowed = True, sm_SnapshotID = 0, sm_SnapshotName = []\<rparr>
      else case se_first env of
          Some e \<Rightarrow> Inl e
        | None \<Rightarrow> Inr \<lparr>sm_Allowed = snapshot_pins db (ss_activeID s) ecosystem pkg version,
                       sm_SnapshotID = ss_activeID s, sm_SnapshotName = ss_activeName s\<rparr>)"

definition snapshot_bridge :: "snap_env \<Rightarrow> snap_db \<Rightarrow> snap_store \<Rightarrow> snapshot_gate" where
  "snapshot_bridge env db s ecosystem pkg version = snapshot_Check env db s ecosystem pkg version"

section \<open>Creation\<close>

text \<open>\<open>ORDER BY\<close> on text columns.\<close>

fun text_le :: "string list \<Rightarrow> string list \<Rightarrow> bool" where
  "text_le [] ys = True"
| "text_le (x # xs) [] = False"
| "text_le (x # xs) (y # ys) =
     (if x = y then text_le xs ys
      else (case dropWhile (\<lambda>(c, d). c = d) (zip x y) of
              (c, d) # _ \<Rightarrow> (of_char c :: nat) < of_char d
            | [] \<Rightarrow> length x < length y))"

fun insert_by :: "('a \<Rightarrow> string list) \<Rightarrow> 'a \<Rightarrow> 'a list \<Rightarrow> 'a list" where
  "insert_by k x [] = [x]"
| "insert_by k x (y # ys) = (if text_le (k x) (k y) then x # y # ys else y # insert_by k x ys)"

definition order_by :: "('a \<Rightarrow> string list) \<Rightarrow> 'a list \<Rightarrow> 'a list" where
  "order_by k xs = foldr (insert_by k) xs []"

text \<open>\<open>insert\<close>: the statements are the search for the name, the insertion, and those of the items.\<close>

definition snapshot_insert :: "snap_env \<Rightarrow> string \<Rightarrow> string \<Rightarrow> string \<Rightarrow> SnapshotItem list \<Rightarrow> int \<Rightarrow> snap_db \<Rightarrow>
    (gerror + Snapshot) \<times> snap_db" where
  "snapshot_insert env name memo actor items bytes db =
     (let x = \<lparr>sp_SnapshotID = se_newID env, sp_Name = name, sp_Note = TrimSpace memo, sp_CreatedBy = actor,
               sp_ArtifactCount = int (length items), sp_TotalBytes = bytes, sp_CreatedAt = se_now env\<rparr>;
          failed = (\<lambda>e. (Inl (if se_unique env then [ErrMessage ''name taken''] else e), db)) in
      case se_first env of
        Some e \<Rightarrow> failed e
      | None \<Rightarrow>
          if list_ex (\<lambda>y. sp_Name y = name) (sd_snapshots db) then (Inl [ErrMessage ''name taken''], db)
          else case se_second env of
              Some e \<Rightarrow> failed e
            | None \<Rightarrow>
                (case se_third env of
                   Some e \<Rightarrow> failed e
                 | None \<Rightarrow> (Inr x, db\<lparr>sd_snapshots := sd_snapshots db @ [x],
                     sd_items := sd_items db @ map (\<lambda>i. i\<lparr>si_SnapshotID := se_newID env\<rparr>) items\<rparr>)))"

definition item_of :: "externals \<Rightarrow> TamperRecord \<Rightarrow> SnapshotItem" where
  "item_of E r =
     \<lparr>si_SnapshotID = 0, si_Ecosystem = tr_Ecosystem r, si_Package = tr_Package r, si_Version = tr_Version r,
      si_CacheKey = tr_Key r, si_SHA256 = ToLower E (tr_SHA256 r), si_Size = tr_Size r\<rparr>"

definition CreateFromCache :: "externals \<Rightarrow> gerror option \<Rightarrow> snap_env \<Rightarrow> string \<Rightarrow> string \<Rightarrow> string \<Rightarrow> snap_db \<Rightarrow>
    (gerror + Snapshot) \<times> snap_db" where
  "CreateFromCache E failed env name0 memo actor db =
     (let name = TrimSpace name0 in
      if name = [] then (Inl [ErrMessage ''snapshot name is required''], db)
      else if 128 < length name then (Inl [ErrMessage ''snapshot name is too long''], db)
      else case failed of
          Some e \<Rightarrow> (Inl e, db)
        | None \<Rightarrow>
            let records = order_by (\<lambda>r. [tr_Ecosystem r, tr_Package r, tr_Version r, tr_Key r])
                  (filter (\<lambda>r. tr_SHA256 r \<noteq> []) (sd_tamper db)) in
            if records = [] then (Inl [ErrMessage ''empty snapshot''], db)
            else snapshot_insert env name memo actor (map (item_of E) records)
                   (foldl (\<lambda>bytes r. wrap64 (bytes + tr_Size r)) 0 records) db)"

section \<open>Reading and switching\<close>

definition snapshot_List :: "gerror option \<Rightarrow> snap_db \<Rightarrow> gerror + Snapshot list" where
  "snapshot_List failed db =
     (case failed of Some e \<Rightarrow> Inl e | None \<Rightarrow> Inr (rev (sort_key (\<lambda>x. unat (sp_SnapshotID x)) (sd_snapshots db))))"

definition snapshot_Get :: "gerror option \<Rightarrow> uint \<Rightarrow> snap_db \<Rightarrow> gerror + Snapshot" where
  "snapshot_Get failed uid db =
     (case failed of
        Some e \<Rightarrow> Inl e
      | None \<Rightarrow> (case find (\<lambda>x. sp_SnapshotID x = uid) (sd_snapshots db) of
                   None \<Rightarrow> Inl [ErrMessage ''snapshot not found''] | Some x \<Rightarrow> Inr x))"

definition item_order :: "SnapshotItem \<Rightarrow> string list" where
  "item_order i = [si_Ecosystem i, si_Package i, si_Version i, si_CacheKey i]"

definition items_of :: "uint \<Rightarrow> snap_db \<Rightarrow> SnapshotItem list" where
  "items_of uid db = order_by item_order (filter (\<lambda>i. si_SnapshotID i = uid) (sd_items db))"

text \<open>\<open>Items\<close> for a limit and an offset that are not negative.\<close>

definition snapshot_Items :: "snap_env \<Rightarrow> uint \<Rightarrow> nat \<Rightarrow> nat \<Rightarrow> snap_db \<Rightarrow> gerror + SnapshotItem list \<times> nat" where
  "snapshot_Items env uid limit offset db =
     (case snapshot_Get (se_first env) uid db of
        Inl e \<Rightarrow> Inl e
      | Inr _ \<Rightarrow>
          (case se_second env of
             Some e \<Rightarrow> Inl e
           | None \<Rightarrow> (case se_third env of
                        Some e \<Rightarrow> Inl e
                      | None \<Rightarrow> Inr (take limit (drop offset (items_of uid db)), length (items_of uid db)))))"

text \<open>\<open>Delete\<close>: the look at the pointer and the transaction.\<close>

definition delete_guard :: "uint \<Rightarrow> snap_store \<Rightarrow> gerror option" where
  "delete_guard uid s = (if ss_activeID s = uid then Some [ErrMessage ''the active snapshot cannot be deleted''] else None)"

definition delete_transaction :: "snap_env \<Rightarrow> uint \<Rightarrow> snap_db \<Rightarrow> gerror option \<times> snap_db" where
  "delete_transaction env uid db =
     (case snapshot_Get (se_first env) uid db of
        Inl e \<Rightarrow> (Some e, db)
      | Inr _ \<Rightarrow>
          (case se_second env of
             Some e \<Rightarrow> (Some e, db)
           | None \<Rightarrow> (case se_third env of
                        Some e \<Rightarrow> (Some e, db)
                      | None \<Rightarrow> (None, db\<lparr>sd_items := filter (\<lambda>i. si_SnapshotID i \<noteq> uid) (sd_items db),
                                          sd_snapshots := filter (\<lambda>x. sp_SnapshotID x \<noteq> uid) (sd_snapshots db)\<rparr>))))"

definition snapshot_Delete :: "snap_env \<Rightarrow> uint \<Rightarrow> snap_store \<Rightarrow> snap_db \<Rightarrow> gerror option \<times> snap_db" where
  "snapshot_Delete env uid s db =
     (case delete_guard uid s of Some e \<Rightarrow> (Some e, db) | None \<Rightarrow> delete_transaction env uid db)"

text \<open>\<open>Activate\<close>: the reading of the snapshot, the write of the state, and the pointer.\<close>

definition activate_get :: "snap_env \<Rightarrow> uint \<Rightarrow> snap_db \<Rightarrow> gerror + Snapshot option" where
  "activate_get env uid db =
     (if uid = 0 then Inr None else case snapshot_Get (se_first env) uid db of Inl e \<Rightarrow> Inl e | Inr x \<Rightarrow> Inr (Some x))"

definition activate_set :: "snap_env \<Rightarrow> Snapshot option \<Rightarrow> snap_store \<Rightarrow> snap_db \<Rightarrow> gerror option \<times> snap_store \<times> snap_db" where
  "activate_set env x s db =
     (case se_second env of
        Some e \<Rightarrow> (Some e, s, db)
      | None \<Rightarrow>
          let value = (case x of None \<Rightarrow> [] | Some y \<Rightarrow> FormatUint (unat (sp_SnapshotID y))) in
          (None, (case x of None \<Rightarrow> setActive 0 [] s | Some y \<Rightarrow> setActive (sp_SnapshotID y) (sp_Name y) s), db\<lparr>sd_active := Some value\<rparr>))"

definition snapshot_Activate :: "snap_env \<Rightarrow> uint \<Rightarrow> snap_store \<Rightarrow> snap_db \<Rightarrow> gerror option \<times> snap_store \<times> snap_db" where
  "snapshot_Activate env uid s db =
     (case activate_get env uid db of Inl e \<Rightarrow> (Some e, s, db) | Inr x \<Rightarrow> activate_set env x s db)"

section \<open>Manifests\<close>

record manifestItem =
  mf_Ecosystem :: string
  mf_Package :: string
  mf_Version :: string
  mf_CacheKey :: string
  mf_SHA256 :: string
  mf_Size :: int

record manifest =
  mf_Format :: string
  mf_Name :: string
  mf_Note :: string
  mf_Items :: "manifestItem list"

definition snapshot_format :: string where
  "snapshot_format = ''depsilo/snapshot/v1''"

definition ImportItemLimit :: nat where
  "ImportItemLimit = 200000"

definition manifest_item :: "SnapshotItem \<Rightarrow> manifestItem" where
  "manifest_item i =
     \<lparr>mf_Ecosystem = si_Ecosystem i, mf_Package = si_Package i, mf_Version = si_Version i, mf_CacheKey = si_CacheKey i,
      mf_SHA256 = si_SHA256 i, mf_Size = si_Size i\<rparr>"

text \<open>\<open>Export\<close>, when the writer accepts everything.\<close>

definition snapshot_Export :: "snap_env \<Rightarrow> uint \<Rightarrow> snap_db \<Rightarrow> gerror + manifest" where
  "snapshot_Export env uid db =
     (case snapshot_Get (se_first env) uid db of
        Inl e \<Rightarrow> Inl e
      | Inr x \<Rightarrow> (case se_second env of
                    Some e \<Rightarrow> Inl e
                  | None \<Rightarrow> Inr \<lparr>mf_Format = snapshot_format, mf_Name = sp_Name x, mf_Note = sp_Note x,
                                 mf_Items = map manifest_item (items_of uid db)\<rparr>))"

definition import_item :: "externals \<Rightarrow> manifestItem \<Rightarrow> gerror + SnapshotItem" where
  "import_item E m =
     (let ecosystem = TrimSpace (mf_Ecosystem m); pkg = TrimSpace (mf_Package m); version = TrimSpace (mf_Version m);
          cacheKey = TrimSpace (mf_CacheKey m); hash = ToLower E (TrimSpace (mf_SHA256 m)) in
      if ecosystem = [] \<or> pkg = [] \<or> version = [] \<or> cacheKey = [] then Inl [ErrMessage ''snapshot item is missing an identity field'']
      else if length hash \<noteq> 64 \<or> \<not> list_all (\<lambda>c. isASCIIDigit c \<or> c \<in> set ''abcdefABCDEF'') hash
      then Inl [ErrMessage ''snapshot item has an invalid SHA-256'']
      else if mf_Size m < 0 then Inl [ErrMessage ''snapshot item has a negative size'']
      else Inr \<lparr>si_SnapshotID = 0, si_Ecosystem = ecosystem, si_Package = pkg, si_Version = version, si_CacheKey = cacheKey,
                si_SHA256 = hash, si_Size = mf_Size m\<rparr>)"

definition import_key :: "SnapshotItem \<Rightarrow> string" where
  "import_key i = si_Ecosystem i @ [CHR 0x00] @ si_Package i @ [CHR 0x00] @ si_Version i @ [CHR 0x00] @ si_CacheKey i"

fun import_loop :: "externals \<Rightarrow> string list \<Rightarrow> manifestItem list \<Rightarrow> gerror + SnapshotItem list" where
  "import_loop E seen [] = Inr []"
| "import_loop E seen (m # ms) =
     (case import_item E m of
        Inl e \<Rightarrow> Inl e
      | Inr i \<Rightarrow>
          if import_key i \<in> set seen then import_loop E seen ms
          else (case import_loop E (import_key i # seen) ms of Inl e \<Rightarrow> Inl e | Inr items \<Rightarrow> Inr (i # items)))"

text \<open>\<open>INSERT ... ON CONFLICT (key) DO NOTHING\<close>.\<close>

definition baseline_insert :: "TamperRecord \<Rightarrow> TamperRecord list \<Rightarrow> TamperRecord list" where
  "baseline_insert r rs = (if list_ex (\<lambda>x. tr_Key x = tr_Key r) rs then rs else rs @ [r])"

definition seedTamperBaselines :: "gerror option \<Rightarrow> time \<Rightarrow> SnapshotItem list \<Rightarrow> snap_db \<Rightarrow> gerror option \<times> snap_db" where
  "seedTamperBaselines failed now items db =
     (if items = [] then (None, db)
      else case failed of
          Some e \<Rightarrow> (Some e, db)
        | None \<Rightarrow> (None, db\<lparr>sd_tamper := fold (\<lambda>i. baseline_insert
            \<lparr>tr_Key = si_CacheKey i, tr_Ecosystem = si_Ecosystem i, tr_Package = si_Package i, tr_Version = si_Version i,
             tr_SHA256 = si_SHA256 i, tr_Size = si_Size i, tr_FirstSeenAt = now, tr_LastVerifiedAt = now, tr_VerifyCount = 0\<rparr>) items (sd_tamper db)\<rparr>))"

definition snapshot_Import :: "externals \<Rightarrow> snap_env \<Rightarrow> gerror option \<Rightarrow> gerror + manifest \<Rightarrow> string \<Rightarrow> string \<Rightarrow> snap_db \<Rightarrow>
    (gerror + Snapshot) \<times> snap_db" where
  "snapshot_Import E env seeding decoded nameOverride actor db =
     (case decoded of
        Inl e \<Rightarrow> (Inl e, db)
      | Inr m \<Rightarrow>
          let name = (if TrimSpace nameOverride = [] then TrimSpace (mf_Name m) else TrimSpace nameOverride) in
          if mf_Format m \<noteq> snapshot_format then (Inl [ErrMessage ''unsupported snapshot manifest format''], db)
          else if name = [] then (Inl [ErrMessage ''snapshot name is required''], db)
          else if mf_Items m = [] then (Inl [ErrMessage ''empty snapshot''], db)
          else if ImportItemLimit < length (mf_Items m) then (Inl [ErrMessage ''import limit''], db)
          else case import_loop E [] (mf_Items m) of
              Inl e \<Rightarrow> (Inl e, db)
            | Inr items \<Rightarrow>
                (case snapshot_insert env name (mf_Note m) actor items (foldl (\<lambda>bytes i. wrap64 (bytes + si_Size i)) 0 items) db of
                   (Inl e, db1) \<Rightarrow> (Inl e, db1)
                 | (Inr x, db1) \<Rightarrow>
                     (case seedTamperBaselines seeding (se_now env) items db1 of
                        (Some e, db2) \<Rightarrow> (Inl e, db2)
                      | (None, db2) \<Rightarrow> (Inr x, db2))))"

section \<open>The recorder\<close>

record artifact_seen =
  as_key :: string
  as_ecosystem :: string
  as_pkg :: string
  as_version :: string
  as_sha256 :: string
  as_size :: int

text \<open>
  \<open>Record\<close>: between the lookup and the insertion another record may appear, which makes the insertion
  fail on the primary key.
\<close>

definition record_create :: "snap_env \<Rightarrow> artifact_seen \<Rightarrow> snap_db \<Rightarrow> snap_db" where
  "record_create env a db =
     (if se_second env \<noteq> None \<or> list_ex (\<lambda>x. tr_Key x = as_key a) (sd_tamper db) then db
      else db\<lparr>sd_tamper := sd_tamper db @ [\<lparr>tr_Key = as_key a, tr_Ecosystem = as_ecosystem a, tr_Package = as_pkg a, tr_Version = as_version a,
        tr_SHA256 = as_sha256 a, tr_Size = as_size a, tr_FirstSeenAt = se_now env, tr_LastVerifiedAt = se_now env, tr_VerifyCount = 0\<rparr>]\<rparr>)"

definition tamper_Record :: "snap_env \<Rightarrow> artifact_seen \<Rightarrow> snap_db \<Rightarrow> snap_db" where
  "tamper_Record env a db =
     (if se_first env \<noteq> None \<or> list_ex (\<lambda>x. tr_Key x = as_key a) (sd_tamper db) then db else record_create env a db)"

text \<open>\<open>Verify\<close> with the environment of \<open>Record\<close>: whether the hash differs from the baseline, the state and the calls of the hook.\<close>

definition tamper_Verify :: "snap_env \<Rightarrow> snap_env \<Rightarrow> bool \<Rightarrow> (string \<Rightarrow> QuarantineEvent) \<Rightarrow> artifact_seen \<Rightarrow> snap_db \<Rightarrow>
    bool \<times> snap_db \<times> QuarantineEvent list" where
  "tamper_Verify env renv hook event a db =
     (if se_first env \<noteq> None then (False, db, [])
      else case find (\<lambda>x. tr_Key x = as_key a) (sd_tamper db) of
          None \<Rightarrow> (False, tamper_Record renv a db, [])
        | Some r \<Rightarrow>
            if tr_SHA256 r = as_sha256 a
            then (False, if se_second env \<noteq> None then db
                         else db\<lparr>sd_tamper := map (\<lambda>x. if tr_Key x = as_key a
                           then x\<lparr>tr_LastVerifiedAt := se_now env, tr_VerifyCount := wrap64 (tr_VerifyCount r + 1)\<rparr> else x) (sd_tamper db)\<rparr>, [])
            else (True, if se_second env \<noteq> None then db else db\<lparr>sd_events := sd_events db @ [event (tr_SHA256 r)]\<rparr>,
                  if hook then [event (tr_SHA256 r)] else []))"

section \<open>Histories\<close>

text \<open>
  The statements of the operations in any order and with any failure: a transaction that deletes
  and the two halves of an activation may come from calls that overlap others, and an insertion
  by the recorder may follow a lookup that is out of date. A new snapshot has an unused identifier.
  The first argument names a snapshot that is not deleted.
\<close>

inductive snap_reach :: "externals \<Rightarrow> uint option \<Rightarrow> snap_store \<times> snap_db \<Rightarrow> snap_store \<times> snap_db \<Rightarrow> bool" for E kept z where
  start: "snap_reach E kept z z"
| created: "snap_reach E kept z (s, db) \<Longrightarrow> se_newID env \<notin> sp_SnapshotID ` set (sd_snapshots db) \<Longrightarrow>
    CreateFromCache E failed env name memo actor db = (res, db') \<Longrightarrow> snap_reach E kept z (s, db')"
| imported: "snap_reach E kept z (s, db) \<Longrightarrow> se_newID env \<notin> sp_SnapshotID ` set (sd_snapshots db) \<Longrightarrow>
    snapshot_Import E env seeding decoded override actor db = (res, db') \<Longrightarrow> snap_reach E kept z (s, db')"
| deleted: "snap_reach E kept z (s, db) \<Longrightarrow> kept \<noteq> Some uid \<Longrightarrow> delete_transaction env uid db = (err, db') \<Longrightarrow> snap_reach E kept z (s, db')"
| activated: "snap_reach E kept z (s, db) \<Longrightarrow> activate_set env x s db = (err, s', db') \<Longrightarrow> snap_reach E kept z (s', db')"
| loaded: "snap_reach E kept z (s, db) \<Longrightarrow> snapshot_Load env db s = (err, s') \<Longrightarrow> snap_reach E kept z (s', db)"
| recorded: "snap_reach E kept z (s, db) \<Longrightarrow> snap_reach E kept z (s, record_create env a db)"
| verified: "snap_reach E kept z (s, db) \<Longrightarrow> tamper_Verify env renv hook event a db = (mismatch, db', hooks) \<Longrightarrow> snap_reach E kept z (s, db')"

subsection \<open>Baselines\<close>

definition first_hash :: "TamperRecord list \<Rightarrow> string \<Rightarrow> string option" where
  "first_hash rs key = map_option tr_SHA256 (find (\<lambda>x. tr_Key x = key) rs)"

definition hashes_kept :: "TamperRecord list \<Rightarrow> TamperRecord list \<Rightarrow> bool" where
  "hashes_kept rs rs' \<longleftrightarrow> (\<forall>key h. first_hash rs key = Some h \<longrightarrow> first_hash rs' key = Some h)"

lemma hashes_kept_refl [simp]: "hashes_kept rs rs"
  by (simp add: hashes_kept_def)

lemma hashes_kept_trans: "hashes_kept a b \<Longrightarrow> hashes_kept b c \<Longrightarrow> hashes_kept a c"
  by (simp add: hashes_kept_def)

lemma find_append: "find P (xs @ ys) = (case find P xs of Some x \<Rightarrow> Some x | None \<Rightarrow> find P ys)"
  by (induction xs) auto

lemma hashes_kept_append [simp]: "hashes_kept rs (rs @ ys)"
  by (auto simp: hashes_kept_def first_hash_def find_append split: option.splits)

lemma hashes_kept_map:
  assumes "\<And>x. tr_Key (f x) = tr_Key x" and "\<And>x. tr_SHA256 (f x) = tr_SHA256 x"
  shows "hashes_kept rs (map f rs)"
proof -
  have "find (\<lambda>x. tr_Key x = key) (map f rs) = map_option f (find (\<lambda>x. tr_Key x = key) rs)" for key
    by (induction rs) (auto simp: assms)
  then show ?thesis by (simp add: hashes_kept_def first_hash_def option.map_comp o_def assms)
qed

lemma hashes_kept_seed: "hashes_kept rs (fold (\<lambda>i. baseline_insert (g i)) items rs)"
proof (induction items arbitrary: rs)
  case (Cons i items)
  have "hashes_kept rs (baseline_insert (g i) rs)" by (simp add: baseline_insert_def)
  then show ?case using Cons hashes_kept_trans by fastforce
qed simp

lemma insert_tamper: "snapshot_insert env name memo actor items bytes db = (res, db') \<Longrightarrow> sd_tamper db' = sd_tamper db"
  by (auto simp: snapshot_insert_def Let_def split: option.splits if_splits)

lemma create_tamper: "CreateFromCache E failed env name memo actor db = (res, db') \<Longrightarrow> sd_tamper db' = sd_tamper db"
  by (auto simp: CreateFromCache_def Let_def dest!: insert_tamper split: option.splits if_splits)

lemma seed_tamper: "seedTamperBaselines failed now items db = (res, db') \<Longrightarrow> hashes_kept (sd_tamper db) (sd_tamper db')"
  by (auto simp: seedTamperBaselines_def hashes_kept_seed split: option.splits if_splits)

lemma import_tamper: "snapshot_Import E env seeding decoded override actor db = (res, db') \<Longrightarrow> hashes_kept (sd_tamper db) (sd_tamper db')"
  by (auto simp: snapshot_Import_def Let_def dest: insert_tamper seed_tamper split: sum.splits if_splits prod.splits option.splits)
    (metis insert_tamper seed_tamper)+

lemma record_tamper: "hashes_kept (sd_tamper db) (sd_tamper (record_create env a db))"
  by (simp add: record_create_def)

lemma verify_tamper: "tamper_Verify env renv hook event a db = (mismatch, db', hooks) \<Longrightarrow> hashes_kept (sd_tamper db) (sd_tamper db')"
  by (auto simp: tamper_Verify_def tamper_Record_def record_tamper intro!: hashes_kept_map split: if_splits option.splits)

lemma delete_tamper: "delete_transaction env uid db = (err, db') \<Longrightarrow> sd_tamper db' = sd_tamper db"
  by (auto simp: delete_transaction_def split: sum.splits option.splits)

lemma activate_tamper: "activate_set env x s db = (err, s', db') \<Longrightarrow> sd_tamper db' = sd_tamper db"
  by (auto simp: activate_set_def Let_def split: option.splits)

lemma reach_tamper: "snap_reach E kept z z' \<Longrightarrow> hashes_kept (sd_tamper (snd z)) (sd_tamper (snd z'))"
proof (induction rule: snap_reach.induct)
  case (imported s db env seeding decoded override actor res db')
  then show ?case using hashes_kept_trans import_tamper by fastforce
next
  case (recorded s db env a)
  then show ?case using hashes_kept_trans record_tamper by fastforce
next
  case (verified s db env renv hook event a mismatch db' hooks)
  then show ?case using hashes_kept_trans verify_tamper by fastforce
qed (simp_all add: create_tamper delete_tamper activate_tamper)

text \<open>
  C24: The first hash is the truth for ever. Whatever is fetched, recorded, imported, frozen or
  deleted in between, in any interleaving and with any failure, a later fetch of an artifact is
  reported as tampered exactly when its hash differs from the first one that was recorded.
\<close>

theorem first_hash_is_kept:
  assumes "snap_reach E kept (s0, db0) (s, db)" and "first_hash (sd_tamper db0) (as_key a) = Some h" and "se_first env = None"
  shows "fst (tamper_Verify env renv hook event a db) \<longleftrightarrow> as_sha256 a \<noteq> h"
proof -
  have "first_hash (sd_tamper db) (as_key a) = Some h"
    using reach_tamper [OF assms(1)] assms(2) by (simp add: hashes_kept_def)
  then obtain r where "find (\<lambda>x. tr_Key x = as_key a) (sd_tamper db) = Some r" "tr_SHA256 r = h" by (auto simp: first_hash_def)
  then show ?thesis using assms(3) by (auto simp: tamper_Verify_def)
qed

definition calm :: snap_env where
  "calm = \<lparr>se_first = None, se_second = None, se_third = None, se_unique = False, se_newID = 1, se_now = 0\<rparr>"

definition sample_artifact :: "string \<Rightarrow> string \<Rightarrow> string \<Rightarrow> string \<Rightarrow> string \<Rightarrow> artifact_seen" where
  "sample_artifact key ecosystem pkg version hash =
     \<lparr>as_key = key, as_ecosystem = ecosystem, as_pkg = pkg, as_version = version, as_sha256 = hash, as_size = 1\<rparr>"

definition empty_db :: snap_db where
  "empty_db = \<lparr>sd_snapshots = [], sd_items = [], sd_active = None, sd_tamper = [], sd_events = []\<rparr>"

definition fetched :: "artifact_seen list \<Rightarrow> snap_db" where
  "fetched as = fold (tamper_Record calm) as empty_db"

definition unpinned :: snap_store where
  "unpinned = \<lparr>ss_activeID = 0, ss_activeName = []\<rparr>"

definition no_event :: "string \<Rightarrow> QuarantineEvent" where
  "no_event h = \<lparr>ev_Ecosystem = [], ev_Package = [], ev_Version = [], ev_Action = ''tamper_detected'', ev_Reason = [], ev_Threshold = 0,
     ev_AgeAtCall = 0, ev_ActorID = 0, ev_ClientIP = [], ev_CreatedAt = None\<rparr>"

theorem first_hash_is_kept_witness:
  "let db0 = fetched [sample_artifact ''k'' ''npm'' ''p'' ''1'' ''aa'']; a = sample_artifact ''k'' ''npm'' ''p'' ''1'' ''bb'' in
   fst (tamper_Verify calm calm True no_event a (record_create calm a db0))"
proof -
  define db0 where "db0 = fetched [sample_artifact ''k'' ''npm'' ''p'' ''1'' ''aa'']"
  define a where "a = sample_artifact ''k'' ''npm'' ''p'' ''1'' ''bb''"
  have r: "snap_reach ascii_externals None (unpinned, db0) (unpinned, record_create calm a db0)" by (rule snap_reach.recorded [OF snap_reach.start])
  have "first_hash (sd_tamper db0) (as_key a) = Some ''aa''" by (simp add: db0_def a_def first_hash_def fetched_def empty_db_def calm_def tamper_Record_def record_create_def sample_artifact_def)
  from first_hash_is_kept [OF r this, of calm calm True no_event]
  have "fst (tamper_Verify calm calm True no_event a (record_create calm a db0))" by (simp add: calm_def a_def sample_artifact_def)
  then show ?thesis unfolding Let_def db0_def a_def .
qed

subsection \<open>A frozen set\<close>

lemma set_insert_by [simp]: "set (insert_by k x ys) = insert x (set ys)"
  by (induction ys) auto

lemma set_order_by [simp]: "set (order_by k xs) = set xs"
  by (induction xs) (simp_all add: order_by_def)

definition items_kept :: "uint \<Rightarrow> snap_db \<Rightarrow> snap_db \<Rightarrow> bool" where
  "items_kept uid db db' \<longleftrightarrow>
     (\<exists>x \<in> set (sd_snapshots db'). sp_SnapshotID x = uid) \<and>
     filter (\<lambda>i. si_SnapshotID i = uid) (sd_items db') = filter (\<lambda>i. si_SnapshotID i = uid) (sd_items db)"

lemma insert_result:
  assumes "snapshot_insert env name memo actor items bytes db = (res, db')"
  shows "(case res of
      Inl e \<Rightarrow> db' = db
    | Inr x \<Rightarrow> sp_SnapshotID x = se_newID env \<and> sd_snapshots db' = sd_snapshots db @ [x] \<and>
        sd_items db' = sd_items db @ map (\<lambda>i. i\<lparr>si_SnapshotID := se_newID env\<rparr>) items \<and> sd_active db' = sd_active db)"
  using assms by (auto simp: snapshot_insert_def Let_def split: option.splits if_splits)

lemma create_result:
  assumes "CreateFromCache E failed env name memo actor db = (res, db')"
  shows "(case res of
      Inl e \<Rightarrow> db' = db
    | Inr x \<Rightarrow> sp_SnapshotID x = se_newID env \<and> sd_snapshots db' = sd_snapshots db @ [x] \<and> sd_active db' = sd_active db \<and>
        (\<exists>rs. set rs = {r \<in> set (sd_tamper db). tr_SHA256 r \<noteq> []} \<and>
           sd_items db' = sd_items db @ map (\<lambda>r. (item_of E r)\<lparr>si_SnapshotID := se_newID env\<rparr>) rs))"
proof (cases "\<exists>e. res = Inl e \<and> db' = db")
  case False
  define rs where "rs = order_by (\<lambda>r. [tr_Ecosystem r, tr_Package r, tr_Version r, tr_Key r]) (filter (\<lambda>r. tr_SHA256 r \<noteq> []) (sd_tamper db))"
  from False assms have i: "snapshot_insert env (TrimSpace name) memo actor (map (item_of E) rs) (foldl (\<lambda>bytes r. wrap64 (bytes + tr_Size r)) 0 rs) db = (res, db')"
    by (auto simp: CreateFromCache_def Let_def rs_def split: if_splits option.splits)
  have "set rs = {r \<in> set (sd_tamper db). tr_SHA256 r \<noteq> []}" by (auto simp: rs_def)
  then show ?thesis using insert_result [OF i] by (auto simp: o_def split: sum.splits)
qed auto

lemma import_result:
  assumes "snapshot_Import E env seeding decoded override actor db = (res, db')"
  shows "db' = db \<or> (\<exists>x items. sp_SnapshotID x = se_newID env \<and> sd_snapshots db' = sd_snapshots db @ [x] \<and> sd_active db' = sd_active db \<and>
      sd_items db' = sd_items db @ map (\<lambda>i. i\<lparr>si_SnapshotID := se_newID env\<rparr>) items)"
proof (cases "db' = db")
  case False
  then obtain name memo items bytes db1 x where i: "snapshot_insert env name memo actor items bytes db = (Inr x, db1)"
    and s: "\<exists>r. seedTamperBaselines seeding (se_now env) items db1 = (r, db')"
    using assms insert_result
    by (fastforce simp: snapshot_Import_def Let_def split: sum.splits if_splits prod.splits option.splits)
  from s have "sd_snapshots db' = sd_snapshots db1 \<and> sd_items db' = sd_items db1 \<and> sd_active db' = sd_active db1"
    by (auto simp: seedTamperBaselines_def split: if_splits option.splits)
  then show ?thesis using insert_result [OF i] by auto
qed simp

lemma delete_result:
  "delete_transaction env uid db = (err, db') \<Longrightarrow> db' = db \<or>
     db' = db\<lparr>sd_items := filter (\<lambda>i. si_SnapshotID i \<noteq> uid) (sd_items db), sd_snapshots := filter (\<lambda>x. sp_SnapshotID x \<noteq> uid) (sd_snapshots db)\<rparr>"
  by (auto simp: delete_transaction_def split: sum.splits option.splits)

lemma record_result [simp]:
  "sd_snapshots (record_create env a db) = sd_snapshots db" "sd_items (record_create env a db) = sd_items db"
  "sd_active (record_create env a db) = sd_active db"
  by (simp_all add: record_create_def)

lemma verify_result:
  "tamper_Verify env renv hook event a db = (mismatch, db', hooks) \<Longrightarrow>
     sd_snapshots db' = sd_snapshots db \<and> sd_items db' = sd_items db \<and> sd_active db' = sd_active db"
  by (auto simp: tamper_Verify_def tamper_Record_def split: if_splits option.splits)

lemma activate_result:
  "activate_set env x s db = (err, s', db') \<Longrightarrow> sd_snapshots db' = sd_snapshots db \<and> sd_items db' = sd_items db"
  by (auto simp: activate_set_def Let_def split: option.splits)

lemma items_kept_add:
  assumes "items_kept uid db db1" and "new \<notin> sp_SnapshotID ` set (sd_snapshots db1)" and "sd_snapshots db' = sd_snapshots db1 @ [x]"
    and "sd_items db' = sd_items db1 @ map g ys" and "\<And>y. si_SnapshotID (g y) = new"
  shows "items_kept uid db db'"
proof -
  have "new \<noteq> uid" using assms(1,2) by (auto simp: items_kept_def image_iff)
  then have "filter (\<lambda>i. si_SnapshotID i = uid) (map g ys) = []" using assms(5) by (simp add: filter_empty_conv)
  then show ?thesis using assms(1,3,4) by (auto simp: items_kept_def)
qed

lemma reach_items:
  assumes "snap_reach E (Some uid) z z'" and "items_kept uid (snd z) (snd z)"
  shows "items_kept uid (snd z) (snd z')"
  using assms
proof (induction rule: snap_reach.induct)
  case (created s db env failed name memo actor res db')
  show ?case
  proof (cases res)
    case (Inr x)
    then obtain rs where "sd_snapshots db' = sd_snapshots db @ [x]"
      "sd_items db' = sd_items db @ map (\<lambda>r. (item_of E r)\<lparr>si_SnapshotID := se_newID env\<rparr>) rs"
      using create_result [OF created.hyps(3)] by auto
    with created show ?thesis by (auto intro: items_kept_add)
  qed (use create_result [OF created.hyps(3)] created in auto)
next
  case (imported s db env seeding decoded override actor res db')
  from import_result [OF imported.hyps(3)] show ?case
  proof
    assume "db' = db"
    then show ?thesis using imported by simp
  next
    assume "\<exists>x items. sp_SnapshotID x = se_newID env \<and> sd_snapshots db' = sd_snapshots db @ [x] \<and> sd_active db' = sd_active db \<and>
      sd_items db' = sd_items db @ map (\<lambda>i. i\<lparr>si_SnapshotID := se_newID env\<rparr>) items"
    then show ?thesis using imported by (auto intro: items_kept_add)
  qed
next
  case (deleted s db uid' env err db')
  then have k: "items_kept uid (snd z) db" "uid' \<noteq> uid" by auto
  from delete_result [OF deleted.hyps(3)] show ?case
  proof
    assume d: "db' = db\<lparr>sd_items := filter (\<lambda>i. si_SnapshotID i \<noteq> uid') (sd_items db), sd_snapshots := filter (\<lambda>x. sp_SnapshotID x \<noteq> uid') (sd_snapshots db)\<rparr>"
    have "filter (\<lambda>i. si_SnapshotID i = uid) (filter (\<lambda>i. si_SnapshotID i \<noteq> uid') (sd_items db)) = filter (\<lambda>i. si_SnapshotID i = uid) (sd_items db)"
      unfolding filter_filter by (rule filter_cong) (use k in auto)
    then show ?thesis using k d by (auto simp: items_kept_def)
  qed (use k in simp)
next
  case (activated s db env x err s' db')
  then show ?case using activate_result by (fastforce simp: items_kept_def)
next
  case (verified s db env renv hook event a mismatch db' hooks)
  then show ?case using verify_result by (fastforce simp: items_kept_def)
qed (simp_all add: items_kept_def)

lemma pins_filter:
  "snapshot_pins db uid e p v \<longleftrightarrow> (\<exists>i \<in> set (filter (\<lambda>i. si_SnapshotID i = uid) (sd_items db)). si_Ecosystem i = e \<and> si_Package i = p \<and> si_Version i = v)"
  by (auto simp: snapshot_pins_def list_ex_iff)

lemma frozen_set_answer:
  assumes "CreateFromCache E failed env name memo actor db0 = (Inr x, db1)"
    and "se_newID env \<notin> sp_SnapshotID ` set (sd_snapshots db0)" and "se_newID env \<notin> si_SnapshotID ` set (sd_items db0)"
    and "snap_reach E (Some (sp_SnapshotID x)) (s1, db1) (s, db)" and "ss_activeID s = sp_SnapshotID x" and "sp_SnapshotID x \<noteq> 0"
    and "se_first cenv = None"
  shows "\<exists>m. snapshot_bridge cenv db s ecosystem pkg version = Inr m \<and>
    (sm_Allowed m \<longleftrightarrow> (\<exists>r \<in> set (sd_tamper db0). tr_SHA256 r \<noteq> [] \<and> tr_Ecosystem r = ecosystem \<and> tr_Package r = pkg \<and> tr_Version r = version))"
proof -
  from create_result [OF assms(1)] obtain rs where x: "sp_SnapshotID x = se_newID env" "sd_snapshots db1 = sd_snapshots db0 @ [x]"
    and rs: "set rs = {r \<in> set (sd_tamper db0). tr_SHA256 r \<noteq> []}"
    and items: "sd_items db1 = sd_items db0 @ map (\<lambda>r. (item_of E r)\<lparr>si_SnapshotID := se_newID env\<rparr>) rs" by auto
  have "items_kept (sp_SnapshotID x) db1 db1" using x by (simp add: items_kept_def)
  then have k: "items_kept (sp_SnapshotID x) db1 db" using reach_items [OF assms(4)] by simp
  have old: "filter (\<lambda>i. si_SnapshotID i = se_newID env) (sd_items db0) = []" using assms(3) by (auto simp: filter_empty_conv image_iff)
  have "snapshot_pins db (sp_SnapshotID x) ecosystem pkg version \<longleftrightarrow>
      (\<exists>i \<in> set (filter (\<lambda>i. si_SnapshotID i = sp_SnapshotID x) (sd_items db1)). si_Ecosystem i = ecosystem \<and> si_Package i = pkg \<and> si_Version i = version)"
    using k by (simp add: pins_filter items_kept_def)
  also have "\<dots> \<longleftrightarrow> (\<exists>r \<in> set rs. tr_Ecosystem r = ecosystem \<and> tr_Package r = pkg \<and> tr_Version r = version)"
    using old x(1) by (auto simp: items item_of_def)
  finally show ?thesis using assms(5-7) rs by (auto simp: snapshot_bridge_def snapshot_Check_def)
qed

text \<open>
  C23: A frozen set stays frozen. A snapshot made from the cache allows, from its activation on and
  whatever is fetched, recorded, imported, frozen, deleted or switched in between, exactly the
  versions whose first hash was recorded when it was made, for as long as it is not deleted itself.
\<close>

theorem frozen_set_is_stable:
  assumes "CreateFromCache E failed env name memo actor db0 = (Inr x, db1)"
    and "se_newID env \<notin> sp_SnapshotID ` set (sd_snapshots db0)" and "se_newID env \<notin> si_SnapshotID ` set (sd_items db0)"
    and "snap_reach E (Some (sp_SnapshotID x)) (s1, db1) (s, db)" and "ss_activeID s = sp_SnapshotID x" and "sp_SnapshotID x \<noteq> 0"
    and "se_first cenv = None"
  shows "\<exists>m. snapshot_bridge cenv db s ecosystem pkg version = Inr m \<and>
    (sm_Allowed m \<longleftrightarrow> (\<exists>r \<in> set (sd_tamper db0). tr_SHA256 r \<noteq> [] \<and> tr_Ecosystem r = ecosystem \<and> tr_Package r = pkg \<and> tr_Version r = version))"
  by (rule frozen_set_answer [OF assms])

theorem frozen_set_is_stable_witness:
  "\<exists>x db1 m m'. CreateFromCache ascii_externals None calm ''v1'' [] [] (fetched [sample_artifact ''k'' ''npm'' ''p'' ''1'' ''aa'']) = (Inr x, db1) \<and>
     snapshot_bridge calm db1 (setActive 1 ''v1'' unpinned) ''npm'' ''p'' ''1'' = Inr m \<and> sm_Allowed m \<and>
     snapshot_bridge calm db1 (setActive 1 ''v1'' unpinned) ''npm'' ''q'' ''1'' = Inr m' \<and> \<not> sm_Allowed m'"
proof -
  define db0 where "db0 = fetched [sample_artifact ''k'' ''npm'' ''p'' ''1'' ''aa'']"
  have db0: "sd_snapshots db0 = []" "sd_items db0 = []"
    "sd_tamper db0 = [\<lparr>tr_Key = ''k'', tr_Ecosystem = ''npm'', tr_Package = ''p'', tr_Version = ''1'', tr_SHA256 = ''aa'', tr_Size = 1,
       tr_FirstSeenAt = 0, tr_LastVerifiedAt = 0, tr_VerifyCount = 0\<rparr>]"
    by (simp_all add: db0_def fetched_def empty_db_def calm_def tamper_Record_def record_create_def sample_artifact_def)
  have name: "TrimSpace ''v1'' = ''v1''" by code_simp
  obtain x db1 where c: "CreateFromCache ascii_externals None calm ''v1'' [] [] db0 = (Inr x, db1)"
    and x: "sp_SnapshotID x = 1" "sp_Name x = ''v1''"
    using db0 by (simp add: CreateFromCache_def Let_def name order_by_def snapshot_insert_def calm_def)
  define s where "s = setActive 1 ''v1'' unpinned"
  obtain err db where a: "activate_set calm (Some x) unpinned db1 = (err, s, db)" and items: "sd_items db = sd_items db1"
    using x by (simp add: activate_set_def calm_def Let_def s_def)
  have r: "snap_reach ascii_externals (Some (sp_SnapshotID x)) (unpinned, db1) (s, db)" by (rule snap_reach.activated [OF snap_reach.start a])
  have pins: "snapshot_pins db1 = snapshot_pins db" by (intro ext) (simp add: snapshot_pins_def items)
  have b: "snapshot_bridge calm db1 s = snapshot_bridge calm db s" by (intro ext) (simp only: snapshot_bridge_def snapshot_Check_def pins)
  have fresh: "se_newID calm \<notin> sp_SnapshotID ` set (sd_snapshots db0)" "se_newID calm \<notin> si_SnapshotID ` set (sd_items db0)" by (simp_all add: db0)
  have act: "ss_activeID s = sp_SnapshotID x" "sp_SnapshotID x \<noteq> 0" "se_first calm = None" by (simp_all add: s_def setActive_def x calm_def)
  note f = frozen_set_is_stable [OF c fresh r act, folded b]
  obtain m where m: "snapshot_bridge calm db1 s ''npm'' ''p'' ''1'' = Inr m" "sm_Allowed m" using f [of "''npm''" "''p''" "''1''"] by (auto simp: db0)
  obtain m' where m': "snapshot_bridge calm db1 s ''npm'' ''q'' ''1'' = Inr m'" "\<not> sm_Allowed m'" using f [of "''npm''" "''q''" "''1''"] by (auto simp: db0)
  show ?thesis
    by (rule exI [of _ x], rule exI [of _ db1], rule exI [of _ m], rule exI [of _ m'])
      (use c m m' in \<open>simp only: db0_def s_def simp_thms\<close>)
qed

subsection \<open>Restarts\<close>

text \<open>The operations one after the other, with restarts that load the pointer.\<close>

inductive snap_history :: "externals \<Rightarrow> snap_store \<Rightarrow> snap_db \<Rightarrow> bool" for E where
  opened: "sd_active db = None \<Longrightarrow> distinct (map sp_SnapshotID (sd_snapshots db)) \<Longrightarrow> snap_history E \<lparr>ss_activeID = 0, ss_activeName = []\<rparr> db"
| created: "snap_history E s db \<Longrightarrow> se_newID env \<notin> sp_SnapshotID ` set (sd_snapshots db) \<Longrightarrow>
    CreateFromCache E failed env name memo actor db = (res, db') \<Longrightarrow> snap_history E s db'"
| imported: "snap_history E s db \<Longrightarrow> se_newID env \<notin> sp_SnapshotID ` set (sd_snapshots db) \<Longrightarrow>
    snapshot_Import E env seeding decoded override actor db = (res, db') \<Longrightarrow> snap_history E s db'"
| deleted: "snap_history E s db \<Longrightarrow> snapshot_Delete env uid s db = (err, db') \<Longrightarrow> snap_history E s db'"
| activated: "snap_history E s db \<Longrightarrow> snapshot_Activate env uid s db = (err, s', db') \<Longrightarrow> snap_history E s' db'"
| recorded: "snap_history E s db \<Longrightarrow> snap_history E s (tamper_Record env a db)"
| verified: "snap_history E s db \<Longrightarrow> tamper_Verify env renv hook event a db = (mismatch, db', hooks) \<Longrightarrow> snap_history E s db'"
| restarted: "snap_history E s db \<Longrightarrow> snapshot_Load env db \<lparr>ss_activeID = 0, ss_activeName = []\<rparr> = (None, s') \<Longrightarrow> snap_history E s' db"

definition durable :: "snap_store \<Rightarrow> snap_db \<Rightarrow> bool" where
  "durable s db \<longleftrightarrow> distinct (map sp_SnapshotID (sd_snapshots db)) \<and>
     ((ss_activeID s = 0 \<and> ss_activeName s = [] \<and> (sd_active db = None \<or> sd_active db = Some [])) \<or>
      (ss_activeID s \<noteq> 0 \<and> sd_active db = Some (FormatUint (unat (ss_activeID s))) \<and>
       (\<exists>x \<in> set (sd_snapshots db). sp_SnapshotID x = ss_activeID s \<and> sp_Name x = ss_activeName s)))"

lemma IsSpace_digit: "isASCIIDigit c \<Longrightarrow> \<not> IsSpace (byte c)"
  by (auto simp: isASCIIDigit_def IsSpace_def)

lemma TrimSpace_FormatUint: "TrimSpace (FormatUint n) = FormatUint n"
proof -
  have d: "list_all isASCIIDigit (FormatUint n)" by (rule FormatUint_digits)
  have "is_ascii (FormatUint n)" by (rule is_asciiI [OF d]) (simp add: isASCIIDigit_def)
  then have "\<not> ContainsFunc (FormatUint n) IsSpace"
    using d IsSpace_digit by (auto simp: ContainsFunc_def runes_ascii list_ex_iff list_all_iff)
  then show ?thesis by (rule TrimSpace_id)
qed

lemma find_distinct:
  "distinct (map f xs) \<Longrightarrow> x \<in> set xs \<Longrightarrow> find (\<lambda>y. f y = f x) xs = Some x"
  by (induction xs) (auto simp: image_iff)

lemma load_durable:
  assumes d: "durable s db"
  shows "snapshot_Load env db s0 = (None, s') \<Longrightarrow> s' = s"
    and "se_first env = None \<Longrightarrow> se_second env = None \<Longrightarrow> snapshot_Load env db s0 = (None, s)"
proof -
  have "(snapshot_Load env db s0 = (None, s') \<longrightarrow> s' = s) \<and>
    (se_first env = None \<longrightarrow> se_second env = None \<longrightarrow> snapshot_Load env db s0 = (None, s))"
  proof (cases "ss_activeID s = 0")
    case True
    then have "s = \<lparr>ss_activeID = 0, ss_activeName = []\<rparr>" "sd_active db = None \<or> sd_active db = Some []"
      using d by (auto simp: durable_def)
    then show ?thesis by (auto simp: snapshot_Load_def setActive_def ParseUint_def split: option.splits)
  next
    case False
    then obtain x where a: "sd_active db = Some (FormatUint (unat (ss_activeID s)))" and ids: "distinct (map sp_SnapshotID (sd_snapshots db))"
      and x: "x \<in> set (sd_snapshots db)" "sp_SnapshotID x = ss_activeID s" "sp_Name x = ss_activeName s"
      using d by (auto simp: durable_def)
    have "unat (ss_activeID s) < 2 ^ 64" using unsigned_less [of "ss_activeID s", where ?'a = nat] by simp
    note p = ParseUint_FormatUint [OF this]
    have "unat (ss_activeID s) \<noteq> 0" using False by (simp add: unat_eq_0)
    then show ?thesis using a x find_distinct [OF ids x(1)]
      by (auto simp: snapshot_Load_def TrimSpace_FormatUint p setActive_def split: option.splits)
  qed
  then show "snapshot_Load env db s0 = (None, s') \<Longrightarrow> s' = s"
    "se_first env = None \<Longrightarrow> se_second env = None \<Longrightarrow> snapshot_Load env db s0 = (None, s)" by blast+
qed

lemma durable_add:
  assumes "durable s db" and "new \<notin> sp_SnapshotID ` set (sd_snapshots db)" and "sp_SnapshotID x = new"
    and "sd_snapshots db' = sd_snapshots db @ [x]" and "sd_active db' = sd_active db"
  shows "durable s db'"
  using assms by (auto simp: durable_def image_iff)

lemma durable_same:
  "durable s db \<Longrightarrow> sd_snapshots db' = sd_snapshots db \<Longrightarrow> sd_active db' = sd_active db \<Longrightarrow> durable s db'"
  by (simp add: durable_def)

lemma get_member: "snapshot_Get failed uid db = Inr x \<Longrightarrow> x \<in> set (sd_snapshots db) \<and> sp_SnapshotID x = uid"
  by (auto simp: snapshot_Get_def find_Some_iff in_set_conv_nth split: option.splits)

lemma activate_durable:
  assumes d: "durable s db" and a: "snapshot_Activate env uid s db = (err, s', db')"
  shows "durable s' db'"
proof (cases "s' = s \<and> db' = db")
  case False
  then obtain x where x: "activate_get env uid db = Inr x" and e: "se_second env = None"
    and s': "s' = (case x of None \<Rightarrow> setActive 0 [] s | Some y \<Rightarrow> setActive (sp_SnapshotID y) (sp_Name y) s)"
    and db': "db' = db\<lparr>sd_active := Some (case x of None \<Rightarrow> [] | Some y \<Rightarrow> FormatUint (unat (sp_SnapshotID y)))\<rparr>"
    using a by (auto simp: snapshot_Activate_def activate_set_def Let_def split: sum.splits option.splits)
  show ?thesis
  proof (cases x)
    case None
    then show ?thesis using d s' db' by (simp add: durable_def setActive_def)
  next
    case (Some y)
    then have "uid \<noteq> 0" "snapshot_Get (se_first env) uid db = Inr y" using x by (auto simp: activate_get_def split: if_splits sum.splits)
    from this(1) get_member [OF this(2)] show ?thesis using d s' db' Some by (auto simp: durable_def setActive_def)
  qed
qed (use d in simp)

lemma delete_durable:
  assumes d: "durable s db" and a: "snapshot_Delete env uid s db = (err, db')"
  shows "durable s db'"
proof (cases "db' = db")
  case False
  then have g: "ss_activeID s \<noteq> uid" and t: "delete_transaction env uid db = (err, db')"
    using a by (auto simp: snapshot_Delete_def delete_guard_def split: if_splits)
  have "distinct (map sp_SnapshotID (filter (\<lambda>x. sp_SnapshotID x \<noteq> uid) (sd_snapshots db)))"
    using d by (simp add: durable_def distinct_map inj_on_def)
  then show ?thesis using delete_result [OF t] False d g by (auto simp: durable_def)
qed (use d in simp)

lemma record_same: "sd_snapshots (tamper_Record env a db) = sd_snapshots db" "sd_active (tamper_Record env a db) = sd_active db"
  by (simp_all add: tamper_Record_def)

lemma history_durable: "snap_history E s db \<Longrightarrow> durable s db"
proof (induction rule: snap_history.induct)
  case (opened db)
  then show ?case by (simp add: durable_def)
next
  case (created s db env failed name memo actor res db')
  show ?case
  proof (cases res)
    case (Inr x)
    then have "sp_SnapshotID x = se_newID env \<and> sd_snapshots db' = sd_snapshots db @ [x] \<and> sd_active db' = sd_active db"
      using create_result [OF created.hyps(3)] by simp
    then show ?thesis using durable_add [OF created.IH created.hyps(2)] by blast
  qed (use create_result [OF created.hyps(3)] created in simp)
next
  case (imported s db env seeding decoded override actor res db')
  from import_result [OF imported.hyps(3)] show ?case
    using imported.IH durable_add [OF imported.IH imported.hyps(2)] by blast
next
  case (verified s db env renv hook event a mismatch db' hooks)
  then show ?case using verify_result durable_same by blast
next
  case (restarted s db env s')
  then show ?case using load_durable(1) by blast
qed (auto intro: delete_durable activate_durable durable_same simp: record_same)

text \<open>
  A restart does not change the mode. After any history of operations with any failure, loading the
  pointer from the database gives the one that is in memory: the same active snapshot, or none.
\<close>

theorem restart_keeps_snapshot:
  assumes "snap_history E s db" and "se_first env = None" and "se_second env = None"
  shows "snapshot_Load env db s0 = (None, s)"
  by (rule load_durable(2) [OF history_durable [OF assms(1)] assms(2,3)])

theorem restart_keeps_snapshot_witness:
  "let db = empty_db\<lparr>sd_snapshots := [\<lparr>sp_SnapshotID = 7, sp_Name = ''v7'', sp_Note = [], sp_CreatedBy = [], sp_ArtifactCount = 0,
      sp_TotalBytes = 0, sp_CreatedAt = 0\<rparr>], sd_active := Some (FormatUint 7)\<rparr> in
   snapshot_Load calm db unpinned = (None, setActive 7 ''v7'' unpinned)"
proof -
  define db where "db = empty_db\<lparr>sd_snapshots := [\<lparr>sp_SnapshotID = 7, sp_Name = ''v7'', sp_Note = [], sp_CreatedBy = [], sp_ArtifactCount = 0,
      sp_TotalBytes = 0, sp_CreatedAt = 0\<rparr>]\<rparr>"
  have "snap_history ascii_externals \<lparr>ss_activeID = 0, ss_activeName = []\<rparr> db"
    by (rule snap_history.opened) (simp_all add: db_def empty_db_def)
  moreover have "snapshot_Activate calm 7 \<lparr>ss_activeID = 0, ss_activeName = []\<rparr> db = (None, setActive 7 ''v7'' unpinned, db\<lparr>sd_active := Some (FormatUint 7)\<rparr>)"
    by (simp add: snapshot_Activate_def activate_get_def snapshot_Get_def activate_set_def calm_def db_def setActive_def unpinned_def)
  ultimately have h: "snap_history ascii_externals (setActive 7 ''v7'' unpinned) (db\<lparr>sd_active := Some (FormatUint 7)\<rparr>)"
    by (rule snap_history.activated)
  have "se_first calm = None" "se_second calm = None" by (simp_all add: calm_def)
  from restart_keeps_snapshot [OF h this, of unpinned] show ?thesis unfolding Let_def db_def by (simp add: empty_db_def)
qed

text \<open>
  Without the order of the operations this fails: a deletion that looked at the pointer before an
  activation, and whose transaction follows the activation's read, deletes the snapshot that then
  becomes active. Until the restart the gate refuses every version; the restart turns the mode off,
  and the gate allows every version.
\<close>

lemma deleted_while_activated:
  "let x = \<lparr>sp_SnapshotID = 7, sp_Name = ''v7'', sp_Note = [], sp_CreatedBy = [], sp_ArtifactCount = 0, sp_TotalBytes = 0, sp_CreatedAt = 0\<rparr>;
       db0 = empty_db\<lparr>sd_snapshots := [x]\<rparr> in
   activate_get calm 7 db0 = Inr (Some x) \<and> delete_guard 7 unpinned = None \<and>
   (case delete_transaction calm 7 db0 of (err, db1) \<Rightarrow> err = None \<and>
     (case activate_set calm (Some x) unpinned db1 of (err2, s, db) \<Rightarrow> err2 = None \<and>
        snapshot_bridge calm db s e p v = Inr \<lparr>sm_Allowed = False, sm_SnapshotID = 7, sm_SnapshotName = ''v7''\<rparr> \<and>
        snapshot_Load calm db unpinned = (None, unpinned) \<and>
        snapshot_bridge calm db unpinned e p v = Inr \<lparr>sm_Allowed = True, sm_SnapshotID = 0, sm_SnapshotName = []\<rparr>))"
proof -
  have n: "ParseUint (TrimSpace (FormatUint 7)) 64 = Inr 7" by (simp add: TrimSpace_FormatUint ParseUint_FormatUint)
  show ?thesis
    by (simp add: Let_def activate_get_def snapshot_Get_def delete_guard_def delete_transaction_def activate_set_def
        snapshot_bridge_def snapshot_Check_def snapshot_Load_def snapshot_pins_def calm_def empty_db_def setActive_def unpinned_def n)
qed

section \<open>Conda\<close>

lemma conda_name_no_slash:
  assumes "CHR ''/'' \<notin> set s"
  shows "CHR ''/'' \<notin> set (conda_name s)"
  using assms by (auto simp: conda_name_def Let_def TrimSuffix_def split: option.splits nat.splits if_splits dest!: in_set_takeD)

lemma ParseCondaPath_slash:
  assumes "ParseCondaPath path = (pkg, version)" and "pkg \<noteq> []"
  shows "CHR ''/'' \<in> set pkg"
  using assms by (auto simp: ParseCondaPath_def splitConda_def Let_def split: if_splits option.splits)

text \<open>
  C38: Snapshot-only mode refuses every Conda artifact, also the pinned ones. The gate of the adapter
  asks for the channel and the name, while the cache manager records a baseline, and with it the
  snapshot pins, the name at the start of the file name, which holds no slash.
\<close>

theorem snapshot_mode_refuses_conda:
  assumes "CreateFromCache E failed env name memo actor db0 = (Inr x, db1)"
    and "se_newID env \<notin> sp_SnapshotID ` set (sd_snapshots db0)" and "se_newID env \<notin> si_SnapshotID ` set (sd_items db0)"
    and "snap_reach E (Some (sp_SnapshotID x)) (s1, db1) (s, db)" and "ss_activeID s = sp_SnapshotID x" and "sp_SnapshotID x \<noteq> 0"
    and "se_first cenv = None"
    and "\<forall>r \<in> set (sd_tamper db0). tr_Ecosystem r = ''conda'' \<longrightarrow> tr_Package r = ExtractName E X ''conda'' (tr_Key r)"
    and "ParseCondaPath path = (pkg, version)" and "pkg \<noteq> []"
  shows "\<exists>m. snapshot_bridge cenv db s ''conda'' pkg version = Inr m \<and> \<not> sm_Allowed m"
proof -
  have "tr_Package r \<noteq> pkg" if "r \<in> set (sd_tamper db0)" "tr_Ecosystem r = ''conda''" for r
  proof -
    have "CHR ''/'' \<notin> set (last_segment (TrimPrefix (tr_Key r) ''conda/''))"
      unfolding last_segment_def by (rule Split_no_sep, rule last_in_set) simp
    then have "CHR ''/'' \<notin> set (tr_Package r)" using assms(8) that conda_name_no_slash by (simp add: ExtractName_def)
    then show ?thesis using ParseCondaPath_slash [OF assms(9,10)] by auto
  qed
  then show ?thesis using frozen_set_answer [OF assms(1-7), of "''conda''" pkg version] by auto
qed

theorem snapshot_mode_refuses_conda_witness:
  "\<exists>x db1 m. CreateFromCache ascii_externals None calm ''v1'' [] []
       (fetched [sample_artifact ''conda/forge/noarch/numpy-2.1-py_0.conda'' ''conda'' ''numpy'' ''2.1'' ''aa'']) = (Inr x, db1) \<and>
     snapshot_bridge calm db1 (setActive 1 ''v1'' unpinned) ''conda'' ''forge/numpy'' ''2.1'' = Inr m \<and> \<not> sm_Allowed m"
proof -
  define key where "key = ''conda/forge/noarch/numpy-2.1-py_0.conda''"
  define db0 where "db0 = fetched [sample_artifact key ''conda'' ''numpy'' ''2.1'' ''aa'']"
  have db0: "sd_snapshots db0 = []" "sd_items db0 = []"
    "sd_tamper db0 = [\<lparr>tr_Key = key, tr_Ecosystem = ''conda'', tr_Package = ''numpy'', tr_Version = ''2.1'', tr_SHA256 = ''aa'', tr_Size = 1,
       tr_FirstSeenAt = 0, tr_LastVerifiedAt = 0, tr_VerifyCount = 0\<rparr>]"
    by (simp_all add: db0_def fetched_def empty_db_def calm_def tamper_Record_def record_create_def sample_artifact_def)
  have name: "TrimSpace ''v1'' = ''v1''" by code_simp
  obtain x db1 where c: "CreateFromCache ascii_externals None calm ''v1'' [] [] db0 = (Inr x, db1)"
    and x: "sp_SnapshotID x = 1" "sp_Name x = ''v1''"
    using db0 by (simp add: CreateFromCache_def Let_def name order_by_def snapshot_insert_def calm_def)
  define s where "s = setActive 1 ''v1'' unpinned"
  obtain err db where a: "activate_set calm (Some x) unpinned db1 = (err, s, db)" and items: "sd_items db = sd_items db1"
    using x by (simp add: activate_set_def calm_def Let_def s_def)
  have r: "snap_reach ascii_externals (Some (sp_SnapshotID x)) (unpinned, db1) (s, db)" by (rule snap_reach.activated [OF snap_reach.start a])
  have pins: "snapshot_pins db1 = snapshot_pins db" by (intro ext) (simp add: snapshot_pins_def items)
  have b: "snapshot_bridge calm db1 s = snapshot_bridge calm db s" by (intro ext) (simp only: snapshot_bridge_def snapshot_Check_def pins)
  have fresh: "se_newID calm \<notin> sp_SnapshotID ` set (sd_snapshots db0)" "se_newID calm \<notin> si_SnapshotID ` set (sd_items db0)" by (simp_all add: db0)
  have act: "ss_activeID s = sp_SnapshotID x" "sp_SnapshotID x \<noteq> 0" "se_first calm = None" by (simp_all add: s_def setActive_def x calm_def)
  have "ExtractName ascii_externals sample_escaping ''conda'' key = ''numpy''" unfolding key_def by code_simp
  then have names: "\<forall>r \<in> set (sd_tamper db0). tr_Ecosystem r = ''conda'' \<longrightarrow> tr_Package r = ExtractName ascii_externals sample_escaping ''conda'' (tr_Key r)"
    by (simp add: db0)
  have path: "ParseCondaPath ''forge/noarch/numpy-2.1-py_0.conda'' = (''forge/numpy'', ''2.1'')" by code_simp
  have "\<exists>m. snapshot_bridge calm db1 s ''conda'' ''forge/numpy'' ''2.1'' = Inr m \<and> \<not> sm_Allowed m"
    unfolding b by (rule snapshot_mode_refuses_conda [OF c fresh r act names path]) simp
  then show ?thesis using c unfolding db0_def s_def key_def by metis
qed

end
