(* ===== verification/Access_Control.thy ===== *)
theory Access_Control
  imports Go_Encoding Go_Paths
begin

text \<open>
  Who may read and write (\<open>middleware/auth.go\<close>, \<open>principal.go\<close>, \<open>request_path.go\<close>). The library that
  signs and parses the JSON web tokens is a parameter; the tables of users and API tokens are
  lists, and the errors of their statements are in the environment of a request.
\<close>

section \<open>Data\<close>

record User =
  us_ID :: uint
  us_Username :: string
  us_Role :: string
  us_Enabled :: bool
  us_CredentialVersion :: uint

record APIToken =
  ak_ID :: uint
  ak_UserID :: uint
  ak_TokenHash :: string
  ak_Permissions :: string
  ak_ExpiresAt :: "time option"
  ak_LastUsedAt :: "time option"

record Claims =
  cl_UserID :: uint
  cl_Username :: string
  cl_Role :: string
  cl_CredentialVersion :: uint
  cl_ExpiresAt :: time

datatype auth_method = AuthMethodJWT | AuthMethodAPIToken

record Principal =
  pr_ID :: uint
  pr_Username :: string
  pr_Role :: string
  pr_Enabled :: bool
  pr_AuthMethod :: auth_method
  pr_TokenPermissions :: "string option"
  pr_CanWrite :: bool
  pr_CredentialVersion :: uint

text \<open>
  \<open>jwt.ParseWithClaims\<close> for HS256 tokens with an expiry, given the secret, the clock and the token;
  \<open>SignedString\<close> given the secret and the claims.
\<close>

record jwt_calls =
  jwt_Parse :: "string \<Rightarrow> time \<Rightarrow> string \<Rightarrow> Claims option"
  jwt_Sign :: "string \<Rightarrow> Claims \<Rightarrow> gerror + string"

record auth_env =
  au_now :: time
  au_user :: "gerror option"
  au_token :: "gerror option"
  au_owner :: "gerror option"
  au_touch :: "gerror option"

section \<open>Tokens\<close>

definition supported_role :: "string \<Rightarrow> bool" where
  "supported_role role \<longleftrightarrow> role = ''admin'' \<or> role = ''readonly''"

definition find_user :: "gerror option \<Rightarrow> uint \<Rightarrow> User list \<Rightarrow> gerror + User" where
  "find_user failed uid users =
     (case failed of
        Some e \<Rightarrow> Inl e
      | None \<Rightarrow> (case find (\<lambda>u. us_ID u = uid) users of None \<Rightarrow> Inl [ErrRecordNotFound] | Some u \<Rightarrow> Inr u))"

definition resolveJWTPrincipal :: "jwt_calls \<Rightarrow> auth_env \<Rightarrow> string \<Rightarrow> User list \<Rightarrow> string \<Rightarrow> gerror + Principal" where
  "resolveJWTPrincipal J env secret users tokenString =
     (case jwt_Parse J secret (au_now env) tokenString of
        None \<Rightarrow> Inl [ErrMessage ''invalid JWT'']
      | Some claims \<Rightarrow>
          if cl_UserID claims = 0 then Inl [ErrMessage ''invalid JWT'']
          else case find_user (au_user env) (cl_UserID claims) users of
              Inl e \<Rightarrow> Inl e
            | Inr user \<Rightarrow>
                if \<not> us_Enabled user then Inl [ErrMessage ''user disabled'']
                else if \<not> supported_role (us_Role user) then Inl [ErrMessage ''unsupported user role'']
                else if cl_CredentialVersion claims = 0 \<or> us_CredentialVersion user = 0 \<or> cl_Role claims \<noteq> us_Role user \<or>
                        cl_CredentialVersion claims \<noteq> us_CredentialVersion user
                then Inl [ErrMessage ''stale JWT credential state'']
                else Inr \<lparr>pr_ID = us_ID user, pr_Username = us_Username user, pr_Role = us_Role user, pr_Enabled = True,
                          pr_AuthMethod = AuthMethodJWT, pr_TokenPermissions = None, pr_CanWrite = (us_Role user = ''admin''),
                          pr_CredentialVersion = us_CredentialVersion user\<rparr>)"

definition touch_token :: "auth_env \<Rightarrow> uint \<Rightarrow> APIToken list \<Rightarrow> APIToken list" where
  "touch_token env uid tokens =
     (if au_touch env \<noteq> None then tokens
      else map (\<lambda>t. if ak_ID t = uid then t\<lparr>ak_LastUsedAt := Some (au_now env)\<rparr> else t) tokens)"

definition resolveAPITokenPrincipal :: "auth_env \<Rightarrow> User list \<Rightarrow> string \<Rightarrow> APIToken list \<Rightarrow> (gerror + Principal) \<times> APIToken list" where
  "resolveAPITokenPrincipal env users tokenString tokens =
     (case au_token env of
        Some e \<Rightarrow> (Inl e, tokens)
      | None \<Rightarrow>
          (case find (\<lambda>t. ak_TokenHash t = EncodeToString (Sum256 tokenString)) tokens of
             None \<Rightarrow> (Inl [ErrRecordNotFound], tokens)
           | Some t \<Rightarrow>
               if (case ak_ExpiresAt t of None \<Rightarrow> False | Some expiry \<Rightarrow> expiry < au_now env)
               then (Inl [ErrMessage ''token expired''], tokens)
               else if ak_Permissions t \<noteq> ''readonly'' \<and> ak_Permissions t \<noteq> ''readwrite''
               then (Inl [ErrMessage ''unsupported token permissions''], tokens)
               else case find_user (au_owner env) (ak_UserID t) users of
                   Inl e \<Rightarrow> (Inl e, tokens)
                 | Inr user \<Rightarrow>
                     if \<not> us_Enabled user then (Inl [ErrMessage ''user disabled''], tokens)
                     else if \<not> supported_role (us_Role user) then (Inl [ErrMessage ''unsupported user role''], tokens)
                     else (Inr \<lparr>pr_ID = us_ID user, pr_Username = us_Username user, pr_Role = us_Role user, pr_Enabled = True,
                               pr_AuthMethod = AuthMethodAPIToken, pr_TokenPermissions = Some (ak_Permissions t),
                               pr_CanWrite = (us_Role user = ''admin'' \<and> ak_Permissions t = ''readwrite''),
                               pr_CredentialVersion = us_CredentialVersion user\<rparr>, touch_token env (ak_ID t) tokens)))"

definition GenerateJWT :: "jwt_calls \<Rightarrow> string \<Rightarrow> User \<Rightarrow> time \<Rightarrow> int \<Rightarrow> gerror + string" where
  "GenerateJWT J secret user now ttl =
     (if us_CredentialVersion user = 0 then Inl [ErrMessage ''user credential version is not initialized'']
      else jwt_Sign J secret \<lparr>cl_UserID = us_ID user, cl_Username = us_Username user, cl_Role = us_Role user,
             cl_CredentialVersion = us_CredentialVersion user, cl_ExpiresAt = now + ttl\<rparr>)"

section \<open>Handlers\<close>

text \<open>A handler aborts with a status or passes the request on, with the principal of its context.\<close>

datatype access = AbortUnauthorized | AbortForbidden | Passes Principal

definition extractToken :: "string \<Rightarrow> string" where
  "extractToken auth = (if HasPrefix auth ''Bearer '' then TrimPrefix auth ''Bearer '' else [])"

definition Authenticate :: "jwt_calls \<Rightarrow> auth_env \<Rightarrow> string \<Rightarrow> User list \<Rightarrow> string \<Rightarrow> APIToken list \<Rightarrow> access \<times> APIToken list" where
  "Authenticate J env secret users auth tokens =
     (let tokenString = extractToken auth in
      if tokenString = [] then (AbortUnauthorized, tokens)
      else case resolveJWTPrincipal J env secret users tokenString of
          Inr who \<Rightarrow> (Passes who, tokens)
        | Inl _ \<Rightarrow>
            (case resolveAPITokenPrincipal env users tokenString tokens of
               (Inr who, tokens') \<Rightarrow> (Passes who, tokens')
             | (Inl _, tokens') \<Rightarrow> (AbortUnauthorized, tokens')))"

definition JWTOnly :: "jwt_calls \<Rightarrow> auth_env \<Rightarrow> string \<Rightarrow> User list \<Rightarrow> string \<Rightarrow> access" where
  "JWTOnly J env secret users auth =
     (case resolveJWTPrincipal J env secret users (extractToken auth) of
        Inr who \<Rightarrow> if extractToken auth = [] then AbortUnauthorized else Passes who
      | Inl _ \<Rightarrow> AbortUnauthorized)"

definition ReadRequired :: "Principal option \<Rightarrow> access" where
  "ReadRequired p = (case p of None \<Rightarrow> AbortForbidden | Some who \<Rightarrow>
     if \<not> supported_role (pr_Role who) then AbortForbidden else Passes who)"

definition WriteRequired :: "Principal option \<Rightarrow> access" where
  "WriteRequired p = (case p of None \<Rightarrow> AbortForbidden | Some who \<Rightarrow>
     if \<not> pr_CanWrite who then AbortForbidden else Passes who)"

text \<open>A route that demands write access behind \<open>Authenticate\<close>.\<close>

definition write_route :: "jwt_calls \<Rightarrow> auth_env \<Rightarrow> string \<Rightarrow> User list \<Rightarrow> string \<Rightarrow> APIToken list \<Rightarrow> access" where
  "write_route J env secret users auth tokens =
     (case fst (Authenticate J env secret users auth tokens) of Passes p \<Rightarrow> WriteRequired (Some p) | a \<Rightarrow> a)"

section \<open>Request paths in the log\<close>

definition signedArtifactPathMarkers :: "string list" where
  "signedArtifactPathMarkers = [''/files/_external/'', ''/-/__depsilo_tarball_v1/'']"

text \<open>The loop keeps the first place of a marker and its length.\<close>

definition redact_step :: "string \<Rightarrow> string \<Rightarrow> (nat \<times> nat) option \<Rightarrow> (nat \<times> nat) option" where
  "redact_step path marker best =
     (case Index path marker of
        None \<Rightarrow> best
      | Some i \<Rightarrow> (case best of
            Some (j, n) \<Rightarrow> if j \<le> i then best else Some (i, length marker)
          | None \<Rightarrow> Some (i, length marker)))"

definition redactedRequestPath :: "string \<Rightarrow> string" where
  "redactedRequestPath path =
     (case fold (redact_step path) signedArtifactPathMarkers None of
        None \<Rightarrow> path
      | Some (i, n) \<Rightarrow> take (i + n) path @ ''<redacted>'')"

section \<open>Writing needs an administrator\<close>

lemma find_user_Inr: "find_user failed uid users = Inr u \<Longrightarrow> u \<in> set users \<and> us_ID u = uid"
  by (auto simp: find_user_def find_Some_iff in_set_conv_nth split: option.splits)

text \<open>
  C25: A request passes a route that writes only in the name of an enabled administrator of the table:
  with a valid JWT that carries the user's current role and credential version, or with an API
  token of that user that is stored, not expired and read-write. So a change of the credential
  version revokes every JWT issued before, a read-only token or role never writes, and disabling
  the user stops both.
\<close>

theorem write_needs_admin:
  assumes "write_route J env secret users auth tokens = Passes p"
  shows "\<exists>u \<in> set users. us_ID u = pr_ID p \<and> us_Enabled u \<and> us_Role u = ''admin'' \<and>
    ((\<exists>claims. jwt_Parse J secret (au_now env) (extractToken auth) = Some claims \<and> cl_UserID claims = us_ID u \<and>
        cl_Role claims = ''admin'' \<and> cl_CredentialVersion claims = us_CredentialVersion u \<and> us_CredentialVersion u \<noteq> 0) \<or>
     (\<exists>t \<in> set tokens. ak_TokenHash t = EncodeToString (Sum256 (extractToken auth)) \<and> ak_UserID t = us_ID u \<and>
        ak_Permissions t = ''readwrite'' \<and> (\<forall>expiry. ak_ExpiresAt t = Some expiry \<longrightarrow> au_now env \<le> expiry)))"
proof -
  let ?jwt = "resolveJWTPrincipal J env secret users (extractToken auth)"
  let ?api = "resolveAPITokenPrincipal env users (extractToken auth) tokens"
  have w: "pr_CanWrite p" and "?jwt = Inr p \<or> fst ?api = Inr p"
    using assms by (auto simp: write_route_def Authenticate_def Let_def WriteRequired_def split: access.splits sum.splits prod.splits if_splits)
  then consider "?jwt = Inr p" | "fst ?api = Inr p" by blast
  then show ?thesis
  proof cases
    case 1
    then obtain claims user where c: "jwt_Parse J secret (au_now env) (extractToken auth) = Some claims"
      and u: "find_user (au_user env) (cl_UserID claims) users = Inr user" "us_Enabled user"
        "cl_Role claims = us_Role user" "cl_CredentialVersion claims = us_CredentialVersion user" "us_CredentialVersion user \<noteq> 0"
      and p: "pr_ID p = us_ID user" "pr_CanWrite p = (us_Role user = ''admin'')"
      by (auto simp: resolveJWTPrincipal_def split: option.splits sum.splits if_splits)
    show ?thesis using find_user_Inr [OF u(1)] u c p w by (intro bexI [of _ user]) auto
  next
    case 2
    then obtain t user where t: "find (\<lambda>t. ak_TokenHash t = EncodeToString (Sum256 (extractToken auth))) tokens = Some t"
      and e: "\<not> (case ak_ExpiresAt t of None \<Rightarrow> False | Some expiry \<Rightarrow> expiry < au_now env)"
      and u: "find_user (au_owner env) (ak_UserID t) users = Inr user" "us_Enabled user"
      and p: "pr_ID p = us_ID user" "pr_CanWrite p = (us_Role user = ''admin'' \<and> ak_Permissions t = ''readwrite'')"
      unfolding resolveAPITokenPrincipal_def by (auto split: option.split_asm sum.split_asm if_split_asm)
    from t have "t \<in> set tokens" "ak_TokenHash t = EncodeToString (Sum256 (extractToken auth))" by (auto simp: find_Some_iff in_set_conv_nth)
    then show ?thesis using find_user_Inr [OF u(1)] u e p w
      by (intro bexI [of _ user] conjI disjI2 bexI [of _ t]) (auto split: option.splits)
  qed
qed

definition sample_admin :: User where
  "sample_admin = \<lparr>us_ID = 1, us_Username = ''root'', us_Role = ''admin'', us_Enabled = True, us_CredentialVersion = 3\<rparr>"

definition sample_jwt :: jwt_calls where
  "sample_jwt = \<lparr>jwt_Parse = (\<lambda>secret now token. if token = ''tok'' then Some \<lparr>cl_UserID = 1, cl_Username = ''root'', cl_Role = ''admin'',
     cl_CredentialVersion = 3, cl_ExpiresAt = 10\<rparr> else None), jwt_Sign = (\<lambda>_ _. Inr ''tok'')\<rparr>"

definition sample_auth :: auth_env where
  "sample_auth = \<lparr>au_now = 5, au_user = None, au_token = None, au_owner = None, au_touch = None\<rparr>"

theorem write_needs_admin_witness:
  "\<exists>p. write_route sample_jwt sample_auth [] [sample_admin] ''Bearer tok'' [] = Passes p \<and> (\<exists>u \<in> {sample_admin}. us_ID u = pr_ID p \<and> us_Role u = ''admin'')"
proof -
  have t: "extractToken ''Bearer tok'' = ''tok''" by code_simp
  have f: "find_user None 1 [sample_admin] = Inr sample_admin" by (simp add: find_user_def sample_admin_def)
  obtain p where p: "write_route sample_jwt sample_auth [] [sample_admin] ''Bearer tok'' [] = Passes p"
    by (simp add: write_route_def Authenticate_def t resolveJWTPrincipal_def sample_jwt_def sample_auth_def f)
      (simp add: sample_admin_def supported_role_def WriteRequired_def)
  with write_needs_admin [OF p] show ?thesis by auto
qed

section \<open>Redaction\<close>

lemma Index_found: "\<exists>i \<le> length a. Index (a @ sub @ b) sub = Some i"
proof (induction a)
  case Nil
  have "HasPrefix (sub @ b) sub" by simp
  then show ?case by (cases "sub @ b") (auto simp del: HasPrefix_append)
next
  case (Cons c a)
  then show ?case by auto
qed

lemma redact_fold:
  assumes "\<And>i n. best = Some (i, n) \<Longrightarrow> \<exists>m. n = length m \<and> m \<in> set all_markers \<and> take n (drop i path) = m"
    and "set markers \<subseteq> set all_markers"
  shows "(\<forall>i n. fold (redact_step path) markers best = Some (i, n) \<longrightarrow>
      (\<exists>m. n = length m \<and> m \<in> set all_markers \<and> take n (drop i path) = m)) \<and>
    (\<forall>m \<in> set markers. \<forall>j. Index path m = Some j \<longrightarrow> (\<exists>i n. fold (redact_step path) markers best = Some (i, n) \<and> i \<le> j)) \<and>
    (\<forall>j n. best = Some (j, n) \<longrightarrow> (\<exists>i n. fold (redact_step path) markers best = Some (i, n) \<and> i \<le> j))"
  using assms
proof (induction markers arbitrary: best)
  case (Cons m markers)
  let ?best = "redact_step path m best"
  have at: "take (length m) (drop i path) = m" if "Index path m = Some i" for i
  proof (cases "i \<le> length path")
    case True
    then have "drop i path = m @ drop (i + length m) path"
      using Index_Some [OF that] by (metis append_take_drop_id same_append_eq)
    then show ?thesis by (metis append_eq_conv_conj)
  next
    case False
    then show ?thesis using Index_Some [OF that] by simp
  qed
  have b: "\<exists>m. n = length m \<and> m \<in> set all_markers \<and> take n (drop i path) = m" if "?best = Some (i, n)" for i n
    using that Cons.prems at by (auto simp: redact_step_def split: option.splits if_splits)
  have le: "\<exists>i n. ?best = Some (i, n) \<and> i \<le> j" if "Index path m = Some j \<or> (\<exists>n. best = Some (j, n))" for j
    using that by (auto simp: redact_step_def split: option.splits)
  have sub: "set markers \<subseteq> set all_markers" using Cons.prems(2) by simp
  note IH = Cons.IH [OF b sub]
  have down: "\<exists>i n. fold (redact_step path) markers ?best = Some (i, n) \<and> i \<le> j" if "Index path m = Some j \<or> (\<exists>n. best = Some (j, n))" for j
    using le [OF that] IH by (meson le_trans)
  show ?case unfolding fold_simps(2) list.set
  proof (intro conjI)
    show "\<forall>i n. fold (redact_step path) markers ?best = Some (i, n) \<longrightarrow> (\<exists>m. n = length m \<and> m \<in> set all_markers \<and> take n (drop i path) = m)"
      using IH by blast
    show "\<forall>m \<in> insert m (set markers). \<forall>j. Index path m = Some j \<longrightarrow> (\<exists>i n. fold (redact_step path) markers ?best = Some (i, n) \<and> i \<le> j)"
      using IH down by blast
    show "\<forall>j n. best = Some (j, n) \<longrightarrow> (\<exists>i n. fold (redact_step path) markers ?best = Some (i, n) \<and> i \<le> j)"
      using down by blast
  qed
qed auto

text \<open>
  A path that holds the marker of a signed artifact is logged only up to a marker that begins no later:
  nothing behind the first marker reaches the log.
\<close>

theorem nothing_behind_a_marker_is_logged:
  assumes "marker \<in> set signedArtifactPathMarkers" and "path = before @ marker @ rest"
  shows "\<exists>i m. i \<le> length before \<and> m \<in> set signedArtifactPathMarkers \<and> take (length m) (drop i path) = m \<and>
    redactedRequestPath path = take (i + length m) path @ ''<redacted>''"
proof -
  obtain j where j: "j \<le> length before" "Index path marker = Some j" using Index_found [of before marker rest] assms(2) by blast
  have none: "\<And>i n. None = Some (i, n) \<Longrightarrow> \<exists>m. n = length m \<and> m \<in> set signedArtifactPathMarkers \<and> take n (drop i path) = m" by simp
  note f = redact_fold [OF none subset_refl]
  from f assms(1) j(2) obtain i n where r: "fold (redact_step path) signedArtifactPathMarkers None = Some (i, n)" "i \<le> j" by blast
  with f obtain m where "n = length m" "m \<in> set signedArtifactPathMarkers" "take n (drop i path) = m" by blast
  then show ?thesis using r j(1) by (intro exI [of _ i] exI [of _ m]) (simp add: redactedRequestPath_def)
qed

theorem nothing_behind_a_marker_is_logged_witness:
  "redactedRequestPath ''/npm/a/-/__depsilo_tarball_v1/secret'' = ''/npm/a/-/__depsilo_tarball_v1/<redacted>'' \<and>
   (\<exists>i m. i \<le> length ''/npm/a'' \<and> m \<in> set signedArtifactPathMarkers \<and>
      redactedRequestPath ''/npm/a/-/__depsilo_tarball_v1/secret'' = take (i + length m) ''/npm/a/-/__depsilo_tarball_v1/secret'' @ ''<redacted>'')"
proof
  show "redactedRequestPath ''/npm/a/-/__depsilo_tarball_v1/secret'' = ''/npm/a/-/__depsilo_tarball_v1/<redacted>''" by code_simp
  have m: "''/-/__depsilo_tarball_v1/'' \<in> set signedArtifactPathMarkers" by (simp add: signedArtifactPathMarkers_def)
  have p: "''/npm/a/-/__depsilo_tarball_v1/secret'' = ''/npm/a'' @ ''/-/__depsilo_tarball_v1/'' @ ''secret''" by simp
  show "\<exists>i m. i \<le> length ''/npm/a'' \<and> m \<in> set signedArtifactPathMarkers \<and>
      redactedRequestPath ''/npm/a/-/__depsilo_tarball_v1/secret'' = take (i + length m) ''/npm/a/-/__depsilo_tarball_v1/secret'' @ ''<redacted>''"
    using nothing_behind_a_marker_is_logged [OF m p] by blast
qed

end
