(* ===== verification/Compile_Cache.thy ===== *)
theory Compile_Cache
  imports Go_Encoding Go_Paths
begin

text \<open>
  Identities, object paths and credentials of the compiler cache (\<open>compilecache/key.go\<close>, \<open>auth.go\<close>).
  Strings that a \<open>range\<close> loop accepts hold only ASCII characters, so the loops are over bytes. Random
  bytes and the answers of the credential table are arguments.
\<close>

section \<open>Keys\<close>

datatype Protocol = ProtocolCCache | ProtocolSCCache | OtherProtocol string

definition protocol_text :: "Protocol \<Rightarrow> string" where
  "protocol_text p = (case p of ProtocolCCache \<Rightarrow> ''ccache'' | ProtocolSCCache \<Rightarrow> ''sccache'' | OtherProtocol s \<Rightarrow> s)"

record ArtifactID =
  ai_protocol :: Protocol
  ai_namespace :: string
  ai_key :: string

abbreviation ErrInvalidKey :: gerror where
  "ErrInvalidKey \<equiv> [ErrMessage ''invalid compiler-cache key'']"

definition lower_or_digit :: "char \<Rightarrow> bool" where
  "lower_or_digit c \<longleftrightarrow> isASCIIDigit c \<or> c \<in> set ''abcdefghijklmnopqrstuvwxyz''"

definition lower_hex :: "char \<Rightarrow> bool" where
  "lower_hex c \<longleftrightarrow> isASCIIDigit c \<or> c \<in> set ''abcdef''"

definition lower_base32hex :: "char \<Rightarrow> bool" where
  "lower_base32hex c \<longleftrightarrow> isASCIIDigit c \<or> c \<in> set ''abcdefghijklmnopqrstuv''"

text \<open>\<open>namespacePattern\<close>: one to 64 characters, the first and the last alphanumeric.\<close>

definition namespacePattern :: "string \<Rightarrow> bool" where
  "namespacePattern s \<longleftrightarrow>
     s \<noteq> [] \<and> length s \<le> 64 \<and> lower_or_digit (hd s) \<and> lower_or_digit (last s) \<and>
     list_all (\<lambda>c. lower_or_digit c \<or> c \<in> set ''._-'') s"

definition NormalizeNamespace :: "string \<Rightarrow> gerror + string" where
  "NormalizeNamespace raw =
     (let namespace = TrimSpace raw in
      if \<not> namespacePattern namespace then Inl [ErrMessage ''invalid compile-cache namespace''] else Inr namespace)"

definition ParseHTTPKey :: "string \<Rightarrow> gerror + string" where
  "ParseHTTPKey raw =
     (let path = TrimPrefix raw ''/'';
          key = (if 2 < length path \<and> path ! 2 = CHR ''/'' then take 2 path @ drop 3 path else path) in
      if length key = 40 then (if list_all lower_hex key then Inr key else Inl ErrInvalidKey)
      else if length key = 33
      then (if list_all lower_hex (take 4 key) \<and> list_all lower_base32hex (drop 4 key) then Inr key else Inl ErrInvalidKey)
      else Inl ErrInvalidKey)"

definition ParseSCCacheKey :: "string \<Rightarrow> gerror + string" where
  "ParseSCCacheKey raw =
     (case Split (TrimPrefix raw ''/'') CHR ''/'' of
        [a, b, c, key] \<Rightarrow>
          if length a \<noteq> 1 \<or> length b \<noteq> 1 \<or> length c \<noteq> 1 \<or> length key \<noteq> 64 then Inl ErrInvalidKey
          else if \<not> list_all lower_hex key then Inl ErrInvalidKey
          else if a @ b @ c \<noteq> take 3 key then Inl ErrInvalidKey
          else Inr key
      | _ \<Rightarrow> Inl ErrInvalidKey)"

definition NewArtifactID :: "Protocol \<Rightarrow> string \<Rightarrow> string \<Rightarrow> gerror + ArtifactID" where
  "NewArtifactID protocol namespace key =
     (case NormalizeNamespace namespace of
        Inl e \<Rightarrow> Inl e
      | Inr normalized \<Rightarrow>
          let made = Inr \<lparr>ai_protocol = protocol, ai_namespace = normalized, ai_key = key\<rparr> in
          (case protocol of
             ProtocolCCache \<Rightarrow>
               (case ParseHTTPKey key of Inl e \<Rightarrow> Inl e | Inr parsed \<Rightarrow> if parsed \<noteq> key then Inl ErrInvalidKey else made)
           | ProtocolSCCache \<Rightarrow> if length key \<noteq> 64 \<or> \<not> list_all lower_hex key then Inl ErrInvalidKey else made
           | OtherProtocol _ \<Rightarrow> Inl [ErrMessage ''invalid compile-cache protocol'']))"

definition validate_id :: "ArtifactID \<Rightarrow> gerror option" where
  "validate_id a =
     (case NewArtifactID (ai_protocol a) (ai_namespace a) (ai_key a) of
        Inl e \<Rightarrow> Some e
      | Inr validated \<Rightarrow> if validated \<noteq> a then Some ErrInvalidKey else None)"

definition ParseCCacheArtifact :: "string \<Rightarrow> string \<Rightarrow> gerror + ArtifactID" where
  "ParseCCacheArtifact namespace rawKey =
     (case ParseHTTPKey rawKey of Inl e \<Rightarrow> Inl e | Inr key \<Rightarrow> NewArtifactID ProtocolCCache namespace key)"

definition ParseSCCacheArtifact :: "string \<Rightarrow> string \<Rightarrow> gerror + ArtifactID" where
  "ParseSCCacheArtifact namespace rawPath =
     (case ParseSCCacheKey rawPath of Inl e \<Rightarrow> Inl e | Inr key \<Rightarrow> NewArtifactID ProtocolSCCache namespace key)"

section \<open>Object paths\<close>

definition current_prefix :: "ArtifactID \<Rightarrow> string" where
  "current_prefix a = ''v1/'' @ protocol_text (ai_protocol a) @ ''/'' @ ai_namespace a @ ''/objects/'' @ take 2 (ai_key a) @ ''/'' @ drop 2 (ai_key a) @ ''/''"

definition legacy_prefix :: "ArtifactID \<Rightarrow> string" where
  "legacy_prefix a = ''v1/'' @ ai_namespace a @ ''/objects/'' @ take 2 (ai_key a) @ ''/'' @ drop 2 (ai_key a) @ ''/''"

text \<open>\<open>newObjectPath\<close>, given the 16 random bytes or the error of reading them.\<close>

definition newObjectPath :: "gerror + string \<Rightarrow> ArtifactID \<Rightarrow> gerror + string" where
  "newObjectPath random a =
     (case validate_id a of
        Some e \<Rightarrow> Inl e
      | None \<Rightarrow> (case random of Inl e \<Rightarrow> Inl e | Inr generation \<Rightarrow> Inr (current_prefix a @ EncodeToString generation)))"

definition newProbeObjectPath :: "gerror + string \<Rightarrow> gerror + string" where
  "newProbeObjectPath random = (case random of Inl e \<Rightarrow> Inl e | Inr generation \<Rightarrow> Inr (''v1/probes/'' @ EncodeToString generation))"

definition objectPathMatchesArtifact :: "ArtifactID \<Rightarrow> string \<Rightarrow> bool" where
  "objectPathMatchesArtifact a storagePath \<longleftrightarrow>
     HasPrefix storagePath (current_prefix a) \<or> ai_protocol a = ProtocolCCache \<and> HasPrefix storagePath (legacy_prefix a)"

section \<open>Credentials\<close>

text \<open>The columns that authentication reads or writes; names, authors and row times are left out.\<close>

record CompileCacheCredential =
  cd_ID :: uint
  cd_TokenHash :: string
  cd_Namespace :: string
  cd_Permissions :: string
  cd_ExpiresAt :: "time option"
  cd_LastUsedAt :: "time option"
  cd_RevokedAt :: "time option"

record CredentialPrincipal =
  cp_ID :: uint
  cp_Namespace :: string
  cp_CanWrite :: bool

record Authorizer =
  az_touched :: "uint \<rightharpoonup> time"
  az_lastSweep :: "time option"       \<comment> \<open>\<open>None\<close> is the zero time\<close>

definition touch_interval :: int where
  "touch_interval = 60 * 1000000000"

text \<open>The part under \<open>touchMu\<close>: whether the last use is to be written, and the map afterwards.\<close>

definition touch_decision :: "time \<Rightarrow> CompileCacheCredential \<Rightarrow> Authorizer \<Rightarrow> bool \<times> Authorizer" where
  "touch_decision now c a =
     (let due = (case cd_LastUsedAt c of None \<Rightarrow> True | Some t \<Rightarrow> touch_interval \<le> now - t);
          a1 = (if (case az_lastSweep a of None \<Rightarrow> True | Some t \<Rightarrow> now < t \<or> touch_interval \<le> now - t)
                then a\<lparr>az_touched := (\<lambda>uid. case az_touched a uid of Some t \<Rightarrow> if t + touch_interval \<le> now then None else Some t | None \<Rightarrow> None),
                       az_lastSweep := Some now\<rparr>
                else a);
          due1 = (due \<and> (case az_touched a1 (cd_ID c) of Some t \<Rightarrow> touch_interval \<le> now - t | None \<Rightarrow> True)) in
      (due1, if due1 then a1\<lparr>az_touched := (az_touched a1)(cd_ID c \<mapsto> now)\<rparr> else a1))"

text \<open>A failed write takes the mark back, unless another call has marked the credential in the meantime.\<close>

definition touch_failed :: "time \<Rightarrow> uint \<Rightarrow> Authorizer \<Rightarrow> Authorizer" where
  "touch_failed now uid a = (if az_touched a uid = Some now then a\<lparr>az_touched := (az_touched a)(uid := None)\<rparr> else a)"

definition authenticate_credential :: "time \<Rightarrow> string \<Rightarrow> bool \<Rightarrow> CompileCacheCredential \<Rightarrow> gerror + CredentialPrincipal" where
  "authenticate_credential now namespace wanted c =
     (if (case cd_ExpiresAt c of None \<Rightarrow> False | Some expiry \<Rightarrow> expiry \<le> now) then Inl [ErrMessage ''unauthorized'']
      else if cd_Namespace c \<noteq> namespace then Inl [ErrMessage ''forbidden'']
      else if cd_Permissions c \<noteq> ''readonly'' \<and> cd_Permissions c \<noteq> ''readwrite'' then Inl [ErrMessage ''unauthorized'']
      else if wanted \<and> cd_Permissions c \<noteq> ''readwrite'' then Inl [ErrMessage ''forbidden'']
      else Inr \<lparr>cp_ID = cd_ID c, cp_Namespace = cd_Namespace c, cp_CanWrite = (cd_Permissions c = ''readwrite'')\<rparr>)"

text \<open>\<open>Authenticate\<close>; \<open>failed\<close> and \<open>writes\<close> are the errors of the lookup and of the last use's update.\<close>

definition cc_Authenticate :: "gerror option \<Rightarrow> gerror option \<Rightarrow> time \<Rightarrow> string \<Rightarrow> string \<Rightarrow> bool \<Rightarrow>
    CompileCacheCredential list \<Rightarrow> Authorizer \<Rightarrow> (gerror + CredentialPrincipal) \<times> CompileCacheCredential list \<times> Authorizer" where
  "cc_Authenticate failed writes now authorization namespace wanted table a =
     (let rawToken = TrimPrefix authorization ''Bearer '' in
      if \<not> HasPrefix authorization ''Bearer '' \<or> rawToken = [] \<or> list_ex (\<lambda>c. c \<in> set [CHR '' '', CHR 0x09, CHR 0x0D, CHR 0x0A]) rawToken
      then (Inl [ErrMessage ''unauthorized''], table, a)
      else case failed of
          Some e \<Rightarrow> (Inl (ErrMessage ''auth unavailable'' # e), table, a)
        | None \<Rightarrow>
            (case find (\<lambda>c. cd_TokenHash c = EncodeToString (Sum256 rawToken) \<and> cd_RevokedAt c = None) table of
               None \<Rightarrow> (Inl [ErrMessage ''unauthorized''], table, a)
             | Some c \<Rightarrow>
                 (case authenticate_credential now namespace wanted c of
                    Inl e \<Rightarrow> (Inl e, table, a)
                  | Inr who \<Rightarrow>
                      (case touch_decision now c a of
                         (False, a1) \<Rightarrow> (Inr who, table, a1)
                       | (True, a1) \<Rightarrow>
                           (case writes of
                              Some _ \<Rightarrow> (Inr who, table, touch_failed now (cd_ID c) a1)
                            | None \<Rightarrow> (Inr who, map (\<lambda>x. if cd_ID x = cd_ID c \<and> cd_RevokedAt x = None
                                        then x\<lparr>cd_LastUsedAt := Some now\<rparr> else x) table, a1))))))"

section \<open>What a valid identity looks like\<close>

lemma NewArtifactID_Inr:
  assumes "NewArtifactID p n k = Inr b"
  shows "b = \<lparr>ai_protocol = p, ai_namespace = TrimSpace n, ai_key = k\<rparr>" and "namespacePattern (TrimSpace n)"
    and "p = ProtocolCCache \<and> ParseHTTPKey k = Inr k \<or> p = ProtocolSCCache \<and> length k = 64 \<and> list_all lower_hex k"
  using assms
  by (simp_all add: NewArtifactID_def NormalizeNamespace_def Let_def split: sum.splits Protocol.splits if_splits)

lemma validate_id_None:
  assumes "validate_id a = None"
  shows "NewArtifactID (ai_protocol a) (ai_namespace a) (ai_key a) = Inr a"
  using assms by (simp add: validate_id_def split: sum.splits if_splits)

lemma hex_base32: "lower_hex c \<Longrightarrow> lower_base32hex c"
  by (auto simp: lower_hex_def lower_base32hex_def)

lemma base32_no_slash: "lower_base32hex c \<Longrightarrow> c \<noteq> CHR ''/''"
  by (auto simp: lower_base32hex_def isASCIIDigit_def)

lemma hex_key: "list_all lower_hex k \<Longrightarrow> list_all lower_base32hex k"
  using hex_base32 by (auto simp: list_all_iff)

lemma ParseHTTPKey_Inr:
  assumes "ParseHTTPKey raw = Inr key"
  shows "list_all lower_base32hex key" and "length key = 40 \<or> length key = 33"
proof -
  have "(length key = 40 \<and> list_all lower_hex key) \<or>
    (length key = 33 \<and> list_all lower_hex (take 4 key) \<and> list_all lower_base32hex (drop 4 key))"
    using assms unfolding ParseHTTPKey_def Let_def by (simp only: split: if_splits) auto
  moreover have "list_all lower_base32hex key = (list_all lower_base32hex (take 4 key) \<and> list_all lower_base32hex (drop 4 key))"
    by (metis append_take_drop_id list_all_append)
  ultimately have "list_all lower_base32hex key \<and> (length key = 40 \<or> length key = 33)"
    using hex_key by blast
  then show "list_all lower_base32hex key" and "length key = 40 \<or> length key = 33"
    by blast+
qed

lemma valid_key:
  assumes "validate_id a = None"
  shows "list_all lower_base32hex (ai_key a)" and "33 \<le> length (ai_key a)"
proof -
  have "list_all lower_base32hex (ai_key a) \<and> (length (ai_key a) = 40 \<or> length (ai_key a) = 33 \<or> length (ai_key a) = 64)"
    using NewArtifactID_Inr(3) [OF validate_id_None [OF assms]] ParseHTTPKey_Inr hex_key by blast
  then show "list_all lower_base32hex (ai_key a)" and "33 \<le> length (ai_key a)" by auto
qed

lemma valid_namespace:
  assumes "validate_id a = None"
  shows "namespacePattern (ai_namespace a)"
  using NewArtifactID_Inr(1,2) [OF validate_id_None [OF assms]] by (metis ArtifactID.select_convs(2))

lemma valid_protocol: "validate_id a = None \<Longrightarrow> ai_protocol a = ProtocolCCache \<or> ai_protocol a = ProtocolSCCache"
  using NewArtifactID_Inr(3) [OF validate_id_None] by blast

lemma namespace_char_no_slash: "\<not> (lower_or_digit CHR ''/'' \<or> CHR ''/'' \<in> set ''._-'')"
  by code_simp

lemma namespace_no_slash: "namespacePattern s \<Longrightarrow> CHR ''/'' \<notin> set s"
  using namespace_char_no_slash unfolding namespacePattern_def list_all_iff by blast

lemma key_no_slash: "list_all lower_base32hex k \<Longrightarrow> CHR ''/'' \<notin> set k"
  using base32_no_slash by (auto simp: list_all_iff)

lemma cut_slash:
  assumes "CHR ''/'' \<notin> set x" and "CHR ''/'' \<notin> set y" and "x @ CHR ''/'' # r = y @ CHR ''/'' # s"
  shows "x = y \<and> r = s"
  using assms by (induction x arbitrary: y) (auto simp: Cons_eq_append_conv append_eq_Cons_conv)

section \<open>Object paths belong to one artifact\<close>

definition object_tail :: "ArtifactID \<Rightarrow> string \<Rightarrow> string" where
  "object_tail a r = ai_namespace a @ CHR ''/'' # ''objects'' @ CHR ''/'' # take 2 (ai_key a) @ CHR ''/'' # drop 2 (ai_key a) @ CHR ''/'' # r"

lemma object_path_forms:
  assumes "objectPathMatchesArtifact a p" and "validate_id a = None"
  obtains (current) r where "p = ''v1/'' @ protocol_text (ai_protocol a) @ CHR ''/'' # object_tail a r"
  | (legacy) r where "ai_protocol a = ProtocolCCache" and "p = ''v1/'' @ object_tail a r"
  using assms by (auto simp: objectPathMatchesArtifact_def HasPrefix_iff current_prefix_def legacy_prefix_def object_tail_def)

lemma protocol_text_no_slash: "validate_id a = None \<Longrightarrow> CHR ''/'' \<notin> set (protocol_text (ai_protocol a))"
  using valid_protocol [of a] by (auto simp: protocol_text_def)

lemma object_tail_unique:
  assumes a: "validate_id a = None" and b: "validate_id b = None" and "object_tail a r = object_tail b s"
  shows "ai_namespace a = ai_namespace b \<and> ai_key a = ai_key b"
proof -
  note na = namespace_no_slash [OF valid_namespace [OF a]] and nb = namespace_no_slash [OF valid_namespace [OF b]]
  note ka = key_no_slash [OF valid_key(1) [OF a]] and kb = key_no_slash [OF valid_key(1) [OF b]]
  have ns: "ai_namespace a = ai_namespace b" and t1: "''objects'' @ CHR ''/'' # take 2 (ai_key a) @ CHR ''/'' # drop 2 (ai_key a) @ CHR ''/'' # r
      = ''objects'' @ CHR ''/'' # take 2 (ai_key b) @ CHR ''/'' # drop 2 (ai_key b) @ CHR ''/'' # s"
    using cut_slash [OF na nb assms(3) [unfolded object_tail_def]] by simp_all
  have t2: "take 2 (ai_key a) @ CHR ''/'' # drop 2 (ai_key a) @ CHR ''/'' # r
      = take 2 (ai_key b) @ CHR ''/'' # drop 2 (ai_key b) @ CHR ''/'' # s"
    using t1 by simp
  have "take 2 (ai_key a) = take 2 (ai_key b) \<and> drop 2 (ai_key a) @ CHR ''/'' # r = drop 2 (ai_key b) @ CHR ''/'' # s"
    by (rule cut_slash [OF _ _ t2]) (use ka kb in \<open>auto dest: in_set_takeD\<close>)
  moreover from this have "drop 2 (ai_key a) = drop 2 (ai_key b) \<and> r = s"
    by (intro cut_slash) (use ka kb in \<open>auto dest: in_set_dropD\<close>)
  ultimately show ?thesis using ns by (metis append_take_drop_id)
qed

lemma current_not_legacy:
  assumes a: "validate_id a = None" and b: "validate_id b = None"
  shows "protocol_text (ai_protocol a) @ CHR ''/'' # object_tail a r \<noteq> object_tail b s"
proof
  assume eq: "protocol_text (ai_protocol a) @ CHR ''/'' # object_tail a r = object_tail b s"
  note na = namespace_no_slash [OF valid_namespace [OF a]] and nb = namespace_no_slash [OF valid_namespace [OF b]]
  note kb = key_no_slash [OF valid_key(1) [OF b]]
  have t1: "object_tail a r = ''objects'' @ CHR ''/'' # take 2 (ai_key b) @ CHR ''/'' # drop 2 (ai_key b) @ CHR ''/'' # s"
    using cut_slash [OF protocol_text_no_slash [OF a] nb eq [unfolded object_tail_def [of b]]] by simp
  have t2: "''objects'' @ CHR ''/'' # take 2 (ai_key a) @ CHR ''/'' # drop 2 (ai_key a) @ CHR ''/'' # r
      = take 2 (ai_key b) @ CHR ''/'' # drop 2 (ai_key b) @ CHR ''/'' # s"
    by (rule cut_slash [OF na _ t1 [unfolded object_tail_def], THEN conjunct2]) simp
  have "''objects'' = take 2 (ai_key b)"
    by (rule cut_slash [OF _ _ t2, THEN conjunct1]) (use kb in \<open>auto dest: in_set_takeD\<close>)
  from arg_cong [OF this, of length] show False by simp
qed

lemma object_path_separates:
  assumes a: "validate_id a = None" and b: "validate_id b = None"
    and "objectPathMatchesArtifact a p" and "objectPathMatchesArtifact b p"
  shows "a = b"
proof -
  have "ai_protocol a = ai_protocol b \<and> (\<exists>r s. object_tail a r = object_tail b s)"
    using assms(3) a
  proof (cases rule: object_path_forms)
    case ca: (current r)
    show ?thesis using assms(4) b
    proof (cases rule: object_path_forms)
      case (current s)
      have "protocol_text (ai_protocol a) = protocol_text (ai_protocol b) \<and> object_tail a r = object_tail b s"
        by (rule cut_slash [OF protocol_text_no_slash [OF a] protocol_text_no_slash [OF b]]) (use ca current in simp)
      then show ?thesis using valid_protocol [OF a] valid_protocol [OF b] by (auto simp: protocol_text_def)
    next
      case (legacy s)
      then show ?thesis using ca current_not_legacy [OF a b] by simp
    qed
  next
    case la: (legacy r)
    show ?thesis using assms(4) b
    proof (cases rule: object_path_forms)
      case (current s)
      then show ?thesis using la current_not_legacy [OF b a, of s r] by simp
    next
      case (legacy s)
      then show ?thesis using la by auto
    qed
  qed
  then show ?thesis using object_tail_unique [OF a b] by (cases a; cases b) auto
qed

text \<open>
  C26: An object path matches at most one valid artifact, over both layouts of the store and whatever the
  names of protocols, namespaces and keys are; a path that was made for an artifact matches it.
\<close>

theorem object_paths_separate:
  assumes "validate_id a = None" and "validate_id b = None" and "objectPathMatchesArtifact b p"
  shows "(objectPathMatchesArtifact a p \<longleftrightarrow> a = b) \<and>
    (\<forall>q. newObjectPath random a = Inr q \<longrightarrow> (objectPathMatchesArtifact b q \<longleftrightarrow> a = b))"
proof (intro conjI allI impI)
  show "objectPathMatchesArtifact a p \<longleftrightarrow> a = b" using object_path_separates assms by blast
  fix q
  assume "newObjectPath random a = Inr q"
  then have "objectPathMatchesArtifact a q"
    by (auto simp: newObjectPath_def objectPathMatchesArtifact_def HasPrefix_iff split: option.splits sum.splits)
  then show "objectPathMatchesArtifact b q \<longleftrightarrow> a = b" using object_path_separates assms(1,2) by blast
qed

definition sample_object :: ArtifactID where
  "sample_object = \<lparr>ai_protocol = ProtocolCCache, ai_namespace = ''objects'', ai_key = replicate 40 CHR ''a''\<rparr>"

lemma sample_object_valid: "validate_id sample_object = None"
  by code_simp

lemma sample_object_path: "objectPathMatchesArtifact sample_object (legacy_prefix sample_object @ ''00'')"
  by (simp add: objectPathMatchesArtifact_def) (simp add: sample_object_def)

theorem object_paths_separate_witness:
  "objectPathMatchesArtifact sample_object (current_prefix sample_object @ EncodeToString (replicate 16 CHR ''z''))"
proof -
  have "newObjectPath (Inr (replicate 16 CHR ''z'')) sample_object
      = Inr (current_prefix sample_object @ EncodeToString (replicate 16 CHR ''z''))"
    by (simp add: newObjectPath_def sample_object_valid)
  then show ?thesis
    using object_paths_separate [OF sample_object_valid sample_object_valid sample_object_path] by blast
qed

section \<open>What a credential grants\<close>

definition without_last_use :: "CompileCacheCredential \<Rightarrow> CompileCacheCredential" where
  "without_last_use c = c\<lparr>cd_LastUsedAt := None\<rparr>"

lemma without_last_use_touch [simp]: "without_last_use (c\<lparr>cd_LastUsedAt := t\<rparr>) = without_last_use c"
  by (simp add: without_last_use_def)

lemma authenticate_credential_Inr:
  assumes "authenticate_credential now namespace wanted c = Inr who"
  shows "(\<forall>t. cd_ExpiresAt c = Some t \<longrightarrow> now < t) \<and> cd_Namespace c = namespace \<and> cp_Namespace who = namespace \<and>
    cp_ID who = cd_ID c \<and> (cp_CanWrite who \<longleftrightarrow> cd_Permissions c = ''readwrite'') \<and> (wanted \<longrightarrow> cp_CanWrite who)"
  using assms by (auto simp: authenticate_credential_def split: if_splits option.splits)

text \<open>
  Whoever is admitted holds the token of a stored credential that is neither revoked nor expired and
  belongs to the namespace of the request; a write is admitted only with the permission to write; and
  apart from the time of the last use authentication changes nothing in the table.
\<close>

theorem credential_grants_only_its_namespace:
  assumes "cc_Authenticate failed writes now authorization namespace wanted table a = (result, table', a')"
  shows "map without_last_use table' = map without_last_use table \<and>
    (\<forall>who. result = Inr who \<longrightarrow>
      (\<exists>token c. authorization = ''Bearer '' @ token \<and> token \<noteq> [] \<and> c \<in> set table \<and> cd_TokenHash c = EncodeToString (Sum256 token) \<and>
         cd_RevokedAt c = None \<and> (\<forall>t. cd_ExpiresAt c = Some t \<longrightarrow> now < t) \<and> cd_Namespace c = namespace \<and>
         cp_Namespace who = namespace \<and> cp_ID who = cd_ID c \<and> (cp_CanWrite who \<longleftrightarrow> cd_Permissions c = ''readwrite'') \<and>
         (wanted \<longrightarrow> cp_CanWrite who)))"
proof -
  have table: "map without_last_use table' = map without_last_use table"
    using assms unfolding cc_Authenticate_def Let_def
    by (auto split: if_splits option.splits sum.splits prod.splits bool.splits)
  moreover have "\<exists>token c. authorization = ''Bearer '' @ token \<and> token \<noteq> [] \<and> c \<in> set table \<and>
      cd_TokenHash c = EncodeToString (Sum256 token) \<and> cd_RevokedAt c = None \<and>
      authenticate_credential now namespace wanted c = Inr who" if "result = Inr who" for who
  proof -
    let ?token = "TrimPrefix authorization ''Bearer ''"
    have bearer: "HasPrefix authorization ''Bearer ''" and "?token \<noteq> []"
      and rest: "\<exists>c. find (\<lambda>c. cd_TokenHash c = EncodeToString (Sum256 ?token) \<and> cd_RevokedAt c = None) table = Some c \<and>
        authenticate_credential now namespace wanted c = Inr who"
      using assms that unfolding cc_Authenticate_def Let_def
      by (auto split: if_splits option.splits sum.splits prod.splits bool.splits)
    from rest obtain c where "find (\<lambda>c. cd_TokenHash c = EncodeToString (Sum256 ?token) \<and> cd_RevokedAt c = None) table = Some c"
      and c: "authenticate_credential now namespace wanted c = Inr who" by blast
    then have "c \<in> set table \<and> cd_TokenHash c = EncodeToString (Sum256 ?token) \<and> cd_RevokedAt c = None"
      by (auto simp: find_Some_iff)
    moreover have "authorization = ''Bearer '' @ ?token" by (rule TrimPrefix_eq [OF bearer])
    ultimately show ?thesis using \<open>?token \<noteq> []\<close> c by (intro exI [of _ ?token] exI [of _ c]) simp
  qed
  ultimately show ?thesis
    by (intro conjI allI impI, simp) (drule meta_spec, drule (1) meta_mp, use authenticate_credential_Inr in blast)
qed

definition sample_credential :: CompileCacheCredential where
  "sample_credential = \<lparr>cd_ID = 7, cd_TokenHash = EncodeToString (Sum256 ''t''), cd_Namespace = ''ci'',
     cd_Permissions = ''readwrite'', cd_ExpiresAt = Some 100, cd_LastUsedAt = None, cd_RevokedAt = None\<rparr>"

lemma sample_credential_grants:
  "cc_Authenticate None None 50 ''Bearer t'' ''ci'' True [sample_credential] \<lparr>az_touched = Map.empty, az_lastSweep = None\<rparr>
     = (Inr \<lparr>cp_ID = 7, cp_Namespace = ''ci'', cp_CanWrite = True\<rparr>, [sample_credential\<lparr>cd_LastUsedAt := Some 50\<rparr>],
        \<lparr>az_touched = [7 \<mapsto> 50], az_lastSweep = Some 50\<rparr>)"
proof -
  have token: "TrimPrefix ''Bearer t'' ''Bearer '' = ''t''" and "HasPrefix ''Bearer t'' ''Bearer ''" by code_simp+
  then show ?thesis
    by (simp add: cc_Authenticate_def sample_credential_def authenticate_credential_def touch_decision_def)
qed

theorem credential_grants_only_its_namespace_witness:
  "\<exists>token. ''Bearer t'' = ''Bearer '' @ token \<and> cd_TokenHash sample_credential = EncodeToString (Sum256 token)"
  using credential_grants_only_its_namespace [OF sample_credential_grants] by auto

end
