(* ===== verification/Spec2Isabelle.thy ===== *)
theory Spec2Isabelle
  imports Policy_Middleware Engine_Liveness Blocklist_Sync Audit_Anchor Audit_Delivery Relay Mutation_Gate Cache_Protocol Storage_Path
    Artifact_Resume Registry_Invariant Snapshot_Store Access_Control Compile_Cache
begin

text \<open>
  \<^bold>\<open>Verification of depsilo.\<close> depsilo is a caching proxy for package registries. A client asks
  for a package through one of its routes; the proxy decides by the operator's package rules
  and by its supply-chain gates (known malware, frozen snapshots, a minimum release age)
  whether the request may pass, and answers it from its cache or an upstream. This library
  models the part that decides: how a request path is turned into a package identity, how
  rules are prepared, stored, compiled and evaluated, how the engine keeps a snapshot of them
  while the database comes and goes, how the quarantine checker and the malware blocklist
  judge a version, and what the client is told; and around the decision the audit trail that
  records it, the relay between instances that fetches for one another, the protocol that keeps
  invalidated bytes out of the cache, and the choice, supervision and guarding of the upstreams.

  \<^bold>\<open>How the parts interact.\<close> A request reaches \<open>Middleware\<close> (\<open>internal/rules/middleware.go\<close>).
  \<open>extractRequestTarget\<close> reads the path with the parsers of \<open>adapter/packagekey\<close>; without a
  target the request passes. Otherwise \<open>Engine.Check\<close> loads a snapshot
  (\<open>loadRulesWithState\<close>): a fresh one, or one read with \<open>Store.List\<close> and compiled row by row,
  or the configured fallback. The snapshot is evaluated with the dialect of the ecosystem
  (\<open>packagepolicy\<close>), which normalises names and orders versions, and the decision or error is
  mapped to an HTTP answer, and for the protocol adapters to a \<open>PackageRuleDecision\<close>. The
  administration side writes rules through \<open>Store\<close> and calls \<open>InvalidateCache\<close>. A request for a
  version also passes the quarantine checker (\<open>internal/quarantine/checker.go\<close>): it asks the
  blocklist matcher, the snapshot, the allow list, the approvals and, through the cached
  lookup, the registry's publish time. The blocklist is filled by a background sync
  (\<open>internal/blocklist/sync.go\<close>). What happened is queued to \<open>audit.Logger\<close>, whose writer appends
  it to a hash chain in the database (\<open>audit/chain.go\<close>); checkpoints of the head go to a file and
  a remote sink (\<open>audit/anchor.go\<close>), and the rows to external collectors (\<open>audit/forwarder.go\<close>).
  An instance may fetch through a peer: \<open>upstream/peer_egress.go\<close> wraps the request, with the
  chain of instances it has visited, and \<open>relay/handler.go\<close> of the peer serves it.
  A miss is fetched from an upstream: a selector picks one of the pool (\<open>upstream/selector.go\<close>,
  \<open>passive_recovery_selector.go\<close>, \<open>egress_selector.go\<close>), \<open>originRequestURL\<close> builds the URL, the guarded dialer
  and the redirect check of \<open>upstream/request.go\<close> decide where the connection may go, the end of the
  body reports the outcome to the upstream's health (\<open>pool.go\<close>, \<open>response_body.go\<close>), and an artifact that breaks
  off is resumed (\<open>artifact.go\<close>). The registry (\<open>registry.go\<close>, \<open>registry_mutation.go\<close>) changes the rows and
  swaps the pools under running requests. What was fetched is written under the key's lock
  (\<open>cache/key_mutation_gate.go\<close>), committed only if the key's generation was not invalidated in the meantime
  (\<open>cache/invalidation_state.go\<close>, \<open>manager.go\<close>), in a file named by \<open>cache/storagepath.go\<close>. Its first
  hash becomes a tamper baseline (\<open>tamper/recorder.go\<close>), and the baselines can be frozen as a snapshot
  that the checker then asks (\<open>snapshot/store.go\<close>). The administration is behind \<open>middleware/auth.go\<close>, the
  compiler cache behind credentials of its own (\<open>compilecache/auth.go\<close>).

  \<^bold>\<open>Theories and what they model\<close> (paths under \<open>src/internal/\<close>).

  \<^item> \<open>Prelude\<close>: results with errors (\<open>gerror + 'a\<close>, an error being the list of the sentinels it
    wraps), lists. \<open>Go_Strings\<close>, \<open>Go_Paths\<close>, \<open>Go_Strconv\<close>, \<open>Go_Path_Match\<close>, \<open>Go_Regexp\<close>: the
    functions of the Go library that the code uses, on byte strings with UTF-8 decoding, with
    a backtracking matcher for the one regular expression.
  \<^item> \<open>Comparators\<close>, \<open>Version_Contract\<close>: the locales \<open>symmetric_cmp\<close>, \<open>three_way\<close>,
    \<open>version_identity\<close> and \<open>version_order\<close>, the interface between a version dialect and the
    matchers. Every dialect interprets it on its own parser and comparison.
  \<^item> \<open>Lexical\<close>, \<open>Semver\<close>, \<open>Debian\<close>, \<open>Cran\<close>, \<open>Nuget\<close>, \<open>Pep440\<close>, \<open>Maven\<close>: the version dialects of
    \<open>packagepolicy\<close>: parsing, comparison, canonical form. \<open>Package_Names\<close>: validation and
    normalisation of names, prefixes and globs. \<open>Dialects\<close>: the registry.
  \<^item> \<open>Rule\<close>, \<open>Matcher\<close>: preparation of a rule and version matching (\<open>packagepolicy/rule.go\<close>,
    \<open>matcher.go\<close>). \<open>Ecosystem_Catalog\<close>: \<open>ecosystem/catalog.go\<close>.
  \<^item> \<open>Rule_Engine\<close>: compilation of rows, specificity, choice of the winner, explanation,
    incomplete artifacts (\<open>rules/engine.go\<close>). \<open>Rule_Store\<close>: \<open>rules/store.go\<close>.
    \<open>Engine_State\<close>, \<open>Engine_Liveness\<close>: the record \<open>Engine\<close> with the refresh protocol, fallback,
    backoff and status, and the relation \<open>sys_step\<close> that interleaves refreshes with writers.
  \<^item> \<open>Package_Key\<close>, \<open>Cache_Key\<close>: \<open>adapter/packagekey\<close>. \<open>Request_Target\<close>:
    \<open>rules/request_target.go\<close>. \<open>Policy_Middleware\<close>: \<open>rules/middleware.go\<close>, \<open>adapter_bridge.go\<close>,
    with the locale \<open>policy_check\<close> between the engine and its two clients.
  \<^item> \<open>Go_Time\<close>: durations and instants of the Go library. \<open>Name_Identity\<close>: equality of package
    names as the gates use it. \<open>Quarantine_Policy\<close>: \<open>quarantine/policy.go\<close> (thresholds, allow list).
    \<open>Quarantine_Lookup\<close>: the cached publish times (\<open>lookup.go\<close>). \<open>Quarantine_Store\<close>: approvals
    (\<open>store.go\<close>). \<open>Quarantine_Checker\<close>: the gate itself with its events (\<open>checker.go\<close>).
  \<^item> \<open>Blocklist\<close>: matcher, store and overrides. \<open>Blocklist_Sync\<close>: reading of an OSV archive, the
    replacement of an ecosystem's rows, the slot that keeps syncs apart.
  \<^item> \<open>Go_Encoding\<close>: SHA-256, hexadecimal, JSON strings and RFC 3339 times of the Go library, with
    their injectivity. \<open>Audit_Chain\<close>: the hash of a row, appending with retries as a step relation
    of concurrent writers (\<open>audit_reach\<close>), verification (\<open>chain.go\<close>, \<open>management.go\<close>).
    \<open>Audit_Anchor\<close>: checkpoints (\<open>anchor.go\<close>). \<open>Audit_Delivery\<close>: the queued writer
    (\<open>logger.go\<close>, relation \<open>logger_reach\<close>) and the forwarder (\<open>forwarder.go\<close>).
  \<^item> \<open>Go_Http\<close>: headers and parsed URLs. \<open>Cascade\<close>: \<open>cascade/cascade.go\<close>. \<open>Relay\<close>:
    \<open>relay/handler.go\<close> and \<open>upstream/peer_egress.go\<close>, with the paths \<open>relay_path\<close> of one request
    through several instances.
  \<^item> \<open>Mutation_Gate\<close>: the reference-counted lock of a key (\<open>cache/key_mutation_gate.go\<close>, relation \<open>gate_reach\<close>).
    \<open>Cache_Invalidation\<close>: generations and tombstones (\<open>cache/invalidation_state.go\<close>). \<open>Cache_Protocol\<close>:
    fills, refreshes, invalidations, readers and followers of \<open>cache/manager.go\<close> as threads whose
    steps end at each access to shared state (relation \<open>cache_reach\<close>). \<open>Storage_Path\<close>: file names.
  \<^item> \<open>Go_Net\<close>: addresses, prefixes and host-port pairs of the Go library. \<open>Network_Guard\<close>: the
    network part of \<open>upstream/request.go\<close>, with the relations \<open>dial_reach\<close> of concurrent dials and
    \<open>race_reach\<close> of the attempts of one dial. \<open>Origin_Request\<close>: request URLs.
  \<^item> \<open>Upstream_Health\<close>: an upstream with its health and the selectors (relation \<open>up_reach\<close>).
    \<open>Artifact_Resume\<close>: \<open>upstream/artifact.go\<close>. \<open>Upstream_Registry\<close>: pools, transactions and mutations;
    \<open>Registry_Invariant\<close>: their histories (relation \<open>registry_reach\<close>) and invariant.
  \<^item> \<open>Snapshot_Store\<close>: snapshots and baselines, with the relations \<open>snap_reach\<close> (any interleaving of
    their statements) and \<open>snap_history\<close> (operations and restarts). \<open>Access_Control\<close>: tokens, principals
    and the read and write checks (\<open>middleware\<close>). \<open>Compile_Cache\<close>: keys, object paths and credentials
    (\<open>compilecache/key.go\<close>, \<open>auth.go\<close>).

  \<^bold>\<open>What is shown.\<close> Dialects: each comparison that admits ranges is a total preorder on the
  accepted versions, canonical forms are accepted, stable and equal to their origin, number
  parsing is exact within its bounds; Maven's order has a cycle, which is why it has no
  ranges. Rules: preparation is idempotent, what it accepts compiles, opposite ranges are
  disjoint. Evaluation: the most specific matching rule decides, independently of row order;
  a deny beats an allow of the same shape; the explanation is the decision; an unidentified
  artifact is decided only when every identity it could have is decided alike. Engine: no
  invalidation is lost in any interleaving, outages end after one retry interval, the status
  is truthful. Gate: the code refines \<open>gate_spec\<close>, the documented policy; tampered rules fail
  closed; adapters and gate agree. Paths: project scopes do not change targets, nothing under
  the PyPI artifact subtree bypasses the rules, download paths and cache keys spell one
  identity. Quarantine: a request is refused exactly for the reasons the code lists, every
  refusal is handed to the store and the hook, approvals behave like one set of releases under every spelling.
  Blocklist: an imported advisory names exactly the versions of its sections and is refused
  after the sync, a failed sync changes nothing and none empties an ecosystem, syncs never
  overlap, an override lasts a day. Audit: a head hash fixes every row below it up to an explicit
  SHA-256 collision, concurrent writers never fork the chain, a stored checkpoint pins what was
  chained before it, the logger and the forwarder lose no row they accepted. Relay: a request
  never visits an instance twice and ends within the hop limit, credentials reach only the
  origin they belong to, freshness budgets are bounded. Cache: the bytes of
  a write that began before an invalidation are not read after it ended, the lock of a key is
  exclusive and never leaks, the registry of tombstones is bounded, keys do not share files.
  Upstreams: a connection never leaves the networks that the configured origin allows, in any
  interleaving and with a resolver that changes its answers; credentials stay on one origin
  from hop to hop; a request path stays below the base path; every opened connection is
  returned or closed once; a critical failure is final; one recovery is in flight at a time; the
  newest probe decides; resumed bytes belong to one object; pools, rows and workers agree after
  every history with any failure; a mutation leaves other upstreams and their verdicts alone.
  Snapshots: the first hash of a key is never overwritten, a frozen set allows the same versions for
  ever, a restart keeps the active snapshot. Access: whoever writes is an enabled administrator with a
  current session, or holds an unexpired token of one; object paths of the compiler cache belong
  to one artifact, and a credential grants its own namespace only.
  Other theorems record defects: an outage opens the age gate for a version, a malicious version
  in observe mode skips the other gates, a repeated package in one advisory stops the sync, a
  backlog of audit rows is posted ten times, a torn checkpoint line hides the next one, relayed
  answers are cached across credentials, a follower and a verified refresh can bring invalidated
  bytes back, credentials reach a subdomain on the second hop of a redirect, the recovery of
  a passive upstream takes longer the longer the outage was, snapshot-only mode refuses every Conda
  artifact, and a deletion that races with an activation leaves a snapshot active that is gone.

  \<^bold>\<open>Termination and bounds.\<close> Every loop is structural recursion or a \<open>function\<close> with a
  termination proof; no fuel is used. Counters that wrap are words of 64 bits; the theorem on
  invalidations holds for fewer than \<open>2 ^ 64\<close> of them, those on the cache while its clock of
  generations is below \<open>2 ^ 64\<close>. Times are integers in nanoseconds with the saturation of \<open>time.Sub\<close>.
  The success rate of an upstream is the exact quotient, which compares with the threshold like
  the one of the code for fewer than \<open>2 ^ 50\<close> requests.

  \<^bold>\<open>Parameters and hypotheses.\<close> \<open>externals\<close> holds the case mapping of \<open>golang.org/x/text\<close>, the
  tables of Unicode classes and the module path check of \<open>golang.org/x/mod\<close>; \<open>lower_english_ok\<close>
  and \<open>lower_english_marks\<close> say of the first that it is idempotent, keeps a text non-empty, and
  introduces no control characters, white space or selector marks. \<open>path_externals\<close> holds the case folding above ASCII and the module
  escaping, of which nothing is assumed. \<open>list_calls\<close> and \<open>rule_table\<close> stand for GORM over
  SQLite; \<open>rule_table_ok\<close> is the documented effect of its four statements. Each has a concrete
  instance (\<open>ascii_externals\<close>, \<open>ascii_paths\<close>, \<open>list_table\<close>). Likewise \<open>audit_table\<close> with
  \<open>audit_table_ok\<close> (instance \<open>list_audit\<close>) and \<open>exporter_table\<close> with \<open>exporter_table_ok\<close> (instance
  \<open>pair_exporters\<close>) stand for the audit tables; the calls to files, collectors and peers are given
  by their results (\<open>file_calls\<close>, \<open>batch_env\<close>, \<open>network\<close>), and \<open>json.Unmarshal\<close>, \<open>url.Parse\<close> and the
  cache manager are functions of which only what a theorem names is assumed. \<open>url_calls\<close> (instance
  \<open>plain_calls\<close>) holds the parser of URLs; the resolver's answer and the address that a dial reaches are
  arguments of each step. \<open>honest\<close> and \<open>env_ok\<close> say that a server which names a strong entity tag sends
  bytes of that representation. \<open>tx_env\<close>, \<open>publish_env\<close> and \<open>persist_env\<close> hold the errors of the single
  statements of a transaction, and a failed one leaves the rows as they were, as \<open>snap_env\<close> and \<open>auth_env\<close>
  do for snapshots and tokens; a new row gets an unused identifier. \<open>jwt_calls\<close> is the library that
  parses and signs JSON web tokens, of which nothing is assumed.

  \<^bold>\<open>Not modelled.\<close> Logging, telemetry and the record of blocked requests, which do not
  influence a decision; the HTTP framework, the database, the local and S3 stores with the eviction
  of entries, the streaming of a miss to its first client, the seeding of upstreams and the timers
  of probes, the protocol adapters' proxying, the administration and public interfaces,
  configuration loading, migrations, backups, licensing, the object service of the compile cache, the
  attribution of requests to projects and the command line:
  they are input and output, or serve the parts above without deciding anything.
\<close>

section \<open>From the rule table to the answer\<close>

lemma compileAll_Inr_iff:
  "is_Inr (compileAll E models) \<longleftrightarrow> list_all (\<lambda>m. is_Inr (compilePersistedRule E m)) models"
  by (induction models) (auto simp: is_Inr_iff split: sum.split)

lemma compileAll_snapshot:
  "compileAll E models = Inr compiled \<Longrightarrow> map cr_model compiled = models \<and> compiled_snapshot E compiled"
proof (induction models arbitrary: compiled)
  case (Cons m models)
  then show ?case
    using compile_untampered(2) by (fastforce simp: compiled_snapshot_def split: sum.split_asm)
qed (simp add: compiled_snapshot_def)

text \<open>A load that neither finds a fresh snapshot nor waits for the end of the backoff.\<close>

definition refresh_due :: "load_env \<Rightarrow> Engine \<Rightarrow> bool" where
  "refresh_due env e \<longleftrightarrow>
     \<not> snapshotFreshLocked e (le_now env) \<and> \<not> retryBackoffActiveLocked e (le_now env) \<and>
     \<not> snapshotFreshLocked e (le_locked env) \<and> \<not> retryBackoffActiveLocked e (le_locked env)"

lemma load_view_due: "refresh_due env e \<Longrightarrow> en_store e \<Longrightarrow> load_view E env e = read_view E (le_read env)"
  by (simp add: refresh_due_def load_view_def)

text \<open>
  C28: Tampering fails closed. If the refresh that a request triggers reads a row whose
  normalised columns are not what the preparation makes of its display columns, or whose
  action is neither of the two, every request for a package is answered with 503
  \<open>PACKAGE_POLICY_UNEVALUABLE\<close>: under each \<open>on_load_error\<close> policy, whatever snapshot was loaded
  before, and whatever the other rows say.
\<close>

theorem tampered_rule_fails_closed:
  assumes "en_optionErr e = None" and "en_store e" and "refresh_due env e"
    and "le_read env = Inr models" and "m \<in> set models" and "\<not> untampered E m"
    and "extractRequestTarget E X routes path = Some target"
  shows "snd (Middleware E X routes None env (Some e) path) = abortPolicyUnevaluable"
proof -
  have "\<not> is_Inr (compilePersistedRule E m)" using assms(6) compile_untampered(1) unfolding is_Inr_iff by blast
  then have "\<not> is_Inr (compileAll E models)" using assms(5) by (auto simp: compileAll_Inr_iff list_all_iff)
  then have "read_view E (le_read env) = Corrupt"
    using assms(4) by (auto simp: read_view_def is_Inr_iff split: sum.split)
  then show ?thesis
    using respond_view [OF load_view_correct [OF assms(1), of E env], of target] assms(7) load_view_due [OF assms(3,2)]
    by (simp add: Middleware_def check_target_decide gate_spec_def)
qed

definition tampered_row :: PackageRule where
  "tampered_row = (sample_rule 4 ''pypi'' ''requests'' ''*'' ''deny'')\<lparr>r_NormalizedPackageName := ''other''\<rparr>"

theorem tampered_rule_fails_closed_witness:
  "snd (Middleware ascii_externals ascii_paths [] None
     \<lparr>le_now = 10, le_locked = 11, le_read = Inr [sample_row, tampered_row], le_finished = 12\<rparr>
     (Some (NewEngine ascii_externals True [])) sample_path) = abortPolicyUnevaluable"
proof -
  let ?env = "\<lparr>le_now = 10, le_locked = 11, le_read = Inr [sample_row, tampered_row], le_finished = 12\<rparr>"
  let ?e = "NewEngine ascii_externals True []"
  have e: "en_optionErr ?e = None" "en_store ?e" "refresh_due ?env ?e" by code_simp+
  have "\<not> is_Inr (compilePersistedRule ascii_externals tampered_row)" by code_simp
  then have t: "\<not> untampered ascii_externals tampered_row" using untampered_compiles [OF ascii_externals_ok(1) ascii_marks] by blast
  show ?thesis
    using tampered_rule_fails_closed [OF e, of "[sample_row, tampered_row]" tampered_row ascii_externals ascii_paths "[]" sample_path]
      t sample_path_target by simp
qed

text \<open>
  Rules that are only written through the store never make the gate unevaluable. If the
  table started with sound rows and was changed by any sequence of the store's operations,
  then a load that reads it succeeds: it returns no error and, when it had to refresh, exactly
  the compiled rows that it read, in their order.
\<close>

theorem stored_rules_load:
  assumes "lower_english_ok E" and "lower_english_marks E" and "rule_table_ok T rows"
    and "\<forall>m \<in> rows db. untampered E m" and "set models \<subseteq> rows (store_run E T ops db)"
    and "en_optionErr e = None" and "en_store e" and "le_read env = Inr models"
  shows "\<exists>e' rules outcome. loadRulesWithState E env (Some e) = (e', rules, outcome, None) \<and>
    (refresh_due env e \<longrightarrow> outcome = loadOutcomeFresh \<and> map cr_model rules = models \<and> compiled_snapshot E rules)"
proof -
  have "rows_untampered E (rows (store_run E T ops db))"
    using store_run_untampered [OF assms(3)] assms(4) by (simp add: rows_untampered_def)
  then have "list_all (\<lambda>m. is_Inr (compilePersistedRule E m)) models"
    using untampered_compiles [OF assms(1,2)] assms(5) by (auto simp: rows_untampered_def list_all_iff)
  then obtain compiled where c: "compileAll E models = Inr compiled" using compileAll_Inr_iff is_Inr_iff by metis
  then have view: "read_view E (le_read env) = Current compiled" using assms(8) by (simp add: read_view_def)
  obtain e' rules outcome err where load: "loadRulesWithState E env (Some e) = (e', rules, outcome, err)"
    by (cases "loadRulesWithState E env (Some e)") auto
  have r: "view_result e (load_view E env e) (rules, outcome, err)"
    using load_view_correct [OF assms(6), of E env] load by simp
  moreover have "load_view E env e \<noteq> Corrupt" using view assms(7) by (simp add: load_view_def)
  ultimately have "err = None" by (cases "load_view E env e") auto
  moreover have "rules = compiled \<and> outcome = loadOutcomeFresh" if "refresh_due env e"
    using r load_view_due [OF that assms(7)] view by simp
  ultimately show ?thesis using load compileAll_snapshot [OF c] by auto
qed

theorem stored_rules_load_witness:
  "\<exists>e' rules. loadRulesWithState ascii_externals
     \<lparr>le_now = 10, le_locked = 11, le_read = Inr (store_run ascii_externals list_table sample_ops []), le_finished = 12\<rparr>
     (Some (NewEngine ascii_externals True [])) = (e', rules, loadOutcomeFresh, None) \<and> length rules = 1"
proof -
  let ?rows = "store_run ascii_externals list_table sample_ops []"
  let ?env = "\<lparr>le_now = 10, le_locked = 11, le_read = Inr ?rows, le_finished = 12\<rparr>"
  let ?e = "NewEngine ascii_externals True []"
  have e: "en_optionErr ?e = None" "en_store ?e" by code_simp+
  have d: "refresh_due ?env ?e" by (simp add: refresh_due_def snapshotFreshLocked_def retryBackoffActiveLocked_def NewEngine_def)
  have "length ?rows = 1" by code_simp
  moreover obtain e' rules outcome where "loadRulesWithState ascii_externals ?env (Some ?e) = (e', rules, outcome, None)"
    "outcome = loadOutcomeFresh" "map cr_model rules = ?rows"
    using stored_rules_load [OF ascii_externals_ok(1) ascii_marks list_table_ok _ subset_refl e, of "[]" ?env sample_ops] d
    by auto
  moreover have "length rules = length (map cr_model rules)" by simp
  ultimately show ?thesis by (metis (no_types))
qed

end
